(* ===== verification/Prelude.thy ===== *)
theory Prelude
  imports Main "HOL-Library.Word"
begin

text \<open>
  Shared vocabulary of the development: machine integers and identifier types
  (\<^verbatim>\<open>src/prelude.rs\<close>), error codes and the result type (\<^verbatim>\<open>src/error.rs\<close>), the constants of
  \<^verbatim>\<open>src/constants.rs\<close>, Rust's checked arithmetic, and slices of byte arrays.

  Conventions used by every theory: \<open>u8\<close> to \<open>u64\<close> are machine words;
  \<open>usize\<close> values (offsets, lengths, indices) are natural numbers, and a subtraction or an index
  which would panic in Rust is an explicit \<open>Panic\<close> branch. The fallible type is
  \<open>fault + 'a\<close>: \<open>Inl (Err e)\<close> is an \<open>Err(Ext4Error)\<close> value with code \<open>e\<close>, \<open>Inl Panic\<close> a
  panic (index out of bounds, arithmetic overflow with overflow checks, a failed \<open>expect\<close>) or,
  where the code reads through raw pointers, an access outside the object.
\<close>

unbundle bit_operations_syntax

section \<open>Types\<close>

type_synonym u8 = "8 word"
type_synonym u16 = "16 word"
type_synonym u32 = "32 word"
type_synonym u64 = "64 word"
type_synonym bytes = "u8 list"

type_synonym LBlockId = u32
type_synonym PBlockId = u64
type_synonym InodeId = u32
type_synonym BlockGroupId = u32

datatype ErrCode =
    EPERM | ENOENT | EIO | EAGAIN | ENXIO | E2BIG | ENOMEM | EACCES | EFAULT | EEXIST
  | ENODEV | ENOTDIR | EISDIR | EINVAL | EFBIG | ENOSPC | EROFS | EMLINK | ERANGE
  | ENAMETOOLONG | ENOTEMPTY | ENODATA | ENOTSUP

datatype fault = Err ErrCode | Panic

type_synonym 'a res = "fault + 'a"

fun errno :: "ErrCode \<Rightarrow> int" where
  "errno EPERM = 1"
| "errno ENOENT = 2"
| "errno EIO = 5"
| "errno EAGAIN = 11"
| "errno ENXIO = 6"
| "errno E2BIG = 7"
| "errno ENOMEM = 12"
| "errno EACCES = 13"
| "errno EFAULT = 14"
| "errno EEXIST = 17"
| "errno ENODEV = 19"
| "errno ENOTDIR = 20"
| "errno EISDIR = 21"
| "errno EINVAL = 22"
| "errno EFBIG = 27"
| "errno ENOSPC = 28"
| "errno EROFS = 30"
| "errno EMLINK = 31"
| "errno ERANGE = 34"
| "errno ENAMETOOLONG = 36"
| "errno ENOTEMPTY = 39"
| "errno ENODATA = 61"
| "errno ENOTSUP = 95"

section \<open>Constants\<close>

definition BLOCK_SIZE :: nat where "BLOCK_SIZE = 4096"
definition INODE_BLOCK_SIZE :: nat where "INODE_BLOCK_SIZE = 512"
definition BASE_OFFSET :: nat where "BASE_OFFSET = 1024"
definition CRC32_INIT :: u32 where "CRC32_INIT = 0xFFFFFFFF"
definition EXT4_ROOT_INO :: InodeId where "EXT4_ROOT_INO = 2"
definition SB_GOOD_INODE_SIZE :: nat where "SB_GOOD_INODE_SIZE = 256"
definition SB_GOOD_DESC_SIZE :: nat where "SB_GOOD_DESC_SIZE = 64"
definition USIZE_LIMIT :: nat where "USIZE_LIMIT = 2 ^ 64"

section \<open>Results\<close>

fun rbind :: "'a res \<Rightarrow> ('a \<Rightarrow> 'b res) \<Rightarrow> 'b res" where
  "rbind (Inl e) f = Inl e"
| "rbind (Inr x) f = f x"

fun is_ok :: "'a res \<Rightarrow> bool" where
  "is_ok (Inl _) = False"
| "is_ok (Inr _) = True"

fun ok_or :: "'a option \<Rightarrow> ErrCode \<Rightarrow> 'a res" where
  "ok_or None e = Inl (Err e)"
| "ok_or (Some x) e = Inr x"

definition guard :: "bool \<Rightarrow> fault \<Rightarrow> unit res" where
  "guard b e = (if b then Inr () else Inl e)"

lemma rbind_cong [fundef_cong]:
  "m = m' \<Longrightarrow> (\<And>x. m' = Inr x \<Longrightarrow> f x = g x) \<Longrightarrow> rbind m f = rbind m' g"
  by (cases m') auto

lemma rbind_eq_Inr: "rbind m f = Inr y \<longleftrightarrow> (\<exists>x. m = Inr x \<and> f x = Inr y)"
  by (cases m) auto

lemma rbind_eq_Inl: "rbind m f = Inl e \<longleftrightarrow> m = Inl e \<or> (\<exists>x. m = Inr x \<and> f x = Inl e)"
  by (cases m) auto

lemma rbind_assoc: "rbind (rbind m f) g = rbind m (\<lambda>x. rbind (f x) g)"
  by (cases m) auto

lemma rbind_Inr_right [simp]: "rbind m Inr = m"
  by (cases m) auto

lemma guard_simps [simp]:
  "guard True e = Inr ()" "guard False e = Inl e"
  "guard b e = Inr u \<longleftrightarrow> b" "guard b e = Inl e' \<longleftrightarrow> \<not> b \<and> e = e'"
  by (auto simp: guard_def)

lemma rbind_guard: "rbind (guard b e) f = (if b then f () else Inl e)"
  by (simp add: guard_def)

lemma is_ok_iff: "is_ok m \<longleftrightarrow> (\<exists>x. m = Inr x)"
  by (cases m) auto

lemma is_ok_guard [simp]: "is_ok (guard b e) = b"
  by (simp add: guard_def)

lemma ok_or_eq_Inr [simp]: "ok_or m e = Inr x \<longleftrightarrow> m = Some x"
  by (cases m) auto

lemmas res_elims = rbind_eq_Inr rbind_eq_Inl

text \<open>The operator \<^verbatim>\<open>?\<close> in code that also changes a state: the state reached is kept on errors.\<close>

definition sbind :: "'s \<times> ('e + 'a) \<Rightarrow> ('s \<Rightarrow> 'a \<Rightarrow> 's \<times> ('e + 'b)) \<Rightarrow> 's \<times> ('e + 'b)" where
  "sbind m f = (case m of (s, Inl e) \<Rightarrow> (s, Inl e) | (s, Inr x) \<Rightarrow> f s x)"

lemma sbind_simps [simp]:
  "sbind (s, Inl e) f = (s, Inl e)" "sbind (s, Inr x) f = f s x"
  by (simp_all add: sbind_def)

lemma sbind_cong [fundef_cong]:
  "m = m' \<Longrightarrow> (\<And>s x. m' = (s, Inr x) \<Longrightarrow> f s x = g s x) \<Longrightarrow> sbind m f = sbind m' g"
  by (cases m'; cases "snd m'") (auto simp: sbind_def)

lemma sbind_eq_Inr: "sbind m f = (s', Inr y) \<longleftrightarrow> (\<exists>s x. m = (s, Inr x) \<and> f s x = (s', Inr y))"
  by (cases m; cases "snd m") (auto simp: sbind_def)

lemma sbind_eq_Inl:
  "sbind m f = (s', Inl e) \<longleftrightarrow> m = (s', Inl e) \<or> (\<exists>s x. m = (s, Inr x) \<and> f s x = (s', Inl e))"
  by (cases m; cases "snd m") (auto simp: sbind_def)

section \<open>Checked and saturating arithmetic\<close>

definition checked_add :: "'a::len word \<Rightarrow> 'a word \<Rightarrow> 'a word option" where
  "checked_add a b = (if unat a + unat b < 2 ^ LENGTH('a) then Some (a + b) else None)"

definition checked_sub :: "'a::len word \<Rightarrow> 'a word \<Rightarrow> 'a word option" where
  "checked_sub a b = (if b \<le> a then Some (a - b) else None)"

definition saturating_sub :: "'a::len word \<Rightarrow> 'a word \<Rightarrow> 'a word" where
  "saturating_sub a b = (if b \<le> a then a - b else 0)"

definition saturating_mul :: "'a::len word \<Rightarrow> 'a word \<Rightarrow> 'a word" where
  "saturating_mul a b = (if unat a * unat b < 2 ^ LENGTH('a) then a * b else -1)"

definition div_ceil :: "nat \<Rightarrow> nat \<Rightarrow> nat" where
  "div_ceil a b = (if a mod b = 0 then a div b else a div b + 1)"

text \<open>\<open>a + b\<close> with overflow checks: a panic when the sum leaves the type.\<close>

definition add_chk :: "'a::len word \<Rightarrow> 'a word \<Rightarrow> 'a word res" where
  "add_chk a b = (if unat a + unat b < 2 ^ LENGTH('a) then Inr (a + b) else Inl Panic)"

definition sub_chk :: "'a::len word \<Rightarrow> 'a word \<Rightarrow> 'a word res" where
  "sub_chk a b = (if b \<le> a then Inr (a - b) else Inl Panic)"

definition usize_checked_add :: "nat \<Rightarrow> nat \<Rightarrow> nat option" where
  "usize_checked_add a b = (if a + b < USIZE_LIMIT then Some (a + b) else None)"

definition usize_sub :: "nat \<Rightarrow> nat \<Rightarrow> nat res" where
  "usize_sub a b = (if b \<le> a then Inr (a - b) else Inl Panic)"

lemma unat_add_chk: "add_chk a b = Inr c \<Longrightarrow> unat c = unat a + unat b"
  by (auto simp: add_chk_def unat_word_ariths split: if_splits)

lemma unat_checked_add: "checked_add a b = Some c \<Longrightarrow> unat c = unat a + unat b"
  by (auto simp: checked_add_def unat_word_ariths split: if_splits)

lemma unat_sub_le: "(b::'a::len word) \<le> a \<Longrightarrow> unat (a - b) = unat a - unat b"
  by (rule unat_sub)

lemma unat_add_lt: "unat (a::'a::len word) + unat b < 2 ^ LENGTH('a) \<Longrightarrow> unat (a + b) = unat a + unat b"
  by (simp add: unat_word_ariths)

lemma unat_lt: "unat (a::'a::len word) < 2 ^ LENGTH('a)"
  by (rule unsigned_less)

lemma unat_word_of_nat: "n < 2 ^ LENGTH('a) \<Longrightarrow> unat (word_of_nat n :: 'a::len word) = n"
  by (simp add: unsigned_of_nat take_bit_nat_eq_self)

lemma unat_inject: "unat a = unat b \<longleftrightarrow> a = (b :: 'a::len word)"
  by (auto intro: unsigned_word_eqI)

lemma div_ceil_bounds:
  assumes b: "0 < b"
  shows "a \<le> div_ceil a b * b \<and> div_ceil a b * b < a + b"
proof -
  obtain q r where a: "a = b * q + r" and r: "r < b"
    using b by (metis mod_less_divisor mult_div_mod_eq)
  then have "a div b = q" "a mod b = r" by simp_all
  then show ?thesis using a r by (auto simp: div_ceil_def algebra_simps)
qed

lemma div_ceil_dvd: "0 < b \<Longrightarrow> b dvd a \<Longrightarrow> div_ceil a b * b = a"
  by (auto simp: div_ceil_def)

section \<open>Slices\<close>

text \<open>
  \<open>slice xs off n\<close> is the window \<open>xs[off .. off + n]\<close> and \<open>splice xs off ys\<close> the array after
  \<open>xs[off .. off + len ys].copy_from_slice(ys)\<close>, both where the window is inside the array;
  the operations of the model check that first.
\<close>

definition slice :: "'a list \<Rightarrow> nat \<Rightarrow> nat \<Rightarrow> 'a list" where
  "slice xs off n = take n (drop off xs)"

definition splice :: "'a list \<Rightarrow> nat \<Rightarrow> 'a list \<Rightarrow> 'a list" where
  "splice xs off ys = take off xs @ ys @ drop (off + length ys) xs"

lemma length_slice [simp]: "off + n \<le> length xs \<Longrightarrow> length (slice xs off n) = n"
  by (simp add: slice_def)

lemma length_splice [simp]: "off + length ys \<le> length xs \<Longrightarrow> length (splice xs off ys) = length xs"
  by (simp add: splice_def)

lemma nth_slice: "i < n \<Longrightarrow> off + n \<le> length xs \<Longrightarrow> slice xs off n ! i = xs ! (off + i)"
  by (simp add: slice_def)

lemma nth_splice:
  "off + length ys \<le> length xs \<Longrightarrow> i < length xs \<Longrightarrow>
   splice xs off ys ! i = (if off \<le> i \<and> i < off + length ys then ys ! (i - off) else xs ! i)"
  by (auto simp: splice_def nth_append)

lemma slice_splice_same [simp]:
  "off + length ys \<le> length xs \<Longrightarrow> n = length ys \<Longrightarrow> slice (splice xs off ys) off n = ys"
  by (simp add: slice_def splice_def)

lemma slice_splice_disjoint:
  assumes "off + length ys \<le> length xs" "o2 + n \<le> length xs" "o2 + n \<le> off \<or> off + length ys \<le> o2"
  shows "slice (splice xs off ys) o2 n = slice xs o2 n"
  using assms by (intro nth_equalityI) (auto simp: nth_slice nth_splice)

lemma splice_slice_id: "off + n \<le> length xs \<Longrightarrow> splice xs off (slice xs off n) = xs"
  by (intro nth_equalityI) (auto simp: nth_slice nth_splice)

lemma splice_splice_same:
  "off + length ys \<le> length xs \<Longrightarrow> length zs = length ys \<Longrightarrow>
   splice (splice xs off ys) off zs = splice xs off zs"
  by (intro nth_equalityI) (auto simp: nth_splice)

lemma take_splice_ge: "n \<le> off \<Longrightarrow> off \<le> length xs \<Longrightarrow> take n (splice xs off ys) = take n xs"
  by (simp add: splice_def min_def)

lemma drop_splice_le:
  "off + length ys \<le> n \<Longrightarrow> off + length ys \<le> length xs \<Longrightarrow> drop n (splice xs off ys) = drop n xs"
  by (simp add: splice_def)

lemma slice_append_right: "length xs = off \<Longrightarrow> slice (xs @ ys) (off + k) n = slice ys k n"
  by (simp add: slice_def)

lemma slice_append_mid: "off = length xs \<Longrightarrow> n = length ys \<Longrightarrow> slice (xs @ ys @ zs) off n = ys"
  by (simp add: slice_def)

lemma splice_append_mid:
  "off = length xs \<Longrightarrow> length ys' = length ys \<Longrightarrow> splice (xs @ ys @ zs) off ys' = xs @ ys' @ zs"
  by (simp add: splice_def)

lemma slice_take: "off + n \<le> m \<Longrightarrow> slice (take m xs) off n = slice xs off n"
  by (simp add: slice_def drop_take min_def)

lemma slice_0: "slice xs 0 n = take n xs"
  by (simp add: slice_def)

lemma slice_slice: "k + m \<le> n \<Longrightarrow> slice (slice xs off n) k m = slice xs (off + k) m"
  by (simp add: slice_def drop_take add.commute min_def)

lemma list_splits3:
  assumes "off + n \<le> length xs"
  shows "xs = take off xs @ slice xs off n @ drop (off + n) xs"
proof -
  have "drop off xs = slice xs off n @ drop (off + n) xs"
    by (metis add.commute append_take_drop_id drop_drop slice_def)
  then show ?thesis by (metis append_take_drop_id)
qed

text \<open>Reads and writes with Rust's bounds check.\<close>

definition get_range :: "'a list \<Rightarrow> nat \<Rightarrow> nat \<Rightarrow> 'a list option" where
  "get_range xs off n = (if off + n \<le> length xs then Some (slice xs off n) else None)"

definition index_range :: "'a list \<Rightarrow> nat \<Rightarrow> nat \<Rightarrow> 'a list res" where
  "index_range xs off n = (if off + n \<le> length xs then Inr (slice xs off n) else Inl Panic)"

definition index_at :: "'a list \<Rightarrow> nat \<Rightarrow> 'a res" where
  "index_at xs i = (if i < length xs then Inr (xs ! i) else Inl Panic)"

definition write_range :: "'a list \<Rightarrow> nat \<Rightarrow> 'a list \<Rightarrow> 'a list res" where
  "write_range xs off ys = (if off + length ys \<le> length xs then Inr (splice xs off ys) else Inl Panic)"

lemma index_range_ok [simp]: "off + n \<le> length xs \<Longrightarrow> index_range xs off n = Inr (slice xs off n)"
  by (simp add: index_range_def)

lemma index_at_ok [simp]: "i < length xs \<Longrightarrow> index_at xs i = Inr (xs ! i)"
  by (simp add: index_at_def)

lemma write_range_ok [simp]:
  "off + length ys \<le> length xs \<Longrightarrow> write_range xs off ys = Inr (splice xs off ys)"
  by (simp add: write_range_def)

lemma write_range_length: "write_range xs off ys = Inr zs \<Longrightarrow> length zs = length xs"
  by (auto simp: write_range_def split: if_splits)

section \<open>Association lists with duplicates\<close>

text \<open>What in-place updates of a directory or attribute block do to its list of names.\<close>

fun update_first :: "'a \<Rightarrow> 'b \<Rightarrow> ('a \<times> 'b) list \<Rightarrow> ('a \<times> 'b) list" where
  "update_first k v [] = []"
| "update_first k v (x # xs) = (if fst x = k then (k, v) # xs else x # update_first k v xs)"

fun delete_first :: "'a \<Rightarrow> ('a \<times> 'b) list \<Rightarrow> ('a \<times> 'b) list" where
  "delete_first k [] = []"
| "delete_first k (x # xs) = (if fst x = k then xs else x # delete_first k xs)"

lemma in_fst_image: "(a, b) \<in> S \<Longrightarrow> a \<in> fst ` S"
  by force

lemma map_of_update_first:
  "map_of (update_first n v xs) n' = (if n' = n \<and> n \<in> fst ` set xs then Some v else map_of xs n')"
  by (induction xs) (auto dest: in_fst_image)

lemma map_of_delete_first:
  "distinct (map fst xs) \<Longrightarrow> map_of (delete_first n xs) = (map_of xs)(n := None)"
proof (induction xs)
  case (Cons x xs)
  have "fst x \<notin> set (map fst xs)" using Cons.prems by simp
  then have "map_of xs (fst x) = None" by (simp add: map_of_eq_None_iff)
  then show ?case using Cons by (cases x) (auto simp: fun_eq_iff)
qed auto

end
