(* ===== verification/Bytes.thy ===== *)
theory Bytes
  imports Prelude
begin

text \<open>
  Little- and big-endian encodings of machine integers (\<open>to_le_bytes\<close>, \<open>from_le_bytes\<close>,
  \<open>to_be_bytes\<close>, \<open>from_be_bytes\<close>), generic in the width. On-disk ext4 structures are
  little-endian; JBD2 blocks are big-endian. The round-trip laws are proved once, by comparing
  bits.
\<close>

definition le_bytes :: "nat \<Rightarrow> 'a::len word \<Rightarrow> bytes" where
  "le_bytes k w = map (\<lambda>i. ucast (drop_bit (8 * i) w)) [0..<k]"

fun of_le :: "bytes \<Rightarrow> 'a::len word" where
  "of_le [] = 0"
| "of_le (b # bs) = ucast b OR push_bit 8 (of_le bs)"

definition be_bytes :: "nat \<Rightarrow> 'a::len word \<Rightarrow> bytes" where
  "be_bytes k w = rev (le_bytes k w)"

definition of_be :: "bytes \<Rightarrow> 'a::len word" where
  "of_be bs = of_le (rev bs)"

abbreviation le16 :: "u16 \<Rightarrow> bytes" where "le16 \<equiv> le_bytes 2"
abbreviation le32 :: "u32 \<Rightarrow> bytes" where "le32 \<equiv> le_bytes 4"
abbreviation le64 :: "u64 \<Rightarrow> bytes" where "le64 \<equiv> le_bytes 8"
abbreviation be16 :: "u16 \<Rightarrow> bytes" where "be16 \<equiv> be_bytes 2"
abbreviation be32 :: "u32 \<Rightarrow> bytes" where "be32 \<equiv> be_bytes 4"
abbreviation be64 :: "u64 \<Rightarrow> bytes" where "be64 \<equiv> be_bytes 8"

lemma length_le_bytes [simp]: "length (le_bytes k w) = k"
  by (simp add: le_bytes_def)

lemma length_be_bytes [simp]: "length (be_bytes k w) = k"
  by (simp add: be_bytes_def)

lemma nth_le_bytes: "i < k \<Longrightarrow> le_bytes k w ! i = ucast (drop_bit (8 * i) w)"
  by (simp add: le_bytes_def)

lemma bit_of_le:
  "bit (of_le bs :: 'a::len word) n \<longleftrightarrow>
   n < LENGTH('a) \<and> n div 8 < length bs \<and> bit (bs ! (n div 8)) (n mod 8)"
proof (induction bs arbitrary: n)
  case Nil
  then show ?case by simp
next
  case (Cons b bs)
  show ?case
  proof (cases "n < 8")
    case True
    then show ?thesis by (auto simp: bit_simps)
  next
    case False
    then have "n div 8 = Suc ((n - 8) div 8)" "n mod 8 = (n - 8) mod 8"
      by (simp_all add: le_div_geq le_mod_geq not_less)
    moreover have "\<not> bit b n" using False bit_imp_le_length [of b n] by auto
    ultimately show ?thesis using False Cons.IH [of "n - 8"]
      by (auto simp: bit_simps not_less)
  qed
qed

lemma of_le_le_bytes:
  fixes w :: "'a::len word"
  assumes "LENGTH('a) \<le> 8 * k"
  shows "of_le (le_bytes k w) = w"
proof (rule bit_word_eqI)
  fix n assume n: "n < LENGTH('a)"
  then have "n div 8 < k" using assms by linarith
  then show "bit (of_le (le_bytes k w) :: 'a word) n = bit w n"
    using n by (simp add: bit_of_le nth_le_bytes bit_simps)
qed

lemma le_bytes_of_le:
  assumes "8 * length bs \<le> LENGTH('a::len)"
  shows "le_bytes (length bs) (of_le bs :: 'a word) = bs"
proof (rule nth_equalityI)
  show "length (le_bytes (length bs) (of_le bs :: 'a word)) = length bs" by simp
next
  fix i assume i: "i < length (le_bytes (length bs) (of_le bs :: 'a word))"
  show "le_bytes (length bs) (of_le bs :: 'a word) ! i = bs ! i"
  proof (rule bit_word_eqI)
    fix n :: nat assume n: "n < LENGTH(8)"
    have d: "(8 * i + n) div 8 = i" "(8 * i + n) mod 8 = n" using n by simp_all
    have "8 * i + n < LENGTH('a)" using i n assms by simp
    then show "bit (le_bytes (length bs) (of_le bs :: 'a word) ! i) n = bit (bs ! i) n"
      using i n d by (simp add: nth_le_bytes bit_simps bit_of_le)
  qed
qed

lemma of_be_be_bytes:
  fixes w :: "'a::len word"
  assumes "LENGTH('a) \<le> 8 * k"
  shows "of_be (be_bytes k w) = w"
  using assms by (simp add: of_be_def be_bytes_def of_le_le_bytes)

lemma be_bytes_of_be:
  assumes "8 * length bs \<le> LENGTH('a::len)"
  shows "be_bytes (length bs) (of_be bs :: 'a word) = bs"
  using le_bytes_of_le [of "rev bs", where 'a = 'a] assms by (simp add: of_be_def be_bytes_def)

lemma of_le_roundtrip [simp]:
  "of_le (le16 a) = a" "of_le (le32 b) = b" "of_le (le64 c) = c" "of_le [x] = (x :: u8)"
  by (simp_all add: of_le_le_bytes)

lemma of_be_roundtrip [simp]:
  "of_be (be16 a) = a" "of_be (be32 b) = b" "of_be (be64 c) = c"
  by (simp_all add: of_be_be_bytes)

lemma le_roundtrip:
  "length bs = 2 \<Longrightarrow> le16 (of_le bs) = bs"
  "length bs = 4 \<Longrightarrow> le32 (of_le bs) = bs"
  "length bs = 8 \<Longrightarrow> le64 (of_le bs) = bs"
  using le_bytes_of_le [of bs, where 'a = 16] le_bytes_of_le [of bs, where 'a = 32]
    le_bytes_of_le [of bs, where 'a = 64] by auto

lemma be_roundtrip:
  "length bs = 2 \<Longrightarrow> be16 (of_be bs) = bs"
  "length bs = 4 \<Longrightarrow> be32 (of_be bs) = bs"
  "length bs = 8 \<Longrightarrow> be64 (of_be bs) = bs"
  using be_bytes_of_be [of bs, where 'a = 16] be_bytes_of_be [of bs, where 'a = 32]
    be_bytes_of_be [of bs, where 'a = 64] by auto

section \<open>High and low halves\<close>

text \<open>
  Several on-disk fields are stored as a low and a high half. These two facts are what every
  getter/setter pair on such fields needs.
\<close>

lemma join_split16: "ucast (ucast (w :: u32) :: u16) OR push_bit 16 (ucast (ucast (drop_bit 16 w) :: u16)) = w"
  by (rule bit_word_eqI) (auto simp: bit_simps)

lemma join_split32: "ucast (ucast (w :: u64) :: u32) OR push_bit 32 (ucast (ucast (drop_bit 32 w) :: u32)) = w"
  by (rule bit_word_eqI) (auto simp: bit_simps)

lemma split_join16:
  "ucast (ucast (lo :: u16) OR push_bit 16 (ucast (hi :: u16)) :: u32) = lo"
  "ucast (drop_bit 16 (ucast (lo :: u16) OR push_bit 16 (ucast (hi :: u16)) :: u32)) = hi"
  by (rule bit_word_eqI; auto simp: bit_simps dest: bit_imp_le_length)+

lemma split_join32:
  "ucast (ucast (lo :: u32) OR push_bit 32 (ucast (hi :: u32)) :: u64) = lo"
  "ucast (drop_bit 32 (ucast (lo :: u32) OR push_bit 32 (ucast (hi :: u32)) :: u64)) = hi"
  by (rule bit_word_eqI; auto simp: bit_simps dest: bit_imp_le_length)+

lemma unat_lt_bit:
  assumes "unat (w :: 'a::len word) < 2 ^ k" "k \<le> n"
  shows "\<not> bit w n"
proof -
  have "w = take_bit k w"
    by (metis assms(1) take_bit_nat_eq_self unsigned_take_bit_eq unsigned_word_eqI)
  then show ?thesis using assms(2) by (metis bit_take_bit_iff linorder_not_le)
qed

end
