(* ===== verification/Crc.thy ===== *)
theory Crc
  imports Bytes
begin

text \<open>
  The CRC32C of \<^verbatim>\<open>src/ext4_defs/crc.rs\<close>: the 256-entry table, copied digit by digit, and the
  byte-wise update loop. The lemmas relate the table to the bit-serial reflected division by
  the Castagnoli polynomial, give the chaining law every checksum of the program uses, and show
  that the update is a bijection in the running value and injective in the byte, so that any change
  confined to one byte changes the result.
\<close>

definition CRC32C_TAB :: "u32 list" where
  "CRC32C_TAB = [
    0x00000000, 0xF26B8303, 0xE13B70F7, 0x1350F3F4, 0xC79A971F, 0x35F1141C, 0x26A1E7E8, 0xD4CA64EB,
    0x8AD958CF, 0x78B2DBCC, 0x6BE22838, 0x9989AB3B, 0x4D43CFD0, 0xBF284CD3, 0xAC78BF27, 0x5E133C24,
    0x105EC76F, 0xE235446C, 0xF165B798, 0x030E349B, 0xD7C45070, 0x25AFD373, 0x36FF2087, 0xC494A384,
    0x9A879FA0, 0x68EC1CA3, 0x7BBCEF57, 0x89D76C54, 0x5D1D08BF, 0xAF768BBC, 0xBC267848, 0x4E4DFB4B,
    0x20BD8EDE, 0xD2D60DDD, 0xC186FE29, 0x33ED7D2A, 0xE72719C1, 0x154C9AC2, 0x061C6936, 0xF477EA35,
    0xAA64D611, 0x580F5512, 0x4B5FA6E6, 0xB93425E5, 0x6DFE410E, 0x9F95C20D, 0x8CC531F9, 0x7EAEB2FA,
    0x30E349B1, 0xC288CAB2, 0xD1D83946, 0x23B3BA45, 0xF779DEAE, 0x05125DAD, 0x1642AE59, 0xE4292D5A,
    0xBA3A117E, 0x4851927D, 0x5B016189, 0xA96AE28A, 0x7DA08661, 0x8FCB0562, 0x9C9BF696, 0x6EF07595,
    0x417B1DBC, 0xB3109EBF, 0xA0406D4B, 0x522BEE48, 0x86E18AA3, 0x748A09A0, 0x67DAFA54, 0x95B17957,
    0xCBA24573, 0x39C9C670, 0x2A993584, 0xD8F2B687, 0x0C38D26C, 0xFE53516F, 0xED03A29B, 0x1F682198,
    0x5125DAD3, 0xA34E59D0, 0xB01EAA24, 0x42752927, 0x96BF4DCC, 0x64D4CECF, 0x77843D3B, 0x85EFBE38,
    0xDBFC821C, 0x2997011F, 0x3AC7F2EB, 0xC8AC71E8, 0x1C661503, 0xEE0D9600, 0xFD5D65F4, 0x0F36E6F7,
    0x61C69362, 0x93AD1061, 0x80FDE395, 0x72966096, 0xA65C047D, 0x5437877E, 0x4767748A, 0xB50CF789,
    0xEB1FCBAD, 0x197448AE, 0x0A24BB5A, 0xF84F3859, 0x2C855CB2, 0xDEEEDFB1, 0xCDBE2C45, 0x3FD5AF46,
    0x7198540D, 0x83F3D70E, 0x90A324FA, 0x62C8A7F9, 0xB602C312, 0x44694011, 0x5739B3E5, 0xA55230E6,
    0xFB410CC2, 0x092A8FC1, 0x1A7A7C35, 0xE811FF36, 0x3CDB9BDD, 0xCEB018DE, 0xDDE0EB2A, 0x2F8B6829,
    0x82F63B78, 0x709DB87B, 0x63CD4B8F, 0x91A6C88C, 0x456CAC67, 0xB7072F64, 0xA457DC90, 0x563C5F93,
    0x082F63B7, 0xFA44E0B4, 0xE9141340, 0x1B7F9043, 0xCFB5F4A8, 0x3DDE77AB, 0x2E8E845F, 0xDCE5075C,
    0x92A8FC17, 0x60C37F14, 0x73938CE0, 0x81F80FE3, 0x55326B08, 0xA759E80B, 0xB4091BFF, 0x466298FC,
    0x1871A4D8, 0xEA1A27DB, 0xF94AD42F, 0x0B21572C, 0xDFEB33C7, 0x2D80B0C4, 0x3ED04330, 0xCCBBC033,
    0xA24BB5A6, 0x502036A5, 0x4370C551, 0xB11B4652, 0x65D122B9, 0x97BAA1BA, 0x84EA524E, 0x7681D14D,
    0x2892ED69, 0xDAF96E6A, 0xC9A99D9E, 0x3BC21E9D, 0xEF087A76, 0x1D63F975, 0x0E330A81, 0xFC588982,
    0xB21572C9, 0x407EF1CA, 0x532E023E, 0xA145813D, 0x758FE5D6, 0x87E466D5, 0x94B49521, 0x66DF1622,
    0x38CC2A06, 0xCAA7A905, 0xD9F75AF1, 0x2B9CD9F2, 0xFF56BD19, 0x0D3D3E1A, 0x1E6DCDEE, 0xEC064EED,
    0xC38D26C4, 0x31E6A5C7, 0x22B65633, 0xD0DDD530, 0x0417B1DB, 0xF67C32D8, 0xE52CC12C, 0x1747422F,
    0x49547E0B, 0xBB3FFD08, 0xA86F0EFC, 0x5A048DFF, 0x8ECEE914, 0x7CA56A17, 0x6FF599E3, 0x9D9E1AE0,
    0xD3D3E1AB, 0x21B862A8, 0x32E8915C, 0xC083125F, 0x144976B4, 0xE622F5B7, 0xF5720643, 0x07198540,
    0x590AB964, 0xAB613A67, 0xB831C993, 0x4A5A4A90, 0x9E902E7B, 0x6CFBAD78, 0x7FAB5E8C, 0x8DC0DD8F,
    0xE330A81A, 0x115B2B19, 0x020BD8ED, 0xF0605BEE, 0x24AA3F05, 0xD6C1BC06, 0xC5914FF2, 0x37FACCF1,
    0x69E9F0D5, 0x9B8273D6, 0x88D28022, 0x7AB90321, 0xAE7367CA, 0x5C18E4C9, 0x4F48173D, 0xBD23943E,
    0xF36E6F75, 0x0105EC76, 0x12551F82, 0xE03E9C81, 0x34F4F86A, 0xC69F7B69, 0xD5CF889D, 0x27A40B9E,
    0x79B737BA, 0x8BDCB4B9, 0x988C474D, 0x6AE7C44E, 0xBE2DA0A5, 0x4C4623A6, 0x5F16D052, 0xAD7D5351
  ]"

definition crc_step :: "u32 \<Rightarrow> u8 \<Rightarrow> u32" where
  "crc_step crc byte = CRC32C_TAB ! unat (ucast crc XOR byte) XOR drop_bit 8 crc"

definition crc32 :: "u32 \<Rightarrow> bytes \<Rightarrow> u32" where
  "crc32 crc_init data = foldl crc_step crc_init data"

section \<open>Reference: bit-serial CRC\<close>

definition crc_bit :: "u32 \<Rightarrow> u32" where
  "crc_bit c = (if bit c 0 then drop_bit 1 c XOR 0x82F63B78 else drop_bit 1 c)"

definition crc_ref_step :: "u32 \<Rightarrow> u8 \<Rightarrow> u32" where
  "crc_ref_step crc byte = (crc_bit ^^ 8) (crc XOR ucast byte)"

definition crc32_ref :: "u32 \<Rightarrow> bytes \<Rightarrow> u32" where
  "crc32_ref crc_init data = foldl crc_ref_step crc_init data"

lemma length_CRC32C_TAB [simp]: "length CRC32C_TAB = 256"
  by (simp add: CRC32C_TAB_def)


section \<open>The table is the bit-serial remainder of every byte\<close>

fun double_tab :: "u32 list \<Rightarrow> u32 list \<Rightarrow> u32 list" where
  "double_tab [] t = t"
| "double_tab (b # bs) t = double_tab bs (t @ map (\<lambda>x. x XOR b) t)"

definition crc_basis :: "u32 list" where
  "crc_basis = [0xF26B8303, 0xE13B70F7, 0xC79A971F, 0x8AD958CF, 0x105EC76F, 0x20BD8EDE, 0x417B1DBC,
     0x82F63B78]"

lemma crc_tab_doubling: "CRC32C_TAB = double_tab crc_basis [0]"
  by (simp add: CRC32C_TAB_def crc_basis_def)

lemma funpow_8: "(f ^^ 8) x = f (f (f (f (f (f (f (f x)))))))"
  by (simp add: eval_nat_numeral)

lemma crc_basis_remainders: "crc_basis = map (\<lambda>i. (crc_bit ^^ 8) (2 ^ i)) [0..<8]"
proof -
  have "map F [0..<8] = [F 0, F 1, F 2, F 3, F 4, F 5, F 6, F 7]" for F :: "nat \<Rightarrow> u32"
    by (simp add: numeral_eq_Suc)
  then show ?thesis by (simp only: crc_basis_def) (simp add: funpow_8 crc_bit_def)
qed

lemma crc_bit_xor: "crc_bit (a XOR b) = crc_bit a XOR crc_bit b"
  by (rule bit_word_eqI) (auto simp: crc_bit_def bit_simps)

lemma crc_bit_funpow_xor: "(crc_bit ^^ n) (a XOR b) = (crc_bit ^^ n) a XOR (crc_bit ^^ n) b"
  by (induction n) (simp_all add: crc_bit_xor)

lemma word_of_nat_add_pow:
  assumes "m < 2 ^ k" "k < LENGTH('a::len)"
  shows "word_of_nat m XOR 2 ^ k = (word_of_nat (2 ^ k + m) :: 'a word)"
proof -
  have "word_of_nat m AND 2 ^ k = (0 :: 'a word)"
  proof (rule bit_word_eqI)
    fix n assume "n < LENGTH('a)"
    have "\<not> bit m k" using assms(1) by (simp add: bit_iff_odd)
    then show "bit (word_of_nat m AND 2 ^ k :: 'a word) n = bit (0 :: 'a word) n"
      by (auto simp: bit_simps)
  qed
  then have "word_of_nat m + (2 ^ k :: 'a word) = word_of_nat m XOR 2 ^ k"
    by (rule disjunctive_add_eq_xor)
  then show ?thesis by (simp add: add.commute)
qed

lemma double_tab_nth:
  fixes f :: "u32 \<Rightarrow> u32"
  assumes "\<And>a b. f (a XOR b) = f a XOR f b"
    and "length t = 2 ^ k" "\<And>m. m < 2 ^ k \<Longrightarrow> t ! m = f (word_of_nat m)"
    and "\<And>j. j < length bs \<Longrightarrow> bs ! j = f (2 ^ (k + j))" "k + length bs \<le> 32"
  shows "length (double_tab bs t) = 2 ^ (k + length bs) \<and>
    (\<forall>n < 2 ^ (k + length bs). double_tab bs t ! n = f (word_of_nat n))"
  using assms(2-)
proof (induction bs arbitrary: t k)
  case Nil
  then show ?case by simp
next
  case (Cons b bs)
  let ?t = "t @ map (\<lambda>x. x XOR b) t"
  have b: "b = f (2 ^ k)" using Cons.prems(3) [of 0] by simp
  have l: "length ?t = 2 ^ Suc k" using Cons.prems(1) by simp
  have n: "?t ! m = f (word_of_nat m)" if m: "m < 2 ^ Suc k" for m
  proof (cases "m < 2 ^ k")
    case True
    then show ?thesis using Cons.prems(1,2) by (simp add: nth_append)
  next
    case False
    let ?m = "m - 2 ^ k"
    have lt: "?m < 2 ^ k" and eq: "m = 2 ^ k + ?m" using m False by simp_all
    have "?t ! m = f (word_of_nat ?m) XOR f (2 ^ k)"
      using Cons.prems(1,2) lt False b by (simp add: nth_append)
    also have "\<dots> = f (word_of_nat ?m XOR 2 ^ k)" by (simp only: assms(1))
    also have "\<dots> = f (word_of_nat m)"
      using word_of_nat_add_pow [OF lt, where 'a = 32] Cons.prems(4)
      by (simp only: eq [symmetric]) simp
    finally show ?thesis .
  qed
  have "bs ! j = f (2 ^ (Suc k + j))" if "j < length bs" for j
    using Cons.prems(3) [of "Suc j"] that by simp
  from Cons.IH [OF l n this] Cons.prems(4) show ?case by simp
qed

lemma crc_tab_nth: "n < 256 \<Longrightarrow> CRC32C_TAB ! n = (crc_bit ^^ 8) (word_of_nat n)"
proof -
  assume n: "n < 256"
  have z: "(crc_bit ^^ 8) 0 = 0" by (simp add: funpow_8 crc_bit_def)
  have "double_tab crc_basis [0] ! m = (crc_bit ^^ 8) (word_of_nat m)"
    if "m < 2 ^ (0 + length crc_basis)" for m
    using that
    by (intro double_tab_nth [THEN conjunct2, rule_format, of "crc_bit ^^ 8" "[0]" 0 crc_basis])
       (auto simp: crc_bit_funpow_xor z crc_basis_remainders)
  then show ?thesis using n by (simp add: crc_tab_doubling crc_basis_def)
qed

lemma crc_bit_push:
  assumes "\<And>i. 31 - n \<le> i \<Longrightarrow> \<not> bit x i" "n < 32"
  shows "crc_bit (push_bit (Suc n) x) = push_bit n x"
proof (rule bit_word_eqI)
  fix m :: nat assume m: "m < LENGTH(32)"
  have "\<not> bit x (m - n)" if "\<not> m < 31"
    using assms(1) [of "m - n"] that by simp
  then show "bit (crc_bit (push_bit (Suc n) x)) m = bit (push_bit n x) m"
    using m assms(2) by (auto simp: crc_bit_def bit_simps simp del: push_bit_Suc)
qed

lemma xor_cancel: "a XOR c = b XOR c \<Longrightarrow> a = (b :: 'a::len word)"
  by (metis xor.assoc xor.right_neutral xor_self_eq)

lemma crc_bit_push8:
  assumes "\<And>i. 24 \<le> i \<Longrightarrow> \<not> bit x i"
  shows "(crc_bit ^^ 8) (push_bit 8 x) = (x :: u32)"
proof -
  have "crc_bit (push_bit (Suc n) x) = push_bit n x" if "n < 8" for n
    by (rule crc_bit_push) (use assms that in auto)
  from this [of 7] this [of 6] this [of 5] this [of 4] this [of 3] this [of 2] this [of 1] this [of 0]
  show ?thesis by (simp add: funpow_8 numeral_eq_Suc)
qed

lemma crc_step_ref: "crc_step crc byte = crc_ref_step crc byte"
proof -
  let ?i = "ucast crc XOR byte :: u8"
  have s: "crc XOR ucast byte = push_bit 8 (drop_bit 8 crc) XOR ucast ?i"
    by (rule bit_word_eqI) (auto simp: bit_simps)
  have "(crc_bit ^^ 8) (push_bit 8 (drop_bit 8 crc)) = drop_bit 8 crc"
    by (rule crc_bit_push8) (auto simp: bit_simps dest: bit_imp_le_length)
  moreover have "(crc_bit ^^ 8) (ucast ?i) = CRC32C_TAB ! unat ?i"
    using unsigned_less [of ?i] by (subst crc_tab_nth) simp_all
  ultimately show ?thesis
    by (simp only: crc_ref_step_def crc_step_def s crc_bit_funpow_xor) (simp add: xor.commute)
qed

section \<open>Laws\<close>

lemma crc32_Nil [simp]: "crc32 c [] = c"
  by (simp add: crc32_def)

lemma crc32_Cons: "crc32 c (b # bs) = crc32 (crc_step c b) bs"
  by (simp add: crc32_def)

text \<open>Feeding a buffer in pieces is feeding their concatenation.\<close>

lemma crc32_append: "crc32 c (xs @ ys) = crc32 (crc32 c xs) ys"
  by (simp add: crc32_def)

lemma crc_bit_inj: "crc_bit a = crc_bit b \<Longrightarrow> a = b"
proof -
  assume eq: "crc_bit a = crc_bit b"
  have poly: "bit (0x82F63B78 :: u32) 31" by simp
  have b31: "bit (crc_bit c) 31 = bit c 0" for c :: u32
    using poly by (auto simp: crc_bit_def bit_simps dest: bit_imp_le_length)
  have z: "bit a 0 = bit b 0" using b31 eq by metis
  then have d: "drop_bit 1 a = drop_bit 1 b"
    using eq by (auto simp: crc_bit_def split: if_splits intro: xor_cancel)
  show "a = b"
  proof (rule bit_word_eqI)
    fix n
    show "bit a n = bit b n"
    proof (cases n)
      case 0
      then show ?thesis using z by simp
    next
      case (Suc m)
      then show ?thesis using arg_cong [OF d, of "\<lambda>w. bit w m"] by (simp add: bit_simps)
    qed
  qed
qed

lemma crc_bit_funpow_inj: "(crc_bit ^^ n) a = (crc_bit ^^ n) b \<Longrightarrow> a = b"
  by (induction n) (auto dest: crc_bit_inj)

lemma crc_step_inj_crc: "crc_step a x = crc_step b x \<Longrightarrow> a = b"
proof -
  assume "crc_step a x = crc_step b x"
  then have "a XOR ucast x = b XOR ucast x"
    unfolding crc_step_ref crc_ref_step_def by (rule crc_bit_funpow_inj)
  then have "(a XOR ucast x) XOR ucast x = (b XOR ucast x) XOR ucast x" by simp
  then show ?thesis by (simp add: xor.assoc)
qed

lemma crc_step_inj_byte: "crc_step a x = crc_step a y \<Longrightarrow> x = y"
proof -
  assume "crc_step a x = crc_step a y"
  then have "a XOR ucast x = a XOR ucast y"
    unfolding crc_step_ref crc_ref_step_def by (rule crc_bit_funpow_inj)
  then have "a XOR (a XOR ucast x) = a XOR (a XOR ucast y)" by simp
  then have "(ucast x :: u32) = ucast y" by (simp add: xor.assoc [symmetric])
  then have "(ucast (ucast x :: u32) :: u8) = ucast (ucast y :: u32)" by simp
  moreover have "(ucast (ucast z :: u32) :: u8) = z" for z
    by (rule bit_word_eqI) (simp add: bit_simps)
  ultimately show ?thesis by metis
qed

lemma crc32_inj_init: "crc32 a xs = crc32 b xs \<Longrightarrow> a = b"
  by (induction xs arbitrary: a b) (auto simp: crc32_Cons dest: crc_step_inj_crc)

lemma crc32_byte_change:
  "crc32 s (pre @ [a] @ post) = crc32 s (pre @ [b] @ post) \<longleftrightarrow> a = b"
proof
  assume "crc32 s (pre @ [a] @ post) = crc32 s (pre @ [b] @ post)"
  then have "crc_step (crc32 s pre) a = crc_step (crc32 s pre) b"
    by (simp add: crc32_append crc32_Cons) (rule crc32_inj_init)
  then show "a = b" by (rule crc_step_inj_byte)
qed simp

text \<open>The same for an update in place, the form in which a corrupted buffer appears.\<close>

lemma crc32_list_update:
  assumes "i < length bs"
  shows "crc32 s (bs[i := x]) = crc32 s bs \<longleftrightarrow> x = bs ! i"
proof -
  have "bs[i := x] = take i bs @ [x] @ drop (Suc i) bs"
    using assms by (simp add: upd_conv_take_nth_drop)
  moreover have "bs = take i bs @ [bs ! i] @ drop (Suc i) bs"
    using assms by (simp add: id_take_nth_drop [symmetric])
  ultimately show ?thesis by (metis crc32_byte_change)
qed

text \<open>C34: the table-driven loop of \<^verbatim>\<open>crc32\<close> computes the bit-serial CRC32C (reflected
  polynomial 0x82F63B78) of every buffer, from every initial value.\<close>

theorem crc32_is_bit_serial: "crc32 crc_init data = crc32_ref crc_init data"
  by (simp add: crc32_def crc32_ref_def crc_step_ref [abs_def])

text \<open>A checksum distinguishes a buffer from every buffer that differs from it in one byte
  position: the running value is a bijection of the initial value, and a corrupted byte is always
  detected, whatever precedes and follows it.\<close>

theorem crc32_detects_byte_change:
  "(crc32 s (pre @ [a] @ post) = crc32 s (pre @ [b] @ post) \<longleftrightarrow> a = b) \<and>
   (crc32 s pre = crc32 t pre \<longleftrightarrow> s = t)"
  using crc32_byte_change crc32_inj_init by blast

end
