(* ===== verification/Bitmap.thy ===== *)
theory Bitmap
  imports Prelude
begin

text \<open>
  Allocation bitmaps, \<^verbatim>\<open>src/ext4_defs/bitmap.rs\<close>. A \<open>Bitmap\<close> is the byte window it borrows;
  bit \<open>i\<close> is bit \<open>i mod 8\<close> of byte \<open>i div 8\<close>. The lemmas give each operation's effect on the
  set of clear bits, and show that both searches return exactly what a linear scan over the
  candidates would.
\<close>

section \<open>Operations\<close>

definition bitmap_new :: "bytes \<Rightarrow> nat \<Rightarrow> bytes res" where
  "bitmap_new bmap nbits = index_range bmap 0 (div_ceil nbits 8)"

definition bit_mask :: "nat \<Rightarrow> u8" where
  "bit_mask b = push_bit (b mod 8) 1"

definition is_bit_clear :: "bytes \<Rightarrow> nat \<Rightarrow> bool res" where
  "is_bit_clear bm b = rbind (index_at bm (b div 8)) (\<lambda>x. Inr (x AND bit_mask b = 0))"

definition bitmap_set_bit :: "bytes \<Rightarrow> nat \<Rightarrow> bytes res" where
  "bitmap_set_bit bm b =
     rbind (index_at bm (b div 8)) (\<lambda>x. Inr (bm[b div 8 := x OR bit_mask b]))"

definition bitmap_clear_bit :: "bytes \<Rightarrow> nat \<Rightarrow> bytes res" where
  "bitmap_clear_bit bm b =
     rbind (index_at bm (b div 8)) (\<lambda>x. Inr (bm[b div 8 := x AND NOT (bit_mask b)]))"

text \<open>The iterator \<open>(start..end).find(..)\<close>.\<close>

function find_clear :: "bytes \<Rightarrow> nat \<Rightarrow> nat \<Rightarrow> nat option res" where
  "find_clear bm i stop =
     (if i < stop
      then rbind (is_bit_clear bm i) (\<lambda>c. if c then Inr (Some i) else find_clear bm (i + 1) stop)
      else Inr None)"
  by pat_completeness auto
termination
  by (relation "measure (\<lambda>(bm, i, stop). stop - i)") auto

declare find_clear.simps [simp del]

definition first_clear_bit :: "bytes \<Rightarrow> nat \<Rightarrow> nat \<Rightarrow> nat option res" where
  "first_clear_bit bm start stop = find_clear bm start (min stop (length bm * 8))"

definition find_and_set_first_clear_bit :: "bytes \<Rightarrow> nat \<Rightarrow> nat \<Rightarrow> (nat option \<times> bytes) res" where
  "find_and_set_first_clear_bit bm start stop =
     rbind (first_clear_bit bm start stop) (\<lambda>r.
       case r of None \<Rightarrow> Inr (None, bm)
       | Some b \<Rightarrow> rbind (bitmap_set_bit bm b) (\<lambda>bm'. Inr (Some b, bm')))"

text \<open>\<open>first_clear_run_in\<close>: the inner loop counts clear bits from a candidate, the outer one
  restarts after the set bit that ended the count.\<close>

function run_offset :: "bytes \<Rightarrow> nat \<Rightarrow> nat \<Rightarrow> nat \<Rightarrow> nat res" where
  "run_offset bm candidate offset count =
     (if offset < count
      then rbind (index_at bm ((candidate + offset) div 8)) (\<lambda>x.
        if x AND bit_mask (candidate + offset) \<noteq> 0 then Inr offset
        else run_offset bm candidate (offset + 1) count)
      else Inr offset)"
  by pat_completeness auto
termination
  by (relation "measure (\<lambda>(bm, c, offset, count). count - offset)") auto

declare run_offset.simps [simp del]

function run_search :: "bytes \<Rightarrow> nat \<Rightarrow> nat \<Rightarrow> nat \<Rightarrow> nat option res" where
  "run_search bm candidate last_start count =
     (if candidate \<le> last_start
      then rbind (run_offset bm candidate 0 count) (\<lambda>offset.
        if offset = count then Inr (Some candidate)
        else case usize_checked_add candidate (offset + 1) of
               None \<Rightarrow> Inr None
             | Some next \<Rightarrow> run_search bm next last_start count)
      else Inr None)"
  by pat_completeness auto
termination
  by (relation "measure (\<lambda>(bm, candidate, last_start, count). Suc last_start - candidate)")
     (auto simp: usize_checked_add_def split: if_splits)

declare run_search.simps [simp del]

definition first_clear_run_in :: "bytes \<Rightarrow> nat \<Rightarrow> nat \<Rightarrow> nat \<Rightarrow> nat \<Rightarrow> nat option res" where
  "first_clear_run_in bitmap nbits start stop0 count =
     (let stop = min stop0 (min nbits (length bitmap * 8)) in
      if count = 0 \<or> start > stop \<or> count > stop - start then Inr None
      else run_search bitmap start (stop - count) count)"

section \<open>The bits of a bitmap\<close>

definition clear_at :: "bytes \<Rightarrow> nat \<Rightarrow> bool" where
  "clear_at bm b \<longleftrightarrow> \<not> bit (bm ! (b div 8)) (b mod 8)"

definition clear_run :: "bytes \<Rightarrow> nat \<Rightarrow> nat \<Rightarrow> bool" where
  "clear_run bm c count \<longleftrightarrow> (\<forall>j < count. clear_at bm (c + j))"

lemma and_bit_mask: "x AND bit_mask b = 0 \<longleftrightarrow> \<not> bit x (b mod 8)"
proof -
  have "bit_mask b = 2 ^ (b mod 8)" by (simp add: bit_mask_def push_bit_eq_mult)
  then show ?thesis by (simp add: and_exp_eq_0_iff_not_bit)
qed

lemma byte_index: "b < length bm * 8 \<Longrightarrow> b div 8 < length bm"
  by (simp add: less_mult_imp_div_less)

lemma is_bit_clear_ok: "b < length bm * 8 \<Longrightarrow> is_bit_clear bm b = Inr (clear_at bm b)"
  by (simp add: is_bit_clear_def byte_index and_bit_mask clear_at_def)

lemma bitmap_set_bit_ok:
  "b < length bm * 8 \<Longrightarrow> bitmap_set_bit bm b = Inr (bm[b div 8 := bm ! (b div 8) OR bit_mask b])"
  by (simp add: bitmap_set_bit_def byte_index)

lemma bitmap_clear_bit_ok:
  "b < length bm * 8 \<Longrightarrow>
   bitmap_clear_bit bm b = Inr (bm[b div 8 := bm ! (b div 8) AND NOT (bit_mask b)])"
  by (simp add: bitmap_clear_bit_def byte_index)

lemma same_bit: "b div 8 = c div 8 \<Longrightarrow> b mod 8 = c mod 8 \<longleftrightarrow> b = (c :: nat)"
  by (metis div_mult_mod_eq)

lemma bit_bit_mask: "bit (bit_mask b) n \<longleftrightarrow> n = b mod 8"
  by (auto simp: bit_mask_def bit_simps)

lemma clear_at_set:
  assumes "bitmap_set_bit bm b = Inr bm'" "b < length bm * 8" "c < length bm * 8"
  shows "clear_at bm' c \<longleftrightarrow> c \<noteq> b \<and> clear_at bm c"
  using assms byte_index [of c bm] same_bit [of b c]
  by (cases "b div 8 = c div 8")
     (auto simp: bitmap_set_bit_ok clear_at_def bit_simps bit_bit_mask)

lemma clear_at_clear:
  assumes "bitmap_clear_bit bm b = Inr bm'" "b < length bm * 8" "c < length bm * 8"
  shows "clear_at bm' c \<longleftrightarrow> c = b \<or> clear_at bm c"
  using assms byte_index [of c bm] same_bit [of b c]
  by (cases "b div 8 = c div 8")
     (auto simp: bitmap_clear_bit_ok clear_at_def bit_simps bit_bit_mask)

lemma length_bitmap_set_bit: "bitmap_set_bit bm b = Inr bm' \<Longrightarrow> length bm' = length bm"
  by (auto simp: bitmap_set_bit_def res_elims)

lemma length_bitmap_clear_bit: "bitmap_clear_bit bm b = Inr bm' \<Longrightarrow> length bm' = length bm"
  by (auto simp: bitmap_clear_bit_def res_elims)

section \<open>Interface: a set of bits\<close>

text \<open>
  What the block and inode allocators rely on: a test, a set and a clear operation on positions
  below a size, each changing only its own position. The allocation step of a client,
  search-then-set, is correct for every such structure.
\<close>

locale bit_store =
  fixes size_of :: "'b \<Rightarrow> nat"
    and is_clear :: "'b \<Rightarrow> nat \<Rightarrow> bool"
    and set_at :: "'b \<Rightarrow> nat \<Rightarrow> 'b res"
    and clear_bit :: "'b \<Rightarrow> nat \<Rightarrow> 'b res"
  assumes set_total: "i < size_of b \<Longrightarrow> \<exists>b'. set_at b i = Inr b'"
    and clear_total: "i < size_of b \<Longrightarrow> \<exists>b'. clear_bit b i = Inr b'"
    and size_set: "set_at b i = Inr b' \<Longrightarrow> size_of b' = size_of b"
    and size_clear: "clear_bit b i = Inr b' \<Longrightarrow> size_of b' = size_of b"
    and set_clear: "set_at b i = Inr b' \<Longrightarrow> i < size_of b \<Longrightarrow> j < size_of b \<Longrightarrow>
      is_clear b' j \<longleftrightarrow> j \<noteq> i \<and> is_clear b j"
    and clear_clear: "clear_bit b i = Inr b' \<Longrightarrow> i < size_of b \<Longrightarrow> j < size_of b \<Longrightarrow>
      is_clear b' j \<longleftrightarrow> j = i \<or> is_clear b j"
begin

text \<open>The set of free positions, and the effect of the two updates on it.\<close>

definition free_set :: "'b \<Rightarrow> nat set" where
  "free_set b = {i. i < size_of b \<and> is_clear b i}"

lemma free_set_set: "set_at b i = Inr b' \<Longrightarrow> i < size_of b \<Longrightarrow> free_set b' = free_set b - {i}"
proof -
  assume a: "set_at b i = Inr b'" "i < size_of b"
  have "x \<in> free_set b' \<longleftrightarrow> x \<in> free_set b - {i}" for x
    using size_set [OF a(1)] set_clear [OF a, of x] by (cases "x < size_of b") (auto simp: free_set_def)
  then show ?thesis by blast
qed

lemma free_set_clear: "clear_bit b i = Inr b' \<Longrightarrow> i < size_of b \<Longrightarrow> free_set b' = insert i (free_set b)"
proof -
  assume a: "clear_bit b i = Inr b'" "i < size_of b"
  have "x \<in> free_set b' \<longleftrightarrow> x \<in> insert i (free_set b)" for x
    using size_clear [OF a(1)] clear_clear [OF a, of x] a(2)
    by (cases "x < size_of b") (auto simp: free_set_def)
  then show ?thesis by blast
qed

lemma free_set_finite: "finite (free_set b)"
  by (simp add: free_set_def)

lemma alloc_card:
  "set_at b i = Inr b' \<Longrightarrow> i \<in> free_set b \<Longrightarrow> card (free_set b') + 1 = card (free_set b)"
proof -
  assume s: "set_at b i = Inr b'" and i: "i \<in> free_set b"
  from i have "i < size_of b" by (simp add: free_set_def)
  with s have "free_set b' = free_set b - {i}" by (rule free_set_set)
  then show ?thesis using card_Suc_Diff1 [OF free_set_finite i] by simp
qed

lemma alloc_then_free:
  assumes "set_at b i = Inr b'" "i \<in> free_set b" "clear_bit b' i = Inr b''"
  shows "free_set b'' = free_set b"
proof -
  have i: "i < size_of b" using assms(2) by (simp add: free_set_def)
  moreover have "i < size_of b'" using i size_set [OF assms(1)] by simp
  ultimately have "free_set b'' = insert i (free_set b - {i})"
    using free_set_clear [OF assms(3)] free_set_set [OF assms(1)] by simp
  then show ?thesis using assms(2) by auto
qed

end

interpretation bitmap: bit_store "\<lambda>bm. length bm * 8" clear_at bitmap_set_bit bitmap_clear_bit
proof unfold_locales
  show "\<exists>bm'. bitmap_set_bit bm i = Inr bm'" if "i < length bm * 8" for bm i
    using that by (simp add: bitmap_set_bit_ok)
  show "\<exists>bm'. bitmap_clear_bit bm i = Inr bm'" if "i < length bm * 8" for bm i
    using that by (simp add: bitmap_clear_bit_ok)
  show "length bm' * 8 = length bm * 8" if "bitmap_set_bit bm i = Inr bm'" for bm i bm'
    using length_bitmap_set_bit [OF that] by simp
  show "length bm' * 8 = length bm * 8" if "bitmap_clear_bit bm i = Inr bm'" for bm i bm'
    using length_bitmap_clear_bit [OF that] by simp
qed (fact clear_at_set clear_at_clear)+

section \<open>The searches\<close>

lemma upt_step: "i < n \<Longrightarrow> [i..<n] = i # [i + 1..<n]"
  by (simp add: upt_conv_Cons)

lemma find_clear_scan:
  "stop \<le> length bm * 8 \<Longrightarrow> find_clear bm i stop = Inr (find (clear_at bm) [i..<stop])"
proof (induction bm i stop rule: find_clear.induct)
  case (1 bm i stop)
  show ?case
  proof (cases "i < stop")
    case True
    then have "is_bit_clear bm i = Inr (clear_at bm i)" using "1.prems" by (simp add: is_bit_clear_ok)
    then show ?thesis using True "1.IH" "1.prems"
      by (subst find_clear.simps) (simp add: upt_step)
  next
    case False
    then show ?thesis by (subst find_clear.simps) simp
  qed
qed

lemma first_clear_bit_scan:
  "first_clear_bit bm start stop = Inr (find (clear_at bm) [start..<min stop (length bm * 8)])"
  by (simp add: first_clear_bit_def find_clear_scan)

lemma run_offset_spec:
  "candidate + count \<le> length bm * 8 \<Longrightarrow> offset \<le> count \<Longrightarrow>
   (\<And>j. j < offset \<Longrightarrow> clear_at bm (candidate + j)) \<Longrightarrow>
   \<exists>k. run_offset bm candidate offset count = Inr k \<and> k \<le> count \<and> clear_run bm candidate k \<and>
     (k < count \<longrightarrow> \<not> clear_at bm (candidate + k))"
proof (induction bm candidate offset count rule: run_offset.induct)
  case (1 bm candidate offset count)
  show ?case
  proof (cases "offset < count")
    case True
    let ?b = "candidate + offset"
    have i: "index_at bm (?b div 8) = Inr (bm ! (?b div 8))"
      using True "1.prems"(1) by (simp add: byte_index)
    show ?thesis
    proof (cases "clear_at bm ?b")
      case c: True
      then have z: "bm ! (?b div 8) AND bit_mask ?b = 0" by (simp add: and_bit_mask clear_at_def)
      have "clear_at bm (candidate + j)" if "j < offset + 1" for j
        using that c "1.prems"(3) by (cases "j = offset") auto
      from "1.IH" [OF True i _ "1.prems"(1) _ this] z True
      show ?thesis by (subst run_offset.simps) (simp add: i)
    next
      case False
      then have "bm ! (?b div 8) AND bit_mask ?b \<noteq> 0" by (simp add: and_bit_mask clear_at_def)
      then show ?thesis using True False "1.prems"
        by (subst run_offset.simps) (simp add: i clear_run_def)
    qed
  next
    case False
    then show ?thesis using "1.prems"
      by (subst run_offset.simps) (simp add: clear_run_def)
  qed
qed

lemma find_upt_skip:
  "i \<le> j \<Longrightarrow> (\<And>k. i \<le> k \<Longrightarrow> k < j \<Longrightarrow> \<not> P k) \<Longrightarrow> find P [i..<n] = find P [j..<n]"
proof (induction "j - i" arbitrary: i)
  case 0
  then show ?case by simp
next
  case (Suc d)
  then have ij: "i < j" "d = j - Suc i" by auto
  have "find P [i..<n] = find P [Suc i..<n]"
  proof (cases "i < n")
    case True
    then show ?thesis using Suc.prems(2) [of i] ij by (simp add: upt_step)
  qed (simp add: upt_conv_Nil)
  also have "\<dots> = find P [j..<n]"
    using Suc.hyps(1) [OF ij(2)] ij Suc.prems(2) by simp
  finally show ?case .
qed

lemma find_append:
  "find P (xs @ ys) = (case find P xs of None \<Rightarrow> find P ys | Some x \<Rightarrow> Some x)"
  by (induction xs) auto

lemma run_search_scan:
  "last_start + count \<le> length bm * 8 \<Longrightarrow> length bm * 8 < USIZE_LIMIT \<Longrightarrow> 0 < count \<Longrightarrow>
   run_search bm candidate last_start count =
     Inr (find (\<lambda>c. clear_run bm c count) [candidate..<Suc last_start])"
proof (induction bm candidate last_start count rule: run_search.induct)
  case (1 bm candidate last_start count)
  show ?case
  proof (cases "candidate \<le> last_start")
    case True
    then have "candidate + count \<le> length bm * 8" using "1.prems"(1) by linarith
    from run_offset_spec [OF this le0]
    obtain k where k: "run_offset bm candidate 0 count = Inr k" "k \<le> count" "clear_run bm candidate k"
      "k < count \<longrightarrow> \<not> clear_at bm (candidate + k)" by auto
    show ?thesis
    proof (cases "k = count")
      case kc: True
      then show ?thesis using True k
        by (subst run_search.simps) (simp add: upt_step del: upt_Suc)
    next
      case False
      then have lt: "k < count" using k(2) by simp
      have add: "usize_checked_add candidate (k + 1) = Some (candidate + (k + 1))"
        using True lt "1.prems" by (simp add: usize_checked_add_def)
      have none: "\<not> clear_run bm c count" if "candidate \<le> c" "c < candidate + (k + 1)" for c
      proof
        assume r: "clear_run bm c count"
        have "c + (candidate + k - c) = candidate + k" "candidate + k - c < count" using that lt by auto
        then show False using r k(4) lt unfolding clear_run_def by metis
      qed
      have "run_search bm candidate last_start count =
          run_search bm (candidate + (k + 1)) last_start count"
        using True k False add by (subst run_search.simps) simp
      also have "\<dots> = Inr (find (\<lambda>c. clear_run bm c count) [candidate + (k + 1)..<Suc last_start])"
        by (rule "1.IH" [OF True k(1) False add]) (use "1.prems" in auto)
      also have "\<dots> = Inr (find (\<lambda>c. clear_run bm c count) [candidate..<Suc last_start])"
        using none by (subst find_upt_skip [of candidate "candidate + (k + 1)"]) auto
      finally show ?thesis .
    qed
  next
    case False
    then show ?thesis by (subst run_search.simps) simp
  qed
qed

text \<open>Searching and setting never panics; it returns the least clear bit of the window
  (\<open>None\<close> when there is none) and marks exactly that bit, so the free bits after it are the free
  bits before it without the returned one.\<close>

theorem find_and_set_first_clear_bit_correct:
  "\<exists>r bm'. find_and_set_first_clear_bit bm start stop = Inr (r, bm') \<and>
     r = find (clear_at bm) [start..<min stop (length bm * 8)] \<and>
     length bm' = length bm \<and>
     bitmap.free_set bm' = bitmap.free_set bm - set_option r"
proof -
  let ?r = "find (clear_at bm) [start..<min stop (length bm * 8)]"
  show ?thesis
  proof (cases ?r)
    case None
    then show ?thesis by (simp add: find_and_set_first_clear_bit_def first_clear_bit_scan)
  next
    case (Some b)
    then have "b \<in> set [start..<min stop (length bm * 8)]"
      unfolding find_Some_iff by (metis nth_mem)
    then have lt: "b < length bm * 8" by simp
    then obtain bm' where bm': "bitmap_set_bit bm b = Inr bm'" by (simp add: bitmap_set_bit_ok)
    then show ?thesis using Some lt
      by (simp add: find_and_set_first_clear_bit_def first_clear_bit_scan
          length_bitmap_set_bit bitmap.free_set_set)
  qed
qed

text \<open>The skipping search for a run of clear bits returns the same candidate as trying every
  start position in order: the first one from which \<open>count\<close> consecutive bits are clear inside the
  clipped range, \<open>None\<close> when there is none or \<open>count\<close> is zero.\<close>

theorem first_clear_run_in_is_linear_scan:
  assumes "length bitmap * 8 < USIZE_LIMIT"
  shows "first_clear_run_in bitmap nbits start stop count =
    (let e = min stop (min nbits (length bitmap * 8)) in
     Inr (if count = 0 then None
          else find (\<lambda>c. c + count \<le> e \<and> clear_run bitmap c count) [start..<e]))"
proof -
  define e where "e = min stop (min nbits (length bitmap * 8))"
  have e8: "e \<le> length bitmap * 8" by (simp add: e_def)
  show ?thesis
  proof (cases "count = 0 \<or> start > e \<or> count > e - start")
    case True
    moreover have "find (\<lambda>c. c + count \<le> e \<and> clear_run bitmap c count) [start..<e] = None"
      if "start > e \<or> count > e - start"
      using that by (auto simp: find_None_iff)
    ultimately show ?thesis
      unfolding first_clear_run_in_def Let_def e_def [symmetric] by auto
  next
    case False
    then have c: "0 < count" "start + count \<le> e" by auto
    have split: "[start..<e] = [start..<Suc (e - count)] @ [Suc (e - count)..<e]"
      using c upt_add_eq_append [of start "Suc (e - count)" "count - 1"] by simp
    have "find (\<lambda>c. c + count \<le> e \<and> clear_run bitmap c count) [start..<e] =
        find (\<lambda>c. clear_run bitmap c count) [start..<Suc (e - count)]"
    proof -
      have "find (\<lambda>c. c + count \<le> e \<and> clear_run bitmap c count) [Suc (e - count)..<e] = None"
        using c by (auto simp: find_None_iff)
      moreover have "find (\<lambda>c. c + count \<le> e \<and> clear_run bitmap c count) [start..<Suc (e - count)] =
          find (\<lambda>c. clear_run bitmap c count) [start..<Suc (e - count)]"
        using c by (intro find_cong) auto
      ultimately show ?thesis by (simp only: split find_append)
          (auto split: option.splits)
    qed
    then show ?thesis
      using run_search_scan [of "e - count" count bitmap start] c e8 assms False
      by (simp add: first_clear_run_in_def Let_def e_def [symmetric])
  qed
qed

lemma first_clear_run_in_witness:
  "length [0x2D, 0xF0 :: u8] * 8 < USIZE_LIMIT \<and>
   first_clear_run_in [0x2D, 0xF0] 16 0 16 2 = Inr (Some 6)"
proof -
  have h: "length [0x2D, 0xF0 :: u8] * 8 < USIZE_LIMIT" by (simp add: USIZE_LIMIT_def)
  have v: "(let e = min 16 (min 16 (length [0x2D, 0xF0 :: u8] * 8)) in
     Inr (if 2 = (0::nat) then None
          else find (\<lambda>c. c + 2 \<le> e \<and> clear_run [0x2D, 0xF0] c 2) [0..<e])) = (Inr (Some 6) :: nat option res)"
    by code_simp
  show ?thesis using first_clear_run_in_is_linear_scan [OF h, of 16 0 16 2] h v by metis
qed

end
