(* ===== verification/Block_Device.thy ===== *)
theory Block_Device
  imports Bytes
begin

text \<open>
  Blocks and block devices: \<^verbatim>\<open>Block\<close> and the trait \<^verbatim>\<open>BlockDevice\<close> of
  \<^verbatim>\<open>src/ext4_defs/block.rs\<close> with its default multi-block methods, and the in-memory device
  \<^verbatim>\<open>BlockMem\<close> of \<^verbatim>\<open>ext4_fuse/src/block_dev.rs\<close>. A device is a record of operations over a
  state; the locale \<open>block_device\<close> states what the file system expects of it, and is interpreted
  on \<open>BlockMem\<close>.
\<close>

section \<open>Blocks\<close>

record block =
  blk_id :: PBlockId
  blk_data :: bytes

definition block_new :: "PBlockId \<Rightarrow> bytes \<Rightarrow> block" where
  "block_new block_id d = \<lparr>blk_id = block_id, blk_data = d\<rparr>"

definition block_default :: block where
  "block_default = \<lparr>blk_id = 0, blk_data = replicate BLOCK_SIZE 0\<rparr>"

definition block_read_offset :: "block \<Rightarrow> nat \<Rightarrow> nat \<Rightarrow> bytes res" where
  "block_read_offset b offset len = index_range (blk_data b) offset len"

definition block_write_offset :: "block \<Rightarrow> nat \<Rightarrow> bytes \<Rightarrow> block res" where
  "block_write_offset b offset d =
     rbind (write_range (blk_data b) offset d) (\<lambda>d'. Inr (b\<lparr>blk_data := d'\<rparr>))"

text \<open>The type invariant of \<open>Box<[u8; BLOCK_SIZE]>\<close>.\<close>

definition block_wf :: "block \<Rightarrow> bool" where
  "block_wf b \<longleftrightarrow> length (blk_data b) = BLOCK_SIZE"

section \<open>Devices\<close>

record 'd device_ops =
  read_block :: "'d \<Rightarrow> PBlockId \<Rightarrow> block res"
  write_block :: "'d \<Rightarrow> block \<Rightarrow> 'd \<times> unit res"
  flush :: "'d \<Rightarrow> 'd \<times> unit res"
  supports_reliable_flush :: "'d \<Rightarrow> bool"

text \<open>The loop over \<open>chunks_exact_mut\<close>: chunk \<open>k\<close> of \<open>n\<close>. The buffer is returned on every
  path, as the caller sees a partly filled buffer after an error.\<close>

function read_blocks_loop ::
    "('d, 'z) device_ops_scheme \<Rightarrow> 'd \<Rightarrow> PBlockId \<Rightarrow> nat \<Rightarrow> nat \<Rightarrow> bytes \<Rightarrow> bytes \<times> unit res" where
  "read_blocks_loop ops d start k n buf =
     (if k < n then
        case checked_add start (word_of_nat k) of
          None \<Rightarrow> (buf, Inl (Err EFBIG))
        | Some block_id \<Rightarrow>
            (case read_block ops d block_id of
               Inl e \<Rightarrow> (buf, Inl e)
             | Inr b \<Rightarrow> read_blocks_loop ops d start (k + 1) n (splice buf (k * BLOCK_SIZE) (blk_data b)))
      else (buf, Inr ()))"
  by pat_completeness auto
termination
  by (relation "measure (\<lambda>(ops, d, start, k, n, buf). n - k)") auto

declare read_blocks_loop.simps [simp del]

definition read_blocks ::
    "('d, 'z) device_ops_scheme \<Rightarrow> 'd \<Rightarrow> PBlockId \<Rightarrow> bytes \<Rightarrow> bytes \<times> unit res" where
  "read_blocks ops d start buf =
     (if buf = [] \<or> length buf mod BLOCK_SIZE \<noteq> 0 then (buf, Inl (Err EINVAL))
      else read_blocks_loop ops d start 0 (length buf div BLOCK_SIZE) buf)"

function write_blocks_loop ::
    "('d, 'z) device_ops_scheme \<Rightarrow> 'd \<Rightarrow> PBlockId \<Rightarrow> nat \<Rightarrow> nat \<Rightarrow> bytes \<Rightarrow> 'd \<times> unit res" where
  "write_blocks_loop ops d start k n data =
     (if k < n then
        case checked_add start (word_of_nat k) of
          None \<Rightarrow> (d, Inl (Err EFBIG))
        | Some block_id \<Rightarrow>
            (case write_block ops d (block_new block_id (slice data (k * BLOCK_SIZE) BLOCK_SIZE)) of
               (d', Inl e) \<Rightarrow> (d', Inl e)
             | (d', Inr _) \<Rightarrow> write_blocks_loop ops d' start (k + 1) n data)
      else (d, Inr ()))"
  by pat_completeness auto
termination
  by (relation "measure (\<lambda>(ops, d, start, k, n, data). n - k)") auto

declare write_blocks_loop.simps [simp del]

definition write_blocks ::
    "('d, 'z) device_ops_scheme \<Rightarrow> 'd \<Rightarrow> PBlockId \<Rightarrow> bytes \<Rightarrow> 'd \<times> unit res" where
  "write_blocks ops d start data =
     (if data = [] \<or> length data mod BLOCK_SIZE \<noteq> 0 then (d, Inl (Err EINVAL))
      else write_blocks_loop ops d start 0 (length data div BLOCK_SIZE) data)"

section \<open>The in-memory device\<close>

type_synonym block_mem = "bytes list"

definition mem_new :: "u64 \<Rightarrow> block_mem" where
  "mem_new num_blocks = replicate (unat num_blocks) (replicate BLOCK_SIZE 0)"

definition mem_read_block :: "block_mem \<Rightarrow> PBlockId \<Rightarrow> block res" where
  "mem_read_block m block_id =
     (if unat block_id < length m then Inr (block_new block_id (m ! unat block_id))
      else Inl (Err EIO))"

definition mem_write_block :: "block_mem \<Rightarrow> block \<Rightarrow> block_mem \<times> unit res" where
  "mem_write_block m b =
     (if unat (blk_id b) < length m then (m[unat (blk_id b) := blk_data b], Inr ())
      else (m, Inl (Err EIO)))"

definition mem_flush :: "block_mem \<Rightarrow> block_mem \<times> unit res" where
  "mem_flush m = (m, Inr ())"

definition mem_ops :: "block_mem device_ops" where
  "mem_ops = \<lparr>read_block = mem_read_block, write_block = mem_write_block, flush = mem_flush,
     supports_reliable_flush = (\<lambda>_. True)\<rparr>"

section \<open>What a device promises\<close>

lemma chunks_eqI:
  assumes "length xs = n * b" "length ys = n * b" "\<And>j. j < n \<Longrightarrow> slice xs (j * b) b = slice ys (j * b) b"
  shows "xs = ys"
proof (cases "b = 0")
  case True
  then show ?thesis using assms(1,2) by simp
next
  case False
  show ?thesis
  proof (rule nth_equalityI)
    show "length xs = length ys" using assms by simp
    fix i assume i: "i < length xs"
    let ?j = "i div b"
    have j: "?j < n" using i False assms(1) by (simp add: less_mult_imp_div_less)
    then have "?j * b + b \<le> n * b" by (metis Suc_leI add.commute mult_Suc mult_le_mono1)
    moreover have "i mod b < b" "i = ?j * b + i mod b" using False by simp_all
    ultimately have "xs ! i = slice xs (?j * b) b ! (i mod b)" "ys ! i = slice ys (?j * b) b ! (i mod b)"
      using assms(1,2) by (simp_all add: nth_slice)
    then show "xs ! i = ys ! i" using assms(3) [OF j] by simp
  qed
qed

lemma chunk_fits: "j < n \<Longrightarrow> j * b + b \<le> n * (b :: nat)"
  by (metis Suc_leI add.commute mult_Suc mult_le_mono1)

lemma chunks_disjoint: "i \<noteq> j \<Longrightarrow> i * b + b \<le> j * b \<or> j * b + b \<le> i * (b :: nat)"
  by (metis chunk_fits nat_neq_iff)

text \<open>
  The contract: a successful read returns the current contents of the block, a successful write
  changes the contents of its block only, a flush changes no contents.
\<close>

locale block_device =
  fixes ops :: "('d, 'z) device_ops_scheme"
    and contents :: "'d \<Rightarrow> PBlockId \<Rightarrow> bytes option"
  assumes read_sound: "read_block ops d i = Inr b \<Longrightarrow> blk_id b = i \<and> contents d i = Some (blk_data b)"
    and write_sound: "write_block ops d b = (d', Inr u) \<Longrightarrow>
      contents d' = (contents d)(blk_id b \<mapsto> blk_data b)"
    and flush_sound: "flush ops d = (d', Inr u) \<Longrightarrow> contents d' = contents d"
begin

lemma write_then_read:
  "write_block ops d b = (d', Inr u) \<Longrightarrow> read_block ops d' (blk_id b) = Inr b' \<Longrightarrow> b' = b"
proof -
  assume w: "write_block ops d b = (d', Inr u)" and r: "read_block ops d' (blk_id b) = Inr b'"
  from read_sound [OF r] write_sound [OF w]
  have "blk_id b' = blk_id b" "blk_data b' = blk_data b" by simp_all
  then show "b' = b" by simp
qed

lemma write_blocks_loop_contents:
  "write_blocks_loop ops d start k n data = (d', Inr u) \<Longrightarrow> k \<le> n \<Longrightarrow> n < USIZE_LIMIT \<Longrightarrow>
   (k < n \<longrightarrow> unat start + n \<le> 2 ^ 64) \<and>
   contents d' i = (if unat start + k \<le> unat i \<and> unat i < unat start + n
     then Some (slice data ((unat i - unat start) * BLOCK_SIZE) BLOCK_SIZE) else contents d i)"
proof (induction "n - k" arbitrary: d k)
  case 0
  then show ?case by (subst (asm) write_blocks_loop.simps) auto
next
  case (Suc m)
  then have k: "k < n" by simp
  have kw: "unat (word_of_nat k :: u64) = k"
    using k Suc.prems(3) by (simp add: USIZE_LIMIT_def unat_word_of_nat)
  let ?b = "\<lambda>id. block_new id (slice data (k * BLOCK_SIZE) BLOCK_SIZE)"
  obtain id d1 where id: "checked_add start (word_of_nat k) = Some id"
    and d1: "write_block ops d (?b id) = (d1, Inr ())"
    and rec: "write_blocks_loop ops d1 start (k + 1) n data = (d', Inr u)"
    using Suc.prems(1) k
    by (subst (asm) write_blocks_loop.simps) (auto split: option.splits prod.splits sum.splits)
  have idk: "unat id = unat start + k" using unat_checked_add [OF id] kw by simp
  have "m = n - (k + 1)" "k + 1 \<le> n" using Suc.hyps(2) by auto
  note IH = Suc.hyps(1) [OF this(1) rec this(2) Suc.prems(3)]
  have c: "contents d1 i = (if unat i = unat start + k then Some (slice data (k * BLOCK_SIZE) BLOCK_SIZE)
      else contents d i)"
    using write_sound [OF d1] idk unat_inject [of i id] by (auto simp: block_new_def)
  have "unat start + n \<le> 2 ^ 64"
    using IH unat_lt [of id] idk k by (cases "k + 1 < n") auto
  then show ?case using IH c k by auto
qed

lemma read_blocks_loop_contents:
  "read_blocks_loop ops d start k n buf = (buf', Inr u) \<Longrightarrow> k \<le> n \<Longrightarrow> n < USIZE_LIMIT \<Longrightarrow>
   (\<And>i x. contents d i = Some x \<Longrightarrow> length x = BLOCK_SIZE) \<Longrightarrow> length buf = n * BLOCK_SIZE \<Longrightarrow>
   length buf' = length buf \<and>
   (\<forall>j < n. slice buf' (j * BLOCK_SIZE) BLOCK_SIZE =
     (if j < k then slice buf (j * BLOCK_SIZE) BLOCK_SIZE
      else the (contents d (start + word_of_nat j))))"
proof (induction "n - k" arbitrary: buf k)
  case 0
  then show ?case by (subst (asm) read_blocks_loop.simps) auto
next
  case (Suc m)
  then have k: "k < n" by simp
  obtain id b where id: "checked_add start (word_of_nat k) = Some id"
    and b: "read_block ops d id = Inr b"
    and rec: "read_blocks_loop ops d start (k + 1) n (splice buf (k * BLOCK_SIZE) (blk_data b)) = (buf', Inr u)"
    using Suc.prems(1) k
    by (subst (asm) read_blocks_loop.simps) (auto split: option.splits sum.splits)
  have ids: "id = start + word_of_nat k" using id by (simp add: checked_add_def split: if_splits)
  have cb: "contents d id = Some (blk_data b)" using read_sound [OF b] by simp
  then have lb: "length (blk_data b) = BLOCK_SIZE" by (rule Suc.prems(4))
  have fit: "k * BLOCK_SIZE + BLOCK_SIZE \<le> length buf" using chunk_fits [OF k] Suc.prems(5) by simp
  let ?buf = "splice buf (k * BLOCK_SIZE) (blk_data b)"
  have "m = n - (k + 1)" "k + 1 \<le> n" using Suc.hyps(2) by auto
  note IH = Suc.hyps(1) [OF this(1) rec this(2) Suc.prems(3,4)]
  have l: "length ?buf = length buf" using fit lb by simp
  have sl: "slice ?buf (j * BLOCK_SIZE) BLOCK_SIZE =
      (if j = k then blk_data b else slice buf (j * BLOCK_SIZE) BLOCK_SIZE)" if j: "j < n" for j
  proof (cases "j = k")
    case True
    then show ?thesis using fit lb by simp
  next
    case False
    have "j * BLOCK_SIZE + BLOCK_SIZE \<le> length buf" using chunk_fits [OF j] Suc.prems(5) by simp
    then show ?thesis using False fit lb chunks_disjoint [OF False, of BLOCK_SIZE]
      by (simp add: slice_splice_disjoint)
  qed
  show ?case using IH l sl cb ids Suc.prems(5) by (auto simp: less_Suc_eq)
qed

text \<open>Reading back a range that was just written returns the written buffer.\<close>

lemma write_blocks_read_blocks:
  assumes w: "write_blocks ops d start data = (d', Inr u)"
    and r: "read_blocks ops d' start buf = (buf', Inr v)"
    and len: "length buf = length data" "length data < USIZE_LIMIT"
    and wf: "\<And>i x. contents d' i = Some x \<Longrightarrow> length x = BLOCK_SIZE"
  shows "buf' = data"
proof -
  let ?n = "length data div BLOCK_SIZE"
  have m: "data \<noteq> []" "length data mod BLOCK_SIZE = 0"
    using w by (auto simp: write_blocks_def split: if_splits)
  then have n: "length data = ?n * BLOCK_SIZE" by (metis add.right_neutral div_mult_mod_eq)
  have "?n \<le> length data" by (rule div_le_dividend)
  then have nl: "?n < USIZE_LIMIT" using len(2) by (rule le_less_trans)
  have n0: "0 < ?n" using m n by (cases ?n) auto
  have wl: "write_blocks_loop ops d start 0 ?n data = (d', Inr u)"
    using w m by (simp add: write_blocks_def)
  have rl: "read_blocks_loop ops d' start 0 ?n buf = (buf', Inr v)"
    using r m len by (simp add: read_blocks_def split: if_splits)
  note W = write_blocks_loop_contents [OF wl le0 nl]
  have bl: "length buf = ?n * BLOCK_SIZE" using n len by simp
  note R = read_blocks_loop_contents [OF rl le0 nl wf bl]
  show ?thesis
  proof (rule chunks_eqI)
    show "length buf' = ?n * BLOCK_SIZE" using R bl by simp
    show "length data = ?n * BLOCK_SIZE" by (rule n)
    fix j assume j: "j < ?n"
    have "unat start + length data div BLOCK_SIZE \<le> 2 ^ 64" using W n0 by blast
    then have "unat start + j < 2 ^ 64" using j by linarith
    moreover have "unat (word_of_nat j :: u64) = j"
      using j nl by (simp add: USIZE_LIMIT_def unat_word_of_nat)
    ultimately have "unat (start + word_of_nat j) = unat start + j" by (simp add: unat_add_lt)
    then have "contents d' (start + word_of_nat j) = Some (slice data (j * BLOCK_SIZE) BLOCK_SIZE)"
      using W [of "start + word_of_nat j"] j by simp
    then show "slice buf' (j * BLOCK_SIZE) BLOCK_SIZE = slice data (j * BLOCK_SIZE) BLOCK_SIZE"
      using R j by simp
  qed
qed

end

text \<open>
  A device with a cache that may lose what was not flushed: \<open>durable d i v\<close> says that block \<open>i\<close> holds \<open>v\<close> whatever
  happens to the power. A flush makes the contents durable, and a durable block stays so until it is written again.
\<close>

locale volatile_device = block_device ops contents
    for ops :: "('d, 'z) device_ops_scheme" and contents :: "'d \<Rightarrow> PBlockId \<Rightarrow> bytes option" +
  fixes durable :: "'d \<Rightarrow> PBlockId \<Rightarrow> bytes \<Rightarrow> bool"
  assumes flush_durable: "flush ops d = (d', Inr u) \<Longrightarrow> contents d i = Some v \<Longrightarrow> durable d' i v"
    and flush_keeps_durable: "flush ops d = (d', r) \<Longrightarrow> durable d i v \<Longrightarrow> durable d' i v"
    and write_keeps_durable: "write_block ops d b = (d', r) \<Longrightarrow> i \<noteq> blk_id b \<Longrightarrow> durable d i v \<Longrightarrow> durable d' i v"

section \<open>\<open>BlockMem\<close> is a block device\<close>

definition mem_contents :: "block_mem \<Rightarrow> PBlockId \<Rightarrow> bytes option" where
  "mem_contents m i = (if unat i < length m then Some (m ! unat i) else None)"

interpretation mem: block_device mem_ops mem_contents
proof unfold_locales
  show "blk_id b = i \<and> mem_contents m i = Some (blk_data b)"
    if "read_block mem_ops m i = Inr b" for m i b
    using that by (auto simp: mem_ops_def mem_read_block_def mem_contents_def block_new_def split: if_splits)
  show "mem_contents m' = (mem_contents m)(blk_id b \<mapsto> blk_data b)"
    if "write_block mem_ops m b = (m', Inr u)" for m m' b u
    using that by (auto simp: mem_ops_def mem_write_block_def mem_contents_def fun_eq_iff
        nth_list_update unat_inject split: if_splits)
  show "mem_contents m' = mem_contents m" if "flush mem_ops m = (m', Inr u)" for m m' u
    using that by (simp add: mem_ops_def mem_flush_def)
qed

definition mem_durable :: "block_mem \<Rightarrow> PBlockId \<Rightarrow> bytes \<Rightarrow> bool" where
  "mem_durable m i v \<longleftrightarrow> mem_contents m i = Some v"

interpretation mem: volatile_device mem_ops mem_contents mem_durable
proof unfold_locales
  show "mem_durable m' i v" if "flush mem_ops m = (m', Inr u)" "mem_contents m i = Some v" for m m' u i v
    using that by (simp add: mem_durable_def mem_ops_def mem_flush_def)
  show "mem_durable m' i v" if "flush mem_ops m = (m', r)" "mem_durable m i v" for m m' r i v
    using that by (simp add: mem_durable_def mem_ops_def mem_flush_def)
  show "mem_durable m' i v" if "write_block mem_ops m b = (m', r)" "i \<noteq> blk_id b" "mem_durable m i v" for m m' b r i v
    using that by (auto simp: mem_durable_def mem_ops_def mem_write_block_def mem_contents_def nth_list_update
        unat_inject split: if_splits)
qed

definition mem_wf :: "block_mem \<Rightarrow> bool" where
  "mem_wf m \<longleftrightarrow> (\<forall>x \<in> set m. length x = BLOCK_SIZE)"

lemma mem_wf_contents: "mem_wf m \<Longrightarrow> mem_contents m i = Some x \<Longrightarrow> length x = BLOCK_SIZE"
  by (auto simp: mem_wf_def mem_contents_def split: if_splits)

lemma mem_new_wf: "mem_wf (mem_new n)"
  by (simp add: mem_wf_def mem_new_def)

lemma mem_write_wf:
  "write_block mem_ops m b = (m', r) \<Longrightarrow> mem_wf m \<Longrightarrow> block_wf b \<Longrightarrow> mem_wf m' \<and> length m' = length m"
  by (auto simp: mem_ops_def mem_write_block_def mem_wf_def block_wf_def split: if_splits
      dest!: set_update_subset_insert [THEN subsetD])

lemma mem_write_blocks_loop_ok:
  "k \<le> n \<Longrightarrow> unat start + n \<le> length m \<Longrightarrow> length m \<le> 2 ^ 64 \<Longrightarrow> n < USIZE_LIMIT \<Longrightarrow>
   length data = n * BLOCK_SIZE \<Longrightarrow> mem_wf m \<Longrightarrow>
   \<exists>m'. write_blocks_loop mem_ops m start k n data = (m', Inr ()) \<and> length m' = length m \<and> mem_wf m'"
proof (induction "n - k" arbitrary: m k)
  case 0
  then show ?case by (subst write_blocks_loop.simps) simp
next
  case (Suc j)
  then have k: "k < n" by simp
  have kw: "unat (word_of_nat k :: u64) = k"
    using k Suc.prems(4) by (simp add: USIZE_LIMIT_def unat_word_of_nat)
  have lt: "unat start + unat (word_of_nat k :: u64) < 2 ^ LENGTH(64)"
    using k kw Suc.prems(2,3) by simp
  let ?id = "start + word_of_nat k"
  let ?x = "slice data (k * BLOCK_SIZE) BLOCK_SIZE"
  have id: "unat ?id = unat start + k" using unat_add_lt [OF lt] kw by simp
  then have "unat ?id < length m" using k Suc.prems(2) by simp
  then have w: "write_block mem_ops m (block_new ?id ?x) = (m[unat ?id := ?x], Inr ())"
    by (simp add: mem_ops_def mem_write_block_def block_new_def)
  have "block_wf (block_new ?id ?x)"
    using chunk_fits [OF k, of BLOCK_SIZE] Suc.prems(5) by (simp add: block_wf_def block_new_def)
  from mem_write_wf [OF w Suc.prems(6) this] have m1: "mem_wf (m[unat ?id := ?x])" by simp
  have "j = n - (k + 1)" "k + 1 \<le> n" using Suc.hyps(2) by auto
  from Suc.hyps(1) [OF this _ _ Suc.prems(4,5) m1] Suc.prems(2,3)
  obtain m' where "write_blocks_loop mem_ops (m[unat ?id := ?x]) start (k + 1) n data = (m', Inr ())"
    "length m' = length m" "mem_wf m'" by auto
  then show ?case using k lt w by (subst write_blocks_loop.simps) (simp add: checked_add_def)
qed

lemma mem_read_blocks_loop_ok:
  "k \<le> n \<Longrightarrow> unat start + n \<le> length m \<Longrightarrow> length m \<le> 2 ^ 64 \<Longrightarrow> n < USIZE_LIMIT \<Longrightarrow>
   \<exists>buf'. read_blocks_loop mem_ops m start k n buf = (buf', Inr ())"
proof (induction "n - k" arbitrary: buf k)
  case 0
  then show ?case by (subst read_blocks_loop.simps) simp
next
  case (Suc j)
  then have k: "k < n" by simp
  have kw: "unat (word_of_nat k :: u64) = k"
    using k Suc.prems(4) by (simp add: USIZE_LIMIT_def unat_word_of_nat)
  have lt: "unat start + unat (word_of_nat k :: u64) < 2 ^ LENGTH(64)"
    using k kw Suc.prems(2,3) by simp
  let ?id = "start + word_of_nat k"
  have "unat ?id = unat start + k" using unat_add_lt [OF lt] kw by simp
  then have r: "read_block mem_ops m ?id = Inr (block_new ?id (m ! unat ?id))"
    using k Suc.prems(2) by (simp add: mem_ops_def mem_read_block_def)
  have "j = n - (k + 1)" "k + 1 \<le> n" using Suc.hyps(2) by auto
  from Suc.hyps(1) [OF this Suc.prems(2-4)] obtain buf' where
    "read_blocks_loop mem_ops m start (k + 1) n
      (splice buf (k * BLOCK_SIZE) (blk_data (block_new ?id (m ! unat ?id)))) = (buf', Inr ())" by blast
  then show ?case using k lt r by (subst read_blocks_loop.simps) (simp add: checked_add_def)
qed

text \<open>On \<^verbatim>\<open>BlockMem\<close>, writing a non-empty buffer of whole blocks to a range inside the
  device succeeds, keeps the device well formed, changes no block outside the range, and reading
  the range back into any buffer of that length returns exactly the written bytes.\<close>

theorem mem_write_blocks_roundtrip:
  assumes "data \<noteq> []" "length data = n * BLOCK_SIZE" "unat start + n \<le> length m"
    and "length m \<le> 2 ^ 64" "length data < USIZE_LIMIT" "mem_wf m" "length buf = length data"
  shows "\<exists>m'. write_blocks mem_ops m start data = (m', Inr ()) \<and> mem_wf m' \<and> length m' = length m \<and>
    read_blocks mem_ops m' start buf = (data, Inr ()) \<and>
    (\<forall>i. unat i < unat start \<or> unat start + n \<le> unat i \<longrightarrow> mem_contents m' i = mem_contents m i)"
proof -
  have B: "0 < BLOCK_SIZE" by (simp add: BLOCK_SIZE_def)
  have md: "length data mod BLOCK_SIZE = 0" "length data div BLOCK_SIZE = n"
    using assms(2) B by simp_all
  have "n \<le> length data" using assms(2) B by simp
  then have nl: "n < USIZE_LIMIT" using assms(5) by simp
  from mem_write_blocks_loop_ok [OF le0 assms(3,4) nl assms(2,6)]
  obtain m' where wl: "write_blocks_loop mem_ops m start 0 n data = (m', Inr ())"
    and m': "length m' = length m" "mem_wf m'" by blast
  have w: "write_blocks mem_ops m start data = (m', Inr ())"
    using wl assms(1) md by (simp add: write_blocks_def)
  from mem_read_blocks_loop_ok [OF le0 _ _ nl, of start m' buf] assms(3,4) m'
  obtain buf' where "read_blocks_loop mem_ops m' start 0 n buf = (buf', Inr ())" by auto
  then have r: "read_blocks mem_ops m' start buf = (buf', Inr ())"
    using assms(1,7) md by (auto simp: read_blocks_def)
  have "buf' = data"
    by (rule mem.write_blocks_read_blocks [OF w r assms(7,5)]) (rule mem_wf_contents [OF m'(2)])
  moreover have "mem_contents m' i = mem_contents m i"
    if "unat i < unat start \<or> unat start + n \<le> unat i" for i
    using mem.write_blocks_loop_contents [OF wl le0 nl, of i] that by auto
  ultimately show ?thesis using w r m' by blast
qed

lemma mem_write_blocks_roundtrip_witness:
  "\<exists>m'. write_blocks mem_ops (mem_new 3) 1 (replicate BLOCK_SIZE 7) = (m', Inr ()) \<and>
     read_blocks mem_ops m' 1 (replicate BLOCK_SIZE 0) = (replicate BLOCK_SIZE 7, Inr ())"
proof -
  have l: "length (mem_new 3) = 3" by (simp add: mem_new_def)
  show ?thesis
    using mem_write_blocks_roundtrip [of "replicate BLOCK_SIZE 7" 1 1 "mem_new 3"
        "replicate BLOCK_SIZE 0", OF _ _ _ _ _ mem_new_wf]
    by (auto simp: l BLOCK_SIZE_def USIZE_LIMIT_def)
qed

text \<open>The multi-block defaults refuse an empty buffer and a buffer that is not a whole number of
  blocks with \<open>EINVAL\<close>, without any device access.\<close>

lemma multi_block_errors:
  "data = [] \<or> length data mod BLOCK_SIZE \<noteq> 0 \<Longrightarrow>
     write_blocks ops d start data = (d, Inl (Err EINVAL)) \<and>
     read_blocks ops d start data = (data, Inl (Err EINVAL))"
  by (auto simp: write_blocks_def read_blocks_def)

end
