(* ===== verification/Record_Laws.thy ===== *)
theory Record_Laws
  imports Bytes
begin

text \<open>
  The two contracts the on-disk structures share. \<open>field_store\<close>: a getter and a setter for one
  value, possibly stored in several machine words. \<open>sealed\<close>: a structure carrying a checksum of
  its own contents, with a recompute operation (\<^verbatim>\<open>set_checksum\<close>) and a test
  (\<^verbatim>\<open>verify_checksum\<close>). Both are interpreted in the theories of the structures.
\<close>

locale field_store =
  fixes get :: "'s \<Rightarrow> 'v"
    and put :: "'v \<Rightarrow> 's \<Rightarrow> 's"
    and fits :: "'v \<Rightarrow> bool"
  assumes get_put: "fits v \<Longrightarrow> get (put v s) = v"
    and put_get: "put (get s) s = s"
    and put_put: "put v (put w s) = put v s"
begin

lemma put_inject: "fits v \<Longrightarrow> fits w \<Longrightarrow> put v s = put w s \<Longrightarrow> v = w"
  by (metis get_put)

lemma put_idem: "put v (put v s) = put v s"
  by (rule put_put)

lemma put_unchanged: "fits v \<Longrightarrow> put v s = s \<longleftrightarrow> get s = v"
  by (metis get_put put_get)

end

locale field = field_store get put "\<lambda>_. True" for get :: "'s \<Rightarrow> 'v" and put
begin

lemma get_put_same [simp]: "get (put v s) = v"
  by (simp add: get_put)

lemma put_surj: "\<exists>s' v. s = put v s'"
  by (metis put_get)

end

locale sealed =
  fixes wf :: "'s \<Rightarrow> bool"
    and seal :: "'s \<Rightarrow> 's"
    and verify :: "'s \<Rightarrow> bool"
    and stored :: "'s \<Rightarrow> 'c"
    and computed :: "'s \<Rightarrow> 'c"
  assumes wf_seal: "wf s \<Longrightarrow> wf (seal s)"
    and stored_seal: "wf s \<Longrightarrow> stored (seal s) = computed s"
    and computed_seal: "wf s \<Longrightarrow> computed (seal s) = computed s"
    and verify_iff: "wf s \<Longrightarrow> verify s \<longleftrightarrow> stored s = computed s"
    and seal_fixed: "wf s \<Longrightarrow> stored s = computed s \<Longrightarrow> seal s = s"
begin

lemma verify_seal: "wf s \<Longrightarrow> verify (seal s)"
  by (simp add: verify_iff wf_seal stored_seal computed_seal)

lemma seal_idem: "wf s \<Longrightarrow> seal (seal s) = seal s"
  by (simp add: seal_fixed wf_seal stored_seal computed_seal)

lemma verify_iff_fixed: "wf s \<Longrightarrow> verify s \<longleftrightarrow> seal s = s"
  using verify_iff seal_fixed verify_seal by metis

lemma verified_same_contents:
  "wf s \<Longrightarrow> wf t \<Longrightarrow> verify s \<Longrightarrow> verify t \<Longrightarrow> computed s = computed t \<Longrightarrow> stored s = stored t"
  by (simp add: verify_iff)

end

section \<open>Reading a C structure field by field\<close>

text \<open>
  \<open>AsBytes::from_bytes\<close> reinterprets the bytes of a \<^verbatim>\<open>#[repr(C)]\<close> structure; the model reads
  its fields in order of increasing offset. \<open>rd k dec bs f\<close> decodes the next \<open>k\<close> bytes and
  continues with the rest.
\<close>

definition rd :: "nat \<Rightarrow> (bytes \<Rightarrow> 'a) \<Rightarrow> bytes \<Rightarrow> ('a \<Rightarrow> bytes \<Rightarrow> 'b) \<Rightarrow> 'b" where
  "rd k dec bs f = f (dec (take k bs)) (drop k bs)"

fun le32s :: "u32 list \<Rightarrow> bytes" where
  "le32s [] = []"
| "le32s (w # ws) = le32 w @ le32s ws"

fun of_le32s :: "bytes \<Rightarrow> u32 list" where
  "of_le32s (a # b # c # d # bs) = of_le [a, b, c, d] # of_le32s bs"
| "of_le32s _ = []"

lemma length_le32s [simp]: "length (le32s ws) = 4 * length ws"
  by (induction ws) auto

lemma length_4_cases: "length xs = 4 \<Longrightarrow> \<exists>a b c d. xs = [a, b, c, d]"
  by (auto simp: numeral_eq_Suc length_Suc_conv)

lemma of_le32s_le32s [simp]: "of_le32s (le32s ws) = ws"
proof (induction ws)
  case (Cons w ws)
  obtain a b c d where e: "le32 w = [a, b, c, d]"
    using length_4_cases [OF length_le_bytes [of 4 w]] by blast
  then have "of_le [a, b, c, d] = w" by (metis of_le_roundtrip(2))
  then show ?case using Cons by (simp add: e)
qed simp

lemma rd_le8 [simp]: "rd (Suc 0) of_le (le_bytes (Suc 0) (a :: u8) @ bs) f = f a bs"
  by (simp add: rd_def of_le_le_bytes)

lemma rd_le16 [simp]: "rd 2 of_le (le16 a @ bs) f = f a bs"
  by (simp add: rd_def)

lemma rd_le32 [simp]: "rd 4 of_le (le32 a @ bs) f = f a bs"
  by (simp add: rd_def)

lemma rd_le64 [simp]: "rd 8 of_le (le64 a @ bs) f = f a bs"
  by (simp add: rd_def)

lemma rd_le16_end [simp]: "rd 2 of_le (le16 a) f = f a []"
  by (simp add: rd_def)

lemma rd_le32_end [simp]: "rd 4 of_le (le32 a) f = f a []"
  by (simp add: rd_def)

lemma rd_bytes: "length xs = k \<Longrightarrow> rd k id (xs @ bs) f = f xs bs"
  by (simp add: rd_def)

lemma rd_le32s: "4 * length ws = k \<Longrightarrow> rd k of_le32s (le32s ws @ bs) f = f ws bs"
  by (simp add: rd_def)

end
