(* ===== verification/Super_Block.thy ===== *)
theory Super_Block
  imports Crc Record_Laws
begin

text \<open>
  The superblock, \<^verbatim>\<open>src/ext4_defs/super_block.rs\<close>: the \<^verbatim>\<open>#[repr(C)]\<close> structure field by field
  (grouped as the source comments group it), its byte image, and its accessors. The lemmas show
  that the byte image is a faithful encoding, that the checksum written by \<^verbatim>\<open>set_checksum\<close> is the
  one \<^verbatim>\<open>verify_checksum\<close> accepts, and how inodes are divided among the block groups.
\<close>

section \<open>The structure\<close>

record super_block_base =
  sb_inode_count :: u32
  sb_block_count_lo :: u32
  sb_reserved_block_count_lo :: u32
  sb_free_block_count_lo :: u32
  sb_free_inode_count :: u32
  sb_first_data_block :: u32
  sb_log_block_size :: u32
  sb_log_cluster_size :: u32
  sb_blocks_per_group :: u32
  sb_frags_per_group :: u32
  sb_inodes_per_group :: u32
  sb_mount_time :: u32
  sb_write_time :: u32
  sb_mount_count :: u16
  sb_max_mount_count :: u16
  sb_magic :: u16
  sb_state :: u16
  sb_errors :: u16
  sb_minor_rev_level :: u16
  sb_last_check_time :: u32
  sb_check_interval :: u32
  sb_creator_os :: u32
  sb_rev_level :: u32
  sb_def_resuid :: u16
  sb_def_resgid :: u16

record super_block_dynamic = super_block_base +
  sb_first_inode :: u32
  sb_inode_size :: u16
  sb_block_group_index :: u16
  sb_features_compatible :: u32
  sb_features_incompatible :: u32
  sb_features_read_only :: u32
  sb_uuid :: bytes
  sb_volume_name :: bytes
  sb_last_mounted :: bytes
  sb_algorithm_usage_bitmap :: u32
  sb_prealloc_blocks :: u8
  sb_prealloc_dir_blocks :: u8
  sb_reserved_gdt_blocks :: u16

record super_block_journal = super_block_dynamic +
  sb_journal_uuid :: bytes
  sb_journal_inode_number :: u32
  sb_journal_dev :: u32
  sb_last_orphan :: u32
  sb_hash_seed :: "u32 list"
  sb_default_hash_version :: u8
  sb_journal_backup_type :: u8
  sb_desc_size :: u16
  sb_default_mount_opts :: u32
  sb_first_meta_bg :: u32
  sb_mkfs_time :: u32
  sb_journal_blocks :: "u32 list"

record super_block_64 = super_block_journal +
  sb_block_count_hi :: u32
  sb_reserved_blocks_count_hi :: u32
  sb_free_blocks_count_hi :: u32
  sb_min_extra_isize :: u16
  sb_want_extra_isize :: u16
  sb_flags :: u32
  sb_raid_stride :: u16
  sb_mmp_interval :: u16
  sb_mmp_block :: u64
  sb_raid_stripe_width :: u32
  sb_log_groups_per_flex :: u8
  sb_checksum_type :: u8
  sb_reserved_pad :: u16
  sb_kbytes_written :: u64
  sb_snapshot_inum :: u32
  sb_snapshot_id :: u32
  sb_snapshot_r_blocks_count :: u64
  sb_snapshot_list :: u32

record super_block = super_block_64 +
  sb_error_count :: u32
  sb_first_error_time :: u32
  sb_first_error_ino :: u32
  sb_first_error_block :: u64
  sb_first_error_func :: bytes
  sb_first_error_line :: u32
  sb_last_error_time :: u32
  sb_last_error_ino :: u32
  sb_last_error_line :: u32
  sb_last_error_block :: u64
  sb_last_error_func :: bytes
  sb_mount_opts :: bytes
  sb_usr_quota_inum :: u32
  sb_grp_quota_inum :: u32
  sb_overhead_clusters :: u32
  sb_backup_bgs :: "u32 list"
  sb_encrypt_algos :: bytes
  sb_encrypt_pw_salt :: bytes
  sb_lpf_ino :: u32
  sb_project_quota_inum :: u32
  sb_checksum_seed :: u32
  sb_padding :: "u32 list"
  sb_checksum :: u32


text \<open>The lengths Rust's array types guarantee.\<close>

definition sb_wf :: "super_block \<Rightarrow> bool" where
  "sb_wf s \<longleftrightarrow>
     length (sb_uuid s) = 16 \<and>
     length (sb_volume_name s) = 16 \<and>
     length (sb_last_mounted s) = 64 \<and>
     length (sb_journal_uuid s) = 16 \<and>
     length (sb_hash_seed s) = 4 \<and>
     length (sb_journal_blocks s) = 17 \<and>
     length (sb_first_error_func s) = 32 \<and>
     length (sb_last_error_func s) = 32 \<and>
     length (sb_mount_opts s) = 64 \<and>
     length (sb_backup_bgs s) = 2 \<and>
     length (sb_encrypt_algos s) = 4 \<and>
     length (sb_encrypt_pw_salt s) = 16 \<and>
     length (sb_padding s) = 98"

definition sb_prefix_bytes :: "super_block \<Rightarrow> bytes" where
  "sb_prefix_bytes s =
     le_bytes 4 (sb_inode_count s) @ le_bytes 4 (sb_block_count_lo s) @
     le_bytes 4 (sb_reserved_block_count_lo s) @ le_bytes 4 (sb_free_block_count_lo s) @
     le_bytes 4 (sb_free_inode_count s) @ le_bytes 4 (sb_first_data_block s) @
     le_bytes 4 (sb_log_block_size s) @ le_bytes 4 (sb_log_cluster_size s) @
     le_bytes 4 (sb_blocks_per_group s) @ le_bytes 4 (sb_frags_per_group s) @
     le_bytes 4 (sb_inodes_per_group s) @ le_bytes 4 (sb_mount_time s) @
     le_bytes 4 (sb_write_time s) @ le_bytes 2 (sb_mount_count s) @
     le_bytes 2 (sb_max_mount_count s) @ le_bytes 2 (sb_magic s) @ le_bytes 2 (sb_state s) @
     le_bytes 2 (sb_errors s) @ le_bytes 2 (sb_minor_rev_level s) @
     le_bytes 4 (sb_last_check_time s) @ le_bytes 4 (sb_check_interval s) @
     le_bytes 4 (sb_creator_os s) @ le_bytes 4 (sb_rev_level s) @ le_bytes 2 (sb_def_resuid s) @
     le_bytes 2 (sb_def_resgid s) @ le_bytes 4 (sb_first_inode s) @ le_bytes 2 (sb_inode_size s) @
     le_bytes 2 (sb_block_group_index s) @ le_bytes 4 (sb_features_compatible s) @
     le_bytes 4 (sb_features_incompatible s) @ le_bytes 4 (sb_features_read_only s) @ sb_uuid s @
     sb_volume_name s @ sb_last_mounted s @ le_bytes 4 (sb_algorithm_usage_bitmap s) @
     le_bytes 1 (sb_prealloc_blocks s) @ le_bytes 1 (sb_prealloc_dir_blocks s) @
     le_bytes 2 (sb_reserved_gdt_blocks s) @ sb_journal_uuid s @
     le_bytes 4 (sb_journal_inode_number s) @ le_bytes 4 (sb_journal_dev s) @
     le_bytes 4 (sb_last_orphan s) @ le32s (sb_hash_seed s) @
     le_bytes 1 (sb_default_hash_version s) @ le_bytes 1 (sb_journal_backup_type s) @
     le_bytes 2 (sb_desc_size s) @ le_bytes 4 (sb_default_mount_opts s) @
     le_bytes 4 (sb_first_meta_bg s) @ le_bytes 4 (sb_mkfs_time s) @ le32s (sb_journal_blocks s) @
     le_bytes 4 (sb_block_count_hi s) @ le_bytes 4 (sb_reserved_blocks_count_hi s) @
     le_bytes 4 (sb_free_blocks_count_hi s) @ le_bytes 2 (sb_min_extra_isize s) @
     le_bytes 2 (sb_want_extra_isize s) @ le_bytes 4 (sb_flags s) @ le_bytes 2 (sb_raid_stride s) @
     le_bytes 2 (sb_mmp_interval s) @ le_bytes 8 (sb_mmp_block s) @
     le_bytes 4 (sb_raid_stripe_width s) @ le_bytes 1 (sb_log_groups_per_flex s) @
     le_bytes 1 (sb_checksum_type s) @ le_bytes 2 (sb_reserved_pad s) @
     le_bytes 8 (sb_kbytes_written s) @ le_bytes 4 (sb_snapshot_inum s) @
     le_bytes 4 (sb_snapshot_id s) @ le_bytes 8 (sb_snapshot_r_blocks_count s) @
     le_bytes 4 (sb_snapshot_list s) @ le_bytes 4 (sb_error_count s) @
     le_bytes 4 (sb_first_error_time s) @ le_bytes 4 (sb_first_error_ino s) @
     le_bytes 8 (sb_first_error_block s) @ sb_first_error_func s @
     le_bytes 4 (sb_first_error_line s) @ le_bytes 4 (sb_last_error_time s) @
     le_bytes 4 (sb_last_error_ino s) @ le_bytes 4 (sb_last_error_line s) @
     le_bytes 8 (sb_last_error_block s) @ sb_last_error_func s @ sb_mount_opts s @
     le_bytes 4 (sb_usr_quota_inum s) @ le_bytes 4 (sb_grp_quota_inum s) @
     le_bytes 4 (sb_overhead_clusters s) @ le32s (sb_backup_bgs s) @ sb_encrypt_algos s @
     sb_encrypt_pw_salt s @ le_bytes 4 (sb_lpf_ino s) @ le_bytes 4 (sb_project_quota_inum s) @
     le_bytes 4 (sb_checksum_seed s) @ le32s (sb_padding s)"

definition sb_to_bytes :: "super_block \<Rightarrow> bytes" where
  "sb_to_bytes s = sb_prefix_bytes s @ le32 (sb_checksum s)"

definition sb_from_bytes :: "bytes \<Rightarrow> super_block res" where
  "sb_from_bytes bs0 =
     (if length bs0 < 1024 then Inl Panic else Inr (
       rd 4 of_le bs0 (\<lambda>v_inode_count bs. rd 4 of_le bs (\<lambda>v_block_count_lo bs.
       rd 4 of_le bs (\<lambda>v_reserved_block_count_lo bs. rd 4 of_le bs (\<lambda>v_free_block_count_lo bs.
       rd 4 of_le bs (\<lambda>v_free_inode_count bs. rd 4 of_le bs (\<lambda>v_first_data_block bs.
       rd 4 of_le bs (\<lambda>v_log_block_size bs. rd 4 of_le bs (\<lambda>v_log_cluster_size bs.
       rd 4 of_le bs (\<lambda>v_blocks_per_group bs. rd 4 of_le bs (\<lambda>v_frags_per_group bs.
       rd 4 of_le bs (\<lambda>v_inodes_per_group bs. rd 4 of_le bs (\<lambda>v_mount_time bs.
       rd 4 of_le bs (\<lambda>v_write_time bs. rd 2 of_le bs (\<lambda>v_mount_count bs.
       rd 2 of_le bs (\<lambda>v_max_mount_count bs. rd 2 of_le bs (\<lambda>v_magic bs.
       rd 2 of_le bs (\<lambda>v_state bs. rd 2 of_le bs (\<lambda>v_errors bs.
       rd 2 of_le bs (\<lambda>v_minor_rev_level bs. rd 4 of_le bs (\<lambda>v_last_check_time bs.
       rd 4 of_le bs (\<lambda>v_check_interval bs. rd 4 of_le bs (\<lambda>v_creator_os bs.
       rd 4 of_le bs (\<lambda>v_rev_level bs. rd 2 of_le bs (\<lambda>v_def_resuid bs.
       rd 2 of_le bs (\<lambda>v_def_resgid bs. rd 4 of_le bs (\<lambda>v_first_inode bs.
       rd 2 of_le bs (\<lambda>v_inode_size bs. rd 2 of_le bs (\<lambda>v_block_group_index bs.
       rd 4 of_le bs (\<lambda>v_features_compatible bs. rd 4 of_le bs (\<lambda>v_features_incompatible bs.
       rd 4 of_le bs (\<lambda>v_features_read_only bs. rd 16 id bs (\<lambda>v_uuid bs.
       rd 16 id bs (\<lambda>v_volume_name bs. rd 64 id bs (\<lambda>v_last_mounted bs.
       rd 4 of_le bs (\<lambda>v_algorithm_usage_bitmap bs. rd 1 of_le bs (\<lambda>v_prealloc_blocks bs.
       rd 1 of_le bs (\<lambda>v_prealloc_dir_blocks bs. rd 2 of_le bs (\<lambda>v_reserved_gdt_blocks bs.
       rd 16 id bs (\<lambda>v_journal_uuid bs. rd 4 of_le bs (\<lambda>v_journal_inode_number bs.
       rd 4 of_le bs (\<lambda>v_journal_dev bs. rd 4 of_le bs (\<lambda>v_last_orphan bs.
       rd 16 of_le32s bs (\<lambda>v_hash_seed bs. rd 1 of_le bs (\<lambda>v_default_hash_version bs.
       rd 1 of_le bs (\<lambda>v_journal_backup_type bs. rd 2 of_le bs (\<lambda>v_desc_size bs.
       rd 4 of_le bs (\<lambda>v_default_mount_opts bs. rd 4 of_le bs (\<lambda>v_first_meta_bg bs.
       rd 4 of_le bs (\<lambda>v_mkfs_time bs. rd 68 of_le32s bs (\<lambda>v_journal_blocks bs.
       rd 4 of_le bs (\<lambda>v_block_count_hi bs. rd 4 of_le bs (\<lambda>v_reserved_blocks_count_hi bs.
       rd 4 of_le bs (\<lambda>v_free_blocks_count_hi bs. rd 2 of_le bs (\<lambda>v_min_extra_isize bs.
       rd 2 of_le bs (\<lambda>v_want_extra_isize bs. rd 4 of_le bs (\<lambda>v_flags bs.
       rd 2 of_le bs (\<lambda>v_raid_stride bs. rd 2 of_le bs (\<lambda>v_mmp_interval bs.
       rd 8 of_le bs (\<lambda>v_mmp_block bs. rd 4 of_le bs (\<lambda>v_raid_stripe_width bs.
       rd 1 of_le bs (\<lambda>v_log_groups_per_flex bs. rd 1 of_le bs (\<lambda>v_checksum_type bs.
       rd 2 of_le bs (\<lambda>v_reserved_pad bs. rd 8 of_le bs (\<lambda>v_kbytes_written bs.
       rd 4 of_le bs (\<lambda>v_snapshot_inum bs. rd 4 of_le bs (\<lambda>v_snapshot_id bs.
       rd 8 of_le bs (\<lambda>v_snapshot_r_blocks_count bs. rd 4 of_le bs (\<lambda>v_snapshot_list bs.
       rd 4 of_le bs (\<lambda>v_error_count bs. rd 4 of_le bs (\<lambda>v_first_error_time bs.
       rd 4 of_le bs (\<lambda>v_first_error_ino bs. rd 8 of_le bs (\<lambda>v_first_error_block bs.
       rd 32 id bs (\<lambda>v_first_error_func bs. rd 4 of_le bs (\<lambda>v_first_error_line bs.
       rd 4 of_le bs (\<lambda>v_last_error_time bs. rd 4 of_le bs (\<lambda>v_last_error_ino bs.
       rd 4 of_le bs (\<lambda>v_last_error_line bs. rd 8 of_le bs (\<lambda>v_last_error_block bs.
       rd 32 id bs (\<lambda>v_last_error_func bs. rd 64 id bs (\<lambda>v_mount_opts bs.
       rd 4 of_le bs (\<lambda>v_usr_quota_inum bs. rd 4 of_le bs (\<lambda>v_grp_quota_inum bs.
       rd 4 of_le bs (\<lambda>v_overhead_clusters bs. rd 8 of_le32s bs (\<lambda>v_backup_bgs bs.
       rd 4 id bs (\<lambda>v_encrypt_algos bs. rd 16 id bs (\<lambda>v_encrypt_pw_salt bs.
       rd 4 of_le bs (\<lambda>v_lpf_ino bs. rd 4 of_le bs (\<lambda>v_project_quota_inum bs.
       rd 4 of_le bs (\<lambda>v_checksum_seed bs. rd 392 of_le32s bs (\<lambda>v_padding bs.
       rd 4 of_le bs (\<lambda>v_checksum bs.
       \<lparr>sb_inode_count = v_inode_count, sb_block_count_lo = v_block_count_lo,
        sb_reserved_block_count_lo = v_reserved_block_count_lo,
        sb_free_block_count_lo = v_free_block_count_lo, sb_free_inode_count = v_free_inode_count,
        sb_first_data_block = v_first_data_block, sb_log_block_size = v_log_block_size,
        sb_log_cluster_size = v_log_cluster_size, sb_blocks_per_group = v_blocks_per_group,
        sb_frags_per_group = v_frags_per_group, sb_inodes_per_group = v_inodes_per_group,
        sb_mount_time = v_mount_time, sb_write_time = v_write_time, sb_mount_count = v_mount_count,
        sb_max_mount_count = v_max_mount_count, sb_magic = v_magic, sb_state = v_state,
        sb_errors = v_errors, sb_minor_rev_level = v_minor_rev_level,
        sb_last_check_time = v_last_check_time, sb_check_interval = v_check_interval,
        sb_creator_os = v_creator_os, sb_rev_level = v_rev_level, sb_def_resuid = v_def_resuid,
        sb_def_resgid = v_def_resgid, sb_first_inode = v_first_inode, sb_inode_size = v_inode_size,
        sb_block_group_index = v_block_group_index, sb_features_compatible = v_features_compatible,
        sb_features_incompatible = v_features_incompatible,
        sb_features_read_only = v_features_read_only, sb_uuid = v_uuid,
        sb_volume_name = v_volume_name, sb_last_mounted = v_last_mounted,
        sb_algorithm_usage_bitmap = v_algorithm_usage_bitmap,
        sb_prealloc_blocks = v_prealloc_blocks, sb_prealloc_dir_blocks = v_prealloc_dir_blocks,
        sb_reserved_gdt_blocks = v_reserved_gdt_blocks, sb_journal_uuid = v_journal_uuid,
        sb_journal_inode_number = v_journal_inode_number, sb_journal_dev = v_journal_dev,
        sb_last_orphan = v_last_orphan, sb_hash_seed = v_hash_seed,
        sb_default_hash_version = v_default_hash_version,
        sb_journal_backup_type = v_journal_backup_type, sb_desc_size = v_desc_size,
        sb_default_mount_opts = v_default_mount_opts, sb_first_meta_bg = v_first_meta_bg,
        sb_mkfs_time = v_mkfs_time, sb_journal_blocks = v_journal_blocks,
        sb_block_count_hi = v_block_count_hi,
        sb_reserved_blocks_count_hi = v_reserved_blocks_count_hi,
        sb_free_blocks_count_hi = v_free_blocks_count_hi, sb_min_extra_isize = v_min_extra_isize,
        sb_want_extra_isize = v_want_extra_isize, sb_flags = v_flags,
        sb_raid_stride = v_raid_stride, sb_mmp_interval = v_mmp_interval,
        sb_mmp_block = v_mmp_block, sb_raid_stripe_width = v_raid_stripe_width,
        sb_log_groups_per_flex = v_log_groups_per_flex, sb_checksum_type = v_checksum_type,
        sb_reserved_pad = v_reserved_pad, sb_kbytes_written = v_kbytes_written,
        sb_snapshot_inum = v_snapshot_inum, sb_snapshot_id = v_snapshot_id,
        sb_snapshot_r_blocks_count = v_snapshot_r_blocks_count, sb_snapshot_list = v_snapshot_list,
        sb_error_count = v_error_count, sb_first_error_time = v_first_error_time,
        sb_first_error_ino = v_first_error_ino, sb_first_error_block = v_first_error_block,
        sb_first_error_func = v_first_error_func, sb_first_error_line = v_first_error_line,
        sb_last_error_time = v_last_error_time, sb_last_error_ino = v_last_error_ino,
        sb_last_error_line = v_last_error_line, sb_last_error_block = v_last_error_block,
        sb_last_error_func = v_last_error_func, sb_mount_opts = v_mount_opts,
        sb_usr_quota_inum = v_usr_quota_inum, sb_grp_quota_inum = v_grp_quota_inum,
        sb_overhead_clusters = v_overhead_clusters, sb_backup_bgs = v_backup_bgs,
        sb_encrypt_algos = v_encrypt_algos, sb_encrypt_pw_salt = v_encrypt_pw_salt,
        sb_lpf_ino = v_lpf_ino, sb_project_quota_inum = v_project_quota_inum,
        sb_checksum_seed = v_checksum_seed, sb_padding = v_padding, sb_checksum = v_checksum\<rparr>)))))))))))))))))))))))))))))))))))))))))))))))))))))))))))))))))))))))))))))))))))))))))))))"

section \<open>Constants\<close>

definition STATE_VALID_FS :: u16 where "STATE_VALID_FS = 0x0001"
definition SB_MAGIC :: u16 where "SB_MAGIC = 0xEF53"
definition FEATURE_COMPAT_HAS_JOURNAL :: u32 where "FEATURE_COMPAT_HAS_JOURNAL = 0x0004"
definition FEATURE_COMPAT_RESIZE_INODE :: u32 where "FEATURE_COMPAT_RESIZE_INODE = 0x0010"
definition FEATURE_COMPAT_SPARSE_SUPER2 :: u32 where "FEATURE_COMPAT_SPARSE_SUPER2 = 0x0200"
definition FEATURE_COMPAT_FAST_COMMIT :: u32 where "FEATURE_COMPAT_FAST_COMMIT = 0x0400"
definition FEATURE_COMPAT_ORPHAN_FILE :: u32 where "FEATURE_COMPAT_ORPHAN_FILE = 0x1000"
definition FEATURE_INCOMPAT_RECOVER :: u32 where "FEATURE_INCOMPAT_RECOVER = 0x0004"
definition FEATURE_INCOMPAT_JOURNAL_DEV :: u32 where "FEATURE_INCOMPAT_JOURNAL_DEV = 0x0008"
definition FEATURE_INCOMPAT_CSUM_SEED :: u32 where "FEATURE_INCOMPAT_CSUM_SEED = 0x2000"
definition FEATURE_RO_COMPAT_ORPHAN_PRESENT :: u32 where "FEATURE_RO_COMPAT_ORPHAN_PRESENT = 0x00010000"
definition FEATURE_RO_COMPAT_SPARSE_SUPER :: u32 where "FEATURE_RO_COMPAT_SPARSE_SUPER = 0x0001"
definition FEATURE_RO_COMPAT_METADATA_CSUM :: u32 where "FEATURE_RO_COMPAT_METADATA_CSUM = 0x0400"

section \<open>Accessors\<close>

text \<open>\<open>MetadataChecksumSeed\<close> is a newtype around its 32-bit seed.\<close>

type_synonym MetadataChecksumSeed = u32

definition seed_crc32c :: "MetadataChecksumSeed \<Rightarrow> bytes \<Rightarrow> u32" where
  "seed_crc32c seed bs = crc32 seed bs"

definition sb_check_magic :: "super_block \<Rightarrow> bool" where
  "sb_check_magic s \<longleftrightarrow> sb_magic s = SB_MAGIC"

definition has_compatible_feature :: "super_block \<Rightarrow> u32 \<Rightarrow> bool" where
  "has_compatible_feature s feature \<longleftrightarrow> sb_features_compatible s AND feature \<noteq> 0"

definition has_incompatible_feature :: "super_block \<Rightarrow> u32 \<Rightarrow> bool" where
  "has_incompatible_feature s feature \<longleftrightarrow> sb_features_incompatible s AND feature \<noteq> 0"

definition has_read_only_compatible_feature :: "super_block \<Rightarrow> u32 \<Rightarrow> bool" where
  "has_read_only_compatible_feature s feature \<longleftrightarrow> sb_features_read_only s AND feature \<noteq> 0"

definition set_incompatible_feature :: "super_block \<Rightarrow> u32 \<Rightarrow> bool \<Rightarrow> super_block" where
  "set_incompatible_feature s feature enabled =
     (if enabled then s\<lparr>sb_features_incompatible := sb_features_incompatible s OR feature\<rparr>
      else s\<lparr>sb_features_incompatible := sb_features_incompatible s AND NOT feature\<rparr>)"

definition metadata_checksum_seed :: "super_block \<Rightarrow> MetadataChecksumSeed" where
  "metadata_checksum_seed s =
     (if has_incompatible_feature s FEATURE_INCOMPAT_CSUM_SEED then sb_checksum_seed s
      else crc32 CRC32_INIT (sb_uuid s))"

definition sb_is_clean :: "super_block \<Rightarrow> bool" where
  "sb_is_clean s \<longleftrightarrow> sb_state s AND STATE_VALID_FS \<noteq> 0"

definition sb_set_clean :: "super_block \<Rightarrow> bool \<Rightarrow> super_block" where
  "sb_set_clean s clean =
     (if clean then s\<lparr>sb_state := sb_state s OR STATE_VALID_FS\<rparr>
      else s\<lparr>sb_state := sb_state s AND NOT STATE_VALID_FS\<rparr>)"

definition sb_set_last_orphan :: "super_block \<Rightarrow> u32 \<Rightarrow> super_block" where
  "sb_set_last_orphan s inode = s\<lparr>sb_last_orphan := inode\<rparr>"

definition sb_block_count :: "super_block \<Rightarrow> u64" where
  "sb_block_count s = ucast (sb_block_count_lo s) OR push_bit 32 (ucast (sb_block_count_hi s))"

definition sb_total_reserved_blocks_count :: "super_block \<Rightarrow> u64" where
  "sb_total_reserved_blocks_count s =
     ucast (sb_reserved_block_count_lo s) OR push_bit 32 (ucast (sb_reserved_blocks_count_hi s))"

definition sb_block_group_count :: "super_block \<Rightarrow> u32 res" where
  "sb_block_group_count s =
     (if sb_blocks_per_group s = 0 then Inl Panic
      else Inr (word_of_nat (div_ceil (unat (sb_block_count s)) (unat (sb_blocks_per_group s)))))"

definition sb_inode_count_in_group :: "super_block \<Rightarrow> u32 \<Rightarrow> u32 res" where
  "sb_inode_count_in_group s bgid =
     rbind (sb_block_group_count s) (\<lambda>bg_count.
       if bgid \<ge> bg_count then Inr 0
       else if bgid + 1 < bg_count then Inr (sb_inodes_per_group s)
       else Inr (saturating_sub (sb_inode_count s) (saturating_mul (bg_count - 1) (sb_inodes_per_group s))))"

definition sb_set_free_inodes_count :: "super_block \<Rightarrow> u32 \<Rightarrow> super_block" where
  "sb_set_free_inodes_count s count = s\<lparr>sb_free_inode_count := count\<rparr>"

definition sb_free_blocks_count :: "super_block \<Rightarrow> u64" where
  "sb_free_blocks_count s =
     ucast (sb_free_block_count_lo s) OR push_bit 32 (ucast (sb_free_blocks_count_hi s))"

definition sb_block_size :: "super_block \<Rightarrow> u64 res" where
  "sb_block_size s =
     (if unat (sb_log_block_size s) < 64 then Inr (push_bit (unat (sb_log_block_size s)) 1024)
      else Inl Panic)"

definition sb_clusters_to_blocks :: "super_block \<Rightarrow> u64 \<Rightarrow> u64 res" where
  "sb_clusters_to_blocks s clusters =
     (if sb_log_cluster_size s \<le> sb_log_block_size s then Inr clusters
      else let sh = unat (sb_log_cluster_size s - sb_log_block_size s) in
        if sh < 64 then Inr (push_bit sh clusters) else Inl Panic)"

definition sb_set_free_blocks_count :: "u64 \<Rightarrow> super_block \<Rightarrow> super_block" where
  "sb_set_free_blocks_count free_blocks s =
     s\<lparr>sb_free_block_count_lo := ucast (drop_bit 32 (push_bit 32 free_blocks)),
       sb_free_blocks_count_hi := ucast (drop_bit 32 free_blocks)\<rparr>"

text \<open>The checksum covers the bytes before the checksum field, at offset 0x3fc.\<close>

definition SB_CHECKSUM_OFFSET :: nat where "SB_CHECKSUM_OFFSET = 0x3fc"

definition sb_computed_checksum :: "super_block \<Rightarrow> u32" where
  "sb_computed_checksum s = crc32 CRC32_INIT (take SB_CHECKSUM_OFFSET (sb_to_bytes s))"

definition sb_set_checksum :: "super_block \<Rightarrow> super_block" where
  "sb_set_checksum s = s\<lparr>sb_checksum := sb_computed_checksum s\<rparr>"

definition sb_verify_checksum :: "super_block \<Rightarrow> bool" where
  "sb_verify_checksum s \<longleftrightarrow> sb_checksum (sb_set_checksum s) = sb_checksum s"

definition sb_has_supported_checksum_type :: "super_block \<Rightarrow> bool" where
  "sb_has_supported_checksum_type s \<longleftrightarrow> sb_checksum_type s = 1"

section \<open>Layout\<close>

lemma length_sb_prefix_bytes [simp]: "sb_wf s \<Longrightarrow> length (sb_prefix_bytes s) = 1020"
  by (simp add: sb_prefix_bytes_def sb_wf_def)

lemma length_sb_to_bytes [simp]: "sb_wf s \<Longrightarrow> length (sb_to_bytes s) = 1024"
  by (simp add: sb_to_bytes_def)

text \<open>The on-disk image of a superblock, 1024 bytes, decodes to the superblock it was
  written from: no field is lost, truncated or moved.\<close>

theorem sb_bytes_roundtrip:
  assumes "sb_wf s"
  shows "length (sb_to_bytes s) = 1024 \<and> sb_from_bytes (sb_to_bytes s) = Inr s"
proof -
  have l: "\<not> length (sb_to_bytes s) < 1024" using assms by simp
  show ?thesis
    using assms l unfolding sb_from_bytes_def sb_wf_def
    by (simp add: sb_to_bytes_def sb_prefix_bytes_def rd_bytes rd_le32s)
qed

lemma sb_from_bytes_short: "length bs < 1024 \<Longrightarrow> sb_from_bytes bs = Inl Panic"
  by (simp add: sb_from_bytes_def)

section \<open>Fields and checksum\<close>

lemma low_half: "ucast (drop_bit 32 (push_bit 32 (w :: u64))) = (ucast w :: u32)"
  by (rule bit_word_eqI) (auto simp: bit_simps)

interpretation sb_free_blocks: field sb_free_blocks_count sb_set_free_blocks_count
proof unfold_locales
  show "sb_free_blocks_count (sb_set_free_blocks_count v s) = v" for v s
    by (simp only: sb_free_blocks_count_def sb_set_free_blocks_count_def low_half)
       (simp add: join_split32)
  show "sb_set_free_blocks_count (sb_free_blocks_count s) s = s" for s
    by (simp only: sb_free_blocks_count_def sb_set_free_blocks_count_def low_half split_join32) simp
qed (simp add: sb_set_free_blocks_count_def)

lemma sb_checksum_covers_prefix:
  "sb_wf s \<Longrightarrow> sb_computed_checksum s = crc32 CRC32_INIT (sb_prefix_bytes s)"
  by (simp add: sb_computed_checksum_def sb_to_bytes_def SB_CHECKSUM_OFFSET_def)

lemma sb_prefix_checksum [simp]: "sb_prefix_bytes (s\<lparr>sb_checksum := c\<rparr>) = sb_prefix_bytes s"
  by (simp add: sb_prefix_bytes_def)

lemma sb_wf_checksum [simp]: "sb_wf (s\<lparr>sb_checksum := c\<rparr>) = sb_wf s"
  by (simp add: sb_wf_def)

interpretation sb_seal: sealed sb_wf sb_set_checksum sb_verify_checksum sb_checksum sb_computed_checksum
  by unfold_locales (auto simp: sb_set_checksum_def sb_verify_checksum_def sb_checksum_covers_prefix)

lemma sb_set_clean_is_clean [simp]: "sb_is_clean (sb_set_clean s b) = b"
proof -
  have "(x OR 1) AND 1 \<noteq> 0" "(x AND NOT 1) AND 1 = 0" for x :: u16
    using bit_eq_iff [of "(x OR 1) AND 1" 0] bit_eq_iff [of "(x AND NOT 1) AND 1" 0]
    by (auto simp: bit_simps)
  then show ?thesis by (cases b) (simp_all add: sb_is_clean_def sb_set_clean_def STATE_VALID_FS_def)
qed

text \<open>The superblock checksum. \<^verbatim>\<open>set_checksum\<close> always produces a superblock that
  \<^verbatim>\<open>verify_checksum\<close> accepts, running it twice changes nothing more, and a superblock verifies
  exactly when \<^verbatim>\<open>set_checksum\<close> would leave it unchanged.\<close>

theorem sb_checksum_correct:
  assumes "sb_wf s"
  shows "sb_verify_checksum (sb_set_checksum s) \<and>
    sb_set_checksum (sb_set_checksum s) = sb_set_checksum s \<and>
    (sb_verify_checksum s \<longleftrightarrow> sb_set_checksum s = s)"
  using sb_seal.verify_seal sb_seal.seal_idem sb_seal.verify_iff_fixed assms by blast

section \<open>Inodes per group\<close>

lemma unat_saturating_sub: "unat (saturating_sub a b) = unat a - unat b"
  by (auto simp: saturating_sub_def unat_sub_le word_le_nat_alt)

lemma unat_mult_lt:
  "unat (a :: 'a::len word) * unat b < 2 ^ LENGTH('a) \<Longrightarrow> unat (a * b) = unat a * unat b"
  by (simp add: unat_word_ariths)

lemma inode_count_in_group_cases:
  assumes "sb_block_group_count s = Inr n"
  shows "sb_inode_count_in_group s g =
    Inr (if g \<ge> n then 0 else if unat g + 1 < unat n then sb_inodes_per_group s
         else saturating_sub (sb_inode_count s) (saturating_mul (n - 1) (sb_inodes_per_group s)))"
proof -
  have "g + 1 < n \<longleftrightarrow> unat g + 1 < unat n" if "g < n"
  proof -
    have "unat g + unat (1 :: u32) < 2 ^ LENGTH(32)"
      using that unat_lt [of n] by (simp add: word_less_nat_alt)
    from unat_add_lt [OF this] show ?thesis by (simp add: word_less_nat_alt)
  qed
  then show ?thesis using assms by (auto simp: sb_inode_count_in_group_def not_le)
qed

text \<open>When the groups before the last are full, the per-group inode counts add up to the
  file system's inode count: every inode belongs to exactly one group's share.\<close>

theorem inode_counts_partition:
  assumes n: "sb_block_group_count s = Inr n" "0 < n"
    and full: "(unat n - 1) * unat (sb_inodes_per_group s) \<le> unat (sb_inode_count s)"
  shows "(\<Sum>g < unat n. unat (projr (sb_inode_count_in_group s (word_of_nat g)))) = unat (sb_inode_count s)"
proof -
  let ?i = "sb_inodes_per_group s"
  let ?f = "\<lambda>g. unat (projr (sb_inode_count_in_group s (word_of_nat g)))"
  obtain m where m: "unat n = Suc m" using n(2) by (cases "unat n") (auto simp: unat_eq_0)
  have g: "unat (word_of_nat g :: u32) = g" if "g \<le> m" for g
    using that m unat_lt [of n] by (intro unat_word_of_nat) simp
  have n1: "unat (n - 1) = m" using m n(2) by (simp add: unat_sub_le word_le_nat_alt)
  have "m * unat ?i < 2 ^ LENGTH(32)"
    using full m unat_lt [of "sb_inode_count s"] by simp
  then have sm: "unat (saturating_mul (n - 1) ?i) = m * unat ?i"
    by (simp add: saturating_mul_def n1 unat_mult_lt)
  have "?f g = unat ?i" if "g < m" for g
    using that g [of g] m by (simp add: inode_count_in_group_cases [OF n(1)] word_le_nat_alt)
  moreover have "?f m = unat (sb_inode_count s) - m * unat ?i"
    using g [of m] m sm
    by (simp add: inode_count_in_group_cases [OF n(1)] word_le_nat_alt unat_saturating_sub)
  ultimately show ?thesis using full m by simp
qed

section \<open>Witnesses\<close>

text \<open>A superblock of 20000 blocks in three groups with 24 inodes.\<close>

definition w_super :: super_block where
  "w_super =
     \<lparr>sb_inode_count = 24, sb_block_count_lo = 20000, sb_reserved_block_count_lo = 0,
     sb_free_block_count_lo = 0, sb_free_inode_count = 0, sb_first_data_block = 0,
     sb_log_block_size = 0, sb_log_cluster_size = 0, sb_blocks_per_group = 8192,
     sb_frags_per_group = 0, sb_inodes_per_group = 8, sb_mount_time = 0, sb_write_time = 0,
     sb_mount_count = 0, sb_max_mount_count = 0, sb_magic = 0xEF53, sb_state = 0, sb_errors = 0,
     sb_minor_rev_level = 0, sb_last_check_time = 0, sb_check_interval = 0, sb_creator_os = 0,
     sb_rev_level = 0, sb_def_resuid = 0, sb_def_resgid = 0, sb_first_inode = 0, sb_inode_size = 0,
     sb_block_group_index = 0, sb_features_compatible = 0, sb_features_incompatible = 0,
     sb_features_read_only = 0, sb_uuid = replicate 16 0, sb_volume_name = replicate 16 0,
     sb_last_mounted = replicate 64 0, sb_algorithm_usage_bitmap = 0, sb_prealloc_blocks = 0,
     sb_prealloc_dir_blocks = 0, sb_reserved_gdt_blocks = 0, sb_journal_uuid = replicate 16 0,
     sb_journal_inode_number = 0, sb_journal_dev = 0, sb_last_orphan = 0,
     sb_hash_seed = replicate 4 0, sb_default_hash_version = 0, sb_journal_backup_type = 0,
     sb_desc_size = 0, sb_default_mount_opts = 0, sb_first_meta_bg = 0, sb_mkfs_time = 0,
     sb_journal_blocks = replicate 17 0, sb_block_count_hi = 0, sb_reserved_blocks_count_hi = 0,
     sb_free_blocks_count_hi = 0, sb_min_extra_isize = 0, sb_want_extra_isize = 0, sb_flags = 0,
     sb_raid_stride = 0, sb_mmp_interval = 0, sb_mmp_block = 0, sb_raid_stripe_width = 0,
     sb_log_groups_per_flex = 0, sb_checksum_type = 0, sb_reserved_pad = 0, sb_kbytes_written = 0,
     sb_snapshot_inum = 0, sb_snapshot_id = 0, sb_snapshot_r_blocks_count = 0,
     sb_snapshot_list = 0, sb_error_count = 0, sb_first_error_time = 0, sb_first_error_ino = 0,
     sb_first_error_block = 0, sb_first_error_func = replicate 32 0, sb_first_error_line = 0,
     sb_last_error_time = 0, sb_last_error_ino = 0, sb_last_error_line = 0,
     sb_last_error_block = 0, sb_last_error_func = replicate 32 0, sb_mount_opts = replicate 64 0,
     sb_usr_quota_inum = 0, sb_grp_quota_inum = 0, sb_overhead_clusters = 0,
     sb_backup_bgs = replicate 2 0, sb_encrypt_algos = replicate 4 0,
     sb_encrypt_pw_salt = replicate 16 0, sb_lpf_ino = 0, sb_project_quota_inum = 0,
     sb_checksum_seed = 0, sb_padding = replicate 98 0, sb_checksum = 0\<rparr>"

lemma w_super_wf: "sb_wf w_super"
  by (simp add: sb_wf_def w_super_def)

lemma w_super_groups: "sb_block_group_count w_super = Inr 3"
proof -
  have "sb_block_count w_super = 20000" by (simp add: sb_block_count_def w_super_def)
  moreover have "sb_blocks_per_group w_super = 8192" by (simp add: w_super_def)
  ultimately show ?thesis by (simp add: sb_block_group_count_def div_ceil_def)
qed

theorem sb_bytes_roundtrip_witness: "sb_wf w_super \<and> sb_from_bytes (sb_to_bytes w_super) = Inr w_super"
  using sb_bytes_roundtrip [OF w_super_wf] w_super_wf by simp

theorem sb_checksum_correct_witness: "sb_wf w_super \<and> sb_verify_checksum (sb_set_checksum w_super)"
  using sb_checksum_correct [OF w_super_wf] w_super_wf by simp

theorem inode_counts_partition_witness:
  "(\<Sum>g < unat (3 :: u32). unat (projr (sb_inode_count_in_group w_super (word_of_nat g)))) = 24"
proof -
  have c: "sb_inode_count w_super = 24" "sb_inodes_per_group w_super = 8" by (simp_all add: w_super_def)
  have p: "(0 :: u32) < 3" by simp
  have f: "(unat (3 :: u32) - 1) * unat (sb_inodes_per_group w_super) \<le> unat (sb_inode_count w_super)"
    by (simp add: c)
  show ?thesis using inode_counts_partition [OF w_super_groups p f] by (simp only: c) simp
qed

end
