(* ===== verification/Block_Group.thy ===== *)
theory Block_Group
  imports Super_Block
begin

text \<open>
  Block group descriptors, \<^verbatim>\<open>src/ext4_defs/block_group.rs\<close>: the 64-byte packed descriptor, the
  counters stored in two halves, the descriptor checksum of \<^verbatim>\<open>BlockGroupRef\<close> and the bitmap
  checksums. The counters are interpretations of \<open>field_store\<close>, the checksum of \<open>sealed\<close>.
\<close>

section \<open>The descriptor\<close>

record block_group_desc =
  bg_block_bitmap_lo :: u32
  bg_inode_bitmap_lo :: u32
  bg_inode_table_first_block_lo :: u32
  bg_free_blocks_count_lo :: u16
  bg_free_inodes_count_lo :: u16
  bg_used_dirs_count_lo :: u16
  bg_flags :: u16
  bg_exclude_bitmap_lo :: u32
  bg_block_bitmap_csum_lo :: u16
  bg_inode_bitmap_csum_lo :: u16
  bg_itable_unused_lo :: u16
  bg_checksum :: u16
  bg_block_bitmap_hi :: u32
  bg_inode_bitmap_hi :: u32
  bg_inode_table_first_block_hi :: u32
  bg_free_blocks_count_hi :: u16
  bg_free_inodes_count_hi :: u16
  bg_used_dirs_count_hi :: u16
  bg_itable_unused_hi :: u16
  bg_exclude_bitmap_hi :: u32
  bg_block_bitmap_csum_hi :: u16
  bg_inode_bitmap_csum_hi :: u16
  bg_reserved :: u32

definition bgd_default :: block_group_desc where
  "bgd_default = \<lparr>bg_block_bitmap_lo = 0, bg_inode_bitmap_lo = 0, bg_inode_table_first_block_lo = 0,
     bg_free_blocks_count_lo = 0, bg_free_inodes_count_lo = 0, bg_used_dirs_count_lo = 0,
     bg_flags = 0, bg_exclude_bitmap_lo = 0, bg_block_bitmap_csum_lo = 0,
     bg_inode_bitmap_csum_lo = 0, bg_itable_unused_lo = 0, bg_checksum = 0,
     bg_block_bitmap_hi = 0, bg_inode_bitmap_hi = 0, bg_inode_table_first_block_hi = 0,
     bg_free_blocks_count_hi = 0, bg_free_inodes_count_hi = 0, bg_used_dirs_count_hi = 0,
     bg_itable_unused_hi = 0, bg_exclude_bitmap_hi = 0, bg_block_bitmap_csum_hi = 0,
     bg_inode_bitmap_csum_hi = 0, bg_reserved = 0\<rparr>"

definition bgd_to_bytes :: "block_group_desc \<Rightarrow> bytes" where
  "bgd_to_bytes d =
     le32 (bg_block_bitmap_lo d) @ le32 (bg_inode_bitmap_lo d) @
     le32 (bg_inode_table_first_block_lo d) @ le16 (bg_free_blocks_count_lo d) @
     le16 (bg_free_inodes_count_lo d) @ le16 (bg_used_dirs_count_lo d) @ le16 (bg_flags d) @
     le32 (bg_exclude_bitmap_lo d) @ le16 (bg_block_bitmap_csum_lo d) @
     le16 (bg_inode_bitmap_csum_lo d) @ le16 (bg_itable_unused_lo d) @ le16 (bg_checksum d) @
     le32 (bg_block_bitmap_hi d) @ le32 (bg_inode_bitmap_hi d) @
     le32 (bg_inode_table_first_block_hi d) @ le16 (bg_free_blocks_count_hi d) @
     le16 (bg_free_inodes_count_hi d) @ le16 (bg_used_dirs_count_hi d) @
     le16 (bg_itable_unused_hi d) @ le32 (bg_exclude_bitmap_hi d) @
     le16 (bg_block_bitmap_csum_hi d) @ le16 (bg_inode_bitmap_csum_hi d) @
     le32 (bg_reserved d)"

definition bgd_from_bytes :: "bytes \<Rightarrow> block_group_desc res" where
  "bgd_from_bytes bs0 =
     (if length bs0 < 64 then Inl Panic else Inr (
       rd 4 of_le bs0 (\<lambda>v_block_bitmap_lo bs. rd 4 of_le bs (\<lambda>v_inode_bitmap_lo bs.
       rd 4 of_le bs (\<lambda>v_inode_table_first_block_lo bs.
       rd 2 of_le bs (\<lambda>v_free_blocks_count_lo bs. rd 2 of_le bs (\<lambda>v_free_inodes_count_lo bs.
       rd 2 of_le bs (\<lambda>v_used_dirs_count_lo bs. rd 2 of_le bs (\<lambda>v_flags bs.
       rd 4 of_le bs (\<lambda>v_exclude_bitmap_lo bs. rd 2 of_le bs (\<lambda>v_block_bitmap_csum_lo bs.
       rd 2 of_le bs (\<lambda>v_inode_bitmap_csum_lo bs. rd 2 of_le bs (\<lambda>v_itable_unused_lo bs.
       rd 2 of_le bs (\<lambda>v_checksum bs. rd 4 of_le bs (\<lambda>v_block_bitmap_hi bs.
       rd 4 of_le bs (\<lambda>v_inode_bitmap_hi bs. rd 4 of_le bs (\<lambda>v_inode_table_first_block_hi bs.
       rd 2 of_le bs (\<lambda>v_free_blocks_count_hi bs. rd 2 of_le bs (\<lambda>v_free_inodes_count_hi bs.
       rd 2 of_le bs (\<lambda>v_used_dirs_count_hi bs. rd 2 of_le bs (\<lambda>v_itable_unused_hi bs.
       rd 4 of_le bs (\<lambda>v_exclude_bitmap_hi bs. rd 2 of_le bs (\<lambda>v_block_bitmap_csum_hi bs.
       rd 2 of_le bs (\<lambda>v_inode_bitmap_csum_hi bs. rd 4 of_le bs (\<lambda>v_reserved bs.
       \<lparr>bg_block_bitmap_lo = v_block_bitmap_lo, bg_inode_bitmap_lo = v_inode_bitmap_lo,
        bg_inode_table_first_block_lo = v_inode_table_first_block_lo,
        bg_free_blocks_count_lo = v_free_blocks_count_lo,
        bg_free_inodes_count_lo = v_free_inodes_count_lo,
        bg_used_dirs_count_lo = v_used_dirs_count_lo, bg_flags = v_flags,
        bg_exclude_bitmap_lo = v_exclude_bitmap_lo,
        bg_block_bitmap_csum_lo = v_block_bitmap_csum_lo,
        bg_inode_bitmap_csum_lo = v_inode_bitmap_csum_lo, bg_itable_unused_lo = v_itable_unused_lo,
        bg_checksum = v_checksum, bg_block_bitmap_hi = v_block_bitmap_hi,
        bg_inode_bitmap_hi = v_inode_bitmap_hi,
        bg_inode_table_first_block_hi = v_inode_table_first_block_hi,
        bg_free_blocks_count_hi = v_free_blocks_count_hi,
        bg_free_inodes_count_hi = v_free_inodes_count_hi,
        bg_used_dirs_count_hi = v_used_dirs_count_hi, bg_itable_unused_hi = v_itable_unused_hi,
        bg_exclude_bitmap_hi = v_exclude_bitmap_hi,
        bg_block_bitmap_csum_hi = v_block_bitmap_csum_hi,
        bg_inode_bitmap_csum_hi = v_inode_bitmap_csum_hi, bg_reserved = v_reserved\<rparr>)))))))))))))))))))))))))"

section \<open>Accessors\<close>

definition bg_block_bitmap_block :: "block_group_desc \<Rightarrow> PBlockId" where
  "bg_block_bitmap_block d = push_bit 32 (ucast (bg_block_bitmap_hi d)) OR ucast (bg_block_bitmap_lo d)"

definition bg_inode_bitmap_block :: "block_group_desc \<Rightarrow> PBlockId" where
  "bg_inode_bitmap_block d = push_bit 32 (ucast (bg_inode_bitmap_hi d)) OR ucast (bg_inode_bitmap_lo d)"

definition bg_inode_table_first_block :: "block_group_desc \<Rightarrow> PBlockId" where
  "bg_inode_table_first_block d =
     push_bit 32 (ucast (bg_inode_table_first_block_hi d)) OR ucast (bg_inode_table_first_block_lo d)"

definition bg_itable_unused :: "block_group_desc \<Rightarrow> u32" where
  "bg_itable_unused d = push_bit 16 (ucast (bg_itable_unused_hi d)) OR ucast (bg_itable_unused_lo d)"

definition bg_set_itable_unused :: "u32 \<Rightarrow> block_group_desc \<Rightarrow> block_group_desc" where
  "bg_set_itable_unused cnt d =
     d\<lparr>bg_itable_unused_lo := ucast cnt, bg_itable_unused_hi := ucast (drop_bit 16 cnt)\<rparr>"

definition bg_used_dirs_count :: "block_group_desc \<Rightarrow> u32" where
  "bg_used_dirs_count d = push_bit 16 (ucast (bg_used_dirs_count_hi d)) OR ucast (bg_used_dirs_count_lo d)"

definition bg_set_used_dirs_count :: "u32 \<Rightarrow> block_group_desc \<Rightarrow> block_group_desc" where
  "bg_set_used_dirs_count cnt d =
     d\<lparr>bg_used_dirs_count_lo := ucast cnt, bg_used_dirs_count_hi := ucast (drop_bit 16 cnt)\<rparr>"

definition bg_free_inodes_count :: "block_group_desc \<Rightarrow> u32" where
  "bg_free_inodes_count d =
     push_bit 16 (ucast (bg_free_inodes_count_hi d)) OR ucast (bg_free_inodes_count_lo d)"

definition bg_set_free_inodes_count :: "u32 \<Rightarrow> block_group_desc \<Rightarrow> block_group_desc" where
  "bg_set_free_inodes_count cnt d =
     d\<lparr>bg_free_inodes_count_lo := ucast cnt, bg_free_inodes_count_hi := ucast (drop_bit 16 cnt)\<rparr>"

definition bg_get_free_blocks_count :: "block_group_desc \<Rightarrow> u64" where
  "bg_get_free_blocks_count d =
     push_bit 16 (ucast (bg_free_blocks_count_hi d)) OR ucast (bg_free_blocks_count_lo d)"

definition bg_set_free_blocks_count :: "u64 \<Rightarrow> block_group_desc \<Rightarrow> block_group_desc" where
  "bg_set_free_blocks_count cnt d =
     d\<lparr>bg_free_blocks_count_lo := ucast cnt, bg_free_blocks_count_hi := ucast (drop_bit 16 cnt)\<rparr>"

section \<open>Bitmap checksums\<close>

definition bitmap_csum :: "MetadataChecksumSeed \<Rightarrow> bytes \<Rightarrow> nat \<Rightarrow> u32 option" where
  "bitmap_csum seed bs len = map_option (seed_crc32c seed) (get_range bs 0 len)"

definition verify_inode_bitmap_csum :: "block_group_desc \<Rightarrow> MetadataChecksumSeed \<Rightarrow> bytes \<Rightarrow> nat \<Rightarrow> bool" where
  "verify_inode_bitmap_csum d seed bs len =
     (case bitmap_csum seed bs len of None \<Rightarrow> False
      | Some csum \<Rightarrow> csum = ucast (bg_inode_bitmap_csum_lo d) OR push_bit 16 (ucast (bg_inode_bitmap_csum_hi d)))"

definition update_inode_bitmap_csum ::
    "block_group_desc \<Rightarrow> MetadataChecksumSeed \<Rightarrow> bytes \<Rightarrow> nat \<Rightarrow> block_group_desc \<times> bool" where
  "update_inode_bitmap_csum d seed bs len =
     (case bitmap_csum seed bs len of None \<Rightarrow> (d, False)
      | Some csum \<Rightarrow> (d\<lparr>bg_inode_bitmap_csum_lo := ucast csum,
                        bg_inode_bitmap_csum_hi := ucast (drop_bit 16 csum)\<rparr>, True))"

definition verify_block_bitmap_csum :: "block_group_desc \<Rightarrow> MetadataChecksumSeed \<Rightarrow> bytes \<Rightarrow> nat \<Rightarrow> bool" where
  "verify_block_bitmap_csum d seed bs len =
     (case bitmap_csum seed bs len of None \<Rightarrow> False
      | Some csum \<Rightarrow> csum = ucast (bg_block_bitmap_csum_lo d) OR push_bit 16 (ucast (bg_block_bitmap_csum_hi d)))"

definition update_block_bitmap_csum ::
    "block_group_desc \<Rightarrow> MetadataChecksumSeed \<Rightarrow> bytes \<Rightarrow> nat \<Rightarrow> block_group_desc \<times> bool" where
  "update_block_bitmap_csum d seed bs len =
     (case bitmap_csum seed bs len of None \<Rightarrow> (d, False)
      | Some csum \<Rightarrow> (d\<lparr>bg_block_bitmap_csum_lo := ucast csum,
                        bg_block_bitmap_csum_hi := ucast (drop_bit 16 csum)\<rparr>, True))"

section \<open>Descriptor checksum\<close>

record block_group_ref =
  bgr_id :: BlockGroupId
  bgr_desc :: block_group_desc

definition bgr_new :: "BlockGroupId \<Rightarrow> block_group_desc \<Rightarrow> block_group_ref" where
  "bgr_new i d = \<lparr>bgr_id = i, bgr_desc = d\<rparr>"

definition bgr_computed_checksum :: "MetadataChecksumSeed \<Rightarrow> block_group_ref \<Rightarrow> u16" where
  "bgr_computed_checksum seed r =
     ucast (crc32 (seed_crc32c seed (le32 (bgr_id r))) (bgd_to_bytes ((bgr_desc r)\<lparr>bg_checksum := 0\<rparr>)))"

definition bgr_set_checksum :: "MetadataChecksumSeed \<Rightarrow> block_group_ref \<Rightarrow> block_group_ref" where
  "bgr_set_checksum seed r = r\<lparr>bgr_desc := (bgr_desc r)\<lparr>bg_checksum := bgr_computed_checksum seed r\<rparr>\<rparr>"

definition bgr_verify_checksum :: "MetadataChecksumSeed \<Rightarrow> block_group_ref \<Rightarrow> bool" where
  "bgr_verify_checksum seed r \<longleftrightarrow>
     bg_checksum (bgr_desc (bgr_set_checksum seed (bgr_new (bgr_id r) (bgr_desc r)))) = bg_checksum (bgr_desc r)"

section \<open>Laws\<close>

lemma join_split16': "push_bit 16 (ucast (ucast (drop_bit 16 (w :: u32)) :: u16)) OR ucast (ucast w :: u16) = w"
  by (subst or.commute) (rule join_split16)

lemma split_join16':
  "ucast (push_bit 16 (ucast (hi :: u16)) OR ucast (lo :: u16) :: u32) = lo"
  "ucast (drop_bit 16 (push_bit 16 (ucast (hi :: u16)) OR ucast (lo :: u16) :: u32)) = hi"
  by (subst or.commute, rule split_join16)+

interpretation used_dirs: field bg_used_dirs_count bg_set_used_dirs_count
proof unfold_locales
  show "bg_used_dirs_count (bg_set_used_dirs_count v d) = v" for v d
    by (simp add: bg_used_dirs_count_def bg_set_used_dirs_count_def join_split16')
  show "bg_set_used_dirs_count (bg_used_dirs_count d) d = d" for d
    by (simp only: bg_used_dirs_count_def bg_set_used_dirs_count_def split_join16') simp
qed (simp add: bg_set_used_dirs_count_def)

interpretation itable_unused: field bg_itable_unused bg_set_itable_unused
proof unfold_locales
  show "bg_itable_unused (bg_set_itable_unused v d) = v" for v d
    by (simp add: bg_itable_unused_def bg_set_itable_unused_def join_split16')
  show "bg_set_itable_unused (bg_itable_unused d) d = d" for d
    by (simp only: bg_itable_unused_def bg_set_itable_unused_def split_join16') simp
qed (simp add: bg_set_itable_unused_def)

interpretation free_inodes: field bg_free_inodes_count bg_set_free_inodes_count
proof unfold_locales
  show "bg_free_inodes_count (bg_set_free_inodes_count v d) = v" for v d
    by (simp add: bg_free_inodes_count_def bg_set_free_inodes_count_def join_split16')
  show "bg_set_free_inodes_count (bg_free_inodes_count d) d = d" for d
    by (simp only: bg_free_inodes_count_def bg_set_free_inodes_count_def split_join16') simp
qed (simp add: bg_set_free_inodes_count_def)

text \<open>The block counter is a \<open>u64\<close> kept in 32 bits on disk: it round-trips below \<open>2 ^ 32\<close>.\<close>

lemma join_split16_64:
  assumes "unat (v :: u64) < 2 ^ 32"
  shows "push_bit 16 (ucast (ucast (drop_bit 16 v) :: u16)) OR ucast (ucast v :: u16) = v"
proof (rule bit_word_eqI)
  fix n assume "n < LENGTH(64)"
  have "\<not> bit v n" if "\<not> n < 32" using unat_lt_bit [OF assms, of n] that by simp
  then show "bit (push_bit 16 (ucast (ucast (drop_bit 16 v) :: u16)) OR ucast (ucast v :: u16) :: u64) n = bit v n"
    by (cases "n < 32") (auto simp: bit_simps)
qed

lemma split_join16_64:
  "ucast (push_bit 16 (ucast (hi :: u16)) OR ucast (lo :: u16) :: u64) = lo"
  "ucast (drop_bit 16 (push_bit 16 (ucast (hi :: u16)) OR ucast (lo :: u16) :: u64)) = hi"
  by (rule bit_word_eqI; auto simp: bit_simps dest: bit_imp_le_length)+

interpretation free_blocks: field_store bg_get_free_blocks_count bg_set_free_blocks_count "\<lambda>v. unat v < 2 ^ 32"
proof unfold_locales
  show "bg_get_free_blocks_count (bg_set_free_blocks_count v d) = v" if "unat v < 2 ^ 32" for v d
    by (simp add: bg_get_free_blocks_count_def bg_set_free_blocks_count_def join_split16_64 [OF that])
  show "bg_set_free_blocks_count (bg_get_free_blocks_count d) d = d" for d
    by (simp only: bg_get_free_blocks_count_def bg_set_free_blocks_count_def split_join16_64) simp
qed (simp add: bg_set_free_blocks_count_def)

lemma length_bgd_to_bytes [simp]: "length (bgd_to_bytes d) = 64"
  by (simp add: bgd_to_bytes_def)

lemma bgd_bytes_roundtrip: "bgd_from_bytes (bgd_to_bytes d) = Inr d"
  unfolding bgd_from_bytes_def by (simp add: bgd_to_bytes_def)

interpretation bgr_seal: sealed "\<lambda>_. True" "bgr_set_checksum seed" "bgr_verify_checksum seed"
    "\<lambda>r. bg_checksum (bgr_desc r)" "bgr_computed_checksum seed" for seed
  by unfold_locales
     (auto simp: bgr_set_checksum_def bgr_verify_checksum_def bgr_computed_checksum_def bgr_new_def)

text \<open>A descriptor sealed for its group verifies for that group, stays fixed under sealing, and
  the image written to the descriptor table decodes to the very same descriptor.\<close>

theorem block_group_seal_roundtrip:
  "bgr_verify_checksum seed (bgr_set_checksum seed r) \<and>
   bgr_set_checksum seed (bgr_set_checksum seed r) = bgr_set_checksum seed r \<and>
   bgd_from_bytes (bgd_to_bytes (bgr_desc (bgr_set_checksum seed r))) = Inr (bgr_desc (bgr_set_checksum seed r))"
  by (simp add: bgr_seal.verify_seal bgr_seal.seal_idem bgd_bytes_roundtrip)

text \<open>Bitmap checksums. After \<^verbatim>\<open>update_inode_bitmap_csum\<close> the bitmap verifies, and the same
  descriptor rejects every bitmap that differs from it in one covered byte; when the covered length
  exceeds the bitmap, nothing is written and verification fails.\<close>

theorem inode_bitmap_csum_detects:
  "case update_inode_bitmap_csum d seed bs len of (d', ok) \<Rightarrow>
     ok = (len \<le> length bs) \<and>
     verify_inode_bitmap_csum d' seed bs len = ok \<and>
     (\<not> ok \<longrightarrow> d' = d) \<and>
     (ok \<longrightarrow> (\<forall>i x. i < len \<longrightarrow> verify_inode_bitmap_csum d' seed (bs[i := x]) len = (x = bs ! i)))"
proof (cases "len \<le> length bs")
  case True
  have "seed_crc32c seed (take len (bs[i := x])) = seed_crc32c seed (take len bs) \<longleftrightarrow> x = bs ! i"
    if "i < len" for i x
    using crc32_list_update [of i "take len bs" seed x] that True
    by (simp add: seed_crc32c_def take_update_swap)
  then show ?thesis
    using True
    by (simp add: update_inode_bitmap_csum_def verify_inode_bitmap_csum_def bitmap_csum_def
        get_range_def slice_0 join_split16)
qed (simp add: update_inode_bitmap_csum_def verify_inode_bitmap_csum_def bitmap_csum_def get_range_def)

text \<open>A concrete one-byte bitmap: the descriptor written for it rejects the flipped byte.\<close>

theorem inode_bitmap_csum_detects_witness:
  "verify_inode_bitmap_csum (fst (update_inode_bitmap_csum bgd_default 0 [1] 1)) 0 [1] 1 \<and>
   \<not> verify_inode_bitmap_csum (fst (update_inode_bitmap_csum bgd_default 0 [1] 1)) 0 [3] 1"
  using inode_bitmap_csum_detects [where d = bgd_default and seed = 0 and bs = "[1]" and len = 1]
  by (auto simp: split_beta dest!: spec [of _ "0 :: nat"] spec [of _ "3 :: u8"])

end
