(* ===== verification/Extent_Node.thy ===== *)
theory Extent_Node
  imports Crc Record_Laws
begin

text \<open>
  Extent tree nodes, \<^verbatim>\<open>src/ext4_defs/extent.rs\<close>. A node is the byte array \<^verbatim>\<open>raw_data\<close> (the 60
  bytes of \<^verbatim>\<open>i_block\<close> or a 4096-byte block): a 12-byte header followed by 12-byte slots, each
  readable as an \<open>Extent\<close>, an \<open>ExtentIndex\<close> or a \<open>FakeExtent\<close>. The code reads and writes slots
  through raw pointers without bounds checks; an access outside \<^verbatim>\<open>raw_data\<close> is a \<open>Panic\<close> of the
  model. \<open>node_slots\<close> abstracts a node to the list of its slots, on which the operations are
  list insertions, and \<open>extent_lookup\<close> abstracts a list of extents to the block map it denotes.
\<close>

section \<open>Headers, extents, indices\<close>

record extent_header =
  eh_magic :: u16
  eh_entries_count :: u16
  eh_max_entries_count :: u16
  eh_depth :: u16
  eh_generation :: u32

definition EXTENT_MAGIC :: u16 where "EXTENT_MAGIC = 0xF30A"

definition header_new :: "u16 \<Rightarrow> u16 \<Rightarrow> u16 \<Rightarrow> u32 \<Rightarrow> extent_header" where
  "header_new entries_count max_entries_count depth generation =
     \<lparr>eh_magic = EXTENT_MAGIC, eh_entries_count = entries_count,
      eh_max_entries_count = max_entries_count, eh_depth = depth, eh_generation = generation\<rparr>"

definition header_check_magic :: "extent_header \<Rightarrow> bool" where
  "header_check_magic h \<longleftrightarrow> eh_magic h = EXTENT_MAGIC"

definition header_to_bytes :: "extent_header \<Rightarrow> bytes" where
  "header_to_bytes h = le16 (eh_magic h) @ le16 (eh_entries_count h) @ le16 (eh_max_entries_count h) @
     le16 (eh_depth h) @ le32 (eh_generation h)"

definition header_from_bytes :: "bytes \<Rightarrow> extent_header" where
  "header_from_bytes bs0 =
     rd 2 of_le bs0 (\<lambda>m bs. rd 2 of_le bs (\<lambda>e bs. rd 2 of_le bs (\<lambda>x bs. rd 2 of_le bs (\<lambda>d bs.
     rd 4 of_le bs (\<lambda>g bs. \<lparr>eh_magic = m, eh_entries_count = e, eh_max_entries_count = x,
       eh_depth = d, eh_generation = g\<rparr>)))))"

record extent_index =
  ei_first_block :: u32
  ei_leaf_lo :: u32
  ei_leaf_hi :: u16
  ei_padding :: u16

definition extent_index_new :: "LBlockId \<Rightarrow> PBlockId \<Rightarrow> extent_index" where
  "extent_index_new first_block leaf =
     \<lparr>ei_first_block = first_block, ei_leaf_lo = ucast leaf, ei_leaf_hi = ucast (drop_bit 32 leaf),
      ei_padding = 0\<rparr>"

definition ei_leaf :: "extent_index \<Rightarrow> PBlockId" where
  "ei_leaf x = push_bit 32 (ucast (ei_leaf_hi x)) OR ucast (ei_leaf_lo x)"

definition extent_index_to_bytes :: "extent_index \<Rightarrow> bytes" where
  "extent_index_to_bytes x =
     le32 (ei_first_block x) @ le32 (ei_leaf_lo x) @ le16 (ei_leaf_hi x) @ le16 (ei_padding x)"

definition extent_index_from_bytes :: "bytes \<Rightarrow> extent_index" where
  "extent_index_from_bytes bs0 =
     rd 4 of_le bs0 (\<lambda>f bs. rd 4 of_le bs (\<lambda>l bs. rd 2 of_le bs (\<lambda>h bs. rd 2 of_le bs (\<lambda>p bs.
       \<lparr>ei_first_block = f, ei_leaf_lo = l, ei_leaf_hi = h, ei_padding = p\<rparr>))))"

record extent =
  ex_first_block :: u32
  ex_block_count_raw :: u16
  ex_start_hi :: u16
  ex_start_lo :: u32

definition INIT_MAX_LEN :: u16 where "INIT_MAX_LEN = 32768"

definition extent_new :: "LBlockId \<Rightarrow> PBlockId \<Rightarrow> u16 \<Rightarrow> extent" where
  "extent_new start_lblock start_pblock block_count =
     \<lparr>ex_first_block = start_lblock, ex_block_count_raw = block_count,
      ex_start_hi = ucast (drop_bit 32 start_pblock), ex_start_lo = ucast start_pblock\<rparr>"

definition ex_start_pblock :: "extent \<Rightarrow> PBlockId" where
  "ex_start_pblock x = ucast (ex_start_lo x) OR push_bit 32 (ucast (ex_start_hi x))"

definition ex_set_start_pblock :: "PBlockId \<Rightarrow> extent \<Rightarrow> extent" where
  "ex_set_start_pblock p x = x\<lparr>ex_start_hi := ucast (drop_bit 32 p), ex_start_lo := ucast p\<rparr>"

definition ex_is_unwritten :: "extent \<Rightarrow> bool" where
  "ex_is_unwritten x \<longleftrightarrow> ex_block_count_raw x > INIT_MAX_LEN"

definition ex_block_count :: "extent \<Rightarrow> LBlockId" where
  "ex_block_count x =
     ucast (if ex_block_count_raw x \<le> INIT_MAX_LEN then ex_block_count_raw x
            else ex_block_count_raw x - INIT_MAX_LEN)"

definition ex_set_block_count :: "LBlockId \<Rightarrow> extent \<Rightarrow> extent" where
  "ex_set_block_count n x =
     (let unwritten = ex_is_unwritten x; y = x\<lparr>ex_block_count_raw := ucast n\<rparr> in
      if unwritten then y\<lparr>ex_block_count_raw := ex_block_count_raw y OR INIT_MAX_LEN\<rparr> else y)"

definition ex_mark_unwritten :: "extent \<Rightarrow> extent" where
  "ex_mark_unwritten x = x\<lparr>ex_block_count_raw := ex_block_count_raw x OR INIT_MAX_LEN\<rparr>"

definition extent_can_append :: "extent \<Rightarrow> extent \<Rightarrow> bool res" where
  "extent_can_append ex1 ex2 =
     rbind (add_chk (ex_start_pblock ex1) (ucast (ex_block_count ex1))) (\<lambda>p.
     if p \<noteq> ex_start_pblock ex2 then Inr False
     else if ex_is_unwritten ex1 \<and> ex_block_count ex1 + ex_block_count ex2 > 65535 then Inr False
     else if ex_block_count ex1 + ex_block_count ex2 > ucast INIT_MAX_LEN then Inr False
     else rbind (add_chk (ex_first_block ex1) (ex_block_count ex1)) (\<lambda>l. Inr (l = ex_first_block ex2)))"

definition extent_to_bytes :: "extent \<Rightarrow> bytes" where
  "extent_to_bytes x =
     le32 (ex_first_block x) @ le16 (ex_block_count_raw x) @ le16 (ex_start_hi x) @ le32 (ex_start_lo x)"

definition extent_from_bytes :: "bytes \<Rightarrow> extent" where
  "extent_from_bytes bs0 =
     rd 4 of_le bs0 (\<lambda>f bs. rd 2 of_le bs (\<lambda>c bs. rd 2 of_le bs (\<lambda>h bs. rd 4 of_le bs (\<lambda>l bs.
       \<lparr>ex_first_block = f, ex_block_count_raw = c, ex_start_hi = h, ex_start_lo = l\<rparr>))))"

record fake_extent =
  fe_first_block :: u32
  fe_protected :: bytes

definition fake_from_bytes :: "bytes \<Rightarrow> fake_extent" where
  "fake_from_bytes bs0 = rd 4 of_le bs0 (\<lambda>f bs. \<lparr>fe_first_block = f, fe_protected = bs\<rparr>)"

definition fake_to_bytes :: "fake_extent \<Rightarrow> bytes" where
  "fake_to_bytes x = le32 (fe_first_block x) @ fe_protected x"

text \<open>\<open>From<Extent>\<close> and \<open>From<ExtentIndex>\<close> are transmutes.\<close>

definition fake_of_extent :: "extent \<Rightarrow> fake_extent" where
  "fake_of_extent x = fake_from_bytes (extent_to_bytes x)"

definition fake_of_extent_index :: "extent_index \<Rightarrow> fake_extent" where
  "fake_of_extent_index x = fake_from_bytes (extent_index_to_bytes x)"

definition extent_block_checksum :: "u32 \<Rightarrow> u32 \<Rightarrow> u32 \<Rightarrow> bytes \<Rightarrow> u32 res" where
  "extent_block_checksum seed ino ino_gen blk =
     (let csum = crc32 seed (le32 ino); csum = crc32 csum (le32 ino_gen); tail_offset = BLOCK_SIZE - 4 in
      rbind (index_range blk 0 tail_offset) (\<lambda>bs. Inr (crc32 csum bs)))"

section \<open>Nodes\<close>

definition node_header :: "bytes \<Rightarrow> extent_header res" where
  "node_header raw = rbind (index_range raw 0 12) (\<lambda>bs. Inr (header_from_bytes bs))"

definition node_set_header :: "bytes \<Rightarrow> extent_header \<Rightarrow> bytes res" where
  "node_set_header raw h = write_range raw 0 (header_to_bytes h)"

definition entry_capacity :: "bytes \<Rightarrow> nat res" where
  "entry_capacity raw = rbind (usize_sub (length raw) 12) (\<lambda>n. Inr (n div 12))"

definition slot_at :: "bytes \<Rightarrow> nat \<Rightarrow> bytes res" where
  "slot_at raw pos = index_range raw (12 + 12 * pos) 12"

definition set_slot :: "bytes \<Rightarrow> nat \<Rightarrow> bytes \<Rightarrow> bytes res" where
  "set_slot raw pos bs = write_range raw (12 + 12 * pos) bs"

definition extent_at :: "bytes \<Rightarrow> nat \<Rightarrow> extent res" where
  "extent_at raw pos = rbind (slot_at raw pos) (\<lambda>bs. Inr (extent_from_bytes bs))"

definition extent_index_at :: "bytes \<Rightarrow> nat \<Rightarrow> extent_index res" where
  "extent_index_at raw pos = rbind (slot_at raw pos) (\<lambda>bs. Inr (extent_index_from_bytes bs))"

definition fake_extent_at :: "bytes \<Rightarrow> nat \<Rightarrow> fake_extent res" where
  "fake_extent_at raw pos = rbind (slot_at raw pos) (\<lambda>bs. Inr (fake_from_bytes bs))"

text \<open>The searches return \<open>Ok(i)\<close> or \<open>Err(i)\<close>.\<close>

datatype search = Found nat | NotFound nat

function search_extent_loop :: "bytes \<Rightarrow> nat \<Rightarrow> LBlockId \<Rightarrow> nat \<Rightarrow> search res" where
  "search_extent_loop raw count lblock i =
     (if i < count then
        rbind (extent_at raw i) (\<lambda>x.
          if ex_first_block x \<le> lblock then
            rbind (add_chk (ex_first_block x) (ex_block_count x)) (\<lambda>e.
              if e > lblock then Inr (if ex_is_unwritten x then NotFound i else Found i)
              else search_extent_loop raw count lblock (i + 1))
          else Inr (NotFound i))
      else Inr (NotFound i))"
  by pat_completeness auto
termination by (relation "measure (\<lambda>(raw, count, lblock, i). count - i)") auto

declare search_extent_loop.simps [simp del]

definition search_extent :: "bytes \<Rightarrow> LBlockId \<Rightarrow> search res" where
  "search_extent raw lblock =
     rbind (node_header raw) (\<lambda>h. search_extent_loop raw (unat (eh_entries_count h)) lblock 0)"

function search_index_loop :: "bytes \<Rightarrow> nat \<Rightarrow> LBlockId \<Rightarrow> nat \<Rightarrow> nat res" where
  "search_index_loop raw count lblock i =
     (if i < count then
        rbind (extent_index_at raw i) (\<lambda>x.
          if ei_first_block x > lblock then Inr i else search_index_loop raw count lblock (i + 1))
      else Inr i)"
  by pat_completeness auto
termination by (relation "measure (\<lambda>(raw, count, lblock, i). count - i)") auto

declare search_index_loop.simps [simp del]

definition search_extent_index :: "bytes \<Rightarrow> LBlockId \<Rightarrow> search res" where
  "search_extent_index raw lblock =
     rbind (node_header raw) (\<lambda>h.
       if eh_entries_count h = 0 then Inr (NotFound 0)
       else rbind (search_index_loop raw (unat (eh_entries_count h)) lblock 0) (\<lambda>i.
         if i = 0 then Inr (NotFound 0) else Inr (Found (i - 1))))"

definition remove_last_entry :: "bytes \<Rightarrow> (bytes \<times> bool) res" where
  "remove_last_entry raw =
     rbind (node_header raw) (\<lambda>h.
       if eh_entries_count h = 0 then Inr (raw, False)
       else rbind (node_set_header raw (h\<lparr>eh_entries_count := eh_entries_count h - 1\<rparr>)) (\<lambda>raw'.
         Inr (raw', True)))"

definition node_init :: "bytes \<Rightarrow> u16 \<Rightarrow> u32 \<Rightarrow> bytes res" where
  "node_init raw depth generation =
     rbind (usize_sub (length raw) 12) (\<lambda>n.
       node_set_header raw (header_new 0 (word_of_nat (n div 12)) depth generation))"

text \<open>The two copying loops of the insertions: \<open>slot[i] = slot[i - 1]\<close> downwards from \<open>i\<close> while
  \<open>i > pos\<close>, and \<open>slot[i] = slot[i + 1]\<close> upwards while \<open>i < pos\<close>.\<close>

function shift_up :: "bytes \<Rightarrow> nat \<Rightarrow> nat \<Rightarrow> bytes res" where
  "shift_up raw i pos =
     (if i > pos then
        rbind (slot_at raw (i - 1)) (\<lambda>x. rbind (set_slot raw i x) (\<lambda>raw'. shift_up raw' (i - 1) pos))
      else Inr raw)"
  by pat_completeness auto
termination by (relation "measure (\<lambda>(raw, i, pos). i)") auto

function shift_down :: "bytes \<Rightarrow> nat \<Rightarrow> nat \<Rightarrow> bytes res" where
  "shift_down raw i pos =
     (if i < pos then
        rbind (slot_at raw (i + 1)) (\<lambda>x. rbind (set_slot raw i x) (\<lambda>raw'. shift_down raw' (i + 1) pos))
      else Inr raw)"
  by pat_completeness auto
termination by (relation "measure (\<lambda>(raw, i, pos). pos - i)") auto

declare shift_up.simps [simp del] shift_down.simps [simp del]

text \<open>The loop that looks for the first unwritten extent.\<close>

function find_unwritten :: "bytes \<Rightarrow> nat \<Rightarrow> nat \<Rightarrow> nat option res" where
  "find_unwritten raw i count =
     (if i < count then
        rbind (extent_at raw i) (\<lambda>x.
          if ex_is_unwritten x then Inr (Some i) else find_unwritten raw (i + 1) count)
      else Inr None)"
  by pat_completeness auto
termination by (relation "measure (\<lambda>(raw, i, count). count - i)") auto

declare find_unwritten.simps [simp del]

text \<open>The right half of a split: the slots from \<open>mid\<close> on, the new entry before slot \<open>pos\<close>.\<close>

function split_loop :: "bytes \<Rightarrow> bytes \<Rightarrow> nat \<Rightarrow> nat \<Rightarrow> nat \<Rightarrow> fake_extent list res" where
  "split_loop raw x pos i count =
     (if i < count then
        rbind (fake_extent_at raw i) (\<lambda>f.
        rbind (split_loop raw x pos (i + 1) count) (\<lambda>rest.
          Inr ((if i = pos then [fake_from_bytes x] else []) @ f # rest)))
      else Inr (if pos = count then [fake_from_bytes x] else []))"
  by pat_completeness auto
termination by (relation "measure (\<lambda>(raw, x, pos, i, count). count - i)") auto

declare split_loop.simps [simp del]

text \<open>Inserting into a node with room, common to extents and indices: \<open>None\<close> for \<open>Ok(())\<close>,
  \<open>Some\<close> of the right half for \<open>Err(split)\<close>.\<close>

definition insert_slot :: "bytes \<Rightarrow> extent_header \<Rightarrow> bytes \<Rightarrow> nat \<Rightarrow> bytes res" where
  "insert_slot raw h x pos =
     rbind (shift_up raw (unat (eh_entries_count h)) pos) (\<lambda>raw.
     rbind (set_slot raw pos x) (\<lambda>raw.
     rbind (node_header raw) (\<lambda>h.
     rbind (add_chk (eh_entries_count h) 1) (\<lambda>c.
       node_set_header raw (h\<lparr>eh_entries_count := c\<rparr>)))))"

definition insert_extent_index :: "bytes \<Rightarrow> extent_index \<Rightarrow> nat \<Rightarrow> (bytes \<times> fake_extent list option) res" where
  "insert_extent_index raw ix pos =
     rbind (node_header raw) (\<lambda>h.
       let x = extent_index_to_bytes ix; count = unat (eh_entries_count h) in
       if eh_entries_count h < eh_max_entries_count h then
         rbind (insert_slot raw h x pos) (\<lambda>raw. Inr (raw, None))
       else
         let mid = count * 2 div 3 in
         rbind (split_loop raw x pos mid count) (\<lambda>split.
         rbind (node_set_header raw (h\<lparr>eh_entries_count := word_of_nat mid\<rparr>)) (\<lambda>raw.
           if pos < mid then
             rbind (node_header raw) (\<lambda>h.
               if eh_entries_count h < eh_max_entries_count h
               then rbind (insert_slot raw h x pos) (\<lambda>raw. Inr (raw, Some split))
               else Inl Panic)
           else Inr (raw, Some split))))"

text \<open>\<open>insert_extent\<close> calls itself once, for the left half of a split, where the node has room.\<close>

definition insert_extent_simple :: "bytes \<Rightarrow> extent \<Rightarrow> nat \<Rightarrow> bytes option res" where
  "insert_extent_simple raw ex pos =
     rbind (node_header raw) (\<lambda>h.
       let x = extent_to_bytes ex; count = unat (eh_entries_count h) in
       rbind (if pos < count then rbind (extent_at raw pos) (\<lambda>y. Inr (ex_is_unwritten y)) else Inr False)
         (\<lambda>unwritten_here.
       if unwritten_here then rbind (set_slot raw pos x) (\<lambda>raw. Inr (Some raw))
       else if eh_entries_count h < eh_max_entries_count h
         then rbind (insert_slot raw h x pos) (\<lambda>raw. Inr (Some raw))
       else
         rbind (find_unwritten raw 0 count) (\<lambda>u. case u of
           Some u \<Rightarrow>
             rbind (if u < pos then shift_down raw u pos else shift_up raw u pos) (\<lambda>raw.
             rbind (set_slot raw pos x) (\<lambda>raw. Inr (Some raw)))
         | None \<Rightarrow> Inr None)))"

definition insert_extent :: "bytes \<Rightarrow> extent \<Rightarrow> nat \<Rightarrow> (bytes \<times> fake_extent list option) res" where
  "insert_extent raw ex pos =
     rbind (insert_extent_simple raw ex pos) (\<lambda>r. case r of
       Some raw \<Rightarrow> Inr (raw, None)
     | None \<Rightarrow>
         rbind (node_header raw) (\<lambda>h.
           let x = extent_to_bytes ex; count = unat (eh_entries_count h); mid = count * 2 div 3 in
           rbind (split_loop raw x pos mid count) (\<lambda>split.
           rbind (node_set_header raw (h\<lparr>eh_entries_count := word_of_nat mid\<rparr>)) (\<lambda>raw.
             if pos < mid then
               rbind (insert_extent_simple raw ex pos) (\<lambda>r. case r of
                 Some raw \<Rightarrow> Inr (raw, Some split) | None \<Rightarrow> Inl Panic)
             else Inr (raw, Some split)))))"

section \<open>Encodings\<close>

lemma length_header_to_bytes [simp]: "length (header_to_bytes h) = 12"
  by (simp add: header_to_bytes_def)

lemma header_roundtrip [simp]: "header_from_bytes (header_to_bytes h) = h"
  by (simp add: header_from_bytes_def header_to_bytes_def)

lemma length_extent_to_bytes [simp]: "length (extent_to_bytes x) = 12"
  by (simp add: extent_to_bytes_def)

lemma extent_roundtrip [simp]: "extent_from_bytes (extent_to_bytes x) = x"
  by (simp add: extent_from_bytes_def extent_to_bytes_def)

lemma length_extent_index_to_bytes [simp]: "length (extent_index_to_bytes x) = 12"
  by (simp add: extent_index_to_bytes_def)

lemma extent_index_roundtrip [simp]: "extent_index_from_bytes (extent_index_to_bytes x) = x"
  by (simp add: extent_index_from_bytes_def extent_index_to_bytes_def)

lemma fake_roundtrip [simp]: "4 \<le> length bs \<Longrightarrow> fake_to_bytes (fake_from_bytes bs) = bs"
  by (simp add: fake_from_bytes_def fake_to_bytes_def rd_def le_roundtrip)

lemma unat_ex_block_count:
  "unat (ex_block_count x) =
    (if ex_is_unwritten x then unat (ex_block_count_raw x) - 32768 else unat (ex_block_count_raw x))"
proof -
  have u: "unat (ucast (w :: u16) :: u32) = unat w" for w
    using unat_lt [of w] by (simp add: unsigned_ucast_eq take_bit_nat_eq_self)
  have c: "ex_block_count_raw x - INIT_MAX_LEN = ex_block_count_raw x - 32768" by (simp add: INIT_MAX_LEN_def)
  show ?thesis
    by (auto simp: ex_block_count_def ex_is_unwritten_def u INIT_MAX_LEN_def not_le not_less
        unat_sub_le word_le_nat_alt word_less_nat_alt)
qed

section \<open>A node as a list of slots\<close>

definition node_slots :: "bytes \<Rightarrow> nat \<Rightarrow> bytes list" where
  "node_slots raw n = map (\<lambda>i. slice raw (12 + 12 * i) 12) [0..<n]"

definition node_rep :: "bytes \<Rightarrow> extent_header \<Rightarrow> bytes list \<Rightarrow> bool" where
  "node_rep raw h ss \<longleftrightarrow>
     12 + 12 * length ss \<le> length raw \<and> node_header raw = Inr h \<and> node_slots raw (length ss) = ss"

text \<open>The well-formed nodes: the counts of the header are consistent with the space.\<close>

definition node_wf :: "bytes \<Rightarrow> extent_header \<Rightarrow> bytes list \<Rightarrow> bool" where
  "node_wf raw h ss \<longleftrightarrow> node_rep raw h ss \<and> eh_entries_count h \<le> eh_max_entries_count h \<and>
     unat (eh_max_entries_count h) \<le> length ss"

definition node_entries :: "extent_header \<Rightarrow> bytes list \<Rightarrow> extent list" where
  "node_entries h ss = map extent_from_bytes (take (unat (eh_entries_count h)) ss)"

lemma length_node_slots [simp]: "length (node_slots raw n) = n"
  by (simp add: node_slots_def)

lemma node_slots_nth [simp]: "i < n \<Longrightarrow> node_slots raw n ! i = slice raw (12 + 12 * i) 12"
  by (simp add: node_slots_def)

lemma node_slot_fits: "i < n \<Longrightarrow> 12 + 12 * n \<le> k \<Longrightarrow> 12 + 12 * i + 12 \<le> (k :: nat)"
  by linarith

lemma node_rep_slot:
  assumes "node_rep raw h ss" "i < length ss"
  shows "slot_at raw i = Inr (ss ! i)" "length (ss ! i) = 12"
proof -
  have f: "12 + 12 * i + 12 \<le> length raw"
    using assms by (auto simp: node_rep_def intro: node_slot_fits)
  have "ss ! i = slice raw (12 + 12 * i) 12"
    using assms node_slots_nth [of i "length ss" raw] by (simp add: node_rep_def)
  then show "slot_at raw i = Inr (ss ! i)" "length (ss ! i) = 12"
    using f by (simp_all add: slot_at_def)
qed

lemma node_rep_extent:
  "node_rep raw h ss \<Longrightarrow> i < length ss \<Longrightarrow> extent_at raw i = Inr (extent_from_bytes (ss ! i))"
  "node_rep raw h ss \<Longrightarrow> i < length ss \<Longrightarrow> extent_index_at raw i = Inr (extent_index_from_bytes (ss ! i))"
  "node_rep raw h ss \<Longrightarrow> i < length ss \<Longrightarrow> fake_extent_at raw i = Inr (fake_from_bytes (ss ! i))"
  by (simp_all add: extent_at_def extent_index_at_def fake_extent_at_def node_rep_slot)

lemma node_rep_set_slot:
  assumes r: "node_rep raw h ss" and i: "i < length ss" and x: "length x = 12"
  shows "\<exists>raw'. set_slot raw i x = Inr raw' \<and> node_rep raw' h (ss[i := x]) \<and> length raw' = length raw"
proof -
  let ?raw = "splice raw (12 + 12 * i) x"
  have len: "12 + 12 * length ss \<le> length raw" using r by (simp add: node_rep_def)
  have f: "12 + 12 * i + length x \<le> length raw" using node_slot_fits [OF i len] x by simp
  have l: "length ?raw = length raw" using f by simp
  have hd: "node_header ?raw = node_header raw"
    using f l by (simp add: node_header_def slice_splice_disjoint)
  have "node_slots ?raw (length ss) = ss[i := x]"
  proof (rule nth_equalityI)
    fix j assume j': "j < length (node_slots ?raw (length ss))"
    then have j: "j < length ss" by simp
    have fj: "12 + 12 * j + 12 \<le> length raw" by (rule node_slot_fits [OF j len])
    have sj: "ss ! j = slice raw (12 + 12 * j) 12"
      using r j node_slots_nth [of j "length ss" raw] by (simp add: node_rep_def)
    show "node_slots ?raw (length ss) ! j = ss[i := x] ! j"
    proof (cases "j = i")
      case True
      then show ?thesis using i x f by simp
    next
      case False
      then have "12 + 12 * j + 12 \<le> 12 + 12 * i \<or> 12 + 12 * i + 12 \<le> 12 + 12 * j" by linarith
      then have "slice ?raw (12 + 12 * j) 12 = slice raw (12 + 12 * j) 12"
        using slice_splice_disjoint [OF f fj] x by simp
      then show ?thesis using False j sj by simp
    qed
  qed simp
  then show ?thesis
    using f hd r l by (intro exI [of _ ?raw]) (simp add: set_slot_def node_rep_def)
qed

lemma node_rep_set_header:
  assumes r: "node_rep raw h ss"
  shows "\<exists>raw'. node_set_header raw h' = Inr raw' \<and> node_rep raw' h' ss \<and> length raw' = length raw"
proof -
  let ?raw = "splice raw 0 (header_to_bytes h')"
  have len: "12 + 12 * length ss \<le> length raw" using r by (simp add: node_rep_def)
  then have f: "0 + length (header_to_bytes h') \<le> length raw" by simp
  have "node_slots ?raw (length ss) = ss"
  proof (rule nth_equalityI)
    fix j assume "j < length (node_slots ?raw (length ss))"
    then have j: "j < length ss" by simp
    have fj: "12 + 12 * j + 12 \<le> length raw" by (rule node_slot_fits [OF j len])
    have "slice ?raw (12 + 12 * j) 12 = slice raw (12 + 12 * j) 12"
      using slice_splice_disjoint [OF f fj] by simp
    then show "node_slots ?raw (length ss) ! j = ss ! j"
      using r j node_slots_nth [of j "length ss" raw] by (simp add: node_rep_def)
  qed simp
  moreover have "node_header ?raw = Inr h'" using f by (simp add: node_header_def)
  ultimately show ?thesis
    using f len by (intro exI [of _ ?raw]) (simp add: node_set_header_def node_rep_def)
qed

section \<open>The copying loops\<close>

lemma shift_up_rep:
  "node_rep raw h ss \<Longrightarrow> pos \<le> i \<Longrightarrow> i < length ss \<Longrightarrow>
   \<exists>raw' ss'. shift_up raw i pos = Inr raw' \<and> node_rep raw' h ss' \<and> length raw' = length raw \<and>
     length ss' = length ss \<and>
     (\<forall>j < length ss. ss' ! j = (if pos < j \<and> j \<le> i then ss ! (j - 1) else ss ! j))"
proof (induction i arbitrary: raw ss)
  case 0
  then show ?case by (subst shift_up.simps) auto
next
  case (Suc i)
  show ?case
  proof (cases "Suc i > pos")
    case True
    have s: "slot_at raw i = Inr (ss ! i)" "length (ss ! i) = 12"
      using node_rep_slot [OF Suc.prems(1), of i] Suc.prems(3) by simp_all
    obtain raw1 where raw1: "set_slot raw (Suc i) (ss ! i) = Inr raw1"
      "node_rep raw1 h (ss[Suc i := ss ! i])" "length raw1 = length raw"
      using node_rep_set_slot [OF Suc.prems(1,3) s(2)] by blast
    have "pos \<le> i" "i < length (ss[Suc i := ss ! i])" using True Suc.prems(3) by simp_all
    from Suc.IH [OF raw1(2) this] obtain raw' ss' where
      "shift_up raw1 i pos = Inr raw'" "node_rep raw' h ss'" "length raw' = length raw"
      "length ss' = length ss"
      "\<forall>j < length ss. ss' ! j = (if pos < j \<and> j \<le> i then ss[Suc i := ss ! i] ! (j - 1)
        else ss[Suc i := ss ! i] ! j)" using raw1(3) by auto
    then show ?thesis using True s(1) raw1(1)
      by (subst shift_up.simps) (auto simp: nth_list_update le_Suc_eq)
  next
    case False
    then show ?thesis using Suc.prems by (subst shift_up.simps) auto
  qed
qed

definition insert_at :: "nat \<Rightarrow> 'a \<Rightarrow> 'a list \<Rightarrow> 'a list" where
  "insert_at pos x xs = take pos xs @ x # drop pos xs"

lemma length_insert_at [simp]: "length (insert_at pos x xs) = Suc (length xs)"
  by (simp add: insert_at_def)

lemma map_insert_at: "map f (insert_at pos x xs) = insert_at pos (f x) (map f xs)"
  by (simp add: insert_at_def take_map drop_map)

lemma nth_insert_at:
  assumes "pos \<le> length xs" "j < Suc (length xs)"
  shows "insert_at pos x xs ! j = (if j < pos then xs ! j else if j = pos then x else xs ! (j - 1))"
proof -
  consider "j < pos" | "j = pos" | k where "j = Suc (pos + k)"
    by (metis less_imp_Suc_add linorder_cases)
  then show ?thesis
    using assms by cases (auto simp: insert_at_def nth_append)
qed

lemma insert_slot_rep:
  assumes r: "node_rep raw h ss" and c: "count = unat (eh_entries_count h)" "count < length ss"
    and pos: "pos \<le> count" and x: "length x = 12" and mx: "eh_entries_count h < eh_max_entries_count h"
  shows "\<exists>raw' ss'. insert_slot raw h x pos = Inr raw' \<and>
    node_rep raw' (h\<lparr>eh_entries_count := eh_entries_count h + 1\<rparr>) ss' \<and> length raw' = length raw \<and>
    length ss' = length ss \<and> take (Suc count) ss' = insert_at pos x (take count ss) \<and>
    unat (eh_entries_count h + 1) = Suc count"
proof -
  obtain raw1 ss1 where 1: "shift_up raw count pos = Inr raw1" "node_rep raw1 h ss1"
    "length raw1 = length raw" "length ss1 = length ss"
    "\<And>j. j < length ss \<Longrightarrow> ss1 ! j = (if pos < j \<and> j \<le> count then ss ! (j - 1) else ss ! j)"
    using shift_up_rep [OF r pos c(2)] by blast
  have "pos < length ss1" using pos c(2) 1(4) by simp
  from node_rep_set_slot [OF 1(2) this x] obtain raw2 where
    2: "set_slot raw1 pos x = Inr raw2" "node_rep raw2 h (ss1[pos := x])" "length raw2 = length raw"
    using 1(3) by auto
  have lt: "unat (eh_entries_count h) + unat (1 :: u16) < 2 ^ LENGTH(16)"
    using mx unat_lt [of "eh_max_entries_count h"] by (simp add: word_less_nat_alt)
  obtain raw3 where
    3: "node_set_header raw2 (h\<lparr>eh_entries_count := eh_entries_count h + 1\<rparr>) = Inr raw3"
    "node_rep raw3 (h\<lparr>eh_entries_count := eh_entries_count h + 1\<rparr>) (ss1[pos := x])"
    "length raw3 = length raw"
    using node_rep_set_header [OF 2(2)] 2(3) by metis
  have "node_header raw2 = Inr h" using 2(2) by (simp add: node_rep_def)
  then have "insert_slot raw h x pos = Inr raw3"
    using 1(1) 2(1) 3(1) lt by (simp add: insert_slot_def c(1) [symmetric] add_chk_def)
  moreover have "take (Suc count) (ss1[pos := x]) = insert_at pos x (take count ss)"
  proof (rule nth_equalityI)
    show "length (take (Suc count) (ss1[pos := x])) = length (insert_at pos x (take count ss))"
      using c(2) 1(4) by simp
    fix j assume "j < length (take (Suc count) (ss1[pos := x]))"
    then have j: "j < Suc count" "j < length ss" using 1(4) by auto
    show "take (Suc count) (ss1[pos := x]) ! j = insert_at pos x (take count ss) ! j"
      using j pos c(2) 1(4) 1(5) [OF j(2)] by (auto simp: nth_insert_at nth_list_update)
  qed
  ultimately show ?thesis using 3 1(4) unat_add_lt [OF lt] c(1) by auto
qed

lemma split_loop_rep:
  "node_rep raw h ss \<Longrightarrow> i \<le> count \<Longrightarrow> count \<le> length ss \<Longrightarrow> pos \<le> count \<Longrightarrow>
   split_loop raw x pos i count = Inr (map fake_from_bytes
     (if i \<le> pos then insert_at (pos - i) x (drop i (take count ss)) else drop i (take count ss)))"
proof (induction "count - i" arbitrary: i)
  case 0
  then show ?case by (subst split_loop.simps) (auto simp: insert_at_def)
next
  case (Suc m)
  then have i: "i < count" "i < length ss" by auto
  have d: "drop i (take count ss) = ss ! i # drop (Suc i) (take count ss)"
    using i by (metis Cons_nth_drop_Suc length_take min_less_iff_conj nth_take)
  have "m = count - (i + 1)" "i + 1 \<le> count" using Suc.hyps(2) by auto
  note IH = Suc.hyps(1) [OF this(1) Suc.prems(1) this(2) Suc.prems(3,4)]
  show ?case
  proof (cases "i < pos")
    case True
    then obtain k where k: "pos = Suc (i + k)" using less_imp_Suc_add by blast
    then show ?thesis using i d IH Suc.prems
      by (subst split_loop.simps) (auto simp: node_rep_extent insert_at_def)
  next
    case False
    then show ?thesis using i d IH Suc.prems
      by (subst split_loop.simps) (auto simp: node_rep_extent insert_at_def)
  qed
qed

lemma find_unwritten_rep:
  "node_rep raw h ss \<Longrightarrow> count \<le> length ss \<Longrightarrow>
   \<forall>e \<in> set (map extent_from_bytes (drop i (take count ss))). \<not> ex_is_unwritten e \<Longrightarrow>
   find_unwritten raw i count = Inr None"
proof (induction "count - i" arbitrary: i)
  case 0
  then show ?case by (subst find_unwritten.simps) auto
next
  case (Suc m)
  then have i: "i < count" "i < length ss" by auto
  have d: "drop i (take count ss) = ss ! i # drop (Suc i) (take count ss)"
    using i by (metis Cons_nth_drop_Suc length_take min_less_iff_conj nth_take)
  have "m = count - (i + 1)" using Suc.hyps(2) by auto
  from Suc.hyps(1) [OF this Suc.prems(1,2)] show ?case
    using i d Suc.prems by (subst find_unwritten.simps) (auto simp: node_rep_extent)
qed

section \<open>The search\<close>

definition ex_end :: "extent \<Rightarrow> nat" where
  "ex_end e = unat (ex_first_block e) + unat (ex_block_count e)"

definition ex_covers :: "extent \<Rightarrow> LBlockId \<Rightarrow> bool" where
  "ex_covers e b \<longleftrightarrow> ex_first_block e \<le> b \<and> unat b < ex_end e"

definition extents_sorted :: "extent list \<Rightarrow> bool" where
  "extents_sorted es \<longleftrightarrow> (\<forall>e \<in> set es. ex_end e < 2 ^ 32 \<and> 0 < unat (ex_block_count e)) \<and>
     sorted_wrt (\<lambda>a b. ex_end a \<le> unat (ex_first_block b)) es"

lemma search_loop_rep:
  "node_rep raw h ss \<Longrightarrow> count \<le> length ss \<Longrightarrow> es = map extent_from_bytes (take count ss) \<Longrightarrow>
   \<forall>e \<in> set es. ex_end e < 2 ^ 32 \<Longrightarrow> i \<le> count \<Longrightarrow> \<forall>j < i. ex_end (es ! j) \<le> unat b \<Longrightarrow>
   \<exists>k \<le> count. (\<forall>j < k. ex_end (es ! j) \<le> unat b) \<and>
     ((k < count \<and> ex_covers (es ! k) b \<and> search_extent_loop raw count b i =
         Inr (if ex_is_unwritten (es ! k) then NotFound k else Found k)) \<or>
      ((k < count \<longrightarrow> b < ex_first_block (es ! k)) \<and> search_extent_loop raw count b i = Inr (NotFound k)))"
proof (induction "count - i" arbitrary: i)
  case 0
  then show ?case by (subst search_extent_loop.simps) auto
next
  case (Suc m)
  then have i: "i < count" "i < length ss" "i < length es" by auto
  have e: "extent_at raw i = Inr (es ! i)" using i Suc.prems(1,3) by (simp add: node_rep_extent)
  have b: "ex_end (es ! i) < 2 ^ 32" using Suc.prems(4) i(3) by simp
  then have a: "add_chk (ex_first_block (es ! i)) (ex_block_count (es ! i)) =
      Inr (ex_first_block (es ! i) + ex_block_count (es ! i))"
    "unat (ex_first_block (es ! i) + ex_block_count (es ! i)) = ex_end (es ! i)"
    by (simp_all add: add_chk_def ex_end_def unat_add_lt)
  show ?case
  proof (cases "ex_first_block (es ! i) \<le> b \<and> ex_end (es ! i) \<le> unat b")
    case True
    have "search_extent_loop raw count b i = search_extent_loop raw count b (i + 1)"
      using True i e a by (subst search_extent_loop.simps) (simp add: word_less_nat_alt)
    moreover have "m = count - (i + 1)" "i + 1 \<le> count" "\<forall>j < i + 1. ex_end (es ! j) \<le> unat b"
      using Suc.hyps(2) Suc.prems(6) True i by (auto simp: less_Suc_eq)
    ultimately show ?thesis using Suc.hyps(1) [OF _ Suc.prems(1-4)] by simp
  next
    case False
    then show ?thesis
      using i e a Suc.prems(6)
      by (intro exI [of _ i], subst (1 2) search_extent_loop.simps)
         (auto simp: word_less_nat_alt word_le_nat_alt ex_covers_def)
  qed
qed

lemma sorted_ends:
  assumes "extents_sorted es" "i < j" "j < length es"
  shows "ex_end (es ! i) \<le> unat (ex_first_block (es ! j))"
  using assms by (auto simp: extents_sorted_def sorted_wrt_iff_nth_less)

lemma covers_unique:
  assumes s: "extents_sorted es" and "i < length es" "j < length es" "ex_covers (es ! i) b" "ex_covers (es ! j) b"
  shows "i = j"
proof -
  have "\<not> i < j" "\<not> j < i"
    using assms sorted_ends [OF s, of i j] sorted_ends [OF s, of j i]
    by (auto simp: ex_covers_def word_le_nat_alt)
  then show ?thesis by simp
qed

lemma search_extent_rep:
  assumes r: "node_rep raw h ss" and c: "unat (eh_entries_count h) \<le> length ss"
    and s: "extents_sorted (node_entries h ss)"
  shows "\<exists>k \<le> length (node_entries h ss).
     (\<forall>j < k. ex_end (node_entries h ss ! j) \<le> unat b) \<and>
     ((k < length (node_entries h ss) \<and> ex_covers (node_entries h ss ! k) b \<and> search_extent raw b =
         Inr (if ex_is_unwritten (node_entries h ss ! k) then NotFound k else Found k)) \<or>
      ((\<forall>j. k \<le> j \<and> j < length (node_entries h ss) \<longrightarrow> b < ex_first_block (node_entries h ss ! j)) \<and>
        search_extent raw b = Inr (NotFound k)))"
proof -
  let ?es = "node_entries h ss" and ?n = "unat (eh_entries_count h)"
  have l: "length ?es = ?n" using c by (simp add: node_entries_def)
  have se: "search_extent raw b = search_extent_loop raw ?n b 0"
    using r by (simp add: search_extent_def node_rep_def)
  have "\<forall>e \<in> set ?es. ex_end e < 2 ^ 32" using s by (simp add: extents_sorted_def)
  from search_loop_rep [OF r c node_entries_def this, of 0 b]
  obtain k where k: "k \<le> ?n" "\<forall>j < k. ex_end (?es ! j) \<le> unat b"
    "(k < ?n \<and> ex_covers (?es ! k) b \<and> search_extent raw b =
         Inr (if ex_is_unwritten (?es ! k) then NotFound k else Found k)) \<or>
      ((k < ?n \<longrightarrow> b < ex_first_block (?es ! k)) \<and> search_extent raw b = Inr (NotFound k))"
    by (auto simp: se)
  have "b < ex_first_block (?es ! j)" if "k < ?n \<longrightarrow> b < ex_first_block (?es ! k)" "k \<le> j" "j < ?n" for j
  proof (cases "j = k")
    case False
    then have "ex_end (?es ! k) \<le> unat (ex_first_block (?es ! j))"
      using sorted_ends [OF s, of k j] that l by simp
    then show ?thesis using that by (auto simp: ex_end_def word_less_nat_alt)
  qed (use that in simp)
  then show ?thesis using k l by (intro exI [of _ k]) auto
qed

section \<open>The block map of a list of extents\<close>

definition extent_lookup :: "extent list \<Rightarrow> LBlockId \<Rightarrow> PBlockId option" where
  "extent_lookup es b = map_option (\<lambda>e. ex_start_pblock e + ucast (b - ex_first_block e))
     (List.find (\<lambda>e. ex_covers e b) es)"

lemma find_insert_at:
  "pos \<le> length xs \<Longrightarrow> (P x \<Longrightarrow> \<forall>y \<in> set xs. \<not> P y) \<Longrightarrow>
   List.find P (insert_at pos x xs) = (if P x then Some x else List.find P xs)"
proof (induction xs arbitrary: pos)
  case (Cons y ys)
  then show ?case by (cases pos) (auto simp: insert_at_def)
qed (auto simp: insert_at_def)

lemma insert_sorted:
  assumes s: "extents_sorted es" and k: "k \<le> length es"
    and before: "\<forall>j < k. ex_end (es ! j) \<le> unat (ex_first_block ex)"
    and after: "\<forall>j. k \<le> j \<and> j < length es \<longrightarrow> ex_end ex \<le> unat (ex_first_block (es ! j))"
    and ex: "ex_end ex < 2 ^ 32" "0 < unat (ex_block_count ex)"
  shows "extents_sorted (insert_at k ex es)"
    "extent_lookup (insert_at k ex es) b =
      (if ex_covers ex b then Some (ex_start_pblock ex + ucast (b - ex_first_block ex)) else extent_lookup es b)"
proof -
  have sp: "es = take k es @ drop k es" by simp
  have b': "\<forall>a \<in> set (take k es). ex_end a \<le> unat (ex_first_block ex)"
    using before k by (auto simp: in_set_conv_nth)
  have a': "\<forall>a \<in> set (drop k es). ex_end ex \<le> unat (ex_first_block a)"
    using after k by (auto simp: in_set_conv_nth)
  have "sorted_wrt (\<lambda>a b. ex_end a \<le> unat (ex_first_block b)) (take k es @ drop k es)"
    using s by (simp add: extents_sorted_def)
  then have "sorted_wrt (\<lambda>a b. ex_end a \<le> unat (ex_first_block b)) (insert_at k ex es)"
    using a' b' by (simp only: insert_at_def sorted_wrt_append sorted_wrt.simps) auto
  moreover have "set (insert_at k ex es) = insert ex (set es)"
    unfolding insert_at_def using sp by (metis Un_insert_right list.simps(15) set_append)
  ultimately show "extents_sorted (insert_at k ex es)"
    using s ex by (auto simp: extents_sorted_def)
  have "\<forall>y \<in> set es. \<not> ex_covers y b" if "ex_covers ex b"
  proof
    fix y assume "y \<in> set es"
    then have "y \<in> set (take k es) \<or> y \<in> set (drop k es)" using sp by (metis Un_iff set_append)
    then show "\<not> ex_covers y b" using a' b' that
      by (auto simp: ex_covers_def word_le_nat_alt)
  qed
  then show "extent_lookup (insert_at k ex es) b =
      (if ex_covers ex b then Some (ex_start_pblock ex + ucast (b - ex_first_block ex)) else extent_lookup es b)"
    using find_insert_at [OF k, of "\<lambda>e. ex_covers e b" ex] by (auto simp: extent_lookup_def)
qed

section \<open>Insertion\<close>

definition fake_to_extent :: "fake_extent \<Rightarrow> extent" where
  "fake_to_extent f = extent_from_bytes (fake_to_bytes f)"

definition split_entries :: "fake_extent list option \<Rightarrow> extent list" where
  "split_entries split = (case split of None \<Rightarrow> [] | Some fs \<Rightarrow> map fake_to_extent fs)"

lemma length_node_entries [simp]:
  "unat (eh_entries_count h) \<le> length ss \<Longrightarrow> length (node_entries h ss) = unat (eh_entries_count h)"
  by (simp add: node_entries_def)

lemma insert_at_append:
  "pos < length xs \<Longrightarrow> insert_at pos x (xs @ ys) = insert_at pos x xs @ ys"
  "length xs \<le> pos \<Longrightarrow> insert_at pos x (xs @ ys) = xs @ insert_at (pos - length xs) x ys"
  by (auto simp: insert_at_def)

lemma insert_at_split:
  assumes "pos \<le> length xs" "m \<le> length xs"
  shows "insert_at pos x xs = (if pos < m then insert_at pos x (take m xs) @ drop m xs
     else take m xs @ insert_at (pos - m) x (drop m xs))"
  using insert_at_append [where xs = "take m xs" and ys = "drop m xs" and pos = pos and x = x] assms
  by (simp add: min_def)

lemma node_entries_nth:
  "unat (eh_entries_count h) \<le> length ss \<Longrightarrow> i < unat (eh_entries_count h) \<Longrightarrow>
   node_entries h ss ! i = extent_from_bytes (ss ! i)"
  by (simp add: node_entries_def)

lemma node_wf_slot_bytes:
  "node_rep raw h ss \<Longrightarrow> s \<in> set ss \<Longrightarrow> length s = 12"
  by (metis in_set_conv_nth node_rep_slot(2))

lemma fake_slot: "length s = 12 \<Longrightarrow> fake_to_extent (fake_from_bytes s) = extent_from_bytes s"
  by (simp add: fake_to_extent_def)

lemma set_insert_at: "set (insert_at pos x xs) = insert x (set xs)"
  by (metis Un_insert_right append_take_drop_id insert_at_def list.simps(15) set_append)

lemma insert_simple_room:
  assumes w: "node_wf raw h ss" and p: "pos < length (node_entries h ss) \<longrightarrow> \<not> ex_is_unwritten (node_entries h ss ! pos)"
    and pos: "pos \<le> unat (eh_entries_count h)" and room: "eh_entries_count h < eh_max_entries_count h"
  shows "\<exists>raw' h' ss'. insert_extent_simple raw ex pos = Inr (Some raw') \<and> node_wf raw' h' ss' \<and>
    length raw' = length raw \<and> h' = h\<lparr>eh_entries_count := eh_entries_count h + 1\<rparr> \<and>
    node_entries h' ss' = insert_at pos ex (node_entries h ss)"
proof -
  let ?n = "unat (eh_entries_count h)"
  have r: "node_rep raw h ss" and hd: "node_header raw = Inr h" using w by (auto simp: node_wf_def node_rep_def)
  have n: "?n < length ss" using w room by (auto simp: node_wf_def word_less_nat_alt)
  have u: "extent_at raw pos = Inr (node_entries h ss ! pos) \<and> \<not> ex_is_unwritten (node_entries h ss ! pos)"
    if "pos < ?n"
  proof -
    have i: "pos < length ss" "pos < length (node_entries h ss)" using that n by simp_all
    then show ?thesis using p that n
      by (simp add: node_rep_extent(1) [OF r i(1)] node_entries_nth)
  qed
  obtain raw' ss' where i: "insert_slot raw h (extent_to_bytes ex) pos = Inr raw'"
    "node_rep raw' (h\<lparr>eh_entries_count := eh_entries_count h + 1\<rparr>) ss'" "length raw' = length raw"
    "length ss' = length ss" "take (Suc ?n) ss' = insert_at pos (extent_to_bytes ex) (take ?n ss)"
    "unat (eh_entries_count h + 1) = Suc ?n"
    using insert_slot_rep [OF r refl n pos length_extent_to_bytes room] by blast
  have "insert_extent_simple raw ex pos = Inr (Some raw')"
    using hd u i(1) room by (auto simp: insert_extent_simple_def Let_def)
  then show ?thesis
    using i w room
    by (auto simp: node_wf_def node_entries_def map_insert_at word_le_nat_alt word_less_nat_alt)
qed

lemma split_room:
  assumes w: "node_wf raw h ss" and full: "eh_entries_count h = eh_max_entries_count h"
    and pos: "pos \<le> unat (eh_entries_count h)" and x: "length x = 12"
  defines "count \<equiv> unat (eh_entries_count h)"
  defines "mid \<equiv> count * 2 div 3"
  shows "split_loop raw x pos mid count = Inr (map fake_from_bytes
      (if mid \<le> pos then insert_at (pos - mid) x (drop mid (take count ss)) else drop mid (take count ss)))"
    and "\<exists>raw'. node_set_header raw (h\<lparr>eh_entries_count := word_of_nat mid\<rparr>) = Inr raw' \<and>
      length raw' = length raw \<and> node_wf raw' (h\<lparr>eh_entries_count := word_of_nat mid\<rparr>) ss"
    and "unat (word_of_nat mid :: u16) = mid" "mid \<le> count" "pos < mid \<Longrightarrow> (word_of_nat mid :: u16) < eh_max_entries_count h"
proof -
  have r: "node_rep raw h ss" and c: "count \<le> length ss"
    using w by (auto simp: node_wf_def count_def word_le_nat_alt)
  show mc: "mid \<le> count" by (simp add: mid_def)
  show "split_loop raw x pos mid count = Inr (map fake_from_bytes
      (if mid \<le> pos then insert_at (pos - mid) x (drop mid (take count ss)) else drop mid (take count ss)))"
    by (rule split_loop_rep [OF r mc c]) (use pos in \<open>simp add: count_def\<close>)
  have "mid < 2 ^ 16" using mc unat_lt [of "eh_entries_count h"] by (simp add: count_def)
  then show um: "unat (word_of_nat mid :: u16) = mid" by (intro unat_word_of_nat) simp
  obtain raw' where "node_set_header raw (h\<lparr>eh_entries_count := word_of_nat mid\<rparr>) = Inr raw'"
    "length raw' = length raw" "node_rep raw' (h\<lparr>eh_entries_count := word_of_nat mid\<rparr>) ss"
    using node_rep_set_header [OF r] by blast
  then show "\<exists>raw'. node_set_header raw (h\<lparr>eh_entries_count := word_of_nat mid\<rparr>) = Inr raw' \<and>
      length raw' = length raw \<and> node_wf raw' (h\<lparr>eh_entries_count := word_of_nat mid\<rparr>) ss"
    using w mc um by (auto simp: node_wf_def word_le_nat_alt count_def)
  show "(word_of_nat mid :: u16) < eh_max_entries_count h" if "pos < mid"
    using that um by (simp add: word_less_nat_alt full [symmetric] count_def [symmetric] mid_def)
qed

lemma insert_refines:
  assumes w: "node_wf raw h ss" and p: "if eh_entries_count h < eh_max_entries_count h
      then pos < length (node_entries h ss) \<longrightarrow> \<not> ex_is_unwritten (node_entries h ss ! pos)
      else \<forall>e \<in> set (node_entries h ss). \<not> ex_is_unwritten e"
    and pos: "pos \<le> length (node_entries h ss)"
  shows "\<exists>raw' split h' ss'. insert_extent raw ex pos = Inr (raw', split) \<and> node_wf raw' h' ss' \<and>
    length raw' = length raw \<and> (split = None \<longleftrightarrow> eh_entries_count h < eh_max_entries_count h) \<and>
    node_entries h' ss' @ split_entries split = insert_at pos ex (node_entries h ss)"
proof (cases "eh_entries_count h < eh_max_entries_count h")
  case True
  have "pos \<le> unat (eh_entries_count h)" using pos w by (simp add: node_wf_def word_le_nat_alt)
  from insert_simple_room [OF w _ this True, of ex] p show ?thesis using True
    by (fastforce simp: insert_extent_def split_entries_def)
next
  case False
  then have p: "\<forall>e \<in> set (node_entries h ss). \<not> ex_is_unwritten e" using p by simp
  let ?n = "unat (eh_entries_count h)" and ?m = "unat (eh_entries_count h) * 2 div 3"
  let ?x = "extent_to_bytes ex" and ?es = "node_entries h ss"
  have r: "node_rep raw h ss" and hd: "node_header raw = Inr h" and n: "?n \<le> length ss"
    using w by (auto simp: node_wf_def node_rep_def word_le_nat_alt)
  have full: "eh_entries_count h = eh_max_entries_count h" using False w by (simp add: node_wf_def)
  have pos': "pos \<le> ?n" using pos n by simp
  note sp = split_room [OF w full pos' length_extent_to_bytes [of ex]]
  obtain raw1 where raw1: "node_set_header raw (h\<lparr>eh_entries_count := word_of_nat ?m\<rparr>) = Inr raw1"
    "length raw1 = length raw" "node_wf raw1 (h\<lparr>eh_entries_count := word_of_nat ?m\<rparr>) ss"
    using sp(2) by blast
  let ?h1 = "h\<lparr>eh_entries_count := word_of_nat ?m\<rparr>"
  have e1: "node_entries ?h1 ss = take ?m ?es"
    using sp(3,4) by (simp add: node_entries_def take_map [symmetric] min_def)
  have u: "extent_at raw pos = Inr (?es ! pos) \<and> \<not> ex_is_unwritten (?es ! pos)" if "pos < ?n"
  proof -
    have i: "pos < length ss" "pos < length (node_entries h ss)" using that n by simp_all
    then show ?thesis using p nth_mem [OF i(2)] that n
      by (simp add: node_rep_extent(1) [OF r i(1)] node_entries_nth)
  qed
  have nou: "find_unwritten raw 0 ?n = Inr None"
    by (rule find_unwritten_rep [OF r n]) (use p in \<open>simp add: node_entries_def\<close>)
  have simple: "insert_extent_simple raw ex pos = Inr None"
    using hd u False nou by (auto simp: insert_extent_simple_def Let_def)
  let ?sp = "if ?m \<le> pos then insert_at (pos - ?m) ?x (drop ?m (take ?n ss)) else drop ?m (take ?n ss)"
  have l12: "\<forall>s \<in> set ?sp. length s = 12"
    using node_wf_slot_bytes [OF r] by (auto simp: set_insert_at dest: in_set_takeD in_set_dropD)
  have se: "split_entries (Some (map fake_from_bytes ?sp)) = map extent_from_bytes ?sp"
    using l12 by (simp add: split_entries_def fake_slot)
  have sm: "map extent_from_bytes ?sp = (if ?m \<le> pos then insert_at (pos - ?m) ex (drop ?m ?es) else drop ?m ?es)"
    by (simp add: map_insert_at node_entries_def drop_map)
  show ?thesis
  proof (cases "pos < ?m")
    case True
    have p1: "pos < length (node_entries ?h1 ss) \<longrightarrow> \<not> ex_is_unwritten (node_entries ?h1 ss ! pos)"
      using p e1 nth_mem [of pos ?es] by auto
    have "pos \<le> unat (eh_entries_count ?h1)" "eh_entries_count ?h1 < eh_max_entries_count ?h1"
      using True sp(3) sp(5) [OF True] by simp_all
    from insert_simple_room [OF raw1(3) p1 this, of ex] obtain raw2 h2 ss2 where
      2: "insert_extent_simple raw1 ex pos = Inr (Some raw2)" "node_wf raw2 h2 ss2" "length raw2 = length raw1"
      "node_entries h2 ss2 = insert_at pos ex (take ?m ?es)" by (auto simp: e1)
    have "insert_extent raw ex pos = Inr (raw2, Some (map fake_from_bytes ?sp))"
      using simple hd sp(1) raw1(1) True 2(1) by (simp add: insert_extent_def Let_def)
    moreover have "insert_at pos ex ?es = insert_at pos ex (take ?m ?es) @ drop ?m ?es"
      using insert_at_split [of pos ?es ?m ex] pos sp(4) n True by simp
    ultimately show ?thesis using 2 raw1(2) False se sm True
      by (intro exI [of _ raw2] exI [of _ "Some (map fake_from_bytes ?sp)"] exI [of _ h2] exI [of _ ss2]) simp
  next
    case False
    have "insert_extent raw ex pos = Inr (raw1, Some (map fake_from_bytes ?sp))"
      using simple hd sp(1) raw1(1) False by (simp add: insert_extent_def Let_def)
    moreover have "insert_at pos ex ?es = take ?m ?es @ insert_at (pos - ?m) ex (drop ?m ?es)"
      using insert_at_split [of pos ?es ?m ex] pos sp(4) n False by simp
    ultimately show ?thesis using raw1 \<open>\<not> eh_entries_count h < eh_max_entries_count h\<close> se sm e1 False
      by (intro exI [of _ raw1] exI [of _ "Some (map fake_from_bytes ?sp)"] exI [of _ ?h1] exI [of _ ss]) simp
  qed
qed

section \<open>Index nodes\<close>

definition index_entries :: "extent_header \<Rightarrow> bytes list \<Rightarrow> extent_index list" where
  "index_entries h ss = map extent_index_from_bytes (take (unat (eh_entries_count h)) ss)"

lemma length_index_entries [simp]:
  "unat (eh_entries_count h) \<le> length ss \<Longrightarrow> length (index_entries h ss) = unat (eh_entries_count h)"
  by (simp add: index_entries_def)

definition fake_to_index :: "fake_extent \<Rightarrow> extent_index" where
  "fake_to_index f = extent_index_from_bytes (fake_to_bytes f)"

definition split_indices :: "fake_extent list option \<Rightarrow> extent_index list" where
  "split_indices split = (case split of None \<Rightarrow> [] | Some fs \<Rightarrow> map fake_to_index fs)"

lemma search_index_loop_rep:
  "node_rep raw h ss \<Longrightarrow> count \<le> length ss \<Longrightarrow> xs = map extent_index_from_bytes (take count ss) \<Longrightarrow>
   i \<le> count \<Longrightarrow> \<forall>j < i. ei_first_block (xs ! j) \<le> b \<Longrightarrow>
   \<exists>k \<le> count. search_index_loop raw count b i = Inr k \<and> (\<forall>j < k. ei_first_block (xs ! j) \<le> b) \<and>
     (k < count \<longrightarrow> b < ei_first_block (xs ! k))"
proof (induction "count - i" arbitrary: i)
  case 0
  then show ?case by (subst search_index_loop.simps) auto
next
  case (Suc m)
  then have i: "i < count" "i < length ss" by auto
  have e: "extent_index_at raw i = Inr (xs ! i)" using i Suc.prems(1,3) by (simp add: node_rep_extent)
  show ?case
  proof (cases "ei_first_block (xs ! i) \<le> b")
    case True
    have "search_index_loop raw count b i = search_index_loop raw count b (i + 1)"
      using True i e by (subst search_index_loop.simps) (auto dest: leD)
    moreover have "m = count - (i + 1)" "i + 1 \<le> count" "\<forall>j < i + 1. ei_first_block (xs ! j) \<le> b"
      using Suc.hyps(2) Suc.prems(5) True i by (auto simp: less_Suc_eq)
    ultimately show ?thesis using Suc.hyps(1) [OF _ Suc.prems(1-3)] by simp
  next
    case False
    then show ?thesis using i e Suc.prems(5)
      by (intro exI [of _ i], subst search_index_loop.simps) (auto simp: not_le)
  qed
qed

lemma insert_index_refines:
  assumes w: "node_wf raw h ss" and pos: "pos \<le> length (index_entries h ss)"
  shows "\<exists>raw' split h' ss'. insert_extent_index raw ix pos = Inr (raw', split) \<and> node_wf raw' h' ss' \<and>
    length raw' = length raw \<and> (split = None \<longleftrightarrow> eh_entries_count h < eh_max_entries_count h) \<and>
    index_entries h' ss' @ split_indices split = insert_at pos ix (index_entries h ss)"
proof -
  let ?n = "unat (eh_entries_count h)" and ?m = "unat (eh_entries_count h) * 2 div 3"
  let ?x = "extent_index_to_bytes ix" and ?es = "index_entries h ss"
  have r: "node_rep raw h ss" and hd: "node_header raw = Inr h" and n: "?n \<le> length ss"
    using w by (auto simp: node_wf_def node_rep_def word_le_nat_alt)
  have room: "\<exists>raw2 h2 ss2. insert_slot raw1 h1 ?x pos = Inr raw2 \<and> node_wf raw2 h2 ss2 \<and>
      length raw2 = length raw1 \<and> index_entries h2 ss2 = insert_at pos ix (index_entries h1 ss)"
    if w1: "node_wf raw1 h1 ss" and room: "eh_entries_count h1 < eh_max_entries_count h1"
      and p1: "pos \<le> unat (eh_entries_count h1)" for raw1 h1
  proof -
    have r1: "node_rep raw1 h1 ss" and n1: "unat (eh_entries_count h1) < length ss"
      using w1 room by (auto simp: node_wf_def word_less_nat_alt)
    let ?h2 = "h1\<lparr>eh_entries_count := eh_entries_count h1 + 1\<rparr>"
    from insert_slot_rep [OF r1 refl n1 p1 length_extent_index_to_bytes [of ix] room] obtain raw2 ss2 where
      "insert_slot raw1 h1 ?x pos = Inr raw2" "node_rep raw2 ?h2 ss2" "length raw2 = length raw1"
      "length ss2 = length ss" "take (Suc (unat (eh_entries_count h1))) ss2 =
        insert_at pos ?x (take (unat (eh_entries_count h1)) ss)"
      "unat (eh_entries_count h1 + 1) = Suc (unat (eh_entries_count h1))" by blast
    then show ?thesis using w1 room
      by (intro exI [of _ raw2] exI [of _ ?h2] exI [of _ ss2])
         (simp add: node_wf_def index_entries_def map_insert_at word_le_nat_alt word_less_nat_alt)
  qed
  show ?thesis
  proof (cases "eh_entries_count h < eh_max_entries_count h")
    case True
    from room [OF w True] pos n True hd show ?thesis
      by (fastforce simp: insert_extent_index_def Let_def split_indices_def)
  next
    case False
    have full: "eh_entries_count h = eh_max_entries_count h" using False w by (simp add: node_wf_def)
    have pos': "pos \<le> ?n" using pos n by simp
    note sp = split_room [OF w full pos' length_extent_index_to_bytes [of ix]]
    let ?h1 = "h\<lparr>eh_entries_count := word_of_nat ?m\<rparr>"
    obtain raw1 where raw1: "node_set_header raw ?h1 = Inr raw1" "length raw1 = length raw" "node_wf raw1 ?h1 ss"
      using sp(2) by blast
    have hd1: "node_header raw1 = Inr ?h1" using raw1(3) by (simp add: node_wf_def node_rep_def)
    have e1: "index_entries ?h1 ss = take ?m ?es"
      using sp(3,4) by (simp add: index_entries_def take_map [symmetric] min_def)
    let ?sp = "if ?m \<le> pos then insert_at (pos - ?m) ?x (drop ?m (take ?n ss)) else drop ?m (take ?n ss)"
    have l12: "\<forall>s \<in> set ?sp. length s = 12"
      using node_wf_slot_bytes [OF r] by (auto simp: set_insert_at dest: in_set_takeD in_set_dropD)
    have se: "split_indices (Some (map fake_from_bytes ?sp)) = map extent_index_from_bytes ?sp"
      using l12 by (simp add: split_indices_def fake_to_index_def)
    have sm: "map extent_index_from_bytes ?sp = (if ?m \<le> pos then insert_at (pos - ?m) ix (drop ?m ?es) else drop ?m ?es)"
      by (simp add: map_insert_at index_entries_def drop_map)
    show ?thesis
    proof (cases "pos < ?m")
      case True
      have "eh_entries_count ?h1 < eh_max_entries_count ?h1" "pos \<le> unat (eh_entries_count ?h1)"
        using True sp(3) sp(5) [OF True] by simp_all
      from room [OF raw1(3) this] obtain raw2 h2 ss2 where
        2: "insert_slot raw1 ?h1 ?x pos = Inr raw2" "node_wf raw2 h2 ss2" "length raw2 = length raw1"
        "index_entries h2 ss2 = insert_at pos ix (take ?m ?es)" by (auto simp: e1)
      have "insert_extent_index raw ix pos = Inr (raw2, Some (map fake_from_bytes ?sp))"
        using hd hd1 sp(1) raw1(1) True 2(1) sp(5) [OF True] False by (simp add: insert_extent_index_def Let_def)
      moreover have "insert_at pos ix ?es = insert_at pos ix (take ?m ?es) @ drop ?m ?es"
        using insert_at_split [of pos ?es ?m ix] pos sp(4) n True by simp
      ultimately show ?thesis using 2 raw1(2) False se sm True
        by (intro exI [of _ raw2] exI [of _ "Some (map fake_from_bytes ?sp)"] exI [of _ h2] exI [of _ ss2]) simp
    next
      case nlt: False
      have "insert_extent_index raw ix pos = Inr (raw1, Some (map fake_from_bytes ?sp))"
        using hd sp(1) raw1(1) False nlt by (simp add: insert_extent_index_def Let_def)
      moreover have "insert_at pos ix ?es = take ?m ?es @ insert_at (pos - ?m) ix (drop ?m ?es)"
        using insert_at_split [of pos ?es ?m ix] pos sp(4) n nlt by simp
      ultimately show ?thesis using raw1 False se sm e1 nlt
        by (intro exI [of _ raw1] exI [of _ "Some (map fake_from_bytes ?sp)"] exI [of _ ?h1] exI [of _ ss]) simp
    qed
  qed
qed

section \<open>The out-of-bounds access on full nodes with unwritten extents\<close>

lemma shift_down_panics:
  "node_rep raw h ss \<Longrightarrow> length raw < 12 + 12 * length ss + 12 \<Longrightarrow> i < length ss \<Longrightarrow>
   shift_down raw i (length ss) = Inl Panic"
proof (induction "length ss - i" arbitrary: raw ss i)
  case (Suc m)
  show ?case
  proof (cases "i + 1 < length ss")
    case True
    have s: "slot_at raw (i + 1) = Inr (ss ! (i + 1))" "length (ss ! (i + 1)) = 12"
      using node_rep_slot [OF Suc.prems(1) True] by simp_all
    from node_rep_set_slot [OF Suc.prems(1,3) s(2)] obtain raw1 where
      1: "set_slot raw i (ss ! (i + 1)) = Inr raw1" "node_rep raw1 h (ss[i := ss ! (i + 1)])"
      "length raw1 = length raw" by blast
    have "shift_down raw1 (i + 1) (length (ss[i := ss ! (i + 1)])) = Inl Panic"
      by (rule Suc.hyps(1) [OF _ 1(2)]) (use Suc.hyps(2) Suc.prems True 1(3) in simp_all)
    then show ?thesis using s(1) 1(1) Suc.prems(3) by (subst shift_down.simps) simp
  next
    case False
    then have "i + 1 = length ss" using Suc.prems(3) by simp
    then have "slot_at raw (i + 1) = Inl Panic"
      using Suc.prems(2) by (simp add: slot_at_def index_range_def)
    then show ?thesis using Suc.prems(3) by (subst shift_down.simps) simp
  qed
qed simp

lemma find_unwritten_some:
  "node_rep raw h ss \<Longrightarrow> count \<le> length ss \<Longrightarrow> i \<le> u \<Longrightarrow> u < count \<Longrightarrow>
   ex_is_unwritten (extent_from_bytes (ss ! u)) \<Longrightarrow>
   \<exists>v \<ge> i. v \<le> u \<and> find_unwritten raw i count = Inr (Some v)"
proof (induction "count - i" arbitrary: i)
  case (Suc m)
  then have i: "i < count" "i < length ss" by auto
  show ?case
  proof (cases "ex_is_unwritten (extent_from_bytes (ss ! i))")
    case True
    then show ?thesis using i Suc.prems by (subst find_unwritten.simps) (auto simp: node_rep_extent)
  next
    case False
    then have "i + 1 \<le> u" using Suc.prems(3,5) by (cases "i = u") auto
    moreover have "m = count - (i + 1)" using Suc.hyps(2) by simp
    ultimately obtain v where "v \<ge> i + 1" "v \<le> u" "find_unwritten raw (i + 1) count = Inr (Some v)"
      using Suc.hyps(1) [OF _ Suc.prems(1,2) _ Suc.prems(4,5)] by blast
    then show ?thesis using i False Suc.prems
      by (intro exI [of _ v], subst find_unwritten.simps) (auto simp: node_rep_extent)
  qed
qed simp

section \<open>Concrete nodes\<close>

lemma slice_concat:
  "\<forall>s \<in> set ss. length s = n \<Longrightarrow> i < length ss \<Longrightarrow> slice (concat ss @ rest) (n * i) n = ss ! i"
proof (induction ss arbitrary: i)
  case (Cons s ss)
  show ?case
  proof (cases i)
    case 0
    then show ?thesis using Cons.prems by (simp add: slice_def)
  next
    case (Suc j)
    then show ?thesis using Cons.IH [of j] Cons.prems slice_append_right [of s n "concat ss @ rest" "n * j" n]
      by simp
  qed
qed simp

lemma node_rep_concat:
  assumes "\<forall>s \<in> set ss. length s = 12"
  shows "node_rep (header_to_bytes h @ concat ss @ rest) h ss"
proof -
  have l: "length (concat ss) = 12 * length ss"
    using assms by (induction ss) auto
  have "node_slots (header_to_bytes h @ concat ss @ rest) (length ss) = ss"
    by (rule nth_equalityI)
       (use assms in \<open>simp_all add: slice_append_right slice_concat\<close>)
  then show ?thesis
    by (simp add: node_rep_def l node_header_def slice_0)
qed

section \<open>Properties\<close>

text \<open>
  C19: \<open>search_extent\<close> on a sorted leaf. It never reads outside the node and never overflows; it
  answers \<open>Ok(k)\<close> or \<open>Err(k)\<close> with \<open>k\<close> the one slot whose extent covers the block (\<open>Err\<close> when that
  extent is unwritten), and when no extent covers the block, \<open>Err(k)\<close> with \<open>k\<close> the insertion
  position: every extent before slot \<open>k\<close> ends at or before the block, every later one starts after it.
\<close>

theorem search_extent_correct:
  assumes "node_wf raw h ss" "extents_sorted (node_entries h ss)"
  shows "\<exists>k. (search_extent raw b = Inr (Found k) \<or> search_extent raw b = Inr (NotFound k)) \<and>
      k \<le> length (node_entries h ss) \<and>
      (\<forall>j < k. ex_end (node_entries h ss ! j) \<le> unat b) \<and>
      (search_extent raw b = Inr (Found k) \<longleftrightarrow>
         k < length (node_entries h ss) \<and> ex_covers (node_entries h ss ! k) b \<and> \<not> ex_is_unwritten (node_entries h ss ! k)) \<and>
      ((\<exists>e \<in> set (node_entries h ss). ex_covers e b) \<longleftrightarrow>
         k < length (node_entries h ss) \<and> ex_covers (node_entries h ss ! k) b) \<and>
      ((\<nexists>e. e \<in> set (node_entries h ss) \<and> ex_covers e b) \<longrightarrow>
         (\<forall>j. k \<le> j \<and> j < length (node_entries h ss) \<longrightarrow> b < ex_first_block (node_entries h ss ! j)))"
proof -
  let ?es = "node_entries h ss"
  have r: "node_rep raw h ss" and n: "unat (eh_entries_count h) \<le> length ss"
    using assms(1) by (auto simp: node_wf_def word_le_nat_alt)
  from search_extent_rep [OF r n assms(2), of b] obtain k where k: "k \<le> length ?es"
    "\<forall>j < k. ex_end (?es ! j) \<le> unat b"
    "(k < length ?es \<and> ex_covers (?es ! k) b \<and> search_extent raw b =
         Inr (if ex_is_unwritten (?es ! k) then NotFound k else Found k)) \<or>
      ((\<forall>j. k \<le> j \<and> j < length ?es \<longrightarrow> b < ex_first_block (?es ! j)) \<and> search_extent raw b = Inr (NotFound k))"
    by blast
  have cov: "(\<exists>e \<in> set ?es. ex_covers e b) \<longleftrightarrow> k < length ?es \<and> ex_covers (?es ! k) b"
  proof
    assume "\<exists>e \<in> set ?es. ex_covers e b"
    then obtain j where j: "j < length ?es" "ex_covers (?es ! j) b" by (auto simp: in_set_conv_nth)
    then have "k \<le> j" using k(2) by (auto simp: ex_covers_def intro: leI)
    then show "k < length ?es \<and> ex_covers (?es ! k) b" using j k(3) by (auto simp: ex_covers_def dest: leD)
  qed auto
  have "\<not> (k < length ?es \<and> ex_covers (?es ! k) b)"
    if "\<forall>j. k \<le> j \<and> j < length ?es \<longrightarrow> b < ex_first_block (?es ! j)"
    using that by (auto simp: ex_covers_def dest: leD)
  then show ?thesis using k cov by (intro exI [of _ k]) (auto split: if_splits)
qed

text \<open>
  Inserting an extent. On a consistent leaf without unwritten extents \<open>insert_extent\<close> never
  leaves the node, keeps its consistency, answers \<open>Ok\<close> exactly when the node had room, and in
  both cases the entries kept, followed by the entries handed back for a new right sibling, are
  the old entries with the new one inserted at the position asked for.
\<close>

theorem insert_extent_refines:
  assumes "node_wf raw h ss" "\<forall>e \<in> set (node_entries h ss). \<not> ex_is_unwritten e"
    and "pos \<le> length (node_entries h ss)"
  shows "\<exists>raw' split h' ss'. insert_extent raw ex pos = Inr (raw', split) \<and> node_wf raw' h' ss' \<and>
    length raw' = length raw \<and> (split = None \<longleftrightarrow> eh_entries_count h < eh_max_entries_count h) \<and>
    node_entries h' ss' @ split_entries split = insert_at pos ex (node_entries h ss)"
  by (rule insert_refines [OF assms(1) _ assms(3)]) (use assms(2,3) in simp)

text \<open>
  The same for the inner nodes: \<open>insert_extent_index\<close> implements insertion into the list of
  indices, split or not.
\<close>

theorem insert_extent_index_refines:
  assumes "node_wf raw h ss" "pos \<le> length (index_entries h ss)"
  shows "\<exists>raw' split h' ss'. insert_extent_index raw ix pos = Inr (raw', split) \<and> node_wf raw' h' ss' \<and>
    length raw' = length raw \<and> (split = None \<longleftrightarrow> eh_entries_count h < eh_max_entries_count h) \<and>
    index_entries h' ss' @ split_indices split = insert_at pos ix (index_entries h ss)"
  by (rule insert_index_refines [OF assms])

text \<open>
  C20: mapping a hole. When \<open>search_extent\<close> reports a block \<open>b\<close> unmapped at slot \<open>k\<close> and an
  extent starting at \<open>b\<close> that ends before the next extent is inserted there, the leaf (with
  the split-off entries) is sorted again and denotes the old block map extended by exactly the
  blocks of the new extent. This is for the inputs on which the code inserts: the extent at slot \<open>k\<close> is not
  marked unwritten (the code overwrites it otherwise), and in a full leaf no extent is. A full leaf with
  an unwritten extent is outside of the claim, and rightly so: there the code moves entries and drops
  the unwritten one, also when it lies elsewhere, and may leave the node
  (\<open>insert_extent_full_unwritten_out_of_bounds\<close>).
\<close>

theorem insert_extent_maps_hole:
  assumes w: "node_wf raw h ss" and s: "extents_sorted (node_entries h ss)"
    and sr: "search_extent raw (ex_first_block ex) = Inr (NotFound k)"
    and u: "if eh_entries_count h < eh_max_entries_count h
      then k < length (node_entries h ss) \<longrightarrow> \<not> ex_is_unwritten (node_entries h ss ! k)
      else \<forall>e \<in> set (node_entries h ss). \<not> ex_is_unwritten e"
    and hole: "\<forall>e \<in> set (node_entries h ss). ex_first_block ex < ex_first_block e \<longrightarrow> ex_end ex \<le> unat (ex_first_block e)"
    and ex: "ex_end ex < 2 ^ 32" "0 < unat (ex_block_count ex)"
  shows "\<exists>raw' split h' ss'. insert_extent raw ex k = Inr (raw', split) \<and> node_wf raw' h' ss' \<and>
    extents_sorted (node_entries h' ss' @ split_entries split) \<and>
    (\<forall>b. extent_lookup (node_entries h' ss' @ split_entries split) b =
      (if ex_covers ex b then Some (ex_start_pblock ex + ucast (b - ex_first_block ex))
       else extent_lookup (node_entries h ss) b))"
proof -
  let ?es = "node_entries h ss" and ?b = "ex_first_block ex"
  have r: "node_rep raw h ss" and n: "unat (eh_entries_count h) \<le> length ss"
    using w by (auto simp: node_wf_def word_le_nat_alt)
  have uk: "k < length ?es \<longrightarrow> \<not> ex_is_unwritten (?es ! k)" using u by (auto split: if_splits)
  obtain i where i: "i \<le> length ?es" "\<forall>j < i. ex_end (?es ! j) \<le> unat ?b"
    "(i < length ?es \<and> ex_covers (?es ! i) ?b \<and> search_extent raw ?b =
        Inr (if ex_is_unwritten (?es ! i) then NotFound i else Found i)) \<or>
     ((\<forall>j. i \<le> j \<and> j < length ?es \<longrightarrow> ?b < ex_first_block (?es ! j)) \<and> search_extent raw ?b = Inr (NotFound i))"
    using search_extent_rep [OF r n s, of ?b] by blast
  have "i = k" using i(3) sr by (auto split: if_splits)
  then have k: "k \<le> length ?es" "\<forall>j < k. ex_end (?es ! j) \<le> unat ?b"
    "\<forall>j. k \<le> j \<and> j < length ?es \<longrightarrow> ?b < ex_first_block (?es ! j)"
    using i uk sr by auto
  have after: "\<forall>j. k \<le> j \<and> j < length ?es \<longrightarrow> ex_end ex \<le> unat (ex_first_block (?es ! j))"
    using k(3) hole by auto
  from insert_refines [OF w u k(1), of ex] insert_sorted [OF s k(1,2) after ex] show ?thesis by metis
qed

text \<open>
  A defect of the full-node path. On a full leaf that exactly fills its buffer (the 60 bytes
  of an inode) and holds an unwritten extent, appending an extent at the end reads and writes
  the slot after the last one: the model panics, the code, which goes through raw pointers,
  touches the bytes after the buffer.
\<close>

theorem insert_extent_full_unwritten_out_of_bounds:
  assumes w: "node_wf raw h ss" and full: "unat (eh_entries_count h) = length ss"
    and len: "length raw < 12 + 12 * length ss + 12"
    and u: "\<exists>e \<in> set (node_entries h ss). ex_is_unwritten e"
  shows "insert_extent raw ex (length (node_entries h ss)) = Inl Panic"
proof -
  have r: "node_rep raw h ss" and hd: "node_header raw = Inr h" using w by (auto simp: node_wf_def node_rep_def)
  have nroom: "\<not> eh_entries_count h < eh_max_entries_count h"
    using w full by (simp add: node_wf_def word_less_nat_alt)
  obtain v where v: "v < length ss" "ex_is_unwritten (extent_from_bytes (ss ! v))"
    using u full by (auto simp: node_entries_def in_set_conv_nth)
  from find_unwritten_some [OF r order_refl le0 v] obtain i where
    i: "i \<le> v" "find_unwritten raw 0 (length ss) = Inr (Some i)" by blast
  have "shift_down raw i (length ss) = Inl Panic"
    using shift_down_panics [OF r len] i(1) v(1) by simp
  then show ?thesis using hd full nroom i v(1)
    by (simp add: insert_extent_def insert_extent_simple_def Let_def)
qed


section \<open>Witnesses\<close>

definition w_leaf_header :: "u16 \<Rightarrow> u16 \<Rightarrow> extent_header" where
  "w_leaf_header n m = header_new n m 0 0"

definition w_slots :: "bytes list" where
  "w_slots = [extent_to_bytes (extent_new 0 100 8), extent_to_bytes (extent_new 10 200 2)]"

definition w_leaf :: "u16 \<Rightarrow> u16 \<Rightarrow> bytes list \<Rightarrow> bytes" where
  "w_leaf n m ss = header_to_bytes (w_leaf_header n m) @ concat ss @ []"

lemma w_leaf_header_counts [simp]:
  "eh_entries_count (w_leaf_header n m) = n" "eh_max_entries_count (w_leaf_header n m) = m"
  by (simp_all add: w_leaf_header_def header_new_def)

lemma w_leaf_wf:
  "\<forall>s \<in> set ss. length s = 12 \<Longrightarrow> n \<le> m \<Longrightarrow> unat m \<le> length ss \<Longrightarrow>
   node_wf (w_leaf n m ss) (w_leaf_header n m) ss"
  unfolding w_leaf_def node_wf_def by (simp add: node_rep_concat del: append_Nil2)

lemma w_slots_12: "\<forall>s \<in> set w_slots. length s = 12"
  by (simp add: w_slots_def)

lemma w_leaf2: "node_wf (w_leaf 2 2 w_slots) (w_leaf_header 2 2) w_slots"
  by (rule w_leaf_wf [OF w_slots_12]) (simp_all add: w_slots_def)

lemma w_entries: "node_entries (w_leaf_header 2 2) w_slots = [extent_new 0 100 8, extent_new 10 200 2]"
  by (simp add: node_entries_def w_leaf_header_def header_new_def w_slots_def)

lemma w_sorted: "extents_sorted [extent_new 0 100 8, extent_new 10 200 2]"
  by (simp add: extents_sorted_def ex_end_def unat_ex_block_count ex_is_unwritten_def extent_new_def INIT_MAX_LEN_def)

lemma w_written: "\<forall>e \<in> set [extent_new 0 100 8, extent_new 10 200 2]. \<not> ex_is_unwritten e"
  by (simp add: ex_is_unwritten_def extent_new_def INIT_MAX_LEN_def)

theorem search_extent_witness:
  "search_extent (w_leaf 2 2 w_slots) 11 = Inr (Found 1)"
proof -
  obtain k where k: "search_extent (w_leaf 2 2 w_slots) 11 = Inr (Found k) \<or>
      search_extent (w_leaf 2 2 w_slots) 11 = Inr (NotFound k)"
    "search_extent (w_leaf 2 2 w_slots) 11 = Inr (Found k) \<longleftrightarrow>
       k < length [extent_new 0 100 8, extent_new 10 200 2] \<and>
       ex_covers ([extent_new 0 100 8, extent_new 10 200 2] ! k) 11 \<and>
       \<not> ex_is_unwritten ([extent_new 0 100 8, extent_new 10 200 2] ! k)"
    "(\<exists>e \<in> set [extent_new 0 100 8, extent_new 10 200 2]. ex_covers e 11) \<longleftrightarrow>
       k < length [extent_new 0 100 8, extent_new 10 200 2] \<and>
       ex_covers ([extent_new 0 100 8, extent_new 10 200 2] ! k) 11"
    using search_extent_correct [OF w_leaf2, of 11, unfolded w_entries, OF w_sorted] by blast
  have c: "ex_covers (extent_new 10 200 2) 11" "\<not> ex_covers (extent_new 0 100 8) 11"
    by (simp_all add: ex_covers_def ex_end_def unat_ex_block_count ex_is_unwritten_def extent_new_def INIT_MAX_LEN_def)
  then have "k = 1" using k(3) by (cases k) (auto simp: less_Suc_eq numeral_2_eq_2)
  then show ?thesis using k(2) c(1) w_written by simp
qed

theorem insert_extent_refines_witness:
  "\<exists>raw' fs h' ss'. insert_extent (w_leaf 2 2 w_slots) (extent_new 8 300 2) 1 = Inr (raw', Some fs) \<and>
     node_wf raw' h' ss' \<and> node_entries h' ss' @ map fake_to_extent fs =
       [extent_new 0 100 8, extent_new 8 300 2, extent_new 10 200 2]"
proof -
  from insert_extent_refines [OF w_leaf2, of 1 "extent_new 8 300 2"] w_written obtain raw' split h' ss' where
    i: "insert_extent (w_leaf 2 2 w_slots) (extent_new 8 300 2) 1 = Inr (raw', split)" "node_wf raw' h' ss'"
    "split \<noteq> None" "node_entries h' ss' @ split_entries split =
       insert_at 1 (extent_new 8 300 2) [extent_new 0 100 8, extent_new 10 200 2]"
    by (auto simp: w_entries)
  then show ?thesis by (cases split) (auto simp: split_entries_def insert_at_def)
qed

theorem insert_extent_index_refines_witness:
  "\<exists>raw' split h' ss'. insert_extent_index (w_leaf 0 2 w_slots) (extent_index_new 5 77) 0 = Inr (raw', split) \<and>
     node_wf raw' h' ss' \<and> split = None \<and> index_entries h' ss' = [extent_index_new 5 77]"
proof -
  have w: "node_wf (w_leaf 0 2 w_slots) (w_leaf_header 0 2) w_slots"
    by (rule w_leaf_wf [OF w_slots_12]) (simp_all add: w_slots_def)
  have e: "index_entries (w_leaf_header 0 2) w_slots = []"
    by (simp add: index_entries_def w_leaf_header_def header_new_def)
  from insert_extent_index_refines [OF w, of 0 "extent_index_new 5 77"] show ?thesis
    by (fastforce simp: e insert_at_def split_indices_def)
qed

theorem insert_extent_maps_hole_witness:
  "\<exists>raw' split h' ss'. insert_extent (w_leaf 2 2 w_slots) (extent_new 8 300 2) 1 = Inr (raw', split) \<and>
     node_wf raw' h' ss' \<and> extents_sorted (node_entries h' ss' @ split_entries split)"
proof -
  have r: "node_rep (w_leaf 2 2 w_slots) (w_leaf_header 2 2) w_slots" using w_leaf2 by (simp add: node_wf_def)
  have n: "node_header (w_leaf 2 2 w_slots) = Inr (w_leaf_header 2 2)" using r by (simp add: node_rep_def)
  have x: "extent_at (w_leaf 2 2 w_slots) 0 = Inr (extent_new 0 100 8)"
    "extent_at (w_leaf 2 2 w_slots) 1 = Inr (extent_new 10 200 2)"
    using node_rep_extent(1) [OF r, of 0] node_rep_extent(1) [OF r, of 1] by (simp_all add: w_slots_def)
  have "search_extent (w_leaf 2 2 w_slots) 8 = Inr (NotFound 1)"
    unfolding search_extent_def n
    by (subst search_extent_loop.simps,
        simp add: w_leaf_header_def header_new_def x add_chk_def ex_block_count_def extent_new_def INIT_MAX_LEN_def,
        subst search_extent_loop.simps,
        simp add: x [unfolded One_nat_def] extent_new_def)
  then have "search_extent (w_leaf 2 2 w_slots) (ex_first_block (extent_new 8 300 2)) = Inr (NotFound 1)"
    by (simp add: extent_new_def)
  from insert_extent_maps_hole [OF w_leaf2 _ this] w_sorted w_written show ?thesis
    by (fastforce simp: w_entries ex_end_def unat_ex_block_count ex_is_unwritten_def extent_new_def INIT_MAX_LEN_def)
qed

theorem insert_extent_full_unwritten_out_of_bounds_witness:
  "insert_extent (w_leaf 1 1 [extent_to_bytes (extent_new 0 100 32770)]) (extent_new 8 300 2) 1 = Inl Panic"
proof -
  let ?ss = "[extent_to_bytes (extent_new 0 100 32770)]"
  have w: "node_wf (w_leaf 1 1 ?ss) (w_leaf_header 1 1) ?ss"
    by (rule w_leaf_wf) simp_all
  have e: "node_entries (w_leaf_header 1 1) ?ss = [extent_new 0 100 32770]"
    by (simp add: node_entries_def w_leaf_header_def header_new_def)
  have u: "ex_is_unwritten (extent_new 0 100 32770)"
    by (simp add: ex_is_unwritten_def extent_new_def INIT_MAX_LEN_def)
  have l: "length (w_leaf 1 1 ?ss) = 24" by (simp add: w_leaf_def)
  show ?thesis
    using insert_extent_full_unwritten_out_of_bounds [OF w, of "extent_new 8 300 2"] u l by (simp add: e)
qed

end
