(* ===== verification/Inode.thy ===== *)
theory Inode
  imports Extent_Node Super_Block
begin

text \<open>
  Inodes, \<^verbatim>\<open>src/ext4_defs/inode.rs\<close>, and the file types of \<^verbatim>\<open>src/ext4_defs/mod.rs\<close>: the 256-byte
  \<^verbatim>\<open>#[repr(C)]\<close> structure field by field and its byte image, the mode bits, the values stored in a
  low and a high half (owner, group, size, block count, extended attribute block), device
  numbers in \<^verbatim>\<open>i_block\<close>, and the inode checksum. Split values are interpretations of
  \<open>field_store\<close>, the checksum of \<open>sealed\<close>.
\<close>

section \<open>File types and modes\<close>

datatype FileType = Unknown | RegularFile | Directory | CharacterDev | BlockDev | Fifo | Socket | SymLink

text \<open>\<open>InodeMode\<close> is a set of bit flags in a \<open>u16\<close>. The declared flags cover all sixteen bits, so
  \<^verbatim>\<open>from_bits_truncate\<close> keeps every bit.\<close>

type_synonym InodeMode = u16

definition PERM_MASK :: InodeMode where "PERM_MASK = 0xFFF"
definition TYPE_MASK :: InodeMode where "TYPE_MASK = 0xF000"

fun mode_of_type :: "FileType \<Rightarrow> InodeMode" where
  "mode_of_type RegularFile = 0x8000"
| "mode_of_type Directory = 0x4000"
| "mode_of_type CharacterDev = 0x2000"
| "mode_of_type BlockDev = 0x6000"
| "mode_of_type Fifo = 0x1000"
| "mode_of_type Socket = 0xC000"
| "mode_of_type SymLink = 0xA000"
| "mode_of_type Unknown = 0x8000"

definition from_type_and_perm :: "FileType \<Rightarrow> InodeMode \<Rightarrow> InodeMode" where
  "from_type_and_perm file_type perm = mode_of_type file_type OR (perm AND PERM_MASK)"

definition mode_perm :: "InodeMode \<Rightarrow> InodeMode" where
  "mode_perm m = m AND PERM_MASK"

definition mode_file_type :: "InodeMode \<Rightarrow> FileType" where
  "mode_file_type m =
     (let t = m AND TYPE_MASK in
      if t = 0x2000 then CharacterDev else if t = 0x4000 then Directory
      else if t = 0x6000 then BlockDev else if t = 0x8000 then RegularFile
      else if t = 0x1000 then Fifo else if t = 0xC000 then Socket
      else if t = 0xA000 then SymLink else Unknown)"

section \<open>The structure\<close>

record linux2 =
  l_blocks_hi :: u16
  l_file_acl_hi :: u16
  l_uid_hi :: u16
  l_gid_hi :: u16
  l_checksum_lo :: u16
  l_reserved :: u16

record inode =
  i_mode :: u16
  i_uid :: u16
  i_size :: u32
  i_atime :: u32
  i_ctime :: u32
  i_mtime :: u32
  i_dtime :: u32
  i_gid :: u16
  i_link_count :: u16
  i_block_count :: u32
  i_flags :: u32
  i_osd1 :: u32
  i_block :: bytes
  i_generation :: u32
  i_file_acl :: u32
  i_size_hi :: u32
  i_faddr :: u32
  i_osd2 :: linux2
  i_extra_isize :: u16
  i_checksum_hi :: u16
  i_ctime_extra :: u32
  i_mtime_extra :: u32
  i_atime_extra :: u32
  i_crtime :: u32
  i_crtime_extra :: u32
  i_version_hi :: u32
  i_projid :: u32
  i_padding :: bytes

text \<open>The lengths Rust's array types guarantee.\<close>

definition inode_wf :: "inode \<Rightarrow> bool" where
  "inode_wf n \<longleftrightarrow> length (i_block n) = 60 \<and> length (i_padding n) = 96"

definition inode_default :: inode where
  "inode_default =
     \<lparr>i_mode = 0, i_uid = 0, i_size = 0, i_atime = 0, i_ctime = 0, i_mtime = 0, i_dtime = 0,
     i_gid = 0, i_link_count = 0, i_block_count = 0, i_flags = 0, i_osd1 = 0,
     i_block = replicate 60 0, i_generation = 0, i_file_acl = 0, i_size_hi = 0, i_faddr = 0,
     i_osd2 = \<lparr>l_blocks_hi = 0, l_file_acl_hi = 0, l_uid_hi = 0, l_gid_hi = 0,
       l_checksum_lo = 0, l_reserved = 0\<rparr>,
     i_extra_isize = 32, i_checksum_hi = 0, i_ctime_extra = 0, i_mtime_extra = 0,
     i_atime_extra = 0, i_crtime = 0, i_crtime_extra = 0, i_version_hi = 0, i_projid = 0,
     i_padding = replicate 96 0\<rparr>"

definition inode_to_bytes :: "inode \<Rightarrow> bytes" where
  "inode_to_bytes n =
     le16 (i_mode n) @ le16 (i_uid n) @ le32 (i_size n) @ le32 (i_atime n) @ le32 (i_ctime n) @
     le32 (i_mtime n) @ le32 (i_dtime n) @ le16 (i_gid n) @ le16 (i_link_count n) @
     le32 (i_block_count n) @ le32 (i_flags n) @ le32 (i_osd1 n) @ i_block n @
     le32 (i_generation n) @ le32 (i_file_acl n) @ le32 (i_size_hi n) @ le32 (i_faddr n) @
     le16 (l_blocks_hi (i_osd2 n)) @ le16 (l_file_acl_hi (i_osd2 n)) @
     le16 (l_uid_hi (i_osd2 n)) @ le16 (l_gid_hi (i_osd2 n)) @ le16 (l_checksum_lo (i_osd2 n)) @
     le16 (l_reserved (i_osd2 n)) @ le16 (i_extra_isize n) @ le16 (i_checksum_hi n) @
     le32 (i_ctime_extra n) @ le32 (i_mtime_extra n) @ le32 (i_atime_extra n) @
     le32 (i_crtime n) @ le32 (i_crtime_extra n) @ le32 (i_version_hi n) @ le32 (i_projid n) @
     i_padding n"

definition inode_from_bytes :: "bytes \<Rightarrow> inode res" where
  "inode_from_bytes bs0 =
     (if length bs0 < 256 then Inl Panic else Inr (
       rd 2 of_le bs0 (\<lambda>v_mode bs. rd 2 of_le bs (\<lambda>v_uid bs.
       rd 4 of_le bs (\<lambda>v_size bs. rd 4 of_le bs (\<lambda>v_atime bs.
       rd 4 of_le bs (\<lambda>v_ctime bs. rd 4 of_le bs (\<lambda>v_mtime bs.
       rd 4 of_le bs (\<lambda>v_dtime bs. rd 2 of_le bs (\<lambda>v_gid bs.
       rd 2 of_le bs (\<lambda>v_link_count bs. rd 4 of_le bs (\<lambda>v_block_count bs.
       rd 4 of_le bs (\<lambda>v_flags bs. rd 4 of_le bs (\<lambda>v_osd1 bs.
       rd 60 id bs (\<lambda>v_block bs. rd 4 of_le bs (\<lambda>v_generation bs.
       rd 4 of_le bs (\<lambda>v_file_acl bs. rd 4 of_le bs (\<lambda>v_size_hi bs.
       rd 4 of_le bs (\<lambda>v_faddr bs. rd 2 of_le bs (\<lambda>v_l_blocks_hi bs.
       rd 2 of_le bs (\<lambda>v_l_file_acl_hi bs. rd 2 of_le bs (\<lambda>v_l_uid_hi bs.
       rd 2 of_le bs (\<lambda>v_l_gid_hi bs. rd 2 of_le bs (\<lambda>v_l_checksum_lo bs.
       rd 2 of_le bs (\<lambda>v_l_reserved bs. rd 2 of_le bs (\<lambda>v_extra_isize bs.
       rd 2 of_le bs (\<lambda>v_checksum_hi bs. rd 4 of_le bs (\<lambda>v_ctime_extra bs.
       rd 4 of_le bs (\<lambda>v_mtime_extra bs. rd 4 of_le bs (\<lambda>v_atime_extra bs.
       rd 4 of_le bs (\<lambda>v_crtime bs. rd 4 of_le bs (\<lambda>v_crtime_extra bs.
       rd 4 of_le bs (\<lambda>v_version_hi bs. rd 4 of_le bs (\<lambda>v_projid bs.
       \<lparr>i_mode = v_mode, i_uid = v_uid, i_size = v_size, i_atime = v_atime, i_ctime = v_ctime,
        i_mtime = v_mtime, i_dtime = v_dtime, i_gid = v_gid, i_link_count = v_link_count,
        i_block_count = v_block_count, i_flags = v_flags, i_osd1 = v_osd1, i_block = v_block,
        i_generation = v_generation, i_file_acl = v_file_acl, i_size_hi = v_size_hi,
        i_faddr = v_faddr,
        i_osd2 = \<lparr>l_blocks_hi = v_l_blocks_hi, l_file_acl_hi = v_l_file_acl_hi,
          l_uid_hi = v_l_uid_hi, l_gid_hi = v_l_gid_hi,
          l_checksum_lo = v_l_checksum_lo, l_reserved = v_l_reserved\<rparr>,
        i_extra_isize = v_extra_isize, i_checksum_hi = v_checksum_hi,
        i_ctime_extra = v_ctime_extra, i_mtime_extra = v_mtime_extra,
        i_atime_extra = v_atime_extra, i_crtime = v_crtime, i_crtime_extra = v_crtime_extra,
        i_version_hi = v_version_hi, i_projid = v_projid, i_padding = take 96 bs\<rparr>))))))))))))))))))))))))))))))))))"

section \<open>Accessors\<close>

definition FLAG_EXTENTS :: u32 where "FLAG_EXTENTS = 0x00080000"

definition inode_mode :: "inode \<Rightarrow> InodeMode" where
  "inode_mode n = i_mode n"

definition inode_set_mode :: "InodeMode \<Rightarrow> inode \<Rightarrow> inode" where
  "inode_set_mode m n = n\<lparr>i_mode := m\<rparr>"

definition inode_file_type :: "inode \<Rightarrow> FileType" where
  "inode_file_type n = mode_file_type (inode_mode n)"

definition inode_is_file :: "inode \<Rightarrow> bool" where
  "inode_is_file n \<longleftrightarrow> inode_file_type n = RegularFile"

definition inode_is_dir :: "inode \<Rightarrow> bool" where
  "inode_is_dir n \<longleftrightarrow> inode_file_type n = Directory"

definition inode_is_softlink :: "inode \<Rightarrow> bool" where
  "inode_is_softlink n \<longleftrightarrow> inode_file_type n = SymLink"

definition inode_is_device :: "inode \<Rightarrow> bool" where
  "inode_is_device n \<longleftrightarrow> inode_file_type n \<in> {CharacterDev, BlockDev}"

definition inode_uid :: "inode \<Rightarrow> u32" where
  "inode_uid n = ucast (i_uid n) OR push_bit 16 (ucast (l_uid_hi (i_osd2 n)))"

definition inode_set_uid :: "u32 \<Rightarrow> inode \<Rightarrow> inode" where
  "inode_set_uid uid n =
     n\<lparr>i_uid := ucast uid, i_osd2 := (i_osd2 n)\<lparr>l_uid_hi := ucast (drop_bit 16 uid)\<rparr>\<rparr>"

definition inode_gid :: "inode \<Rightarrow> u32" where
  "inode_gid n = ucast (i_gid n) OR push_bit 16 (ucast (l_gid_hi (i_osd2 n)))"

definition inode_set_gid :: "u32 \<Rightarrow> inode \<Rightarrow> inode" where
  "inode_set_gid gid n =
     n\<lparr>i_gid := ucast gid, i_osd2 := (i_osd2 n)\<lparr>l_gid_hi := ucast (drop_bit 16 gid)\<rparr>\<rparr>"

definition inode_size :: "inode \<Rightarrow> u64" where
  "inode_size n = ucast (i_size n) OR push_bit 32 (ucast (i_size_hi n))"

definition inode_set_size :: "u64 \<Rightarrow> inode \<Rightarrow> inode" where
  "inode_set_size sz n =
     n\<lparr>i_size := ucast (drop_bit 32 (push_bit 32 sz)), i_size_hi := ucast (drop_bit 32 sz)\<rparr>"

definition next_orphan :: "inode \<Rightarrow> InodeId" where
  "next_orphan n = i_dtime n"

definition set_next_orphan :: "InodeId \<Rightarrow> inode \<Rightarrow> inode" where
  "set_next_orphan next_ino n = n\<lparr>i_dtime := next_ino\<rparr>"

text \<open>Blocks of 512 bytes, and blocks of the file system; the products are checked.\<close>

definition inode_block_count :: "inode \<Rightarrow> u64" where
  "inode_block_count n = ucast (i_block_count n) OR push_bit 32 (ucast (l_blocks_hi (i_osd2 n)))"

definition inode_set_block_count :: "u64 \<Rightarrow> inode \<Rightarrow> inode" where
  "inode_set_block_count cnt n =
     n\<lparr>i_block_count := ucast cnt, i_osd2 := (i_osd2 n)\<lparr>l_blocks_hi := ucast (drop_bit 32 cnt)\<rparr>\<rparr>"

definition inode_fs_block_count :: "inode \<Rightarrow> u64 res" where
  "inode_fs_block_count n =
     (let k = unat (inode_block_count n) * INODE_BLOCK_SIZE in
      if k < 2 ^ 64 then Inr (word_of_nat (k div BLOCK_SIZE)) else Inl Panic)"

definition inode_set_fs_block_count :: "u64 \<Rightarrow> inode \<Rightarrow> inode res" where
  "inode_set_fs_block_count cnt n =
     (let k = unat cnt * BLOCK_SIZE in
      if k < 2 ^ 64 then Inr (inode_set_block_count (word_of_nat (k div INODE_BLOCK_SIZE)) n) else Inl Panic)"

definition uses_extents :: "inode \<Rightarrow> bool" where
  "uses_extents n \<longleftrightarrow> i_flags n AND FLAG_EXTENTS \<noteq> 0"

definition inode_set_flags :: "u32 \<Rightarrow> inode \<Rightarrow> inode" where
  "inode_set_flags f n = n\<lparr>i_flags := i_flags n OR f\<rparr>"

definition xattr_block :: "inode \<Rightarrow> PBlockId" where
  "xattr_block n = push_bit 32 (ucast (l_file_acl_hi (i_osd2 n))) OR ucast (i_file_acl n)"

definition set_xattr_block :: "PBlockId \<Rightarrow> inode \<Rightarrow> inode" where
  "set_xattr_block b n =
     n\<lparr>i_file_acl := ucast b, i_osd2 := (i_osd2 n)\<lparr>l_file_acl_hi := ucast (drop_bit 32 b)\<rparr>\<rparr>"

definition extent_init :: "inode \<Rightarrow> inode res" where
  "extent_init n =
     (let n = inode_set_flags FLAG_EXTENTS n in
      rbind (node_init (i_block n) 0 0) (\<lambda>blk. Inr (n\<lparr>i_block := blk\<rparr>)))"

section \<open>Device numbers\<close>

definition old_valid_dev :: "u32 \<Rightarrow> u32 \<Rightarrow> bool" where
  "old_valid_dev major minor \<longleftrightarrow> major < 256 \<and> minor < 256"

definition old_encode_dev :: "u32 \<Rightarrow> u32 \<Rightarrow> u32" where
  "old_encode_dev major minor = push_bit 8 (major AND 0xff) OR (minor AND 0xff)"

definition old_decode_dev :: "u32 \<Rightarrow> u32 \<times> u32" where
  "old_decode_dev dev = (drop_bit 8 dev AND 0xff, dev AND 0xff)"

definition new_encode_dev :: "u32 \<Rightarrow> u32 \<Rightarrow> u32" where
  "new_encode_dev major minor =
     (minor AND 0xff) OR push_bit 8 major OR push_bit 12 (minor AND NOT 0xff)"

definition new_decode_dev :: "u32 \<Rightarrow> u32 \<times> u32" where
  "new_decode_dev dev =
     (drop_bit 8 (dev AND 0xfff00), (dev AND 0xff) OR (drop_bit 12 dev AND 0xfff00))"

definition inode_device :: "inode \<Rightarrow> u32 \<times> u32" where
  "inode_device n =
     (let block0 = of_le (slice (i_block n) 0 4); block1 = of_le (slice (i_block n) 4 4) in
      if block0 \<noteq> 0 then old_decode_dev block0 else new_decode_dev block1)"

definition inode_set_device :: "u32 \<Rightarrow> u32 \<Rightarrow> inode \<Rightarrow> inode" where
  "inode_set_device major minor n =
     (let blk = replicate (length (i_block n)) 0 in
      if old_valid_dev major minor
      then n\<lparr>i_block := splice blk 0 (le32 (old_encode_dev major minor))\<rparr>
      else n\<lparr>i_block := splice blk 4 (le32 (new_encode_dev major minor))\<rparr>)"

section \<open>Checksum\<close>

record inode_ref =
  ir_id :: InodeId
  ir_inode :: inode

definition ir_checksum :: "inode_ref \<Rightarrow> u32" where
  "ir_checksum r =
     ucast (l_checksum_lo (i_osd2 (ir_inode r))) OR push_bit 16 (ucast (i_checksum_hi (ir_inode r)))"

definition ir_calculated_checksum :: "MetadataChecksumSeed \<Rightarrow> inode_ref \<Rightarrow> u32" where
  "ir_calculated_checksum seed r =
     (let n = (ir_inode r)\<lparr>i_osd2 := (i_osd2 (ir_inode r))\<lparr>l_checksum_lo := 0\<rparr>, i_checksum_hi := 0\<rparr>;
          csum = seed_crc32c seed (le32 (ir_id r));
          csum = crc32 csum (le32 (i_generation n)) in
      crc32 csum (inode_to_bytes n))"

definition ir_set_checksum :: "MetadataChecksumSeed \<Rightarrow> inode_ref \<Rightarrow> inode_ref" where
  "ir_set_checksum seed r =
     (let csum = ir_calculated_checksum seed r; n = ir_inode r in
      r\<lparr>ir_inode := n\<lparr>i_osd2 := (i_osd2 n)\<lparr>l_checksum_lo := ucast csum\<rparr>,
                     i_checksum_hi := ucast (drop_bit 16 csum)\<rparr>\<rparr>)"

definition ir_verify_checksum :: "MetadataChecksumSeed \<Rightarrow> inode_ref \<Rightarrow> bool" where
  "ir_verify_checksum seed r \<longleftrightarrow> ir_checksum r = ir_calculated_checksum seed r"

section \<open>Modes\<close>

lemma mode_type_bits: "mode_of_type t AND TYPE_MASK = mode_of_type t" "mode_of_type t AND PERM_MASK = 0"
  by (cases t; simp add: TYPE_MASK_def PERM_MASK_def)+

lemma perm_type_disjoint: "(p AND PERM_MASK) AND TYPE_MASK = 0"
proof -
  have "PERM_MASK AND TYPE_MASK = 0" by (simp add: TYPE_MASK_def PERM_MASK_def)
  then show ?thesis by (simp add: and.assoc)
qed

lemma mode_file_type_of_type: "t \<noteq> Unknown \<Longrightarrow> mode_file_type (mode_of_type t OR (p AND PERM_MASK)) = t"
proof -
  assume t: "t \<noteq> Unknown"
  have "(mode_of_type t OR (p AND PERM_MASK)) AND TYPE_MASK = mode_of_type t"
    by (simp add: bit.conj_disj_distrib2 perm_type_disjoint mode_type_bits)
  then show ?thesis using t by (cases t) (simp_all add: mode_file_type_def)
qed

section \<open>Byte image\<close>

lemma length_inode_to_bytes [simp]: "inode_wf n \<Longrightarrow> length (inode_to_bytes n) = 256"
  by (simp add: inode_to_bytes_def inode_wf_def)

lemma inode_roundtrip:
  assumes "inode_wf n"
  shows "inode_from_bytes (inode_to_bytes n) = Inr n"
proof -
  have l: "\<not> length (inode_to_bytes n) < 256" using assms by simp
  show ?thesis
    using assms l unfolding inode_from_bytes_def inode_wf_def
    by (simp add: inode_to_bytes_def rd_bytes)
qed

section \<open>Values in two halves\<close>

lemma join_split48:
  assumes "unat (v :: u64) < 2 ^ 48"
  shows "ucast (ucast v :: u32) OR push_bit 32 (ucast (ucast (drop_bit 32 v) :: u16)) = v"
proof (rule bit_word_eqI)
  fix n assume "n < LENGTH(64)"
  have "\<not> bit v n" if "\<not> n < 48" using unat_lt_bit [OF assms, of n] that by simp
  then show "bit (ucast (ucast v :: u32) OR push_bit 32 (ucast (ucast (drop_bit 32 v) :: u16)) :: u64) n = bit v n"
    by (cases "n < 48") (auto simp: bit_simps)
qed

lemma split_join48:
  "ucast (ucast (lo :: u32) OR push_bit 32 (ucast (hi :: u16)) :: u64) = lo"
  "ucast (drop_bit 32 (ucast (lo :: u32) OR push_bit 32 (ucast (hi :: u16)) :: u64)) = hi"
  by (rule bit_word_eqI; auto simp: bit_simps dest: bit_imp_le_length)+

interpretation uid: field inode_uid inode_set_uid
proof unfold_locales
  show "inode_uid (inode_set_uid v n) = v" for v n
    by (simp add: inode_uid_def inode_set_uid_def join_split16)
  show "inode_set_uid (inode_uid n) n = n" for n
    by (simp only: inode_uid_def inode_set_uid_def split_join16) simp
qed (simp add: inode_set_uid_def)

interpretation gid: field inode_gid inode_set_gid
proof unfold_locales
  show "inode_gid (inode_set_gid v n) = v" for v n
    by (simp add: inode_gid_def inode_set_gid_def join_split16)
  show "inode_set_gid (inode_gid n) n = n" for n
    by (simp only: inode_gid_def inode_set_gid_def split_join16) simp
qed (simp add: inode_set_gid_def)

interpretation isize: field inode_size inode_set_size
proof unfold_locales
  show "inode_size (inode_set_size v n) = v" for v n
    by (simp only: inode_size_def inode_set_size_def low_half) (simp add: join_split32)
  show "inode_set_size (inode_size n) n = n" for n
    by (simp only: inode_size_def inode_set_size_def low_half split_join32) simp
qed (simp add: inode_set_size_def)

interpretation iblocks: field_store inode_block_count inode_set_block_count "\<lambda>v. unat v < 2 ^ 48"
proof unfold_locales
  show "inode_block_count (inode_set_block_count v n) = v" if "unat v < 2 ^ 48" for v n
    by (simp add: inode_block_count_def inode_set_block_count_def join_split48 [OF that])
  show "inode_set_block_count (inode_block_count n) n = n" for n
    by (simp only: inode_block_count_def inode_set_block_count_def split_join48) simp
qed (simp add: inode_set_block_count_def)

interpretation acl: field_store xattr_block set_xattr_block "\<lambda>v. unat v < 2 ^ 48"
proof unfold_locales
  show "xattr_block (set_xattr_block v n) = v" if "unat v < 2 ^ 48" for v n
    using join_split48 [OF that] by (simp add: xattr_block_def set_xattr_block_def or.commute)
  show "set_xattr_block (xattr_block n) n = n" for n
    by (simp only: xattr_block_def set_xattr_block_def or.commute [of "push_bit 32 _"] split_join48) simp
qed (simp add: set_xattr_block_def)

lemma fs_block_count_roundtrip:
  assumes "unat cnt * 8 < 2 ^ 48"
  shows "\<exists>n'. inode_set_fs_block_count cnt n = Inr n' \<and> inode_fs_block_count n' = Inr cnt"
proof -
  obtain v :: u64 where v: "v = word_of_nat (unat cnt * 8)" by blast
  have u: "unat v = unat cnt * 8" unfolding v using assms by (intro unat_word_of_nat) simp
  have g: "inode_block_count (inode_set_block_count v n) = v"
    using assms u by (intro iblocks.get_put) simp
  have "inode_set_fs_block_count cnt n = Inr (inode_set_block_count v n)"
    using assms by (simp add: inode_set_fs_block_count_def BLOCK_SIZE_def INODE_BLOCK_SIZE_def v mult.commute)
  moreover have "inode_fs_block_count (inode_set_block_count v n) = Inr cnt"
    using assms u by (simp add: inode_fs_block_count_def g BLOCK_SIZE_def INODE_BLOCK_SIZE_def)
  ultimately show ?thesis by blast
qed

section \<open>Devices\<close>

lemma mask8: "(0xff :: u32) = mask 8" and mask12: "(0xfff00 :: u32) = push_bit 8 (mask 12)"
  by (simp_all add: mask_eq_exp_minus_1)

lemma old_dev_roundtrip: "old_valid_dev major minor \<Longrightarrow> old_decode_dev (old_encode_dev major minor) = (major, minor)"
proof -
  assume v: "old_valid_dev major minor"
  have u: "unat major < 2 ^ 8" "unat minor < 2 ^ 8"
    using v by (simp_all add: old_valid_dev_def word_less_nat_alt)
  have b: "bit major n \<Longrightarrow> n < 8" "bit minor n \<Longrightarrow> n < 8" for n
    using unat_lt_bit [OF u(1)] unat_lt_bit [OF u(2)] by (meson not_le)+
  have "drop_bit 8 (old_encode_dev major minor) AND 0xff = major"
    by (rule bit_word_eqI) (auto simp: old_encode_dev_def mask8 bit_simps dest: b)
  moreover have "old_encode_dev major minor AND 0xff = minor"
    by (rule bit_word_eqI) (auto simp: old_encode_dev_def mask8 bit_simps dest: b)
  ultimately show ?thesis by (simp add: old_decode_dev_def)
qed

lemma new_dev_roundtrip:
  assumes "unat major < 2 ^ 12" "unat minor < 2 ^ 20"
  shows "new_decode_dev (new_encode_dev major minor) = (major, minor)"
proof -
  have b: "bit major n \<Longrightarrow> n < 12" "bit minor n \<Longrightarrow> n < 20" for n
    using unat_lt_bit [OF assms(1)] unat_lt_bit [OF assms(2)] by (meson not_le)+
  have "drop_bit 8 (new_encode_dev major minor AND 0xfff00) = major"
    by (rule bit_word_eqI) (auto simp: new_encode_dev_def mask8 mask12 bit_simps dest: b)
  moreover have "(new_encode_dev major minor AND 0xff) OR (drop_bit 12 (new_encode_dev major minor) AND 0xfff00) = minor"
    by (rule bit_word_eqI) (auto simp: new_encode_dev_def mask8 mask12 bit_simps dest: b)
  ultimately show ?thesis by (simp add: new_decode_dev_def)
qed

lemma old_encode_zero: "old_valid_dev major minor \<Longrightarrow> old_encode_dev major minor = 0 \<Longrightarrow> major = 0 \<and> minor = 0"
  using old_dev_roundtrip [of major minor] by (simp add: old_decode_dev_def)

lemma of_le_zeros [simp]: "of_le (replicate k 0) = 0"
  by (induction k) auto

lemma device_roundtrip:
  assumes l: "length (i_block n) = 60" and f: "unat major < 2 ^ 12" "unat minor < 2 ^ 20"
  shows "inode_device (inode_set_device major minor n) = (major, minor)"
proof (cases "old_valid_dev major minor")
  case True
  have s: "slice (splice (replicate 60 0) 0 (le32 x)) 0 4 = le32 x"
    "slice (splice (replicate 60 0) 0 (le32 x)) 4 4 = replicate 4 0" for x
    by (simp_all add: slice_splice_disjoint) (simp add: slice_def)
  show ?thesis
    using old_dev_roundtrip [OF True] old_encode_zero [OF True] l True
    by (cases "old_encode_dev major minor = 0")
       (simp_all add: inode_device_def inode_set_device_def s new_decode_dev_def Let_def)
next
  case False
  have s: "slice (splice (replicate 60 0) 4 (le32 x)) 4 4 = le32 x"
    "slice (splice (replicate 60 0) 4 (le32 x)) 0 4 = replicate 4 0" for x
    by (simp_all add: slice_splice_disjoint) (simp add: slice_def)
  show ?thesis
    using new_dev_roundtrip [OF f] l False
    by (simp add: inode_device_def inode_set_device_def s del: of_le.simps)
qed

section \<open>Checksum\<close>

interpretation ir_seal: sealed "\<lambda>_. True" "ir_set_checksum seed" "ir_verify_checksum seed"
    ir_checksum "ir_calculated_checksum seed" for seed
proof unfold_locales
  show "ir_checksum (ir_set_checksum seed s) = ir_calculated_checksum seed s" for s
    by (simp add: ir_checksum_def ir_set_checksum_def Let_def join_split16)
  show "ir_calculated_checksum seed (ir_set_checksum seed s) = ir_calculated_checksum seed s" for s
    by (simp add: ir_calculated_checksum_def ir_set_checksum_def Let_def)
  show "ir_set_checksum seed s = s" if "ir_checksum s = ir_calculated_checksum seed s" for s
    by (simp only: ir_set_checksum_def Let_def that [symmetric])
       (simp only: ir_checksum_def split_join16, simp)
qed (auto simp: ir_verify_checksum_def)

section \<open>Properties\<close>

text \<open>Inode images are 256 bytes and decode to the inode they were written from, and sealing
  an inode for the table slot of its number makes it verify there; sealing again changes nothing.\<close>

theorem inode_seal_roundtrip:
  assumes "inode_wf (ir_inode r)"
  shows "inode_from_bytes (inode_to_bytes (ir_inode (ir_set_checksum seed r))) = Inr (ir_inode (ir_set_checksum seed r)) \<and>
    length (inode_to_bytes (ir_inode r)) = 256 \<and>
    ir_verify_checksum seed (ir_set_checksum seed r) \<and>
    ir_set_checksum seed (ir_set_checksum seed r) = ir_set_checksum seed r"
proof -
  have "inode_wf (ir_inode (ir_set_checksum seed r))"
    using assms by (simp add: inode_wf_def ir_set_checksum_def Let_def)
  then show ?thesis using assms by (simp add: inode_roundtrip ir_seal.verify_seal ir_seal.seal_idem)
qed

text \<open>The mode built from a type and permissions reads back as that type and those permissions
  (their low twelve bits).\<close>

theorem mode_roundtrip:
  "(t \<noteq> Unknown \<longrightarrow> mode_file_type (from_type_and_perm t p) = t) \<and>
   mode_perm (from_type_and_perm t p) = p AND PERM_MASK"
  by (simp add: from_type_and_perm_def mode_file_type_of_type mode_perm_def bit.conj_disj_distrib2
      mode_type_bits and.assoc)

text \<open>Device numbers. Every number with a 12-bit major and a 20-bit minor, in the old or the
  new encoding, is read back as it was written.\<close>

theorem inode_device_roundtrip:
  assumes "inode_wf n" "unat major < 2 ^ 12" "unat minor < 2 ^ 20"
  shows "inode_device (inode_set_device major minor n) = (major, minor) \<and> inode_wf (inode_set_device major minor n)"
  using device_roundtrip [of n major minor] assms by (simp add: inode_wf_def inode_set_device_def Let_def)

text \<open>\<open>extent_init\<close> gives every inode a consistent, empty extent root with room for four
  entries, marks it as using extents and touches nothing else.\<close>

theorem extent_init_root:
  assumes "inode_wf n"
  shows "\<exists>n' h ss. extent_init n = Inr n' \<and> inode_wf n' \<and> uses_extents n' \<and>
    node_wf (i_block n') h ss \<and> eh_depth h = 0 \<and> header_check_magic h \<and> eh_max_entries_count h = 4 \<and> node_entries h ss = [] \<and>
    n' = n\<lparr>i_flags := i_flags n OR FLAG_EXTENTS, i_block := i_block n'\<rparr>"
proof -
  let ?h = "header_new 0 4 0 0"
  let ?b = "splice (i_block n) 0 (header_to_bytes ?h)" and ?ss = "node_slots (i_block n) 4"
  have l: "length (i_block n) = 60" using assms by (simp add: inode_wf_def)
  then have i: "node_init (i_block n) 0 0 = Inr ?b"
    by (simp add: node_init_def usize_sub_def node_set_header_def)
  have r0: "node_rep (i_block n) (header_from_bytes (slice (i_block n) 0 12)) ?ss"
    using l by (simp add: node_rep_def node_header_def)
  have "node_set_header (i_block n) ?h = Inr ?b" using l by (simp add: node_set_header_def)
  with node_rep_set_header [OF r0, of ?h] have r: "node_rep ?b ?h ?ss" by auto
  have u: "(x OR FLAG_EXTENTS) AND FLAG_EXTENTS \<noteq> 0" for x
    by (simp add: bit.conj_disj_distrib2) (simp add: FLAG_EXTENTS_def bit_eq_iff [of _ 0] bit_simps exI [of _ 19])
  let ?n = "n\<lparr>i_flags := i_flags n OR FLAG_EXTENTS, i_block := ?b\<rparr>"
  have "extent_init n = Inr ?n" using i by (simp add: extent_init_def inode_set_flags_def)
  moreover have "node_wf ?b ?h ?ss" using r by (simp add: node_wf_def header_new_def)
  moreover have "inode_wf ?n" using assms l by (simp add: inode_wf_def)
  moreover have "uses_extents ?n" using u by (simp add: uses_extents_def)
  ultimately show ?thesis
    by (intro exI [of _ ?n] exI [of _ ?h] exI [of _ ?ss])
       (simp add: header_new_def node_entries_def header_check_magic_def)
qed

section \<open>Witnesses\<close>

lemma inode_default_wf: "inode_wf inode_default"
  by (simp add: inode_wf_def inode_default_def)

theorem inode_seal_roundtrip_witness:
  "ir_verify_checksum 7 (ir_set_checksum 7 \<lparr>ir_id = 12, ir_inode = inode_default\<rparr>)"
  using inode_seal_roundtrip [of "\<lparr>ir_id = 12, ir_inode = inode_default\<rparr>" 7] inode_default_wf by simp

theorem mode_roundtrip_witness: "mode_file_type (from_type_and_perm Directory 0x1ED) = Directory"
  using mode_roundtrip [of Directory "0x1ED"] by simp

theorem inode_device_roundtrip_witness: "inode_device (inode_set_device 259 1000 inode_default) = (259, 1000)"
  using inode_device_roundtrip [OF inode_default_wf, of 259 1000] by simp

theorem extent_init_root_witness: "\<exists>n'. extent_init inode_default = Inr n' \<and> uses_extents n'"
  using extent_init_root [OF inode_default_wf] by blast

end
