(* ===== verification/Dir_Block.thy ===== *)
theory Dir_Block
  imports Block_Device Inode
begin

text \<open>
  Directory blocks, \<^verbatim>\<open>src/ext4_defs/dir.rs\<close>: directory entries, the checksum tail, validation of
  linear and htree blocks, and lookup, listing, insertion, removal and replacement of entries.
  The walks over a block advance by the \<open>rec_len\<close> field they read; on a block with a zero
  \<open>rec_len\<close> they run forever, so they are partial functions whose value \<open>None\<close> stands for a run
  that does not end. The lemmas show that on every block \<open>validate_leaf\<close> accepts they end without
  a panic, and that they implement lookup and update of the list of names in the block.
\<close>

section \<open>Entries\<close>

fun file_type_code :: "FileType \<Rightarrow> u8" where
  "file_type_code Unknown = 0"
| "file_type_code RegularFile = 1"
| "file_type_code Directory = 2"
| "file_type_code CharacterDev = 3"
| "file_type_code BlockDev = 4"
| "file_type_code Fifo = 5"
| "file_type_code Socket = 6"
| "file_type_code SymLink = 7"

definition file_type_of_code :: "u8 \<Rightarrow> FileType option" where
  "file_type_of_code c =
     (if c \<le> 7 then Some ([Unknown, RegularFile, Directory, CharacterDev, BlockDev, Fifo, Socket, SymLink] ! unat c)
      else None)"

record dir_entry =
  de_inode :: InodeId
  de_rec_len :: u16
  de_name_len :: u8
  de_file_type :: FileType
  de_name :: bytes

text \<open>Reading an entry whose type byte is not a \<^verbatim>\<open>FileType\<close> discriminant is undefined behaviour:
  a \<open>Panic\<close> of the model.\<close>

definition de_from_bytes :: "bytes \<Rightarrow> dir_entry res" where
  "de_from_bytes bs =
     (if length bs < 8 then Inl Panic
      else case file_type_of_code (bs ! 7) of
        None \<Rightarrow> Inl Panic
      | Some ft \<Rightarrow>
          let name_len = bs ! 6 in
          rbind (index_range bs 8 (unat name_len)) (\<lambda>nm.
            Inr \<lparr>de_inode = of_le (slice bs 0 4), de_rec_len = of_le (slice bs 4 2), de_name_len = name_len,
                 de_file_type = ft, de_name = nm @ replicate (255 - unat name_len) 0\<rparr>))"

definition de_to_bytes :: "dir_entry \<Rightarrow> bytes" where
  "de_to_bytes de =
     le32 (de_inode de) @ le16 (de_rec_len de) @ [de_name_len de, file_type_code (de_file_type de)] @
     take (unat (de_name_len de)) (de_name de)"

definition de_new :: "InodeId \<Rightarrow> u16 \<Rightarrow> bytes \<Rightarrow> FileType \<Rightarrow> dir_entry res" where
  "de_new ino rec_len name ft =
     (if length name \<le> 255 then
        Inr \<lparr>de_inode = ino, de_rec_len = rec_len, de_name_len = word_of_nat (length name),
             de_file_type = ft, de_name = name @ replicate (255 - length name) 0\<rparr>
      else Inl Panic)"

definition de_get_name :: "dir_entry \<Rightarrow> bytes" where
  "de_get_name de = take (unat (de_name_len de)) (de_name de)"

definition de_compare_name :: "dir_entry \<Rightarrow> bytes \<Rightarrow> bool" where
  "de_compare_name de name \<longleftrightarrow>
     unat (de_name_len de) = length name \<and> take (length name) (de_name de) = name"

definition de_unused :: "dir_entry \<Rightarrow> bool" where
  "de_unused de \<longleftrightarrow> de_inode de = 0"

definition required_size :: "nat \<Rightarrow> nat" where
  "required_size name_len = div_ceil (8 + name_len) 4 * 4"

definition de_used_size :: "dir_entry \<Rightarrow> nat" where
  "de_used_size de = required_size (unat (de_name_len de))"

section \<open>The checksum tail\<close>

record dir_entry_tail =
  det_reserved_zero1 :: u32
  det_rec_len :: u16
  det_reserved_zero2 :: u8
  det_reserved_ft :: u8
  det_checksum :: u32

definition det_new :: dir_entry_tail where
  "det_new = \<lparr>det_reserved_zero1 = 0, det_rec_len = 12, det_reserved_zero2 = 0, det_reserved_ft = 0xDE,
     det_checksum = 0\<rparr>"

definition det_to_bytes :: "dir_entry_tail \<Rightarrow> bytes" where
  "det_to_bytes t = le32 (det_reserved_zero1 t) @ le16 (det_rec_len t) @
     [det_reserved_zero2 t, det_reserved_ft t] @ le32 (det_checksum t)"

definition det_from_bytes :: "bytes \<Rightarrow> dir_entry_tail res" where
  "det_from_bytes bs =
     (if length bs < 12 then Inl Panic
      else Inr \<lparr>det_reserved_zero1 = of_le (slice bs 0 4), det_rec_len = of_le (slice bs 4 2),
                det_reserved_zero2 = bs ! 6, det_reserved_ft = bs ! 7, det_checksum = of_le (slice bs 8 4)\<rparr>)"

definition DIR_TAIL_OFFSET :: nat where "DIR_TAIL_OFFSET = BLOCK_SIZE - 12"

definition det_csum :: "MetadataChecksumSeed \<Rightarrow> InodeId \<Rightarrow> u32 \<Rightarrow> block \<Rightarrow> u32 res" where
  "det_csum seed ino ino_gen b =
     (let csum = crc32 (seed_crc32c seed (le32 ino)) (le32 ino_gen) in
      rbind (index_range (blk_data b) 0 DIR_TAIL_OFFSET) (\<lambda>bs. Inr (crc32 csum bs)))"

definition det_set_checksum ::
    "MetadataChecksumSeed \<Rightarrow> InodeId \<Rightarrow> u32 \<Rightarrow> block \<Rightarrow> dir_entry_tail \<Rightarrow> dir_entry_tail res" where
  "det_set_checksum seed ino ino_gen b t =
     rbind (det_csum seed ino ino_gen b) (\<lambda>c. Inr (t\<lparr>det_checksum := c\<rparr>))"

section \<open>Validation\<close>

datatype dir_block_layout = Leaf | Htree

text \<open>\<open>read_offset_as\<close> of an object: a slice from the offset on, then the object's bytes.\<close>

definition block_read_from :: "block \<Rightarrow> nat \<Rightarrow> bytes res" where
  "block_read_from b off = (if off \<le> length (blk_data b) then Inr (drop off (blk_data b)) else Inl Panic)"

definition read_dir_entry :: "block \<Rightarrow> nat \<Rightarrow> dir_entry res" where
  "read_dir_entry b off = rbind (block_read_from b off) de_from_bytes"

definition read_dir_tail :: "block \<Rightarrow> nat \<Rightarrow> dir_entry_tail res" where
  "read_dir_tail b off = rbind (block_read_from b off) det_from_bytes"

definition dir_data_end :: "bool \<Rightarrow> nat" where
  "dir_data_end metadata_csum = (if metadata_csum then BLOCK_SIZE - 12 else BLOCK_SIZE)"

function validate_leaf_loop :: "bytes \<Rightarrow> nat \<Rightarrow> nat \<Rightarrow> nat res" where
  "validate_leaf_loop data data_end offset =
     (if offset < data_end then
        if data_end - offset < 8 then Inl (Err EIO)
        else
          rbind (index_range data (offset + 4) 4) (\<lambda>f.
            let rec_len = unat (of_le (take 2 f) :: u16); name_len = unat (f ! 2); file_type = f ! 3 in
            if rec_len < 8 \<or> rec_len mod 4 \<noteq> 0 \<or> offset + rec_len > data_end \<or>
               name_len > rec_len - 8 \<or> file_type > file_type_code SymLink
            then Inl (Err EIO)
            else validate_leaf_loop data data_end (offset + rec_len))
      else Inr offset)"
  by pat_completeness auto
termination by (relation "measure (\<lambda>(data, data_end, offset). data_end - offset)") (auto simp: Let_def)

declare validate_leaf_loop.simps [simp del]

definition validate_leaf :: "block \<Rightarrow> MetadataChecksumSeed \<Rightarrow> InodeId \<Rightarrow> u32 \<Rightarrow> bool \<Rightarrow> unit res" where
  "validate_leaf b seed ino ino_gen metadata_csum =
     (let data_end = dir_data_end metadata_csum in
      rbind (if metadata_csum then
               rbind (read_dir_tail b data_end) (\<lambda>tail.
               rbind (guard (\<not> (det_reserved_zero1 tail \<noteq> 0 \<or> unat (det_rec_len tail) \<noteq> 12 \<or>
                                det_reserved_zero2 tail \<noteq> 0 \<or> det_reserved_ft tail \<noteq> 0xDE)) (Err EIO)) (\<lambda>_.
               rbind (det_set_checksum seed ino ino_gen b tail) (\<lambda>expected.
                 guard (det_checksum expected = det_checksum tail) (Err EIO))))
             else Inr ()) (\<lambda>_.
      rbind (validate_leaf_loop (blk_data b) data_end 0) (\<lambda>offset.
        guard (offset = data_end) (Err EIO))))"

definition le16_at :: "bytes \<Rightarrow> nat \<Rightarrow> nat res" where
  "le16_at data off =
     rbind (index_at data off) (\<lambda>a. rbind (index_at data (off + 1)) (\<lambda>b. Inr (unat (of_le [a, b] :: u16))))"

definition usize_checked_mul :: "nat \<Rightarrow> nat \<Rightarrow> nat option" where
  "usize_checked_mul a b = (if a * b < USIZE_LIMIT then Some (a * b) else None)"

definition htree_csum ::
    "bytes \<Rightarrow> MetadataChecksumSeed \<Rightarrow> InodeId \<Rightarrow> u32 \<Rightarrow> nat \<Rightarrow> nat \<Rightarrow> u32 res" where
  "htree_csum data seed ino ino_gen used_end tail_offset =
     (let csum = crc32 (seed_crc32c seed (le32 ino)) (le32 ino_gen) in
      rbind (index_range data 0 used_end) (\<lambda>used.
      rbind (index_range data tail_offset 4) (\<lambda>res.
        Inr (crc32 (crc32 (crc32 csum used) res) [0, 0, 0, 0]))))"

definition validate_htree :: "block \<Rightarrow> MetadataChecksumSeed \<Rightarrow> InodeId \<Rightarrow> u32 \<Rightarrow> bool \<Rightarrow> unit res" where
  "validate_htree b seed ino ino_gen metadata_csum =
     (let data = blk_data b in
      rbind (le16_at data 4) (\<lambda>first_rec_len.
      rbind (index_at data 7) (\<lambda>ft1.
      if ft1 > file_type_code SymLink then Inl (Err EIO) else
      rbind (if first_rec_len = BLOCK_SIZE then Inr 8
             else if first_rec_len = 12 then
               rbind (le16_at data 16) (\<lambda>second_rec_len.
               rbind (index_range data 24 4) (\<lambda>reserved.
               rbind (index_at data 29) (\<lambda>info_len.
               rbind (index_at data 19) (\<lambda>ft2.
                 if second_rec_len \<noteq> BLOCK_SIZE - 12 \<or> reserved \<noteq> [0, 0, 0, 0] \<or> unat info_len \<noteq> 8 \<or>
                    ft2 > file_type_code SymLink
                 then Inl (Err EIO) else Inr 32))))
             else Inl (Err EIO)) (\<lambda>count_offset.
      rbind (le16_at data count_offset) (\<lambda>limit.
      rbind (le16_at data (count_offset + 2)) (\<lambda>count.
      if count = 0 \<or> count > limit then Inl (Err EIO) else
      rbind (ok_or (usize_checked_mul limit 8) EIO) (\<lambda>l8.
      rbind (ok_or (usize_checked_add count_offset l8) EIO) (\<lambda>tail_offset.
      if tail_offset > (if metadata_csum then BLOCK_SIZE - 8 else BLOCK_SIZE) then Inl (Err EIO) else
      if \<not> metadata_csum then Inr () else
      rbind (index_range data (tail_offset + 4) 4) (\<lambda>st.
      rbind (ok_or (usize_checked_add count_offset (count * 8)) EIO) (\<lambda>used_end.
      rbind (htree_csum data seed ino ino_gen used_end tail_offset) (\<lambda>csum.
        if csum \<noteq> of_le st then Inl (Err EIO) else Inr ())))))))))))"

definition dir_validate ::
    "block \<Rightarrow> MetadataChecksumSeed \<Rightarrow> InodeId \<Rightarrow> u32 \<Rightarrow> bool \<Rightarrow> bool \<Rightarrow> bool \<Rightarrow> dir_block_layout res" where
  "dir_validate b seed ino ino_gen metadata_csum indexed htree_root =
     (if indexed \<and> htree_root then rbind (validate_htree b seed ino ino_gen metadata_csum) (\<lambda>_. Inr Htree)
      else case (if indexed then validate_htree b seed ino ino_gen metadata_csum else Inl (Err EIO)) of
        Inr _ \<Rightarrow> Inr Htree
      | Inl Panic \<Rightarrow> Inl Panic
      | Inl (Err _) \<Rightarrow>
          (case validate_leaf b seed ino ino_gen metadata_csum of
             Inr _ \<Rightarrow> Inr Leaf
           | Inl Panic \<Rightarrow> Inl Panic
           | Inl (Err _) \<Rightarrow> Inl (Err EIO)))"

section \<open>Operations\<close>

definition dir_init :: "block \<Rightarrow> bool \<Rightarrow> block res" where
  "dir_init b metadata_csum =
     (let data_end = dir_data_end metadata_csum in
      rbind (de_new 0 (word_of_nat data_end) [] Unknown) (\<lambda>entry.
      rbind (block_write_offset b 0 (de_to_bytes entry)) (\<lambda>b.
        if metadata_csum then block_write_offset b data_end (det_to_bytes det_new) else Inr b)))"

partial_function (option) dir_get_loop ::
    "block \<Rightarrow> bytes \<Rightarrow> nat \<Rightarrow> nat \<Rightarrow> InodeId option res option" where
  "dir_get_loop b name tail_offset offset =
     (if offset < tail_offset then
        (case read_dir_entry b offset of
           Inl e \<Rightarrow> Some (Inl e)
         | Inr de \<Rightarrow>
             if \<not> de_unused de \<and> de_compare_name de name then Some (Inr (Some (de_inode de)))
             else dir_get_loop b name tail_offset (offset + unat (de_rec_len de)))
      else Some (Inr None))"

definition dir_get :: "block \<Rightarrow> bytes \<Rightarrow> bool \<Rightarrow> InodeId option res option" where
  "dir_get b name metadata_csum = dir_get_loop b name (dir_data_end metadata_csum) 0"

partial_function (option) dir_list_loop ::
    "block \<Rightarrow> dir_entry list \<Rightarrow> nat \<Rightarrow> nat \<Rightarrow> dir_entry list res option" where
  "dir_list_loop b entries tail_offset offset =
     (if offset < tail_offset then
        (case read_dir_entry b offset of
           Inl e \<Rightarrow> Some (Inl e)
         | Inr de \<Rightarrow>
             dir_list_loop b (if \<not> de_unused de then entries @ [de] else entries) tail_offset
               (offset + unat (de_rec_len de)))
      else Some (Inr entries))"

definition dir_list :: "block \<Rightarrow> dir_entry list \<Rightarrow> bool \<Rightarrow> dir_entry list res option" where
  "dir_list b entries metadata_csum = dir_list_loop b entries (dir_data_end metadata_csum) 0"

text \<open>One step of \<open>insert\<close> at a record: reuse it, split it, or go on (\<open>None\<close>).\<close>

definition dir_insert_at ::
    "block \<Rightarrow> bytes \<Rightarrow> InodeId \<Rightarrow> FileType \<Rightarrow> nat \<Rightarrow> dir_entry \<Rightarrow> block option res" where
  "dir_insert_at b name ino ft offset de =
     (let required = required_size (length name); rec_len = unat (de_rec_len de) in
      if de_unused de \<and> rec_len \<ge> required then
        rbind (de_new ino (word_of_nat rec_len) name ft) (\<lambda>new_entry.
        rbind (block_write_offset b offset (de_to_bytes new_entry)) (\<lambda>b. Inr (Some b)))
      else
        let used_size = de_used_size de in
        rbind (usize_sub rec_len used_size) (\<lambda>free_size.
        if free_size < required then Inr None
        else
          rbind (block_write_offset b offset (de_to_bytes (de\<lparr>de_rec_len := word_of_nat used_size\<rparr>))) (\<lambda>b.
          rbind (de_new ino (word_of_nat free_size) name ft) (\<lambda>new_entry.
          rbind (block_write_offset b (offset + used_size) (de_to_bytes new_entry)) (\<lambda>b. Inr (Some b))))))"

partial_function (option) dir_insert_loop ::
    "block \<Rightarrow> bytes \<Rightarrow> InodeId \<Rightarrow> FileType \<Rightarrow> nat \<Rightarrow> nat \<Rightarrow> (block \<times> bool) res option" where
  "dir_insert_loop b name ino ft tail_offset offset =
     (if offset < tail_offset then
        (case read_dir_entry b offset of
           Inl e \<Rightarrow> Some (Inl e)
         | Inr de \<Rightarrow>
             (case dir_insert_at b name ino ft offset de of
                Inl e \<Rightarrow> Some (Inl e)
              | Inr (Some b') \<Rightarrow> Some (Inr (b', True))
              | Inr None \<Rightarrow> dir_insert_loop b name ino ft tail_offset (offset + unat (de_rec_len de))))
      else Some (Inr (b, False)))"

definition dir_insert ::
    "block \<Rightarrow> bytes \<Rightarrow> InodeId \<Rightarrow> FileType \<Rightarrow> bool \<Rightarrow> (block \<times> bool) res option" where
  "dir_insert b name ino ft metadata_csum = dir_insert_loop b name ino ft (dir_data_end metadata_csum) 0"

definition dir_remove_at :: "block \<Rightarrow> nat option \<Rightarrow> nat \<Rightarrow> dir_entry \<Rightarrow> block res" where
  "dir_remove_at b previous_offset offset de =
     (case previous_offset of
        Some po \<Rightarrow>
          rbind (read_dir_entry b po) (\<lambda>previous.
          rbind (add_chk (de_rec_len previous) (de_rec_len de)) (\<lambda>l.
            block_write_offset b po (de_to_bytes (previous\<lparr>de_rec_len := l\<rparr>))))
      | None \<Rightarrow> block_write_offset b offset (de_to_bytes (de\<lparr>de_inode := 0, de_file_type := Unknown\<rparr>)))"

partial_function (option) dir_remove_loop ::
    "block \<Rightarrow> bytes \<Rightarrow> nat \<Rightarrow> nat option \<Rightarrow> nat \<Rightarrow> (block \<times> bool) res option" where
  "dir_remove_loop b name tail_offset previous_offset offset =
     (if offset < tail_offset then
        (case read_dir_entry b offset of
           Inl e \<Rightarrow> Some (Inl e)
         | Inr de \<Rightarrow>
             if \<not> de_unused de \<and> de_compare_name de name then
               Some (rbind (dir_remove_at b previous_offset offset de) (\<lambda>b. Inr (b, True)))
             else dir_remove_loop b name tail_offset (Some offset) (offset + unat (de_rec_len de)))
      else Some (Inr (b, False)))"

definition dir_remove :: "block \<Rightarrow> bytes \<Rightarrow> bool \<Rightarrow> (block \<times> bool) res option" where
  "dir_remove b name metadata_csum = dir_remove_loop b name (dir_data_end metadata_csum) None 0"

partial_function (option) dir_replace_loop ::
    "block \<Rightarrow> bytes \<Rightarrow> InodeId \<Rightarrow> FileType \<Rightarrow> nat \<Rightarrow> nat \<Rightarrow> (block \<times> bool) res option" where
  "dir_replace_loop b name new_inode new_type tail_offset offset =
     (if offset < tail_offset then
        (case read_dir_entry b offset of
           Inl e \<Rightarrow> Some (Inl e)
         | Inr de \<Rightarrow>
             if \<not> de_unused de \<and> de_compare_name de name then
               Some (rbind (block_write_offset b offset
                        (de_to_bytes (de\<lparr>de_inode := new_inode, de_file_type := new_type\<rparr>)))
                      (\<lambda>b. Inr (b, True)))
             else dir_replace_loop b name new_inode new_type tail_offset (offset + unat (de_rec_len de)))
      else Some (Inr (b, False)))"

definition dir_replace ::
    "block \<Rightarrow> bytes \<Rightarrow> InodeId \<Rightarrow> FileType \<Rightarrow> bool \<Rightarrow> (block \<times> bool) res option" where
  "dir_replace b name new_inode new_type metadata_csum =
     dir_replace_loop b name new_inode new_type (dir_data_end metadata_csum) 0"

definition dir_set_checksum :: "block \<Rightarrow> MetadataChecksumSeed \<Rightarrow> InodeId \<Rightarrow> u32 \<Rightarrow> block res" where
  "dir_set_checksum b seed ino ino_gen =
     rbind (read_dir_tail b DIR_TAIL_OFFSET) (\<lambda>tail.
     rbind (det_set_checksum seed ino ino_gen b tail) (\<lambda>tail.
       block_write_offset b DIR_TAIL_OFFSET (det_to_bytes tail)))"

definition dir_set_htree_checksum :: "block \<Rightarrow> MetadataChecksumSeed \<Rightarrow> InodeId \<Rightarrow> u32 \<Rightarrow> block res" where
  "dir_set_htree_checksum b seed ino ino_gen =
     (let data = blk_data b in
      rbind (le16_at data 4) (\<lambda>first_rec_len.
      rbind (if first_rec_len = BLOCK_SIZE then Inr 8
             else if first_rec_len = 12 then Inr 32 else Inl (Err EIO)) (\<lambda>count_offset.
      rbind (le16_at data count_offset) (\<lambda>limit.
      rbind (le16_at data (count_offset + 2)) (\<lambda>count.
      if count = 0 \<or> count > limit then Inl (Err EIO) else
      rbind (ok_or (usize_checked_mul limit 8) EIO) (\<lambda>l8.
      rbind (ok_or (usize_checked_add count_offset l8) EIO) (\<lambda>tail_offset.
      if tail_offset > BLOCK_SIZE - 8 then Inl (Err EIO) else
      rbind (ok_or (usize_checked_add count_offset (count * 8)) EIO) (\<lambda>used_end.
      rbind (htree_csum data seed ino ino_gen used_end tail_offset) (\<lambda>csum.
        block_write_offset b (tail_offset + 4) (le32 csum))))))))))"

section \<open>Records\<close>

text \<open>A directory block is a sequence of records, byte strings that \<open>validate_leaf\<close> accepts; its
  contents are the names of the records in use.\<close>

definition rec_ok :: "bytes \<Rightarrow> bool" where
  "rec_ok r \<longleftrightarrow> 8 \<le> length r \<and> length r mod 4 = 0 \<and> unat (of_le (slice r 4 2) :: u16) = length r \<and>
     8 + unat (r ! 6) \<le> length r \<and> r ! 7 \<le> 7"

definition rec_entry :: "bytes \<Rightarrow> dir_entry" where
  "rec_entry r = \<lparr>de_inode = of_le (slice r 0 4), de_rec_len = of_le (slice r 4 2), de_name_len = r ! 6,
     de_file_type = the (file_type_of_code (r ! 7)),
     de_name = slice r 8 (unat (r ! 6)) @ replicate (255 - unat (r ! 6)) 0\<rparr>"

definition rec_used :: "bytes \<Rightarrow> bool" where
  "rec_used r \<longleftrightarrow> de_inode (rec_entry r) \<noteq> 0"

definition entry_binding :: "dir_entry \<Rightarrow> bytes \<times> InodeId \<times> FileType" where
  "entry_binding de = (de_get_name de, de_inode de, de_file_type de)"

definition dir_contents :: "bytes list \<Rightarrow> (bytes \<times> InodeId \<times> FileType) list" where
  "dir_contents rs = map (\<lambda>r. entry_binding (rec_entry r)) (filter rec_used rs)"

definition dir_layout :: "block \<Rightarrow> bool \<Rightarrow> bytes list \<Rightarrow> bool" where
  "dir_layout b metadata_csum rs \<longleftrightarrow> block_wf b \<and> (\<forall>r \<in> set rs. rec_ok r) \<and>
     concat rs = take (dir_data_end metadata_csum) (blk_data b)"

lemma dir_contents_simps [simp]:
  "dir_contents [] = []"
  "dir_contents (r # rs) = (if rec_used r then [entry_binding (rec_entry r)] else []) @ dir_contents rs"
  "dir_contents (xs @ ys) = dir_contents xs @ dir_contents ys"
  by (simp_all add: dir_contents_def)

lemma file_type_code_le [simp]: "file_type_code ft \<le> 7"
  by (cases ft) simp_all

lemma file_type_code_roundtrip [simp]: "file_type_of_code (file_type_code ft) = Some ft"
  by (cases ft) (simp_all add: file_type_of_code_def)

lemma file_type_of_code_ok: "c \<le> 7 \<Longrightarrow> file_type_of_code c = Some (the (file_type_of_code c))"
  by (simp add: file_type_of_code_def)

lemma u8_le_255: "unat (c :: u8) \<le> 255"
  using unat_lt [of c] by simp

lemma slice_append: "off + n \<le> length r \<Longrightarrow> slice (r @ rest) off n = slice r off n"
  by (simp add: slice_def)

lemma de_from_record:
  assumes "rec_ok r"
  shows "de_from_bytes (r @ rest) = Inr (rec_entry r)"
proof -
  have l: "8 \<le> length r" "8 + unat (r ! 6) \<le> length r" "r ! 7 \<le> 7" using assms by (auto simp: rec_ok_def)
  then have n: "(r @ rest) ! 6 = r ! 6" "(r @ rest) ! 7 = r ! 7" by (simp_all add: nth_append)
  have "index_range (r @ rest) 8 (unat (r ! 6)) = Inr (slice r 8 (unat (r ! 6)))"
    using l by (simp add: index_range_def slice_append)
  then show ?thesis
    using l file_type_of_code_ok [OF l(3)]
    by (auto simp: de_from_bytes_def rec_entry_def n slice_append Let_def split: option.split)
qed

lemma read_record:
  assumes "rec_ok r" "blk_data b = pre @ r @ rest" "off = length pre"
  shows "read_dir_entry b off = Inr (rec_entry r)"
  using de_from_record [OF assms(1)] assms by (simp add: read_dir_entry_def block_read_from_def)

lemma rec_len [simp]: "rec_ok r \<Longrightarrow> unat (de_rec_len (rec_entry r)) = length r"
  by (simp add: rec_entry_def rec_ok_def)

lemma rec_pos: "rec_ok r \<Longrightarrow> 8 \<le> length r"
  by (simp add: rec_ok_def)

lemma rec_ne: "rec_ok r \<Longrightarrow> r \<noteq> []"
  by (auto simp: rec_ok_def)

lemma rec_unused [simp]: "de_unused (rec_entry r) = (\<not> rec_used r)"
  by (simp add: de_unused_def rec_used_def)

text \<open>The entries the code writes: a name of the recorded length in a zeroed buffer.\<close>

definition de_wf :: "dir_entry \<Rightarrow> bool" where
  "de_wf de \<longleftrightarrow> length (de_name de) = 255 \<and>
     drop (unat (de_name_len de)) (de_name de) = replicate (255 - unat (de_name_len de)) 0"

lemma rec_entry_wf: "rec_ok r \<Longrightarrow> de_wf (rec_entry r)"
  using u8_le_255 [of "r ! 6"] by (simp add: de_wf_def rec_entry_def rec_ok_def)

lemma compare_name_iff: "de_wf de \<Longrightarrow> de_compare_name de name \<longleftrightarrow> de_get_name de = name"
  using u8_le_255 [of "de_name_len de"] by (auto simp: de_compare_name_def de_get_name_def de_wf_def)

lemma length_de_to_bytes [simp]: "de_wf de \<Longrightarrow> length (de_to_bytes de) = 8 + unat (de_name_len de)"
  using u8_le_255 [of "de_name_len de"] by (simp add: de_to_bytes_def de_wf_def)

lemma de_new_ok:
  assumes "length name \<le> 255"
  shows "\<exists>de. de_new ino rl name ft = Inr de \<and> de_wf de \<and> de_inode de = ino \<and> de_rec_len de = rl \<and>
    unat (de_name_len de) = length name \<and> entry_binding de = (name, ino, ft)"
proof -
  have "unat (word_of_nat (length name) :: u8) = length name"
    using assms by (intro unat_word_of_nat) simp
  then show ?thesis using assms
    by (simp add: de_new_def de_wf_def entry_binding_def de_get_name_def)
qed

lemma required_size_props: "required_size n mod 4 = 0" "8 + n \<le> required_size n" "required_size n < 8 + n + 4"
  using div_ceil_bounds [of 4 "8 + n"] by (simp_all add: required_size_def)

lemma required_size_le:
  assumes "8 + n \<le> m" "m mod 4 = 0"
  shows "required_size n \<le> m"
proof -
  obtain k where k: "m = 4 * k" using assms(2) by (auto simp: mod_eq_0_iff_dvd dvd_def)
  obtain j where j: "required_size n = 4 * j" using required_size_props(1) [of n] by (auto simp: mod_eq_0_iff_dvd dvd_def)
  have "4 * j < 4 * k + 4" using required_size_props(3) [of n] j k assms(1) by linarith
  then have "j \<le> k" by simp
  then show ?thesis using j k by simp
qed

text \<open>Writing an entry over the front of a region makes it a record with that entry.\<close>

lemma record_written:
  assumes de: "de_wf de" and l: "unat (de_rec_len de) = length r" "8 + unat (de_name_len de) \<le> length r" "length r mod 4 = 0"
  shows "rec_ok (de_to_bytes de @ drop (8 + unat (de_name_len de)) r)"
    "rec_entry (de_to_bytes de @ drop (8 + unat (de_name_len de)) r) = de"
    "length (de_to_bytes de @ drop (8 + unat (de_name_len de)) r) = length r"
proof -
  let ?n = "unat (de_name_len de)"
  let ?r = "de_to_bytes de @ drop (8 + ?n) r"
  have nl: "length (take ?n (de_name de)) = ?n"
    using de u8_le_255 [of "de_name_len de"] by (simp add: de_wf_def)
  show len: "length ?r = length r" using de l by simp
  have s: "slice ?r 0 4 = le32 (de_inode de)" "slice ?r 4 2 = le16 (de_rec_len de)"
    "?r ! 6 = de_name_len de" "?r ! 7 = file_type_code (de_file_type de)"
    "slice ?r 8 ?n = take ?n (de_name de)"
    using nl by (simp_all add: de_to_bytes_def slice_def nth_append)
  show "rec_ok ?r"
    using len l by (simp only: rec_ok_def s of_le_roundtrip) simp
  have "take ?n (de_name de) @ replicate (255 - ?n) 0 = de_name de"
    using de by (metis append_take_drop_id de_wf_def)
  then show "rec_entry ?r = de"
    by (simp only: rec_entry_def s of_le_roundtrip file_type_code_roundtrip) simp
qed

lemma write_region:
  assumes "blk_data b = pre @ r @ rest" "length bs \<le> length r" "off = length pre"
  shows "block_write_offset b off bs = Inr (b\<lparr>blk_data := pre @ (bs @ drop (length bs) r) @ rest\<rparr>)"
  using assms by (simp add: block_write_offset_def splice_def)

section \<open>Lookup and listing\<close>

lemma get_loop_rep:
  "\<forall>r \<in> set rs. rec_ok r \<Longrightarrow> blk_data b = pre @ concat rs @ rest \<Longrightarrow> tail = length pre + length (concat rs) \<Longrightarrow>
   dir_get_loop b name tail (length pre) = Some (Inr (map_option fst (map_of (dir_contents rs) name)))"
proof (induction rs arbitrary: pre)
  case Nil
  then show ?case by (subst dir_get_loop.simps) simp
next
  case (Cons r rs)
  then have r: "rec_ok r" and rd: "read_dir_entry b (length pre) = Inr (rec_entry r)"
    by (auto intro: read_record)
  have IH: "dir_get_loop b name tail (length pre + length r) = Some (Inr (map_option fst (map_of (dir_contents rs) name)))"
    using Cons.IH [of "pre @ r"] Cons.prems by simp
  show ?case
    using Cons.prems(3) rec_pos [OF r] rd IH compare_name_iff [OF rec_entry_wf [OF r]] r
    by (subst dir_get_loop.simps) (auto simp: entry_binding_def)
qed

lemma list_loop_rep:
  "\<forall>r \<in> set rs. rec_ok r \<Longrightarrow> blk_data b = pre @ concat rs @ rest \<Longrightarrow> tail = length pre + length (concat rs) \<Longrightarrow>
   dir_list_loop b es tail (length pre) = Some (Inr (es @ map rec_entry (filter rec_used rs)))"
proof (induction rs arbitrary: pre es)
  case Nil
  then show ?case by (subst dir_list_loop.simps) simp
next
  case (Cons r rs)
  then have r: "rec_ok r" and rd: "read_dir_entry b (length pre) = Inr (rec_entry r)"
    by (auto intro: read_record)
  have IH: "dir_list_loop b es' tail (length pre + length r) = Some (Inr (es' @ map rec_entry (filter rec_used rs)))" for es'
    using Cons.IH [of "pre @ r" es'] Cons.prems by simp
  show ?case
    using Cons.prems(3) rec_pos [OF r] rd IH r
    by (subst dir_list_loop.simps) auto
qed

section \<open>Insertion\<close>

definition rec_free :: "bytes \<Rightarrow> nat" where
  "rec_free r = (if rec_used r then length r - de_used_size (rec_entry r) else length r)"

lemma used_size_le: "rec_ok r \<Longrightarrow> de_used_size (rec_entry r) \<le> length r"
  unfolding de_used_size_def by (rule required_size_le) (auto simp: rec_ok_def rec_entry_def)

lemma insert_at_rep:
  assumes r: "rec_ok r" and d: "blk_data b = pre @ r @ rest" and n: "length name \<le> 255" and ino: "ino \<noteq> 0"
    and small: "length r < 65536"
  shows "if required_size (length name) \<le> rec_free r
    then \<exists>rs'. dir_insert_at b name ino ft (length pre) (rec_entry r) = Inr (Some (b\<lparr>blk_data := pre @ concat rs' @ rest\<rparr>)) \<and>
      (\<forall>r \<in> set rs'. rec_ok r) \<and> length (concat rs') = length r \<and>
      dir_contents rs' = dir_contents [r] @ [(name, ino, ft)]
    else dir_insert_at b name ino ft (length pre) (rec_entry r) = Inr None"
proof -
  let ?q = "required_size (length name)" and ?u = "de_used_size (rec_entry r)" and ?e = "rec_entry r"
  have ur: "?u \<le> length r" by (rule used_size_le [OF r])
  have r4: "length r mod 4 = 0" using r by (simp add: rec_ok_def)
  have wr: "unat (word_of_nat (length r) :: u16) = length r" using small by (intro unat_word_of_nat) simp
  have sub: "usize_sub (length r) ?u = Inr (length r - ?u)" using ur by (simp add: usize_sub_def)
  consider (none) "\<not> ?q \<le> rec_free r" | (reuse) "?q \<le> length r" "\<not> rec_used r"
    | (split) "?q \<le> length r - ?u" "rec_used r"
    unfolding rec_free_def by metis
  then show ?thesis
  proof cases
    case none
    then have "dir_insert_at b name ino ft (length pre) ?e = Inr None"
      using r sub by (auto simp: dir_insert_at_def Let_def rec_free_def split: if_splits)
    then show ?thesis using none by simp
  next
    case reuse
    obtain de where de: "de_new ino (word_of_nat (length r)) name ft = Inr de" "de_wf de" "de_inode de = ino"
      "de_rec_len de = word_of_nat (length r)" "unat (de_name_len de) = length name" "entry_binding de = (name, ino, ft)"
      using de_new_ok [OF n] by blast
    have l: "unat (de_rec_len de) = length r" "8 + unat (de_name_len de) \<le> length r"
      using de(4,5) wr required_size_props(2) [of "length name"] reuse(1) by simp_all
    note w = record_written [OF de(2) l r4]
    have "dir_insert_at b name ino ft (length pre) ?e =
      Inr (Some (b\<lparr>blk_data := pre @ concat [de_to_bytes de @ drop (8 + unat (de_name_len de)) r] @ rest\<rparr>))"
      using reuse r de(1) write_region [OF d _ refl, of "de_to_bytes de"] de(2) l(2)
      by (simp add: dir_insert_at_def Let_def)
    then show ?thesis using reuse w ino de(3,6)
      by (auto simp: rec_free_def rec_used_def intro!: exI [of _ "[de_to_bytes de @ drop (8 + unat (de_name_len de)) r]"])
  next
    case split
    let ?a = "take ?u r" and ?z = "drop ?u r"
    let ?e1 = "?e\<lparr>de_rec_len := word_of_nat ?u\<rparr>"
    have e1: "de_wf ?e1" using rec_entry_wf [OF r] by (simp add: de_wf_def)
    have wu: "unat (word_of_nat ?u :: u16) = ?u" using small ur by (intro unat_word_of_nat) simp
    have u8: "8 + unat (de_name_len ?e) \<le> ?u" "?u mod 4 = 0"
      unfolding de_used_size_def by (rule required_size_props)+
    have l1: "unat (de_rec_len ?e1) = length ?a" "8 + unat (de_name_len ?e1) \<le> length ?a" "length ?a mod 4 = 0"
      using wu ur u8 by (simp_all add: min_def)
    note w1 = record_written [OF e1 l1]
    let ?r1 = "de_to_bytes ?e1 @ drop (8 + unat (de_name_len ?e1)) ?a"
    have d': "blk_data b = pre @ ?a @ ?z @ rest" using d by simp
    let ?b1 = "b\<lparr>blk_data := pre @ ?r1 @ ?z @ rest\<rparr>"
    have s1: "block_write_offset b (length pre) (de_to_bytes ?e1) = Inr ?b1"
      using write_region [OF d' _ refl, of "de_to_bytes ?e1"] e1 l1(2) by simp
    have fz: "unat (word_of_nat (length r - ?u) :: u16) = length ?z" using small by (simp add: unat_word_of_nat)
    obtain de where de: "de_new ino (word_of_nat (length r - ?u)) name ft = Inr de" "de_wf de" "de_inode de = ino"
      "de_rec_len de = word_of_nat (length r - ?u)" "unat (de_name_len de) = length name" "entry_binding de = (name, ino, ft)"
      using de_new_ok [OF n] by blast
    have z4: "length ?z mod 4 = 0" using r4 u8(2) ur by (simp add: mod_diff_eq [symmetric] mod_eq_0_iff_dvd)
    have l2: "unat (de_rec_len de) = length ?z" "8 + unat (de_name_len de) \<le> length ?z"
      using de(4,5) fz required_size_props(2) [of "length name"] split(1) by simp_all
    note w2 = record_written [OF de(2) l2 z4]
    let ?r2 = "de_to_bytes de @ drop (8 + unat (de_name_len de)) ?z"
    have d2: "blk_data ?b1 = (pre @ ?r1) @ ?z @ rest" by simp
    have o2: "length pre + ?u = length (pre @ ?r1)" using w1(3) ur by (simp add: min_def)
    have s2: "block_write_offset ?b1 (length pre + ?u) (de_to_bytes de) = Inr (b\<lparr>blk_data := pre @ concat [?r1, ?r2] @ rest\<rparr>)"
      using write_region [OF d2 _ o2, of "de_to_bytes de"] de(2) l2(2) by simp
    have "dir_insert_at b name ino ft (length pre) ?e = Inr (Some (b\<lparr>blk_data := pre @ concat [?r1, ?r2] @ rest\<rparr>))"
      using split r sub s1 de(1) s2 by (simp add: dir_insert_at_def Let_def del: concat.simps)
    moreover have "entry_binding ?e1 = entry_binding ?e" by (simp add: entry_binding_def de_get_name_def)
    then have "dir_contents [?r1, ?r2] = dir_contents [r] @ [(name, ino, ft)]"
      using split(2) ino de(3,6) w1(2) w2(2) by (simp add: rec_used_def)
    moreover have "length (concat [?r1, ?r2]) = length r"
    proof -
      have "length ?r1 = ?u" "length ?r2 = length r - ?u" using w1(3) w2(3) ur by (simp_all only: length_take length_drop min_absorb2)
      moreover have "length (concat [?r1, ?r2]) = length ?r1 + length ?r2" by simp
      ultimately show ?thesis using ur by linarith
    qed
    ultimately show ?thesis using split w1(1) w2(1)
      by (auto simp: rec_free_def simp del: dir_contents_simps intro!: exI [of _ "[?r1, ?r2]"])
  qed
qed

lemma insert_loop_rep:
  "\<forall>r \<in> set rs. rec_ok r \<and> length r < 65536 \<Longrightarrow> blk_data b = pre @ concat rs @ rest \<Longrightarrow>
   tail = length pre + length (concat rs) \<Longrightarrow> length name \<le> 255 \<Longrightarrow> ino \<noteq> 0 \<Longrightarrow>
   if \<exists>r \<in> set rs. required_size (length name) \<le> rec_free r
   then \<exists>rs' k. dir_insert_loop b name ino ft tail (length pre) = Some (Inr (b\<lparr>blk_data := pre @ concat rs' @ rest\<rparr>, True)) \<and>
     (\<forall>r \<in> set rs'. rec_ok r) \<and> length (concat rs') = length (concat rs) \<and> k \<le> length (dir_contents rs) \<and>
     dir_contents rs' = insert_at k (name, ino, ft) (dir_contents rs)
   else dir_insert_loop b name ino ft tail (length pre) = Some (Inr (b, False))"
proof (induction rs arbitrary: pre)
  case Nil
  then show ?case by (subst dir_insert_loop.simps) simp
next
  case (Cons r rs)
  then have r: "rec_ok r" and d: "blk_data b = pre @ r @ concat rs @ rest" and rd: "read_dir_entry b (length pre) = Inr (rec_entry r)"
    by (auto intro: read_record)
  have off: "length pre < tail" using Cons.prems(3) rec_ne [OF r] by simp
  have sm: "length r < 65536" using Cons.prems(1) by simp
  note ia = insert_at_rep [OF r d Cons.prems(4,5) sm, where ft = ft]
  show ?case
  proof (cases "required_size (length name) \<le> rec_free r")
    case True
    with ia obtain rs1 where rs1: "dir_insert_at b name ino ft (length pre) (rec_entry r) =
        Inr (Some (b\<lparr>blk_data := pre @ concat rs1 @ concat rs @ rest\<rparr>))"
      "\<forall>r \<in> set rs1. rec_ok r" "length (concat rs1) = length r" "dir_contents rs1 = dir_contents [r] @ [(name, ino, ft)]"
      by auto
    have "dir_insert_loop b name ino ft tail (length pre) = Some (Inr (b\<lparr>blk_data := pre @ concat (rs1 @ rs) @ rest\<rparr>, True))"
      using off rd rs1(1) by (subst dir_insert_loop.simps) simp
    moreover have "dir_contents (rs1 @ rs) = insert_at (length (dir_contents [r])) (name, ino, ft) (dir_contents (r # rs))"
      using rs1(4) by (simp add: insert_at_def)
    moreover have "length (dir_contents [r]) \<le> length (dir_contents (r # rs))" by simp
    moreover have "\<forall>r \<in> set (rs1 @ rs). rec_ok r" "length (concat (rs1 @ rs)) = length (concat (r # rs))"
      using rs1 Cons.prems(1) by auto
    ultimately show ?thesis using True by (simp only: list.set bex_simps simp_thms if_True) blast
  next
    case False
    with ia have n: "dir_insert_at b name ino ft (length pre) (rec_entry r) = Inr None" by simp
    have step: "dir_insert_loop b name ino ft tail (length pre) = dir_insert_loop b name ino ft tail (length (pre @ r))"
      using off rd n r by (subst dir_insert_loop.simps) simp
    have "\<forall>r \<in> set rs. rec_ok r \<and> length r < 65536" "blk_data b = (pre @ r) @ concat rs @ rest"
      "tail = length (pre @ r) + length (concat rs)" using Cons.prems by auto
    note IH = Cons.IH [OF this Cons.prems(4,5)]
    show ?thesis
    proof (cases "\<exists>r \<in> set rs. required_size (length name) \<le> rec_free r")
      case True
      with IH obtain rs' k where rs': "dir_insert_loop b name ino ft tail (length (pre @ r)) =
          Some (Inr (b\<lparr>blk_data := (pre @ r) @ concat rs' @ rest\<rparr>, True))"
        "\<forall>r \<in> set rs'. rec_ok r" "length (concat rs') = length (concat rs)" "k \<le> length (dir_contents rs)"
        "dir_contents rs' = insert_at k (name, ino, ft) (dir_contents rs)" by auto
      let ?k = "length (dir_contents [r]) + k"
      have "dir_contents (r # rs') = insert_at ?k (name, ino, ft) (dir_contents (r # rs))"
        using rs'(5) by (simp add: insert_at_def)
      moreover have "?k \<le> length (dir_contents (r # rs))" using rs'(4) by simp
      ultimately show ?thesis using True rs' step r
        by (auto intro!: exI [of _ "r # rs'"] exI [of _ ?k] simp del: dir_contents_simps)
    next
      case nofit: False
      then show ?thesis using IH step False by auto
    qed
  qed
qed

section \<open>Replacement\<close>

definition name_used :: "bytes \<Rightarrow> bytes list \<Rightarrow> bool" where
  "name_used name rs \<longleftrightarrow> (\<exists>x \<in> set (dir_contents rs). fst x = name)"

lemma fst_entry_binding [simp]: "fst (entry_binding de) = de_get_name de"
  by (simp add: entry_binding_def)

lemma write_over_record:
  assumes r: "rec_ok r" and d: "blk_data b = pre @ r @ rest"
    and de: "de_wf de" "de_rec_len de = de_rec_len (rec_entry r)" "de_name_len de = de_name_len (rec_entry r)"
  shows "\<exists>r'. block_write_offset b (length pre) (de_to_bytes de) = Inr (b\<lparr>blk_data := pre @ r' @ rest\<rparr>) \<and>
    rec_ok r' \<and> rec_entry r' = de \<and> length r' = length r"
proof -
  have l: "unat (de_rec_len de) = length r" "8 + unat (de_name_len de) \<le> length r" "length r mod 4 = 0"
    using r de by (simp_all add: rec_ok_def rec_entry_def)
  show ?thesis
    using write_region [OF d _ refl, of "de_to_bytes de"] de(1) l(2) record_written [OF de(1) l]
    by (intro exI [of _ "de_to_bytes de @ drop (8 + unat (de_name_len de)) r"]) (simp del: length_append append_assoc)
qed

lemma replace_loop_rep:
  "\<forall>r \<in> set rs. rec_ok r \<Longrightarrow> blk_data b = pre @ concat rs @ rest \<Longrightarrow> tail = length pre + length (concat rs) \<Longrightarrow>
   ino \<noteq> 0 \<Longrightarrow>
   if name_used name rs
   then \<exists>rs'. dir_replace_loop b name ino ft tail (length pre) = Some (Inr (b\<lparr>blk_data := pre @ concat rs' @ rest\<rparr>, True)) \<and>
     (\<forall>r \<in> set rs'. rec_ok r) \<and> length (concat rs') = length (concat rs) \<and>
     dir_contents rs' = update_first name (ino, ft) (dir_contents rs)
   else dir_replace_loop b name ino ft tail (length pre) = Some (Inr (b, False))"
proof (induction rs arbitrary: pre)
  case Nil
  then show ?case by (subst dir_replace_loop.simps) (simp add: name_used_def)
next
  case (Cons r rs)
  then have r: "rec_ok r" and d: "blk_data b = pre @ r @ concat rs @ rest" and rd: "read_dir_entry b (length pre) = Inr (rec_entry r)"
    by (auto intro: read_record)
  have off: "length pre < tail" using Cons.prems(3) rec_ne [OF r] by simp
  note cmp = compare_name_iff [OF rec_entry_wf [OF r], of name]
  show ?case
  proof (cases "rec_used r \<and> de_get_name (rec_entry r) = name")
    case True
    let ?de = "(rec_entry r)\<lparr>de_inode := ino, de_file_type := ft\<rparr>"
    have "de_wf ?de" using rec_entry_wf [OF r] by (simp add: de_wf_def)
    from write_over_record [OF r d this] obtain r' where
      r': "block_write_offset b (length pre) (de_to_bytes ?de) = Inr (b\<lparr>blk_data := pre @ r' @ concat rs @ rest\<rparr>)"
      "rec_ok r'" "rec_entry r' = ?de" "length r' = length r" by auto
    have "dir_replace_loop b name ino ft tail (length pre) = Some (Inr (b\<lparr>blk_data := pre @ concat (r' # rs) @ rest\<rparr>, True))"
      using off rd r'(1) True cmp by (subst dir_replace_loop.simps) simp
    moreover have "dir_contents (r' # rs) = update_first name (ino, ft) (dir_contents (r # rs))"
      using True r'(3) Cons.prems(4) by (simp add: rec_used_def entry_binding_def de_get_name_def)
    moreover have "name_used name (r # rs)" using True by (auto simp: name_used_def)
    ultimately show ?thesis using r' Cons.prems(1)
      by (auto intro!: exI [of _ "r' # rs"] simp del: dir_contents_simps)
  next
    case False
    have step: "dir_replace_loop b name ino ft tail (length pre) = dir_replace_loop b name ino ft tail (length (pre @ r))"
      using off rd r False cmp by (subst dir_replace_loop.simps) auto
    have nu: "name_used name (r # rs) = name_used name rs" using False by (auto simp: name_used_def)
    have "\<forall>r \<in> set rs. rec_ok r" "blk_data b = (pre @ r) @ concat rs @ rest"
      "tail = length (pre @ r) + length (concat rs)" using Cons.prems by auto
    note IH = Cons.IH [OF this Cons.prems(4)]
    show ?thesis
    proof (cases "name_used name rs")
      case True
      with IH obtain rs' where rs': "dir_replace_loop b name ino ft tail (length (pre @ r)) =
          Some (Inr (b\<lparr>blk_data := (pre @ r) @ concat rs' @ rest\<rparr>, True))"
        "\<forall>r \<in> set rs'. rec_ok r" "length (concat rs') = length (concat rs)"
        "dir_contents rs' = update_first name (ino, ft) (dir_contents rs)" by auto
      have "dir_contents (r # rs') = update_first name (ino, ft) (dir_contents (r # rs))"
        using rs'(4) False by auto
      then show ?thesis using True nu rs' step r
        by (auto intro!: exI [of _ "r # rs'"] simp del: dir_contents_simps)
    next
      case nu': False
      then show ?thesis using IH step nu by simp
    qed
  qed
qed

section \<open>Removal\<close>

lemma remove_loop_rep:
  "\<forall>r \<in> set (ps @ rs). rec_ok r \<Longrightarrow> blk_data b = concat ps @ concat rs @ rest \<Longrightarrow>
   tail = length (concat ps) + length (concat rs) \<Longrightarrow> tail < 65536 \<Longrightarrow>
   po = (if ps = [] then None else Some (length (concat (butlast ps)))) \<Longrightarrow>
   if name_used name rs
   then \<exists>rs'. dir_remove_loop b name tail po (length (concat ps)) = Some (Inr (b\<lparr>blk_data := concat rs' @ rest\<rparr>, True)) \<and>
     (\<forall>r \<in> set rs'. rec_ok r) \<and> length (concat rs') = tail \<and>
     dir_contents rs' = dir_contents ps @ delete_first name (dir_contents rs)
   else dir_remove_loop b name tail po (length (concat ps)) = Some (Inr (b, False))"
proof (induction rs arbitrary: ps po)
  case Nil
  then show ?case by (subst dir_remove_loop.simps) (simp add: name_used_def)
next
  case (Cons r rs)
  then have r: "rec_ok r" and d: "blk_data b = concat ps @ r @ concat rs @ rest" and
    rd: "read_dir_entry b (length (concat ps)) = Inr (rec_entry r)"
    by (auto intro: read_record)
  have off: "length (concat ps) < tail" using Cons.prems(3) rec_ne [OF r] by simp
  note cmp = compare_name_iff [OF rec_entry_wf [OF r], of name]
  show ?case
  proof (cases "rec_used r \<and> de_get_name (rec_entry r) = name")
    case True
    have nu: "name_used name (r # rs)" using True by (auto simp: name_used_def)
    have del: "delete_first name (dir_contents (r # rs)) = dir_contents rs" using True by simp
    have go: "dir_remove_loop b name tail po (length (concat ps)) =
      Some (rbind (dir_remove_at b po (length (concat ps)) (rec_entry r)) (\<lambda>b. Inr (b, True)))"
      using off rd True cmp by (subst dir_remove_loop.simps) simp
    show ?thesis
    proof (cases ps rule: rev_cases)
      case Nil
      let ?de = "(rec_entry r)\<lparr>de_inode := 0, de_file_type := Unknown\<rparr>"
      have "de_wf ?de" using rec_entry_wf [OF r] by (simp add: de_wf_def)
      from write_over_record [OF r d this] obtain r' where
        r': "block_write_offset b (length (concat ps)) (de_to_bytes ?de) = Inr (b\<lparr>blk_data := concat ps @ r' @ concat rs @ rest\<rparr>)"
        "rec_ok r'" "rec_entry r' = ?de" "length r' = length r" by auto
      have "\<not> rec_used r'" using r'(3) by (simp add: rec_used_def)
      then show ?thesis using nu del go r' Cons.prems Nil
        by (auto simp: dir_remove_at_def intro!: exI [of _ "r' # rs"])
    next
      case (snoc qs p)
      have p: "rec_ok p" using Cons.prems(1) snoc by simp
      have po: "po = Some (length (concat qs))" using Cons.prems(5) snoc by simp
      have rp: "read_dir_entry b (length (concat qs)) = Inr (rec_entry p)"
        using read_record [OF p, of b "concat qs" "r @ concat rs @ rest"] d snoc by simp
      have "length p + length r < 65536" using Cons.prems(3,4) snoc by simp
      then have a: "add_chk (de_rec_len (rec_entry p)) (de_rec_len (rec_entry r)) =
          Inr (de_rec_len (rec_entry p) + de_rec_len (rec_entry r))"
        "unat (de_rec_len (rec_entry p) + de_rec_len (rec_entry r)) = length (p @ r)"
        using p r by (simp_all add: add_chk_def unat_add_lt)
      let ?de = "(rec_entry p)\<lparr>de_rec_len := de_rec_len (rec_entry p) + de_rec_len (rec_entry r)\<rparr>"
      have de: "de_wf ?de" using rec_entry_wf [OF p] by (simp add: de_wf_def)
      have l: "unat (de_rec_len ?de) = length (p @ r)" "8 + unat (de_name_len ?de) \<le> length (p @ r)" "length (p @ r) mod 4 = 0"
        using a(2) p r by (simp_all add: rec_ok_def rec_entry_def mod_add_eq [symmetric])
      note w = record_written [OF de l]
      let ?r' = "de_to_bytes ?de @ drop (8 + unat (de_name_len ?de)) (p @ r)"
      have d': "blk_data b = concat qs @ (p @ r) @ concat rs @ rest" using d snoc by simp
      have "dir_remove_at b po (length (concat ps)) (rec_entry r) = Inr (b\<lparr>blk_data := concat (qs @ ?r' # rs) @ rest\<rparr>)"
        using write_region [OF d' _ refl, of "de_to_bytes ?de"] de l(2) rp a(1)
        by (simp add: dir_remove_at_def po)
      moreover have "dir_contents (qs @ ?r' # rs) = dir_contents ps @ delete_first name (dir_contents (r # rs))"
      proof -
        have "rec_used ?r' = rec_used p" "entry_binding (rec_entry ?r') = entry_binding (rec_entry p)"
          using w(2) by (simp_all add: rec_used_def entry_binding_def de_get_name_def)
        then show ?thesis using del snoc by simp
      qed
      moreover have "length (concat (qs @ ?r' # rs)) = tail"
        using w(3) Cons.prems(3) snoc by (simp only: concat_append concat.simps length_append) simp
      moreover have "\<forall>x \<in> set (qs @ ?r' # rs). rec_ok x" using w(1) Cons.prems(1) snoc by auto
      ultimately show ?thesis using nu go
        by (auto intro!: exI [of _ "qs @ ?r' # rs"] simp del: dir_contents_simps concat_append)
    qed
  next
    case False
    have step: "dir_remove_loop b name tail po (length (concat ps)) =
        dir_remove_loop b name tail (Some (length (concat ps))) (length (concat (ps @ [r])))"
      using off rd r False cmp by (subst dir_remove_loop.simps) auto
    have nu: "name_used name (r # rs) = name_used name rs" using False by (auto simp: name_used_def)
    have "\<forall>x \<in> set ((ps @ [r]) @ rs). rec_ok x" "blk_data b = concat (ps @ [r]) @ concat rs @ rest"
      "tail = length (concat (ps @ [r])) + length (concat rs)"
      "Some (length (concat ps)) = (if ps @ [r] = [] then None else Some (length (concat (butlast (ps @ [r])))))"
      using Cons.prems by auto
    note IH = Cons.IH [OF this(1-3) Cons.prems(4) this(4)]
    have "dir_contents (ps @ [r]) @ delete_first name (dir_contents rs) =
      dir_contents ps @ delete_first name (dir_contents (r # rs))" using False by auto
    then show ?thesis using IH by (simp only: step nu)
  qed
qed

section \<open>Validation accepts exactly the record sequences\<close>

lemma rec_ok_small: "rec_ok r \<Longrightarrow> length r < 65536"
  using unat_lt [of "of_le (slice r 4 2) :: u16"] by (simp add: rec_ok_def)

lemma validate_step:
  assumes o: "off < n" and n: "n \<le> length data"
  shows "validate_leaf_loop data n off =
    (if (\<exists>k. off + k \<le> n \<and> rec_ok (slice data off k))
     then validate_leaf_loop data n (off + unat (of_le (slice data (off + 4) 2) :: u16)) else Inl (Err EIO)) \<and>
    (\<forall>k. off + k \<le> n \<and> rec_ok (slice data off k) \<longrightarrow> k = unat (of_le (slice data (off + 4) 2) :: u16))"
proof -
  let ?rl = "unat (of_le (slice data (off + 4) 2) :: u16)"
  have k: "k = ?rl" if "off + k \<le> n" "rec_ok (slice data off k)" for k
  proof -
    have "length (slice data off k) = k" using that(1) n by simp
    moreover have "8 \<le> k" using that calculation by (simp add: rec_ok_def)
    ultimately show ?thesis using that(2) by (simp add: rec_ok_def slice_slice)
  qed
  show ?thesis
  proof (cases "n - off < 8")
    case True
    have "\<not> (\<exists>k. off + k \<le> n \<and> rec_ok (slice data off k))"
    proof
      assume "\<exists>k. off + k \<le> n \<and> rec_ok (slice data off k)"
      then obtain k where "off + k \<le> n" "rec_ok (slice data off k)" by blast
      then show False using rec_pos [of "slice data off k"] n True by simp
    qed
    moreover have "validate_leaf_loop data n off = Inl (Err EIO)" using o True by (subst validate_leaf_loop.simps) simp
    ultimately show ?thesis by auto
  next
    case False
    let ?f = "slice data (off + 4) 4" and ?r = "slice data off ?rl"
    have f: "index_range data (off + 4) 4 = Inr ?f" using False n by (simp add: index_range_def)
    have t: "take 2 ?f = slice data (off + 4) 2" by (simp add: slice_def)
    have b: "?f ! 2 = data ! (off + 6)" "?f ! 3 = data ! (off + 7)" using False n by (simp_all add: nth_slice add.commute)
    have iff: "(\<exists>k. off + k \<le> n \<and> rec_ok (slice data off k)) \<longleftrightarrow>
        \<not> (?rl < 8 \<or> ?rl mod 4 \<noteq> 0 \<or> off + ?rl > n \<or> unat (data ! (off + 6)) > ?rl - 8 \<or> data ! (off + 7) > 7)"
    proof
      assume "\<exists>k. off + k \<le> n \<and> rec_ok (slice data off k)"
      then have r: "off + ?rl \<le> n" "rec_ok ?r" using k by blast+
      then have l: "length ?r = ?rl" "8 \<le> ?rl" using n by (auto simp: rec_ok_def)
      then have "?r ! 6 = data ! (off + 6)" "?r ! 7 = data ! (off + 7)" using r(1) n by (simp_all add: nth_slice)
      then show "\<not> (?rl < 8 \<or> ?rl mod 4 \<noteq> 0 \<or> off + ?rl > n \<or> unat (data ! (off + 6)) > ?rl - 8 \<or> data ! (off + 7) > 7)"
        using r l by (auto simp: rec_ok_def not_less)
    next
      assume a: "\<not> (?rl < 8 \<or> ?rl mod 4 \<noteq> 0 \<or> off + ?rl > n \<or> unat (data ! (off + 6)) > ?rl - 8 \<or> data ! (off + 7) > 7)"
      then have l: "length ?r = ?rl" "8 \<le> ?rl" using n by auto
      then have "?r ! 6 = data ! (off + 6)" "?r ! 7 = data ! (off + 7)" "slice ?r 4 2 = slice data (off + 4) 2"
        using a n by (simp_all add: nth_slice slice_slice)
      then have "rec_ok ?r" using a l by (auto simp: rec_ok_def not_less)
      then show "\<exists>k. off + k \<le> n \<and> rec_ok (slice data off k)" using a by (auto simp: not_less)
    qed
    have "validate_leaf_loop data n off = (if ?rl < 8 \<or> ?rl mod 4 \<noteq> 0 \<or> off + ?rl > n \<or>
        unat (data ! (off + 6)) > ?rl - 8 \<or> data ! (off + 7) > 7 then Inl (Err EIO)
      else validate_leaf_loop data n (off + ?rl))"
      by (subst validate_leaf_loop.simps) (simp only: o f False if_True if_False rbind.simps Let_def t b file_type_code.simps)
    moreover have "\<forall>k. off + k \<le> n \<and> rec_ok (slice data off k) \<longrightarrow> k = ?rl" using k by blast
    ultimately show ?thesis by (simp only: iff) (auto split: if_splits)
  qed
qed

lemma validate_loop_records:
  "validate_leaf_loop data n off = Inr m \<Longrightarrow> off \<le> n \<Longrightarrow> n \<le> length data \<Longrightarrow>
   \<exists>rs. (\<forall>r \<in> set rs. rec_ok r) \<and> concat rs = slice data off (n - off) \<and> m = n"
proof (induction data n off rule: validate_leaf_loop.induct)
  case (1 data n off)
  show ?case
  proof (cases "off < n")
    case True
    let ?rl = "unat (of_le (slice data (off + 4) 2) :: u16)"
    have r: "off + ?rl \<le> n" "rec_ok (slice data off ?rl)" and
      m: "validate_leaf_loop data n (off + ?rl) = Inr m"
      using validate_step [OF True 1(4)] 1(2) by (auto split: if_splits)
    have f: "index_range data (off + 4) 4 = Inr (slice data (off + 4) 4)" and n8: "\<not> n - off < 8"
      using r rec_pos [OF r(2)] 1(4) by (auto simp: index_range_def)
    have "slice data (off + 4) 2 = take 2 (slice data (off + 4) 4)" by (simp add: slice_def)
    moreover have "unat (slice data (off + 4) 4 ! 2) = unat (slice data off ?rl ! 6)"
      "slice data (off + 4) 4 ! 3 = slice data off ?rl ! 7" "length (slice data off ?rl) = ?rl"
      using r rec_pos [OF r(2)] 1(4) by (simp_all add: nth_slice add.commute)
    ultimately have "\<exists>rs. (\<forall>r \<in> set rs. rec_ok r) \<and> concat rs = slice data (off + ?rl) (n - (off + ?rl)) \<and> m = n"
      using 1(1) [OF True n8 f refl refl refl] r m 1(4) by (auto simp: rec_ok_def not_less)
    then obtain rs where rs: "\<forall>r \<in> set rs. rec_ok r" "concat rs = slice data (off + ?rl) (n - (off + ?rl))" "m = n" by blast
    have "slice data off (n - off) = slice data off ?rl @ slice data (off + ?rl) (n - (off + ?rl))"
    proof -
      have e: "n - off = ?rl + (n - (off + ?rl))" using r(1) by simp
      show ?thesis by (subst e, simp add: slice_def take_add add.commute)
    qed
    then show ?thesis using rs r(2) by (intro exI [of _ "slice data off ?rl # rs"]) auto
  next
    case False
    then show ?thesis using 1(2,3) by (subst (asm) validate_leaf_loop.simps) (auto simp: slice_def intro: exI [of _ "[]"])
  qed
qed

lemma validate_loop_layout:
  "\<forall>r \<in> set rs. rec_ok r \<Longrightarrow> data = pre @ concat rs @ rest \<Longrightarrow> n = length pre + length (concat rs) \<Longrightarrow>
   validate_leaf_loop data n (length pre) = Inr n"
proof (induction rs arbitrary: pre)
  case Nil
  then show ?case by (subst validate_leaf_loop.simps) simp
next
  case (Cons r rs)
  have r: "rec_ok r" using Cons.prems(1) by simp
  have o: "length pre < n" and l: "n \<le> length data" using Cons.prems rec_ne [OF r] by auto
  have s: "slice data (length pre) (length r) = r" using Cons.prems(2) by (simp add: slice_def)
  have k: "length pre + length r \<le> n \<and> rec_ok (slice data (length pre) (length r))"
    using r s Cons.prems(3) by simp
  then have "unat (of_le (slice data (length pre + 4) 2) :: u16) = length r"
    using validate_step [OF o l] by auto
  then have "validate_leaf_loop data n (length pre) = validate_leaf_loop data n (length (pre @ r))"
    using validate_step [OF o l] k by auto
  then show ?case using Cons.IH [of "pre @ r"] Cons.prems by simp
qed

text \<open>The format of the tail, apart from its checksum, and the checksum test.\<close>

definition dir_tail_ok :: "block \<Rightarrow> bool" where
  "dir_tail_ok b \<longleftrightarrow> slice (blk_data b) DIR_TAIL_OFFSET 8 = [0, 0, 0, 0, 12, 0, 0, 0xDE]"

definition dir_csum_ok :: "block \<Rightarrow> MetadataChecksumSeed \<Rightarrow> InodeId \<Rightarrow> u32 \<Rightarrow> bool" where
  "dir_csum_ok b seed ino ino_gen \<longleftrightarrow>
     crc32 (crc32 (seed_crc32c seed (le32 ino)) (le32 ino_gen)) (take DIR_TAIL_OFFSET (blk_data b)) =
     of_le (slice (blk_data b) (DIR_TAIL_OFFSET + 8) 4)"

lemma dir_data_end_le [simp]: "dir_data_end mc \<le> BLOCK_SIZE"
  by (simp add: dir_data_end_def BLOCK_SIZE_def)

lemma tail_read:
  assumes "block_wf b"
  shows "read_dir_tail b DIR_TAIL_OFFSET = Inr
    \<lparr>det_reserved_zero1 = of_le (slice (blk_data b) DIR_TAIL_OFFSET 4),
     det_rec_len = of_le (slice (blk_data b) (DIR_TAIL_OFFSET + 4) 2),
     det_reserved_zero2 = blk_data b ! (DIR_TAIL_OFFSET + 6), det_reserved_ft = blk_data b ! (DIR_TAIL_OFFSET + 7),
     det_checksum = of_le (slice (blk_data b) (DIR_TAIL_OFFSET + 8) 4)\<rparr>"
  using assms by (simp add: read_dir_tail_def block_read_from_def det_from_bytes_def block_wf_def BLOCK_SIZE_def
      DIR_TAIL_OFFSET_def slice_def add.commute)

lemma det_csum_ok:
  "block_wf b \<Longrightarrow> det_csum seed ino ino_gen b =
    Inr (crc32 (crc32 (seed_crc32c seed (le32 ino)) (le32 ino_gen)) (take DIR_TAIL_OFFSET (blk_data b)))"
  by (simp add: det_csum_def block_wf_def DIR_TAIL_OFFSET_def index_range_def slice_0)

lemma length_8_cases: "length xs = 8 \<Longrightarrow> \<exists>a b c d e f g h. xs = [a, b, c, d, e, f, g, h]"
  by (auto simp: numeral_eq_Suc length_Suc_conv)

lemma tail_fields:
  assumes "block_wf b" and t: "read_dir_tail b DIR_TAIL_OFFSET = Inr t"
  shows "dir_tail_ok b \<longleftrightarrow> det_reserved_zero1 t = 0 \<and> unat (det_rec_len t) = 12 \<and> det_reserved_zero2 t = 0 \<and> det_reserved_ft t = 0xDE"
proof -
  let ?d = "slice (blk_data b) DIR_TAIL_OFFSET 8"
  have l: "length ?d = 8" using assms(1) by (simp add: block_wf_def BLOCK_SIZE_def DIR_TAIL_OFFSET_def)
  have s: "slice (blk_data b) DIR_TAIL_OFFSET 4 = take 4 ?d" "slice (blk_data b) (DIR_TAIL_OFFSET + 4) 2 = take 2 (drop 4 ?d)"
    by (simp_all add: slice_def drop_take add.commute)
  have i: "blk_data b ! (DIR_TAIL_OFFSET + 6) = ?d ! 6" "blk_data b ! (DIR_TAIL_OFFSET + 7) = ?d ! 7"
    using assms(1) by (simp_all add: nth_slice block_wf_def BLOCK_SIZE_def DIR_TAIL_OFFSET_def)
  have tt: "det_reserved_zero1 t = of_le (take 4 ?d)" "det_rec_len t = of_le (take 2 (drop 4 ?d))"
    "det_reserved_zero2 t = ?d ! 6" "det_reserved_ft t = ?d ! 7"
    using t tail_read [OF assms(1)] by (auto simp: s i)
  have z: "of_le (take 4 ?d) = (0 :: u32) \<longleftrightarrow> take 4 ?d = [0, 0, 0, 0]"
  proof
    assume "of_le (take 4 ?d) = (0 :: u32)"
    then have "take 4 ?d = le32 0" using le_roundtrip(2) [of "take 4 ?d"] l by simp
    then show "take 4 ?d = [0, 0, 0, 0]" by (simp add: le_bytes_def upt_rec)
  qed simp
  have r: "unat (of_le (take 2 (drop 4 ?d)) :: u16) = 12 \<longleftrightarrow> take 2 (drop 4 ?d) = [12, 0]"
  proof
    assume "unat (of_le (take 2 (drop 4 ?d)) :: u16) = 12"
    then have "of_le (take 2 (drop 4 ?d)) = (12 :: u16)" using unat_inject [of "of_le (take 2 (drop 4 ?d))" "12 :: u16"] by simp
    then have "take 2 (drop 4 ?d) = le16 12" using le_roundtrip(1) [of "take 2 (drop 4 ?d)"] l by simp
    then show "take 2 (drop 4 ?d) = [12, 0]" by (simp add: le_bytes_def upt_rec)
  qed simp
  obtain a0 a1 a2 a3 a4 a5 a6 a7 where d: "?d = [a0, a1, a2, a3, a4, a5, a6, a7]"
    using length_8_cases [OF l] by blast
  have "?d = [0, 0, 0, 0, 12, 0, 0, 0xDE] \<longleftrightarrow>
      take 4 ?d = [0, 0, 0, 0] \<and> take 2 (drop 4 ?d) = [12, 0] \<and> ?d ! 6 = 0 \<and> ?d ! 7 = 0xDE"
    unfolding d by simp
  then show ?thesis by (simp add: dir_tail_ok_def tt z r)
qed

lemma validate_leaf_iff:
  assumes w: "block_wf b"
  shows "validate_leaf b seed ino ino_gen mc = Inr () \<longleftrightarrow>
    (\<exists>rs. dir_layout b mc rs) \<and> (mc \<longrightarrow> dir_tail_ok b \<and> dir_csum_ok b seed ino ino_gen)"
proof -
  let ?n = "dir_data_end mc"
  have n: "?n \<le> length (blk_data b)" using w by (simp add: block_wf_def)
  have loop: "validate_leaf_loop (blk_data b) ?n 0 = Inr m \<longleftrightarrow> m = ?n \<and> (\<exists>rs. dir_layout b mc rs)" for m
  proof
    assume "validate_leaf_loop (blk_data b) ?n 0 = Inr m"
    from validate_loop_records [OF this _ n] show "m = ?n \<and> (\<exists>rs. dir_layout b mc rs)"
      using w by (auto simp: dir_layout_def slice_0)
  next
    assume a: "m = ?n \<and> (\<exists>rs. dir_layout b mc rs)"
    then obtain rs where rs: "dir_layout b mc rs" by blast
    then have c: "concat rs = take ?n (blk_data b)" and ok: "\<forall>r \<in> set rs. rec_ok r" by (auto simp: dir_layout_def)
    have "blk_data b = [] @ concat rs @ drop ?n (blk_data b)" by (simp add: c)
    from validate_loop_layout [OF ok this, of ?n] show "validate_leaf_loop (blk_data b) ?n 0 = Inr m"
      using a n by (simp add: c)
  qed
  obtain t where t: "read_dir_tail b DIR_TAIL_OFFSET = Inr t"
    "det_checksum t = of_le (slice (blk_data b) (DIR_TAIL_OFFSET + 8) 4)"
    using tail_read [OF w] by simp
  have e: "mc \<Longrightarrow> ?n = DIR_TAIL_OFFSET" by (simp add: dir_data_end_def DIR_TAIL_OFFSET_def)
  show ?thesis
  proof (cases mc)
    case True
    then show ?thesis
      using loop t tail_fields [OF w t(1)] e det_csum_ok [OF w, of seed ino ino_gen]
      by (auto simp: validate_leaf_def Let_def rbind_eq_Inr det_set_checksum_def dir_csum_ok_def)
  next
    case False
    then show ?thesis using loop by (auto simp: validate_leaf_def Let_def rbind_eq_Inr)
  qed
qed

section \<open>Whole blocks\<close>

lemma layout_split:
  assumes "dir_layout b mc rs"
  shows "blk_data b = [] @ concat rs @ drop (dir_data_end mc) (blk_data b)"
    "dir_data_end mc = length ([] :: bytes) + length (concat rs)" "\<forall>r \<in> set rs. rec_ok r"
    "length (concat rs) = dir_data_end mc"
proof -
  show "blk_data b = [] @ concat rs @ drop (dir_data_end mc) (blk_data b)"
    using assms by (simp add: dir_layout_def)
  show "length (concat rs) = dir_data_end mc" using assms by (simp add: dir_layout_def block_wf_def)
  then show "dir_data_end mc = length ([] :: bytes) + length (concat rs)" by simp
  show "\<forall>r \<in> set rs. rec_ok r" using assms by (simp add: dir_layout_def)
qed

lemma layout_build:
  assumes "dir_layout b mc rs" "\<forall>r \<in> set rs'. rec_ok r" "length (concat rs') = dir_data_end mc"
  shows "dir_layout (b\<lparr>blk_data := concat rs' @ drop (dir_data_end mc) (blk_data b)\<rparr>) mc rs'"
proof -
  have "length (blk_data b) = BLOCK_SIZE" using assms(1) by (simp add: dir_layout_def block_wf_def)
  then show ?thesis using assms by (simp add: dir_layout_def block_wf_def)
qed

lemma dir_data_end_small: "dir_data_end mc < 65536"
  by (simp add: dir_data_end_def BLOCK_SIZE_def)

lemma dir_get_rep:
  "dir_layout b mc rs \<Longrightarrow> dir_get b name mc = Some (Inr (map_option fst (map_of (dir_contents rs) name)))"
  using get_loop_rep [OF layout_split(3,1,2)] by (simp add: dir_get_def)

lemma dir_list_rep:
  "dir_layout b mc rs \<Longrightarrow> dir_list b es mc = Some (Inr (es @ map rec_entry (filter rec_used rs)))"
  using list_loop_rep [OF layout_split(3,1,2)] by (simp add: dir_list_def)

lemma map_of_insert_at:
  "k \<le> length xs \<Longrightarrow> map_of (insert_at k (n, v) xs) n' =
    (if n' = n \<and> n \<notin> set (map fst (take k xs)) then Some v else map_of xs n')"
proof (induction xs arbitrary: k)
  case (Cons x xs)
  then show ?case by (cases k; cases x) (auto simp: insert_at_def)
qed (auto simp: insert_at_def)

section \<open>Properties\<close>

text \<open>C29: on every block \<^verbatim>\<open>validate_leaf\<close> accepts, lookup and listing end, do not panic, and
  read the same list of names: \<^verbatim>\<open>get\<close> finds the first entry of a name, \<^verbatim>\<open>list\<close> returns the
  entries in use, in order.\<close>

theorem dir_validated_reads:
  assumes "block_wf b" "validate_leaf b seed ino ino_gen mc = Inr ()"
  shows "\<exists>rs. dir_layout b mc rs \<and>
    (\<forall>name. dir_get b name mc = Some (Inr (map_option fst (map_of (dir_contents rs) name)))) \<and>
    (\<exists>es. dir_list b [] mc = Some (Inr es) \<and> map entry_binding es = dir_contents rs)"
proof -
  obtain rs where "dir_layout b mc rs" using assms validate_leaf_iff by blast
  then show ?thesis
    by (intro exI [of _ rs]) (simp add: dir_get_rep dir_list_rep dir_contents_def)
qed

text \<open>C30: insertion ends without a panic; it succeeds exactly when some record has room for the
  aligned entry; then the block is again a sequence of records, the new name is in the list of
  names, all others keep their place, the bytes after the entries are untouched and a lookup of the
  new name, if it was not there before, finds the inode; a failed insertion leaves the block as it was.\<close>

theorem dir_insert_correct:
  assumes l: "dir_layout b mc rs" and n: "length name \<le> 255" and i: "ino \<noteq> 0"
  shows "\<exists>b' ok. dir_insert b name ino ft mc = Some (Inr (b', ok)) \<and>
    ok = (\<exists>r \<in> set rs. required_size (length name) \<le> rec_free r) \<and>
    (\<not> ok \<longrightarrow> b' = b) \<and>
    (ok \<longrightarrow> (\<exists>rs' k. dir_layout b' mc rs' \<and> k \<le> length (dir_contents rs) \<and>
       dir_contents rs' = insert_at k (name, ino, ft) (dir_contents rs) \<and>
       drop (dir_data_end mc) (blk_data b') = drop (dir_data_end mc) (blk_data b) \<and>
       (name \<notin> fst ` set (dir_contents rs) \<longrightarrow> dir_get b' name mc = Some (Inr (Some ino)))))"
proof -
  let ?fit = "\<exists>r \<in> set rs. required_size (length name) \<le> rec_free r"
  have ok: "\<forall>r \<in> set rs. rec_ok r \<and> length r < 65536" using l rec_ok_small by (auto simp: dir_layout_def)
  note rep = insert_loop_rep [OF ok layout_split(1,2) [OF l] n i, where ft = ft]
  show ?thesis
  proof (cases ?fit)
    case True
    with rep obtain rs' k where r: "dir_insert b name ino ft mc =
        Some (Inr (b\<lparr>blk_data := concat rs' @ drop (dir_data_end mc) (blk_data b)\<rparr>, True))"
      "\<forall>r \<in> set rs'. rec_ok r" "length (concat rs') = length (concat rs)" "k \<le> length (dir_contents rs)"
      "dir_contents rs' = insert_at k (name, ino, ft) (dir_contents rs)" by (auto simp: dir_insert_def)
    let ?b = "b\<lparr>blk_data := concat rs' @ drop (dir_data_end mc) (blk_data b)\<rparr>"
    have l': "dir_layout ?b mc rs'" using layout_build [OF l r(2)] r(3) layout_split(4) [OF l] by simp
    have "dir_get ?b name mc = Some (Inr (Some ino))" if "name \<notin> fst ` set (dir_contents rs)"
      using that r(4) dir_get_rep [OF l', of name] by (auto simp: r(5) map_of_insert_at dest: in_set_takeD)
    moreover have "drop (dir_data_end mc) (blk_data ?b) = drop (dir_data_end mc) (blk_data b)"
      using r(3) layout_split(4) [OF l] by simp
    ultimately show ?thesis using r l' True by (intro exI [of _ ?b] exI [of _ True]) auto
  next
    case False
    then show ?thesis using rep by (intro exI [of _ b] exI [of _ False]) (simp add: dir_insert_def)
  qed
qed

text \<open>C31: removal ends without a panic and succeeds exactly when the name is in the block; then
  the block is again a sequence of records whose names are the old ones less the first occurrence
  of the name, so a name that occurred once is gone; otherwise the block is unchanged.\<close>

theorem dir_remove_correct:
  assumes l: "dir_layout b mc rs"
  shows "\<exists>b' ok. dir_remove b name mc = Some (Inr (b', ok)) \<and>
    ok = (name \<in> fst ` set (dir_contents rs)) \<and>
    (\<not> ok \<longrightarrow> b' = b) \<and>
    (ok \<longrightarrow> (\<exists>rs'. dir_layout b' mc rs' \<and> dir_contents rs' = delete_first name (dir_contents rs) \<and>
       drop (dir_data_end mc) (blk_data b') = drop (dir_data_end mc) (blk_data b) \<and>
       (distinct (map fst (dir_contents rs)) \<longrightarrow>
          (\<forall>n. dir_get b' n mc = (if n = name then Some (Inr None) else dir_get b n mc)))))"
proof -
  have nu: "name_used name rs = (name \<in> fst ` set (dir_contents rs))" by (auto simp: name_used_def)
  have ok: "\<forall>r \<in> set ([] @ rs). rec_ok r" using l by (auto simp: dir_layout_def)
  have d: "blk_data b = concat [] @ concat rs @ drop (dir_data_end mc) (blk_data b)" using layout_split(1) [OF l] by simp
  have e: "dir_data_end mc = length (concat ([] :: bytes list)) + length (concat rs)" using layout_split(2) [OF l] by simp
  note rep = remove_loop_rep [OF ok d e dir_data_end_small refl, of name]
  show ?thesis
  proof (cases "name_used name rs")
    case True
    with rep obtain rs' where r: "dir_remove b name mc =
        Some (Inr (b\<lparr>blk_data := concat rs' @ drop (dir_data_end mc) (blk_data b)\<rparr>, True))"
      "\<forall>r \<in> set rs'. rec_ok r" "length (concat rs') = dir_data_end mc"
      "dir_contents rs' = delete_first name (dir_contents rs)" by (auto simp: dir_remove_def)
    let ?b = "b\<lparr>blk_data := concat rs' @ drop (dir_data_end mc) (blk_data b)\<rparr>"
    have l': "dir_layout ?b mc rs'" by (rule layout_build [OF l r(2,3)])
    have "dir_get ?b n mc = (if n = name then Some (Inr None) else dir_get b n mc)"
      if "distinct (map fst (dir_contents rs))" for n
      using dir_get_rep [OF l', of n] dir_get_rep [OF l, of n] by (simp add: r(4) map_of_delete_first [OF that])
    moreover have "drop (dir_data_end mc) (blk_data ?b) = drop (dir_data_end mc) (blk_data b)"
      using r(3) by simp
    ultimately show ?thesis using r l' True nu by (intro exI [of _ ?b] exI [of _ True]) auto
  next
    case False
    then show ?thesis using rep nu by (intro exI [of _ b] exI [of _ False]) (simp add: dir_remove_def)
  qed
qed

text \<open>Replacement, the step of an atomic rename onto an existing name: it ends without a
  panic, succeeds exactly when the name is in the block, and then changes what the name's first
  entry points to and nothing else.\<close>

theorem dir_replace_correct:
  assumes l: "dir_layout b mc rs" and i: "ino \<noteq> 0"
  shows "\<exists>b' ok. dir_replace b name ino ft mc = Some (Inr (b', ok)) \<and>
    ok = (name \<in> fst ` set (dir_contents rs)) \<and>
    (\<not> ok \<longrightarrow> b' = b) \<and>
    (ok \<longrightarrow> (\<exists>rs'. dir_layout b' mc rs' \<and> dir_contents rs' = update_first name (ino, ft) (dir_contents rs) \<and>
       drop (dir_data_end mc) (blk_data b') = drop (dir_data_end mc) (blk_data b) \<and>
       (\<forall>n. dir_get b' n mc = (if n = name then Some (Inr (Some ino)) else dir_get b n mc))))"
proof -
  have nu: "name_used name rs = (name \<in> fst ` set (dir_contents rs))" by (auto simp: name_used_def)
  note rep = replace_loop_rep [OF layout_split(3,1,2) [OF l] i, where ft = ft and name = name]
  show ?thesis
  proof (cases "name_used name rs")
    case True
    with rep obtain rs' where r: "dir_replace b name ino ft mc =
        Some (Inr (b\<lparr>blk_data := concat rs' @ drop (dir_data_end mc) (blk_data b)\<rparr>, True))"
      "\<forall>r \<in> set rs'. rec_ok r" "length (concat rs') = length (concat rs)"
      "dir_contents rs' = update_first name (ino, ft) (dir_contents rs)" by (auto simp: dir_replace_def)
    let ?b = "b\<lparr>blk_data := concat rs' @ drop (dir_data_end mc) (blk_data b)\<rparr>"
    have l': "dir_layout ?b mc rs'" using layout_build [OF l r(2)] r(3) layout_split(4) [OF l] by simp
    have "dir_get ?b n mc = (if n = name then Some (Inr (Some ino)) else dir_get b n mc)" for n
      using dir_get_rep [OF l', of n] dir_get_rep [OF l, of n] True nu by (simp add: r(4) map_of_update_first)
    moreover have "drop (dir_data_end mc) (blk_data ?b) = drop (dir_data_end mc) (blk_data b)"
      using r(3) layout_split(4) [OF l] by simp
    ultimately show ?thesis using r l' True nu by (intro exI [of _ ?b] exI [of _ True]) auto
  next
    case False
    then show ?thesis using rep nu by (intro exI [of _ b] exI [of _ False]) (simp add: dir_replace_def)
  qed
qed

text \<open>Sealing. A well-formed block with a proper tail, sealed for its directory, validates for
  that directory with the same entries; afterwards a change of any single byte before the tail
  is rejected.\<close>

theorem dir_set_checksum_validates:
  assumes l: "dir_layout b True rs" and t: "dir_tail_ok b"
  shows "\<exists>b'. dir_set_checksum b seed ino ino_gen = Inr b' \<and> dir_layout b' True rs \<and>
    validate_leaf b' seed ino ino_gen True = Inr () \<and>
    (\<forall>i x. i < DIR_TAIL_OFFSET \<and> x \<noteq> blk_data b' ! i \<longrightarrow>
       validate_leaf (b'\<lparr>blk_data := (blk_data b')[i := x]\<rparr>) seed ino ino_gen True \<noteq> Inr ())"
proof -
  have w: "block_wf b" and len: "length (blk_data b) = 4096" using l by (auto simp: dir_layout_def block_wf_def BLOCK_SIZE_def)
  let ?T = "DIR_TAIL_OFFSET" and ?s = "crc32 (seed_crc32c seed (le32 ino)) (le32 ino_gen)"
  have T: "?T = 4084" by (simp add: DIR_TAIL_OFFSET_def BLOCK_SIZE_def)
  let ?c = "crc32 ?s (take ?T (blk_data b))"
  have t8: "slice (blk_data b) ?T 8 = [0, 0, 0, 0, 12, 0, 0, 0xDE]" using t by (simp add: dir_tail_ok_def)
  define tb where "tb = [0, 0, 0, 0, 12, 0, 0, 0xDE] @ le32 ?c"
  obtain tl where tl: "read_dir_tail b ?T = Inr tl" using tail_read [OF w] by blast
  have z: "le32 0 = [0, 0, 0, 0]" "le16 12 = [12, 0]" by (simp_all add: le_bytes_def upt_rec)
  have f: "det_reserved_zero1 tl = 0" "unat (det_rec_len tl) = 12" "det_reserved_zero2 tl = 0" "det_reserved_ft tl = 0xDE"
    using tail_fields [OF w tl] t by auto
  then have "det_rec_len tl = 12" using unat_inject [of "det_rec_len tl" 12] by simp
  then have tb: "det_to_bytes (tl\<lparr>det_checksum := ?c\<rparr>) = tb"
    using f by (simp add: det_to_bytes_def tb_def z)
  have tbl: "length tb = 12" by (simp add: tb_def)
  define b' where "b' = b\<lparr>blk_data := splice (blk_data b) ?T tb\<rparr>"
  have set: "dir_set_checksum b seed ino ino_gen = Inr b'"
    using len tbl by (simp add: dir_set_checksum_def tl det_set_checksum_def det_csum_ok [OF w] tb block_write_offset_def b'_def)
      (simp add: T)
  have w': "block_wf b'" using w tbl len by (simp add: b'_def block_wf_def T BLOCK_SIZE_def)
  have pre: "take ?T (blk_data b') = take ?T (blk_data b)"
    using len by (simp add: b'_def take_splice_ge T)
  have l': "dir_layout b' True rs" using l w' pre by (simp add: dir_layout_def dir_data_end_def DIR_TAIL_OFFSET_def)
  have sl: "slice (blk_data b') ?T 12 = tb" using len tbl by (simp add: b'_def T)
  have "slice (blk_data b') ?T 8 = take 8 (slice (blk_data b') ?T 12)" by (simp add: slice_def)
  then have t': "dir_tail_ok b'" by (simp add: dir_tail_ok_def sl tb_def)
  have "slice (blk_data b') (?T + 8) 4 = drop 8 (slice (blk_data b') ?T 12)" by (simp add: slice_def drop_take add.commute)
  then have c': "of_le (slice (blk_data b') (?T + 8) 4) = ?c" by (simp only: sl) (simp add: tb_def)
  have csum: "dir_csum_ok b' seed ino ino_gen" using c' pre by (simp add: dir_csum_ok_def)
  have detect: "validate_leaf (b'\<lparr>blk_data := (blk_data b')[i := x]\<rparr>) seed ino ino_gen True \<noteq> Inr ()"
    if i: "i < ?T" and x: "x \<noteq> blk_data b' ! i" for i x
  proof -
    let ?b = "b'\<lparr>blk_data := (blk_data b')[i := x]\<rparr>"
    have wb: "block_wf ?b" using w' by (simp add: block_wf_def)
    have "slice (blk_data ?b) (?T + 8) 4 = slice (blk_data b') (?T + 8) 4" using i by (simp add: slice_def)
    moreover have "take ?T (blk_data ?b) = (take ?T (blk_data b'))[i := x]" by (simp add: take_update_swap)
    moreover have "crc32 ?s ((take ?T (blk_data b'))[i := x]) \<noteq> crc32 ?s (take ?T (blk_data b'))"
      using crc32_list_update [of i "take ?T (blk_data b')" ?s x] i x w' by (simp add: block_wf_def BLOCK_SIZE_def T)
    ultimately have "\<not> dir_csum_ok ?b seed ino ino_gen" using csum by (simp add: dir_csum_ok_def)
    then show ?thesis using validate_leaf_iff [OF wb] by simp
  qed
  have "validate_leaf b' seed ino ino_gen True = Inr ()"
    using validate_leaf_iff [OF w'] l' t' csum by blast
  then show ?thesis using set l' detect by blast
qed

text \<open>\<^verbatim>\<open>init\<close> makes every block an empty directory block with a proper tail.\<close>

theorem dir_init_empty:
  assumes "block_wf b"
  shows "\<exists>b' rs. dir_init b mc = Inr b' \<and> dir_layout b' mc rs \<and> dir_contents rs = [] \<and> (mc \<longrightarrow> dir_tail_ok b')"
proof -
  have len: "length (blk_data b) = 4096" using assms by (simp add: block_wf_def BLOCK_SIZE_def)
  let ?n = "dir_data_end mc"
  have n: "?n \<in> {4084, 4096}" by (simp add: dir_data_end_def BLOCK_SIZE_def)
  obtain de where de: "de_new 0 (word_of_nat ?n) [] Unknown = Inr de" "de_wf de" "de_inode de = 0"
    "de_rec_len de = word_of_nat ?n" "unat (de_name_len de) = 0"
    using de_new_ok [of "[]" 0 "word_of_nat ?n" Unknown] by auto
  let ?a = "take ?n (blk_data b)" and ?z = "drop ?n (blk_data b)"
  have d: "blk_data b = [] @ ?a @ ?z" by simp
  have la: "length ?a = ?n" using len n by auto
  have ln: "unat (de_rec_len de) = length ?a" "8 + unat (de_name_len de) \<le> length ?a" "length ?a mod 4 = 0"
    using de(4,5) la n by (auto simp: unat_word_of_nat)
  note w = record_written [OF de(2) ln]
  let ?r = "de_to_bytes de @ drop (8 + unat (de_name_len de)) ?a"
  have w1: "block_write_offset b 0 (de_to_bytes de) = Inr (b\<lparr>blk_data := ?r @ ?z\<rparr>)"
    using write_region [OF d, of "de_to_bytes de" 0] de(2) ln(2) by simp
  have ul: "\<not> rec_used ?r" using w(2) de(3) by (simp add: rec_used_def)
  show ?thesis
  proof (cases mc)
    case False
    have nz: "?n = 4096" using False by (simp add: dir_data_end_def BLOCK_SIZE_def)
    have "dir_init b mc = Inr (b\<lparr>blk_data := ?r @ ?z\<rparr>)" using False de(1) w1 by (simp add: dir_init_def)
    moreover have "dir_layout (b\<lparr>blk_data := ?r @ ?z\<rparr>) mc [?r]"
      using w(1,3) la len nz by (simp add: dir_layout_def block_wf_def BLOCK_SIZE_def)
    ultimately show ?thesis using False ul by (intro exI [of _ "b\<lparr>blk_data := ?r @ ?z\<rparr>"] exI [of _ "[?r]"]) simp
  next
    case True
    have nz: "?n = 4084" using True by (simp add: dir_data_end_def BLOCK_SIZE_def)
    let ?t = "det_to_bytes det_new"
    have tl: "length ?t = 12" by (simp add: det_to_bytes_def)
    have lz: "length ?z = 12" using len nz by simp
    have d2: "blk_data (b\<lparr>blk_data := ?r @ ?z\<rparr>) = ?r @ ?z @ []" by simp
    have o: "?n = length ?r" using w(3) la by simp
    have w2: "block_write_offset (b\<lparr>blk_data := ?r @ ?z\<rparr>) ?n ?t = Inr (b\<lparr>blk_data := ?r @ ?t\<rparr>)"
      using write_region [OF d2 _ o, of ?t] tl lz by simp
    let ?b = "b\<lparr>blk_data := ?r @ ?t\<rparr>"
    have "dir_init b mc = Inr ?b" using True de(1) w1 w2 by (simp add: dir_init_def)
    moreover have "dir_layout ?b mc [?r]"
      using w(1,3) la tl nz o by (simp add: dir_layout_def block_wf_def BLOCK_SIZE_def)
    moreover have "dir_tail_ok ?b"
    proof -
      have "slice (blk_data ?b) DIR_TAIL_OFFSET 8 = take 8 ?t"
        using o nz by (simp add: slice_def DIR_TAIL_OFFSET_def BLOCK_SIZE_def)
      then show ?thesis by (simp add: dir_tail_ok_def det_to_bytes_def det_new_def le_bytes_def upt_rec)
    qed
    ultimately show ?thesis using ul by (intro exI [of _ ?b] exI [of _ "[?r]"] conjI impI) simp_all
  qed
qed

section \<open>Witnesses\<close>

text \<open>A block with one entry, named \<^verbatim>\<open>A\<close>, for inode 12, with and without a checksum tail.\<close>

definition w_rec :: "u16 \<Rightarrow> bytes" where
  "w_rec n = le32 12 @ le16 n @ [1, 1, 65] @ replicate (unat n - 9) 0"

definition w_dir :: block where
  "w_dir = \<lparr>blk_id = 40, blk_data = w_rec 4096\<rparr>"

definition w_dir_tail :: block where
  "w_dir_tail = \<lparr>blk_id = 40, blk_data = w_rec 4084 @ [0, 0, 0, 0, 12, 0, 0, 0xDE, 0, 0, 0, 0]\<rparr>"

lemma w_rec_fields:
  assumes "12 \<le> unat n" "unat n mod 4 = 0"
  shows "rec_ok (w_rec n)" "length (w_rec n) = unat n" "rec_used (w_rec n)"
    "entry_binding (rec_entry (w_rec n)) = ([65], 12, RegularFile)"
proof -
  have s: "slice (w_rec n) 4 2 = le16 n" "slice (w_rec n) 0 4 = le32 12" "w_rec n ! 6 = 1" "w_rec n ! 7 = 1"
    "slice (w_rec n) 8 1 = [65]"
    by (simp_all add: w_rec_def slice_def nth_append)
  show l: "length (w_rec n) = unat n" using assms by (simp add: w_rec_def)
  show "rec_ok (w_rec n)" using assms l s by (simp add: rec_ok_def)
  show "rec_used (w_rec n)" by (simp only: rec_used_def rec_entry_def s of_le_roundtrip) simp
  show "entry_binding (rec_entry (w_rec n)) = ([65], 12, RegularFile)"
    using s(5) by (simp add: entry_binding_def rec_entry_def de_get_name_def s file_type_of_code_def take_Cons' del: One_nat_def)
qed

lemma w_dir_layout: "dir_layout w_dir False [w_rec 4096]"
  using w_rec_fields [of 4096] by (simp add: dir_layout_def w_dir_def block_wf_def BLOCK_SIZE_def dir_data_end_def)

lemma w_dir_tail_layout: "dir_layout w_dir_tail True [w_rec 4084]" "dir_tail_ok w_dir_tail"
  using w_rec_fields [of 4084]
  by (simp_all add: dir_layout_def w_dir_tail_def block_wf_def BLOCK_SIZE_def dir_data_end_def dir_tail_ok_def
      DIR_TAIL_OFFSET_def slice_def)

theorem dir_validated_reads_witness:
  "validate_leaf w_dir 0 2 0 False = Inr () \<and> dir_get w_dir [65] False \<noteq> None"
proof -
  have w: "block_wf w_dir" using w_dir_layout by (simp add: dir_layout_def)
  have v: "validate_leaf w_dir 0 2 0 False = Inr ()" using validate_leaf_iff [OF w] w_dir_layout by blast
  show ?thesis using dir_validated_reads [OF w v] v by auto
qed

theorem dir_insert_correct_witness:
  "\<exists>b'. dir_insert w_dir [66] 13 Directory False = Some (Inr (b', True)) \<and> dir_get b' [66] False = Some (Inr (Some 13))"
proof -
  have c: "dir_contents [w_rec 4096] = [([65], 12, RegularFile)]" using w_rec_fields [of 4096] by simp
  have f: "rec_free (w_rec 4096) = 4084"
    using w_rec_fields [of 4096] by (simp add: rec_free_def de_used_size_def rec_entry_def required_size_def div_ceil_def w_rec_def nth_append)
  have q: "required_size (Suc 0) = 12" by (simp add: required_size_def div_ceil_def)
  show ?thesis
    using dir_insert_correct [OF w_dir_layout, of "[66]" 13 Directory] by (simp add: c f q del: dir_contents_simps) auto
qed

theorem dir_remove_correct_witness:
  "\<exists>b'. dir_remove w_dir [65] False = Some (Inr (b', True)) \<and> dir_get b' [65] False = Some (Inr None)"
proof -
  have c: "dir_contents [w_rec 4096] = [([65], 12, RegularFile)]" using w_rec_fields [of 4096] by simp
  show ?thesis using dir_remove_correct [OF w_dir_layout, of "[65]"] by (simp add: c del: dir_contents_simps) (metis (full_types))
qed

theorem dir_replace_correct_witness:
  "\<exists>b'. dir_replace w_dir [65] 99 SymLink False = Some (Inr (b', True)) \<and> dir_get b' [65] False = Some (Inr (Some 99))"
proof -
  have c: "dir_contents [w_rec 4096] = [([65], 12, RegularFile)]" using w_rec_fields [of 4096] by simp
  show ?thesis using dir_replace_correct [OF w_dir_layout, of 99 "[65]" SymLink] by (simp add: c del: dir_contents_simps) (metis (full_types))
qed

theorem dir_set_checksum_validates_witness:
  "\<exists>b'. dir_set_checksum w_dir_tail 5 2 0 = Inr b' \<and> validate_leaf b' 5 2 0 True = Inr ()"
  using dir_set_checksum_validates [OF w_dir_tail_layout, of 5 2 0] by blast

theorem dir_init_empty_witness: "\<exists>b'. dir_init w_dir True = Inr b' \<and> dir_tail_ok b'"
proof -
  have "block_wf w_dir" using w_dir_layout by (simp add: dir_layout_def)
  from dir_init_empty [OF this, of True] show ?thesis by blast
qed

end
