(* ===== verification/Xattr_Block.thy ===== *)
theory Xattr_Block
  imports Block_Device Super_Block "HOL-Library.List_Lexorder"
begin

text \<open>
  External extended attribute blocks, \<^verbatim>\<open>src/ext4_defs/xattr.rs\<close>: header, entries, names with
  their prefix index, the block checksum, the validator used before a block is released, and
  lookup, listing, insertion and removal. The entry table grows up from byte 32, the values grow
  down from the end of the block. The lemmas show that the operations keep that layout and
  implement a finite list of (name, value) pairs, and that the validator and the writer disagree
  on the alignment of values.
\<close>

section \<open>Header and checksum\<close>

record xattr_header =
  xh_magic :: u32
  xh_refcount :: u32
  xh_blocks :: u32
  xh_hash :: u32
  xh_checksum :: u32
  xh_reserved :: "u32 list"

definition XATTR_MAGIC :: u32 where "XATTR_MAGIC = 0xEA020000"

definition xattr_header_new :: xattr_header where
  "xattr_header_new = \<lparr>xh_magic = XATTR_MAGIC, xh_refcount = 1, xh_blocks = 1, xh_hash = 0, xh_checksum = 0,
     xh_reserved = [0, 0, 0]\<rparr>"

definition xattr_header_to_bytes :: "xattr_header \<Rightarrow> bytes" where
  "xattr_header_to_bytes h =
     le32 (xh_magic h) @ le32 (xh_refcount h) @ le32 (xh_blocks h) @ le32 (xh_hash h) @
     le32 (xh_checksum h) @ le32s (xh_reserved h)"

definition xattr_header_from_bytes :: "bytes \<Rightarrow> xattr_header res" where
  "xattr_header_from_bytes bs0 =
     (if length bs0 < 32 then Inl Panic else Inr (
       rd 4 of_le bs0 (\<lambda>m bs. rd 4 of_le bs (\<lambda>r bs. rd 4 of_le bs (\<lambda>b bs. rd 4 of_le bs (\<lambda>h bs.
       rd 4 of_le bs (\<lambda>c bs. \<lparr>xh_magic = m, xh_refcount = r, xh_blocks = b, xh_hash = h, xh_checksum = c,
         xh_reserved = of_le32s (take 12 bs)\<rparr>)))))))"

definition xattr_block_checksum :: "MetadataChecksumSeed \<Rightarrow> PBlockId \<Rightarrow> bytes \<Rightarrow> u32 option" where
  "xattr_block_checksum seed block_id blk =
     (if length blk \<noteq> BLOCK_SIZE then None
      else
        let csum = seed_crc32c seed (le64 block_id);
            csum = crc32 csum (take 16 blk);
            csum = crc32 csum [0, 0, 0, 0] in
        Some (crc32 csum (drop 20 blk)))"

section \<open>Entries\<close>

record xattr_entry =
  xe_name_len :: u8
  xe_name_index :: u8
  xe_value_offset :: u16
  xe_value_inum :: u32
  xe_value_size :: u32
  xe_hash :: u32
  xe_name :: bytes

definition xe_from_bytes :: "bytes \<Rightarrow> xattr_entry res" where
  "xe_from_bytes bs =
     (if length bs < 16 then Inl Panic
      else
        let name_len = bs ! 0 in
        rbind (index_range bs 16 (unat name_len)) (\<lambda>nm.
          Inr \<lparr>xe_name_len = name_len, xe_name_index = bs ! 1, xe_value_offset = of_le (slice bs 2 2),
               xe_value_inum = of_le (slice bs 4 4), xe_value_size = of_le (slice bs 8 4),
               xe_hash = of_le (slice bs 12 4), xe_name = nm @ replicate (255 - unat name_len) 0\<rparr>))"

definition xe_to_bytes :: "xattr_entry \<Rightarrow> bytes" where
  "xe_to_bytes e =
     [xe_name_len e, xe_name_index e] @ le16 (xe_value_offset e) @ le32 (xe_value_inum e) @
     le32 (xe_value_size e) @ le32 (xe_hash e) @ take (unat (xe_name_len e)) (xe_name e)"

text \<open>Strings are their UTF-8 bytes; the prefixes are ASCII.\<close>

definition ascii :: "string \<Rightarrow> bytes" where
  "ascii s = map of_char s"

definition xattr_prefixes :: "(bytes \<times> u8) list" where
  "xattr_prefixes =
     [(ascii ''user.'', 1), (ascii ''system.posix_acl_access.'', 2), (ascii ''system.posix_acl_default.'', 3),
      (ascii ''trusted.'', 4), (ascii ''security.'', 6), (ascii ''system.'', 7)]"

definition strip_prefix :: "bytes \<Rightarrow> bytes \<Rightarrow> bytes option" where
  "strip_prefix p s = (if take (length p) s = p then Some (drop (length p) s) else None)"

fun match_prefixes :: "(bytes \<times> u8) list \<Rightarrow> bytes \<Rightarrow> u8 \<times> bytes" where
  "match_prefixes [] name = (0, name)"
| "match_prefixes ((p, i) # ps) name =
     (case strip_prefix p name of Some stripped \<Rightarrow> (i, stripped) | None \<Rightarrow> match_prefixes ps name)"

definition match_name :: "bytes \<Rightarrow> u8 \<times> bytes" where
  "match_name name = match_prefixes xattr_prefixes name"

fun index_prefix :: "(bytes \<times> u8) list \<Rightarrow> u8 \<Rightarrow> bytes" where
  "index_prefix [] i = []"
| "index_prefix ((p, j) # ps) i = (if i = j then p else index_prefix ps i)"

definition xe_get_name :: "xattr_entry \<Rightarrow> bytes" where
  "xe_get_name e = index_prefix xattr_prefixes (xe_name_index e) @ take (unat (xe_name_len e)) (xe_name e)"

definition xe_new :: "bytes \<Rightarrow> nat \<Rightarrow> nat \<Rightarrow> xattr_entry res" where
  "xe_new name value_size value_offset =
     (case match_name name of (name_index, name) \<Rightarrow>
        if length name \<le> 255 then
          Inr \<lparr>xe_name_len = word_of_nat (length name), xe_name_index = name_index,
               xe_value_offset = word_of_nat value_offset, xe_value_inum = 0,
               xe_value_size = word_of_nat value_size, xe_hash = 0,
               xe_name = name @ replicate (255 - length name) 0\<rparr>
        else Inl Panic)"

definition xe_required_size :: "bytes \<Rightarrow> nat" where
  "xe_required_size name = div_ceil (16 + length (snd (match_name name))) 4 * 4"

definition xe_used_size :: "xattr_entry \<Rightarrow> nat" where
  "xe_used_size e = div_ceil (16 + unat (xe_name_len e)) 4 * 4"

datatype ordering = Less | Equal | Greater

definition cmp_of :: "'a::linorder \<Rightarrow> 'a \<Rightarrow> ordering" where
  "cmp_of a b = (if a < b then Less else if a = b then Equal else Greater)"

definition xe_compare_name :: "xattr_entry \<Rightarrow> bytes \<Rightarrow> ordering" where
  "xe_compare_name e name =
     (case match_name name of (name_index, name) \<Rightarrow>
        (case cmp_of (xe_name_index e) name_index of
           Equal \<Rightarrow>
             (case cmp_of (xe_name_len e) (word_of_nat (length name)) of
                Equal \<Rightarrow> cmp_of (take (unat (xe_name_len e)) (xe_name e)) name
              | o1 \<Rightarrow> o1)
         | o2 \<Rightarrow> o2))"

section \<open>The validator used before a release\<close>

text \<open>The loop over the entry table. \<open>None\<close> is a rejected block; otherwise the end of the table,
  whether some value is in an inode, and the value ranges.\<close>

definition align4 :: "nat \<Rightarrow> nat" where
  "align4 n = (n + 3) div 4 * 4"

function release_loop :: "bytes \<Rightarrow> nat \<Rightarrow> bool \<Rightarrow> (nat \<times> nat) list \<Rightarrow> (nat \<times> bool \<times> (nat \<times> nat) list) option" where
  "release_loop blk entry_start has_ea values =
     (if entry_start + 4 > BLOCK_SIZE then None
      else if slice blk entry_start 4 = [0, 0, 0, 0] then Some (entry_start, has_ea, values)
      else if entry_start + 16 > BLOCK_SIZE then None
      else
        let name_len = unat (blk ! entry_start);
            value_offset = unat (of_le (slice blk (entry_start + 2) 2) :: u16);
            value_inum = (of_le (slice blk (entry_start + 4) 4) :: u32);
            value_size = unat (of_le (slice blk (entry_start + 8) 4) :: u32);
            name_end = entry_start + 16 + name_len in
        if name_end > BLOCK_SIZE \<or> 0 \<in> set (slice blk (entry_start + 16) name_len) then None
        else
          let next_entry = entry_start + align4 (16 + name_len) in
          if next_entry + 4 > BLOCK_SIZE then None
          else if value_inum \<noteq> 0 then
            if value_size = 0 then None else release_loop blk next_entry True values
          else if value_size \<noteq> 0 then
            let value_end = value_offset + align4 value_size in
            if value_offset mod 4 \<noteq> 0 \<or> value_end > BLOCK_SIZE then None
            else release_loop blk next_entry has_ea (values @ [(value_offset, value_end)])
          else release_loop blk next_entry has_ea values)"
  by pat_completeness auto
termination
  by (relation "measure (\<lambda>(blk, entry_start, has_ea, values). BLOCK_SIZE - entry_start)")
     (auto simp: align4_def)

declare release_loop.simps [simp del]

fun windows_overlap :: "(nat \<times> nat) list \<Rightarrow> bool" where
  "windows_overlap (a # b # rs) = (fst b < snd a \<or> windows_overlap (b # rs))"
| "windows_overlap _ = False"

definition validate_xattr_block_for_release :: "bytes \<Rightarrow> (xattr_header \<times> bool) option" where
  "validate_xattr_block_for_release blk =
     (if length blk \<noteq> BLOCK_SIZE then None
      else case xattr_header_from_bytes (take 32 blk) of
        Inl _ \<Rightarrow> None
      | Inr header \<Rightarrow>
          if xh_magic header \<noteq> XATTR_MAGIC \<or> xh_refcount header = 0 \<or> xh_blocks header \<noteq> 1 then None
          else case release_loop blk 32 False [] of
            None \<Rightarrow> None
          | Some (entry_start, has_ea_inode, values) \<Rightarrow>
              let names_end = entry_start + 4 in
              if \<exists>r \<in> set values. fst r < names_end \<or> snd r > BLOCK_SIZE then None
              else if windows_overlap (sort_key fst values) then None
              else Some (header, has_ea_inode))"

section \<open>Operations\<close>

definition xattr_init :: "block \<Rightarrow> block res" where
  "xattr_init b =
     block_write_offset (b\<lparr>blk_data := replicate (length (blk_data b)) 0\<rparr>) 0 (xattr_header_to_bytes xattr_header_new)"

definition read_xattr_header :: "block \<Rightarrow> xattr_header res" where
  "read_xattr_header b = xattr_header_from_bytes (blk_data b)"

definition xattr_verify_checksum :: "block \<Rightarrow> MetadataChecksumSeed \<Rightarrow> PBlockId \<Rightarrow> bool res" where
  "xattr_verify_checksum b seed block_id =
     rbind (read_xattr_header b) (\<lambda>header. Inr (
       case xattr_block_checksum seed block_id (blk_data b) of
         None \<Rightarrow> False | Some csum \<Rightarrow> csum = xh_checksum header))"

definition xattr_update_checksum :: "block \<Rightarrow> MetadataChecksumSeed \<Rightarrow> PBlockId \<Rightarrow> (block \<times> bool) res" where
  "xattr_update_checksum b seed block_id =
     rbind (read_xattr_header b) (\<lambda>header.
     let header = header\<lparr>xh_checksum := 0\<rparr> in
     rbind (block_write_offset b 0 (xattr_header_to_bytes header)) (\<lambda>b.
     case xattr_block_checksum seed block_id (blk_data b) of
       None \<Rightarrow> Inr (b, False)
     | Some csum \<Rightarrow>
         rbind (block_write_offset b 0 (xattr_header_to_bytes (header\<lparr>xh_checksum := csum\<rparr>))) (\<lambda>b. Inr (b, True))))"

text \<open>Reading the entry at an offset. The walks read only where the offset is inside the block.\<close>

definition read_xattr_entry :: "block \<Rightarrow> nat \<Rightarrow> xattr_entry res" where
  "read_xattr_entry b off =
     rbind (if off \<le> length (blk_data b) then Inr (drop off (blk_data b)) else Inl Panic) xe_from_bytes"

lemma xe_used_size_pos: "0 < xe_used_size e"
  using div_ceil_bounds [of 4 "16 + unat (xe_name_len e)"] by (simp add: xe_used_size_def)

function xattr_get_loop :: "block \<Rightarrow> bytes \<Rightarrow> nat \<Rightarrow> bytes option res" where
  "xattr_get_loop b name entry_start =
     (if entry_start < BLOCK_SIZE then
        rbind (index_at (blk_data b) entry_start) (\<lambda>c.
        if c = 0 then Inr None
        else
          rbind (read_xattr_entry b entry_start) (\<lambda>entry.
          if xe_compare_name entry name = Equal then
            rbind (index_range (blk_data b) (unat (xe_value_offset entry)) (unat (xe_value_size entry))) (\<lambda>v.
              Inr (Some v))
          else xattr_get_loop b name (entry_start + xe_used_size entry)))
      else Inr None)"
  by pat_completeness auto
termination
  by (relation "measure (\<lambda>(b, name, entry_start). BLOCK_SIZE - entry_start)")
     (auto intro: diff_less_mono2 simp: xe_used_size_pos)

definition xattr_get :: "block \<Rightarrow> bytes \<Rightarrow> bytes option res" where
  "xattr_get b name = xattr_get_loop b name 32"

function xattr_list_loop :: "block \<Rightarrow> bytes list \<Rightarrow> nat \<Rightarrow> bytes list res" where
  "xattr_list_loop b names entry_start =
     (if entry_start < BLOCK_SIZE then
        rbind (index_at (blk_data b) entry_start) (\<lambda>c.
        if c = 0 then Inr names
        else
          rbind (read_xattr_entry b entry_start) (\<lambda>entry.
            xattr_list_loop b (names @ [xe_get_name entry]) (entry_start + xe_used_size entry)))
      else Inr names)"
  by pat_completeness auto
termination
  by (relation "measure (\<lambda>(b, names, entry_start). BLOCK_SIZE - entry_start)")
     (auto intro: diff_less_mono2 simp: xe_used_size_pos)

definition xattr_list :: "block \<Rightarrow> bytes list res" where
  "xattr_list b = xattr_list_loop b [] 32"

text \<open>\<open>slice::copy_within\<close> and \<open>slice::fill\<close>.\<close>

definition copy_within :: "bytes \<Rightarrow> nat \<Rightarrow> nat \<Rightarrow> nat \<Rightarrow> bytes res" where
  "copy_within xs a z dest =
     (if a \<le> z \<and> z \<le> length xs \<and> dest \<le> length xs - (z - a) then Inr (splice xs dest (slice xs a (z - a)))
      else Inl Panic)"

definition fill_zero :: "bytes \<Rightarrow> nat \<Rightarrow> nat \<Rightarrow> bytes res" where
  "fill_zero xs a z =
     (if a \<le> z \<and> z \<le> length xs then Inr (splice xs a (replicate (z - a) 0)) else Inl Panic)"

text \<open>The first walk of \<open>insert\<close>: end of the table, offset of the last value, and, once an entry
  greater than the new name was met, the insertion positions.\<close>

function insert_scan :: "block \<Rightarrow> bytes \<Rightarrow> nat \<Rightarrow> nat \<Rightarrow> (nat \<times> nat) option \<Rightarrow> (nat \<times> nat \<times> (nat \<times> nat) option) res" where
  "insert_scan b name p_entry p_value ins =
     (if p_entry < BLOCK_SIZE then
        rbind (index_at (blk_data b) p_entry) (\<lambda>c.
        if c = 0 then Inr (p_entry, p_value, ins)
        else
          rbind (read_xattr_entry b p_entry) (\<lambda>entry.
            insert_scan b name (p_entry + xe_used_size entry) (unat (xe_value_offset entry))
              (if ins = None \<and> xe_compare_name entry name = Greater then Some (p_entry, p_value) else ins)))
      else Inr (p_entry, p_value, ins))"
  by pat_completeness auto
termination
  by (relation "measure (\<lambda>(b, name, p_entry, p_value, ins). BLOCK_SIZE - p_entry)")
     (auto intro: diff_less_mono2 simp: xe_used_size_pos)

text \<open>The update of the value offsets of the moved entries by \<open>f\<close>, a checked subtraction or addition.\<close>

function update_offsets :: "(u16 \<Rightarrow> u16 res) \<Rightarrow> block \<Rightarrow> nat \<Rightarrow> nat \<Rightarrow> block res" where
  "update_offsets f b p_entry2 p_end =
     (if p_entry2 < p_end then
        rbind (read_xattr_entry b p_entry2) (\<lambda>entry.
        rbind (f (xe_value_offset entry)) (\<lambda>off.
        rbind (block_write_offset b p_entry2 (xe_to_bytes (entry\<lparr>xe_value_offset := off\<rparr>))) (\<lambda>b.
          update_offsets f b (p_entry2 + xe_used_size entry) p_end)))
      else Inr b)"
  by pat_completeness auto
termination
  by (relation "measure (\<lambda>(f, b, p_entry2, p_end). p_end - p_entry2)")
     (auto intro: diff_less_mono2 simp: xe_used_size_pos)

declare xattr_get_loop.simps [simp del] xattr_list_loop.simps [simp del] insert_scan.simps [simp del]
  update_offsets.simps [simp del]

definition xattr_insert :: "block \<Rightarrow> bytes \<Rightarrow> bytes \<Rightarrow> (block \<times> bool) res" where
  "xattr_insert b name value =
     (let ins_entry_size = xe_required_size name; ins_value_size = length value in
      rbind (insert_scan b name 32 BLOCK_SIZE None) (\<lambda>(p_entry, p_value, ins).
      let (ins_entry_pos, ins_value_pos) = (case ins of None \<Rightarrow> (p_entry, p_value) | Some p \<Rightarrow> p) in
      rbind (usize_sub p_value p_entry) (\<lambda>blank.
      if blank < ins_entry_size + ins_value_size + 1 then Inr (b, False)
      else
        rbind (copy_within (blk_data b) ins_entry_pos p_entry (ins_entry_pos + ins_entry_size)) (\<lambda>d.
        rbind (fill_zero d ins_entry_pos (ins_entry_pos + ins_entry_size)) (\<lambda>d.
        rbind (usize_sub p_value ins_value_size) (\<lambda>dest.
        rbind (copy_within d p_value ins_value_pos dest) (\<lambda>d.
        rbind (usize_sub ins_value_pos ins_value_size) (\<lambda>new_value_pos.
        rbind (fill_zero d new_value_pos ins_value_pos) (\<lambda>d.
        rbind (update_offsets (\<lambda>off. sub_chk off (word_of_nat ins_value_size)) (b\<lparr>blk_data := d\<rparr>)
                 (ins_entry_pos + ins_entry_size) (p_entry + ins_entry_size)) (\<lambda>b.
        rbind (xe_new name (length value) new_value_pos) (\<lambda>entry.
        rbind (block_write_offset b ins_entry_pos (xe_to_bytes entry)) (\<lambda>b.
        rbind (block_write_offset b new_value_pos value) (\<lambda>b.
          Inr (b, True))))))))))))))"

text \<open>The walk of \<open>remove\<close>: end of the table, offset of the last value, and position, value position,
  entry size and value size of the first entry with the name.\<close>

function remove_scan ::
    "block \<Rightarrow> bytes \<Rightarrow> nat \<Rightarrow> nat \<Rightarrow> (nat \<times> nat \<times> nat \<times> nat) option \<Rightarrow>
     (nat \<times> nat \<times> (nat \<times> nat \<times> nat \<times> nat) option) res" where
  "remove_scan b name p_entry p_value rem =
     (if p_entry < BLOCK_SIZE then
        rbind (index_at (blk_data b) p_entry) (\<lambda>c.
        if c = 0 then Inr (p_entry, p_value, rem)
        else
          rbind (read_xattr_entry b p_entry) (\<lambda>entry.
            let p_value = unat (xe_value_offset entry) in
            remove_scan b name (p_entry + xe_used_size entry) p_value
              (if rem = None \<and> xe_compare_name entry name = Equal
               then Some (p_entry, p_value, xe_used_size entry, unat (xe_value_size entry)) else rem)))
      else Inr (p_entry, p_value, rem))"
  by pat_completeness auto
termination
  by (relation "measure (\<lambda>(b, name, p_entry, p_value, rem). BLOCK_SIZE - p_entry)")
     (auto intro: diff_less_mono2 simp: xe_used_size_pos)

declare remove_scan.simps [simp del]

definition xattr_remove :: "block \<Rightarrow> bytes \<Rightarrow> (block \<times> bool) res" where
  "xattr_remove b name =
     rbind (remove_scan b name 32 BLOCK_SIZE None) (\<lambda>(p_entry, p_value, rem).
     case rem of
       None \<Rightarrow> Inr (b, False)
     | Some (rem_entry_pos, rem_value_pos, rem_entry_size, rem_value_size) \<Rightarrow>
         rbind (copy_within (blk_data b) (rem_entry_pos + rem_entry_size) p_entry rem_entry_pos) (\<lambda>d.
         rbind (usize_sub p_entry rem_entry_size) (\<lambda>new_end.
         rbind (fill_zero d new_end p_entry) (\<lambda>d.
         rbind (copy_within d p_value rem_value_pos (p_value + rem_value_size)) (\<lambda>d.
         rbind (fill_zero d p_value (p_value + rem_value_size)) (\<lambda>d.
         rbind (update_offsets (\<lambda>off. add_chk off (word_of_nat rem_value_size)) (b\<lparr>blk_data := d\<rparr>)
                  rem_entry_pos new_end) (\<lambda>b.
           Inr (b, True))))))))"

section \<open>Slots\<close>

text \<open>The entry table is a sequence of slots: an entry, its name, and padding to four bytes.\<close>

definition entry_size :: "nat \<Rightarrow> nat" where
  "entry_size n = div_ceil (16 + n) 4 * 4"

definition slot_ok :: "bytes \<Rightarrow> bool" where
  "slot_ok s \<longleftrightarrow> s \<noteq> [] \<and> s ! 0 \<noteq> 0 \<and> length s = entry_size (unat (s ! 0))"

definition slot_entry :: "bytes \<Rightarrow> xattr_entry" where
  "slot_entry s = \<lparr>xe_name_len = s ! 0, xe_name_index = s ! 1, xe_value_offset = of_le (slice s 2 2),
     xe_value_inum = of_le (slice s 4 4), xe_value_size = of_le (slice s 8 4), xe_hash = of_le (slice s 12 4),
     xe_name = slice s 16 (unat (s ! 0)) @ replicate (255 - unat (s ! 0)) 0\<rparr>"

definition slot_key :: "bytes \<Rightarrow> u8 \<times> bytes" where
  "slot_key s = (xe_name_index (slot_entry s), take (unat (xe_name_len (slot_entry s))) (xe_name (slot_entry s)))"

lemma entry_size_ge: "16 + n \<le> entry_size n"
  using div_ceil_bounds [of 4 "16 + n"] by (simp add: entry_size_def)

lemma entry_size_ge16: "16 \<le> entry_size n"
  using entry_size_ge [of n] by linarith

lemma xe_used_size_entry: "xe_used_size e = entry_size (unat (xe_name_len e))"
  by (simp add: xe_used_size_def entry_size_def)

lemma xe_required_size_entry: "xe_required_size name = entry_size (length (snd (match_name name)))"
  by (simp add: xe_required_size_def entry_size_def)

lemma u8_bound: "unat (c :: u8) \<le> 255"
  using unat_lt [of c] by simp

definition xe_wf :: "xattr_entry \<Rightarrow> bool" where
  "xe_wf e \<longleftrightarrow> length (xe_name e) = 255 \<and>
     drop (unat (xe_name_len e)) (xe_name e) = replicate (255 - unat (xe_name_len e)) 0"

lemma slot_len: "slot_ok s \<Longrightarrow> 16 + unat (s ! 0) \<le> length s"
  using entry_size_ge by (simp add: slot_ok_def)

lemma slot_used [simp]: "slot_ok s \<Longrightarrow> xe_used_size (slot_entry s) = length s"
  by (simp add: xe_used_size_entry slot_entry_def slot_ok_def)

lemma slot_entry_wf: "slot_ok s \<Longrightarrow> xe_wf (slot_entry s)"
  using slot_len [of s] u8_bound [of "s ! 0"] by (simp add: xe_wf_def slot_entry_def)

lemma xe_from_slot:
  assumes "slot_ok s"
  shows "xe_from_bytes (s @ rest) = Inr (slot_entry s)"
proof -
  have l: "16 + unat (s ! 0) \<le> length s" by (rule slot_len [OF assms])
  then have "0 < length s" "1 < length s" by linarith+
  then have n: "(s @ rest) ! 0 = s ! 0" "(s @ rest) ! Suc 0 = s ! Suc 0" by (simp_all add: nth_append)
  have sl: "o' + k \<le> 16 + unat (s ! 0) \<Longrightarrow> slice (s @ rest) o' k = slice s o' k" for o' k
    using l by (simp add: slice_def)
  have "index_range (s @ rest) 16 (unat (s ! 0)) = Inr (slice s 16 (unat (s ! 0)))"
    using l by (simp add: index_range_def sl)
  then show ?thesis using l by (simp add: xe_from_bytes_def slot_entry_def n sl Let_def)
qed

lemma read_slot:
  assumes "slot_ok s" "blk_data b = pre @ s @ rest" "off = length pre"
  shows "read_xattr_entry b off = Inr (slot_entry s)" "index_at (blk_data b) off = Inr (s ! 0)" "s ! 0 \<noteq> 0"
proof -
  show "read_xattr_entry b off = Inr (slot_entry s)"
    using xe_from_slot [OF assms(1)] assms by (simp add: read_xattr_entry_def)
  have "s \<noteq> []" "s ! 0 \<noteq> 0" using assms(1) by (auto simp: slot_ok_def)
  then show "index_at (blk_data b) off = Inr (s ! 0)" "s ! 0 \<noteq> 0"
    using assms by (simp_all add: index_at_def nth_append)
qed

lemma length_xe_to_bytes [simp]: "xe_wf e \<Longrightarrow> length (xe_to_bytes e) = 16 + unat (xe_name_len e)"
  using u8_bound [of "xe_name_len e"] by (simp add: xe_to_bytes_def xe_wf_def)

lemma slot_written:
  assumes e: "xe_wf e" "xe_name_len e \<noteq> 0" and l: "length s = entry_size (unat (xe_name_len e))"
  defines "s' \<equiv> xe_to_bytes e @ drop (16 + unat (xe_name_len e)) s"
  shows "slot_ok s'" "slot_entry s' = e" "length s' = length s"
proof -
  let ?n = "unat (xe_name_len e)"
  have nl: "length (take ?n (xe_name e)) = ?n"
    using e u8_bound [of "xe_name_len e"] by (simp add: xe_wf_def)
  show len: "length s' = length s" using e l entry_size_ge [of ?n] by (simp add: s'_def)
  have f: "slice s' 2 2 = le16 (xe_value_offset e)" "slice s' 4 4 = le32 (xe_value_inum e)"
    "slice s' 8 4 = le32 (xe_value_size e)" "slice s' 12 4 = le32 (xe_hash e)"
    "s' ! 0 = xe_name_len e" "s' ! 1 = xe_name_index e" "slice s' 16 ?n = take ?n (xe_name e)" "s' \<noteq> []"
    using nl by (simp_all add: s'_def xe_to_bytes_def slice_def nth_append)
  show "slot_ok s'" using len l e(2) f by (simp add: slot_ok_def)
  have "take ?n (xe_name e) @ replicate (255 - ?n) 0 = xe_name e"
    using e(1) by (metis append_take_drop_id xe_wf_def)
  then show "slot_entry s' = e"
    by (simp only: slot_entry_def f of_le_roundtrip) simp
qed

lemma xattr_write_region:
  assumes "blk_data b = pre @ r @ rest" "length bs \<le> length r" "off = length pre"
  shows "block_write_offset b off bs = Inr (b\<lparr>blk_data := pre @ (bs @ drop (length bs) r) @ rest\<rparr>)"
  using assms by (simp add: block_write_offset_def splice_def)

lemma cmp_of_Equal [simp]: "cmp_of a b = Equal \<longleftrightarrow> a = b"
  by (simp add: cmp_of_def)

lemma case_cmp_Equal:
  "(case cmp_of a b of Less \<Rightarrow> Less | Equal \<Rightarrow> x | Greater \<Rightarrow> Greater) = Equal \<longleftrightarrow> a = b \<and> x = Equal"
  by (auto simp: cmp_of_def)

lemma compare_Equal_iff:
  assumes "slot_ok s"
  shows "xe_compare_name (slot_entry s) name = Equal \<longleftrightarrow> slot_key s = match_name name"
proof -
  obtain i n where m: "match_name name = (i, n)" by (cases "match_name name")
  have l: "length (take (unat (xe_name_len (slot_entry s))) (xe_name (slot_entry s))) = unat (xe_name_len (slot_entry s))"
    using slot_entry_wf [OF assms] u8_bound [of "xe_name_len (slot_entry s)"] by (simp add: xe_wf_def)
  then have "take (unat (xe_name_len (slot_entry s))) (xe_name (slot_entry s)) = n \<Longrightarrow>
      word_of_nat (length n) = xe_name_len (slot_entry s)" using l by auto
  then show ?thesis
    by (auto simp: xe_compare_name_def m slot_key_def case_cmp_Equal)
qed

section \<open>Layout\<close>

type_synonym xitem = "bytes \<times> bytes"

fun items_ok :: "nat \<Rightarrow> xitem list \<Rightarrow> bool" where
  "items_ok hi [] = True"
| "items_ok hi ((s, v) # its) \<longleftrightarrow> slot_ok s \<and> unat (xe_value_size (slot_entry s)) = length v \<and>
     unat (xe_value_offset (slot_entry s)) + length v = hi \<and> items_ok (unat (xe_value_offset (slot_entry s))) its"

definition xslots :: "xitem list \<Rightarrow> bytes" where
  "xslots its = concat (map fst its)"

definition xvals :: "xitem list \<Rightarrow> bytes" where
  "xvals its = concat (rev (map snd its))"

definition xattr_contents :: "xitem list \<Rightarrow> ((u8 \<times> bytes) \<times> bytes) list" where
  "xattr_contents its = map (\<lambda>(s, v). (slot_key s, v)) its"

definition xattr_layout :: "block \<Rightarrow> xitem list \<Rightarrow> bool" where
  "xattr_layout b its \<longleftrightarrow> block_wf b \<and> items_ok BLOCK_SIZE its \<and>
     (\<exists>hdr k. length hdr = 32 \<and> 0 < k \<and> blk_data b = hdr @ xslots its @ replicate k 0 @ xvals its)"

lemma xslots_simps [simp]: "xslots [] = []" "xslots (x # xs) = fst x @ xslots xs" "xslots (xs @ ys) = xslots xs @ xslots ys"
  by (simp_all add: xslots_def)

lemma xvals_simps [simp]: "xvals [] = []" "xvals (x # xs) = xvals xs @ snd x" "xvals (xs @ ys) = xvals ys @ xvals xs"
  by (simp_all add: xvals_def)

lemma xattr_contents_simps [simp]:
  "xattr_contents [] = []" "xattr_contents ((s, v) # xs) = (slot_key s, v) # xattr_contents xs"
  "xattr_contents (xs @ ys) = xattr_contents xs @ xattr_contents ys"
  by (simp_all add: xattr_contents_def)

lemma items_ok_append: "items_ok hi (xs @ ys) \<longleftrightarrow> items_ok hi xs \<and> items_ok (hi - length (xvals xs)) ys"
proof (induction xs arbitrary: hi)
  case (Cons x xs)
  obtain s v where x: "x = (s, v)" by (cases x)
  let ?o = "unat (xe_value_offset (slot_entry s))"
  have e: "?o - length (xvals xs) = hi - length (xvals ((s, v) # xs))" if "?o + length v = hi"
    using that by simp
  show ?case
    by (cases "?o + length v = hi") (simp_all only: x append_Cons items_ok.simps Cons.IH e simp_thms conj_assoc)
qed simp

lemma items_ok_bound: "items_ok hi xs \<Longrightarrow> length (xvals xs) \<le> hi"
proof (induction xs arbitrary: hi)
  case (Cons x xs)
  then show ?case by (cases x) fastforce
qed simp

lemma items_slots: "items_ok hi xs \<Longrightarrow> (s, v) \<in> set xs \<Longrightarrow> slot_ok s"
proof (induction xs arbitrary: hi)
  case (Cons x xs)
  then show ?case by (cases x) auto
qed simp

section \<open>Lookup\<close>

lemma slot_off: "slot_ok s \<Longrightarrow> length pre + length s \<le> n \<Longrightarrow> length pre < (n :: nat)"
  using slot_len [of s] by linarith

lemma get_loop_xrep:
  "items_ok hi its \<Longrightarrow> blk_data b = pre @ xslots its @ Z @ xvals its @ rest \<Longrightarrow> Z \<noteq> [] \<Longrightarrow> hd Z = 0 \<Longrightarrow>
   length (blk_data b) = BLOCK_SIZE \<Longrightarrow> hi = BLOCK_SIZE - length rest \<Longrightarrow>
   xattr_get_loop b name (length pre) = Inr (map_of (xattr_contents its) (match_name name))"
proof (induction its arbitrary: pre rest hi)
  case Nil
  have "length (blk_data b) \<ge> length pre + length Z" using Nil(2) by simp
  then have "length pre < BLOCK_SIZE" using Nil(3,5) by (simp flip: length_greater_0_conv)
  moreover have "index_at (blk_data b) (length pre) = Inr 0"
    using Nil(2,3,4) by (simp add: index_at_def nth_append hd_conv_nth)
  ultimately show ?case by (subst xattr_get_loop.simps) simp
next
  case (Cons x its)
  obtain s v where x: "x = (s, v)" by (cases x)
  let ?e = "slot_entry s"
  have s: "slot_ok s" and sz: "unat (xe_value_size ?e) = length v" and off: "unat (xe_value_offset ?e) + length v = hi"
    and ok: "items_ok (unat (xe_value_offset ?e)) its" using Cons.prems(1) x by auto
  have d: "blk_data b = pre @ s @ xslots its @ Z @ xvals its @ v @ rest" using Cons.prems(2) x by simp
  note rd = read_slot [OF s d refl]
  have lt: "length pre < BLOCK_SIZE"
    using Cons.prems(5) d s by (intro slot_off [OF s]) simp
  have v: "index_range (blk_data b) (unat (xe_value_offset ?e)) (unat (xe_value_size ?e)) = Inr v"
  proof -
    have tl: "unat (xe_value_offset ?e) + length v + length rest = length (blk_data b)"
      using off Cons.prems(5,6) d by simp
    have "blk_data b = (pre @ s @ xslots its @ Z @ xvals its) @ v @ rest" using d by simp
    moreover have "length (pre @ s @ xslots its @ Z @ xvals its) = unat (xe_value_offset ?e)"
      using tl d by simp
    ultimately have "slice (blk_data b) (unat (xe_value_offset ?e)) (length v) = v"
      by (metis slice_append_mid)
    then show ?thesis using sz tl by (simp add: index_range_def)
  qed
  have d': "blk_data b = (pre @ s) @ xslots its @ Z @ xvals its @ (v @ rest)" using d by simp
  have t': "unat (xe_value_offset ?e) = BLOCK_SIZE - length (v @ rest)" using off Cons.prems(6) by simp
  note IH = Cons.IH [OF ok d' Cons.prems(3,4,5) t']
  show ?case
  proof (cases "slot_key s = match_name name")
    case True
    then show ?thesis using lt rd v compare_Equal_iff [OF s, of name] x
      by (subst xattr_get_loop.simps) simp
  next
    case False
    then show ?thesis using lt rd IH s compare_Equal_iff [OF s, of name] x
      by (subst xattr_get_loop.simps) auto
  qed
qed

lemma list_loop_xrep:
  "items_ok hi its \<Longrightarrow> blk_data b = pre @ xslots its @ replicate k 0 @ rest \<Longrightarrow> 0 < k \<Longrightarrow>
   length (blk_data b) = BLOCK_SIZE \<Longrightarrow>
   xattr_list_loop b ns (length pre) = Inr (ns @ map (\<lambda>(s, v). xe_get_name (slot_entry s)) its)"
proof (induction its arbitrary: pre ns hi)
  case Nil
  have "length (blk_data b) \<ge> length pre + k" using Nil(2) by simp
  then have "length pre < BLOCK_SIZE" using Nil(3,4) by simp
  moreover have "index_at (blk_data b) (length pre) = Inr 0"
    using Nil(2,3) by (simp add: index_at_def nth_append)
  ultimately show ?case by (subst xattr_list_loop.simps) simp
next
  case (Cons x its)
  obtain s v where x: "x = (s, v)" by (cases x)
  have s: "slot_ok s" and ok: "items_ok (unat (xe_value_offset (slot_entry s))) its" using Cons.prems(1) x by auto
  have d: "blk_data b = pre @ s @ xslots its @ replicate k 0 @ rest" using Cons.prems(2) x by simp
  note rd = read_slot [OF s d refl]
  have lt: "length pre < BLOCK_SIZE"
    using Cons.prems(4) d s by (intro slot_off [OF s]) simp
  have d': "blk_data b = (pre @ s) @ xslots its @ replicate k 0 @ rest" using d by simp
  show ?case using lt rd Cons.IH [OF ok d' Cons.prems(3,4), of "ns @ [xe_get_name (slot_entry s)]"] s x
    by (subst xattr_list_loop.simps) simp
qed

section \<open>Moving regions\<close>

lemma splice_append: "splice (P @ xs) (length P + off) ys = P @ splice xs off ys"
  by (simp add: splice_def)

lemma slice_append': "slice (P @ xs) (length P + off) n = slice xs off n"
  by (simp add: slice_def)

lemma shift_right:
  assumes "e \<le> length Z" "xs = P @ B @ Z @ Q" "a = length P" "z = length P + length B"
  shows "\<exists>ys. copy_within xs a z (a + e) = Inr ys \<and>
    fill_zero ys a (a + e) = Inr (P @ replicate e 0 @ B @ drop e Z @ Q)"
proof -
  let ?ys = "P @ take e (B @ Z) @ B @ drop e Z @ Q"
  have "copy_within xs a z (a + e) = Inr (splice xs (length P + e) B)"
    using assms slice_append' [of P "B @ Z @ Q" 0 "length B"] by (simp add: copy_within_def slice_def)
  moreover have "splice xs (length P + e) B = ?ys"
    using assms by (simp add: splice_append splice_def)
  moreover have "fill_zero ?ys a (a + e) = Inr (P @ replicate e 0 @ B @ drop e Z @ Q)"
  proof -
    have l: "length (take e (B @ Z)) = e" using assms(1) by simp
    have "fill_zero ?ys a (a + e) = Inr (splice ?ys (length P + 0) (replicate e 0))"
      using assms by (simp add: fill_zero_def)
    also have "splice ?ys (length P + 0) (replicate e 0) = P @ replicate e 0 @ B @ drop e Z @ Q"
      unfolding splice_append using l by (simp add: splice_def del: take_append)
    finally show ?thesis .
  qed
  ultimately show ?thesis by auto
qed

lemma shift_left:
  assumes "l \<le> length Z" "xs = P @ Z @ B @ Q" "a = length P + length Z" "z = a + length B"
  shows "\<exists>ys. copy_within xs a z (a - l) = Inr ys \<and>
    fill_zero ys (z - l) z = Inr (P @ take (length Z - l) Z @ B @ replicate l 0 @ Q)"
proof -
  let ?Z = "take (length Z - l) Z"
  let ?ys = "P @ ?Z @ B @ drop (length B) (drop (length Z - l) Z @ B) @ Q"
  have al: "a - l = length (P @ ?Z)" using assms by simp
  have sl: "slice xs a (length B) = B"
    using assms slice_append_mid [of a "P @ Z" "length B" B Q] by simp
  have "copy_within xs a z (a - l) = Inr (splice xs (a - l) B)"
    using assms sl by (simp add: copy_within_def)
  moreover have x: "xs = (P @ ?Z) @ drop (length Z - l) Z @ B @ Q" using assms(2) by simp
  have "splice xs (a - l) B = ?ys"
  proof -
    have "splice xs (length (P @ ?Z) + 0) B = (P @ ?Z) @ splice (drop (length Z - l) Z @ B @ Q) 0 B"
      unfolding x by (rule splice_append)
    moreover have "splice (drop (length Z - l) Z @ B @ Q) 0 B = B @ drop (length B) (drop (length Z - l) Z @ B) @ Q"
      using assms(1) by (simp add: splice_def)
    ultimately show ?thesis using al by simp
  qed
  moreover have "fill_zero ?ys (z - l) z = Inr (P @ ?Z @ B @ replicate l 0 @ Q)"
  proof -
    obtain D where D: "D = drop (length B) (drop (length Z - l) Z @ B)" by blast
    have len: "length D = l" using assms(1) by (simp add: D)
    have zl: "z - l = length (P @ ?Z @ B)" "z - (z - l) = l" "z \<le> length (P @ ?Z @ B @ D @ Q)" using assms len by simp_all
    have "splice (P @ ?Z @ B @ D @ Q) (z - l) (replicate l 0) = (P @ ?Z @ B) @ replicate l 0 @ Q"
      using splice_append_mid [of "z - l" "P @ ?Z @ B" "replicate l (0 :: u8)" D Q] zl(1) len by simp
    then show ?thesis using zl unfolding D [symmetric] by (simp add: fill_zero_def)
  qed
  ultimately show ?thesis by auto
qed

section \<open>Updating the value offsets\<close>

definition slot_set_offset :: "u16 \<Rightarrow> bytes \<Rightarrow> bytes" where
  "slot_set_offset off s = (let e = (slot_entry s)\<lparr>xe_value_offset := off\<rparr> in
     xe_to_bytes e @ drop (16 + unat (xe_name_len e)) s)"

lemma slot_set_offset_props:
  assumes "slot_ok s"
  shows "slot_ok (slot_set_offset off s)" "slot_entry (slot_set_offset off s) = (slot_entry s)\<lparr>xe_value_offset := off\<rparr>"
    "length (slot_set_offset off s) = length s" "slot_key (slot_set_offset off s) = slot_key s"
proof -
  let ?e = "(slot_entry s)\<lparr>xe_value_offset := off\<rparr>"
  have e: "xe_wf ?e" "xe_name_len ?e \<noteq> 0" "length s = entry_size (unat (xe_name_len ?e))"
    using slot_entry_wf [OF assms] assms by (simp_all add: xe_wf_def slot_ok_def slot_entry_def)
  note w = slot_written [OF e]
  show "slot_ok (slot_set_offset off s)" "slot_entry (slot_set_offset off s) = ?e" "length (slot_set_offset off s) = length s"
    using w by (simp_all only: slot_set_offset_def Let_def)
  then show "slot_key (slot_set_offset off s) = slot_key s" by (simp add: slot_key_def)
qed

fun shift_items :: "(u16 \<Rightarrow> u16 res) \<Rightarrow> xitem list \<Rightarrow> xitem list" where
  "shift_items f [] = []"
| "shift_items f ((s, v) # its) = (slot_set_offset (projr (f (xe_value_offset (slot_entry s)))) s, v) # shift_items f its"

lemma update_offsets_rep:
  "items_ok hi its \<Longrightarrow> \<forall>(s, v) \<in> set its. is_ok (f (xe_value_offset (slot_entry s))) \<Longrightarrow>
   blk_data b = pre @ xslots its @ rest \<Longrightarrow> q = length pre + length (xslots its) \<Longrightarrow>
   update_offsets f b (length pre) q = Inr (b\<lparr>blk_data := pre @ xslots (shift_items f its) @ rest\<rparr>)"
proof (induction its arbitrary: pre b hi)
  case Nil
  then show ?case by (subst update_offsets.simps) simp
next
  case (Cons x its)
  obtain s v where x: "x = (s, v)" by (cases x)
  let ?e = "slot_entry s"
  have s: "slot_ok s" and ok: "items_ok (unat (xe_value_offset ?e)) its" using Cons.prems(1) x by auto
  obtain off where off: "f (xe_value_offset ?e) = Inr off" using Cons.prems(2) x by (auto simp: is_ok_iff)
  have d: "blk_data b = pre @ s @ xslots its @ rest" using Cons.prems(3) x by simp
  note rd = read_slot(1) [OF s d refl]
  note sp = slot_set_offset_props [OF s, of off]
  let ?e' = "?e\<lparr>xe_value_offset := off\<rparr>"
  have wf: "xe_wf ?e'" "unat (xe_name_len ?e') = unat (s ! 0)" using slot_entry_wf [OF s] by (simp_all add: xe_wf_def slot_entry_def)
  let ?b = "b\<lparr>blk_data := pre @ slot_set_offset off s @ xslots its @ rest\<rparr>"
  have w: "block_write_offset b (length pre) (xe_to_bytes ?e') = Inr ?b"
    using xattr_write_region [OF d _ refl, of "xe_to_bytes ?e'"] wf slot_len [OF s] by (simp add: slot_set_offset_def)
  have d': "blk_data ?b = (pre @ slot_set_offset off s) @ xslots its @ rest" by simp
  have q': "q = length (pre @ slot_set_offset off s) + length (xslots its)" using Cons.prems(4) x sp(3) by simp
  have o': "\<forall>(s, v) \<in> set its. is_ok (f (xe_value_offset (slot_entry s)))" using Cons.prems(2) by simp
  have lt: "length pre < q" using Cons.prems(4) x by (intro slot_off [OF s]) simp
  have st: "length pre + xe_used_size ?e = length (pre @ slot_set_offset off s)" using s sp(3) by simp
  show ?case
    using lt rd off w Cons.IH [OF ok o' d' q'] x by (subst update_offsets.simps) (simp only: if_True rbind.simps st, simp)
qed

lemma shift_items_props:
  assumes "items_ok hi its" "\<forall>(s, v) \<in> set its. is_ok (f (xe_value_offset (slot_entry s)))"
  shows "length (xslots (shift_items f its)) = length (xslots its)" "xvals (shift_items f its) = xvals its"
    "xattr_contents (shift_items f its) = xattr_contents its"
    "\<forall>(s, v) \<in> set its. \<forall>o'. f (xe_value_offset (slot_entry s)) = Inr o' \<longrightarrow> unat o' + d = unat (xe_value_offset (slot_entry s)) + d' \<Longrightarrow>
       hi' + d = hi + d' \<Longrightarrow> items_ok hi' (shift_items f its)"
proof -
  show "length (xslots (shift_items f its)) = length (xslots its)" "xvals (shift_items f its) = xvals its"
    "xattr_contents (shift_items f its) = xattr_contents its"
    using assms(1) by (induction f its arbitrary: hi rule: shift_items.induct) (auto simp: slot_set_offset_props)
  show "items_ok hi' (shift_items f its)"
    if "\<forall>(s, v) \<in> set its. \<forall>o'. f (xe_value_offset (slot_entry s)) = Inr o' \<longrightarrow> unat o' + d = unat (xe_value_offset (slot_entry s)) + d'"
      "hi' + d = hi + d'"
    using assms that
  proof (induction f its arbitrary: hi hi' rule: shift_items.induct)
    case (2 f s v its)
    let ?o = "xe_value_offset (slot_entry s)"
    obtain o' where o': "f ?o = Inr o'" using 2(3) by (auto simp: is_ok_iff)
    have s: "slot_ok s" "unat (xe_value_size (slot_entry s)) = length v" "unat ?o + length v = hi" "items_ok (unat ?o) its"
      using 2(2) by auto
    have od: "unat o' + d = unat ?o + d'" using 2(4) o' by auto
    have "items_ok (unat o') (shift_items f its)"
      by (rule 2(1) [OF s(4)]) (use 2(3,4) od in auto)
    moreover have "unat o' + length v = hi'" using od s(3) 2(5) by simp
    ultimately show ?case using s o' slot_set_offset_props [OF s(1), of o'] by simp
  qed simp
qed

section \<open>The walks of insertion and removal\<close>

lemma scan_end:
  assumes "blk_data b = pre @ replicate k 0 @ rest" "0 < k" "length (blk_data b) = BLOCK_SIZE"
  shows "length pre < BLOCK_SIZE" "index_at (blk_data b) (length pre) = Inr 0"
proof -
  have "length (blk_data b) \<ge> length pre + k" using assms(1) by simp
  then show "length pre < BLOCK_SIZE" using assms(2,3) by simp
  show "index_at (blk_data b) (length pre) = Inr 0" using assms(1,2) by (simp add: index_at_def nth_append)
qed

definition before_new :: "bytes \<Rightarrow> xitem \<Rightarrow> bool" where
  "before_new name x \<longleftrightarrow> xe_compare_name (slot_entry (fst x)) name \<noteq> Greater"

lemma insert_scan_rep:
  "items_ok hi its \<Longrightarrow> blk_data b = pre @ xslots its @ replicate k 0 @ rest \<Longrightarrow> 0 < k \<Longrightarrow>
   length (blk_data b) = BLOCK_SIZE \<Longrightarrow>
   \<exists>r. insert_scan b name (length pre) hi ins = Inr (length pre + length (xslots its), hi - length (xvals its), r) \<and>
     (ins \<noteq> None \<longrightarrow> r = ins) \<and>
     (ins = None \<longrightarrow> (case r of None \<Rightarrow> (length pre + length (xslots its), hi - length (xvals its)) | Some p \<Rightarrow> p) =
       (length pre + length (xslots (takeWhile (before_new name) its)), hi - length (xvals (takeWhile (before_new name) its))))"
proof (induction its arbitrary: pre hi ins)
  case Nil
  then show ?case using scan_end [of b pre k rest] by (subst insert_scan.simps) simp
next
  case (Cons x its)
  obtain s v where x: "x = (s, v)" by (cases x)
  let ?e = "slot_entry s"
  have s: "slot_ok s" and off: "unat (xe_value_offset ?e) = hi - length v" "length v \<le> hi"
    and ok: "items_ok (unat (xe_value_offset ?e)) its" using Cons.prems(1) x by auto
  have d: "blk_data b = pre @ s @ xslots its @ replicate k 0 @ rest" using Cons.prems(2) x by simp
  note rd = read_slot [OF s d refl]
  have lt: "length pre < BLOCK_SIZE" using Cons.prems(4) d by (intro slot_off [OF s]) simp
  have d': "blk_data b = (pre @ s) @ xslots its @ replicate k 0 @ rest" using d by simp
  let ?ins = "if ins = None \<and> xe_compare_name ?e name = Greater then Some (length pre, hi) else ins"
  have step: "insert_scan b name (length pre) hi ins = insert_scan b name (length (pre @ s)) (unat (xe_value_offset ?e)) ?ins"
    using lt rd s by (subst insert_scan.simps) simp
  have h: "unat (xe_value_offset ?e) - length (xvals its) = hi - length (xvals (x # its))" using off x by simp
  have l: "length (pre @ s) + length (xslots its) = length pre + length (xslots (x # its))" using x by simp
  obtain r where r0: "insert_scan b name (length (pre @ s)) (unat (xe_value_offset ?e)) ?ins =
      Inr (length (pre @ s) + length (xslots its), unat (xe_value_offset ?e) - length (xvals its), r)"
    "?ins \<noteq> None \<longrightarrow> r = ?ins"
    "?ins = None \<longrightarrow> (case r of None \<Rightarrow> (length (pre @ s) + length (xslots its), unat (xe_value_offset ?e) - length (xvals its)) | Some p \<Rightarrow> p) =
       (length (pre @ s) + length (xslots (takeWhile (before_new name) its)),
        unat (xe_value_offset ?e) - length (xvals (takeWhile (before_new name) its)))"
    using Cons.IH [OF ok d' Cons.prems(3,4), of ?ins] by (elim exE conjE)
  have r: "insert_scan b name (length pre) hi ins = Inr (length pre + length (xslots (x # its)), hi - length (xvals (x # its)), r)"
    "?ins \<noteq> None \<Longrightarrow> r = ?ins"
    "?ins = None \<Longrightarrow> (case r of None \<Rightarrow> (length pre + length (xslots (x # its)), hi - length (xvals (x # its))) | Some p \<Rightarrow> p) =
       (length (pre @ s) + length (xslots (takeWhile (before_new name) its)),
        unat (xe_value_offset ?e) - length (xvals (takeWhile (before_new name) its)))"
    using r0(1) r0(2) r0(3) [unfolded h l] by (simp_all only: step h l simp_thms)
  have "(case r of None \<Rightarrow> (length pre + length (xslots (x # its)), hi - length (xvals (x # its))) | Some p \<Rightarrow> p) =
       (length pre + length (xslots (takeWhile (before_new name) (x # its))), hi - length (xvals (takeWhile (before_new name) (x # its))))"
    if n: "ins = None"
  proof (cases "xe_compare_name ?e name = Greater")
    case True
    then show ?thesis using r(2) n x by (simp add: before_new_def)
  next
    case False
    then show ?thesis using r(3) n x off by (simp add: before_new_def)
  qed
  then show ?case using r(1,2) by (intro exI [of _ r]) auto
qed

definition has_key :: "bytes \<Rightarrow> xitem \<Rightarrow> bool" where
  "has_key name x \<longleftrightarrow> slot_key (fst x) = match_name name"

lemma remove_scan_rep:
  "items_ok hi its \<Longrightarrow> blk_data b = pre @ xslots its @ replicate k 0 @ rest \<Longrightarrow> 0 < k \<Longrightarrow>
   length (blk_data b) = BLOCK_SIZE \<Longrightarrow>
   remove_scan b name (length pre) hi rem = Inr (length pre + length (xslots its), hi - length (xvals its),
     (if rem \<noteq> None then rem else case dropWhile (\<lambda>x. \<not> has_key name x) its of
        [] \<Rightarrow> None
      | (s, v) # bs \<Rightarrow> Some (length pre + length (xslots (takeWhile (\<lambda>x. \<not> has_key name x) its)),
          hi - length (xvals (takeWhile (\<lambda>x. \<not> has_key name x) its)) - length v, length s, length v)))"
proof (induction its arbitrary: pre hi rem)
  case Nil
  then show ?case using scan_end [of b pre k rest] by (cases rem) (subst remove_scan.simps, simp)+
next
  case (Cons x its)
  obtain s v where x: "x = (s, v)" by (cases x)
  let ?e = "slot_entry s"
  have s: "slot_ok s" and sz: "unat (xe_value_size ?e) = length v" and off: "unat (xe_value_offset ?e) = hi - length v" "length v \<le> hi"
    and ok: "items_ok (unat (xe_value_offset ?e)) its" using Cons.prems(1) x by auto
  have d: "blk_data b = pre @ s @ xslots its @ replicate k 0 @ rest" using Cons.prems(2) x by simp
  note rd = read_slot [OF s d refl]
  have lt: "length pre < BLOCK_SIZE" using Cons.prems(4) d by (intro slot_off [OF s]) simp
  have d': "blk_data b = (pre @ s) @ xslots its @ replicate k 0 @ rest" using d by simp
  let ?rem = "if rem = None \<and> has_key name x then Some (length pre, hi - length v, length s, length v) else rem"
  have step: "remove_scan b name (length pre) hi rem = remove_scan b name (length (pre @ s)) (unat (xe_value_offset ?e)) ?rem"
    using lt rd s sz off compare_Equal_iff [OF s, of name] x by (subst remove_scan.simps) (auto simp: has_key_def Let_def)
  have h: "unat (xe_value_offset ?e) - n = hi - (length v + n)" for n using off by simp
  note IH = Cons.IH [OF ok d' Cons.prems(3,4), of ?rem]
  consider "rem \<noteq> None" | "rem = None" "has_key name x" | "rem = None" "\<not> has_key name x" by blast
  then show ?case
  proof cases
    case 1
    then show ?thesis unfolding step IH using x by (auto simp: h add.commute)
  next
    case 2
    then show ?thesis unfolding step IH using x by (simp add: h add.commute)
  next
    case 3
    obtain W where W: "dropWhile (\<lambda>x. \<not> has_key name x) its = W" by blast
    have dw: "dropWhile (\<lambda>x. \<not> has_key name x) (x # its) = W" using 3 W by simp
    show ?thesis unfolding step IH dw W using 3 x
      by (cases W) (auto simp: h add.commute add.left_commute)
  qed
qed

section \<open>Layout arithmetic\<close>

definition xfree :: "xitem list \<Rightarrow> nat" where
  "xfree its = BLOCK_SIZE - 32 - length (xslots its) - length (xvals its)"

lemma layout_data:
  assumes "xattr_layout b its"
  obtains hdr where "length hdr = 32" "blk_data b = hdr @ xslots its @ replicate (xfree its) 0 @ xvals its"
    "0 < xfree its" "length (blk_data b) = BLOCK_SIZE" "items_ok BLOCK_SIZE its"
    "32 + length (xslots its) + xfree its + length (xvals its) = BLOCK_SIZE"
proof -
  from assms obtain hdr k where h: "length hdr = 32" "0 < k" "blk_data b = hdr @ xslots its @ replicate k 0 @ xvals its"
    and w: "block_wf b" "items_ok BLOCK_SIZE its" by (auto simp: xattr_layout_def)
  have "k = xfree its" using h w(1) by (simp add: block_wf_def xfree_def)
  moreover have "32 + length (xslots its) + k + length (xvals its) = BLOCK_SIZE" using h w(1) by (simp add: block_wf_def)
  ultimately show thesis using that h w by (simp add: block_wf_def)
qed

lemma layout_intro:
  assumes "length hdr = 32" "0 < k" "items_ok BLOCK_SIZE its" "32 + length (xslots its) + k + length (xvals its) = BLOCK_SIZE"
  shows "xattr_layout (b\<lparr>blk_data := hdr @ xslots its @ replicate k 0 @ xvals its\<rparr>) its"
  using assms by (auto simp: xattr_layout_def block_wf_def intro!: exI [of _ hdr] exI [of _ k])

lemma xattr_get_rep:
  assumes "xattr_layout b its"
  shows "xattr_get b name = Inr (map_of (xattr_contents its) (match_name name))"
proof -
  obtain hdr where h: "length hdr = 32" "blk_data b = hdr @ xslots its @ replicate (xfree its) 0 @ xvals its"
    "0 < xfree its" "length (blk_data b) = BLOCK_SIZE" "items_ok BLOCK_SIZE its"
    using layout_data [OF assms] by metis
  have d: "blk_data b = hdr @ xslots its @ replicate (xfree its) 0 @ xvals its @ []" using h(2) by simp
  show ?thesis using get_loop_xrep [OF h(5) d _ _ h(4)] h(1,3) by (simp add: xattr_get_def)
qed

lemma xattr_list_rep:
  assumes "xattr_layout b its"
  shows "xattr_list b = Inr (map (\<lambda>(s, v). xe_get_name (slot_entry s)) its)"
proof -
  obtain hdr where h: "length hdr = 32" "blk_data b = hdr @ xslots its @ replicate (xfree its) 0 @ xvals its"
    "0 < xfree its" "length (blk_data b) = BLOCK_SIZE" "items_ok BLOCK_SIZE its"
    using layout_data [OF assms] by metis
  show ?thesis using list_loop_xrep [OF h(5) h(2,3,4), of "[]"] h(1) by (simp add: xattr_list_def)
qed

lemma xe_new_ok:
  assumes "match_name name = (i, n)" "length n \<le> 255" "vs < 2 ^ 32" "vo < 2 ^ 16"
  shows "\<exists>e. xe_new name vs vo = Inr e \<and> xe_wf e \<and> xe_name_len e = word_of_nat (length n) \<and>
    unat (xe_name_len e) = length n \<and>
    unat (xe_value_size e) = vs \<and> unat (xe_value_offset e) = vo \<and> xe_value_inum e = 0 \<and>
    (xe_name_index e, take (unat (xe_name_len e)) (xe_name e)) = (i, n)"
proof -
  have l: "unat (word_of_nat (length n) :: u8) = length n" using assms(2) by (intro unat_word_of_nat) simp
  show ?thesis using assms l by (simp add: xe_new_def xe_wf_def unat_word_of_nat)
qed

lemma items_offset_ge:
  "items_ok hi its \<Longrightarrow> (s, v) \<in> set its \<Longrightarrow> hi - length (xvals its) \<le> unat (xe_value_offset (slot_entry s))"
proof (induction its arbitrary: hi)
  case (Cons x its)
  then show ?case by (cases x) fastforce
qed simp

lemma items_offset_le:
  "items_ok hi its \<Longrightarrow> (s, v) \<in> set its \<Longrightarrow> unat (xe_value_offset (slot_entry s)) + length v \<le> hi"
proof (induction its arbitrary: hi)
  case (Cons x its)
  then show ?case by (cases x) fastforce
qed simp

section \<open>Insertion\<close>

lemma xattr_insert_run:
  assumes lay: "xattr_layout b its" and m: "match_name name = (i, n)" and n: "length n \<le> 255"
  defines "xs \<equiv> takeWhile (before_new name) its"
  shows "if xe_required_size name + length value < xfree its
    then \<exists>ne new bs' hdr. length hdr = 32 \<and> xattr_insert b name value = Inr (b\<lparr>blk_data := hdr @ xslots (xs @ (new, value) # bs') @
        replicate (xfree its - xe_required_size name - length value) 0 @ xvals (xs @ (new, value) # bs')\<rparr>, True) \<and>
      new = xe_to_bytes ne @ drop (16 + length n) (replicate (xe_required_size name) 0) \<and>
      xe_wf ne \<and> xe_name_len ne = word_of_nat (length n) \<and> unat (xe_name_len ne) = length n \<and>
      unat (xe_value_size ne) = length value \<and> unat (xe_value_offset ne) + length value = BLOCK_SIZE - length (xvals xs) \<and>
      xe_value_inum ne = 0 \<and> (xe_name_index ne, take (unat (xe_name_len ne)) (xe_name ne)) = (i, n) \<and>
      items_ok BLOCK_SIZE xs \<and> items_ok (BLOCK_SIZE - length (xvals xs) - length value) bs' \<and>
      32 + length (xslots (xs @ (new, value) # bs')) + (xfree its - xe_required_size name - length value) +
        length (xvals (xs @ (new, value) # bs')) = BLOCK_SIZE \<and>
      xattr_contents bs' = xattr_contents (dropWhile (before_new name) its)
    else xattr_insert b name value = Inr (b, False)"
proof -
  obtain hdr where h: "length hdr = 32" "blk_data b = hdr @ xslots its @ replicate (xfree its) 0 @ xvals its"
    "0 < xfree its" "length (blk_data b) = BLOCK_SIZE" "items_ok BLOCK_SIZE its"
    and tot: "32 + length (xslots its) + xfree its + length (xvals its) = BLOCK_SIZE"
    using layout_data [OF lay] by metis
  define bs where "bs = dropWhile (before_new name) its"
  have its: "its = xs @ bs" by (simp add: xs_def bs_def)
  let ?k = "xfree its" and ?e = "xe_required_size name" and ?l = "length value"
  let ?pe = "32 + length (xslots its)" and ?pv = "BLOCK_SIZE - length (xvals its)"
  let ?ie = "32 + length (xslots xs)" and ?iv = "BLOCK_SIZE - length (xvals xs)"
  obtain r where r: "insert_scan b name 32 BLOCK_SIZE None = Inr (?pe, ?pv, r)"
    "(case r of None \<Rightarrow> (?pe, ?pv) | Some p \<Rightarrow> p) = (?ie, ?iv)"
    using insert_scan_rep [OF h(5,2,3,4), of name None, unfolded h(1)] by (auto simp: xs_def)
  have "?pe \<le> ?pv" "?pv - ?pe = ?k" using tot by linarith+
  then have blank: "usize_sub ?pv ?pe = Inr ?k" by (simp add: usize_sub_def)
  show ?thesis
  proof (cases "?e + ?l < ?k")
    case False
    then have "xattr_insert b name value = Inr (b, False)"
      using r blank by (simp add: xattr_insert_def Let_def)
    then show ?thesis using False by simp
  next
    case True
    have tot': "32 + length (xslots xs) + length (xslots bs) + ?k + length (xvals bs) + length (xvals xs) = BLOCK_SIZE"
      using tot its by simp
    have ok: "items_ok BLOCK_SIZE xs" "items_ok ?iv bs" using h(5) its by (simp_all add: items_ok_append)
    have d0: "blk_data b = (hdr @ xslots xs) @ xslots bs @ replicate ?k 0 @ (xvals bs @ xvals xs)" using h(2) its by simp
    have a0: "?ie = length (hdr @ xslots xs)" "?pe = length (hdr @ xslots xs) + length (xslots bs)" using h(1) its by simp_all
    obtain y1 where 1: "copy_within (blk_data b) ?ie ?pe (?ie + ?e) = Inr y1"
      "fill_zero y1 ?ie (?ie + ?e) = Inr ((hdr @ xslots xs) @ replicate ?e 0 @ xslots bs @ drop ?e (replicate ?k 0) @ (xvals bs @ xvals xs))"
      using shift_right [OF _ d0 a0, of ?e] True by auto
    let ?y2 = "(hdr @ xslots xs) @ replicate ?e 0 @ xslots bs @ drop ?e (replicate ?k 0) @ (xvals bs @ xvals xs)"
    have d2: "?y2 = (hdr @ xslots xs @ replicate ?e 0 @ xslots bs) @ replicate (?k - ?e) 0 @ xvals bs @ xvals xs" by simp
    have a2: "?pv = length (hdr @ xslots xs @ replicate ?e 0 @ xslots bs) + length (replicate (?k - ?e) (0 :: u8))"
      "?iv = ?pv + length (xvals bs)"
      using h(1) tot' True its by simp_all
    have s2: "usize_sub ?pv ?l = Inr (?pv - ?l)" "usize_sub ?iv ?l = Inr (?iv - ?l)"
      using a2 True by (simp_all add: usize_sub_def)
    have le2: "?l \<le> length (replicate (?k - ?e) (0 :: u8))" using True by simp
    obtain y3 where 3: "copy_within ?y2 ?pv ?iv (?pv - ?l) = Inr y3"
      "fill_zero y3 (?iv - ?l) ?iv = Inr ((hdr @ xslots xs @ replicate ?e 0 @ xslots bs) @ take (?k - ?e - ?l) (replicate (?k - ?e) 0) @ xvals bs @ replicate ?l 0 @ xvals xs)"
      using shift_left [OF le2 d2 a2] by auto
    let ?k' = "?k - ?e - ?l"
    let ?y4 = "(hdr @ xslots xs @ replicate ?e 0) @ xslots bs @ (replicate ?k' 0 @ xvals bs @ replicate ?l 0 @ xvals xs)"
    have t3: "fill_zero y3 (?iv - ?l) ?iv = Inr ?y4" using 3(2) by simp
    let ?f = "\<lambda>off. sub_chk off (word_of_nat ?l :: u16)"
    have l16: "?l < 2 ^ 16" using True tot by (simp add: BLOCK_SIZE_def)
    have wl: "unat (word_of_nat ?l :: u16) = ?l" using l16 by (intro unat_word_of_nat) simp
    have isok: "\<forall>(s, v) \<in> set bs. is_ok (?f (xe_value_offset (slot_entry s)))"
    proof (clarify)
      fix s v assume "(s, v) \<in> set bs"
      from items_offset_ge [OF ok(2) this] have "?l \<le> unat (xe_value_offset (slot_entry s))"
        using a2 True tot' by simp
      then show "is_ok (?f (xe_value_offset (slot_entry s)))" using wl by (simp add: sub_chk_def word_le_nat_alt)
    qed
    let ?b4 = "b\<lparr>blk_data := ?y4\<rparr>" and ?bs = "shift_items ?f bs"
    have q4: "?pe + ?e = length (hdr @ xslots xs @ replicate ?e 0) + length (xslots bs)" using h(1) its by simp
    have p4: "?ie + ?e = length (hdr @ xslots xs @ replicate ?e (0 :: u8))" using h(1) by simp
    have d4: "blk_data ?b4 = (hdr @ xslots xs @ replicate ?e 0) @ xslots bs @ (replicate ?k' 0 @ xvals bs @ replicate ?l 0 @ xvals xs)" by simp
    have 4: "update_offsets ?f ?b4 (?ie + ?e) (?pe + ?e) =
      Inr (b\<lparr>blk_data := (hdr @ xslots xs @ replicate ?e 0) @ xslots ?bs @ replicate ?k' 0 @ xvals bs @ replicate ?l 0 @ xvals xs\<rparr>)"
      using update_offsets_rep [OF ok(2) isok d4 q4] unfolding p4 by simp
    note sh = shift_items_props [OF ok(2) isok]
    have vo: "?iv - ?l < 2 ^ 16" by (simp add: BLOCK_SIZE_def)
    have vs: "?l < 2 ^ 32" using l16 by simp
    obtain ne where ne: "xe_new name ?l (?iv - ?l) = Inr ne" "xe_wf ne" "xe_name_len ne = word_of_nat (length n)" "unat (xe_name_len ne) = length n"
      "unat (xe_value_size ne) = ?l" "unat (xe_value_offset ne) = ?iv - ?l" "xe_value_inum ne = 0"
      "(xe_name_index ne, take (unat (xe_name_len ne)) (xe_name ne)) = (i, n)"
      using xe_new_ok [OF m n vs vo] by blast
    have el: "?e = entry_size (unat (xe_name_len ne))" using m ne(4) by (simp add: xe_required_size_entry)
    let ?z = "replicate ?e (0 :: u8)"
    let ?new = "xe_to_bytes ne @ drop (16 + unat (xe_name_len ne)) ?z"
    let ?b5 = "b\<lparr>blk_data := (hdr @ xslots xs @ replicate ?e 0) @ xslots ?bs @ replicate ?k' 0 @ xvals bs @ replicate ?l 0 @ xvals xs\<rparr>"
    let ?b6 = "b\<lparr>blk_data := (hdr @ xslots xs) @ ?new @ xslots ?bs @ replicate ?k' 0 @ xvals bs @ replicate ?l 0 @ xvals xs\<rparr>"
    have d5: "blk_data ?b5 = (hdr @ xslots xs) @ ?z @ (xslots ?bs @ replicate ?k' 0 @ xvals bs @ replicate ?l 0 @ xvals xs)" by simp
    have le5: "length (xe_to_bytes ne) \<le> length ?z" using ne(2) entry_size_ge [of "unat (xe_name_len ne)"] by (simp add: el)
    have 5: "block_write_offset ?b5 ?ie (xe_to_bytes ne) = Inr ?b6"
      using xattr_write_region [OF d5 le5 a0(1)] ne(2) by simp
    let ?its' = "xs @ (?new, value) # ?bs"
    let ?b7 = "b\<lparr>blk_data := hdr @ xslots ?its' @ replicate ?k' 0 @ xvals ?its'\<rparr>"
    have d6: "blk_data ?b6 = (hdr @ xslots xs @ ?new @ xslots ?bs @ replicate ?k' 0 @ xvals bs) @ replicate ?l 0 @ xvals xs" by simp
    have nl: "length ?new = ?e" using ne(2) entry_size_ge [of "unat (xe_name_len ne)"] by (simp add: el)
    have a6: "?iv - ?l = length (hdr @ xslots xs @ ?new @ xslots ?bs @ replicate ?k' 0 @ xvals bs)"
      using h(1) tot' True nl sh(1) by (simp del: length_drop) 
    have 6: "block_write_offset ?b6 (?iv - ?l) value = Inr ?b7"
      using xattr_write_region [OF d6 _ a6, of "value"] sh(2) by simp
    have run: "xattr_insert b name value = Inr (?b7, True)"
    proof -
      have nlt: "\<not> ?k < ?e + ?l + 1" using True by simp
      show ?thesis
        unfolding xattr_insert_def Let_def r(1) rbind.simps prod.case r(2) blank
        by (simp only: nlt if_False 1 rbind.simps s2 3(1) t3 4 ne(1) 5 6)
    qed
    have ok': "items_ok (?iv - ?l) ?bs"
    proof (rule sh(4) [where d = ?l and d' = 0])
      show "\<forall>(s, v) \<in> set bs. \<forall>o'. ?f (xe_value_offset (slot_entry s)) = Inr o' \<longrightarrow>
          unat o' + ?l = unat (xe_value_offset (slot_entry s)) + 0"
        using wl by (auto simp: sub_chk_def unat_sub_le word_le_nat_alt split: if_splits)
      show "?iv - ?l + ?l = ?iv + 0" using a2 True by simp
    qed
    have tot7: "32 + length (xslots ?its') + ?k' + length (xvals ?its') = BLOCK_SIZE"
      using tot' nl sh(1,2) True by (simp del: length_drop)
    have vo': "unat (xe_value_offset ne) + ?l = ?iv" using ne(6) a2 True by simp
    have new: "?new = xe_to_bytes ne @ drop (16 + length n) ?z" by (simp only: ne(4))
    have cb: "xattr_contents ?bs = xattr_contents (dropWhile (before_new name) its)" using sh(3) by (simp add: bs_def)
    note facts = h(1) run new ne(2-5) vo' ne(7,8) ok(1) ok' tot7 cb
    show ?thesis unfolding if_P [OF True]
      by (intro exI [of _ ne] exI [of _ ?new] exI [of _ ?bs] exI [of _ hdr] conjI) (rule facts)+
  qed
qed

lemma xattr_insert_rep:
  assumes lay: "xattr_layout b its" and m: "match_name name = (i, n)" and n: "n \<noteq> []" "length n \<le> 255"
  shows "if xe_required_size name + length value < xfree its
    then \<exists>b' new bs'. xattr_insert b name value = Inr (b', True) \<and>
      xattr_layout b' (takeWhile (before_new name) its @ (new, value) # bs') \<and> slot_key new = (i, n) \<and>
      xe_value_inum (slot_entry new) = 0 \<and>
      xattr_contents bs' = xattr_contents (dropWhile (before_new name) its)
    else xattr_insert b name value = Inr (b, False)"
proof (cases "xe_required_size name + length value < xfree its")
  case True
  let ?xs = "takeWhile (before_new name) its"
  from xattr_insert_run [OF lay m n(2), of "value"] True obtain ne new bs' hdr where
    r: "length hdr = 32" "xattr_insert b name value = Inr (b\<lparr>blk_data := hdr @ xslots (?xs @ (new, value) # bs') @
        replicate (xfree its - xe_required_size name - length value) 0 @ xvals (?xs @ (new, value) # bs')\<rparr>, True)"
      "new = xe_to_bytes ne @ drop (16 + length n) (replicate (xe_required_size name) 0)"
      "xe_wf ne" "xe_name_len ne = word_of_nat (length n)" "unat (xe_name_len ne) = length n"
      "unat (xe_value_size ne) = length value" "unat (xe_value_offset ne) + length value = BLOCK_SIZE - length (xvals ?xs)"
      "xe_value_inum ne = 0" "(xe_name_index ne, take (unat (xe_name_len ne)) (xe_name ne)) = (i, n)"
      "items_ok BLOCK_SIZE ?xs" "items_ok (BLOCK_SIZE - length (xvals ?xs) - length value) bs'"
      "32 + length (xslots (?xs @ (new, value) # bs')) + (xfree its - xe_required_size name - length value) +
        length (xvals (?xs @ (new, value) # bs')) = BLOCK_SIZE"
      "xattr_contents bs' = xattr_contents (dropWhile (before_new name) its)"
    by (simp only: if_True) (elim exE conjE, rule that)
  have nz: "xe_name_len ne \<noteq> 0" using r(6) n(1) by (metis length_0_conv unat_0)
  have zl: "length (replicate (xe_required_size name) (0 :: u8)) = entry_size (unat (xe_name_len ne))"
    using m r(6) by (simp add: xe_required_size_entry)
  note nw = slot_written [OF r(4) nz zl, unfolded r(6), folded r(3)]
  have ok': "items_ok BLOCK_SIZE (?xs @ (new, value) # bs')"
  proof -
    have "unat (xe_value_offset ne) = BLOCK_SIZE - length (xvals ?xs) - length value" using r(8) by simp
    then show ?thesis using r(7,8,11,12) nw(1,2) unfolding items_ok_append by simp
  qed
  have "xattr_layout (b\<lparr>blk_data := hdr @ xslots (?xs @ (new, value) # bs') @
      replicate (xfree its - xe_required_size name - length value) 0 @ xvals (?xs @ (new, value) # bs')\<rparr>) (?xs @ (new, value) # bs')"
    by (rule layout_intro [OF r(1) _ ok' r(13)]) (use True in simp)
  moreover have "slot_key new = (i, n)" "xe_value_inum (slot_entry new) = 0"
    using nw(2) r(9,10) by (simp_all add: slot_key_def)
  ultimately show ?thesis using True r(2,14) by auto
next
  case False
  then show ?thesis using xattr_insert_run [OF lay m n(2), of "value"] by simp
qed

section \<open>Removal\<close>

lemma delete_first_append: "k \<notin> fst ` set xs \<Longrightarrow> delete_first k (xs @ (k, v) # ys) = xs @ ys"
  by (induction xs) auto

lemma contents_keys: "fst ` set (xattr_contents its) = slot_key ` fst ` set its"
  by (force simp: xattr_contents_def image_iff)

lemma xattr_remove_rep:
  assumes lay: "xattr_layout b its"
  shows "if match_name name \<in> fst ` set (xattr_contents its)
    then \<exists>b' its'. xattr_remove b name = Inr (b', True) \<and> xattr_layout b' its' \<and>
      xattr_contents its' = delete_first (match_name name) (xattr_contents its)
    else xattr_remove b name = Inr (b, False)"
proof -
  obtain hdr where h: "length hdr = 32" "blk_data b = hdr @ xslots its @ replicate (xfree its) 0 @ xvals its"
    "0 < xfree its" "length (blk_data b) = BLOCK_SIZE" "items_ok BLOCK_SIZE its"
    and tot: "32 + length (xslots its) + xfree its + length (xvals its) = BLOCK_SIZE"
    using layout_data [OF lay] by metis
  define xs where "xs = takeWhile (\<lambda>x. \<not> has_key name x) its"
  note scan = remove_scan_rep [OF h(5,2,3,4), of name None, unfolded h(1)]
  have keyin: "match_name name \<in> fst ` set (xattr_contents its) \<longleftrightarrow> (\<exists>x \<in> set its. has_key name x)"
    unfolding contents_keys by (force simp: has_key_def image_iff)
  show ?thesis
  proof (cases "dropWhile (\<lambda>x. \<not> has_key name x) its")
    case Nil
    then have "\<not> (\<exists>x \<in> set its. has_key name x)" by (simp add: dropWhile_eq_Nil_conv)
    moreover have "xattr_remove b name = Inr (b, False)" using scan Nil by (simp add: xattr_remove_def)
    ultimately show ?thesis using keyin by simp
  next
    case (Cons x bs)
    obtain s v where x: "x = (s, v)" by (cases x)
    have its: "its = xs @ (s, v) # bs" using Cons x unfolding xs_def by (metis takeWhile_dropWhile_id)
    have hk: "has_key name (s, v)" using Cons x by (metis hd_dropWhile list.distinct(1) list.sel(1))
    have nk: "\<forall>y \<in> set xs. \<not> has_key name y" unfolding xs_def by (auto dest: set_takeWhileD)
    have inn: "match_name name \<in> fst ` set (xattr_contents its)" using keyin hk its by auto
    let ?k = "xfree its" and ?l = "length v" and ?pe = "32 + length (xslots its)" and ?pv = "BLOCK_SIZE - length (xvals its)"
    let ?re = "32 + length (xslots xs)" and ?rv = "BLOCK_SIZE - length (xvals xs) - length v"
    have r: "remove_scan b name 32 BLOCK_SIZE None = Inr (?pe, ?pv, Some (?re, ?rv, length s, length v))"
      using scan Cons x by (simp add: xs_def)
    have tot': "32 + length (xslots xs) + length s + length (xslots bs) + ?k + length (xvals bs) + length v + length (xvals xs) = BLOCK_SIZE"
      using tot its by simp
    have ok: "items_ok BLOCK_SIZE xs" "items_ok ?rv bs" and s: "slot_ok s"
    proof -
      have "items_ok (BLOCK_SIZE - length (xvals xs)) ((s, v) # bs)" "items_ok BLOCK_SIZE xs"
        using h(5) its items_ok_append by metis+
      then show "items_ok BLOCK_SIZE xs" "slot_ok s" "items_ok ?rv bs"
        by (auto simp del: diff_diff_left) (metis diff_add_inverse2)
    qed
    have d0: "blk_data b = (hdr @ xslots xs) @ s @ xslots bs @ (replicate ?k 0 @ xvals bs @ v @ xvals xs)" using h(2) its by simp
    have a0: "?re + length s = length (hdr @ xslots xs) + length s" "?pe = (?re + length s) + length (xslots bs)"
      using h(1) its by simp_all
    have e0: "?re + length s - length s = ?re" by simp
    obtain y1 where 1: "copy_within (blk_data b) (?re + length s) ?pe ?re = Inr y1"
      "fill_zero y1 (?pe - length s) ?pe = Inr ((hdr @ xslots xs) @ take (length s - length s) s @ xslots bs @
        replicate (length s) 0 @ (replicate ?k 0 @ xvals bs @ v @ xvals xs))"
      using shift_left [OF order_refl d0 a0] unfolding e0 by blast
    let ?y2 = "(hdr @ xslots xs) @ take (length s - length s) s @ xslots bs @ replicate (length s) 0 @ (replicate ?k 0 @ xvals bs @ v @ xvals xs)"
    let ?P = "hdr @ xslots xs @ xslots bs @ replicate (length s) 0 @ replicate ?k 0"
    have d2: "?y2 = ?P @ xvals bs @ v @ xvals xs" by simp
    have a2: "?pv = length ?P" "?rv = length ?P + length (xvals bs)" using h(1) tot' its by simp_all
    obtain y3 where 3: "copy_within ?y2 ?pv ?rv (?pv + ?l) = Inr y3"
      "fill_zero y3 ?pv (?pv + ?l) = Inr (?P @ replicate ?l 0 @ xvals bs @ drop ?l v @ xvals xs)"
      using shift_right [OF order_refl d2 a2] by blast
    let ?f = "\<lambda>off. add_chk off (word_of_nat ?l :: u16)"
    have l16: "?l < 2 ^ 16" using tot' by (simp add: BLOCK_SIZE_def)
    have wl: "unat (word_of_nat ?l :: u16) = ?l" using l16 by (intro unat_word_of_nat) simp
    have isok: "\<forall>(s, v) \<in> set bs. is_ok (?f (xe_value_offset (slot_entry s)))"
    proof (clarify)
      fix s' v' assume "(s', v') \<in> set bs"
      from items_offset_le [OF ok(2) this] have "unat (xe_value_offset (slot_entry s')) + ?l < 2 ^ 16"
        using tot' by (simp add: BLOCK_SIZE_def)
      then show "is_ok (?f (xe_value_offset (slot_entry s')))" using wl by (simp add: add_chk_def)
    qed
    note sh = shift_items_props [OF ok(2) isok]
    let ?bs = "shift_items ?f bs"
    let ?R = "replicate (length s) 0 @ replicate ?k 0 @ replicate ?l 0 @ xvals bs @ xvals xs"
    let ?b4 = "b\<lparr>blk_data := ?P @ replicate ?l 0 @ xvals bs @ drop ?l v @ xvals xs\<rparr>"
    have d4: "blk_data ?b4 = (hdr @ xslots xs) @ xslots bs @ ?R" by simp
    have q4: "?pe - length s = length (hdr @ xslots xs) + length (xslots bs)" using h(1) its by simp
    have p4: "?re = length (hdr @ xslots xs)" using h(1) by simp
    let ?its' = "xs @ ?bs"
    let ?k' = "length s + ?k + ?l"
    let ?b5 = "b\<lparr>blk_data := hdr @ xslots ?its' @ replicate ?k' 0 @ xvals ?its'\<rparr>"
    have 4: "update_offsets ?f ?b4 ?re (?pe - length s) = Inr ?b5"
      using update_offsets_rep [OF ok(2) isok d4 q4] unfolding p4 by (simp add: sh(2) replicate_add)
    have u: "usize_sub ?pe (length s) = Inr (?pe - length s)" using its by (simp add: usize_sub_def)
    have run: "xattr_remove b name = Inr (?b5, True)"
      unfolding xattr_remove_def r rbind.simps prod.case option.case 1 u 3 4 by (rule refl)
    have ok': "items_ok BLOCK_SIZE ?its'"
    proof -
      have "items_ok (BLOCK_SIZE - length (xvals xs)) ?bs"
      proof (rule sh(4) [where d = 0 and d' = ?l])
        show "\<forall>(s, v) \<in> set bs. \<forall>o'. ?f (xe_value_offset (slot_entry s)) = Inr o' \<longrightarrow>
            unat o' + 0 = unat (xe_value_offset (slot_entry s)) + ?l"
          using wl by (auto dest: unat_add_chk)
        show "BLOCK_SIZE - length (xvals xs) + 0 = ?rv + ?l" using tot' by simp
      qed
      then show ?thesis using ok(1) by (simp add: items_ok_append)
    qed
    have tot5: "32 + length (xslots ?its') + ?k' + length (xvals ?its') = BLOCK_SIZE"
      using tot' sh(1,2) by simp
    have lay': "xattr_layout ?b5 ?its'" by (rule layout_intro [OF h(1) _ ok' tot5]) (use h(3) in simp)
    have key: "slot_key s = match_name name" using hk by (simp add: has_key_def)
    have "match_name name \<notin> fst ` set (xattr_contents xs)"
      unfolding contents_keys using nk by (auto simp: has_key_def)
    from delete_first_append [OF this, of v "xattr_contents bs"]
    have "xattr_contents ?its' = delete_first (match_name name) (xattr_contents its)"
      using its sh(3) key by simp
    then show ?thesis using inn run lay' by auto
  qed
qed

section \<open>Initialisation and checksum\<close>

lemma length_xattr_header [simp]: "length (xh_reserved h) = 3 \<Longrightarrow> length (xattr_header_to_bytes h) = 32"
  by (simp add: xattr_header_to_bytes_def)

lemma xattr_header_roundtrip:
  assumes "length (xh_reserved h) = 3"
  shows "xattr_header_from_bytes (xattr_header_to_bytes h @ rest) = Inr h"
proof -
  have "length (le32s (xh_reserved h)) = 12" using assms by simp
  then show ?thesis using assms by (simp add: xattr_header_from_bytes_def xattr_header_to_bytes_def)
qed

lemma xattr_init_rep:
  assumes "block_wf b"
  shows "xattr_init b = Inr (b\<lparr>blk_data := xattr_header_to_bytes xattr_header_new @ replicate (BLOCK_SIZE - 32) 0\<rparr>)"
    "xattr_layout (b\<lparr>blk_data := xattr_header_to_bytes xattr_header_new @ replicate (BLOCK_SIZE - 32) 0\<rparr>) []"
proof -
  have l: "length (xattr_header_to_bytes xattr_header_new) = 32" by (simp add: xattr_header_new_def)
  show "xattr_init b = Inr (b\<lparr>blk_data := xattr_header_to_bytes xattr_header_new @ replicate (BLOCK_SIZE - 32) 0\<rparr>)"
    using assms l by (simp add: xattr_init_def block_write_offset_def splice_def block_wf_def BLOCK_SIZE_def)
  have "xattr_layout (b\<lparr>blk_data := xattr_header_to_bytes xattr_header_new @ xslots [] @ replicate (BLOCK_SIZE - 32) 0 @ xvals []\<rparr>) []"
    by (rule layout_intro) (simp_all add: l BLOCK_SIZE_def)
  then show "xattr_layout (b\<lparr>blk_data := xattr_header_to_bytes xattr_header_new @ replicate (BLOCK_SIZE - 32) 0\<rparr>) []" by simp
qed

lemma header_read:
  assumes "32 \<le> length d"
  shows "xattr_header_from_bytes d = Inr (projr (xattr_header_from_bytes d))"
    "length (xh_reserved (projr (xattr_header_from_bytes d))) = 3"
    "xattr_header_to_bytes (projr (xattr_header_from_bytes d)) = take 32 d"
proof -
  let ?f = "\<lambda>a. slice d a 4"
  have p: "xattr_header_from_bytes d = Inr \<lparr>xh_magic = of_le (?f 0), xh_refcount = of_le (?f 4), xh_blocks = of_le (?f 8),
      xh_hash = of_le (?f 12), xh_checksum = of_le (?f 16), xh_reserved = of_le32s (slice d 20 12)\<rparr>"
    using assms by (simp add: xattr_header_from_bytes_def rd_def slice_def)
  then show "xattr_header_from_bytes d = Inr (projr (xattr_header_from_bytes d))" by simp
  obtain a b c e where s: "slice d 20 4 = a" "slice d 24 4 = b" "slice d 28 4 = c" "length a = 4" "length b = 4" "length c = 4"
    using assms by simp
  have "slice d 20 12 = a @ b @ c"
    using s(1-3) by (auto simp: slice_def take_add [of 4 8, simplified] take_add [of 4 4, simplified] simp flip: append_assoc)
  moreover have "of_le32s (a @ b @ c) = [of_le a, of_le b, of_le c]"
    using length_4_cases [OF s(4)] length_4_cases [OF s(5)] length_4_cases [OF s(6)] by auto
  ultimately have r: "of_le32s (slice d 20 12) = [of_le a, of_le b, of_le c]" by simp
  then show "length (xh_reserved (projr (xattr_header_from_bytes d))) = 3" by (simp add: p)
  have "xattr_header_to_bytes (projr (xattr_header_from_bytes d)) = ?f 0 @ ?f 4 @ ?f 8 @ ?f 12 @ ?f 16 @ a @ b @ c"
    using assms s(4-6) by (simp add: p xattr_header_to_bytes_def r le_roundtrip)
  also have "\<dots> = take 32 d"
    using s(1-3) by (simp add: slice_def take_add [of 4 28, simplified] take_add [of 4 24, simplified] take_add [of 4 20, simplified]
        take_add [of 4 16, simplified] take_add [of 4 12, simplified] take_add [of 4 8, simplified] take_add [of 4 4, simplified])
  finally show "xattr_header_to_bytes (projr (xattr_header_from_bytes d)) = take 32 d" .
qed

definition xattr_csum :: "MetadataChecksumSeed \<Rightarrow> PBlockId \<Rightarrow> bytes \<Rightarrow> u32" where
  "xattr_csum seed block_id d =
     crc32 (crc32 (crc32 (seed_crc32c seed (le64 block_id)) (take 16 d)) [0, 0, 0, 0]) (drop 20 d)"

lemma xattr_checksum_split:
  "length d = BLOCK_SIZE \<Longrightarrow> xattr_block_checksum seed block_id d = Some (xattr_csum seed block_id d)"
  by (simp add: xattr_block_checksum_def xattr_csum_def Let_def)

lemma stored_checksum:
  "32 \<le> length d \<Longrightarrow> xh_checksum (projr (xattr_header_from_bytes d)) = of_le (slice d 16 4)"
  by (simp add: xattr_header_from_bytes_def rd_def slice_def)

lemma verify_iff:
  assumes "block_wf b"
  shows "xattr_verify_checksum b seed block_id = Inr (xattr_csum seed block_id (blk_data b) = of_le (slice (blk_data b) 16 4))"
proof -
  have l: "length (blk_data b) = BLOCK_SIZE" "32 \<le> length (blk_data b)" using assms by (simp_all add: block_wf_def BLOCK_SIZE_def)
  have r: "read_xattr_header b = Inr (projr (xattr_header_from_bytes (blk_data b)))"
    using header_read(1) [OF l(2)] by (simp add: read_xattr_header_def)
  show ?thesis by (simp add: xattr_verify_checksum_def r xattr_checksum_split [OF l(1)] stored_checksum [OF l(2)])
qed

text \<open>Recomputing the checksum replaces the four checksum bytes and nothing else.\<close>

lemma update_checksum_rep:
  assumes w: "block_wf b"
  shows "xattr_update_checksum b seed block_id =
    Inr (b\<lparr>blk_data := splice (blk_data b) 16 (le32 (xattr_csum seed block_id (blk_data b)))\<rparr>, True)"
proof -
  let ?d = "blk_data b"
  have l: "length ?d = BLOCK_SIZE" "32 \<le> length ?d" using w by (simp_all add: block_wf_def BLOCK_SIZE_def)
  let ?h = "projr (xattr_header_from_bytes ?d)"
  note hr = header_read [OF l(2)]
  have r: "read_xattr_header b = Inr ?h" using hr(1) by (simp add: read_xattr_header_def)
  have t: "xattr_header_to_bytes (?h\<lparr>xh_checksum := c\<rparr>) = splice (take 32 ?d) 16 (le32 c)" for c
  proof -
    have tb: "xattr_header_to_bytes (?h\<lparr>xh_checksum := c\<rparr>) =
        (le32 (xh_magic ?h) @ le32 (xh_refcount ?h) @ le32 (xh_blocks ?h) @ le32 (xh_hash ?h)) @ le32 c @ le32s (xh_reserved ?h)"
      by (simp add: xattr_header_to_bytes_def)
    have "take 32 ?d = (le32 (xh_magic ?h) @ le32 (xh_refcount ?h) @ le32 (xh_blocks ?h) @ le32 (xh_hash ?h)) @
        le32 (xh_checksum ?h) @ le32s (xh_reserved ?h)"
      using hr(3) by (simp add: xattr_header_to_bytes_def)
    then show ?thesis unfolding tb by (simp add: splice_def)
  qed
  have patch: "splice (splice ?d 16 x) 0 (splice (take 32 ?d) 16 y) = splice ?d 16 y" if "length x = 4" "length y = 4" for x y :: bytes
    using l(2) that by (intro nth_equalityI) (auto simp: nth_splice)
  have same: "splice ?d 16 (slice ?d 16 4) = ?d" using l(2) by (simp add: splice_slice_id)
  have len: "length (splice (take 32 ?d) 16 y) = 32" if "length y = 4" for y :: bytes using l(2) that by simp
  have w1: "block_write_offset b 0 (splice (take 32 ?d) 16 (le32 0)) = Inr (b\<lparr>blk_data := splice ?d 16 (le32 0)\<rparr>)"
    using patch [of "slice ?d 16 4" "le32 0"] len [of "le32 0"] l(2) by (simp add: block_write_offset_def same)
  have w2: "block_write_offset (b\<lparr>blk_data := splice ?d 16 (le32 0)\<rparr>) 0 (splice (take 32 ?d) 16 (le32 c)) =
      Inr (b\<lparr>blk_data := splice ?d 16 (le32 c)\<rparr>)" for c
    using patch [of "le32 0" "le32 c"] len [of "le32 c"] l(2) by (simp add: block_write_offset_def)
  have c: "xattr_block_checksum seed block_id (splice ?d 16 (le32 0)) = Some (xattr_csum seed block_id ?d)"
    using l by (subst xattr_checksum_split) (simp_all add: xattr_csum_def take_splice_ge drop_splice_le)
  show ?thesis
    by (simp add: xattr_update_checksum_def r t w1 c w2)
qed

lemma release_first:
  assumes nz: "slice d e 4 \<noteq> [0, 0, 0, 0]" and i: "(of_le (slice d (e + 4) 4) :: u32) = 0"
    and s: "unat (of_le (slice d (e + 8) 4) :: u32) \<noteq> 0" and o: "unat (of_le (slice d (e + 2) 2) :: u16) mod 4 \<noteq> 0"
  shows "release_loop d e h vs = None"
proof -
  obtain vo where vo: "vo = unat (of_le (slice d (e + 2) 2) :: u16)" by blast
  obtain vs' where vs: "vs' = unat (of_le (slice d (e + 8) 4) :: u32)" by blast
  have "vs' \<noteq> 0" "vo mod 4 \<noteq> 0" using s o vo vs by simp_all
  then show ?thesis
    unfolding release_loop.simps [of d e] Let_def vo [symmetric] vs [symmetric] i using nz by simp
qed

section \<open>Properties\<close>

text \<open>\<^verbatim>\<open>init\<close> makes every block an empty attribute block, and lookup and listing on any
  well-laid-out block end without a panic and read the same list of attributes.\<close>

theorem xattr_reads:
  assumes "xattr_layout b its"
  shows "xattr_get b name = Inr (map_of (xattr_contents its) (match_name name)) \<and>
    (\<exists>names. xattr_list b = Inr names \<and> length names = length (xattr_contents its)) \<and>
    (\<exists>b0. xattr_init b = Inr b0 \<and> xattr_layout b0 [] \<and> xattr_get b0 name = Inr None)"
proof -
  have w: "block_wf b" using assms by (simp add: xattr_layout_def)
  show ?thesis
    using xattr_get_rep [OF assms] xattr_list_rep [OF assms] xattr_init_rep [OF w] xattr_get_rep [OF xattr_init_rep(2) [OF w], of name]
    by (simp add: xattr_contents_def)
qed

text \<open>Insertion. For a name with a non-empty suffix of at most 255 bytes that is not in the block,
  \<^verbatim>\<open>insert\<close> succeeds exactly when entry and value leave at least one byte of blank area; it never
  panics; then the block is well laid out, the new attribute reads back, every other attribute reads
  as before; on failure nothing changed.\<close>

theorem xattr_insert_correct:
  assumes lay: "xattr_layout b its" and n: "snd (match_name name) \<noteq> []" "length (snd (match_name name)) \<le> 255"
    and new: "match_name name \<notin> fst ` set (xattr_contents its)"
  shows "\<exists>b' ok. xattr_insert b name value = Inr (b', ok) \<and>
    ok = (xe_required_size name + length value < xfree its) \<and>
    (\<not> ok \<longrightarrow> b' = b) \<and>
    (ok \<longrightarrow> (\<exists>its'. xattr_layout b' its' \<and>
       (\<forall>m. xattr_get b' m = (if match_name m = match_name name then Inr (Some value) else xattr_get b m))))"
proof -
  obtain i sfx where m: "match_name name = (i, sfx)" by (cases "match_name name")
  have n': "sfx \<noteq> []" "length sfx \<le> 255" using n m by simp_all
  note rep = xattr_insert_rep [OF lay m n', of "value"]
  show ?thesis
  proof (cases "xe_required_size name + length value < xfree its")
    case True
    let ?xs = "takeWhile (before_new name) its" and ?ys = "dropWhile (before_new name) its"
    from rep True obtain b' ns bs' where r: "xattr_insert b name value = Inr (b', True)"
      "xattr_layout b' (?xs @ (ns, value) # bs')" "slot_key ns = (i, sfx)" "xattr_contents bs' = xattr_contents ?ys" by auto
    have c: "xattr_contents its = xattr_contents ?xs @ xattr_contents ?ys"
      by (metis takeWhile_dropWhile_id xattr_contents_simps(3))
    have "(i, sfx) \<notin> fst ` set (xattr_contents ?xs)" "(i, sfx) \<notin> fst ` set (xattr_contents ?ys)"
      using new c m by auto
    then have "map_of (xattr_contents ?xs) (i, sfx) = None" "map_of (xattr_contents ?ys) (i, sfx) = None"
      by (simp_all add: map_of_eq_None_iff)
    then have "xattr_get b' k = (if match_name k = match_name name then Inr (Some value) else xattr_get b k)" for k
      unfolding xattr_get_rep [OF r(2)] xattr_get_rep [OF lay] c m using r(3,4)
      by (auto simp: map_add_def split: option.split)
    then show ?thesis using r True by (intro exI [of _ b'] exI [of _ True]) auto
  next
    case False
    then show ?thesis using rep by (intro exI [of _ b] exI [of _ False]) simp
  qed
qed

text \<open>Removal never panics, succeeds exactly when the attribute is in the block, and then deletes
  its first occurrence and keeps the layout; an attribute that occurred once is gone, and every other
  attribute reads as before. The freed space is available again.\<close>

theorem xattr_remove_correct:
  assumes lay: "xattr_layout b its"
  shows "\<exists>b' ok. xattr_remove b name = Inr (b', ok) \<and>
    ok = (match_name name \<in> fst ` set (xattr_contents its)) \<and>
    (\<not> ok \<longrightarrow> b' = b) \<and>
    (ok \<longrightarrow> (\<exists>its'. xattr_layout b' its' \<and>
       xattr_contents its' = delete_first (match_name name) (xattr_contents its) \<and>
       (distinct (map fst (xattr_contents its)) \<longrightarrow>
          (\<forall>m. xattr_get b' m = (if match_name m = match_name name then Inr None else xattr_get b m)))))"
proof (cases "match_name name \<in> fst ` set (xattr_contents its)")
  case True
  with xattr_remove_rep [OF lay, of name] obtain b' its' where r: "xattr_remove b name = Inr (b', True)" "xattr_layout b' its'"
    "xattr_contents its' = delete_first (match_name name) (xattr_contents its)" by auto
  have "xattr_get b' m = (if match_name m = match_name name then Inr None else xattr_get b m)"
    if "distinct (map fst (xattr_contents its))" for m
    unfolding xattr_get_rep [OF r(2)] xattr_get_rep [OF lay] r(3) map_of_delete_first [OF that] by simp
  then show ?thesis using r True by (intro exI [of _ b'] exI [of _ True]) auto
next
  case False
  then show ?thesis using xattr_remove_rep [OF lay, of name] by (intro exI [of _ b] exI [of _ False]) simp
qed

text \<open>The block checksum. After \<^verbatim>\<open>update_checksum\<close> the block verifies with the same attributes, and
  a change of any single byte of the block, the checksum field included, is detected.\<close>

theorem xattr_checksum_detects:
  assumes lay: "xattr_layout b its"
  shows "\<exists>b'. xattr_update_checksum b seed block_id = Inr (b', True) \<and> xattr_layout b' its \<and>
    xattr_verify_checksum b' seed block_id = Inr True \<and>
    (\<forall>i x. i < BLOCK_SIZE \<and> x \<noteq> blk_data b' ! i \<longrightarrow>
       xattr_verify_checksum (b'\<lparr>blk_data := (blk_data b')[i := x]\<rparr>) seed block_id = Inr False)"
proof -
  have w: "block_wf b" using lay by (simp add: xattr_layout_def)
  let ?c = "xattr_csum seed block_id (blk_data b)"
  define d where "d = splice (blk_data b) 16 (le32 ?c)"
  have l: "length (blk_data b) = 4096" using w by (simp add: block_wf_def BLOCK_SIZE_def)
  then have ld: "length d = 4096" by (simp add: d_def)
  let ?b = "b\<lparr>blk_data := d\<rparr>"
  have w': "block_wf ?b" using ld by (simp add: block_wf_def BLOCK_SIZE_def)
  have cs: "slice d 16 4 = le32 ?c" using l by (simp add: d_def)
  have cd: "xattr_csum seed block_id d = ?c"
    using l by (simp add: d_def xattr_csum_def take_splice_ge drop_splice_le)
  have lay': "xattr_layout ?b its"
  proof -
    obtain hdr where h: "length hdr = 32" "blk_data b = hdr @ xslots its @ replicate (xfree its) 0 @ xvals its"
      "0 < xfree its" "items_ok BLOCK_SIZE its"
      "32 + length (xslots its) + xfree its + length (xvals its) = BLOCK_SIZE"
      using layout_data [OF lay] by metis
    have "d = splice hdr 16 (le32 ?c) @ xslots its @ replicate (xfree its) 0 @ xvals its"
      unfolding d_def h(2) using h(1) by (simp add: splice_def)
    then show ?thesis using layout_intro [of "splice hdr 16 (le32 ?c)" "xfree its" its b] h by simp
  qed
  have detect: "xattr_csum seed block_id (d[i := x]) \<noteq> of_le (slice (d[i := x]) 16 4)"
    if i: "i < 4096" and x: "x \<noteq> d ! i" for i x
  proof -
    consider "i < 16" | "16 \<le> i" "i < 20" | "20 \<le> i" by linarith
    then show ?thesis
    proof cases
      case 1
      have "crc32 (seed_crc32c seed (le64 block_id)) ((take 16 d)[i := x]) \<noteq> crc32 (seed_crc32c seed (le64 block_id)) (take 16 d)"
        using crc32_list_update [of i "take 16 d"] 1 x ld by simp
      then have "xattr_csum seed block_id (d[i := x]) \<noteq> xattr_csum seed block_id d"
        using 1 by (auto simp: xattr_csum_def take_update_swap dest!: crc32_inj_init)
      moreover have "slice (d[i := x]) 16 4 = slice d 16 4" using 1 by (simp add: slice_def)
      ultimately show ?thesis using cs cd by simp
    next
      case 2
      have "xattr_csum seed block_id (d[i := x]) = ?c" using 2 cd by (simp add: xattr_csum_def)
      moreover have "of_le (slice (d[i := x]) 16 4) \<noteq> ?c"
      proof
        assume "of_le (slice (d[i := x]) 16 4) = ?c"
        then have "slice (d[i := x]) 16 4 = le32 ?c" using le_roundtrip(2) [of "slice (d[i := x]) 16 4"] ld by simp
        then have "slice (d[i := x]) 16 4 ! (i - 16) = slice d 16 4 ! (i - 16)" by (simp add: cs)
        then show False using 2 ld x by (simp add: nth_slice)
      qed
      ultimately show ?thesis by simp
    next
      case 3
      have "crc32 s ((drop 20 d)[i - 20 := x]) \<noteq> crc32 s (drop 20 d)" for s
        using crc32_list_update [of "i - 20" "drop 20 d"] 3 i x ld by simp
      then have "xattr_csum seed block_id (d[i := x]) \<noteq> xattr_csum seed block_id d"
        using 3 by (simp add: xattr_csum_def drop_update_swap)
      moreover have "slice (d[i := x]) 16 4 = slice d 16 4" using 3 by (simp add: slice_def drop_update_swap)
      ultimately show ?thesis using cs cd by simp
    qed
  qed
  have "xattr_verify_checksum (?b\<lparr>blk_data := d[i := x]\<rparr>) seed block_id = Inr False"
    if "i < BLOCK_SIZE" "x \<noteq> d ! i" for i x
  proof -
    have "block_wf (?b\<lparr>blk_data := d[i := x]\<rparr>)" using w' by (simp add: block_wf_def)
    from verify_iff [OF this, of seed block_id] detect [of i x] that show ?thesis by (simp add: BLOCK_SIZE_def)
  qed
  moreover have "xattr_verify_checksum ?b seed block_id = Inr True"
    using verify_iff [OF w', of seed block_id] cs cd by simp
  ultimately show ?thesis using update_checksum_rep [OF w, of seed block_id] lay'
    by (intro exI [of _ ?b]) (simp add: d_def)
qed

text \<open>A defect. \<^verbatim>\<open>insert\<close> packs values without padding, \<^verbatim>\<open>validate_xattr_block_for_release\<close>
  requires every inline value to start at a multiple of four: the block that results from inserting
  one value whose length is not a multiple of four into a fresh block is rejected, so the release of
  the inode's attribute block fails with an I/O error.\<close>

theorem unaligned_value_not_releasable:
  assumes w: "block_wf b" and i: "xattr_init b = Inr b0" and ins: "xattr_insert b0 name value = Inr (b1, True)"
    and n: "snd (match_name name) \<noteq> []" "length (snd (match_name name)) \<le> 255"
    and v: "length value mod 4 \<noteq> 0"
  shows "validate_xattr_block_for_release (blk_data b1) = None"
proof -
  obtain j sfx where m: "match_name name = (j, sfx)" by (cases "match_name name")
  have n': "sfx \<noteq> []" "length sfx \<le> 255" using n m by simp_all
  have l0: "xattr_layout b0 []" using xattr_init_rep [OF w] i by simp
  from xattr_insert_rep [OF l0 m n', of "value"] ins obtain s where
    s: "xattr_layout b1 [(s, value)]" "xe_value_inum (slot_entry s) = 0"
    by (auto split: if_splits) (auto simp: xattr_contents_def)
  obtain hdr where h: "length hdr = 32" "blk_data b1 = hdr @ s @ replicate (xfree [(s, value)]) 0 @ value"
    "length (blk_data b1) = BLOCK_SIZE" "slot_ok s" "unat (xe_value_size (slot_entry s)) = length value"
    "unat (xe_value_offset (slot_entry s)) + length value = BLOCK_SIZE"
  proof -
    obtain hdr where "length hdr = 32" "blk_data b1 = hdr @ xslots [(s, value)] @ replicate (xfree [(s, value)]) 0 @ xvals [(s, value)]"
      "length (blk_data b1) = BLOCK_SIZE" "items_ok BLOCK_SIZE [(s, value)]"
      using layout_data [OF s(1)] by metis
    then show thesis using that [of hdr] by simp
  qed
  let ?d = "blk_data b1"
  have sl: "16 \<le> length s" "s ! 0 \<noteq> 0" using slot_len [OF h(4)] h(4) by (auto simp: slot_ok_def)
  have at: "?d ! 32 = s ! 0" "slice ?d 34 2 = slice s 2 2" "slice ?d 36 4 = slice s 4 4" "slice ?d 40 4 = slice s 8 4"
    using h(1,2) sl(1) by (auto simp: nth_append slice_def)
  have nz: "slice ?d 32 4 \<noteq> [0, 0, 0, 0]"
  proof
    assume "slice ?d 32 4 = [0, 0, 0, 0]"
    then have "slice ?d 32 4 ! 0 = 0" by simp
    moreover have "slice ?d 32 4 ! 0 = ?d ! 32" using h(3) by (simp add: nth_slice BLOCK_SIZE_def)
    ultimately show False using at(1) sl(2) by simp
  qed
  have f: "unat (of_le (slice ?d (32 + 2) 2) :: u16) + length value = BLOCK_SIZE"
    "(of_le (slice ?d (32 + 4) 4) :: u32) = 0" "unat (of_le (slice ?d (32 + 8) 4) :: u32) = length value"
    using at h(5,6) s(2) by (simp_all add: slot_entry_def)
  have "unat (of_le (slice ?d (32 + 2) 2) :: u16) mod 4 \<noteq> 0"
  proof
    assume "unat (of_le (slice ?d (32 + 2) 2) :: u16) mod 4 = 0"
    then have "length value mod 4 = BLOCK_SIZE mod 4" using f(1) by (metis mod_add_left_eq add_0)
    then show False using v by (simp add: BLOCK_SIZE_def)
  qed
  moreover have "length value \<noteq> 0" using v by auto
  ultimately have "release_loop ?d 32 False [] = None"
    using release_first [OF nz f(2)] f(3) by simp
  then show ?thesis by (simp add: validate_xattr_block_for_release_def split: sum.splits)
qed

text \<open>A defect. A name that consists of a prefix only, as \<^verbatim>\<open>user.\<close>, gets a zero name length,
  which is how the end of the table is marked: \<^verbatim>\<open>insert\<close> answers success, yet neither the new
  attribute nor any attribute that sorts after it can be read any more.\<close>

theorem empty_suffix_hides_attributes:
  assumes lay: "xattr_layout b its" and n: "snd (match_name name) = []"
    and room: "xe_required_size name + length value < xfree its"
  shows "\<exists>b'. xattr_insert b name value = Inr (b', True) \<and>
    (\<forall>m. xattr_get b' m = Inr (map_of (xattr_contents (takeWhile (before_new name) its)) (match_name m)))"
proof -
  let ?xs = "takeWhile (before_new name) its"
  obtain j where m: "match_name name = (j, [])" using n by (cases "match_name name") simp
  have n0: "length ([] :: bytes) \<le> 255" by simp
  from xattr_insert_run [OF lay m n0, of "value"] room obtain ne new bs' hdr where
    r: "length hdr = 32" "xattr_insert b name value = Inr (b\<lparr>blk_data := hdr @ xslots (?xs @ (new, value) # bs') @
        replicate (xfree its - xe_required_size name - length value) 0 @ xvals (?xs @ (new, value) # bs')\<rparr>, True)"
      "new = xe_to_bytes ne @ drop (16 + length ([] :: bytes)) (replicate (xe_required_size name) 0)"
      "xe_name_len ne = word_of_nat (length ([] :: bytes))" "items_ok BLOCK_SIZE ?xs"
      "32 + length (xslots (?xs @ (new, value) # bs')) + (xfree its - xe_required_size name - length value) +
        length (xvals (?xs @ (new, value) # bs')) = BLOCK_SIZE"
    by (simp only: if_True) (elim exE conjE, rule that)
  let ?b = "b\<lparr>blk_data := hdr @ xslots (?xs @ (new, value) # bs') @
        replicate (xfree its - xe_required_size name - length value) 0 @ xvals (?xs @ (new, value) # bs')\<rparr>"
  let ?Z = "new @ xslots bs' @ replicate (xfree its - xe_required_size name - length value) 0 @ xvals bs' @ value"
  have z: "?Z \<noteq> []" "hd ?Z = 0" using r(3,4) by (simp_all add: xe_to_bytes_def)
  have d: "blk_data ?b = hdr @ xslots ?xs @ ?Z @ xvals ?xs @ []" by simp
  have l: "length (blk_data ?b) = BLOCK_SIZE" using r(1,6) by simp
  have "xattr_get ?b k = Inr (map_of (xattr_contents ?xs) (match_name k))" for k
    using get_loop_xrep [OF r(5) d z l] r(1) by (simp add: xattr_get_def)
  then show ?thesis using r(2) by blast
qed

section \<open>Witnesses\<close>

definition w_xattr :: block where
  "w_xattr = \<lparr>blk_id = 77, blk_data = xattr_header_to_bytes xattr_header_new @ replicate (BLOCK_SIZE - 32) 0\<rparr>"

lemma w_xattr_layout: "xattr_layout w_xattr []" "block_wf w_xattr"
proof -
  have "block_wf (block_default)" by (simp add: block_wf_def block_default_def)
  from xattr_init_rep(2) [OF this] show "xattr_layout w_xattr []" "block_wf w_xattr"
    by (simp_all add: w_xattr_def block_default_def xattr_layout_def block_wf_def)
qed

lemma w_name: "match_name (ascii ''user.a'') = (1, [97])" "match_name (ascii ''user.'') = (1, [])"
  by (simp_all add: match_name_def xattr_prefixes_def ascii_def strip_prefix_def)

lemma w_free: "xfree [] = 4064"
  by (simp add: xfree_def BLOCK_SIZE_def)

lemma w_size: "xe_required_size (ascii ''user.a'') = 20" "xe_required_size (ascii ''user.'') = 16"
  by (simp_all add: xe_required_size_def w_name div_ceil_def)

theorem xattr_reads_witness: "xattr_get w_xattr (ascii ''user.a'') = Inr None"
  using xattr_reads [OF w_xattr_layout(1), of "ascii ''user.a''"] by simp

theorem xattr_insert_correct_witness:
  "\<exists>b'. xattr_insert w_xattr (ascii ''user.a'') [1, 2] = Inr (b', True) \<and> xattr_get b' (ascii ''user.a'') = Inr (Some [1, 2])"
proof -
  have n: "snd (match_name (ascii ''user.a'')) \<noteq> []" "length (snd (match_name (ascii ''user.a''))) \<le> 255"
    "match_name (ascii ''user.a'') \<notin> fst ` set (xattr_contents [])" by (simp_all add: w_name)
  obtain b' where b': "xattr_insert w_xattr (ascii ''user.a'') [1, 2] = Inr (b', True)"
    "\<forall>m. xattr_get b' m = (if match_name m = match_name (ascii ''user.a'') then Inr (Some [1, 2]) else xattr_get w_xattr m)"
    using xattr_insert_correct [OF w_xattr_layout(1) n, of "[1, 2]"] unfolding w_size w_free by auto
  then show ?thesis by auto
qed

theorem xattr_remove_correct_witness: "xattr_remove w_xattr (ascii ''user.a'') = Inr (w_xattr, False)"
  using xattr_remove_correct [OF w_xattr_layout(1), of "ascii ''user.a''"] by auto

theorem xattr_checksum_detects_witness:
  "\<exists>b'. xattr_update_checksum w_xattr 7 77 = Inr (b', True) \<and> xattr_verify_checksum b' 7 77 = Inr True"
  using xattr_checksum_detects [OF w_xattr_layout(1), of 7 77] by blast

lemma w_init: "xattr_init w_xattr = Inr w_xattr"
  using xattr_init_rep(1) [OF w_xattr_layout(2)] by (simp add: w_xattr_def)

theorem unaligned_value_not_releasable_witness:
  "\<exists>b1. xattr_insert w_xattr (ascii ''user.a'') [1, 2] = Inr (b1, True) \<and> validate_xattr_block_for_release (blk_data b1) = None"
proof -
  have "if xe_required_size (ascii ''user.a'') + length [1, 2 :: u8] < xfree []
    then \<exists>b' new bs'. xattr_insert w_xattr (ascii ''user.a'') [1, 2] = Inr (b', True) \<and>
      xattr_layout b' (takeWhile (before_new (ascii ''user.a'')) [] @ (new, [1, 2]) # bs') \<and> slot_key new = (1, [97]) \<and>
      xe_value_inum (slot_entry new) = 0 \<and> xattr_contents bs' = xattr_contents (dropWhile (before_new (ascii ''user.a'')) [])
    else xattr_insert w_xattr (ascii ''user.a'') [1, 2] = Inr (w_xattr, False)"
    by (rule xattr_insert_rep [OF w_xattr_layout(1) w_name(1)]) simp_all
  then obtain b1 where i: "xattr_insert w_xattr (ascii ''user.a'') [1, 2] = Inr (b1, True)"
    by (auto simp: w_size w_free)
  show ?thesis
    using unaligned_value_not_releasable [OF w_xattr_layout(2) w_init i] i by (auto simp: w_name)
qed

theorem empty_suffix_hides_attributes_witness:
  "\<exists>b'. xattr_insert w_xattr (ascii ''user.'') [5] = Inr (b', True) \<and> xattr_get b' (ascii ''user.'') = Inr None"
  using empty_suffix_hides_attributes [OF w_xattr_layout(1), of "ascii ''user.''" "[5]"] by (auto simp: w_name w_size w_free)

end
