(* ===== verification/Jbd2.thy ===== *)
theory Jbd2
  imports Crc Record_Laws
begin

text \<open>
  The JBD2 on-disk format, \<^verbatim>\<open>src/jbd2.rs\<close>: big-endian accessors, block headers, the feature
  matrix, the journal superblock, descriptor tags, revoke records, commit blocks and the checksums
  over them. Malformed input is \<open>EIO\<close>, a format the crate does not support \<open>ENOTSUP\<close>. The lemmas
  show that no parser panics, that the checks guarantee what the later stages rely on, that what is
  encoded is parsed back, and that every checksummed block rejects damage confined to one byte.
\<close>

section \<open>Constants\<close>

definition JBD2_MAGIC :: u32 where "JBD2_MAGIC = 0xc03b3998"
definition SUPERBLOCK_BYTES :: nat where "SUPERBLOCK_BYTES = 1024"
definition HEADER_BYTES :: nat where "HEADER_BYTES = 12"
definition BLOCK_TAIL_BYTES :: nat where "BLOCK_TAIL_BYTES = 4"
definition FEATURE_INCOMPAT_REVOKE :: u32 where "FEATURE_INCOMPAT_REVOKE = 0x1"
definition FEATURE_INCOMPAT_64BIT :: u32 where "FEATURE_INCOMPAT_64BIT = 0x2"
definition FEATURE_INCOMPAT_CSUM_V3 :: u32 where "FEATURE_INCOMPAT_CSUM_V3 = 0x10"
definition FLAG_ESCAPE :: u32 where "FLAG_ESCAPE = 1"
definition FLAG_SAME_UUID :: u32 where "FLAG_SAME_UUID = 2"
definition FLAG_DELETED :: u32 where "FLAG_DELETED = 4"
definition FLAG_LAST_TAG :: u32 where "FLAG_LAST_TAG = 8"
definition KNOWN_TAG_FLAGS :: u32 where
  "KNOWN_TAG_FLAGS = FLAG_ESCAPE OR FLAG_SAME_UUID OR FLAG_DELETED OR FLAG_LAST_TAG"
definition CRC32C_CHKSUM :: u8 where "CRC32C_CHKSUM = 4"

lemmas tag_flag_defs = FLAG_ESCAPE_def FLAG_SAME_UUID_def FLAG_DELETED_def FLAG_LAST_TAG_def

section \<open>Accessors\<close>

definition need :: "bytes \<Rightarrow> nat \<Rightarrow> unit res" where
  "need bs n = guard (n \<le> length bs) (Err EIO)"

definition get_be :: "nat \<Rightarrow> bytes \<Rightarrow> nat \<Rightarrow> 'a::len word res" where
  "get_be k bs off =
     rbind (ok_or (usize_checked_add off k) EIO) (\<lambda>_.
     rbind (ok_or (get_range bs off k) EIO) (\<lambda>v. Inr (of_be v)))"

definition be16_at :: "bytes \<Rightarrow> nat \<Rightarrow> u16 res" where "be16_at = get_be 2"
definition be32_at :: "bytes \<Rightarrow> nat \<Rightarrow> u32 res" where "be32_at = get_be 4"
definition be64_at :: "bytes \<Rightarrow> nat \<Rightarrow> u64 res" where "be64_at = get_be 8"

definition put32 :: "bytes \<Rightarrow> nat \<Rightarrow> u32 \<Rightarrow> bytes res" where
  "put32 bs off v =
     rbind (ok_or (usize_checked_add off 4) EIO) (\<lambda>_.
     if off + 4 \<le> length bs then Inr (splice bs off (be32 v)) else Inl (Err EIO))"

section \<open>Headers\<close>

datatype BlockType = Descriptor | Commit | SuperblockV1 | SuperblockV2 | Revoke

fun block_type_raw :: "BlockType \<Rightarrow> u32" where
  "block_type_raw Descriptor = 1"
| "block_type_raw Commit = 2"
| "block_type_raw SuperblockV1 = 3"
| "block_type_raw SuperblockV2 = 4"
| "block_type_raw Revoke = 5"

definition block_type_from_raw :: "u32 \<Rightarrow> BlockType res" where
  "block_type_from_raw raw =
     (if raw = 1 then Inr Descriptor
      else if raw = 2 then Inr Commit
      else if raw = 3 then Inr SuperblockV1
      else if raw = 4 then Inr SuperblockV2
      else if raw = 5 then Inr Revoke
      else Inl (Err EIO))"

record jheader =
  jh_type :: BlockType
  jh_sequence :: u32

definition header_parse :: "bytes \<Rightarrow> jheader res" where
  "header_parse bs =
     rbind (need bs HEADER_BYTES) (\<lambda>_.
     rbind (be32_at bs 0) (\<lambda>magic.
     if magic \<noteq> JBD2_MAGIC then Inl (Err EIO) else
     rbind (be32_at bs 4) (\<lambda>raw.
     rbind (block_type_from_raw raw) (\<lambda>bt.
     rbind (be32_at bs 8) (\<lambda>s. Inr \<lparr>jh_type = bt, jh_sequence = s\<rparr>)))))"

definition header_encode_into :: "jheader \<Rightarrow> bytes \<Rightarrow> bytes res" where
  "header_encode_into h bs =
     rbind (need bs HEADER_BYTES) (\<lambda>_.
     rbind (put32 bs 0 JBD2_MAGIC) (\<lambda>bs.
     rbind (put32 bs 4 (block_type_raw (jh_type h))) (\<lambda>bs.
     put32 bs 8 (jh_sequence h))))"

section \<open>Features\<close>

datatype ChecksumMode = NoChecksum | V3

record features =
  ft_checksum :: ChecksumMode
  ft_has_64bit :: bool
  ft_has_revoke :: bool

definition features_validate :: "u32 \<Rightarrow> u32 \<Rightarrow> u32 \<Rightarrow> features res" where
  "features_validate compatible incompat ro_compat =
     (if ro_compat \<noteq> 0 then Inl (Err ENOTSUP)
      else if compatible \<noteq> 0 then Inl (Err ENOTSUP)
      else
        let allowed = FEATURE_INCOMPAT_REVOKE OR FEATURE_INCOMPAT_64BIT OR FEATURE_INCOMPAT_CSUM_V3 in
        if incompat AND NOT allowed \<noteq> 0 then Inl (Err ENOTSUP)
        else Inr \<lparr>ft_checksum = (if incompat AND FEATURE_INCOMPAT_CSUM_V3 \<noteq> 0 then V3 else NoChecksum),
                  ft_has_64bit = (incompat AND FEATURE_INCOMPAT_64BIT \<noteq> 0),
                  ft_has_revoke = (incompat AND FEATURE_INCOMPAT_REVOKE \<noteq> 0)\<rparr>)"

definition tag_bytes :: "features \<Rightarrow> nat" where
  "tag_bytes f = (case (ft_checksum f, ft_has_64bit f) of
     (V3, True) \<Rightarrow> 16 | (V3, False) \<Rightarrow> 16 | (NoChecksum, True) \<Rightarrow> 12 | (NoChecksum, False) \<Rightarrow> 8)"

definition tail_bytes :: "features \<Rightarrow> nat" where
  "tail_bytes f = (if ft_checksum f = V3 then BLOCK_TAIL_BYTES else 0)"

section \<open>Checksums\<close>

definition superblock_checksum :: "bytes \<Rightarrow> u32 res" where
  "superblock_checksum bs =
     rbind (need bs SUPERBLOCK_BYTES) (\<lambda>_.
       let c = crc32 (-1) (take 252 bs); c = crc32 c [0, 0, 0, 0] in
       Inr (crc32 c (slice bs 256 (SUPERBLOCK_BYTES - 256))))"

definition block_checksum :: "u32 \<Rightarrow> bytes \<Rightarrow> u32 res" where
  "block_checksum seed blk =
     (if length blk < BLOCK_TAIL_BYTES then Inl (Err EIO)
      else
        let tail = length blk - BLOCK_TAIL_BYTES; c = crc32 seed (take tail blk) in
        Inr (crc32 c [0, 0, 0, 0]))"

definition verify_block_checksum :: "u32 \<Rightarrow> bytes \<Rightarrow> unit res" where
  "verify_block_checksum seed blk =
     rbind (if 4 \<le> length blk then be32_at blk (length blk - 4) else Inl (Err EIO)) (\<lambda>provided.
     rbind (block_checksum seed blk) (\<lambda>c.
     if c \<noteq> provided then Inl (Err EIO) else Inr ()))"

definition tag_checksum :: "u32 \<Rightarrow> u32 \<Rightarrow> bytes \<Rightarrow> u32" where
  "tag_checksum seed s data_block = crc32 (crc32 seed (be32 s)) data_block"

definition checksum_seed :: "bytes \<Rightarrow> u32" where
  "checksum_seed uuid = crc32 (-1) uuid"

definition commit_checksum :: "u32 \<Rightarrow> bytes \<Rightarrow> u32 res" where
  "commit_checksum seed blk =
     rbind (need blk 20) (\<lambda>_.
       let c = crc32 seed (take 16 blk); c = crc32 c [0, 0, 0, 0] in
       Inr (crc32 c (drop 20 blk)))"

section \<open>The journal superblock\<close>

record jsuperblock =
  js_block_size :: u32
  js_max_len :: u32
  js_first :: u32
  js_sequence :: u32
  js_start :: u32
  js_errno :: u32
  js_features :: features
  js_uuid :: bytes
  js_checksum_type :: u8

definition jsuperblock_parse :: "bytes \<Rightarrow> u32 \<Rightarrow> jsuperblock res" where
  "jsuperblock_parse bs expected_block_size =
     rbind (need bs SUPERBLOCK_BYTES) (\<lambda>_.
     rbind (header_parse bs) (\<lambda>header.
     if jh_type header \<noteq> SuperblockV2 then Inl (Err ENOTSUP) else
     rbind (be32_at bs 12) (\<lambda>block_size.
     rbind (be32_at bs 16) (\<lambda>max_len.
     rbind (be32_at bs 20) (\<lambda>first.
     rbind (be32_at bs 28) (\<lambda>start.
     if block_size \<noteq> expected_block_size \<or> unat block_size < SUPERBLOCK_BYTES then Inl (Err ENOTSUP) else
     if max_len \<le> first \<or> first = 0 \<or> start \<ge> max_len \<or> (start \<noteq> 0 \<and> start < first)
     then Inl (Err EIO) else
     rbind (be32_at bs 36) (\<lambda>compatible.
     rbind (be32_at bs 40) (\<lambda>incompat.
     rbind (be32_at bs 44) (\<lambda>ro_compat.
     rbind (features_validate compatible incompat ro_compat) (\<lambda>fts.
     rbind (index_at bs 80) (\<lambda>checksum_type.
     rbind (if ft_checksum fts = V3 then
              if checksum_type \<noteq> CRC32C_CHKSUM then Inl (Err ENOTSUP)
              else rbind (superblock_checksum bs) (\<lambda>c. rbind (be32_at bs 252) (\<lambda>stored.
                if c \<noteq> stored then Inl (Err EIO) else Inr ()))
            else if checksum_type \<noteq> 0 then Inl (Err ENOTSUP) else Inr ()) (\<lambda>_.
     rbind (index_range bs 48 16) (\<lambda>uuid.
     rbind (be32_at bs 24) (\<lambda>s.
     rbind (be32_at bs 32) (\<lambda>en.
     Inr \<lparr>js_block_size = block_size, js_max_len = max_len, js_first = first, js_sequence = s,
          js_start = start, js_errno = en, js_features = fts, js_uuid = uuid,
          js_checksum_type = checksum_type\<rparr>)))))))))))))))"

section \<open>Descriptor tags\<close>

record descriptor_tag =
  dt_block :: u64
  dt_flags :: u32
  dt_checksum :: "u32 option"

record descriptor_tags =
  dts_bytes :: bytes
  dts_features :: features
  dts_offset :: nat
  dts_end :: nat
  dts_target_blocks :: u64
  dts_finished :: bool

definition descriptor_tags_parse :: "bytes \<Rightarrow> features \<Rightarrow> u32 \<Rightarrow> u64 \<Rightarrow> descriptor_tags res" where
  "descriptor_tags_parse blk fts expected_sequence target_blocks =
     rbind (header_parse blk) (\<lambda>header.
     if jh_type header \<noteq> Descriptor \<or> jh_sequence header \<noteq> expected_sequence then Inl (Err EIO) else
     if length blk < HEADER_BYTES + tag_bytes fts + tail_bytes fts then Inl (Err EIO) else
     Inr \<lparr>dts_bytes = blk, dts_features = fts, dts_offset = HEADER_BYTES,
          dts_end = length blk - tail_bytes fts, dts_target_blocks = target_blocks, dts_finished = False\<rparr>)"

text \<open>Flags, high block number and checksum of the tag at an offset.\<close>

definition tag_fields :: "bytes \<Rightarrow> features \<Rightarrow> nat \<Rightarrow> (u32 \<times> u64 \<times> u32 option) res" where
  "tag_fields bs fts off = (case ft_checksum fts of
     V3 \<Rightarrow>
       rbind (be32_at bs (off + 4)) (\<lambda>flags.
       rbind (be32_at bs (off + 8)) (\<lambda>encoded_high.
       if \<not> ft_has_64bit fts \<and> encoded_high \<noteq> 0 then Inl (Err EIO) else
       rbind (be32_at bs (off + 12)) (\<lambda>c.
       Inr (flags, if ft_has_64bit fts then ucast encoded_high else 0, Some c))))
   | NoChecksum \<Rightarrow>
       rbind (be16_at bs (off + 6)) (\<lambda>flags.
       rbind (if ft_has_64bit fts then rbind (be32_at bs (off + 8)) (\<lambda>h. Inr (ucast h)) else Inr 0) (\<lambda>high.
       Inr (ucast flags, high, None))))"

text \<open>\<open>next_tag\<close> advances the iterator also on some of its errors, so the iterator is returned in
  every case.\<close>

definition next_tag :: "descriptor_tags \<Rightarrow> descriptor_tags \<times> descriptor_tag option res" where
  "next_tag t =
     (if dts_finished t then (t, Inr None)
      else case usize_checked_add (dts_offset t) (tag_bytes (dts_features t)) of
        None \<Rightarrow> (t, Inl (Err EIO))
      | Some tag_end \<Rightarrow>
          if tag_end > dts_end t then (t, Inl (Err EIO))
          else case rbind (be32_at (dts_bytes t) (dts_offset t)) (\<lambda>low.
                    rbind (tag_fields (dts_bytes t) (dts_features t) (dts_offset t)) (\<lambda>f. Inr (low, f))) of
            Inl e \<Rightarrow> (t, Inl e)
          | Inr (low, flags, high, csum) \<Rightarrow>
              if flags AND NOT KNOWN_TAG_FLAGS \<noteq> 0 then (t, Inl (Err EIO))
              else
                let t = t\<lparr>dts_offset := tag_end\<rparr> in
                case (if flags AND FLAG_SAME_UUID = 0 then
                        (case usize_checked_add tag_end 16 of
                           None \<Rightarrow> (t, Inl (Err EIO))
                         | Some off \<Rightarrow> (t\<lparr>dts_offset := off\<rparr>, if off > dts_end t then Inl (Err EIO) else Inr ()))
                      else (t, Inr ())) of
                  (t, Inl e) \<Rightarrow> (t, Inl e)
                | (t, Inr _) \<Rightarrow>
                    let blk = ucast low OR push_bit 32 high in
                    if blk \<ge> dts_target_blocks t then (t, Inl (Err EIO))
                    else (t\<lparr>dts_finished := (flags AND FLAG_LAST_TAG \<noteq> 0)\<rparr>,
                          Inr (Some \<lparr>dt_block = blk, dt_flags = flags, dt_checksum = csum\<rparr>)))"

section \<open>Commit blocks and revoke records\<close>

record commit_header =
  ch_sequence :: u32
  ch_checksum :: "u32 option"
  ch_commit_sec :: u64
  ch_commit_nsec :: u32

definition commit_header_parse :: "bytes \<Rightarrow> features \<Rightarrow> u32 \<Rightarrow> u32 \<Rightarrow> commit_header res" where
  "commit_header_parse blk fts expected_sequence seed =
     rbind (need blk 60) (\<lambda>_.
     rbind (header_parse blk) (\<lambda>header.
     if jh_type header \<noteq> Commit \<or> jh_sequence header \<noteq> expected_sequence then Inl (Err EIO) else
     rbind (if ft_checksum fts = V3 then
              rbind (commit_checksum seed blk) (\<lambda>c. rbind (be32_at blk 16) (\<lambda>stored.
                if c \<noteq> stored then Inl (Err EIO) else Inr (Some stored)))
            else Inr None) (\<lambda>csum.
     rbind (be64_at blk 48) (\<lambda>sec.
     rbind (be32_at blk 56) (\<lambda>nsec.
     Inr \<lparr>ch_sequence = jh_sequence header, ch_checksum = csum, ch_commit_sec = sec,
          ch_commit_nsec = nsec\<rparr>)))))"

definition revoke_at :: "bytes \<Rightarrow> nat \<Rightarrow> nat \<Rightarrow> u64 res" where
  "revoke_at blk width off =
     (if width = 8 then be64_at blk off else rbind (be32_at blk off) (\<lambda>r. Inr (ucast r)))"

function revoke_loop :: "bytes \<Rightarrow> nat \<Rightarrow> nat \<Rightarrow> u64 \<Rightarrow> nat \<Rightarrow> u64 list \<Rightarrow> u64 list res" where
  "revoke_loop blk count width target_blocks off records =
     (if off < count then
        if width = 0 then Inl Panic
        else
          rbind (revoke_at blk width off) (\<lambda>record.
          if record \<ge> target_blocks then Inl (Err EIO)
          else revoke_loop blk count width target_blocks (off + width) (records @ [record]))
      else Inr records)"
  by pat_completeness auto
termination by (relation "measure (\<lambda>(blk, count, width, target_blocks, off, records). count - off)") auto

declare revoke_loop.simps [simp del]

definition revoke_width :: "features \<Rightarrow> nat" where
  "revoke_width fts = (if ft_has_64bit fts then 8 else 4)"

definition parse_revoke_records :: "bytes \<Rightarrow> features \<Rightarrow> u32 \<Rightarrow> u64 \<Rightarrow> u64 list res" where
  "parse_revoke_records blk fts expected_sequence target_blocks =
     (if \<not> ft_has_revoke fts then Inl (Err ENOTSUP) else
      rbind (header_parse blk) (\<lambda>header.
      if jh_type header \<noteq> Revoke \<or> jh_sequence header \<noteq> expected_sequence then Inl (Err EIO) else
      rbind (be32_at blk 12) (\<lambda>c.
      let count = unat c in
      if count < 16 \<or> count > length blk - tail_bytes fts then Inl (Err EIO) else
      if (count - 16) mod revoke_width fts \<noteq> 0 then Inl (Err EIO) else
      revoke_loop blk count (revoke_width fts) target_blocks 16 [])))"

section \<open>Accessors\<close>

lemma get_be_eq:
  "get_be k bs off =
   (if off + k \<le> length bs \<and> off + k < USIZE_LIMIT then Inr (of_be (slice bs off k)) else Inl (Err EIO))"
  by (simp add: get_be_def usize_checked_add_def get_range_def)

lemma get_be_ok:
  "off + k \<le> length bs \<Longrightarrow> off + k < USIZE_LIMIT \<Longrightarrow> get_be k bs off = Inr (of_be (slice bs off k))"
  by (simp add: get_be_eq)

lemmas be_at_defs = be16_at_def be32_at_def be64_at_def

lemma be_at_ok:
  "off + 2 \<le> length bs \<Longrightarrow> off + 2 < USIZE_LIMIT \<Longrightarrow> be16_at bs off = Inr (of_be (slice bs off 2))"
  "off + 4 \<le> length bs \<Longrightarrow> off + 4 < USIZE_LIMIT \<Longrightarrow> be32_at bs off = Inr (of_be (slice bs off 4))"
  "off + 8 \<le> length bs \<Longrightarrow> off + 8 < USIZE_LIMIT \<Longrightarrow> be64_at bs off = Inr (of_be (slice bs off 8))"
  by (simp_all add: be_at_defs get_be_eq)

lemma be_at_Inl:
  "be16_at bs off = Inl e \<Longrightarrow> e = Err EIO" "be32_at bs off = Inl e \<Longrightarrow> e = Err EIO"
  "be64_at bs off = Inl e \<Longrightarrow> e = Err EIO"
  by (auto simp: be_at_defs get_be_eq split: if_splits)

lemma put32_ok:
  "off + 4 \<le> length bs \<Longrightarrow> off + 4 < USIZE_LIMIT \<Longrightarrow> put32 bs off v = Inr (splice bs off (be32 v))"
  by (simp add: put32_def usize_checked_add_def)

lemma put32_Inl: "put32 bs off v = Inl e \<Longrightarrow> e = Err EIO"
  by (auto simp: put32_def usize_checked_add_def split: if_splits)

lemma need_simps [simp]:
  "need bs n = Inr u \<longleftrightarrow> n \<le> length bs" "need bs n = Inl e \<longleftrightarrow> length bs < n \<and> e = Err EIO"
  by (auto simp: need_def)

section \<open>Headers\<close>

definition header_bytes :: "jheader \<Rightarrow> bytes" where
  "header_bytes h = be32 JBD2_MAGIC @ be32 (block_type_raw (jh_type h)) @ be32 (jh_sequence h)"

lemma length_header_bytes [simp]: "length (header_bytes h) = 12"
  by (simp add: header_bytes_def)

lemma block_type_from_raw_Inr: "block_type_from_raw raw = Inr bt \<longleftrightarrow> raw = block_type_raw bt"
  by (cases bt) (auto simp: block_type_from_raw_def)

lemma block_type_from_raw_Inl: "block_type_from_raw raw = Inl e \<Longrightarrow> e = Err EIO"
  by (auto simp: block_type_from_raw_def split: if_splits)

lemma usize_small: "n \<le> 4000000000 \<Longrightarrow> n < USIZE_LIMIT"
  by (simp add: USIZE_LIMIT_def)

lemma take_12_split: "12 \<le> length bs \<Longrightarrow> take 12 bs = slice bs 0 4 @ slice bs 4 4 @ slice bs 8 4"
proof -
  assume "12 \<le> length bs"
  have "take 12 bs = take 4 bs @ take 8 (drop 4 bs)" using take_add [of 4 8 bs] by simp
  moreover have "take 8 (drop 4 bs) = take 4 (drop 4 bs) @ take 4 (drop 8 bs)"
    using take_add [of 4 4 "drop 4 bs"] by simp
  ultimately show ?thesis by (simp add: slice_def)
qed

lemma of_be_eq_iff: "length bs = 4 \<Longrightarrow> of_be bs = w \<longleftrightarrow> bs = be32 w"
  by (metis be_roundtrip(2) of_be_roundtrip(2))

lemma header_parse_Inr:
  "header_parse bs = Inr h \<longleftrightarrow> 12 \<le> length bs \<and> take 12 bs = header_bytes h"
proof (cases "12 \<le> length bs")
  case True
  let ?w = "\<lambda>k. of_be (slice bs k 4) :: u32"
  have l: "length (slice bs 0 4) = 4" "length (slice bs 4 4) = 4" "length (slice bs 8 4) = 4"
    using True by simp_all
  have "header_parse bs = Inr h \<longleftrightarrow>
    ?w 0 = JBD2_MAGIC \<and> ?w 4 = block_type_raw (jh_type h) \<and> ?w 8 = jh_sequence h"
    using True
    by (cases h) (auto simp: header_parse_def rbind_eq_Inr be_at_ok usize_small HEADER_BYTES_def
        block_type_from_raw_Inr)
  also have "\<dots> \<longleftrightarrow> take 12 bs = header_bytes h"
    using l by (simp add: take_12_split [OF True] header_bytes_def of_be_eq_iff)
  finally show ?thesis using True by simp
qed (auto simp: header_parse_def rbind_eq_Inr HEADER_BYTES_def)

lemma header_parse_Inl: "header_parse bs = Inl e \<Longrightarrow> e = Err EIO"
  by (auto simp: header_parse_def rbind_eq_Inl split: if_splits
      dest: be_at_Inl block_type_from_raw_Inl)

lemma header_bytes_inj: "header_bytes h = header_bytes h' \<longleftrightarrow> h = h'"
proof -
  have "header_parse (header_bytes h) = Inr k \<longleftrightarrow> header_bytes h = header_bytes k" for h k
    by (simp add: header_parse_Inr)
  then show ?thesis by (metis sum.inject(2))
qed

lemma header_parse_prefix: "12 \<le> length bs \<Longrightarrow> header_parse (take 12 bs) = header_parse bs"
proof -
  assume "12 \<le> length bs"
  then have "slice (take 12 bs) off 4 = slice bs off 4" if "off \<le> 8" for off
    using that by (simp add: slice_take)
  then show ?thesis
    using \<open>12 \<le> length bs\<close> by (simp add: header_parse_def be_at_ok usize_small HEADER_BYTES_def need_def)
qed

lemma header_parse_bytes: "header_parse (header_bytes h @ rest) = Inr h"
  by (simp add: header_parse_Inr)

lemma header_encode_into_ok:
  "12 \<le> length bs \<Longrightarrow> header_encode_into h bs = Inr (header_bytes h @ drop 12 bs)"
proof -
  assume l: "12 \<le> length bs"
  have "splice (splice (splice bs 0 a) 4 b) 8 c = a @ b @ c @ drop 12 bs"
    if "length a = 4" "length b = 4" "length c = 4" for a b c
    using that l by (simp add: splice_def)
  then show ?thesis
    using l by (simp add: header_encode_into_def rbind_eq_Inr put32_ok usize_small header_bytes_def
        HEADER_BYTES_def need_def)
qed

lemma header_encode_into_short: "length bs < 12 \<Longrightarrow> header_encode_into h bs = Inl (Err EIO)"
  by (simp add: header_encode_into_def need_def HEADER_BYTES_def)

section \<open>Parsers do not panic\<close>

definition no_panic :: "'a res \<Rightarrow> bool" where
  "no_panic m \<longleftrightarrow> m \<noteq> Inl Panic"

lemma no_panic_simps [simp]: "no_panic (Inr x)" "no_panic (Inl e) \<longleftrightarrow> e \<noteq> Panic"
  by (simp_all add: no_panic_def)

lemma no_panic_rbind: "no_panic m \<Longrightarrow> (\<And>x. m = Inr x \<Longrightarrow> no_panic (f x)) \<Longrightarrow> no_panic (rbind m f)"
  by (cases m) (auto simp: no_panic_def)

lemma no_panic_be_at: "no_panic (be16_at bs i)" "no_panic (be32_at bs i)" "no_panic (be64_at bs i)"
  by (simp_all add: be_at_defs get_be_eq)

lemma no_panic_header_parse: "no_panic (header_parse bs)"
  by (cases "header_parse bs") (auto dest: header_parse_Inl)

lemma no_panic_superblock_checksum: "no_panic (superblock_checksum bs)"
  by (simp add: superblock_checksum_def need_def guard_def Let_def)

lemma no_panic_commit_checksum: "no_panic (commit_checksum seed bs)"
  by (simp add: commit_checksum_def need_def guard_def Let_def)

lemma no_panic_features_validate: "no_panic (features_validate c i r)"
  by (simp add: features_validate_def Let_def)

lemma no_panic_jsuperblock_parse: "no_panic (jsuperblock_parse bs n)"
  unfolding jsuperblock_parse_def
  by (auto intro!: no_panic_rbind no_panic_be_at no_panic_header_parse no_panic_superblock_checksum
      no_panic_features_validate simp: need_def guard_def SUPERBLOCK_BYTES_def)

lemma no_panic_commit_header_parse: "no_panic (commit_header_parse bs fts s seed)"
  unfolding commit_header_parse_def
  by (auto intro!: no_panic_rbind no_panic_be_at no_panic_header_parse no_panic_commit_checksum
      simp: need_def guard_def)

lemma no_panic_verify_block_checksum: "no_panic (verify_block_checksum seed bs)"
  by (auto intro!: no_panic_rbind no_panic_be_at simp: verify_block_checksum_def block_checksum_def Let_def)

lemma no_panic_revoke_at: "no_panic (revoke_at bs w i)"
  by (auto intro!: no_panic_rbind no_panic_be_at simp: revoke_at_def)

lemma no_panic_revoke_loop: "0 < w \<Longrightarrow> no_panic (revoke_loop bs c w t off rs)"
proof (induction bs c w t off rs rule: revoke_loop.induct)
  case (1 bs c w t off rs)
  then show ?case
    by (subst revoke_loop.simps) (auto intro!: no_panic_rbind no_panic_revoke_at)
qed

lemma revoke_width_pos [simp]: "0 < revoke_width fts"
  by (simp add: revoke_width_def)

lemma no_panic_parse_revoke_records: "no_panic (parse_revoke_records bs fts s t)"
  unfolding parse_revoke_records_def
  by (auto intro!: no_panic_rbind no_panic_be_at no_panic_header_parse no_panic_revoke_loop simp: Let_def)

lemma no_panic_tag_fields: "no_panic (tag_fields bs fts off)"
  unfolding tag_fields_def
  by (auto intro!: no_panic_rbind no_panic_be_at split: ChecksumMode.split)

section \<open>What an accepted superblock guarantees\<close>

definition ring_ok :: "jsuperblock \<Rightarrow> bool" where
  "ring_ok sb \<longleftrightarrow> 0 < js_first sb \<and> js_first sb < js_max_len sb \<and>
     (js_start sb = 0 \<or> js_first sb \<le> js_start sb \<and> js_start sb < js_max_len sb)"

definition be32_of :: "bytes \<Rightarrow> nat \<Rightarrow> u32" where
  "be32_of bs off = of_be (slice bs off 4)"

definition sb_stored_csum_ok :: "bytes \<Rightarrow> bool" where
  "sb_stored_csum_ok bs \<longleftrightarrow> superblock_checksum bs = Inr (be32_of bs 252)"

text \<open>The superblock an image of at least 1024 bytes describes, before the checks.\<close>

definition js_of :: "bytes \<Rightarrow> features \<Rightarrow> jsuperblock" where
  "js_of bs fts =
     \<lparr>js_block_size = be32_of bs 12, js_max_len = be32_of bs 16, js_first = be32_of bs 20,
      js_sequence = be32_of bs 24, js_start = be32_of bs 28, js_errno = be32_of bs 32, js_features = fts,
      js_uuid = slice bs 48 16, js_checksum_type = bs ! 80\<rparr>"

definition js_csum_ok :: "bytes \<Rightarrow> features \<Rightarrow> bool" where
  "js_csum_ok bs fts =
     (if ft_checksum fts = V3 then bs ! 80 = CRC32C_CHKSUM \<and> sb_stored_csum_ok bs else bs ! 80 = 0)"

lemma jsuperblock_parse_eq:
  assumes "1024 \<le> length bs"
  shows "jsuperblock_parse bs n =
    rbind (header_parse bs) (\<lambda>h.
    if jh_type h \<noteq> SuperblockV2 then Inl (Err ENOTSUP) else
    if be32_of bs 12 \<noteq> n \<or> unat (be32_of bs 12) < 1024 then Inl (Err ENOTSUP) else
    if \<not> ring_ok (js_of bs undefined) then Inl (Err EIO) else
    rbind (features_validate (be32_of bs 36) (be32_of bs 40) (be32_of bs 44)) (\<lambda>fts.
    if js_csum_ok bs fts then Inr (js_of bs fts)
    else if ft_checksum fts = V3 \<and> bs ! 80 = CRC32C_CHKSUM then Inl (Err EIO) else Inl (Err ENOTSUP)))"
proof -
  have r: "be32_at bs k = Inr (be32_of bs k)" if "k \<le> 1020" for k
    using that assms by (simp add: be_at_ok usize_small be32_of_def)
  obtain c where c: "superblock_checksum bs = Inr c"
    using assms by (auto simp: superblock_checksum_def need_def SUPERBLOCK_BYTES_def Let_def)
  have ring: "ring_ok (js_of bs undefined) \<longleftrightarrow>
    \<not> (be32_of bs 16 \<le> be32_of bs 20 \<or> be32_of bs 20 = 0 \<or> be32_of bs 28 \<ge> be32_of bs 16 \<or>
       (be32_of bs 28 \<noteq> 0 \<and> be32_of bs 28 < be32_of bs 20))"
    by (auto simp: ring_ok_def js_of_def not_le not_less word_gt_0)
  show ?thesis
    unfolding jsuperblock_parse_def ring
    using assms
    by (cases "header_parse bs"; cases "features_validate (be32_of bs 36) (be32_of bs 40) (be32_of bs 44)")
       (simp_all add: r c need_def SUPERBLOCK_BYTES_def js_csum_ok_def sb_stored_csum_ok_def js_of_def)
qed

lemma jsuperblock_parse_Inr:
  "jsuperblock_parse bs n = Inr sb \<longleftrightarrow>
     1024 \<le> length bs \<and> (\<exists>h. header_parse bs = Inr h \<and> jh_type h = SuperblockV2) \<and>
     be32_of bs 12 = n \<and> 1024 \<le> unat n \<and> ring_ok sb \<and>
     features_validate (be32_of bs 36) (be32_of bs 40) (be32_of bs 44) = Inr (js_features sb) \<and>
     js_csum_ok bs (js_features sb) \<and> sb = js_of bs (js_features sb)"
proof (cases "1024 \<le> length bs")
  case True
  have rg: "ring_ok (js_of bs f) = ring_ok (js_of bs undefined)" for f
    by (simp add: ring_ok_def js_of_def)
  have ft: "js_features (js_of bs f) = f" for f by (simp add: js_of_def)
  have rg2: "sb = js_of bs (js_features sb) \<Longrightarrow> ring_ok sb = ring_ok (js_of bs undefined)" by (metis rg)
  show ?thesis
    using True rg ft rg2
    by (cases "header_parse bs"; cases "features_validate (be32_of bs 36) (be32_of bs 40) (be32_of bs 44)")
       (auto simp: jsuperblock_parse_eq not_less)
next
  case False
  then show ?thesis by (simp add: jsuperblock_parse_def rbind_eq_Inr SUPERBLOCK_BYTES_def)
qed

section \<open>Checksums with a hole\<close>

text \<open>The three checksums of the format skip the four bytes that hold the checksum and feed zeros in
  their place. \<open>hole_csum\<close> is their common form, \<open>hole_seal\<close> the writer's update of the stored value.\<close>

definition hole_csum :: "u32 \<Rightarrow> nat \<Rightarrow> bytes \<Rightarrow> u32" where
  "hole_csum seed a bs = crc32 (crc32 (crc32 seed (take a bs)) [0, 0, 0, 0]) (drop (a + 4) bs)"

definition hole_seal :: "u32 \<Rightarrow> nat \<Rightarrow> bytes \<Rightarrow> bytes" where
  "hole_seal seed a bs = splice bs a (be32 (hole_csum seed a bs))"

definition hole_ok :: "u32 \<Rightarrow> nat \<Rightarrow> bytes \<Rightarrow> bool" where
  "hole_ok seed a bs \<longleftrightarrow> hole_csum seed a bs = be32_of bs a"

lemma hole_csum_splice:
  "length v = 4 \<Longrightarrow> a + 4 \<le> length bs \<Longrightarrow> hole_csum seed a (splice bs a v) = hole_csum seed a bs"
  by (simp add: hole_csum_def take_splice_ge drop_splice_le)

interpretation hole: sealed "\<lambda>bs. a + 4 \<le> length bs" "hole_seal seed a" "hole_ok seed a"
    "\<lambda>bs. be32_of bs a" "hole_csum seed a" for seed a
proof
  fix bs :: bytes assume l: "a + 4 \<le> length bs"
  show "a + 4 \<le> length (hole_seal seed a bs)" using l by (simp add: hole_seal_def)
  show "be32_of (hole_seal seed a bs) a = hole_csum seed a bs"
    using l by (simp add: hole_seal_def be32_of_def)
  show "hole_csum seed a (hole_seal seed a bs) = hole_csum seed a bs"
    using l by (simp add: hole_seal_def hole_csum_splice)
  show "hole_ok seed a bs = (be32_of bs a = hole_csum seed a bs)" by (auto simp: hole_ok_def)
  show "hole_seal seed a bs = bs" if "be32_of bs a = hole_csum seed a bs"
  proof -
    have "be32 (be32_of bs a) = slice bs a 4" using l by (simp add: be32_of_def be_roundtrip)
    then show ?thesis using that l by (simp add: hole_seal_def splice_slice_id)
  qed
qed

lemma hole_detects:
  assumes "a + 4 \<le> length bs" "i < length bs" "x \<noteq> bs ! i" "hole_ok seed a bs"
  shows "\<not> hole_ok seed a (bs[i := x])"
proof -
  let ?z = "\<lambda>c. crc32 c [0, 0, 0, 0]"
  consider (before) "i < a" | (hole) "a \<le> i" "i < a + 4" | (after) "a + 4 \<le> i" by linarith
  then show ?thesis
  proof cases
    case before
    then have "crc32 seed (take a (bs[i := x])) \<noteq> crc32 seed (take a bs)"
      using assms by (simp add: take_update_swap crc32_list_update)
    then have "hole_csum seed a (bs[i := x]) \<noteq> hole_csum seed a bs"
      using before by (auto simp: hole_csum_def dest!: crc32_inj_init)
    moreover have "be32_of (bs[i := x]) a = be32_of bs a"
      using before by (simp add: be32_of_def slice_def)
    ultimately show ?thesis using assms(4) by (simp add: hole_ok_def)
  next
    case hole
    have "slice (bs[i := x]) a 4 ! (i - a) = x" "slice bs a 4 ! (i - a) = bs ! i"
      using hole assms(1,2) by (simp_all add: nth_slice)
    then have "slice (bs[i := x]) a 4 \<noteq> slice bs a 4" using assms(3) by metis
    then have "be32_of (bs[i := x]) a \<noteq> be32_of bs a"
      using assms(1) be_roundtrip(2) [of "slice bs a 4"] be_roundtrip(2) [of "slice (bs[i := x]) a 4"]
      by (auto simp: be32_of_def)
    moreover have "hole_csum seed a (bs[i := x]) = hole_csum seed a bs"
      using hole by (simp add: hole_csum_def)
    ultimately show ?thesis using assms(4) by (simp add: hole_ok_def)
  next
    case after
    then have "drop (a + 4) (bs[i := x]) = (drop (a + 4) bs)[i - (a + 4) := x]"
      by (simp add: drop_update_swap)
    then have "hole_csum seed a (bs[i := x]) \<noteq> hole_csum seed a bs"
      using after assms(1-3) by (simp add: hole_csum_def crc32_list_update)
    moreover have "be32_of (bs[i := x]) a = be32_of bs a"
      using after by (simp add: be32_of_def slice_def drop_update_swap)
    ultimately show ?thesis using assms(4) by (simp add: hole_ok_def)
  qed
qed

lemma superblock_checksum_hole:
  "1024 \<le> length bs \<Longrightarrow> superblock_checksum bs = Inr (hole_csum (-1) 252 (take 1024 bs))"
  by (simp add: superblock_checksum_def need_def SUPERBLOCK_BYTES_def hole_csum_def slice_def Let_def
      drop_take)

lemma block_checksum_hole:
  "4 \<le> length blk \<Longrightarrow> block_checksum seed blk = Inr (hole_csum seed (length blk - 4) blk)"
  by (simp add: block_checksum_def BLOCK_TAIL_BYTES_def hole_csum_def Let_def)

lemma commit_checksum_hole:
  "20 \<le> length blk \<Longrightarrow> commit_checksum seed blk = Inr (hole_csum seed 16 blk)"
  by (simp add: commit_checksum_def need_def hole_csum_def Let_def)

lemma be32_of_take: "k + 4 \<le> n \<Longrightarrow> be32_of (take n bs) k = be32_of bs k"
  by (simp add: be32_of_def slice_take)

lemma sb_stored_csum_ok_hole:
  "1024 \<le> length bs \<Longrightarrow> sb_stored_csum_ok bs \<longleftrightarrow> hole_ok (-1) 252 (take 1024 bs)"
  by (simp add: sb_stored_csum_ok_def superblock_checksum_hole hole_ok_def be32_of_take)

lemma verify_block_checksum_hole:
  "4 \<le> length blk \<Longrightarrow> length blk < USIZE_LIMIT \<Longrightarrow>
   verify_block_checksum seed blk = (if hole_ok seed (length blk - 4) blk then Inr () else Inl (Err EIO))"
  by (simp add: verify_block_checksum_def block_checksum_hole be_at_ok hole_ok_def be32_of_def)

lemma commit_header_parse_Inr:
  assumes "length blk = n" "60 \<le> n"
  shows "is_ok (commit_header_parse blk fts s seed) \<longleftrightarrow>
    header_parse blk = Inr \<lparr>jh_type = Commit, jh_sequence = s\<rparr> \<and>
    (ft_checksum fts = V3 \<longrightarrow> hole_ok seed 16 blk)"
proof -
  have r: "be32_at blk 16 = Inr (be32_of blk 16)" "be32_at blk 56 = Inr (be32_of blk 56)"
    "be64_at blk 48 = Inr (of_be (slice blk 48 8))"
    using assms by (simp_all add: be_at_ok usize_small be32_of_def)
  show ?thesis
  proof (cases "header_parse blk")
    case (Inr h)
    then show ?thesis
      using assms by (cases h) (auto simp: commit_header_parse_def r need_def commit_checksum_hole hole_ok_def)
  qed (simp add: commit_header_parse_def rbind_guard need_def)
qed

lemma commit_header_parse_Inl: "commit_header_parse blk fts s seed = Inl e \<Longrightarrow> e = Err EIO"
  by (auto simp: commit_header_parse_def rbind_eq_Inl commit_checksum_def Let_def
      split: if_splits dest: be_at_Inl header_parse_Inl)

section \<open>Revoke records\<close>

definition revoke_bytes :: "features \<Rightarrow> u64 \<Rightarrow> bytes" where
  "revoke_bytes fts r = (if ft_has_64bit fts then be64 r else be32 (ucast r))"

definition revoke_fits :: "features \<Rightarrow> u64 \<Rightarrow> u64 \<Rightarrow> bool" where
  "revoke_fits fts target r \<longleftrightarrow> r < target \<and> (ft_has_64bit fts \<or> unat r < 2 ^ 32)"

lemma length_revoke_bytes [simp]: "length (revoke_bytes fts r) = revoke_width fts"
  by (simp add: revoke_bytes_def revoke_width_def)

lemma length_revokes [simp]: "length (concat (map (revoke_bytes fts) rs)) = length rs * revoke_width fts"
  by (induction rs) auto

lemma ucast_ucast_small: "unat (r :: u64) < 2 ^ 32 \<Longrightarrow> ucast (ucast r :: u32) = r"
proof (rule bit_word_eqI)
  fix n assume "unat r < 2 ^ 32"
  then have "bit r n \<Longrightarrow> n < 32" using unat_lt_bit [of r 32 n] by force
  then show "bit (ucast (ucast r :: u32) :: u64) n = bit r n"
    by (auto simp: bit_simps dest: bit_imp_le_length)
qed

lemma revoke_at_bytes:
  assumes "revoke_fits fts target r" "length pre < 1000000"
  shows "revoke_at (pre @ revoke_bytes fts r @ post) (revoke_width fts) (length pre) = Inr r"
  using assms
  by (auto simp: revoke_at_def revoke_width_def revoke_bytes_def be_at_ok usize_small slice_def revoke_fits_def
      ucast_ucast_small)

lemma revoke_loop_bytes:
  assumes "list_all (revoke_fits fts target) rs" "length pre + length rs * revoke_width fts < 1000000"
  shows "revoke_loop (pre @ concat (map (revoke_bytes fts) rs) @ post)
      (length pre + length rs * revoke_width fts) (revoke_width fts) target (length pre) acc = Inr (acc @ rs)"
  using assms
proof (induction rs arbitrary: pre acc)
  case Nil
  then show ?case by (subst revoke_loop.simps) simp
next
  case (Cons r rs)
  have at: "revoke_at (pre @ revoke_bytes fts r @ concat (map (revoke_bytes fts) rs) @ post)
      (revoke_width fts) (length pre) = Inr r"
    using Cons.prems by (intro revoke_at_bytes [of fts target]) auto
  have lt: "\<not> r \<ge> target" using Cons.prems by (simp add: revoke_fits_def not_le)
  show ?case
    using Cons.IH [of "pre @ revoke_bytes fts r" "acc @ [r]"] Cons.prems at lt
    by (subst revoke_loop.simps) (simp add: algebra_simps)
qed

lemma revoke_loop_sound:
  "revoke_loop bs c w t off acc = Inr rs \<Longrightarrow> 0 < w \<Longrightarrow> w dvd c - off \<Longrightarrow>
   \<exists>new. rs = acc @ new \<and> (\<forall>r\<in>set new. r < t) \<and> length new * w = c - off"
proof (induction bs c w t off acc rule: revoke_loop.induct)
  case (1 bs c w t off acc)
  show ?case
  proof (cases "off < c")
    case True
    with 1(2,3) obtain r where r: "revoke_at bs w off = Inr r" "r < t"
      and rec: "revoke_loop bs c w t (off + w) (acc @ [r]) = Inr rs"
      by (subst (asm) revoke_loop.simps) (auto simp: rbind_eq_Inr split: if_splits)
    have le: "w \<le> c - off" using True 1(4) by (simp add: dvd_imp_le)
    then have d: "w dvd c - (off + w)" using 1(4) by (simp add: dvd_diff_nat flip: diff_diff_left)
    have "w \<noteq> 0" using 1(3) by (rule gr_implies_not0)
    have "\<not> t \<le> r" using r(2) by simp
    from 1(1) [OF True \<open>w \<noteq> 0\<close> r(1) this rec 1(3) d] obtain new where
      "rs = (acc @ [r]) @ new" "\<forall>r\<in>set new. r < t" "length new * w = c - (off + w)" by blast
    then show ?thesis using r(2) le by (intro exI [of _ "r # new"]) auto
  next
    case False
    then show ?thesis using 1(2) by (subst (asm) revoke_loop.simps) simp
  qed
qed

definition revoke_block :: "features \<Rightarrow> u32 \<Rightarrow> u64 list \<Rightarrow> bytes \<Rightarrow> bytes" where
  "revoke_block fts s rs rest =
     header_bytes \<lparr>jh_type = Revoke, jh_sequence = s\<rparr> @ be32 (word_of_nat (16 + length rs * revoke_width fts)) @
     concat (map (revoke_bytes fts) rs) @ rest"

text \<open>Revoke blocks. The records laid out in a revoke block are the records parsed from it, in order;
  the parser never panics, and every record it returns, from any block, is below the limit, their number
  being the one the header declares.\<close>

theorem parse_revoke_records_roundtrip:
  assumes "ft_has_revoke fts" "list_all (revoke_fits fts target) rs"
    and "tail_bytes fts \<le> length rest" "length rs \<le> 10000"
  shows "parse_revoke_records (revoke_block fts s rs rest) fts s target = Inr rs \<and>
    no_panic (parse_revoke_records blk fts t target) \<and>
    (\<forall>rs'. parse_revoke_records blk fts t target = Inr rs' \<longrightarrow>
       (\<forall>r\<in>set rs'. r < target) \<and> 16 + length rs' * revoke_width fts = unat (be32_of blk 12))"
proof (intro conjI allI impI)
  let ?w = "revoke_width fts" and ?h = "header_bytes \<lparr>jh_type = Revoke, jh_sequence = s\<rparr>"
  let ?n = "16 + length rs * ?w"
  have w: "?w \<le> 8" by (simp add: revoke_width_def)
  then have "length rs * ?w \<le> 10000 * 8" using assms(4) by (intro mult_le_mono)
  then have small: "?n < 1000000" by simp
  then have un: "unat (word_of_nat ?n :: u32) = ?n" by (intro unat_word_of_nat) simp
  let ?b = "revoke_block fts s rs rest"
  have c: "be32_at ?b 12 = Inr (word_of_nat ?n)"
    by (simp add: be_at_ok usize_small revoke_block_def slice_def)
  have h: "header_parse ?b = Inr \<lparr>jh_type = Revoke, jh_sequence = s\<rparr>"
    unfolding revoke_block_def by (rule header_parse_bytes)
  have len: "length ?b = ?n + length rest" by (simp add: revoke_block_def)
  have "revoke_loop ((?h @ be32 (word_of_nat ?n)) @ concat (map (revoke_bytes fts) rs) @ rest)
      (length (?h @ be32 (word_of_nat ?n)) + length rs * ?w) ?w target (length (?h @ be32 (word_of_nat ?n))) []
      = Inr ([] @ rs)"
    using assms(2) small by (intro revoke_loop_bytes) auto
  then have "revoke_loop ?b ?n ?w target 16 [] = Inr rs" by (simp add: revoke_block_def)
  then show "parse_revoke_records ?b fts s target = Inr rs"
    using assms(1,3) len un by (simp add: parse_revoke_records_def h c Let_def)
  show "no_panic (parse_revoke_records blk fts t target)" by (rule no_panic_parse_revoke_records)
next
  fix rs' assume p: "parse_revoke_records blk fts t target = Inr rs'"
  then obtain c where c: "be32_at blk 12 = Inr c" and d: "revoke_width fts dvd unat c - 16" "16 \<le> unat c"
    and l: "revoke_loop blk (unat c) (revoke_width fts) target 16 [] = Inr rs'"
    by (auto simp: parse_revoke_records_def rbind_eq_Inr Let_def not_less mod_eq_0_iff_dvd split: if_splits)
  from revoke_loop_sound [OF l revoke_width_pos d(1)] d(2) c
  show "\<forall>r\<in>set rs'. r < target" "16 + length rs' * revoke_width fts = unat (be32_of blk 12)"
    by (auto simp: be_at_defs get_be_eq be32_of_def split: if_splits)
qed

lemma parse_revoke_records_roundtrip_witness:
  "parse_revoke_records (revoke_block \<lparr>ft_checksum = V3, ft_has_64bit = True, ft_has_revoke = True\<rparr> 7 [5, 9]
     (replicate 100 0)) \<lparr>ft_checksum = V3, ft_has_64bit = True, ft_has_revoke = True\<rparr> 7 100 = Inr [5, 9]"
  using parse_revoke_records_roundtrip [of "\<lparr>ft_checksum = V3, ft_has_64bit = True, ft_has_revoke = True\<rparr>" 100
      "[5, 9]" "replicate 100 0" 7 "[]" 7]
  by (simp add: revoke_fits_def tail_bytes_def BLOCK_TAIL_BYTES_def)

section \<open>Damage\<close>

lemma jsuperblock_parse_damage:
  assumes p: "jsuperblock_parse bs n = Inr sb" and v3: "ft_checksum (js_features sb) = V3"
    and i: "i < 1024" and x: "x \<noteq> bs ! i"
  shows "\<not> is_ok (jsuperblock_parse (bs[i := x]) n)"
proof
  assume "is_ok (jsuperblock_parse (bs[i := x]) n)"
  then obtain sb' where p': "jsuperblock_parse (bs[i := x]) n = Inr sb'" by (auto simp: is_ok_iff)
  note q = p [unfolded jsuperblock_parse_Inr] and q' = p' [unfolded jsuperblock_parse_Inr]
  have ok: "hole_ok (-1) 252 (take 1024 bs)" and t: "bs ! 80 = CRC32C_CHKSUM" and l: "1024 \<le> length bs"
    using q v3 by (auto simp: js_csum_ok_def sb_stored_csum_ok_hole)
  have "\<not> hole_ok (-1) 252 ((take 1024 bs)[i := x])"
    using l i x by (intro hole_detects ok) auto
  then have bad: "\<not> sb_stored_csum_ok (bs[i := x])"
    using l by (simp add: sb_stored_csum_ok_hole take_update_swap)
  have nv3: "ft_checksum (js_features sb') \<noteq> V3" and t': "bs[i := x] ! 80 = 0"
    using q' bad by (auto simp: js_csum_ok_def split: if_splits)
  have "i = 80" using t t' by (cases "i = 80") (auto simp: CRC32C_CHKSUM_def)
  then have "be32_of (bs[i := x]) 36 = be32_of bs 36" "be32_of (bs[i := x]) 40 = be32_of bs 40"
    "be32_of (bs[i := x]) 44 = be32_of bs 44" by (simp_all add: be32_of_def slice_def drop_update_swap)
  then have "js_features sb' = js_features sb" using q q' by simp
  then show False using nv3 v3 by simp
qed

text \<open>The superblocks the format has: version 2 with the magic number, the expected block size, a proper ring, no feature
  but the three of the incompatible word that are known (revoke records in bit 0, block numbers of 64 bits in bit 1,
  checksums of version 3 in bit 4), and with checksums the CRC32C of the 1024 bytes with zeros for the field.\<close>

definition supported_superblock :: "bytes \<Rightarrow> u32 \<Rightarrow> bool" where
  "supported_superblock bs n \<longleftrightarrow> 1024 \<le> length bs \<and> be32_of bs 0 = 0xC03B3998 \<and> be32_of bs 4 = 4 \<and>
     be32_of bs 12 = n \<and> 1024 \<le> unat n \<and>
     0 < be32_of bs 20 \<and> be32_of bs 20 < be32_of bs 16 \<and>
     (be32_of bs 28 = 0 \<or> be32_of bs 20 \<le> be32_of bs 28 \<and> be32_of bs 28 < be32_of bs 16) \<and>
     be32_of bs 36 = 0 \<and> be32_of bs 44 = 0 \<and> (\<forall>k. bit (be32_of bs 40) k \<longrightarrow> k = 0 \<or> k = 1 \<or> k = 4) \<and>
     (if bit (be32_of bs 40) 4 then bs ! 80 = 4 \<and> be32_of bs 252 = hole_csum (-1) 252 (take 1024 bs) else bs ! 80 = 0)"

definition superblock_fields :: "bytes \<Rightarrow> jsuperblock" where
  "superblock_fields bs =
     \<lparr>js_block_size = be32_of bs 12, js_max_len = be32_of bs 16, js_first = be32_of bs 20,
      js_sequence = be32_of bs 24, js_start = be32_of bs 28, js_errno = be32_of bs 32,
      js_features = \<lparr>ft_checksum = (if bit (be32_of bs 40) 4 then V3 else NoChecksum),
        ft_has_64bit = bit (be32_of bs 40) 1, ft_has_revoke = bit (be32_of bs 40) 0\<rparr>,
      js_uuid = slice bs 48 16, js_checksum_type = bs ! 80\<rparr>"

lemma known_features: "incompat AND NOT 0x13 = 0 \<longleftrightarrow> (\<forall>k. bit (incompat :: u32) k \<longrightarrow> k = 0 \<or> k = 1 \<or> k = 4)"
proof -
  have "list_all (\<lambda>k. bit (0x13 :: u32) k = (k = 0 \<or> k = 1 \<or> k = 4)) [0..<32]" by (simp add: upt_rec)
  then have "bit (0x13 :: u32) k \<longleftrightarrow> k = 0 \<or> k = 1 \<or> k = 4" if "k < 32" for k using that by (simp add: list_all_iff)
  then have b: "bit (0x13 :: u32) k \<longleftrightarrow> k = 0 \<or> k = 1 \<or> k = 4" for k
    using bit_imp_le_length [of "0x13 :: u32" k] by (cases "k < 32") auto
  have "incompat AND NOT 0x13 = 0 \<longleftrightarrow> (\<forall>k. \<not> bit (incompat AND NOT 0x13) k)"
    using bit_imp_le_length [of "incompat AND NOT 0x13"] by (subst bit_eq_iff) auto
  also have "\<dots> \<longleftrightarrow> (\<forall>k. bit incompat k \<longrightarrow> bit (0x13 :: u32) k)"
    by (simp only: bit_and_iff bit_not_iff) (blast dest: bit_imp_possible_bit)
  finally show ?thesis by (simp only: b)
qed

lemma feature_bit: "incompat AND 0x10 = 0 \<longleftrightarrow> \<not> bit (incompat :: u32) 4" "incompat AND 2 = 0 \<longleftrightarrow> \<not> bit incompat 1"
  "incompat AND 1 = 0 \<longleftrightarrow> \<not> bit incompat 0"
  using and_exp_eq_0_iff_not_bit [of incompat 4] and_exp_eq_0_iff_not_bit [of incompat 1] and_exp_eq_0_iff_not_bit [of incompat 0]
  by simp_all

lemma features_validate_bits:
  "features_validate compatible incompat ro_compat = Inr fts \<longleftrightarrow> compatible = 0 \<and> ro_compat = 0 \<and>
     (\<forall>k. bit incompat k \<longrightarrow> k = 0 \<or> k = 1 \<or> k = 4) \<and>
     fts = \<lparr>ft_checksum = (if bit incompat 4 then V3 else NoChecksum), ft_has_64bit = bit incompat 1, ft_has_revoke = bit incompat 0\<rparr>"
  unfolding known_features [symmetric]
  by (auto simp: features_validate_def FEATURE_INCOMPAT_REVOKE_def FEATURE_INCOMPAT_64BIT_def FEATURE_INCOMPAT_CSUM_V3_def
      feature_bit Let_def)

lemma header_parse_super:
  assumes "12 \<le> length bs"
  shows "(\<exists>h. header_parse bs = Inr h \<and> jh_type h = SuperblockV2) \<longleftrightarrow> be32_of bs 0 = 0xC03B3998 \<and> be32_of bs 4 = 4"
proof
  assume "be32_of bs 0 = 0xC03B3998 \<and> be32_of bs 4 = 4"
  then have "header_parse bs = Inr \<lparr>jh_type = SuperblockV2, jh_sequence = be32_of bs 8\<rparr>"
    using assms by (simp add: header_parse_def rbind_eq_Inr be_at_ok usize_small HEADER_BYTES_def block_type_from_raw_Inr
        be32_of_def JBD2_MAGIC_def)
  then show "\<exists>h. header_parse bs = Inr h \<and> jh_type h = SuperblockV2" by auto
qed (use assms in \<open>auto simp: header_parse_def rbind_eq_Inr be_at_ok usize_small HEADER_BYTES_def block_type_from_raw_Inr
      be32_of_def JBD2_MAGIC_def split: if_splits\<close>)

lemma jsuperblock_parse_iff:
  "jsuperblock_parse bs n = Inr sb \<longleftrightarrow> supported_superblock bs n \<and> sb = superblock_fields bs"
proof (cases "1024 \<le> length bs")
  case True
  have "js_csum_ok bs (js_features (superblock_fields bs)) \<longleftrightarrow>
      (if bit (be32_of bs 40) 4 then bs ! 80 = 4 \<and> be32_of bs 252 = hole_csum (-1) 252 (take 1024 bs) else bs ! 80 = 0)"
    using True by (auto simp: js_csum_ok_def superblock_fields_def CRC32C_CHKSUM_def sb_stored_csum_ok_hole hole_ok_def be32_of_def
        slice_take)
  then show ?thesis
    unfolding jsuperblock_parse_Inr supported_superblock_def features_validate_bits
    using True header_parse_super [of bs] by (auto simp: js_of_def superblock_fields_def ring_ok_def)
qed (simp add: jsuperblock_parse_Inr supported_superblock_def)

text \<open>C28: the journal superblock. Parsing never panics; it accepts exactly the supported superblocks of the expected
  block size and returns their fields; and under checksum v3 no image that differs from an accepted one in one of its
  1024 bytes is accepted.\<close>

theorem jsuperblock_parse_exact:
  "no_panic (jsuperblock_parse bs n) \<and>
   (jsuperblock_parse bs n = Inr sb \<longleftrightarrow> supported_superblock bs n \<and> sb = superblock_fields bs) \<and>
   (is_ok (jsuperblock_parse bs n) \<and> bit (be32_of bs 40) 4 \<longrightarrow>
      (\<forall>i x. i < 1024 \<and> x \<noteq> bs ! i \<longrightarrow> \<not> is_ok (jsuperblock_parse (bs[i := x]) n)))"
proof (intro conjI impI allI)
  show "no_panic (jsuperblock_parse bs n)" by (rule no_panic_jsuperblock_parse)
  show "jsuperblock_parse bs n = Inr sb \<longleftrightarrow> supported_superblock bs n \<and> sb = superblock_fields bs"
    by (rule jsuperblock_parse_iff)
  fix i x assume a: "is_ok (jsuperblock_parse bs n) \<and> bit (be32_of bs 40) 4" "i < 1024 \<and> x \<noteq> bs ! i"
  then obtain sb where p: "jsuperblock_parse bs n = Inr sb" by (auto simp: is_ok_iff)
  then have "ft_checksum (js_features sb) = V3" using a(1) by (simp add: jsuperblock_parse_iff superblock_fields_def)
  then show "\<not> is_ok (jsuperblock_parse (bs[i := x]) n)" using jsuperblock_parse_damage [OF p] a(2) by blast
qed

definition w_jsuper :: bytes where
  "w_jsuper = hole_seal (-1) 252 (header_bytes \<lparr>jh_type = SuperblockV2, jh_sequence = 0\<rparr> @
     be32 4096 @ be32 16 @ be32 1 @ be32 5 @ be32 0 @ be32 0 @ be32 0 @ be32 0x13 @ be32 0 @
     replicate 32 0 @ [4] @ replicate 943 0)"

lemma w_jsuper_parse:
  "jsuperblock_parse w_jsuper 4096 = Inr \<lparr>js_block_size = 4096, js_max_len = 16, js_first = 1,
     js_sequence = 5, js_start = 0, js_errno = 0,
     js_features = \<lparr>ft_checksum = V3, ft_has_64bit = True, ft_has_revoke = True\<rparr>,
     js_uuid = replicate 16 0, js_checksum_type = 4\<rparr>"
proof -
  let ?b = "header_bytes \<lparr>jh_type = SuperblockV2, jh_sequence = 0\<rparr> @
     be32 4096 @ be32 16 @ be32 1 @ be32 5 @ be32 0 @ be32 0 @ be32 0 @ be32 0x13 @ be32 0 @
     replicate 32 0 @ [4 :: u8] @ replicate 943 0"
  have len: "length ?b = 1024" by simp
  let ?v = "be32 (hole_csum (-1) 252 ?b)"
  have w: "w_jsuper = splice ?b 252 ?v" by (simp only: w_jsuper_def hole_seal_def)
  have s: "slice w_jsuper k m = slice ?b k m" if "k + m \<le> 252" for k m
    unfolding w by (rule slice_splice_disjoint) (use that len in auto)
  have l: "length w_jsuper = 1024" unfolding w using len by simp
  have "slice w_jsuper 80 1 = [4]" by (subst s) (simp_all add: slice_def)
  then have b80: "w_jsuper ! 80 = 4"
    using l nth_slice [of 0 1 80 w_jsuper] by simp
  have h: "header_parse w_jsuper = Inr \<lparr>jh_type = SuperblockV2, jh_sequence = 0\<rparr>"
    using s [of 0 12] l by (simp add: header_parse_Inr slice_def)
  have s4: "be32_of w_jsuper k = be32_of ?b k" if "k \<le> 248" for k
    using that by (simp only: be32_of_def s)
  have f: "be32_of w_jsuper 12 = 4096" "be32_of w_jsuper 16 = 16" "be32_of w_jsuper 20 = 1"
     "be32_of w_jsuper 24 = 5" "be32_of w_jsuper 28 = 0" "be32_of w_jsuper 32 = 0"
     "be32_of w_jsuper 36 = 0" "be32_of w_jsuper 40 = 0x13" "be32_of w_jsuper 44 = 0"
     "slice w_jsuper 48 16 = replicate 16 0"
    by (subst s4 s, simp, simp add: be32_of_def slice_def)+
  have "hole_ok (-1) 252 w_jsuper"
    unfolding w_jsuper_def by (rule hole.verify_seal) (use len in simp)
  then have ok: "sb_stored_csum_ok w_jsuper" using l by (simp add: sb_stored_csum_ok_hole)
  have ft: "features_validate 0 0x13 0 = Inr \<lparr>ft_checksum = V3, ft_has_64bit = True, ft_has_revoke = True\<rparr>"
    by (simp add: features_validate_def FEATURE_INCOMPAT_REVOKE_def FEATURE_INCOMPAT_64BIT_def
        FEATURE_INCOMPAT_CSUM_V3_def)
  show ?thesis
    using l by (simp add: jsuperblock_parse_Inr h f ft ok b80 js_csum_ok_def js_of_def ring_ok_def
        CRC32C_CHKSUM_def)
qed

lemma jsuperblock_parse_exact_witness:
  "supported_superblock w_jsuper 4096 \<and> \<not> is_ok (jsuperblock_parse (w_jsuper[100 := w_jsuper ! 100 + 1]) 4096)"
proof -
  let ?sb = "superblock_fields w_jsuper"
  have s: "supported_superblock w_jsuper 4096"
    using jsuperblock_parse_exact [of w_jsuper 4096 "projr (jsuperblock_parse w_jsuper 4096)"] w_jsuper_parse by simp
  have "jsuperblock_parse w_jsuper 4096 = Inr ?sb" using jsuperblock_parse_exact [of w_jsuper 4096 ?sb] s by simp
  then have "?sb = projr (jsuperblock_parse w_jsuper 4096)" by simp
  then have "js_features ?sb = \<lparr>ft_checksum = V3, ft_has_64bit = True, ft_has_revoke = True\<rparr>" by (simp add: w_jsuper_parse)
  then have "bit (be32_of w_jsuper 40) 4" by (simp add: superblock_fields_def split: if_splits)
  then show ?thesis using jsuperblock_parse_exact [of w_jsuper 4096 ?sb] w_jsuper_parse s by simp
qed

text \<open>Checksum v3 blocks. A descriptor or revoke block whose tail checksum was computed by
  \<^verbatim>\<open>block_checksum\<close> verifies, and so does a commit block sealed with \<^verbatim>\<open>commit_checksum\<close>; a block that
  differs from a verifying one in a single byte, anywhere in the block, is rejected with \<open>EIO\<close>.\<close>

theorem journal_block_damage_detected:
  assumes "60 \<le> length blk" "length blk < USIZE_LIMIT" "i < length blk" "x \<noteq> blk ! i"
  shows "(block_checksum seed blk = Inr c \<longrightarrow>
      verify_block_checksum seed (splice blk (length blk - 4) (be32 c)) = Inr ()) \<and>
    (verify_block_checksum seed blk = Inr () \<longrightarrow> verify_block_checksum seed (blk[i := x]) = Inl (Err EIO)) \<and>
    (ft_checksum fts = V3 \<longrightarrow> is_ok (commit_header_parse blk fts s seed) \<longrightarrow>
      commit_header_parse (blk[i := x]) fts s seed = Inl (Err EIO))"
proof (intro conjI impI)
  have l4: "length blk - 4 + 4 \<le> length blk" using assms by simp
  assume "block_checksum seed blk = Inr c"
  then have "splice blk (length blk - 4) (be32 c) = hole_seal seed (length blk - 4) blk"
    using assms(1) by (simp add: block_checksum_hole hole_seal_def)
  then have ok: "hole_ok seed (length blk - 4) (splice blk (length blk - 4) (be32 c))"
    using hole.verify_seal [OF l4, of seed] by simp
  have "length (splice blk (length blk - 4) (be32 c)) = length blk" using assms(1) by simp
  then show "verify_block_checksum seed (splice blk (length blk - 4) (be32 c)) = Inr ()"
    using verify_block_checksum_hole [of "splice blk (length blk - 4) (be32 c)" seed] ok assms(1,2) by simp
next
  assume "verify_block_checksum seed blk = Inr ()"
  then have "hole_ok seed (length blk - 4) blk"
    using assms(1,2) by (simp add: verify_block_checksum_hole split: if_splits)
  then have "\<not> hole_ok seed (length blk - 4) (blk[i := x])"
    using assms by (intro hole_detects) auto
  then show "verify_block_checksum seed (blk[i := x]) = Inl (Err EIO)"
    using assms(1,2) by (simp add: verify_block_checksum_hole)
next
  assume v: "ft_checksum fts = V3" and ok: "is_ok (commit_header_parse blk fts s seed)"
  have "hole_ok seed 16 blk" using commit_header_parse_Inr [OF refl assms(1)] v ok by metis
  then have "\<not> hole_ok seed 16 (blk[i := x])" using assms by (intro hole_detects) auto
  moreover have "60 \<le> length (blk[i := x])" using assms(1) by simp
  ultimately have "\<not> is_ok (commit_header_parse (blk[i := x]) fts s seed)"
    using commit_header_parse_Inr [OF refl, of "blk[i := x]"] v by metis
  then show "commit_header_parse (blk[i := x]) fts s seed = Inl (Err EIO)"
    by (cases "commit_header_parse (blk[i := x]) fts s seed") (auto dest: commit_header_parse_Inl)
qed

lemma journal_block_damage_detected_witness:
  "verify_block_checksum 9 (splice (replicate 64 0) 60 (be32 (hole_csum 9 60 (replicate 64 0)))) = Inr ()"
  using journal_block_damage_detected [of "replicate 64 0" 0 1 9 "hole_csum 9 60 (replicate 64 0)"]
  by (simp add: block_checksum_hole USIZE_LIMIT_def)

end
