(* ===== verification/Journal_Recovery.thy ===== *)
theory Journal_Recovery
  imports Jbd2 Block_Device
begin

text \<open>
  Journal recovery, \<^verbatim>\<open>src/ext4/journal_recovery.rs\<close>, over the I/O interface
  \<^verbatim>\<open>JournalRecoveryIo\<close>, and the implementation of that interface on a block device,
  \<^verbatim>\<open>RecoveryDevice\<close> of \<^verbatim>\<open>src/ext4/journal.rs\<close>. The three passes (scan, revoke, replay) are one
  function \<open>walk\<close>; its two nested loops are \<open>walk_outer\<close> (transactions) and \<open>walk_tx\<close> (blocks of a
  transaction). The counters of blocks are natural numbers: they are bounded by the length of
  the ring, a 32-bit number.
\<close>

section \<open>The I/O boundary\<close>

record 'i recovery_io =
  rio_block_size :: nat
  rio_filesystem_blocks :: u64
  rio_read_journal :: "'i \<Rightarrow> u32 \<Rightarrow> bytes res"
  rio_write_journal :: "'i \<Rightarrow> u32 \<Rightarrow> bytes \<Rightarrow> 'i \<times> unit res"
  rio_write_home :: "'i \<Rightarrow> u64 \<Rightarrow> bytes \<Rightarrow> 'i \<times> unit res"
  rio_is_journal_physical :: "u64 \<Rightarrow> bool"
  rio_flush_home :: "'i \<Rightarrow> 'i \<times> unit res"
  rio_flush_journal :: "'i \<Rightarrow> 'i \<times> unit res"

text \<open>\<^verbatim>\<open>RecoveryDevice\<close>: the journal blocks through the mapping of the journal inode.\<close>

definition rd_journal_block :: "PBlockId list \<Rightarrow> u32 \<Rightarrow> PBlockId res" where
  "rd_journal_block journal_blocks logical =
     (if unat logical < length journal_blocks then Inr (journal_blocks ! unat logical) else Inl (Err EIO))"

definition rd_write_image :: "('d, 'z) device_ops_scheme \<Rightarrow> 'd \<Rightarrow> PBlockId \<Rightarrow> bytes \<Rightarrow> 'd \<times> unit res" where
  "rd_write_image ops d physical data =
     (if length data = BLOCK_SIZE then write_block ops d (block_new physical data) else (d, Inl (Err EIO)))"

definition recovery_device ::
    "('d, 'z) device_ops_scheme \<Rightarrow> PBlockId list \<Rightarrow> PBlockId set \<Rightarrow> u64 \<Rightarrow> 'd recovery_io" where
  "recovery_device ops journal_blocks journal_block_set filesystem_blocks =
     \<lparr>rio_block_size = BLOCK_SIZE,
      rio_filesystem_blocks = filesystem_blocks,
      rio_read_journal = (\<lambda>d logical.
        rbind (rd_journal_block journal_blocks logical) (\<lambda>physical.
        rbind (read_block ops d physical) (\<lambda>b. Inr (blk_data b)))),
      rio_write_journal = (\<lambda>d logical data.
        case rd_journal_block journal_blocks logical of
          Inl e \<Rightarrow> (d, Inl e)
        | Inr physical \<Rightarrow> rd_write_image ops d physical data),
      rio_write_home = rd_write_image ops,
      rio_is_journal_physical = (\<lambda>physical. physical \<in> journal_block_set),
      rio_flush_home = flush ops,
      rio_flush_journal = flush ops\<rparr>"

section \<open>Tags\<close>

text \<open>The module has its own accessors; their offsets are not checked for overflow.\<close>

definition rec_get_be :: "nat \<Rightarrow> bytes \<Rightarrow> nat \<Rightarrow> 'a::len word res" where
  "rec_get_be k bs off =
     (if off + k < USIZE_LIMIT then rbind (ok_or (get_range bs off k) EIO) (\<lambda>s. Inr (of_be s)) else Inl Panic)"

definition rec_be16 :: "bytes \<Rightarrow> nat \<Rightarrow> u16 res" where "rec_be16 = rec_get_be 2"
definition rec_be32 :: "bytes \<Rightarrow> nat \<Rightarrow> u32 res" where "rec_be32 = rec_get_be 4"

definition put_be32 :: "bytes \<Rightarrow> nat \<Rightarrow> u32 \<Rightarrow> bytes res" where
  "put_be32 bs off v =
     (if off + 4 < USIZE_LIMIT then
        if off + 4 \<le> length bs then Inr (splice bs off (be32 v)) else Inl (Err EIO)
      else Inl Panic)"

record tag =
  tg_block :: u64
  tg_flags :: u32
  tg_checksum :: "u32 option"

definition rec_tag_fields :: "bytes \<Rightarrow> features \<Rightarrow> nat \<Rightarrow> (u32 \<times> u64 \<times> u32 option) res" where
  "rec_tag_fields blk fts off =
     (if ft_checksum fts = V3 then
        rbind (rec_be32 blk (off + 8)) (\<lambda>encoded_high.
        if \<not> ft_has_64bit fts \<and> encoded_high \<noteq> 0 then Inl (Err EIO) else
        rbind (rec_be32 blk (off + 4)) (\<lambda>flags.
        rbind (rec_be32 blk (off + 12)) (\<lambda>c.
        Inr (flags, if ft_has_64bit fts then ucast encoded_high else 0, Some c))))
      else
        rbind (rec_be16 blk (off + 6)) (\<lambda>flags.
        rbind (if ft_has_64bit fts then rbind (rec_be32 blk (off + 8)) (\<lambda>h. Inr (ucast h)) else Inr 0) (\<lambda>high.
        Inr (ucast flags, high, None))))"

lemma tag_bytes_pos [simp]: "0 < tag_bytes fts"
  by (simp add: tag_bytes_def split: ChecksumMode.split bool.split)

text \<open>The offset behind a tag: its journal UUID follows unless the flags say otherwise.\<close>

definition tag_uuid_end :: "bytes \<Rightarrow> jsuperblock \<Rightarrow> u32 \<Rightarrow> nat \<Rightarrow> nat res" where
  "tag_uuid_end blk sb flags off =
     (if flags AND FLAG_SAME_UUID = 0 then
        if off + 16 < USIZE_LIMIT then
          rbind (ok_or (get_range blk off 16) EIO) (\<lambda>uuid.
          if uuid \<noteq> js_uuid sb then Inl (Err EIO) else Inr (off + 16))
        else Inl Panic
      else Inr off)"

lemma tag_uuid_end_ge: "tag_uuid_end blk sb flags off = Inr n \<Longrightarrow> off \<le> n"
  by (auto simp: tag_uuid_end_def rbind_eq_Inr split: if_splits)

function parse_tags_loop :: "bytes \<Rightarrow> jsuperblock \<Rightarrow> u64 \<Rightarrow> nat \<Rightarrow> nat \<Rightarrow> tag list \<Rightarrow> tag list res" where
  "parse_tags_loop blk sb target_blocks ending off tags =
     (let size = tag_bytes (js_features sb) in
      if \<not> off + size < USIZE_LIMIT \<or> off + size > ending then Inl (Err EIO)
      else
        rbind (rec_be32 blk off) (\<lambda>low.
        rbind (rec_tag_fields blk (js_features sb) off) (\<lambda>f.
        rbind (tag_uuid_end blk sb (fst f) (off + size)) (\<lambda>next_off.
        let target = ucast low OR push_bit 32 (fst (snd f)) in
        if target \<ge> target_blocks then Inl (Err EIO)
        else
          let tags = tags @ [\<lparr>tg_block = target, tg_flags = fst f, tg_checksum = snd (snd f)\<rparr>] in
          if fst f AND FLAG_LAST_TAG \<noteq> 0 then Inr tags
          else parse_tags_loop blk sb target_blocks ending next_off tags))))"
  by pat_completeness auto
termination
proof (relation "measure (\<lambda>(blk, sb, target_blocks, ending, off, tags). ending - off)", goal_cases)
  case (2 blk sb target_blocks ending off tags size low f next_off target tags')
  have "off + size \<le> next_off" using 2 tag_uuid_end_ge by metis
  moreover have "0 < size" "off + size \<le> ending" using 2 by simp_all
  ultimately show ?case by simp
qed simp

declare parse_tags_loop.simps [simp del]

definition parse_tags :: "bytes \<Rightarrow> jsuperblock \<Rightarrow> u64 \<Rightarrow> tag list res" where
  "parse_tags blk sb target_blocks =
     (let tail = (if ft_checksum (js_features sb) = V3 then 4 else 0) in
      if length blk < tail then Inl (Err EIO)
      else parse_tags_loop blk sb target_blocks (length blk - tail) 12 [])"

section \<open>The walk over the log\<close>

definition advance :: "jsuperblock \<Rightarrow> u32 \<Rightarrow> u32 res" where
  "advance sb pos = rbind (add_chk pos 1) (\<lambda>n. Inr (if n = js_max_len sb then js_first sb else n))"

definition tid_geq :: "u32 \<Rightarrow> u32 \<Rightarrow> bool" where
  "tid_geq a b \<longleftrightarrow> 0 \<le> sint (a - b)"

definition check_size :: "('i, 'z) recovery_io_scheme \<Rightarrow> bytes \<Rightarrow> unit res" where
  "check_size io blk = guard (length blk = rio_block_size io) (Err EIO)"

datatype pass = ScanPass | RevokePass | ReplayPass

record recovery_stats =
  rs_transactions :: u32
  rs_replayed :: nat
  rs_revoke_hits :: nat

definition stats_default :: recovery_stats where
  "stats_default = \<lparr>rs_transactions = 0, rs_replayed = 0, rs_revoke_hits = 0\<rparr>"

text \<open>The variables of \<^verbatim>\<open>walk\<close> that the loops change, with the state of the device.\<close>

record 'i walk_state =
  ws_io :: 'i
  ws_pos :: u32
  ws_consumed :: nat
  ws_invalid :: bool
  ws_revokes :: "(u64 \<rightharpoonup> u32) option"
  ws_stats :: recovery_stats

text \<open>How a loop body ends: go on, \<^verbatim>\<open>break\<close> after a commit block, or \<^verbatim>\<open>return\<close>.\<close>

datatype flow = Next | Break | Return "u32 res"

definition attempt :: "'a res \<Rightarrow> 's \<Rightarrow> ('a \<Rightarrow> 's \<times> flow) \<Rightarrow> 's \<times> flow" where
  "attempt m s f = (case m of Inl e \<Rightarrow> (s, Return (Inl e)) | Inr x \<Rightarrow> f x)"

lemma attempt_simps [simp]:
  "attempt (Inl e) s f = (s, Return (Inl e))" "attempt (Inr x) s f = f x"
  by (simp_all add: attempt_def)

text \<open>What the log may end with: the end of the valid part in the scan, an error later.\<close>

definition log_ends :: "pass \<Rightarrow> u32 \<Rightarrow> u32 res" where
  "log_ends pass s = (if pass = ScanPass then Inr s else Inl (Err EIO))"

definition ring_size :: "jsuperblock \<Rightarrow> nat" where
  "ring_size sb = unat (js_max_len sb) - unat (js_first sb)"

definition step_block :: "jsuperblock \<Rightarrow> 'i walk_state \<Rightarrow> ('i walk_state \<Rightarrow> 'i walk_state \<times> flow) \<Rightarrow> 'i walk_state \<times> flow" where
  "step_block sb s f =
     attempt (advance sb (ws_pos s)) s (\<lambda>pos.
       f (s\<lparr>ws_pos := pos, ws_consumed := ws_consumed s + 1\<rparr>))"

definition is_revoked :: "(u64 \<rightharpoonup> u32) option \<Rightarrow> u64 \<Rightarrow> u32 \<Rightarrow> bool" where
  "is_revoked revokes blk s =
     (case revokes of None \<Rightarrow> False
      | Some r \<Rightarrow> (case r blk of None \<Rightarrow> False | Some tid \<Rightarrow> tid_geq tid s))"

definition replay_block ::
    "('i, 'z) recovery_io_scheme \<Rightarrow> u32 \<Rightarrow> tag \<Rightarrow> bytes \<Rightarrow> 'i walk_state \<Rightarrow> 'i walk_state \<times> flow" where
  "replay_block io sq t data s =
     (if rio_is_journal_physical io (tg_block t) then (s, Return (Inl (Err EIO)))
      else if is_revoked (ws_revokes s) (tg_block t) sq then
        (s\<lparr>ws_stats := (ws_stats s)\<lparr>rs_revoke_hits := rs_revoke_hits (ws_stats s) + 1\<rparr>\<rparr>, Next)
      else
        attempt (if tg_flags t AND FLAG_ESCAPE \<noteq> 0 then write_range data 0 (be32 JBD2_MAGIC) else Inr data) s
          (\<lambda>data.
          case rio_write_home io (ws_io s) (tg_block t) data of
            (d, Inl e) \<Rightarrow> (s\<lparr>ws_io := d\<rparr>, Return (Inl e))
          | (d, Inr _) \<Rightarrow>
              (s\<lparr>ws_io := d, ws_stats := (ws_stats s)\<lparr>rs_replayed := rs_replayed (ws_stats s) + 1\<rparr>\<rparr>, Next)))"

definition walk_tag ::
    "('i, 'z) recovery_io_scheme \<Rightarrow> jsuperblock \<Rightarrow> u32 \<Rightarrow> pass \<Rightarrow> u32 \<Rightarrow> tag \<Rightarrow> 'i walk_state \<Rightarrow> 'i walk_state \<times> flow" where
  "walk_tag io sb seed pass sq t s =
     (if ws_consumed s \<ge> ring_size sb then (s, Return (log_ends pass sq))
      else
        attempt (rio_read_journal io (ws_io s) (ws_pos s)) s (\<lambda>data.
        attempt (check_size io data) s (\<lambda>_.
        step_block sb s (\<lambda>s.
        let mismatch = (case tg_checksum t of None \<Rightarrow> False | Some expected \<Rightarrow> tag_checksum seed sq data \<noteq> expected) in
        if mismatch \<and> pass \<noteq> ScanPass then (s, Return (Inl (Err EIO)))
        else
          let s = (if mismatch then s\<lparr>ws_invalid := True\<rparr> else s) in
          if pass = ReplayPass \<and> tg_flags t AND FLAG_DELETED = 0 then replay_block io sq t data s
          else (s, Next)))))"

fun walk_tags ::
    "('i, 'z) recovery_io_scheme \<Rightarrow> jsuperblock \<Rightarrow> u32 \<Rightarrow> pass \<Rightarrow> u32 \<Rightarrow> tag list \<Rightarrow> 'i walk_state \<Rightarrow> 'i walk_state \<times> flow" where
  "walk_tags io sb seed pass sq [] s = (s, Next)"
| "walk_tags io sb seed pass sq (t # ts) s =
     (case walk_tag io sb seed pass sq t s of
        (s, Next) \<Rightarrow> walk_tags io sb seed pass sq ts s
      | r \<Rightarrow> r)"

fun walk_revokes ::
    "('i, 'z) recovery_io_scheme \<Rightarrow> u32 \<Rightarrow> u64 list \<Rightarrow> 'i walk_state \<Rightarrow> 'i walk_state \<times> flow" where
  "walk_revokes io sq [] s = (s, Next)"
| "walk_revokes io sq (b # bs) s =
     (if rio_is_journal_physical io b then (s, Return (Inl (Err EIO)))
      else case ws_revokes s of
        None \<Rightarrow> (s, Return (Inl (Err EIO)))
      | Some table \<Rightarrow>
          let keep = (case table b of None \<Rightarrow> False | Some old \<Rightarrow> tid_geq old sq) in
          walk_revokes io sq bs (if keep then s else s\<lparr>ws_revokes := Some (table(b \<mapsto> sq))\<rparr>))"

text \<open>The checksum test in front of descriptor and revoke blocks.\<close>

definition checked_block ::
    "jsuperblock \<Rightarrow> u32 \<Rightarrow> pass \<Rightarrow> bytes \<Rightarrow> 'i walk_state \<Rightarrow> ('i walk_state \<Rightarrow> 'i walk_state \<times> flow) \<Rightarrow>
     'i walk_state \<times> flow" where
  "checked_block sb seed pass raw s f =
     (if ft_checksum (js_features sb) = V3 then
        case verify_block_checksum seed raw of
          Inl e \<Rightarrow> if pass = ScanPass then f (s\<lparr>ws_invalid := True\<rparr>) else (s, Return (Inl e))
        | Inr _ \<Rightarrow> f s
      else f s)"

definition walk_typed ::
    "('i, 'z) recovery_io_scheme \<Rightarrow> jsuperblock \<Rightarrow> u32 \<Rightarrow> pass \<Rightarrow> u32 \<Rightarrow> bytes \<Rightarrow> BlockType \<Rightarrow>
     'i walk_state \<Rightarrow> 'i walk_state \<times> flow" where
  "walk_typed io sb seed pass sq raw bt s = (case bt of
     Descriptor \<Rightarrow>
       checked_block sb seed pass raw s (\<lambda>s.
       attempt (parse_tags raw sb (rio_filesystem_blocks io)) s (\<lambda>tags.
       walk_tags io sb seed pass sq tags s))
   | Revoke \<Rightarrow>
       checked_block sb seed pass raw s (\<lambda>s.
       if pass = RevokePass then
         attempt (parse_revoke_records raw (js_features sb) sq (rio_filesystem_blocks io)) s (\<lambda>bs.
         walk_revokes io sq bs s)
       else (s, Next))
   | Commit \<Rightarrow>
       (case commit_header_parse raw (js_features sb) sq seed of
          Inl e \<Rightarrow> (s, Return (if pass = ScanPass then Inr sq else Inl e))
        | Inr _ \<Rightarrow> if ws_invalid s then (s, Return (Inl (Err EIO))) else (s, Break))
   | _ \<Rightarrow> (s, Return (log_ends pass sq)))"

definition walk_block ::
    "('i, 'z) recovery_io_scheme \<Rightarrow> jsuperblock \<Rightarrow> u32 \<Rightarrow> pass \<Rightarrow> u32 \<Rightarrow> 'i walk_state \<Rightarrow> 'i walk_state \<times> flow" where
  "walk_block io sb seed pass sq s =
     attempt (rio_read_journal io (ws_io s) (ws_pos s)) s (\<lambda>raw.
     attempt (check_size io raw) s (\<lambda>_.
     case header_parse raw of
       Inl e \<Rightarrow> (s, Return (log_ends pass sq))
     | Inr h \<Rightarrow>
         if jh_sequence h \<noteq> sq then (s, Return (log_ends pass sq))
         else step_block sb s (walk_typed io sb seed pass sq raw (jh_type h))))"

fun returns :: "flow \<Rightarrow> bool" where
  "returns (Return r) = True"
| "returns _ = False"

lemma attempt_goes: "\<not> returns fl \<Longrightarrow> attempt m s f = (s', fl) \<longleftrightarrow> (\<exists>x. m = Inr x \<and> f x = (s', fl))"
  by (cases m) auto

lemma step_block_goes:
  "step_block sb s f = (s', fl) \<Longrightarrow> \<not> returns fl \<Longrightarrow> \<exists>t. ws_consumed t = ws_consumed s + 1 \<and> f t = (s', fl)"
  unfolding step_block_def
  by (cases "advance sb (ws_pos s)")
     (auto intro: exI [of _ "s\<lparr>ws_pos := _, ws_consumed := Suc (ws_consumed s)\<rparr>"])

lemma replay_block_consumed: "replay_block io sq t data s = (s', fl) \<Longrightarrow> ws_consumed s' = ws_consumed s"
  by (auto simp: replay_block_def attempt_def split: if_splits sum.splits prod.splits)

lemma walk_tag_consumed:
  "walk_tag io sb seed pass sq t s = (s', Next) \<Longrightarrow> ws_consumed s' = ws_consumed s + 1"
  by (auto simp: walk_tag_def attempt_goes Let_def split: if_splits dest!: step_block_goes
      replay_block_consumed)

lemma walk_tags_consumed:
  "walk_tags io sb seed pass sq ts s = (s', Next) \<Longrightarrow> ws_consumed s' = ws_consumed s + length ts"
  by (induction ts arbitrary: s) (auto split: prod.splits flow.splits dest!: walk_tag_consumed)

lemma walk_tag_not_Break: "walk_tag io sb seed pass sq t s \<noteq> (s', Break)"
  by (auto simp: walk_tag_def step_block_def attempt_def replay_block_def Let_def
      split: if_splits sum.splits prod.splits)

lemma walk_tags_not_Break: "walk_tags io sb seed pass sq ts s \<noteq> (s', Break)"
  by (induction ts arbitrary: s) (auto split: prod.splits flow.splits simp: walk_tag_not_Break)

lemma walk_revokes_consumed: "walk_revokes io sq bs s = (s', fl) \<Longrightarrow> ws_consumed s' = ws_consumed s"
  by (induction bs arbitrary: s) (fastforce simp: Let_def split: if_splits option.splits)+

lemma walk_tags_goes:
  "walk_tags io sb seed pass sq ts s = (s', fl) \<Longrightarrow> \<not> returns fl \<Longrightarrow> ws_consumed s \<le> ws_consumed s'"
  by (cases fl) (auto dest: walk_tags_consumed simp: walk_tags_not_Break)

lemma checked_block_goes:
  "checked_block sb seed pass raw s f = (s', fl) \<Longrightarrow> \<not> returns fl \<Longrightarrow>
   \<exists>t. ws_consumed t = ws_consumed s \<and> f t = (s', fl)"
  by (auto simp: checked_block_def split: if_splits sum.splits
      intro: exI [of _ s] exI [of _ "s\<lparr>ws_invalid := True\<rparr>"])

lemma walk_typed_consumed:
  "walk_typed io sb seed pass sq raw bt s = (s', fl) \<Longrightarrow> \<not> returns fl \<Longrightarrow> ws_consumed s \<le> ws_consumed s'"
  by (cases bt)
    (auto simp: walk_typed_def attempt_goes split: sum.splits if_splits
      dest!: checked_block_goes walk_tags_goes walk_revokes_consumed)

lemma walk_block_consumed:
  assumes "walk_block io sb seed pass sq s = (s', fl)" "\<not> returns fl"
  shows "ws_consumed s < ws_consumed s'"
proof -
  have "\<exists>raw bt. step_block sb s (walk_typed io sb seed pass sq raw bt) = (s', fl)"
  proof -
    from assms(1) obtain raw where "(case header_parse raw of Inl e \<Rightarrow> (s, Return (log_ends pass sq))
       | Inr h \<Rightarrow> if jh_sequence h \<noteq> sq then (s, Return (log_ends pass sq))
           else step_block sb s (walk_typed io sb seed pass sq raw (jh_type h))) = (s', fl)"
      unfolding walk_block_def attempt_goes [OF assms(2)] by blast
    then obtain h where "header_parse raw = Inr h" "jh_sequence h = sq"
        "step_block sb s (walk_typed io sb seed pass sq raw (jh_type h)) = (s', fl)"
      using assms(2) by (cases "header_parse raw") (auto split: if_splits)
    then show ?thesis by blast
  qed
  then obtain raw bt where "step_block sb s (walk_typed io sb seed pass sq raw bt) = (s', fl)" by blast
  from step_block_goes [OF this assms(2)] walk_typed_consumed [OF _ assms(2)] show ?thesis by fastforce
qed

function walk_tx ::
    "('i, 'z) recovery_io_scheme \<Rightarrow> jsuperblock \<Rightarrow> u32 \<Rightarrow> pass \<Rightarrow> u32 \<Rightarrow> 'i walk_state \<Rightarrow>
     'i walk_state \<times> u32 res option" where
  "walk_tx io sb seed pass sq s =
     (if ws_consumed s < ring_size sb then
        case walk_block io sb seed pass sq s of
          (s', Next) \<Rightarrow> walk_tx io sb seed pass sq s'
        | (s', Break) \<Rightarrow> (s', None)
        | (s', Return r) \<Rightarrow> (s', Some r)
      else (s, Some (log_ends pass sq)))"
  by pat_completeness auto
termination
  by (relation "measure (\<lambda>(io, sb, seed, pass, sq, s). ring_size sb - ws_consumed s)")
     (auto dest!: sym [of "(_, Next)"] walk_block_consumed)

declare walk_tx.simps [simp del]

text \<open>A transaction that ends with a commit block has consumed at least one block.\<close>

lemma walk_tx_consumed:
  "walk_tx io sb seed pass sq s = (s', None) \<Longrightarrow> ws_consumed s < ws_consumed s' \<and> ws_consumed s < ring_size sb"
proof (induction io sb seed pass sq s rule: walk_tx.induct)
  case (1 io sb seed pass sq s)
  obtain s1 fl where w: "walk_block io sb seed pass sq s = (s1, fl)" by fastforce
  have c: "ws_consumed s < ring_size sb"
    using "1.prems" by (subst (asm) walk_tx.simps) (auto split: if_splits)
  have n: "\<not> returns fl" using "1.prems" w c
    by (subst (asm) walk_tx.simps) (cases fl; auto)
  from walk_block_consumed [OF w n] have lt: "ws_consumed s < ws_consumed s1" .
  show ?case
  proof (cases fl)
    case Next
    then have "walk_tx io sb seed pass sq s1 = (s', None)"
      using "1.prems" w c by (subst (asm) walk_tx.simps) simp
    from "1.IH" [OF c w [symmetric] Next this] lt c show ?thesis by simp
  next
    case Break
    then have "s1 = s'" using "1.prems" w c by (subst (asm) walk_tx.simps) simp
    then show ?thesis using lt c by simp
  next
    case (Return r)
    then show ?thesis using n by simp
  qed
qed

section \<open>Recovery\<close>

function walk_outer ::
    "('i, 'z) recovery_io_scheme \<Rightarrow> jsuperblock \<Rightarrow> u32 \<Rightarrow> pass \<Rightarrow> u32 option \<Rightarrow> u32 \<Rightarrow> 'i walk_state \<Rightarrow>
     'i walk_state \<times> u32 res" where
  "walk_outer io sb seed pass stop sq s =
     (if stop = Some sq then (s, Inr sq)
      else
        let tx_start = ws_pos s in
        case walk_tx io sb seed pass sq (s\<lparr>ws_invalid := False\<rparr>) of
          (s', Some r) \<Rightarrow> (s', r)
        | (s', None) \<Rightarrow>
            if ws_pos s' = tx_start \<or> ws_consumed s' \<ge> ring_size sb then (s', Inr (sq + 1))
            else walk_outer io sb seed pass stop (sq + 1) s')"
  by pat_completeness auto

termination
  by (relation "measure (\<lambda>(io, sb, seed, pass, stop, sq, s). ring_size sb - ws_consumed s)")
     (auto simp: not_le dest!: sym [of "(_, None)"] walk_tx_consumed)

declare walk_outer.simps [simp del]

definition walk ::
    "('i, 'z) recovery_io_scheme \<Rightarrow> 'i \<Rightarrow> jsuperblock \<Rightarrow> u32 \<Rightarrow> pass \<Rightarrow> u32 option \<Rightarrow> (u64 \<rightharpoonup> u32) option \<Rightarrow>
     'i walk_state \<times> u32 res" where
  "walk io d sb seed pass stop revokes =
     walk_outer io sb seed pass stop (js_sequence sb)
       \<lparr>ws_io = d, ws_pos = js_start sb, ws_consumed = 0, ws_invalid = False, ws_revokes = revokes,
        ws_stats = stats_default\<rparr>"

text \<open>The clean superblock image written at the end.\<close>

definition clean_superblock :: "bytes \<Rightarrow> features \<Rightarrow> u32 \<Rightarrow> bytes res" where
  "clean_superblock raw fts end_sequence =
     rbind (put_be32 raw 24 (end_sequence + 1)) (\<lambda>raw.
     rbind (put_be32 raw 28 0) (\<lambda>raw.
     if ft_checksum fts = V3 then
       rbind (put_be32 raw 252 0) (\<lambda>raw.
       rbind (superblock_checksum raw) (\<lambda>c.
       put_be32 raw 252 c))
     else Inr raw))"

text \<open>The three passes, and what follows them.\<close>

definition recover_passes ::
    "('i, 'z) recovery_io_scheme \<Rightarrow> 'i \<Rightarrow> jsuperblock \<Rightarrow> 'i \<times> (u32 \<times> recovery_stats) res" where
  "recover_passes io d sb =
     (let seed = checksum_seed (js_uuid sb) in
      case walk io d sb seed ScanPass None None of
        (s, Inl e) \<Rightarrow> (ws_io s, Inl e)
      | (s, Inr end_sequence) \<Rightarrow>
      (case walk io (ws_io s) sb seed RevokePass (Some end_sequence) (Some Map.empty) of
        (s, Inl e) \<Rightarrow> (ws_io s, Inl e)
      | (s, Inr _) \<Rightarrow>
      (case walk io (ws_io s) sb seed ReplayPass (Some end_sequence) (ws_revokes s) of
        (s, Inl e) \<Rightarrow> (ws_io s, Inl e)
      | (s, Inr _) \<Rightarrow> (ws_io s, Inr (end_sequence, ws_stats s)))))"

definition recover_finish ::
    "('i, 'z) recovery_io_scheme \<Rightarrow> 'i \<Rightarrow> bytes \<Rightarrow> jsuperblock \<Rightarrow> u32 \<Rightarrow> recovery_stats \<Rightarrow> 'i \<times> recovery_stats res" where
  "recover_finish io d raw_sb sb end_sequence stats =
     sbind (rio_flush_home io d) (\<lambda>d _.
     sbind (d, clean_superblock raw_sb (js_features sb) end_sequence) (\<lambda>d raw_sb.
     sbind (rio_write_journal io d 0 raw_sb) (\<lambda>d _.
     sbind (rio_flush_journal io d) (\<lambda>d _.
     (d, Inr (stats\<lparr>rs_transactions := end_sequence - js_sequence sb\<rparr>))))))"

definition recover :: "('i, 'z) recovery_io_scheme \<Rightarrow> 'i \<Rightarrow> 'i \<times> recovery_stats res" where
  "recover io d =
     sbind (d, rio_read_journal io d 0) (\<lambda>d raw_sb.
     if length raw_sb \<noteq> rio_block_size io then (d, Inl (Err EIO)) else
     sbind (d, jsuperblock_parse raw_sb (word_of_nat (rio_block_size io))) (\<lambda>d sb.
     if js_max_len sb = 0 then (d, Inl (Err EIO)) else
     if js_start sb = 0 then (d, Inr stats_default) else
     sbind (recover_passes io d sb) (\<lambda>d (end_sequence, stats).
     recover_finish io d raw_sb sb end_sequence stats)))"

section \<open>Invariants of the walk\<close>

lemma no_panic_ok_or [simp]: "no_panic (ok_or m e)"
  by (cases m) auto

lemma no_panic_rec_be:
  "off + 2 < USIZE_LIMIT \<Longrightarrow> no_panic (rec_be16 bs off)" "off + 4 < USIZE_LIMIT \<Longrightarrow> no_panic (rec_be32 bs off)"
  by (auto simp: rec_be16_def rec_be32_def rec_get_be_def intro!: no_panic_rbind)

lemma no_panic_rec_tag_fields: "off + 16 < USIZE_LIMIT \<Longrightarrow> no_panic (rec_tag_fields blk fts off)"
  by (auto simp: rec_tag_fields_def intro!: no_panic_rbind no_panic_rec_be)

lemma no_panic_tag_uuid_end: "off + 16 < USIZE_LIMIT \<Longrightarrow> no_panic (tag_uuid_end blk sb flags off)"
  by (auto simp: tag_uuid_end_def intro!: no_panic_rbind)

lemma tag_bytes_le: "tag_bytes fts \<le> 16"
  by (simp add: tag_bytes_def split: ChecksumMode.split bool.split)

lemma no_panic_parse_tags_loop:
  assumes "ending + 32 < USIZE_LIMIT"
  shows "no_panic (parse_tags_loop blk sb target ending off tags)"
  using assms
proof (induction blk sb target ending off tags rule: parse_tags_loop.induct)
  case (1 blk sb target ending off tags)
  let ?size = "tag_bytes (js_features sb)"
  show ?case
  proof (cases "off + ?size \<le> ending")
    case True
    then have b: "off + ?size + 16 < USIZE_LIMIT" "off + 4 < USIZE_LIMIT" "off + 16 < USIZE_LIMIT"
      "off + ?size < USIZE_LIMIT"
      using 1(2) by simp_all
    show ?thesis
      using True b
      by (subst parse_tags_loop.simps)
         (auto simp: Let_def intro!: no_panic_rbind no_panic_rec_be no_panic_rec_tag_fields
            no_panic_tag_uuid_end 1(1) [OF refl] 1(2))
  next
    case False
    then show ?thesis by (subst parse_tags_loop.simps) (simp add: Let_def)
  qed
qed

lemma no_panic_parse_tags: "length blk + 32 < USIZE_LIMIT \<Longrightarrow> no_panic (parse_tags blk sb target)"
  by (auto simp: parse_tags_def Let_def intro!: no_panic_parse_tags_loop)

locale walk_invariant =
  fixes io :: "('i, 'z) recovery_io_scheme"
    and sb :: jsuperblock
    and pass :: pass
    and P :: "'i walk_state \<Rightarrow> bool"
    and Q :: "u32 res \<Rightarrow> bool"
  assumes size: "4 \<le> rio_block_size io" "rio_block_size io < 2 ^ 32"
    and step: "P s \<Longrightarrow> advance sb (ws_pos s) = Inr p \<Longrightarrow>
      P (s\<lparr>ws_pos := p, ws_consumed := ws_consumed s + 1\<rparr>)"
    and step_fail: "P s \<Longrightarrow> advance sb (ws_pos s) = Inl e \<Longrightarrow> Q (Inl e)"
    and flag: "P s \<Longrightarrow> P (s\<lparr>ws_invalid := b\<rparr>)"
    and revokes: "P s \<Longrightarrow> P (s\<lparr>ws_revokes := r\<rparr>)"
    and stats: "P s \<Longrightarrow> P (s\<lparr>ws_stats := st\<rparr>)"
    and home: "pass = ReplayPass \<Longrightarrow> P s \<Longrightarrow> \<not> rio_is_journal_physical io blk \<Longrightarrow>
      rio_write_home io (ws_io s) blk data = (d, wr) \<Longrightarrow> P (s\<lparr>ws_io := d\<rparr>)"
    and home_fail: "P s \<Longrightarrow> rio_write_home io (ws_io s) blk data = (d, Inl e) \<Longrightarrow> Q (Inl e)"
    and read_fail: "P s \<Longrightarrow> rio_read_journal io (ws_io s) n = Inl e \<Longrightarrow> Q (Inl e)"
    and err: "Q (Inl (Err c))"
    and ok: "Q (Inr sq)"
begin

definition keeps :: "'i walk_state \<times> flow \<Rightarrow> bool" where
  "keeps r \<longleftrightarrow> P (fst r) \<and> (\<forall>v. snd r = Return v \<longrightarrow> Q v)"

lemma keeps_simps [simp]:
  "keeps (s, Next) \<longleftrightarrow> P s" "keeps (s, Break) \<longleftrightarrow> P s" "keeps (s, Return v) \<longleftrightarrow> P s \<and> Q v"
  by (simp_all add: keeps_def)

lemma Q_no_panic: "no_panic m \<Longrightarrow> m = Inl e \<Longrightarrow> Q (Inl e)"
  by (cases e) (auto simp: err)

lemma keeps_attempt: "(\<And>e. m = Inl e \<Longrightarrow> Q (Inl e)) \<Longrightarrow> P s \<Longrightarrow> (\<And>x. m = Inr x \<Longrightarrow> keeps (f x)) \<Longrightarrow>
   keeps (attempt m s f)"
  by (cases m) auto

lemma Q_log_ends [simp]: "Q (log_ends ps sq)"
  by (simp add: log_ends_def ok err)

lemma keeps_step_block: "P s \<Longrightarrow> (\<And>t. P t \<Longrightarrow> keeps (f t)) \<Longrightarrow> keeps (step_block sb s f)"
  unfolding step_block_def by (rule keeps_attempt) (auto intro: step_fail step [simplified])

lemma keeps_check_size: "P s \<Longrightarrow> (length data = rio_block_size io \<Longrightarrow> keeps (f ())) \<Longrightarrow>
   keeps (attempt (check_size io data) s f)"
  by (rule keeps_attempt) (auto simp: check_size_def err)

lemma keeps_replay_block:
  assumes "P s" "pass = ReplayPass" "length data = rio_block_size io"
  shows "keeps (replay_block io sq t data s)"
proof -
  have w: "keeps (case rio_write_home io (ws_io s) (tg_block t) data of
      (d, Inl e) \<Rightarrow> (s\<lparr>ws_io := d\<rparr>, Return (Inl e))
    | (d, Inr _) \<Rightarrow>
        (s\<lparr>ws_io := d, ws_stats := (ws_stats s)\<lparr>rs_replayed := rs_replayed (ws_stats s) + 1\<rparr>\<rparr>, Next))"
    if "\<not> rio_is_journal_physical io (tg_block t)" for data
  proof -
    obtain d r where r: "rio_write_home io (ws_io s) (tg_block t) data = (d, r)" by fastforce
    note h = home [OF assms(2,1) that r]
    show ?thesis
      using h stats [OF h] home_fail [OF assms(1), of "tg_block t" data d] r by (cases r) auto
  qed
  have "is_ok (if tg_flags t AND FLAG_ESCAPE \<noteq> 0 then write_range data 0 (be32 JBD2_MAGIC) else Inr data)"
    using assms(3) size by (simp add: is_ok_iff)
  then show ?thesis
    using assms(1) w unfolding replay_block_def
    by (auto simp: err stats is_ok_iff attempt_def split: sum.splits)
qed

lemma keeps_walk_tag: "P s \<Longrightarrow> keeps (walk_tag io sb seed pass sq t s)"
  unfolding walk_tag_def Let_def
  by (auto intro!: keeps_attempt [where f = "\<lambda>data. attempt (check_size io data) s (_ data)"]
      keeps_check_size keeps_step_block keeps_replay_block
      simp: err flag intro: read_fail)

lemma keeps_walk_tags: "P s \<Longrightarrow> keeps (walk_tags io sb seed pass sq ts s)"
proof (induction ts arbitrary: s)
  case (Cons t ts)
  show ?case using keeps_walk_tag [OF Cons.prems, of seed sq t] Cons.IH
    by (auto split: prod.splits flow.splits)
qed simp

lemma keeps_walk_revokes: "P s \<Longrightarrow> keeps (walk_revokes io sq bs s)"
  by (induction bs arbitrary: s) (auto simp: err Let_def revokes split: option.splits)

lemma keeps_checked_block: "P s \<Longrightarrow> (\<And>t. P t \<Longrightarrow> keeps (f t)) \<Longrightarrow> keeps (checked_block sb seed pass raw s f)"
  by (auto simp: checked_block_def flag split: sum.splits intro: Q_no_panic [OF no_panic_verify_block_checksum])

lemma keeps_walk_typed:
  assumes "P s" "length raw = rio_block_size io"
  shows "keeps (walk_typed io sb seed pass sq raw bt s)"
proof -
  have "no_panic (parse_tags raw sb (rio_filesystem_blocks io))"
    using assms(2) size by (intro no_panic_parse_tags) (simp add: USIZE_LIMIT_def)
  note q = Q_no_panic [OF this] Q_no_panic [OF no_panic_parse_revoke_records]
    Q_no_panic [OF no_panic_commit_header_parse]
  show ?thesis
  proof (cases bt)
    case Descriptor
    then show ?thesis using assms(1)
      by (auto simp: walk_typed_def intro!: keeps_checked_block keeps_attempt keeps_walk_tags intro: q)
  next
    case Revoke
    then show ?thesis using assms(1)
      by (auto simp: walk_typed_def intro!: keeps_checked_block keeps_attempt keeps_walk_revokes intro: q)
  next
    case Commit
    then show ?thesis using assms(1)
      by (auto simp: walk_typed_def err ok split: sum.splits intro: q)
  qed (use assms(1) in \<open>auto simp: walk_typed_def\<close>)
qed

lemma keeps_walk_block: "P s \<Longrightarrow> keeps (walk_block io sb seed pass sq s)"
  unfolding walk_block_def
  by (auto intro!: keeps_attempt [where f = "\<lambda>raw. attempt (check_size io raw) s (_ raw)"]
      keeps_check_size keeps_step_block keeps_walk_typed split: sum.split intro: read_fail)

lemma keeps_walk_tx:
  "P s \<Longrightarrow> P (fst (walk_tx io sb seed pass sq s)) \<and> (\<forall>v. snd (walk_tx io sb seed pass sq s) = Some v \<longrightarrow> Q v)"
proof (induction "ring_size sb - ws_consumed s" arbitrary: s rule: less_induct)
  case less
  obtain s1 fl where w: "walk_block io sb seed pass sq s = (s1, fl)" by fastforce
  have k: "keeps (s1, fl)" using keeps_walk_block [OF less.prems, of seed sq] w by simp
  show ?case
  proof (cases fl)
    case Next
    have "ws_consumed s < ws_consumed s1" using walk_block_consumed [OF w] Next by simp
    then show ?thesis using less.hyps [of s1] k w Next
      by (subst (1 2) walk_tx.simps) (auto simp: less.prems)
  qed (use k w less.prems in \<open>subst (1 2) walk_tx.simps; auto\<close>)+
qed

lemma walk_outer_keeps:
  "P s \<Longrightarrow> walk_outer io sb seed pass stop sq s = (s', r) \<Longrightarrow> P s' \<and> Q r"
proof (induction "ring_size sb - ws_consumed s" arbitrary: s sq rule: less_induct)
  case less
  obtain s1 v where w: "walk_tx io sb seed pass sq (s\<lparr>ws_invalid := False\<rparr>) = (s1, v)" by fastforce
  have k: "P s1" "v = Some x \<Longrightarrow> Q x" for x
    using keeps_walk_tx [OF flag [OF less.prems(1)], of seed sq False] w by auto
  have lt: "v = None \<Longrightarrow> ws_consumed s < ws_consumed s1 \<and> ws_consumed s < ring_size sb"
    using walk_tx_consumed [of io sb seed pass sq "s\<lparr>ws_invalid := False\<rparr>" s1] w by auto
  show ?case
    using less.prems w k lt less.hyps [of s1 "sq + 1"]
    by (subst (asm) walk_outer.simps) (auto simp: Let_def ok split: if_splits option.splits)
qed

end

section \<open>The passes on a block device\<close>

lemma recovery_device_simps [simp]:
  "rio_block_size (recovery_device ops jb js fs) = BLOCK_SIZE"
  "rio_filesystem_blocks (recovery_device ops jb js fs) = fs"
  "rio_is_journal_physical (recovery_device ops jb js fs) p = (p \<in> js)"
  "rio_write_home (recovery_device ops jb js fs) = rd_write_image ops"
  "rio_flush_home (recovery_device ops jb js fs) = flush ops"
  "rio_flush_journal (recovery_device ops jb js fs) = flush ops"
  by (simp_all add: recovery_device_def)

text \<open>The scan and the revoke pass write nothing.\<close>

interpretation scan: walk_invariant "recovery_device ops jb js fs" sb ScanPass "\<lambda>s. ws_io s = d" "\<lambda>_. True"
    for ops jb js fs sb d
  by unfold_locales (simp_all add: BLOCK_SIZE_def)

interpretation revoke: walk_invariant "recovery_device ops jb js fs" sb RevokePass "\<lambda>s. ws_io s = d" "\<lambda>_. True"
    for ops jb js fs sb d
  by unfold_locales (simp_all add: BLOCK_SIZE_def)

lemma walk_passive:
  "walk (recovery_device ops jb js fs) d sb seed ScanPass stop rv = (s, r) \<Longrightarrow> ws_io s = d"
  "walk (recovery_device ops jb js fs) d sb seed RevokePass stop rv = (s, r) \<Longrightarrow> ws_io s = d"
  unfolding walk_def
  by (rule scan.walk_outer_keeps [THEN conjunct1] revoke.walk_outer_keeps [THEN conjunct1];
      auto simp del: recovery_device_simps)+

definition pos_ok :: "jsuperblock \<Rightarrow> u32 \<Rightarrow> bool" where
  "pos_ok sb pos \<longleftrightarrow> js_first sb \<le> pos \<and> pos < js_max_len sb"

lemma advance_ok:
  assumes "ring_ok sb" "pos_ok sb pos"
  shows "advance sb pos = Inr (if pos + 1 = js_max_len sb then js_first sb else pos + 1)"
    and "advance sb pos = Inr p \<Longrightarrow> pos_ok sb p"
proof -
  have lt: "unat pos + 1 < 2 ^ 32"
    using assms(2) unat_lt [of "js_max_len sb"] by (simp add: pos_ok_def word_less_nat_alt)
  then show e: "advance sb pos = Inr (if pos + 1 = js_max_len sb then js_first sb else pos + 1)"
    by (simp add: advance_def add_chk_def)
  have u: "unat (pos + 1) = unat pos + 1" using lt unat_add_lt [of pos 1] by simp
  show "pos_ok sb p" if "advance sb pos = Inr p"
  proof (cases "pos + 1 = js_max_len sb")
    case True
    then show ?thesis using that e assms(1) by (auto simp: pos_ok_def ring_ok_def)
  next
    case False
    then have "unat (pos + 1) \<noteq> unat (js_max_len sb)" using unat_inject by blast
    then have "pos + 1 < js_max_len sb"
      using u assms(2) by (simp add: pos_ok_def word_less_nat_alt)
    moreover have "js_first sb \<le> pos + 1"
      using u assms(2) by (simp add: pos_ok_def word_le_nat_alt word_less_nat_alt)
    ultimately show ?thesis using that e False by (simp add: pos_ok_def)
  qed
qed

lemma put_be32_ok: "off + 4 \<le> length bs \<Longrightarrow> off + 4 < USIZE_LIMIT \<Longrightarrow> put_be32 bs off v = Inr (splice bs off (be32 v))"
  by (simp add: put_be32_def)

lemma no_panic_clean_superblock: "no_panic (clean_superblock raw fts s)"
  by (auto simp: clean_superblock_def put_be32_def USIZE_LIMIT_def
      intro!: no_panic_rbind no_panic_superblock_checksum)

lemma no_panic_sbind: "no_panic (snd m) \<Longrightarrow> (\<And>s x. m = (s, Inr x) \<Longrightarrow> no_panic (snd (f s x))) \<Longrightarrow>
   no_panic (snd (sbind m f))"
  by (cases m; cases "snd m") (auto simp: sbind_def)

lemma no_panic_pass: "no_panic (snd m) \<Longrightarrow> (\<And>s x. m = (s, Inr x) \<Longrightarrow> no_panic (snd (f s x))) \<Longrightarrow>
   no_panic (snd (case m of (s, Inl e) \<Rightarrow> (g s, Inl e) | (s, Inr x) \<Rightarrow> f s x))"
  by (cases m; cases "snd m") auto

text \<open>C26: recovery always ends (it is a total function of the log), and it does not panic, whatever the
  log contains, as long as the device operations do not: positions stay inside the ring, and no read
  of a block leaves it.\<close>

theorem recover_no_panic:
  assumes bs: "rio_block_size io < 2 ^ 32"
    and rd: "\<And>d n. no_panic (rio_read_journal io d n)"
    and wh: "\<And>d p data. no_panic (snd (rio_write_home io d p data))"
    and wj: "\<And>d n data. no_panic (snd (rio_write_journal io d n data))"
    and fl: "\<And>d. no_panic (snd (rio_flush_home io d)) \<and> no_panic (snd (rio_flush_journal io d))"
  shows "no_panic (snd (recover io d))"
proof -
  have w: "no_panic (snd (walk io d sb seed pass stop rv))"
    if "ring_ok sb" "js_start sb \<noteq> 0" "1024 \<le> rio_block_size io" for d sb seed pass stop rv
  proof -
    have inv: "walk_invariant io sb pass (\<lambda>s. pos_ok sb (ws_pos s)) no_panic"
    proof
      show "4 \<le> rio_block_size io" using that(3) by simp
      show "no_panic (Inl e)" if "rio_write_home io (ws_io s) blk data = (d, Inl e)"
        for s :: "'a walk_state" and blk data d e using wh [of "ws_io s" blk data] that by simp
      show "no_panic (Inl e)" if "rio_read_journal io (ws_io s) n = Inl e"
        for s :: "'a walk_state" and n e using rd [of "ws_io s" n] that by simp
    qed (use bs advance_ok [OF that(1)] in auto)
    have "pos_ok sb (js_start sb)" using that(1,2) by (simp add: ring_ok_def pos_ok_def)
    then show ?thesis
      using walk_invariant.walk_outer_keeps [OF inv _ surjective_pairing] by (simp add: walk_def)
  qed
  show ?thesis
    unfolding recover_def
  proof (intro no_panic_sbind, goal_cases)
    case 1
    show ?case using rd by simp
  next
    case (2 d0 raw)
    show ?case
    proof (cases "length raw = rio_block_size io")
      case True
      show ?thesis
      proof (simp add: True, intro no_panic_sbind, goal_cases)
        case 1
        show ?case using no_panic_jsuperblock_parse by simp
      next
        case (2 d1 sb)
        then have p: "jsuperblock_parse raw (word_of_nat (rio_block_size io)) = Inr sb" by simp
        then have r: "ring_ok sb" and l: "1024 \<le> rio_block_size io"
          using True by (auto simp: jsuperblock_parse_Inr)
        show ?case
          using w [OF r _ l] wj fl
          by (auto simp: recover_passes_def recover_finish_def Let_def no_panic_clean_superblock
              intro!: no_panic_sbind no_panic_pass)
      qed
    qed simp
  qed
qed

lemma mem_recovery_no_panic:
  "no_panic (rio_read_journal (recovery_device mem_ops jb js fs) d n)"
  "no_panic (snd (rio_write_home (recovery_device mem_ops jb js fs) d p data))"
  "no_panic (snd (rio_write_journal (recovery_device mem_ops jb js fs) d n data))"
  "no_panic (snd (rio_flush_home (recovery_device mem_ops jb js fs) d))"
  "no_panic (snd (rio_flush_journal (recovery_device mem_ops jb js fs) d))"
  by (auto simp: recovery_device_def rd_journal_block_def mem_ops_def mem_read_block_def rd_write_image_def
      mem_write_block_def mem_flush_def split: sum.split)

lemma recover_no_panic_witness:
  "no_panic (snd (recover (recovery_device mem_ops [1, 2] {1, 2} 4) (mem_new 4)))"
  by (rule recover_no_panic) (simp_all add: mem_recovery_no_panic BLOCK_SIZE_def del: recovery_device_simps
      add: recovery_device_simps(1))

text \<open>C27: order of the effects of recovery. Let \<open>I\<close> be any property of the device that writes to blocks
  outside the journal and the flush of the home blocks preserve, such as the contents of the log. Then
  recovery either ends with an error and \<open>I\<close> still true, or leaves a clean journal alone, or it wrote
  the journal superblock, once, after a successful flush of the home blocks, \<open>I\<close> being true up to then,
  and flushed the journal last.\<close>

theorem recover_effects_ordered:
  assumes bs: "4 \<le> rio_block_size io" "rio_block_size io < 2 ^ 32"
    and home: "\<And>d p data. I d \<Longrightarrow> \<not> rio_is_journal_physical io p \<Longrightarrow> I (fst (rio_write_home io d p data))"
    and fl: "\<And>d. I d \<Longrightarrow> I (fst (rio_flush_home io d))"
    and I: "I d" and rec: "recover io d = (d', r)"
  shows "(\<exists>e. r = Inl e \<and> I d') \<or> (r = Inr stats_default \<and> d' = d) \<or>
    (\<exists>d0 d1 img. I d0 \<and> rio_flush_home io d0 = (d1, Inr ()) \<and> I d1 \<and>
       d' = fst (sbind (rio_write_journal io d1 0 img) (\<lambda>d2 _. rio_flush_journal io d2)))"
proof -
  have w: "I (ws_io s)" if "walk io d sb seed pass stop rv = (s, v)" "I d" for d sb seed pass stop rv s v
  proof -
    have "walk_invariant io sb pass (\<lambda>s. I (ws_io s)) (\<lambda>_. True)"
    proof
      show "I (ws_io (s\<lparr>ws_io := d\<rparr>))" if "I (ws_io s)" "\<not> rio_is_journal_physical io blk"
        "rio_write_home io (ws_io s) blk data = (d, wr)" for s :: "'a walk_state" and blk data d wr
        using home [OF that(1,2), of data] that(3) by simp
    qed (use bs in auto)
    from walk_invariant.walk_outer_keeps [OF this _ that(1) [unfolded walk_def]] that(2) show ?thesis by simp
  qed
  have passes: "I (fst (recover_passes io d sb))" if "I d" for d sb
    using that unfolding recover_passes_def Let_def
    by (auto split: prod.splits sum.splits dest: w)
  consider (early) e where "r = Inl e" "d' = d" | (clean) "r = Inr stats_default" "d' = d"
    | (run) raw sb where "sbind (recover_passes io d sb) (\<lambda>d (end_sequence, stats).
        recover_finish io d raw sb end_sequence stats) = (d', r)"
  proof (cases "rio_read_journal io d 0")
    case (Inl e)
    then show ?thesis using rec early by (auto simp: recover_def)
  next
    case (Inr raw)
    note raw = this
    show ?thesis
    proof (cases "jsuperblock_parse raw (word_of_nat (rio_block_size io))")
      case (Inl e)
      then show ?thesis using rec raw early by (auto simp: recover_def split: if_splits)
    next
      case (Inr sb)
      show ?thesis
      proof (cases "length raw \<noteq> rio_block_size io \<or> js_max_len sb = 0 \<or> js_start sb = 0")
        case True
        then show ?thesis using rec raw Inr early clean by (auto simp: recover_def split: if_splits)
      next
        case False
        show ?thesis by (rule run [of sb raw]) (use rec raw Inr False in \<open>simp add: recover_def\<close>)
      qed
    qed
  qed
  then show ?thesis
  proof cases
    case run
    obtain d0 v where p: "recover_passes io d sb = (d0, v)" by fastforce
    have I0: "I d0" using passes [OF I, of sb] p by simp
    show ?thesis
    proof (cases v)
      case (Inl e)
      then show ?thesis using run p I0 by auto
    next
      case (Inr x)
      obtain q st where x: "x = (q, st)" by fastforce
      have f: "recover_finish io d0 raw sb q st = (d', r)" using run p Inr x by simp
      obtain d1 fr where fh: "rio_flush_home io d0 = (d1, fr)" by fastforce
      have I1: "I d1" using fl [OF I0] fh by simp
      show ?thesis
      proof (cases fr)
        case (Inl e)
        then show ?thesis using f fh I1 by (auto simp: recover_finish_def)
      next
        case (Inr u)
        show ?thesis
        proof (cases "clean_superblock raw (js_features sb) q")
          case (Inl e)
          then show ?thesis using f fh I1 Inr by (auto simp: recover_finish_def)
        next
          case (Inr img)
          have "d' = fst (sbind (rio_write_journal io d1 0 img) (\<lambda>d2 _. rio_flush_journal io d2))"
            using f fh \<open>fr = Inr u\<close> Inr by (auto simp: recover_finish_def sbind_def split: prod.splits sum.splits)
          then show ?thesis using I0 I1 fh \<open>fr = Inr u\<close> by auto
        qed
      qed
    qed
  qed (use I in auto)
qed

lemma recover_effects_ordered_witness:
  fixes I :: "block_mem \<Rightarrow> bool"
  defines "I \<equiv> \<lambda>m. m ! 1 = replicate BLOCK_SIZE 0" and "io \<equiv> recovery_device mem_ops [1, 2] {1, 2} 4"
  shows "(\<exists>e. snd (recover io (mem_new 4)) = Inl e \<and> I (fst (recover io (mem_new 4)))) \<or>
    (snd (recover io (mem_new 4)) = Inr stats_default \<and> fst (recover io (mem_new 4)) = mem_new 4) \<or>
    (\<exists>d0 d1 img. I d0 \<and> rio_flush_home io d0 = (d1, Inr ()) \<and> I d1 \<and>
       fst (recover io (mem_new 4)) = fst (sbind (rio_write_journal io d1 0 img) (\<lambda>d2 _. rio_flush_journal io d2)))"
proof (rule recover_effects_ordered)
  show "I (mem_new 4)" by (simp add: I_def mem_new_def)
  show "I (fst (rio_write_home io d p data))" if "I d" "\<not> rio_is_journal_physical io p" for d p data
  proof -
    have "unat p \<noteq> 1" using that(2) unat_inject [of p 1] by (auto simp: io_def)
    then show ?thesis
      using that(1) by (auto simp: I_def io_def rd_write_image_def mem_ops_def mem_write_block_def block_new_def)
  qed
qed (simp_all add: I_def io_def BLOCK_SIZE_def mem_ops_def mem_flush_def)

end
