(* ===== verification/Journal_Transaction.thy ===== *)
theory Journal_Transaction
  imports Jbd2 Block_Device BTree_Map
begin

text \<open>
  The synchronous, single-writer transaction core, \<^verbatim>\<open>src/ext4/journal_transaction.rs\<close>: the journal
  context and its validation, the two backends (journal and direct) with their writer token and
  poison flag, staging, the three commit paths, the layout of a transaction in the log and the
  updates of the journal superblock. The cache publisher is a function on the caller's caches.
\<close>

section \<open>State\<close>

record journal_context =
  jc_superblock :: jsuperblock
  jc_logical_blocks :: "PBlockId list"
  jc_journal_blocks :: "PBlockId set"
  jc_target_blocks :: u64
  jc_head :: u32
  jc_superblock_image :: bytes

definition context_validate :: "journal_context \<Rightarrow> unit res" where
  "context_validate c =
     (let sb = jc_superblock c in
      if unat (js_block_size sb) \<noteq> BLOCK_SIZE \<or>
         (ft_checksum (js_features sb) = V3 \<and> js_checksum_type sb \<noteq> CRC32C_CHKSUM) \<or>
         length (jc_logical_blocks c) \<noteq> unat (js_max_len sb) \<or>
         card (jc_journal_blocks c) \<noteq> length (jc_logical_blocks c) \<or>
         jc_head c < js_first sb \<or> jc_head c \<ge> js_max_len sb \<or> jc_target_blocks c = 0
      then Inl (Err ENOTSUP)
      else if list_ex (\<lambda>b. b = 0 \<or> b \<notin> jc_journal_blocks c) (jc_logical_blocks c) then Inl (Err EIO)
      else Inr ())"

record staged_block =
  st_home :: PBlockId
  st_original :: "bytes option"
  st_image :: bytes

datatype commit_failure = BeforeCommit | CommitUncertain | CheckpointFailed | TailUpdateFailed

text \<open>\<^verbatim>\<open>CommitError\<close>, or a panic.\<close>

datatype commit_fault = CommitError ErrCode commit_failure | CommitPanic

record core_flags =
  co_writer :: bool
  co_poisoned :: bool

record direct_core =
  dc_flags :: core_flags
  dc_target_blocks :: u64

record journal_core =
  jco_flags :: core_flags
  jco_context :: journal_context

datatype core = Journal journal_core | Direct direct_core

definition flags_clean :: core_flags where
  "flags_clean = \<lparr>co_writer = False, co_poisoned = False\<rparr>"

definition direct_core_new :: "u64 \<Rightarrow> direct_core res" where
  "direct_core_new target_blocks =
     (if target_blocks = 0 then Inl (Err EINVAL)
      else Inr \<lparr>dc_flags = flags_clean, dc_target_blocks = target_blocks\<rparr>)"

definition journal_core_new :: "journal_context \<Rightarrow> journal_core res" where
  "journal_core_new c =
     rbind (context_validate c) (\<lambda>_. Inr \<lparr>jco_flags = flags_clean, jco_context = c\<rparr>)"

fun core_flags_of :: "core \<Rightarrow> core_flags" where
  "core_flags_of (Journal c) = jco_flags c"
| "core_flags_of (Direct c) = dc_flags c"

fun set_core_flags :: "core \<Rightarrow> core_flags \<Rightarrow> core" where
  "set_core_flags (Journal c) f = Journal (c\<lparr>jco_flags := f\<rparr>)"
| "set_core_flags (Direct c) f = Direct (c\<lparr>dc_flags := f\<rparr>)"

definition is_poisoned :: "core \<Rightarrow> bool" where
  "is_poisoned c = co_poisoned (core_flags_of c)"

definition can_shutdown :: "core \<Rightarrow> bool" where
  "can_shutdown c = (\<not> co_writer (core_flags_of c) \<and> \<not> is_poisoned c)"

definition poison :: "core \<Rightarrow> core" where
  "poison c = set_core_flags c ((core_flags_of c)\<lparr>co_poisoned := True\<rparr>)"

definition set_writer :: "bool \<Rightarrow> core \<Rightarrow> core" where
  "set_writer b c = set_core_flags c ((core_flags_of c)\<lparr>co_writer := b\<rparr>)"

definition owns_block_range :: "journal_core \<Rightarrow> PBlockId \<Rightarrow> PBlockId \<Rightarrow> bool" where
  "owns_block_range c start ending =
     (start < ending \<and> (\<exists>b\<in>jc_journal_blocks (jco_context c). start \<le> b \<and> b < ending))"

section \<open>The ring\<close>

definition ring_len :: "jsuperblock \<Rightarrow> nat res" where
  "ring_len sb = rbind (ok_or (checked_sub (js_max_len sb) (js_first sb)) EIO) (\<lambda>n. Inr (unat n))"

definition tags_per_descriptor :: "features \<Rightarrow> nat res" where
  "tags_per_descriptor fts =
     (let overhead = HEADER_BYTES + 16 + tail_bytes fts in
      if overhead > BLOCK_SIZE then Inl (Err EIO)
      else
        let tags = (BLOCK_SIZE - overhead) div tag_bytes fts in
        if tags = 0 then Inl (Err EIO) else Inr tags)"

definition required_log_blocks :: "nat \<Rightarrow> features \<Rightarrow> nat res" where
  "required_log_blocks blocks fts =
     rbind (tags_per_descriptor fts) (\<lambda>per.
     rbind (ok_or (usize_checked_add blocks (per - 1)) E2BIG) (\<lambda>n.
     let descriptors = n div per in
     rbind (ok_or (usize_checked_add blocks descriptors) E2BIG) (\<lambda>n.
     ok_or (usize_checked_add n 1) E2BIG)))"

definition ring_next :: "jsuperblock \<Rightarrow> u32 \<Rightarrow> u32 res" where
  "ring_next sb current =
     rbind (add_chk current 1) (\<lambda>n. Inr (if n = js_max_len sb then js_first sb else n))"

fun ring_take :: "jsuperblock \<Rightarrow> u32 \<Rightarrow> nat \<Rightarrow> u32 list res" where
  "ring_take sb current 0 = Inr []"
| "ring_take sb current (Suc n) =
     rbind (ring_next sb current) (\<lambda>nxt.
     rbind (ring_take sb nxt n) (\<lambda>rest. Inr (current # rest)))"

definition ring_positions :: "jsuperblock \<Rightarrow> u32 \<Rightarrow> nat \<Rightarrow> u32 list res" where
  "ring_positions sb head count =
     rbind (ring_len sb) (\<lambda>len.
     if count > len \<or> head < js_first sb \<or> head \<ge> js_max_len sb then Inl (Err E2BIG)
     else ring_take sb head count)"

section \<open>Starting a transaction\<close>

text \<open>A transaction, with the state of its core; \<open>tx_owns_writer\<close> as in the source.\<close>

record transaction =
  tx_core :: core
  tx_credits :: nat
  tx_staged :: "(PBlockId, staged_block) btree"
  tx_preserve_originals :: bool
  tx_owns_writer :: bool

definition transaction_new :: "core \<Rightarrow> nat \<Rightarrow> bool \<Rightarrow> transaction" where
  "transaction_new c credits preserve_originals =
     \<lparr>tx_core = c, tx_credits = credits, tx_staged = [], tx_preserve_originals = preserve_originals,
      tx_owns_writer = True\<rparr>"

text \<open>The test and the \<^verbatim>\<open>compare_exchange\<close> of the writer bit at the beginning of every \<^verbatim>\<open>start\<close>.\<close>

definition acquire_writer :: "core \<Rightarrow> nat \<Rightarrow> core \<times> unit res" where
  "acquire_writer c credits =
     (if credits = 0 \<or> is_poisoned c then (c, Inl (Err (if credits = 0 then EINVAL else EROFS)))
      else if co_writer (core_flags_of c) then (c, Inl (Err EAGAIN))
      else (set_writer True c, Inr ()))"

definition start_direct :: "direct_core \<Rightarrow> nat \<Rightarrow> bool \<Rightarrow> core \<times> transaction res" where
  "start_direct dc credits preserve_originals =
     sbind (acquire_writer (Direct dc) credits) (\<lambda>c _.
       (c, Inr (transaction_new c credits preserve_originals)))"

definition start_journal :: "journal_core \<Rightarrow> nat \<Rightarrow> core \<times> transaction res" where
  "start_journal jc credits =
     sbind (acquire_writer (Journal jc) credits) (\<lambda>c _.
     let sb = jc_superblock (jco_context jc) in
     case rbind (required_log_blocks credits (js_features sb)) (\<lambda>needed.
          rbind (ring_len sb) (\<lambda>available. Inr (needed \<le> available))) of
       Inl e \<Rightarrow> (set_writer False c, Inl e)
     | Inr fits \<Rightarrow>
         if \<not> fits then (set_writer False c, Inl (Err E2BIG))
         else (c, Inr (transaction_new c credits False)))"

definition transaction_start :: "core \<Rightarrow> nat \<Rightarrow> core \<times> transaction res" where
  "transaction_start c credits = (case c of
     Journal jc \<Rightarrow> start_journal jc credits | Direct dc \<Rightarrow> start_direct dc credits False)"

section \<open>Staging\<close>

definition tx_stage :: "transaction \<Rightarrow> PBlockId \<Rightarrow> bytes \<Rightarrow> transaction res" where
  "tx_stage tx home img =
     (if bt_get (tx_staged tx) home = None \<and> length (tx_staged tx) = tx_credits tx then Inl (Err E2BIG)
      else Inr (tx\<lparr>tx_staged := bt_insert home \<lparr>st_home = home, st_original = None, st_image = img\<rparr>
                    (tx_staged tx)\<rparr>))"

text \<open>\<^verbatim>\<open>read_for_update\<close> returns a mutable reference to the staged image: here the transaction with
  the block staged, and its image; \<open>tx_update\<close> is the caller's write through the reference.\<close>

definition tx_read_for_update ::
    "('d, 'z) device_ops_scheme \<Rightarrow> 'd \<Rightarrow> transaction \<Rightarrow> PBlockId \<Rightarrow> (transaction \<times> bytes) res" where
  "tx_read_for_update ops d tx home =
     rbind (if bt_get (tx_staged tx) home = None then
              if length (tx_staged tx) = tx_credits tx then Inl (Err E2BIG)
              else
                rbind (read_block ops d home) (\<lambda>b.
                Inr (tx\<lparr>tx_staged := bt_insert home
                  \<lparr>st_home = home, st_original = (if tx_preserve_originals tx then Some (blk_data b) else None),
                   st_image = blk_data b\<rparr> (tx_staged tx)\<rparr>))
            else Inr tx) (\<lambda>tx.
     case bt_get (tx_staged tx) home of
       None \<Rightarrow> Inl Panic
     | Some s \<Rightarrow> Inr (tx, st_image s))"

definition tx_update :: "transaction \<Rightarrow> PBlockId \<Rightarrow> bytes \<Rightarrow> transaction" where
  "tx_update tx home img = (case bt_get (tx_staged tx) home of
     None \<Rightarrow> tx
   | Some s \<Rightarrow> tx\<lparr>tx_staged := bt_insert home (s\<lparr>st_image := img\<rparr>) (tx_staged tx)\<rparr>)"

definition tx_read :: "('d, 'z) device_ops_scheme \<Rightarrow> 'd \<Rightarrow> transaction \<Rightarrow> PBlockId \<Rightarrow> bytes res" where
  "tx_read ops d tx home = (case bt_get (tx_staged tx) home of
     Some s \<Rightarrow> Inr (st_image s)
   | None \<Rightarrow> rbind (read_block ops d home) (\<lambda>b. Inr (blk_data b)))"

section \<open>The log of a transaction\<close>

definition encode_tag_fields :: "features \<Rightarrow> u32 \<Rightarrow> u32 \<Rightarrow> nat \<Rightarrow> PBlockId \<Rightarrow> u32 \<Rightarrow> bytes \<Rightarrow> bytes \<Rightarrow> bytes res" where
  "encode_tag_fields fts seed sq off home flags img descriptor = (case ft_checksum fts of
     V3 \<Rightarrow>
       if \<not> ft_has_64bit fts \<and> unat home > 2 ^ 32 - 1 then Inl (Err ENOTSUP)
       else
         rbind (write_range descriptor (off + 4) (be32 flags)) (\<lambda>descriptor.
         rbind (write_range descriptor (off + 8) (be32 (ucast (drop_bit 32 home)))) (\<lambda>descriptor.
         write_range descriptor (off + 12) (be32 (tag_checksum seed sq img))))
   | NoChecksum \<Rightarrow>
       if unat home > 2 ^ 32 - 1 then Inl (Err ENOTSUP)
       else write_range descriptor (off + 6) (be16 (ucast flags)))"

text \<open>The loop over a group: the descriptor and the data blocks, escaped where they begin with the
  magic number.\<close>

fun encode_tags ::
    "jsuperblock \<Rightarrow> u32 \<Rightarrow> u32 \<Rightarrow> nat \<Rightarrow> nat \<Rightarrow> nat \<Rightarrow> bytes \<Rightarrow> staged_block list \<Rightarrow> (bytes \<times> bytes list) res" where
  "encode_tags sb seed sq group_len index off descriptor [] = Inr (descriptor, [])"
| "encode_tags sb seed sq group_len index off descriptor (s # ss) =
     rbind (index_range (st_image s) 0 4) (\<lambda>start.
     let escape = (of_be start = JBD2_MAGIC);
         img = (if escape then splice (st_image s) 0 (replicate 4 0) else st_image s);
         flags = (if index \<noteq> 0 then FLAG_SAME_UUID else 0) OR (if escape then FLAG_ESCAPE else 0) OR
                 (if index + 1 = group_len then FLAG_LAST_TAG else 0) in
     rbind (write_range descriptor off (be32 (ucast (st_home s)))) (\<lambda>descriptor.
     rbind (encode_tag_fields (js_features sb) seed sq off (st_home s) flags img descriptor) (\<lambda>descriptor.
     let off = off + tag_bytes (js_features sb) in
     rbind (if index = 0 then write_range descriptor off (js_uuid sb) else Inr descriptor) (\<lambda>descriptor.
     rbind (encode_tags sb seed sq group_len (index + 1) (if index = 0 then off + 16 else off) descriptor ss)
       (\<lambda>(descriptor, data). Inr (descriptor, img # data))))))"

definition encode_group :: "jsuperblock \<Rightarrow> u32 \<Rightarrow> u32 \<Rightarrow> staged_block list \<Rightarrow> bytes list res" where
  "encode_group sb seed sq grp =
     rbind (header_encode_into \<lparr>jh_type = Descriptor, jh_sequence = sq\<rparr> (replicate BLOCK_SIZE 0)) (\<lambda>descriptor.
     rbind (encode_tags sb seed sq (length grp) 0 HEADER_BYTES descriptor grp) (\<lambda>(descriptor, data).
     rbind (if ft_checksum (js_features sb) = V3 then
              rbind (block_checksum seed descriptor) (\<lambda>c. write_range descriptor (BLOCK_SIZE - 4) (be32 c))
            else Inr descriptor) (\<lambda>descriptor.
     Inr (descriptor # data))))"

fun encode_groups :: "jsuperblock \<Rightarrow> u32 \<Rightarrow> u32 \<Rightarrow> staged_block list list \<Rightarrow> bytes list res" where
  "encode_groups sb seed sq [] = Inr []"
| "encode_groups sb seed sq (g # gs) =
     rbind (encode_group sb seed sq g) (\<lambda>out.
     rbind (encode_groups sb seed sq gs) (\<lambda>rest. Inr (out @ rest)))"

text \<open>\<^verbatim>\<open>slice::chunks\<close>.\<close>

function chunks :: "nat \<Rightarrow> 'a list \<Rightarrow> 'a list list" where
  "chunks n xs = (if xs = [] \<or> n = 0 then [] else take n xs # chunks n (drop n xs))"
  by pat_completeness auto
termination by (relation "measure (\<lambda>(n, xs). length xs)") auto

declare chunks.simps [simp del]

definition encode_log :: "jsuperblock \<Rightarrow> u32 \<Rightarrow> (PBlockId, staged_block) btree \<Rightarrow> bytes list res" where
  "encode_log sb sq staged =
     (let seed = checksum_seed (js_uuid sb) in
      rbind (tags_per_descriptor (js_features sb)) (\<lambda>per.
      encode_groups sb seed sq (chunks per (map snd staged))))"

definition encode_commit :: "jsuperblock \<Rightarrow> u32 \<Rightarrow> bytes res" where
  "encode_commit sb sq =
     rbind (header_encode_into \<lparr>jh_type = Commit, jh_sequence = sq\<rparr> (replicate BLOCK_SIZE 0)) (\<lambda>blk.
     if ft_checksum (js_features sb) = V3 then
       rbind (commit_checksum (checksum_seed (js_uuid sb)) blk) (\<lambda>c. write_range blk 16 (be32 c))
     else Inr blk)"

definition update_superblock :: "bytes \<Rightarrow> u32 \<Rightarrow> u32 \<Rightarrow> jsuperblock \<Rightarrow> bytes res" where
  "update_superblock img sq start sb =
     rbind (write_range img 24 (be32 sq)) (\<lambda>img.
     rbind (write_range img 28 (be32 start)) (\<lambda>img.
     if ft_checksum (js_features sb) = V3 then
       rbind (write_range img 252 (replicate 4 0)) (\<lambda>img.
       rbind (superblock_checksum img) (\<lambda>c. write_range img 252 (be32 c)))
     else Inr img))"

section \<open>Writing\<close>

definition write_bytes :: "('d, 'z) device_ops_scheme \<Rightarrow> 'd \<Rightarrow> PBlockId \<Rightarrow> bytes \<Rightarrow> 'd \<times> unit res" where
  "write_bytes ops d blk bs = write_block ops d (block_new blk bs)"

definition write_journal_superblock ::
    "('d, 'z) device_ops_scheme \<Rightarrow> 'd \<Rightarrow> PBlockId list \<Rightarrow> bytes \<Rightarrow> 'd \<times> unit res" where
  "write_journal_superblock ops d mapping img =
     sbind (d, rbind (index_at mapping 0) (read_block ops d)) (\<lambda>d b.
     sbind (d, write_range (blk_data b) 0 img) (\<lambda>d data.
     write_block ops d (b\<lparr>blk_data := data\<rparr>)))"

fun write_all :: "('d, 'z) device_ops_scheme \<Rightarrow> 'd \<Rightarrow> (PBlockId \<times> bytes) list \<Rightarrow> 'd \<times> unit res" where
  "write_all ops d [] = (d, Inr ())"
| "write_all ops d ((blk, bs) # ws) = sbind (write_bytes ops d blk bs) (\<lambda>d _. write_all ops d ws)"

text \<open>Blocks of the log, through the mapping of the journal inode.\<close>

fun write_log ::
    "('d, 'z) device_ops_scheme \<Rightarrow> 'd \<Rightarrow> PBlockId list \<Rightarrow> (u32 \<times> bytes) list \<Rightarrow> 'd \<times> unit res" where
  "write_log ops d mapping [] = (d, Inr ())"
| "write_log ops d mapping ((logical, bs) # ws) =
     sbind (d, index_at mapping (unat logical)) (\<lambda>d blk.
     sbind (write_bytes ops d blk bs) (\<lambda>d _. write_log ops d mapping ws))"

definition home_images :: "(PBlockId, staged_block) btree \<Rightarrow> (PBlockId \<times> bytes) list" where
  "home_images staged = map (\<lambda>s. (st_home s, st_image s)) (map snd staged)"

section \<open>Ends of a transaction\<close>

definition release_writer :: "transaction \<Rightarrow> transaction" where
  "release_writer tx =
     (if tx_owns_writer tx then tx\<lparr>tx_owns_writer := False, tx_core := set_writer False (tx_core tx)\<rparr> else tx)"

text \<open>\<^verbatim>\<open>abort\<close>, and what dropping a transaction does to the core.\<close>

definition tx_abort :: "transaction \<Rightarrow> core" where
  "tx_abort tx = tx_core (release_writer tx)"

text \<open>\<^verbatim>\<open>fail\<close>. A panic unwinds: the transaction is dropped, which releases the writer.\<close>

definition tx_fail :: "transaction \<Rightarrow> fault \<Rightarrow> commit_failure \<Rightarrow> bool \<Rightarrow> core \<times> commit_fault" where
  "tx_fail tx f failure poisoned = (case f of
     Err e \<Rightarrow>
       (tx_core (release_writer (if poisoned then tx\<lparr>tx_core := poison (tx_core tx)\<rparr> else tx)),
        CommitError e failure)
   | Panic \<Rightarrow> (tx_abort tx, CommitPanic))"

text \<open>Device, core and caches after a commit, and its result.\<close>

type_synonym ('d, 'c) commit_result = "'d \<times> core \<times> 'c \<times> (commit_fault + unit)"

definition commit_fails ::
    "'d \<Rightarrow> 'c \<Rightarrow> transaction \<Rightarrow> fault \<Rightarrow> commit_failure \<Rightarrow> bool \<Rightarrow> ('d, 'c) commit_result" where
  "commit_fails d cache tx f failure poisoned =
     (case tx_fail tx f failure poisoned of (c, err) \<Rightarrow> (d, c, cache, Inl err))"

definition commit_done :: "'d \<Rightarrow> 'c \<Rightarrow> transaction \<Rightarrow> ('d, 'c) commit_result" where
  "commit_done d cache tx = (d, tx_core (release_writer tx), cache, Inr ())"

section \<open>Direct commits\<close>

definition commit_direct ::
    "('d, 'z) device_ops_scheme \<Rightarrow> ('c \<Rightarrow> (PBlockId, staged_block) btree \<Rightarrow> 'c) \<Rightarrow> 'd \<Rightarrow> 'c \<Rightarrow> transaction \<Rightarrow>
     direct_core \<Rightarrow> ('d, 'c) commit_result" where
  "commit_direct ops publish d cache tx dc =
     (if list_ex (\<lambda>s. st_home s \<ge> dc_target_blocks dc) (map snd (tx_staged tx))
      then commit_fails d cache tx (Err EINVAL) BeforeCommit False
      else case write_all ops d (home_images (tx_staged tx)) of
        (d, Inl f) \<Rightarrow> commit_fails d cache tx f CheckpointFailed True
      | (d, Inr _) \<Rightarrow> commit_done d (publish cache (tx_staged tx)) tx)"

fun rollback_homes ::
    "('d, 'z) device_ops_scheme \<Rightarrow> (PBlockId, staged_block) btree \<Rightarrow> 'd \<Rightarrow> PBlockId list \<Rightarrow> 'd \<times> unit res" where
  "rollback_homes ops staged d [] = (d, Inr ())"
| "rollback_homes ops staged d (home # homes) =
     (case bt_get staged home of
        None \<Rightarrow> (d, Inl Panic)
      | Some s \<Rightarrow>
          sbind (d, ok_or (st_original s) EIO) (\<lambda>d original.
          sbind (write_bytes ops d home original) (\<lambda>d _. rollback_homes ops staged d homes)))"

definition rollback_direct_range ::
    "('d, 'z) device_ops_scheme \<Rightarrow> (PBlockId, staged_block) btree \<Rightarrow> 'd \<Rightarrow> PBlockId list \<Rightarrow> 'd \<times> unit res" where
  "rollback_direct_range ops staged d completed_homes =
     sbind (rollback_homes ops staged d (rev completed_homes)) (\<lambda>d _.
     if completed_homes \<noteq> [] \<and> supports_reliable_flush ops d then flush ops d else (d, Inr ()))"

text \<open>A failed allocation write or flush: roll back, and poison only when that fails, too.\<close>

definition direct_range_failed ::
    "('d, 'z) device_ops_scheme \<Rightarrow> 'd \<Rightarrow> 'c \<Rightarrow> transaction \<Rightarrow> PBlockId list \<Rightarrow> fault \<Rightarrow> ('d, 'c) commit_result" where
  "direct_range_failed ops d cache tx completed f = (case f of
     Panic \<Rightarrow> commit_fails d cache tx Panic BeforeCommit False
   | Err e \<Rightarrow>
       (case rollback_direct_range ops (tx_staged tx) d completed of
          (d, Inr _) \<Rightarrow> commit_fails d cache tx (Err e) BeforeCommit False
        | (d, Inl g) \<Rightarrow> commit_fails d cache tx g CheckpointFailed True))"

text \<open>The loop over the allocation homes; \<open>done\<close> are the homes in front of the current one. The result
  is the device and, on a failure, the homes to roll back and the error.\<close>

fun write_allocation_homes ::
    "('d, 'z) device_ops_scheme \<Rightarrow> (PBlockId, staged_block) btree \<Rightarrow> 'd \<Rightarrow> PBlockId list \<Rightarrow> PBlockId list \<Rightarrow>
     'd \<times> (PBlockId list \<times> fault + unit)" where
  "write_allocation_homes ops staged d completed [] = (d, Inr ())"
| "write_allocation_homes ops staged d completed (home # homes) =
     (case bt_get staged home of
        None \<Rightarrow> (d, Inl (completed @ [home], Panic))
      | Some s \<Rightarrow>
          (case write_bytes ops d home (st_image s) of
             (d, Inl f) \<Rightarrow> (d, Inl (completed @ [home], f))
           | (d, Inr _) \<Rightarrow> write_allocation_homes ops staged d (completed @ [home]) homes))"

definition has_original :: "(PBlockId, staged_block) btree \<Rightarrow> PBlockId \<Rightarrow> bool" where
  "has_original staged home =
     (case bt_get staged home of None \<Rightarrow> False | Some s \<Rightarrow> st_original s \<noteq> None)"

definition direct_range_ok ::
    "('d, 'z) device_ops_scheme \<Rightarrow> 'd \<Rightarrow> (PBlockId, staged_block) btree \<Rightarrow> u64 \<Rightarrow> PBlockId list \<Rightarrow> PBlockId \<Rightarrow> bool" where
  "direct_range_ok ops d staged target_blocks allocation_homes inode_home =
     (supports_reliable_flush ops d \<and> inode_home < target_blocks \<and> allocation_homes \<noteq> [] \<and>
      inode_home \<notin> set allocation_homes \<and> length staged = length allocation_homes + 1 \<and>
      list_all (\<lambda>home. home < target_blocks \<and> has_original staged home) allocation_homes \<and>
      has_original staged inode_home)"

definition commit_direct_range ::
    "('d, 'z) device_ops_scheme \<Rightarrow> ('c \<Rightarrow> (PBlockId, staged_block) btree \<Rightarrow> 'c) \<Rightarrow> 'd \<Rightarrow> 'c \<Rightarrow> transaction \<Rightarrow>
     PBlockId list \<Rightarrow> PBlockId \<Rightarrow> ('d, 'c) commit_result" where
  "commit_direct_range ops publish d cache tx allocation_homes inode_home = (case tx_core tx of
     Journal _ \<Rightarrow> commit_fails d cache tx (Err EINVAL) BeforeCommit False
   | Direct dc \<Rightarrow>
       if \<not> direct_range_ok ops d (tx_staged tx) (dc_target_blocks dc) allocation_homes inode_home
       then commit_fails d cache tx (Err EINVAL) BeforeCommit False
       else case write_allocation_homes ops (tx_staged tx) d [] allocation_homes of
         (d, Inl (completed, f)) \<Rightarrow> direct_range_failed ops d cache tx completed f
       | (d, Inr _) \<Rightarrow>
           (case flush ops d of
              (d, Inl f) \<Rightarrow> direct_range_failed ops d cache tx allocation_homes f
            | (d, Inr _) \<Rightarrow>
                (case bt_get (tx_staged tx) inode_home of
                   None \<Rightarrow> commit_fails d cache tx Panic BeforeCommit False
                 | Some s \<Rightarrow>
                     (case write_bytes ops d inode_home (st_image s) of
                        (d, Inl f) \<Rightarrow> commit_fails d cache tx f CommitUncertain True
                      | (d, Inr _) \<Rightarrow> commit_done d (publish cache (tx_staged tx)) tx))))"

section \<open>Journal commits\<close>

text \<open>Everything that can fail before the first write, in the order of the source.\<close>

record commit_plan =
  pl_positions :: "u32 list"
  pl_encoded :: "bytes list"
  pl_commit :: bytes
  pl_active :: bytes
  pl_clean :: bytes

definition journal_plan :: "bool \<Rightarrow> journal_context \<Rightarrow> (PBlockId, staged_block) btree \<Rightarrow> commit_plan res" where
  "journal_plan reliable_flush c staged =
     (let sb = jc_superblock c; sq = js_sequence sb in
      if \<not> reliable_flush then Inl (Err ENOTSUP) else
      rbind (required_log_blocks (length staged) (js_features sb)) (\<lambda>needed.
      rbind (ring_len sb) (\<lambda>len.
      if needed > len then Inl (Err E2BIG) else
      rbind (ring_positions sb (jc_head c) needed) (\<lambda>positions.
      if list_ex (\<lambda>s. st_home s \<ge> jc_target_blocks c \<or> st_home s \<in> jc_journal_blocks c) (map snd staged)
      then Inl (Err EINVAL) else
      rbind (encode_log sb sq staged) (\<lambda>encoded.
      rbind (encode_commit sb sq) (\<lambda>commit.
      rbind (update_superblock (jc_superblock_image c) sq (jc_head c) sb) (\<lambda>active.
      rbind (update_superblock (jc_superblock_image c) (sq + 1) 0 sb) (\<lambda>clean.
      Inr \<lparr>pl_positions = positions, pl_encoded = encoded, pl_commit = commit, pl_active = active,
           pl_clean = clean\<rparr>))))))))"

definition tagged :: "commit_failure \<Rightarrow> 'd \<times> 'a res \<Rightarrow> 'd \<times> (fault \<times> commit_failure + 'a)" where
  "tagged k m = (case m of (d, Inl f) \<Rightarrow> (d, Inl (f, k)) | (d, Inr x) \<Rightarrow> (d, Inr x))"

text \<open>From the active superblock to the checkpoint. The assertion on the number of log blocks stands
  where the source has it.\<close>

definition commit_io ::
    "('d, 'z) device_ops_scheme \<Rightarrow> 'd \<Rightarrow> PBlockId list \<Rightarrow> commit_plan \<Rightarrow> (PBlockId \<times> bytes) list \<Rightarrow>
     'd \<times> (fault \<times> commit_failure + unit)" where
  "commit_io ops d mapping plan homes =
     sbind (tagged BeforeCommit (write_journal_superblock ops d mapping (pl_active plan))) (\<lambda>d _.
     sbind (tagged BeforeCommit (flush ops d)) (\<lambda>d _.
     if length (pl_encoded plan) + 1 \<noteq> length (pl_positions plan) then (d, Inl (Panic, BeforeCommit)) else
     sbind (tagged BeforeCommit (write_log ops d mapping (zip (pl_positions plan) (pl_encoded plan)))) (\<lambda>d _.
     sbind (tagged BeforeCommit (flush ops d)) (\<lambda>d _.
     sbind (tagged CommitUncertain (write_log ops d mapping [(last (pl_positions plan), pl_commit plan)])) (\<lambda>d _.
     sbind (tagged CommitUncertain (flush ops d)) (\<lambda>d _.
     sbind (tagged CheckpointFailed (write_all ops d homes)) (\<lambda>d _.
     tagged CheckpointFailed (flush ops d))))))))"

definition clear_tail ::
    "('d, 'z) device_ops_scheme \<Rightarrow> 'd \<Rightarrow> PBlockId list \<Rightarrow> commit_plan \<Rightarrow> 'd \<times> (fault \<times> commit_failure + unit)" where
  "clear_tail ops d mapping plan =
     sbind (tagged TailUpdateFailed (write_journal_superblock ops d mapping (pl_clean plan))) (\<lambda>d _.
     tagged TailUpdateFailed (flush ops d))"

text \<open>The update of the context after a complete commit; the head is advanced last.\<close>

definition context_after :: "journal_context \<Rightarrow> commit_plan \<Rightarrow> journal_context \<times> unit res" where
  "context_after c plan =
     (let sb = jc_superblock c;
          c = c\<lparr>jc_superblock := sb\<lparr>js_sequence := js_sequence sb + 1, js_start := 0\<rparr>\<rparr> in
      case ring_next sb (last (pl_positions plan)) of
        Inl f \<Rightarrow> (c, Inl f)
      | Inr head \<Rightarrow> (c\<lparr>jc_head := head, jc_superblock_image := pl_clean plan\<rparr>, Inr ()))"

definition commit_journal ::
    "('d, 'z) device_ops_scheme \<Rightarrow> ('c \<Rightarrow> (PBlockId, staged_block) btree \<Rightarrow> 'c) \<Rightarrow> 'd \<Rightarrow> 'c \<Rightarrow> transaction \<Rightarrow>
     journal_core \<Rightarrow> ('d, 'c) commit_result" where
  "commit_journal ops publish d cache tx jc =
     (let c = jco_context jc; mapping = jc_logical_blocks c in
      case journal_plan (supports_reliable_flush ops d) c (tx_staged tx) of
        Inl f \<Rightarrow> commit_fails d cache tx f BeforeCommit False
      | Inr plan \<Rightarrow>
          (case commit_io ops d mapping plan (home_images (tx_staged tx)) of
             (d, Inl (f, k)) \<Rightarrow> commit_fails d cache tx f k True
           | (d, Inr _) \<Rightarrow>
               let cache = publish cache (tx_staged tx) in
               (case clear_tail ops d mapping plan of
                  (d, Inl (f, k)) \<Rightarrow> commit_fails d cache tx f k True
                | (d, Inr _) \<Rightarrow>
                    (case context_after c plan of
                       (c, Inl f) \<Rightarrow> commit_fails d cache (tx\<lparr>tx_core := Journal (jc\<lparr>jco_context := c\<rparr>)\<rparr>) f
                         TailUpdateFailed False
                     | (c, Inr _) \<Rightarrow> commit_done d cache (tx\<lparr>tx_core := Journal (jc\<lparr>jco_context := c\<rparr>)\<rparr>)))))"

definition tx_commit ::
    "('d, 'z) device_ops_scheme \<Rightarrow> ('c \<Rightarrow> (PBlockId, staged_block) btree \<Rightarrow> 'c) \<Rightarrow> 'd \<Rightarrow> 'c \<Rightarrow> transaction \<Rightarrow>
     ('d, 'c) commit_result" where
  "tx_commit ops publish d cache tx =
     (if tx_staged tx = [] then commit_done d cache tx
      else case tx_core tx of
        Journal jc \<Rightarrow> commit_journal ops publish d cache tx jc
      | Direct dc \<Rightarrow> commit_direct ops publish d cache tx dc)"

end
