(* ===== verification/Journal_Log.thy ===== *)
theory Journal_Log
  imports Journal_Transaction Journal_Recovery
begin

text \<open>
  What a transaction writes to the log is what recovery reads from it: the layout of descriptor and
  commit blocks in closed form, the round trip from \<^verbatim>\<open>encode_log\<close> of
  \<^verbatim>\<open>src/ext4/journal_transaction.rs\<close> to \<^verbatim>\<open>parse_tags\<close> of \<^verbatim>\<open>src/ext4/journal_recovery.rs\<close>, the number
  of log blocks, and the update of the journal superblock.
\<close>

section \<open>Descriptor blocks in closed form\<close>

definition log_escapes :: "staged_block \<Rightarrow> bool" where
  "log_escapes s \<longleftrightarrow> take 4 (st_image s) = be32 JBD2_MAGIC"

definition log_data :: "staged_block \<Rightarrow> bytes" where
  "log_data s = (if log_escapes s then splice (st_image s) 0 (replicate 4 0) else st_image s)"

definition log_flags :: "nat \<Rightarrow> nat \<Rightarrow> staged_block \<Rightarrow> u32" where
  "log_flags group_len index s =
     (if index \<noteq> 0 then FLAG_SAME_UUID else 0) OR (if log_escapes s then FLAG_ESCAPE else 0) OR
     (if index + 1 = group_len then FLAG_LAST_TAG else 0)"

definition log_csum :: "features \<Rightarrow> u32 \<Rightarrow> u32 \<Rightarrow> staged_block \<Rightarrow> u32 option" where
  "log_csum fts seed sq s =
     (if ft_checksum fts = V3 then Some (tag_checksum seed sq (log_data s)) else None)"

definition log_tag :: "features \<Rightarrow> u32 \<Rightarrow> u32 \<Rightarrow> nat \<Rightarrow> nat \<Rightarrow> staged_block \<Rightarrow> tag" where
  "log_tag fts seed sq group_len index s =
     \<lparr>tg_block = st_home s, tg_flags = log_flags group_len index s, tg_checksum = log_csum fts seed sq s\<rparr>"

definition enc_tag :: "features \<Rightarrow> u32 \<Rightarrow> u32 \<Rightarrow> nat \<Rightarrow> nat \<Rightarrow> staged_block \<Rightarrow> bytes" where
  "enc_tag fts seed sq group_len index s =
     be32 (ucast (st_home s)) @
     (if ft_checksum fts = V3 then
        be32 (log_flags group_len index s) @ be32 (ucast (drop_bit 32 (st_home s))) @
        be32 (tag_checksum seed sq (log_data s))
      else
        [0, 0] @ be16 (ucast (log_flags group_len index s)) @ (if ft_has_64bit fts then [0, 0, 0, 0] else []))"

fun enc_tags :: "jsuperblock \<Rightarrow> u32 \<Rightarrow> u32 \<Rightarrow> nat \<Rightarrow> nat \<Rightarrow> staged_block list \<Rightarrow> bytes" where
  "enc_tags sb seed sq group_len index [] = []"
| "enc_tags sb seed sq group_len index (s # ss) =
     enc_tag (js_features sb) seed sq group_len index s @ (if index = 0 then js_uuid sb else []) @
     enc_tags sb seed sq group_len (index + 1) ss"

fun log_tags :: "features \<Rightarrow> u32 \<Rightarrow> u32 \<Rightarrow> nat \<Rightarrow> nat \<Rightarrow> staged_block list \<Rightarrow> tag list" where
  "log_tags fts seed sq group_len index [] = []"
| "log_tags fts seed sq group_len index (s # ss) =
     log_tag fts seed sq group_len index s # log_tags fts seed sq group_len (index + 1) ss"

text \<open>Homes the tag format can express; the encoder refuses others with \<open>ENOTSUP\<close>.\<close>

definition tag_fits :: "features \<Rightarrow> PBlockId \<Rightarrow> bool" where
  "tag_fits fts home \<longleftrightarrow> (ft_checksum fts = V3 \<and> ft_has_64bit fts) \<or> unat home < 2 ^ 32"

definition staged_ok :: "staged_block \<Rightarrow> bool" where
  "staged_ok s \<longleftrightarrow> length (st_image s) = BLOCK_SIZE"

lemma length_enc_tag [simp]: "length (enc_tag fts seed sq n i s) = tag_bytes fts"
  by (auto simp: enc_tag_def tag_bytes_def split: ChecksumMode.splits bool.splits)

lemma length_enc_tags:
  "length (js_uuid sb) = 16 \<Longrightarrow> length (enc_tags sb seed sq n i ss) =
   length ss * tag_bytes (js_features sb) + (if i = 0 \<and> ss \<noteq> [] then 16 else 0)"
  by (induction ss arbitrary: i) auto

lemma write_range_zeros:
  assumes "off = length pre" "length bs \<le> n"
  shows "write_range (pre @ replicate n 0) off bs = Inr (pre @ bs @ replicate (n - length bs) 0)"
  using assms by (simp add: splice_def)

lemma log_escapes_iff: "4 \<le> length (st_image s) \<Longrightarrow> of_be (take 4 (st_image s)) = JBD2_MAGIC \<longleftrightarrow> log_escapes s"
  by (simp add: log_escapes_def of_be_eq_iff)

lemma length_log_data [simp]: "staged_ok s \<Longrightarrow> length (log_data s) = BLOCK_SIZE"
  by (simp add: log_data_def staged_ok_def BLOCK_SIZE_def)

lemma replicate_append_diff: "k \<le> n \<Longrightarrow> replicate n x = replicate k x @ replicate (n - k) x"
  by (simp flip: replicate_add)

lemma encode_tag_fields_ok:
  fixes n :: nat
  assumes "off = length pre" "tag_bytes fts \<le> n + 4" "tag_fits fts (st_home s)"
    and flags: "flags = log_flags group_len index s"
  shows "encode_tag_fields fts seed sq off (st_home s) flags (log_data s)
      ((pre @ be32 (ucast (st_home s))) @ replicate n 0) =
    Inr (pre @ enc_tag fts seed sq group_len index s @ replicate (n + 4 - tag_bytes fts) 0)"
proof (cases "ft_checksum fts")
  case V3
  let ?a = "be32 (ucast (st_home s))" and ?f = "be32 flags" and ?h = "be32 (ucast (drop_bit 32 (st_home s)))"
    and ?c = "be32 (tag_checksum seed sq (log_data s))"
  have tb: "tag_bytes fts = 16" using V3 by (simp add: tag_bytes_def split: bool.split)
  then have n: "12 \<le> n" using assms(2) by simp
  have w1: "write_range ((pre @ ?a) @ replicate n 0) (off + 4) ?f = Inr ((pre @ ?a @ ?f) @ replicate (n - 4) 0)"
    using assms(1) n by (subst write_range_zeros) simp_all
  have w2: "write_range ((pre @ ?a @ ?f) @ replicate (n - 4) 0) (off + 8) ?h =
      Inr ((pre @ ?a @ ?f @ ?h) @ replicate (n - 8) 0)"
    using assms(1) n by (subst write_range_zeros) simp_all
  have w3: "write_range ((pre @ ?a @ ?f @ ?h) @ replicate (n - 8) 0) (off + 12) ?c =
      Inr ((pre @ ?a @ ?f @ ?h @ ?c) @ replicate (n - 12) 0)"
    using assms(1) n by (subst write_range_zeros) simp_all
  have fit: "\<not> (\<not> ft_has_64bit fts \<and> unat (st_home s) > 2 ^ 32 - 1)"
    using assms(3) V3 by (auto simp: tag_fits_def)
  show ?thesis
    unfolding encode_tag_fields_def V3
    using fit by (simp only: ChecksumMode.case if_False w1 w2 w3 rbind.simps)
      (simp add: enc_tag_def V3 tb flags)
next
  case NoChecksum
  let ?a = "be32 (ucast (st_home s))" and ?f = "be16 (ucast flags)"
  have tb: "tag_bytes fts = (if ft_has_64bit fts then 12 else 8)"
    using NoChecksum by (simp add: tag_bytes_def)
  then have n: "4 \<le> n" "ft_has_64bit fts \<Longrightarrow> 8 \<le> n" using assms(2) by (auto split: if_splits)
  have "replicate n (0 :: u8) = [0, 0] @ replicate (n - 2) 0"
    using replicate_append_diff [of 2 n "0 :: u8"] n by (simp add: numeral_eq_Suc)
  then have "(pre @ ?a) @ replicate n (0 :: u8) = (pre @ ?a @ [0, 0]) @ replicate (n - 2) 0" by simp
  moreover have "write_range ((pre @ ?a @ [0, 0]) @ replicate (n - 2) 0) (off + 6) ?f =
      Inr ((pre @ ?a @ [0, 0] @ ?f) @ replicate (n - 4) 0)"
    using assms(1) n by (subst write_range_zeros) simp_all
  ultimately have w: "write_range ((pre @ ?a) @ replicate n (0 :: u8)) (off + 6) ?f =
      Inr ((pre @ ?a @ [0, 0] @ ?f) @ replicate (n - 4) 0)" by simp
  have z: "ft_has_64bit fts \<Longrightarrow> replicate (n - 4) (0 :: u8) = [0, 0, 0, 0] @ replicate (n - 8) 0"
    using replicate_append_diff [of 4 "n - 4" "0 :: u8"] n by (simp add: numeral_eq_Suc)
  have fit: "\<not> unat (st_home s) > 2 ^ 32 - 1"
    using assms(3) NoChecksum by (auto simp: tag_fits_def)
  show ?thesis
    unfolding encode_tag_fields_def NoChecksum
    using fit by (simp only: ChecksumMode.case if_False w)
      (simp add: enc_tag_def NoChecksum tb flags z)
qed

lemma encode_tag_fields_fits:
  "encode_tag_fields fts seed sq off home flags img desc = Inr d \<Longrightarrow> tag_fits fts home"
  by (auto simp: encode_tag_fields_def tag_fits_def split: ChecksumMode.splits if_splits)

lemma encode_tags_ok:
  assumes "off = length pre" "list_all staged_ok ss" "list_all (\<lambda>s. tag_fits (js_features sb) (st_home s)) ss"
    and "length (js_uuid sb) = 16" "length (enc_tags sb seed sq group_len index ss) \<le> n"
  shows "encode_tags sb seed sq group_len index off (pre @ replicate n 0) ss =
    Inr (pre @ enc_tags sb seed sq group_len index ss @
         replicate (n - length (enc_tags sb seed sq group_len index ss)) 0, map log_data ss)"
  using assms
proof (induction ss arbitrary: index off pre n)
  case (Cons s ss)
  let ?fts = "js_features sb" and ?t = "enc_tag (js_features sb) seed sq group_len index s"
  let ?u = "if index = 0 then js_uuid sb else []"
  have len: "4 \<le> length (st_image s)" "length (st_image s) = 4096"
    using Cons.prems(2) by (simp_all add: staged_ok_def BLOCK_SIZE_def)
  have fit: "tag_fits ?fts (st_home s)" using Cons.prems(3) by simp
  have tb: "8 \<le> tag_bytes ?fts" by (simp add: tag_bytes_def split: ChecksumMode.split bool.split)
  have need: "tag_bytes ?fts + length ?u + length (enc_tags sb seed sq group_len (index + 1) ss) \<le> n"
    using Cons.prems(5) by simp
  have w1: "write_range (pre @ replicate n 0) off (be32 (ucast (st_home s))) =
      Inr ((pre @ be32 (ucast (st_home s))) @ replicate (n - 4) 0)"
    using Cons.prems(1) need tb by (subst write_range_zeros) simp_all
  have w2: "encode_tag_fields ?fts seed sq off (st_home s) (log_flags group_len index s) (log_data s)
      ((pre @ be32 (ucast (st_home s))) @ replicate (n - 4) 0) =
      Inr ((pre @ ?t) @ replicate (n - tag_bytes ?fts) 0)"
    using encode_tag_fields_ok [OF Cons.prems(1) _ fit refl, of "n - 4" seed sq group_len index] need tb by simp
  have w3: "(if index = 0 then write_range ((pre @ ?t) @ replicate (n - tag_bytes ?fts) 0)
        (off + tag_bytes ?fts) (js_uuid sb) else Inr ((pre @ ?t) @ replicate (n - tag_bytes ?fts) 0)) =
      Inr ((pre @ ?t @ ?u) @ replicate (n - tag_bytes ?fts - length ?u) 0)"
    using write_range_zeros [of "off + tag_bytes ?fts" "pre @ ?t" "js_uuid sb" "n - tag_bytes ?fts"]
      Cons.prems(1,4) need by (cases "index = 0") simp_all
  have IH: "encode_tags sb seed sq group_len (index + 1) (length (pre @ ?t @ ?u))
      ((pre @ ?t @ ?u) @ replicate (n - tag_bytes ?fts - length ?u) 0) ss =
    Inr ((pre @ ?t @ ?u) @ enc_tags sb seed sq group_len (index + 1) ss @
         replicate (n - tag_bytes ?fts - length ?u - length (enc_tags sb seed sq group_len (index + 1) ss)) 0,
         map log_data ss)"
    by (rule Cons.IH [OF refl]) (use Cons.prems need in auto)
  have esc: "(of_be (slice (st_image s) 0 4) = JBD2_MAGIC) = log_escapes s"
    using log_escapes_iff [OF len(1)] by (simp add: slice_0)
  have ir: "index_range (st_image s) 0 4 = Inr (slice (st_image s) 0 4)" using len by simp
  have off: "(if index = 0 then off + tag_bytes ?fts + 16 else off + tag_bytes ?fts) = length (pre @ ?t @ ?u)"
    using Cons.prems(1,4) by simp
  show ?case
    unfolding encode_tags.simps ir rbind.simps Let_def esc log_data_def [symmetric] log_flags_def [symmetric]
      w1 w2 w3 off IH
    by (simp add: algebra_simps)
qed simp

section \<open>Parsing what was encoded\<close>

lemma log_flags_tests:
  "log_flags n i s AND FLAG_SAME_UUID = 0 \<longleftrightarrow> i = 0"
  "log_flags n i s AND FLAG_LAST_TAG \<noteq> 0 \<longleftrightarrow> i + 1 = n"
  "log_flags n i s AND FLAG_ESCAPE \<noteq> 0 \<longleftrightarrow> log_escapes s"
  "log_flags n i s AND FLAG_DELETED = 0"
  "ucast (ucast (log_flags n i s) :: u16) = log_flags n i s"
  by (auto simp: log_flags_def tag_flag_defs)

lemma ucast_hi_zero: "unat (home :: u64) < 2 ^ 32 \<Longrightarrow> (ucast (drop_bit 32 home) :: u32) = 0"
proof (rule bit_word_eqI)
  fix n assume "unat home < 2 ^ 32"
  then have "\<not> bit home (32 + n)" using unat_lt_bit [of home 32 "32 + n"] by simp
  then show "bit (ucast (drop_bit 32 home) :: u32) n = bit (0 :: u32) n" by (simp add: bit_simps)
qed

lemma tag_target:
  "tag_fits fts home \<Longrightarrow>
   ucast (ucast home :: u32) OR push_bit 32 (if ft_has_64bit fts \<and> ft_checksum fts = V3
     then ucast (ucast (drop_bit 32 home) :: u32) else 0) = home"
  using join_split32 [of home] by (auto simp: tag_fits_def ucast_ucast_small)

lemma rec_be_ok:
  "off + 2 \<le> length bs \<Longrightarrow> off + 2 < USIZE_LIMIT \<Longrightarrow> rec_be16 bs off = Inr (of_be (slice bs off 2))"
  "off + 4 \<le> length bs \<Longrightarrow> off + 4 < USIZE_LIMIT \<Longrightarrow> rec_be32 bs off = Inr (of_be (slice bs off 4))"
  by (simp_all add: rec_be16_def rec_be32_def rec_get_be_def get_range_def)

lemma slice_append_at: "slice (pre @ xs) (length pre + k) n = slice xs k n"
  by (simp add: slice_def)

lemma rec_be_append:
  "rec_be32 (pre @ xs @ be32 v @ ys) (length pre + length xs) =
   (if length pre + length xs + 4 < USIZE_LIMIT then Inr v else Inl Panic)"
  "rec_be16 (pre @ xs @ be16 w @ ys) (length pre + length xs) =
   (if length pre + length xs + 2 < USIZE_LIMIT then Inr w else Inl Panic)"
  by (simp_all add: rec_be16_def rec_be32_def rec_get_be_def get_range_def slice_def)

lemma rec_tag_fields_enc:
  assumes "tag_fits fts (st_home s)" "length pre + 16 < USIZE_LIMIT"
  shows "rec_tag_fields (pre @ enc_tag fts seed sq group_len index s @ rest) fts (length pre) =
    Inr (log_flags group_len index s,
      if ft_has_64bit fts \<and> ft_checksum fts = V3 then ucast (ucast (drop_bit 32 (st_home s)) :: u32) else 0,
      log_csum fts seed sq s)"
proof (cases "ft_checksum fts")
  case V3
  let ?b = "pre @ enc_tag fts seed sq group_len index s @ rest"
  have e: "enc_tag fts seed sq group_len index s = be32 (ucast (st_home s)) @
        be32 (log_flags group_len index s) @ be32 (ucast (drop_bit 32 (st_home s))) @
        be32 (tag_checksum seed sq (log_data s))"
    using V3 by (simp add: enc_tag_def)
  have "rec_be32 ?b (length pre + 4) = Inr (log_flags group_len index s)"
    "rec_be32 ?b (length pre + 8) = Inr (ucast (drop_bit 32 (st_home s)))"
    "rec_be32 ?b (length pre + 12) = Inr (tag_checksum seed sq (log_data s))"
    using assms(2) unfolding e by (subst rec_be_ok, simp, simp, simp add: slice_append_at, simp add: slice_def)+
  then show ?thesis
    using V3 assms(1) by (auto simp: rec_tag_fields_def log_csum_def tag_fits_def ucast_hi_zero)
next
  case NoChecksum
  let ?b = "pre @ enc_tag fts seed sq group_len index s @ rest"
  have e: "enc_tag fts seed sq group_len index s = be32 (ucast (st_home s)) @
       [0, 0] @ be16 (ucast (log_flags group_len index s)) @ (if ft_has_64bit fts then [0, 0, 0, 0] else [])"
    using NoChecksum by (simp add: enc_tag_def)
  have f: "rec_be16 ?b (length pre + 6) = Inr (ucast (log_flags group_len index s))"
    using assms(2) unfolding e by (subst rec_be_ok) (simp_all add: slice_append_at, simp add: slice_def)
  have z: "of_be [0, 0, 0, 0] = (0 :: u32)" by (simp add: of_be_def)
  have "ft_has_64bit fts \<Longrightarrow> rec_be32 ?b (length pre + 8) = Inr 0"
    using assms(2) unfolding e by (subst rec_be_ok) (simp_all add: slice_append_at, simp add: slice_def z)
  then show ?thesis
    using NoChecksum f by (simp add: rec_tag_fields_def log_csum_def log_flags_tests)
qed

lemma enc_tag_home:
  "length pre + 4 < USIZE_LIMIT \<Longrightarrow>
   rec_be32 (pre @ enc_tag fts seed sq group_len index s @ rest) (length pre) = Inr (ucast (st_home s))"
  using rec_be_append(1) [of pre "[]" "ucast (st_home s)"] by (simp add: enc_tag_def)

lemma parse_tags_loop_enc:
  assumes "ss \<noteq> []" "index + length ss = group_len" "length (js_uuid sb) = 16"
    and "list_all (\<lambda>s. tag_fits (js_features sb) (st_home s) \<and> st_home s < target) ss"
    and "length pre + length (enc_tags sb seed sq group_len index ss) \<le> ending" "ending + 32 < USIZE_LIMIT"
  shows "parse_tags_loop (pre @ enc_tags sb seed sq group_len index ss @ rest) sb target ending (length pre) acc =
    Inr (acc @ log_tags (js_features sb) seed sq group_len index ss)"
  using assms
proof (induction ss arbitrary: index pre acc)
  case (Cons s ss)
  let ?fts = "js_features sb" and ?t = "enc_tag (js_features sb) seed sq group_len index s"
  let ?u = "if index = 0 then js_uuid sb else []"
  let ?b = "pre @ enc_tags sb seed sq group_len index (s # ss) @ rest"
  have b: "?b = pre @ ?t @ ?u @ enc_tags sb seed sq group_len (index + 1) ss @ rest" by simp
  have room: "length pre + tag_bytes ?fts \<le> ending" "length pre + tag_bytes ?fts + length ?u +
      length (enc_tags sb seed sq group_len (index + 1) ss) \<le> ending"
    using Cons.prems(5) by auto
  have lim: "length pre + tag_bytes ?fts < USIZE_LIMIT" "length pre + 16 < USIZE_LIMIT"
    "length pre + tag_bytes ?fts + 16 < USIZE_LIMIT" "length pre + 4 < USIZE_LIMIT"
    using room Cons.prems(6) by simp_all
  have fit: "tag_fits ?fts (st_home s)" "st_home s < target" using Cons.prems(4) by simp_all
  have nle: "\<not> target \<le> st_home s" using fit(2) by simp
  have low: "rec_be32 ?b (length pre) = Inr (ucast (st_home s))"
    unfolding b by (rule enc_tag_home [OF lim(4)])
  note f = rec_tag_fields_enc [OF fit(1) lim(2), of seed sq group_len index
      "?u @ enc_tags sb seed sq group_len (index + 1) ss @ rest", folded b]
  have uu: "tag_uuid_end ?b sb (log_flags group_len index s) (length pre + tag_bytes ?fts) =
      Inr (length (pre @ ?t @ ?u))"
  proof (cases "index = 0")
    case True
    have "slice ?b (length pre + tag_bytes ?fts) 16 = js_uuid sb"
      using True Cons.prems(3) unfolding b by (simp add: slice_append_at, simp add: slice_def)
    then show ?thesis
      using True Cons.prems(3) lim(3) by (simp add: tag_uuid_end_def log_flags_tests get_range_def)
  next
    case False
    then show ?thesis by (simp add: tag_uuid_end_def log_flags_tests)
  qed
  let ?tag = "log_tag ?fts seed sq group_len index s"
  have step: "parse_tags_loop ?b sb target ending (length pre) acc =
    (if index + 1 = group_len then Inr (acc @ [?tag])
     else parse_tags_loop ?b sb target ending (length (pre @ ?t @ ?u)) (acc @ [?tag]))"
    using room(1) lim(1) nle
    by (subst parse_tags_loop.simps)
       (simp add: Let_def low f uu tag_target [OF fit(1)] log_flags_tests log_tag_def del: enc_tags.simps)
  show ?case
  proof (cases ss)
    case Nil
    then have "index + 1 = group_len" using Cons.prems(2) by simp
    then show ?thesis using step Nil by simp
  next
    case (Cons s' ss')
    have n: "index + 1 \<noteq> group_len" using Cons.prems(2) Cons by simp
    have "parse_tags_loop ((pre @ ?t @ ?u) @ enc_tags sb seed sq group_len (index + 1) ss @ rest) sb target ending
       (length (pre @ ?t @ ?u)) (acc @ [?tag]) =
       Inr ((acc @ [?tag]) @ log_tags ?fts seed sq group_len (index + 1) ss)"
      by (rule Cons.IH) (use Cons.prems Cons room(2) in auto)
    then show ?thesis using step n b by simp
  qed
qed simp

section \<open>Groups\<close>

definition log_descriptor_raw :: "jsuperblock \<Rightarrow> u32 \<Rightarrow> u32 \<Rightarrow> staged_block list \<Rightarrow> bytes" where
  "log_descriptor_raw sb seed sq grp =
     header_bytes \<lparr>jh_type = Descriptor, jh_sequence = sq\<rparr> @ enc_tags sb seed sq (length grp) 0 grp @
     replicate (BLOCK_SIZE - 12 - length (enc_tags sb seed sq (length grp) 0 grp)) 0"

definition log_descriptor :: "jsuperblock \<Rightarrow> u32 \<Rightarrow> u32 \<Rightarrow> staged_block list \<Rightarrow> bytes" where
  "log_descriptor sb seed sq grp =
     (if ft_checksum (js_features sb) = V3 then hole_seal seed (BLOCK_SIZE - 4) (log_descriptor_raw sb seed sq grp)
      else log_descriptor_raw sb seed sq grp)"

definition group_ok :: "jsuperblock \<Rightarrow> staged_block list \<Rightarrow> bool" where
  "group_ok sb grp \<longleftrightarrow> grp \<noteq> [] \<and> length (js_uuid sb) = 16 \<and> list_all staged_ok grp \<and>
     list_all (\<lambda>s. tag_fits (js_features sb) (st_home s)) grp \<and>
     28 + length grp * tag_bytes (js_features sb) + tail_bytes (js_features sb) \<le> BLOCK_SIZE"

lemma length_enc_tags_group:
  "group_ok sb grp \<Longrightarrow> length (enc_tags sb seed sq (length grp) 0 grp) = 16 + length grp * tag_bytes (js_features sb)"
  by (simp add: group_ok_def length_enc_tags)

lemma group_room:
  "group_ok sb grp \<Longrightarrow> 28 + length grp * tag_bytes (js_features sb) + tail_bytes (js_features sb) \<le> BLOCK_SIZE"
  by (simp add: group_ok_def)

lemma length_log_descriptor_raw: "group_ok sb grp \<Longrightarrow> length (log_descriptor_raw sb seed sq grp) = BLOCK_SIZE"
  by (frule group_room) (simp add: log_descriptor_raw_def length_enc_tags_group)

lemma length_log_descriptor: "group_ok sb grp \<Longrightarrow> length (log_descriptor sb seed sq grp) = BLOCK_SIZE"
  by (simp add: log_descriptor_def hole_seal_def length_log_descriptor_raw BLOCK_SIZE_def)

lemma encode_group_ok:
  assumes g: "group_ok sb grp"
  shows "encode_group sb seed sq grp = Inr (log_descriptor sb seed sq grp # map log_data grp)"
proof -
  let ?enc = "enc_tags sb seed sq (length grp) 0 grp"
  let ?h = "header_bytes \<lparr>jh_type = Descriptor, jh_sequence = sq\<rparr>"
  have le: "length ?enc \<le> BLOCK_SIZE - 12"
    unfolding length_enc_tags_group [OF g] using group_room [OF g] by linarith
  have h: "header_encode_into \<lparr>jh_type = Descriptor, jh_sequence = sq\<rparr> (replicate BLOCK_SIZE 0) =
      Inr (?h @ replicate (BLOCK_SIZE - 12) 0)"
    by (simp add: header_encode_into_ok BLOCK_SIZE_def)
  have e: "encode_tags sb seed sq (length grp) 0 HEADER_BYTES (?h @ replicate (BLOCK_SIZE - 12) 0) grp =
      Inr (log_descriptor_raw sb seed sq grp, map log_data grp)"
    unfolding log_descriptor_raw_def
    by (rule encode_tags_ok) (use g le in \<open>auto simp: group_ok_def HEADER_BYTES_def\<close>)
  have l: "length (log_descriptor_raw sb seed sq grp) = BLOCK_SIZE" by (rule length_log_descriptor_raw [OF g])
  then have c: "block_checksum seed (log_descriptor_raw sb seed sq grp) =
      Inr (hole_csum seed (BLOCK_SIZE - 4) (log_descriptor_raw sb seed sq grp))"
    by (simp add: block_checksum_hole BLOCK_SIZE_def)
  show ?thesis
    unfolding encode_group_def h rbind.simps e prod.case
    using l by (simp add: c log_descriptor_def hole_seal_def BLOCK_SIZE_def)
qed

lemma hole_seal_prefix: "n \<le> a \<Longrightarrow> a + 4 \<le> length bs \<Longrightarrow> take n (hole_seal seed a bs) = take n bs"
  by (simp add: hole_seal_def take_splice_ge)

lemma log_descriptor_header:
  assumes "group_ok sb grp"
  shows "header_parse (log_descriptor sb seed sq grp) = Inr \<lparr>jh_type = Descriptor, jh_sequence = sq\<rparr>"
proof -
  have "take 12 (log_descriptor sb seed sq grp) = take 12 (log_descriptor_raw sb seed sq grp)"
    using length_log_descriptor_raw [OF assms, of seed sq]
    by (simp add: log_descriptor_def hole_seal_prefix BLOCK_SIZE_def)
  then show ?thesis
    using length_log_descriptor [OF assms, of seed sq]
    by (simp add: header_parse_Inr log_descriptor_raw_def BLOCK_SIZE_def)
qed

lemma log_descriptor_checksum:
  assumes "group_ok sb grp" "ft_checksum (js_features sb) = V3"
  shows "verify_block_checksum seed (log_descriptor sb seed sq grp) = Inr ()"
proof -
  have l: "length (log_descriptor_raw sb seed sq grp) = BLOCK_SIZE"
    by (rule length_log_descriptor_raw [OF assms(1)])
  have "hole_ok seed (BLOCK_SIZE - 4) (hole_seal seed (BLOCK_SIZE - 4) (log_descriptor_raw sb seed sq grp))"
    by (rule hole.verify_seal) (simp add: l BLOCK_SIZE_def)
  then show ?thesis
    using length_log_descriptor [OF assms(1), of seed sq] assms(2)
    by (subst verify_block_checksum_hole) (simp_all add: log_descriptor_def BLOCK_SIZE_def USIZE_LIMIT_def)
qed

lemma log_descriptor_split:
  assumes "group_ok sb grp"
  shows "\<exists>rest. log_descriptor sb seed sq grp =
    header_bytes \<lparr>jh_type = Descriptor, jh_sequence = sq\<rparr> @ enc_tags sb seed sq (length grp) 0 grp @ rest"
proof -
  let ?p = "header_bytes \<lparr>jh_type = Descriptor, jh_sequence = sq\<rparr> @ enc_tags sb seed sq (length grp) 0 grp"
  have l: "length (log_descriptor_raw sb seed sq grp) = BLOCK_SIZE" by (rule length_log_descriptor_raw [OF assms])
  have p: "length ?p \<le> BLOCK_SIZE - tail_bytes (js_features sb)"
    using group_room [OF assms] by (simp add: length_enc_tags_group [OF assms])
  have "take (length ?p) (log_descriptor sb seed sq grp) = take (length ?p) (log_descriptor_raw sb seed sq grp)"
    using l p by (auto simp: log_descriptor_def tail_bytes_def BLOCK_TAIL_BYTES_def hole_seal_prefix BLOCK_SIZE_def
        simp del: length_append)
  also have "\<dots> = ?p" by (simp add: log_descriptor_raw_def)
  finally have "log_descriptor sb seed sq grp = ?p @ drop (length ?p) (log_descriptor sb seed sq grp)"
    by (metis append_take_drop_id)
  then show ?thesis by (intro exI [of _ "drop (length ?p) (log_descriptor sb seed sq grp)"]) simp
qed

lemma parse_log_descriptor:
  assumes g: "group_ok sb grp" and t: "list_all (\<lambda>s. st_home s < target) grp"
  shows "parse_tags (log_descriptor sb seed sq grp) sb target =
    Inr (log_tags (js_features sb) seed sq (length grp) 0 grp)"
proof -
  obtain rest where d: "log_descriptor sb seed sq grp =
      header_bytes \<lparr>jh_type = Descriptor, jh_sequence = sq\<rparr> @ enc_tags sb seed sq (length grp) 0 grp @ rest"
    using log_descriptor_split [OF g] by blast
  have l: "length (log_descriptor sb seed sq grp) = BLOCK_SIZE" by (rule length_log_descriptor [OF g])
  have le: "12 + length (enc_tags sb seed sq (length grp) 0 grp) \<le> BLOCK_SIZE - tail_bytes (js_features sb)"
    unfolding length_enc_tags_group [OF g] using group_room [OF g] by linarith
  have "parse_tags_loop (log_descriptor sb seed sq grp) sb target (BLOCK_SIZE - tail_bytes (js_features sb))
      (length (header_bytes \<lparr>jh_type = Descriptor, jh_sequence = sq\<rparr>)) [] =
    Inr ([] @ log_tags (js_features sb) seed sq (length grp) 0 grp)"
    unfolding d
  proof (rule parse_tags_loop_enc)
    show "list_all (\<lambda>s. tag_fits (js_features sb) (st_home s) \<and> st_home s < target) grp"
      using g t by (auto simp: group_ok_def list_all_iff)
  qed (use g le in \<open>auto simp: group_ok_def BLOCK_SIZE_def USIZE_LIMIT_def\<close>)
  then show ?thesis
    using l by (auto simp: parse_tags_def tail_bytes_def BLOCK_TAIL_BYTES_def BLOCK_SIZE_def)
qed

section \<open>Commit blocks\<close>

definition log_commit :: "jsuperblock \<Rightarrow> u32 \<Rightarrow> bytes" where
  "log_commit sb sq =
     (let blk = header_bytes \<lparr>jh_type = Commit, jh_sequence = sq\<rparr> @ replicate (BLOCK_SIZE - 12) 0 in
      if ft_checksum (js_features sb) = V3 then hole_seal (checksum_seed (js_uuid sb)) 16 blk else blk)"

lemma length_log_commit [simp]: "length (log_commit sb sq) = BLOCK_SIZE"
  by (simp add: log_commit_def hole_seal_def BLOCK_SIZE_def Let_def)

lemma encode_commit_ok: "encode_commit sb sq = Inr (log_commit sb sq)"
  by (simp add: encode_commit_def header_encode_into_ok BLOCK_SIZE_def commit_checksum_hole log_commit_def
      hole_seal_def Let_def)

lemma log_commit_header: "header_parse (log_commit sb sq) = Inr \<lparr>jh_type = Commit, jh_sequence = sq\<rparr>"
proof -
  have "take 12 (log_commit sb sq) = header_bytes \<lparr>jh_type = Commit, jh_sequence = sq\<rparr>"
    by (simp add: log_commit_def hole_seal_prefix BLOCK_SIZE_def Let_def)
  then show ?thesis by (simp add: header_parse_Inr BLOCK_SIZE_def)
qed

lemma log_commit_parse:
  "is_ok (commit_header_parse (log_commit sb sq) (js_features sb) sq (checksum_seed (js_uuid sb)))"
proof -
  have "hole_ok (checksum_seed (js_uuid sb)) 16 (log_commit sb sq)" if "ft_checksum (js_features sb) = V3"
    unfolding log_commit_def Let_def if_P [OF that]
    by (rule hole.verify_seal) (simp add: BLOCK_SIZE_def)
  then show ?thesis
    by (subst commit_header_parse_Inr [where n = BLOCK_SIZE]) (simp_all add: log_commit_header BLOCK_SIZE_def)
qed

section \<open>The whole log\<close>

lemma chunks_Nil [simp]: "chunks n [] = []"
  by (subst chunks.simps) simp

lemma chunks_step: "0 < n \<Longrightarrow> xs \<noteq> [] \<Longrightarrow> chunks n xs = take n xs # chunks n (drop n xs)"
  by (subst chunks.simps) simp

lemma chunks_laws:
  assumes "0 < n"
  shows "concat (chunks n xs) = xs \<and> (\<forall>g\<in>set (chunks n xs). g \<noteq> [] \<and> length g \<le> n) \<and>
    length (chunks n xs) = (length xs + (n - 1)) div n"
  using assms
proof (induction n xs rule: chunks.induct)
  case (1 n xs)
  show ?case
  proof (cases "xs = []")
    case True
    then show ?thesis using 1(2) by simp
  next
    case False
    note IH = 1(1) [OF _ 1(2)]
    have c: "\<not> (xs = [] \<or> n = 0)" using False 1(2) by simp
    have "length (chunks n (drop n xs)) + 1 = (length xs + (n - 1)) div n"
    proof (cases "length xs \<le> n")
      case True
      then have "n \<le> length xs + (n - 1)" "length xs + (n - 1) < 2 * n"
        using False 1(2) by (cases xs; simp)+
      then have "(length xs + (n - 1)) div n = 1" using 1(2) by (intro div_nat_eqI) auto
      then show ?thesis using True by simp
    next
      case f: False
      have "length (chunks n (drop n xs)) = (length xs - n + (n - 1)) div n" using IH [OF c] by simp
      also have "length xs - n + (n - 1) = length xs + (n - 1) - n" using f by simp
      finally show ?thesis using f 1(2) by (simp add: le_div_geq)
    qed
    then show ?thesis using IH [OF c] chunks_step [OF 1(2) False] False 1(2) by auto
  qed
qed

definition log_blocks :: "jsuperblock \<Rightarrow> u32 \<Rightarrow> u32 \<Rightarrow> staged_block list list \<Rightarrow> bytes list" where
  "log_blocks sb seed sq groups = concat (map (\<lambda>g. log_descriptor sb seed sq g # map log_data g) groups)"

lemma length_log_blocks: "length (log_blocks sb seed sq groups) = length groups + length (concat groups)"
  by (induction groups) (auto simp: log_blocks_def)

lemma encode_groups_ok:
  "list_all (group_ok sb) groups \<Longrightarrow> encode_groups sb seed sq groups = Inr (log_blocks sb seed sq groups)"
  by (induction groups) (auto simp: log_blocks_def encode_group_ok)

definition per_descriptor :: "features \<Rightarrow> nat" where
  "per_descriptor fts = (BLOCK_SIZE - (HEADER_BYTES + 16 + tail_bytes fts)) div tag_bytes fts"

lemma tags_per_descriptor_ok:
  "tags_per_descriptor fts = Inr (per_descriptor fts)" "0 < per_descriptor fts"
  "28 + per_descriptor fts * tag_bytes fts + tail_bytes fts \<le> BLOCK_SIZE"
  by (auto simp: tags_per_descriptor_def per_descriptor_def tag_bytes_def tail_bytes_def BLOCK_TAIL_BYTES_def
      HEADER_BYTES_def BLOCK_SIZE_def split: ChecksumMode.split bool.split)

lemma encode_tags_fits:
  "encode_tags sb seed sq n i off desc ss = Inr r \<Longrightarrow> list_all (\<lambda>s. tag_fits (js_features sb) (st_home s)) ss"
proof (induction ss arbitrary: i off desc r)
  case (Cons s ss)
  then show ?case
    by (auto simp: rbind_eq_Inr Let_def simp del: write_range_ok
        dest!: encode_tag_fields_fits split: if_splits)
qed simp

lemma encode_groups_fits:
  "encode_groups sb seed sq groups = Inr r \<Longrightarrow>
   list_all (\<lambda>s. tag_fits (js_features sb) (st_home s)) (concat groups)"
proof (induction groups arbitrary: r)
  case (Cons g gs)
  then obtain out rest where "encode_group sb seed sq g = Inr out" "encode_groups sb seed sq gs = Inr rest"
    by (auto simp: rbind_eq_Inr)
  then show ?case using Cons.IH by (auto simp: encode_group_def rbind_eq_Inr dest!: encode_tags_fits)
qed simp

definition log_groups :: "jsuperblock \<Rightarrow> (PBlockId, staged_block) btree \<Rightarrow> staged_block list list" where
  "log_groups sb staged = chunks (per_descriptor (js_features sb)) (map snd staged)"

definition staged_all_ok :: "(PBlockId, staged_block) btree \<Rightarrow> bool" where
  "staged_all_ok staged \<longleftrightarrow> list_all (\<lambda>(k, s). st_home s = k \<and> staged_ok s) staged"

lemma concat_log_groups: "concat (log_groups sb staged) = map snd staged"
  using chunks_laws [OF tags_per_descriptor_ok(2), of "js_features sb" "map snd staged"]
  by (simp only: log_groups_def)

lemma log_groups_ok:
  assumes "staged_all_ok staged" "length (js_uuid sb) = 16"
    and "list_all (\<lambda>s. tag_fits (js_features sb) (st_home s)) (map snd staged)"
  shows "list_all (group_ok sb) (log_groups sb staged)"
  unfolding list_all_iff
proof
  fix g assume g: "g \<in> set (log_groups sb staged)"
  let ?per = "per_descriptor (js_features sb)"
  have l: "g \<noteq> []" "length g \<le> ?per"
    using g chunks_laws [OF tags_per_descriptor_ok(2)] by (auto simp: log_groups_def)
  have sub: "set g \<subseteq> set (map snd staged)"
    using g concat_log_groups [of sb staged] by (metis UN_upper set_concat)
  have "length g * tag_bytes (js_features sb) \<le> ?per * tag_bytes (js_features sb)" using l(2) by simp
  then have "28 + length g * tag_bytes (js_features sb) + tail_bytes (js_features sb) \<le> BLOCK_SIZE"
    using tags_per_descriptor_ok(3) [of "js_features sb"] by linarith
  moreover have "staged_ok s" "tag_fits (js_features sb) (st_home s)" if s: "s \<in> set g" for s
  proof -
    obtain k where "(k, s) \<in> set staged" using s sub by force
    then show "staged_ok s" "tag_fits (js_features sb) (st_home s)"
      using assms by (auto simp: list_all_iff staged_all_ok_def)
  qed
  ultimately show "group_ok sb g"
    using l assms(2) by (auto simp: group_ok_def list_all_iff)
qed

lemma encode_log_Inr:
  assumes "encode_log sb sq staged = Inr enc" "staged_all_ok staged" "length (js_uuid sb) = 16"
  shows "list_all (group_ok sb) (log_groups sb staged) \<and>
    enc = log_blocks sb (checksum_seed (js_uuid sb)) sq (log_groups sb staged)"
proof -
  have e: "encode_groups sb (checksum_seed (js_uuid sb)) sq (log_groups sb staged) = Inr enc"
    using assms(1) by (simp add: encode_log_def tags_per_descriptor_ok log_groups_def)
  from encode_groups_fits [OF e] have ok: "list_all (group_ok sb) (log_groups sb staged)"
    using log_groups_ok [OF assms(2,3)] by (simp add: concat_log_groups)
  then show ?thesis using e encode_groups_ok [OF ok] by simp
qed

lemma encode_log_ok:
  assumes "staged_all_ok staged" "length (js_uuid sb) = 16"
    and "list_all (\<lambda>s. tag_fits (js_features sb) (st_home s)) (map snd staged)"
  shows "encode_log sb sq staged = Inr (log_blocks sb (checksum_seed (js_uuid sb)) sq (log_groups sb staged))"
  using encode_groups_ok [OF log_groups_ok [OF assms]]
  by (simp add: encode_log_def tags_per_descriptor_ok log_groups_def)

lemma required_log_blocks_eq:
  assumes "n < 2 ^ 32"
  shows "required_log_blocks n fts = Inr (n + (n + (per_descriptor fts - 1)) div per_descriptor fts + 1)"
proof -
  let ?p = "per_descriptor fts"
  have "?p \<le> BLOCK_SIZE" unfolding per_descriptor_def by (meson diff_le_self div_le_dividend le_trans)
  then have "n + (?p - 1) < 2 ^ 33" using assms by (simp add: BLOCK_SIZE_def)
  moreover have "(n + (?p - 1)) div ?p \<le> n + (?p - 1)" by (rule div_le_dividend)
  ultimately have "n + (n + (?p - 1)) div ?p < 2 ^ 32 + 2 ^ 33" "n + (?p - 1) < 2 ^ 33"
    using assms by - linarith+
  then show ?thesis
    using assms by (simp add: required_log_blocks_def tags_per_descriptor_ok usize_checked_add_def USIZE_LIMIT_def Let_def)
qed

lemma log_length_required:
  assumes "required_log_blocks (length staged) (js_features sb) = Inr needed" "length staged < 2 ^ 32"
  shows "length (log_blocks sb seed sq (log_groups sb staged)) + 1 = needed"
  using assms chunks_laws [OF tags_per_descriptor_ok(2), of "js_features sb" "map snd staged"]
  by (simp add: required_log_blocks_eq length_log_blocks concat_log_groups) (simp add: log_groups_def)

lemma unescape_log_data:
  assumes "staged_ok s"
  shows "(if log_flags n i s AND FLAG_ESCAPE \<noteq> 0 then write_range (log_data s) 0 (be32 JBD2_MAGIC)
     else Inr (log_data s)) = Inr (st_image s)"
proof (cases "log_escapes s")
  case True
  have l: "length (st_image s) = 4096" using assms by (simp add: staged_ok_def BLOCK_SIZE_def)
  have "write_range (log_data s) 0 (be32 JBD2_MAGIC) = Inr (splice (log_data s) 0 (be32 JBD2_MAGIC))"
    using l True by (simp add: log_data_def)
  also have "splice (log_data s) 0 (be32 JBD2_MAGIC) = st_image s"
    using True l
    by (simp add: log_data_def splice_def log_escapes_def)
       (metis append_take_drop_id)
  finally show ?thesis using True by (simp add: log_flags_tests)
next
  case False
  then show ?thesis by (simp add: log_flags_tests log_data_def)
qed

lemma log_data_no_header:
  assumes "staged_ok s"
  shows "header_parse (log_data s) \<noteq> Inr h"
proof
  assume "header_parse (log_data s) = Inr h"
  then have "take 4 (take 12 (log_data s)) = take 4 (header_bytes h)" by (simp add: header_parse_Inr)
  then have t: "take 4 (log_data s) = be32 JBD2_MAGIC" by (simp add: header_bytes_def)
  show False
  proof (cases "log_escapes s")
    case True
    then have "take 4 (log_data s) = replicate 4 0" by (simp add: log_data_def splice_def)
    then have "be32 JBD2_MAGIC = replicate 4 0" using t by simp
    then have "of_be (replicate 4 0) = JBD2_MAGIC" by (metis of_be_roundtrip(2))
    moreover have "of_be (replicate 4 0) = (0 :: u32)" by (simp add: of_be_def numeral_eq_Suc)
    ultimately show False by (simp add: JBD2_MAGIC_def)
  next
    case False
    then show False using t by (simp add: log_data_def log_escapes_def)
  qed
qed

section \<open>Updates of the journal superblock\<close>

lemma js_of_features [simp]: "js_features (js_of bs f) = f"
  by (simp add: js_of_def)

lemma jsuperblock_parse_take:
  assumes "1024 \<le> length bs"
  shows "jsuperblock_parse (take 1024 bs) n = jsuperblock_parse bs n"
proof -
  have h: "header_parse (take 1024 bs) = header_parse bs"
    using header_parse_prefix [of "take 1024 bs"] header_parse_prefix [of bs] assms by (simp add: min_def)
  have b: "be32_of (take 1024 bs) k = be32_of bs k" if "k \<le> 1020" for k
    using that by (simp add: be32_of_take)
  have s: "slice (take 1024 bs) 48 16 = slice bs 48 16" by (simp add: slice_take)
  have c: "js_csum_ok (take 1024 bs) f = js_csum_ok bs f" for f
    using assms by (simp add: js_csum_ok_def sb_stored_csum_ok_hole)
  have j: "js_of (take 1024 bs) f = js_of bs f" for f
    by (simp add: js_of_def b s)
  have l: "1024 \<le> length (take 1024 bs)" using assms by simp
  have e: "take 1024 bs ! 80 = bs ! 80" by simp
  have b': "be32_of (take 1024 bs) 12 = be32_of bs 12" "be32_of (take 1024 bs) 36 = be32_of bs 36"
    "be32_of (take 1024 bs) 40 = be32_of bs 40" "be32_of (take 1024 bs) 44 = be32_of bs 44"
    by (simp_all add: b)
  show ?thesis
    unfolding jsuperblock_parse_eq [OF l] jsuperblock_parse_eq [OF assms] h b' c j e by (rule refl)
qed

definition sb_updated :: "bytes \<Rightarrow> features \<Rightarrow> u32 \<Rightarrow> u32 \<Rightarrow> bytes" where
  "sb_updated img fts sq start =
     (let r = splice (splice img 24 (be32 sq)) 28 (be32 start) in
      if ft_checksum fts = V3 then hole_seal (-1) 252 r else r)"

lemma length_sb_updated [simp]: "length img = 1024 \<Longrightarrow> length (sb_updated img fts sq start) = 1024"
  by (simp add: sb_updated_def hole_seal_def Let_def)

lemma hole_seal_idem_splice:
  "length v = 4 \<Longrightarrow> a + 4 \<le> length bs \<Longrightarrow> hole_seal seed a (splice bs a v) = hole_seal seed a bs"
  by (simp add: hole_seal_def hole_csum_splice splice_splice_same)

lemma update_superblock_ok:
  assumes "length img = 1024"
  shows "update_superblock img sq start sb = Inr (sb_updated img (js_features sb) sq start)"
proof -
  let ?r = "splice (splice img 24 (be32 sq)) 28 (be32 start)"
  have l: "length ?r = 1024" using assms by simp
  have "splice (splice ?r 252 (replicate 4 0)) 252 (be32 (hole_csum (-1) 252 (splice ?r 252 (replicate 4 0)))) =
      hole_seal (-1) 252 ?r"
    using l by (simp add: hole_seal_def hole_csum_splice splice_splice_same)
  then show ?thesis
    using assms l by (simp add: update_superblock_def sb_updated_def superblock_checksum_hole Let_def)
qed

lemma splice_append_left: "off + length ys \<le> length xs \<Longrightarrow> splice (xs @ zs) off ys = splice xs off ys @ zs"
  by (simp add: splice_def)

lemma clean_superblock_ok:
  assumes "1024 \<le> length raw"
  shows "clean_superblock raw fts q = Inr (sb_updated (take 1024 raw) fts (q + 1) 0 @ drop 1024 raw)"
proof -
  let ?i = "take 1024 raw" and ?d = "drop 1024 raw"
  let ?r = "splice (splice ?i 24 (be32 (q + 1))) 28 (be32 0)"
  have raw: "raw = ?i @ ?d" and li: "length ?i = 1024" using assms by simp_all
  have l: "length ?r = 1024" using li by simp
  have p1: "put_be32 raw 24 (q + 1) = Inr (splice ?i 24 (be32 (q + 1)) @ ?d)"
    using assms li by (subst raw) (simp add: put_be32_ok usize_small splice_append_left del: append_take_drop_id)
  have p2: "put_be32 (splice ?i 24 (be32 (q + 1)) @ ?d) 28 0 = Inr (?r @ ?d)"
    using li by (simp add: put_be32_ok usize_small splice_append_left)
  have p3: "put_be32 (?r @ ?d) 252 v = Inr (splice ?r 252 (be32 v) @ ?d)" for v
    using l by (simp add: put_be32_ok usize_small splice_append_left)
  have p4: "put_be32 (splice ?r 252 (be32 0) @ ?d) 252 v = Inr (splice ?r 252 (be32 v) @ ?d)" for v
    using l by (simp add: put_be32_ok usize_small splice_append_left splice_splice_same)
  have c: "superblock_checksum (splice ?r 252 (be32 0) @ ?d) = Inr (hole_csum (-1) 252 ?r)"
    using l by (simp add: superblock_checksum_hole hole_csum_splice)
  show ?thesis
    unfolding clean_superblock_def p1 rbind.simps p2 p3 c p4 sb_updated_def hole_seal_def Let_def by simp
qed

lemma sb_updated_slice:
  assumes "length img = 1024" "off + n \<le> 1024" "off + n \<le> 24 \<or> 32 \<le> off" "off + n \<le> 252 \<or> 256 \<le> off"
  shows "slice (sb_updated img fts sq start) off n = slice img off n"
proof -
  let ?r = "splice (splice img 24 (be32 sq)) 28 (be32 start)"
  have r: "slice ?r off n = slice img off n"
    using assms by (subst slice_splice_disjoint; (subst slice_splice_disjoint)?; auto)
  show ?thesis
  proof (cases "ft_checksum fts = V3")
    case True
    have "slice (hole_seal (-1) 252 ?r) off n = slice ?r off n"
      unfolding hole_seal_def using assms by (subst slice_splice_disjoint) auto
    then show ?thesis using True r by (simp add: sb_updated_def Let_def)
  qed (simp add: sb_updated_def Let_def r)
qed

lemma sb_updated_fields:
  assumes "length img = 1024"
  shows "be32_of (sb_updated img fts sq start) 24 = sq" "be32_of (sb_updated img fts sq start) 28 = start"
proof -
  let ?r = "splice (splice img 24 (be32 sq)) 28 (be32 start)"
  have "slice ?r 24 4 = be32 sq" "slice ?r 28 4 = be32 start"
    using assms by (simp_all add: slice_splice_disjoint)
  moreover have "slice (hole_seal (-1) 252 ?r) k 4 = slice ?r k 4" if "k \<le> 28" for k
    unfolding hole_seal_def using assms that by (subst slice_splice_disjoint) auto
  ultimately show "be32_of (sb_updated img fts sq start) 24 = sq" "be32_of (sb_updated img fts sq start) 28 = start"
    by (simp_all add: be32_of_def sb_updated_def Let_def)
qed

text \<open>The updated image describes the same journal with the new sequence number and start.\<close>

lemma sb_updated_parse:
  assumes p: "jsuperblock_parse img n = Inr sb" and l: "length img = 1024"
    and r: "ring_ok (sb\<lparr>js_start := start\<rparr>)"
  shows "jsuperblock_parse (sb_updated img (js_features sb) sq start) n = Inr (sb\<lparr>js_sequence := sq, js_start := start\<rparr>)"
proof -
  let ?u = "sb_updated img (js_features sb) sq start"
  note q = p [unfolded jsuperblock_parse_Inr]
  have lu: "length ?u = 1024" using l by simp
  have w: "be32_of ?u k = be32_of img k" if "k + 4 \<le> 24 \<or> 32 \<le> k" "k + 4 \<le> 252" for k
    using that sb_updated_slice [OF l, of k 4] by (simp add: be32_of_def)
  have "slice ?u 80 1 ! 0 = slice img 80 1 ! 0" using sb_updated_slice [OF l, of 80 1] by simp
  then have b80: "?u ! 80 = img ! 80" using l lu nth_slice [of 0 1 80 img] nth_slice [of 0 1 80 ?u] by simp
  have h: "header_parse ?u = header_parse img"
    using sb_updated_slice [OF l, of 0 12 "js_features sb" sq start] l lu
      header_parse_prefix [of ?u] header_parse_prefix [of img] by (simp add: slice_0)
  have ok: "js_csum_ok ?u (js_features sb)"
  proof (cases "ft_checksum (js_features sb) = V3")
    case True
    have "hole_ok (-1) 252 ?u"
      using True l by (simp add: sb_updated_def Let_def) (rule hole.verify_seal, simp)
    then show ?thesis using True q lu b80 by (auto simp: js_csum_ok_def sb_stored_csum_ok_hole)
  next
    case False
    then show ?thesis using q b80 by (simp add: js_csum_ok_def)
  qed
  have sb: "sb = js_of img (js_features sb)" using q by blast
  have "js_of ?u (js_features sb) = (js_of img (js_features sb))\<lparr>js_sequence := sq, js_start := start\<rparr>"
    using sb_updated_fields [OF l] sb_updated_slice [OF l, of 48 16] w b80
    by (simp add: js_of_def)
  then have new: "sb\<lparr>js_sequence := sq, js_start := start\<rparr> = js_of ?u (js_features sb)" using sb by metis
  have ring: "ring_ok (sb\<lparr>js_sequence := sq, js_start := start\<rparr>)" using r by (simp add: ring_ok_def)
  show ?thesis
    unfolding jsuperblock_parse_Inr using q lu h w ok new ring by simp
qed

lemma sb_updated_twice:
  "length img = 1024 \<Longrightarrow> sb_updated (sb_updated img fts a b) fts c d = sb_updated img fts c d"
proof -
  assume l: "length img = 1024"
  have s: "splice (splice (splice (splice img 24 a) 28 b) 24 c) 28 d = splice (splice img 24 c) 28 d"
    if "length a = 4" "length b = 4" "length c = 4" "length d = 4" for a b c d :: bytes
    using l that by (intro nth_equalityI) (auto simp: nth_splice)
  have t: "splice (splice (splice x 252 v) 24 c) 28 d = splice (splice (splice x 24 c) 28 d) 252 v"
    if "length x = 1024" "length v = 4" "length c = 4" "length d = 4" for x c d v :: bytes
    using that by (intro nth_equalityI) (auto simp: nth_splice)
  show ?thesis
    using l by (simp add: sb_updated_def Let_def s hole_seal_def t hole_csum_splice splice_splice_same)
qed

end
