(* ===== verification/Journal_Walk.thy ===== *)
theory Journal_Walk
  imports Journal_Log
begin

text \<open>
  Recovery of the log of one transaction, on the in-memory device: what the three passes of
  \<^verbatim>\<open>walk\<close> (\<^verbatim>\<open>src/ext4/journal_recovery.rs\<close>) do with a log written by \<^verbatim>\<open>commit_journal\<close>
  (\<^verbatim>\<open>src/ext4/journal_transaction.rs\<close>), complete or cut off by a crash.
\<close>

section \<open>Positions\<close>

definition nxt :: "jsuperblock \<Rightarrow> u32 \<Rightarrow> u32" where
  "nxt sb p = (if p + 1 = js_max_len sb then js_first sb else p + 1)"

lemma advance_nxt: "ring_ok sb \<Longrightarrow> pos_ok sb p \<Longrightarrow> advance sb p = Inr (nxt sb p)"
  by (simp add: advance_ok nxt_def)

lemma nxt_ok: "ring_ok sb \<Longrightarrow> pos_ok sb p \<Longrightarrow> pos_ok sb (nxt sb p)"
  using advance_ok(2) advance_nxt by blast

lemma nxt_iter_ok: "ring_ok sb \<Longrightarrow> pos_ok sb p \<Longrightarrow> pos_ok sb ((nxt sb ^^ n) p)"
  by (induction n) (auto intro: nxt_ok)

lemma ring_take_iter:
  "ring_ok sb \<Longrightarrow> pos_ok sb p \<Longrightarrow> ring_take sb p n = Inr (map (\<lambda>j. (nxt sb ^^ j) p) [0..<n])"
proof (induction n arbitrary: p)
  case (Suc n)
  have nx: "ring_next sb p = Inr (nxt sb p)"
    using advance_nxt [OF Suc.prems] by (simp add: ring_next_def advance_def)
  have "map (\<lambda>j. (nxt sb ^^ j) p) [0..<Suc n] = p # map (\<lambda>j. (nxt sb ^^ j) (nxt sb p)) [0..<n]"
    by (simp add: upt_conv_Cons map_Suc_upt [symmetric] funpow_swap1 del: upt_Suc)
  then show ?case
    using Suc.IH [OF Suc.prems(1) nxt_ok [OF Suc.prems]] nx by simp
qed simp

text \<open>The offset of a position in the ring; \<open>nxt\<close> is its successor modulo the ring size.\<close>

definition ring_off :: "jsuperblock \<Rightarrow> u32 \<Rightarrow> nat" where
  "ring_off sb p = unat p - unat (js_first sb)"

lemma pos_ok_unat: "pos_ok sb p \<longleftrightarrow> unat (js_first sb) \<le> unat p \<and> unat p < unat (js_max_len sb)"
  by (simp add: pos_ok_def word_le_nat_alt word_less_nat_alt)

lemma ring_off_lt: "pos_ok sb p \<Longrightarrow> ring_off sb p < ring_size sb"
  by (simp add: ring_off_def ring_size_def pos_ok_unat) linarith

lemma ring_off_inj: "pos_ok sb p \<Longrightarrow> pos_ok sb q \<Longrightarrow> ring_off sb p = ring_off sb q \<Longrightarrow> p = q"
  by (auto simp: ring_off_def pos_ok_unat unat_inject [symmetric])

lemma unat_Suc_pos: "pos_ok sb p \<Longrightarrow> unat (p + 1) = unat p + 1"
  using unat_add_lt [of p 1] unat_lt [of "js_max_len sb"] by (simp add: pos_ok_unat)

lemma ring_off_nxt:
  assumes "ring_ok sb" "pos_ok sb p"
  shows "ring_off sb (nxt sb p) = (ring_off sb p + 1) mod ring_size sb"
proof (cases "p + 1 = js_max_len sb")
  case True
  then have "unat (js_max_len sb) = unat p + 1" using unat_Suc_pos [OF assms(2)] by simp
  then have "ring_off sb p + 1 = ring_size sb" using assms(2) by (simp add: ring_off_def ring_size_def pos_ok_unat)
  then show ?thesis using True by (simp add: nxt_def ring_off_def)
next
  case False
  then have "unat p + 1 \<noteq> unat (js_max_len sb)" using unat_Suc_pos [OF assms(2)] unat_inject by metis
  then have "ring_off sb p + 1 < ring_size sb"
    using assms(2) by (simp add: ring_off_def ring_size_def pos_ok_unat) linarith
  then show ?thesis
    using False assms(2) unat_Suc_pos [OF assms(2)] by (simp add: nxt_def ring_off_def pos_ok_unat Suc_diff_le)
qed

lemma ring_off_iter:
  "ring_ok sb \<Longrightarrow> pos_ok sb p \<Longrightarrow> ring_off sb ((nxt sb ^^ n) p) = (ring_off sb p + n) mod ring_size sb"
proof (induction n)
  case 0
  then show ?case using ring_off_lt [of sb p] by simp
next
  case (Suc n)
  then show ?case using ring_off_nxt [OF Suc.prems(1) nxt_iter_ok [OF Suc.prems, of n]]
    by (simp add: mod_Suc_eq)
qed

lemma ring_size_pos: "ring_ok sb \<Longrightarrow> 0 < ring_size sb"
  by (simp add: ring_ok_def ring_size_def word_less_nat_alt)

lemma add_mod_inj: "(a + i) mod n = (a + j) mod n \<Longrightarrow> i < n \<Longrightarrow> j < n \<Longrightarrow> i = (j :: nat)"
proof (induction i j rule: linorder_wlog)
  case (le i j)
  then have "n dvd (a + j) - (a + i)" using mod_eq_dvd_iff_nat [of "a + i" "a + j" n] by simp
  then have "n dvd j - i" by simp
  then show ?case using le by (metis diff_is_0_eq dvd_imp_le le_antisym less_imp_diff_less not_le zero_less_iff_neq_zero)
qed simp

lemma nxt_iter_inj:
  assumes "ring_ok sb" "pos_ok sb p" "i < ring_size sb" "j < ring_size sb" "(nxt sb ^^ i) p = (nxt sb ^^ j) p"
  shows "i = j"
proof -
  have "(ring_off sb p + i) mod ring_size sb = (ring_off sb p + j) mod ring_size sb"
    using ring_off_iter [OF assms(1,2)] assms(5) by metis
  then show ?thesis using assms(3,4) by (rule add_mod_inj)
qed

section \<open>The contents of the log\<close>

abbreviation mem_io :: "PBlockId list \<Rightarrow> PBlockId set \<Rightarrow> u64 \<Rightarrow> block_mem recovery_io" where
  "mem_io jb js fs \<equiv> recovery_device mem_ops jb js fs"

text \<open>\<open>J\<close> gives the contents of the log by position.\<close>

definition log_holds :: "block_mem \<Rightarrow> PBlockId list \<Rightarrow> jsuperblock \<Rightarrow> (u32 \<Rightarrow> bytes) \<Rightarrow> bool" where
  "log_holds m jb sb J \<longleftrightarrow> (\<forall>p. pos_ok sb p \<longrightarrow>
     unat p < length jb \<and> unat (jb ! unat p) < length m \<and> m ! unat (jb ! unat p) = J p \<and>
     length (J p) = BLOCK_SIZE)"

lemma log_holds_read:
  "log_holds m jb sb J \<Longrightarrow> pos_ok sb p \<Longrightarrow>
   rio_read_journal (mem_io jb js fs) m p = Inr (J p) \<and> check_size (mem_io jb js fs) (J p) = Inr ()"
  by (auto simp: log_holds_def recovery_device_def rd_journal_block_def mem_ops_def mem_read_block_def
      block_new_def check_size_def)

lemma log_holds_write:
  assumes "log_holds m jb sb J" "h \<notin> set jb"
  shows "log_holds (m[unat h := x]) jb sb J"
  unfolding log_holds_def
proof (intro allI impI)
  fix p assume p: "pos_ok sb p"
  then have "jb ! unat p \<in> set jb" using assms(1) by (simp add: log_holds_def)
  then have "unat (jb ! unat p) \<noteq> unat h" using assms(2) unat_inject by metis
  then show "unat p < length jb \<and> unat (jb ! unat p) < length (m[unat h := x]) \<and>
      m[unat h := x] ! unat (jb ! unat p) = J p \<and> length (J p) = BLOCK_SIZE"
    using assms(1) p by (simp add: log_holds_def)
qed

definition log_at :: "jsuperblock \<Rightarrow> (u32 \<Rightarrow> bytes) \<Rightarrow> u32 \<Rightarrow> bytes list \<Rightarrow> bool" where
  "log_at sb J p blocks \<longleftrightarrow> (\<forall>j < length blocks. J ((nxt sb ^^ j) p) = blocks ! j)"

lemma log_at_Nil [simp]: "log_at sb J p []"
  by (simp add: log_at_def)

lemma log_at_Cons: "log_at sb J p (b # bs) \<longleftrightarrow> J p = b \<and> log_at sb J (nxt sb p) bs"
  by (auto simp: log_at_def less_Suc_eq_0_disj funpow_swap1)

lemma log_at_append:
  "log_at sb J p (xs @ ys) \<longleftrightarrow> log_at sb J p xs \<and> log_at sb J ((nxt sb ^^ length xs) p) ys"
  by (induction xs arbitrary: p) (auto simp: log_at_Cons funpow_swap1)

text \<open>The blocks the walk has gone past, its effect on position and count.\<close>

definition walked :: "jsuperblock \<Rightarrow> nat \<Rightarrow> 'i walk_state \<Rightarrow> 'i walk_state" where
  "walked sb n s = s\<lparr>ws_pos := (nxt sb ^^ n) (ws_pos s), ws_consumed := ws_consumed s + n\<rparr>"

lemma walked_simps [simp]:
  "ws_io (walked sb n s) = ws_io s" "ws_invalid (walked sb n s) = ws_invalid s"
  "ws_revokes (walked sb n s) = ws_revokes s" "ws_stats (walked sb n s) = ws_stats s"
  "ws_pos (walked sb n s) = (nxt sb ^^ n) (ws_pos s)" "ws_consumed (walked sb n s) = ws_consumed s + n"
  "walked sb 0 s = s"
  by (simp_all add: walked_def)

lemma walked_walked: "walked sb m (walked sb n s) = walked sb (n + m) s"
  by (simp add: walked_def funpow_add add.commute [of n m])

lemma walked_update [simp]:
  "walked sb n (s\<lparr>ws_invalid := b\<rparr>) = (walked sb n s)\<lparr>ws_invalid := b\<rparr>"
  "walked sb n (s\<lparr>ws_io := d\<rparr>) = (walked sb n s)\<lparr>ws_io := d\<rparr>"
  "walked sb n (s\<lparr>ws_stats := st\<rparr>) = (walked sb n s)\<lparr>ws_stats := st\<rparr>"
  by (simp_all add: walked_def)

definition tag_bad :: "u32 \<Rightarrow> u32 \<Rightarrow> tag \<Rightarrow> bytes \<Rightarrow> bool" where
  "tag_bad seed sq t data \<longleftrightarrow>
     (case tg_checksum t of None \<Rightarrow> False | Some expected \<Rightarrow> tag_checksum seed sq data \<noteq> expected)"

lemma step_block_walked:
  "ring_ok sb \<Longrightarrow> pos_ok sb (ws_pos s) \<Longrightarrow> step_block sb s f = f (walked sb 1 s)"
  by (simp add: step_block_def advance_nxt walked_def)

lemma walk_tag_read:
  assumes "ring_ok sb" "log_holds (ws_io s) jb sb J" "pos_ok sb (ws_pos s)" "ws_consumed s < ring_size sb"
  shows "walk_tag (mem_io jb js fs) sb seed pass sq t s =
    (if tag_bad seed sq t (J (ws_pos s)) \<and> pass \<noteq> ScanPass then (walked sb 1 s, Return (Inl (Err EIO)))
     else
       let s' = (if tag_bad seed sq t (J (ws_pos s)) then (walked sb 1 s)\<lparr>ws_invalid := True\<rparr> else walked sb 1 s) in
       if pass = ReplayPass \<and> tg_flags t AND FLAG_DELETED = 0
       then replay_block (mem_io jb js fs) sq t (J (ws_pos s)) s' else (s', Next))"
  using assms(4) log_holds_read [OF assms(2,3), of js fs] step_block_walked [OF assms(1,3)]
  by (simp add: walk_tag_def tag_bad_def)

text \<open>The scan goes over any data; it only notes whether the checksums match.\<close>

lemma walk_tags_scan:
  assumes "ring_ok sb" "log_holds (ws_io s) jb sb J" "pos_ok sb (ws_pos s)"
    and "ws_consumed s + length ts \<le> ring_size sb"
  shows "\<exists>b. walk_tags (mem_io jb js fs) sb seed ScanPass sq ts s =
    ((walked sb (length ts) s)\<lparr>ws_invalid := b\<rparr>, Next)"
  using assms
proof (induction ts arbitrary: s)
  case Nil
  then show ?case by (intro exI [of _ "ws_invalid s"]) simp
next
  case (Cons t ts)
  let ?b = "tag_bad seed sq t (J (ws_pos s)) \<or> ws_invalid s"
  let ?s = "(walked sb 1 s)\<lparr>ws_invalid := ?b\<rparr>"
  have "walk_tag (mem_io jb js fs) sb seed ScanPass sq t s = (?s, Next)"
    using walk_tag_read [OF Cons.prems(1-3), of js fs seed ScanPass sq t] Cons.prems(4)
    by (auto simp: Let_def)
  moreover have "\<exists>b. walk_tags (mem_io jb js fs) sb seed ScanPass sq ts ?s =
      ((walked sb (length ts) ?s)\<lparr>ws_invalid := b\<rparr>, Next)"
    by (rule Cons.IH) (use Cons.prems nxt_ok in auto)
  ultimately show ?case by (auto simp: walked_walked)
qed

text \<open>On the data the transaction wrote, the checksums match; the replay writes the staged images.\<close>

definition write_home_images :: "block_mem \<Rightarrow> staged_block list \<Rightarrow> block_mem" where
  "write_home_images m ss = foldl (\<lambda>m s. m[unat (st_home s) := st_image s]) m ss"

definition pass_effect :: "pass \<Rightarrow> block_mem \<Rightarrow> staged_block list \<Rightarrow> block_mem" where
  "pass_effect pass m ss = (if pass = ReplayPass then write_home_images m ss else m)"

definition homes_ok :: "block_mem \<Rightarrow> PBlockId list \<Rightarrow> PBlockId set \<Rightarrow> u64 \<Rightarrow> staged_block list \<Rightarrow> bool" where
  "homes_ok m jb js fs ss \<longleftrightarrow> set jb \<subseteq> js \<and>
     list_all (\<lambda>s. st_home s \<notin> js \<and> st_home s < fs \<and> unat (st_home s) < length m \<and> staged_ok s) ss"

lemma log_tag_not_bad: "\<not> tag_bad seed sq (log_tag fts seed sq n i s) (log_data s)"
  by (simp add: tag_bad_def log_tag_def log_csum_def)

lemma replay_block_log:
  assumes "homes_ok (ws_io s) jb js fs [x]" "\<And>b. \<not> is_revoked (ws_revokes s) b sq"
  shows "\<exists>st. replay_block (mem_io jb js fs) sq (log_tag fts seed sq n i x) (log_data x) s =
    (s\<lparr>ws_io := (ws_io s)[unat (st_home x) := st_image x], ws_stats := st\<rparr>, Next)"
proof -
  have ok: "st_home x \<notin> js" "unat (st_home x) < length (ws_io s)" "staged_ok x"
    using assms(1) by (auto simp: homes_ok_def)
  have "rio_write_home (mem_io jb js fs) (ws_io s) (st_home x) (st_image x) =
      ((ws_io s)[unat (st_home x) := st_image x], Inr ())"
    using ok by (simp add: rd_write_image_def staged_ok_def mem_ops_def mem_write_block_def block_new_def)
  then show ?thesis
    using ok assms(2) unescape_log_data [OF ok(3), of n i]
    by (intro exI [of _ "(ws_stats s)\<lparr>rs_replayed := rs_replayed (ws_stats s) + 1\<rparr>"])
       (simp add: replay_block_def log_tag_def)
qed

lemma walk_tags_log:
  assumes "ring_ok sb" "log_holds (ws_io s) jb sb J" "pos_ok sb (ws_pos s)"
    and "ws_consumed s + length ss \<le> ring_size sb"
    and "log_at sb J (ws_pos s) (map log_data ss)" "homes_ok (ws_io s) jb js fs ss"
    and "\<And>b. \<not> is_revoked (ws_revokes s) b sq"
  shows "\<exists>st. walk_tags (mem_io jb js fs) sb seed pass sq (log_tags fts seed sq n i ss) s =
    ((walked sb (length ss) s)\<lparr>ws_io := pass_effect pass (ws_io s) ss, ws_stats := st\<rparr>, Next)"
  using assms
proof (induction ss arbitrary: s i)
  case Nil
  then show ?case
    by (intro exI [of _ "ws_stats s"]) (simp add: pass_effect_def write_home_images_def)
next
  case (Cons x ss)
  let ?t = "log_tag fts seed sq n i x"
  have J: "J (ws_pos s) = log_data x" using Cons.prems(5) by (simp add: log_at_Cons)
  let ?m = "pass_effect pass (ws_io s) [x]"
  have "\<exists>st. walk_tag (mem_io jb js fs) sb seed pass sq ?t s = ((walked sb 1 s)\<lparr>ws_io := ?m, ws_stats := st\<rparr>, Next)"
  proof (cases "pass = ReplayPass")
    case True
    have "homes_ok (ws_io (walked sb 1 s)) jb js fs [x]" using Cons.prems(6) by (simp add: homes_ok_def)
    from replay_block_log [OF this, of sq fts seed n i] Cons.prems(7) show ?thesis
      using walk_tag_read [OF Cons.prems(1-3), of js fs seed pass sq ?t] Cons.prems(4) True
      by (simp add: J log_tag_not_bad pass_effect_def write_home_images_def)
         (simp add: log_tag_def log_flags_tests J)
  next
    case False
    then show ?thesis
      using walk_tag_read [OF Cons.prems(1-3), of js fs seed pass sq ?t] Cons.prems(4)
      by (intro exI [of _ "ws_stats s"]) (simp add: J log_tag_not_bad pass_effect_def)
  qed
  then obtain st where w: "walk_tag (mem_io jb js fs) sb seed pass sq ?t s =
      ((walked sb 1 s)\<lparr>ws_io := ?m, ws_stats := st\<rparr>, Next)" by blast
  let ?s = "(walked sb 1 s)\<lparr>ws_io := ?m, ws_stats := st\<rparr>"
  have "st_home x \<notin> set jb" using Cons.prems(6) by (auto simp: homes_ok_def)
  then have lh: "log_holds ?m jb sb J"
    using log_holds_write [OF Cons.prems(2)] Cons.prems(2) by (simp add: pass_effect_def write_home_images_def)
  have ho: "homes_ok ?m jb js fs ss"
    using Cons.prems(6) by (simp add: homes_ok_def pass_effect_def write_home_images_def)
  have "\<exists>st. walk_tags (mem_io jb js fs) sb seed pass sq (log_tags fts seed sq n (i + 1) ss) ?s =
    ((walked sb (length ss) ?s)\<lparr>ws_io := pass_effect pass (ws_io ?s) ss, ws_stats := st\<rparr>, Next)"
    by (rule Cons.IH) (use Cons.prems lh ho nxt_ok in \<open>auto simp: log_at_Cons\<close>)
  then show ?case
    using w by (auto simp: walked_walked pass_effect_def write_home_images_def)
qed

section \<open>Groups and transactions\<close>

lemma length_log_tags [simp]: "length (log_tags fts seed sq n i ss) = length ss"
  by (induction ss arbitrary: i) auto

definition fresh_block :: "u32 \<Rightarrow> bytes \<Rightarrow> bool" where
  "fresh_block sq blk \<longleftrightarrow> (\<forall>h. header_parse blk = Inr h \<longrightarrow> jh_sequence h \<noteq> sq)"

lemma walk_block_fresh:
  assumes "log_holds (ws_io s) jb sb J" "pos_ok sb (ws_pos s)" "fresh_block sq (J (ws_pos s))"
  shows "walk_block (mem_io jb js fs) sb seed pass sq s = (s, Return (log_ends pass sq))"
proof -
  have r: "rio_read_journal (mem_io jb js fs) (ws_io s) (ws_pos s) = Inr (J (ws_pos s))"
    "check_size (mem_io jb js fs) (J (ws_pos s)) = Inr ()"
    using log_holds_read [OF assms(1,2)] by blast+
  show ?thesis
    using assms(3) by (cases "header_parse (J (ws_pos s))") (auto simp: walk_block_def r fresh_block_def)
qed

lemma walk_block_typed:
  assumes "ring_ok sb" "log_holds (ws_io s) jb sb J" "pos_ok sb (ws_pos s)"
    and "header_parse (J (ws_pos s)) = Inr \<lparr>jh_type = bt, jh_sequence = sq\<rparr>"
  shows "walk_block (mem_io jb js fs) sb seed pass sq s =
    walk_typed (mem_io jb js fs) sb seed pass sq (J (ws_pos s)) bt (walked sb 1 s)"
  using log_holds_read [OF assms(2,3), of js fs] assms(4) step_block_walked [OF assms(1,3)]
  by (simp add: walk_block_def)

lemma walk_block_descriptor:
  assumes "ring_ok sb" "log_holds (ws_io s) jb sb J" "pos_ok sb (ws_pos s)" "group_ok sb g"
    and "list_all (\<lambda>x. st_home x < fs) g" "J (ws_pos s) = log_descriptor sb seed sq g"
  shows "walk_block (mem_io jb js fs) sb seed pass sq s =
    walk_tags (mem_io jb js fs) sb seed pass sq (log_tags (js_features sb) seed sq (length g) 0 g) (walked sb 1 s)"
proof -
  have h: "header_parse (J (ws_pos s)) = Inr \<lparr>jh_type = Descriptor, jh_sequence = sq\<rparr>"
    using log_descriptor_header [OF assms(4)] assms(6) by simp
  have c: "checked_block sb seed pass (J (ws_pos s)) s' f = f s'" for s' :: "block_mem walk_state" and f
    using log_descriptor_checksum [OF assms(4)] assms(6) by (simp add: checked_block_def)
  show ?thesis
    unfolding walk_block_typed [OF assms(1-3) h] walk_typed_def BlockType.case c
    using parse_log_descriptor [OF assms(4,5), of seed sq] assms(6) by simp
qed

lemma walk_tx_step:
  "ws_consumed s < ring_size sb \<Longrightarrow> walk_block io sb seed pass sq s = (s', Next) \<Longrightarrow>
   walk_tx io sb seed pass sq s = walk_tx io sb seed pass sq s'"
  by (subst walk_tx.simps) simp

definition group_blocks :: "jsuperblock \<Rightarrow> u32 \<Rightarrow> u32 \<Rightarrow> staged_block list \<Rightarrow> bytes list" where
  "group_blocks sb seed sq g = log_descriptor sb seed sq g # map log_data g"

lemma log_blocks_Cons [simp]:
  "log_blocks sb seed sq (g # gs) = group_blocks sb seed sq g @ log_blocks sb seed sq gs"
  by (simp add: log_blocks_def group_blocks_def)

lemma log_blocks_Nil [simp]: "log_blocks sb seed sq [] = []"
  by (simp add: log_blocks_def)

lemma length_group_blocks [simp]: "length (group_blocks sb seed sq g) = Suc (length g)"
  by (simp add: group_blocks_def)

lemma pass_effect_append: "pass_effect pass (pass_effect pass m xs) ys = pass_effect pass m (xs @ ys)"
  by (simp add: pass_effect_def write_home_images_def)

lemma length_write_home_images [simp]: "length (write_home_images m ss) = length m"
  unfolding write_home_images_def by (induction ss arbitrary: m) auto

lemma length_pass_effect [simp]: "length (pass_effect pass m ss) = length m"
  by (simp add: pass_effect_def)

lemma log_holds_effect:
  "log_holds m jb sb J \<Longrightarrow> homes_ok m jb js fs ss \<Longrightarrow> log_holds (pass_effect pass m ss) jb sb J"
proof (induction ss arbitrary: m)
  case Nil
  then show ?case by (simp add: pass_effect_def write_home_images_def)
next
  case (Cons x ss)
  have e: "pass_effect pass m (x # ss) = pass_effect pass (pass_effect pass m [x]) ss"
    by (simp add: pass_effect_append)
  have "st_home x \<notin> set jb" using Cons.prems(2) by (auto simp: homes_ok_def)
  then have "log_holds (pass_effect pass m [x]) jb sb J"
    using log_holds_write [OF Cons.prems(1)] Cons.prems(1) by (simp add: pass_effect_def write_home_images_def)
  moreover have "homes_ok (pass_effect pass m [x]) jb js fs ss"
    using Cons.prems(2) by (simp add: homes_ok_def)
  ultimately show ?case unfolding e by (rule Cons.IH)
qed

text \<open>A complete log: the walk goes over all its groups, replaying them in the replay pass.\<close>

lemma walk_tx_groups:
  assumes "ring_ok sb" "log_holds (ws_io s) jb sb J" "pos_ok sb (ws_pos s)"
    and "ws_consumed s + length (log_blocks sb seed sq gs) \<le> ring_size sb"
    and "log_at sb J (ws_pos s) (log_blocks sb seed sq gs)" "list_all (group_ok sb) gs"
    and "homes_ok (ws_io s) jb js fs (concat gs)" "\<And>b. \<not> is_revoked (ws_revokes s) b sq"
  shows "\<exists>st. walk_tx (mem_io jb js fs) sb seed pass sq s =
    walk_tx (mem_io jb js fs) sb seed pass sq
      ((walked sb (length (log_blocks sb seed sq gs)) s)\<lparr>ws_io := pass_effect pass (ws_io s) (concat gs), ws_stats := st\<rparr>)"
  using assms
proof (induction gs arbitrary: s)
  case Nil
  have "s = s\<lparr>ws_io := pass_effect pass (ws_io s) [], ws_stats := ws_stats s\<rparr>"
    by (simp add: pass_effect_def write_home_images_def)
  then show ?case by (intro exI [of _ "ws_stats s"]) (simp del: walk_state.update_convs)
next
  case (Cons g gs)
  let ?io = "mem_io jb js fs"
  have at: "J (ws_pos s) = log_descriptor sb seed sq g" "log_at sb J (nxt sb (ws_pos s)) (map log_data g)"
    "log_at sb J ((nxt sb ^^ Suc (length g)) (ws_pos s)) (log_blocks sb seed sq gs)"
    using Cons.prems(5) by (simp_all add: log_at_append group_blocks_def log_at_Cons funpow_swap1)
  have g: "group_ok sb g" using Cons.prems(6) by simp
  have hg: "homes_ok (ws_io s) jb js fs g" using Cons.prems(7) by (simp add: homes_ok_def)
  have fsg: "list_all (\<lambda>x. st_home x < fs) g" using hg by (auto simp: homes_ok_def list_all_iff)
  have room: "ws_consumed s < ring_size sb" "ws_consumed (walked sb 1 s) + length g \<le> ring_size sb"
    using Cons.prems(4) by simp_all
  obtain st where wt: "walk_tags ?io sb seed pass sq (log_tags (js_features sb) seed sq (length g) 0 g) (walked sb 1 s) =
      ((walked sb (length g) (walked sb 1 s))\<lparr>ws_io := pass_effect pass (ws_io (walked sb 1 s)) g, ws_stats := st\<rparr>, Next)"
    using walk_tags_log [OF Cons.prems(1), of "walked sb 1 s" jb J g js fs sq seed pass "js_features sb" "length g" 0]
      Cons.prems(2,3,8) room(2) at(2) hg nxt_ok [OF Cons.prems(1,3)] by auto
  let ?s = "(walked sb (Suc (length g)) s)\<lparr>ws_io := pass_effect pass (ws_io s) g, ws_stats := st\<rparr>"
  have b: "walk_block ?io sb seed pass sq s = (?s, Next)"
    using walk_block_descriptor [OF Cons.prems(1-3) g fsg at(1), of js pass] wt by (simp add: walked_walked)
  have "\<exists>st'. walk_tx ?io sb seed pass sq ?s = walk_tx ?io sb seed pass sq
      ((walked sb (length (log_blocks sb seed sq gs)) ?s)\<lparr>ws_io := pass_effect pass (ws_io ?s) (concat gs), ws_stats := st'\<rparr>)"
  proof (rule Cons.IH)
    show "log_holds (ws_io ?s) jb sb J" using log_holds_effect [OF Cons.prems(2) hg] by simp
    show "homes_ok (ws_io ?s) jb js fs (concat gs)" using Cons.prems(7) by (simp add: homes_ok_def)
    show "pos_ok sb (ws_pos ?s)" using nxt_iter_ok [OF Cons.prems(1,3), of "Suc (length g)"] by simp
  qed (use Cons.prems at in auto)
  then show ?case
    using walk_tx_step [OF room(1) b] by (auto simp: walked_walked pass_effect_append)
qed

lemma walk_tx_commit:
  assumes "ring_ok sb" "log_holds (ws_io s) jb sb J" "pos_ok sb (ws_pos s)" "ws_consumed s < ring_size sb"
    and "J (ws_pos s) = log_commit sb sq" "seed = checksum_seed (js_uuid sb)" "\<not> ws_invalid s"
  shows "walk_tx (mem_io jb js fs) sb seed pass sq s = (walked sb 1 s, None)"
proof -
  have h: "header_parse (J (ws_pos s)) = Inr \<lparr>jh_type = Commit, jh_sequence = sq\<rparr>"
    using log_commit_header assms(5) by simp
  obtain ch where "commit_header_parse (J (ws_pos s)) (js_features sb) sq seed = Inr ch"
    using log_commit_parse [of sb sq] assms(5,6) by (auto simp: is_ok_iff)
  then have "walk_block (mem_io jb js fs) sb seed pass sq s = (walked sb 1 s, Break)"
    unfolding walk_block_typed [OF assms(1-3) h] using assms(7) by (simp add: walk_typed_def)
  then show ?thesis using assms(4) by (subst walk_tx.simps) simp
qed

lemma walk_tx_fresh:
  assumes "log_holds (ws_io s) jb sb J" "pos_ok sb (ws_pos s)" "ws_consumed s < ring_size sb"
    and "fresh_block sq (J (ws_pos s))"
  shows "walk_tx (mem_io jb js fs) sb seed pass sq s = (s, Some (log_ends pass sq))"
  using walk_block_fresh [OF assms(1,2,4)] assms(3) by (subst walk_tx.simps) simp

text \<open>A log cut off by a crash: every block is the one the transaction wrote or an old one, and the
  commit block is old. The scan ends in front of the transaction.\<close>

definition log_partial :: "jsuperblock \<Rightarrow> (u32 \<Rightarrow> bytes) \<Rightarrow> u32 \<Rightarrow> u32 \<Rightarrow> bytes list \<Rightarrow> bool" where
  "log_partial sb J sq p blocks \<longleftrightarrow>
     (\<forall>j < length blocks. J ((nxt sb ^^ j) p) = blocks ! j \<or> fresh_block sq (J ((nxt sb ^^ j) p)))"

lemma log_partial_append:
  assumes "log_partial sb J sq p (xs @ ys)"
  shows "log_partial sb J sq p xs" "log_partial sb J sq ((nxt sb ^^ length xs) p) ys"
proof -
  have a: "J ((nxt sb ^^ j) p) = (xs @ ys) ! j \<or> fresh_block sq (J ((nxt sb ^^ j) p))"
    if "j < length xs + length ys" for j
    using assms that by (simp add: log_partial_def)
  show "log_partial sb J sq p xs"
    unfolding log_partial_def
  proof (intro allI impI)
    fix j assume "j < length xs"
    then show "J ((nxt sb ^^ j) p) = xs ! j \<or> fresh_block sq (J ((nxt sb ^^ j) p))"
      using a [of j] by (simp add: nth_append)
  qed
  show "log_partial sb J sq ((nxt sb ^^ length xs) p) ys"
    unfolding log_partial_def
  proof (intro allI impI)
    fix j assume "j < length ys"
    then show "J ((nxt sb ^^ j) ((nxt sb ^^ length xs) p)) = ys ! j \<or>
        fresh_block sq (J ((nxt sb ^^ j) ((nxt sb ^^ length xs) p)))"
      using a [of "j + length xs"] by (simp add: funpow_add nth_append)
  qed
qed

lemma walk_tx_partial:
  assumes "ring_ok sb" "log_holds (ws_io s) jb sb J" "pos_ok sb (ws_pos s)"
    and "ws_consumed s + length (log_blocks sb seed sq gs) < ring_size sb"
    and "log_partial sb J sq (ws_pos s) (log_blocks sb seed sq gs)" "list_all (group_ok sb) gs"
    and "list_all (\<lambda>x. st_home x < fs) (concat gs)"
    and "fresh_block sq (J ((nxt sb ^^ length (log_blocks sb seed sq gs)) (ws_pos s)))"
  shows "\<exists>s'. walk_tx (mem_io jb js fs) sb seed ScanPass sq s = (s', Some (Inr sq))"
  using assms
proof (induction gs arbitrary: s)
  case Nil
  then show ?case using walk_tx_fresh [of s jb sb J sq js fs seed ScanPass] by (simp add: log_ends_def)
next
  case (Cons g gs)
  have room: "ws_consumed s < ring_size sb" using Cons.prems(4) by simp
  show ?case
  proof (cases "fresh_block sq (J (ws_pos s))")
    case True
    then show ?thesis
      using walk_tx_fresh [OF Cons.prems(2,3) room, of sq js fs seed ScanPass] by (simp add: log_ends_def)
  next
    case False
    note p = log_partial_append [OF Cons.prems(5) [unfolded log_blocks_Cons]]
    have "0 < length (group_blocks sb seed sq g)" by simp
    with p(1) [unfolded log_partial_def] False have at: "J (ws_pos s) = log_descriptor sb seed sq g"
      by (auto simp: group_blocks_def dest: spec [of _ 0])
    have g: "group_ok sb g" and fsg: "list_all (\<lambda>x. st_home x < fs) g" using Cons.prems(6,7) by simp_all
    obtain b where "walk_tags (mem_io jb js fs) sb seed ScanPass sq (log_tags (js_features sb) seed sq (length g) 0 g)
        (walked sb 1 s) = ((walked sb (length g) (walked sb 1 s))\<lparr>ws_invalid := b\<rparr>, Next)"
      using walk_tags_scan [OF Cons.prems(1), of "walked sb 1 s" jb J
          "log_tags (js_features sb) seed sq (length g) 0 g" js fs seed sq]
        Cons.prems(2,3,4) nxt_ok [OF Cons.prems(1,3)] by auto
    then have bl: "walk_block (mem_io jb js fs) sb seed ScanPass sq s =
        ((walked sb (Suc (length g)) s)\<lparr>ws_invalid := b\<rparr>, Next)"
      using walk_block_descriptor [OF Cons.prems(1-3) g fsg at, of js ScanPass] by (simp add: walked_walked)
    let ?s = "(walked sb (Suc (length g)) s)\<lparr>ws_invalid := b\<rparr>"
    have "\<exists>s'. walk_tx (mem_io jb js fs) sb seed ScanPass sq ?s = (s', Some (Inr sq))"
    proof (rule Cons.IH)
      show "pos_ok sb (ws_pos ?s)" using nxt_iter_ok [OF Cons.prems(1,3), of "Suc (length g)"] by simp
      show "log_partial sb J sq (ws_pos ?s) (log_blocks sb seed sq gs)" using p(2) by simp
      have "(nxt sb ^^ length (log_blocks sb seed sq gs)) ((nxt sb ^^ Suc (length g)) (ws_pos s)) =
          (nxt sb ^^ length (log_blocks sb seed sq (g # gs))) (ws_pos s)"
        using funpow_add [of "length (log_blocks sb seed sq gs)" "Suc (length g)" "nxt sb"]
        by (simp add: fun_eq_iff add.commute [of "length g"])
      then show "fresh_block sq (J ((nxt sb ^^ length (log_blocks sb seed sq gs)) (ws_pos ?s)))"
        using Cons.prems(8) by simp
    qed (use Cons.prems in auto)
    then show ?thesis using walk_tx_step [OF room bl] by simp
  qed
qed

section \<open>The passes over one transaction\<close>

text \<open>What the passes need to know of a log of one transaction: its groups, laid out from the start
  position, with room for the commit block.\<close>

definition tx_log :: "block_mem \<Rightarrow> PBlockId list \<Rightarrow> PBlockId set \<Rightarrow> u64 \<Rightarrow> jsuperblock \<Rightarrow> (u32 \<Rightarrow> bytes) \<Rightarrow>
    staged_block list list \<Rightarrow> bool" where
  "tx_log m jb js fs sb J gs \<longleftrightarrow>
     ring_ok sb \<and> js_start sb \<noteq> 0 \<and> log_holds m jb sb J \<and> list_all (group_ok sb) gs \<and>
     homes_ok m jb js fs (concat gs) \<and>
     length (log_blocks sb (checksum_seed (js_uuid sb)) (js_sequence sb) gs) + 1 \<le> ring_size sb"

definition log_slot :: "jsuperblock \<Rightarrow> nat \<Rightarrow> u32" where
  "log_slot sb j = (nxt sb ^^ j) (js_start sb)"

lemma start_pos_ok: "ring_ok sb \<Longrightarrow> js_start sb \<noteq> 0 \<Longrightarrow> pos_ok sb (js_start sb)"
  by (simp add: ring_ok_def pos_ok_def)

lemma walk_complete:
  assumes log: "tx_log m jb js fs sb J gs"
  defines "blocks \<equiv> log_blocks sb (checksum_seed (js_uuid sb)) (js_sequence sb) gs"
  assumes at: "log_at sb J (js_start sb) (blocks @ [log_commit sb (js_sequence sb)])"
    and stop: "stop = None \<and> pass = ScanPass \<or> stop = Some (js_sequence sb + 1)"
    and rv: "\<And>b. \<not> is_revoked rv b (js_sequence sb)"
    and fresh: "\<And>p. pos_ok sb p \<Longrightarrow> (\<forall>j \<le> length blocks. p \<noteq> log_slot sb j) \<Longrightarrow>
        fresh_block (js_sequence sb + 1) (J p)"
  shows "\<exists>s. walk (mem_io jb js fs) m sb (checksum_seed (js_uuid sb)) pass stop rv = (s, Inr (js_sequence sb + 1)) \<and>
    ws_io s = pass_effect pass m (concat gs) \<and> ws_revokes s = rv"
proof -
  let ?io = "mem_io jb js fs" and ?seed = "checksum_seed (js_uuid sb)" and ?sq = "js_sequence sb"
  let ?s0 = "\<lparr>ws_io = m, ws_pos = js_start sb, ws_consumed = 0, ws_invalid = False, ws_revokes = rv,
      ws_stats = stats_default\<rparr>"
  have r: "ring_ok sb" and lh: "log_holds m jb sb J" and g: "list_all (group_ok sb) gs"
    and ho: "homes_ok m jb js fs (concat gs)" and room: "length blocks + 1 \<le> ring_size sb"
    and p0: "pos_ok sb (js_start sb)"
    using log start_pos_ok by (auto simp: tx_log_def blocks_def)
  have at': "log_at sb J (js_start sb) blocks" "J (log_slot sb (length blocks)) = log_commit sb ?sq"
    using at by (simp_all add: log_at_append log_at_Cons log_slot_def)
  obtain st where tx1: "walk_tx ?io sb ?seed pass ?sq ?s0 = walk_tx ?io sb ?seed pass ?sq
      ((walked sb (length blocks) ?s0)\<lparr>ws_io := pass_effect pass m (concat gs), ws_stats := st\<rparr>)"
    using walk_tx_groups [OF r, of ?s0 jb J ?seed ?sq gs js fs pass] lh p0 room g ho rv at'(1)
    by (auto simp: blocks_def)
  let ?s1 = "(walked sb (length blocks) ?s0)\<lparr>ws_io := pass_effect pass m (concat gs), ws_stats := st\<rparr>"
  have lh1: "log_holds (ws_io ?s1) jb sb J" using log_holds_effect [OF lh ho] by simp
  have p1: "pos_ok sb (ws_pos ?s1)" using nxt_iter_ok [OF r p0] by simp
  have "walk_tx ?io sb ?seed pass ?sq ?s1 = (walked sb 1 ?s1, None)"
    by (rule walk_tx_commit [OF r lh1 p1]) (use room at'(2) in \<open>auto simp: log_slot_def\<close>)
  with tx1 have tx: "walk_tx ?io sb ?seed pass ?sq ?s0 = (walked sb 1 ?s1, None)" by simp
  let ?s2 = "walked sb 1 ?s1"
  have s2: "ws_pos ?s2 = log_slot sb (length blocks + 1)" "ws_consumed ?s2 = length blocks + 1"
    by (simp_all add: log_slot_def)
  have ne: "stop \<noteq> Some ?sq" using stop by auto
  have o1: "walk_outer ?io sb ?seed pass stop ?sq ?s0 =
    (if ws_pos ?s2 = js_start sb \<or> ws_consumed ?s2 \<ge> ring_size sb then (?s2, Inr (?sq + 1))
     else walk_outer ?io sb ?seed pass stop (?sq + 1) ?s2)"
    by (subst walk_outer.simps) (simp add: ne tx Let_def)
  have o2: "\<exists>b. walk_outer ?io sb ?seed pass stop (?sq + 1) ?s2 = (?s2\<lparr>ws_invalid := b\<rparr>, Inr (?sq + 1))"
    if "ws_pos ?s2 \<noteq> js_start sb" "ws_consumed ?s2 < ring_size sb"
  proof (cases "stop = Some (?sq + 1)")
    case True
    then show ?thesis
      by (intro exI [of _ "ws_invalid ?s2"]) (subst walk_outer.simps, simp)
  next
    case False
    then have scan: "stop = None" "pass = ScanPass" using stop by auto
    let ?s3 = "?s2\<lparr>ws_invalid := False\<rparr>"
    have "log_slot sb (length blocks + 1) \<noteq> log_slot sb j" if "j \<le> length blocks" for j
    proof
      assume "log_slot sb (length blocks + 1) = log_slot sb j"
      then have "length blocks + 1 = j"
        using nxt_iter_inj [OF r p0, of "length blocks + 1" j] s2(2) \<open>ws_consumed ?s2 < ring_size sb\<close> that
        by (simp add: log_slot_def)
      then show False using that by simp
    qed
    then have f: "fresh_block (?sq + 1) (J (ws_pos ?s3))"
      using fresh [of "ws_pos ?s3"] nxt_iter_ok [OF r p0, of "length blocks + 1"] s2(1)
      by (simp add: log_slot_def)
    have "walk_tx ?io sb ?seed pass (?sq + 1) ?s3 = (?s3, Some (log_ends pass (?sq + 1)))"
    proof (rule walk_tx_fresh [where s = ?s3 and J = J])
      show "fresh_block (?sq + 1) (J (ws_pos ?s3))" by (rule f)
      show "log_holds (ws_io ?s3) jb sb J" using lh1 by simp
      show "pos_ok sb (ws_pos ?s3)" using nxt_ok [OF r p1] by simp
    qed (use that in simp)
    then show ?thesis
      by (intro exI [of _ False]) (subst walk_outer.simps, simp add: scan log_ends_def Let_def)
  qed
  show ?thesis
  proof (cases "ws_pos ?s2 = js_start sb \<or> ws_consumed ?s2 \<ge> ring_size sb")
    case True
    show ?thesis
      unfolding walk_def o1 if_P [OF True] by (intro exI [of _ ?s2]) simp
  next
    case False
    then obtain b where "walk_outer ?io sb ?seed pass stop (?sq + 1) ?s2 = (?s2\<lparr>ws_invalid := b\<rparr>, Inr (?sq + 1))"
      using o2 by auto
    then show ?thesis
      unfolding walk_def o1 if_not_P [OF False] by (intro exI [of _ "?s2\<lparr>ws_invalid := b\<rparr>"]) simp
  qed
qed

lemma walk_incomplete:
  assumes log: "tx_log m jb js fs sb J gs"
  defines "blocks \<equiv> log_blocks sb (checksum_seed (js_uuid sb)) (js_sequence sb) gs"
  assumes part: "log_partial sb J (js_sequence sb) (js_start sb) blocks"
    and commit: "fresh_block (js_sequence sb) (J (log_slot sb (length blocks)))"
  shows "\<exists>s. walk (mem_io jb js fs) m sb (checksum_seed (js_uuid sb)) ScanPass None rv = (s, Inr (js_sequence sb))"
proof -
  let ?s0 = "\<lparr>ws_io = m, ws_pos = js_start sb, ws_consumed = 0, ws_invalid = False, ws_revokes = rv,
      ws_stats = stats_default\<rparr>"
  have r: "ring_ok sb" and p0: "pos_ok sb (js_start sb)" and lh: "log_holds m jb sb J"
    and g: "list_all (group_ok sb) gs" and room: "length blocks + 1 \<le> ring_size sb"
    and fs: "list_all (\<lambda>x. st_home x < fs) (concat gs)"
    using log start_pos_ok by (auto simp: tx_log_def blocks_def homes_ok_def list_all_iff)
  obtain s' where "walk_tx (mem_io jb js fs) sb (checksum_seed (js_uuid sb)) ScanPass (js_sequence sb) ?s0 =
      (s', Some (Inr (js_sequence sb)))"
    using walk_tx_partial [OF r, of ?s0 jb J "checksum_seed (js_uuid sb)" "js_sequence sb" gs fs js]
      lh p0 g room fs part commit by (auto simp: blocks_def log_slot_def)
  then show ?thesis unfolding walk_def by (subst walk_outer.simps) (simp add: Let_def)
qed

lemma walk_stopped:
  "walk io m sb seed pass (Some (js_sequence sb)) rv =
   (\<lparr>ws_io = m, ws_pos = js_start sb, ws_consumed = 0, ws_invalid = False, ws_revokes = rv,
     ws_stats = stats_default\<rparr>, Inr (js_sequence sb))"
  unfolding walk_def by (subst walk_outer.simps) simp

section \<open>Recovery of one transaction\<close>

lemma recover_passes_complete:
  assumes log: "tx_log m jb js fs sb J gs"
  defines "blocks \<equiv> log_blocks sb (checksum_seed (js_uuid sb)) (js_sequence sb) gs"
  assumes at: "log_at sb J (js_start sb) (blocks @ [log_commit sb (js_sequence sb)])"
    and fresh: "\<And>p. pos_ok sb p \<Longrightarrow> (\<forall>j \<le> length blocks. p \<noteq> log_slot sb j) \<Longrightarrow>
        fresh_block (js_sequence sb + 1) (J p)"
  shows "\<exists>st. recover_passes (mem_io jb js fs) m sb =
    (write_home_images m (concat gs), Inr (js_sequence sb + 1, st))"
proof -
  let ?w = "walk (mem_io jb js fs)" and ?seed = "checksum_seed (js_uuid sb)" and ?sq = "js_sequence sb"
  have w: "\<exists>s. ?w m sb ?seed pass stop rv = (s, Inr (?sq + 1)) \<and>
      ws_io s = pass_effect pass m (concat gs) \<and> ws_revokes s = rv"
    if "stop = None \<and> pass = ScanPass \<or> stop = Some (?sq + 1)" "\<And>b. \<not> is_revoked rv b ?sq" for pass stop rv
    by (rule walk_complete [OF log, folded blocks_def, OF at that fresh]) auto
  have n: "\<not> is_revoked None b ?sq" "\<not> is_revoked (Some Map.empty) b ?sq" for b
    by (simp_all add: is_revoked_def)
  obtain s1 where s1: "?w m sb ?seed ScanPass None None = (s1, Inr (?sq + 1))" "ws_io s1 = m"
    using w [of None ScanPass None] n by (auto simp: pass_effect_def)
  obtain s2 where s2: "?w m sb ?seed RevokePass (Some (?sq + 1)) (Some Map.empty) = (s2, Inr (?sq + 1))"
      "ws_io s2 = m" "ws_revokes s2 = Some Map.empty"
    using w [of "Some (?sq + 1)" RevokePass "Some Map.empty"] n by (auto simp: pass_effect_def)
  obtain s3 where s3: "?w m sb ?seed ReplayPass (Some (?sq + 1)) (Some Map.empty) = (s3, Inr (?sq + 1))"
      "ws_io s3 = write_home_images m (concat gs)"
    using w [of "Some (?sq + 1)" ReplayPass "Some Map.empty"] n by (auto simp: pass_effect_def)
  show ?thesis using s1 s2 s3 by (simp add: recover_passes_def Let_def)
qed

lemma recover_passes_incomplete:
  assumes log: "tx_log m jb js fs sb J gs"
  defines "blocks \<equiv> log_blocks sb (checksum_seed (js_uuid sb)) (js_sequence sb) gs"
  assumes part: "log_partial sb J (js_sequence sb) (js_start sb) blocks"
    and commit: "fresh_block (js_sequence sb) (J (log_slot sb (length blocks)))"
  shows "recover_passes (mem_io jb js fs) m sb = (m, Inr (js_sequence sb, stats_default))"
proof -
  obtain s where s: "walk (mem_io jb js fs) m sb (checksum_seed (js_uuid sb)) ScanPass None None = (s, Inr (js_sequence sb))"
    using walk_incomplete [OF log part [unfolded blocks_def] commit [unfolded blocks_def]] by blast
  have "ws_io s = m" using walk_passive(1) [OF s] .
  then show ?thesis by (simp add: recover_passes_def s walk_stopped)
qed

text \<open>The journal superblock on the device.\<close>

definition journal_sb_block :: "block_mem \<Rightarrow> PBlockId list \<Rightarrow> bytes" where
  "journal_sb_block m jb = m ! unat (jb ! 0)"

definition sb_on_disk :: "block_mem \<Rightarrow> PBlockId list \<Rightarrow> jsuperblock \<Rightarrow> bool" where
  "sb_on_disk m jb sb \<longleftrightarrow> jb \<noteq> [] \<and> unat (jb ! 0) < length m \<and> length (journal_sb_block m jb) = BLOCK_SIZE \<and>
     jsuperblock_parse (journal_sb_block m jb) 4096 = Inr sb"

lemma sb_on_disk_read: "sb_on_disk m jb sb \<Longrightarrow> rio_read_journal (mem_io jb js fs) m 0 = Inr (journal_sb_block m jb)"
  by (simp add: sb_on_disk_def recovery_device_def rd_journal_block_def mem_ops_def mem_read_block_def
      block_new_def journal_sb_block_def)

lemma recover_clean:
  assumes "sb_on_disk m jb sb" "js_start sb = 0"
  shows "recover (mem_io jb js fs) m = (m, Inr stats_default)"
proof -
  have p: "jsuperblock_parse (journal_sb_block m jb) 4096 = Inr sb" "length (journal_sb_block m jb) = BLOCK_SIZE"
    using assms(1) by (simp_all add: sb_on_disk_def)
  have "ring_ok sb" using p(1) by (simp add: jsuperblock_parse_Inr)
  then have "js_max_len sb \<noteq> 0" by (auto simp: ring_ok_def)
  then show ?thesis
    using p assms(2) by (simp add: recover_def sb_on_disk_read [OF assms(1)]) (simp add: BLOCK_SIZE_def)
qed

text \<open>After the passes, recovery writes the clean superblock, which recovery then leaves alone.\<close>

lemma recover_run:
  assumes d: "sb_on_disk m jb sb" "js_start sb \<noteq> 0"
    and p: "recover_passes (mem_io jb js fs) m sb = (m', Inr (q, st))"
    and m': "length m' = length m"
  shows "\<exists>x st'. recover (mem_io jb js fs) m = (m'[unat (jb ! 0) := x], Inr st') \<and>
    sb_on_disk (m'[unat (jb ! 0) := x]) jb (sb\<lparr>js_sequence := q + 1, js_start := 0\<rparr>)"
proof -
  let ?raw = "journal_sb_block m jb"
  let ?x = "sb_updated (take 1024 ?raw) (js_features sb) (q + 1) 0 @ drop 1024 ?raw"
  have raw: "jsuperblock_parse ?raw 4096 = Inr sb" "length ?raw = BLOCK_SIZE" "jb \<noteq> []" "unat (jb ! 0) < length m"
    using d(1) by (simp_all add: sb_on_disk_def)
  have r: "ring_ok sb" using raw(1) by (simp add: jsuperblock_parse_Inr)
  then have mx: "js_max_len sb \<noteq> 0" by (auto simp: ring_ok_def)
  have l: "length (take 1024 ?raw) = 1024" "1024 \<le> length ?raw" using raw(2) by (simp_all add: BLOCK_SIZE_def)
  have lx: "length ?x = BLOCK_SIZE" using raw(2) l by (simp add: BLOCK_SIZE_def)
  have c: "clean_superblock ?raw (js_features sb) q = Inr ?x" by (rule clean_superblock_ok [OF l(2)])
  have w: "rio_write_journal (mem_io jb js fs) m' 0 ?x = (m'[unat (jb ! 0) := ?x], Inr ())"
    using raw m' lx
    by (simp add: recovery_device_def rd_journal_block_def rd_write_image_def mem_ops_def mem_write_block_def block_new_def)
  have fin: "recover_finish (mem_io jb js fs) m' ?raw sb q st =
      (m'[unat (jb ! 0) := ?x], Inr (st\<lparr>rs_transactions := q - js_sequence sb\<rparr>))"
  proof -
    have f: "flush mem_ops n = (n, Inr ())" for n by (simp add: mem_ops_def mem_flush_def)
    show ?thesis by (simp add: recover_finish_def c w f)
  qed
  have "recover (mem_io jb js fs) m = (m'[unat (jb ! 0) := ?x], Inr (st\<lparr>rs_transactions := q - js_sequence sb\<rparr>))"
    using raw(1,2) d(2) mx p fin
    by (simp add: recover_def sb_on_disk_read [OF d(1)]) (simp add: BLOCK_SIZE_def)
  moreover have "jsuperblock_parse ?x 4096 = Inr (sb\<lparr>js_sequence := q + 1, js_start := 0\<rparr>)"
  proof -
    have "jsuperblock_parse (take 1024 ?raw) 4096 = Inr sb" using jsuperblock_parse_take [OF l(2)] raw(1) by simp
    moreover have "ring_ok (sb\<lparr>js_start := 0\<rparr>)" using r by (simp add: ring_ok_def)
    ultimately have "jsuperblock_parse (sb_updated (take 1024 ?raw) (js_features sb) (q + 1) 0) 4096 =
        Inr (sb\<lparr>js_sequence := q + 1, js_start := 0\<rparr>)" using sb_updated_parse l(1) by blast
    moreover have "take 1024 ?x = sb_updated (take 1024 ?raw) (js_features sb) (q + 1) 0"
      using length_sb_updated [OF l(1)] by simp
    ultimately show ?thesis using jsuperblock_parse_take [of ?x] lx by (simp add: BLOCK_SIZE_def)
  qed
  ultimately show ?thesis
    using raw m' lx
    by (intro exI [of _ ?x]) (auto simp: sb_on_disk_def journal_sb_block_def)
qed

end
