(* ===== verification/Journal_Crash.thy ===== *)
theory Journal_Crash
  imports Journal_Walk
begin

text \<open>
  Crash atomicity of \<^verbatim>\<open>commit_journal\<close> (\<^verbatim>\<open>src/ext4/journal_transaction.rs\<close>) together with \<^verbatim>\<open>recover\<close>
  (\<^verbatim>\<open>src/ext4/journal_recovery.rs\<close>). The commit runs on a device with a volatile write cache that
  loses power after an arbitrary number of operations; every block of the cache may or may not have
  reached the medium, in any combination. Recovery then runs on what the medium holds. Blocks are
  written atomically.
\<close>

section \<open>A device that loses power\<close>

record crash_dev =
  cd_disk :: block_mem
  cd_pending :: "block list"
  cd_fuel :: nat

definition apply_writes :: "block_mem \<Rightarrow> block list \<Rightarrow> block_mem" where
  "apply_writes m ws = foldl (\<lambda>m b. m[unat (blk_id b) := blk_data b]) m ws"

definition crash_view :: "crash_dev \<Rightarrow> block_mem" where
  "crash_view d = apply_writes (cd_disk d) (cd_pending d)"

definition crash_read :: "crash_dev \<Rightarrow> PBlockId \<Rightarrow> block res" where
  "crash_read d i =
     (if unat i < length (cd_disk d) then Inr (block_new i (crash_view d ! unat i)) else Inl (Err EIO))"

definition crash_write :: "crash_dev \<Rightarrow> block \<Rightarrow> crash_dev \<times> unit res" where
  "crash_write d b =
     (if cd_fuel d = 0 \<or> unat (blk_id b) \<ge> length (cd_disk d) then (d, Inl (Err EIO))
      else (d\<lparr>cd_pending := cd_pending d @ [b], cd_fuel := cd_fuel d - 1\<rparr>, Inr ()))"

definition crash_flush :: "crash_dev \<Rightarrow> crash_dev \<times> unit res" where
  "crash_flush d =
     (if cd_fuel d = 0 then (d, Inl (Err EIO))
      else (d\<lparr>cd_disk := crash_view d, cd_pending := [], cd_fuel := cd_fuel d - 1\<rparr>, Inr ()))"

definition crash_ops :: "crash_dev device_ops" where
  "crash_ops = \<lparr>read_block = crash_read, write_block = crash_write, flush = crash_flush,
     supports_reliable_flush = (\<lambda>_. True)\<rparr>"

definition power_on :: "block_mem \<Rightarrow> nat \<Rightarrow> crash_dev" where
  "power_on m n = \<lparr>cd_disk = m, cd_pending = [], cd_fuel = n\<rparr>"

text \<open>What the medium may hold after the loss of power.\<close>

definition crash_image :: "crash_dev \<Rightarrow> block_mem \<Rightarrow> bool" where
  "crash_image d m \<longleftrightarrow> length m = length (cd_disk d) \<and>
     (\<forall>i < length m. m ! i = cd_disk d ! i \<or>
        (\<exists>b\<in>set (cd_pending d). unat (blk_id b) = i \<and> m ! i = blk_data b))"

lemma apply_writes_simps [simp]:
  "apply_writes m [] = m" "apply_writes m (ws @ vs) = apply_writes (apply_writes m ws) vs"
  "apply_writes m (b # ws) = apply_writes (m[unat (blk_id b) := blk_data b]) ws"
  by (simp_all add: apply_writes_def)

lemma length_apply_writes [simp]: "length (apply_writes m ws) = length m"
  by (induction ws arbitrary: m) auto

definition crash_contents :: "crash_dev \<Rightarrow> PBlockId \<Rightarrow> bytes option" where
  "crash_contents d i = (if unat i < length (cd_disk d) then Some (crash_view d ! unat i) else None)"

text \<open>While the power is on, the device keeps the contract of a block device.\<close>

interpretation crash: block_device crash_ops crash_contents
proof
  fix d i b assume "read_block crash_ops d i = Inr b"
  then show "blk_id b = i \<and> crash_contents d i = Some (blk_data b)"
    by (auto simp: crash_ops_def crash_read_def crash_contents_def block_new_def split: if_splits)
next
  fix d b d' u assume "write_block crash_ops d b = (d', Inr u)"
  then show "crash_contents d' = (crash_contents d)(blk_id b \<mapsto> blk_data b)"
    by (auto simp: crash_ops_def crash_write_def crash_contents_def crash_view_def fun_eq_iff
        nth_list_update unat_inject split: if_splits)
next
  fix d d' u assume "flush crash_ops d = (d', Inr u)"
  then show "crash_contents d' = crash_contents d"
    by (auto simp: crash_ops_def crash_flush_def crash_contents_def crash_view_def split: if_splits)
qed

text \<open>A block is durable when the medium holds it and the cache has no other version of it; that is, when every
  image the loss of power may leave agrees on it.\<close>

definition crash_durable :: "crash_dev \<Rightarrow> PBlockId \<Rightarrow> bytes \<Rightarrow> bool" where
  "crash_durable d i v \<longleftrightarrow> unat i < length (cd_disk d) \<and> cd_disk d ! unat i = v \<and>
     (\<forall>b \<in> set (cd_pending d). blk_id b = i \<longrightarrow> blk_data b = v)"

lemma crash_durable_image:
  "crash_durable d i v \<longleftrightarrow> unat i < length (cd_disk d) \<and> (\<forall>m. crash_image d m \<longrightarrow> m ! unat i = v)"
proof
  show "unat i < length (cd_disk d) \<and> (\<forall>m. crash_image d m \<longrightarrow> m ! unat i = v)" if "crash_durable d i v"
    using that by (auto simp: crash_durable_def crash_image_def unat_inject)
next
  assume a: "unat i < length (cd_disk d) \<and> (\<forall>m. crash_image d m \<longrightarrow> m ! unat i = v)"
  have "crash_image d (cd_disk d)" by (simp add: crash_image_def)
  moreover have "crash_image d ((cd_disk d)[unat i := blk_data b])" if "b \<in> set (cd_pending d)" "blk_id b = i" for b
    using that a by (auto simp: crash_image_def nth_list_update)
  ultimately show "crash_durable d i v" using a by (fastforce simp: crash_durable_def)
qed

lemma apply_writes_cases:
  "i < length m \<Longrightarrow> apply_writes m ws ! i = m ! i \<or> (\<exists>b\<in>set ws. unat (blk_id b) = i \<and> apply_writes m ws ! i = blk_data b)"
proof (induction ws rule: rev_induct)
  case (snoc w ws)
  have l: "i < length (apply_writes m ws)" using snoc.prems by simp
  show ?case
  proof (cases "unat (blk_id w) = i")
    case True
    then show ?thesis using nth_list_update_eq [OF l] by auto
  next
    case False
    then show ?thesis using snoc by auto
  qed
qed simp

lemma view_image: "crash_image d (crash_view d)"
  using apply_writes_cases [of _ "cd_disk d" "cd_pending d"] by (auto simp: crash_image_def crash_view_def)

interpretation crash: volatile_device crash_ops crash_contents crash_durable
proof
  show "crash_durable d' i v" if "flush crash_ops d = (d', Inr u)" "crash_contents d i = Some v" for d d' u i v
    using that by (auto simp: crash_durable_def crash_ops_def crash_flush_def crash_contents_def crash_view_def split: if_splits)
  show "crash_durable d' i v" if "flush crash_ops d = (d', r)" "crash_durable d i v" for d d' r i v
  proof (cases "cd_fuel d = 0")
    case False
    have "crash_image d (crash_view d)" by (rule view_image)
    then have "crash_view d ! unat i = v" using that(2) by (simp add: crash_durable_image)
    then show ?thesis using that False by (auto simp: crash_durable_def crash_ops_def crash_flush_def crash_view_def)
  qed (use that in \<open>simp add: crash_ops_def crash_flush_def\<close>)
  show "crash_durable d' i v" if "write_block crash_ops d b = (d', r)" "i \<noteq> blk_id b" "crash_durable d i v" for d d' b r i v
    using that by (auto simp: crash_durable_def crash_ops_def crash_write_def split: if_splits)
qed

section \<open>Epochs\<close>

text \<open>A commit is a sequence of epochs: a list of writes, then a flush. Each has the kind of failure it
  is reported with.\<close>

type_synonym writes = "(PBlockId \<times> bytes) list"

definition as_blocks :: "writes \<Rightarrow> block list" where
  "as_blocks ws = map (\<lambda>(i, bs). block_new i bs) ws"

lemma as_blocks_simps [simp]:
  "as_blocks [] = []" "as_blocks ((i, bs) # ws) = block_new i bs # as_blocks ws"
  "as_blocks (ws @ vs) = as_blocks ws @ as_blocks vs"
  by (simp_all add: as_blocks_def)

definition writes_fit :: "nat \<Rightarrow> writes \<Rightarrow> bool" where
  "writes_fit n ws \<longleftrightarrow> list_all (\<lambda>(i, bs). unat i < n) ws"

fun run_epochs :: "crash_dev \<Rightarrow> (writes \<times> commit_failure) list \<Rightarrow> crash_dev \<times> (fault \<times> commit_failure + unit)" where
  "run_epochs d [] = (d, Inr ())"
| "run_epochs d ((ws, k) # es) =
     sbind (tagged k (write_all crash_ops d ws)) (\<lambda>d _.
     sbind (tagged k (flush crash_ops d)) (\<lambda>d _. run_epochs d es))"

lemma tagged_simps [simp]: "tagged k (d, Inl f) = (d, Inl (f, k))" "tagged k (d, Inr x) = (d, Inr x)"
  by (simp_all add: tagged_def)

lemma write_all_crash:
  assumes "writes_fit (length (cd_disk d)) ws" "write_all crash_ops d ws = (d', r)"
  shows "cd_disk d' = cd_disk d \<and>
    (r = Inr () \<and> cd_pending d' = cd_pending d @ as_blocks ws \<or>
     r = Inl (Err EIO) \<and> (\<exists>k. cd_pending d' = cd_pending d @ take k (as_blocks ws)))"
  using assms
proof (induction ws arbitrary: d)
  case Nil
  then show ?case by auto
next
  case (Cons w ws)
  obtain i bs where w: "w = (i, bs)" by fastforce
  show ?case
  proof (cases "cd_fuel d = 0")
    case True
    then have "d' = d \<and> r = Inl (Err EIO)"
      using Cons.prems(2) by (simp add: w write_bytes_def crash_ops_def crash_write_def)
    then show ?thesis by (auto intro: exI [of _ 0])
  next
    case False
    let ?d = "d\<lparr>cd_pending := cd_pending d @ [block_new i bs], cd_fuel := cd_fuel d - 1\<rparr>"
    have "write_bytes crash_ops d i bs = (?d, Inr ())"
      using False Cons.prems(1)
      by (simp add: w write_bytes_def crash_ops_def crash_write_def writes_fit_def block_new_def)
    then have "write_all crash_ops ?d ws = (d', r)" using Cons.prems(2) by (simp add: w)
    from Cons.IH [OF _ this] Cons.prems(1) have
      "cd_disk d' = cd_disk d" and
      "r = Inr () \<and> cd_pending d' = cd_pending d @ as_blocks (w # ws) \<or>
       r = Inl (Err EIO) \<and> (\<exists>k. cd_pending d' = cd_pending d @ take (Suc k) (as_blocks (w # ws)))"
      by (auto simp: writes_fit_def w)
    then show ?thesis by blast
  qed
qed

definition epochs_fit :: "nat \<Rightarrow> (writes \<times> commit_failure) list \<Rightarrow> bool" where
  "epochs_fit n es \<longleftrightarrow> list_all (\<lambda>(ws, k). writes_fit n ws) es"

definition after_epochs :: "block_mem \<Rightarrow> (writes \<times> commit_failure) list \<Rightarrow> block_mem" where
  "after_epochs m es = apply_writes m (as_blocks (concat (map fst es)))"

lemma after_epochs_simps [simp]:
  "after_epochs m [] = m" "after_epochs m ((ws, k) # es) = after_epochs (apply_writes m (as_blocks ws)) es"
  by (simp_all add: after_epochs_def)

lemma length_after_epochs [simp]: "length (after_epochs m es) = length m"
  by (simp add: after_epochs_def)

text \<open>Where the power may be lost, and what is then on the medium and in the cache.\<close>

lemma run_epochs_outcome:
  assumes "epochs_fit (length (cd_disk d)) es" "cd_pending d = []" "run_epochs d es = (d', r)"
  shows "r = Inr () \<and> cd_pending d' = [] \<and> cd_disk d' = after_epochs (cd_disk d) es \<or>
    (\<exists>i < length es. r = Inl (Err EIO, snd (es ! i)) \<and>
       cd_disk d' = after_epochs (cd_disk d) (take i es) \<and>
       set (cd_pending d') \<subseteq> set (as_blocks (fst (es ! i))))"
  using assms
proof (induction es arbitrary: d)
  case Nil
  then show ?case by auto
next
  case (Cons e es)
  obtain ws k where e: "e = (ws, k)" by fastforce
  have fit: "writes_fit (length (cd_disk d)) ws" and fits: "epochs_fit (length (cd_disk d)) es"
    using Cons.prems(1) by (auto simp: epochs_fit_def e)
  obtain d1 r1 where w: "write_all crash_ops d ws = (d1, r1)" by fastforce
  note o1 = write_all_crash [OF fit w]
  have failed: ?case if "r = Inl (Err EIO, k)" "cd_disk d' = cd_disk d" "set (cd_pending d') \<subseteq> set (as_blocks ws)"
    using that by (intro disjI2 exI [of _ 0]) (simp add: e)
  show ?case
  proof (cases r1)
    case (Inl f)
    then have "d' = d1" "r = Inl (f, k)" using Cons.prems(3) w by (simp_all add: e)
    then show ?thesis
      using o1 Inl Cons.prems(2) by (intro failed) (auto dest: in_set_takeD)
  next
    case (Inr u)
    then have p: "cd_pending d1 = as_blocks ws" "cd_disk d1 = cd_disk d" using o1 Cons.prems(2) by auto
    show ?thesis
    proof (cases "cd_fuel d1 = 0")
      case True
      then have "d' = d1" "r = Inl (Err EIO, k)"
        using Cons.prems(3) w Inr by (simp_all add: e crash_ops_def crash_flush_def)
      then show ?thesis using p by (intro failed) auto
    next
      case False
      let ?d2 = "d1\<lparr>cd_disk := crash_view d1, cd_pending := [], cd_fuel := cd_fuel d1 - 1\<rparr>"
      have "flush crash_ops d1 = (?d2, Inr ())" using False by (simp add: crash_ops_def crash_flush_def)
      then have run: "run_epochs ?d2 es = (d', r)" using Cons.prems(3) w Inr by (simp add: e)
      have v: "crash_view d1 = apply_writes (cd_disk d) (as_blocks ws)" by (simp add: crash_view_def p)
      have "r = Inr () \<and> cd_pending d' = [] \<and> cd_disk d' = after_epochs (cd_disk ?d2) es \<or>
        (\<exists>i < length es. r = Inl (Err EIO, snd (es ! i)) \<and>
           cd_disk d' = after_epochs (cd_disk ?d2) (take i es) \<and>
           set (cd_pending d') \<subseteq> set (as_blocks (fst (es ! i))))"
        by (rule Cons.IH [OF _ _ run]) (use fits v in simp_all)
      then show ?thesis
      proof
        assume "\<exists>i < length es. r = Inl (Err EIO, snd (es ! i)) \<and>
           cd_disk d' = after_epochs (cd_disk ?d2) (take i es) \<and>
           set (cd_pending d') \<subseteq> set (as_blocks (fst (es ! i)))"
        then obtain i where "i < length es" "r = Inl (Err EIO, snd (es ! i))"
          "cd_disk d' = after_epochs (cd_disk ?d2) (take i es)" "set (cd_pending d') \<subseteq> set (as_blocks (fst (es ! i)))"
          by blast
        then show ?thesis by (intro disjI2 exI [of _ "Suc i"]) (simp add: e v)
      qed (simp add: e v)
    qed
  qed
qed

lemma run_epochs_append: "run_epochs d (es @ fs) = sbind (run_epochs d es) (\<lambda>d _. run_epochs d fs)"
proof (induction es arbitrary: d)
  case (Cons e es)
  obtain ws k where e: "e = (ws, k)" by fastforce
  show ?case
    by (cases "write_all crash_ops d ws"; cases "snd (write_all crash_ops d ws)";
        cases "flush crash_ops (fst (write_all crash_ops d ws))";
        cases "snd (flush crash_ops (fst (write_all crash_ops d ws)))")
       (auto simp: e Cons.IH)
qed simp

section \<open>A journal between two transactions\<close>

definition ring_block :: "block_mem \<Rightarrow> PBlockId list \<Rightarrow> u32 \<Rightarrow> bytes" where
  "ring_block m jb p = m ! unat (jb ! unat p)"

text \<open>No block of the ring carries one of the next \<open>k + 1\<close> sequence numbers.\<close>

definition ring_fresh :: "block_mem \<Rightarrow> PBlockId list \<Rightarrow> jsuperblock \<Rightarrow> nat \<Rightarrow> bool" where
  "ring_fresh m jb sb k \<longleftrightarrow>
     (\<forall>j \<le> k. \<forall>p. pos_ok sb p \<longrightarrow> fresh_block (js_sequence sb + word_of_nat j) (ring_block m jb p))"

text \<open>What mounting establishes and every commit keeps: a validated context, an injective mapping of the
  journal inode, a clean superblock on disk that matches the context, and a ring without blocks of the
  future.\<close>

definition journal_ready :: "block_mem \<Rightarrow> journal_context \<Rightarrow> nat \<Rightarrow> bool" where
  "journal_ready m c k \<longleftrightarrow>
     context_validate c = Inr () \<and> distinct (jc_logical_blocks c) \<and>
     set (jc_logical_blocks c) = jc_journal_blocks c \<and>
     list_all (\<lambda>b. unat b < length m) (jc_logical_blocks c) \<and> unat (jc_target_blocks c) \<le> length m \<and>
     list_all (\<lambda>b. length b = BLOCK_SIZE) m \<and>
     sb_on_disk m (jc_logical_blocks c) (jc_superblock c) \<and> js_start (jc_superblock c) = 0 \<and>
     jc_superblock_image c = take 1024 (journal_sb_block m (jc_logical_blocks c)) \<and>
     ring_fresh m (jc_logical_blocks c) (jc_superblock c) k"

lemma journal_ready_facts:
  assumes "journal_ready m c k"
  defines "sb \<equiv> jc_superblock c" and "jb \<equiv> jc_logical_blocks c"
  shows "ring_ok sb" "pos_ok sb (jc_head c)" "length jb = unat (js_max_len sb)" "jb \<noteq> []"
    "length (js_uuid sb) = 16" "length (jc_superblock_image c) = 1024" "jc_head c \<noteq> 0"
proof -
  have d: "sb_on_disk m jb sb" using assms by (simp add: journal_ready_def)
  then have p: "jsuperblock_parse (journal_sb_block m jb) 4096 = Inr sb" and l: "length (journal_sb_block m jb) = BLOCK_SIZE"
    by (simp_all add: sb_on_disk_def)
  show r: "ring_ok sb" using p by (simp add: jsuperblock_parse_Inr)
  have v: "context_validate c = Inr ()" using assms by (simp add: journal_ready_def)
  then show h: "pos_ok sb (jc_head c)" and "length jb = unat (js_max_len sb)"
    by (auto simp: context_validate_def Let_def sb_def jb_def pos_ok_def not_less split: if_splits)
  show "jb \<noteq> []" using d by (simp add: sb_on_disk_def)
  have "sb = js_of (journal_sb_block m jb) (js_features sb)" using p by (simp add: jsuperblock_parse_Inr)
  then have "js_uuid sb = slice (journal_sb_block m jb) 48 16" by (metis js_of_def jsuperblock.select_convs(8))
  then show "length (js_uuid sb) = 16" using l by (simp add: BLOCK_SIZE_def)
  show "length (jc_superblock_image c) = 1024"
    using assms l by (simp add: journal_ready_def jb_def BLOCK_SIZE_def)
  show "jc_head c \<noteq> 0" using r h by (auto simp: ring_ok_def pos_ok_def)
qed

lemma ring_len_eq: "ring_ok sb \<Longrightarrow> ring_len sb = Inr (ring_size sb)"
  by (simp add: ring_len_def checked_sub_def ring_ok_def ring_size_def less_imp_le unat_sub_le)

lemma required_log_blocks_gt: "required_log_blocks n fts = Inr needed \<Longrightarrow> n < needed"
  by (auto simp: required_log_blocks_def rbind_eq_Inr usize_checked_add_def Let_def split: if_splits)

lemma ring_size_lt: "ring_size sb < 2 ^ 32"
  using unat_lt [of "js_max_len sb"] by (simp add: ring_size_def)

lemma journal_plan_facts:
  assumes ready: "journal_ready m c k" and ok: "staged_all_ok staged"
    and plan: "journal_plan True c staged = Inr plan"
  defines "sb \<equiv> jc_superblock c"
  defines "blocks \<equiv> log_blocks sb (checksum_seed (js_uuid sb)) (js_sequence sb) (log_groups sb staged)"
  shows "list_all (group_ok sb) (log_groups sb staged)"
    "length blocks + 1 \<le> ring_size sb"
    "pl_encoded plan = blocks"
    "pl_positions plan = map (\<lambda>j. (nxt sb ^^ j) (jc_head c)) [0..<length blocks + 1]"
    "pl_commit plan = log_commit sb (js_sequence sb)"
    "pl_active plan = sb_updated (jc_superblock_image c) (js_features sb) (js_sequence sb) (jc_head c)"
    "pl_clean plan = sb_updated (jc_superblock_image c) (js_features sb) (js_sequence sb + 1) 0"
    "list_all (\<lambda>s. st_home s < jc_target_blocks c \<and> st_home s \<notin> jc_journal_blocks c) (map snd staged)"
proof -
  note f = journal_ready_facts [OF ready, folded sb_def]
  obtain needed positions enc where
    n: "required_log_blocks (length staged) (js_features sb) = Inr needed" "needed \<le> ring_size sb"
    and p: "ring_positions sb (jc_head c) needed = Inr positions"
    and h: "\<not> list_ex (\<lambda>s. st_home s \<ge> jc_target_blocks c \<or> st_home s \<in> jc_journal_blocks c) (map snd staged)"
    and e: "encode_log sb (js_sequence sb) staged = Inr enc"
    and pl: "plan = \<lparr>pl_positions = positions, pl_encoded = enc, pl_commit = log_commit sb (js_sequence sb),
      pl_active = sb_updated (jc_superblock_image c) (js_features sb) (js_sequence sb) (jc_head c),
      pl_clean = sb_updated (jc_superblock_image c) (js_features sb) (js_sequence sb + 1) 0\<rparr>"
    using plan f(6)
    by (auto simp: journal_plan_def Let_def rbind_eq_Inr sb_def [symmetric] ring_len_eq [OF f(1)] encode_commit_ok
        update_superblock_ok not_less split: if_splits)
  note el = encode_log_Inr [OF e ok f(5), folded blocks_def]
  have "length staged < 2 ^ 32"
    using required_log_blocks_gt [OF n(1)] n(2) ring_size_lt [of sb] by linarith
  from log_length_required [OF n(1) this] have len: "length blocks + 1 = needed" by (simp add: blocks_def)
  show "list_all (group_ok sb) (log_groups sb staged)" "pl_encoded plan = blocks" using el pl by auto
  show "length blocks + 1 \<le> ring_size sb" using len n(2) by simp
  have "positions = map (\<lambda>j. (nxt sb ^^ j) (jc_head c)) [0..<needed]"
    using p f(2) by (simp add: ring_positions_def ring_len_eq [OF f(1)] ring_take_iter [OF f(1,2)] pos_ok_def
        split: if_splits)
  then show "pl_positions plan = map (\<lambda>j. (nxt sb ^^ j) (jc_head c)) [0..<length blocks + 1]"
    using pl len by simp
  show "pl_commit plan = log_commit sb (js_sequence sb)"
    "pl_active plan = sb_updated (jc_superblock_image c) (js_features sb) (js_sequence sb) (jc_head c)"
    "pl_clean plan = sb_updated (jc_superblock_image c) (js_features sb) (js_sequence sb + 1) 0"
    using pl by simp_all
  show "list_all (\<lambda>s. st_home s < jc_target_blocks c \<and> st_home s \<notin> jc_journal_blocks c) (map snd staged)"
    using h by (simp add: list_all_iff list_ex_iff not_le)
qed

section \<open>The commit as epochs\<close>

lemma sbind_assoc: "sbind (sbind m f) g = sbind m (\<lambda>s x. sbind (f s x) g)"
  by (cases m; cases "snd m") (auto simp: sbind_def)

lemma sbind_unit: "sbind m (\<lambda>s x. (s, Inr ())) = (m :: 's \<times> ('e + unit))"
  by (cases m; cases "snd m") auto

lemma apply_writes_other: "i \<notin> (\<lambda>b. unat (blk_id b)) ` set ws \<Longrightarrow> apply_writes m ws ! i = m ! i"
  by (induction ws arbitrary: m) auto

lemma apply_writes_in:
  assumes "distinct (map blk_id ws)" "b \<in> set ws" "unat (blk_id b) < length m"
  shows "apply_writes m ws ! unat (blk_id b) = blk_data b"
  using assms
proof (induction ws arbitrary: m)
  case (Cons w ws)
  show ?case
  proof (cases "b \<in> set ws")
    case True
    then show ?thesis using Cons by simp
  next
    case False
    then have b: "b = w" using Cons.prems(2) by simp
    have "unat (blk_id b) \<notin> (\<lambda>b. unat (blk_id b)) ` set ws"
      using Cons.prems(1) b by (auto simp: unat_inject)
    then show ?thesis using b Cons.prems(3) by (simp add: apply_writes_other)
  qed
qed simp

lemma write_journal_superblock_crash:
  assumes "cd_pending d = []" "jb \<noteq> []" "unat (jb ! 0) < length (cd_disk d)"
    and "length img \<le> length (cd_disk d ! unat (jb ! 0))"
  shows "write_journal_superblock crash_ops d jb img =
    write_all crash_ops d [(jb ! 0, splice (cd_disk d ! unat (jb ! 0)) 0 img)]"
proof -
  let ?i = "jb ! 0" and ?old = "cd_disk d ! unat (jb ! 0)"
  have r: "read_block crash_ops d ?i = Inr (block_new ?i ?old)"
    using assms by (simp add: crash_ops_def crash_read_def crash_view_def)
  have w: "write_range (blk_data (block_new ?i ?old)) 0 img = Inr (splice ?old 0 img)"
    using assms(4) by (simp add: block_new_def write_range_def)
  have b: "(block_new ?i ?old)\<lparr>blk_data := x\<rparr> = block_new ?i x" for x by (simp add: block_new_def)
  have i: "index_at jb 0 = Inr ?i" using assms(2) by (simp add: index_at_def)
  have "write_journal_superblock crash_ops d jb img = write_bytes crash_ops d ?i (splice ?old 0 img)"
    unfolding write_journal_superblock_def i rbind.simps r sbind_simps w b write_bytes_def by (rule refl)
  then show ?thesis by (simp add: sbind_unit)
qed

lemma write_log_all:
  "list_all (\<lambda>(l, bs). unat l < length jb) ws \<Longrightarrow>
   write_log ops d jb ws = write_all ops d (map (\<lambda>(l, bs). (jb ! unat l, bs)) ws)"
proof (induction ws arbitrary: d)
  case (Cons w ws)
  then show ?case
    by (cases w) (auto intro!: arg_cong2 [where f = sbind] simp: fun_eq_iff)
qed simp

definition log_writes :: "PBlockId list \<Rightarrow> (u32 \<times> bytes) list \<Rightarrow> writes" where
  "log_writes jb ws = map (\<lambda>(l, bs). (jb ! unat l, bs)) ws"

definition commit_epochs :: "block_mem \<Rightarrow> PBlockId list \<Rightarrow> commit_plan \<Rightarrow> writes \<Rightarrow> (writes \<times> commit_failure) list" where
  "commit_epochs m jb plan homes =
     [([(jb ! 0, splice (m ! unat (jb ! 0)) 0 (pl_active plan))], BeforeCommit),
      (log_writes jb (zip (pl_positions plan) (pl_encoded plan)), BeforeCommit),
      (log_writes jb [(last (pl_positions plan), pl_commit plan)], CommitUncertain),
      (homes, CheckpointFailed)]"

definition tail_epoch :: "block_mem \<Rightarrow> PBlockId list \<Rightarrow> commit_plan \<Rightarrow> (writes \<times> commit_failure) list" where
  "tail_epoch m jb plan = [([(jb ! 0, splice (m ! unat (jb ! 0)) 0 (pl_clean plan))], TailUpdateFailed)]"

lemma commit_io_epochs:
  assumes "cd_pending d = []" "jb \<noteq> []" "unat (jb ! 0) < length (cd_disk d)"
    and "length (pl_active plan) \<le> length (cd_disk d ! unat (jb ! 0))"
    and "length (pl_encoded plan) + 1 = length (pl_positions plan)"
    and "list_all (\<lambda>l. unat l < length jb) (pl_positions plan)"
  shows "commit_io crash_ops d jb plan homes = run_epochs d (commit_epochs (cd_disk d) jb plan homes)"
proof -
  have z: "list_all (\<lambda>(l, bs). unat l < length jb) (zip (pl_positions plan) (pl_encoded plan))"
    using assms(6) by (auto simp: list_all_iff dest: set_zip_leftD)
  have "pl_positions plan \<noteq> []" using assms(5) by auto
  then have l: "list_all (\<lambda>(l, bs). unat l < length jb) [(last (pl_positions plan), pl_commit plan)]"
    using assms(6) by (simp add: list_all_iff)
  show ?thesis
    unfolding commit_io_def commit_epochs_def run_epochs.simps write_log_all [OF z] write_log_all [OF l]
      write_journal_superblock_crash [OF assms(1-4)] log_writes_def sbind_unit
    using assms(5) by simp
qed

lemma clear_tail_epoch:
  assumes "cd_pending d = []" "jb \<noteq> []" "unat (jb ! 0) < length (cd_disk d)"
    and "length (pl_clean plan) \<le> length (cd_disk d ! unat (jb ! 0))"
  shows "clear_tail crash_ops d jb plan = run_epochs d (tail_epoch (cd_disk d) jb plan)"
  unfolding clear_tail_def tail_epoch_def run_epochs.simps write_journal_superblock_crash [OF assms] sbind_unit
  by (rule refl)

end
