(* ===== verification/Crash_Atomicity.thy ===== *)
theory Crash_Atomicity
  imports Journal_Crash
begin

text \<open>
  The crash theorem of the journal: whatever a loss of power during \<^verbatim>\<open>commit_journal\<close>
  (\<^verbatim>\<open>src/ext4/journal_transaction.rs\<close>) leaves on the medium, \<^verbatim>\<open>recover\<close>
  (\<^verbatim>\<open>src/ext4/journal_recovery.rs\<close>) makes it the state before the transaction or the state after it.
\<close>

section \<open>The slots of a transaction\<close>

definition log_pos :: "journal_context \<Rightarrow> nat \<Rightarrow> u32" where
  "log_pos c j = (nxt (jc_superblock c) ^^ j) (jc_head c)"

definition slot_block :: "journal_context \<Rightarrow> nat \<Rightarrow> PBlockId" where
  "slot_block c j = jc_logical_blocks c ! unat (log_pos c j)"

abbreviation ring_ix :: "journal_context \<Rightarrow> u32 \<Rightarrow> nat" where
  "ring_ix c p \<equiv> unat (jc_logical_blocks c ! unat p)"

definition slot_writes :: "journal_context \<Rightarrow> bytes list \<Rightarrow> nat \<Rightarrow> nat \<Rightarrow> writes" where
  "slot_writes c blocks k l = map (\<lambda>j. (slot_block c j, blocks ! j)) [k..<l]"

lemma ring_position:
  assumes ready: "journal_ready m0 c k" and "pos_ok (jc_superblock c) p"
  shows "unat p < length (jc_logical_blocks c)" "ring_ix c p < length m0" "p \<noteq> 0"
proof -
  note f = journal_ready_facts [OF ready]
  show l: "unat p < length (jc_logical_blocks c)" using assms f(3) by (simp add: pos_ok_unat)
  then show "ring_ix c p < length m0" using ready by (simp add: journal_ready_def list_all_length)
  show "p \<noteq> 0" using assms(2) f(1) by (auto simp: ring_ok_def pos_ok_def)
qed

lemma ring_ix_inj:
  assumes ready: "journal_ready m0 c k" and "pos_ok (jc_superblock c) p" "pos_ok (jc_superblock c) q" "ring_ix c p = ring_ix c q"
  shows "p = q"
proof -
  have "jc_logical_blocks c ! unat p = jc_logical_blocks c ! unat q" using assms(4) by (simp add: unat_inject)
  then have "unat p = unat q"
    using ring_position(1) [OF ready] assms(2,3) ready by (simp add: journal_ready_def nth_eq_iff_index_eq)
  then show ?thesis by (simp add: unat_inject)
qed

lemma ring_ix_not_head:
  assumes ready: "journal_ready m0 c k" and p: "pos_ok (jc_superblock c) p"
  shows "ring_ix c p \<noteq> unat (jc_logical_blocks c ! 0)"
proof
  assume e: "ring_ix c p = unat (jc_logical_blocks c ! 0)"
  then have "jc_logical_blocks c ! unat p = jc_logical_blocks c ! 0" by (simp add: unat_inject)
  then have "unat p = 0"
    using ring_position(1) [OF ready p] ready journal_ready_facts(4) [OF ready]
    by (simp add: journal_ready_def nth_eq_iff_index_eq)
  then show False using ring_position(3) [OF ready p] by (simp add: unat_eq_0)
qed

lemma log_pos_ok: "journal_ready m0 c k \<Longrightarrow> pos_ok (jc_superblock c) (log_pos c j)"
  unfolding log_pos_def using journal_ready_facts(1,2) by (blast intro: nxt_iter_ok)

lemma log_pos_inj:
  "journal_ready m0 c k \<Longrightarrow> log_pos c i = log_pos c j \<Longrightarrow> i < ring_size (jc_superblock c) \<Longrightarrow> j < ring_size (jc_superblock c) \<Longrightarrow> i = j"
  unfolding log_pos_def using nxt_iter_inj journal_ready_facts(1,2) by blast

lemma slot_block_ix: "unat (slot_block c j) = ring_ix c (log_pos c j)"
  by (simp add: slot_block_def)

lemma slot_ix_inj:
  assumes "journal_ready m0 c n" "i < ring_size (jc_superblock c)" "j < ring_size (jc_superblock c)"
    and "slot_block c i = slot_block c j"
  shows "i = j"
  using ring_ix_inj [OF assms(1) log_pos_ok [OF assms(1)] log_pos_ok [OF assms(1)]] log_pos_inj assms
  by (metis slot_block_ix)

section \<open>What a crash leaves of the log\<close>

text \<open>The first \<open>k\<close> blocks of the transaction are in the log, those up to \<open>l\<close> perhaps; everywhere else
  the ring is as before.\<close>

definition log_upto :: "block_mem \<Rightarrow> journal_context \<Rightarrow> bytes list \<Rightarrow> nat \<Rightarrow> nat \<Rightarrow> block_mem \<Rightarrow> bool" where
  "log_upto m0 c blocks k l m \<longleftrightarrow> length m = length m0 \<and>
     (\<forall>j < l. m ! unat (slot_block c j) = blocks ! j \<or>
        k \<le> j \<and> m ! unat (slot_block c j) = m0 ! unat (slot_block c j)) \<and>
     (\<forall>p. pos_ok (jc_superblock c) p \<longrightarrow> (\<forall>j < l. p \<noteq> log_pos c j) \<longrightarrow> m ! ring_ix c p = m0 ! ring_ix c p)"

text \<open>A medium that differs from another at most in some of the given writes.\<close>

definition perhaps_written :: "block_mem \<Rightarrow> writes \<Rightarrow> block_mem \<Rightarrow> bool" where
  "perhaps_written m ws m' \<longleftrightarrow> length m' = length m \<and>
     (\<forall>i < length m. m' ! i = m ! i \<or> (\<exists>b bs. (b, bs) \<in> set ws \<and> unat b = i \<and> m' ! i = bs))"

lemma crash_image_perhaps:
  "crash_image d m \<Longrightarrow> set (cd_pending d) \<subseteq> set (as_blocks ws) \<Longrightarrow> perhaps_written (cd_disk d) ws m"
  unfolding crash_image_def perhaps_written_def as_blocks_def
  by (fastforce simp: block_new_def)

lemma apply_writes_perhaps: "perhaps_written m ws (apply_writes m (as_blocks ws))"
proof (induction ws arbitrary: m)
  case Nil
  then show ?case by (simp add: perhaps_written_def)
next
  case (Cons w ws)
  obtain b bs where w: "w = (b, bs)" by fastforce
  let ?m = "m[unat b := bs]"
  show ?case
    unfolding perhaps_written_def
  proof (intro conjI allI impI)
    fix i assume i: "i < length m"
    then have "apply_writes m (as_blocks (w # ws)) ! i = ?m ! i \<or>
        (\<exists>b bs. (b, bs) \<in> set ws \<and> unat b = i \<and> apply_writes m (as_blocks (w # ws)) ! i = bs)"
      using Cons [of ?m] by (simp add: perhaps_written_def w block_new_def)
    moreover have "?m ! i = m ! i \<or> (unat b = i \<and> ?m ! i = bs)" using i by (cases "unat b = i") simp_all
    ultimately show "apply_writes m (as_blocks (w # ws)) ! i = m ! i \<or>
        (\<exists>b bs. (b, bs) \<in> set (w # ws) \<and> unat b = i \<and> apply_writes m (as_blocks (w # ws)) ! i = bs)"
      unfolding w by (metis list.set_intros(1,2))
  qed simp
qed

lemma perhaps_written_at:
  "perhaps_written m ws m' \<Longrightarrow> i < length m \<Longrightarrow> (\<And>b bs. (b, bs) \<in> set ws \<Longrightarrow> unat b \<noteq> i) \<Longrightarrow> m' ! i = m ! i"
  unfolding perhaps_written_def by fast

lemma log_upto_step:
  assumes ready: "journal_ready m0 c n" and up: "log_upto m0 c blocks k k m"
    and pw: "perhaps_written m (slot_writes c blocks k l) m'" and kl: "k \<le> l" "l \<le> ring_size (jc_superblock c)"
  shows "log_upto m0 c blocks k l m'"
proof -
  have lm: "length m = length m0" and lm': "length m' = length m0"
    using up pw by (simp_all add: log_upto_def perhaps_written_def)
  have lt: "unat (slot_block c j) < length m" for j
    unfolding slot_block_ix lm by (rule ring_position(2) [OF ready log_pos_ok [OF ready]])
  have w: "(b, bs) \<in> set (slot_writes c blocks k l) \<longleftrightarrow> (\<exists>j. k \<le> j \<and> j < l \<and> b = slot_block c j \<and> bs = blocks ! j)"
    for b bs by (auto simp: slot_writes_def)
  have new: "m' ! unat (slot_block c j) = m ! unat (slot_block c j) \<or>
      k \<le> j \<and> m' ! unat (slot_block c j) = blocks ! j" if j: "j < l" for j
  proof -
    have "m' ! unat (slot_block c j) = m ! unat (slot_block c j) \<or>
        (\<exists>i. k \<le> i \<and> i < l \<and> slot_block c i = slot_block c j \<and> m' ! unat (slot_block c j) = blocks ! i)"
      using pw lt [of j] unfolding perhaps_written_def by (fastforce simp: w unat_inject)
    then show ?thesis using slot_ix_inj [OF ready] j kl(2) by (metis less_le_trans)
  qed
  have old: "m ! unat (slot_block c j) = m0 ! unat (slot_block c j)" if j: "k \<le> j" "j < l" for j
  proof -
    have "log_pos c j \<noteq> log_pos c i" if "i < k" for i
      using log_pos_inj [OF ready, of j i] j kl(2) that by linarith
    then show ?thesis using up log_pos_ok [OF ready, of j] unfolding log_upto_def slot_block_ix by blast
  qed
  have rest: "m' ! ring_ix c p = m0 ! ring_ix c p" if p: "pos_ok (jc_superblock c) p" "\<forall>j < l. p \<noteq> log_pos c j" for p
  proof -
    have "m' ! ring_ix c p = m ! ring_ix c p"
    proof (rule perhaps_written_at [OF pw])
      show "ring_ix c p < length m" unfolding lm by (rule ring_position(2) [OF ready p(1)])
      fix b bs assume "(b, bs) \<in> set (slot_writes c blocks k l)"
      then show "unat b \<noteq> ring_ix c p"
        using ring_ix_inj [OF ready log_pos_ok [OF ready] p(1)] p(2) unfolding w by (metis slot_block_ix)
    qed
    also have "\<dots> = m0 ! ring_ix c p" using up p kl(1) unfolding log_upto_def by auto
    finally show ?thesis .
  qed
  show ?thesis
    unfolding log_upto_def
  proof (intro conjI allI impI lm' rest)
    fix j assume j: "j < l"
    show "m' ! unat (slot_block c j) = blocks ! j \<or>
        k \<le> j \<and> m' ! unat (slot_block c j) = m0 ! unat (slot_block c j)"
    proof (cases "k \<le> j")
      case True
      then show ?thesis using new [OF j] old [OF True j] by auto
    next
      case False
      then have "m ! unat (slot_block c j) = blocks ! j" using up unfolding log_upto_def by auto
      then show ?thesis using new [OF j] False by auto
    qed
  qed auto
qed

section \<open>The journal superblock of a running transaction\<close>

text \<open>What the log depends on is not touched by the position at which it begins.\<close>

lemma nxt_start [simp]: "nxt (sb\<lparr>js_start := h\<rparr>) = nxt sb"
  by (simp add: fun_eq_iff nxt_def)

lemma ring_start [simp]:
  "pos_ok (sb\<lparr>js_start := h\<rparr>) = pos_ok sb" "ring_size (sb\<lparr>js_start := h\<rparr>) = ring_size sb"
  by (simp_all add: fun_eq_iff pos_ok_def ring_size_def)

lemma ring_ok_start: "ring_ok sb \<Longrightarrow> pos_ok sb h \<Longrightarrow> ring_ok (sb\<lparr>js_start := h\<rparr>)"
  by (simp add: ring_ok_def pos_ok_def)

lemma enc_tags_start [simp]: "enc_tags (sb\<lparr>js_start := h\<rparr>) seed sq n i ss = enc_tags sb seed sq n i ss"
  by (induction ss arbitrary: i) simp_all

lemma log_descriptor_start [simp]: "log_descriptor (sb\<lparr>js_start := h\<rparr>) = log_descriptor sb"
  by (intro ext) (simp add: log_descriptor_def log_descriptor_raw_def cong: if_cong)

lemma log_start [simp]:
  "log_commit (sb\<lparr>js_start := h\<rparr>) = log_commit sb" "group_ok (sb\<lparr>js_start := h\<rparr>) = group_ok sb"
  "log_blocks (sb\<lparr>js_start := h\<rparr>) = log_blocks sb"
  by (simp_all add: fun_eq_iff log_commit_def group_ok_def log_blocks_def Let_def cong: if_cong)

definition sb_block :: "bytes \<Rightarrow> features \<Rightarrow> u32 \<Rightarrow> u32 \<Rightarrow> bytes" where
  "sb_block raw fts sq start = sb_updated (take 1024 raw) fts sq start @ drop 1024 raw"

lemma length_sb_block [simp]: "1024 \<le> length raw \<Longrightarrow> length (sb_block raw fts sq start) = length raw"
  by (simp add: sb_block_def)

lemma splice_sb_block:
  assumes "1024 \<le> length raw"
  shows "splice raw 0 (sb_updated (take 1024 raw) fts sq start) = sb_block raw fts sq start"
    "splice (sb_block raw fts sq' start') 0 (sb_updated (take 1024 raw) fts sq start) = sb_block raw fts sq start"
  using assms by (simp_all add: sb_block_def splice_def)

lemma sb_block_parse:
  assumes p: "jsuperblock_parse raw n = Inr sb" and l: "1024 \<le> length raw"
    and r: "ring_ok (sb\<lparr>js_start := start\<rparr>)"
  shows "jsuperblock_parse (sb_block raw (js_features sb) sq start) n = Inr (sb\<lparr>js_sequence := sq, js_start := start\<rparr>)"
proof -
  have "jsuperblock_parse (take 1024 raw) n = Inr sb" using jsuperblock_parse_take [OF l] p by simp
  from sb_updated_parse [OF this _ r] l
  have "jsuperblock_parse (sb_updated (take 1024 raw) (js_features sb) sq start) n =
      Inr (sb\<lparr>js_sequence := sq, js_start := start\<rparr>)" by simp
  moreover have "take 1024 (sb_block raw (js_features sb) sq start) = sb_updated (take 1024 raw) (js_features sb) sq start"
    using l by (simp add: sb_block_def)
  ultimately show ?thesis using jsuperblock_parse_take [of "sb_block raw (js_features sb) sq start"] l by simp
qed

definition active_sb :: "journal_context \<Rightarrow> jsuperblock" where
  "active_sb c = (jc_superblock c)\<lparr>js_start := jc_head c\<rparr>"

definition active_block :: "block_mem \<Rightarrow> journal_context \<Rightarrow> bytes" where
  "active_block m0 c = sb_block (journal_sb_block m0 (jc_logical_blocks c)) (js_features (jc_superblock c))
     (js_sequence (jc_superblock c)) (jc_head c)"

definition clean_block :: "block_mem \<Rightarrow> journal_context \<Rightarrow> bytes" where
  "clean_block m0 c = sb_block (journal_sb_block m0 (jc_logical_blocks c)) (js_features (jc_superblock c))
     (js_sequence (jc_superblock c) + 1) 0"

lemma sb_on_disk_block:
  assumes ready: "journal_ready m0 c n" and r: "ring_ok ((jc_superblock c)\<lparr>js_start := start\<rparr>)"
    and m: "length m = length m0"
    and b: "journal_sb_block m (jc_logical_blocks c) =
      sb_block (journal_sb_block m0 (jc_logical_blocks c)) (js_features (jc_superblock c)) sq start"
  shows "sb_on_disk m (jc_logical_blocks c) ((jc_superblock c)\<lparr>js_sequence := sq, js_start := start\<rparr>)"
proof -
  have d: "sb_on_disk m0 (jc_logical_blocks c) (jc_superblock c)" using ready by (simp add: journal_ready_def)
  then have "jsuperblock_parse (journal_sb_block m0 (jc_logical_blocks c)) 4096 = Inr (jc_superblock c)"
    and l: "length (journal_sb_block m0 (jc_logical_blocks c)) = BLOCK_SIZE" by (simp_all add: sb_on_disk_def)
  from sb_block_parse [OF this(1) _ r] show ?thesis
    using d l b m by (simp add: sb_on_disk_def) (simp add: BLOCK_SIZE_def)
qed

lemma sb_on_disk_active:
  assumes ready: "journal_ready m0 c n" and "length m = length m0"
    and "journal_sb_block m (jc_logical_blocks c) = active_block m0 c"
  shows "sb_on_disk m (jc_logical_blocks c) (active_sb c)"
proof -
  have "ring_ok ((jc_superblock c)\<lparr>js_start := jc_head c\<rparr>)"
    using journal_ready_facts(1,2) [OF ready] by (rule ring_ok_start)
  moreover have "sb\<lparr>js_sequence := js_sequence sb, js_start := h\<rparr> = sb\<lparr>js_start := h\<rparr>" for sb :: jsuperblock and h
    by (cases sb) simp
  ultimately show ?thesis
    using sb_on_disk_block [OF ready _ assms(2)] assms(3) unfolding active_block_def active_sb_def by metis
qed

lemma sb_on_disk_clean:
  assumes ready: "journal_ready m0 c n" and "length m = length m0"
    and "journal_sb_block m (jc_logical_blocks c) = clean_block m0 c"
  shows "sb_on_disk m (jc_logical_blocks c) ((jc_superblock c)\<lparr>js_sequence := js_sequence (jc_superblock c) + 1, js_start := 0\<rparr>)"
proof -
  have "ring_ok ((jc_superblock c)\<lparr>js_start := 0\<rparr>)"
    using journal_ready_facts(1) [OF ready] by (simp add: ring_ok_def)
  from sb_on_disk_block [OF ready this assms(2)] assms(3) show ?thesis by (simp add: clean_block_def)
qed

section \<open>Recovery of what is left\<close>

definition tx_blocks :: "journal_context \<Rightarrow> (PBlockId, staged_block) btree \<Rightarrow> bytes list" where
  "tx_blocks c staged = log_blocks (jc_superblock c) (checksum_seed (js_uuid (jc_superblock c)))
     (js_sequence (jc_superblock c)) (log_groups (jc_superblock c) staged)"

definition tx_all_blocks :: "journal_context \<Rightarrow> (PBlockId, staged_block) btree \<Rightarrow> bytes list" where
  "tx_all_blocks c staged = tx_blocks c staged @ [log_commit (jc_superblock c) (js_sequence (jc_superblock c))]"

definition tx_ready :: "block_mem \<Rightarrow> journal_context \<Rightarrow> nat \<Rightarrow> (PBlockId, staged_block) btree \<Rightarrow> bool" where
  "tx_ready m0 c n staged \<longleftrightarrow> journal_ready m0 c n \<and> staged_all_ok staged \<and>
     list_all (group_ok (jc_superblock c)) (log_groups (jc_superblock c) staged) \<and>
     length (tx_blocks c staged) + 1 \<le> ring_size (jc_superblock c) \<and>
     list_all (\<lambda>s. st_home s < jc_target_blocks c \<and> st_home s \<notin> jc_journal_blocks c) (map snd staged)"

lemma journal_plan_ready:
  "journal_ready m0 c n \<Longrightarrow> staged_all_ok staged \<Longrightarrow> journal_plan True c staged = Inr plan \<Longrightarrow> tx_ready m0 c n staged"
  unfolding tx_ready_def tx_blocks_def using journal_plan_facts(1,2,8) by blast

lemma length_log_block:
  "list_all (group_ok sb) gs \<Longrightarrow> b \<in> set (log_blocks sb seed sq gs) \<Longrightarrow> length b = BLOCK_SIZE"
  by (induction gs) (auto simp: group_blocks_def length_log_descriptor group_ok_def list_all_iff)

lemma length_tx_all [simp]: "length (tx_all_blocks c staged) = length (tx_blocks c staged) + 1"
  by (simp add: tx_all_blocks_def)

lemma tx_all_block_length:
  assumes "tx_ready m0 c n staged" "j < length (tx_blocks c staged) + 1"
  shows "length (tx_all_blocks c staged ! j) = BLOCK_SIZE"
proof -
  have "tx_all_blocks c staged ! j \<in> set (tx_all_blocks c staged)" using assms(2) by simp
  then show ?thesis
    using assms(1) length_log_block unfolding tx_ready_def tx_all_blocks_def tx_blocks_def by fastforce
qed

lemma tx_homes_ok:
  assumes t: "tx_ready m0 c n staged" and m: "length m = length m0"
  shows "homes_ok m (jc_logical_blocks c) (jc_journal_blocks c) (jc_target_blocks c) (map snd staged)"
proof -
  have l: "unat (st_home s) < length m" if "st_home s < jc_target_blocks c" for s :: staged_block
    using t that m by (simp add: tx_ready_def journal_ready_def word_less_nat_alt)
  have s: "list_all staged_ok (map snd staged)" using t by (auto simp: tx_ready_def staged_all_ok_def list_all_iff)
  show ?thesis
    using t s l by (simp add: homes_ok_def tx_ready_def journal_ready_def list_all_iff)
qed

lemma slot_of_active: "log_slot (active_sb c) j = log_pos c j"
  by (simp add: log_slot_def active_sb_def log_pos_def)

lemma active_ring: "pos_ok (active_sb c) = pos_ok (jc_superblock c)" "ring_size (active_sb c) = ring_size (jc_superblock c)"
  "js_sequence (active_sb c) = js_sequence (jc_superblock c)" "js_uuid (active_sb c) = js_uuid (jc_superblock c)"
  "log_blocks (active_sb c) = log_blocks (jc_superblock c)" "log_commit (active_sb c) = log_commit (jc_superblock c)"
  "group_ok (active_sb c) = group_ok (jc_superblock c)" "js_start (active_sb c) = jc_head c" "nxt (active_sb c) = nxt (jc_superblock c)"
  by (simp_all add: active_sb_def)

lemma log_upto_lengths:
  assumes t: "tx_ready m0 c n staged" and u: "log_upto m0 c (tx_all_blocks c staged) k l m"
    and l: "l \<le> length (tx_blocks c staged) + 1" and p: "pos_ok (jc_superblock c) p"
  shows "length (m ! ring_ix c p) = BLOCK_SIZE"
proof -
  have r: "journal_ready m0 c n" using t by (simp add: tx_ready_def)
  have old: "length (m0 ! ring_ix c p) = BLOCK_SIZE"
    using r ring_position(2) [OF r p] by (simp add: journal_ready_def list_all_length)
  show ?thesis
  proof (cases "\<exists>j < l. p = log_pos c j")
    case True
    then obtain j where j: "j < l" "p = log_pos c j" by blast
    then have "m ! ring_ix c p = tx_all_blocks c staged ! j \<or> m ! ring_ix c p = m0 ! ring_ix c p"
      using u unfolding log_upto_def slot_block_ix by blast
    then show ?thesis using old tx_all_block_length [OF t, of j] j(1) l by auto
  next
    case False
    then have "m ! ring_ix c p = m0 ! ring_ix c p" using u p unfolding log_upto_def by blast
    then show ?thesis using old by simp
  qed
qed

lemma tx_log_upto:
  assumes t: "tx_ready m0 c n staged" and u: "log_upto m0 c (tx_all_blocks c staged) k l m"
    and l: "l \<le> length (tx_blocks c staged) + 1"
  shows "tx_log m (jc_logical_blocks c) (jc_journal_blocks c) (jc_target_blocks c) (active_sb c)
    (\<lambda>p. m ! ring_ix c p) (log_groups (jc_superblock c) staged)"
proof -
  have r: "journal_ready m0 c n" using t by (simp add: tx_ready_def)
  have m: "length m = length m0" using u by (simp add: log_upto_def)
  have "log_holds m (jc_logical_blocks c) (active_sb c) (\<lambda>p. m ! ring_ix c p)"
    unfolding log_holds_def active_ring m
    using ring_position(1,2) [OF r] log_upto_lengths [OF t u l] by blast
  moreover have "ring_ok (active_sb c)"
    unfolding active_sb_def using journal_ready_facts(1,2) [OF r] by (rule ring_ok_start)
  ultimately show ?thesis
    using t tx_homes_ok [OF t m] journal_ready_facts(7) [OF r]
    unfolding tx_log_def active_ring concat_log_groups by (simp add: tx_ready_def tx_blocks_def)
qed

text \<open>The sequence number of the transaction, and the next one, are new to the ring.\<close>

lemma ring_is_fresh:
  assumes "journal_ready m0 c n" "pos_ok (jc_superblock c) p"
  shows "fresh_block (js_sequence (jc_superblock c)) (m0 ! ring_ix c p)"
    "1 \<le> n \<Longrightarrow> fresh_block (js_sequence (jc_superblock c) + 1) (m0 ! ring_ix c p)"
proof -
  have f: "fresh_block (js_sequence (jc_superblock c) + word_of_nat j) (m0 ! ring_ix c p)" if "j \<le> n" for j
    using assms that by (simp add: journal_ready_def ring_fresh_def ring_block_def)
  show "fresh_block (js_sequence (jc_superblock c)) (m0 ! ring_ix c p)" using f [of 0] by simp
  show "fresh_block (js_sequence (jc_superblock c) + 1) (m0 ! ring_ix c p)" if "1 \<le> n" using f [OF that] by simp
qed

abbreviation recover_on :: "journal_context \<Rightarrow> block_mem \<Rightarrow> block_mem \<times> recovery_stats res" where
  "recover_on c m \<equiv> recover (recovery_device mem_ops (jc_logical_blocks c) (jc_journal_blocks c) (jc_target_blocks c)) m"

lemma recover_uncommitted:
  assumes t: "tx_ready m0 c n staged"
    and u: "log_upto m0 c (tx_all_blocks c staged) k (length (tx_blocks c staged) + 1) m"
    and nc: "m ! unat (slot_block c (length (tx_blocks c staged))) = m0 ! unat (slot_block c (length (tx_blocks c staged)))"
    and b: "journal_sb_block m (jc_logical_blocks c) = active_block m0 c"
  shows "\<exists>x st. recover_on c m = (m[unat (jc_logical_blocks c ! 0) := x], Inr st)"
proof -
  let ?sb = "active_sb c" and ?N = "length (tx_blocks c staged)" and ?J = "\<lambda>p. m ! ring_ix c p"
  have r: "journal_ready m0 c n" using t by (simp add: tx_ready_def)
  have m: "length m = length m0" using u by (simp add: log_upto_def)
  note log = tx_log_upto [OF t u order.refl]
  have d: "sb_on_disk m (jc_logical_blocks c) ?sb" by (rule sb_on_disk_active [OF r m b])
  have new: "fresh_block (js_sequence (jc_superblock c)) (m0 ! ring_ix c (log_pos c j))" for j
    by (rule ring_is_fresh(1) [OF r log_pos_ok [OF r]])
  have part: "log_partial ?sb ?J (js_sequence ?sb) (js_start ?sb) (tx_blocks c staged)"
    unfolding log_partial_def active_ring log_pos_def [symmetric]
  proof (intro allI impI)
    fix j assume j: "j < ?N"
    then have "?J (log_pos c j) = tx_all_blocks c staged ! j \<or> ?J (log_pos c j) = m0 ! ring_ix c (log_pos c j)"
      using u unfolding log_upto_def slot_block_ix by (metis less_Suc_eq Suc_eq_plus1)
    then show "?J (log_pos c j) = tx_blocks c staged ! j \<or>
        fresh_block (js_sequence (jc_superblock c)) (?J (log_pos c j))"
      using new [of j] j by (auto simp: tx_all_blocks_def nth_append)
  qed
  have "fresh_block (js_sequence ?sb) (?J (log_slot ?sb ?N))"
    using new [of ?N] nc unfolding slot_of_active active_ring slot_block_ix by simp
  then have p: "recover_passes (mem_io (jc_logical_blocks c) (jc_journal_blocks c) (jc_target_blocks c)) m ?sb =
      (m, Inr (js_sequence ?sb, stats_default))"
    using recover_passes_incomplete [OF log] part unfolding active_ring tx_blocks_def by blast
  have "js_start ?sb \<noteq> 0" using journal_ready_facts(7) [OF r] by (simp add: active_ring)
  from recover_run [OF d this p] show ?thesis by blast
qed

lemma recover_committed:
  assumes t: "tx_ready m0 c n staged" and n: "1 \<le> n"
    and u: "log_upto m0 c (tx_all_blocks c staged) (length (tx_blocks c staged) + 1) (length (tx_blocks c staged) + 1) m"
    and b: "journal_sb_block m (jc_logical_blocks c) = active_block m0 c"
  shows "\<exists>x st. recover_on c m = ((write_home_images m (map snd staged))[unat (jc_logical_blocks c ! 0) := x], Inr st)"
proof -
  let ?sb = "active_sb c" and ?N = "length (tx_blocks c staged)" and ?J = "\<lambda>p. m ! ring_ix c p"
  have r: "journal_ready m0 c n" using t by (simp add: tx_ready_def)
  have m: "length m = length m0" using u by (simp add: log_upto_def)
  note log = tx_log_upto [OF t u order.refl]
  have d: "sb_on_disk m (jc_logical_blocks c) ?sb" by (rule sb_on_disk_active [OF r m b])
  have at: "log_at ?sb ?J (js_start ?sb) (tx_all_blocks c staged)"
    unfolding log_at_def active_ring log_pos_def [symmetric] slot_block_ix [symmetric] length_tx_all
    using u unfolding log_upto_def by (metis not_le)
  have fresh: "fresh_block (js_sequence ?sb + 1) (?J p)"
    if p: "pos_ok ?sb p" "\<forall>j \<le> ?N. p \<noteq> log_slot ?sb j" for p
  proof -
    have "?J p = m0 ! ring_ix c p" using u p unfolding log_upto_def active_ring slot_of_active by simp
    then show ?thesis using ring_is_fresh(2) [OF r _ n] p unfolding active_ring by simp
  qed
  obtain st where p: "recover_passes (mem_io (jc_logical_blocks c) (jc_journal_blocks c) (jc_target_blocks c)) m ?sb =
      (write_home_images m (map snd staged), Inr (js_sequence ?sb + 1, st))"
    using recover_passes_complete [OF log] at fresh
    unfolding active_ring tx_blocks_def tx_all_blocks_def concat_log_groups by blast
  have "js_start ?sb \<noteq> 0" using journal_ready_facts(7) [OF r] by (simp add: active_ring)
  from recover_run [OF d this p] show ?thesis by auto
qed

section \<open>The homes\<close>

text \<open>Two media agree outside the journal.\<close>

definition same_homes :: "journal_context \<Rightarrow> block_mem \<Rightarrow> block_mem \<Rightarrow> bool" where
  "same_homes c m m' \<longleftrightarrow> length m' = length m \<and>
     list_all (\<lambda>i. m' ! i = m ! i \<or> word_of_nat i \<in> jc_journal_blocks c) [0..<length m]"

definition off_journal :: "journal_context \<Rightarrow> nat \<Rightarrow> bool" where
  "off_journal c i \<longleftrightarrow> (\<forall>b\<in>jc_journal_blocks c. unat b \<noteq> i)"

lemma same_homesI:
  assumes "length m' = length m" "length m \<le> 2 ^ 64" "\<And>i. i < length m \<Longrightarrow> off_journal c i \<Longrightarrow> m' ! i = m ! i"
  shows "same_homes c m m'"
  unfolding same_homes_def list_all_iff
proof (intro conjI ballI assms(1))
  fix i assume i: "i \<in> set [0..<length m]"
  then have u: "unat (word_of_nat i :: u64) = i" using assms(2) by (simp add: unat_of_nat)
  show "m' ! i = m ! i \<or> word_of_nat i \<in> jc_journal_blocks c"
  proof (cases "off_journal c i")
    case True
    then show ?thesis using assms(3) i by simp
  next
    case False
    then obtain b where "b \<in> jc_journal_blocks c" "unat b = i" by (auto simp: off_journal_def)
    then have "word_of_nat i = b" by auto
    then show ?thesis using \<open>b \<in> jc_journal_blocks c\<close> by simp
  qed
qed

definition committed :: "block_mem \<Rightarrow> (PBlockId, staged_block) btree \<Rightarrow> block_mem" where
  "committed m staged = write_home_images m (map snd staged)"

lemma committed_writes: "committed m staged = apply_writes m (as_blocks (home_images staged))"
proof -
  have "foldl (\<lambda>m s. m[unat (st_home s) := st_image s]) m ss =
      apply_writes m (as_blocks (map (\<lambda>s. (st_home s, st_image s)) ss))" for ss :: "staged_block list"
    by (induction ss arbitrary: m) (simp_all add: block_new_def)
  then show ?thesis by (simp only: committed_def write_home_images_def home_images_def)
qed

lemma write_home_images_agree:
  "length m' = length m \<Longrightarrow> i < length m \<Longrightarrow> m' ! i = m ! i \<or> (\<exists>s\<in>set ss. unat (st_home s) = i) \<Longrightarrow>
   write_home_images m' ss ! i = write_home_images m ss ! i"
proof (induction ss arbitrary: m m')
  case Nil
  then show ?case by (simp add: write_home_images_def)
next
  case (Cons s ss)
  let ?u = "\<lambda>m. m[unat (st_home s) := st_image s]"
  have "?u m' ! i = ?u m ! i \<or> (\<exists>s\<in>set ss. unat (st_home s) = i)"
    using Cons.prems by (cases "unat (st_home s) = i") auto
  then have "write_home_images (?u m') ss ! i = write_home_images (?u m) ss ! i"
    using Cons.IH [of "?u m'" "?u m"] Cons.prems by simp
  then show ?case by (simp add: write_home_images_def)
qed

lemma length_committed [simp]: "length (committed m staged) = length m"
  by (simp add: committed_def)

lemma committed_agree:
  assumes "length m = length m0" "i < length m0"
    and "m ! i = m0 ! i \<or> (\<exists>(b, bs)\<in>set (home_images staged). unat b = i)"
  shows "committed m staged ! i = committed m0 staged ! i"
  unfolding committed_def
  by (rule write_home_images_agree) (use assms in \<open>auto simp: home_images_def\<close>)

section \<open>The epochs of a commit\<close>

definition home_off :: "journal_context \<Rightarrow> (PBlockId, staged_block) btree \<Rightarrow> bool" where
  "home_off c staged \<longleftrightarrow> (\<forall>(b, bs)\<in>set (home_images staged). b \<notin> jc_journal_blocks c)"

lemma commit_epochs_eq:
  assumes ready: "journal_ready m0 c n" and ok: "staged_all_ok staged"
    and plan: "journal_plan True c staged = Inr plan" and m: "journal_sb_block m (jc_logical_blocks c) = active_block m0 c"
  defines "N \<equiv> length (tx_blocks c staged)" and "B \<equiv> tx_all_blocks c staged"
  shows "commit_epochs m0 (jc_logical_blocks c) plan (home_images staged) =
      [([(jc_logical_blocks c ! 0, active_block m0 c)], BeforeCommit),
       (slot_writes c B 0 N, BeforeCommit), (slot_writes c B N (N + 1), CommitUncertain),
       (home_images staged, CheckpointFailed)]"
    "tail_epoch m (jc_logical_blocks c) plan = [([(jc_logical_blocks c ! 0, clean_block m0 c)], TailUpdateFailed)]"
proof -
  note f = journal_plan_facts [OF ready ok plan, folded tx_blocks_def]
  have img: "jc_superblock_image c = take 1024 (journal_sb_block m0 (jc_logical_blocks c))"
    and l: "1024 \<le> length (journal_sb_block m0 (jc_logical_blocks c))"
    using ready by (simp_all add: journal_ready_def sb_on_disk_def BLOCK_SIZE_def)
  have pos: "pl_positions plan = map (log_pos c) [0..<N + 1]"
    using f(4) by (simp add: N_def log_pos_def)
  have z: "log_writes (jc_logical_blocks c) (zip (pl_positions plan) (pl_encoded plan)) = slot_writes c B 0 N"
    unfolding log_writes_def slot_writes_def
    by (rule nth_equalityI) (simp_all add: pos f(3) N_def B_def tx_all_blocks_def slot_block_def nth_append del: upt_Suc)
  have c: "log_writes (jc_logical_blocks c) [(last (pl_positions plan), pl_commit plan)] = slot_writes c B N (N + 1)"
    by (simp add: log_writes_def slot_writes_def pos f(5) N_def B_def tx_all_blocks_def slot_block_def nth_append)
  have s: "splice (journal_sb_block m0 (jc_logical_blocks c)) 0 (pl_active plan) = active_block m0 c"
    "splice (journal_sb_block m (jc_logical_blocks c)) 0 (pl_clean plan) = clean_block m0 c"
    unfolding f(6,7) img m active_block_def clean_block_def by (rule splice_sb_block [OF l])+
  show "commit_epochs m0 (jc_logical_blocks c) plan (home_images staged) =
      [([(jc_logical_blocks c ! 0, active_block m0 c)], BeforeCommit),
       (slot_writes c B 0 N, BeforeCommit), (slot_writes c B N (N + 1), CommitUncertain),
       (home_images staged, CheckpointFailed)]"
    using s(1) z c by (simp add: commit_epochs_def journal_sb_block_def)
  show "tail_epoch m (jc_logical_blocks c) plan = [([(jc_logical_blocks c ! 0, clean_block m0 c)], TailUpdateFailed)]"
    using s(2) by (simp add: tail_epoch_def journal_sb_block_def)
qed

section \<open>The medium during a commit\<close>

text \<open>How far the log is written, the superblock of the journal, and the blocks outside the journal.\<close>

definition medium :: "block_mem \<Rightarrow> journal_context \<Rightarrow> bytes list \<Rightarrow> nat \<Rightarrow> nat \<Rightarrow> bytes \<Rightarrow> block_mem \<Rightarrow> block_mem \<Rightarrow> bool" where
  "medium m0 c blocks k l sbb homes m \<longleftrightarrow> log_upto m0 c blocks k l m \<and>
     journal_sb_block m (jc_logical_blocks c) = sbb \<and>
     (\<forall>i < length m0. off_journal c i \<longrightarrow> m ! i = homes ! i)"

lemma journal_head_block:
  assumes "journal_ready m0 c n"
  shows "unat (jc_logical_blocks c ! 0) < length m0" "\<not> off_journal c (unat (jc_logical_blocks c ! 0))"
    "jc_logical_blocks c ! 0 \<in> jc_journal_blocks c"
proof -
  have ne: "jc_logical_blocks c \<noteq> []" by (rule journal_ready_facts(4) [OF assms])
  then have i: "jc_logical_blocks c ! 0 \<in> set (jc_logical_blocks c)" by simp
  then show b: "jc_logical_blocks c ! 0 \<in> jc_journal_blocks c" using assms by (simp add: journal_ready_def)
  show "unat (jc_logical_blocks c ! 0) < length m0"
    using assms i by (auto simp: journal_ready_def list_all_iff)
  show "\<not> off_journal c (unat (jc_logical_blocks c ! 0))" using b by (auto simp: off_journal_def)
qed

lemma slot_in_journal:
  assumes "journal_ready m0 c n"
  shows "slot_block c j \<in> jc_journal_blocks c" "slot_block c j \<noteq> jc_logical_blocks c ! 0"
    "unat (slot_block c j) < length m0"
proof -
  note p = log_pos_ok [OF assms, of j]
  have "slot_block c j \<in> set (jc_logical_blocks c)"
    unfolding slot_block_def using ring_position(1) [OF assms p] by simp
  then show "slot_block c j \<in> jc_journal_blocks c" using assms by (simp add: journal_ready_def)
  show "slot_block c j \<noteq> jc_logical_blocks c ! 0"
    using ring_ix_not_head [OF assms p] by (auto simp: slot_block_def)
  show "unat (slot_block c j) < length m0" using ring_position(2) [OF assms p] by (simp add: slot_block_def)
qed

lemma medium_head:
  assumes ready: "journal_ready m0 c n" and m: "medium m0 c blocks k l sbb homes m"
    and pw: "perhaps_written m [(jc_logical_blocks c ! 0, x)] m'"
  shows "m' = m \<or> medium m0 c blocks k l x homes m'"
proof -
  let ?i = "unat (jc_logical_blocks c ! 0)"
  have l: "length m = length m0" "length m' = length m0" using m pw by (simp_all add: medium_def log_upto_def perhaps_written_def)
  have eq: "m' ! i = m ! i" if "i < length m0" "i \<noteq> ?i" for i
    by (rule perhaps_written_at [OF pw]) (use that l in auto)
  show ?thesis
  proof (cases "m' ! ?i = m ! ?i")
    case True
    then have "m' = m" using eq l by (intro nth_equalityI) metis+
    then show ?thesis ..
  next
    case False
    then have x: "m' ! ?i = x"
      using pw journal_head_block(1) [OF ready] l unfolding perhaps_written_def by auto
    have slot: "m' ! unat (slot_block c j) = m ! unat (slot_block c j)" for j
      by (rule eq) (use slot_in_journal [OF ready, of j] in \<open>auto simp: unat_inject\<close>)
    have ring: "m' ! ring_ix c p = m ! ring_ix c p" if "pos_ok (jc_superblock c) p" for p
      using eq ring_position(2) [OF ready that] ring_ix_not_head [OF ready that] by simp
    have "log_upto m0 c blocks k l m'" using m l slot ring by (simp add: medium_def log_upto_def)
    moreover have "m' ! i = homes ! i" if "i < length m0" "off_journal c i" for i
      using eq [OF that(1)] m that journal_head_block(2) [OF ready] unfolding medium_def by metis
    ultimately show ?thesis using x by (simp add: medium_def journal_sb_block_def)
  qed
qed

lemma medium_head_done:
  assumes ready: "journal_ready m0 c n" and m: "medium m0 c blocks k l sbb homes m"
  shows "medium m0 c blocks k l x homes (apply_writes m (as_blocks [(jc_logical_blocks c ! 0, x)]))"
proof -
  let ?m = "apply_writes m (as_blocks [(jc_logical_blocks c ! 0, x)])"
  have l: "length m = length m0" using m by (simp add: medium_def log_upto_def)
  have x: "journal_sb_block ?m (jc_logical_blocks c) = x"
    using journal_head_block(1) [OF ready] l by (simp add: journal_sb_block_def block_new_def)
  from medium_head [OF ready m apply_writes_perhaps [of m]] show ?thesis
  proof
    assume "?m = m"
    then show ?thesis using m x by (simp add: medium_def)
  qed
qed

lemma medium_slots:
  assumes ready: "journal_ready m0 c n" and m: "medium m0 c blocks k k sbb homes m"
    and pw: "perhaps_written m (slot_writes c blocks k l) m'" and kl: "k \<le> l" "l \<le> ring_size (jc_superblock c)"
  shows "medium m0 c blocks k l sbb homes m'"
proof -
  have l: "length m = length m0" using m by (simp add: medium_def log_upto_def)
  have eq: "m' ! i = m ! i" if "i < length m0" "\<And>j. unat (slot_block c j) \<noteq> i" for i
    by (rule perhaps_written_at [OF pw]) (use that l in \<open>auto simp: slot_writes_def\<close>)
  have "log_upto m0 c blocks k l m'"
    using log_upto_step [OF ready _ pw kl] m by (simp add: medium_def)
  moreover have "journal_sb_block m' (jc_logical_blocks c) = sbb"
    using eq [OF journal_head_block(1) [OF ready]] slot_in_journal(2) [OF ready] m
    by (simp add: medium_def journal_sb_block_def unat_inject)
  moreover have "m' ! i = homes ! i" if i: "i < length m0" "off_journal c i" for i
  proof -
    have "m' ! i = m ! i" by (rule eq [OF i(1)]) (use i(2) slot_in_journal(1) [OF ready] in \<open>auto simp: off_journal_def\<close>)
    then show ?thesis using m i by (simp add: medium_def)
  qed
  ultimately show ?thesis by (simp add: medium_def)
qed

lemma medium_slots_done:
  assumes ready: "journal_ready m0 c n" and m: "medium m0 c blocks k k sbb homes m"
    and kl: "k \<le> l" "l \<le> ring_size (jc_superblock c)"
  shows "medium m0 c blocks l l sbb homes (apply_writes m (as_blocks (slot_writes c blocks k l)))"
proof -
  let ?ws = "as_blocks (slot_writes c blocks k l)"
  let ?m = "apply_writes m ?ws"
  have l: "length m = length m0" using m by (simp add: medium_def log_upto_def)
  have mk: "medium m0 c blocks k l sbb homes ?m"
    by (rule medium_slots [OF ready m apply_writes_perhaps kl])
  have "inj_on (slot_block c) (set [k..<l])"
  proof (rule inj_onI)
    fix i j assume "i \<in> set [k..<l]" "j \<in> set [k..<l]" "slot_block c i = slot_block c j"
    then show "i = j" using slot_ix_inj [OF ready, of i j] kl(2) by simp
  qed
  then have "distinct (map (slot_block c) [k..<l])" by (simp add: distinct_map)
  then have d: "distinct (map blk_id ?ws)"
    by (simp add: as_blocks_def slot_writes_def block_new_def comp_def)
  have new: "?m ! unat (slot_block c j) = blocks ! j" if j: "k \<le> j" "j < l" for j
  proof -
    have "block_new (slot_block c j) (blocks ! j) \<in> set ?ws" using j by (auto simp: as_blocks_def slot_writes_def)
    from apply_writes_in [OF d this] slot_in_journal(3) [OF ready, of j] l show ?thesis by (simp add: block_new_def)
  qed
  have "log_upto m0 c blocks l l ?m"
    using mk new unfolding medium_def log_upto_def by blast
  then show ?thesis using mk by (simp add: medium_def)
qed

lemma medium_homes:
  assumes ready: "journal_ready m0 c n" and m: "medium m0 c blocks k k sbb m0 m"
    and pw: "perhaps_written m (home_images staged) m'" and off: "home_off c staged"
  shows "log_upto m0 c blocks k k m' \<and> journal_sb_block m' (jc_logical_blocks c) = sbb \<and>
    (\<forall>i < length m0. off_journal c i \<longrightarrow> m' ! i = m0 ! i \<or> (\<exists>(b, bs)\<in>set (home_images staged). unat b = i))"
proof -
  have l: "length m = length m0" "length m' = length m0" using m pw by (simp_all add: medium_def log_upto_def perhaps_written_def)
  have eq: "m' ! unat b = m ! unat b" if "b \<in> jc_journal_blocks c" "unat b < length m0" for b
    by (rule perhaps_written_at [OF pw]) (use that l off in \<open>auto simp: home_off_def unat_inject\<close>)
  have slot: "m' ! unat (slot_block c j) = m ! unat (slot_block c j)" for j
    using eq slot_in_journal(1,3) [OF ready] by blast
  have ring: "m' ! ring_ix c p = m ! ring_ix c p" if p: "pos_ok (jc_superblock c) p" for p
  proof (rule eq [OF _ ring_position(2) [OF ready p]])
    show "jc_logical_blocks c ! unat p \<in> jc_journal_blocks c"
      using nth_mem [OF ring_position(1) [OF ready p]] ready unfolding journal_ready_def by metis
  qed
  have "log_upto m0 c blocks k k m'" using m l slot ring by (simp add: medium_def log_upto_def)
  moreover have "journal_sb_block m' (jc_logical_blocks c) = sbb"
    using eq [OF journal_head_block(3,1) [OF ready]] m by (simp add: medium_def journal_sb_block_def)
  moreover have "m' ! i = m0 ! i \<or> (\<exists>(b, bs)\<in>set (home_images staged). unat b = i)"
    if "i < length m0" "off_journal c i" for i
  proof -
    have "m ! i = m0 ! i" using m that by (simp add: medium_def)
    moreover have "m' ! i = m ! i \<or> (\<exists>b bs. (b, bs) \<in> set (home_images staged) \<and> unat b = i)"
      using pw that l by (auto simp: perhaps_written_def)
    ultimately show ?thesis by auto
  qed
  ultimately show ?thesis by blast
qed

section \<open>Every crash state recovers\<close>

lemma log_upto_old:
  assumes ready: "journal_ready m0 c n" and u: "log_upto m0 c blocks k l m"
    and j: "l \<le> j" "j < ring_size (jc_superblock c)"
  shows "m ! unat (slot_block c j) = m0 ! unat (slot_block c j)"
proof -
  have "log_pos c j \<noteq> log_pos c i" if "i < l" for i
    using log_pos_inj [OF ready, of j i] j that by linarith
  then show ?thesis using u log_pos_ok [OF ready, of j] unfolding log_upto_def slot_block_ix by blast
qed

lemma log_upto_widen:
  assumes ready: "journal_ready m0 c n" and u: "log_upto m0 c blocks k l m"
    and l': "k \<le> l" "l \<le> l'" "l' \<le> ring_size (jc_superblock c)"
  shows "log_upto m0 c blocks k l' m"
  unfolding log_upto_def
proof (intro conjI allI impI)
  show "length m = length m0" using u by (simp add: log_upto_def)
next
  fix j assume j: "j < l'"
  show "m ! unat (slot_block c j) = blocks ! j \<or> k \<le> j \<and> m ! unat (slot_block c j) = m0 ! unat (slot_block c j)"
  proof (cases "j < l")
    case True
    then show ?thesis using u by (simp add: log_upto_def)
  next
    case False
    then show ?thesis using log_upto_old [OF ready u, of j] j l' by auto
  qed
next
  fix p assume "pos_ok (jc_superblock c) p" "\<forall>j < l'. p \<noteq> log_pos c j"
  then show "m ! ring_ix c p = m0 ! ring_ix c p" using u l'(2) by (auto simp: log_upto_def)
qed

lemma same_homes_head: "journal_ready m0 c n \<Longrightarrow> length m0 \<le> 2 ^ 64 \<Longrightarrow> length m = length m0 \<Longrightarrow>
    (\<And>i. i < length m0 \<Longrightarrow> off_journal c i \<Longrightarrow> m ! i = homes ! i) \<Longrightarrow> length homes = length m0 \<Longrightarrow>
    same_homes c homes (m[unat (jc_logical_blocks c ! 0) := x])"
proof (rule same_homesI)
  fix i assume a: "journal_ready m0 c n" "length m = length m0" "length homes = length m0"
    "\<And>i. i < length m0 \<Longrightarrow> off_journal c i \<Longrightarrow> m ! i = homes ! i" "i < length homes" "off_journal c i"
  then have "i \<noteq> unat (jc_logical_blocks c ! 0)" using journal_head_block(2) [OF a(1)] by auto
  then show "m[unat (jc_logical_blocks c ! 0) := x] ! i = homes ! i" using a by simp
qed simp_all

lemma same_homes_refl: "same_homes c m m"
  by (simp add: same_homes_def list_all_iff)

lemma before_recovers:
  assumes t: "tx_ready m0 c n staged" and l: "length m0 \<le> 2 ^ 64"
    and m: "medium m0 c (tx_all_blocks c staged) 0 k (active_block m0 c) m0 m" and k: "k \<le> length (tx_blocks c staged)"
  shows "\<exists>m' st. recover_on c m = (m', Inr st) \<and> same_homes c m0 m'"
proof -
  let ?N = "length (tx_blocks c staged)"
  have ready: "journal_ready m0 c n" and room: "?N + 1 \<le> ring_size (jc_superblock c)" using t by (simp_all add: tx_ready_def)
  have u: "log_upto m0 c (tx_all_blocks c staged) 0 k m" and b: "journal_sb_block m (jc_logical_blocks c) = active_block m0 c"
    using m by (simp_all add: medium_def)
  have "log_upto m0 c (tx_all_blocks c staged) 0 (?N + 1) m"
    by (rule log_upto_widen [OF ready u]) (use k room in simp_all)
  moreover have "m ! unat (slot_block c ?N) = m0 ! unat (slot_block c ?N)"
    by (rule log_upto_old [OF ready u k]) (use room in simp)
  ultimately obtain x st where "recover_on c m = (m[unat (jc_logical_blocks c ! 0) := x], Inr st)"
    using recover_uncommitted [OF t _ _ b] by blast
  moreover have "same_homes c m0 (m[unat (jc_logical_blocks c ! 0) := x])"
    by (rule same_homes_head [OF ready l]) (use m in \<open>simp_all add: medium_def log_upto_def\<close>)
  ultimately show ?thesis by blast
qed

lemma after_recovers:
  assumes t: "tx_ready m0 c n staged" and n: "1 \<le> n" and l: "length m0 \<le> 2 ^ 64"
    and u: "log_upto m0 c (tx_all_blocks c staged) (length (tx_blocks c staged) + 1) (length (tx_blocks c staged) + 1) m"
    and b: "journal_sb_block m (jc_logical_blocks c) = active_block m0 c"
    and h: "\<And>i. i < length m0 \<Longrightarrow> off_journal c i \<Longrightarrow>
      m ! i = m0 ! i \<or> (\<exists>(b, bs)\<in>set (home_images staged). unat b = i)"
  shows "\<exists>m' st. recover_on c m = (m', Inr st) \<and> same_homes c (committed m0 staged) m'"
proof -
  have ready: "journal_ready m0 c n" using t by (simp add: tx_ready_def)
  have lm: "length m = length m0" using u by (simp add: log_upto_def)
  obtain x st where "recover_on c m = ((committed m staged)[unat (jc_logical_blocks c ! 0) := x], Inr st)"
    using recover_committed [OF t n u b] by (auto simp: committed_def)
  moreover have "same_homes c (committed m0 staged) ((committed m staged)[unat (jc_logical_blocks c ! 0) := x])"
    by (rule same_homes_head [OF ready l]) (use committed_agree [OF lm] h lm in auto)
  ultimately show ?thesis by blast
qed

lemma committed_twice:
  assumes "length m = length m0" "\<And>i. i < length m0 \<Longrightarrow> off_journal c i \<Longrightarrow> m ! i = committed m0 staged ! i"
    and i: "i < length m0" "off_journal c i"
  shows "m ! i = m0 ! i \<or> (\<exists>(b, bs)\<in>set (home_images staged). unat b = i)"
proof (rule disjCI)
  assume n: "\<not> (\<exists>(b, bs)\<in>set (home_images staged). unat b = i)"
  have "committed m0 staged ! i = m0 ! i"
    unfolding committed_writes by (rule apply_writes_other) (use n in \<open>auto simp: as_blocks_def block_new_def\<close>)
  then show "m ! i = m0 ! i" using assms(2) [OF i] by simp
qed

text \<open>The media between the epochs.\<close>

definition commit_stages :: "block_mem \<Rightarrow> journal_context \<Rightarrow> (PBlockId, staged_block) btree \<Rightarrow> (writes \<times> commit_failure) list" where
  "commit_stages m0 c staged =
     (let N = length (tx_blocks c staged); B = tx_all_blocks c staged in
      [([(jc_logical_blocks c ! 0, active_block m0 c)], BeforeCommit),
       (slot_writes c B 0 N, BeforeCommit), (slot_writes c B N (N + 1), CommitUncertain),
       (home_images staged, CheckpointFailed),
       ([(jc_logical_blocks c ! 0, clean_block m0 c)], TailUpdateFailed)])"

lemma tx_home_off: "tx_ready m0 c n staged \<Longrightarrow> home_off c staged"
  by (auto simp: tx_ready_def home_off_def home_images_def list_all_iff)

lemma commit_stages_media:
  assumes t: "tx_ready m0 c n staged"
  defines "es \<equiv> commit_stages m0 c staged" and "N \<equiv> length (tx_blocks c staged)" and "B \<equiv> tx_all_blocks c staged"
  shows "medium m0 c B 0 0 (journal_sb_block m0 (jc_logical_blocks c)) m0 (after_epochs m0 (take 0 es))"
    "medium m0 c B 0 0 (active_block m0 c) m0 (after_epochs m0 (take 1 es))"
    "medium m0 c B N N (active_block m0 c) m0 (after_epochs m0 (take 2 es))"
    "medium m0 c B (N + 1) (N + 1) (active_block m0 c) m0 (after_epochs m0 (take 3 es))"
    "medium m0 c B (N + 1) (N + 1) (active_block m0 c) (committed m0 staged) (after_epochs m0 (take 4 es))"
    "medium m0 c B (N + 1) (N + 1) (clean_block m0 c) (committed m0 staged) (after_epochs m0 es)"
proof -
  have r: "journal_ready m0 c n" and room: "N + 1 \<le> ring_size (jc_superblock c)" using t by (simp_all add: tx_ready_def N_def)
  let ?b = "jc_logical_blocks c ! 0"
  have es: "es = [([(?b, active_block m0 c)], BeforeCommit), (slot_writes c B 0 N, BeforeCommit),
      (slot_writes c B N (N + 1), CommitUncertain), (home_images staged, CheckpointFailed),
      ([(?b, clean_block m0 c)], TailUpdateFailed)]"
    by (simp add: es_def commit_stages_def Let_def N_def B_def)
  define m1 where "m1 = apply_writes m0 (as_blocks [(?b, active_block m0 c)])"
  define m2 where "m2 = apply_writes m1 (as_blocks (slot_writes c B 0 N))"
  define m3 where "m3 = apply_writes m2 (as_blocks (slot_writes c B N (N + 1)))"
  define m4 where "m4 = apply_writes m3 (as_blocks (home_images staged))"
  define m5 where "m5 = apply_writes m4 (as_blocks [(?b, clean_block m0 c)])"
  have a: "after_epochs m0 (take 0 es) = m0" "after_epochs m0 (take 1 es) = m1" "after_epochs m0 (take 2 es) = m2"
    "after_epochs m0 (take 3 es) = m3" "after_epochs m0 (take 4 es) = m4" "after_epochs m0 es = m5"
    by (simp_all only: es m1_def m2_def m3_def m4_def m5_def numeral_eq_Suc pred_numeral_simps arith_simps
        One_nat_def take_Suc_Cons take_0 after_epochs_simps)
  show 0: "medium m0 c B 0 0 (journal_sb_block m0 (jc_logical_blocks c)) m0 (after_epochs m0 (take 0 es))"
    unfolding a by (simp add: medium_def log_upto_def)
  then show 1: "medium m0 c B 0 0 (active_block m0 c) m0 (after_epochs m0 (take 1 es))"
    unfolding a m1_def by (rule medium_head_done [OF r])
  then show 2: "medium m0 c B N N (active_block m0 c) m0 (after_epochs m0 (take 2 es))"
    unfolding a m2_def by (rule medium_slots_done [OF r]) (use room in simp_all)
  then show 3: "medium m0 c B (N + 1) (N + 1) (active_block m0 c) m0 (after_epochs m0 (take 3 es))"
    unfolding a m3_def by (rule medium_slots_done [OF r]) (use room in simp_all)
  have l3: "length m3 = length m0" using 3 unfolding a medium_def log_upto_def by blast
  have m4: "m4 = committed m3 staged" by (simp add: m4_def committed_writes)
  have h4: "m4 ! i = committed m0 staged ! i" if "i < length m0" "off_journal c i" for i
    unfolding m4 by (rule committed_agree [OF l3 that(1)]) (use 3 that in \<open>simp add: a medium_def\<close>)
  have "log_upto m0 c B (N + 1) (N + 1) m4 \<and> journal_sb_block m4 (jc_logical_blocks c) = active_block m0 c"
    using medium_homes [OF r 3 [unfolded a] apply_writes_perhaps tx_home_off [OF t], folded m4_def] by blast
  then show 4: "medium m0 c B (N + 1) (N + 1) (active_block m0 c) (committed m0 staged) (after_epochs m0 (take 4 es))"
    unfolding a using h4 by (simp add: medium_def)
  then show "medium m0 c B (N + 1) (N + 1) (clean_block m0 c) (committed m0 staged) (after_epochs m0 es)"
    unfolding a m5_def by (rule medium_head_done [OF r])
qed

lemma commit_stages_fit:
  assumes t: "tx_ready m0 c n staged"
  shows "epochs_fit (length m0) (commit_stages m0 c staged)"
proof -
  have r: "journal_ready m0 c n" using t by (simp add: tx_ready_def)
  have "writes_fit (length m0) (slot_writes c blocks k l)" for blocks k l
    using slot_in_journal(3) [OF r] by (simp add: writes_fit_def slot_writes_def list_all_iff)
  moreover have "writes_fit (length m0) (home_images staged)"
    using tx_homes_ok [OF t refl] by (simp add: writes_fit_def home_images_def homes_ok_def list_all_iff)
  moreover have "writes_fit (length m0) [(jc_logical_blocks c ! 0, x)]" for x
    using journal_head_block(1) [OF r] by (simp add: writes_fit_def)
  ultimately show ?thesis by (simp add: epochs_fit_def commit_stages_def Let_def)
qed

lemma commit_run_stages:
  assumes r: "journal_ready m0 c n" and ok: "staged_all_ok staged" and plan: "journal_plan True c staged = Inr plan"
  shows "sbind (commit_io crash_ops (power_on m0 q) (jc_logical_blocks c) plan (home_images staged))
      (\<lambda>d _. clear_tail crash_ops d (jc_logical_blocks c) plan) =
    run_epochs (power_on m0 q) (commit_stages m0 c staged)"
proof -
  have t: "tx_ready m0 c n staged" by (rule journal_plan_ready [OF r ok plan])
  let ?d = "power_on m0 q" and ?b = "jc_logical_blocks c ! 0" and ?es = "commit_stages m0 c staged"
  note f = journal_plan_facts [OF r ok plan]
  have ne: "jc_logical_blocks c \<noteq> []" by (rule journal_ready_facts(4) [OF r])
  have lb: "unat ?b < length m0" by (rule journal_head_block(1) [OF r])
  then have l4: "length (m0 ! unat ?b) = BLOCK_SIZE" using r by (simp add: journal_ready_def list_all_length)
  have la: "length (pl_active plan) = 1024" "length (pl_clean plan) = 1024"
    unfolding f(6,7) using journal_ready_facts(6) [OF r] by simp_all
  have pos: "pl_positions plan = map (log_pos c) [0..<length (tx_blocks c staged) + 1]"
    using f(4) by (simp add: tx_blocks_def log_pos_def)
  have io: "commit_io crash_ops ?d (jc_logical_blocks c) plan (home_images staged) = run_epochs ?d (take 4 ?es)"
  proof -
    have "commit_io crash_ops ?d (jc_logical_blocks c) plan (home_images staged) =
        run_epochs ?d (commit_epochs (cd_disk ?d) (jc_logical_blocks c) plan (home_images staged))"
    proof (rule commit_io_epochs)
      show "list_all (\<lambda>l. unat l < length (jc_logical_blocks c)) (pl_positions plan)"
        unfolding pos list_all_iff using ring_position(1) [OF r log_pos_ok [OF r]] by auto
    qed (use ne lb l4 la f(3,4) in \<open>simp_all add: power_on_def BLOCK_SIZE_def\<close>)
    then show ?thesis
      using commit_epochs_eq(1) [OF r ok plan, of "after_epochs m0 (take 1 ?es)"] commit_stages_media(2) [OF t]
      by (simp add: power_on_def commit_stages_def Let_def medium_def)
  qed
  have fit: "epochs_fit (length (cd_disk ?d)) (take 4 ?es)"
    using commit_stages_fit [OF t] by (simp add: epochs_fit_def list_all_iff power_on_def) (blast dest: in_set_takeD)
  have tail: "clear_tail crash_ops d (jc_logical_blocks c) plan = run_epochs d (drop 4 ?es)"
    if d: "run_epochs ?d (take 4 ?es) = (d, Inr u)" for d u
  proof -
    have p: "cd_pending d = []" "cd_disk d = after_epochs m0 (take 4 ?es)"
      using run_epochs_outcome [OF fit _ d] by (auto simp: power_on_def)
    note m = commit_stages_media(5) [OF t, folded p(2)]
    have s: "journal_sb_block (cd_disk d) (jc_logical_blocks c) = active_block m0 c" and l: "length (cd_disk d) = length m0"
      using m by (simp_all add: medium_def log_upto_def)
    have "length (active_block m0 c) = BLOCK_SIZE"
      using l4 by (simp add: active_block_def journal_sb_block_def BLOCK_SIZE_def)
    then have "clear_tail crash_ops d (jc_logical_blocks c) plan = run_epochs d (tail_epoch (cd_disk d) (jc_logical_blocks c) plan)"
      using clear_tail_epoch [OF p(1) ne] lb l s la(2) by (simp add: journal_sb_block_def BLOCK_SIZE_def)
    then show ?thesis
      using commit_epochs_eq(2) [OF r ok plan s] by (simp add: commit_stages_def Let_def)
  qed
  have "run_epochs ?d ?es = sbind (run_epochs ?d (take 4 ?es)) (\<lambda>d _. run_epochs d (drop 4 ?es))"
    by (simp flip: run_epochs_append)
  also have "\<dots> = sbind (run_epochs ?d (take 4 ?es)) (\<lambda>d _. clear_tail crash_ops d (jc_logical_blocks c) plan)"
    by (rule sbind_cong [OF refl]) (use tail in simp)
  finally show ?thesis by (simp add: io)
qed

text \<open>Recovery ends without an error, and outside the journal the medium is then the given one.\<close>

definition recovers_to :: "journal_context \<Rightarrow> block_mem \<Rightarrow> block_mem \<Rightarrow> bool" where
  "recovers_to c goal m = (case recover_on c m of (m', Inr st) \<Rightarrow> same_homes c goal m' | (m', Inl f) \<Rightarrow> False)"

lemma recovers_toI: "\<exists>m' st. recover_on c m = (m', Inr st) \<and> same_homes c goal m' \<Longrightarrow> recovers_to c goal m"
  by (auto simp: recovers_to_def)

lemma clean_recovers:
  assumes "sb_on_disk m (jc_logical_blocks c) sb" "js_start sb = 0" "same_homes c goal m"
  shows "recovers_to c goal m"
  by (rule recovers_toI) (use recover_clean [OF assms(1,2)] assms(3) in blast)

lemma idle_recovers: "journal_ready m0 c n \<Longrightarrow> recovers_to c m0 m0"
  using same_homes_refl by (auto simp: journal_ready_def intro: clean_recovers)

lemma after_clean_recovers:
  assumes r: "journal_ready m0 c n" and l: "length m0 \<le> 2 ^ 64"
    and m: "medium m0 c blocks i j (clean_block m0 c) (committed m0 staged) m"
  shows "recovers_to c (committed m0 staged) m"
proof (rule clean_recovers [OF sb_on_disk_clean [OF r]])
  show lm: "length m = length m0" and "journal_sb_block m (jc_logical_blocks c) = clean_block m0 c"
    using m by (simp_all add: medium_def log_upto_def)
  show "same_homes c (committed m0 staged) m"
    by (rule same_homesI) (use m l lm in \<open>simp_all add: medium_def\<close>)
qed simp

lemma stage_recovers:
  assumes t: "tx_ready m0 c n staged" and n: "1 \<le> n" and l: "length m0 \<le> 2 ^ 64" and i: "i < 5"
    and pw: "perhaps_written (after_epochs m0 (take i (commit_stages m0 c staged)))
      (fst (commit_stages m0 c staged ! i)) m"
  defines "k \<equiv> snd (commit_stages m0 c staged ! i)"
  shows "(recovers_to c m0 m \<or> recovers_to c (committed m0 staged) m) \<and>
    (k = BeforeCommit \<longrightarrow> recovers_to c m0 m) \<and>
    (k = CheckpointFailed \<or> k = TailUpdateFailed \<longrightarrow> recovers_to c (committed m0 staged) m)"
proof -
  let ?N = "length (tx_blocks c staged)" and ?B = "tx_all_blocks c staged" and ?b = "jc_logical_blocks c ! 0"
  have r: "journal_ready m0 c n" and room: "?N + 1 \<le> ring_size (jc_superblock c)" using t by (simp_all add: tx_ready_def)
  note media = commit_stages_media [OF t]
  have before: "recovers_to c m0 m" if "medium m0 c ?B 0 j (active_block m0 c) m0 m" "j \<le> ?N" for j
    using before_recovers [OF t l that] by (rule recovers_toI)
  have after: "recovers_to c (committed m0 staged) m"
    if "log_upto m0 c ?B (?N + 1) (?N + 1) m" "journal_sb_block m (jc_logical_blocks c) = active_block m0 c"
      "\<And>i. i < length m0 \<Longrightarrow> off_journal c i \<Longrightarrow> m ! i = m0 ! i \<or> (\<exists>(b, bs)\<in>set (home_images staged). unat b = i)"
    using after_recovers [OF t n l that] by (rule recovers_toI)
  consider "i = 0" | "i = 1" | "i = 2" | "i = 3" | "i = 4" using i by linarith
  then show ?thesis
  proof cases
    case 1
    then have "perhaps_written m0 [(?b, active_block m0 c)] m" using pw by (simp add: commit_stages_def Let_def)
    from medium_head [OF r _ this] media(1) have "m = m0 \<or> medium m0 c ?B 0 0 (active_block m0 c) m0 m" by auto
    then have "recovers_to c m0 m" using before idle_recovers [OF r] by blast
    then show ?thesis using 1 by (simp add: k_def commit_stages_def Let_def)
  next
    case 2
    then have "perhaps_written (after_epochs m0 (take 1 (commit_stages m0 c staged))) (slot_writes c ?B 0 ?N) m"
      using pw by (simp add: commit_stages_def Let_def)
    from medium_slots [OF r media(2) this] room have "recovers_to c m0 m" by (intro before [of ?N]) simp_all
    then show ?thesis using 2 by (simp add: k_def commit_stages_def Let_def)
  next
    case 3
    then have "perhaps_written (after_epochs m0 (take 2 (commit_stages m0 c staged))) (slot_writes c ?B ?N (?N + 1)) m"
      using pw by (simp add: commit_stages_def Let_def)
    from medium_slots [OF r media(3) this] room
    have m: "medium m0 c ?B ?N (?N + 1) (active_block m0 c) m0 m" by simp
    then have u: "log_upto m0 c ?B ?N (?N + 1) m" by (simp add: medium_def)
    then have "m ! unat (slot_block c ?N) = ?B ! ?N \<or> m ! unat (slot_block c ?N) = m0 ! unat (slot_block c ?N)"
      unfolding log_upto_def by (meson less_add_one)
    then have "recovers_to c m0 m \<or> recovers_to c (committed m0 staged) m"
    proof
      assume "m ! unat (slot_block c ?N) = ?B ! ?N"
      then have "log_upto m0 c ?B (?N + 1) (?N + 1) m"
        using u unfolding log_upto_def by (metis less_antisym not_le Suc_eq_plus1)
      then show ?thesis using after m by (simp add: medium_def)
    next
      assume "m ! unat (slot_block c ?N) = m0 ! unat (slot_block c ?N)"
      then obtain x st where "recover_on c m = (m[unat ?b := x], Inr st)"
        using recover_uncommitted [OF t u] m by (auto simp: medium_def)
      moreover have "same_homes c m0 (m[unat ?b := x])"
        by (rule same_homes_head [OF r l]) (use m in \<open>simp_all add: medium_def log_upto_def\<close>)
      ultimately show ?thesis by (auto simp: recovers_to_def)
    qed
    then show ?thesis using 3 by (simp add: k_def commit_stages_def Let_def)
  next
    case 4
    then have "perhaps_written (after_epochs m0 (take 3 (commit_stages m0 c staged))) (home_images staged) m"
      using pw by (simp add: commit_stages_def Let_def)
    from medium_homes [OF r media(4) this tx_home_off [OF t]] have "recovers_to c (committed m0 staged) m"
      by (intro after) auto
    then show ?thesis by simp (use 4 in \<open>simp add: k_def commit_stages_def Let_def\<close>)
  next
    case 5
    let ?m4 = "after_epochs m0 (take 4 (commit_stages m0 c staged))"
    have "perhaps_written ?m4 [(?b, clean_block m0 c)] m"
      using pw 5 by (simp add: commit_stages_def Let_def)
    from medium_head [OF r media(5) this] have "recovers_to c (committed m0 staged) m"
    proof
      assume m: "m = ?m4"
      have lm: "length m = length m0" using m by simp
      note m4 = media(5) [folded m]
      show ?thesis
      proof (rule after)
        fix i assume "i < length m0" "off_journal c i"
        then show "m ! i = m0 ! i \<or> (\<exists>(b, bs)\<in>set (home_images staged). unat b = i)"
          using committed_twice [OF lm] m4 unfolding medium_def by blast
      qed (use m4 in \<open>simp_all add: medium_def\<close>)
    next
      assume "medium m0 c ?B (?N + 1) (?N + 1) (clean_block m0 c) (committed m0 staged) m"
      then show ?thesis by (rule after_clean_recovers [OF r l])
    qed
    then show ?thesis using 5 by (simp add: k_def commit_stages_def Let_def)
  qed
qed

section \<open>The theorem\<close>

lemma crash_of_run:
  assumes t: "tx_ready m0 c n staged" and n: "1 \<le> n" and l: "length m0 \<le> 2 ^ 64"
    and run: "run_epochs (power_on m0 q) (commit_stages m0 c staged) = (d, r)" and crash: "crash_image d m"
  shows "(r = Inr () \<and> recovers_to c (committed m0 staged) m) \<or>
    (\<exists>k. r = Inl (Err EIO, k) \<and> (recovers_to c m0 m \<or> recovers_to c (committed m0 staged) m) \<and>
      (k = BeforeCommit \<longrightarrow> recovers_to c m0 m) \<and>
      (k = CheckpointFailed \<or> k = TailUpdateFailed \<longrightarrow> recovers_to c (committed m0 staged) m))"
proof -
  let ?es = "commit_stages m0 c staged"
  have r: "journal_ready m0 c n" using t by (simp add: tx_ready_def)
  have five: "length ?es = 5" by (simp add: commit_stages_def Let_def)
  from run_epochs_outcome [OF _ _ run] commit_stages_fit [OF t]
  have "r = Inr () \<and> cd_pending d = [] \<and> cd_disk d = after_epochs m0 ?es \<or>
    (\<exists>i < length ?es. r = Inl (Err EIO, snd (?es ! i)) \<and> cd_disk d = after_epochs m0 (take i ?es) \<and>
       set (cd_pending d) \<subseteq> set (as_blocks (fst (?es ! i))))"
    by (simp add: power_on_def)
  then show ?thesis
  proof
    assume fin: "r = Inr () \<and> cd_pending d = [] \<and> cd_disk d = after_epochs m0 ?es"
    then have "m = after_epochs m0 ?es"
      using crash by (auto simp: crash_image_def intro!: nth_equalityI)
    then have "recovers_to c (committed m0 staged) m"
      using after_clean_recovers [OF r l] commit_stages_media(6) [OF t] by simp
    then show ?thesis using fin by blast
  next
    assume "\<exists>i < length ?es. r = Inl (Err EIO, snd (?es ! i)) \<and> cd_disk d = after_epochs m0 (take i ?es) \<and>
       set (cd_pending d) \<subseteq> set (as_blocks (fst (?es ! i)))"
    then obtain i where i: "i < 5" "r = Inl (Err EIO, snd (?es ! i))" "cd_disk d = after_epochs m0 (take i ?es)"
      "set (cd_pending d) \<subseteq> set (as_blocks (fst (?es ! i)))" using five by auto
    then show ?thesis
      using stage_recovers [OF t n l i(1)] crash_image_perhaps [OF crash i(4)] by auto
  qed
qed

lemma context_after_ok:
  assumes r: "journal_ready m0 c n" and ok: "staged_all_ok staged" and plan: "journal_plan True c staged = Inr plan"
  shows "context_after c plan =
    (c\<lparr>jc_superblock := (jc_superblock c)\<lparr>js_sequence := js_sequence (jc_superblock c) + 1, js_start := 0\<rparr>,
       jc_head := log_pos c (length (tx_blocks c staged) + 1), jc_superblock_image := pl_clean plan\<rparr>, Inr ())"
proof -
  have p: "last (pl_positions plan) = log_pos c (length (tx_blocks c staged))"
    using journal_plan_facts(4) [OF r ok plan] by (simp add: tx_blocks_def log_pos_def)
  have "ring_next (jc_superblock c) (log_pos c j) = Inr (log_pos c (Suc j))" for j
    using advance_nxt [OF journal_ready_facts(1) [OF r] log_pos_ok [OF r]]
    by (simp add: ring_next_def advance_def log_pos_def)
  then show ?thesis by (simp add: context_after_def p Let_def)
qed

lemma supports_crash [simp]: "supports_reliable_flush crash_ops d"
  by (simp add: crash_ops_def)

lemma commit_journal_run:
  assumes r: "journal_ready m0 (jco_context jc) n" and ok: "staged_all_ok (tx_staged tx)"
    and plan: "journal_plan True (jco_context jc) (tx_staged tx) = Inr plan"
    and run: "commit_journal crash_ops publish (power_on m0 q) cache tx jc = (d, core', cache', res)"
  shows "\<exists>r. run_epochs (power_on m0 q) (commit_stages m0 (jco_context jc) (tx_staged tx)) = (d, r) \<and>
    (r = Inr () \<longrightarrow> res = Inr ()) \<and> (\<forall>e k. r = Inl (Err e, k) \<longrightarrow> res = Inl (CommitError e k))"
proof -
  let ?c = "jco_context jc" and ?io = "commit_io crash_ops (power_on m0 q) (jc_logical_blocks (jco_context jc)) plan (home_images (tx_staged tx))"
  let ?tail = "\<lambda>d. clear_tail crash_ops d (jc_logical_blocks ?c) plan"
  note s = commit_run_stages [OF r ok plan, of q, symmetric]
  obtain d1 r1 where io: "?io = (d1, r1)" by fastforce
  show ?thesis
  proof (cases r1)
    case (Inl fk)
    then show ?thesis
      using run io s by (cases fk; cases "fst fk")
        (auto simp: commit_journal_def Let_def plan commit_fails_def tx_fail_def split: fault.splits)
  next
    case (Inr u)
    obtain d2 r2 where tail: "?tail d1 = (d2, r2)" by fastforce
    then have s2: "run_epochs (power_on m0 q) (commit_stages m0 ?c (tx_staged tx)) = (d2, r2)"
      using s io Inr by simp
    show ?thesis
    proof (cases r2)
      case (Inl fk)
      then show ?thesis
        using run io s2 tail Inr by (cases fk; cases "fst fk")
          (auto simp: commit_journal_def Let_def plan commit_fails_def tx_fail_def split: fault.splits)
    next
      case r2: (Inr v)
      then show ?thesis
        using run io s2 tail Inr context_after_ok [OF r ok plan]
        by (auto simp: commit_journal_def Let_def plan commit_done_def)
    qed
  qed
qed

lemma commit_recovers:
  assumes ready: "journal_ready m0 c 1" and size: "length m0 \<le> 2 ^ 64"
    and core: "tx_core tx = Journal jc" "jco_context jc = c" and ok: "staged_all_ok (tx_staged tx)"
    and run: "tx_commit crash_ops publish (power_on m0 q) cache tx = (d, core', cache', res)"
    and crash: "crash_image d m"
  shows "(recovers_to c m0 m \<or> recovers_to c (committed m0 (tx_staged tx)) m) \<and>
    (res = Inr () \<longrightarrow> recovers_to c (committed m0 (tx_staged tx)) m) \<and>
    (\<forall>e. res = Inl (CommitError e BeforeCommit) \<longrightarrow> recovers_to c m0 m) \<and>
    (\<forall>e. res = Inl (CommitError e CheckpointFailed) \<or> res = Inl (CommitError e TailUpdateFailed) \<longrightarrow>
       recovers_to c (committed m0 (tx_staged tx)) m)"
proof -
  have idle: "recovers_to c m0 m" if "d = power_on m0 q"
  proof -
    have "m = m0" using crash that by (auto simp: crash_image_def power_on_def intro!: nth_equalityI)
    then show ?thesis using idle_recovers [OF ready] by simp
  qed
  show ?thesis
  proof (cases "tx_staged tx = []")
    case True
    then have "d = power_on m0 q" "res = Inr ()" using run by (simp_all add: tx_commit_def commit_done_def)
    then show ?thesis using idle True by (simp add: committed_def write_home_images_def)
  next
    case False
    then have cj: "commit_journal crash_ops publish (power_on m0 q) cache tx jc = (d, core', cache', res)"
      using run core(1) by (simp add: tx_commit_def)
    show ?thesis
    proof (cases "journal_plan True c (tx_staged tx)")
      case (Inl f)
      then have "d = power_on m0 q" "\<exists>e. res = Inl e \<and> (\<forall>x k. e = CommitError x k \<longrightarrow> k = BeforeCommit)"
        using cj core(2) by (auto simp: commit_journal_def Let_def commit_fails_def tx_fail_def split: fault.splits)
      then show ?thesis using idle by auto
    next
      case (Inr plan)
      obtain r where r: "run_epochs (power_on m0 q) (commit_stages m0 c (tx_staged tx)) = (d, r)"
        "r = Inr () \<longrightarrow> res = Inr ()" "\<forall>e k. r = Inl (Err e, k) \<longrightarrow> res = Inl (CommitError e k)"
        using commit_journal_run [OF _ ok _ cj] ready Inr core(2) by blast
      from crash_of_run [OF journal_plan_ready [OF ready ok Inr] order.refl size r(1) crash] r(2,3)
      show ?thesis by auto
    qed
  qed
qed

text \<open>C2: crash atomicity of the journal. A transaction is committed on a device with a volatile write
  cache that loses power after an arbitrary number of operations, any subset of the cached blocks reaching
  the medium. Then recovery on that medium ends without an error, and outside the journal the medium is
  either exactly as before the transaction or has every staged image in place. It is the latter when the
  commit had returned without an error or with \<open>CheckpointFailed\<close> or \<open>TailUpdateFailed\<close>, and the former when
  it had returned with \<open>BeforeCommit\<close>.\<close>

theorem commit_crash_atomic:
  assumes ready: "journal_ready m0 c 1" and size: "length m0 \<le> 2 ^ 64"
    and core: "tx_core tx = Journal jc" "jco_context jc = c" and ok: "staged_all_ok (tx_staged tx)"
    and run: "tx_commit crash_ops publish (power_on m0 q) cache tx = (d, core', cache', res)"
    and crash: "crash_image d m"
  shows "(recovers_to c m0 m \<or> recovers_to c (committed m0 (tx_staged tx)) m) \<and>
    (res = Inr () \<longrightarrow> recovers_to c (committed m0 (tx_staged tx)) m) \<and>
    (\<forall>e. res = Inl (CommitError e BeforeCommit) \<longrightarrow> recovers_to c m0 m) \<and>
    (\<forall>e. res = Inl (CommitError e CheckpointFailed) \<or> res = Inl (CommitError e TailUpdateFailed) \<longrightarrow>
       recovers_to c (committed m0 (tx_staged tx)) m)"
  by (rule commit_recovers [OF ready size core ok run crash])

section \<open>The journal after a commit\<close>

definition journal_ready_after :: "journal_context \<Rightarrow> (PBlockId, staged_block) btree \<Rightarrow> commit_plan \<Rightarrow> journal_context" where
  "journal_ready_after c staged plan =
     c\<lparr>jc_superblock := (jc_superblock c)\<lparr>js_sequence := js_sequence (jc_superblock c) + 1, js_start := 0\<rparr>,
       jc_head := log_pos c (length (tx_blocks c staged) + 1), jc_superblock_image := pl_clean plan\<rparr>"

lemma log_block_sequence:
  assumes "list_all (group_ok sb) gs" "b \<in> set (log_blocks sb seed sq gs @ [log_commit sb sq])" "header_parse b = Inr h"
  shows "jh_sequence h = sq"
proof -
  have "b = log_commit sb sq \<or> (\<exists>g\<in>set gs. b = log_descriptor sb seed sq g \<or> b \<in> log_data ` set g)"
    using assms(2) by (induction gs) (auto simp: group_blocks_def)
  moreover have False if "g \<in> set gs" "s \<in> set g" "b = log_data s" for g s
    using assms that log_data_no_header by (auto simp: list_all_iff group_ok_def)
  ultimately show ?thesis
    using assms(1,3) log_commit_header [of sb sq] log_descriptor_header by (fastforce simp: list_all_iff)
qed

lemma medium_sizes:
  assumes "list_all (\<lambda>b. length b = n) m" "list_all (\<lambda>(i, bs). length bs = n) ws"
  shows "list_all (\<lambda>b. length b = n) (apply_writes m (as_blocks ws))"
  using assms
proof (induction ws arbitrary: m)
  case (Cons w ws)
  obtain b bs where w: "w = (b, bs)" by fastforce
  have "list_all (\<lambda>b. length b = n) (m[unat b := bs])"
    using Cons.prems by (auto simp: list_all_iff w dest!: set_update_subset_insert [THEN subsetD])
  then show ?case using Cons by (simp add: w block_new_def)
qed simp

lemma commit_stages_sizes:
  assumes t: "tx_ready m0 c n staged"
  shows "list_all (\<lambda>b. length b = BLOCK_SIZE) (after_epochs m0 (commit_stages m0 c staged))"
  unfolding after_epochs_def
proof (rule medium_sizes)
  have r: "journal_ready m0 c n" using t by (simp add: tx_ready_def)
  show m0: "list_all (\<lambda>b. length b = BLOCK_SIZE) m0" using r by (simp add: journal_ready_def)
  let ?raw = "journal_sb_block m0 (jc_logical_blocks c)"
  have l: "length ?raw = BLOCK_SIZE" using m0 journal_head_block(1) [OF r] by (simp add: journal_sb_block_def list_all_length)
  have "length (sb_block ?raw fts sq start) = BLOCK_SIZE" for fts sq start
    using l by (simp add: BLOCK_SIZE_def)
  moreover have "list_all (\<lambda>(i, bs). length bs = BLOCK_SIZE) (slot_writes c (tx_all_blocks c staged) k l)"
    if "l \<le> length (tx_blocks c staged) + 1" for k l
    using tx_all_block_length [OF t] that by (auto simp: slot_writes_def list_all_iff)
  moreover have "list_all (\<lambda>(i, bs). length bs = BLOCK_SIZE) (home_images staged)"
    using t by (auto simp: tx_ready_def staged_all_ok_def staged_ok_def home_images_def list_all_iff)
  ultimately show "list_all (\<lambda>(i, bs). length bs = BLOCK_SIZE) (concat (map fst (commit_stages m0 c staged)))"
    by (simp add: commit_stages_def Let_def active_block_def clean_block_def)
qed

lemma ring_fresh_after:
  assumes t: "tx_ready m0 c (Suc n) staged" and n: "Suc n < 2 ^ 32"
    and u: "log_upto m0 c (tx_all_blocks c staged) l l m" "l = length (tx_blocks c staged) + 1"
  shows "ring_fresh m (jc_logical_blocks c) ((jc_superblock c)\<lparr>js_sequence := js_sequence (jc_superblock c) + 1, js_start := 0\<rparr>) n"
  unfolding ring_fresh_def
proof (intro allI impI)
  let ?sb = "jc_superblock c"
  fix j p assume j: "j \<le> n" and "pos_ok (?sb\<lparr>js_sequence := js_sequence ?sb + 1, js_start := 0\<rparr>) p"
  then have p: "pos_ok ?sb p" by (simp add: pos_ok_def)
  have r: "journal_ready m0 c (Suc n)" using t by (simp add: tx_ready_def)
  have sq: "js_sequence ?sb + 1 + word_of_nat j = js_sequence ?sb + word_of_nat (Suc j)" by simp
  have "fresh_block (js_sequence ?sb + word_of_nat (Suc j)) (m ! ring_ix c p)"
  proof (cases "\<exists>i < l. p = log_pos c i")
    case True
    then obtain i where i: "i < l" "p = log_pos c i" by blast
    then have "m ! ring_ix c p = tx_all_blocks c staged ! i" using u(1) unfolding log_upto_def slot_block_ix by (metis not_le)
    then have b: "m ! ring_ix c p \<in> set (tx_all_blocks c staged)" using i u(2) by simp
    have "jh_sequence h = js_sequence ?sb" if "header_parse (m ! ring_ix c p) = Inr h" for h
      using log_block_sequence [OF _ _ that] b t unfolding tx_ready_def tx_all_blocks_def tx_blocks_def by blast
    moreover have "js_sequence ?sb + word_of_nat (Suc j) \<noteq> js_sequence ?sb"
    proof -
      have "unat (word_of_nat i :: u32) = i" if "i < 2 ^ 32" for i using that by (simp add: unat_of_nat)
      then have "unat (word_of_nat (Suc j) :: u32) = Suc j" using j n le_less_trans [of "Suc j" "Suc n"] by blast
      then have "(word_of_nat (Suc j) :: u32) \<noteq> 0" by (metis Zero_not_Suc unat_0)
      then show ?thesis by simp
    qed
    ultimately show ?thesis unfolding fresh_block_def by metis
  next
    case False
    then have "m ! ring_ix c p = m0 ! ring_ix c p" using u(1) p unfolding log_upto_def by blast
    moreover have "fresh_block (js_sequence ?sb + word_of_nat (Suc j)) (m0 ! ring_ix c p)"
      using r p j unfolding journal_ready_def ring_fresh_def ring_block_def by (metis Suc_le_mono)
    ultimately show ?thesis by simp
  qed
  then show "fresh_block (js_sequence (?sb\<lparr>js_sequence := js_sequence ?sb + 1, js_start := 0\<rparr>) + word_of_nat j)
      (ring_block m (jc_logical_blocks c) p)"
    unfolding ring_block_def by (simp add: sq [symmetric] add.assoc)
qed

lemma ready_after:
  assumes r: "journal_ready m0 c (Suc n)" and n: "Suc n < 2 ^ 32" and ok: "staged_all_ok staged"
    and plan: "journal_plan True c staged = Inr plan"
  defines "m \<equiv> after_epochs m0 (commit_stages m0 c staged)"
  shows "journal_ready m (journal_ready_after c staged plan) n"
proof -
  let ?sb = "jc_superblock c" and ?jb = "jc_logical_blocks c" and ?c = "journal_ready_after c staged plan"
  let ?sb' = "?sb\<lparr>js_sequence := js_sequence ?sb + 1, js_start := 0\<rparr>"
  have t: "tx_ready m0 c (Suc n) staged" by (rule journal_plan_ready [OF r ok plan])
  note md = commit_stages_media(6) [OF t, folded m_def]
  have lm: "length m = length m0" by (simp add: m_def)
  have cb: "journal_sb_block m ?jb = clean_block m0 c" using md by (simp add: medium_def)
  have v: "context_validate c = Inr ()" using r by (simp add: journal_ready_def)
  have "pos_ok ?sb (jc_head ?c)" unfolding journal_ready_after_def by (simp add: log_pos_ok [OF r] del: add_Suc_right)
  then have v': "context_validate ?c = Inr ()"
    using v unfolding context_validate_def journal_ready_after_def Let_def pos_ok_def by (auto split: if_splits)
  have img: "pl_clean plan = take 1024 (clean_block m0 c)"
  proof -
    have l: "1024 \<le> length (journal_sb_block m0 ?jb)"
      using r by (simp add: journal_ready_def sb_on_disk_def BLOCK_SIZE_def)
    have "jc_superblock_image c = take 1024 (journal_sb_block m0 ?jb)" using r by (simp add: journal_ready_def)
    then show ?thesis
      using journal_plan_facts(7) [OF r ok plan] l by (simp add: clean_block_def sb_block_def)
  qed
  have "sb_on_disk m ?jb ?sb'" by (rule sb_on_disk_clean [OF r lm cb])
  moreover have "ring_fresh m ?jb ?sb' n"
    by (rule ring_fresh_after [OF t n _ refl]) (use md in \<open>simp add: medium_def\<close>)
  moreover have "list_all (\<lambda>b. length b = BLOCK_SIZE) m" unfolding m_def by (rule commit_stages_sizes [OF t])
  ultimately show ?thesis
    using r v' lm cb img by (simp add: journal_ready_def) (simp add: journal_ready_after_def)
qed

lemma tx_commit_done:
  assumes r: "journal_ready m0 c (Suc n)" and n: "Suc n < 2 ^ 32" and size: "length m0 \<le> 2 ^ 64"
    and core: "tx_core tx = Journal jc" "jco_context jc = c" and ok: "staged_all_ok (tx_staged tx)"
    and run: "tx_commit crash_ops publish (power_on m0 q) cache tx = (d, core', cache', Inr ())"
  shows "\<exists>jc' m1. core' = Journal jc' \<and> jc_logical_blocks (jco_context jc') = jc_logical_blocks c \<and>
    jc_journal_blocks (jco_context jc') = jc_journal_blocks c \<and> jc_target_blocks (jco_context jc') = jc_target_blocks c \<and>
    d = power_on m1 (cd_fuel d) \<and> length m1 = length m0 \<and> journal_ready m1 (jco_context jc') n \<and>
    (\<forall>i < length m0. off_journal c i \<longrightarrow> m1 ! i = committed m0 (tx_staged tx) ! i) \<and>
    jco_flags jc' = (if tx_owns_writer tx then (jco_flags jc)\<lparr>co_writer := False\<rparr> else jco_flags jc)"
proof (cases "tx_staged tx = []")
  case True
  have "journal_ready m0 c n" using r by (simp add: journal_ready_def ring_fresh_def)
  then show ?thesis
    using True run core
    by (auto simp: tx_commit_def commit_done_def release_writer_def set_writer_def committed_def write_home_images_def
        power_on_def)
next
  case False
  then have cj: "commit_journal crash_ops publish (power_on m0 q) cache tx jc = (d, core', cache', Inr ())"
    using run core(1) by (simp add: tx_commit_def)
  obtain plan where plan: "journal_plan True c (tx_staged tx) = Inr plan"
    using cj core(2) by (cases "journal_plan True c (tx_staged tx)")
      (auto simp: commit_journal_def Let_def commit_fails_def tx_fail_def split: fault.splits)
  have t: "tx_ready m0 c (Suc n) (tx_staged tx)" by (rule journal_plan_ready [OF r ok plan])
  let ?es = "commit_stages m0 c (tx_staged tx)" and ?m1 = "after_epochs m0 (commit_stages m0 c (tx_staged tx))"
  obtain x where x: "run_epochs (power_on m0 q) ?es = (d, x)" "\<forall>e k. x = Inl (Err e, k) \<longrightarrow> (Inr () :: commit_fault + unit) = Inl (CommitError e k)"
    using commit_journal_run [OF _ ok _ cj] r plan core(2) by blast
  have fit: "epochs_fit (length (cd_disk (power_on m0 q))) ?es"
    using commit_stages_fit [OF t] by (simp add: power_on_def)
  have d: "cd_pending d = [] \<and> cd_disk d = ?m1"
    using run_epochs_outcome [OF fit _ x(1)] x(2) by (auto simp: power_on_def)
  have core': "core' = tx_core (release_writer (tx\<lparr>tx_core := Journal (jc\<lparr>jco_context := journal_ready_after c (tx_staged tx) plan\<rparr>)\<rparr>))"
    using cj core(2) plan context_after_ok [OF r ok plan]
    by (auto simp: commit_journal_def Let_def commit_fails_def tx_fail_def commit_done_def journal_ready_after_def
        split: fault.splits prod.splits sum.splits)
  have "journal_ready ?m1 (journal_ready_after c (tx_staged tx) plan) n" by (rule ready_after [OF r n ok plan])
  moreover define jc' where "jc' = jc\<lparr>jco_context := journal_ready_after c (tx_staged tx) plan,
      jco_flags := (if tx_owns_writer tx then (jco_flags jc)\<lparr>co_writer := False\<rparr> else jco_flags jc)\<rparr>"
  moreover have "core' = Journal jc'"
    unfolding core' jc'_def by (simp add: release_writer_def set_writer_def)
  moreover have "d = power_on ?m1 (cd_fuel d)" using d by (simp add: power_on_def)
  moreover have "\<forall>i < length m0. off_journal c i \<longrightarrow> ?m1 ! i = committed m0 (tx_staged tx) ! i"
    using commit_stages_media(6) [OF t] by (simp add: medium_def)
  ultimately show ?thesis
    by (intro exI [of _ jc'] exI [of _ ?m1]) (simp add: journal_ready_after_def)
qed

section \<open>A concrete journal\<close>

text \<open>Twenty blocks, the journal in the last sixteen of them.\<close>

definition w_disk :: block_mem where
  "w_disk = replicate 4 (replicate BLOCK_SIZE 0) @ [w_jsuper @ replicate 3072 0] @
     replicate 15 (replicate BLOCK_SIZE 0)"

definition w_ring :: "PBlockId list" where
  "w_ring = [4, 5, 6, 7, 8, 9, 10, 11, 12, 13, 14, 15, 16, 17, 18, 19]"

definition w_sb :: jsuperblock where
  "w_sb = \<lparr>js_block_size = 4096, js_max_len = 16, js_first = 1, js_sequence = 5, js_start = 0, js_errno = 0,
     js_features = \<lparr>ft_checksum = V3, ft_has_64bit = True, ft_has_revoke = True\<rparr>,
     js_uuid = replicate 16 0, js_checksum_type = 4\<rparr>"

definition w_context :: journal_context where
  "w_context = \<lparr>jc_superblock = w_sb, jc_logical_blocks = w_ring, jc_journal_blocks = set w_ring,
     jc_target_blocks = 20, jc_head = 14, jc_superblock_image = w_jsuper\<rparr>"

definition w_core :: journal_core where
  "w_core = \<lparr>jco_flags = flags_clean, jco_context = w_context\<rparr>"

definition w_tx :: transaction where
  "w_tx = (transaction_new (Journal (w_core\<lparr>jco_flags := \<lparr>co_writer = True, co_poisoned = False\<rparr>\<rparr>)) 2 False)
     \<lparr>tx_staged := [(1, \<lparr>st_home = 1, st_original = None, st_image = be32 JBD2_MAGIC @ replicate 4092 7\<rparr>),
                    (3, \<lparr>st_home = 3, st_original = None, st_image = replicate 4096 8\<rparr>)]\<rparr>"

lemma length_w_jsuper: "length w_jsuper = 1024"
  by (simp add: w_jsuper_def hole_seal_def)

lemma w_disk_blocks:
  "length w_disk = 20" "list_all (\<lambda>b. length b = BLOCK_SIZE) w_disk"
  "w_disk ! 4 = w_jsuper @ replicate 3072 0" "5 \<le> i \<Longrightarrow> i < 20 \<Longrightarrow> w_disk ! i = replicate BLOCK_SIZE 0"
  by (simp_all add: w_disk_def length_w_jsuper BLOCK_SIZE_def nth_append list_all_iff)

lemma w_context_ready: "journal_ready w_disk w_context k"
proof -
  have p: "jsuperblock_parse (w_jsuper @ replicate 3072 0) 4096 = Inr w_sb"
    using jsuperblock_parse_take [of "w_jsuper @ replicate 3072 0" 4096] w_jsuper_parse
    by (simp add: length_w_jsuper w_sb_def)
  have v: "context_validate w_context = Inr ()"
    by (simp add: context_validate_def w_context_def w_sb_def w_ring_def BLOCK_SIZE_def CRC32C_CHKSUM_def Let_def)
  have z: "header_parse (replicate BLOCK_SIZE 0) \<noteq> Inr h" for h
  proof
    assume "header_parse (replicate BLOCK_SIZE 0) = Inr h"
    then have "replicate 12 0 = header_bytes h" by (simp add: header_parse_Inr BLOCK_SIZE_def)
    then have "take 4 (replicate 12 0) = take 4 (header_bytes h)" by (rule arg_cong)
    then have "replicate 4 0 = be32 JBD2_MAGIC" by (simp add: header_bytes_def)
    then have "(of_be (replicate 4 0) :: u32) = JBD2_MAGIC" by simp
    moreover have "(of_be (replicate 4 0) :: u32) = 0" by (simp add: of_be_def numeral_eq_Suc)
    ultimately show False by (simp add: JBD2_MAGIC_def)
  qed
  have "fresh_block (js_sequence w_sb + word_of_nat j) (ring_block w_disk w_ring p)" if "pos_ok w_sb p" for j p
  proof -
    have "1 \<le> unat p" "unat p < 16" using that by (simp_all add: pos_ok_unat w_sb_def)
    then have "unat p \<in> {1..<16}" by simp
    moreover have "\<forall>i\<in>{1..<16}. 5 \<le> unat (w_ring ! i) \<and> unat (w_ring ! i) < 20"
      by (simp add: w_ring_def atLeastLessThan_nat_numeral flip: One_nat_def) 
    ultimately have "ring_block w_disk w_ring p = replicate BLOCK_SIZE 0"
      unfolding ring_block_def using w_disk_blocks(4) by blast
    then show ?thesis using z by (simp add: fresh_block_def)
  qed
  then have "ring_fresh w_disk w_ring w_sb k" by (simp add: ring_fresh_def)
  moreover have "sb_on_disk w_disk w_ring w_sb"
    using p by (simp add: sb_on_disk_def journal_sb_block_def w_ring_def w_disk_blocks length_w_jsuper BLOCK_SIZE_def)
  moreover have "distinct w_ring" "list_all (\<lambda>b. unat b < 20) w_ring" by (simp_all add: w_ring_def)
  moreover have "take 1024 (journal_sb_block w_disk w_ring) = w_jsuper"
    by (simp add: journal_sb_block_def w_ring_def w_disk_blocks length_w_jsuper)
  ultimately show ?thesis
    using v w_disk_blocks(1,2) by (simp add: journal_ready_def) (simp add: w_context_def w_sb_def)
qed

lemma w_tx_staged: "staged_all_ok (tx_staged w_tx)"
  by (simp add: w_tx_def staged_all_ok_def staged_ok_def BLOCK_SIZE_def)

lemma commit_crash_atomic_witness:
  "\<forall>q. let (d, c, cache, res) = tx_commit crash_ops (\<lambda>c _. Suc c) (power_on w_disk q) 0 w_tx in
     recovers_to w_context w_disk (cd_disk d) \<or> recovers_to w_context (committed w_disk (tx_staged w_tx)) (cd_disk d)"
proof
  fix q
  obtain d c cache res where run: "tx_commit crash_ops (\<lambda>c _. Suc c) (power_on w_disk q) 0 w_tx = (d, c, cache, res)"
    by (metis prod_cases4)
  have jc: "tx_core w_tx = Journal (w_core\<lparr>jco_flags := \<lparr>co_writer = True, co_poisoned = False\<rparr>\<rparr>)"
    by (simp add: w_tx_def transaction_new_def)
  have "crash_image d (cd_disk d)" by (simp add: crash_image_def)
  from commit_crash_atomic [OF w_context_ready _ jc _ w_tx_staged run this]
  show "let (d, c, cache, res) = tx_commit crash_ops (\<lambda>c _. Suc c) (power_on w_disk q) 0 w_tx in
     recovers_to w_context w_disk (cd_disk d) \<or> recovers_to w_context (committed w_disk (tx_staged w_tx)) (cd_disk d)"
    by (simp add: run w_disk_blocks(1) w_core_def)
qed

end
