(* ===== verification/Journal_History.thy ===== *)
theory Journal_History
  imports Crash_Atomicity
begin

text \<open>
  Sequences of journalled transactions: start, stage, commit (\<^verbatim>\<open>start\<close>, \<^verbatim>\<open>stage\<close> and \<^verbatim>\<open>commit\<close> of
  \<^verbatim>\<open>src/ext4/journal_transaction.rs\<close>), on the device that loses power. The abstract specification of a
  transaction is the list of its writes, applied in order.
\<close>

section \<open>Staging implements the list of writes\<close>

fun stage_all :: "transaction \<Rightarrow> writes \<Rightarrow> transaction res" where
  "stage_all tx [] = Inr tx"
| "stage_all tx ((home, img) # ws) = rbind (tx_stage tx home img) (\<lambda>tx. stage_all tx ws)"

lemma write_home_images_other:
  "\<forall>s\<in>set ss. st_home s \<noteq> h \<Longrightarrow> write_home_images (m[unat h := x]) ss = (write_home_images m ss)[unat h := x]"
proof (induction ss arbitrary: m)
  case (Cons s ss)
  have "unat (st_home s) \<noteq> unat h" using Cons.prems by (simp add: unat_inject)
  then have "(m[unat h := x])[unat (st_home s) := st_image s] = (m[unat (st_home s) := st_image s])[unat h := x]"
    by (metis list_update_swap)
  then show ?case using Cons by (simp add: write_home_images_def)
qed (simp add: write_home_images_def)

lemma committed_Cons: "committed m ((k, s) # t) = committed (m[unat (st_home s) := st_image s]) t"
  by (simp add: committed_def write_home_images_def)

lemma staged_other:
  assumes "staged_all_ok t" "\<forall>k\<in>set (map fst t). k \<noteq> h"
  shows "committed (m[unat h := x]) t = (committed m t)[unat h := x]"
  unfolding committed_def
  by (rule write_home_images_other) (use assms in \<open>force simp: staged_all_ok_def list_all_iff\<close>)

lemma committed_insert:
  "bt_wf t \<Longrightarrow> staged_all_ok t \<Longrightarrow> st_home s = h \<Longrightarrow>
   committed m (bt_insert h s t) = (committed m t)[unat h := st_image s]"
proof (induction h s t arbitrary: m rule: bt_insert.induct)
  case (1 k v)
  then show ?case by (simp add: committed_def write_home_images_def)
next
  case (2 k v k' v' t)
  have ok: "staged_all_ok t" and w: "bt_wf t" and lt: "\<forall>x\<in>set (map fst t). k' < x" and h: "st_home v' = k'"
    using 2(2,3) by (auto simp: staged_all_ok_def bt_wf_def)
  consider "k < k'" | "k = k'" | "k' < k" by fastforce
  then show ?case
  proof cases
    case 1
    then have "\<forall>x\<in>set (map fst ((k', v') # t)). x \<noteq> k" using lt by auto
    from staged_other [OF 2(3) this] show ?thesis using 1 2(4) by (simp add: committed_Cons)
  next
    case 2
    then have "\<forall>x\<in>set (map fst t). x \<noteq> k" using lt by auto
    from staged_other [OF ok this] show ?thesis using 2 \<open>st_home v = k\<close> h by (simp add: committed_Cons)
  next
    case 3
    then have "\<not> k < k'" "k \<noteq> k'" by auto
    then show ?thesis using 2(1) [OF _ _ w ok 2(4)] by (simp add: committed_Cons)
  qed
qed

lemma stage_all_ok:
  assumes "stage_all tx ws = Inr tx'" "staged_all_ok (tx_staged tx)" "bt_wf (tx_staged tx)"
    and "list_all (\<lambda>(h, img). length img = BLOCK_SIZE) ws"
  shows "staged_all_ok (tx_staged tx') \<and> bt_wf (tx_staged tx') \<and> tx_core tx' = tx_core tx \<and>
    tx_owns_writer tx' = tx_owns_writer tx \<and>
    committed m (tx_staged tx') = apply_writes (committed m (tx_staged tx)) (as_blocks ws)"
  using assms
proof (induction ws arbitrary: tx)
  case (Cons w ws)
  obtain h img where w: "w = (h, img)" by fastforce
  obtain tx1 where s: "tx_stage tx h img = Inr tx1" "stage_all tx1 ws = Inr tx'"
    using Cons.prems(1) by (auto simp: w rbind_eq_Inr)
  let ?s = "\<lparr>st_home = h, st_original = None, st_image = img\<rparr>"
  have tx1: "tx1 = tx\<lparr>tx_staged := bt_insert h ?s (tx_staged tx)\<rparr>"
    using s(1) by (auto simp: tx_stage_def split: if_splits)
  have "set (bt_insert h ?s t) \<subseteq> insert (h, ?s) (set t)" for t
    by (induction h ?s t rule: bt_insert.induct) auto
  then have ok: "staged_all_ok (tx_staged tx1)"
    using Cons.prems(2,4) by (fastforce simp: tx1 w staged_all_ok_def staged_ok_def list_all_iff)
  moreover have "bt_wf (tx_staged tx1)" using bt_wf_insert [OF Cons.prems(3)] by (simp add: tx1)
  moreover have "committed m (tx_staged tx1) = (committed m (tx_staged tx))[unat h := img]"
    using committed_insert [OF Cons.prems(3,2), of ?s h m] by (simp add: tx1)
  ultimately show ?case
    using Cons.IH [OF s(2)] Cons.prems(4) by (simp add: w tx1 block_new_def)
qed simp

section \<open>Sequences of transactions\<close>

text \<open>One operation on the file system: its credits and its writes.\<close>

type_synonym update = "nat \<times> writes"

definition run_update ::
    "('c \<Rightarrow> (PBlockId, staged_block) btree \<Rightarrow> 'c) \<Rightarrow> crash_dev \<Rightarrow> 'c \<Rightarrow> core \<Rightarrow> update \<Rightarrow> (crash_dev, 'c) commit_result" where
  "run_update publish d cache c u =
     (case transaction_start c (fst u) of
        (c, Inl (Err e)) \<Rightarrow> (d, c, cache, Inl (CommitError e BeforeCommit))
      | (c, Inl Panic) \<Rightarrow> (d, c, cache, Inl CommitPanic)
      | (c, Inr tx) \<Rightarrow>
          (case stage_all tx (snd u) of
             Inl (Err e) \<Rightarrow> (d, tx_abort tx, cache, Inl (CommitError e BeforeCommit))
           | Inl Panic \<Rightarrow> (d, tx_abort tx, cache, Inl CommitPanic)
           | Inr tx \<Rightarrow> tx_commit crash_ops publish d cache tx))"

text \<open>Updates until the first failure; the number of those that returned without an error.\<close>

fun run_updates ::
    "('c \<Rightarrow> (PBlockId, staged_block) btree \<Rightarrow> 'c) \<Rightarrow> crash_dev \<Rightarrow> 'c \<Rightarrow> core \<Rightarrow> update list \<Rightarrow>
     crash_dev \<times> nat \<times> (commit_fault + unit)" where
  "run_updates publish d cache c [] = (d, 0, Inr ())"
| "run_updates publish d cache c (u # us) =
     (case run_update publish d cache c u of
        (d, c, cache, Inl e) \<Rightarrow> (d, 0, Inl e)
      | (d, c, cache, Inr _) \<Rightarrow>
          (case run_updates publish d cache c us of (d, n, r) \<Rightarrow> (d, Suc n, r)))"

definition update_ok :: "update \<Rightarrow> bool" where
  "update_ok u \<longleftrightarrow> list_all (\<lambda>(h, img). length img = BLOCK_SIZE) (snd u)"

definition apply_updates :: "block_mem \<Rightarrow> update list \<Rightarrow> block_mem" where
  "apply_updates m us = apply_writes m (as_blocks (concat (map snd us)))"

lemma apply_updates_simps [simp]:
  "apply_updates m [] = m" "apply_updates m (u # us) = apply_updates (apply_writes m (as_blocks (snd u))) us"
  by (simp_all add: apply_updates_def)

lemma length_apply_updates [simp]: "length (apply_updates m us) = length m"
  by (simp add: apply_updates_def)

text \<open>What both the recovery and the next transaction depend on.\<close>

lemma apply_writes_agree:
  "length m' = length m \<Longrightarrow> i < length m \<Longrightarrow> m' ! i = m ! i \<Longrightarrow> apply_writes m' ws ! i = apply_writes m ws ! i"
proof (induction ws arbitrary: m m')
  case (Cons w ws)
  have "m'[unat (blk_id w) := blk_data w] ! i = m[unat (blk_id w) := blk_data w] ! i"
    using Cons.prems by (cases "unat (blk_id w) = i") auto
  then show ?case using Cons.IH [of "m'[unat (blk_id w) := blk_data w]" "m[unat (blk_id w) := blk_data w]"] Cons.prems
    by simp
qed simp

lemma same_homes_iff:
  assumes "length m \<le> 2 ^ 64"
  shows "same_homes c m m' \<longleftrightarrow> length m' = length m \<and> (\<forall>i < length m. off_journal c i \<longrightarrow> m' ! i = m ! i)"
proof
  assume s: "same_homes c m m'"
  show "length m' = length m \<and> (\<forall>i < length m. off_journal c i \<longrightarrow> m' ! i = m ! i)"
  proof (intro conjI allI impI)
    fix i assume i: "i < length m" "off_journal c i"
    then have "unat (word_of_nat i :: u64) = i" using assms by (simp add: unat_of_nat)
    then have "word_of_nat i \<notin> jc_journal_blocks c" using i(2) by (auto simp: off_journal_def)
    then show "m' ! i = m ! i" using s i(1) by (fastforce simp: same_homes_def list_all_iff)
  qed (use s in \<open>simp add: same_homes_def\<close>)
next
  assume "length m' = length m \<and> (\<forall>i < length m. off_journal c i \<longrightarrow> m' ! i = m ! i)"
  then show "same_homes c m m'" using assms by (intro same_homesI) auto
qed

lemma recovers_to_cong:
  assumes "jc_logical_blocks c' = jc_logical_blocks c" "jc_journal_blocks c' = jc_journal_blocks c"
    "jc_target_blocks c' = jc_target_blocks c"
    and "length g = length g'" "length g \<le> 2 ^ 64" "\<And>i. i < length g \<Longrightarrow> off_journal c i \<Longrightarrow> g ! i = g' ! i"
  shows "recovers_to c g m \<longleftrightarrow> recovers_to c' g' m"
proof -
  have "off_journal c' i \<longleftrightarrow> off_journal c i" for i by (simp add: off_journal_def assms(2))
  then have "same_homes c g x \<longleftrightarrow> same_homes c' g' x" for x
    using assms(4-6) by (auto simp: same_homes_iff)
  then show ?thesis by (simp add: recovers_to_def assms(1-3) split: prod.split sum.split)
qed

lemma start_journal_ok:
  assumes "transaction_start (Journal jc) credits = (c, Inr tx)" "\<not> co_writer (jco_flags jc)"
  shows "c = Journal (jc\<lparr>jco_flags := (jco_flags jc)\<lparr>co_writer := True\<rparr>\<rparr>)" "tx = transaction_new c credits False"
    "\<not> co_poisoned (jco_flags jc)"
  using assms
  by (auto simp: transaction_start_def start_journal_def acquire_writer_def set_writer_def is_poisoned_def sbind_def
      Let_def split: if_splits sum.splits prod.splits)

lemma start_journal_fails:
  assumes "transaction_start (Journal jc) credits = (c, Inl f)"
  shows "\<exists>jc'. c = Journal jc' \<and> jco_context jc' = jco_context jc"
  using assms
  by (auto simp: transaction_start_def start_journal_def acquire_writer_def set_writer_def sbind_def
      Let_def split: if_splits sum.splits prod.splits)

text \<open>One update, completed or cut off.\<close>

lemma run_update_crash:
  assumes r: "journal_ready m0 (jco_context jc) (Suc n)" and n: "Suc n < 2 ^ 32" and size: "length m0 \<le> 2 ^ 64"
    and w: "\<not> co_writer (jco_flags jc)" and ok: "update_ok u"
    and run: "run_update publish (power_on m0 q) cache (Journal jc) u = (d, c', cache', res)"
  shows "res \<noteq> Inr () \<Longrightarrow> crash_image d m \<Longrightarrow>
      recovers_to (jco_context jc) m0 m \<or> recovers_to (jco_context jc) (apply_writes m0 (as_blocks (snd u))) m"
    "res = Inr () \<Longrightarrow> \<exists>jc' m1. c' = Journal jc' \<and> jc_logical_blocks (jco_context jc') = jc_logical_blocks (jco_context jc) \<and>
       jc_journal_blocks (jco_context jc') = jc_journal_blocks (jco_context jc) \<and>
       jc_target_blocks (jco_context jc') = jc_target_blocks (jco_context jc) \<and>
       d = power_on m1 (cd_fuel d) \<and> length m1 = length m0 \<and> journal_ready m1 (jco_context jc') n \<and>
       (\<forall>i < length m0. off_journal (jco_context jc) i \<longrightarrow> m1 ! i = apply_writes m0 (as_blocks (snd u)) ! i) \<and>
       \<not> co_writer (jco_flags jc')"
proof -
  let ?c = "jco_context jc" and ?m' = "apply_writes m0 (as_blocks (snd u))"
  have r1: "journal_ready m0 ?c 1" using r by (auto simp: journal_ready_def ring_fresh_def)
  have idle: "recovers_to ?c m0 m" if "d = power_on m0 q" "crash_image d m"
  proof -
    have "m = m0" using that by (auto simp: crash_image_def power_on_def intro!: nth_equalityI)
    then show ?thesis using idle_recovers [OF r] by simp
  qed
  have staged: "staged_all_ok (tx_staged tx') \<and> tx_core tx' = c \<and> tx_owns_writer tx' \<and> committed m0 (tx_staged tx') = ?m'"
    if "stage_all (transaction_new c k p) (snd u) = Inr tx'" for c k p tx'
    using stage_all_ok [OF that, of m0] ok
    by (simp add: transaction_new_def staged_all_ok_def update_ok_def committed_def write_home_images_def)
  have commit: "\<exists>jc1 tx'. tx_core tx' = Journal jc1 \<and> jco_context jc1 = ?c \<and> staged_all_ok (tx_staged tx') \<and>
      tx_owns_writer tx' \<and> committed m0 (tx_staged tx') = ?m' \<and>
      tx_commit crash_ops publish (power_on m0 q) cache tx' = (d, c', cache', res)"
    if nd: "\<not> (d = power_on m0 q \<and> res \<noteq> Inr ())"
  proof (cases "transaction_start (Journal jc) (fst u)")
    case (Pair c1 t)
    show ?thesis
    proof (cases t)
      case (Inl f)
      then show ?thesis using run nd Pair by (cases f) (auto simp: run_update_def)
    next
      case (Inr tx)
      note s = start_journal_ok [OF Pair [unfolded Inr] w]
      show ?thesis
      proof (cases "stage_all tx (snd u)")
        case (Inl f)
        then show ?thesis using run nd Pair Inr by (cases f) (auto simp: run_update_def)
      next
        case st: (Inr tx')
        have "tx_commit crash_ops publish (power_on m0 q) cache tx' = (d, c', cache', res)"
          using run Pair Inr st by (simp add: run_update_def)
        moreover have "tx_core tx' = Journal (jc\<lparr>jco_flags := (jco_flags jc)\<lparr>co_writer := True\<rparr>\<rparr>)"
          using staged [of c1 "fst u" False tx'] st s(1,2) by simp
        ultimately show ?thesis
          using staged [of c1 "fst u" False tx'] st s(2)
          by (intro exI [of _ "jc\<lparr>jco_flags := (jco_flags jc)\<lparr>co_writer := True\<rparr>\<rparr>"] exI [of _ tx']) auto
      qed
    qed
  qed
  show "recovers_to ?c m0 m \<or> recovers_to ?c ?m' m" if "res \<noteq> Inr ()" and cr: "crash_image d m"
  proof (cases "d = power_on m0 q")
    case True
    then show ?thesis using idle cr by blast
  next
    case False
    then obtain jc1 tx' where t: "tx_core tx' = Journal jc1" "jco_context jc1 = ?c" "staged_all_ok (tx_staged tx')"
      "committed m0 (tx_staged tx') = ?m'" "tx_commit crash_ops publish (power_on m0 q) cache tx' = (d, c', cache', res)"
      using commit by blast
    have "recovers_to ?c m0 m \<or> recovers_to ?c (committed m0 (tx_staged tx')) m"
      using commit_recovers [OF r1 size t(1,2,3,5) cr] by blast
    then show ?thesis by (simp add: t(4))
  qed
  show "\<exists>jc' m1. c' = Journal jc' \<and> jc_logical_blocks (jco_context jc') = jc_logical_blocks (jco_context jc) \<and>
       jc_journal_blocks (jco_context jc') = jc_journal_blocks (jco_context jc) \<and>
       jc_target_blocks (jco_context jc') = jc_target_blocks (jco_context jc) \<and>
       d = power_on m1 (cd_fuel d) \<and> length m1 = length m0 \<and> journal_ready m1 (jco_context jc') n \<and>
       (\<forall>i < length m0. off_journal (jco_context jc) i \<longrightarrow> m1 ! i = apply_writes m0 (as_blocks (snd u)) ! i) \<and>
       \<not> co_writer (jco_flags jc')" if res: "res = Inr ()"
  proof -
    obtain jc1 tx' where t: "tx_core tx' = Journal jc1" "jco_context jc1 = ?c" "staged_all_ok (tx_staged tx')"
      "tx_owns_writer tx'" "committed m0 (tx_staged tx') = ?m'"
      "tx_commit crash_ops publish (power_on m0 q) cache tx' = (d, c', cache', Inr ())"
      using commit res by blast
    from tx_commit_done [OF r n size t(1,2,3,6)] t(4,5) show ?thesis by auto
  qed
qed

lemma run_updates_crash:
  assumes "journal_ready m0 (jco_context jc) (length us)" "length us < 2 ^ 32" "length m0 \<le> 2 ^ 64"
    and "\<not> co_writer (jco_flags jc)" "list_all update_ok us"
    and "run_updates publish (power_on m0 q) cache (Journal jc) us = (d, n, res)" "crash_image d m"
  shows "n \<le> length us \<and> (res = Inr () \<longleftrightarrow> n = length us) \<and>
    (recovers_to (jco_context jc) (apply_updates m0 (take n us)) m \<or>
     res \<noteq> Inr () \<and> recovers_to (jco_context jc) (apply_updates m0 (take (Suc n) us)) m)"
  using assms
proof (induction us arbitrary: m0 jc q cache n)
  case Nil
  have "m = m0" using Nil.prems(6,7) by (auto simp: crash_image_def power_on_def intro!: nth_equalityI)
  then show ?case using idle_recovers [OF Nil.prems(1)] Nil.prems(6) by simp
next
  case (Cons u us)
  let ?c = "jco_context jc" and ?m' = "apply_writes m0 (as_blocks (snd u))"
  obtain d1 c1 cache1 r1 where u: "run_update publish (power_on m0 q) cache (Journal jc) u = (d1, c1, cache1, r1)"
    by (metis prod_cases4)
  have r: "journal_ready m0 ?c (Suc (length us))" and lt: "Suc (length us) < 2 ^ 32" and ok: "update_ok u"
    using Cons.prems(1,2,5) by simp_all
  note one = run_update_crash [OF r lt Cons.prems(3,4) ok u]
  show ?case
  proof (cases r1)
    case (Inl e)
    then have dn: "d = d1" "n = 0" "res = Inl e" using Cons.prems(6) u by simp_all
    have "r1 \<noteq> Inr ()" using Inl by simp
    from one(1) [OF this, of m] Cons.prems(7) dn show ?thesis by simp
  next
    case (Inr x)
    then obtain jc' m1 where j: "c1 = Journal jc'" "jc_logical_blocks (jco_context jc') = jc_logical_blocks ?c"
      "jc_journal_blocks (jco_context jc') = jc_journal_blocks ?c" "jc_target_blocks (jco_context jc') = jc_target_blocks ?c"
      "d1 = power_on m1 (cd_fuel d1)" "length m1 = length m0" "journal_ready m1 (jco_context jc') (length us)"
      "\<forall>i < length m0. off_journal ?c i \<longrightarrow> m1 ! i = ?m' ! i" "\<not> co_writer (jco_flags jc')"
      using one(2) by auto
    obtain n' where n': "run_updates publish (power_on m1 (cd_fuel d1)) cache1 (Journal jc') us = (d, n', res)" "n = Suc n'"
      using Cons.prems(6) u Inr j(1) j(5) [symmetric] by (auto split: prod.splits)
    have size: "length m1 \<le> 2 ^ 64" using Cons.prems(3) j(6) by simp
    have ih: "n' \<le> length us \<and> (res = Inr () \<longleftrightarrow> n' = length us) \<and>
      (recovers_to (jco_context jc') (apply_updates m1 (take n' us)) m \<or>
       res \<noteq> Inr () \<and> recovers_to (jco_context jc') (apply_updates m1 (take (Suc n') us)) m)"
      by (rule Cons.IH [OF j(7) _ size j(9) _ n'(1) Cons.prems(7)]) (use lt Cons.prems(5) in simp_all)
    have "recovers_to ?c (apply_updates ?m' vs) m \<longleftrightarrow> recovers_to (jco_context jc') (apply_updates m1 vs) m" for vs
    proof (rule recovers_to_cong [OF j(2-4)])
      fix i assume "i < length (apply_updates ?m' vs)" "off_journal ?c i"
      then show "apply_updates ?m' vs ! i = apply_updates m1 vs ! i"
        unfolding apply_updates_def using j(6,8) by (intro apply_writes_agree) simp_all
    qed (use j(6) Cons.prems(3) in simp_all)
    then show ?thesis unfolding n'(2) using ih by (simp only: take_Suc_Cons apply_updates_simps) auto
  qed
qed

text \<open>C1: a sequence of journalled updates on a device that loses power. After recovery the medium is,
  outside the journal, the initial one with a prefix of the updates applied in order, each of them
  completely: the prefix contains every update whose commit returned without an error, and at most one
  more, the one that was cut off. No update is lost, reordered or half applied.\<close>

theorem journal_history_atomic:
  assumes "journal_ready m0 (jco_context jc) (length us)" "length us < 2 ^ 32" "length m0 \<le> 2 ^ 64"
    and "\<not> co_writer (jco_flags jc)" "list_all update_ok us"
    and "run_updates publish (power_on m0 q) cache (Journal jc) us = (d, n, res)" "crash_image d m"
  shows "n \<le> length us \<and> (res = Inr () \<longleftrightarrow> n = length us) \<and>
    (recovers_to (jco_context jc) (apply_updates m0 (take n us)) m \<or>
     res \<noteq> Inr () \<and> recovers_to (jco_context jc) (apply_updates m0 (take (Suc n) us)) m)"
  by (rule run_updates_crash [OF assms])

definition w_updates :: "update list" where
  "w_updates = [(1, [(2, replicate 4096 1), (2, replicate 4096 9)]), (2, [(3, replicate 4096 8), (1, replicate 4096 7)])]"

lemma journal_history_atomic_witness:
  "\<forall>q. let (d, n, res) = run_updates (\<lambda>c _. Suc c) (power_on w_disk q) 0 (Journal w_core) w_updates in
     n \<le> 2 \<and> (recovers_to w_context (apply_updates w_disk (take n w_updates)) (cd_disk d) \<or>
       recovers_to w_context (apply_updates w_disk (take (Suc n) w_updates)) (cd_disk d))"
proof
  fix q
  obtain d n res where run: "run_updates (\<lambda>c _. Suc c) (power_on w_disk q) 0 (Journal w_core) w_updates = (d, n, res)"
    by (metis prod_cases3)
  have ok: "list_all update_ok w_updates" by (simp add: w_updates_def update_ok_def BLOCK_SIZE_def)
  have c: "jco_context w_core = w_context" "\<not> co_writer (jco_flags w_core)" by (simp_all add: w_core_def flags_clean_def)
  have len: "length w_updates = 2" by (simp add: w_updates_def)
  have "crash_image d (cd_disk d)" by (simp add: crash_image_def)
  from journal_history_atomic [OF _ _ _ c(2) ok run this]
  show "let (d, n, res) = run_updates (\<lambda>c _. Suc c) (power_on w_disk q) 0 (Journal w_core) w_updates in
     n \<le> 2 \<and> (recovers_to w_context (apply_updates w_disk (take n w_updates)) (cd_disk d) \<or>
       recovers_to w_context (apply_updates w_disk (take (Suc n) w_updates)) (cd_disk d))"
    by (auto simp: run c(1) w_context_ready w_disk_blocks(1) len)
qed

end
