(* ===== verification/Transaction_States.thy ===== *)
theory Transaction_States
  imports Journal_Log
begin

text \<open>
  The life of transactions on one core (\<^verbatim>\<open>src/ext4/journal_transaction.rs\<close>) as a step relation: the
  writer token, the poison flag and the staged blocks, over any device and any cache publisher.
\<close>

section \<open>Steps\<close>

text \<open>No transaction, or one that holds the writer token and carries the core.\<close>

datatype tx_state = Idle core | Active transaction

inductive tx_step ::
    "('d, 'z) device_ops_scheme \<Rightarrow> ('c \<Rightarrow> (PBlockId, staged_block) btree \<Rightarrow> 'c) \<Rightarrow>
     'd \<times> 'c \<times> tx_state \<Rightarrow> 'd \<times> 'c \<times> tx_state \<Rightarrow> bool"
  for ops publish where
  begins: "transaction_start c credits = (c', Inr tx) \<Longrightarrow>
    tx_step ops publish (d, cache, Idle c) (d, cache, Active tx)"
| begins_range: "start_direct dc credits True = (c', Inr tx) \<Longrightarrow>
    tx_step ops publish (d, cache, Idle (Direct dc)) (d, cache, Active tx)"
| refuses: "transaction_start c credits = (c', Inl f) \<Longrightarrow>
    tx_step ops publish (d, cache, Idle c) (d, cache, Idle c')"
| stages: "length img = BLOCK_SIZE \<Longrightarrow> tx_stage tx home img = Inr tx' \<Longrightarrow>
    tx_step ops publish (d, cache, Active tx) (d, cache, Active tx')"
| reads: "tx_read_for_update ops d tx home = Inr (tx', img) \<Longrightarrow> length img = BLOCK_SIZE \<Longrightarrow>
    tx_step ops publish (d, cache, Active tx) (d, cache, Active tx')"
| updates: "length img = BLOCK_SIZE \<Longrightarrow>
    tx_step ops publish (d, cache, Active tx) (d, cache, Active (tx_update tx home img))"
| aborts: "tx_step ops publish (d, cache, Active tx) (d, cache, Idle (tx_abort tx))"
| commits: "tx_commit ops publish d cache tx = (d', c', cache', r) \<Longrightarrow>
    tx_step ops publish (d, cache, Active tx) (d', cache', Idle c')"
| commits_range: "commit_direct_range ops publish d cache tx homes inode_home = (d', c', cache', r) \<Longrightarrow>
    tx_step ops publish (d, cache, Active tx) (d', cache', Idle c')"

inductive_cases idle_stepE: "tx_step ops publish (d, cache, Idle c) s"
inductive_cases active_stepE: "tx_step ops publish (d, cache, Active tx) s"

section \<open>What the ends of a transaction do to the core\<close>

definition writer_held :: "core \<Rightarrow> bool" where
  "writer_held c = co_writer (core_flags_of c)"

lemma set_core_flags_flags [simp]: "core_flags_of (set_core_flags c f) = f"
  by (cases c) auto

lemma writer_simps [simp]:
  "writer_held (set_writer b c) = b" "is_poisoned (set_writer b c) = is_poisoned c"
  "writer_held (poison c) = writer_held c" "is_poisoned (poison c)"
  by (simp_all add: writer_held_def set_writer_def is_poisoned_def poison_def)

lemma release_writer_core:
  "tx_owns_writer tx \<Longrightarrow> tx_core (release_writer tx) = set_writer False (tx_core tx)"
  by (simp add: release_writer_def)

lemma tx_fail_core:
  "tx_owns_writer tx \<Longrightarrow> tx_fail tx f k p = (c, err) \<Longrightarrow> \<not> writer_held c"
  by (auto simp: tx_fail_def tx_abort_def release_writer_core release_writer_def split: fault.splits if_splits)

lemma commit_fails_core:
  "tx_owns_writer tx \<Longrightarrow> commit_fails d cache tx f k p = (d', c, cache', r) \<Longrightarrow> \<not> writer_held c"
  by (auto simp: commit_fails_def split: prod.splits dest: tx_fail_core)

lemma commit_done_core:
  "tx_owns_writer tx \<Longrightarrow> commit_done d cache tx = (d', c, cache', r) \<Longrightarrow> \<not> writer_held c"
  by (auto simp: commit_done_def release_writer_core)

lemmas commit_ends = commit_fails_core commit_done_core

lemma tx_commit_releases:
  assumes "tx_owns_writer tx" "tx_commit ops publish d cache tx = (d', c, cache', r)"
  shows "\<not> writer_held c"
  using assms
  by (auto simp: tx_commit_def commit_journal_def commit_direct_def Let_def
      split: if_splits core.splits sum.splits prod.splits dest!: commit_ends [rotated])

lemma direct_range_failed_releases:
  assumes "tx_owns_writer tx" "direct_range_failed ops d cache tx homes f = (d', c, cache', r)"
  shows "\<not> writer_held c"
  using assms
  by (auto simp: direct_range_failed_def split: fault.splits sum.splits prod.splits dest!: commit_ends [rotated])

lemma commit_range_releases:
  assumes "tx_owns_writer tx" "commit_direct_range ops publish d cache tx homes ih = (d', c, cache', r)"
  shows "\<not> writer_held c"
  using assms
  by (auto simp: commit_direct_range_def
      split: if_splits core.splits sum.splits prod.splits option.splits
      dest!: commit_ends [rotated] direct_range_failed_releases [rotated])

section \<open>The invariant\<close>

text \<open>The log space of all credits of a journal transaction is there.\<close>

definition reserved :: "transaction \<Rightarrow> bool" where
  "reserved tx = (case tx_core tx of
     Direct _ \<Rightarrow> True
   | Journal jc \<Rightarrow>
       (let sb = jc_superblock (jco_context jc) in
        case required_log_blocks (tx_credits tx) (js_features sb) of
          Inl _ \<Rightarrow> False
        | Inr needed \<Rightarrow> (case ring_len sb of Inl _ \<Rightarrow> False | Inr available \<Rightarrow> needed \<le> available)))"

definition staged_wf :: "transaction \<Rightarrow> bool" where
  "staged_wf tx \<longleftrightarrow> bt_wf (tx_staged tx) \<and> staged_all_ok (tx_staged tx) \<and> length (tx_staged tx) \<le> tx_credits tx"

definition active_ok :: "transaction \<Rightarrow> bool" where
  "active_ok tx \<longleftrightarrow> writer_held (tx_core tx) \<and> tx_owns_writer tx \<and> \<not> is_poisoned (tx_core tx) \<and>
     0 < tx_credits tx \<and> staged_wf tx \<and> reserved tx"

fun state_ok :: "tx_state \<Rightarrow> bool" where
  "state_ok (Idle c) = (\<not> writer_held c)"
| "state_ok (Active tx) = active_ok tx"

lemma acquire_writer_Inr:
  "acquire_writer c credits = (c', Inr u) \<longleftrightarrow>
   0 < credits \<and> \<not> is_poisoned c \<and> \<not> writer_held c \<and> c' = set_writer True c"
  by (auto simp: acquire_writer_def writer_held_def)

lemma acquire_writer_Inl:
  "acquire_writer c credits = (c', Inl f) \<Longrightarrow> c' = c"
  by (auto simp: acquire_writer_def split: if_splits)

lemma new_staged_wf: "staged_wf (transaction_new c k p)"
  by (simp add: staged_wf_def transaction_new_def staged_all_ok_def)

lemma start_direct_ok: "start_direct dc credits p = (c, Inr tx) \<Longrightarrow> active_ok tx"
  using new_staged_wf [of c credits p]
  by (auto simp: start_direct_def sbind_eq_Inr acquire_writer_Inr active_ok_def reserved_def transaction_new_def
      set_writer_def writer_held_def is_poisoned_def)

lemma start_journal_active:
  assumes "start_journal jc credits = (c, Inr tx)"
  shows "active_ok tx"
proof -
  let ?sb = "jc_superblock (jco_context jc)"
  let ?R = "rbind (required_log_blocks credits (js_features ?sb)) (\<lambda>needed.
        rbind (ring_len ?sb) (\<lambda>available. Inr (needed \<le> available)))"
  have a: "0 < credits" "\<not> is_poisoned (Journal jc)"
    and s: "(case ?R of Inl e \<Rightarrow> (set_writer False (set_writer True (Journal jc)), Inl e)
    | Inr fits \<Rightarrow> if \<not> fits then (set_writer False (set_writer True (Journal jc)), Inl (Err E2BIG))
        else (set_writer True (Journal jc), Inr (transaction_new (set_writer True (Journal jc)) credits False))) = (c, Inr tx)"
    using assms unfolding start_journal_def sbind_eq_Inr Let_def acquire_writer_Inr by blast+
  have R: "?R = Inr True" and tx: "tx = transaction_new (set_writer True (Journal jc)) credits False"
    using s by (cases ?R; simp split: if_splits)+
  obtain needed available where "required_log_blocks credits (js_features ?sb) = Inr needed"
    "ring_len ?sb = Inr available" "needed \<le> available"
    using R by (auto simp: rbind_eq_Inr)
  then have "reserved tx" by (simp add: reserved_def transaction_new_def set_writer_def tx)
  then show ?thesis
    using a new_staged_wf by (simp add: active_ok_def tx) (simp add: transaction_new_def)
qed

lemma start_ok: "transaction_start c credits = (c', Inr tx) \<Longrightarrow> active_ok tx"
  by (auto simp: transaction_start_def start_direct_ok start_journal_active split: core.splits)

lemma start_refused:
  assumes "transaction_start c credits = (c', Inl f)" "\<not> writer_held c"
  shows "\<not> writer_held c'"
proof (cases "acquire_writer c credits")
  case (Pair c1 r)
  show ?thesis
  proof (cases r)
    case (Inl e)
    then have "c' = c"
      using assms(1) Pair acquire_writer_Inl
      by (cases c) (simp_all add: transaction_start_def start_direct_def start_journal_def)
    then show ?thesis using assms(2) by simp
  next
    case (Inr u)
    then have "c' = set_writer False c1"
      using assms(1) Pair
      by (cases c) (auto simp: transaction_start_def start_direct_def start_journal_def Let_def
          split: sum.split_asm if_split_asm)
    then show ?thesis by simp
  qed
qed

lemma staged_wf_insert:
  assumes "staged_wf tx" "st_home s = home" "staged_ok s"
    and "bt_get (tx_staged tx) home = None \<longrightarrow> length (tx_staged tx) \<noteq> tx_credits tx"
  shows "staged_wf (tx\<lparr>tx_staged := bt_insert home s (tx_staged tx)\<rparr>)"
proof -
  have sub: "set (bt_insert home s t) \<subseteq> insert (home, s) (set t)" for t
    by (induction home s t rule: bt_insert.induct) auto
  have "staged_all_ok (bt_insert home s (tx_staged tx))"
    using assms(1-3) sub [of "tx_staged tx"] by (auto simp: staged_wf_def staged_all_ok_def list_all_iff)
  then show ?thesis
    using assms(1,4) bt_wf_insert [of "tx_staged tx" home s] length_bt_insert [of "tx_staged tx" home s]
    by (auto simp: staged_wf_def)
qed

lemma reserved_update [simp]: "reserved (tx\<lparr>tx_staged := t\<rparr>) = reserved tx"
  by (cases "tx_core tx") (simp_all add: reserved_def)

lemma active_ok_insert:
  assumes "active_ok tx" "st_home s = home" "staged_ok s"
    and "bt_get (tx_staged tx) home = None \<longrightarrow> length (tx_staged tx) \<noteq> tx_credits tx"
  shows "active_ok (tx\<lparr>tx_staged := bt_insert home s (tx_staged tx)\<rparr>)"
  using assms staged_wf_insert [OF _ assms(2-4)] by (simp add: active_ok_def)

lemma stage_active: "active_ok tx \<Longrightarrow> length img = BLOCK_SIZE \<Longrightarrow> tx_stage tx home img = Inr tx' \<Longrightarrow> active_ok tx'"
  by (auto simp: tx_stage_def staged_ok_def intro!: active_ok_insert split: if_splits)

lemma staged_found:
  assumes "staged_wf tx" "bt_get (tx_staged tx) home = Some s"
  shows "st_home s = home"
  using assms map_of_SomeD by (fastforce simp: staged_wf_def staged_all_ok_def list_all_iff)

lemma update_active: "active_ok tx \<Longrightarrow> length img = BLOCK_SIZE \<Longrightarrow> active_ok (tx_update tx home img)"
  by (auto simp: tx_update_def staged_ok_def active_ok_def [of tx] intro!: active_ok_insert dest: staged_found
      split: option.splits)

lemma read_active:
  assumes "active_ok tx" "tx_read_for_update ops d tx home = Inr (tx', img)" "length img = BLOCK_SIZE"
  shows "active_ok tx'"
proof (cases "bt_get (tx_staged tx) home = None")
  case True
  then obtain b :: block where b: "length (tx_staged tx) \<noteq> tx_credits tx"
    "tx' = tx\<lparr>tx_staged := bt_insert home \<lparr>st_home = home,
       st_original = (if tx_preserve_originals tx then Some (blk_data b) else None), st_image = blk_data b\<rparr> (tx_staged tx)\<rparr>"
    "img = blk_data b"
    using assms(2) True
    by (cases "length (tx_staged tx) = tx_credits tx"; cases "read_block ops d home")
       (auto simp: tx_read_for_update_def bt_get_insert)
  show ?thesis unfolding b(2) by (rule active_ok_insert [OF assms(1)]) (use b assms(3) in \<open>simp_all add: staged_ok_def\<close>)
next
  case False
  then show ?thesis using assms by (auto simp: tx_read_for_update_def)
qed

lemma tx_step_ok:
  "tx_step ops publish s s' \<Longrightarrow> state_ok (snd (snd s)) \<Longrightarrow> state_ok (snd (snd s'))"
proof (induction rule: tx_step.induct)
  case (refuses c credits c' f d cache)
  then show ?case using start_refused by simp
next
  case (aborts d cache tx)
  then show ?case by (simp add: tx_abort_def active_ok_def release_writer_core)
next
  case (commits d cache tx d' c' cache' r)
  then show ?case using tx_commit_releases [OF _ commits(1)] by (simp add: active_ok_def)
next
  case (commits_range d cache tx homes inode_home d' c' cache' r)
  then show ?case using commit_range_releases [OF _ commits_range(1)] by (simp add: active_ok_def)
qed (auto intro: start_ok start_direct_ok stage_active update_active read_active)

abbreviation tx_reach where
  "tx_reach ops publish \<equiv> (tx_step ops publish)\<^sup>*\<^sup>*"

lemma tx_reach_ok:
  "tx_reach ops publish s s' \<Longrightarrow> state_ok (snd (snd s)) \<Longrightarrow> state_ok (snd (snd s'))"
  by (induction rule: rtranclp_induct) (auto dest: tx_step_ok)

section \<open>The writer token\<close>

lemma start_while_held:
  assumes "writer_held c"
  shows "\<exists>e. transaction_start c credits = (c, Inl (Err e)) \<and> (0 < credits \<longrightarrow> \<not> is_poisoned c \<longrightarrow> e = EAGAIN)"
proof -
  have "\<exists>e. acquire_writer c credits = (c, Inl (Err e)) \<and> (0 < credits \<longrightarrow> \<not> is_poisoned c \<longrightarrow> e = EAGAIN)"
    using assms by (simp add: acquire_writer_def writer_held_def)
  then show ?thesis
    by (cases c) (auto simp: transaction_start_def start_direct_def start_journal_def)
qed

definition fits :: "core \<Rightarrow> nat \<Rightarrow> bool" where
  "fits c credits = (case c of
     Direct _ \<Rightarrow> True
   | Journal jc \<Rightarrow>
       (let sb = jc_superblock (jco_context jc) in
        case required_log_blocks credits (js_features sb) of
          Inl _ \<Rightarrow> False
        | Inr needed \<Rightarrow> (case ring_len sb of Inl _ \<Rightarrow> False | Inr available \<Rightarrow> needed \<le> available)))"

lemma start_when_free:
  assumes "\<not> writer_held c" "\<not> is_poisoned c" "0 < credits" "fits c credits"
  shows "transaction_start c credits = (set_writer True c, Inr (transaction_new (set_writer True c) credits False))"
proof -
  have "acquire_writer c credits = (set_writer True c, Inr ())" using assms by (simp add: acquire_writer_Inr)
  then show ?thesis
    using assms(4)
    by (cases c) (auto simp: transaction_start_def start_direct_def start_journal_def fits_def Let_def
        split: sum.split_asm)
qed

text \<open>C21: the writer token. On a core whose token is free, at most one transaction is ever alive: while one
  is, every \<^verbatim>\<open>start\<close> is refused, with \<open>EAGAIN\<close> when credits are asked for, and changes nothing; the live
  transaction has at most as many staged blocks as credits, each under its own home. Every way to end it
  gives the token back, so that in every idle state a start on a core that is not poisoned succeeds when
  the log has room for the credits.\<close>

theorem writer_token_exclusive:
  assumes "\<not> writer_held c0" "tx_reach ops publish (d0, k0, Idle c0) (d, k, s)"
  shows "(case s of
      Active tx \<Rightarrow> active_ok tx \<and> \<not> writer_held (tx_abort tx) \<and>
        (\<forall>n. \<exists>e. transaction_start (tx_core tx) n = (tx_core tx, Inl (Err e)) \<and> (n = 0 \<or> e = EAGAIN))
    | Idle c \<Rightarrow> \<not> writer_held c \<and>
        (\<forall>n. n = 0 \<or> is_poisoned c \<or> \<not> fits c n \<or> (\<exists>c' tx. transaction_start c n = (c', Inr tx) \<and> active_ok tx)))"
proof (cases s)
  case (Idle c)
  then have "\<not> writer_held c" using tx_reach_ok [OF assms(2)] assms(1) by simp
  then have "n = 0 \<or> is_poisoned c \<or> \<not> fits c n \<or> (\<exists>c' tx. transaction_start c n = (c', Inr tx) \<and> active_ok tx)" for n
    using start_when_free [of c n] start_ok [of c n] by blast
  then show ?thesis using \<open>\<not> writer_held c\<close> by (simp add: Idle)
next
  case (Active tx)
  then have ok: "active_ok tx" using tx_reach_ok [OF assms(2)] assms(1) by simp
  then have w: "writer_held (tx_core tx)" "\<not> is_poisoned (tx_core tx)" "tx_owns_writer tx" by (simp_all add: active_ok_def)
  have "\<exists>e. transaction_start (tx_core tx) n = (tx_core tx, Inl (Err e)) \<and> (n = 0 \<or> e = EAGAIN)" for n
    using start_while_held [OF w(1), of n] w(2) by auto
  moreover have "\<not> writer_held (tx_abort tx)" using w(3) by (simp add: tx_abort_def release_writer_core)
  ultimately show ?thesis using ok by (simp add: Active)
qed

section \<open>The poison flag\<close>

lemma poisoned_refuses:
  "is_poisoned c \<Longrightarrow> acquire_writer c credits = (c, Inl (Err (if credits = 0 then EINVAL else EROFS)))"
  by (simp add: acquire_writer_def)

lemma poisoned_step:
  assumes "tx_step ops publish (d, k, Idle c) s" "is_poisoned c"
  shows "s = (d, k, Idle c)"
proof -
  have t: "\<exists>f. transaction_start c credits = (c, Inl f)" for credits
    using poisoned_refuses [OF assms(2), of credits]
    by (cases c) (auto simp: transaction_start_def start_direct_def start_journal_def)
  have r: "\<exists>f. start_direct dc credits True = (c, Inl f)" if "c = Direct dc" for dc credits
    using poisoned_refuses [OF assms(2), of credits] that by (simp add: start_direct_def)
  from assms(1) show ?thesis
  proof (rule idle_stepE)
    fix credits c' tx assume "transaction_start c credits = (c', Inr tx)"
    then show ?thesis using t [of credits] by auto
  next
    fix dc credits c' tx assume "c = Direct dc" "start_direct dc credits True = (c', Inr tx)"
    then show ?thesis using r [of dc credits] by auto
  next
    fix credits c' f assume "s = (d, k, Idle c')" "transaction_start c credits = (c', Inl f)"
    then show ?thesis using t [of credits] by auto
  qed
qed

text \<open>Poison is final. On a poisoned core no transaction is ever started again; the device, the caches
  and the core stay as they are, whatever is tried.\<close>

theorem poison_is_final:
  assumes "is_poisoned c" "tx_reach ops publish (d, k, Idle c) s"
  shows "s = (d, k, Idle c)"
  using assms(2)
  by (induction rule: rtranclp_induct) (auto dest: poisoned_step [OF _ assms(1)])

section \<open>Failed commits\<close>

lemma tx_fail_Err:
  "tx_owns_writer tx \<Longrightarrow> tx_fail tx f k p = (c, CommitError e k') \<Longrightarrow>
   f = Err e \<and> k' = k \<and> c = set_writer False (if p then poison (tx_core tx) else tx_core tx)"
  by (auto simp: tx_fail_def release_writer_def split: fault.splits if_splits)

lemma commit_fails_Err:
  "tx_owns_writer tx \<Longrightarrow> commit_fails d cache tx f k p = (d', c, cache', Inl (CommitError e k')) \<Longrightarrow>
   d' = d \<and> cache' = cache \<and> f = Err e \<and> k' = k \<and> c = set_writer False (if p then poison (tx_core tx) else tx_core tx)"
  by (auto simp: commit_fails_def split: prod.splits dest: tx_fail_Err)

lemma commit_fails_not_Inr [simp]: "commit_fails d cache tx f k p \<noteq> (d', c, cache', Inr u)"
  by (simp add: commit_fails_def split: prod.split)

lemma commit_done_not_Inl [simp]: "commit_done d cache tx \<noteq> (d', c, cache', Inl u)"
  by (simp add: commit_done_def)

lemma ring_next_Inl: "ring_next sb p = Inl f \<Longrightarrow> f = Panic"
  by (auto simp: ring_next_def rbind_eq_Inl add_chk_def split: if_splits)

lemma context_after_Inl: "context_after c plan = (c', Inl f) \<Longrightarrow> f = Panic"
  by (auto simp: context_after_def Let_def split: sum.splits dest: ring_next_Inl)

lemma commit_journal_failed:
  assumes "tx_owns_writer tx" "tx_core tx = Journal jc"
    and "commit_journal ops publish d cache tx jc = (d', c, cache', Inl (CommitError e f))"
  shows "(is_poisoned c \<or> f = BeforeCommit \<and> d' = d) \<and>
    (cache' = cache \<or> f = TailUpdateFailed \<and> cache' = publish cache (tx_staged tx))"
proof (cases "journal_plan (supports_reliable_flush ops d) (jco_context jc) (tx_staged tx)")
  case (Inl g)
  then show ?thesis
    using assms(3) commit_fails_Err [OF assms(1)] by (fastforce simp: commit_journal_def Let_def)
next
  case (Inr plan)
  obtain d1 r1 where io: "commit_io ops d (jc_logical_blocks (jco_context jc)) plan (home_images (tx_staged tx)) = (d1, r1)"
    by fastforce
  show ?thesis
  proof (cases r1)
    case (Inl gk)
    then show ?thesis
      using assms(3) Inr io commit_fails_Err [OF assms(1)]
      by (cases gk) (fastforce simp: commit_journal_def Let_def)
  next
    case r1: (Inr u)
    obtain d2 r2 where tail: "clear_tail ops d1 (jc_logical_blocks (jco_context jc)) plan = (d2, r2)" by fastforce
    show ?thesis
    proof (cases r2)
      case (Inl gk)
      obtain g k where gk: "gk = (g, k)" by fastforce
      have k: "k = TailUpdateFailed"
        using tail Inl by (auto simp: gk clear_tail_def sbind_def tagged_def split: prod.splits sum.splits)
      show ?thesis
        using assms(3) Inr io r1 tail Inl commit_fails_Err [OF assms(1)] gk k
        by (fastforce simp: commit_journal_def Let_def)
    next
      case r2: (Inr v)
      obtain c1 x where x: "context_after (jco_context jc) plan = (c1, x)" by fastforce
      show ?thesis
      proof (cases x)
        case (Inl g)
        then have "g = Panic" using context_after_Inl x by blast
        then show ?thesis
          using assms(3) Inr io r1 tail r2 x Inl
          by (simp add: commit_journal_def Let_def commit_fails_def tx_fail_def)
      next
        case (Inr w)
        then show ?thesis
          using assms(3) \<open>journal_plan _ _ _ = Inr plan\<close> io r1 tail r2 x by (simp add: commit_journal_def Let_def)
      qed
    qed
  qed
qed

lemma commit_direct_failed:
  assumes "tx_owns_writer tx"
    and "commit_direct ops publish d cache tx dc = (d', c, cache', Inl (CommitError e f))"
  shows "(is_poisoned c \<or> f = BeforeCommit \<and> d' = d) \<and> cache' = cache"
proof (cases "list_ex (\<lambda>s. st_home s \<ge> dc_target_blocks dc) (map snd (tx_staged tx))")
  case True
  then have "commit_fails d cache tx (Err EINVAL) BeforeCommit False = (d', c, cache', Inl (CommitError e f))"
    using assms(2) unfolding commit_direct_def by simp
  from commit_fails_Err [OF assms(1) this] show ?thesis by simp
next
  case False
  obtain d1 r where w: "write_all ops d (home_images (tx_staged tx)) = (d1, r)" by fastforce
  then obtain g where "commit_fails d1 cache tx g CheckpointFailed True = (d', c, cache', Inl (CommitError e f))"
    using assms(2) False unfolding commit_direct_def by (cases r) auto
  from commit_fails_Err [OF assms(1) this] show ?thesis by simp
qed

text \<open>What a journal commit has made durable when it shows the staged blocks to the caches. The tail writes the journal
  superblock only, whose block is no home of the transaction.\<close>

context volatile_device
begin

lemma write_all_contents:
  "write_all ops d ws = (d', Inr u) \<Longrightarrow> distinct (map fst ws) \<Longrightarrow> (i, v) \<in> set ws \<or> i \<notin> fst ` set ws \<and> contents d i = Some v \<Longrightarrow>
     contents d' i = Some v"
proof (induction ws arbitrary: d)
  case (Cons w ws)
  obtain h bs where w: "w = (h, bs)" by fastforce
  from Cons.prems(1) obtain d1 where d1: "write_bytes ops d h bs = (d1, Inr ())" "write_all ops d1 ws = (d', Inr u)"
    by (auto simp: w sbind_eq_Inr)
  have c: "contents d1 = (contents d)(h \<mapsto> bs)" using write_sound d1(1) by (auto simp: write_bytes_def block_new_def)
  show ?case
    by (rule Cons.IH [OF d1(2)]) (use Cons.prems(2,3) c in \<open>auto simp: w rev_image_eqI\<close>)
qed auto

lemma commit_io_durable:
  assumes "commit_io ops d mapping plan homes = (d', Inr u)" "distinct (map fst homes)" "(i, v) \<in> set homes"
  shows "durable d' i v"
proof -
  obtain d1 d2 where "write_all ops d1 homes = (d2, Inr ())" "flush ops d2 = (d', Inr ())"
    using assms(1) by (auto simp: commit_io_def sbind_eq_Inr tagged_def split: if_splits prod.splits sum.splits)
  then show ?thesis using write_all_contents assms(2,3) flush_durable by blast
qed

lemma clear_tail_durable:
  assumes "clear_tail ops d mapping plan = (d', x)" "durable d i v" "mapping = [] \<or> i \<noteq> mapping ! 0"
  shows "durable d' i v"
proof -
  obtain d1 y where w: "write_journal_superblock ops d mapping (pl_clean plan) = (d1, y)" by fastforce
  have d1: "durable d1 i v"
  proof (cases "rbind (index_at mapping 0) (read_block ops d)")
    case (Inl f)
    then show ?thesis using w assms(2) by (simp add: write_journal_superblock_def)
  next
    case (Inr b)
    then have b: "mapping \<noteq> []" "blk_id b = mapping ! 0"
      using read_sound by (auto simp: rbind_eq_Inr index_at_def split: if_splits)
    show ?thesis
    proof (cases "write_range (blk_data b) 0 (pl_clean plan)")
      case (Inl f)
      then show ?thesis using w assms(2) \<open>_ = Inr b\<close> by (simp add: write_journal_superblock_def)
    next
      case data: (Inr data)
      then have "write_block ops d (b\<lparr>blk_data := data\<rparr>) = (d1, y)" using w Inr by (simp add: write_journal_superblock_def)
      from write_keeps_durable [OF this _ assms(2)] show ?thesis using assms(3) b by simp
    qed
  qed
  show ?thesis
  proof (cases y)
    case (Inl f)
    then show ?thesis using assms(1) w d1 by (simp add: clear_tail_def tagged_def)
  next
    case (Inr u)
    obtain d2 z where f: "flush ops d1 = (d2, z)" by fastforce
    then have "d2 = d'" using assms(1) w Inr by (cases z) (auto simp: clear_tail_def tagged_def)
    then show ?thesis using flush_keeps_durable [OF f d1] by simp
  qed
qed

lemma commit_journal_publishes:
  assumes "commit_journal ops publish d cache tx jc = (d', c, cache', x)" "staged_wf tx"
    and "context_validate (jco_context jc) = Inr ()"
  shows "cache' = cache \<or> cache' = publish cache (tx_staged tx) \<and> (\<forall>(home, s) \<in> set (tx_staged tx). durable d' home (st_image s))"
proof (cases "journal_plan (supports_reliable_flush ops d) (jco_context jc) (tx_staged tx)")
  case (Inl g)
  then show ?thesis using assms(1) by (auto simp: commit_journal_def Let_def commit_fails_def split: prod.splits)
next
  case (Inr plan)
  let ?c = "jco_context jc" and ?homes = "home_images (tx_staged tx)"
  obtain d1 r1 where io: "commit_io ops d (jc_logical_blocks ?c) plan ?homes = (d1, r1)" by fastforce
  show ?thesis
  proof (cases r1)
    case Inl1: (Inl gk)
    then show ?thesis using assms(1) Inr io
      by (auto simp: commit_journal_def Let_def commit_fails_def split: prod.splits)
  next
    case ok: (Inr u)
    obtain d2 r2 where tail: "clear_tail ops d1 (jc_logical_blocks ?c) plan = (d2, r2)" by fastforce
    have out: "d' = d2 \<and> cache' = publish cache (tx_staged tx)"
      using assms(1) Inr io ok tail
      by (auto simp: commit_journal_def Let_def commit_fails_def commit_done_def split: prod.splits sum.splits)
    have "durable d' home (st_image s)" if s: "(home, s) \<in> set (tx_staged tx)" for home s
    proof -
      have k: "st_home s = home" using s assms(2) by (auto simp: staged_wf_def staged_all_ok_def list_all_iff)
      have "map fst ?homes = map fst (tx_staged tx)"
        using assms(2) by (auto simp: home_images_def staged_wf_def staged_all_ok_def list_all_iff)
      then have "distinct (map fst ?homes)"
        using assms(2) by (auto simp: staged_wf_def bt_wf_def strict_sorted_iff)
      moreover have "(home, st_image s) \<in> set ?homes" using s k by (force simp: home_images_def)
      ultimately have "durable d1 home (st_image s)" using commit_io_durable io ok by blast
      moreover have "home \<notin> jc_journal_blocks ?c"
        using Inr s k by (auto simp: journal_plan_def Let_def rbind_eq_Inr list_ex_iff split: if_splits)
      moreover have "set (jc_logical_blocks ?c) \<subseteq> jc_journal_blocks ?c"
        using assms(3) by (auto simp: context_validate_def Let_def list_ex_iff split: if_splits)
      ultimately have "jc_logical_blocks ?c = [] \<or> home \<noteq> jc_logical_blocks ?c ! 0" using nth_mem [of 0] by fastforce
      then show ?thesis using clear_tail_durable [OF tail \<open>durable d1 home _\<close>] out by simp
    qed
    then show ?thesis using out by auto
  qed
qed

lemma tx_commit_publishes:
  assumes "tx_commit ops publish d cache tx = (d', c, cache', x)" "staged_wf tx" "tx_core tx = Journal jc"
    and "context_validate (jco_context jc) = Inr ()"
  shows "cache' = cache \<or> cache' = publish cache (tx_staged tx) \<and> (\<forall>(home, s) \<in> set (tx_staged tx). durable d' home (st_image s))"
proof (cases "tx_staged tx = []")
  case True
  then show ?thesis using assms(1) by (simp add: tx_commit_def commit_done_def)
next
  case False
  then have "commit_journal ops publish d cache tx jc = (d', c, cache', x)" using assms(1,3) by (simp add: tx_commit_def)
  then show ?thesis by (rule commit_journal_publishes [OF _ assms(2,4)])
qed

end

lemma commit_error:
  assumes "tx_owns_writer tx" "tx_commit ops publish d cache tx = (d', c, cache', Inl (CommitError e f))"
  shows "\<not> writer_held c \<and> (is_poisoned c \<or> f = BeforeCommit \<and> d' = d) \<and>
    (cache' = cache \<or> f = TailUpdateFailed \<and> cache' = publish cache (tx_staged tx))"
proof (cases "tx_core tx")
  case (Journal jc)
  then have "commit_journal ops publish d cache tx jc = (d', c, cache', Inl (CommitError e f))"
    using assms(2) by (auto simp: tx_commit_def split: if_splits)
  from commit_journal_failed [OF assms(1) Journal this] tx_commit_releases [OF assms] show ?thesis by blast
next
  case (Direct dc)
  then have "commit_direct ops publish d cache tx dc = (d', c, cache', Inl (CommitError e f))"
    using assms(2) by (auto simp: tx_commit_def split: if_splits)
  from commit_direct_failed [OF assms(1) this] tx_commit_releases [OF assms] show ?thesis by blast
qed

text \<open>C23: the ends of a commit. On an error either the core is poisoned, or the failure is \<open>BeforeCommit\<close> and the device
  is untouched, so that the caller may go on; the token is given back, and the caches see the staged blocks only with
  \<open>TailUpdateFailed\<close>. With a journal, whatever the result, the caches see the staged blocks only when every home block is
  durable: no loss of power can take them back. The transaction is one the operations build (its blocks are keyed by
  their homes, in order) and the context of the journal is valid.\<close>

theorem failed_commit_poisons:
  assumes "volatile_device ops contents durable" "tx_owns_writer tx" "staged_wf tx"
    and "\<And>jc. tx_core tx = Journal jc \<Longrightarrow> context_validate (jco_context jc) = Inr ()"
    and "tx_commit ops publish d cache tx = (d', c, cache', x)"
  shows "(\<forall>e f. x = Inl (CommitError e f) \<longrightarrow>
      \<not> writer_held c \<and> (is_poisoned c \<or> f = BeforeCommit \<and> d' = d) \<and>
      (cache' = cache \<or> f = TailUpdateFailed \<and> cache' = publish cache (tx_staged tx))) \<and>
    (\<forall>jc. tx_core tx = Journal jc \<longrightarrow> cache' = cache \<or>
      cache' = publish cache (tx_staged tx) \<and> (\<forall>(home, s) \<in> set (tx_staged tx). durable d' home (st_image s)))"
proof (rule conjI; intro allI impI)
  fix e f assume "x = Inl (CommitError e f)"
  from commit_error [OF assms(2) assms(5) [unfolded this]]
  show "\<not> writer_held c \<and> (is_poisoned c \<or> f = BeforeCommit \<and> d' = d) \<and>
    (cache' = cache \<or> f = TailUpdateFailed \<and> cache' = publish cache (tx_staged tx))" .
next
  fix jc assume "tx_core tx = Journal jc"
  from volatile_device.tx_commit_publishes [OF assms(1,5,3) this assms(4) [OF this]]
  show "cache' = cache \<or> cache' = publish cache (tx_staged tx) \<and> (\<forall>(home, s) \<in> set (tx_staged tx). durable d' home (st_image s))" .
qed

definition w_direct :: direct_core where
  "w_direct = \<lparr>dc_flags = flags_clean, dc_target_blocks = 5\<rparr>"

definition w_held :: core where
  "w_held = Direct \<lparr>dc_flags = \<lparr>co_writer = True, co_poisoned = False\<rparr>, dc_target_blocks = 5\<rparr>"

definition w_poisoned :: core where
  "w_poisoned = Direct \<lparr>dc_flags = \<lparr>co_writer = False, co_poisoned = True\<rparr>, dc_target_blocks = 5\<rparr>"

definition w_outside :: transaction where
  "w_outside = (transaction_new w_held 2 False)
     \<lparr>tx_staged := [(9, \<lparr>st_home = 9, st_original = None, st_image = replicate 4096 0\<rparr>)]\<rparr>"

lemma w_direct_start: "transaction_start (Direct w_direct) 2 = (w_held, Inr (transaction_new w_held 2 False))"
  by (simp add: transaction_start_def start_direct_def acquire_writer_def w_direct_def w_held_def flags_clean_def
      is_poisoned_def set_writer_def)

lemma writer_token_exclusive_witness:
  "transaction_start w_held 1 = (w_held, Inl (Err EAGAIN)) \<and> active_ok (transaction_new w_held 2 False)"
proof -
  let ?tx = "transaction_new w_held 2 False"
  have f: "\<not> writer_held (Direct w_direct)" by (simp add: writer_held_def w_direct_def flags_clean_def)
  have r: "tx_reach mem_ops (\<lambda>k _. Suc k) ([], 0, Idle (Direct w_direct)) ([], 0, Active ?tx)"
    by (rule r_into_rtranclp, rule begins, rule w_direct_start)
  note x = writer_token_exclusive [OF f r, unfolded tx_state.case]
  have c: "tx_core ?tx = w_held" by (simp add: transaction_new_def)
  obtain e where "transaction_start w_held 1 = (w_held, Inl (Err e)) \<and> (1 = (0::nat) \<or> e = EAGAIN)"
    using x unfolding c by blast
  then show ?thesis using x by simp
qed

lemma poison_is_final_witness:
  "\<forall>n. \<not> tx_reach mem_ops (\<lambda>k _. Suc k) ([], 0, Idle w_poisoned) ([], 0, Active (transaction_new w_held n False))"
proof -
  have "is_poisoned w_poisoned" by (simp add: is_poisoned_def w_poisoned_def)
  note final = poison_is_final [OF this]
  show ?thesis
  proof (rule allI, rule notI)
    fix n assume "tx_reach mem_ops (\<lambda>k _. Suc k) ([], 0, Idle w_poisoned) ([], 0, Active (transaction_new w_held n False))"
    from final [OF this] show False by simp
  qed
qed

lemma failed_commit_poisons_witness:
  "\<exists>c. tx_commit mem_ops (\<lambda>k _. Suc k) [] 0 w_outside = ([], c, 0, Inl (CommitError EINVAL BeforeCommit)) \<and> \<not> writer_held c"
proof -
  obtain c where c: "tx_commit mem_ops (\<lambda>k _. Suc k) [] 0 w_outside = ([], c, 0, Inl (CommitError EINVAL BeforeCommit))"
    by (simp add: tx_commit_def w_outside_def transaction_new_def w_held_def commit_direct_def commit_fails_def tx_fail_def)
  have o: "tx_owns_writer w_outside" "tx_core w_outside \<noteq> Journal jc" for jc
    by (simp_all add: w_outside_def transaction_new_def w_held_def)
  have w: "staged_wf w_outside"
    by (simp add: staged_wf_def w_outside_def transaction_new_def bt_wf_def staged_all_ok_def staged_ok_def BLOCK_SIZE_def)
  from failed_commit_poisons [OF mem.volatile_device_axioms o(1) w _ c] o(2) c show ?thesis by blast
qed

section \<open>Credits\<close>

text \<open>The outcome of a preparation that cannot be for lack of space.\<close>

definition not_too_big :: "'a res \<Rightarrow> bool" where
  "not_too_big m \<longleftrightarrow> m \<noteq> Inl (Err E2BIG)"

lemma not_too_big_simps [simp]:
  "not_too_big (Inr x)" "not_too_big (Inl Panic)" "not_too_big (Inl (Err e)) \<longleftrightarrow> e \<noteq> E2BIG"
  by (simp_all add: not_too_big_def)

lemma not_too_big_rbind: "not_too_big m \<Longrightarrow> (\<And>x. m = Inr x \<Longrightarrow> not_too_big (f x)) \<Longrightarrow> not_too_big (rbind m f)"
  by (cases m) (auto simp: not_too_big_def)

lemma not_too_big_write [simp]: "not_too_big (write_range xs off ys)" "not_too_big (index_range xs off k)"
  by (simp_all add: write_range_def index_range_def)

lemma not_too_big_encode_tags: "not_too_big (encode_tags sb seed sq n i off desc ss)"
proof (induction ss arbitrary: i off desc)
  case (Cons s ss)
  have "not_too_big (encode_tag_fields fts seed sq off home flags img desc)" for fts off home flags img desc
    by (auto simp: encode_tag_fields_def intro!: not_too_big_rbind split: ChecksumMode.split)
  then show ?case
    unfolding encode_tags.simps Let_def
    by (intro not_too_big_rbind) (simp_all add: Cons.IH split: prod.split)
qed simp

lemma not_too_big_block_checksum: "not_too_big (block_checksum seed blk)"
  by (simp add: block_checksum_def Let_def)

lemma not_too_big_encode_log: "not_too_big (encode_log sb sq staged)"
proof -
  have g: "not_too_big (encode_group sb seed sq g)" for seed g
    by (auto simp: encode_group_def header_encode_into_ok BLOCK_SIZE_def
        intro!: not_too_big_rbind not_too_big_encode_tags not_too_big_block_checksum split: prod.split)
  have "not_too_big (encode_groups sb seed sq gs)" for seed gs
    by (induction gs) (auto intro!: not_too_big_rbind g)
  then show ?thesis by (simp add: encode_log_def tags_per_descriptor_ok)
qed

lemma required_log_blocks_mono:
  assumes "required_log_blocks n fts = Inr a" "m \<le> n" "n < 2 ^ 32"
  shows "\<exists>b. required_log_blocks m fts = Inr b \<and> b \<le> a"
  using assms required_log_blocks_eq [of n fts] required_log_blocks_eq [of m fts]
  by (auto simp: add_le_mono div_le_mono)

section \<open>The journal context stays valid\<close>

definition in_ring :: "jsuperblock \<Rightarrow> u32 \<Rightarrow> bool" where
  "in_ring sb p \<longleftrightarrow> js_first sb \<le> p \<and> p < js_max_len sb"

lemma ring_next_in: "in_ring sb p \<Longrightarrow> ring_next sb p = Inr q \<Longrightarrow> in_ring sb q"
proof -
  assume p: "in_ring sb p" and q: "ring_next sb p = Inr q"
  have u: "unat (p + 1) = unat p + 1"
    using p unat_add_lt [of p 1] unat_lt [of "js_max_len sb"] by (simp add: in_ring_def word_less_nat_alt)
  show ?thesis
  proof (cases "p + 1 = js_max_len sb")
    case True
    then show ?thesis using p q by (auto simp: in_ring_def ring_next_def rbind_eq_Inr add_chk_def split: if_splits)
  next
    case False
    then have "unat p + 1 \<noteq> unat (js_max_len sb)" using u unat_inject by metis
    then have "in_ring sb (p + 1)"
      using p u by (simp add: in_ring_def word_le_nat_alt word_less_nat_alt)
    then show ?thesis using q False by (auto simp: ring_next_def rbind_eq_Inr add_chk_def split: if_splits)
  qed
qed

lemma ring_next_ok: "in_ring sb p \<Longrightarrow> \<exists>q. ring_next sb p = Inr q"
  using unat_lt [of "js_max_len sb"] by (simp add: in_ring_def ring_next_def add_chk_def word_less_nat_alt)

lemma ring_take_in:
  "in_ring sb p \<Longrightarrow> \<exists>ps. ring_take sb p n = Inr ps \<and> length ps = n \<and> list_all (in_ring sb) ps"
proof (induction n arbitrary: p)
  case (Suc n)
  obtain q where q: "ring_next sb p = Inr q" using ring_next_ok [OF Suc.prems] by blast
  from Suc.IH [OF ring_next_in [OF Suc.prems q]] Suc.prems show ?case by (auto simp: q)
qed simp

lemma context_head: "context_validate c = Inr () \<Longrightarrow> in_ring (jc_superblock c) (jc_head c)"
  by (auto simp: context_validate_def Let_def in_ring_def not_less split: if_splits)

lemma context_after_valid:
  assumes v: "context_validate c = Inr ()" and p: "journal_plan rf c staged = Inr plan"
  shows "context_validate (fst (context_after c plan)) = Inr ()"
proof -
  let ?sb = "jc_superblock c"
  obtain needed where n: "required_log_blocks (length staged) (js_features ?sb) = Inr needed"
    and ps: "ring_positions ?sb (jc_head c) needed = Inr (pl_positions plan)"
    using p by (auto simp: journal_plan_def Let_def rbind_eq_Inr split: if_splits)
  have "0 < needed"
    using n by (auto simp: required_log_blocks_def rbind_eq_Inr usize_checked_add_def Let_def split: if_splits)
  moreover obtain qs where "ring_take ?sb (jc_head c) needed = Inr qs" "length qs = needed" "list_all (in_ring ?sb) qs"
    using ring_take_in [OF context_head [OF v], of needed] by blast
  moreover have "pl_positions plan = qs"
    using ps calculation(2) by (auto simp: ring_positions_def rbind_eq_Inr split: if_splits)
  ultimately have l: "in_ring ?sb (last (pl_positions plan))"
    by (metis last_in_set length_greater_0_conv list_all_iff)
  obtain h where h: "ring_next ?sb (last (pl_positions plan)) = Inr h" using ring_next_ok [OF l] by blast
  have "in_ring ?sb h" by (rule ring_next_in [OF l h])
  then show ?thesis
    using v by (auto simp: context_after_def h Let_def context_validate_def in_ring_def split: if_splits)
qed

definition core_ok :: "core \<Rightarrow> bool" where
  "core_ok c = (case c of Direct _ \<Rightarrow> True | Journal jc \<Rightarrow> context_validate (jco_context jc) = Inr ())"

lemma core_ok_flags [simp]: "core_ok (set_core_flags c f) = core_ok c"
  by (cases c) (simp_all add: core_ok_def)

lemma core_ok_simps [simp]: "core_ok (poison c) = core_ok c" "core_ok (set_writer b c) = core_ok c"
  by (simp_all add: poison_def set_writer_def)

lemma release_core_ok [simp]: "core_ok (tx_core (release_writer tx)) = core_ok (tx_core tx)"
  by (simp add: release_writer_def)

lemma tx_fail_core_ok: "tx_fail tx f k p = (c, err) \<Longrightarrow> core_ok c = core_ok (tx_core tx)"
  by (auto simp: tx_fail_def tx_abort_def split: fault.splits if_splits)

lemma commit_core_ok:
  "commit_fails d cache tx f k p = (d', c, cache', r) \<Longrightarrow> core_ok c = core_ok (tx_core tx)"
  "commit_done d cache tx = (d', c, cache', r) \<Longrightarrow> core_ok c = core_ok (tx_core tx)"
  by (auto simp: commit_fails_def commit_done_def split: prod.splits dest: tx_fail_core_ok)

lemma commit_journal_core_ok:
  assumes "tx_core tx = Journal jc" "core_ok (tx_core tx)"
    and run: "commit_journal ops publish d cache tx jc = (d', c, cache', r)"
  shows "core_ok c"
proof (cases "journal_plan (supports_reliable_flush ops d) (jco_context jc) (tx_staged tx)")
  case (Inl g)
  then show ?thesis using run commit_core_ok(1) assms(2) by (fastforce simp: commit_journal_def Let_def)
next
  case (Inr plan)
  have "context_validate (fst (context_after (jco_context jc) plan)) = Inr ()"
    by (rule context_after_valid [OF _ Inr]) (use assms(1,2) in \<open>simp add: core_ok_def\<close>)
  then have ok: "core_ok (tx_core (tx\<lparr>tx_core := Journal (jc\<lparr>jco_context := fst (context_after (jco_context jc) plan)\<rparr>)\<rparr>))"
    by (simp add: core_ok_def)
  show ?thesis
    using run Inr ok assms(2) unfolding commit_journal_def Let_def
    by (simp split: prod.splits sum.splits) (auto dest!: commit_core_ok)
qed

lemma tx_commit_core_ok:
  assumes "core_ok (tx_core tx)" "tx_commit ops publish d cache tx = (d', c, cache', r)"
  shows "core_ok c"
proof (cases "tx_core tx")
  case (Journal jc)
  then show ?thesis
    using assms commit_journal_core_ok [OF Journal assms(1)] commit_core_ok(2)
    by (fastforce simp: tx_commit_def split: if_splits)
next
  case (Direct dc)
  then show ?thesis
    using assms(2) assms(1)
    by (auto simp: tx_commit_def commit_direct_def split: if_splits prod.splits sum.splits dest!: commit_core_ok)
qed

lemma commit_range_core_ok:
  assumes "core_ok (tx_core tx)" "commit_direct_range ops publish d cache tx homes ih = (d', c, cache', r)"
  shows "core_ok c"
proof -
  have "core_ok c" if "direct_range_failed ops d1 cache tx hs f = (d', c, cache', r)" for d1 hs f
    using that assms(1)
    by (auto simp: direct_range_failed_def split: fault.splits prod.splits sum.splits dest!: commit_core_ok)
  then show ?thesis
    using assms
    by (auto simp: commit_direct_range_def split: if_splits core.splits sum.splits prod.splits option.splits
        dest!: commit_core_ok)
qed

fun state_core :: "tx_state \<Rightarrow> core" where
  "state_core (Idle c) = c"
| "state_core (Active tx) = tx_core tx"

lemma start_core_ok:
  "transaction_start c credits = (c', Inr tx) \<Longrightarrow> core_ok c \<Longrightarrow> core_ok (tx_core tx)"
  "transaction_start c credits = (c', Inl f) \<Longrightarrow> core_ok c \<Longrightarrow> core_ok c'"
  by (cases c; auto simp: transaction_start_def start_direct_def start_journal_def sbind_def acquire_writer_def
      Let_def transaction_new_def split: if_splits sum.splits)+

lemma staging_core:
  "tx_stage tx home img = Inr tx' \<Longrightarrow> tx_core tx' = tx_core tx"
  "tx_read_for_update ops d tx home = Inr (tx', img) \<Longrightarrow> tx_core tx' = tx_core tx"
  "tx_core (tx_update tx home img) = tx_core tx"
  by (auto simp: tx_stage_def tx_read_for_update_def tx_update_def rbind_eq_Inr split: if_splits option.splits)

lemma tx_step_core_ok:
  "tx_step ops publish s s' \<Longrightarrow> core_ok (state_core (snd (snd s))) \<Longrightarrow> core_ok (state_core (snd (snd s')))"
proof (induction rule: tx_step.induct)
  case (begins_range dc credits c' tx d cache)
  then show ?case
    by (auto simp: start_direct_def sbind_eq_Inr acquire_writer_Inr transaction_new_def)
next
  case (aborts d cache tx)
  then show ?case by (simp add: tx_abort_def)
next
  case (commits d cache tx d' c' cache' r)
  then show ?case using tx_commit_core_ok [OF _ commits(1)] by simp
next
  case (commits_range d cache tx homes inode_home d' c' cache' r)
  then show ?case using commit_range_core_ok [OF _ commits_range(1)] by simp
qed (auto dest: start_core_ok simp: staging_core)

lemma tx_reach_core_ok:
  "tx_reach ops publish s s' \<Longrightarrow> core_ok (state_core (snd (snd s))) \<Longrightarrow> core_ok (state_core (snd (snd s')))"
  by (induction rule: rtranclp_induct) (auto dest: tx_step_core_ok)

lemma reserved_plan:
  assumes a: "active_ok tx" and j: "tx_core tx = Journal jc" and v: "context_validate (jco_context jc) = Inr ()"
  shows "not_too_big (journal_plan rf (jco_context jc) (tx_staged tx))"
proof -
  let ?sb = "jc_superblock (jco_context jc)" and ?n = "length (tx_staged tx)"
  obtain needed available where r: "required_log_blocks (tx_credits tx) (js_features ?sb) = Inr needed"
    "ring_len ?sb = Inr available" "needed \<le> available"
    using a j by (auto simp: active_ok_def reserved_def Let_def split: sum.splits)
  have av: "available < 2 ^ 32"
    using r(2) unat_lt [of "js_max_len ?sb - js_first ?sb"]
    by (auto simp: ring_len_def rbind_eq_Inr checked_sub_def split: if_splits)
  have "tx_credits tx < needed"
    using r(1) by (auto simp: required_log_blocks_def rbind_eq_Inr usize_checked_add_def Let_def split: if_splits)
  then have "tx_credits tx < 2 ^ 32" using r(3) av by linarith
  moreover have "?n \<le> tx_credits tx" using a by (simp add: active_ok_def staged_wf_def)
  ultimately obtain n where n: "required_log_blocks ?n (js_features ?sb) = Inr n" "n \<le> available"
    using required_log_blocks_mono [OF r(1)] r(3) le_trans by blast
  have h: "in_ring ?sb (jc_head (jco_context jc))" by (rule context_head [OF v])
  obtain ps where "ring_take ?sb (jc_head (jco_context jc)) n = Inr ps" using ring_take_in [OF h] by blast
  then have ps: "ring_positions ?sb (jc_head (jco_context jc)) n = Inr ps"
    using n(2) h by (simp add: ring_positions_def r(2) in_ring_def not_less not_le)
  have u: "not_too_big (update_superblock img sq start sb)" for img sq start sb
    by (auto simp: update_superblock_def superblock_checksum_def need_def guard_def Let_def intro!: not_too_big_rbind)
  show ?thesis
    using n(2)
    by (auto simp: journal_plan_def n(1) r(2) ps Let_def encode_commit_ok
        intro!: not_too_big_rbind not_too_big_encode_log u)
qed

text \<open>C22: credits are a reservation. From any sequence of operations on a core whose context is valid, a live
  journal transaction, which never has more staged blocks than the credits it was started with, finds
  the log large enough: the preparation of its commit does not fail with \<open>E2BIG\<close>, whatever was committed
  before and wherever the head of the ring is. The context of the core stays valid.\<close>

theorem credits_suffice:
  assumes "\<not> writer_held c0" "core_ok c0" "tx_reach ops publish (d0, k0, Idle c0) (d, k, Active tx)"
    and "tx_core tx = Journal jc"
  shows "context_validate (jco_context jc) = Inr () \<and> length (tx_staged tx) \<le> tx_credits tx \<and>
    journal_plan reliable (jco_context jc) (tx_staged tx) \<noteq> Inl (Err E2BIG)"
proof -
  have a: "active_ok tx" using tx_reach_ok [OF assms(3)] assms(1) by simp
  have v: "context_validate (jco_context jc) = Inr ()"
    using tx_reach_core_ok [OF assms(3)] assms(2,4) by (simp add: core_ok_def)
  show ?thesis
    using reserved_plan [OF a assms(4) v] v a by (simp add: not_too_big_def active_ok_def staged_wf_def)
qed

definition w_mini :: journal_context where
  "w_mini = \<lparr>jc_superblock = \<lparr>js_block_size = 4096, js_max_len = 8, js_first = 1, js_sequence = 5, js_start = 0,
       js_errno = 0, js_features = \<lparr>ft_checksum = V3, ft_has_64bit = True, ft_has_revoke = True\<rparr>,
       js_uuid = replicate 16 0, js_checksum_type = 4\<rparr>,
     jc_logical_blocks = [2, 3, 4, 5, 6, 7, 8, 9], jc_journal_blocks = {2, 3, 4, 5, 6, 7, 8, 9},
     jc_target_blocks = 20, jc_head = 6, jc_superblock_image = replicate 1024 0\<rparr>"

definition w_jcore :: "bool \<Rightarrow> journal_core" where
  "w_jcore writer = \<lparr>jco_flags = \<lparr>co_writer = writer, co_poisoned = False\<rparr>, jco_context = w_mini\<rparr>"

lemma credits_suffice_witness:
  "journal_plan True w_mini [] \<noteq> Inl (Err E2BIG)"
proof -
  let ?c = "Journal (w_jcore False)" and ?tx = "transaction_new (Journal (w_jcore True)) 5 False"
  have v: "context_validate w_mini = Inr ()"
    by (simp add: context_validate_def w_mini_def BLOCK_SIZE_def CRC32C_CHKSUM_def Let_def)
  have "fits ?c 5"
    by (simp add: fits_def w_jcore_def w_mini_def required_log_blocks_eq per_descriptor_def tail_bytes_def tag_bytes_def
        BLOCK_SIZE_def HEADER_BYTES_def BLOCK_TAIL_BYTES_def ring_len_def checked_sub_def)
  moreover have "set_writer True ?c = Journal (w_jcore True)" by (simp add: set_writer_def w_jcore_def)
  ultimately have "transaction_start ?c 5 = (Journal (w_jcore True), Inr ?tx)"
    using start_when_free [of ?c 5] by (simp add: writer_held_def is_poisoned_def w_jcore_def)
  then have r: "tx_reach mem_ops (\<lambda>k _. Suc k) ([], 0, Idle ?c) ([], 0, Active ?tx)"
    by (intro r_into_rtranclp begins)
  have "\<not> writer_held ?c" "core_ok ?c" using v by (simp_all add: writer_held_def core_ok_def w_jcore_def)
  from credits_suffice [OF this r, of "w_jcore True" True] show ?thesis
    by (simp add: transaction_new_def w_jcore_def)
qed

end
