(* ===== verification/Direct_Range.thy ===== *)
theory Direct_Range
  imports Transaction_States Journal_Crash
begin

text \<open>
  The nojournal commit of a range allocation, \<^verbatim>\<open>commit_direct_range\<close> and \<^verbatim>\<open>rollback_direct_range\<close>
  (\<^verbatim>\<open>src/ext4/journal_transaction.rs\<close>), on devices whose operations may fail: the allocation metadata
  is all there before the inode is written, and is restored when it is not.
\<close>

section \<open>Devices that fail\<close>

text \<open>What the staged originals say about the device when the transaction has the writer token.\<close>

definition originals_current :: "(PBlockId \<Rightarrow> bytes option) \<Rightarrow> (PBlockId, staged_block) btree \<Rightarrow> bool" where
  "originals_current disk staged \<longleftrightarrow> (\<forall>h s. bt_get staged h = Some s \<longrightarrow> st_original s = None \<or> st_original s = disk h)"

text \<open>A failed write may leave anything in its block, and touches no other.\<close>

locale faulty_device = block_device +
  assumes write_fails: "write_block ops d b = (d', Inl f) \<Longrightarrow> i \<noteq> blk_id b \<Longrightarrow> contents d' i = contents d i"
    and flush_fails: "flush ops d = (d', Inl f) \<Longrightarrow> contents d' = contents d"
begin

lemma write_other: "write_bytes ops d h bs = (d', r) \<Longrightarrow> i \<noteq> h \<Longrightarrow> contents d' i = contents d i"
  using write_sound write_fails by (cases r) (auto simp: write_bytes_def block_new_def)

lemma write_here: "write_bytes ops d h bs = (d', Inr u) \<Longrightarrow> contents d' = (contents d)(h \<mapsto> bs)"
  using write_sound by (auto simp: write_bytes_def block_new_def)

lemma flush_any: "flush ops d = (d', r) \<Longrightarrow> contents d' = contents d"
  using flush_sound flush_fails by (cases r) auto

lemma write_all_other:
  "write_all ops d ws = (d', r) \<Longrightarrow> i \<notin> fst ` set ws \<Longrightarrow> contents d' i = contents d i"
proof (induction ws arbitrary: d)
  case (Cons w ws)
  obtain h bs where w: "w = (h, bs)" by fastforce
  obtain d1 r1 where d1: "write_bytes ops d h bs = (d1, r1)" by fastforce
  have "contents d1 i = contents d i" by (rule write_other [OF d1]) (use Cons.prems(2) w in auto)
  then show ?case using Cons d1 by (cases r1) (auto simp: w)
qed simp

lemma allocation_homes:
  assumes "write_allocation_homes ops staged d completed homes = (d', r)"
  shows "(\<forall>u. r = Inr u \<longrightarrow> (\<forall>i. contents d' i =
      (if i \<in> set homes then map_option st_image (bt_get staged i) else contents d i))) \<and>
    (\<forall>fin f. r = Inl (fin, f) \<longrightarrow> (\<exists>k. fin = completed @ take k homes) \<and>
      (\<forall>i. i \<notin> set fin \<longrightarrow> contents d' i = contents d i))"
  using assms
proof (induction homes arbitrary: d completed)
  case (Cons h homes)
  show ?case
  proof (cases "bt_get staged h")
    case None
    then show ?thesis using Cons.prems by (auto intro: exI [of _ 1])
  next
    case (Some s)
    obtain d1 r1 where w: "write_bytes ops d h (st_image s) = (d1, r1)" by fastforce
    note other = write_other [OF w]
    show ?thesis
    proof (cases r1)
      case (Inl f)
      then show ?thesis using Cons.prems Some w other by (auto intro: exI [of _ 1])
    next
      case (Inr u)
      then have rec: "write_allocation_homes ops staged d1 (completed @ [h]) homes = (d', r)"
        using Cons.prems Some w by simp
      have here: "contents d1 = (contents d)(h \<mapsto> st_image s)" using write_here w Inr by blast
      have IH: "(\<forall>u. r = Inr u \<longrightarrow> (\<forall>i. contents d' i =
            (if i \<in> set homes then map_option st_image (bt_get staged i) else contents d1 i)))"
        "\<forall>fin f. r = Inl (fin, f) \<longrightarrow> (\<exists>k. fin = (completed @ [h]) @ take k homes) \<and>
            (\<forall>i. i \<notin> set fin \<longrightarrow> contents d' i = contents d1 i)"
        using Cons.IH [OF rec] by blast+
      show ?thesis
      proof (intro conjI allI impI)
        fix u i assume "r = Inr u"
        then show "contents d' i = (if i \<in> set (h # homes) then map_option st_image (bt_get staged i) else contents d i)"
          using IH(1) Some by (auto simp: here)
      next
        fix fin f assume d: "r = Inl (fin, f)"
        then obtain k where k: "fin = (completed @ [h]) @ take k homes" using IH(2) by blast
        show "\<exists>k. fin = completed @ take k (h # homes)" by (rule exI [of _ "Suc k"]) (simp add: k)
        fix i assume "i \<notin> set fin"
        then show "contents d' i = contents d i" using IH(2) d k by (auto simp: here)
      qed
    qed
  qed
qed auto

lemma rollback:
  assumes "rollback_homes ops staged d homes = (d', r)"
  shows "(\<forall>u. r = Inr u \<longrightarrow> (\<forall>i. contents d' i =
      (if i \<in> set homes then Option.bind (bt_get staged i) st_original else contents d i))) \<and>
    (\<forall>i. i \<notin> set homes \<longrightarrow> contents d' i = contents d i)"
  using assms
proof (induction homes arbitrary: d)
  case (Cons h homes)
  show ?case
  proof (cases "\<exists>s bs. bt_get staged h = Some s \<and> st_original s = Some bs")
    case True
    then obtain s bs where s: "bt_get staged h = Some s" "st_original s = Some bs" by blast
    obtain d1 r1 where w: "write_bytes ops d h bs = (d1, r1)" by fastforce
    note other = write_other [OF w]
    show ?thesis
    proof (cases r1)
      case (Inl f)
      then show ?thesis using Cons.prems s w other by auto
    next
      case (Inr u)
      then have rec: "rollback_homes ops staged d1 homes = (d', r)" using Cons.prems s w by simp
      have "contents d1 = (contents d)(h \<mapsto> bs)" using write_here w Inr by blast
      then show ?thesis using Cons.IH [OF rec] s by auto
    qed
  next
    case False
    then have "d' = d \<and> (\<exists>f. r = Inl f)" using Cons.prems by (auto split: option.splits)
    then show ?thesis by auto
  qed
qed simp

lemma rollback_range:
  assumes "rollback_direct_range ops staged d homes = (d', r)"
  shows "(\<forall>u. r = Inr u \<longrightarrow> (\<forall>i. contents d' i =
      (if i \<in> set homes then Option.bind (bt_get staged i) st_original else contents d i))) \<and>
    (\<forall>i. i \<notin> set homes \<longrightarrow> contents d' i = contents d i)"
proof -
  obtain d1 r1 where rb: "rollback_homes ops staged d (rev homes) = (d1, r1)" by fastforce
  have "contents d' = contents d1 \<and> (\<forall>u. r = Inr u \<longrightarrow> (\<exists>u. r1 = Inr u))"
    using assms rb flush_any by (cases r1) (auto simp: rollback_direct_range_def split: if_splits)
  then show ?thesis using rollback [OF rb] by auto
qed

lemma range_failed:
  assumes cur: "originals_current (contents d) (tx_staged tx)" and own: "tx_owns_writer tx"
    and other: "\<And>i. i \<notin> set fin \<Longrightarrow> contents d1 i = contents d i"
    and orig: "\<And>h. h \<in> set fin \<Longrightarrow> has_original (tx_staged tx) h"
    and run: "direct_range_failed ops d1 cache tx fin f = (d', c, cache', r)"
  shows "cache' = cache \<and> r \<noteq> Inr () \<and> (\<forall>i. i \<notin> set fin \<longrightarrow> contents d' i = contents d i) \<and>
    (\<forall>e k. r = Inl (CommitError e k) \<longrightarrow>
      (k = BeforeCommit \<and> contents d' = contents d \<and> is_poisoned c = is_poisoned (tx_core tx) \<or>
       k = CheckpointFailed \<and> is_poisoned c))"
proof (cases f)
  case Panic
  then show ?thesis
    using run other by (auto simp: direct_range_failed_def commit_fails_def tx_fail_def)
next
  case (Err e)
  obtain d2 r2 where rb: "rollback_direct_range ops (tx_staged tx) d1 fin = (d2, r2)" by fastforce
  note roll = rollback_range [OF rb]
  have away: "contents d2 i = contents d i" if "i \<notin> set fin" for i using roll other that by auto
  show ?thesis
  proof (cases r2)
    case (Inl g)
    then show ?thesis
      using run rb Err own away
      by (cases g) (auto simp: direct_range_failed_def commit_fails_def tx_fail_def release_writer_def)
  next
    case (Inr u)
    have "contents d2 i = contents d i" for i
    proof (cases "i \<in> set fin")
      case True
      then obtain s bs where s: "bt_get (tx_staged tx) i = Some s" "st_original s = Some bs"
        using orig [OF True] by (auto simp: has_original_def split: option.splits)
      then show ?thesis using cur roll Inr True by (fastforce simp: originals_current_def)
    qed (use away in simp)
    then have "contents d2 = contents d" by blast
    then show ?thesis
      using run rb Err own Inr
      by (auto simp: direct_range_failed_def commit_fails_def tx_fail_def release_writer_def)
  qed
qed

lemma commit_range:
  assumes cur: "originals_current (contents d) (tx_staged tx)" and own: "tx_owns_writer tx"
    and run: "commit_direct_range ops publish d cache tx homes ih = (d', c, cache', r)"
  defines "written \<equiv> \<lambda>i. if i \<in> set homes then map_option st_image (bt_get (tx_staged tx) i) else contents d i"
  shows "(r = Inr () \<longrightarrow> contents d' = written(ih := map_option st_image (bt_get (tx_staged tx) ih)) \<and>
      cache' = publish cache (tx_staged tx) \<and> is_poisoned c = is_poisoned (tx_core tx)) \<and>
    (\<forall>e k. r = Inl (CommitError e k) \<longrightarrow> cache' = cache \<and>
      (k = BeforeCommit \<and> contents d' = contents d \<and> is_poisoned c = is_poisoned (tx_core tx) \<or>
       k = CheckpointFailed \<and> is_poisoned c \<and> (\<forall>i. i \<notin> set homes \<longrightarrow> contents d' i = contents d i) \<or>
       k = CommitUncertain \<and> is_poisoned c \<and> (\<forall>i. i \<noteq> ih \<longrightarrow> contents d' i = written i)))"
proof (cases "tx_core tx")
  case (Journal jc)
  then show ?thesis using run own by (auto simp: commit_direct_range_def commit_fails_def tx_fail_def release_writer_def)
next
  case (Direct dc)
  show ?thesis
  proof (cases "direct_range_ok ops d (tx_staged tx) (dc_target_blocks dc) homes ih")
    case False
    then show ?thesis
      using run own Direct by (auto simp: commit_direct_range_def commit_fails_def tx_fail_def release_writer_def)
  next
    case ok: True
    then have orig: "has_original (tx_staged tx) h" if "h \<in> set homes" for h
      using that by (auto simp: direct_range_ok_def list_all_iff)
    obtain d1 r1 where w: "write_allocation_homes ops (tx_staged tx) d [] homes = (d1, r1)" by fastforce
    note alloc = allocation_homes [OF w]
    show ?thesis
    proof (cases r1)
      case (Inl df)
      obtain fin f where df: "df = (fin, f)" by fastforce
      then obtain k where fin: "fin = take k homes" using alloc Inl by auto
      have "direct_range_failed ops d1 cache tx fin f = (d', c, cache', r)"
        using run Direct ok w Inl df by (simp add: commit_direct_range_def)
      from range_failed [OF cur own _ _ this] alloc Inl df fin orig
      show ?thesis by (auto dest: in_set_takeD)
    next
      case (Inr u)
      then have d1: "contents d1 = written" using alloc by (auto simp: written_def fun_eq_iff)
      obtain d2 r2 where fl: "flush ops d1 = (d2, r2)" by fastforce
      then have d2: "contents d2 = written" using flush_any d1 by metis
      show ?thesis
      proof (cases r2)
        case (Inl f)
        then have "direct_range_failed ops d2 cache tx homes f = (d', c, cache', r)"
          using run Direct ok w Inr fl by (simp add: commit_direct_range_def)
        from range_failed [OF cur own _ _ this] d2 orig show ?thesis by (auto simp: written_def)
      next
        case r2: (Inr v)
        show ?thesis
        proof (cases "bt_get (tx_staged tx) ih")
          case None
          then show ?thesis
            using run Direct ok w Inr fl r2 by (auto simp: commit_direct_range_def commit_fails_def tx_fail_def)
        next
          case (Some s)
          obtain d3 r3 where w3: "write_bytes ops d2 ih (st_image s) = (d3, r3)" by fastforce
          show ?thesis
          proof (cases r3)
            case (Inl g)
            then show ?thesis
              using run Direct ok w Inr fl r2 Some w3 own write_other [OF w3] d2
              by (cases g) (auto simp: commit_direct_range_def commit_fails_def tx_fail_def release_writer_def)
          next
            case r3: (Inr x)
            then have "contents d3 = written(ih \<mapsto> st_image s)" using write_here w3 d2 by metis
            then show ?thesis
              using run Direct ok w Inr fl r2 Some w3 own r3
              by (auto simp: commit_direct_range_def commit_done_def release_writer_def)
          qed
        qed
      qed
    qed
  qed
qed

end

interpretation mem_faulty: faulty_device mem_ops mem_contents
  by unfold_locales (auto simp: mem_ops_def mem_write_block_def mem_flush_def split: if_splits)

interpretation crash_faulty: faulty_device crash_ops crash_contents
  by unfold_locales
    (auto simp: crash_ops_def crash_write_def crash_flush_def crash_contents_def crash_view_def split: if_splits)

text \<open>C24: the range commit of a file system without a journal, on any device whose failing writes damage
  no other block, and with staged originals that are what the device holds. On success the allocation
  homes and the inode have their staged images. An error \<open>BeforeCommit\<close> means that every block is as
  before and the core is not poisoned by it; with \<open>CommitUncertain\<close> all the allocation metadata is written
  and only the inode is in doubt; with \<open>CheckpointFailed\<close> only allocation homes are in doubt. In the last two
  cases the core is poisoned, and on an error the caches never see the staged blocks.\<close>

theorem direct_range_rolls_back:
  assumes "faulty_device ops contents" and "originals_current (contents d) (tx_staged tx)" "tx_owns_writer tx"
    and "commit_direct_range ops publish d cache tx homes ih = (d', c, cache', r)"
    and written: "written = (\<lambda>i. if i \<in> set homes then map_option st_image (bt_get (tx_staged tx) i) else contents d i)"
  shows "(r = Inr () \<longrightarrow> contents d' = written(ih := map_option st_image (bt_get (tx_staged tx) ih)) \<and>
      cache' = publish cache (tx_staged tx)) \<and>
    (\<forall>e k. r = Inl (CommitError e k) \<longrightarrow> cache' = cache \<and>
      (k = BeforeCommit \<and> contents d' = contents d \<and> is_poisoned c = is_poisoned (tx_core tx) \<or>
       k = CheckpointFailed \<and> is_poisoned c \<and> (\<forall>i. i \<notin> set homes \<longrightarrow> contents d' i = contents d i) \<or>
       k = CommitUncertain \<and> is_poisoned c \<and> (\<forall>i. i \<noteq> ih \<longrightarrow> contents d' i = written i)))"
  using faulty_device.commit_range [OF assms(1-4)] unfolding written by simp

text \<open>A device with a script of failing writes, which leave garbage.\<close>

record scripted_dev =
  sd_blocks :: block_mem
  sd_faults :: "bool list"

definition scripted_write :: "scripted_dev \<Rightarrow> block \<Rightarrow> scripted_dev \<times> unit res" where
  "scripted_write d b =
     (let rest = d\<lparr>sd_faults := tl (sd_faults d)\<rparr> in
      if unat (blk_id b) \<ge> length (sd_blocks d) then (d, Inl (Err EIO))
      else if sd_faults d \<noteq> [] \<and> hd (sd_faults d)
      then (rest\<lparr>sd_blocks := (sd_blocks d)[unat (blk_id b) := [0xff]]\<rparr>, Inl (Err EIO))
      else (rest\<lparr>sd_blocks := (sd_blocks d)[unat (blk_id b) := blk_data b]\<rparr>, Inr ()))"

definition scripted_ops :: "scripted_dev device_ops" where
  "scripted_ops = \<lparr>read_block = (\<lambda>d i. if unat i < length (sd_blocks d) then Inr (block_new i (sd_blocks d ! unat i))
       else Inl (Err EIO)),
     write_block = scripted_write, flush = (\<lambda>d. (d, Inr ())), supports_reliable_flush = (\<lambda>_. True)\<rparr>"

definition scripted_contents :: "scripted_dev \<Rightarrow> PBlockId \<Rightarrow> bytes option" where
  "scripted_contents d i = (if unat i < length (sd_blocks d) then Some (sd_blocks d ! unat i) else None)"

interpretation scripted: faulty_device scripted_ops scripted_contents
  by unfold_locales
    (auto simp: scripted_ops_def scripted_write_def scripted_contents_def block_new_def Let_def fun_eq_iff
      nth_list_update unat_inject split: if_splits)

definition w_range :: transaction where
  "w_range = (transaction_new w_held 3 True)\<lparr>tx_staged :=
     [(1, \<lparr>st_home = 1, st_original = Some [1], st_image = [11]\<rparr>),
      (2, \<lparr>st_home = 2, st_original = Some [2], st_image = [12]\<rparr>),
      (3, \<lparr>st_home = 3, st_original = Some [3], st_image = [13]\<rparr>)]\<rparr>"

definition w_blocks :: block_mem where
  "w_blocks = [[0], [1], [2], [3]]"

text \<open>The second write fails: its block and the first are restored.\<close>

lemma direct_range_rolls_back_witness:
  "\<exists>d c. commit_direct_range scripted_ops (\<lambda>k _. Suc k) \<lparr>sd_blocks = w_blocks, sd_faults = [False, True]\<rparr> 0 w_range [1, 2] 3 =
      (d, c, 0, Inl (CommitError EIO BeforeCommit)) \<and>
    scripted_contents d = scripted_contents \<lparr>sd_blocks = w_blocks, sd_faults = [False, True]\<rparr>"
proof -
  let ?d = "\<lparr>sd_blocks = w_blocks, sd_faults = [False, True]\<rparr>"
  obtain d c where run: "commit_direct_range scripted_ops (\<lambda>k _. Suc k) ?d 0 w_range [1, 2] 3 =
      (d, c, 0, Inl (CommitError EIO BeforeCommit))"
    by (simp add: commit_direct_range_def w_range_def transaction_new_def w_held_def direct_range_ok_def has_original_def
        scripted_ops_def write_bytes_def scripted_write_def block_new_def w_blocks_def direct_range_failed_def
        rollback_direct_range_def commit_fails_def tx_fail_def Let_def)
  have cur: "originals_current (scripted_contents ?d) (tx_staged w_range)"
    by (simp add: originals_current_def w_range_def w_blocks_def scripted_contents_def)
  have own: "tx_owns_writer w_range" by (simp add: w_range_def transaction_new_def)
  from direct_range_rolls_back [OF scripted.faulty_device_axioms cur own run refl] run show ?thesis by auto
qed

end
