(* ===== verification/Log_Roundtrip.thy ===== *)
theory Log_Roundtrip
  imports Crash_Atomicity
begin

text \<open>
  What \<^verbatim>\<open>encode_log\<close> (\<^verbatim>\<open>src/ext4/journal_transaction.rs\<close>) writes is what the routines of recovery
  (\<^verbatim>\<open>parse_tags\<close> and the replay of \<^verbatim>\<open>src/ext4/journal_recovery.rs\<close>) read back; and what recovery does when
  a descriptor block is damaged.
\<close>

section \<open>Decoding a log\<close>

text \<open>One data block: its checksum, and the magic number put back.\<close>

definition decode_data :: "u32 \<Rightarrow> u32 \<Rightarrow> tag \<Rightarrow> bytes \<Rightarrow> (PBlockId \<times> bytes) res" where
  "decode_data seed sq t data =
     (if tag_bad seed sq t data then Inl (Err EIO)
      else rbind (if tg_flags t AND FLAG_ESCAPE \<noteq> 0 then write_range data 0 (be32 JBD2_MAGIC) else Inr data)
        (\<lambda>img. Inr (tg_block t, img)))"

fun decode_group :: "u32 \<Rightarrow> u32 \<Rightarrow> tag list \<Rightarrow> bytes list \<Rightarrow> (PBlockId \<times> bytes) list res" where
  "decode_group seed sq (t # ts) (b # bs) =
     rbind (decode_data seed sq t b) (\<lambda>x. rbind (decode_group seed sq ts bs) (\<lambda>xs. Inr (x # xs)))"
| "decode_group seed sq [] bs = Inr []"
| "decode_group seed sq (t # ts) [] = Inl (Err EIO)"

function decode_log :: "jsuperblock \<Rightarrow> u32 \<Rightarrow> u64 \<Rightarrow> bytes list \<Rightarrow> (PBlockId \<times> bytes) list res" where
  "decode_log sb sq target [] = Inr []"
| "decode_log sb sq target (d # bs) =
     rbind (header_parse d) (\<lambda>h.
     if h \<noteq> \<lparr>jh_type = Descriptor, jh_sequence = sq\<rparr> then Inl (Err EIO) else
     rbind (if ft_checksum (js_features sb) = V3 then verify_block_checksum (checksum_seed (js_uuid sb)) d
            else Inr ()) (\<lambda>_.
     rbind (parse_tags d sb target) (\<lambda>ts.
     rbind (decode_group (checksum_seed (js_uuid sb)) sq ts bs) (\<lambda>xs.
     rbind (decode_log sb sq target (drop (length ts) bs)) (\<lambda>ys. Inr (xs @ ys))))))"
  by pat_completeness auto
termination by (relation "measure (\<lambda>(sb, sq, target, bs). length bs)") auto

lemma decode_log_data:
  "staged_ok s \<Longrightarrow> decode_data seed sq (log_tag fts seed sq n i s) (log_data s) = Inr (st_home s, st_image s)"
  using unescape_log_data [of s n i] by (simp add: decode_data_def log_tag_not_bad) (auto simp: log_tag_def split: if_splits)

lemma decode_log_group:
  "list_all staged_ok ss \<Longrightarrow>
   decode_group seed sq (log_tags fts seed sq n i ss) (map log_data ss @ rest) = Inr (map (\<lambda>s. (st_home s, st_image s)) ss)"
  by (induction ss arbitrary: i) (auto simp: decode_log_data)

lemma decode_log_blocks:
  assumes "list_all (group_ok sb) gs" "list_all (\<lambda>s. st_home s < target) (concat gs)"
  shows "decode_log sb sq target (log_blocks sb (checksum_seed (js_uuid sb)) sq gs) =
    Inr (map (\<lambda>s. (st_home s, st_image s)) (concat gs))"
  using assms
proof (induction gs)
  case (Cons g gs)
  let ?seed = "checksum_seed (js_uuid sb)"
  have g: "group_ok sb g" and t: "list_all (\<lambda>s. st_home s < target) g" and ok: "list_all staged_ok g"
    using Cons.prems by (simp_all add: group_ok_def)
  have rest: "decode_log sb sq target (drop (length g) (map log_data g @ log_blocks sb ?seed sq gs)) =
      Inr (map (\<lambda>s. (st_home s, st_image s)) (concat gs))"
    using Cons by simp
  show ?case
    using log_descriptor_header [OF g] log_descriptor_checksum [OF g] parse_log_descriptor [OF g t]
      decode_log_group [OF ok] rest
    by (simp add: group_blocks_def)
qed simp

text \<open>C25: the log of a transaction. The blocks \<^verbatim>\<open>encode_log\<close> makes of the staged blocks are whole blocks, one
  less than \<^verbatim>\<open>required_log_blocks\<close> reserved; read back with the parsers and checks of recovery they give
  exactly the homes and images that were staged, in order, whatever the images contain, the magic number
  of the journal included. \<^verbatim>\<open>encode_log\<close> fails only when a home does not fit the tag format.\<close>

theorem log_roundtrip:
  assumes "staged_all_ok staged" "length (js_uuid sb) = 16" "length staged < 2 ^ 32"
    and "list_all (\<lambda>s. st_home s < target) (map snd staged)"
    and "list_all (\<lambda>s. tag_fits (js_features sb) (st_home s)) (map snd staged)"
  shows "\<exists>enc. encode_log sb sq staged = Inr enc \<and> list_all (\<lambda>b. length b = BLOCK_SIZE) enc \<and>
    required_log_blocks (length staged) (js_features sb) = Inr (length enc + 1) \<and>
    decode_log sb sq target enc = Inr (home_images staged)"
proof -
  let ?gs = "log_groups sb staged" and ?seed = "checksum_seed (js_uuid sb)"
  have e: "encode_log sb sq staged = Inr (log_blocks sb ?seed sq ?gs)" by (rule encode_log_ok [OF assms(1,2,5)])
  have g: "list_all (group_ok sb) ?gs" by (rule log_groups_ok [OF assms(1,2,5)])
  have "decode_log sb sq target (log_blocks sb ?seed sq ?gs) = Inr (home_images staged)"
    using decode_log_blocks [OF g, of target sq] assms(4) by (simp add: concat_log_groups home_images_def)
  moreover have "list_all (\<lambda>b. length b = BLOCK_SIZE) (log_blocks sb ?seed sq ?gs)"
    using length_log_block [OF g] by (auto simp: list_all_iff)
  moreover obtain n where "required_log_blocks (length staged) (js_features sb) = Inr n"
    using required_log_blocks_eq [OF assms(3)] by blast
  moreover from log_length_required [OF this assms(3)] this
  have "required_log_blocks (length staged) (js_features sb) = Inr (length (log_blocks sb ?seed sq ?gs) + 1)" by metis
  ultimately show ?thesis using e by blast
qed

lemma log_roundtrip_witness:
  "\<exists>enc. encode_log w_sb 5 (tx_staged w_tx) = Inr enc \<and> decode_log w_sb 5 20 enc =
     Inr [(1, be32 JBD2_MAGIC @ replicate 4092 7), (3, replicate 4096 8)]"
proof -
  have "list_all (\<lambda>s. st_home s < 20) (map snd (tx_staged w_tx))"
    "list_all (\<lambda>s. tag_fits (js_features w_sb) (st_home s)) (map snd (tx_staged w_tx))"
    "length (js_uuid w_sb) = 16" "length (tx_staged w_tx) < 2 ^ 32"
    by (simp_all add: w_tx_def w_sb_def tag_fits_def)
  from log_roundtrip [OF w_tx_staged this(3,4,1,2), of 5] show ?thesis
    by (auto simp: home_images_def w_tx_def)
qed

section \<open>A damaged descriptor block\<close>

lemma walk_damaged_descriptor:
  assumes "ring_ok sb" "js_start sb \<noteq> 0" "log_holds m jb sb J"
    and "header_parse (J (js_start sb)) = Inr \<lparr>jh_type = Descriptor, jh_sequence = js_sequence sb\<rparr>"
    and "parse_tags (J (js_start sb)) sb fs = Inl f"
  shows "\<exists>s. walk (mem_io jb js fs) m sb seed ScanPass None rv = (s, Inl f)"
proof -
  let ?s0 = "\<lparr>ws_io = m, ws_pos = js_start sb, ws_consumed = 0, ws_invalid = False, ws_revokes = rv,
      ws_stats = stats_default\<rparr>"
  have p: "pos_ok sb (ws_pos ?s0)" using start_pos_ok [OF assms(1,2)] by simp
  have lh: "log_holds (ws_io ?s0) jb sb J" using assms(3) by simp
  have h: "header_parse (J (ws_pos ?s0)) = Inr \<lparr>jh_type = Descriptor, jh_sequence = js_sequence sb\<rparr>"
    using assms(4) by simp
  have "\<exists>s. walk_block (mem_io jb js fs) sb seed ScanPass (js_sequence sb) ?s0 = (s, Return (Inl f))"
    using walk_block_typed [OF assms(1) lh p h] assms(5)
    by (auto simp: walk_typed_def checked_block_def split: sum.split)
  then obtain s where "walk_block (mem_io jb js fs) sb seed ScanPass (js_sequence sb) ?s0 = (s, Return (Inl f))" by blast
  moreover have "0 < ring_size sb" by (rule ring_size_pos [OF assms(1)])
  ultimately have "walk_tx (mem_io jb js fs) sb seed ScanPass (js_sequence sb) ?s0 = (s, Some (Inl f))"
    by (subst walk_tx.simps) simp
  then show ?thesis unfolding walk_def by (subst walk_outer.simps) (simp add: Let_def)
qed

text \<open>Recovery and damaged descriptors. When the first block of the log has a valid descriptor header
  with the expected sequence number but a malformed list of tags, recovery ends with the parser's error
  and changes nothing, although no commit block need be there and, under checksum v3, the checksum of the
  block need not match: the scan notes the wrong checksum and parses the tags all the same. A descriptor
  torn by a loss of power, of a transaction that was never committed, thus keeps the file system from
  being mounted.\<close>

theorem damaged_descriptor_blocks_recovery:
  assumes "sb_on_disk m jb sb" "js_start sb \<noteq> 0" "log_holds m jb sb (\<lambda>p. m ! unat (jb ! unat p))"
    and "header_parse (m ! unat (jb ! unat (js_start sb))) = Inr \<lparr>jh_type = Descriptor, jh_sequence = js_sequence sb\<rparr>"
    and "parse_tags (m ! unat (jb ! unat (js_start sb))) sb fs = Inl f"
  shows "recover (recovery_device mem_ops jb js fs) m = (m, Inl f)"
proof -
  let ?seed = "checksum_seed (js_uuid sb)"
  have p: "jsuperblock_parse (journal_sb_block m jb) 4096 = Inr sb" "length (journal_sb_block m jb) = BLOCK_SIZE"
    using assms(1) by (simp_all add: sb_on_disk_def)
  then have r: "ring_ok sb" by (simp add: jsuperblock_parse_Inr)
  then have "js_max_len sb \<noteq> 0" by (auto simp: ring_ok_def)
  moreover obtain s where s: "walk (mem_io jb js fs) m sb ?seed ScanPass None None = (s, Inl f)"
    using walk_damaged_descriptor [OF r assms(2,3)] assms(4,5) by blast
  moreover have "ws_io s = m" using walk_passive(1) [OF s] .
  ultimately have "recover_passes (mem_io jb js fs) m sb = (m, Inl f)" by (simp add: recover_passes_def)
  then show ?thesis
    using p assms(2) \<open>js_max_len sb \<noteq> 0\<close>
    by (simp add: recover_def sb_on_disk_read [OF assms(1)]) (simp add: BLOCK_SIZE_def)
qed

definition w_damaged :: bytes where
  "w_damaged = header_bytes \<lparr>jh_type = Descriptor, jh_sequence = 5\<rparr> @ replicate 16 0 @ replicate 16 1 @ replicate 4052 0"

definition w_torn :: block_mem where
  "w_torn = replicate 4 (replicate BLOCK_SIZE 0) @
     [sb_block (w_jsuper @ replicate 3072 0) (js_features w_sb) 5 1, w_damaged] @ replicate 14 (replicate BLOCK_SIZE 0)"

lemma damaged_descriptor_blocks_recovery_witness:
  "recover (recovery_device mem_ops w_ring (set w_ring) 20) w_torn = (w_torn, Inl (Err EIO))"
proof -
  let ?sb = "w_sb\<lparr>js_sequence := 5, js_start := 1\<rparr>"
  have len: "length w_damaged = 4096" by (simp add: w_damaged_def)
  have p0: "jsuperblock_parse (w_jsuper @ replicate 3072 0) 4096 = Inr w_sb"
    using jsuperblock_parse_take [of "w_jsuper @ replicate 3072 0" 4096] w_jsuper_parse
    by (simp add: length_w_jsuper w_sb_def)
  have p: "jsuperblock_parse (sb_block (w_jsuper @ replicate 3072 0) (js_features w_sb) 5 1) 4096 = Inr ?sb"
    by (rule sb_block_parse [OF p0]) (simp_all add: length_w_jsuper w_sb_def ring_ok_def)
  have b: "w_torn ! 4 = sb_block (w_jsuper @ replicate 3072 0) (js_features w_sb) 5 1" "w_torn ! 5 = w_damaged"
    "6 \<le> i \<Longrightarrow> i < 20 \<Longrightarrow> w_torn ! i = replicate BLOCK_SIZE 0" for i
    by (simp_all add: w_torn_def nth_append nth_Cons')
  have lb: "length (w_torn ! i) = BLOCK_SIZE" if "5 \<le> i" "i < 20" for i
    using that b(2) b(3) [of i] len by (cases "i = 5") (simp_all add: BLOCK_SIZE_def)
  have d: "sb_on_disk w_torn w_ring ?sb"
    using p by (simp add: sb_on_disk_def journal_sb_block_def w_ring_def b(1) length_w_jsuper BLOCK_SIZE_def)
      (simp add: w_torn_def)
  have "\<forall>i\<in>{1..<16}. 5 \<le> unat (w_ring ! i) \<and> unat (w_ring ! i) < 20"
    by (simp add: w_ring_def atLeastLessThan_nat_numeral flip: One_nat_def)
  then have lh: "log_holds w_torn w_ring ?sb (\<lambda>p. w_torn ! unat (w_ring ! unat p))"
    using lb by (auto simp: log_holds_def pos_ok_unat w_sb_def w_torn_def w_ring_def)
  have first: "w_torn ! unat (w_ring ! unat (js_start ?sb)) = w_damaged" by (simp add: w_ring_def b(2))
  have h: "header_parse w_damaged = Inr \<lparr>jh_type = Descriptor, jh_sequence = 5\<rparr>"
    by (simp add: header_parse_Inr len) (simp add: w_damaged_def)
  have t: "parse_tags w_damaged ?sb 20 = Inl (Err EIO)"
  proof -
    have sl: "slice w_damaged 12 4 = replicate 4 0" "slice w_damaged 16 4 = replicate 4 0" "slice w_damaged 20 4 = replicate 4 0"
      "slice w_damaged 24 4 = replicate 4 0" "slice w_damaged 28 16 = replicate 16 1"
      by (simp_all add: w_damaged_def slice_def header_bytes_def)
    have z: "of_be (replicate 4 0) = (0 :: u32)" by (simp add: of_be_def numeral_eq_Suc)
    have r: "rec_be32 w_damaged 12 = Inr 0" "rec_be32 w_damaged 16 = Inr 0" "rec_be32 w_damaged 20 = Inr 0"
      "rec_be32 w_damaged 24 = Inr 0"
      using sl z by (simp_all add: rec_be_ok len USIZE_LIMIT_def)
    have "parse_tags w_damaged ?sb 20 = parse_tags_loop w_damaged ?sb 20 4092 12 []"
      by (simp add: parse_tags_def len w_sb_def)
    also have "\<dots> = Inl (Err EIO)"
      by (subst parse_tags_loop.simps)
         (simp add: r sl rec_tag_fields_def tag_uuid_end_def get_range_def len w_sb_def tag_bytes_def USIZE_LIMIT_def replicate_eq_replicate)
    finally show ?thesis .
  qed
  show ?thesis
    using damaged_descriptor_blocks_recovery [OF d _ lh, of 20 "Err EIO" "set w_ring"] h t
    by (simp only: first) simp
qed

end
