(* ===== verification/Metadata_Gate.thy ===== *)
theory Metadata_Gate
  imports Prelude
begin

text \<open>
  The metadata mutation gate of \<^verbatim>\<open>src/ext4/mod.rs\<close>: one atomic word, whose top bit is an exclusive
  (transactional) owner and whose other bits count the direct writers. The operations are given at
  the grain of the atomic instructions they are made of; the threads that use one gate are a step
  relation which interleaves these instructions freely. The memory orderings (\<^verbatim>\<open>Acquire\<close>,
  \<^verbatim>\<open>Release\<close>) are not modelled: the word is sequentially consistent.
\<close>

section \<open>The gate\<close>

definition METADATA_GATE_EXCLUSIVE :: u64 where "METADATA_GATE_EXCLUSIVE = push_bit 63 1"
definition METADATA_GATE_DIRECT_MAX :: u64 where "METADATA_GATE_DIRECT_MAX = METADATA_GATE_EXCLUSIVE - 1"
definition COMPATIBLE_CAS_RETRIES :: nat where "COMPATIBLE_CAS_RETRIES = 64"

definition gate_new :: u64 where "gate_new = 0"

record metadata_guard =
  mg_exclusive :: bool

text \<open>An attempt at \<^verbatim>\<open>try_direct\<close>: the iterations left and the value of the word last observed.\<close>

datatype attempt = Running nat u64 | Finished "metadata_guard res"

definition try_direct_begin :: "u64 \<Rightarrow> attempt" where
  "try_direct_begin gate = Running COMPATIBLE_CAS_RETRIES gate"

text \<open>One iteration, on the word \<open>gate\<close>; \<open>spurious\<close> is a failure \<^verbatim>\<open>compare_exchange_weak\<close> is allowed
  although the word has the expected value. The result has the new value of the word.\<close>

fun try_direct_step :: "u64 \<Rightarrow> bool \<Rightarrow> nat \<Rightarrow> u64 \<Rightarrow> u64 \<times> attempt" where
  "try_direct_step gate spurious 0 state = (gate, Finished (Inl (Err EAGAIN)))"
| "try_direct_step gate spurious (Suc n) state =
     (if state AND METADATA_GATE_EXCLUSIVE \<noteq> 0 \<or> state = METADATA_GATE_DIRECT_MAX
      then (gate, Finished (Inl (Err EAGAIN)))
      else if gate = state \<and> \<not> spurious then (state + 1, Finished (Inr \<lparr>mg_exclusive = False\<rparr>))
      else (gate, Running n gate))"

definition try_transactional :: "u64 \<Rightarrow> u64 \<times> metadata_guard res" where
  "try_transactional gate =
     (if gate = 0 then (METADATA_GATE_EXCLUSIVE, Inr \<lparr>mg_exclusive = True\<rparr>)
      else (gate, Inl (Err EAGAIN)))"

text \<open>\<^verbatim>\<open>drop\<close> of a guard, with its debug assertions.\<close>

definition guard_drop :: "metadata_guard \<Rightarrow> u64 \<Rightarrow> u64 \<times> unit res" where
  "guard_drop g gate =
     (if mg_exclusive g then
        if gate = METADATA_GATE_EXCLUSIVE then (0, Inr ()) else (gate, Inl Panic)
      else (gate - 1, if 0 < gate \<and> gate < METADATA_GATE_EXCLUSIVE then Inr () else Inl Panic))"

section \<open>Threads\<close>

datatype thread = Outside | Trying nat u64 | Holding metadata_guard

fun after_attempt :: "attempt \<Rightarrow> thread" where
  "after_attempt (Running n state) = Trying n state"
| "after_attempt (Finished (Inr g)) = Holding g"
| "after_attempt (Finished (Inl e)) = Outside"

inductive gate_step :: "u64 \<times> (nat \<Rightarrow> thread) \<Rightarrow> u64 \<times> (nat \<Rightarrow> thread) \<Rightarrow> bool" where
  begin_direct: "ts t = Outside \<Longrightarrow> gate_step (gate, ts) (gate, ts(t := after_attempt (try_direct_begin gate)))"
| step_direct: "ts t = Trying n state \<Longrightarrow> try_direct_step gate spurious n state = (gate', a) \<Longrightarrow>
    gate_step (gate, ts) (gate', ts(t := after_attempt a))"
| transactional: "ts t = Outside \<Longrightarrow> try_transactional gate = (gate', r) \<Longrightarrow>
    gate_step (gate, ts) (gate', ts(t := after_attempt (Finished r)))"
| leave: "ts t = Holding g \<Longrightarrow> guard_drop g gate = (gate', r) \<Longrightarrow>
    gate_step (gate, ts) (gate', ts(t := Outside))"

inductive_cases gate_stepE: "gate_step (gate, ts) s"

definition gate_reach :: "u64 \<times> (nat \<Rightarrow> thread) \<Rightarrow> bool" where
  "gate_reach = gate_step\<^sup>*\<^sup>* (gate_new, \<lambda>_. Outside)"

section \<open>The invariant\<close>

abbreviation direct_holders :: "(nat \<Rightarrow> thread) \<Rightarrow> nat set" where
  "direct_holders ts \<equiv> {t. ts t = Holding \<lparr>mg_exclusive = False\<rparr>}"

abbreviation exclusive_holders :: "(nat \<Rightarrow> thread) \<Rightarrow> nat set" where
  "exclusive_holders ts \<equiv> {t. ts t = Holding \<lparr>mg_exclusive = True\<rparr>}"

text \<open>Either one thread owns the word exclusively, or it counts the direct holders.\<close>

definition gate_inv :: "u64 \<times> (nat \<Rightarrow> thread) \<Rightarrow> bool" where
  "gate_inv s = (case s of (gate, ts) \<Rightarrow> finite (direct_holders ts) \<and>
     ((\<exists>t. exclusive_holders ts = {t} \<and> direct_holders ts = {} \<and> gate = METADATA_GATE_EXCLUSIVE) \<or>
      (exclusive_holders ts = {} \<and> unat gate = card (direct_holders ts) \<and> unat gate < 2 ^ 63)))"

lemma exclusive_unat: "unat METADATA_GATE_EXCLUSIVE = 2 ^ 63"
  by (simp add: METADATA_GATE_EXCLUSIVE_def push_bit_eq_mult)

lemma direct_max_unat: "unat METADATA_GATE_DIRECT_MAX = 2 ^ 63 - 1"
  by (simp add: METADATA_GATE_DIRECT_MAX_def METADATA_GATE_EXCLUSIVE_def push_bit_eq_mult)

lemma holders_update:
  assumes "ts t = x"
  shows "{u. (ts(t := y)) u = z} = (if y = z then insert t {u. ts u = z} else {u. ts u = z} - {t})"
  by auto

lemma direct_step_cases:
  assumes "try_direct_step gate spurious n state = (gate', a)"
  obtains e where "gate' = gate" "a = Finished (Inl e)"
  | m where "gate' = gate" "a = Running m gate" "n = Suc m"
  | "gate' = gate + 1" "a = Finished (Inr \<lparr>mg_exclusive = False\<rparr>)"
      "gate AND METADATA_GATE_EXCLUSIVE = 0" "gate \<noteq> METADATA_GATE_DIRECT_MAX"
  using assms by (cases n) (auto split: if_splits)

lemma gate_count_up:
  assumes "gate \<noteq> METADATA_GATE_DIRECT_MAX" "unat gate < 2 ^ 63"
  shows "unat (gate + 1) = unat gate + 1 \<and> unat (gate + 1) < 2 ^ 63"
proof -
  have "unat gate \<noteq> 2 ^ 63 - 1" using assms(1) unat_inject [of gate METADATA_GATE_DIRECT_MAX] direct_max_unat by metis
  then show ?thesis using assms(2) unat_add_lt [of gate 1] by simp
qed

lemma gate_inv_direct:
  assumes "gate_inv (gate, ts)" "ts t = Outside \<or> (\<exists>n s. ts t = Trying n s)"
    "gate AND METADATA_GATE_EXCLUSIVE = 0" "gate \<noteq> METADATA_GATE_DIRECT_MAX"
  shows "gate_inv (gate + 1, ts(t := Holding \<lparr>mg_exclusive = False\<rparr>))"
proof -
  have g: "gate \<noteq> METADATA_GATE_EXCLUSIVE" using assms(3) exclusive_unat by fastforce
  then have c: "exclusive_holders ts = {}" "unat gate = card (direct_holders ts)" "unat gate < 2 ^ 63"
    and f: "finite (direct_holders ts)" and t: "t \<notin> direct_holders ts"
    using assms(1,2) by (auto simp: gate_inv_def)
  have "exclusive_holders (ts(t := Holding \<lparr>mg_exclusive = False\<rparr>)) = {}" using c(1) by auto
  moreover have "direct_holders (ts(t := Holding \<lparr>mg_exclusive = False\<rparr>)) = insert t (direct_holders ts)" by auto
  ultimately show ?thesis using c f t gate_count_up [OF assms(4) c(3)] by (simp add: gate_inv_def)
qed

lemma gate_inv_exclusive:
  assumes "gate_inv (0, ts)" "ts t = Outside"
  shows "gate_inv (METADATA_GATE_EXCLUSIVE, ts(t := Holding \<lparr>mg_exclusive = True\<rparr>))"
proof -
  have "METADATA_GATE_EXCLUSIVE \<noteq> 0" using exclusive_unat by fastforce
  then have c: "exclusive_holders ts = {}" "direct_holders ts = {}"
    using assms(1) by (auto simp: gate_inv_def)
  have "exclusive_holders (ts(t := Holding \<lparr>mg_exclusive = True\<rparr>)) = {t}" using c(1) by auto
  moreover have "direct_holders (ts(t := Holding \<lparr>mg_exclusive = True\<rparr>)) = {}" using c(2) by auto
  ultimately show ?thesis by (simp add: gate_inv_def)
qed

text \<open>A thread that holds nothing before and after changes nothing.\<close>

lemma gate_inv_neutral:
  assumes "gate_inv (gate, ts)" "\<And>g. ts t \<noteq> Holding g" "\<And>g. x \<noteq> Holding g"
  shows "gate_inv (gate, ts(t := x))"
proof -
  have "direct_holders (ts(t := x)) = direct_holders ts" "exclusive_holders (ts(t := x)) = exclusive_holders ts"
    using assms(2,3) by (auto dest: sym)
  then show ?thesis using assms(1) by (simp only: gate_inv_def prod.case)
qed

lemma gate_inv_owner:
  assumes "gate_inv (gate, ts)" "t \<in> exclusive_holders ts"
  shows "exclusive_holders ts = {t} \<and> direct_holders ts = {} \<and> gate = METADATA_GATE_EXCLUSIVE"
  using assms unfolding gate_inv_def prod.case by (metis empty_iff singletonD)

lemma gate_leave:
  assumes "gate_inv (gate, ts)" "ts t = Holding g" "guard_drop g gate = (gate', r)"
  shows "gate_inv (gate', ts(t := Outside)) \<and> r = Inr ()"
proof (cases "mg_exclusive g")
  case True
  then have g: "g = \<lparr>mg_exclusive = True\<rparr>" by (cases g) simp
  then have "t \<in> exclusive_holders ts" using assms(2) by simp
  then have c: "exclusive_holders ts = {t}" "direct_holders ts = {}" "gate = METADATA_GATE_EXCLUSIVE"
    using gate_inv_owner [OF assms(1)] by blast+
  have "exclusive_holders (ts(t := Outside)) = {}" "direct_holders (ts(t := Outside)) = {}"
    using c(1,2) by auto
  then show ?thesis using assms(3) g c(3) by (auto simp: gate_inv_def guard_drop_def)
next
  case False
  then have g: "g = \<lparr>mg_exclusive = False\<rparr>" by (cases g) simp
  then have t: "t \<in> direct_holders ts" using assms(2) by simp
  then have c: "exclusive_holders ts = {}" "unat gate = card (direct_holders ts)" "unat gate < 2 ^ 63"
    and f: "finite (direct_holders ts)"
    using assms(1) by (auto simp: gate_inv_def)
  have pos: "0 < unat gate" using t f c(2) by (auto simp: card_gt_0_iff)
  then have u: "unat (gate - 1) = unat gate - 1" using unat_sub_le [of 1 gate] by (simp add: word_le_nat_alt)
  have e: "exclusive_holders (ts(t := Outside)) = {}"
    and d: "direct_holders (ts(t := Outside)) = direct_holders ts - {t}" using c(1) by auto
  have "r = Inr ()" "gate' = gate - 1"
    using assms(3) g pos c(3) exclusive_unat
    by (auto simp: guard_drop_def word_less_nat_alt split: if_splits)
  then show ?thesis using e d c f t u pos by (simp add: gate_inv_def card_Diff_singleton)
qed

lemma gate_step_inv:
  assumes "gate_step (gate, ts) s" "gate_inv (gate, ts)"
  shows "gate_inv s"
  using assms(1)
proof (rule gate_stepE)
  fix t assume "s = (gate, ts(t := after_attempt (try_direct_begin gate)))" "ts t = Outside"
  then show ?thesis using gate_inv_neutral [OF assms(2)] by (simp add: try_direct_begin_def)
next
  fix t n state spurious gate' a
  assume a: "s = (gate', ts(t := after_attempt a))" "ts t = Trying n state"
    "try_direct_step gate spurious n state = (gate', a)"
  from a(3) show ?thesis
  proof (cases rule: direct_step_cases)
    case (1 e) then show ?thesis using a gate_inv_neutral [OF assms(2)] by simp
  next
    case (2 m) then show ?thesis using a gate_inv_neutral [OF assms(2)] by simp
  next
    case 3 then show ?thesis using a gate_inv_direct [OF assms(2)] by simp
  qed
next
  fix t gate' r
  assume a: "s = (gate', ts(t := after_attempt (Finished r)))" "ts t = Outside" "try_transactional gate = (gate', r)"
  then show ?thesis
    using gate_inv_exclusive [of ts t] gate_inv_neutral [OF assms(2), of t Outside] assms(2)
    by (auto simp: try_transactional_def split: if_splits)
next
  fix t g gate' r
  assume "s = (gate', ts(t := Outside))" "ts t = Holding g" "guard_drop g gate = (gate', r)"
  then show ?thesis using gate_leave [OF assms(2)] by blast
qed

lemma gate_reach_inv: "gate_reach s \<Longrightarrow> gate_inv s"
  unfolding gate_reach_def
proof (induction rule: rtranclp_induct)
  case base show ?case by (simp add: gate_inv_def gate_new_def)
next
  case (step s s') then show ?case by (cases s) (blast intro: gate_step_inv)
qed

section \<open>Exclusion\<close>

text \<open>C18: mutual exclusion. In every reachable state of any number of threads that take and drop guards of
  one gate, in any interleaving of their atomic instructions and with any spurious failures of
  \<^verbatim>\<open>compare_exchange_weak\<close>: when a thread holds the gate exclusively no other thread holds a guard of
  either kind; the word is the number of direct holders otherwise; dropping a guard never violates the
  debug assertions; and a transactional attempt succeeds exactly when nobody holds a guard.\<close>

theorem gate_mutual_exclusion:
  assumes "gate_reach (gate, ts)"
  shows "(\<forall>t u g. ts t = Holding \<lparr>mg_exclusive = True\<rparr> \<longrightarrow> ts u = Holding g \<longrightarrow> u = t) \<and>
    ((\<forall>t. ts t \<noteq> Holding \<lparr>mg_exclusive = True\<rparr>) \<longrightarrow> unat gate = card {t. ts t = Holding \<lparr>mg_exclusive = False\<rparr>}) \<and>
    (\<forall>t g. ts t = Holding g \<longrightarrow> snd (guard_drop g gate) = Inr ()) \<and>
    (is_ok (snd (try_transactional gate)) \<longleftrightarrow> (\<forall>t g. ts t \<noteq> Holding g))"
proof (intro conjI)
  have inv: "gate_inv (gate, ts)" using gate_reach_inv [OF assms] .
  have g: "g = \<lparr>mg_exclusive = True\<rparr> \<or> g = \<lparr>mg_exclusive = False\<rparr>" for g by (cases g) simp
  have x: "METADATA_GATE_EXCLUSIVE \<noteq> 0" using exclusive_unat by fastforce
  show "\<forall>t u g. ts t = Holding \<lparr>mg_exclusive = True\<rparr> \<longrightarrow> ts u = Holding g \<longrightarrow> u = t"
  proof (intro allI impI)
    fix t u h assume a: "ts t = Holding \<lparr>mg_exclusive = True\<rparr>" "ts u = Holding h"
    then have o: "exclusive_holders ts = {t}" "direct_holders ts = {}" using gate_inv_owner [OF inv, of t] by auto
    from a(2) g [of h] have "u \<in> exclusive_holders ts \<or> u \<in> direct_holders ts" by auto
    then show "u = t" unfolding o by simp
  qed
  show "(\<forall>t. ts t \<noteq> Holding \<lparr>mg_exclusive = True\<rparr>) \<longrightarrow> unat gate = card {t. ts t = Holding \<lparr>mg_exclusive = False\<rparr>}"
    using inv unfolding gate_inv_def by (auto simp: set_eq_iff)
  show "\<forall>t g. ts t = Holding g \<longrightarrow> snd (guard_drop g gate) = Inr ()"
    using gate_leave [OF inv] by (metis prod.collapse)
  have "gate = 0 \<longleftrightarrow> exclusive_holders ts = {} \<and> direct_holders ts = {}"
    using inv x unfolding gate_inv_def by (auto simp: unat_eq_0 [symmetric] simp del: unat_eq_0)
  also have "\<dots> \<longleftrightarrow> (\<forall>t g. ts t \<noteq> Holding g)" by (simp add: set_eq_iff) (metis g)
  finally show "is_ok (snd (try_transactional gate)) \<longleftrightarrow> (\<forall>t g. ts t \<noteq> Holding g)"
    by (simp add: try_transactional_def)
qed

section \<open>Attempts end\<close>

text \<open>One attempt, whatever the other threads do: \<open>obs\<close> lists the values of the word the attempt finds at
  its own steps, and which of its compare-exchanges fail spuriously.\<close>

fun run_attempt :: "(u64 \<times> bool) list \<Rightarrow> attempt \<Rightarrow> attempt" where
  "run_attempt ((gate, spurious) # obs) (Running n state) =
     run_attempt obs (snd (try_direct_step gate spurious n state))"
| "run_attempt obs a = a"

lemma run_attempt_Finished [simp]: "run_attempt obs (Finished r) = Finished r"
  by (cases obs) simp_all

definition gate_closed :: "u64 \<Rightarrow> bool" where
  "gate_closed gate \<longleftrightarrow> gate AND METADATA_GATE_EXCLUSIVE \<noteq> 0 \<or> gate = METADATA_GATE_DIRECT_MAX"

text \<open>The compare-exchange at step \<open>i\<close> fails: the word is not the value observed before it.\<close>

definition collides :: "u64 \<Rightarrow> (u64 \<times> bool) list \<Rightarrow> nat \<Rightarrow> bool" where
  "collides state obs i \<longleftrightarrow> snd (obs ! i) \<or> fst (obs ! i) \<noteq> (state # map fst obs) ! i"

lemma collides_Suc: "collides state ((gate, spurious) # obs) (Suc i) = collides gate obs i"
  by (simp add: collides_def)

lemma run_attempt_ends:
  assumes "n < length obs"
  shows "\<exists>r. run_attempt obs (Running n state) = Finished r \<and>
    (r = Inr \<lparr>mg_exclusive = False\<rparr> \<and> (\<exists>i<n. fst (obs ! i) = (state # map fst obs) ! i \<and> \<not> gate_closed (fst (obs ! i))) \<or>
     r = Inl (Err EAGAIN) \<and> ((\<exists>i\<le>n. gate_closed ((state # map fst obs) ! i)) \<or> (\<forall>i<n. collides state obs i)))"
  using assms
proof (induction n arbitrary: obs state)
  case 0
  then obtain gate spurious rest where "obs = (gate, spurious) # rest" by (cases obs) auto
  then show ?case by simp
next
  case (Suc n)
  then obtain gate spurious rest where obs: "obs = (gate, spurious) # rest" by (cases obs) auto
  consider "gate_closed state" | "\<not> gate_closed state" "gate = state" "\<not> spurious"
    | "\<not> gate_closed state" "gate \<noteq> state \<or> spurious" by blast
  then show ?case
  proof cases
    case 1
    then have "\<exists>i\<le>Suc n. gate_closed ((state # map fst obs) ! i)" by (intro exI [of _ 0]) simp
    then show ?thesis using 1 by (simp add: obs gate_closed_def)
  next
    case 2
    then have "\<exists>i<Suc n. fst (obs ! i) = (state # map fst obs) ! i \<and> \<not> gate_closed (fst (obs ! i))"
      by (intro exI [of _ 0]) (simp add: obs)
    then show ?thesis using 2 by (simp add: obs gate_closed_def)
  next
    case 3
    then have step: "run_attempt obs (Running (Suc n) state) = run_attempt rest (Running n gate)"
      by (auto simp: obs gate_closed_def)
    have c: "collides state obs 0" using 3 by (auto simp: obs collides_def)
    from Suc.prems have "n < length rest" by (simp add: obs)
    from Suc.IH [OF this, of gate] obtain r where r: "run_attempt rest (Running n gate) = Finished r"
      and d: "r = Inr \<lparr>mg_exclusive = False\<rparr> \<and> (\<exists>i<n. fst (rest ! i) = (gate # map fst rest) ! i \<and> \<not> gate_closed (fst (rest ! i))) \<or>
        r = Inl (Err EAGAIN) \<and> ((\<exists>i\<le>n. gate_closed ((gate # map fst rest) ! i)) \<or> (\<forall>i<n. collides gate rest i))"
      by blast
    from d show ?thesis
    proof (elim disjE conjE exE)
      fix i assume "r = Inr \<lparr>mg_exclusive = False\<rparr>" "i < n" "fst (rest ! i) = (gate # map fst rest) ! i"
        "\<not> gate_closed (fst (rest ! i))"
      then show ?thesis using step r by (intro exI [of _ r]) (auto simp: obs intro!: exI [of _ "Suc i"])
    next
      fix i assume "r = Inl (Err EAGAIN)" "i \<le> n" "gate_closed ((gate # map fst rest) ! i)"
      then show ?thesis using step r by (intro exI [of _ r]) (auto simp: obs intro!: exI [of _ "Suc i"])
    next
      assume a: "r = Inl (Err EAGAIN)" "\<forall>i<n. collides gate rest i"
      then have "\<forall>i<Suc n. collides state obs i"
        using c by (auto simp: less_Suc_eq_0_disj obs collides_Suc)
      then show ?thesis using step r a(1) by auto
    qed
  qed
qed

text \<open>An attempt never waits. Whatever the other threads do to the word between its steps, an attempt at a
  direct guard is over after 65 of its own steps. It gets the guard only at a step at which the word had no
  exclusive owner and room for one more, and unchanged since the attempt last looked; it gets \<^verbatim>\<open>EAGAIN\<close>
  only when it saw an exclusive owner (or the maximal count), or when all 64 compare-exchanges collided.\<close>

theorem gate_attempt_bounded:
  assumes "length obs = 65"
  shows "\<exists>r. run_attempt obs (try_direct_begin gate) = Finished r \<and>
    (r = Inr \<lparr>mg_exclusive = False\<rparr> \<and>
       (\<exists>i<64. fst (obs ! i) = (gate # map fst obs) ! i \<and> \<not> gate_closed (fst (obs ! i))) \<or>
     r = Inl (Err EAGAIN) \<and>
       ((\<exists>i\<le>64. gate_closed ((gate # map fst obs) ! i)) \<or> (\<forall>i<64. collides gate obs i)))"
  unfolding try_direct_begin_def COMPATIBLE_CAS_RETRIES_def using run_attempt_ends [of 64 obs gate] assms by simp

section \<open>Witnesses\<close>

theorem gate_attempt_bounded_witness:
  "\<exists>r. run_attempt (replicate 65 (5, False)) (try_direct_begin 3) = Finished r"
  using gate_attempt_bounded [of "replicate 65 (5, False)" 3] by (meson length_replicate)

definition w_gate_run :: "u64 \<times> (nat \<Rightarrow> thread)" where
  "w_gate_run = (METADATA_GATE_EXCLUSIVE, (\<lambda>_. Outside)(7 := Holding \<lparr>mg_exclusive = True\<rparr>))"

lemma w_gate_run_reach: "gate_reach w_gate_run"
proof -
  have "gate_step (gate_new, \<lambda>_. Outside) (METADATA_GATE_EXCLUSIVE, (\<lambda>_. Outside)(7 := after_attempt (Finished (Inr \<lparr>mg_exclusive = True\<rparr>))))"
    by (rule gate_step.transactional) (simp_all add: try_transactional_def gate_new_def)
  then show ?thesis by (simp add: gate_reach_def w_gate_run_def)
qed

theorem gate_mutual_exclusion_witness: "\<not> is_ok (snd (try_transactional (fst w_gate_run)))"
proof -
  note m = gate_mutual_exclusion [of "fst w_gate_run" "snd w_gate_run", unfolded prod.collapse, OF w_gate_run_reach]
  have t: "snd w_gate_run 7 = Holding \<lparr>mg_exclusive = True\<rparr>" by (simp add: w_gate_run_def)
  show ?thesis using m t by metis
qed

end
