(* ===== verification/Mount_Geometry.thy ===== *)
theory Mount_Geometry
  imports Super_Block Block_Group Block_Device "HOL-Library.Product_Lexorder" "HOL-Library.Monad_Syntax"
begin

text \<open>
  What a mount checks and builds before it trusts the metadata (\<^verbatim>\<open>src/ext4/mod.rs\<close>): the validation of the
  superblock and of the group descriptors, the table of the block ranges that hold primary metadata,
  and the test every data range must pass against that table.

  Failing memory reservations (\<^verbatim>\<open>try_reserve_exact\<close>, \<^verbatim>\<open>ENOMEM\<close>) are not modelled.
\<close>

section \<open>Groups with a superblock copy\<close>

text \<open>The division loop; \<open>None\<close> is a loop that never ends. \<^verbatim>\<open>is_multiple_of\<close> is \<open>mod\<close>, also for a zero base.\<close>

partial_function (option) is_power_of :: "u32 \<Rightarrow> u32 \<Rightarrow> bool option" where
  "is_power_of value base =
     (if value > base \<and> value mod base = 0 then is_power_of (value div base) base else Some (value = base))"

declare is_power_of.simps [code]

definition block_group_has_super :: "super_block \<Rightarrow> BlockGroupId \<Rightarrow> bool option" where
  "block_group_has_super sb grp =
     (if grp = 0 then Some True
      else if has_compatible_feature sb FEATURE_COMPAT_SPARSE_SUPER2 then Some (grp \<in> set (sb_backup_bgs sb))
      else if grp \<le> 1 \<or> \<not> has_read_only_compatible_feature sb FEATURE_RO_COMPAT_SPARSE_SUPER then Some True
      else if grp AND 1 = 0 then Some False
      else do {
        p3 \<leftarrow> is_power_of grp 3;
        if p3 then Some True else do {
        p5 \<leftarrow> is_power_of grp 5;
        if p5 then Some True else is_power_of grp 7 }})"

section \<open>Metadata ranges\<close>

type_synonym block_range = "PBlockId \<times> PBlockId"

text \<open>The loop over the sorted ranges; \<open>merged\<close> grows at its end.\<close>

fun merge_loop :: "block_range list \<Rightarrow> block_range list \<Rightarrow> block_range list" where
  "merge_loop merged [] = merged"
| "merge_loop merged ((start, ending) # ranges) =
     (if merged \<noteq> [] \<and> start \<le> snd (last merged)
      then merge_loop (butlast merged @ [(fst (last merged), max (snd (last merged)) ending)]) ranges
      else merge_loop (merged @ [(start, ending)]) ranges)"

definition merge_metadata_ranges :: "block_range list \<Rightarrow> block_range list" where
  "merge_metadata_ranges ranges = merge_loop [] (sort ranges)"

definition checked_mul :: "'a::len word \<Rightarrow> 'a word \<Rightarrow> 'a word option" where
  "checked_mul a b = (if unat a * unat b < 2 ^ LENGTH('a) then Some (a * b) else None)"

text \<open>The blocks of one group's inode table, computed in \<^verbatim>\<open>u64\<close>.\<close>

definition inode_table_blocks :: "super_block \<Rightarrow> u64 res" where
  "inode_table_blocks sb = ok_or (do {
     bytes \<leftarrow> checked_mul (ucast (sb_inodes_per_group sb)) (ucast (sb_inode_size sb));
     bytes \<leftarrow> checked_add bytes (of_nat BLOCK_SIZE - 1);
     Some (bytes div of_nat BLOCK_SIZE) }) EIO"

text \<open>The superblock copy, the group descriptors and the reserved descriptor blocks at the start of a group.
  The sum and product of \<open>start\<close> fit in 64 bits, as their operands are 32 bits wide.\<close>

definition super_range :: "super_block \<Rightarrow> u64 \<Rightarrow> BlockGroupId \<Rightarrow> block_range res" where
  "super_range sb gdt_blocks bgid =
     (let start = ucast (sb_first_data_block sb) + ucast bgid * ucast (sb_blocks_per_group sb) in
      rbind (ok_or (do {
        v \<leftarrow> checked_add start 1;
        v \<leftarrow> checked_add v gdt_blocks;
        checked_add v (ucast (sb_reserved_gdt_blocks sb)) }) EIO) (\<lambda>ending.
      rbind (ok_or (checked_add start (ucast (sb_blocks_per_group sb))) EIO) (\<lambda>v.
      if ending > min v (sb_block_count sb) then Inl (Err EIO) else Inr (start, ending))))"

definition range_from :: "PBlockId \<Rightarrow> u64 \<Rightarrow> block_range res" where
  "range_from start count = rbind (ok_or (checked_add start count) EIO) (\<lambda>ending. Inr (start, ending))"

definition group_ranges ::
    "super_block \<Rightarrow> u64 \<Rightarrow> u64 \<Rightarrow> BlockGroupId \<Rightarrow> block_group_desc \<Rightarrow> block_range list res" where
  "group_ranges sb gdt_blocks table_blocks bgid desc =
     rbind (if block_group_has_super sb bgid = Some True
            then rbind (super_range sb gdt_blocks bgid) (\<lambda>r. Inr [r]) else Inr []) (\<lambda>super.
     rbind (range_from (bg_block_bitmap_block desc) 1) (\<lambda>block_bitmap.
     rbind (range_from (bg_inode_bitmap_block desc) 1) (\<lambda>inode_bitmap.
     rbind (range_from (bg_inode_table_first_block desc) table_blocks) (\<lambda>table.
     Inr (super @ [block_bitmap, inode_bitmap, table])))))"

fun groups_ranges ::
    "super_block \<Rightarrow> u64 \<Rightarrow> u64 \<Rightarrow> nat \<Rightarrow> block_group_desc list \<Rightarrow> block_range list res" where
  "groups_ranges sb gdt_blocks table_blocks i [] = Inr []"
| "groups_ranges sb gdt_blocks table_blocks i (desc # descs) =
     rbind (group_ranges sb gdt_blocks table_blocks (word_of_nat i) desc) (\<lambda>rs.
     rbind (groups_ranges sb gdt_blocks table_blocks (Suc i) descs) (\<lambda>rest. Inr (rs @ rest)))"

text \<open>A zero descriptor size, or one beyond the block size, divides by zero.\<close>

definition build_system_metadata_ranges :: "super_block \<Rightarrow> block_group_desc list \<Rightarrow> block_range list res" where
  "build_system_metadata_ranges sb groups =
     (let desc_size = unat (sb_desc_size sb) in
      if desc_size = 0 \<or> desc_size > BLOCK_SIZE then Inl Panic
      else
        rbind (sb_block_group_count sb) (\<lambda>count.
        let gdt_blocks = word_of_nat (div_ceil (unat count) (BLOCK_SIZE div desc_size)) in
        rbind (inode_table_blocks sb) (\<lambda>table_blocks.
        rbind (groups_ranges sb gdt_blocks table_blocks 0 groups) (\<lambda>ranges.
        Inr (merge_metadata_ranges ranges)))))"

section \<open>Validation\<close>

definition SUPPORTED_INCOMPAT :: u32 where
  "SUPPORTED_INCOMPAT = 0x0002 OR 0x0004 OR 0x0040 OR 0x0080 OR 0x0200 OR FEATURE_INCOMPAT_CSUM_SEED"

definition SUPPORTED_RO_COMPAT :: u32 where
  "SUPPORTED_RO_COMPAT = 0x0001 OR 0x0002 OR 0x0004 OR 0x0008 OR 0x0020 OR 0x0040 OR 0x0400 OR
     FEATURE_RO_COMPAT_ORPHAN_PRESENT"

text \<open>The conditions of the first test after the block size, in order.\<close>

definition super_fields_ok :: "super_block \<Rightarrow> bool" where
  "super_fields_ok sb \<longleftrightarrow>
     sb_first_data_block sb = 0 \<and>
     unat (sb_inode_size sb) = SB_GOOD_INODE_SIZE \<and>
     unat (sb_desc_size sb) = SB_GOOD_DESC_SIZE \<and>
     sb_features_incompatible sb AND NOT SUPPORTED_INCOMPAT = 0 \<and>
     sb_features_read_only sb AND NOT SUPPORTED_RO_COMPAT = 0 \<and>
     sb_blocks_per_group sb \<noteq> 0 \<and>
     sb_inodes_per_group sb \<noteq> 0 \<and>
     sb_frags_per_group sb \<noteq> 0 \<and>
     unat (sb_frags_per_group sb) \<le> BLOCK_SIZE * 8 \<and>
     unat (sb_inodes_per_group sb) \<le> BLOCK_SIZE * 8 \<and>
     unat (sb_reserved_gdt_blocks sb) \<le> BLOCK_SIZE div 4 \<and>
     sb_frags_per_group sb = sb_blocks_per_group sb \<and>
     sb_block_count sb > ucast (sb_first_data_block sb) \<and>
     sb_inode_count sb \<noteq> 0 \<and>
     sb_first_inode sb \<le> sb_inode_count sb \<and>
     sb_free_blocks_count sb \<le> sb_block_count sb \<and>
     sb_free_inode_count sb \<le> sb_inode_count sb \<and>
     sb_total_reserved_blocks_count sb \<le> sb_block_count sb"

text \<open>The block size is a shift, which overflows for a corrupt \<^verbatim>\<open>log_block_size\<close>; it comes after the tests
  of the magic number and of the checksum. The \<^verbatim>\<open>clusters_per_group\<close> of the code is the field
  \<open>sb_frags_per_group\<close>.\<close>

definition validate_super_block :: "super_block \<Rightarrow> unit res" where
  "validate_super_block sb =
     rbind (guard (sb_check_magic sb \<and>
       (has_read_only_compatible_feature sb FEATURE_RO_COMPAT_METADATA_CSUM \<longrightarrow>
          sb_has_supported_checksum_type sb \<and> sb_verify_checksum sb)) (Err EIO)) (\<lambda>_.
     rbind (sb_block_size sb) (\<lambda>block_size.
     rbind (guard (block_size = of_nat BLOCK_SIZE \<and> super_fields_ok sb) (Err EIO)) (\<lambda>_.
     let groups = word_of_nat (div_ceil (unat (sb_block_count sb - ucast (sb_first_data_block sb)))
                                        (unat (sb_blocks_per_group sb))) :: u64;
         per_group = ucast (sb_inodes_per_group sb) in
     rbind (ok_or (checked_mul groups per_group) EIO) (\<lambda>inode_capacity.
     rbind (ok_or (checked_mul (saturating_sub groups 1) per_group) EIO) (\<lambda>prior_capacity.
     guard (groups \<noteq> 0 \<and> groups \<le> 2 ^ 32 - 1 \<and>
       ucast (sb_inode_count sb) \<le> inode_capacity \<and> ucast (sb_inode_count sb) > prior_capacity) (Err EIO))))))"

definition validate_block_group ::
    "super_block \<Rightarrow> BlockGroupId \<Rightarrow> block_group_desc \<Rightarrow> bool \<Rightarrow> u64 \<Rightarrow> unit res" where
  "validate_block_group sb bgid desc metadata_csum table_blocks =
     guard ((metadata_csum \<longrightarrow> bgr_verify_checksum (metadata_checksum_seed sb) (bgr_new bgid desc)) \<and>
       bg_block_bitmap_block desc \<noteq> 0 \<and> bg_block_bitmap_block desc < sb_block_count sb \<and>
       bg_inode_bitmap_block desc \<noteq> 0 \<and> bg_inode_bitmap_block desc < sb_block_count sb \<and>
       bg_inode_table_first_block desc \<noteq> 0 \<and> bg_inode_table_first_block desc < sb_block_count sb \<and>
       (case checked_add (bg_inode_table_first_block desc) table_blocks of
          None \<Rightarrow> False | Some ending \<Rightarrow> ending \<le> sb_block_count sb)) (Err EIO)"

definition read_group ::
    "('d, 'z) device_ops_scheme \<Rightarrow> 'd \<Rightarrow> super_block \<Rightarrow> u64 \<Rightarrow> BlockGroupId \<Rightarrow> block_group_desc res" where
  "read_group ops d sb table_blocks bgid =
     (let desc_per_block = of_nat BLOCK_SIZE div ucast (sb_desc_size sb) in
      rbind (ok_or (do {
        id \<leftarrow> checked_add (sb_first_data_block sb) (bgid div desc_per_block);
        checked_add id 1 }) EIO) (\<lambda>block_id.
      if ucast block_id \<ge> sb_block_count sb then Inl (Err EIO)
      else
        let offset = (bgid mod desc_per_block) * ucast (sb_desc_size sb) in
        rbind (read_block ops d (ucast block_id)) (\<lambda>blk.
        rbind (block_read_offset blk (unat offset) SB_GOOD_DESC_SIZE) (\<lambda>bs.
        rbind (bgd_from_bytes bs) (\<lambda>desc.
        rbind (validate_block_group sb bgid desc
                 (has_read_only_compatible_feature sb FEATURE_RO_COMPAT_METADATA_CSUM) table_blocks) (\<lambda>_.
        Inr desc))))))"

fun read_groups ::
    "('d, 'z) device_ops_scheme \<Rightarrow> 'd \<Rightarrow> super_block \<Rightarrow> u64 \<Rightarrow> BlockGroupId list \<Rightarrow> block_group_desc list res" where
  "read_groups ops d sb table_blocks [] = Inr []"
| "read_groups ops d sb table_blocks (bgid # bgids) =
     rbind (read_group ops d sb table_blocks bgid) (\<lambda>desc.
     rbind (read_groups ops d sb table_blocks bgids) (\<lambda>rest. Inr (desc # rest)))"

definition read_validated_block_groups ::
    "('d, 'z) device_ops_scheme \<Rightarrow> 'd \<Rightarrow> super_block \<Rightarrow> block_group_desc list res" where
  "read_validated_block_groups ops d sb =
     rbind (validate_super_block sb) (\<lambda>_.
     rbind (sb_block_group_count sb) (\<lambda>bg_count.
     rbind (inode_table_blocks sb) (\<lambda>table_blocks.
     read_groups ops d sb table_blocks (map word_of_nat [0..<unat bg_count]))))"

section \<open>Data ranges\<close>

definition ranges_overlap :: "PBlockId \<Rightarrow> PBlockId \<Rightarrow> PBlockId \<Rightarrow> PBlockId \<Rightarrow> bool" where
  "ranges_overlap start ending reserved_start reserved_end \<longleftrightarrow> start < reserved_end \<and> reserved_start < ending"

text \<open>\<^verbatim>\<open>slice::partition_point\<close>: on a list the predicate splits into a prefix and the rest, the length of the prefix.\<close>

definition partition_point :: "('a \<Rightarrow> bool) \<Rightarrow> 'a list \<Rightarrow> nat" where
  "partition_point p xs = length (takeWhile p xs)"

text \<open>\<open>owns\<close> is the journal's answer for a range, false without a journal.\<close>

definition validate_data_blocks ::
    "super_block \<Rightarrow> block_range list \<Rightarrow> (PBlockId \<Rightarrow> PBlockId \<Rightarrow> bool) \<Rightarrow> PBlockId \<Rightarrow> u64 \<Rightarrow> unit res" where
  "validate_data_blocks sb ranges owns start count =
     rbind (ok_or (checked_add start count) EIO) (\<lambda>ending.
     if count = 0 \<or> start < ucast (sb_first_data_block sb) \<or> ending > sb_block_count sb then Inl (Err EIO)
     else
       let candidate = partition_point (\<lambda>r. snd r \<le> start) ranges in
       if candidate < length ranges \<and>
          ranges_overlap start ending (fst (ranges ! candidate)) (snd (ranges ! candidate)) then Inl (Err EIO)
       else guard (\<not> owns start ending) (Err EIO))"


section \<open>The division loop\<close>

lemma unat_div_mod: "unat (a div b :: 'a::len word) = unat a div unat b" "unat (a mod b) = unat a mod unat b"
  by (simp_all add: unat_div_distrib unat_mod_distrib)

lemma power_of_quotient:
  fixes v b :: nat
  assumes "2 \<le> b" "b < v" "v mod b = 0"
  shows "(\<exists>k\<ge>1. v div b = b ^ k) \<longleftrightarrow> (\<exists>k\<ge>1. v = b ^ k)"
proof
  assume "\<exists>k\<ge>1. v div b = b ^ k"
  then obtain k where "v div b = b ^ k" by blast
  then have "v = b ^ Suc k" using assms by (metis add.right_neutral mult_div_mod_eq power_Suc)
  then show "\<exists>k\<ge>1. v = b ^ k" by (intro exI [of _ "Suc k"]) simp
next
  assume "\<exists>k\<ge>1. v = b ^ k"
  then obtain k where k: "1 \<le> k" "v = b ^ k" by blast
  have "k \<noteq> 1" using assms k by auto
  then obtain j where j: "k = Suc j" "1 \<le> j" using k(1) by (cases k) auto
  then have "v div b = b ^ j" using k assms by simp
  then show "\<exists>k\<ge>1. v div b = b ^ k" using j by blast
qed

lemma is_power_of_value:
  assumes "2 \<le> base"
  shows "is_power_of value base = Some (\<exists>k\<ge>1. unat value = unat base ^ k)"
  using assms
proof (induction "unat value" arbitrary: "value" rule: less_induct)
  case less
  have b: "2 \<le> unat base" using less.prems by (simp add: word_le_nat_alt)
  show ?case
  proof (cases "value > base \<and> value mod base = 0")
    case True
    then have v: "unat base < unat value" "unat value mod unat base = 0"
      by (auto simp: word_less_nat_alt unat_div_mod [symmetric])
    have "unat (value div base) < unat value" using v(1) b by (simp add: unat_div_mod)
    from less.hyps [OF this less.prems] show ?thesis
      using True power_of_quotient [OF b v] by (subst is_power_of.simps) (simp add: unat_div_mod)
  next
    case False
    have "(\<exists>k\<ge>1. unat value = unat base ^ k) \<longleftrightarrow> value = base"
    proof
      assume "\<exists>k\<ge>1. unat value = unat base ^ k"
      then obtain k where k: "1 \<le> k" "unat value = unat base ^ k" by blast
      then have "unat value mod unat base = 0" by (metis dvd_imp_mod_0 dvd_power less_le_trans zero_less_one)
      then have "value mod base = 0" by (metis unat_div_mod(2) unat_0 unat_inject)
      then have "\<not> base < value" using False by simp
      then have le: "unat value \<le> unat base" by (simp add: word_le_nat_alt [symmetric])
      have "unat base ^ 1 \<le> unat base ^ k" using b k(1) by (intro power_increasing) auto
      then show "value = base" using le k(2) by (simp add: unat_inject [symmetric])
    qed (auto intro: exI [of _ 1])
    then show ?thesis using False by (subst is_power_of.simps) auto
  qed
qed

text \<open>The groups with a superblock copy, as the documentation of ext4 states them.\<close>

definition super_copy_group :: "super_block \<Rightarrow> nat \<Rightarrow> bool" where
  "super_copy_group sb n \<longleftrightarrow> n = 0 \<or>
     (if has_compatible_feature sb FEATURE_COMPAT_SPARSE_SUPER2 then n \<in> unat ` set (sb_backup_bgs sb)
      else has_read_only_compatible_feature sb FEATURE_RO_COMPAT_SPARSE_SUPER \<longrightarrow>
        n = 1 \<or> (\<exists>k\<ge>1. n = 3 ^ k \<or> n = 5 ^ k \<or> n = 7 ^ k))"

lemma odd_word_and_1: "(x :: u32) AND 1 = 0 \<longleftrightarrow> even (unat x)"
proof -
  have "unat (x AND 1) = unat x mod 2" using unat_div_mod(2) [of x 2] by (simp add: and_one_eq)
  then show ?thesis by (metis even_iff_mod_2_eq_zero unat_0 unat_inject)
qed

lemma has_super_value: "block_group_has_super sb grp = Some (super_copy_group sb (unat grp))"
proof -
  have p: "is_power_of grp 3 = Some (\<exists>k\<ge>1. unat grp = 3 ^ k)" "is_power_of grp 5 = Some (\<exists>k\<ge>1. unat grp = 5 ^ k)"
    "is_power_of grp 7 = Some (\<exists>k\<ge>1. unat grp = 7 ^ k)"
    using is_power_of_value [of 3 grp] is_power_of_value [of 5 grp] is_power_of_value [of 7 grp] by simp_all
  have z: "grp = 0 \<longleftrightarrow> unat grp = 0" by (simp add: unat_eq_0)
  have one: "grp \<le> 1 \<longleftrightarrow> unat grp = 0 \<or> unat grp = 1" by (simp add: word_le_nat_alt le_Suc_eq)
  have ev: "even (unat grp) \<Longrightarrow> unat grp \<noteq> 3 ^ k \<and> unat grp \<noteq> 5 ^ k \<and> unat grp \<noteq> 7 ^ k" for k
    by (metis even_numeral even_power odd_numeral)
  have m: "grp \<in> set xs \<longleftrightarrow> unat grp \<in> unat ` set xs" for xs by (auto simp: unat_inject)
  show ?thesis
    unfolding block_group_has_super_def super_copy_group_def p one odd_word_and_1 m z using ev by auto
qed

text \<open>The test for a superblock copy always ends, whatever the group number and the feature bits, and
  gives the documented answer: the loops of its three calls of \<^verbatim>\<open>is_power_of\<close> return on every group number.\<close>

theorem block_group_has_super_total: "block_group_has_super sb grp = Some (super_copy_group sb (unat grp))"
  by (rule has_super_value)

section \<open>Merged ranges\<close>

definition covered :: "block_range list \<Rightarrow> PBlockId set" where
  "covered rs = {b. \<exists>r\<in>set rs. fst r \<le> b \<and> b < snd r}"

text \<open>Sorted ranges with a gap between neighbours, none empty.\<close>

definition separated :: "block_range list \<Rightarrow> bool" where
  "separated rs \<longleftrightarrow> sorted_wrt (\<lambda>r r'. snd r < fst r') rs \<and> (\<forall>r\<in>set rs. fst r < snd r)"

lemma covered_simps [simp]:
  "covered [] = {}" "covered (r # rs) = {fst r..<snd r} \<union> covered rs" "covered (rs @ rs') = covered rs \<union> covered rs'"
  by (auto simp: covered_def)

lemma separated_snoc:
  "separated (rs @ [r]) \<longleftrightarrow> separated rs \<and> (\<forall>r'\<in>set rs. snd r' < fst r) \<and> fst r < snd r"
  by (auto simp: separated_def sorted_wrt_append)

lemma merge_loop_spec:
  assumes "separated merged" "sorted (map fst ranges)" "\<forall>r\<in>set ranges. fst r < snd r"
    "\<forall>r\<in>set ranges. \<forall>m\<in>set merged. fst m \<le> fst r"
  shows "separated (merge_loop merged ranges) \<and> covered (merge_loop merged ranges) = covered merged \<union> covered ranges"
  using assms
proof (induction merged ranges rule: merge_loop.induct)
  case (1 merged)
  then show ?case by simp
next
  case (2 merged start ending ranges)
  have rest: "sorted (map fst ranges)" "\<forall>r\<in>set ranges. fst r < snd r" "\<forall>r\<in>set ranges. start \<le> fst r" "start < ending"
    using "2.prems"(2,3) by auto
  show ?case
  proof (cases "merged \<noteq> [] \<and> start \<le> snd (last merged)")
    case True
    then obtain init l where m: "merged = init @ [l]" by (metis rev_exhaust)
    let ?l = "(fst l, max (snd l) ending)"
    have l: "fst l \<le> start" "start \<le> snd l" using "2.prems"(4) True by (auto simp: m)
    have "separated (init @ [?l])" using "2.prems"(1) l rest(4) by (auto simp: m separated_snoc max_def)
    moreover have "\<forall>r\<in>set ranges. \<forall>m\<in>set (init @ [?l]). fst m \<le> fst r" using "2.prems"(4) by (auto simp: m)
    moreover have "covered (init @ [?l]) = covered merged \<union> {start..<ending}"
      using l by (auto simp: m max_def)
    ultimately show ?thesis using "2.IH"(1) [OF True] rest True by (auto simp: m)
  next
    case False
    have "separated (merged @ [(start, ending)])"
    proof (cases "merged = []")
      case False
      then obtain init l where m: "merged = init @ [l]" by (metis rev_exhaust)
      have "snd l < start" using \<open>\<not> (merged \<noteq> [] \<and> start \<le> snd (last merged))\<close> by (auto simp: m)
      moreover have "\<forall>r\<in>set init. snd r < fst l" "fst l < snd l" using "2.prems"(1) by (auto simp: m separated_snoc)
      ultimately have "\<forall>r\<in>set merged. snd r < start" by (fastforce simp: m)
      then show ?thesis using "2.prems"(1) rest(4) by (simp add: separated_snoc)
    qed (use rest(4) in \<open>simp add: separated_def\<close>)
    moreover have "\<forall>r\<in>set ranges. \<forall>m\<in>set (merged @ [(start, ending)]). fst m \<le> fst r"
      using "2.prems"(4) rest(3) by auto
    ultimately show ?thesis using "2.IH"(2) [OF False] rest False by (auto simp: Un_assoc)
  qed
qed

lemma sorted_fst: "sorted rs \<Longrightarrow> sorted (map fst (rs :: block_range list))"
  by (induction rs) (auto simp: less_eq_prod_def)

lemma merge_metadata_ranges_spec:
  assumes "\<forall>r\<in>set ranges. fst r < snd r"
  shows "separated (merge_metadata_ranges ranges) \<and> covered (merge_metadata_ranges ranges) = covered ranges"
  using merge_loop_spec [of "[]" "sort ranges"] assms
  by (simp add: merge_metadata_ranges_def separated_def sorted_fst covered_def)

text \<open>On separated ranges the first range that ends after \<open>start\<close> decides about all of them.\<close>

lemma partition_point_decides:
  assumes "separated rs" "start < ending"
  defines "c \<equiv> partition_point (\<lambda>r. snd r \<le> start) rs"
  shows "(c < length rs \<and> ranges_overlap start ending (fst (rs ! c)) (snd (rs ! c))) \<longleftrightarrow>
    (\<exists>r\<in>set rs. ranges_overlap start ending (fst r) (snd r))"
proof
  assume "\<exists>r\<in>set rs. ranges_overlap start ending (fst r) (snd r)"
  then obtain j where j: "j < length rs" "start < snd (rs ! j)" "fst (rs ! j) < ending"
    by (auto simp: in_set_conv_nth ranges_overlap_def)
  have "c \<le> j"
  proof (rule ccontr)
    assume "\<not> c \<le> j"
    then have "snd (rs ! j) \<le> start"
      by (metis (mono_tags, lifting) c_def leI not_le nth_mem partition_point_def set_takeWhileD takeWhile_nth)
    then show False using j(2) by simp
  qed
  then have c: "c < length rs" using j(1) by simp
  then have "\<not> snd (rs ! c) \<le> start" unfolding c_def partition_point_def by (rule nth_length_takeWhile)
  moreover have "fst (rs ! c) < ending"
  proof (cases "c = j")
    case False
    then have "snd (rs ! c) < fst (rs ! j)" "fst (rs ! c) < snd (rs ! c)"
      using assms(1) j(1) c \<open>c \<le> j\<close> by (auto simp: separated_def sorted_wrt_iff_nth_less)
    then show ?thesis using j(3) by (meson order_less_trans)
  qed (use j in simp)
  ultimately show "c < length rs \<and> ranges_overlap start ending (fst (rs ! c)) (snd (rs ! c))"
    using c by (simp add: ranges_overlap_def)
qed auto

section \<open>The geometry of a valid superblock\<close>

definition group_count :: "super_block \<Rightarrow> nat" where
  "group_count sb = div_ceil (unat (sb_block_count sb)) (unat (sb_blocks_per_group sb))"

definition table_size :: "super_block \<Rightarrow> nat" where
  "table_size sb = div_ceil (unat (sb_inodes_per_group sb) * 256) BLOCK_SIZE"

lemma unat_checked_mul: "checked_mul a b = Some c \<Longrightarrow> unat c = unat a * unat b"
  by (auto simp: checked_mul_def unat_word_ariths split: if_splits)

lemma div_ceil_le: "0 < b \<Longrightarrow> div_ceil a b \<le> a"
proof -
  assume b: "0 < b"
  show ?thesis
  proof (cases "a mod b = 0")
    case False
    then have "a div b < a \<or> b = 1" using b by (cases "a = 0") (auto simp: Suc_le_eq)
    then show ?thesis using False by (auto simp: div_ceil_def)
  qed (simp add: div_ceil_def)
qed

lemma unat_widen [simp]: "unat (ucast (x :: u32) :: u64) = unat x" "unat (ucast (y :: u16) :: u64) = unat y"
  "unat (ucast (y :: u16) :: u32) = unat y"
  by (simp_all add: unsigned_ucast_eq take_bit_nat_eq_self order_less_trans [OF unat_lt])

lemma div_ceil_eq:
  assumes "0 < b"
  shows "div_ceil a b = (a + (b - 1)) div b"
proof -
  obtain q r where a: "a = b * q + r" and r: "r < b"
    using assms by (metis mod_less_divisor mult_div_mod_eq)
  have "(a + (b - 1)) div b = (b * q + (r + (b - 1))) div b" by (simp only: a add.assoc)
  also have "\<dots> = q + (r + (b - 1)) div b" using assms by (subst div_mult_self4) simp_all
  finally have "(a + (b - 1)) div b = q + (r + (b - 1)) div b" .
  moreover have "(r + (b - 1)) div b = (if r = 0 then 0 else 1)"
    using r assms by (auto intro!: div_nat_eqI)
  ultimately show ?thesis using r by (simp add: a div_ceil_def)
qed

lemma validated_super_block:
  assumes "validate_super_block sb = Inr ()"
  shows "super_fields_ok sb" "sb_block_group_count sb = Inr (word_of_nat (group_count sb))"
    "0 < group_count sb" "group_count sb < 2 ^ 32"
    "(group_count sb - 1) * unat (sb_inodes_per_group sb) < unat (sb_inode_count sb)"
    "unat (sb_inode_count sb) \<le> group_count sb * unat (sb_inodes_per_group sb)"
proof -
  let ?groups = "word_of_nat (div_ceil (unat (sb_block_count sb - ucast (sb_first_data_block sb)))
    (unat (sb_blocks_per_group sb))) :: u64"
  from assms obtain cap prior where f: "super_fields_ok sb"
    and cap: "checked_mul ?groups (ucast (sb_inodes_per_group sb)) = Some cap"
    and prior: "checked_mul (saturating_sub ?groups 1) (ucast (sb_inodes_per_group sb)) = Some prior"
    and g: "?groups \<noteq> 0" "?groups \<le> 2 ^ 32 - 1"
      "ucast (sb_inode_count sb) \<le> cap" "ucast (sb_inode_count sb) > prior"
    by (auto simp: validate_super_block_def Let_def rbind_eq_Inr)
  show "super_fields_ok sb" by (rule f)
  have first: "sb_first_data_block sb = 0" and bpg: "0 < unat (sb_blocks_per_group sb)"
    using f by (auto simp: super_fields_ok_def unat_gt_0)
  have gg: "?groups = word_of_nat (group_count sb)" by (simp add: first group_count_def)
  have "group_count sb \<le> unat (sb_block_count sb)" unfolding group_count_def using bpg by (rule div_ceil_le)
  then have "group_count sb < 2 ^ 64" using unat_lt [of "sb_block_count sb"] by simp
  then have n: "unat ?groups = group_count sb" unfolding gg by (subst unat_word_of_nat) simp_all
  show "0 < group_count sb" using g(1) n by (metis bot_nat_0.not_eq_extremum unat_eq_0)
  have "unat ?groups \<le> unat (2 ^ 32 - 1 :: u64)" using g(2) by (simp only: word_le_nat_alt)
  then show "group_count sb < 2 ^ 32" using n by simp
  show "sb_block_group_count sb = Inr (word_of_nat (group_count sb))"
    using bpg by (auto simp: sb_block_group_count_def group_count_def)
  have c: "unat cap = group_count sb * unat (sb_inodes_per_group sb)"
    using unat_checked_mul [OF cap] n by simp
  have p: "unat prior = (group_count sb - 1) * unat (sb_inodes_per_group sb)"
    using unat_checked_mul [OF prior] n by (simp add: unat_saturating_sub)
  show "(group_count sb - 1) * unat (sb_inodes_per_group sb) < unat (sb_inode_count sb)"
    using g(4) p by (simp add: word_less_nat_alt)
  show "unat (sb_inode_count sb) \<le> group_count sb * unat (sb_inodes_per_group sb)"
    using g(3) c by (simp add: word_le_nat_alt)
qed

lemma inode_table_blocks_ok:
  assumes "super_fields_ok sb"
  shows "\<exists>t. inode_table_blocks sb = Inr t \<and> unat t = table_size sb \<and> 0 < table_size sb"
proof -
  let ?n = "unat (sb_inodes_per_group sb)"
  have n: "0 < ?n" "?n \<le> 32768" and sz: "unat (sb_inode_size sb) = 256"
    using assms by (auto simp: super_fields_ok_def BLOCK_SIZE_def SB_GOOD_INODE_SIZE_def unat_gt_0)
  let ?b = "ucast (sb_inodes_per_group sb) * ucast (sb_inode_size sb) :: u64"
  have b: "checked_mul (ucast (sb_inodes_per_group sb)) (ucast (sb_inode_size sb)) = Some ?b"
    using n(2) sz by (simp add: checked_mul_def)
  have ub: "unat ?b = ?n * 256" using unat_checked_mul [OF b] sz by simp
  have c: "checked_add ?b (of_nat BLOCK_SIZE - 1) = Some (?b + (of_nat BLOCK_SIZE - 1))"
    using ub n(2) by (simp add: checked_add_def BLOCK_SIZE_def)
  have uc: "unat (?b + (of_nat BLOCK_SIZE - 1)) = ?n * 256 + 4095"
    using unat_checked_add [OF c] ub by (simp add: BLOCK_SIZE_def)
  have t: "inode_table_blocks sb = Inr ((?b + (of_nat BLOCK_SIZE - 1)) div of_nat BLOCK_SIZE)"
    unfolding inode_table_blocks_def b using c by simp
  have "unat ((?b + (of_nat BLOCK_SIZE - 1)) div of_nat BLOCK_SIZE) = (?n * 256 + 4095) div 4096"
    unfolding unat_div_mod uc by (simp add: BLOCK_SIZE_def)
  moreover have "(?n * 256 + 4095) div 4096 = table_size sb"
    using div_ceil_eq [of 4096 "?n * 256"] by (simp add: table_size_def BLOCK_SIZE_def)
  moreover have "0 < (?n * 256 + 4095) div 4096" using n(1) by arith
  ultimately show ?thesis using t by metis
qed

section \<open>The ranges cover exactly the metadata\<close>

text \<open>The primary metadata of a filesystem, in plain arithmetic: the two bitmaps and the inode table of every
  group, and the superblock copy, the descriptors and the reserved descriptor blocks of the groups that have them.\<close>

definition group_metadata :: "super_block \<Rightarrow> nat \<Rightarrow> block_group_desc \<Rightarrow> PBlockId \<Rightarrow> bool" where
  "group_metadata sb i desc b \<longleftrightarrow>
     b = bg_block_bitmap_block desc \<or> b = bg_inode_bitmap_block desc \<or>
     unat (bg_inode_table_first_block desc) \<le> unat b \<and> unat b < unat (bg_inode_table_first_block desc) + table_size sb \<or>
     super_copy_group sb i \<and> i * unat (sb_blocks_per_group sb) \<le> unat b \<and>
       unat b < i * unat (sb_blocks_per_group sb) + 1 + div_ceil (group_count sb) 64 + unat (sb_reserved_gdt_blocks sb)"

definition metadata_block :: "super_block \<Rightarrow> block_group_desc list \<Rightarrow> PBlockId \<Rightarrow> bool" where
  "metadata_block sb groups b \<longleftrightarrow> (\<exists>i<length groups. group_metadata sb i (groups ! i) b)"

lemma range_from_ok:
  assumes "range_from start count = Inr r"
  shows "fst r = start \<and> unat (snd r) = unat start + unat count"
  using assms by (auto simp: range_from_def rbind_eq_Inr dest: unat_checked_add)

lemma super_range_ok:
  assumes "super_range sb gdt bgid = Inr r" "sb_first_data_block sb = 0"
  shows "unat (fst r) = unat bgid * unat (sb_blocks_per_group sb) \<and>
    unat (snd r) = unat (fst r) + 1 + unat gdt + unat (sb_reserved_gdt_blocks sb)"
proof -
  let ?a = "unat bgid" and ?b = "unat (sb_blocks_per_group sb)"
  have "?a * ?b < 2 ^ 32 * 2 ^ 32" using unat_lt [of bgid] unat_lt [of "sb_blocks_per_group sb"]
    by (intro mult_strict_mono) simp_all
  then have "unat (ucast bgid * ucast (sb_blocks_per_group sb) :: u64) = ?a * ?b"
    by (simp add: unat_word_ariths)
  then show ?thesis using assms
    by (auto simp: super_range_def Let_def rbind_eq_Inr bind_eq_Some_conv dest!: unat_checked_add split: if_splits)
qed

lemma covered_range: "b \<in> covered [r] \<longleftrightarrow> unat (fst r) \<le> unat b \<and> unat b < unat (snd r)"
  by (auto simp: covered_def word_le_nat_alt word_less_nat_alt)

lemma group_ranges_ok:
  assumes "group_ranges sb gdt tb bgid desc = Inr rs" "super_fields_ok sb"
    "unat gdt = div_ceil (group_count sb) 64" "unat tb = table_size sb" "0 < table_size sb"
  shows "(b \<in> covered rs \<longleftrightarrow> group_metadata sb (unat bgid) desc b) \<and> (\<forall>r\<in>set rs. fst r < snd r)"
proof -
  have first: "sb_first_data_block sb = 0" using assms(2) by (simp add: super_fields_ok_def)
  from assms(1) obtain super bb ib tab where rs: "rs = super @ [bb, ib, tab]"
    and super: "(if block_group_has_super sb bgid = Some True
            then rbind (super_range sb gdt bgid) (\<lambda>r. Inr [r]) else Inr []) = Inr super"
    and bb: "range_from (bg_block_bitmap_block desc) 1 = Inr bb"
    and ib: "range_from (bg_inode_bitmap_block desc) 1 = Inr ib"
    and tab: "range_from (bg_inode_table_first_block desc) tb = Inr tab"
    by (auto simp: group_ranges_def rbind_eq_Inr)
  note r = range_from_ok [OF bb] range_from_ok [OF ib] range_from_ok [OF tab]
  have s: "(b \<in> covered super \<longleftrightarrow> super_copy_group sb (unat bgid) \<and> unat bgid * unat (sb_blocks_per_group sb) \<le> unat b \<and>
       unat b < unat bgid * unat (sb_blocks_per_group sb) + 1 + div_ceil (group_count sb) 64 + unat (sb_reserved_gdt_blocks sb)) \<and>
     (\<forall>r\<in>set super. fst r < snd r)"
  proof (cases "super_copy_group sb (unat bgid)")
    case True
    then obtain q where q: "super_range sb gdt bgid = Inr q" "super = [q]"
      using super by (auto simp: has_super_value rbind_eq_Inr)
    show ?thesis using super_range_ok [OF q(1) first] True assms(3)
      by (simp only: q(2) covered_range) (simp add: word_less_nat_alt)
  qed (use super in \<open>simp add: has_super_value\<close>)
  have single: "unat x \<le> unat b \<and> unat b < unat x + 1 \<longleftrightarrow> b = x" for x :: u64
    by (auto simp: unat_inject [symmetric])
  have "b \<in> covered rs \<longleftrightarrow> b \<in> covered super \<or> b \<in> covered [bb] \<or> b \<in> covered [ib] \<or> b \<in> covered [tab]"
    unfolding rs by (auto simp: covered_def)
  then have "b \<in> covered rs \<longleftrightarrow> group_metadata sb (unat bgid) desc b"
    unfolding covered_range group_metadata_def using s r single assms(4) by auto
  moreover have "fst x < snd x" if "x \<in> {bb, ib, tab}" for x
    using that r assms(4,5) by (auto simp: word_less_nat_alt)
  ultimately show ?thesis using s by (auto simp: rs)
qed

lemma groups_ranges_ok:
  assumes "groups_ranges sb gdt tb i groups = Inr rs" "super_fields_ok sb" "i + length groups < 2 ^ 32"
    "unat gdt = div_ceil (group_count sb) 64" "unat tb = table_size sb" "0 < table_size sb"
  shows "(b \<in> covered rs \<longleftrightarrow> (\<exists>j<length groups. group_metadata sb (i + j) (groups ! j) b)) \<and> (\<forall>r\<in>set rs. fst r < snd r)"
  using assms(1,3)
proof (induction groups arbitrary: i rs)
  case Nil
  then show ?case by simp
next
  case (Cons desc groups)
  from Cons.prems(1) obtain r rest where rs: "rs = r @ rest"
    and r: "group_ranges sb gdt tb (word_of_nat i) desc = Inr r"
    and rest: "groups_ranges sb gdt tb (Suc i) groups = Inr rest" by (auto simp: rbind_eq_Inr)
  have u: "unat (word_of_nat i :: u32) = i" using Cons.prems(2) by (simp add: unat_word_of_nat)
  have split: "(\<exists>j<length (desc # groups). group_metadata sb (i + j) ((desc # groups) ! j) b) \<longleftrightarrow>
    group_metadata sb i desc b \<or> (\<exists>j<length groups. group_metadata sb (Suc i + j) (groups ! j) b)"
    by (auto simp: less_Suc_eq_0_disj)
  show ?case
    unfolding split rs covered_simps
    using group_ranges_ok [OF r assms(2,4-6), of b, unfolded u] Cons.IH [OF rest] Cons.prems(2) by auto
qed

text \<open>What the validated descriptors of a mount are: as many as the geometry has groups, each valid.\<close>

lemma read_groups_length: "read_groups ops d sb t bgids = Inr ds \<Longrightarrow> length ds = length bgids"
  by (induction bgids arbitrary: ds) (auto simp: rbind_eq_Inr)

lemma read_groups_nth:
  "read_groups ops d sb t bgids = Inr ds \<Longrightarrow> i < length ds \<Longrightarrow>
   validate_block_group sb (bgids ! i) (ds ! i)
     (has_read_only_compatible_feature sb FEATURE_RO_COMPAT_METADATA_CSUM) t = Inr ()"
proof (induction bgids arbitrary: ds i)
  case (Cons bgid bgids)
  then obtain desc rest where "ds = desc # rest" "read_group ops d sb t bgid = Inr desc"
    "read_groups ops d sb t bgids = Inr rest" by (auto simp: rbind_eq_Inr)
  then show ?case using Cons by (cases i) (auto simp: read_group_def Let_def rbind_eq_Inr split: if_splits)
qed simp

lemma mounted_groups:
  assumes "read_validated_block_groups ops d sb = Inr groups"
  shows "validate_super_block sb = Inr ()" "length groups = group_count sb"
    "\<And>i. i < length groups \<Longrightarrow> \<exists>t. unat t = table_size sb \<and>
       validate_block_group sb (word_of_nat i) (groups ! i)
         (has_read_only_compatible_feature sb FEATURE_RO_COMPAT_METADATA_CSUM) t = Inr ()"
proof -
  from assms obtain n t where v: "validate_super_block sb = Inr ()" and n: "sb_block_group_count sb = Inr n"
    and t: "inode_table_blocks sb = Inr t" and g: "read_groups ops d sb t (map word_of_nat [0..<unat n]) = Inr groups"
    by (auto simp: read_validated_block_groups_def rbind_eq_Inr)
  note geo = validated_super_block [OF v]
  have un: "unat n = group_count sb" using geo(2,4) n by (auto simp: unat_word_of_nat)
  show "validate_super_block sb = Inr ()" by (rule v)
  show len: "length groups = group_count sb" using read_groups_length [OF g] un by simp
  fix i assume i: "i < length groups"
  have "unat t = table_size sb" using inode_table_blocks_ok [OF geo(1)] t by auto
  then show "\<exists>t. unat t = table_size sb \<and> validate_block_group sb (word_of_nat i) (groups ! i)
      (has_read_only_compatible_feature sb FEATURE_RO_COMPAT_METADATA_CSUM) t = Inr ()"
    using read_groups_nth [OF g i] i len un by auto
qed

lemma system_ranges_ok:
  assumes "validate_super_block sb = Inr ()" "length groups = group_count sb"
    "build_system_metadata_ranges sb groups = Inr ranges"
  shows "separated ranges \<and> (\<forall>b. b \<in> covered ranges \<longleftrightarrow> metadata_block sb groups b)"
proof -
  note geo = validated_super_block [OF assms(1)]
  obtain t where t: "inode_table_blocks sb = Inr t" "unat t = table_size sb" "0 < table_size sb"
    using inode_table_blocks_ok [OF geo(1)] by blast
  let ?gdt = "word_of_nat (div_ceil (group_count sb) 64) :: u64"
  have "div_ceil (group_count sb) 64 \<le> group_count sb" by (rule div_ceil_le) simp
  then have gdt: "unat ?gdt = div_ceil (group_count sb) 64" using geo(4) by (simp add: unat_word_of_nat)
  have desc: "unat (sb_desc_size sb) = 64" using geo(1) by (simp add: super_fields_ok_def SB_GOOD_DESC_SIZE_def)
  obtain rs where rs: "groups_ranges sb ?gdt t 0 groups = Inr rs" "ranges = merge_metadata_ranges rs"
    using assms(3) desc geo(2,4) t(1)
    by (auto simp: build_system_metadata_ranges_def Let_def BLOCK_SIZE_def rbind_eq_Inr unat_word_of_nat)
  have "0 + length groups < 2 ^ 32" using geo(4) assms(2) by simp
  note ok = groups_ranges_ok [OF rs(1) geo(1) this gdt t(2,3)]
  show ?thesis using merge_metadata_ranges_spec [of rs] ok rs(2) by (auto simp: metadata_block_def)
qed

section \<open>Data ranges avoid metadata\<close>

lemma overlap_iff_covered:
  assumes "start < ending" "\<forall>r\<in>set rs. fst r < snd r"
  shows "(\<exists>r\<in>set rs. ranges_overlap start ending (fst r) (snd r)) \<longleftrightarrow> (\<exists>b\<in>covered rs. start \<le> b \<and> b < ending)"
proof
  assume "\<exists>r\<in>set rs. ranges_overlap start ending (fst r) (snd r)"
  then obtain r where r: "r \<in> set rs" "start < snd r" "fst r < ending" by (auto simp: ranges_overlap_def)
  have "fst r \<le> max start (fst r) \<and> max start (fst r) < snd r" using r assms(2) by (auto simp: max_def not_le)
  then have "max start (fst r) \<in> covered rs" unfolding covered_def using r(1) by blast
  moreover have "start \<le> max start (fst r) \<and> max start (fst r) < ending" using r assms(1) by (simp add: max_def)
  ultimately have "max start (fst r) \<in> covered rs \<and> start \<le> max start (fst r) \<and> max start (fst r) < ending" by blast
  then show "\<exists>b\<in>covered rs. start \<le> b \<and> b < ending" by blast
next
  assume "\<exists>b\<in>covered rs. start \<le> b \<and> b < ending"
  then obtain b r where "r \<in> set rs" "fst r \<le> b" "b < snd r" "start \<le> b" "b < ending"
    by (auto simp: covered_def)
  then show "\<exists>r\<in>set rs. ranges_overlap start ending (fst r) (snd r)"
    unfolding ranges_overlap_def by (meson order_le_less_trans)
qed

lemma validate_data_blocks_iff:
  assumes "separated ranges" "sb_first_data_block sb = 0"
  shows "validate_data_blocks sb ranges owns start count = Inr () \<longleftrightarrow>
    count \<noteq> 0 \<and> unat start + unat count \<le> unat (sb_block_count sb) \<and> \<not> owns start (start + count) \<and>
    (\<forall>b. unat start \<le> unat b \<longrightarrow> unat b < unat start + unat count \<longrightarrow> b \<notin> covered ranges)"
proof (cases "count = 0 \<or> unat start + unat count \<ge> 2 ^ 64")
  case True
  then have "\<not> (count \<noteq> 0 \<and> unat start + unat count \<le> unat (sb_block_count sb))"
    using unat_lt [of "sb_block_count sb"] by auto
  moreover have "validate_data_blocks sb ranges owns start count \<noteq> Inr ()"
    using True by (auto simp: validate_data_blocks_def checked_add_def rbind_eq_Inr)
  ultimately show ?thesis by blast
next
  case False
  then have ca: "checked_add start count = Some (start + count)" and e: "unat (start + count) = unat start + unat count"
    by (simp_all add: checked_add_def unat_add_lt)
  have lt: "start < start + count" using False e by (simp add: word_less_nat_alt unat_gt_0)
  have proper: "\<forall>r\<in>set ranges. fst r < snd r" using assms(1) by (simp add: separated_def)
  note decide = trans [OF partition_point_decides [OF assms(1) lt] overlap_iff_covered [OF lt proper]]
  have "validate_data_blocks sb ranges owns start count =
     (if count = 0 \<or> start < ucast (sb_first_data_block sb) \<or> start + count > sb_block_count sb then Inl (Err EIO)
      else if \<exists>b\<in>covered ranges. start \<le> b \<and> b < start + count then Inl (Err EIO)
      else guard (\<not> owns start (start + count)) (Err EIO))"
    by (simp only: validate_data_blocks_def ca ok_or.simps rbind.simps Let_def decide)
  then show ?thesis
    using False assms(2) e by (auto simp: word_le_nat_alt word_less_nat_alt)
qed

text \<open>C17: no data range touches metadata. On a filesystem whose superblock and descriptors a mount accepted and
  whose table of metadata ranges it built, \<^verbatim>\<open>validate_data_blocks\<close> accepts a range exactly when it is not
  empty, lies inside the device, is not owned by the journal, and contains no block of a bitmap, of an inode
  table, of a superblock copy, of the group descriptors or of the blocks reserved for them.\<close>

theorem data_ranges_avoid_metadata:
  assumes "read_validated_block_groups ops d sb = Inr groups" "build_system_metadata_ranges sb groups = Inr ranges"
  shows "validate_data_blocks sb ranges owns start count = Inr () \<longleftrightarrow>
    count \<noteq> 0 \<and> unat start + unat count \<le> unat (sb_block_count sb) \<and> \<not> owns start (start + count) \<and>
    (\<forall>b. unat start \<le> unat b \<longrightarrow> unat b < unat start + unat count \<longrightarrow> \<not> metadata_block sb groups b)"
proof -
  note m = mounted_groups [OF assms(1)]
  have "sb_first_data_block sb = 0" using validated_super_block(1) [OF m(1)] by (simp add: super_fields_ok_def)
  then show ?thesis using system_ranges_ok [OF m(1,2) assms(2)] validate_data_blocks_iff by simp
qed

section \<open>Witnesses\<close>

text \<open>A filesystem of one group: 16 blocks, 32 inodes, block bitmap 2, inode bitmap 3, inode table 4 and 5.\<close>

definition w_mount_sb :: super_block where
  "w_mount_sb = w_super\<lparr>sb_inode_count := 32, sb_block_count_lo := 16, sb_log_block_size := 2,
     sb_blocks_per_group := 32768, sb_frags_per_group := 32768, sb_inodes_per_group := 32,
     sb_inode_size := 256, sb_desc_size := 64, sb_free_block_count_lo := 10, sb_free_inode_count := 22\<rparr>"

definition w_mount_desc :: block_group_desc where
  "w_mount_desc = bgd_default\<lparr>bg_block_bitmap_lo := 2, bg_inode_bitmap_lo := 3, bg_inode_table_first_block_lo := 4,
     bg_free_blocks_count_lo := 10, bg_free_inodes_count_lo := 22\<rparr>"

definition w_mount_device :: block_mem where
  "w_mount_device =
     [replicate 1024 0 @ sb_to_bytes w_mount_sb @ replicate 2048 0, bgd_to_bytes w_mount_desc @ replicate 4032 0,
      0x3F # replicate 4095 0, 0xFF # 0x03 # replicate 4094 0] @ replicate 12 (replicate BLOCK_SIZE 0)"

lemma w_mount_fields:
  "sb_block_count w_mount_sb = 16" "sb_free_blocks_count w_mount_sb = 10" "sb_total_reserved_blocks_count w_mount_sb = 0"
  "sb_first_data_block w_mount_sb = 0" "sb_blocks_per_group w_mount_sb = 32768" "sb_inodes_per_group w_mount_sb = 32"
  "sb_frags_per_group w_mount_sb = 32768" "sb_inode_size w_mount_sb = 256" "sb_desc_size w_mount_sb = 64"
  "sb_inode_count w_mount_sb = 32" "sb_free_inode_count w_mount_sb = 22" "sb_reserved_gdt_blocks w_mount_sb = 0"
  "sb_features_read_only w_mount_sb = 0" "sb_features_incompatible w_mount_sb = 0" "sb_features_compatible w_mount_sb = 0"
  "sb_first_inode w_mount_sb = 0" "sb_log_block_size w_mount_sb = 2" "sb_magic w_mount_sb = 0xEF53"
  by (simp_all add: sb_block_count_def sb_free_blocks_count_def sb_total_reserved_blocks_count_def w_mount_sb_def w_super_def)

lemma w_mount_features [simp]:
  "has_read_only_compatible_feature w_mount_sb f = False" "has_compatible_feature w_mount_sb f = False"
  "has_incompatible_feature w_mount_sb f = False"
  by (simp_all add: has_read_only_compatible_feature_def has_compatible_feature_def has_incompatible_feature_def w_mount_fields)

lemma w_mount_addresses:
  "bg_block_bitmap_block w_mount_desc = 2" "bg_inode_bitmap_block w_mount_desc = 3" "bg_inode_table_first_block w_mount_desc = 4"
  by (simp_all add: bg_block_bitmap_block_def bg_inode_bitmap_block_def bg_inode_table_first_block_def w_mount_desc_def bgd_default_def)

lemma w_mount_valid: "validate_super_block w_mount_sb = Inr ()"
proof -
  have "super_fields_ok w_mount_sb"
    by (simp add: super_fields_ok_def w_mount_fields SB_GOOD_INODE_SIZE_def SB_GOOD_DESC_SIZE_def BLOCK_SIZE_def)
  moreover have "sb_check_magic w_mount_sb" by (simp add: sb_check_magic_def w_mount_fields SB_MAGIC_def)
  moreover have "sb_block_size w_mount_sb = Inr 4096" by (simp add: sb_block_size_def w_mount_fields)
  ultimately show ?thesis
    by (simp add: validate_super_block_def BLOCK_SIZE_def w_mount_fields div_ceil_def checked_mul_def
        saturating_sub_def rbind_guard)
qed

lemma w_mount_table: "inode_table_blocks w_mount_sb = Inr 2"
  by (simp add: inode_table_blocks_def w_mount_fields checked_mul_def checked_add_def BLOCK_SIZE_def)

lemma w_mount_groups: "read_validated_block_groups mem_ops w_mount_device w_mount_sb = Inr [w_mount_desc]"
proof -
  have n: "sb_block_group_count w_mount_sb = Inr 1" by (simp add: sb_block_group_count_def w_mount_fields div_ceil_def)
  have "slice (bgd_to_bytes w_mount_desc @ replicate 4032 0) 0 64 = bgd_to_bytes w_mount_desc" by (simp add: slice_def)
  then have r: "block_read_offset (block_new 1 (bgd_to_bytes w_mount_desc @ replicate 4032 0)) 0 SB_GOOD_DESC_SIZE = Inr (bgd_to_bytes w_mount_desc)"
    by (simp add: block_read_offset_def index_range_def block_new_def SB_GOOD_DESC_SIZE_def)
  have b: "read_block mem_ops w_mount_device 1 = Inr (block_new 1 (bgd_to_bytes w_mount_desc @ replicate 4032 0))"
    by (simp add: mem_ops_def mem_read_block_def w_mount_device_def)
  have v: "validate_block_group w_mount_sb 0 w_mount_desc False 2 = Inr ()"
    by (simp add: validate_block_group_def w_mount_addresses w_mount_fields checked_add_def)
  have "read_group mem_ops w_mount_device w_mount_sb 2 0 = Inr w_mount_desc"
    using b r v by (simp add: read_group_def w_mount_fields BLOCK_SIZE_def checked_add_def bgd_bytes_roundtrip word_le_nat_alt)
  then show ?thesis by (simp add: read_validated_block_groups_def w_mount_valid n w_mount_table)
qed

lemma w_mount_ranges: "build_system_metadata_ranges w_mount_sb [w_mount_desc] = Inr [(0, 6)]"
proof -
  have n: "sb_block_group_count w_mount_sb = Inr 1" by (simp add: sb_block_group_count_def w_mount_fields div_ceil_def)
  have "group_ranges w_mount_sb 1 2 0 w_mount_desc = Inr [(0, 2), (2, 3), (3, 4), (4, 6)]"
    by (simp add: group_ranges_def has_super_value super_copy_group_def super_range_def range_from_def w_mount_addresses
        w_mount_fields checked_add_def)
  then show ?thesis
    by (simp add: build_system_metadata_ranges_def n w_mount_table w_mount_fields BLOCK_SIZE_def div_ceil_def Let_def
        merge_metadata_ranges_def less_eq_prod_def max_def)
qed

theorem data_ranges_avoid_metadata_witness:
  "validate_data_blocks w_mount_sb [(0, 6)] (\<lambda>_ _. False) 6 10 = Inr () \<and> \<not> metadata_block w_mount_sb [w_mount_desc] 8"
proof -
  have v: "validate_data_blocks w_mount_sb [(0, 6)] (\<lambda>_ _. False) 6 10 = Inr ()"
    by (simp add: w_mount_fields validate_data_blocks_def checked_add_def partition_point_def)
  have "\<not> metadata_block w_mount_sb [w_mount_desc] 8"
    using data_ranges_avoid_metadata [OF w_mount_groups w_mount_ranges, of "\<lambda>_ _. False" 6 10] v by simp
  then show ?thesis using v by (intro conjI)
qed

section \<open>A corrupt block size\<close>

text \<open>The shift of a superblock whose \<^verbatim>\<open>log_block_size\<close> is out of range is reached before any test of that
  field: with overflow checks the mount panics on such an image instead of returning \<^verbatim>\<open>EIO\<close>.\<close>

lemma corrupt_log_block_size_panics:
  assumes "sb_check_magic sb" "\<not> has_read_only_compatible_feature sb FEATURE_RO_COMPAT_METADATA_CSUM"
    "64 \<le> sb_log_block_size sb"
  shows "validate_super_block sb = Inl Panic"
  using assms by (simp add: validate_super_block_def sb_block_size_def word_le_nat_alt not_less)

end
