(* ===== verification/File_System.thy ===== *)
theory File_System
  imports Mount_Geometry Metadata_Gate Journal_Transaction Inode
begin

text \<open>
  The file system object of \<^verbatim>\<open>src/ext4/mod.rs\<close> with its caches, the reads and writes of metadata of
  \<^verbatim>\<open>src/ext4/rw.rs\<close>, and the mount policy of \<^verbatim>\<open>src/ext4/journal.rs\<close> that needs no extent tree: read-only
  loading, activating a file system without a journal, the clean state at shutdown, and the
  publication of committed blocks to the caches.

  Threads are not modelled here: an operation runs alone, so the mutexes of the caches, the allocation lock and
  the inode locks have no counterpart; the gate between direct writers and transactions is the word of
  \<open>Metadata_Gate\<close>. The statistics counters have no counterpart either.
\<close>

section \<open>The inode cache\<close>

record inode_cache =
  ic_entries :: "(InodeId, inode_ref) btree"
  ic_max_size :: nat

definition cache_new :: "nat \<Rightarrow> inode_cache" where
  "cache_new max_size = \<lparr>ic_entries = [], ic_max_size = max_size\<rparr>"

definition cache_get :: "inode_cache \<Rightarrow> InodeId \<Rightarrow> inode_ref option" where
  "cache_get c i = bt_get (ic_entries c) i"

definition cache_insert :: "inode_ref \<Rightarrow> inode_cache \<Rightarrow> inode_cache" where
  "cache_insert r c =
     (let entries = (if length (ic_entries c) \<ge> ic_max_size c then [] else ic_entries c) in
      c\<lparr>ic_entries := bt_insert (ir_id r) r entries\<rparr>)"

definition cache_invalidate :: "InodeId \<Rightarrow> inode_cache \<Rightarrow> inode_cache" where
  "cache_invalidate i c = c\<lparr>ic_entries := filter (\<lambda>e. fst e \<noteq> i) (ic_entries c)\<rparr>"

definition cache_update :: "inode_ref \<Rightarrow> inode_cache \<Rightarrow> inode_cache" where
  "cache_update r c =
     (if bt_get (ic_entries c) (ir_id r) \<noteq> None
      then c\<lparr>ic_entries := bt_insert (ir_id r) r (ic_entries c)\<rparr> else c)"

definition INODE_CACHE_SIZE :: nat where "INODE_CACHE_SIZE = 512"
definition INODE_MUTATION_LOCK_SHARDS :: nat where "INODE_MUTATION_LOCK_SHARDS = 64"

section \<open>The object\<close>

datatype metadata_mode = ReadOnly | Mutating core

record 'd ext4 =
  fs_device :: 'd
  fs_cached_super_block :: super_block
  fs_cached_block_groups :: "block_group_desc list"
  fs_system_metadata_ranges :: "block_range list"
  fs_inode_cache :: inode_cache
  fs_metadata_gate :: u64
  fs_poisoned :: "ErrCode option"
  fs_metadata_mode :: metadata_mode
  fs_write_barrier :: bool
  fs_direct_restore_clean :: bool

definition inode_mutation_lock_index :: "InodeId \<Rightarrow> nat" where
  "inode_mutation_lock_index i = unat i mod INODE_MUTATION_LOCK_SHARDS"

text \<open>\<^verbatim>\<open>lock_inode_mutations\<close>: the locks taken, in the order in which they are taken.\<close>

definition lock_inode_mutations :: "InodeId list \<Rightarrow> nat list" where
  "lock_inode_mutations ids = remdups_adj (sort (map inode_mutation_lock_index ids))"

definition ensure_mutable :: "('d, 'z) ext4_scheme \<Rightarrow> unit res" where
  "ensure_mutable fs =
     (if fs_metadata_mode fs = ReadOnly then Inl (Err EROFS)
      else case fs_poisoned fs of Some code \<Rightarrow> Inl (Err code) | None \<Rightarrow> Inr ())"

definition fs_poison :: "ErrCode \<Rightarrow> ('d, 'z) ext4_scheme \<Rightarrow> ('d, 'z) ext4_scheme" where
  "fs_poison code fs = (if fs_poisoned fs = None then fs\<lparr>fs_poisoned := Some code\<rparr> else fs)"

definition fail_stop_mutations :: "('d, 'z) ext4_scheme \<Rightarrow> ('d, 'z) ext4_scheme" where
  "fail_stop_mutations fs = fs_poison EIO fs"

definition poison_on_error :: "('d, 'z) ext4_scheme \<Rightarrow> 'a res \<Rightarrow> ('d, 'z) ext4_scheme \<times> 'a res" where
  "poison_on_error fs r = (if is_ok r then fs else fs_poison EIO fs, r)"

definition journal_owns_block_range :: "('d, 'z) ext4_scheme \<Rightarrow> PBlockId \<Rightarrow> PBlockId \<Rightarrow> bool" where
  "journal_owns_block_range fs start ending =
     (case fs_metadata_mode fs of Mutating (Journal j) \<Rightarrow> owns_block_range j start ending | _ \<Rightarrow> False)"

definition fs_validate_data_blocks :: "('d, 'z) ext4_scheme \<Rightarrow> PBlockId \<Rightarrow> u64 \<Rightarrow> unit res" where
  "fs_validate_data_blocks fs start count =
     validate_data_blocks (fs_cached_super_block fs) (fs_system_metadata_ranges fs)
       (journal_owns_block_range fs) start count"

definition lock_direct_metadata_mutation ::
    "('d, 'z) ext4_scheme \<Rightarrow> ('d, 'z) ext4_scheme \<times> metadata_guard res" where
  "lock_direct_metadata_mutation fs =
     (case run_attempt (replicate (COMPATIBLE_CAS_RETRIES + 1) (fs_metadata_gate fs, False))
             (try_direct_begin (fs_metadata_gate fs)) of
        Finished (Inr g) \<Rightarrow> (fs\<lparr>fs_metadata_gate := fs_metadata_gate fs + 1\<rparr>, Inr g)
      | Finished (Inl e) \<Rightarrow> (fs, Inl e)
      | Running _ _ \<Rightarrow> (fs, Inl (Err EAGAIN)))"

definition lock_transactional_metadata_mutation ::
    "('d, 'z) ext4_scheme \<Rightarrow> ('d, 'z) ext4_scheme \<times> metadata_guard res" where
  "lock_transactional_metadata_mutation fs =
     (case try_transactional (fs_metadata_gate fs) of (gate, r) \<Rightarrow> (fs\<lparr>fs_metadata_gate := gate\<rparr>, r))"

text \<open>The end of a scope that holds a guard, on every path.\<close>

definition unlock_metadata_mutation ::
    "metadata_guard \<Rightarrow> ('d, 'z) ext4_scheme \<times> 'a res \<Rightarrow> ('d, 'z) ext4_scheme \<times> 'a res" where
  "unlock_metadata_mutation g m =
     (case m of (fs, r) \<Rightarrow> case guard_drop g (fs_metadata_gate fs) of
        (gate, Inr _) \<Rightarrow> (fs\<lparr>fs_metadata_gate := gate\<rparr>, r)
      | (gate, Inl e) \<Rightarrow> (fs\<lparr>fs_metadata_gate := gate\<rparr>, Inl e))"

section \<open>Reads and writes\<close>

definition fs_read_block :: "('d, 'y) device_ops_scheme \<Rightarrow> ('d, 'z) ext4_scheme \<Rightarrow> PBlockId \<Rightarrow> block res" where
  "fs_read_block ops fs block_id = read_block ops (fs_device fs) block_id"

definition fs_write_block ::
    "('d, 'y) device_ops_scheme \<Rightarrow> ('d, 'z) ext4_scheme \<Rightarrow> block \<Rightarrow> ('d, 'z) ext4_scheme \<times> unit res" where
  "fs_write_block ops fs b = (case write_block ops (fs_device fs) b of (d, r) \<Rightarrow> (fs\<lparr>fs_device := d\<rparr>, r))"

definition flush_device ::
    "('d, 'y) device_ops_scheme \<Rightarrow> ('d, 'z) ext4_scheme \<Rightarrow> ('d, 'z) ext4_scheme \<times> unit res" where
  "flush_device ops fs = (case flush ops (fs_device fs) of (d, r) \<Rightarrow> (fs\<lparr>fs_device := d\<rparr>, r))"

text \<open>Read a block, change it and write it back; the three writers of metadata have this form.\<close>

definition fs_rewrite_block ::
    "('d, 'y) device_ops_scheme \<Rightarrow> ('d, 'z) ext4_scheme \<Rightarrow> PBlockId \<Rightarrow> nat \<Rightarrow> bytes \<Rightarrow>
     ('d, 'z) ext4_scheme \<times> unit res" where
  "fs_rewrite_block ops fs block_id offset bs =
     sbind (fs, fs_read_block ops fs block_id) (\<lambda>fs b.
     sbind (fs, block_write_offset b offset bs) (\<lambda>fs b.
     fs_write_block ops fs b))"

definition write_super_block ::
    "('d, 'y) device_ops_scheme \<Rightarrow> ('d, 'z) ext4_scheme \<Rightarrow> super_block \<Rightarrow> ('d, 'z) ext4_scheme \<times> unit res" where
  "write_super_block ops fs sb =
     sbind (fs_rewrite_block ops fs 0 BASE_OFFSET (sb_to_bytes (sb_set_checksum sb))) (\<lambda>fs _.
     (fs\<lparr>fs_cached_super_block := sb\<rparr>, Inr ()))"

definition read_block_group :: "('d, 'z) ext4_scheme \<Rightarrow> BlockGroupId \<Rightarrow> block_group_ref res" where
  "read_block_group fs bgid =
     (if unat bgid < length (fs_cached_block_groups fs)
      then Inr (bgr_new bgid (fs_cached_block_groups fs ! unat bgid)) else Inl (Err EINVAL))"

text \<open>The block and the offset of a descriptor, computed in \<^verbatim>\<open>u32\<close>.\<close>

definition desc_disk_pos :: "super_block \<Rightarrow> BlockGroupId \<Rightarrow> (PBlockId \<times> nat) res" where
  "desc_disk_pos sb bgid =
     (let desc_size = ucast (sb_desc_size sb) :: u32 in
      if desc_size = 0 then Inl Panic
      else
        let desc_per_block = of_nat BLOCK_SIZE div desc_size in
        if desc_per_block = 0 then Inl Panic
        else
          rbind (add_chk (sb_first_data_block sb) (bgid div desc_per_block)) (\<lambda>b.
          rbind (add_chk b 1) (\<lambda>block_id.
          Inr (ucast block_id, unat (bgid mod desc_per_block * desc_size)))))"

definition write_block_group_without_csum ::
    "('d, 'y) device_ops_scheme \<Rightarrow> ('d, 'z) ext4_scheme \<Rightarrow> block_group_ref \<Rightarrow> ('d, 'z) ext4_scheme \<times> unit res" where
  "write_block_group_without_csum ops fs bg =
     sbind (fs, desc_disk_pos (fs_cached_super_block fs) (bgr_id bg)) (\<lambda>fs (block_id, offset).
     sbind (fs_rewrite_block ops fs block_id offset (bgd_to_bytes (bgr_desc bg))) (\<lambda>fs _.
     (fs\<lparr>fs_cached_block_groups := (fs_cached_block_groups fs)[unat (bgr_id bg) := bgr_desc bg]\<rparr>, Inr ())))"

text \<open>The checksum set in the caller's descriptor is not returned: no caller reads it again.\<close>

definition write_block_group_with_csum ::
    "('d, 'y) device_ops_scheme \<Rightarrow> ('d, 'z) ext4_scheme \<Rightarrow> block_group_ref \<Rightarrow> ('d, 'z) ext4_scheme \<times> unit res" where
  "write_block_group_with_csum ops fs bg =
     write_block_group_without_csum ops fs
       (bgr_set_checksum (metadata_checksum_seed (fs_cached_super_block fs)) bg)"

definition block_group_disk_pos :: "('d, 'z) ext4_scheme \<Rightarrow> BlockGroupId \<Rightarrow> (PBlockId \<times> nat) res" where
  "block_group_disk_pos fs bgid =
     rbind (sb_block_group_count (fs_cached_super_block fs)) (\<lambda>count.
     if bgid \<ge> count then Inl (Err EINVAL) else desc_disk_pos (fs_cached_super_block fs) bgid)"

text \<open>The group and the index of an inode; a zero number or a zero group size panics.\<close>

definition inode_group_index :: "super_block \<Rightarrow> InodeId \<Rightarrow> (BlockGroupId \<times> u32) res" where
  "inode_group_index sb i =
     rbind (sub_chk i 1) (\<lambda>n.
     if sb_inodes_per_group sb = 0 then Inl Panic
     else Inr (n div sb_inodes_per_group sb, n mod sb_inodes_per_group sb))"

definition inode_disk_pos :: "('d, 'z) ext4_scheme \<Rightarrow> InodeId \<Rightarrow> (PBlockId \<times> nat) res" where
  "inode_disk_pos fs i =
     (let sb = fs_cached_super_block fs in
      rbind (inode_group_index sb i) (\<lambda>(bgid, idx).
      rbind (read_block_group fs bgid) (\<lambda>bg.
      let at_byte = unat idx * unat (sb_inode_size sb) in
      rbind (add_chk (bg_inode_table_first_block (bgr_desc bg)) (word_of_nat (at_byte div BLOCK_SIZE))) (\<lambda>block_id.
      Inr (block_id, at_byte mod BLOCK_SIZE)))))"

definition read_inode_uncached ::
    "('d, 'y) device_ops_scheme \<Rightarrow> ('d, 'z) ext4_scheme \<Rightarrow> InodeId \<Rightarrow> inode_ref res" where
  "read_inode_uncached ops fs i =
     rbind (inode_disk_pos fs i) (\<lambda>(block_id, offset).
     rbind (fs_read_block ops fs block_id) (\<lambda>b.
     rbind (block_read_offset b offset 256) (\<lambda>bs.
     rbind (inode_from_bytes bs) (\<lambda>inode. Inr \<lparr>ir_id = i, ir_inode = inode\<rparr>))))"

definition read_inode ::
    "('d, 'y) device_ops_scheme \<Rightarrow> ('d, 'z) ext4_scheme \<Rightarrow> InodeId \<Rightarrow> ('d, 'z) ext4_scheme \<times> inode_ref res" where
  "read_inode ops fs i =
     (case cache_get (fs_inode_cache fs) i of
        Some r \<Rightarrow> (fs, Inr r)
      | None \<Rightarrow> sbind (fs, read_inode_uncached ops fs i) (\<lambda>fs r.
          (fs\<lparr>fs_inode_cache := cache_insert r (fs_inode_cache fs)\<rparr>, Inr r)))"

definition write_inode_without_csum ::
    "('d, 'y) device_ops_scheme \<Rightarrow> ('d, 'z) ext4_scheme \<Rightarrow> inode_ref \<Rightarrow> ('d, 'z) ext4_scheme \<times> unit res" where
  "write_inode_without_csum ops fs r =
     sbind (fs, inode_disk_pos fs (ir_id r)) (\<lambda>fs (block_id, offset).
     sbind (fs_rewrite_block ops fs block_id offset (inode_to_bytes (ir_inode r))) (\<lambda>fs _.
     (fs\<lparr>fs_inode_cache := cache_update r (fs_inode_cache fs)\<rparr>, Inr ())))"

text \<open>The caller's inode gets the checksum, also when the write fails.\<close>

definition write_inode_with_csum ::
    "('d, 'y) device_ops_scheme \<Rightarrow> ('d, 'z) ext4_scheme \<Rightarrow> inode_ref \<Rightarrow>
     (('d, 'z) ext4_scheme \<times> inode_ref) \<times> unit res" where
  "write_inode_with_csum ops fs r =
     (let r = ir_set_checksum (metadata_checksum_seed (fs_cached_super_block fs)) r in
      case write_inode_without_csum ops fs r of (fs, x) \<Rightarrow> ((fs, r), x))"

section \<open>Staging metadata in a transaction\<close>

text \<open>The transaction is the state; \<^verbatim>\<open>transaction_block_for_update\<close> followed by a write into the image.\<close>

definition transaction_block_for_update ::
    "('d, 'y) device_ops_scheme \<Rightarrow> ('d, 'z) ext4_scheme \<Rightarrow> transaction \<Rightarrow> PBlockId \<Rightarrow> (transaction \<times> bytes) res" where
  "transaction_block_for_update ops fs tx block_id = tx_read_for_update ops (fs_device fs) tx block_id"

definition transaction_patch ::
    "('d, 'y) device_ops_scheme \<Rightarrow> ('d, 'z) ext4_scheme \<Rightarrow> transaction \<Rightarrow> PBlockId \<Rightarrow> nat \<Rightarrow> bytes \<Rightarrow>
     transaction \<times> unit res" where
  "transaction_patch ops fs tx block_id offset bs =
     (case transaction_block_for_update ops fs tx block_id of
        Inl e \<Rightarrow> (tx, Inl e)
      | Inr (tx, img) \<Rightarrow>
          sbind (tx, write_range img offset bs) (\<lambda>tx img. (tx_update tx block_id img, Inr ())))"

definition transaction_stage_super_block ::
    "('d, 'y) device_ops_scheme \<Rightarrow> ('d, 'z) ext4_scheme \<Rightarrow> transaction \<Rightarrow> super_block \<Rightarrow> transaction \<times> unit res" where
  "transaction_stage_super_block ops fs tx sb =
     transaction_patch ops fs tx 0 BASE_OFFSET (sb_to_bytes (sb_set_checksum sb))"

definition transaction_read_super_block ::
    "('d, 'y) device_ops_scheme \<Rightarrow> ('d, 'z) ext4_scheme \<Rightarrow> transaction \<Rightarrow> super_block res" where
  "transaction_read_super_block ops fs tx =
     rbind (tx_read ops (fs_device fs) tx 0) (\<lambda>img. sb_from_bytes (drop BASE_OFFSET img))"

definition transaction_read_block_group ::
    "('d, 'y) device_ops_scheme \<Rightarrow> ('d, 'z) ext4_scheme \<Rightarrow> transaction \<Rightarrow> BlockGroupId \<Rightarrow> block_group_ref res" where
  "transaction_read_block_group ops fs tx bgid =
     rbind (block_group_disk_pos fs bgid) (\<lambda>(block_id, offset).
     rbind (tx_read ops (fs_device fs) tx block_id) (\<lambda>img.
     rbind (bgd_from_bytes (drop offset img)) (\<lambda>desc. Inr (bgr_new bgid desc))))"

definition transaction_stage_block_group_with_csum ::
    "('d, 'y) device_ops_scheme \<Rightarrow> ('d, 'z) ext4_scheme \<Rightarrow> transaction \<Rightarrow> block_group_ref \<Rightarrow> transaction \<times> unit res" where
  "transaction_stage_block_group_with_csum ops fs tx bg =
     (let bg = bgr_set_checksum (metadata_checksum_seed (fs_cached_super_block fs)) bg in
      sbind (tx, block_group_disk_pos fs (bgr_id bg)) (\<lambda>tx (block_id, offset).
      transaction_patch ops fs tx block_id offset (bgd_to_bytes (bgr_desc bg))))"

definition transaction_stage_inode_with_csum ::
    "('d, 'y) device_ops_scheme \<Rightarrow> ('d, 'z) ext4_scheme \<Rightarrow> transaction \<Rightarrow> inode_ref \<Rightarrow>
     (transaction \<times> inode_ref) \<times> unit res" where
  "transaction_stage_inode_with_csum ops fs tx r =
     (let r = ir_set_checksum (metadata_checksum_seed (fs_cached_super_block fs)) r in
      case sbind (tx, inode_disk_pos fs (ir_id r)) (\<lambda>tx (block_id, offset).
             transaction_patch ops fs tx block_id offset (inode_to_bytes (ir_inode r))) of
        (tx, x) \<Rightarrow> ((tx, r), x))"

section \<open>Loading\<close>

definition fs_load :: "('d, 'y) device_ops_scheme \<Rightarrow> 'd \<Rightarrow> 'd ext4 res" where
  "fs_load ops d =
     rbind (read_block ops d 0) (\<lambda>b.
     rbind (block_read_offset b BASE_OFFSET 1024) (\<lambda>bs.
     rbind (sb_from_bytes bs) (\<lambda>sb.
     rbind (read_validated_block_groups ops d sb) (\<lambda>groups.
     rbind (build_system_metadata_ranges sb groups) (\<lambda>ranges.
     Inr \<lparr>fs_device = d, fs_cached_super_block = sb, fs_cached_block_groups = groups,
          fs_system_metadata_ranges = ranges, fs_inode_cache = cache_new INODE_CACHE_SIZE,
          fs_metadata_gate = gate_new, fs_poisoned = None, fs_metadata_mode = ReadOnly,
          fs_write_barrier = True, fs_direct_restore_clean = False\<rparr>)))))"

definition load_read_only_checked :: "('d, 'y) device_ops_scheme \<Rightarrow> 'd \<Rightarrow> 'd ext4 res" where
  "load_read_only_checked ops d =
     rbind (fs_load ops d) (\<lambda>fs.
     let sb = fs_cached_super_block fs in
     if sb_last_orphan sb \<noteq> 0 \<or> has_read_only_compatible_feature sb FEATURE_RO_COMPAT_ORPHAN_PRESENT \<or>
        has_incompatible_feature sb FEATURE_INCOMPAT_RECOVER
     then Inl (Err EROFS) else Inr fs)"

section \<open>Direct mounts\<close>

definition initialize_direct :: "('d, 'z) ext4_scheme \<Rightarrow> ('d, 'z) ext4_scheme \<times> unit res" where
  "initialize_direct fs =
     (if fs_metadata_mode fs \<noteq> ReadOnly then (fs, Inl (Err EINVAL))
      else case direct_core_new (sb_block_count (fs_cached_super_block fs)) of
        Inl e \<Rightarrow> (fs, Inl e)
      | Inr c \<Rightarrow> (fs\<lparr>fs_metadata_mode := Mutating (Direct c)\<rparr>, Inr ()))"

definition flush_if_barrier ::
    "('d, 'y) device_ops_scheme \<Rightarrow> ('d, 'z) ext4_scheme \<Rightarrow> ('d, 'z) ext4_scheme \<times> unit res" where
  "flush_if_barrier ops fs = (if fs_write_barrier fs then flush_device ops fs else (fs, Inr ()))"

definition mark_direct_mount_dirty ::
    "('d, 'y) device_ops_scheme \<Rightarrow> ('d, 'z) ext4_scheme \<Rightarrow> ('d, 'z) ext4_scheme \<times> unit res" where
  "mark_direct_mount_dirty ops fs =
     (if fs_write_barrier fs \<and> \<not> supports_reliable_flush ops (fs_device fs) then (fs, Inl (Err ENOTSUP))
      else
        let sb = fs_cached_super_block fs; fs = fs\<lparr>fs_direct_restore_clean := sb_is_clean sb\<rparr> in
        sbind (write_super_block ops fs (sb_set_clean sb False)) (\<lambda>fs _. flush_if_barrier ops fs))"

definition uses_journal :: "('d, 'z) ext4_scheme \<Rightarrow> bool" where
  "uses_journal fs = (case fs_metadata_mode fs of Mutating (Journal _) \<Rightarrow> True | _ \<Rightarrow> False)"

definition supports_direct_range_stage :: "('d, 'y) device_ops_scheme \<Rightarrow> ('d, 'z) ext4_scheme \<Rightarrow> bool" where
  "supports_direct_range_stage ops fs =
     ((case fs_metadata_mode fs of Mutating (Direct _) \<Rightarrow> True | _ \<Rightarrow> False) \<and>
      supports_reliable_flush ops (fs_device fs))"

definition shutdown_direct ::
    "('d, 'y) device_ops_scheme \<Rightarrow> direct_core \<Rightarrow> ('d, 'z) ext4_scheme \<Rightarrow> ('d, 'z) ext4_scheme \<times> unit res" where
  "shutdown_direct ops c fs =
     (if \<not> can_shutdown (Direct c) \<or> fs_poisoned fs \<noteq> None then (fs, Inl (Err EIO))
      else sbind (flush_if_barrier ops fs) (\<lambda>fs _.
        if fs_direct_restore_clean fs then
          sbind (write_super_block ops fs (sb_set_clean (fs_cached_super_block fs) True)) (\<lambda>fs _.
          flush_if_barrier ops fs)
        else (fs, Inr ())))"

definition shutdown_journal ::
    "('d, 'y) device_ops_scheme \<Rightarrow> journal_core \<Rightarrow> ('d, 'z) ext4_scheme \<Rightarrow> ('d, 'z) ext4_scheme \<times> unit res" where
  "shutdown_journal ops c fs =
     (if \<not> can_shutdown (Journal c) then (fs, Inl (Err EIO))
      else sbind (write_super_block ops fs
             (set_incompatible_feature (fs_cached_super_block fs) FEATURE_INCOMPAT_RECOVER False)) (\<lambda>fs _.
           flush_device ops fs))"

definition shutdown_writable ::
    "('d, 'y) device_ops_scheme \<Rightarrow> ('d, 'z) ext4_scheme \<Rightarrow> ('d, 'z) ext4_scheme \<times> unit res" where
  "shutdown_writable ops fs =
     sbind (lock_transactional_metadata_mutation fs) (\<lambda>fs g.
     unlock_metadata_mutation g (case fs_metadata_mode fs of
       ReadOnly \<Rightarrow> (fs, Inl (Err EROFS))
     | Mutating (Direct c) \<Rightarrow> shutdown_direct ops c fs
     | Mutating (Journal c) \<Rightarrow> shutdown_journal ops c fs))"

section \<open>Transactions of the file system\<close>

text \<open>The transaction carries the core while it is alive; the mode shows the core with its writer token taken.\<close>

definition with_core :: "('d, 'z) ext4_scheme \<Rightarrow> core \<times> 'a res \<Rightarrow> ('d, 'z) ext4_scheme \<times> 'a res" where
  "with_core fs m = (case m of (c, r) \<Rightarrow> (fs\<lparr>fs_metadata_mode := Mutating c\<rparr>, r))"

definition fs_transaction_start :: "('d, 'z) ext4_scheme \<Rightarrow> nat \<Rightarrow> ('d, 'z) ext4_scheme \<times> transaction res" where
  "fs_transaction_start fs credits = (case fs_metadata_mode fs of
     ReadOnly \<Rightarrow> (fs, Inl (Err EROFS))
   | Mutating c \<Rightarrow> with_core fs (transaction_start c credits))"

definition transaction_start_direct_range ::
    "('d, 'z) ext4_scheme \<Rightarrow> nat \<Rightarrow> ('d, 'z) ext4_scheme \<times> transaction res" where
  "transaction_start_direct_range fs credits = (case fs_metadata_mode fs of
     Mutating (Direct c) \<Rightarrow> with_core fs (start_direct c credits True)
   | ReadOnly \<Rightarrow> (fs, Inl (Err EROFS))
   | Mutating (Journal _) \<Rightarrow> (fs, Inl (Err ENOTSUP)))"

text \<open>\<^verbatim>\<open>CachePublisher::publish\<close>. The images are of type \<^verbatim>\<open>[u8; BLOCK_SIZE]\<close>, so decoding them does not fail;
  the positions are those of validated descriptors.\<close>

definition publish_super_block ::
    "('d, 'z) ext4_scheme \<Rightarrow> (PBlockId, staged_block) btree \<Rightarrow> ('d, 'z) ext4_scheme" where
  "publish_super_block fs staged = (case bt_get staged 0 of
     None \<Rightarrow> fs
   | Some s \<Rightarrow> (case sb_from_bytes (drop BASE_OFFSET (st_image s)) of
       Inl _ \<Rightarrow> fs
     | Inr sb \<Rightarrow> fs\<lparr>fs_cached_super_block := sb\<rparr>))"

definition publish_desc ::
    "super_block \<Rightarrow> (PBlockId, staged_block) btree \<Rightarrow> nat \<Rightarrow> block_group_desc \<Rightarrow> block_group_desc" where
  "publish_desc sb staged i desc = (case desc_disk_pos sb (word_of_nat i) of
     Inl _ \<Rightarrow> desc
   | Inr (block_id, offset) \<Rightarrow> (case bt_get staged block_id of
       None \<Rightarrow> desc
     | Some s \<Rightarrow> (case bgd_from_bytes (drop offset (st_image s)) of Inl _ \<Rightarrow> desc | Inr d \<Rightarrow> d)))"

definition fs_publish ::
    "('d, 'z) ext4_scheme \<Rightarrow> (PBlockId, staged_block) btree \<Rightarrow> ('d, 'z) ext4_scheme" where
  "fs_publish fs staged =
     (let fs = publish_super_block fs staged;
          sb = fs_cached_super_block fs;
          fs = fs\<lparr>fs_cached_block_groups :=
            map (\<lambda>(i, desc). publish_desc sb staged i desc) (enumerate 0 (fs_cached_block_groups fs))\<rparr>;
          keep = (\<lambda>(i, r). case inode_disk_pos fs i of Inr (b, _) \<Rightarrow> bt_get staged b = None | Inl _ \<Rightarrow> False) in
      fs\<lparr>fs_inode_cache := (fs_inode_cache fs)\<lparr>ic_entries := filter keep (ic_entries (fs_inode_cache fs))\<rparr>\<rparr>)"

definition fs_commit ::
    "('d, 'y) device_ops_scheme \<Rightarrow> ('d, 'z) ext4_scheme \<Rightarrow> transaction \<Rightarrow>
     ('d, 'z) ext4_scheme \<times> (commit_fault + unit)" where
  "fs_commit ops fs tx =
     (case tx_commit ops fs_publish (fs_device fs) fs tx of
        (d, c, fs, r) \<Rightarrow> (fs\<lparr>fs_device := d, fs_metadata_mode := Mutating c\<rparr>, r))"

end
