(* ===== verification/Allocation.thy ===== *)
theory Allocation
  imports File_System Bitmap
begin

text \<open>
  The allocator of blocks and inodes, \<^verbatim>\<open>src/ext4/alloc.rs\<close>: the operations that write the bitmap, the
  group descriptor and the superblock directly, with their restoration after a failed write.
  The statistics counters and \<^verbatim>\<open>alloc_lock\<close> have no counterpart. Freeing a whole inode, the reclaim of
  orphans and the root directory need the extent tree and are not modelled.
\<close>

section \<open>Geometry\<close>

text \<open>The product and sum fit in 64 bits, as the operands are 32 bits wide.\<close>

definition block_group_first_block :: "super_block \<Rightarrow> BlockGroupId \<Rightarrow> PBlockId" where
  "block_group_first_block sb bgid =
     ucast (sb_first_data_block sb) + ucast bgid * ucast (sb_blocks_per_group sb)"

definition block_group_block_count :: "super_block \<Rightarrow> BlockGroupId \<Rightarrow> nat" where
  "block_group_block_count sb bgid =
     (let first = block_group_first_block sb bgid; total = sb_block_count sb in
      if first \<ge> total then 0 else unat (min (ucast (sb_blocks_per_group sb)) (total - first)))"

definition extent_tail_batch_limit :: "PBlockId \<Rightarrow> PBlockId \<Rightarrow> PBlockId \<Rightarrow> u32 \<Rightarrow> u32 option" where
  "extent_tail_batch_limit first_data_block blocks_per_group start count =
     (if blocks_per_group = 0 \<or> count = 0 \<or> start < first_data_block then None
      else do {
        ending \<leftarrow> checked_add start (ucast count);
        last_block \<leftarrow> checked_sub ending 1;
        let in_last_group = (last_block - first_data_block) mod blocks_per_group + 1;
        Some (min count (ucast in_last_group)) })"

definition linked_orphan_tail_remove_limit :: "u64 \<Rightarrow> u32 \<Rightarrow> u32 \<Rightarrow> u32 \<Rightarrow> u32 option" where
  "linked_orphan_tail_remove_limit keep_blocks tail_start tail_blocks group_limit =
     (let tail_end = ucast tail_start + ucast tail_blocks in
      if tail_end \<le> keep_blocks then None
      else
        let beyond_eof = tail_end - max keep_blocks (ucast tail_start) in
        Some (min group_limit (ucast (min beyond_eof (2 ^ 32 - 1)))))"

section \<open>Restoration\<close>

definition restore_allocation_state ::
    "('d, 'y) device_ops_scheme \<Rightarrow> block \<Rightarrow> block_group_ref \<Rightarrow> super_block \<Rightarrow> ('d, 'z) ext4_scheme \<Rightarrow>
     ('d, 'z) ext4_scheme \<times> unit res" where
  "restore_allocation_state ops bitmap_block bg sb fs =
     sbind (fs_write_block ops fs bitmap_block) (\<lambda>fs _.
     sbind (write_block_group_with_csum ops fs (bgr_new (bgr_id bg) (bgr_desc bg))) (\<lambda>fs _.
     write_super_block ops fs sb))"

text \<open>The block allocator returns the error of a failed restoration, the inode allocator poisons the
  filesystem and returns the first error. A panic is not caught.\<close>

definition or_restore_blocks ::
    "('d, 'y) device_ops_scheme \<Rightarrow> block \<Rightarrow> block_group_ref \<Rightarrow> super_block \<Rightarrow>
     ('d, 'z) ext4_scheme \<times> unit res \<Rightarrow> ('d, 'z) ext4_scheme \<times> unit res" where
  "or_restore_blocks ops old_bitmap old_bg old_sb m = (case m of
     (fs, Inl (Err err)) \<Rightarrow>
       (case restore_allocation_state ops old_bitmap old_bg old_sb fs of
          (fs, Inr _) \<Rightarrow> (fs, Inl (Err err))
        | (fs, Inl rollback_err) \<Rightarrow> (fs, Inl rollback_err))
   | _ \<Rightarrow> m)"

definition or_restore_inodes ::
    "('d, 'y) device_ops_scheme \<Rightarrow> block \<Rightarrow> block_group_ref \<Rightarrow> super_block \<Rightarrow>
     ('d, 'z) ext4_scheme \<times> unit res \<Rightarrow> ('d, 'z) ext4_scheme \<times> unit res" where
  "or_restore_inodes ops old_bitmap old_bg old_sb m = (case m of
     (fs, Inl (Err err)) \<Rightarrow>
       (case restore_allocation_state ops old_bitmap old_bg old_sb fs of
          (fs, Inr _) \<Rightarrow> (fs, Inl (Err err))
        | (fs, Inl (Err _)) \<Rightarrow> (fs_poison EIO fs, Inl (Err err))
        | (fs, Inl Panic) \<Rightarrow> (fs, Inl Panic))
   | _ \<Rightarrow> m)"

section \<open>Bitmap blocks\<close>

text \<open>\<^verbatim>\<open>Bitmap::new\<close> over the first bits of a block, one operation on it, and the block with the bytes changed.\<close>

definition find_and_set_in_block :: "block \<Rightarrow> nat \<Rightarrow> (nat option \<times> block) res" where
  "find_and_set_in_block b nbits =
     rbind (bitmap_new (blk_data b) nbits) (\<lambda>bm.
     rbind (find_and_set_first_clear_bit bm 0 nbits) (\<lambda>(r, bm).
     Inr (r, b\<lparr>blk_data := splice (blk_data b) 0 bm\<rparr>)))"

text \<open>Clearing a bit that must be set.\<close>

definition clear_in_block :: "block \<Rightarrow> nat \<Rightarrow> nat \<Rightarrow> block res" where
  "clear_in_block b nbits i =
     rbind (bitmap_new (blk_data b) nbits) (\<lambda>bm.
     rbind (is_bit_clear bm i) (\<lambda>is_clear.
     if is_clear then Inl (Err EINVAL)
     else rbind (bitmap_clear_bit bm i) (\<lambda>bm. Inr (b\<lparr>blk_data := splice (blk_data b) 0 bm\<rparr>))))"

section \<open>Blocks\<close>

text \<open>The rest of an allocation or a release once the bitmap block \<open>new\<close> is made: its checksum in the
  descriptor, the write of the bitmap, the counter of the group and the counter of the superblock.\<close>

definition update_block_counts ::
    "('d, 'y) device_ops_scheme \<Rightarrow> ('d, 'z) ext4_scheme \<Rightarrow> super_block \<Rightarrow> block_group_ref \<Rightarrow> block \<Rightarrow> block \<Rightarrow>
     (u64 \<Rightarrow> u64 res) \<Rightarrow> ('d, 'z) ext4_scheme \<times> unit res" where
  "update_block_counts ops fs sb bg old new count =
     (case update_block_bitmap_csum (bgr_desc bg) (metadata_checksum_seed sb) (blk_data new)
             (unat (sb_frags_per_group sb) div 8) of
        (desc, False) \<Rightarrow> (fs, Inl (Err EIO))
      | (desc, True) \<Rightarrow>
          sbind (fs_write_block ops fs new) (\<lambda>fs _.
          sbind (fs, count (bg_get_free_blocks_count desc)) (\<lambda>fs n.
          sbind (or_restore_blocks ops old bg sb
                   (write_block_group_with_csum ops fs (bgr_new (bgr_id bg) (bg_set_free_blocks_count n desc)))) (\<lambda>fs _.
          sbind (fs, count (sb_free_blocks_count sb)) (\<lambda>fs n.
          or_restore_blocks ops old bg sb (write_super_block ops fs (sb_set_free_blocks_count n sb)))))))"

text \<open>One group of the search; \<open>None\<close> continues with the next group.\<close>

definition alloc_block_in_group ::
    "('d, 'y) device_ops_scheme \<Rightarrow> ('d, 'z) ext4_scheme \<Rightarrow> super_block \<Rightarrow> BlockGroupId \<Rightarrow>
     ('d, 'z) ext4_scheme \<times> PBlockId option res" where
  "alloc_block_in_group ops fs sb bgid =
     (let blocks_in_group = block_group_block_count sb bgid in
      if blocks_in_group = 0 then (fs, Inr None)
      else
        sbind (fs, read_block_group fs bgid) (\<lambda>fs bg.
        if bg_get_free_blocks_count (bgr_desc bg) = 0 then (fs, Inr None)
        else
          sbind (fs, fs_read_block ops fs (bg_block_bitmap_block (bgr_desc bg))) (\<lambda>fs old.
          sbind (fs, find_and_set_in_block old blocks_in_group) (\<lambda>fs (r, new).
          case r of
            None \<Rightarrow> (fs, Inr None)
          | Some i \<Rightarrow>
              sbind (fs, add_chk (block_group_first_block sb bgid) (word_of_nat i)) (\<lambda>fs fblock.
              sbind (update_block_counts ops fs sb bg old new (\<lambda>n. sub_chk n 1)) (\<lambda>fs _.
              (fs, Inr (Some fblock))))))))"

fun alloc_block_search ::
    "('d, 'y) device_ops_scheme \<Rightarrow> ('d, 'z) ext4_scheme \<Rightarrow> super_block \<Rightarrow> u32 \<Rightarrow> u32 \<Rightarrow> nat list \<Rightarrow>
     ('d, 'z) ext4_scheme \<times> PBlockId res" where
  "alloc_block_search ops fs sb preferred bg_count [] = (fs, Inl (Err ENOSPC))"
| "alloc_block_search ops fs sb preferred bg_count (i # is) =
     sbind (fs, add_chk preferred (word_of_nat i)) (\<lambda>fs n.
     sbind (alloc_block_in_group ops fs sb (n mod bg_count)) (\<lambda>fs r.
     case r of
       Some fblock \<Rightarrow> (fs, Inr fblock)
     | None \<Rightarrow> alloc_block_search ops fs sb preferred bg_count is))"

definition alloc_block ::
    "('d, 'y) device_ops_scheme \<Rightarrow> ('d, 'z) ext4_scheme \<Rightarrow> InodeId \<Rightarrow> ('d, 'z) ext4_scheme \<times> PBlockId res" where
  "alloc_block ops fs inode_id =
     (let sb = fs_cached_super_block fs in
      sbind (fs, inode_group_index sb inode_id) (\<lambda>fs (preferred, _).
      sbind (fs, sb_block_group_count sb) (\<lambda>fs bg_count.
      alloc_block_search ops fs sb preferred bg_count [0..<unat bg_count])))"

definition dealloc_block ::
    "('d, 'y) device_ops_scheme \<Rightarrow> ('d, 'z) ext4_scheme \<Rightarrow> PBlockId \<Rightarrow> ('d, 'z) ext4_scheme \<times> unit res" where
  "dealloc_block ops fs pblock =
     (let sb = fs_cached_super_block fs in
      if pblock \<ge> sb_block_count sb \<or> pblock < ucast (sb_first_data_block sb) then (fs, Inl (Err EINVAL))
      else if sb_blocks_per_group sb = 0 then (fs, Inl Panic)
      else
        let bgid = ucast ((pblock - ucast (sb_first_data_block sb)) div ucast (sb_blocks_per_group sb)) in
        sbind (fs, sub_chk pblock (block_group_first_block sb bgid)) (\<lambda>fs i.
        let blocks_in_group = block_group_block_count sb bgid in
        if unat i \<ge> blocks_in_group then (fs, Inl (Err EINVAL))
        else
          sbind (fs, read_block_group fs bgid) (\<lambda>fs bg.
          sbind (fs, fs_read_block ops fs (bg_block_bitmap_block (bgr_desc bg))) (\<lambda>fs old.
          sbind (fs, clear_in_block old blocks_in_group (unat i)) (\<lambda>fs new.
          update_block_counts ops fs sb bg old new (\<lambda>n. add_chk n 1))))))"

definition alloc_initialized_data_block ::
    "('d, 'y) device_ops_scheme \<Rightarrow> ('d, 'z) ext4_scheme \<Rightarrow> InodeId \<Rightarrow> bytes \<Rightarrow> ('d, 'z) ext4_scheme \<times> PBlockId res" where
  "alloc_initialized_data_block ops fs inode_id img =
     sbind (alloc_block ops fs inode_id) (\<lambda>fs pblock.
     case fs_write_block ops fs (block_new pblock img) of
       (fs, Inr _) \<Rightarrow> (fs, Inr pblock)
     | (fs, Inl Panic) \<Rightarrow> (fs, Inl Panic)
     | (fs, Inl (Err init_error)) \<Rightarrow>
         (case dealloc_block ops fs pblock of
            (fs, Inr _) \<Rightarrow> (fs, Inl (Err init_error))
          | (fs, Inl Panic) \<Rightarrow> (fs, Inl Panic)
          | (fs, Inl (Err rollback_error)) \<Rightarrow> (fs_poison EIO fs, Inl (Err rollback_error))))"

definition alloc_zeroed_data_block ::
    "('d, 'y) device_ops_scheme \<Rightarrow> ('d, 'z) ext4_scheme \<Rightarrow> InodeId \<Rightarrow> ('d, 'z) ext4_scheme \<times> PBlockId res" where
  "alloc_zeroed_data_block ops fs inode_id = alloc_initialized_data_block ops fs inode_id (replicate BLOCK_SIZE 0)"

section \<open>Inodes\<close>

text \<open>\<open>adjust\<close> is what an allocation or release does to the counters of the group.\<close>

definition update_inode_counts ::
    "('d, 'y) device_ops_scheme \<Rightarrow> ('d, 'z) ext4_scheme \<Rightarrow> super_block \<Rightarrow> block_group_ref \<Rightarrow> block \<Rightarrow> block \<Rightarrow>
     (block_group_desc \<Rightarrow> block_group_desc res) \<Rightarrow> (u32 \<Rightarrow> u32 res) \<Rightarrow> ('d, 'z) ext4_scheme \<times> unit res" where
  "update_inode_counts ops fs sb bg old new adjust count =
     (case update_inode_bitmap_csum (bgr_desc bg) (metadata_checksum_seed sb) (blk_data new)
             (unat (sb_inodes_per_group sb) div 8) of
        (desc, False) \<Rightarrow> (fs, Inl (Err EIO))
      | (desc, True) \<Rightarrow>
          sbind (fs_write_block ops fs new) (\<lambda>fs _.
          sbind (fs, adjust desc) (\<lambda>fs desc.
          sbind (or_restore_inodes ops old bg sb
                   (write_block_group_with_csum ops fs (bgr_new (bgr_id bg) desc))) (\<lambda>fs _.
          sbind (fs, count (sb_free_inode_count sb)) (\<lambda>fs n.
          or_restore_inodes ops old bg sb (write_super_block ops fs (sb_set_free_inodes_count sb n)))))))"

definition adjust_alloc_inode :: "bool \<Rightarrow> nat \<Rightarrow> nat \<Rightarrow> block_group_desc \<Rightarrow> block_group_desc res" where
  "adjust_alloc_inode is_dir inode_count idx desc =
     rbind (sub_chk (bg_free_inodes_count desc) 1) (\<lambda>n.
     let desc = bg_set_free_inodes_count n desc in
     rbind (if is_dir then rbind (add_chk (bg_used_dirs_count desc) 1) (\<lambda>n. Inr (bg_set_used_dirs_count n desc))
            else Inr desc) (\<lambda>desc.
     rbind (sub_chk (word_of_nat inode_count) (bg_itable_unused desc)) (\<lambda>free.
     if word_of_nat idx \<ge> free
     then rbind (sub_chk (word_of_nat inode_count) (word_of_nat idx + 1)) (\<lambda>unused. Inr (bg_set_itable_unused unused desc))
     else Inr desc)))"

definition adjust_dealloc_inode :: "bool \<Rightarrow> block_group_desc \<Rightarrow> block_group_desc res" where
  "adjust_dealloc_inode is_dir desc =
     rbind (add_chk (bg_free_inodes_count desc) 1) (\<lambda>n.
     let desc = bg_set_free_inodes_count n desc in
     rbind (if is_dir then rbind (sub_chk (bg_used_dirs_count desc) 1) (\<lambda>n. Inr (bg_set_used_dirs_count n desc))
            else Inr desc) (\<lambda>desc.
     rbind (add_chk (bg_itable_unused desc) 1) (\<lambda>n. Inr (bg_set_itable_unused n desc))))"

definition alloc_inode_in_group ::
    "('d, 'y) device_ops_scheme \<Rightarrow> ('d, 'z) ext4_scheme \<Rightarrow> super_block \<Rightarrow> bool \<Rightarrow> BlockGroupId \<Rightarrow> block_group_ref \<Rightarrow>
     ('d, 'z) ext4_scheme \<times> InodeId res" where
  "alloc_inode_in_group ops fs sb is_dir bgid bg =
     sbind (fs, fs_read_block ops fs (bg_inode_bitmap_block (bgr_desc bg))) (\<lambda>fs old.
     sbind (fs, sb_inode_count_in_group sb bgid) (\<lambda>fs inode_count.
     sbind (fs, find_and_set_in_block old (unat inode_count)) (\<lambda>fs (r, new).
     case r of
       None \<Rightarrow> (fs, Inl (Err ENOSPC))
     | Some idx \<Rightarrow>
         sbind (update_inode_counts ops fs sb bg old new
                  (adjust_alloc_inode is_dir (unat inode_count) idx) (\<lambda>n. sub_chk n 1)) (\<lambda>fs _.
         sbind (fs, case checked_mul bgid (sb_inodes_per_group sb) of None \<Rightarrow> Inl Panic
                    | Some base \<Rightarrow> add_chk base (word_of_nat idx + 1)) (\<lambda>fs inode_id.
         (fs, Inr inode_id))))))"

fun alloc_inode_search ::
    "('d, 'y) device_ops_scheme \<Rightarrow> ('d, 'z) ext4_scheme \<Rightarrow> super_block \<Rightarrow> bool \<Rightarrow> BlockGroupId list \<Rightarrow>
     ('d, 'z) ext4_scheme \<times> InodeId res" where
  "alloc_inode_search ops fs sb is_dir [] = (fs, Inl (Err ENOSPC))"
| "alloc_inode_search ops fs sb is_dir (bgid # bgids) =
     sbind (fs, read_block_group fs bgid) (\<lambda>fs bg.
     if bg_free_inodes_count (bgr_desc bg) = 0 then alloc_inode_search ops fs sb is_dir bgids
     else alloc_inode_in_group ops fs sb is_dir bgid bg)"

definition alloc_inode ::
    "('d, 'y) device_ops_scheme \<Rightarrow> ('d, 'z) ext4_scheme \<Rightarrow> bool \<Rightarrow> ('d, 'z) ext4_scheme \<times> InodeId res" where
  "alloc_inode ops fs is_dir =
     (let sb = fs_cached_super_block fs in
      sbind (fs, sb_block_group_count sb) (\<lambda>fs bg_count.
      alloc_inode_search ops fs sb is_dir (map word_of_nat [0..<unat bg_count])))"

text \<open>The slot is rewritten by a default inode of the same generation; the caller's inode becomes that one.\<close>

definition dealloc_inode ::
    "('d, 'y) device_ops_scheme \<Rightarrow> ('d, 'z) ext4_scheme \<Rightarrow> inode_ref \<Rightarrow> ('d, 'z) ext4_scheme \<times> unit res" where
  "dealloc_inode ops fs r =
     (let sb = fs_cached_super_block fs in
      sbind (fs, inode_group_index sb (ir_id r)) (\<lambda>fs (bgid, idx).
      sbind (fs, read_block_group fs bgid) (\<lambda>fs bg.
      sbind (fs, fs_read_block ops fs (bg_inode_bitmap_block (bgr_desc bg))) (\<lambda>fs old.
      sbind (fs, sb_inode_count_in_group sb bgid) (\<lambda>fs inode_count.
      sbind (fs, clear_in_block old (unat inode_count) (unat idx)) (\<lambda>fs new.
      sbind (update_inode_counts ops fs sb bg old new
               (adjust_dealloc_inode (inode_is_dir (ir_inode r))) (\<lambda>n. add_chk n 1)) (\<lambda>fs _.
      let cleared = r\<lparr>ir_inode := inode_default\<lparr>i_generation := i_generation (ir_inode r)\<rparr>\<rparr> in
      case write_inode_with_csum ops fs cleared of ((fs, _), x) \<Rightarrow> (fs, x))))))))"

definition inode_is_allocated ::
    "('d, 'y) device_ops_scheme \<Rightarrow> ('d, 'z) ext4_scheme \<Rightarrow> InodeId \<Rightarrow> bool res" where
  "inode_is_allocated ops fs i =
     (let sb = fs_cached_super_block fs in
      if i = 0 \<or> i > sb_inode_count sb then Inl (Err EINVAL)
      else
        rbind (inode_group_index sb i) (\<lambda>(bgid, idx).
        rbind (sb_block_group_count sb) (\<lambda>bg_count.
        if bgid \<ge> bg_count then Inl (Err EINVAL)
        else
          rbind (read_block_group fs bgid) (\<lambda>bg.
          rbind (fs_read_block ops fs (bg_inode_bitmap_block (bgr_desc bg))) (\<lambda>b.
          rbind (sb_inode_count_in_group sb bgid) (\<lambda>inode_count.
          if idx \<ge> inode_count then Inl (Err EINVAL)
          else
            rbind (bitmap_new (blk_data b) (unat inode_count)) (\<lambda>bm.
            rbind (is_bit_clear bm (unat idx)) (\<lambda>is_clear. Inr (\<not> is_clear)))))))))"

section \<open>New inodes\<close>

definition next_inode_generation ::
    "('d, 'y) device_ops_scheme \<Rightarrow> ('d, 'z) ext4_scheme \<Rightarrow> InodeId \<Rightarrow> u32 res" where
  "next_inode_generation ops fs i =
     rbind (read_inode_uncached ops fs i) (\<lambda>r.
     let n = i_generation (ir_inode r) + 1 in Inr (if n = 0 then 1 else n))"

definition rollback_new_inode ::
    "('d, 'y) device_ops_scheme \<Rightarrow> ('d, 'z) ext4_scheme \<Rightarrow> InodeId \<Rightarrow> bool \<Rightarrow> ('d, 'z) ext4_scheme \<times> unit res" where
  "rollback_new_inode ops fs i is_dir =
     sbind (fs, read_inode_uncached ops fs i) (\<lambda>fs r.
     let inode = inode_set_mode (mode_of_type (if is_dir then Directory else RegularFile))
                   (inode_default\<lparr>i_generation := i_generation (ir_inode r)\<rparr>) in
     dealloc_inode ops fs \<lparr>ir_id = i, ir_inode = inode\<rparr>)"

text \<open>The common part of \<^verbatim>\<open>create_inode_with_owner\<close> and \<^verbatim>\<open>create_device_inode\<close>: \<open>fill\<close> completes the inode.\<close>

definition create_inode_filled ::
    "('d, 'y) device_ops_scheme \<Rightarrow> ('d, 'z) ext4_scheme \<Rightarrow> bool \<Rightarrow> InodeMode \<Rightarrow> u32 \<Rightarrow> u32 \<Rightarrow> (inode \<Rightarrow> inode res) \<Rightarrow>
     ('d, 'z) ext4_scheme \<times> inode_ref res" where
  "create_inode_filled ops fs is_dir mode uid gid fill =
     sbind (fs, ensure_mutable fs) (\<lambda>fs _.
     sbind (alloc_inode ops fs is_dir) (\<lambda>fs i.
     case sbind (fs, next_inode_generation ops fs i) (\<lambda>fs generation.
          sbind (fs, fill (inode_set_gid gid (inode_set_uid uid (inode_set_mode mode
                   (inode_default\<lparr>i_generation := generation\<rparr>))))) (\<lambda>fs inode.
          case write_inode_with_csum ops fs \<lparr>ir_id = i, ir_inode = inode\<rparr> of
            ((fs, r), x) \<Rightarrow> sbind (fs, x) (\<lambda>fs _. (fs, Inr r)))) of
       (fs, Inr r) \<Rightarrow> (fs, Inr r)
     | (fs, Inl Panic) \<Rightarrow> (fs, Inl Panic)
     | (fs, Inl (Err e)) \<Rightarrow>
         (case rollback_new_inode ops fs i is_dir of
            (fs, Inr _) \<Rightarrow> (fs, Inl (Err e))
          | (fs, Inl (Err _)) \<Rightarrow> (fs_poison EIO fs, Inl (Err e))
          | (fs, Inl Panic) \<Rightarrow> (fs, Inl Panic))))"

definition create_inode_with_owner ::
    "('d, 'y) device_ops_scheme \<Rightarrow> ('d, 'z) ext4_scheme \<Rightarrow> InodeMode \<Rightarrow> u32 \<Rightarrow> u32 \<Rightarrow> ('d, 'z) ext4_scheme \<times> inode_ref res" where
  "create_inode_with_owner ops fs mode uid gid =
     create_inode_filled ops fs (mode_file_type mode = Directory) mode uid gid extent_init"

definition create_device_inode ::
    "('d, 'y) device_ops_scheme \<Rightarrow> ('d, 'z) ext4_scheme \<Rightarrow> InodeMode \<Rightarrow> u32 \<Rightarrow> u32 \<Rightarrow> u32 \<Rightarrow> u32 \<Rightarrow>
     ('d, 'z) ext4_scheme \<times> inode_ref res" where
  "create_device_inode ops fs mode major minor uid gid =
     create_inode_filled ops fs False mode uid gid (\<lambda>n. Inr (inode_set_device major minor n))"

end
