(* ===== verification/Block_Accounting.thy ===== *)
theory Block_Accounting
  imports Allocation
begin

text \<open>
  What the block allocator does to the free space: the bitmaps on the device, seen as the set of free blocks, and the
  counters in the descriptors and in the superblock. The laws of the device are those of the locale
  \<open>block_device\<close>; the effect of every write is a lemma of its context.
\<close>

section \<open>Positions\<close>

text \<open>The part of a valid superblock that says where things are; no counter is part of it.\<close>

definition geometry_ok :: "super_block \<Rightarrow> bool" where
  "geometry_ok sb \<longleftrightarrow>
     sb_first_data_block sb = 0 \<and> sb_inode_size sb = 256 \<and> sb_desc_size sb = 64 \<and>
     0 < unat (sb_blocks_per_group sb) \<and> unat (sb_blocks_per_group sb) \<le> 32768 \<and>
     sb_frags_per_group sb = sb_blocks_per_group sb \<and>
     0 < unat (sb_inodes_per_group sb) \<and> unat (sb_inodes_per_group sb) \<le> 32768 \<and>
     0 < group_count sb \<and> group_count sb < 2 ^ 32"

lemma validated_geometry: "validate_super_block sb = Inr () \<Longrightarrow> geometry_ok sb"
  using validated_super_block [of sb]
  by (auto simp: geometry_ok_def super_fields_ok_def SB_GOOD_DESC_SIZE_def SB_GOOD_INODE_SIZE_def BLOCK_SIZE_def
      unat_gt_0 intro: unat_inject [THEN iffD1])

lemma geometry_counters [simp]:
  "geometry_ok (sb_set_free_blocks_count n sb) = geometry_ok sb"
  "geometry_ok (sb_set_free_inodes_count sb m) = geometry_ok sb"
  "group_count (sb_set_free_blocks_count n sb) = group_count sb"
  "group_count (sb_set_free_inodes_count sb m) = group_count sb"
  "block_group_block_count (sb_set_free_blocks_count n sb) bgid = block_group_block_count sb bgid"
  "block_group_block_count (sb_set_free_inodes_count sb m) bgid = block_group_block_count sb bgid"
  by (simp_all add: geometry_ok_def group_count_def sb_block_count_def block_group_block_count_def
      block_group_first_block_def sb_set_free_blocks_count_def sb_set_free_inodes_count_def Let_def)

lemma desc_disk_pos_ok:
  assumes "geometry_ok sb"
  shows "desc_disk_pos sb bgid = Inr (word_of_nat (unat bgid div 64 + 1), unat bgid mod 64 * 64)"
proof -
  have first: "sb_first_data_block sb = 0" and sz: "sb_desc_size sb = 64" using assms by (auto simp: geometry_ok_def)
  have d: "unat (bgid div 64) = unat bgid div 64" "unat (bgid mod 64) = unat bgid mod 64"
    using unat_div_mod [of bgid 64] by simp_all
  have lt: "unat bgid div 64 + 1 < 2 ^ 32" using unat_lt [of bgid] by simp
  have b: "unat (bgid div 64 + 1) = unat bgid div 64 + 1" using lt d(1) unat_add_lt [of "bgid div 64" 1] by simp
  have off: "unat (bgid mod 64 * 64) = unat bgid mod 64 * 64" using d(2) by (simp add: unat_word_ariths)
  have "unat (ucast (bgid div 64 + 1) :: u64) = unat bgid div 64 + 1" unfolding unat_widen by (rule b)
  moreover have "unat (word_of_nat (unat bgid div 64 + 1) :: u64) = unat bgid div 64 + 1"
    using lt by (intro unat_word_of_nat) simp
  ultimately have "(ucast (bgid div 64 + 1) :: u64) = word_of_nat (unat bgid div 64 + 1)" using unat_inject by metis
  then show ?thesis
    using off lt d(1) by (simp add: desc_disk_pos_def first sz BLOCK_SIZE_def add_chk_def)
qed

lemma group_first_block:
  assumes "geometry_ok sb"
  shows "unat (block_group_first_block sb bgid) = unat bgid * unat (sb_blocks_per_group sb)"
proof -
  have "unat bgid * unat (sb_blocks_per_group sb) < 2 ^ 32 * 2 ^ 32"
    using unat_lt [of bgid] unat_lt [of "sb_blocks_per_group sb"] by (intro mult_strict_mono) simp_all
  then show ?thesis using assms by (simp add: block_group_first_block_def geometry_ok_def unat_word_ariths)
qed

lemma group_block_count:
  assumes "geometry_ok sb"
  shows "block_group_block_count sb bgid =
    min (unat (sb_blocks_per_group sb)) (unat (sb_block_count sb) - unat bgid * unat (sb_blocks_per_group sb))"
  using group_first_block [OF assms, of bgid]
  by (auto simp: block_group_block_count_def Let_def word_le_nat_alt min_def unat_sub_le)

section \<open>The free blocks of a filesystem\<close>

definition bitmap_of :: "('d, 'z) ext4_scheme \<Rightarrow> nat \<Rightarrow> PBlockId" where
  "bitmap_of fs g = bg_block_bitmap_block (fs_cached_block_groups fs ! g)"

definition free_count :: "('d, 'z) ext4_scheme \<Rightarrow> nat \<Rightarrow> u64" where
  "free_count fs g = bg_get_free_blocks_count (fs_cached_block_groups fs ! g)"

text \<open>The positions of a group whose bit in the bitmap on the device is clear.\<close>

definition group_free :: "(PBlockId \<Rightarrow> bytes option) \<Rightarrow> ('d, 'z) ext4_scheme \<Rightarrow> nat \<Rightarrow> nat set" where
  "group_free contents fs g =
     {i. i < block_group_block_count (fs_cached_super_block fs) (word_of_nat g) \<and>
         (\<exists>bs. contents (bitmap_of fs g) = Some bs \<and> i < length bs * 8 \<and> clear_at bs i)}"

text \<open>What a mount establishes about the shape of the metadata, with the separation of the block bitmaps from
  each other and from the superblock and the descriptors, which it does not check.\<close>

definition fs_layout :: "('d, 'z) ext4_scheme \<Rightarrow> bool" where
  "fs_layout fs \<longleftrightarrow>
     geometry_ok (fs_cached_super_block fs) \<and>
     length (fs_cached_block_groups fs) = group_count (fs_cached_super_block fs) \<and>
     (\<forall>g<length (fs_cached_block_groups fs). bitmap_of fs g \<noteq> 0 \<and>
        (\<forall>h<length (fs_cached_block_groups fs). bitmap_of fs g \<noteq> word_of_nat (h div 64 + 1) \<and>
           (h \<noteq> g \<longrightarrow> bitmap_of fs h \<noteq> bitmap_of fs g)))"

text \<open>The counters agree with the bitmaps.\<close>

definition block_accounting :: "(PBlockId \<Rightarrow> bytes option) \<Rightarrow> ('d, 'z) ext4_scheme \<Rightarrow> bool" where
  "block_accounting contents fs \<longleftrightarrow>
     (\<forall>g<length (fs_cached_block_groups fs). unat (free_count fs g) = card (group_free contents fs g)) \<and>
     unat (sb_free_blocks_count (fs_cached_super_block fs)) =
       (\<Sum>g<length (fs_cached_block_groups fs). card (group_free contents fs g))"

section \<open>Bits of a bitmap block\<close>

lemma bitmap_new_ok:
  "bitmap_new bs n = Inr bm \<Longrightarrow> bm = take (div_ceil n 8) bs \<and> div_ceil n 8 \<le> length bs"
  by (auto simp: bitmap_new_def index_range_def slice_def split: if_splits)

lemma bits_fit: "n \<le> div_ceil n 8 * 8"
  using div_ceil_bounds [of 8 n] by simp

lemma clear_at_take: "i < k * 8 \<Longrightarrow> clear_at (take k bs) i = clear_at bs i"
  by (simp add: clear_at_def less_mult_imp_div_less)

lemma clear_at_splice:
  assumes "k \<le> length bs" "length bm = k" "i < length bs * 8"
  shows "clear_at (splice bs 0 bm) i = (if i < k * 8 then clear_at bm i else clear_at bs i)"
proof -
  have "i div 8 < length bs" using assms(3) by (simp add: less_mult_imp_div_less)
  then show ?thesis
    using assms by (auto simp: clear_at_def nth_splice less_mult_imp_div_less)
qed

lemma find_and_set_in_block_ok:
  assumes "find_and_set_in_block b n = Inr (Some i, b')"
  shows "blk_id b' = blk_id b \<and> length (blk_data b') = length (blk_data b) \<and> i < n \<and> n \<le> length (blk_data b) * 8 \<and>
    clear_at (blk_data b) i \<and>
    (\<forall>j<length (blk_data b) * 8. clear_at (blk_data b') j \<longleftrightarrow> j \<noteq> i \<and> clear_at (blk_data b) j)"
proof -
  from assms obtain bm bm' where bm: "bitmap_new (blk_data b) n = Inr bm"
    and f: "find_and_set_first_clear_bit bm 0 n = Inr (Some i, bm')"
    and b': "b' = b\<lparr>blk_data := splice (blk_data b) 0 bm'\<rparr>"
    by (auto simp: find_and_set_in_block_def rbind_eq_Inr split: prod.splits)
  note bk = bitmap_new_ok [OF bm]
  have fit: "n \<le> length bm * 8" using bk bits_fit [of n] by simp
  from f obtain c where c: "first_clear_bit bm 0 n = Inr (Some i)" "bitmap_set_bit bm i = Inr bm'"
    by (auto simp: find_and_set_first_clear_bit_def rbind_eq_Inr split: option.splits)
  have "find (clear_at bm) [0..<min n (length bm * 8)] = Some i" using c(1) by (simp add: first_clear_bit_scan)
  then have "i \<in> set [0..<min n (length bm * 8)]" "clear_at bm i"
    unfolding find_Some_iff by (metis nth_mem)+
  then have i: "i < n" "i < length bm * 8" "clear_at bm i" by simp_all
  have l: "length bm' = length bm" using c(2) by (rule length_bitmap_set_bit)
  have k: "length bm = div_ceil n 8" using bk by simp
  have "clear_at (blk_data b') j \<longleftrightarrow> j \<noteq> i \<and> clear_at (blk_data b) j" if j: "j < length (blk_data b) * 8" for j
  proof (cases "j < length bm * 8")
    case True
    then show ?thesis
      using clear_at_splice [of "length bm" "blk_data b" bm' j] j bk l bitmap.set_clear [OF c(2) i(2) True]
      by (simp add: b' k clear_at_take)
  next
    case False
    then have "j \<noteq> i" using i(2) by auto
    then show ?thesis using False clear_at_splice [of "length bm" "blk_data b" bm' j] j bk l by (simp add: b' k)
  qed
  then show ?thesis using i bk l k fit by (simp add: b' clear_at_take)
qed

lemma clear_in_block_ok:
  assumes "clear_in_block b n i = Inr b'" "i < n"
  shows "blk_id b' = blk_id b \<and> length (blk_data b') = length (blk_data b) \<and> n \<le> length (blk_data b) * 8 \<and>
    \<not> clear_at (blk_data b) i \<and>
    (\<forall>j<length (blk_data b) * 8. clear_at (blk_data b') j \<longleftrightarrow> j = i \<or> clear_at (blk_data b) j)"
proof -
  from assms(1) obtain bm bm' where bm: "bitmap_new (blk_data b) n = Inr bm"
    and c: "is_bit_clear bm i = Inr False" "bitmap_clear_bit bm i = Inr bm'"
    and b': "b' = b\<lparr>blk_data := splice (blk_data b) 0 bm'\<rparr>"
    by (auto simp: clear_in_block_def rbind_eq_Inr split: if_splits)
  note bk = bitmap_new_ok [OF bm]
  have fit: "n \<le> length bm * 8" using bk bits_fit [of n] by simp
  then have i: "i < length bm * 8" using assms(2) by simp
  then have nc: "\<not> clear_at bm i" using c(1) by (simp add: is_bit_clear_ok)
  have l: "length bm' = length bm" using c(2) by (rule length_bitmap_clear_bit)
  have k: "length bm = div_ceil n 8" using bk by simp
  have "clear_at (blk_data b') j \<longleftrightarrow> j = i \<or> clear_at (blk_data b) j" if j: "j < length (blk_data b) * 8" for j
  proof (cases "j < length bm * 8")
    case True
    then show ?thesis
      using clear_at_splice [of "length bm" "blk_data b" bm' j] j bk l bitmap.clear_clear [OF c(2) i True]
      by (simp add: b' k clear_at_take)
  next
    case False
    then have "j \<noteq> i" using i by auto
    then show ?thesis using False clear_at_splice [of "length bm" "blk_data b" bm' j] j bk l by (simp add: b' k)
  qed
  then show ?thesis using nc i bk l k fit by (simp add: b' clear_at_take)
qed

section \<open>Effects of the writes\<close>

context block_device
begin

lemma rewrite_block_effect:
  assumes "fs_rewrite_block ops fs b off bs = (fs', Inr u)"
  shows "\<exists>old d. contents (fs_device fs) b = Some old \<and> off + length bs \<le> length old \<and> fs' = fs\<lparr>fs_device := d\<rparr> \<and>
    contents d = (contents (fs_device fs))(b \<mapsto> splice old off bs)"
proof -
  from assms obtain blk d where r: "read_block ops (fs_device fs) b = Inr blk"
    and w: "off + length bs \<le> length (blk_data blk)"
    and d: "write_block ops (fs_device fs) (blk\<lparr>blk_data := splice (blk_data blk) off bs\<rparr>) = (d, Inr u)"
    and fs': "fs' = fs\<lparr>fs_device := d\<rparr>"
    by (auto simp: fs_rewrite_block_def sbind_eq_Inr fs_read_block_def fs_write_block_def block_write_offset_def
        write_range_def rbind_eq_Inr split: if_splits prod.splits)
  from read_sound [OF r] write_sound [OF d] show ?thesis
    using w fs' by (intro exI [of _ "blk_data blk"] exI [of _ d]) simp
qed

lemma write_block_effect:
  assumes "fs_write_block ops fs b = (fs', Inr u)"
  shows "\<exists>d. fs' = fs\<lparr>fs_device := d\<rparr> \<and> contents d = (contents (fs_device fs))(blk_id b \<mapsto> blk_data b)"
  using assms write_sound by (auto simp: fs_write_block_def split: prod.splits)

lemma write_super_block_effect:
  assumes "write_super_block ops fs sb = (fs', Inr u)"
  shows "\<exists>old d. contents (fs_device fs) 0 = Some old \<and>
    fs' = fs\<lparr>fs_device := d, fs_cached_super_block := sb\<rparr> \<and>
    contents d = (contents (fs_device fs))(0 \<mapsto> splice old BASE_OFFSET (sb_to_bytes (sb_set_checksum sb)))"
  using assms rewrite_block_effect
  by (fastforce simp: write_super_block_def sbind_eq_Inr)

lemma write_block_group_effect:
  assumes "write_block_group_with_csum ops fs bg = (fs', Inr u)" "geometry_ok (fs_cached_super_block fs)"
  defines "bg' \<equiv> bgr_set_checksum (metadata_checksum_seed (fs_cached_super_block fs)) bg"
    and "gdt \<equiv> word_of_nat (unat (bgr_id bg) div 64 + 1)"
  shows "\<exists>old d. contents (fs_device fs) gdt = Some old \<and>
    fs' = fs\<lparr>fs_device := d, fs_cached_block_groups := (fs_cached_block_groups fs)[unat (bgr_id bg) := bgr_desc bg']\<rparr> \<and>
    contents d = (contents (fs_device fs))(gdt \<mapsto> splice old (unat (bgr_id bg) mod 64 * 64) (bgd_to_bytes (bgr_desc bg')))"
proof -
  have i: "bgr_id bg' = bgr_id bg" by (simp add: bg'_def bgr_set_checksum_def)
  from assms(1) obtain fs1 u' where r: "fs_rewrite_block ops fs gdt (unat (bgr_id bg) mod 64 * 64) (bgd_to_bytes (bgr_desc bg')) = (fs1, Inr u')"
    and fs': "fs' = fs1\<lparr>fs_cached_block_groups := (fs_cached_block_groups fs1)[unat (bgr_id bg) := bgr_desc bg']\<rparr>"
    unfolding write_block_group_with_csum_def write_block_group_without_csum_def bg'_def [symmetric] i
      desc_disk_pos_ok [OF assms(2)] gdt_def
    by (auto simp: sbind_eq_Inr)
  from rewrite_block_effect [OF r] show ?thesis using fs' by fastforce
qed

end

lemma or_restore_blocks_Inr [simp]:
  "or_restore_blocks ops b bg sb m = (fs', Inr u) \<longleftrightarrow> m = (fs', Inr u)"
  by (auto simp: or_restore_blocks_def split: prod.splits sum.splits fault.splits)

lemma or_restore_inodes_Inr [simp]:
  "or_restore_inodes ops b bg sb m = (fs', Inr u) \<longleftrightarrow> m = (fs', Inr u)"
  by (auto simp: or_restore_inodes_def split: prod.splits sum.splits fault.splits)

text \<open>The state after a bitmap block, a descriptor and the superblock are written, in this order.\<close>

definition counts_written ::
    "(PBlockId \<Rightarrow> bytes option) \<Rightarrow> ('d, 'z) ext4_scheme \<Rightarrow> BlockGroupId \<Rightarrow> block \<Rightarrow> block_group_desc \<Rightarrow> super_block \<Rightarrow>
     (PBlockId \<Rightarrow> bytes option) \<Rightarrow> ('d, 'z) ext4_scheme \<Rightarrow> bool" where
  "counts_written contents fs bgid new desc sb contents' fs' \<longleftrightarrow>
     fs' = fs\<lparr>fs_device := fs_device fs', fs_cached_super_block := sb,
             fs_cached_block_groups := (fs_cached_block_groups fs)[unat bgid := desc]\<rparr> \<and>
     (\<exists>old_gdt old_sb. contents' = contents(blk_id new \<mapsto> blk_data new,
        word_of_nat (unat bgid div 64 + 1) \<mapsto> splice old_gdt (unat bgid mod 64 * 64) (bgd_to_bytes desc),
        0 \<mapsto> splice old_sb BASE_OFFSET (sb_to_bytes (sb_set_checksum sb))))"

context block_device
begin

lemma update_block_counts_effect:
  assumes "update_block_counts ops fs sb bg old new count = (fs', Inr u)" "geometry_ok (fs_cached_super_block fs)"
  shows "\<exists>desc n m. update_block_bitmap_csum (bgr_desc bg) (metadata_checksum_seed sb) (blk_data new)
      (unat (sb_frags_per_group sb) div 8) = (desc, True) \<and>
    count (bg_get_free_blocks_count (bgr_desc bg)) = Inr n \<and> count (sb_free_blocks_count sb) = Inr m \<and>
    counts_written (contents (fs_device fs)) fs (bgr_id bg) new
      (bgr_desc (bgr_set_checksum (metadata_checksum_seed (fs_cached_super_block fs))
         (bgr_new (bgr_id bg) (bg_set_free_blocks_count n desc))))
      (sb_set_free_blocks_count m sb) (contents (fs_device fs')) fs'"
proof -
  from assms(1) obtain desc n m fs1 fs2 u1 u2
    where desc: "update_block_bitmap_csum (bgr_desc bg) (metadata_checksum_seed sb) (blk_data new)
      (unat (sb_frags_per_group sb) div 8) = (desc, True)"
      and w1: "fs_write_block ops fs new = (fs1, Inr u1)"
      and n: "count (bg_get_free_blocks_count desc) = Inr n"
      and w2: "write_block_group_with_csum ops fs1 (bgr_new (bgr_id bg) (bg_set_free_blocks_count n desc)) = (fs2, Inr u2)"
      and m: "count (sb_free_blocks_count sb) = Inr m"
      and w3: "write_super_block ops fs2 (sb_set_free_blocks_count m sb) = (fs', Inr u)"
    by (auto simp: update_block_counts_def sbind_eq_Inr split: prod.splits bool.splits)
  have fc: "bg_get_free_blocks_count desc = bg_get_free_blocks_count (bgr_desc bg)"
    using desc by (auto simp: update_block_bitmap_csum_def bg_get_free_blocks_count_def split: option.splits)
  obtain d1 where e1: "fs1 = fs\<lparr>fs_device := d1\<rparr>" "contents d1 = (contents (fs_device fs))(blk_id new \<mapsto> blk_data new)"
    using write_block_effect [OF w1] by blast
  have g1: "geometry_ok (fs_cached_super_block fs1)" using assms(2) e1(1) by simp
  let ?desc = "bgr_desc (bgr_set_checksum (metadata_checksum_seed (fs_cached_super_block fs))
    (bgr_new (bgr_id bg) (bg_set_free_blocks_count n desc)))"
  obtain old2 d2 where e2: "fs2 = fs1\<lparr>fs_device := d2, fs_cached_block_groups := (fs_cached_block_groups fs1)[unat (bgr_id bg) := ?desc]\<rparr>"
    "contents d2 = (contents (fs_device fs1))(word_of_nat (unat (bgr_id bg) div 64 + 1) \<mapsto>
       splice old2 (unat (bgr_id bg) mod 64 * 64) (bgd_to_bytes ?desc))"
    using write_block_group_effect [OF w2 g1] e1(1) by (auto simp: bgr_new_def)
  obtain old3 d3 where e3: "fs' = fs2\<lparr>fs_device := d3, fs_cached_super_block := sb_set_free_blocks_count m sb\<rparr>"
    "contents d3 = (contents (fs_device fs2))(0 \<mapsto> splice old3 BASE_OFFSET (sb_to_bytes (sb_set_checksum (sb_set_free_blocks_count m sb))))"
    using write_super_block_effect [OF w3] by blast
  have "contents (fs_device fs') = (contents (fs_device fs))(blk_id new \<mapsto> blk_data new,
      word_of_nat (unat (bgr_id bg) div 64 + 1) \<mapsto> splice old2 (unat (bgr_id bg) mod 64 * 64) (bgd_to_bytes ?desc),
      0 \<mapsto> splice old3 BASE_OFFSET (sb_to_bytes (sb_set_checksum (sb_set_free_blocks_count m sb))))"
    using e1 e2 e3 by simp
  moreover have "fs' = fs\<lparr>fs_device := fs_device fs', fs_cached_super_block := sb_set_free_blocks_count m sb,
      fs_cached_block_groups := (fs_cached_block_groups fs)[unat (bgr_id bg) := ?desc]\<rparr>"
    using e1(1) e2(1) e3(1) by simp
  ultimately have "counts_written (contents (fs_device fs)) fs (bgr_id bg) new ?desc (sb_set_free_blocks_count m sb)
      (contents (fs_device fs')) fs'"
    unfolding counts_written_def by blast
  then show ?thesis using desc n m fc by metis
qed

end

lemma bitmap_block_unchanged [simp]:
  "bg_block_bitmap_block (bg_set_free_blocks_count n desc) = bg_block_bitmap_block desc"
  "bg_block_bitmap_block (bgr_desc (bgr_set_checksum seed r)) = bg_block_bitmap_block (bgr_desc r)"
  "bg_get_free_blocks_count (bgr_desc (bgr_set_checksum seed r)) = bg_get_free_blocks_count (bgr_desc r)"
  by (simp_all add: bg_block_bitmap_block_def bg_set_free_blocks_count_def bgr_set_checksum_def bg_get_free_blocks_count_def)

lemma bitmap_block_csum:
  "update_block_bitmap_csum d seed bs n = (desc, ok) \<Longrightarrow> bg_block_bitmap_block desc = bg_block_bitmap_block d"
  by (auto simp: update_block_bitmap_csum_def bg_block_bitmap_block_def split: option.splits)

section \<open>One position allocated or released\<close>

text \<open>Whether a block of the device is free: the bit of its group's bitmap.\<close>

definition block_is_free :: "(PBlockId \<Rightarrow> bytes option) \<Rightarrow> ('d, 'z) ext4_scheme \<Rightarrow> PBlockId \<Rightarrow> bool" where
  "block_is_free contents fs b \<longleftrightarrow>
     (let bpg = unat (sb_blocks_per_group (fs_cached_super_block fs)) in
      unat b mod bpg \<in> group_free contents fs (unat b div bpg))"

lemma counts_written_frame:
  assumes lay: "fs_layout fs" and cw: "counts_written contents fs bgid new desc sb' contents' fs'"
    and g: "unat bgid < length (fs_cached_block_groups fs)" "blk_id new = bitmap_of fs (unat bgid)"
      "bg_block_bitmap_block desc = bitmap_of fs (unat bgid)"
    and sb': "geometry_ok sb'" "group_count sb' = group_count (fs_cached_super_block fs)"
      "\<And>i. block_group_block_count sb' i = block_group_block_count (fs_cached_super_block fs) i"
  shows "fs_layout fs'"
    and "\<And>h. h < length (fs_cached_block_groups fs) \<Longrightarrow> h \<noteq> unat bgid \<Longrightarrow>
      group_free contents' fs' h = group_free contents fs h \<and> free_count fs' h = free_count fs h"
    and "free_count fs' (unat bgid) = bg_get_free_blocks_count desc"
    and "group_free contents' fs' (unat bgid) =
      {i. i < block_group_block_count (fs_cached_super_block fs) bgid \<and> i < length (blk_data new) * 8 \<and> clear_at (blk_data new) i}"
proof -
  let ?n = "length (fs_cached_block_groups fs)"
  obtain gdt sbi where fs': "fs' = fs\<lparr>fs_device := fs_device fs', fs_cached_super_block := sb',
             fs_cached_block_groups := (fs_cached_block_groups fs)[unat bgid := desc]\<rparr>"
    and c': "contents' = contents(blk_id new \<mapsto> blk_data new, word_of_nat (unat bgid div 64 + 1) \<mapsto> gdt, 0 \<mapsto> sbi)"
    using cw unfolding counts_written_def by blast
  have csb: "fs_cached_super_block fs' = sb'" by (subst fs') simp
  have grp: "fs_cached_block_groups fs' = (fs_cached_block_groups fs)[unat bgid := desc]" by (subst fs') simp
  have bm: "bitmap_of fs' h = bitmap_of fs h" if "h < ?n" for h
    using that g(3) by (cases "h = unat bgid") (simp_all add: bitmap_of_def grp)
  have sep: "bitmap_of fs h \<noteq> 0" "bitmap_of fs h \<noteq> word_of_nat (unat bgid div 64 + 1)"
    "h \<noteq> unat bgid \<Longrightarrow> bitmap_of fs h \<noteq> bitmap_of fs (unat bgid)" if "h < ?n" for h
    using lay that g(1) unfolding fs_layout_def by blast+
  have cont: "contents' (bitmap_of fs h) = (if h = unat bgid then Some (blk_data new) else contents (bitmap_of fs h))" if "h < ?n" for h
    using sep [OF that] by (simp add: c' g(2))
  show "fs_layout fs'"
    using lay bm sb'(1,2) unfolding fs_layout_def csb grp length_list_update by simp
  show "free_count fs' (unat bgid) = bg_get_free_blocks_count desc" using g(1) by (simp add: free_count_def grp)
  show "group_free contents' fs' h = group_free contents fs h \<and> free_count fs' h = free_count fs h"
    if "h < ?n" "h \<noteq> unat bgid" for h
    using that bm cont sb'(3) by (simp add: group_free_def csb free_count_def grp)
  show "group_free contents' fs' (unat bgid) =
      {i. i < block_group_block_count (fs_cached_super_block fs) bgid \<and> i < length (blk_data new) * 8 \<and> clear_at (blk_data new) i}"
    using g(1) bm cont sb'(3) by (simp add: group_free_def csb)
qed

text \<open>A block number and its group and position.\<close>

lemma block_position:
  assumes "geometry_ok sb" "i < block_group_block_count sb bgid"
  shows "i < unat (sb_blocks_per_group sb)" "unat bgid * unat (sb_blocks_per_group sb) + i < unat (sb_block_count sb)"
  using assms(2) unfolding group_block_count [OF assms(1)] by (simp_all add: less_diff_conv add.commute)

text \<open>The accounting after one position of group \<open>g\<close> changed hands.\<close>

lemma accounting_step:
  fixes fs fs' :: "('d, 'z) ext4_scheme"
  assumes "block_accounting contents fs" "length (fs_cached_block_groups fs') = length (fs_cached_block_groups fs)"
    and g: "g < length (fs_cached_block_groups fs)"
    and frame: "\<And>h. h < length (fs_cached_block_groups fs) \<Longrightarrow> h \<noteq> g \<Longrightarrow>
      group_free contents' fs' h = group_free contents fs h \<and> free_count fs' h = free_count fs h"
    and local: "int (unat (free_count fs' g)) = int (unat (free_count fs g)) + \<delta>"
      "int (card (group_free contents' fs' g)) = int (card (group_free contents fs g)) + \<delta>"
      "int (unat (sb_free_blocks_count (fs_cached_super_block fs'))) = int (unat (sb_free_blocks_count (fs_cached_super_block fs))) + \<delta>"
  shows "block_accounting contents' fs'"
proof -
  let ?n = "length (fs_cached_block_groups fs)"
  have old: "\<And>h. h < ?n \<Longrightarrow> unat (free_count fs h) = card (group_free contents fs h)"
    "unat (sb_free_blocks_count (fs_cached_super_block fs)) = (\<Sum>h<?n. card (group_free contents fs h))"
    using assms(1) by (simp_all add: block_accounting_def)
  have "unat (free_count fs' g) = card (group_free contents' fs' g)" using local(1,2) old(1) [OF g] by linarith
  then have counts: "unat (free_count fs' h) = card (group_free contents' fs' h)" if "h < ?n" for h
    using that frame old(1) by (cases "h = g") simp_all
  have sum: "int (\<Sum>h<?n. card (group_free contents' fs' h)) = int (\<Sum>h<?n. card (group_free contents fs h)) + \<delta>"
  proof -
    have "(\<Sum>h<?n. card (group_free c f h)) = card (group_free c f g) + (\<Sum>h\<in>{..<?n} - {g}. card (group_free c f h))" for c and f :: "('d, 'z) ext4_scheme"
      using g by (simp add: sum.remove)
    note this [of contents' fs'] this [of contents fs]
    moreover have "(\<Sum>h\<in>{..<?n} - {g}. card (group_free contents' fs' h)) = (\<Sum>h\<in>{..<?n} - {g}. card (group_free contents fs h))"
      using frame by (intro sum.cong) auto
    ultimately show ?thesis using local(2) by simp
  qed
  have "int (unat (sb_free_blocks_count (fs_cached_super_block fs'))) = int (\<Sum>h<?n. card (group_free contents' fs' h))"
    unfolding sum local(3) old(2) ..
  then have "unat (sb_free_blocks_count (fs_cached_super_block fs')) = (\<Sum>h<?n. card (group_free contents' fs' h))"
    by (simp only: of_nat_eq_iff)
  then show ?thesis using assms(2) counts unfolding block_accounting_def by simp
qed

text \<open>The position of a block that belongs to a group.\<close>

lemma block_group_position:
  assumes "geometry_ok sb" "i < block_group_block_count sb bgid" "unat b = unat bgid * unat (sb_blocks_per_group sb) + i"
  shows "unat b div unat (sb_blocks_per_group sb) = unat bgid" "unat b mod unat (sb_blocks_per_group sb) = i"
    "unat b < unat (sb_block_count sb)"
  using block_position [OF assms(1,2)] assms(3) by simp_all

lemma free_iff:
  assumes frame: "\<And>h. h < n \<Longrightarrow> h \<noteq> g \<Longrightarrow> group_free contents' fs' h = group_free contents fs h"
    and bpg: "sb_blocks_per_group (fs_cached_super_block fs') = sb_blocks_per_group (fs_cached_super_block fs)"
    and b: "unat b div unat (sb_blocks_per_group (fs_cached_super_block fs)) = g"
      "unat b mod unat (sb_blocks_per_group (fs_cached_super_block fs)) = i"
    and c: "unat c div unat (sb_blocks_per_group (fs_cached_super_block fs)) < n"
  shows "group_free contents' fs' g = group_free contents fs g - {i} \<Longrightarrow>
      block_is_free contents' fs' c \<longleftrightarrow> c \<noteq> b \<and> block_is_free contents fs c"
    and "group_free contents' fs' g = insert i (group_free contents fs g) \<Longrightarrow>
      block_is_free contents' fs' c \<longleftrightarrow> c = b \<or> block_is_free contents fs c"
proof -
  let ?p = "unat (sb_blocks_per_group (fs_cached_super_block fs))"
  have eq: "c = b \<longleftrightarrow> unat c div ?p = g \<and> unat c mod ?p = i"
    using b by (metis div_mult_mod_eq unat_inject)
  show "block_is_free contents' fs' c \<longleftrightarrow> c \<noteq> b \<and> block_is_free contents fs c"
    if "group_free contents' fs' g = group_free contents fs g - {i}"
    using that frame [OF c] eq by (cases "unat c div ?p = g") (auto simp: block_is_free_def Let_def bpg)
  show "block_is_free contents' fs' c \<longleftrightarrow> c = b \<or> block_is_free contents fs c"
    if "group_free contents' fs' g = insert i (group_free contents fs g)"
    using that frame [OF c] eq by (cases "unat c div ?p = g") (auto simp: block_is_free_def Let_def bpg)
qed

lemma group_of_block:
  assumes "fs_layout fs" "unat c < unat (sb_block_count (fs_cached_super_block fs))"
  shows "unat c div unat (sb_blocks_per_group (fs_cached_super_block fs)) < length (fs_cached_block_groups fs)"
proof -
  let ?p = "unat (sb_blocks_per_group (fs_cached_super_block fs))" and ?t = "unat (sb_block_count (fs_cached_super_block fs))"
  have p: "0 < ?p" and n: "length (fs_cached_block_groups fs) = div_ceil ?t ?p"
    using assms(1) by (simp_all add: fs_layout_def geometry_ok_def group_count_def)
  have "unat c < div_ceil ?t ?p * ?p" using assms(2) div_ceil_bounds [OF p, of ?t] by linarith
  then show ?thesis unfolding n using p by (simp add: less_mult_imp_div_less)
qed

lemma sub_chk_ok: "sub_chk (a :: 'w::len word) 1 = Inr n \<Longrightarrow> unat a = unat n + 1"
  by (auto simp: sub_chk_def unat_sub_le word_le_nat_alt split: if_splits)

lemma add_chk_ok: "add_chk (a :: 'w::len word) 1 = Inr n \<Longrightarrow> unat n = unat a + unat (1 :: 'w word)"
  by (rule unat_add_chk)

lemma count_step:
  assumes "(if alloc then sub_chk n 1 else add_chk n 1) = Inr m"
  shows "int (unat (m :: 'w::len word)) = int (unat n) + (if alloc then - 1 else int (unat (1 :: 'w word)))"
proof (cases alloc)
  case True
  then have "unat n = unat m + 1" using assms sub_chk_ok by auto
  then show ?thesis unfolding if_P [OF True] by linarith
next
  case False
  then have "unat m = unat n + unat (1 :: 'w word)" using assms add_chk_ok by auto
  then show ?thesis unfolding if_not_P [OF False] by linarith
qed

text \<open>The full effect of an allocation or a release of position \<open>i\<close> in a group.\<close>

definition position_changed ::
    "bool \<Rightarrow> (PBlockId \<Rightarrow> bytes option) \<Rightarrow> ('d, 'z) ext4_scheme \<Rightarrow> PBlockId \<Rightarrow> (PBlockId \<Rightarrow> bytes option) \<Rightarrow>
     ('d, 'z) ext4_scheme \<Rightarrow> bool" where
  "position_changed alloc contents fs b contents' fs' \<longleftrightarrow>
     unat b < unat (sb_block_count (fs_cached_super_block fs)) \<and>
     block_is_free contents fs b = alloc \<and>
     (\<forall>c. unat c < unat (sb_block_count (fs_cached_super_block fs)) \<longrightarrow>
        block_is_free contents' fs' c = (if c = b then \<not> alloc else block_is_free contents fs c)) \<and>
     fs_layout fs' \<and> sb_block_count (fs_cached_super_block fs') = sb_block_count (fs_cached_super_block fs) \<and>
     (block_accounting contents fs \<longrightarrow> block_accounting contents' fs')"

context block_device
begin

lemma position_update:
  fixes fs fs' :: "('d, 'y) ext4_scheme"
  assumes lay: "fs_layout fs" and up: "update_block_counts ops fs (fs_cached_super_block fs) bg old new count = (fs', Inr u)"
    and bg: "read_block_group fs bgid = Inr bg"
    and old: "contents (fs_device fs) (bitmap_of fs (unat bgid)) = Some (blk_data old)" "blk_id new = bitmap_of fs (unat bgid)"
      "length (blk_data new) = length (blk_data old)"
    and i: "i < block_group_block_count (fs_cached_super_block fs) bgid" "block_group_block_count (fs_cached_super_block fs) bgid \<le> length (blk_data old) * 8"
      "clear_at (blk_data old) i = alloc"
    and bits: "\<And>j. j < length (blk_data old) * 8 \<Longrightarrow>
      clear_at (blk_data new) j = (if j = i then \<not> alloc else clear_at (blk_data old) j)"
    and b: "unat b = unat bgid * unat (sb_blocks_per_group (fs_cached_super_block fs)) + i"
    and count: "count = (if alloc then (\<lambda>n. sub_chk n 1) else (\<lambda>n. add_chk n 1))"
  shows "position_changed alloc (contents (fs_device fs)) fs b (contents (fs_device fs')) fs'"
proof -
  let ?sb = "fs_cached_super_block fs" and ?g = "unat bgid"
  let ?c = "contents (fs_device fs)" and ?c' = "contents (fs_device fs')"
  have geo: "geometry_ok ?sb" using lay by (simp add: fs_layout_def)
  have g: "?g < length (fs_cached_block_groups fs)" and bgd: "bgr_desc bg = fs_cached_block_groups fs ! ?g" "bgr_id bg = bgid"
    using bg by (auto simp: read_block_group_def bgr_new_def split: if_splits)
  from update_block_counts_effect [OF up geo] obtain desc n m
    where d: "update_block_bitmap_csum (bgr_desc bg) (metadata_checksum_seed ?sb) (blk_data new) (unat (sb_frags_per_group ?sb) div 8) = (desc, True)"
      and n: "count (bg_get_free_blocks_count (bgr_desc bg)) = Inr n" and m: "count (sb_free_blocks_count ?sb) = Inr m"
      and cw: "counts_written ?c fs (bgr_id bg) new (bgr_desc (bgr_set_checksum (metadata_checksum_seed ?sb)
         (bgr_new (bgr_id bg) (bg_set_free_blocks_count n desc)))) (sb_set_free_blocks_count m ?sb) ?c' fs'"
    by blast
  let ?desc = "bgr_desc (bgr_set_checksum (metadata_checksum_seed ?sb) (bgr_new (bgr_id bg) (bg_set_free_blocks_count n desc)))"
  have bmd: "bg_block_bitmap_block ?desc = bitmap_of fs ?g"
    using bitmap_block_csum [OF d] by (simp add: bgr_new_def bitmap_of_def bgd(1))
  note frame = counts_written_frame [OF lay cw [unfolded bgd(2)] g old(2) bmd [unfolded bgd(2)]]
  have fr: "fs_layout fs'"
    "\<And>h. h < length (fs_cached_block_groups fs) \<Longrightarrow> h \<noteq> ?g \<Longrightarrow> group_free ?c' fs' h = group_free ?c fs h \<and> free_count fs' h = free_count fs h"
    "free_count fs' ?g = bg_get_free_blocks_count ?desc"
    "group_free ?c' fs' ?g = {j. j < block_group_block_count ?sb bgid \<and> j < length (blk_data new) * 8 \<and> clear_at (blk_data new) j}"
    using frame geo bgd(2) by simp_all
  have gf: "group_free ?c fs ?g = {j. j < block_group_block_count ?sb bgid \<and> j < length (blk_data old) * 8 \<and> clear_at (blk_data old) j}"
    using old(1) by (simp add: group_free_def)
  obtain dev where fs': "fs' = fs\<lparr>fs_device := dev, fs_cached_super_block := sb_set_free_blocks_count m ?sb,
      fs_cached_block_groups := (fs_cached_block_groups fs)[unat (bgr_id bg) := ?desc]\<rparr>"
    using cw unfolding counts_written_def by blast
  have csb: "fs_cached_super_block fs' = sb_set_free_blocks_count m ?sb"
    and grp: "length (fs_cached_block_groups fs') = length (fs_cached_block_groups fs)"
    by (simp_all add: fs')
  have bpg: "sb_blocks_per_group (fs_cached_super_block fs') = sb_blocks_per_group ?sb"
    and total: "sb_block_count (fs_cached_super_block fs') = sb_block_count ?sb"
    by (simp_all add: csb sb_set_free_blocks_count_def sb_block_count_def)
  note pos = block_group_position [OF geo i(1) b]
  have il: "i < length (blk_data old) * 8" using i(1,2) by simp
  have changed: "group_free ?c' fs' ?g = (if alloc then group_free ?c fs ?g - {i} else insert i (group_free ?c fs ?g))"
    unfolding fr(4) gf old(3) using bits i(1) il by (auto split: if_splits)
  have member: "i \<in> group_free ?c fs ?g \<longleftrightarrow> alloc" using i(1,3) il by (simp add: gf)
  have free_b: "block_is_free ?c fs b = alloc" using pos(1,2) member by (simp add: block_is_free_def Let_def)
  have free_c: "block_is_free ?c' fs' c = (if c = b then \<not> alloc else block_is_free ?c fs c)"
    if "unat c < unat (sb_block_count ?sb)" for c
    using free_iff [of "length (fs_cached_block_groups fs)" ?g ?c' fs' ?c fs b i c] fr(2) bpg pos(1,2)
      group_of_block [OF lay that] changed by (cases alloc) auto
  have "block_accounting ?c' fs'" if acc: "block_accounting ?c fs"
  proof -
    let ?d = "if alloc then - 1 else 1 :: int"
    have fin: "finite (group_free ?c fs ?g)" by (simp add: gf)
    have card: "int (card (group_free ?c' fs' ?g)) = int (card (group_free ?c fs ?g)) + ?d"
    proof (cases alloc)
      case True
      then have "card (group_free ?c fs ?g) = card (group_free ?c fs ?g - {i}) + 1"
        using member fin by (metis Suc_eq_plus1 card_Suc_Diff1)
      then show ?thesis using True by (simp add: changed)
    next
      case False
      then show ?thesis using member fin by (simp add: changed)
    qed
    have old_count: "unat (free_count fs ?g) = card (group_free ?c fs ?g)" using acc g by (simp add: block_accounting_def)
    have step: "int (unat n) = int (unat (free_count fs ?g)) + ?d"
      "int (unat m) = int (unat (sb_free_blocks_count ?sb)) + ?d"
      using count_step [of alloc "free_count fs ?g" n] count_step [of alloc "sb_free_blocks_count ?sb" m] n m
      unfolding count by (simp_all add: free_count_def bgd split: if_splits)
    have "card (group_free ?c' fs' ?g) \<le> card {..<block_group_block_count ?sb bgid}"
      unfolding fr(4) by (intro card_mono) auto
    also have "\<dots> \<le> 32768" using group_block_count [OF geo, of bgid] geo by (auto simp: geometry_ok_def)
    finally have "card (group_free ?c' fs' ?g) \<le> 32768" .
    moreover have "int (unat n) = int (card (group_free ?c' fs' ?g))" unfolding step(1) card old_count ..
    then have "unat n = card (group_free ?c' fs' ?g)" by (simp only: of_nat_eq_iff)
    ultimately have "unat n < 2 ^ 32" by simp
    then have "free_count fs' ?g = n" using fr(3) by (simp add: free_blocks.get_put bgr_new_def)
    then show ?thesis
      using accounting_step [OF acc grp g, of ?c' ?d] fr(2) step card csb by simp
  qed
  then show ?thesis using pos(3) free_b free_c fr(1) total unfolding position_changed_def by blast
qed

lemma alloc_in_group_effect:
  fixes fs fs' :: "('d, 'y) ext4_scheme"
  assumes lay: "fs_layout fs" and a: "alloc_block_in_group ops fs (fs_cached_super_block fs) bgid = (fs', Inr r)"
  shows "(case r of None \<Rightarrow> fs' = fs
    | Some b \<Rightarrow> position_changed True (contents (fs_device fs)) fs b (contents (fs_device fs')) fs')"
proof (cases r)
  case None
  then show ?thesis using a
    by (auto simp: alloc_block_in_group_def Let_def sbind_eq_Inr split: if_splits option.splits prod.splits)
next
  case (Some b)
  let ?sb = "fs_cached_super_block fs"
  from a Some obtain bg old new i u where bg: "read_block_group fs bgid = Inr bg"
    and old: "read_block ops (fs_device fs) (bg_block_bitmap_block (bgr_desc bg)) = Inr old"
    and f: "find_and_set_in_block old (block_group_block_count ?sb bgid) = Inr (Some i, new)"
    and b: "add_chk (block_group_first_block ?sb bgid) (word_of_nat i) = Inr b"
    and up: "update_block_counts ops fs ?sb bg old new (\<lambda>n. sub_chk n 1) = (fs', Inr u)"
    by (auto simp: alloc_block_in_group_def Let_def sbind_eq_Inr fs_read_block_def split: if_splits option.splits prod.splits)
  have geo: "geometry_ok ?sb" using lay by (simp add: fs_layout_def)
  note fo = find_and_set_in_block_ok [OF f]
  have addr: "bg_block_bitmap_block (bgr_desc bg) = bitmap_of fs (unat bgid)"
    using bg by (auto simp: read_block_group_def bitmap_of_def bgr_new_def split: if_splits)
  have bm: "contents (fs_device fs) (bitmap_of fs (unat bgid)) = Some (blk_data old)" "blk_id new = bitmap_of fs (unat bgid)"
    using read_sound [OF old] fo by (simp_all add: addr)
  have i: "i < block_group_block_count ?sb bgid" using fo by simp
  then have "i \<le> 32768" using group_block_count [OF geo, of bgid] geo by (simp add: geometry_ok_def)
  then have bb: "unat b = unat bgid * unat (sb_blocks_per_group ?sb) + i"
    using unat_add_chk [OF b] group_first_block [OF geo, of bgid] by (simp add: unat_word_of_nat)
  show ?thesis
    unfolding Some option.case
    by (rule position_update [OF lay up bg bm _ i _ _ _ bb]) (use fo in auto)
qed

lemma alloc_search_effect:
  fixes fs fs' :: "('d, 'y) ext4_scheme"
  assumes "fs_layout fs" "alloc_block_search ops fs (fs_cached_super_block fs) preferred n is = (fs', Inr b)"
  shows "position_changed True (contents (fs_device fs)) fs b (contents (fs_device fs')) fs'"
  using assms(2)
proof (induction "is")
  case (Cons i "is")
  then obtain k fs1 r where k: "add_chk preferred (word_of_nat i) = Inr k"
    and r: "alloc_block_in_group ops fs (fs_cached_super_block fs) (k mod n) = (fs1, Inr r)"
    and rest: "(case r of Some fblock \<Rightarrow> (fs1, Inr fblock)
      | None \<Rightarrow> alloc_block_search ops fs1 (fs_cached_super_block fs) preferred n is) = (fs', Inr b)"
    by (auto simp: sbind_eq_Inr)
  show ?case
    using alloc_in_group_effect [OF assms(1) r] rest Cons.IH by (cases r) auto
qed simp

lemma alloc_block_effect:
  fixes fs fs' :: "('d, 'y) ext4_scheme"
  assumes "fs_layout fs" "alloc_block ops fs ino = (fs', Inr b)"
  shows "position_changed True (contents (fs_device fs)) fs b (contents (fs_device fs')) fs'"
  using assms alloc_search_effect by (auto simp: alloc_block_def Let_def sbind_eq_Inr split: prod.splits)

lemma dealloc_block_effect:
  fixes fs fs' :: "('d, 'y) ext4_scheme"
  assumes lay: "fs_layout fs" and a: "dealloc_block ops fs b = (fs', Inr u)"
  shows "position_changed False (contents (fs_device fs)) fs b (contents (fs_device fs')) fs'"
proof -
  let ?sb = "fs_cached_super_block fs"
  have geo: "geometry_ok ?sb" using lay by (simp add: fs_layout_def)
  then have first: "sb_first_data_block ?sb = 0" by (simp add: geometry_ok_def)
  define bgid :: u32 where "bgid = ucast (b div ucast (sb_blocks_per_group ?sb))"
  from a obtain i bg old new where i: "sub_chk b (block_group_first_block ?sb bgid) = Inr i"
    and lt: "unat i < block_group_block_count ?sb bgid"
    and bg: "read_block_group fs bgid = Inr bg"
    and old: "read_block ops (fs_device fs) (bg_block_bitmap_block (bgr_desc bg)) = Inr old"
    and f: "clear_in_block old (block_group_block_count ?sb bgid) (unat i) = Inr new"
    and up: "update_block_counts ops fs ?sb bg old new (\<lambda>n. add_chk n 1) = (fs', Inr u)"
    by (auto simp: dealloc_block_def Let_def first bgid_def sbind_eq_Inr fs_read_block_def split: if_splits)
  note co = clear_in_block_ok [OF f lt]
  have addr: "bg_block_bitmap_block (bgr_desc bg) = bitmap_of fs (unat bgid)"
    using bg by (auto simp: read_block_group_def bitmap_of_def bgr_new_def split: if_splits)
  have bm: "contents (fs_device fs) (bitmap_of fs (unat bgid)) = Some (blk_data old)" "blk_id new = bitmap_of fs (unat bgid)"
    using read_sound [OF old] co by (simp_all add: addr)
  have "unat i = unat b - unat (block_group_first_block ?sb bgid)" "block_group_first_block ?sb bgid \<le> b"
    using i by (auto simp: sub_chk_def unat_sub_le split: if_splits)
  then have bb: "unat b = unat bgid * unat (sb_blocks_per_group ?sb) + unat i"
    using group_first_block [OF geo, of bgid] by (simp add: word_le_nat_alt)
  show ?thesis
    by (rule position_update [OF lay up bg bm _ lt _ _ _ bb]) (use co in auto)
qed

end

section \<open>Allocation and release of one block\<close>

text \<open>C8: allocating a block. On every device that keeps what was written to it: when \<^verbatim>\<open>alloc_block\<close> returns a
  block, that block lies on the device and was free, it is the only one whose state in the bitmaps changes,
  the shape of the metadata is kept, and counters that agreed with the bitmaps, those of the groups and that of the
  superblock, agree with them again.\<close>

theorem alloc_block_correct:
  assumes "block_device ops contents" "fs_layout fs" "alloc_block ops fs ino = (fs', Inr b)"
  shows "unat b < unat (sb_block_count (fs_cached_super_block fs)) \<and> block_is_free (contents (fs_device fs)) fs b \<and>
    (\<forall>c. unat c < unat (sb_block_count (fs_cached_super_block fs)) \<longrightarrow>
       block_is_free (contents (fs_device fs')) fs' c \<longleftrightarrow> c \<noteq> b \<and> block_is_free (contents (fs_device fs)) fs c) \<and>
    fs_layout fs' \<and>
    (block_accounting (contents (fs_device fs)) fs \<longrightarrow> block_accounting (contents (fs_device fs')) fs')"
  using block_device.alloc_block_effect [OF assms] unfolding position_changed_def by auto

text \<open>C10: releasing a block. A successful \<^verbatim>\<open>dealloc_block\<close> is only possible for a block of the device that
  is in use; it makes exactly that block free, and keeps the shape and the agreement of the counters.\<close>

theorem dealloc_block_correct:
  assumes "block_device ops contents" "fs_layout fs" "dealloc_block ops fs b = (fs', Inr u)"
  shows "unat b < unat (sb_block_count (fs_cached_super_block fs)) \<and> \<not> block_is_free (contents (fs_device fs)) fs b \<and>
    (\<forall>c. unat c < unat (sb_block_count (fs_cached_super_block fs)) \<longrightarrow>
       block_is_free (contents (fs_device fs')) fs' c \<longleftrightarrow> c = b \<or> block_is_free (contents (fs_device fs)) fs c) \<and>
    fs_layout fs' \<and>
    (block_accounting (contents (fs_device fs)) fs \<longrightarrow> block_accounting (contents (fs_device fs')) fs')"
  using block_device.dealloc_block_effect [OF assms] unfolding position_changed_def by auto

section \<open>Witnesses\<close>

definition w_fs :: "block_mem ext4" where
  "w_fs = \<lparr>fs_device = w_mount_device, fs_cached_super_block = w_mount_sb, fs_cached_block_groups = [w_mount_desc],
     fs_system_metadata_ranges = [(0, 6)], fs_inode_cache = cache_new INODE_CACHE_SIZE, fs_metadata_gate = gate_new,
     fs_poisoned = None, fs_metadata_mode = Mutating (Direct \<lparr>dc_flags = flags_clean, dc_target_blocks = 16\<rparr>),
     fs_write_barrier = True, fs_direct_restore_clean = False\<rparr>"

lemma w_geometry: "geometry_ok w_mount_sb"
  by (rule validated_geometry) (rule w_mount_valid)

lemma w_fs_layout: "fs_layout w_fs"
  using w_geometry by (simp add: fs_layout_def w_fs_def bitmap_of_def w_mount_addresses group_count_def w_mount_fields div_ceil_def)

section \<open>Completeness on a working device\<close>

text \<open>A device of whole blocks that holds all the metadata the allocator touches.\<close>

definition metadata_on_device :: "block_mem ext4 \<Rightarrow> bool" where
  "metadata_on_device fs \<longleftrightarrow>
     mem_wf (fs_device fs) \<and> sb_wf (fs_cached_super_block fs) \<and> 0 < length (fs_device fs) \<and>
     (\<forall>g<length (fs_cached_block_groups fs). unat (bitmap_of fs g) < length (fs_device fs) \<and> g div 64 + 1 < length (fs_device fs))"

lemma mem_rewrite_ok:
  assumes "mem_wf (fs_device fs)" "unat b < length (fs_device fs)" "off + length bs \<le> BLOCK_SIZE"
  shows "\<exists>m. fs_rewrite_block mem_ops fs b off bs = (fs\<lparr>fs_device := m\<rparr>, Inr ()) \<and> mem_wf m \<and> length m = length (fs_device fs)"
proof -
  let ?old = "fs_device fs ! unat b"
  have l: "length ?old = BLOCK_SIZE" using assms(1,2) by (simp add: mem_wf_def)
  then have w: "block_write_offset (block_new b ?old) off bs = Inr (block_new b (splice ?old off bs))"
    using assms(3) by (simp add: block_write_offset_def block_new_def write_range_def)
  let ?m = "(fs_device fs)[unat b := splice ?old off bs]"
  have "fs_rewrite_block mem_ops fs b off bs = (fs\<lparr>fs_device := ?m\<rparr>, Inr ())"
    using assms(2) w by (simp add: fs_rewrite_block_def fs_read_block_def fs_write_block_def mem_ops_def mem_read_block_def
        mem_write_block_def) (simp add: block_new_def)
  moreover have "mem_wf ?m" using assms(1,3) l by (auto simp: mem_wf_def dest: set_update_subset_insert [THEN subsetD])
  ultimately show ?thesis by (intro exI [of _ ?m]) simp
qed

lemma mem_write_ok:
  assumes "mem_wf (fs_device fs)" "unat (blk_id b) < length (fs_device fs)" "length (blk_data b) = BLOCK_SIZE"
  shows "\<exists>m. fs_write_block mem_ops fs b = (fs\<lparr>fs_device := m\<rparr>, Inr ()) \<and> mem_wf m \<and> length m = length (fs_device fs)"
  using assms by (auto simp: fs_write_block_def mem_ops_def mem_write_block_def mem_wf_def
      intro!: exI [of _ "(fs_device fs)[unat (blk_id b) := blk_data b]"] dest: set_update_subset_insert [THEN subsetD])

lemma gdt_number: "g < 2 ^ 32 \<Longrightarrow> unat (word_of_nat (g div 64 + 1) :: u64) = g div 64 + 1"
  by (intro unat_word_of_nat) simp

lemma write_block_group_ok:
  fixes fs :: "block_mem ext4"
  assumes "mem_wf (fs_device fs)" "geometry_ok (fs_cached_super_block fs)" "unat (bgr_id bg) div 64 + 1 < length (fs_device fs)"
  shows "\<exists>m gs. write_block_group_with_csum mem_ops fs bg = (fs\<lparr>fs_device := m, fs_cached_block_groups := gs\<rparr>, Inr ()) \<and>
    mem_wf m \<and> length m = length (fs_device fs)"
proof -
  let ?bg = "bgr_set_checksum (metadata_checksum_seed (fs_cached_super_block fs)) bg"
  have id: "bgr_id ?bg = bgr_id bg" by (simp add: bgr_set_checksum_def)
  have "unat (word_of_nat (unat (bgr_id bg) div 64 + 1) :: u64) < length (fs_device fs)"
    using assms(3) gdt_number [of "unat (bgr_id bg)"] unat_lt [of "bgr_id bg"] by simp
  moreover have "unat (bgr_id bg) mod 64 * 64 + 64 \<le> BLOCK_SIZE" by (simp add: BLOCK_SIZE_def)
  ultimately obtain m where m: "fs_rewrite_block mem_ops fs (word_of_nat (unat (bgr_id bg) div 64 + 1)) (unat (bgr_id bg) mod 64 * 64)
      (bgd_to_bytes (bgr_desc ?bg)) = (fs\<lparr>fs_device := m\<rparr>, Inr ())" "mem_wf m" "length m = length (fs_device fs)"
    using mem_rewrite_ok [OF assms(1)] by (metis length_bgd_to_bytes)
  then show ?thesis
    unfolding write_block_group_with_csum_def write_block_group_without_csum_def id desc_disk_pos_ok [OF assms(2)] by auto
qed

lemma write_super_block_ok:
  fixes fs :: "block_mem ext4"
  assumes "mem_wf (fs_device fs)" "0 < length (fs_device fs)" "sb_wf sb"
  shows "\<exists>fs'. write_super_block mem_ops fs sb = (fs', Inr ()) \<and> mem_wf (fs_device fs')"
proof -
  have "BASE_OFFSET + length (sb_to_bytes (sb_set_checksum sb)) \<le> BLOCK_SIZE"
    using assms(3) by (simp add: BASE_OFFSET_def BLOCK_SIZE_def sb_set_checksum_def)
  then obtain m where "fs_rewrite_block mem_ops fs 0 BASE_OFFSET (sb_to_bytes (sb_set_checksum sb)) = (fs\<lparr>fs_device := m\<rparr>, Inr ())" "mem_wf m"
    using mem_rewrite_ok [OF assms(1), of 0] assms(2) by auto
  then show ?thesis by (simp add: write_super_block_def)
qed

lemma update_block_counts_ok:
  fixes fs :: "block_mem ext4"
  assumes dev: "mem_wf (fs_device fs)" "0 < length (fs_device fs)" "sb_wf sb" "geometry_ok (fs_cached_super_block fs)" "geometry_ok sb"
    and bg: "unat (bgr_id bg) div 64 + 1 < length (fs_device fs)"
    and new: "unat (blk_id new) < length (fs_device fs)" "length (blk_data new) = BLOCK_SIZE"
    and count: "is_ok (count (bg_get_free_blocks_count (bgr_desc bg)))" "is_ok (count (sb_free_blocks_count sb))"
  shows "\<exists>fs'. update_block_counts mem_ops fs sb bg old new count = (fs', Inr ())"
proof -
  have "unat (sb_frags_per_group sb) div 8 \<le> length (blk_data new)"
    using dev(5) new(2) by (auto simp: geometry_ok_def BLOCK_SIZE_def)
  then obtain desc where d: "update_block_bitmap_csum (bgr_desc bg) (metadata_checksum_seed sb) (blk_data new)
      (unat (sb_frags_per_group sb) div 8) = (desc, True)"
    by (simp add: update_block_bitmap_csum_def bitmap_csum_def get_range_def)
  then have fc: "bg_get_free_blocks_count desc = bg_get_free_blocks_count (bgr_desc bg)"
    by (auto simp: update_block_bitmap_csum_def bg_get_free_blocks_count_def split: option.splits)
  obtain n k where n: "count (bg_get_free_blocks_count desc) = Inr n" "count (sb_free_blocks_count sb) = Inr k"
    using count by (auto simp: is_ok_iff fc)
  obtain m1 where m1: "fs_write_block mem_ops fs new = (fs\<lparr>fs_device := m1\<rparr>, Inr ())" "mem_wf m1" "length m1 = length (fs_device fs)"
    using mem_write_ok [OF dev(1) new] by blast
  let ?bg = "bgr_new (bgr_id bg) (bg_set_free_blocks_count n desc)"
  obtain m2 gs where m2: "write_block_group_with_csum mem_ops (fs\<lparr>fs_device := m1\<rparr>) ?bg =
      (fs\<lparr>fs_device := m2, fs_cached_block_groups := gs\<rparr>, Inr ())" "mem_wf m2" "length m2 = length m1"
    using write_block_group_ok [of "fs\<lparr>fs_device := m1\<rparr>" ?bg] m1 dev(4) bg by (auto simp: bgr_new_def)
  have "sb_wf (sb_set_free_blocks_count k sb)" using dev(3) by (simp add: sb_wf_def sb_set_free_blocks_count_def)
  then obtain fs3 where "write_super_block mem_ops (fs\<lparr>fs_device := m2, fs_cached_block_groups := gs\<rparr>)
      (sb_set_free_blocks_count k sb) = (fs3, Inr ())"
    using write_super_block_ok [of "fs\<lparr>fs_device := m2, fs_cached_block_groups := gs\<rparr>"] m1 m2 dev(2) by auto
  then show ?thesis using d m1(1) m2(1) n by (simp add: update_block_counts_def or_restore_blocks_def)
qed

lemma find_and_set_in_block_complete:
  assumes "n \<le> length (blk_data b) * 8" "j < n" "clear_at (blk_data b) j"
  shows "\<exists>i b'. find_and_set_in_block b n = Inr (Some i, b')"
proof -
  have k: "div_ceil n 8 \<le> length (blk_data b)" using assms(1) div_ceil_eq [of 8 n] by simp
  let ?bm = "take (div_ceil n 8) (blk_data b)"
  have bm: "bitmap_new (blk_data b) n = Inr ?bm" using k by (simp add: bitmap_new_def index_range_def slice_def)
  have len: "n \<le> length ?bm * 8" using bits_fit [of n] k by simp
  have "clear_at ?bm j" using assms(2,3) bits_fit [of n] by (simp add: clear_at_take)
  then have "find (clear_at ?bm) [0..<min n (length ?bm * 8)] \<noteq> None"
    using assms(2) len by (auto simp: find_None_iff)
  then obtain i where i: "find (clear_at ?bm) [0..<min n (length ?bm * 8)] = Some i" by blast
  then have "i \<in> set [0..<min n (length ?bm * 8)]" unfolding find_Some_iff by (metis nth_mem)
  then obtain bm' where "bitmap_set_bit ?bm i = Inr bm'" by (auto simp: bitmap_set_bit_ok)
  then show ?thesis using bm i by (simp add: find_and_set_in_block_def find_and_set_first_clear_bit_def first_clear_bit_scan)
qed

lemma alloc_in_group_complete:
  fixes fs :: "block_mem ext4"
  assumes lay: "fs_layout fs" and dev: "metadata_on_device fs" and acc: "block_accounting (mem_contents (fs_device fs)) fs"
    and g: "unat bgid < length (fs_cached_block_groups fs)"
  shows "if group_free (mem_contents (fs_device fs)) fs (unat bgid) = {}
    then alloc_block_in_group mem_ops fs (fs_cached_super_block fs) bgid = (fs, Inr None)
    else \<exists>fs' b. alloc_block_in_group mem_ops fs (fs_cached_super_block fs) bgid = (fs', Inr (Some b))"
proof -
  let ?sb = "fs_cached_super_block fs" and ?g = "unat bgid" and ?c = "mem_contents (fs_device fs)"
  let ?n = "block_group_block_count ?sb bgid" and ?bg = "bgr_new bgid (fs_cached_block_groups fs ! ?g)"
  have geo: "geometry_ok ?sb" using lay by (simp add: fs_layout_def)
  have bg: "read_block_group fs bgid = Inr ?bg" using g by (simp add: read_block_group_def)
  have count: "unat (bg_get_free_blocks_count (bgr_desc ?bg)) = card (group_free ?c fs ?g)"
    using acc g by (simp add: block_accounting_def free_count_def bgr_new_def)
  have fin: "finite (group_free ?c fs ?g)" by (simp add: group_free_def)
  show ?thesis
  proof (cases "group_free ?c fs ?g = {}")
    case True
    then have "bg_get_free_blocks_count (bgr_desc ?bg) = 0" using count by (simp add: unat_eq_0)
    then show ?thesis using True bg by (simp add: alloc_block_in_group_def Let_def)
  next
    case False
    then have pos: "0 < card (group_free ?c fs ?g)" using fin by (simp add: card_gt_0_iff)
    then have free: "bg_get_free_blocks_count (bgr_desc ?bg) \<noteq> 0" using count by (metis unat_0 less_irrefl)
    have d: "mem_wf (fs_device fs)" "sb_wf ?sb" "0 < length (fs_device fs)" "unat (bitmap_of fs ?g) < length (fs_device fs)"
      "?g div 64 + 1 < length (fs_device fs)"
      using dev g by (auto simp: metadata_on_device_def)
    let ?old = "block_new (bitmap_of fs ?g) (fs_device fs ! unat (bitmap_of fs ?g))"
    have rd: "fs_read_block mem_ops fs (bg_block_bitmap_block (bgr_desc ?bg)) = Inr ?old"
      using d(4) by (simp add: fs_read_block_def mem_ops_def mem_read_block_def bitmap_of_def bgr_new_def)
    have old: "length (blk_data ?old) = BLOCK_SIZE" using d(1,4) by (simp add: block_new_def mem_wf_def)
    have n: "?n \<le> 32768" using group_block_count [OF geo, of bgid] geo by (auto simp: geometry_ok_def)
    obtain j where j: "j < ?n" "clear_at (blk_data ?old) j"
      using False by (auto simp: group_free_def mem_contents_def block_new_def split: if_splits)
    obtain i new where f: "find_and_set_in_block ?old ?n = Inr (Some i, new)"
      using find_and_set_in_block_complete [of ?n ?old j] n old j by (auto simp: BLOCK_SIZE_def)
    note fo = find_and_set_in_block_ok [OF f]
    have i: "i < ?n" using fo by simp
    have "unat (block_group_first_block ?sb bgid) + i < unat (sb_block_count ?sb)"
      using block_position(2) [OF geo i] group_first_block [OF geo, of bgid] by simp
    then have "unat (block_group_first_block ?sb bgid) + unat (word_of_nat i :: u64) < 2 ^ 64"
      using unat_lt [of "sb_block_count ?sb"] i n by (simp add: unat_word_of_nat)
    then obtain b where b: "add_chk (block_group_first_block ?sb bgid) (word_of_nat i) = Inr b" by (simp add: add_chk_def)
    have "0 < unat (sb_free_blocks_count ?sb)"
      using acc g pos by (auto simp: block_accounting_def intro!: sum_pos2 [of _ ?g])
    then have "is_ok (sub_chk (sb_free_blocks_count ?sb) 1)" by (simp add: sub_chk_def word_le_nat_alt)
    moreover have "is_ok (sub_chk (bg_get_free_blocks_count (bgr_desc ?bg)) 1)"
      using pos count by (simp add: sub_chk_def word_le_nat_alt)
    ultimately obtain fs' where "update_block_counts mem_ops fs ?sb ?bg ?old new (\<lambda>n. sub_chk n 1) = (fs', Inr ())"
      using update_block_counts_ok [OF d(1,3,2) geo geo, of ?bg new "\<lambda>n. sub_chk n 1" ?old] d(4,5) fo old
      by (auto simp: bgr_new_def block_new_def)
    then show ?thesis using False j(1) bg free rd f b by (simp add: alloc_block_in_group_def Let_def)
  qed
qed

lemma alloc_search_complete:
  fixes fs :: "block_mem ext4"
  assumes "fs_layout fs" "metadata_on_device fs" "block_accounting (mem_contents (fs_device fs)) fs"
    and n: "n = length (fs_cached_block_groups fs)" "n \<le> 2 ^ 31" and p: "unat preferred < n" "unat bg_count = n"
    and ids: "\<forall>i\<in>set is. i < n"
  shows "if \<forall>i\<in>set is. group_free (mem_contents (fs_device fs)) fs ((unat preferred + i) mod n) = {}
    then alloc_block_search mem_ops fs (fs_cached_super_block fs) preferred bg_count is = (fs, Inl (Err ENOSPC))
    else \<exists>fs' b. alloc_block_search mem_ops fs (fs_cached_super_block fs) preferred bg_count is = (fs', Inr b)"
  using ids
proof (induction "is")
  case (Cons i "is")
  have "i < n" using Cons.prems by simp
  then have i: "unat (word_of_nat i :: u32) = i" "unat preferred + i < 2 ^ 32" using n(2) p(1) by (simp_all add: unat_word_of_nat)
  then obtain k where k: "add_chk preferred (word_of_nat i) = Inr k" "unat k = unat preferred + i"
    by (simp add: add_chk_def unat_add_lt)
  have km: "unat (k mod bg_count) = (unat preferred + i) mod n" by (simp add: unat_div_mod k(2) p(2))
  have "unat (k mod bg_count) < length (fs_cached_block_groups fs)" using p(1) km unfolding n(1) [symmetric] by simp
  from alloc_in_group_complete [OF assms(1-3) this, unfolded km] show ?case
    using Cons k(1) by (auto split: if_splits)
qed simp

text \<open>Every group is visited.\<close>

lemma all_groups_visited:
  assumes "g < n" "p < (n :: nat)"
  shows "\<exists>i\<in>set [0..<n]. (p + i) mod n = g"
proof (cases "p \<le> g")
  case True
  then show ?thesis using assms by (intro bexI [of _ "g - p"]) auto
next
  case False
  then show ?thesis using assms by (intro bexI [of _ "n + g - p"]) auto
qed

lemma alloc_block_total:
  fixes fs :: "block_mem ext4"
  assumes "fs_layout fs" "metadata_on_device fs" "block_accounting (mem_contents (fs_device fs)) fs"
    and "group_count (fs_cached_super_block fs) \<le> 2 ^ 31" "ino \<noteq> 0"
    and "unat (ino - 1) div unat (sb_inodes_per_group (fs_cached_super_block fs)) < group_count (fs_cached_super_block fs)"
  shows "if \<exists>b. unat b < unat (sb_block_count (fs_cached_super_block fs)) \<and> block_is_free (mem_contents (fs_device fs)) fs b
    then \<exists>fs' b. alloc_block mem_ops fs ino = (fs', Inr b)
    else alloc_block mem_ops fs ino = (fs, Inl (Err ENOSPC))"
proof -
  let ?sb = "fs_cached_super_block fs" and ?c = "mem_contents (fs_device fs)" and ?n = "length (fs_cached_block_groups fs)"
  let ?p = "unat (ino - 1) div unat (sb_inodes_per_group ?sb)" and ?bpg = "unat (sb_blocks_per_group ?sb)"
  have geo: "geometry_ok ?sb" and n: "?n = group_count ?sb" using assms(1) by (auto simp: fs_layout_def)
  have "sb_inodes_per_group ?sb \<noteq> 0" "sb_blocks_per_group ?sb \<noteq> 0" using geo by (auto simp: geometry_ok_def)
  moreover have "1 \<le> ino" using assms(5) by (simp add: word_le_nat_alt Suc_le_eq unat_gt_0)
  ultimately have ig: "inode_group_index ?sb ino = Inr ((ino - 1) div sb_inodes_per_group ?sb, (ino - 1) mod sb_inodes_per_group ?sb)"
    and gc: "sb_block_group_count ?sb = Inr (word_of_nat ?n)"
    by (simp_all add: inode_group_index_def sub_chk_def sb_block_group_count_def n group_count_def)
  have up: "unat ((ino - 1) div sb_inodes_per_group ?sb) = ?p" by (simp add: unat_div_mod)
  have un: "unat (word_of_nat ?n :: u32) = ?n" using geo n by (simp add: geometry_ok_def unat_word_of_nat)
  have a: "alloc_block mem_ops fs ino = alloc_block_search mem_ops fs ?sb ((ino - 1) div sb_inodes_per_group ?sb) (word_of_nat ?n) [0..<?n]"
    by (simp add: alloc_block_def Let_def ig gc un)
  have s: "if \<forall>i\<in>set [0..<?n]. group_free ?c fs ((?p + i) mod ?n) = {}
    then alloc_block mem_ops fs ino = (fs, Inl (Err ENOSPC)) else \<exists>fs' b. alloc_block mem_ops fs ino = (fs', Inr b)"
    unfolding a using alloc_search_complete [OF assms(1-3) refl, of "(ino - 1) div sb_inodes_per_group ?sb" "word_of_nat ?n" "[0..<?n]"]
      assms(4,6) un up n by simp
  have "(\<exists>b. unat b < unat (sb_block_count ?sb) \<and> block_is_free ?c fs b) \<longleftrightarrow> (\<exists>g<?n. group_free ?c fs g \<noteq> {})"
  proof
    assume "\<exists>b. unat b < unat (sb_block_count ?sb) \<and> block_is_free ?c fs b"
    then have "\<exists>b :: PBlockId. unat b < unat (sb_block_count ?sb) \<and> unat b mod ?bpg \<in> group_free ?c fs (unat b div ?bpg)"
      by (simp add: block_is_free_def Let_def)
    then obtain b :: PBlockId where "unat b < unat (sb_block_count ?sb)" "unat b mod ?bpg \<in> group_free ?c fs (unat b div ?bpg)"
      by blast
    then show "\<exists>g<?n. group_free ?c fs g \<noteq> {}" using group_of_block [OF assms(1)] by blast
  next
    assume "\<exists>g<?n. group_free ?c fs g \<noteq> {}"
    then obtain g i where g: "g < ?n" and i: "i \<in> group_free ?c fs g" by blast
    have ug: "unat (word_of_nat g :: u32) = g" using g geo n by (simp add: geometry_ok_def unat_word_of_nat)
    have il: "i < block_group_block_count ?sb (word_of_nat g)" using i by (simp add: group_free_def)
    have lt: "g * ?bpg + i < unat (sb_block_count ?sb)" using block_position(2) [OF geo il] by (simp add: ug)
    then have ub: "unat (word_of_nat (g * ?bpg + i) :: u64) = g * ?bpg + i"
      using unat_lt [of "sb_block_count ?sb"] by (intro unat_word_of_nat) simp
    note pos = block_group_position [OF geo il, of "word_of_nat (g * ?bpg + i)", unfolded ug, OF ub]
    have "block_is_free ?c fs (word_of_nat (g * ?bpg + i))" using pos(1,2) i by (simp only: block_is_free_def Let_def)
    then show "\<exists>b. unat b < unat (sb_block_count ?sb) \<and> block_is_free ?c fs b" using lt ub by metis
  qed
  also have "\<dots> \<longleftrightarrow> \<not> (\<forall>i\<in>set [0..<?n]. group_free ?c fs ((?p + i) mod ?n) = {})"
  proof -
    have "?p < ?n" using assms(6) n by simp
    then show ?thesis using all_groups_visited [of _ ?n ?p] by (metis atLeastLessThan_iff mod_less_divisor not_less_zero neq0_conv set_upt)
  qed
  finally show ?thesis using s by (auto split: if_splits)
qed

text \<open>C9: allocation finds a free block when there is one. On a working device that holds the metadata, and
  with counters that agree with the bitmaps, \<^verbatim>\<open>alloc_block\<close> for an inode of the filesystem never panics; it
  returns a block unless no block of the filesystem is free, and then it reports \<^verbatim>\<open>ENOSPC\<close> and changes nothing.\<close>

theorem alloc_block_complete:
  fixes fs :: "block_mem ext4"
  assumes "fs_layout fs" "metadata_on_device fs" "block_accounting (mem_contents (fs_device fs)) fs"
    and "group_count (fs_cached_super_block fs) \<le> 2 ^ 31" "ino \<noteq> 0"
    and "unat (ino - 1) div unat (sb_inodes_per_group (fs_cached_super_block fs)) < group_count (fs_cached_super_block fs)"
  shows "if \<exists>b. unat b < unat (sb_block_count (fs_cached_super_block fs)) \<and> block_is_free (mem_contents (fs_device fs)) fs b
    then \<exists>fs' b. alloc_block mem_ops fs ino = (fs', Inr b)
    else alloc_block mem_ops fs ino = (fs, Inl (Err ENOSPC))"
  by (rule alloc_block_total [OF assms])

lemma clear_in_block_complete:
  assumes "n \<le> length (blk_data b) * 8" "i < n" "\<not> clear_at (blk_data b) i"
  shows "\<exists>b'. clear_in_block b n i = Inr b'"
proof -
  have k: "div_ceil n 8 \<le> length (blk_data b)" using assms(1) div_ceil_eq [of 8 n] by simp
  let ?bm = "take (div_ceil n 8) (blk_data b)"
  have bm: "bitmap_new (blk_data b) n = Inr ?bm" using k by (simp add: bitmap_new_def index_range_def slice_def)
  have i: "i < length ?bm * 8" using assms(2) bits_fit [of n] k by simp
  have "is_bit_clear ?bm i = Inr False" using assms(2,3) i bits_fit [of n] by (simp add: is_bit_clear_ok clear_at_take)
  then show ?thesis using bm i by (simp add: clear_in_block_def bitmap_clear_bit_ok)
qed

lemma accounting_bound:
  assumes "fs_layout fs" "block_accounting c fs"
  shows "unat (sb_free_blocks_count (fs_cached_super_block fs)) < 2 ^ 48"
proof -
  let ?n = "length (fs_cached_block_groups fs)"
  have geo: "geometry_ok (fs_cached_super_block fs)" and n: "?n < 2 ^ 32" using assms(1) by (auto simp: fs_layout_def geometry_ok_def)
  have "card (group_free c fs g) \<le> 32768" for g
  proof -
    have "card (group_free c fs g) \<le> card {..<block_group_block_count (fs_cached_super_block fs) (word_of_nat g)}"
      by (rule card_mono) (auto simp: group_free_def)
    then show ?thesis using group_block_count [OF geo, of "word_of_nat g"] geo by (auto simp: geometry_ok_def)
  qed
  then have "(\<Sum>g<?n. card (group_free c fs g)) \<le> ?n * 32768"
    using sum_bounded_above [of "{..<?n}" "\<lambda>g. card (group_free c fs g)" 32768] by simp
  then show ?thesis using assms(2) n by (simp add: block_accounting_def)
qed

text \<open>A block in use can be released.\<close>

lemma dealloc_block_total:
  fixes fs :: "block_mem ext4"
  assumes lay: "fs_layout fs" and dev: "metadata_on_device fs" and acc: "block_accounting (mem_contents (fs_device fs)) fs"
    and b: "unat b < unat (sb_block_count (fs_cached_super_block fs))" "\<not> block_is_free (mem_contents (fs_device fs)) fs b"
  shows "\<exists>fs'. dealloc_block mem_ops fs b = (fs', Inr ())"
proof -
  let ?sb = "fs_cached_super_block fs" and ?c = "mem_contents (fs_device fs)"
  let ?bpg = "unat (sb_blocks_per_group ?sb)" and ?n = "length (fs_cached_block_groups fs)"
  define bgid :: u32 where "bgid = ucast ((b - ucast (sb_first_data_block ?sb)) div ucast (sb_blocks_per_group ?sb))"
  let ?bg = "bgr_new bgid (fs_cached_block_groups fs ! unat bgid)"
  have geo: "geometry_ok ?sb" and n: "?n < 2 ^ 32" using lay by (auto simp: fs_layout_def geometry_ok_def)
  have first: "sb_first_data_block ?sb = 0" using geo by (simp add: geometry_ok_def)
  have g: "unat b div ?bpg < ?n" by (rule group_of_block [OF lay b(1)])
  have ug: "unat bgid = unat b div ?bpg"
    using g n by (simp add: bgid_def first unsigned_ucast_eq unat_div_mod take_bit_nat_eq_self)
  have gf: "unat (block_group_first_block ?sb bgid) = unat b div ?bpg * ?bpg"
    using group_first_block [OF geo, of bgid] by (simp add: ug)
  then have fle: "block_group_first_block ?sb bgid \<le> b" by (simp add: word_le_nat_alt div_times_less_eq_dividend)
  define i where "i = b - block_group_first_block ?sb bgid"
  have ui: "unat i = unat b mod ?bpg"
    using fle gf by (simp add: i_def unat_sub_le minus_div_mult_eq_mod)
  have p: "0 < ?bpg" using geo by (simp add: geometry_ok_def)
  have lt: "unat i < block_group_block_count ?sb bgid"
    unfolding group_block_count [OF geo] ug ui using p b(1) by (simp add: less_diff_conv)
  have le: "block_group_block_count ?sb bgid \<le> 32768" using group_block_count [OF geo, of bgid] geo by (auto simp: geometry_ok_def)
  have bg: "read_block_group fs bgid = Inr ?bg" using g by (simp add: read_block_group_def ug)
  have d: "mem_wf (fs_device fs)" "sb_wf ?sb" "0 < length (fs_device fs)" "unat (bitmap_of fs (unat bgid)) < length (fs_device fs)"
      "unat bgid div 64 + 1 < length (fs_device fs)"
    using dev g by (auto simp: metadata_on_device_def ug)
  let ?old = "block_new (bitmap_of fs (unat bgid)) (fs_device fs ! unat (bitmap_of fs (unat bgid)))"
  have rd: "fs_read_block mem_ops fs (bg_block_bitmap_block (bgr_desc ?bg)) = Inr ?old"
    using d(4) by (simp add: fs_read_block_def mem_ops_def mem_read_block_def bitmap_of_def bgr_new_def)
  have old: "length (blk_data ?old) = BLOCK_SIZE" using d(1,4) by (simp add: block_new_def mem_wf_def)
  have used: "\<not> clear_at (blk_data ?old) (unat i)"
    using b(2) lt le d(4) old unfolding block_is_free_def Let_def ui [symmetric] ug [symmetric]
    by (auto simp: group_free_def mem_contents_def block_new_def BLOCK_SIZE_def)
  obtain new where new: "clear_in_block ?old (block_group_block_count ?sb bgid) (unat i) = Inr new"
    using clear_in_block_complete [OF _ lt used] le old by (auto simp: BLOCK_SIZE_def)
  note co = clear_in_block_ok [OF new lt]
  have c1: "is_ok (add_chk (sb_free_blocks_count ?sb) 1)" using accounting_bound [OF lay acc] by (simp add: add_chk_def)
  have "unat (bg_get_free_blocks_count (bgr_desc ?bg)) = card (group_free ?c fs (unat bgid))"
    using acc g by (simp add: block_accounting_def free_count_def bgr_new_def ug)
  also have "\<dots> \<le> card {..<block_group_block_count ?sb bgid}" by (rule card_mono) (auto simp: group_free_def)
  finally have c2: "is_ok (add_chk (bg_get_free_blocks_count (bgr_desc ?bg)) 1)" using le by (simp add: add_chk_def)
  obtain fs' where "update_block_counts mem_ops fs ?sb ?bg ?old new (\<lambda>n. add_chk n 1) = (fs', Inr ())"
    using update_block_counts_ok [OF d(1,3,2) geo geo, of ?bg new "\<lambda>n. add_chk n 1" ?old] d(4,5) co old c1 c2
    by (auto simp: bgr_new_def block_new_def)
  moreover have "\<not> b \<ge> sb_block_count ?sb" "sb_blocks_per_group ?sb \<noteq> 0" using b(1) p by (auto simp: word_le_nat_alt)
  ultimately show ?thesis
    using bg rd new fle lt
    by (simp add: dealloc_block_def Let_def first sub_chk_def bgid_def [symmetric, unfolded first, simplified] i_def)
qed

section \<open>Witnesses\<close>

lemma w_bitmap: "mem_contents w_mount_device 2 = Some (0x3F # replicate 4095 0)"
  by (simp add: mem_contents_def w_mount_device_def)

lemma w_free_positions: "group_free (mem_contents (fs_device w_fs)) w_fs 0 = {6..<16}"
proof -
  have n: "block_group_block_count w_mount_sb 0 = 16" using group_block_count [OF w_geometry, of 0] by (simp add: w_mount_fields)
  have z: "clear_at (0x3F # replicate 4095 0) i \<longleftrightarrow> 6 \<le> i" if "i < 16" for i
  proof -
    have "i \<in> {0, 1, 2, 3, 4, 5, 6, 7, 8, 9, 10, 11, 12, 13, 14, 15}" using that unfolding insert_iff empty_iff by presburger
    then show ?thesis by (auto simp: clear_at_def bit_iff_odd)
  qed
  show ?thesis
    using w_bitmap z by (auto simp: group_free_def w_fs_def n bitmap_of_def w_mount_addresses)
qed

lemma w_accounting: "block_accounting (mem_contents (fs_device w_fs)) w_fs"
  using w_free_positions by (simp add: block_accounting_def free_count_def) (simp add: w_fs_def w_mount_fields w_mount_desc_def
      bgd_default_def bg_get_free_blocks_count_def)

lemma w_on_device: "metadata_on_device w_fs"
proof -
  have "sb_wf w_mount_sb" using w_super_wf by (simp add: sb_wf_def w_mount_sb_def)
  moreover have "mem_wf w_mount_device" using \<open>sb_wf w_mount_sb\<close>
    by (auto simp: mem_wf_def w_mount_device_def BLOCK_SIZE_def)
  ultimately show ?thesis by (simp add: metadata_on_device_def w_fs_def bitmap_of_def w_mount_addresses) (simp add: w_mount_device_def)
qed

lemma w_facts: "group_count (fs_cached_super_block w_fs) = 1" "unat (sb_inodes_per_group (fs_cached_super_block w_fs)) = 32"
  "unat (sb_block_count (fs_cached_super_block w_fs)) = 16" "unat (sb_blocks_per_group (fs_cached_super_block w_fs)) = 32768"
  by (simp_all add: w_fs_def group_count_def w_mount_fields div_ceil_def)

lemma w_free_block: "block_is_free (mem_contents (fs_device w_fs)) w_fs 6"
  using w_free_positions by (simp add: block_is_free_def w_facts Let_def)

theorem alloc_block_complete_witness: "\<exists>fs' b. alloc_block mem_ops w_fs 2 = (fs', Inr b)"
proof -
  have "\<exists>b. unat b < unat (sb_block_count (fs_cached_super_block w_fs)) \<and> block_is_free (mem_contents (fs_device w_fs)) w_fs b"
    using w_free_block w_facts by (intro exI [of _ 6]) simp
  then show ?thesis
    using alloc_block_complete [OF w_fs_layout w_on_device w_accounting, of 2] w_facts by simp
qed

text \<open>The first allocation on the example, and its release.\<close>

lemma w_alloc: obtains fs' b where "alloc_block mem_ops w_fs 2 = (fs', Inr b)"
proof -
  have "\<exists>b. unat b < unat (sb_block_count (fs_cached_super_block w_fs)) \<and> block_is_free (mem_contents (fs_device w_fs)) w_fs b"
    using w_free_block w_facts by (intro exI [of _ 6]) simp
  then show ?thesis using alloc_block_total [OF w_fs_layout w_on_device w_accounting, of 2] w_facts that by auto
qed

theorem alloc_block_correct_witness:
  "\<exists>fs' b. alloc_block mem_ops w_fs 2 = (fs', Inr b) \<and> block_is_free (mem_contents (fs_device w_fs)) w_fs b \<and>
     \<not> block_is_free (mem_contents (fs_device fs')) fs' b \<and> block_accounting (mem_contents (fs_device fs')) fs'"
proof -
  obtain fs' b where a: "alloc_block mem_ops w_fs 2 = (fs', Inr b)" by (rule w_alloc)
  note c = alloc_block_correct [OF mem.block_device_axioms w_fs_layout a]
  then show ?thesis using a w_accounting by blast
qed

theorem dealloc_block_correct_witness:
  "\<exists>fs'. dealloc_block mem_ops w_fs 5 = (fs', Inr ()) \<and> block_is_free (mem_contents (fs_device fs')) fs' 5 \<and>
     block_accounting (mem_contents (fs_device fs')) fs'"
proof -
  have "\<not> block_is_free (mem_contents (fs_device w_fs)) w_fs 5" using w_free_positions by (simp add: block_is_free_def w_facts Let_def)
  then obtain fs' where d: "dealloc_block mem_ops w_fs 5 = (fs', Inr ())"
    using dealloc_block_total [OF w_fs_layout w_on_device w_accounting, of 5] w_facts by auto
  note c = dealloc_block_correct [OF mem.block_device_axioms w_fs_layout d]
  have "unat (5 :: u64) < unat (sb_block_count (fs_cached_super_block w_fs))" by (simp add: w_facts)
  then show ?thesis using d c w_accounting by blast
qed

end
