(* ===== verification/Extent_Tree.thy ===== *)
theory Extent_Tree
  imports Allocation Extent_Node
begin

text \<open>
  The extent tree of an inode, \<^verbatim>\<open>src/ext4/extent.rs\<close>: the root in \<^verbatim>\<open>i_block\<close>, inner nodes and
  leaves in blocks of the device. Here are the validation of nodes, the search, the walks over the
  tree, insertion with splits, the append of a direct range write, and the removal of the tail.

  The walks that follow child pointers without checking that the depth decreases need not end: they
  are partial functions with result \<open>None\<close> for a run that does not end, and the operations that
  call them abort there (the path or the stack grows until memory is exhausted).
\<close>

section \<open>Runs that may not end\<close>

definition obind :: "'a res option \<Rightarrow> ('a \<Rightarrow> 'b res option) \<Rightarrow> 'b res option" where
  "obind m f = Option.bind m (\<lambda>r. case r of Inl e \<Rightarrow> Some (Inl e) | Inr x \<Rightarrow> f x)"

definition or_abort :: "'a res option \<Rightarrow> 'a res" where
  "or_abort m = (case m of None \<Rightarrow> Inl Panic | Some r \<Rightarrow> r)"

lemma obind_simps [simp]:
  "obind None f = None" "obind (Some (Inl e)) f = Some (Inl e)" "obind (Some (Inr x)) f = f x"
  by (simp_all add: obind_def)

lemma or_abort_simps [simp]: "or_abort None = Inl Panic" "or_abort (Some r) = r"
  by (simp_all add: or_abort_def)

lemma obind_Some_rbind: "obind (Some (rbind m f)) g = obind (Some m) (\<lambda>x. obind (Some (f x)) g)"
  by (cases m) simp_all

lemma obind_mono [partial_function_mono]:
  assumes m: "mono_option B" and f: "\<And>y. mono_option (\<lambda>g. C y g)"
  shows "mono_option (\<lambda>g. obind (B g) (\<lambda>y. C y g))"
  unfolding obind_def
proof (rule bind_mono [OF m])
  fix y
  show "mono_option (\<lambda>g. case y of Inl e \<Rightarrow> Some (Inl e) | Inr x \<Rightarrow> C x g)"
    using f by (cases y) (simp_all add: option.const_mono)
qed

section \<open>Validation of nodes\<close>

definition MAX_EXTENT_DEPTH :: u16 where "MAX_EXTENT_DEPTH = 5"

definition ensure_valid_pblock :: "('d, 'z) ext4_scheme \<Rightarrow> PBlockId \<Rightarrow> unit res" where
  "ensure_valid_pblock fs pblock = guard (pblock < sb_block_count (fs_cached_super_block fs)) (Err EIO)"

text \<open>The two loops over the entries of a node, at the positions that remain.\<close>

fun validate_indices :: "bytes \<Rightarrow> LBlockId option \<Rightarrow> nat list \<Rightarrow> unit res" where
  "validate_indices node prev_lblock [] = Inr ()"
| "validate_indices node prev_lblock (i # is) =
     rbind (extent_index_at node i) (\<lambda>ex_idx.
     let cur = ei_first_block ex_idx in
     if (case prev_lblock of Some prev \<Rightarrow> cur \<le> prev | None \<Rightarrow> False) then Inl (Err EIO)
     else validate_indices node (Some cur) is)"

fun validate_extents :: "bytes \<Rightarrow> LBlockId option \<Rightarrow> nat list \<Rightarrow> unit res" where
  "validate_extents node prev_end_lblock [] = Inr ()"
| "validate_extents node prev_end_lblock (i # is) =
     rbind (extent_at node i) (\<lambda>ex.
     let cur_start = ex_first_block ex; cur_len = ex_block_count ex in
     if cur_len = 0 then Inl (Err EIO)
     else if (case prev_end_lblock of Some prev_end \<Rightarrow> cur_start < prev_end | None \<Rightarrow> False) then Inl (Err EIO)
     else
       rbind (ok_or (checked_add cur_start cur_len) EIO) (\<lambda>cur_end.
       validate_extents node (Some cur_end) is))"

definition validate_extent_node :: "bytes \<Rightarrow> unit res" where
  "validate_extent_node node =
     rbind (node_header node) (\<lambda>h.
     if \<not> header_check_magic h then Inl (Err EIO)
     else if eh_depth h > MAX_EXTENT_DEPTH then Inl (Err EIO)
     else if eh_entries_count h > eh_max_entries_count h then Inl (Err EIO)
     else
       rbind (entry_capacity node) (\<lambda>capacity.
       if unat (eh_max_entries_count h) > capacity \<or> unat (eh_entries_count h) > capacity then Inl (Err EIO)
       else
         let entries = unat (eh_entries_count h) in
         if eh_depth h > 0 then
           if entries = 0 then Inl (Err EIO) else validate_indices node None [0..<entries]
         else validate_extents node None [0..<entries]))"

section \<open>Blocks of the tree\<close>

definition extent_root :: "inode_ref \<Rightarrow> bytes" where
  "extent_root r = i_block (ir_inode r)"

definition set_extent_root :: "bytes \<Rightarrow> inode_ref \<Rightarrow> inode_ref" where
  "set_extent_root root r = r\<lparr>ir_inode := (ir_inode r)\<lparr>i_block := root\<rparr>\<rparr>"

definition inode_extent_checksum :: "('d, 'z) ext4_scheme \<Rightarrow> inode_ref \<Rightarrow> bytes \<Rightarrow> u32 res" where
  "inode_extent_checksum fs r img =
     extent_block_checksum (metadata_checksum_seed (fs_cached_super_block fs)) (ir_id r)
       (i_generation (ir_inode r)) img"

definition verify_extent_block_checksum :: "('d, 'z) ext4_scheme \<Rightarrow> inode_ref \<Rightarrow> bytes \<Rightarrow> unit res" where
  "verify_extent_block_checksum fs r img =
     (if \<not> has_read_only_compatible_feature (fs_cached_super_block fs) FEATURE_RO_COMPAT_METADATA_CSUM then Inr ()
      else if length img \<noteq> BLOCK_SIZE then Inl (Err EIO)
      else
        rbind (node_header img) (\<lambda>h.
        if unat (eh_max_entries_count h) \<noteq> (BLOCK_SIZE - 12) div 12 then Inl (Err EIO)
        else
          rbind (index_range img (BLOCK_SIZE - 4) 4) (\<lambda>stored.
          rbind (inode_extent_checksum fs r img) (\<lambda>calculated.
          if of_le stored \<noteq> calculated then Inl (Err EIO) else Inr ()))))"

definition read_extent_block ::
    "('d, 'y) device_ops_scheme \<Rightarrow> ('d, 'z) ext4_scheme \<Rightarrow> inode_ref \<Rightarrow> PBlockId \<Rightarrow> block res" where
  "read_extent_block ops fs r pblock =
     rbind (ensure_valid_pblock fs pblock) (\<lambda>_.
     rbind (fs_validate_data_blocks fs pblock 1) (\<lambda>_.
     rbind (fs_read_block ops fs pblock) (\<lambda>b.
     rbind (verify_extent_block_checksum fs r (blk_data b)) (\<lambda>_. Inr b))))"

definition set_extent_block_checksum :: "('d, 'z) ext4_scheme \<Rightarrow> inode_ref \<Rightarrow> bytes \<Rightarrow> bytes res" where
  "set_extent_block_checksum fs r img =
     rbind (inode_extent_checksum fs r img) (\<lambda>csum. write_range img (BLOCK_SIZE - 4) (le32 csum))"

definition write_extent_block ::
    "('d, 'y) device_ops_scheme \<Rightarrow> ('d, 'z) ext4_scheme \<Rightarrow> block \<Rightarrow> inode_ref \<Rightarrow> ('d, 'z) ext4_scheme \<times> unit res" where
  "write_extent_block ops fs b r =
     sbind (fs, set_extent_block_checksum fs r (blk_data b)) (\<lambda>fs img. fs_write_block ops fs (b\<lparr>blk_data := img\<rparr>))"

section \<open>Search\<close>

text \<open>\<^verbatim>\<open>ExtentSearchStep\<close>; block 0 stands for the root.\<close>

record search_step =
  st_pblock :: PBlockId
  st_index :: search

text \<open>The child of an inner node, read and validated.\<close>

definition child_node ::
    "('d, 'y) device_ops_scheme \<Rightarrow> ('d, 'z) ext4_scheme \<Rightarrow> inode_ref \<Rightarrow> PBlockId \<Rightarrow> bytes res" where
  "child_node ops fs r pblock =
     rbind (read_extent_block ops fs r pblock) (\<lambda>b.
     rbind (validate_extent_node (blk_data b)) (\<lambda>_. Inr (blk_data b)))"

partial_function (option) find_extent_loop ::
    "('d, 'y) device_ops_scheme \<Rightarrow> ('d, 'z) ext4_scheme \<Rightarrow> inode_ref \<Rightarrow> LBlockId \<Rightarrow> bytes \<Rightarrow> PBlockId \<Rightarrow>
     search_step list \<Rightarrow> search_step list res option" where
  "find_extent_loop ops fs r iblock node pblock path =
     obind (Some (node_header node)) (\<lambda>h.
     if eh_depth h > 0 then
       obind (Some (search_extent_index node iblock)) (\<lambda>s. case s of
         NotFound _ \<Rightarrow> Some (Inl (Err EIO))
       | Found index \<Rightarrow>
           obind (Some (extent_index_at node index)) (\<lambda>ex_idx.
           obind (Some (ensure_valid_pblock fs (ei_leaf ex_idx))) (\<lambda>_.
           obind (Some (child_node ops fs r (ei_leaf ex_idx))) (\<lambda>child.
           find_extent_loop ops fs r iblock child (ei_leaf ex_idx)
             (path @ [\<lparr>st_pblock = pblock, st_index = Found index\<rparr>])))))
     else
       obind (Some (search_extent node iblock)) (\<lambda>index.
       Some (Inr (path @ [\<lparr>st_pblock = pblock, st_index = index\<rparr>]))))"

definition find_extent_run ::
    "('d, 'y) device_ops_scheme \<Rightarrow> ('d, 'z) ext4_scheme \<Rightarrow> inode_ref \<Rightarrow> LBlockId \<Rightarrow> search_step list res option" where
  "find_extent_run ops fs r iblock =
     obind (Some (validate_extent_node (extent_root r))) (\<lambda>_.
     find_extent_loop ops fs r iblock (extent_root r) 0 [])"

definition find_extent ::
    "('d, 'y) device_ops_scheme \<Rightarrow> ('d, 'z) ext4_scheme \<Rightarrow> inode_ref \<Rightarrow> LBlockId \<Rightarrow> search_step list res" where
  "find_extent ops fs r iblock = or_abort (find_extent_run ops fs r iblock)"

text \<open>The physical block of a logical block inside an extent.\<close>

definition extent_pblock :: "extent \<Rightarrow> LBlockId \<Rightarrow> PBlockId res" where
  "extent_pblock ex iblock =
     rbind (sub_chk iblock (ex_first_block ex)) (\<lambda>n. add_chk (ex_start_pblock ex) (ucast n))"

definition extent_query ::
    "('d, 'y) device_ops_scheme \<Rightarrow> ('d, 'z) ext4_scheme \<Rightarrow> inode_ref \<Rightarrow> LBlockId \<Rightarrow> PBlockId res" where
  "extent_query ops fs r iblock =
     rbind (find_extent ops fs r iblock) (\<lambda>path.
     if path = [] then Inl (Err EIO)
     else
       let leaf = last path in
       case st_index leaf of
         NotFound _ \<Rightarrow> Inl (Err ENOENT)
       | Found index \<Rightarrow>
           rbind (if st_pblock leaf \<noteq> 0
                  then rbind (ensure_valid_pblock fs (st_pblock leaf)) (\<lambda>_.
                       rbind (read_extent_block ops fs r (st_pblock leaf)) (\<lambda>b. Inr (blk_data b)))
                  else Inr (extent_root r)) (\<lambda>node.
           rbind (extent_at node index) (\<lambda>ex.
           rbind (extent_pblock ex iblock) (\<lambda>pblock.
           rbind (ensure_valid_pblock fs pblock) (\<lambda>_.
           rbind (fs_validate_data_blocks fs pblock 1) (\<lambda>_. Inr pblock))))))"

section \<open>Walks over the tree\<close>

partial_function (option) extent_last_lblock_recursive ::
    "('d, 'y) device_ops_scheme \<Rightarrow> ('d, 'z) ext4_scheme \<Rightarrow> inode_ref \<Rightarrow> bytes \<Rightarrow> LBlockId res option" where
  "extent_last_lblock_recursive ops fs r node =
     obind (Some (node_header node)) (\<lambda>h.
     obind (Some (usize_sub (unat (eh_entries_count h)) 1)) (\<lambda>last.
     if eh_depth h = 0 then
       obind (Some (extent_at node last)) (\<lambda>ex. Some (add_chk (ex_first_block ex) (ex_block_count ex)))
     else
       obind (Some (extent_index_at node last)) (\<lambda>ex_idx.
       obind (Some (read_extent_block ops fs r (ei_leaf ex_idx))) (\<lambda>child.
       extent_last_lblock_recursive ops fs r (blk_data child)))))"

definition extent_next_data_lblock ::
    "('d, 'y) device_ops_scheme \<Rightarrow> ('d, 'z) ext4_scheme \<Rightarrow> inode_ref \<Rightarrow> LBlockId res" where
  "extent_next_data_lblock ops fs r =
     rbind (node_header (extent_root r)) (\<lambda>h.
     if eh_entries_count h = 0 then Inr 0
     else or_abort (extent_last_lblock_recursive ops fs r (extent_root r)))"

text \<open>The blocks of an extent; the sum does not overflow, as \<^verbatim>\<open>start_pblock\<close> is 48 bits wide.\<close>

definition extent_blocks :: "extent \<Rightarrow> PBlockId list" where
  "extent_blocks ex = map (\<lambda>j. ex_start_pblock ex + word_of_nat j) [0..<unat (ex_block_count ex)]"

text \<open>The two walks, from entry \<open>i\<close> of a node on, with the list collected so far.\<close>

partial_function (option) get_all_pblocks_recursive ::
    "('d, 'y) device_ops_scheme \<Rightarrow> ('d, 'z) ext4_scheme \<Rightarrow> inode_ref \<Rightarrow> bytes \<Rightarrow> nat \<Rightarrow> PBlockId list \<Rightarrow>
     PBlockId list res option" where
  "get_all_pblocks_recursive ops fs r node i pblocks =
     obind (Some (node_header node)) (\<lambda>h.
     if i < unat (eh_entries_count h) then
       if eh_depth h = 0 then
         obind (Some (extent_at node i)) (\<lambda>ex.
         get_all_pblocks_recursive ops fs r node (i + 1) (pblocks @ extent_blocks ex))
       else
         obind (Some (extent_index_at node i)) (\<lambda>ex_idx.
         obind (Some (child_node ops fs r (ei_leaf ex_idx))) (\<lambda>child.
         obind (get_all_pblocks_recursive ops fs r child 0 pblocks) (\<lambda>pblocks.
         get_all_pblocks_recursive ops fs r node (i + 1) pblocks)))
     else Some (Inr pblocks))"

partial_function (option) get_all_nodes_recursive ::
    "('d, 'y) device_ops_scheme \<Rightarrow> ('d, 'z) ext4_scheme \<Rightarrow> inode_ref \<Rightarrow> bytes \<Rightarrow> nat \<Rightarrow> PBlockId list \<Rightarrow>
     PBlockId list res option" where
  "get_all_nodes_recursive ops fs r node i pblocks =
     obind (Some (node_header node)) (\<lambda>h.
     if eh_depth h \<noteq> 0 \<and> i < unat (eh_entries_count h) then
       obind (Some (extent_index_at node i)) (\<lambda>ex_idx.
       obind (Some (child_node ops fs r (ei_leaf ex_idx))) (\<lambda>child.
       obind (get_all_nodes_recursive ops fs r child 0 (pblocks @ [ei_leaf ex_idx])) (\<lambda>pblocks.
       get_all_nodes_recursive ops fs r node (i + 1) pblocks)))
     else Some (Inr pblocks))"

definition extent_all_data_blocks ::
    "('d, 'y) device_ops_scheme \<Rightarrow> ('d, 'z) ext4_scheme \<Rightarrow> inode_ref \<Rightarrow> PBlockId list res" where
  "extent_all_data_blocks ops fs r = or_abort (get_all_pblocks_recursive ops fs r (extent_root r) 0 [])"

definition extent_all_tree_blocks ::
    "('d, 'y) device_ops_scheme \<Rightarrow> ('d, 'z) ext4_scheme \<Rightarrow> inode_ref \<Rightarrow> PBlockId list res" where
  "extent_all_tree_blocks ops fs r = or_abort (get_all_nodes_recursive ops fs r (extent_root r) 0 [])"


section \<open>Validation of a whole tree\<close>

text \<open>The depth of a child must be one less than that of its parent, which bounds the recursion.\<close>

definition node_depth :: "bytes \<Rightarrow> nat" where
  "node_depth node = (case node_header node of Inr h \<Rightarrow> unat (eh_depth h) | Inl _ \<Rightarrow> 0)"

definition node_count :: "bytes \<Rightarrow> nat" where
  "node_count node = (case node_header node of Inr h \<Rightarrow> unat (eh_entries_count h) | Inl _ \<Rightarrow> 0)"

definition child_of_depth ::
    "('d, 'y) device_ops_scheme \<Rightarrow> ('d, 'z) ext4_scheme \<Rightarrow> inode_ref \<Rightarrow> PBlockId \<Rightarrow> u16 \<Rightarrow> bytes res" where
  "child_of_depth ops fs r pblock depth =
     rbind (child_node ops fs r pblock) (\<lambda>child.
     rbind (node_header child) (\<lambda>hc.
     rbind (add_chk (eh_depth hc) 1) (\<lambda>d.
     if d \<noteq> depth then Inl (Err EIO) else Inr child)))"

lemma child_of_depth_less:
  "child_of_depth ops fs r pblock depth = Inr child \<Longrightarrow> node_depth child < unat depth"
  by (auto simp: child_of_depth_def node_depth_def res_elims split: if_splits dest!: unat_add_chk)

function validate_extent_subtree ::
    "('d, 'y) device_ops_scheme \<Rightarrow> ('d, 'z) ext4_scheme \<Rightarrow> inode_ref \<Rightarrow> bytes \<Rightarrow> nat \<Rightarrow> PBlockId set \<Rightarrow>
     PBlockId set res" where
  "validate_extent_subtree ops fs r node i visited =
     rbind (node_header node) (\<lambda>h.
     if eh_depth h \<noteq> 0 \<and> i < unat (eh_entries_count h) then
       rbind (extent_index_at node i) (\<lambda>ex_idx.
       let pblock = ei_leaf ex_idx in
       if pblock \<in> visited then Inl (Err EIO)
       else
         rbind (child_of_depth ops fs r pblock (eh_depth h)) (\<lambda>child.
         rbind (validate_extent_subtree ops fs r child 0 (insert pblock visited)) (\<lambda>visited.
         validate_extent_subtree ops fs r node (i + 1) visited)))
     else Inr visited)"
  by pat_completeness auto
termination
  by (relation "measures [\<lambda>(ops, fs, r, node, i, visited). node_depth node,
                          \<lambda>(ops, fs, r, node, i, visited). node_count node - i]")
    (auto simp: node_depth_def [of node for node] node_count_def dest!: child_of_depth_less)

declare validate_extent_subtree.simps [simp del]

definition validate_complete_extent_tree ::
    "('d, 'y) device_ops_scheme \<Rightarrow> ('d, 'z) ext4_scheme \<Rightarrow> inode_ref \<Rightarrow> unit res" where
  "validate_complete_extent_tree ops fs r =
     rbind (validate_extent_node (extent_root r)) (\<lambda>_.
     rbind (validate_extent_subtree ops fs r (extent_root r) 0 {}) (\<lambda>_. Inr ()))"

section \<open>Insertion\<close>

text \<open>The operations below change the file system and the caller's inode.\<close>

type_synonym ('d, 'z) inode_state = "('d, 'z) ext4_scheme \<times> inode_ref"

definition on_fs :: "inode_ref \<Rightarrow> ('d, 'z) ext4_scheme \<times> 'a res \<Rightarrow> ('d, 'z) inode_state \<times> 'a res" where
  "on_fs r m = (case m of (fs, x) \<Rightarrow> ((fs, r), x))"

fun put_fakes :: "bytes \<Rightarrow> nat \<Rightarrow> fake_extent list \<Rightarrow> bytes res" where
  "put_fakes node i [] = Inr node"
| "put_fakes node i (f # fs) = rbind (set_slot node i (fake_to_bytes f)) (\<lambda>node. put_fakes node (i + 1) fs)"

fun read_fakes :: "bytes \<Rightarrow> nat list \<Rightarrow> fake_extent list res" where
  "read_fakes node [] = Inr []"
| "read_fakes node (i # is) =
     rbind (fake_extent_at node i) (\<lambda>f. rbind (read_fakes node is) (\<lambda>fs. Inr (f # fs)))"

text \<open>A node of the given depth that holds the entries.\<close>

definition fill_node :: "bytes \<Rightarrow> u16 \<Rightarrow> fake_extent list \<Rightarrow> bytes res" where
  "fill_node node depth entries =
     rbind (node_init node depth 0) (\<lambda>node.
     rbind (put_fakes node 0 entries) (\<lambda>node.
     rbind (node_header node) (\<lambda>h.
     node_set_header node (h\<lparr>eh_entries_count := word_of_nat (length entries)\<rparr>))))"

text \<open>The index of the new right node goes into the parent. The right node is made with depth 0 and
  gets its depth from the parent.\<close>

definition insert_into_parent ::
    "('d, 'y) device_ops_scheme \<Rightarrow> ('d, 'z) inode_state \<Rightarrow> PBlockId \<Rightarrow> nat \<Rightarrow> extent_index \<Rightarrow>
     ('d, 'z) inode_state \<times> (u16 \<times> fake_extent list option) res" where
  "insert_into_parent ops s parent_pblock child_pos extent_index = (case s of (fs, r) \<Rightarrow>
     if parent_pblock = 0 then
       sbind (s, rbind (node_header (extent_root r)) (\<lambda>h.
                 rbind (insert_extent_index (extent_root r) extent_index (child_pos + 1)) (\<lambda>(root, res).
                 Inr (eh_depth h, root, res)))) (\<lambda>s (depth, root, res).
       sbind (write_inode_with_csum ops fs (set_extent_root root r)) (\<lambda>s _. (s, Inr (depth, res))))
     else
       sbind (s, rbind (read_extent_block ops fs r parent_pblock) (\<lambda>b.
                 rbind (node_header (blk_data b)) (\<lambda>h.
                 rbind (insert_extent_index (blk_data b) extent_index (child_pos + 1)) (\<lambda>(node, res).
                 Inr (eh_depth h, b\<lparr>blk_data := node\<rparr>, res))))) (\<lambda>s (depth, b, res).
       sbind (on_fs r (write_extent_block ops fs b r)) (\<lambda>s _. (s, Inr (depth, res)))))"

definition split_node ::
    "('d, 'y) device_ops_scheme \<Rightarrow> ('d, 'z) inode_state \<Rightarrow> PBlockId \<Rightarrow> nat \<Rightarrow> fake_extent list \<Rightarrow>
     ('d, 'z) inode_state \<times> fake_extent list option res" where
  "split_node ops s parent_pblock child_pos split = (case s of (fs, r) \<Rightarrow>
     sbind (on_fs r (alloc_block ops fs (ir_id r))) (\<lambda>(fs, r) right_bid.
     sbind ((fs, r), fs_read_block ops fs right_bid) (\<lambda>s right_block.
     sbind (s, fill_node (blk_data right_block) 0 split) (\<lambda>s right.
     sbind (s, extent_index_at right 0) (\<lambda>s first.
     let extent_index = extent_index_new (ei_first_block first) right_bid in
     sbind (insert_into_parent ops s parent_pblock child_pos extent_index) (\<lambda>(fs, r) (parent_depth, res).
     sbind ((fs, r), rbind (sub_chk parent_depth 1) (\<lambda>depth.
                     rbind (node_header right) (\<lambda>h. node_set_header right (h\<lparr>eh_depth := depth\<rparr>)))) (\<lambda>s right.
     sbind (on_fs r (write_extent_block ops fs (right_block\<lparr>blk_data := right\<rparr>) r)) (\<lambda>s _.
     (s, Inr res)))))))))"

text \<open>The images of the new root and of its two children.\<close>

definition split_images ::
    "bytes \<Rightarrow> fake_extent list \<Rightarrow> PBlockId \<Rightarrow> PBlockId \<Rightarrow> bytes \<Rightarrow> bytes \<Rightarrow> (bytes \<times> bytes \<times> bytes) res" where
  "split_images root split l_bid r_bid l_data r_data =
     rbind (node_header root) (\<lambda>h.
     rbind (read_fakes root [0..<unat (eh_entries_count h)]) (\<lambda>fakes.
     rbind (fill_node l_data (eh_depth h) fakes) (\<lambda>left.
     rbind (fill_node r_data (eh_depth h) split) (\<lambda>right.
     rbind (add_chk (eh_depth h) 1) (\<lambda>depth.
     rbind (node_set_header root (h\<lparr>eh_depth := depth, eh_entries_count := 2\<rparr>)) (\<lambda>root.
     rbind (extent_at left 0) (\<lambda>lx.
     rbind (set_slot root 0 (extent_index_to_bytes (extent_index_new (ex_first_block lx) l_bid))) (\<lambda>root.
     rbind (extent_at right 0) (\<lambda>rx.
     rbind (set_slot root 1 (extent_index_to_bytes (extent_index_new (ex_first_block rx) r_bid))) (\<lambda>root.
     Inr (root, left, right)))))))))))"

definition split_root ::
    "('d, 'y) device_ops_scheme \<Rightarrow> ('d, 'z) inode_state \<Rightarrow> fake_extent list \<Rightarrow> ('d, 'z) inode_state \<times> unit res" where
  "split_root ops s split = (case s of (fs, r) \<Rightarrow>
     sbind (on_fs r (alloc_block ops fs (ir_id r))) (\<lambda>(fs, r) l_bid.
     sbind (on_fs r (alloc_block ops fs (ir_id r))) (\<lambda>(fs, r) r_bid.
     sbind ((fs, r), fs_read_block ops fs l_bid) (\<lambda>s l_block.
     sbind (s, fs_read_block ops fs r_bid) (\<lambda>s r_block.
     sbind (s, split_images (extent_root r) split l_bid r_bid (blk_data l_block) (blk_data r_block))
       (\<lambda>s (root, left, right).
     let r = set_extent_root root r in
     sbind (on_fs r (write_extent_block ops fs (l_block\<lparr>blk_data := left\<rparr>) r)) (\<lambda>(fs, r) _.
     sbind (on_fs r (write_extent_block ops fs (r_block\<lparr>blk_data := right\<rparr>) r)) (\<lambda>(fs, r) _.
     write_inode_with_csum ops fs r))))))))"

text \<open>The loop over the parents of a split node, from the leaf's parent up to the root.\<close>

fun insert_splits ::
    "('d, 'y) device_ops_scheme \<Rightarrow> ('d, 'z) inode_state \<Rightarrow> search_step list \<Rightarrow> fake_extent list \<Rightarrow>
     ('d, 'z) inode_state \<times> unit res" where
  "insert_splits ops s [] split = split_root ops s split"
| "insert_splits ops s (parent # parents) split =
     (case st_index parent of
        NotFound _ \<Rightarrow> (s, Inl (Err EIO))
      | Found parent_index \<Rightarrow>
          sbind (split_node ops s (st_pblock parent) parent_index split) (\<lambda>s res.
          case res of
            None \<Rightarrow> (s, Inr ())
          | Some split_again \<Rightarrow> insert_splits ops s parents split_again))"

definition tree_insert_extent ::
    "('d, 'y) device_ops_scheme \<Rightarrow> ('d, 'z) inode_state \<Rightarrow> search_step list \<Rightarrow> extent \<Rightarrow>
     ('d, 'z) inode_state \<times> unit res" where
  "tree_insert_extent ops s path new_ext = (case s of (fs, r) \<Rightarrow>
     if path = [] then (s, Inl (Err EIO))
     else
       let leaf = last path in
       case st_index leaf of
         Found _ \<Rightarrow> (s, Inl Panic)
       | NotFound pos \<Rightarrow>
           if st_pblock leaf = 0 then
             sbind (s, insert_extent (extent_root r) new_ext pos) (\<lambda>s (root, res).
             sbind (write_inode_with_csum ops fs (set_extent_root root r)) (\<lambda>s _.
             case res of None \<Rightarrow> (s, Inr ()) | Some split \<Rightarrow> split_root ops s split))
           else
             sbind (s, rbind (read_extent_block ops fs r (st_pblock leaf)) (\<lambda>b.
                       rbind (insert_extent (blk_data b) new_ext pos) (\<lambda>(node, res).
                       Inr (b\<lparr>blk_data := node\<rparr>, res)))) (\<lambda>s (b, res).
             sbind (on_fs r (write_extent_block ops fs b r)) (\<lambda>s _.
             case res of None \<Rightarrow> (s, Inr ()) | Some split \<Rightarrow> insert_splits ops s (tl (rev path)) split)))"


section \<open>Mapping a block\<close>

definition MAX_BLOCKS :: LBlockId where "MAX_BLOCKS = -1"

text \<open>The previous extent is rebuilt from its length, without its unwritten mark.\<close>

definition merge_candidate :: "extent \<Rightarrow> extent \<Rightarrow> extent option res" where
  "merge_candidate prev new_ext =
     (let prev_count = ex_block_count prev;
          prev_as_ext = extent_new (ex_first_block prev) (ex_start_pblock prev) (ucast prev_count) in
      rbind (extent_can_append prev_as_ext new_ext) (\<lambda>mergeable.
      if mergeable then
        rbind (add_chk prev_count (ex_block_count new_ext)) (\<lambda>merged_count.
        Inr (Some (extent_new (ex_first_block prev) (ex_start_pblock prev) (ucast merged_count))))
      else Inr None))"

text \<open>The block allocated for the new extent, and the mapping that makes it reachable.\<close>

definition store_merged ::
    "('d, 'y) device_ops_scheme \<Rightarrow> ('d, 'z) inode_state \<Rightarrow> PBlockId \<Rightarrow> nat \<Rightarrow> extent \<Rightarrow> ('d, 'z) inode_state \<times> unit res" where
  "store_merged ops s leaf_pblock prev_idx merged = (case s of (fs, r) \<Rightarrow>
     if leaf_pblock \<noteq> 0 then
       sbind (s, rbind (read_extent_block ops fs r leaf_pblock) (\<lambda>b.
                 rbind (set_slot (blk_data b) prev_idx (extent_to_bytes merged)) (\<lambda>node.
                 Inr (b\<lparr>blk_data := node\<rparr>)))) (\<lambda>s b.
       on_fs r (write_extent_block ops fs b r))
     else
       sbind (s, set_slot (extent_root r) prev_idx (extent_to_bytes merged)) (\<lambda>s root.
       write_inode_with_csum ops fs (set_extent_root root r)))"

definition map_new_extent ::
    "('d, 'y) device_ops_scheme \<Rightarrow> ('d, 'z) inode_state \<Rightarrow> search_step list \<Rightarrow> nat \<Rightarrow> extent option \<Rightarrow> extent \<Rightarrow>
     ('d, 'z) inode_state \<times> unit res" where
  "map_new_extent ops s path insert_pos prev new_ext =
     sbind (s, case prev of None \<Rightarrow> Inr None | Some prev \<Rightarrow> merge_candidate prev new_ext) (\<lambda>s merged.
     case merged of
       Some merged \<Rightarrow> store_merged ops s (st_pblock (last path)) (insert_pos - 1) merged
     | None \<Rightarrow> tree_insert_extent ops s path new_ext)"

definition extent_query_or_create_initialized ::
    "('d, 'y) device_ops_scheme \<Rightarrow> ('d, 'z) inode_state \<Rightarrow> LBlockId \<Rightarrow> u32 \<Rightarrow> bytes option \<Rightarrow>
     ('d, 'z) inode_state \<times> PBlockId res" where
  "extent_query_or_create_initialized ops s iblock block_count initial_image = (case s of (fs, r) \<Rightarrow>
     sbind (s, find_extent ops fs r iblock) (\<lambda>s path.
     if path = [] then (s, Inl (Err EIO))
     else
       let leaf = last path in
       sbind (s, if st_pblock leaf \<noteq> 0
                 then rbind (read_extent_block ops fs r (st_pblock leaf)) (\<lambda>b. Inr (blk_data b))
                 else Inr (extent_root r)) (\<lambda>s node.
       case st_index leaf of
         Found index \<Rightarrow> (s, rbind (extent_at node index) (\<lambda>ex. extent_pblock ex iblock))
       | NotFound insert_pos \<Rightarrow>
           sbind (s, if insert_pos > 0 then rbind (extent_at node (insert_pos - 1)) (\<lambda>prev. Inr (Some prev))
                     else Inr None) (\<lambda>s prev.
           let block_count = min block_count (MAX_BLOCKS - iblock) in
           sbind (on_fs r (case initial_image of
                    Some img \<Rightarrow> alloc_initialized_data_block ops fs (ir_id r) img
                  | None \<Rightarrow> alloc_zeroed_data_block ops fs (ir_id r))) (\<lambda>s fblock.
           sbind (map_new_extent ops s path insert_pos prev (extent_new iblock fblock (ucast block_count))) (\<lambda>s _.
           (s, Inr fblock)))))))"

definition extent_query_or_create ::
    "('d, 'y) device_ops_scheme \<Rightarrow> ('d, 'z) inode_state \<Rightarrow> LBlockId \<Rightarrow> u32 \<Rightarrow> ('d, 'z) inode_state \<times> PBlockId res" where
  "extent_query_or_create ops s iblock block_count = extent_query_or_create_initialized ops s iblock block_count None"

section \<open>Appending a direct range\<close>

record direct_append_shape =
  preferred_first :: "PBlockId option"
  requires_merge :: bool

definition direct_append_shape_of ::
    "('d, 'z) ext4_scheme \<Rightarrow> inode_ref \<Rightarrow> LBlockId \<Rightarrow> u32 \<Rightarrow> direct_append_shape option res" where
  "direct_append_shape_of fs r start_lblock count =
     (let root = extent_root r in
      if count = 0 \<or> count > 65535 \<or> \<not> uses_extents (ir_inode r) then Inr None
      else
        rbind (node_header root) (\<lambda>h.
        rbind (validate_extent_node root) (\<lambda>_.
        rbind (entry_capacity root) (\<lambda>capacity.
        if eh_depth h \<noteq> 0 \<or> unat (eh_max_entries_count h) \<noteq> capacity \<or> unat (eh_entries_count h) > capacity
        then Inr None
        else
          let entries = unat (eh_entries_count h) in
          if entries = 0 then
            Inr (if start_lblock = 0 then Some \<lparr>preferred_first = None, requires_merge = False\<rparr> else None)
          else
            rbind (extent_at root (entries - 1)) (\<lambda>last.
            if ex_is_unwritten last then Inr None
            else
              rbind (fold (\<lambda>i m. rbind m (\<lambda>_. rbind (extent_at root i) (\<lambda>ex.
                       fs_validate_data_blocks fs (ex_start_pblock ex) (ucast (ex_block_count ex)))))
                     [0..<entries] (Inr ())) (\<lambda>_.
              rbind (ok_or (checked_add (ex_first_block last) (ex_block_count last)) EFBIG) (\<lambda>next_lblock.
              if next_lblock \<noteq> start_lblock then Inr None
              else
                rbind (ok_or (checked_add (ex_start_pblock last) (ucast (ex_block_count last))) EFBIG) (\<lambda>first.
                rbind (extent_can_append last (extent_new start_lblock first (ucast count))) (\<lambda>can_merge.
                let root_full = eh_entries_count h = eh_max_entries_count h in
                if root_full \<and> \<not> can_merge then Inr None
                else Inr (Some \<lparr>preferred_first = Some first, requires_merge = root_full\<rparr>))))))))))"

text \<open>On success and on error the caller's inode is the one changed so far.\<close>

definition stage_root_insert :: "inode_ref \<Rightarrow> extent \<Rightarrow> nat \<Rightarrow> inode_ref \<times> unit res" where
  "stage_root_insert r ex pos =
     sbind (r, insert_extent (extent_root r) ex pos) (\<lambda>r (root, res).
     (set_extent_root root r, case res of None \<Rightarrow> Inr () | Some _ \<Rightarrow> Inl (Err ENOTSUP)))"

definition stage_direct_append_extent ::
    "inode_ref \<Rightarrow> LBlockId \<Rightarrow> PBlockId \<Rightarrow> u32 \<Rightarrow> inode_ref \<times> unit res" where
  "stage_direct_append_extent r start_lblock start_pblock count =
     (let new_extent = extent_new start_lblock start_pblock (ucast count) in
      sbind (sbind (r, node_header (extent_root r)) (\<lambda>r h.
             let entries = unat (eh_entries_count h) in
             if entries > 0 then
               sbind (r, extent_at (extent_root r) (entries - 1)) (\<lambda>r last.
               sbind (r, extent_can_append last new_extent) (\<lambda>r can_merge.
               if can_merge then
                 sbind (r, rbind (add_chk (ex_block_count last) count) (\<lambda>n.
                           set_slot (extent_root r) (entries - 1) (extent_to_bytes (ex_set_block_count n last))))
                   (\<lambda>r root. (set_extent_root root r, Inr ()))
               else stage_root_insert r new_extent entries))
             else stage_root_insert r new_extent 0)) (\<lambda>r _.
      sbind (r, inode_fs_block_count (ir_inode r)) (\<lambda>r n.
      sbind (r, ok_or (checked_add n (ucast count)) EFBIG) (\<lambda>r blocks.
      sbind (r, inode_set_fs_block_count blocks (ir_inode r)) (\<lambda>r inode.
      (r\<lparr>ir_inode := inode\<rparr>, Inr ()))))))"


section \<open>Removing the tail\<close>

record extent_tail =
  tl_start_lblock :: LBlockId
  tl_start_pblock :: PBlockId
  tl_block_count :: u32
  tl_unwritten :: bool

record extent_tail_removal =
  rm_start_lblock :: LBlockId
  rm_start_pblock :: PBlockId
  rm_block_count :: u32
  rm_metadata_blocks :: "PBlockId list"

definition tail_description :: "extent \<Rightarrow> extent_tail" where
  "tail_description x = \<lparr>tl_start_lblock = ex_first_block x, tl_start_pblock = ex_start_pblock x,
     tl_block_count = ex_block_count x, tl_unwritten = ex_is_unwritten x\<rparr>"

text \<open>A node of the right edge below a node of the given depth; both walks along the edge make these checks.\<close>

definition tail_node ::
    "('d, 'y) device_ops_scheme \<Rightarrow> ('d, 'z) ext4_scheme \<Rightarrow> transaction \<Rightarrow> inode_ref \<Rightarrow> PBlockId \<Rightarrow> u16 \<Rightarrow>
     (bytes \<times> extent_header) res" where
  "tail_node ops fs tx r pblock depth =
     rbind (ensure_valid_pblock fs pblock) (\<lambda>_.
     rbind (tx_read ops (fs_device fs) tx pblock) (\<lambda>node.
     rbind (verify_extent_block_checksum fs r node) (\<lambda>_.
     rbind (validate_extent_node node) (\<lambda>_.
     rbind (node_header node) (\<lambda>h.
     rbind (add_chk (eh_depth h) 1) (\<lambda>d.
     if d \<noteq> depth \<or> eh_entries_count h = 0 then Inl (Err EIO) else Inr (node, h)))))))"

lemma tail_node_less: "tail_node ops fs tx r pblock depth = Inr (node, h) \<Longrightarrow> unat (eh_depth h) < unat depth"
  by (auto simp: tail_node_def res_elims split: if_splits dest!: unat_add_chk)

text \<open>The blocks on the right edge below a node of depth \<open>depth\<close> whose last child is \<open>pblock\<close>, and the leaf.\<close>

function right_spine ::
    "('d, 'y) device_ops_scheme \<Rightarrow> ('d, 'z) ext4_scheme \<Rightarrow> transaction \<Rightarrow> inode_ref \<Rightarrow> PBlockId \<Rightarrow> u16 \<Rightarrow>
     PBlockId list \<Rightarrow> (PBlockId list \<times> bytes \<times> extent_header) res" where
  "right_spine ops fs tx r pblock depth path =
     rbind (tail_node ops fs tx r pblock depth) (\<lambda>(node, h).
     let path = path @ [pblock] in
     if eh_depth h = 0 then Inr (path, node, h)
     else
       rbind (extent_index_at node (unat (eh_entries_count h) - 1)) (\<lambda>ix.
       right_spine ops fs tx r (ei_leaf ix) (eh_depth h) path))"
  by pat_completeness auto
termination
  by (relation "measure (\<lambda>(ops, fs, tx, r, pblock, depth, path). unat depth)") (auto dest: tail_node_less)

declare right_spine.simps [simp del]

text \<open>The path below the root and the leaf of the tail; \<open>None\<close> for an empty tree.\<close>

definition tail_path ::
    "('d, 'y) device_ops_scheme \<Rightarrow> ('d, 'z) ext4_scheme \<Rightarrow> transaction \<Rightarrow> inode_ref \<Rightarrow>
     (PBlockId list \<times> bytes \<times> extent_header) option res" where
  "tail_path ops fs tx r =
     (let root = extent_root r in
      rbind (validate_extent_node root) (\<lambda>_.
      rbind (node_header root) (\<lambda>h.
      if eh_entries_count h = 0 then Inr None
      else if eh_depth h = 0 then Inr (Some ([], root, h))
      else
        rbind (extent_index_at root (unat (eh_entries_count h) - 1)) (\<lambda>ix.
        rbind (right_spine ops fs tx r (ei_leaf ix) (eh_depth h) []) (\<lambda>p. Inr (Some p))))))"

definition extent_tail_of ::
    "('d, 'y) device_ops_scheme \<Rightarrow> ('d, 'z) ext4_scheme \<Rightarrow> transaction \<Rightarrow> inode_ref \<Rightarrow> extent_tail option res" where
  "extent_tail_of ops fs tx r =
     rbind (tail_path ops fs tx r) (\<lambda>p. case p of
       None \<Rightarrow> Inr None
     | Some (_, node, h) \<Rightarrow>
         rbind (extent_at node (unat (eh_entries_count h) - 1)) (\<lambda>x. Inr (Some (tail_description x))))"

definition trim_leaf_tail :: "bytes \<Rightarrow> u32 \<Rightarrow> bytes res" where
  "trim_leaf_tail node remove =
     rbind (node_header node) (\<lambda>h.
     let entries = unat (eh_entries_count h) in
     if eh_depth h \<noteq> 0 \<or> entries = 0 then Inl (Err EIO)
     else
       rbind (extent_at node (entries - 1)) (\<lambda>last.
       let old_len = ex_block_count last in
       if remove = 0 \<or> remove > old_len then Inl (Err EINVAL)
       else if remove = old_len then rbind (remove_last_entry node) (\<lambda>(node, _). Inr node)
       else set_slot node (entries - 1) (extent_to_bytes (ex_set_block_count (old_len - remove) last))))"

text \<open>Change a staged tree block and seal it.\<close>

definition edit_extent_block ::
    "('d, 'y) device_ops_scheme \<Rightarrow> ('d, 'z) ext4_scheme \<Rightarrow> inode_ref \<Rightarrow> transaction \<Rightarrow> PBlockId \<Rightarrow> (bytes \<Rightarrow> bytes res) \<Rightarrow>
     transaction \<times> unit res" where
  "edit_extent_block ops fs r tx pblock edit =
     (case transaction_block_for_update ops fs tx pblock of
        Inl e \<Rightarrow> (tx, Inl e)
      | Inr (tx, img) \<Rightarrow>
          sbind (tx, rbind (edit img) (set_extent_block_checksum fs r)) (\<lambda>tx img.
          (tx_update tx pblock img, Inr ())))"

definition drop_last_entry :: "bytes \<Rightarrow> bytes res" where
  "drop_last_entry node = rbind (remove_last_entry node) (\<lambda>(node, _). Inr node)"

text \<open>The parents of an emptied leaf, lowest first: the detached nodes, and whether the root loses an entry.\<close>

fun detach_parents ::
    "('d, 'y) device_ops_scheme \<Rightarrow> ('d, 'z) ext4_scheme \<Rightarrow> inode_ref \<Rightarrow> transaction \<Rightarrow> PBlockId list \<Rightarrow> PBlockId list \<Rightarrow>
     transaction \<times> (PBlockId list \<times> bool) res" where
  "detach_parents ops fs r tx [] metadata_blocks = (tx, Inr (metadata_blocks, True))"
| "detach_parents ops fs r tx (pblock # parents) metadata_blocks =
     sbind (tx, rbind (tx_read ops (fs_device fs) tx pblock) node_header) (\<lambda>tx h.
     if eh_entries_count h = 0 then (tx, Inl (Err EIO))
     else if eh_entries_count h = 1 then detach_parents ops fs r tx parents (metadata_blocks @ [pblock])
     else sbind (edit_extent_block ops fs r tx pblock drop_last_entry) (\<lambda>tx _. (tx, Inr (metadata_blocks, False))))"

text \<open>The root loses its last entry; an empty root becomes a leaf again.\<close>

definition shrink_root :: "bytes \<Rightarrow> bytes res" where
  "shrink_root root =
     rbind (remove_last_entry root) (\<lambda>(root, removed).
     if \<not> removed then Inl (Err EIO)
     else rbind (node_header root) (\<lambda>h. if eh_entries_count h = 0 then node_init root 0 0 else Inr root))"

definition remove_from_leaf ::
    "('d, 'y) device_ops_scheme \<Rightarrow> ('d, 'z) ext4_scheme \<Rightarrow> transaction \<Rightarrow> inode_ref \<Rightarrow> PBlockId list \<Rightarrow> u32 \<Rightarrow> u32 \<Rightarrow>
     (transaction \<times> inode_ref) \<times> PBlockId list res" where
  "remove_from_leaf ops fs tx r path remove tail_count =
     (if path = [] then
        sbind ((tx, r), trim_leaf_tail (extent_root r) remove) (\<lambda>(tx, r) root. ((tx, set_extent_root root r), Inr []))
      else
        let leaf_pblock = last path in
        if remove < tail_count then
          (case edit_extent_block ops fs r tx leaf_pblock (\<lambda>leaf. trim_leaf_tail leaf remove) of
             (tx, x) \<Rightarrow> ((tx, r), rbind x (\<lambda>_. Inr [])))
        else
          sbind ((tx, r), rbind (tx_read ops (fs_device fs) tx leaf_pblock) node_header) (\<lambda>(tx, r) h.
          if eh_entries_count h > 1 then
            (case edit_extent_block ops fs r tx leaf_pblock drop_last_entry of
               (tx, x) \<Rightarrow> ((tx, r), rbind x (\<lambda>_. Inr [])))
          else
            sbind (case detach_parents ops fs r tx (rev (butlast path)) [leaf_pblock] of (tx, x) \<Rightarrow> ((tx, r), x))
              (\<lambda>(tx, r) (metadata_blocks, child_empty).
            if child_empty then
              sbind ((tx, r), shrink_root (extent_root r)) (\<lambda>(tx, r) root.
              ((tx, set_extent_root root r), Inr metadata_blocks))
            else ((tx, r), Inr metadata_blocks))))"

definition extent_remove_tail_in_transaction ::
    "('d, 'y) device_ops_scheme \<Rightarrow> ('d, 'z) ext4_scheme \<Rightarrow> transaction \<Rightarrow> inode_ref \<Rightarrow> u32 \<Rightarrow>
     (transaction \<times> inode_ref) \<times> extent_tail_removal option res" where
  "extent_remove_tail_in_transaction ops fs tx r max_blocks =
     (if max_blocks = 0 then ((tx, r), Inl (Err EINVAL))
      else
        sbind ((tx, r), tail_path ops fs tx r) (\<lambda>(tx, r) p. case p of
          None \<Rightarrow> ((tx, r), Inr None)
        | Some (path, _) \<Rightarrow>
            sbind ((tx, r), rbind (extent_tail_of ops fs tx r) (\<lambda>t. ok_or t EIO)) (\<lambda>(tx, r) tail.
            let remove = min max_blocks (tl_block_count tail); keep = tl_block_count tail - remove in
            sbind ((tx, r), rbind (add_chk (tl_start_lblock tail) (tl_block_count tail)) (\<lambda>ending.
                            rbind (add_chk (tl_start_pblock tail) (ucast keep)) (\<lambda>start_pblock.
                            Inr (ending - remove, start_pblock)))) (\<lambda>(tx, r) (start_lblock, start_pblock).
            sbind (remove_from_leaf ops fs tx r path remove (tl_block_count tail)) (\<lambda>s metadata_blocks.
            (s, Inr (Some \<lparr>rm_start_lblock = start_lblock, rm_start_pblock = start_pblock,
                           rm_block_count = remove, rm_metadata_blocks = metadata_blocks\<rparr>)))))))"

end
