(* ===== verification/Extent_Search.thy ===== *)
theory Extent_Search
  imports Extent_Tree
begin

text \<open>
  The tree that the blocks of an extent tree denote. \<open>etree\<close> is the tree of extents and indices,
  \<open>tree_on\<close> says that a node and the blocks below it hold such a tree, and \<open>tree_ordered\<close> that
  its keys partition the file. On them the search is a function of the tree: \<open>route_steps\<close> is the
  path it returns and \<open>mapped_at\<close> the block it finds. The validation of a whole tree accepts the
  trees without a repeated block, and the walks return the lists of their blocks.
\<close>

section \<open>Valid nodes\<close>

definition valid_node :: "bytes \<Rightarrow> extent_header \<Rightarrow> bytes list \<Rightarrow> bool" where
  "valid_node node h ss \<longleftrightarrow> node_wf node h ss \<and> header_check_magic h \<and> eh_depth h \<le> MAX_EXTENT_DEPTH \<and>
     (if eh_depth h = 0 then extents_sorted (node_entries h ss)
      else eh_entries_count h \<noteq> 0 \<and> sorted_wrt (<) (map ei_first_block (index_entries h ss)))"

fun extent_chain :: "nat \<Rightarrow> extent list \<Rightarrow> bool" where
  "extent_chain p [] \<longleftrightarrow> True"
| "extent_chain p (e # es) \<longleftrightarrow>
     0 < unat (ex_block_count e) \<and> p \<le> unat (ex_first_block e) \<and> ex_end e < 2 ^ 32 \<and> extent_chain (ex_end e) es"

lemma extent_chain_iff:
  "extent_chain p es \<longleftrightarrow> extents_sorted es \<and> (\<forall>e \<in> set es. p \<le> unat (ex_first_block e))"
proof (induction es arbitrary: p)
  case (Cons e es)
  have "ex_end e \<le> unat (ex_first_block x) \<Longrightarrow> p \<le> unat (ex_first_block e) \<Longrightarrow> p \<le> unat (ex_first_block x)" for x
    by (simp add: ex_end_def)
  then show ?case unfolding extent_chain.simps Cons.IH by (auto simp: extents_sorted_def)
qed (simp add: extents_sorted_def)

lemma validate_extents_iff:
  assumes "node_rep node h ss" "\<forall>i \<in> set is. i < length ss"
  shows "validate_extents node prev is = Inr () \<longleftrightarrow>
    extent_chain (case prev of None \<Rightarrow> 0 | Some p \<Rightarrow> unat p) (map (\<lambda>i. extent_from_bytes (ss ! i)) is)"
  using assms(2)
proof (induction "is" arbitrary: prev)
  case (Cons i "is")
  let ?e = "extent_from_bytes (ss ! i)"
  have e: "extent_at node i = Inr ?e" using Cons.prems assms(1) by (simp add: node_rep_extent)
  have z: "ex_block_count ?e = 0 \<longleftrightarrow> unat (ex_block_count ?e) = 0" by (simp add: unat_eq_0)
  have lt: "unat (ex_first_block ?e + ex_block_count ?e) = ex_end ?e" if "ex_end ?e < 2 ^ 32"
    using that by (simp add: ex_end_def unat_add_lt)
  show ?case
    using Cons.prems Cons.IH [of "Some (ex_first_block ?e + ex_block_count ?e)"] lt z
    by (auto simp: e Let_def checked_add_def ex_end_def [symmetric] word_less_nat_alt not_less split: option.splits if_splits)
qed simp

lemma validate_indices_iff:
  assumes "node_rep node h ss" "\<forall>i \<in> set is. i < length ss"
  shows "validate_indices node prev is = Inr () \<longleftrightarrow>
    sorted_wrt (<) ((case prev of None \<Rightarrow> [] | Some p \<Rightarrow> [p]) @ map (\<lambda>i. ei_first_block (extent_index_from_bytes (ss ! i))) is)"
  using assms(2)
proof (induction "is" arbitrary: prev)
  case (Cons i "is")
  have e: "extent_index_at node i = Inr (extent_index_from_bytes (ss ! i))"
    using Cons.prems assms(1) by (simp add: node_rep_extent)
  show ?case
    using Cons.prems Cons.IH [of "Some (ei_first_block (extent_index_from_bytes (ss ! i)))"]
    by (auto simp: e Let_def not_le split: option.splits if_splits dest: less_trans)
qed (simp split: option.splits)

lemma map_positions:
  "n \<le> length ss \<Longrightarrow> map (\<lambda>i. f (ss ! i)) [0..<n] = map f (take n ss)"
  by (simp add: list_eq_iff_nth_eq)

lemma validate_node_rep:
  assumes r: "node_rep node h ss" and m: "unat (eh_max_entries_count h) \<le> length ss"
  shows "validate_extent_node node = Inr () \<longleftrightarrow> valid_node node h ss"
proof (cases "eh_entries_count h \<le> eh_max_entries_count h")
  case True
  let ?n = "unat (eh_entries_count h)"
  have n: "?n \<le> length ss" using True m by (simp add: word_le_nat_alt)
  have l: "12 + 12 * length ss \<le> length node" and hd: "node_header node = Inr h" using r by (simp_all add: node_rep_def)
  have "length ss \<le> (length node - 12) div 12" using l by simp
  then have c: "\<not> (unat (eh_max_entries_count h) > (length node - 12) div 12 \<or> ?n > (length node - 12) div 12)"
    using m n by linarith
  have z: "eh_entries_count h = 0 \<longleftrightarrow> ?n = 0" by (simp add: unat_eq_0)
  have d: "eh_depth h > 0 \<longleftrightarrow> eh_depth h \<noteq> 0" by (simp add: word_neq_0_conv)
  have i: "\<forall>i \<in> set [0..<?n]. i < length ss" using n by simp
  have "validate_extents node None [0..<?n] = Inr () \<longleftrightarrow> extents_sorted (node_entries h ss)"
    using validate_extents_iff [OF r i, of None] n by (simp add: map_positions extent_chain_iff node_entries_def)
  moreover have "validate_indices node None [0..<?n] = Inr () \<longleftrightarrow> sorted_wrt (<) (map ei_first_block (index_entries h ss))"
    using validate_indices_iff [OF r i, of None] n
    by (simp add: map_positions index_entries_def comp_def flip: map_positions [where f = "\<lambda>s. ei_first_block (extent_index_from_bytes s)"])
  ultimately show ?thesis
    using True r m c l
    by (auto simp: validate_extent_node_def valid_node_def node_wf_def hd entry_capacity_def usize_sub_def Let_def z d not_less)
next
  case False
  then show ?thesis using r by (auto simp: validate_extent_node_def valid_node_def node_wf_def node_rep_def)
qed

lemma validated_node:
  assumes "validate_extent_node node = Inr ()"
  shows "\<exists>h ss. valid_node node h ss"
proof -
  obtain h where hd: "node_header node = Inr h" using assms by (auto simp: validate_extent_node_def res_elims)
  then have l: "12 \<le> length node" by (auto simp: node_header_def index_range_def split: if_splits)
  let ?ss = "node_slots node ((length node - 12) div 12)"
  have "12 * ((length node - 12) div 12) \<le> length node - 12" by simp
  then have r: "node_rep node h ?ss" using hd l by (simp add: node_rep_def)
  have "unat (eh_max_entries_count h) \<le> length ?ss"
    using assms l by (auto simp: validate_extent_node_def hd entry_capacity_def usize_sub_def Let_def not_less split: if_splits)
  then show ?thesis using validate_node_rep [OF r] assms by blast
qed

lemma valid_node_validates: "valid_node node h ss \<Longrightarrow> validate_extent_node node = Inr ()"
  using validate_node_rep [of node h ss] by (auto simp: valid_node_def node_wf_def)

lemma valid_node_header: "valid_node node h ss \<Longrightarrow> node_header node = Inr h"
  by (simp add: valid_node_def node_wf_def node_rep_def)

lemma valid_node_rep:
  "valid_node node h ss \<Longrightarrow> node_rep node h ss \<and> unat (eh_entries_count h) \<le> length ss"
  by (auto simp: valid_node_def node_wf_def word_le_nat_alt)

lemma valid_leaf: "valid_node node h ss \<Longrightarrow> eh_depth h = 0 \<Longrightarrow> extents_sorted (node_entries h ss)"
  by (simp add: valid_node_def)

lemma valid_inner:
  "valid_node node h ss \<Longrightarrow> eh_depth h \<noteq> 0 \<Longrightarrow>
   index_entries h ss \<noteq> [] \<and> sorted_wrt (<) (map ei_first_block (index_entries h ss))"
  using valid_node_rep [of node h ss] by (auto simp: valid_node_def index_entries_def unat_eq_0)

lemma valid_entry:
  assumes "valid_node node h ss" "i < unat (eh_entries_count h)"
  shows "extent_at node i = Inr (node_entries h ss ! i)" "extent_index_at node i = Inr (index_entries h ss ! i)"
  using valid_node_rep [OF assms(1)] assms(2) node_rep_extent [of node h ss i]
  by (simp_all add: node_entries_def index_entries_def)

section \<open>Trees\<close>

datatype etree = Leaf "extent list" | Inner "(extent_index \<times> etree) list"

text \<open>The extents in order, and the blocks of the nodes below the root, each before its descendants.\<close>

fun tree_extents :: "etree \<Rightarrow> extent list" where
  "tree_extents (Leaf xs) = xs"
| "tree_extents (Inner cs) = concat (map (\<lambda>c. tree_extents (snd c)) cs)"

fun tree_blocks :: "etree \<Rightarrow> PBlockId list" where
  "tree_blocks (Leaf xs) = []"
| "tree_blocks (Inner cs) = concat (map (\<lambda>c. ei_leaf (fst c) # tree_blocks (snd c)) cs)"

fun tree_on :: "(PBlockId \<Rightarrow> bytes res) \<Rightarrow> nat \<Rightarrow> bytes \<Rightarrow> etree \<Rightarrow> bool" where
  "tree_on fetch n node (Leaf xs) \<longleftrightarrow>
     n = 0 \<and> (\<exists>h ss. valid_node node h ss \<and> eh_depth h = 0 \<and> node_entries h ss = xs)"
| "tree_on fetch n node (Inner cs) \<longleftrightarrow>
     0 < n \<and> (\<exists>h ss. valid_node node h ss \<and> unat (eh_depth h) = n \<and> index_entries h ss = map fst cs) \<and>
     (\<forall>c \<in> set cs. \<exists>child. fetch (ei_leaf (fst c)) = Inr child \<and> tree_on fetch (n - 1) child (snd c))"

abbreviation key :: "extent_index \<times> etree \<Rightarrow> LBlockId" where
  "key c \<equiv> ei_first_block (fst c)"

text \<open>The end of the range of each child: the key of the next one, or that of the node.\<close>

definition key_ends :: "nat \<Rightarrow> (extent_index \<times> etree) list \<Rightarrow> nat list" where
  "key_ends hi cs = map (\<lambda>c. unat (key c)) (tl cs) @ [hi]"

lemma child_size: "c \<in> set cs \<Longrightarrow> size (snd c) < Suc (size_list f cs)" if "\<And>c. size (snd c) \<le> f c"
  using size_list_estimation' [of c cs "size (snd c)" f] that [of c] by simp

lemma zip_child_size [termination_simp]:
  "((ix, t), e) \<in> set (zip cs es) \<Longrightarrow> size t < Suc (size_list (\<lambda>c. Suc (size (snd c))) cs)"
  using child_size [of "\<lambda>c. Suc (size (snd c))" "(ix, t)" cs] by (auto dest: set_zip_leftD)

fun tree_ordered :: "nat \<Rightarrow> nat \<Rightarrow> etree \<Rightarrow> bool" where
  "tree_ordered lo hi (Leaf xs) \<longleftrightarrow> (\<forall>x \<in> set xs. lo \<le> unat (ex_first_block x) \<and> ex_end x \<le> hi)"
| "tree_ordered lo hi (Inner cs) \<longleftrightarrow>
     cs \<noteq> [] \<and> unat (key (hd cs)) = lo \<and> sorted_wrt (<) (map (\<lambda>c. unat (key c)) cs @ [hi]) \<and>
     (\<forall>(c, e) \<in> set (zip cs (key_ends hi cs)). tree_ordered (unat (key c)) e (snd c))"

text \<open>The search in a leaf and in an inner node.\<close>

definition leaf_search :: "extent list \<Rightarrow> LBlockId \<Rightarrow> search" where
  "leaf_search xs b =
     (let k = length (takeWhile (\<lambda>x. ex_end x \<le> unat b) xs) in
      if k < length xs \<and> ex_covers (xs ! k) b \<and> \<not> ex_is_unwritten (xs ! k) then Found k else NotFound k)"

definition child_pos :: "(extent_index \<times> etree) list \<Rightarrow> LBlockId \<Rightarrow> nat" where
  "child_pos cs b = length (takeWhile (\<lambda>c. key c \<le> b) cs) - 1"

lemma child_pos_less: "cs \<noteq> [] \<Longrightarrow> child_pos cs b < length cs"
  using length_takeWhile_le [of "\<lambda>c. key c \<le> b" cs] by (cases cs) (auto simp: child_pos_def)

lemma child_pos_size [termination_simp]:
  "cs \<noteq> [] \<Longrightarrow> size (snd (cs ! child_pos cs b)) < Suc (size_list (\<lambda>c. Suc (size (snd c))) cs)"
  using child_size [of "\<lambda>c. Suc (size (snd c))" "cs ! child_pos cs b" cs] by (simp add: child_pos_less)

fun route_steps :: "PBlockId \<Rightarrow> etree \<Rightarrow> LBlockId \<Rightarrow> search_step list" where
  "route_steps p (Leaf xs) b = [\<lparr>st_pblock = p, st_index = leaf_search xs b\<rparr>]"
| "route_steps p (Inner cs) b = (if cs = [] then [] else
     let c = cs ! child_pos cs b in
     \<lparr>st_pblock = p, st_index = Found (child_pos cs b)\<rparr> # route_steps (ei_leaf (fst c)) (snd c) b)"

text \<open>The leaf on the way to a block, and the block of the device that holds it.\<close>

fun route_leaf :: "PBlockId \<Rightarrow> etree \<Rightarrow> LBlockId \<Rightarrow> PBlockId \<times> extent list" where
  "route_leaf p (Leaf xs) b = (p, xs)"
| "route_leaf p (Inner cs) b = (if cs = [] then (p, []) else
     let c = cs ! child_pos cs b in route_leaf (ei_leaf (fst c)) (snd c) b)"

definition mapped_at :: "extent list \<Rightarrow> LBlockId \<Rightarrow> PBlockId option" where
  "mapped_at xs b = (case List.find (\<lambda>x. ex_covers x b) xs of
     Some x \<Rightarrow> if ex_is_unwritten x then None else Some (ex_start_pblock x + ucast (b - ex_first_block x))
   | None \<Rightarrow> None)"


section \<open>Ranges\<close>

lemma length_key_ends [simp]: "cs \<noteq> [] \<Longrightarrow> length (key_ends hi cs) = length cs"
  by (simp add: key_ends_def)

lemma key_ends_nth:
  "i < length cs \<Longrightarrow> key_ends hi cs ! i = (if i + 1 < length cs then unat (key (cs ! (i + 1))) else hi)"
  by (auto simp: key_ends_def nth_append nth_tl less_diff_conv)

lemma ordered_keys:
  assumes "tree_ordered lo hi (Inner cs)"
  shows "m < n \<Longrightarrow> n < length cs \<Longrightarrow> unat (key (cs ! m)) < unat (key (cs ! n))"
    and "n < length cs \<Longrightarrow> unat (key (cs ! n)) < hi"
proof -
  have "sorted_wrt (<) (map (\<lambda>c. unat (key c)) cs)" and e: "\<forall>c \<in> set cs. unat (key c) < hi"
    using assms by (auto simp: sorted_wrt_append)
  then show "m < n \<Longrightarrow> n < length cs \<Longrightarrow> unat (key (cs ! m)) < unat (key (cs ! n))"
    using sorted_wrt_nth_less [of "(<)" "map (\<lambda>c. unat (key c)) cs" m n] by simp
  show "n < length cs \<Longrightarrow> unat (key (cs ! n)) < hi" using e by simp
qed

lemma ordered_child:
  assumes "tree_ordered lo hi (Inner cs)" "i < length cs"
  shows "tree_ordered (unat (key (cs ! i))) (key_ends hi cs ! i) (snd (cs ! i))"
    and "lo \<le> unat (key (cs ! i))" and "key_ends hi cs ! i \<le> hi" and "unat (key (cs ! i)) < key_ends hi cs ! i"
proof -
  have h: "unat (key (hd cs)) = lo" and c: "cs \<noteq> []"
    and t: "\<forall>(c, e) \<in> set (zip cs (key_ends hi cs)). tree_ordered (unat (key c)) e (snd c)"
    using assms(1) by auto
  have "(cs ! i, key_ends hi cs ! i) \<in> set (zip cs (key_ends hi cs))"
    using assms(2) c by (auto simp: set_zip)
  then show "tree_ordered (unat (key (cs ! i))) (key_ends hi cs ! i) (snd (cs ! i))" using t by blast
  note k = ordered_keys(1) [OF assms(1)] and e = ordered_keys(2) [OF assms(1)]
  show "lo \<le> unat (key (cs ! i))"
    using k [of 0 i] assms(2) h c by (cases i) (auto simp: hd_conv_nth)
  show "key_ends hi cs ! i \<le> hi" "unat (key (cs ! i)) < key_ends hi cs ! i"
    using assms(2) k e by (auto simp: key_ends_nth less_imp_le)
qed

lemma ordered_extents:
  "tree_ordered lo hi t \<Longrightarrow> x \<in> set (tree_extents t) \<Longrightarrow> lo \<le> unat (ex_first_block x) \<and> ex_end x \<le> hi"
proof (induction t arbitrary: lo hi)
  case (Inner cs)
  then obtain c where "c \<in> set cs" "x \<in> set (tree_extents (snd c))" by auto
  then obtain i where i: "i < length cs" "x \<in> set (tree_extents (snd (cs ! i)))" by (metis in_set_conv_nth)
  have "cs ! i \<in> set cs" "snd (cs ! i) \<in> Basic_BNFs.snds (cs ! i)" using i(1) by (auto simp: snds.simps)
  from Inner.IH [OF this ordered_child(1) [OF Inner.prems(1) i(1)] i(2)]
  show ?case using ordered_child(2,3) [OF Inner.prems(1) i(1)] by linarith
qed auto

text \<open>The child that a search takes.\<close>

lemma child_pos_range:
  assumes "tree_ordered lo hi (Inner cs)" "lo \<le> unat b" "unat b < hi"
  shows "unat (key (cs ! child_pos cs b)) \<le> unat b" "unat b < key_ends hi cs ! child_pos cs b"
proof -
  let ?w = "takeWhile (\<lambda>c. key c \<le> b) cs"
  have c: "cs \<noteq> []" "unat (key (hd cs)) = lo" using assms(1) by auto
  then have n: "0 < length ?w" using assms(2) by (cases cs) (auto simp: word_le_nat_alt)
  have l: "length ?w \<le> length cs" by (rule length_takeWhile_le)
  have "?w ! (length ?w - 1) = cs ! (length ?w - 1)" using n by (intro takeWhile_nth) simp
  then have "cs ! child_pos cs b \<in> set ?w" using n nth_mem [of "length ?w - 1" ?w] by (simp add: child_pos_def)
  then show "unat (key (cs ! child_pos cs b)) \<le> unat b" by (auto simp: word_le_nat_alt dest: set_takeWhileD)
  have e: "length ?w - 1 < length cs" "length ?w - 1 + 1 = length ?w" using n l by linarith+
  have k: "key_ends hi cs ! (length ?w - 1) = (if length ?w < length cs then unat (key (cs ! length ?w)) else hi)"
    unfolding key_ends_nth [OF e(1)] e(2) by (rule refl)
  have "\<not> key (cs ! length ?w) \<le> b" if "length ?w < length cs" using that by (rule nth_length_takeWhile)
  then show "unat b < key_ends hi cs ! child_pos cs b"
    using assms(3) unfolding child_pos_def k by (simp add: word_le_nat_alt not_le)
qed

lemma other_child_range:
  assumes o: "tree_ordered lo hi (Inner cs)" and b: "lo \<le> unat b" "unat b < hi"
    and j: "j < length cs" "j \<noteq> child_pos cs b" and x: "x \<in> set (tree_extents (snd (cs ! j)))"
  shows "\<not> ex_covers x b"
proof -
  let ?i = "child_pos cs b"
  have i: "?i < length cs" using o by (intro child_pos_less) auto
  have r: "unat (key (cs ! j)) \<le> unat (ex_first_block x)" "ex_end x \<le> key_ends hi cs ! j"
    using ordered_extents [OF ordered_child(1) [OF o j(1)] x] by auto
  have k: "unat (key (cs ! m)) \<le> unat (key (cs ! n))" if "m \<le> n" "n < length cs" for m n
  proof (cases "m = n")
    case False
    then show ?thesis using ordered_keys(1) [OF o, of m n] that by simp
  qed simp
  show ?thesis
  proof (cases "j < ?i")
    case True
    then have "key_ends hi cs ! j = unat (key (cs ! (j + 1)))" using i by (simp add: key_ends_nth)
    also have "\<dots> \<le> unat (key (cs ! ?i))" using True i by (intro k) auto
    finally show ?thesis using r(2) child_pos_range(1) [OF o b] by (simp add: ex_covers_def)
  next
    case False
    then have "key_ends hi cs ! ?i = unat (key (cs ! (?i + 1)))" using j by (simp add: key_ends_nth)
    moreover have "\<dots> \<le> unat (key (cs ! j))" using False j by (intro k) auto
    ultimately show ?thesis using r(1) child_pos_range(2) [OF o b] by (simp add: ex_covers_def word_le_nat_alt)
  qed
qed

lemma list_find_append: "List.find P (xs @ ys) = (case List.find P xs of None \<Rightarrow> List.find P ys | Some x \<Rightarrow> Some x)"
  by (induction xs) auto

lemma find_concat_only:
  assumes "i < length xss" "\<And>j x. j < length xss \<Longrightarrow> j \<noteq> i \<Longrightarrow> x \<in> set (xss ! j) \<Longrightarrow> \<not> P x"
  shows "List.find P (concat xss) = List.find P (xss ! i)"
  using assms
proof (induction xss arbitrary: i)
  case (Cons xs xss)
  show ?case
  proof (cases i)
    case 0
    have "\<not> P x" if x: "x \<in> set (concat xss)" for x
    proof -
      obtain j where "j < length xss" "x \<in> set (xss ! j)" using x by (metis UN_E in_set_conv_nth set_concat)
      then show ?thesis using Cons.prems(2) [of "Suc j" x] 0 by simp
    qed
    then have "List.find P (concat xss) = None" unfolding find_None_iff by blast
    then show ?thesis using 0 by (simp add: list_find_append split: option.split)
  next
    case (Suc k)
    have "List.find P xs = None" using Cons.prems(2) [of 0] Suc by (auto simp: find_None_iff)
    moreover have "List.find P (concat xss) = List.find P (xss ! k)"
      using Cons.IH [of k] Cons.prems(1) Cons.prems(2) [of "Suc j" for j] Suc by simp
    ultimately show ?thesis using Suc by (simp add: list_find_append)
  qed
qed simp

lemma find_in_route:
  "tree_ordered lo hi t \<Longrightarrow> lo \<le> unat b \<Longrightarrow> unat b < hi \<Longrightarrow>
   List.find (\<lambda>x. ex_covers x b) (tree_extents t) = List.find (\<lambda>x. ex_covers x b) (snd (route_leaf p t b))"
proof (induction t arbitrary: lo hi p)
  case (Inner cs)
  let ?i = "child_pos cs b"
  have c: "cs \<noteq> []" using Inner.prems(1) by simp
  have i: "?i < length cs" using c by (rule child_pos_less)
  have m: "cs ! ?i \<in> set cs" "snd (cs ! ?i) \<in> Basic_BNFs.snds (cs ! ?i)" using i by (auto simp: snds.simps)
  have "List.find (\<lambda>x. ex_covers x b) (tree_extents (Inner cs)) =
      List.find (\<lambda>x. ex_covers x b) (map (\<lambda>c. tree_extents (snd c)) cs ! ?i)"
    unfolding tree_extents.simps
    by (rule find_concat_only) (use i other_child_range [OF Inner.prems] in auto)
  then show ?case
    using Inner.IH [OF m ordered_child(1) [OF Inner.prems(1) i] child_pos_range [OF Inner.prems]] i c by (simp add: Let_def)
qed simp

section \<open>The search on the device\<close>

lemma takeWhile_length:
  assumes "k \<le> length xs" "\<And>j. j < k \<Longrightarrow> P (xs ! j)" "k < length xs \<Longrightarrow> \<not> P (xs ! k)"
  shows "length (takeWhile P xs) = k"
  using takeWhile_eq_take_P_nth [of k xs P] assms by simp

lemma search_leaf:
  assumes v: "valid_node node h ss" and d: "eh_depth h = 0" and x: "node_entries h ss = xs"
  shows "search_extent node b = Inr (leaf_search xs b)"
proof -
  note s = valid_leaf [OF v d] and r = valid_node_rep [OF v]
  obtain k where k: "k \<le> length xs" "\<forall>j < k. ex_end (xs ! j) \<le> unat b"
    "(k < length xs \<and> ex_covers (xs ! k) b \<and> search_extent node b =
         Inr (if ex_is_unwritten (xs ! k) then NotFound k else Found k)) \<or>
     ((\<forall>j. k \<le> j \<and> j < length xs \<longrightarrow> b < ex_first_block (xs ! j)) \<and> search_extent node b = Inr (NotFound k))"
    using search_extent_rep [of node h ss b] r s x by auto
  have "ex_end (xs ! k) > unat b" if "k < length xs"
    using k(3) that by (auto simp: ex_covers_def ex_end_def word_less_nat_alt)
  then have "length (takeWhile (\<lambda>x. ex_end x \<le> unat b) xs) = k"
    using k(1,2) by (intro takeWhile_length) (auto simp: not_le)
  moreover have "\<not> ex_covers (xs ! k) b" if "b < ex_first_block (xs ! k)" using that by (simp add: ex_covers_def not_le)
  ultimately show ?thesis using k(3) by (auto simp: leaf_search_def Let_def)
qed

lemma search_inner:
  assumes v: "valid_node node h ss" and d: "eh_depth h \<noteq> 0" and x: "index_entries h ss = map fst cs"
  shows "search_extent_index node b = Inr (if key (hd cs) \<le> b then Found (child_pos cs b) else NotFound 0)"
proof -
  let ?n = "unat (eh_entries_count h)"
  have ne: "eh_entries_count h \<noteq> 0" using v d by (simp add: valid_node_def)
  have r: "node_rep node h ss" and n: "?n \<le> length ss" using valid_node_rep [OF v] by auto
  have l: "length cs = ?n" using x n length_index_entries [of h ss] by (metis length_map)
  then have c: "cs \<noteq> []" using ne by (auto simp: unat_eq_0)
  obtain k where k: "k \<le> ?n" "search_index_loop node ?n b 0 = Inr k"
    "\<forall>j < k. ei_first_block (index_entries h ss ! j) \<le> b" "k < ?n \<longrightarrow> b < ei_first_block (index_entries h ss ! k)"
    using search_index_loop_rep [OF r n index_entries_def, of 0 b] by auto
  have "length (takeWhile (\<lambda>c. key c \<le> b) cs) = k"
    using k l x by (intro takeWhile_length) (auto simp: not_le)
  moreover have "k = 0 \<longleftrightarrow> \<not> key (hd cs) \<le> b"
  proof (cases k)
    case 0
    then show ?thesis using k(4) l c x by (auto simp: hd_conv_nth not_le)
  next
    case (Suc m)
    then show ?thesis using k(1,3) l c x by (auto simp: hd_conv_nth)
  qed
  ultimately show ?thesis
    using k(2) ne valid_node_header [OF v] by (auto simp: search_extent_index_def child_pos_def)
qed

lemma child_node_ok:
  assumes "child_node ops fs r p = Inr node"
  shows "ensure_valid_pblock fs p = Inr ()" "fs_validate_data_blocks fs p 1 = Inr ()"
    "\<exists>b. read_extent_block ops fs r p = Inr b \<and> blk_data b = node" "validate_extent_node node = Inr ()"
  using assms by (auto simp: child_node_def read_extent_block_def res_elims)

lemma tree_on_header:
  assumes "tree_on fetch n node t"
  shows "\<exists>h ss. valid_node node h ss \<and> unat (eh_depth h) = n \<and> (n = 0 \<longleftrightarrow> (\<exists>xs. t = Leaf xs))"
  using assms by (cases t) auto

lemma inner_node:
  assumes "tree_on fetch n node (Inner cs)"
  obtains h ss where "valid_node node h ss" "eh_depth h \<noteq> 0" "unat (eh_depth h) = n"
    "index_entries h ss = map fst cs" "cs \<noteq> []" "unat (eh_entries_count h) = length cs" "node_header node = Inr h"
    "\<And>i. i < length cs \<Longrightarrow> extent_index_at node i = Inr (fst (cs ! i))"
    "\<And>i. i < length cs \<Longrightarrow> \<exists>child. fetch (ei_leaf (fst (cs ! i))) = Inr child \<and> tree_on fetch (n - 1) child (snd (cs ! i))"
proof -
  obtain h ss where v: "valid_node node h ss" "unat (eh_depth h) = n" "index_entries h ss = map fst cs" and n: "0 < n"
    and ch: "\<forall>c \<in> set cs. \<exists>child. fetch (ei_leaf (fst c)) = Inr child \<and> tree_on fetch (n - 1) child (snd c)"
    using assms by auto
  have d: "eh_depth h \<noteq> 0" using v(2) n by auto
  have l: "unat (eh_entries_count h) = length cs"
    using valid_node_rep [OF v(1)] length_index_entries [of h ss] v(3) by (metis length_map)
  have e: "extent_index_at node i = Inr (fst (cs ! i))" if "i < length cs" for i
    using valid_entry(2) [OF v(1), of i] v(3) l that by simp
  have "index_entries h ss \<noteq> []" using valid_inner [OF v(1) d] by simp
  then show ?thesis using that [OF v(1) d v(2,3) _ l valid_node_header [OF v(1)] e] ch v(3) by auto
qed

lemma leaf_node:
  assumes "tree_on fetch n node (Leaf xs)"
  obtains h ss where "valid_node node h ss" "eh_depth h = 0" "node_entries h ss = xs" "node_header node = Inr h"
    "unat (eh_entries_count h) = length xs" "extents_sorted xs" "\<And>i. i < length xs \<Longrightarrow> extent_at node i = Inr (xs ! i)"
proof -
  obtain h ss where v: "valid_node node h ss" "eh_depth h = 0" "node_entries h ss = xs" using assms by auto
  have l: "unat (eh_entries_count h) = length xs"
    using valid_node_rep [OF v(1)] length_node_entries [of h ss] v(3) by simp
  show ?thesis
    using that [OF v(1-3) valid_node_header [OF v(1)] l] valid_leaf [OF v(1,2)] valid_entry(1) [OF v(1)] v(3) l by simp
qed

text \<open>An inner root does not answer for the blocks before its first key.\<close>

fun out_of_reach :: "etree \<Rightarrow> LBlockId \<Rightarrow> bool" where
  "out_of_reach (Leaf xs) b = False"
| "out_of_reach (Inner cs) b = (b < key (hd cs))"

lemma find_loop_route:
  "tree_on (child_node ops fs r) n node t \<Longrightarrow> tree_ordered lo hi t \<Longrightarrow> unat b < hi \<Longrightarrow> \<not> out_of_reach t b \<Longrightarrow>
   find_extent_loop ops fs r b node p path = Some (Inr (path @ route_steps p t b))"
proof (induction t arbitrary: n node lo hi p path)
  case (Leaf xs)
  obtain h ss where v: "valid_node node h ss" "eh_depth h = 0" "node_entries h ss = xs" "node_header node = Inr h"
    using Leaf.prems(1) by (rule leaf_node)
  show ?case using v search_leaf [OF v(1-3)] by (subst find_extent_loop.simps) simp
next
  case (Inner cs)
  let ?i = "child_pos cs b"
  from Inner.prems(1) obtain h ss where v: "valid_node node h ss" "eh_depth h \<noteq> 0" "index_entries h ss = map fst cs"
    and c: "cs \<noteq> []" and hd: "node_header node = Inr h" and ix: "\<And>i. i < length cs \<Longrightarrow> extent_index_at node i = Inr (fst (cs ! i))"
    and ch: "\<And>i. i < length cs \<Longrightarrow> \<exists>child. child_node ops fs r (ei_leaf (fst (cs ! i))) = Inr child \<and>
      tree_on (child_node ops fs r) (n - 1) child (snd (cs ! i))"
    by (rule inner_node) blast
  have lo: "lo \<le> unat b" using Inner.prems(2,4) by (auto simp: not_less word_le_nat_alt)
  have i: "?i < length cs" using c by (rule child_pos_less)
  have m: "cs ! ?i \<in> set cs" "snd (cs ! ?i) \<in> Basic_BNFs.snds (cs ! ?i)" using i by (auto simp: snds.simps)
  obtain child where child: "child_node ops fs r (ei_leaf (fst (cs ! ?i))) = Inr child"
    "tree_on (child_node ops fs r) (n - 1) child (snd (cs ! ?i))" using ch [OF i] by blast
  have reach: "\<not> out_of_reach (snd (cs ! ?i)) b"
    using ordered_child(1) [OF Inner.prems(2) i] child_pos_range(1) [OF Inner.prems(2) lo Inner.prems(3)]
    by (cases "snd (cs ! ?i)") (auto simp: not_less word_le_nat_alt)
  note IH = Inner.IH [OF m child(2) ordered_child(1) [OF Inner.prems(2) i] child_pos_range(2) [OF Inner.prems(2) lo Inner.prems(3)] reach]
  show ?case
    using v hd Inner.prems(4) search_inner [OF v, of b] ix [OF i] child(1) child_node_ok(1) [OF child(1)] c
    by (subst find_extent_loop.simps) (simp add: IH Let_def not_less word_neq_0_conv [symmetric])
qed

theorem find_extent_route:
  assumes t: "tree_on (child_node ops fs r) n (extent_root r) t" and o: "tree_ordered lo hi t" and b: "unat b < hi"
  shows "find_extent_run ops fs r b = Some (if out_of_reach t b then Inl (Err EIO) else Inr (route_steps 0 t b))"
proof -
  obtain h ss where v: "valid_node (extent_root r) h ss" using tree_on_header [OF t] by blast
  show ?thesis
  proof (cases "out_of_reach t b")
    case True
    then obtain cs where cs: "t = Inner cs" "\<not> key (hd cs) \<le> b" by (cases t) auto
    from t [unfolded cs] obtain h ss where v: "valid_node (extent_root r) h ss" "eh_depth h \<noteq> 0" "index_entries h ss = map fst cs"
      and hd: "node_header (extent_root r) = Inr h" by (rule inner_node)
    show ?thesis
      using True cs hd v search_inner [OF v, of b] valid_node_validates [OF v(1)]
      by (simp add: find_extent_run_def, subst find_extent_loop.simps) (simp add: word_neq_0_conv [symmetric])
  next
    case False
    then show ?thesis
      using find_loop_route [OF t o b False, of 0 "[]"] valid_node_validates [OF v] by (simp add: find_extent_run_def)
  qed
qed

lemma leaf_search_mapped:
  assumes "extents_sorted xs"
  shows "case leaf_search xs b of
      Found k \<Rightarrow> k < length xs \<and> ex_covers (xs ! k) b \<and>
        mapped_at xs b = Some (ex_start_pblock (xs ! k) + ucast (b - ex_first_block (xs ! k)))
    | NotFound k \<Rightarrow> k \<le> length xs \<and> mapped_at xs b = None"
proof -
  let ?k = "length (takeWhile (\<lambda>x. ex_end x \<le> unat b) xs)"
  have le: "?k \<le> length xs" by (rule length_takeWhile_le)
  have before: "\<not> ex_covers (xs ! j) b" if "j < ?k" for j
  proof -
    have "xs ! j \<in> set (takeWhile (\<lambda>x. ex_end x \<le> unat b) xs)" using that by (metis nth_mem takeWhile_nth)
    then show ?thesis by (auto simp: ex_covers_def dest: set_takeWhileD)
  qed
  show ?thesis
  proof (cases "?k < length xs \<and> ex_covers (xs ! ?k) b")
    case True
    have "List.find (\<lambda>x. ex_covers x b) xs = Some (xs ! ?k)"
      unfolding find_Some_iff using True before by blast
    then show ?thesis using True le by (simp add: leaf_search_def Let_def mapped_at_def)
  next
    case False
    have "\<not> ex_covers x b" if x: "x \<in> set xs" for x
    proof
      assume c: "ex_covers x b"
      obtain j where j: "j < length xs" "xs ! j = x" using x by (auto simp: in_set_conv_nth)
      have "?k \<le> j" using before [of j] c j(2) by force
      then have k: "?k < length xs" using j(1) by simp
      then have "ex_end (xs ! ?k) > unat b" using nth_length_takeWhile [of "\<lambda>x. ex_end x \<le> unat b" xs] by simp
      moreover have "ex_first_block (xs ! ?k) \<le> b"
      proof (cases "j = ?k")
        case False
        then have "ex_end (xs ! ?k) \<le> unat (ex_first_block x)"
          using sorted_ends [OF assms, of ?k j] \<open>?k \<le> j\<close> j by simp
        then show ?thesis using c by (auto simp: ex_covers_def ex_end_def word_le_nat_alt)
      qed (use c j in \<open>simp add: ex_covers_def\<close>)
      ultimately show False using False k by (simp add: ex_covers_def)
    qed
    then have "List.find (\<lambda>x. ex_covers x b) xs = None" by (simp add: find_None_iff)
    then show ?thesis using False le by (auto simp: leaf_search_def Let_def mapped_at_def)
  qed
qed

lemma route_last:
  assumes "tree_on fetch n node t" "tree_ordered lo hi t"
  shows "route_steps p t b \<noteq> [] \<and>
    last (route_steps p t b) = \<lparr>st_pblock = fst (route_leaf p t b), st_index = leaf_search (snd (route_leaf p t b)) b\<rparr>"
  using assms
proof (induction t arbitrary: n node lo hi p)
  case (Inner cs)
  let ?i = "child_pos cs b"
  from Inner.prems(1) obtain h ss where c: "cs \<noteq> []"
    and ch: "\<And>i. i < length cs \<Longrightarrow> \<exists>child. fetch (ei_leaf (fst (cs ! i))) = Inr child \<and>
      tree_on fetch (n - 1) child (snd (cs ! i))" by (rule inner_node) blast
  have i: "?i < length cs" using c by (rule child_pos_less)
  have m: "cs ! ?i \<in> set cs" "snd (cs ! ?i) \<in> Basic_BNFs.snds (cs ! ?i)" using i by (auto simp: snds.simps)
  obtain child where "tree_on fetch (n - 1) child (snd (cs ! ?i))" using ch [OF i] by blast
  from Inner.IH [OF m this ordered_child(1) [OF Inner.prems(2) i]] show ?case using c by (simp add: Let_def)
qed simp

lemma route_leaf_node:
  assumes "tree_on fetch n node t" "tree_ordered lo hi t"
  shows "\<exists>leaf. tree_on fetch 0 leaf (Leaf (snd (route_leaf p t b))) \<and>
    (if n = 0 then fst (route_leaf p t b) = p \<and> leaf = node
     else fst (route_leaf p t b) \<in> set (tree_blocks t) \<and> fetch (fst (route_leaf p t b)) = Inr leaf)"
  using assms
proof (induction t arbitrary: n node lo hi p)
  case (Leaf xs)
  then show ?case by (intro exI [of _ node]) auto
next
  case (Inner cs)
  let ?i = "child_pos cs b"
  from Inner.prems(1) obtain h ss where c: "cs \<noteq> []"
    and ch: "\<And>i. i < length cs \<Longrightarrow> \<exists>child. fetch (ei_leaf (fst (cs ! i))) = Inr child \<and>
      tree_on fetch (n - 1) child (snd (cs ! i))" by (rule inner_node) blast
  have i: "?i < length cs" using c by (rule child_pos_less)
  have m: "cs ! ?i \<in> set cs" "snd (cs ! ?i) \<in> Basic_BNFs.snds (cs ! ?i)" using i by (auto simp: snds.simps)
  obtain child where child: "fetch (ei_leaf (fst (cs ! ?i))) = Inr child" "tree_on fetch (n - 1) child (snd (cs ! ?i))"
    using ch [OF i] by blast
  let ?q = "route_leaf (ei_leaf (fst (cs ! ?i))) (snd (cs ! ?i)) b"
  obtain leaf where leaf: "tree_on fetch 0 leaf (Leaf (snd ?q))"
    "if n - 1 = 0 then fst ?q = ei_leaf (fst (cs ! ?i)) \<and> leaf = child
     else fst ?q \<in> set (tree_blocks (snd (cs ! ?i))) \<and> fetch (fst ?q) = Inr leaf"
    using Inner.IH [OF m child(2) ordered_child(1) [OF Inner.prems(2) i]] by blast
  have "0 < n" using Inner.prems(1) by simp
  moreover have "fst ?q \<in> set (tree_blocks (Inner cs)) \<and> fetch (fst ?q) = Inr leaf"
    using leaf(2) child(1) m(1) by (auto split: if_splits)
  moreover have "route_leaf p (Inner cs) b = ?q" using c by (simp add: Let_def)
  ultimately show ?case using leaf(1) by (intro exI [of _ leaf]) (simp del: tree_blocks.simps tree_on.simps)
qed

lemma mapped_at_route:
  "tree_ordered lo hi t \<Longrightarrow> lo \<le> unat b \<Longrightarrow> unat b < hi \<Longrightarrow>
   mapped_at (tree_extents t) b = mapped_at (snd (route_leaf p t b)) b"
  by (simp only: mapped_at_def find_in_route [of lo hi t b p])

lemma start_pblock_less: "unat (ex_start_pblock x) < 2 ^ 48"
proof -
  have "take_bit 48 (ex_start_pblock x) = ex_start_pblock x"
    by (rule bit_word_eqI) (auto simp: ex_start_pblock_def bit_simps dest: bit_imp_le_length)
  then have "unat (ex_start_pblock x) = take_bit 48 (unat (ex_start_pblock x))" by (metis unsigned_take_bit_eq)
  then show ?thesis by (metis take_bit_nat_less_exp)
qed

lemma extent_pblock_covers:
  assumes "ex_covers x b"
  shows "extent_pblock x b = Inr (ex_start_pblock x + ucast (b - ex_first_block x))"
proof -
  have "unat (ex_start_pblock x) < 2 ^ 48" by (rule start_pblock_less)
  moreover have "unat (ucast (b - ex_first_block x) :: u64) < 2 ^ 32" using unat_lt [of "b - ex_first_block x"] by simp
  ultimately show ?thesis using assms by (simp add: extent_pblock_def sub_chk_def ex_covers_def add_chk_def)
qed


lemma leaf_image_read:
  assumes "child_node ops fs r p = Inr node"
  shows "rbind (ensure_valid_pblock fs p) (\<lambda>_. rbind (read_extent_block ops fs r p) (\<lambda>b. Inr (blk_data b))) = Inr node"
  using child_node_ok [OF assms] by auto

lemma validate_data_block_error:
  "fs_validate_data_blocks fs p n = Inl e \<Longrightarrow> e = Err EIO"
  by (auto simp: fs_validate_data_blocks_def validate_data_blocks_def res_elims Let_def guard_def checked_add_def split: if_splits)

lemma extent_query_tree:
  assumes t: "tree_on (child_node ops fs r) n (extent_root r) t" and o: "tree_ordered lo hi t"
    and b: "lo \<le> unat b" "unat b < hi" and z: "0 \<notin> set (tree_blocks t)"
  shows "extent_query ops fs r b =
    (case mapped_at (tree_extents t) b of
       None \<Rightarrow> Inl (Err ENOENT)
     | Some p \<Rightarrow> if p < sb_block_count (fs_cached_super_block fs) \<and> fs_validate_data_blocks fs p 1 = Inr ()
               then Inr p else Inl (Err EIO))"
proof -
  let ?q = "fst (route_leaf 0 t b)" and ?xs = "snd (route_leaf 0 t b)"
  have reach: "\<not> out_of_reach t b" using o b by (cases t) (auto simp: not_less word_le_nat_alt)
  have path: "find_extent ops fs r b = Inr (route_steps 0 t b)"
    using find_extent_route [OF t o b(2)] reach by (simp add: find_extent_def)
  note l = route_last [OF t o, of 0 b]
  obtain leaf where leaf: "tree_on (child_node ops fs r) 0 leaf (Leaf ?xs)"
    "if n = 0 then ?q = 0 \<and> leaf = extent_root r else ?q \<in> set (tree_blocks t) \<and> child_node ops fs r ?q = Inr leaf"
    using route_leaf_node [OF t o, of 0 b] by blast
  obtain h ss where xs: "extents_sorted ?xs" "\<And>i. i < length ?xs \<Longrightarrow> extent_at leaf i = Inr (?xs ! i)"
    using leaf(1) by (rule leaf_node) blast
  have node: "(if ?q \<noteq> 0 then rbind (ensure_valid_pblock fs ?q) (\<lambda>_. rbind (read_extent_block ops fs r ?q) (\<lambda>b. Inr (blk_data b)))
      else Inr (extent_root r)) = Inr leaf"
    using leaf(2) z leaf_image_read [of ops fs r ?q leaf] by (auto split: if_splits)
  have m: "mapped_at (tree_extents t) b = mapped_at ?xs b" by (rule mapped_at_route [OF o b])
  show ?thesis
  proof (cases "leaf_search ?xs b")
    case (Found k)
    then have k: "k < length ?xs" "ex_covers (?xs ! k) b"
      "mapped_at ?xs b = Some (ex_start_pblock (?xs ! k) + ucast (b - ex_first_block (?xs ! k)))"
      using leaf_search_mapped [OF xs(1), of b] by auto
    let ?p = "ex_start_pblock (?xs ! k) + ucast (b - ex_first_block (?xs ! k))"
    have "fs_validate_data_blocks fs ?p 1 = Inr () \<or> fs_validate_data_blocks fs ?p 1 = Inl (Err EIO)"
      using validate_data_block_error [of fs ?p 1] by (cases "fs_validate_data_blocks fs ?p 1") auto
    then show ?thesis
      using l path Found node xs(2) [OF k(1)] extent_pblock_covers [OF k(2)] m k(3)
      by (auto simp: extent_query_def Let_def ensure_valid_pblock_def guard_def)
  next
    case (NotFound k)
    then have "mapped_at ?xs b = None" using leaf_search_mapped [OF xs(1), of b] by simp
    then show ?thesis using l path NotFound m by (simp add: extent_query_def Let_def)
  qed
qed

section \<open>Validation of a whole tree\<close>

abbreviation child_blocks :: "(extent_index \<times> etree) list \<Rightarrow> PBlockId list" where
  "child_blocks cs \<equiv> concat (map (\<lambda>c. ei_leaf (fst c) # tree_blocks (snd c)) cs)"

lemma child_of_depth_ok:
  assumes "child_of_depth ops fs r p d = Inr child"
  obtains h ss where "child_node ops fs r p = Inr child" "valid_node child h ss" "unat (eh_depth h) = unat d - 1"
proof -
  obtain h' where c: "child_node ops fs r p = Inr child" "node_header child = Inr h'" "add_chk (eh_depth h') 1 = Inr d"
    using assms by (auto simp: child_of_depth_def res_elims split: if_splits)
  obtain h ss where v: "valid_node child h ss" using validated_node [OF child_node_ok(4) [OF c(1)]] by blast
  then have "h' = h" using valid_node_header [OF v] c(2) by simp
  then show ?thesis using that [OF c(1) v] unat_add_chk [OF c(3)] by simp
qed

lemma subtree_sound:
  "validate_extent_subtree ops fs r node i visited = Inr v \<Longrightarrow> valid_node node h ss \<Longrightarrow>
   \<exists>cs. (if eh_depth h = 0 then cs = [] else map fst cs = drop i (index_entries h ss)) \<and>
     (\<forall>c \<in> set cs. \<exists>child. child_node ops fs r (ei_leaf (fst c)) = Inr child \<and>
        tree_on (child_node ops fs r) (unat (eh_depth h) - 1) child (snd c)) \<and>
     v = visited \<union> set (child_blocks cs) \<and> distinct (child_blocks cs) \<and> set (child_blocks cs) \<inter> visited = {}"
proof (induction ops fs r node i visited arbitrary: v h ss rule: validate_extent_subtree.induct)
  case (1 ops fs r node i visited)
  note hd = valid_node_header [OF 1(4)]
  have l: "length (index_entries h ss) = unat (eh_entries_count h)" using valid_node_rep [OF 1(4)] by simp
  show ?case
  proof (cases "eh_depth h \<noteq> 0 \<and> i < unat (eh_entries_count h)")
    case False
    then have "v = visited" using 1(3) hd by (subst (asm) validate_extent_subtree.simps) (auto split: if_splits)
    then show ?thesis using False l by (intro exI [of _ "[]"]) auto
  next
    case True
    let ?ix = "index_entries h ss ! i"
    have ix: "extent_index_at node i = Inr ?ix" using valid_entry(2) [OF 1(4)] True by simp
    obtain child v1 where nv: "ei_leaf ?ix \<notin> visited"
      and ch: "child_of_depth ops fs r (ei_leaf ?ix) (eh_depth h) = Inr child"
      and v1: "validate_extent_subtree ops fs r child 0 (insert (ei_leaf ?ix) visited) = Inr v1"
      and v: "validate_extent_subtree ops fs r node (i + 1) v1 = Inr v"
      using 1(3) hd True ix
      by (subst (asm) validate_extent_subtree.simps) (auto simp: Let_def rbind_eq_Inr split: if_splits)
    obtain hc sc where c: "child_node ops fs r (ei_leaf ?ix) = Inr child" "valid_node child hc sc"
      "unat (eh_depth hc) = unat (eh_depth h) - 1" using ch by (rule child_of_depth_ok)
    have n: "0 < unat (eh_depth h)" using True by (simp add: unat_gt_0)
    obtain ds where ds: "if eh_depth hc = 0 then ds = [] else map fst ds = drop 0 (index_entries hc sc)"
      "\<forall>c \<in> set ds. \<exists>child. child_node ops fs r (ei_leaf (fst c)) = Inr child \<and>
        tree_on (child_node ops fs r) (unat (eh_depth hc) - 1) child (snd c)"
      "v1 = insert (ei_leaf ?ix) visited \<union> set (child_blocks ds)" "distinct (child_blocks ds)"
      "set (child_blocks ds) \<inter> insert (ei_leaf ?ix) visited = {}"
      using 1(1) [OF hd True ix refl nv ch v1 c(2)] by blast
    obtain es where es: "map fst es = drop (i + 1) (index_entries h ss)"
      "\<forall>c \<in> set es. \<exists>child. child_node ops fs r (ei_leaf (fst c)) = Inr child \<and>
        tree_on (child_node ops fs r) (unat (eh_depth h) - 1) child (snd c)"
      "v = v1 \<union> set (child_blocks es)" "distinct (child_blocks es)" "set (child_blocks es) \<inter> v1 = {}"
      using 1(2) [OF hd True ix refl nv ch v1 v 1(4)] True by auto
    define t where "t = (if eh_depth hc = 0 then Leaf (node_entries hc sc) else Inner ds)"
    have tb: "tree_blocks t = child_blocks ds" using ds(1) by (simp add: t_def)
    have "0 < unat (eh_depth hc)" if "eh_depth hc \<noteq> 0" using that by (simp add: unat_gt_0)
    then have "tree_on (child_node ops fs r) (unat (eh_depth hc)) child t"
      using c(2) ds(1,2) by (auto simp: t_def)
    then have "tree_on (child_node ops fs r) (unat (eh_depth h) - 1) child t" using c(3) by simp
    then have "\<forall>c \<in> set ((?ix, t) # es). \<exists>child. child_node ops fs r (ei_leaf (fst c)) = Inr child \<and>
        tree_on (child_node ops fs r) (unat (eh_depth h) - 1) child (snd c)" using es(2) c(1) by auto
    moreover have "map fst ((?ix, t) # es) = drop i (index_entries h ss)"
      using es(1) True l by (simp add: Cons_nth_drop_Suc)
    moreover have "distinct (child_blocks ((?ix, t) # es))" "set (child_blocks ((?ix, t) # es)) \<inter> visited = {}"
      "v = visited \<union> set (child_blocks ((?ix, t) # es))"
      using ds(3-5) es(3-5) nv tb by auto
    ultimately show ?thesis using True by (intro exI [of _ "(?ix, t) # es"]) simp
  qed
qed

lemma subtree_complete:
  "tree_on (child_node ops fs r) n node t \<Longrightarrow> distinct (tree_blocks t) \<Longrightarrow> set (tree_blocks t) \<inter> visited = {} \<Longrightarrow>
   validate_extent_subtree ops fs r node 0 visited = Inr (visited \<union> set (tree_blocks t))"
proof (induction t arbitrary: n node visited)
  case (Leaf xs)
  obtain h ss where "node_header node = Inr h" "eh_depth h = 0" using Leaf.prems(1) by (rule leaf_node) blast
  then show ?case by (subst validate_extent_subtree.simps) simp
next
  case (Inner cs)
  from Inner.prems(1) obtain h ss where d: "eh_depth h \<noteq> 0" "unat (eh_depth h) = n"
    and c: "unat (eh_entries_count h) = length cs" and hd: "node_header node = Inr h"
    and ix: "\<And>i. i < length cs \<Longrightarrow> extent_index_at node i = Inr (fst (cs ! i))"
    and ch: "\<And>i. i < length cs \<Longrightarrow> \<exists>child. child_node ops fs r (ei_leaf (fst (cs ! i))) = Inr child \<and>
      tree_on (child_node ops fs r) (n - 1) child (snd (cs ! i))" by (rule inner_node) blast
  have "validate_extent_subtree ops fs r node i visited = Inr (visited \<union> set (child_blocks (drop i cs)))"
    if "i \<le> length cs" "distinct (child_blocks (drop i cs))" "set (child_blocks (drop i cs)) \<inter> visited = {}" for i visited
    using that
  proof (induction "length cs - i" arbitrary: i visited)
    case 0
    then show ?case using hd c by (subst validate_extent_subtree.simps) simp
  next
    case (Suc m)
    then have i: "i < length cs" by simp
    let ?c = "cs ! i"
    have dr: "drop i cs = ?c # drop (Suc i) cs" using i by (simp add: Cons_nth_drop_Suc)
    obtain child where child: "child_node ops fs r (ei_leaf (fst ?c)) = Inr child"
      "tree_on (child_node ops fs r) (n - 1) child (snd ?c)" using ch [OF i] by blast
    obtain hc sc where hc: "valid_node child hc sc" "unat (eh_depth hc) = n - 1" using tree_on_header [OF child(2)] by blast
    have "0 < n" using Inner.prems(1) by simp
    then have e: "unat (eh_depth hc) + unat (1 :: u16) = unat (eh_depth h)" using hc(2) d(2) by simp
    then have lt: "unat (eh_depth hc) + unat (1 :: u16) < 2 ^ LENGTH(16)" using unat_lt [of "eh_depth h"] by simp
    have "eh_depth hc + 1 = eh_depth h" using unat_add_lt [OF lt] e by (simp only: unat_inject)
    then have "add_chk (eh_depth hc) 1 = Inr (eh_depth h)" unfolding add_chk_def using lt by simp
    then have cd: "child_of_depth ops fs r (ei_leaf (fst ?c)) (eh_depth h) = Inr child"
      using child(1) valid_node_header [OF hc(1)] by (simp add: child_of_depth_def)
    have m: "?c \<in> set cs" "snd ?c \<in> Basic_BNFs.snds ?c" using i by (auto simp: snds.simps)
    let ?v = "insert (ei_leaf (fst ?c)) visited"
    have 1: "validate_extent_subtree ops fs r child 0 ?v = Inr (?v \<union> set (tree_blocks (snd ?c)))"
      using Inner.IH [OF m child(2), of ?v] Suc.prems(2,3) by (auto simp: dr)
    have s: "m = length cs - Suc i" "Suc i \<le> length cs" using Suc.hyps(2) i by linarith+
    have di: "distinct (child_blocks (drop (Suc i) cs))"
      "set (child_blocks (drop (Suc i) cs)) \<inter> (?v \<union> set (tree_blocks (snd ?c))) = {}"
      using Suc.prems(2,3) by (auto simp: dr)
    note 2 = Suc.hyps(1) [OF s di]
    have "ei_leaf (fst ?c) \<notin> visited" using Suc.prems(3) by (simp add: dr)
    then show ?case
      using hd d(1) c i ix [OF i] cd 1 2 by (subst validate_extent_subtree.simps) (simp add: Let_def dr Un_assoc)
  qed
  from this [of 0 visited] show ?case using Inner.prems by simp
qed

lemma validated_tree_iff:
  "validate_complete_extent_tree ops fs r = Inr () \<longleftrightarrow>
   (\<exists>n t. tree_on (child_node ops fs r) n (extent_root r) t \<and> distinct (tree_blocks t))"
proof
  assume "validate_complete_extent_tree ops fs r = Inr ()"
  then obtain v where a: "validate_extent_node (extent_root r) = Inr ()"
    "validate_extent_subtree ops fs r (extent_root r) 0 {} = Inr v"
    by (auto simp: validate_complete_extent_tree_def res_elims)
  obtain h ss where h: "valid_node (extent_root r) h ss" using validated_node [OF a(1)] by blast
  obtain cs where cs: "if eh_depth h = 0 then cs = [] else map fst cs = index_entries h ss"
    "\<forall>c \<in> set cs. \<exists>child. child_node ops fs r (ei_leaf (fst c)) = Inr child \<and>
        tree_on (child_node ops fs r) (unat (eh_depth h) - 1) child (snd c)" "distinct (child_blocks cs)"
    using subtree_sound [OF a(2) h] unfolding drop_0 by blast
  show "\<exists>n t. tree_on (child_node ops fs r) n (extent_root r) t \<and> distinct (tree_blocks t)"
  proof (cases "eh_depth h = 0")
    case True
    then show ?thesis using h by (intro exI [of _ 0] exI [of _ "Leaf (node_entries h ss)"]) auto
  next
    case False
    then show ?thesis using h cs by (intro exI [of _ "unat (eh_depth h)"] exI [of _ "Inner cs"]) (auto simp: unat_gt_0)
  qed
next
  assume "\<exists>n t. tree_on (child_node ops fs r) n (extent_root r) t \<and> distinct (tree_blocks t)"
  then obtain n t where t: "tree_on (child_node ops fs r) n (extent_root r) t" "distinct (tree_blocks t)" by blast
  obtain h ss where "valid_node (extent_root r) h ss" using tree_on_header [OF t(1)] by blast
  then show "validate_complete_extent_tree ops fs r = Inr ()"
    using subtree_complete [OF t] valid_node_validates by (simp add: validate_complete_extent_tree_def)
qed

section \<open>The walks\<close>

lemma nodes_walk:
  "tree_on (child_node ops fs r) n node t \<Longrightarrow>
   get_all_nodes_recursive ops fs r node 0 acc = Some (Inr (acc @ tree_blocks t))"
proof (induction t arbitrary: n node acc)
  case (Leaf xs)
  obtain h ss where "node_header node = Inr h" "eh_depth h = 0" using Leaf.prems(1) by (rule leaf_node) blast
  then show ?case by (subst get_all_nodes_recursive.simps) simp
next
  case (Inner cs)
  from Inner.prems obtain h ss where d: "eh_depth h \<noteq> 0"
    and c: "unat (eh_entries_count h) = length cs" and hd: "node_header node = Inr h"
    and ix: "\<And>i. i < length cs \<Longrightarrow> extent_index_at node i = Inr (fst (cs ! i))"
    and ch: "\<And>i. i < length cs \<Longrightarrow> \<exists>child. child_node ops fs r (ei_leaf (fst (cs ! i))) = Inr child \<and>
      tree_on (child_node ops fs r) (n - 1) child (snd (cs ! i))" by (rule inner_node) blast
  have "get_all_nodes_recursive ops fs r node i acc = Some (Inr (acc @ child_blocks (drop i cs)))" if "i \<le> length cs" for i acc
    using that
  proof (induction "length cs - i" arbitrary: i acc)
    case 0
    then show ?case using hd c by (subst get_all_nodes_recursive.simps) simp
  next
    case (Suc m)
    then have i: "i < length cs" by simp
    then have m: "cs ! i \<in> set cs" "snd (cs ! i) \<in> Basic_BNFs.snds (cs ! i)" by (auto simp: snds.simps)
    obtain child where child: "child_node ops fs r (ei_leaf (fst (cs ! i))) = Inr child"
      "tree_on (child_node ops fs r) (n - 1) child (snd (cs ! i))" using ch [OF i] by blast
    have s: "m = length cs - Suc i" "Suc i \<le> length cs" using Suc.hyps(2) i by linarith+
    have dr: "drop i cs = cs ! i # drop (Suc i) cs" using i by (simp add: Cons_nth_drop_Suc)
    show ?case
      using hd d c i ix [OF i] child(1) Inner.IH [OF m child(2)] Suc.hyps(1) [OF s]
      by (subst get_all_nodes_recursive.simps) (simp add: dr)
  qed
  from this [of 0] show ?case by simp
qed

lemma pblocks_walk:
  "tree_on (child_node ops fs r) n node t \<Longrightarrow>
   get_all_pblocks_recursive ops fs r node 0 acc = Some (Inr (acc @ concat (map extent_blocks (tree_extents t))))"
proof (induction t arbitrary: n node acc)
  case (Leaf xs)
  obtain h ss where hd: "node_header node = Inr h" "eh_depth h = 0" and c: "unat (eh_entries_count h) = length xs"
    and x: "\<And>i. i < length xs \<Longrightarrow> extent_at node i = Inr (xs ! i)" using Leaf.prems(1) by (rule leaf_node) blast
  have "get_all_pblocks_recursive ops fs r node i acc = Some (Inr (acc @ concat (map extent_blocks (drop i xs))))"
    if "i \<le> length xs" for i acc using that
  proof (induction "length xs - i" arbitrary: i acc)
    case 0
    then show ?case using hd c by (subst get_all_pblocks_recursive.simps) simp
  next
    case (Suc m)
    then have i: "i < length xs" by simp
    have s: "m = length xs - Suc i" "Suc i \<le> length xs" using Suc.hyps(2) i by linarith+
    have dr: "drop i xs = xs ! i # drop (Suc i) xs" using i by (simp add: Cons_nth_drop_Suc)
    show ?case using hd c i x [OF i] Suc.hyps(1) [OF s] by (subst get_all_pblocks_recursive.simps) (simp add: dr)
  qed
  from this [of 0] show ?case by simp
next
  case (Inner cs)
  from Inner.prems obtain h ss where d: "eh_depth h \<noteq> 0"
    and c: "unat (eh_entries_count h) = length cs" and hd: "node_header node = Inr h"
    and ix: "\<And>i. i < length cs \<Longrightarrow> extent_index_at node i = Inr (fst (cs ! i))"
    and ch: "\<And>i. i < length cs \<Longrightarrow> \<exists>child. child_node ops fs r (ei_leaf (fst (cs ! i))) = Inr child \<and>
      tree_on (child_node ops fs r) (n - 1) child (snd (cs ! i))" by (rule inner_node) blast
  have "get_all_pblocks_recursive ops fs r node i acc =
      Some (Inr (acc @ concat (map extent_blocks (concat (map (\<lambda>c. tree_extents (snd c)) (drop i cs))))))"
    if "i \<le> length cs" for i acc using that
  proof (induction "length cs - i" arbitrary: i acc)
    case 0
    then show ?case using hd c by (subst get_all_pblocks_recursive.simps) simp
  next
    case (Suc m)
    then have i: "i < length cs" by simp
    then have m: "cs ! i \<in> set cs" "snd (cs ! i) \<in> Basic_BNFs.snds (cs ! i)" by (auto simp: snds.simps)
    obtain child where child: "child_node ops fs r (ei_leaf (fst (cs ! i))) = Inr child"
      "tree_on (child_node ops fs r) (n - 1) child (snd (cs ! i))" using ch [OF i] by blast
    have s: "m = length cs - Suc i" "Suc i \<le> length cs" using Suc.hyps(2) i by linarith+
    have dr: "drop i cs = cs ! i # drop (Suc i) cs" using i by (simp add: Cons_nth_drop_Suc)
    show ?case
      using hd d c i ix [OF i] child(1) Inner.IH [OF m child(2)] Suc.hyps(1) [OF s]
      by (subst get_all_pblocks_recursive.simps) (simp add: dr)
  qed
  from this [of 0] show ?case by simp
qed

text \<open>The leaf at the right edge.\<close>

lemma nth_child_size [termination_simp]:
  "i < length cs \<Longrightarrow> size (snd (cs ! i)) < Suc (size_list (\<lambda>c. Suc (size (snd c))) cs)"
  using child_size [of "\<lambda>c. Suc (size (snd c))" "cs ! i" cs] by simp

fun last_leaf :: "etree \<Rightarrow> extent list" where
  "last_leaf (Leaf xs) = xs"
| "last_leaf (Inner cs) = (if cs = [] then [] else last_leaf (snd (cs ! (length cs - 1))))"

lemma last_lblock_walk:
  "tree_on (child_node ops fs r) n node t \<Longrightarrow>
   extent_last_lblock_recursive ops fs r node =
     Some (if last_leaf t = [] then Inl Panic else Inr (word_of_nat (ex_end (last (last_leaf t)))))"
proof (induction t arbitrary: n node)
  case (Leaf xs)
  obtain h ss where hd: "node_header node = Inr h" "eh_depth h = 0" and c: "unat (eh_entries_count h) = length xs"
    and x: "\<And>i. i < length xs \<Longrightarrow> extent_at node i = Inr (xs ! i)" and so: "extents_sorted xs"
    using Leaf.prems(1) by (rule leaf_node) blast
  show ?case
  proof (cases "xs = []")
    case True
    then show ?thesis using hd c by (subst extent_last_lblock_recursive.simps) (simp add: usize_sub_def)
  next
    case False
    then have "last xs \<in> set xs" "last xs = xs ! (length xs - 1)" "length xs - 1 < length xs" by (auto simp: last_conv_nth)
    moreover have "ex_end (last xs) < 2 ^ 32" using so calculation(1) by (simp add: extents_sorted_def)
    ultimately show ?thesis
      using False hd c x [of "length xs - 1"]
      by (subst extent_last_lblock_recursive.simps)
        (simp add: usize_sub_def Suc_le_eq add_chk_def ex_end_def)
  qed
next
  case (Inner cs)
  from Inner.prems obtain h ss where d: "eh_depth h \<noteq> 0" and ne: "cs \<noteq> []"
    and c: "unat (eh_entries_count h) = length cs" and hd: "node_header node = Inr h"
    and ix: "\<And>i. i < length cs \<Longrightarrow> extent_index_at node i = Inr (fst (cs ! i))"
    and ch: "\<And>i. i < length cs \<Longrightarrow> \<exists>child. child_node ops fs r (ei_leaf (fst (cs ! i))) = Inr child \<and>
      tree_on (child_node ops fs r) (n - 1) child (snd (cs ! i))" by (rule inner_node) blast
  let ?i = "length cs - 1"
  have i: "?i < length cs" using ne by simp
  then have m: "cs ! ?i \<in> set cs" "snd (cs ! ?i) \<in> Basic_BNFs.snds (cs ! ?i)" by (auto simp: snds.simps)
  obtain child where child: "child_node ops fs r (ei_leaf (fst (cs ! ?i))) = Inr child"
    "tree_on (child_node ops fs r) (n - 1) child (snd (cs ! ?i))" using ch [OF i] by blast
  obtain b where "read_extent_block ops fs r (ei_leaf (fst (cs ! ?i))) = Inr b" "blk_data b = child"
    using child_node_ok(3) [OF child(1)] by blast
  moreover have "usize_sub (length cs) 1 = Inr ?i" using ne by (simp add: usize_sub_def Suc_le_eq)
  ultimately show ?case
    using hd d c ix [OF i] Inner.IH [OF m child(2)] ne by (subst extent_last_lblock_recursive.simps) simp
qed

end
