(* ===== verification/Extent_Lookup.thy ===== *)
theory Extent_Lookup
  imports Extent_Search Block_Accounting
begin

text \<open>
  What the search, the walks and the validation of an extent tree do: results of the whole
  operations over the trees of \<open>Extent_Search\<close>, with a tree of height one on an example device.
\<close>

text \<open>C11: the search of a block. On a tree whose keys partition the file from its first key on, a block at or after that
  key is answered exactly by the map the tree denotes: the physical block of the written extent that covers it when
  that is a data block of the device, \<^verbatim>\<open>EIO\<close> when the extent points outside the data blocks, and \<^verbatim>\<open>ENOENT\<close> for a
  hole and for an unwritten extent.\<close>

theorem extent_query_correct:
  assumes "tree_on (child_node ops fs r) n (extent_root r) t" "tree_ordered lo hi t"
    and "lo \<le> unat b" "unat b < hi" "0 \<notin> set (tree_blocks t)"
  shows "extent_query ops fs r b =
    (case mapped_at (tree_extents t) b of
       None \<Rightarrow> Inl (Err ENOENT)
     | Some p \<Rightarrow> if p < sb_block_count (fs_cached_super_block fs) \<and> fs_validate_data_blocks fs p 1 = Inr ()
               then Inr p else Inl (Err EIO))"
  by (rule extent_query_tree [OF assms])

lemma not_reached:
  assumes "tree_on (child_node ops fs r) n (extent_root r) (Inner cs)" "b < key (hd cs)"
  shows "find_extent ops fs r b = Inl (Err EIO)"
proof -
  from assms(1) obtain h ss where v: "valid_node (extent_root r) h ss" "eh_depth h \<noteq> 0" "index_entries h ss = map fst cs"
    and hd: "node_header (extent_root r) = Inr h" by (rule inner_node)
  have "find_extent_loop ops fs r b (extent_root r) 0 [] = Some (Inl (Err EIO))"
    using hd v(2) search_inner [OF v, of b] assms(2)
    by (subst find_extent_loop.simps) (simp add: word_neq_0_conv [symmetric] not_le [symmetric])
  then show ?thesis using valid_node_validates [OF v(1)] by (simp add: find_extent_def find_extent_run_def)
qed

text \<open>C39: Blocks before the first key. Below an inner root, every block before the first key is an error \<^verbatim>\<open>EIO\<close> of the
  search and of the search that would create it, although the block is a hole and not a damaged part of the tree:
  a file whose first written block is not block 0 can no longer be read or written before that block once its
  tree has grown.\<close>

theorem blocks_before_first_key_unreachable:
  assumes "tree_on (child_node ops fs r) n (extent_root r) (Inner cs)" "b < key (hd cs)"
  shows "extent_query ops fs r b = Inl (Err EIO) \<and>
    extent_query_or_create_initialized ops (fs, r) b count img = ((fs, r), Inl (Err EIO))"
  using not_reached [OF assms] by (simp add: extent_query_def extent_query_or_create_initialized_def)

text \<open>C12: a validated tree is well typed. \<^verbatim>\<open>validate_complete_extent_tree\<close> accepts an inode exactly when its root and
  the blocks below it hold a tree of extents: every node is valid, the depth decreases by one from a node to its
  children, and no block is the node of two places.\<close>

theorem validated_tree_is_well_formed:
  "validate_complete_extent_tree ops fs r = Inr () \<longleftrightarrow>
   (\<exists>n t. tree_on (child_node ops fs r) n (extent_root r) t \<and> distinct (tree_blocks t))"
  by (rule validated_tree_iff)

text \<open>The block after the last extent.\<close>

lemma next_data_walk:
  assumes "tree_on (child_node ops fs r) n (extent_root r) t"
  shows "extent_next_data_lblock ops fs r =
      (if t = Leaf [] then Inr 0 else if last_leaf t = [] then Inl Panic
       else Inr (word_of_nat (ex_end (last (last_leaf t)))))"
proof (cases t)
  case (Leaf xs)
  from assms [unfolded Leaf] obtain h ss where "node_header (extent_root r) = Inr h" "unat (eh_entries_count h) = length xs"
    by (rule leaf_node) blast
  then show ?thesis using last_lblock_walk [OF assms] Leaf by (simp add: extent_next_data_lblock_def unat_eq_0 [symmetric])
next
  case (Inner cs)
  from assms [unfolded Inner] obtain h ss where "node_header (extent_root r) = Inr h" "unat (eh_entries_count h) = length cs" "cs \<noteq> []"
    by (rule inner_node) blast
  then show ?thesis using last_lblock_walk [OF assms] Inner by (simp add: extent_next_data_lblock_def unat_eq_0 [symmetric])
qed

text \<open>C13: the walks. On the tree of an inode they all return: the nodes below the root in order, the data blocks of
  the extents in order, and the block after the last extent. The last walk panics when the right-most leaf is
  empty and is not the root, which validation accepts.\<close>

theorem tree_walks_complete:
  assumes "tree_on (child_node ops fs r) n (extent_root r) t"
  shows "extent_all_tree_blocks ops fs r = Inr (tree_blocks t) \<and>
    extent_all_data_blocks ops fs r = Inr (concat (map extent_blocks (tree_extents t))) \<and>
    extent_next_data_lblock ops fs r =
      (if t = Leaf [] then Inr 0 else if last_leaf t = [] then Inl Panic
       else Inr (word_of_nat (ex_end (last (last_leaf t)))))"
  using nodes_walk [OF assms, of "[]"] pblocks_walk [OF assms, of "[]"] next_data_walk [OF assms]
  by (simp add: extent_all_tree_blocks_def extent_all_data_blocks_def)

lemma loop_never_returns:
  assumes "child_node ops fs r p = Inr node" "node_header node = Inr h" "eh_depth h \<noteq> 0"
    and "search_extent_index node b = Inr (Found i)" "extent_index_at node i = Inr ix" "ei_leaf ix = p"
  shows "find_extent_loop ops fs r b node q path = None"
proof -
  have "\<not> (ops' = ops \<and> fs' = fs \<and> r' = r \<and> b' = b \<and> node' = node)" if "find_extent_loop ops' fs' r' b' node' q' path' = Some y"
    for ops' fs' r' b' node' q' path' y
    using that
  proof (induction rule: find_extent_loop.raw_induct [rotated, consumes 1, case_names step])
    case (step f ops' fs' r' b' node' q' path' y)
    show ?case
    proof
      assume e: "ops' = ops \<and> fs' = fs \<and> r' = r \<and> b' = b \<and> node' = node"
      then have "f ops fs r b node p (path' @ [\<lparr>st_pblock = q', st_index = Found i\<rparr>]) = Some y"
        using step(2) assms child_node_ok(1) [OF assms(1)] by (simp add: word_neq_0_conv [symmetric])
      then show False using step(1) e by blast
    qed
  qed
  from this [of ops fs r b node q path] show ?thesis by (cases "find_extent_loop ops fs r b node q path") auto
qed

text \<open>C40: A cycle. The search does not check that the depth decreases: when the entry it takes in an inner node of the
  device points back to the node itself, it does not return, for that block of every inode whose root leads there.\<close>

theorem find_extent_cycle_never_returns:
  assumes "validate_extent_node (extent_root r) = Inr ()" "node_header (extent_root r) = Inr h0" "eh_depth h0 \<noteq> 0"
    and "search_extent_index (extent_root r) b = Inr (Found j)" "extent_index_at (extent_root r) j = Inr jx" "ei_leaf jx = p"
    and "child_node ops fs r p = Inr node" "node_header node = Inr h" "eh_depth h \<noteq> 0"
    and "search_extent_index node b = Inr (Found i)" "extent_index_at node i = Inr ix" "ei_leaf ix = p"
  shows "find_extent_run ops fs r b = None"
  using assms(1-7) child_node_ok(1) [OF assms(7)] loop_never_returns [OF assms(7-12)]
  by (simp add: find_extent_run_def, subst find_extent_loop.simps) (simp add: word_neq_0_conv [symmetric])


section \<open>Witnesses\<close>

text \<open>A node over the given slots, and on the file system \<open>w_fs\<close> two leaves, a self-referential node and a root over each.\<close>

definition w_node_header :: "nat \<Rightarrow> u16 \<Rightarrow> extent_header" where
  "w_node_header n depth = header_new (word_of_nat n) (word_of_nat n) depth 0"

definition w_node :: "u16 \<Rightarrow> bytes list \<Rightarrow> nat \<Rightarrow> bytes" where
  "w_node depth ss len = header_to_bytes (w_node_header (length ss) depth) @ concat ss @ replicate (len - 12 - 12 * length ss) 0"

lemma w_node_valid:
  assumes "\<forall>s \<in> set ss. length s = 12" "0 < length ss" "length ss < 2 ^ 16" "depth \<le> MAX_EXTENT_DEPTH"
    and "depth = 0 \<longrightarrow> extents_sorted (map extent_from_bytes ss)"
    and "depth \<noteq> 0 \<longrightarrow> sorted_wrt (<) (map ei_first_block (map extent_index_from_bytes ss))"
  shows "valid_node (w_node depth ss len) (w_node_header (length ss) depth) ss"
proof -
  have u: "unat (word_of_nat (length ss) :: u16) = length ss" using assms(3) by (intro unat_word_of_nat) simp
  then have "(word_of_nat (length ss) :: u16) \<noteq> 0" using assms(2) by (metis unat_0 less_irrefl)
  then show ?thesis
    using assms u node_rep_concat [OF assms(1), of "w_node_header (length ss) depth"]
    by (auto simp: valid_node_def node_wf_def w_node_def w_node_header_def header_new_def header_check_magic_def
        node_entries_def index_entries_def)
qed

definition w_index :: "u32 \<Rightarrow> PBlockId \<Rightarrow> bytes" where
  "w_index b p = extent_index_to_bytes (extent_index_new b p)"

definition w_leaf_a :: bytes where "w_leaf_a = w_node 0 [extent_to_bytes (extent_new 10 9 2)] BLOCK_SIZE"
definition w_leaf_b :: bytes where "w_leaf_b = w_node 0 [extent_to_bytes (extent_new 20 12 1)] BLOCK_SIZE"
definition w_cycle :: bytes where "w_cycle = w_node 1 [w_index 0 11] BLOCK_SIZE"

definition w_tree_fs :: "block_mem ext4" where
  "w_tree_fs = w_fs\<lparr>fs_device := w_mount_device[7 := w_leaf_a, 8 := w_leaf_b, 11 := w_cycle]\<rparr>"

definition w_tree_inode :: inode_ref where
  "w_tree_inode = \<lparr>ir_id = 12, ir_inode = inode_default\<lparr>i_block := w_node 1 [w_index 10 7, w_index 20 8] 60\<rparr>\<rparr>"

definition w_cycle_inode :: inode_ref where
  "w_cycle_inode = \<lparr>ir_id = 13, ir_inode = inode_default\<lparr>i_block := w_node 1 [w_index 0 11] 60\<rparr>\<rparr>"

definition w_tree :: etree where
  "w_tree = Inner [(extent_index_new 10 7, Leaf [extent_new 10 9 2]), (extent_index_new 20 8, Leaf [extent_new 20 12 1])]"

lemma w_index_roundtrip [simp]: "extent_index_from_bytes (w_index b p) = extent_index_new b p" "length (w_index b p) = 12"
  by (simp_all add: w_index_def)

lemma w_extent_values:
  "ex_first_block (extent_new b p n) = b" "n \<le> INIT_MAX_LEN \<Longrightarrow> ex_block_count (extent_new b p n) = ucast n"
  by (simp_all add: extent_new_def ex_block_count_def)

lemma w_leaves:
  "valid_node w_leaf_a (w_node_header 1 0) [extent_to_bytes (extent_new 10 9 2)]"
  "valid_node w_leaf_b (w_node_header 1 0) [extent_to_bytes (extent_new 20 12 1)]"
  "valid_node w_cycle (w_node_header 1 1) [w_index 0 11]"
  unfolding w_leaf_a_def w_leaf_b_def w_cycle_def
  using w_node_valid [of "[extent_to_bytes (extent_new 10 9 2)]" 0 BLOCK_SIZE] w_node_valid [of "[extent_to_bytes (extent_new 20 12 1)]" 0 BLOCK_SIZE]
    w_node_valid [of "[w_index 0 11]" 1 BLOCK_SIZE]
  by (simp_all add: extents_sorted_def ex_end_def w_extent_values INIT_MAX_LEN_def MAX_EXTENT_DEPTH_def)

lemma w_roots:
  "valid_node (extent_root w_tree_inode) (w_node_header 2 1) [w_index 10 7, w_index 20 8]"
  "valid_node (extent_root w_cycle_inode) (w_node_header 1 1) [w_index 0 11]"
proof -
  have "valid_node (w_node 1 [w_index 10 7, w_index 20 8] 60) (w_node_header (length [w_index 10 7, w_index 20 8]) 1)
      [w_index 10 7, w_index 20 8]"
    by (rule w_node_valid) (simp_all add: MAX_EXTENT_DEPTH_def extent_index_new_def)
  moreover have "length [w_index 10 7, w_index 20 8] = 2" by simp
  ultimately show "valid_node (extent_root w_tree_inode) (w_node_header 2 1) [w_index 10 7, w_index 20 8]"
    by (simp only: extent_root_def w_tree_inode_def inode_ref.simps inode.simps inode.update_convs inode_default_def)
  have "valid_node (w_node 1 [w_index 0 11] 60) (w_node_header (length [w_index 0 11]) 1) [w_index 0 11]"
    by (rule w_node_valid) (simp_all add: MAX_EXTENT_DEPTH_def)
  then show "valid_node (extent_root w_cycle_inode) (w_node_header 1 1) [w_index 0 11]"
    by (simp add: extent_root_def w_cycle_inode_def)
qed

lemma w_data_block:
  "fs_validate_data_blocks w_tree_fs 7 1 = Inr ()" "fs_validate_data_blocks w_tree_fs 8 1 = Inr ()"
  "fs_validate_data_blocks w_tree_fs 9 1 = Inr ()" "fs_validate_data_blocks w_tree_fs 11 1 = Inr ()"
  by (simp_all add: fs_validate_data_blocks_def validate_data_blocks_def checked_add_def w_tree_fs_def w_fs_def
      w_mount_fields partition_point_def journal_owns_block_range_def)

lemma w_child:
  assumes "fs_validate_data_blocks w_tree_fs p 1 = Inr ()" "p < 16" "w_mount_device[7 := w_leaf_a, 8 := w_leaf_b, 11 := w_cycle] ! unat p = node" "valid_node node h ss"
  shows "child_node mem_ops w_tree_fs r p = Inr node"
proof -
  have b: "p < sb_block_count (fs_cached_super_block w_tree_fs)" using assms(2) by (simp add: w_tree_fs_def w_fs_def w_mount_fields)
  have "length (w_mount_device[7 := w_leaf_a, 8 := w_leaf_b, 11 := w_cycle]) = 16" by (simp add: w_mount_device_def)
  then have "fs_read_block mem_ops w_tree_fs p = Inr \<lparr>blk_id = p, blk_data = node\<rparr>"
    using assms(2,3) by (simp add: fs_read_block_def mem_ops_def mem_read_block_def w_tree_fs_def block_new_def word_less_nat_alt)
  moreover have "verify_extent_block_checksum w_tree_fs r node = Inr ()"
    by (simp add: verify_extent_block_checksum_def w_tree_fs_def w_fs_def)
  ultimately show ?thesis
    using b assms(1) valid_node_validates [OF assms(4)]
    by (simp add: child_node_def read_extent_block_def ensure_valid_pblock_def)
qed

lemma w_device_length: "length w_mount_device = 16"
  by (simp add: w_mount_device_def)

lemma w_children:
  "child_node mem_ops w_tree_fs r 7 = Inr w_leaf_a" "child_node mem_ops w_tree_fs r 8 = Inr w_leaf_b"
  "child_node mem_ops w_tree_fs r 11 = Inr w_cycle"
  by (rule w_child [OF w_data_block(1) _ _ w_leaves(1)] w_child [OF w_data_block(2) _ _ w_leaves(2)]
        w_child [OF w_data_block(4) _ _ w_leaves(3)]; simp add: w_device_length)+

lemma w_leaf_value [simp]: "ei_leaf (extent_index_new b 7) = 7" "ei_leaf (extent_index_new b 8) = 8" "ei_leaf (extent_index_new b 11) = 11"
  "ei_first_block (extent_index_new b p) = b"
  by (simp_all add: extent_index_new_def ei_leaf_def)

lemma w_header_values [simp]:
  "eh_depth (w_node_header n d) = d" "n < 2 ^ 16 \<Longrightarrow> unat (eh_entries_count (w_node_header n d)) = n"
  by (simp_all add: w_node_header_def header_new_def unat_word_of_nat)

lemma w_tree_on: "tree_on (child_node mem_ops w_tree_fs w_tree_inode) 1 (extent_root w_tree_inode) w_tree"
proof -
  have "tree_on f 0 w_leaf_a (Leaf [extent_new 10 9 2])" "tree_on f 0 w_leaf_b (Leaf [extent_new 20 12 1])" for f
    using w_leaves(1,2) by (auto simp: node_entries_def intro!: exI [of _ "w_node_header 1 0"])
  then show ?thesis
    using w_roots(1) w_children
    by (auto simp: w_tree_def index_entries_def intro!: exI [of _ "w_node_header 2 1"] exI [of _ "[w_index 10 7, w_index 20 8]"])
qed

lemma w_tree_ordered: "tree_ordered 10 100 w_tree"
  by (simp add: w_tree_def key_ends_def w_extent_values ex_end_def INIT_MAX_LEN_def)


theorem extent_query_correct_witness:
  "extent_query mem_ops w_tree_fs w_tree_inode 11 = Inr 10 \<and> extent_query mem_ops w_tree_fs w_tree_inode 15 = Inl (Err ENOENT)"
proof -
  have z: "0 \<notin> set (tree_blocks w_tree)" by (simp add: w_tree_def)
  note q = extent_query_correct [OF w_tree_on w_tree_ordered _ _ z]
  have "mapped_at (tree_extents w_tree) 11 = Some 10" "mapped_at (tree_extents w_tree) 15 = None"
    by (simp_all add: w_tree_def mapped_at_def ex_covers_def ex_end_def w_extent_values INIT_MAX_LEN_def ex_is_unwritten_def)
      (simp_all add: extent_new_def ex_start_pblock_def)
  moreover have "fs_validate_data_blocks w_tree_fs 10 1 = Inr ()" "sb_block_count (fs_cached_super_block w_tree_fs) = 16"
    by (simp_all add: fs_validate_data_blocks_def validate_data_blocks_def checked_add_def w_tree_fs_def w_fs_def
      w_mount_fields partition_point_def journal_owns_block_range_def)
  ultimately show ?thesis using q [of 11] q [of 15] by simp
qed

theorem blocks_before_first_key_unreachable_witness:
  "extent_query mem_ops w_tree_fs w_tree_inode 0 = Inl (Err EIO) \<and> mapped_at (tree_extents w_tree) 0 = None"
  using blocks_before_first_key_unreachable [OF w_tree_on [unfolded w_tree_def], of 0]
  by (simp add: mapped_at_def w_tree_def ex_covers_def w_extent_values)

theorem tree_walks_complete_witness:
  "extent_all_tree_blocks mem_ops w_tree_fs w_tree_inode = Inr [7, 8] \<and>
   extent_all_data_blocks mem_ops w_tree_fs w_tree_inode = Inr [9, 10, 12] \<and>
   extent_next_data_lblock mem_ops w_tree_fs w_tree_inode = Inr 21"
  using tree_walks_complete [OF w_tree_on]
  by (simp add: w_tree_def extent_blocks_def w_extent_values INIT_MAX_LEN_def ex_end_def upt_rec)
    (simp add: extent_new_def ex_start_pblock_def)

theorem find_extent_cycle_never_returns_witness: "find_extent_run mem_ops w_tree_fs w_cycle_inode 5 = None"
proof -
  note r = w_roots(2) and c = w_leaves(3)
  have d: "eh_depth (w_node_header 1 1) \<noteq> 0" by simp
  have cs: "index_entries (w_node_header 1 1) [w_index 0 11] = map fst [(extent_index_new 0 11, Leaf [])]"
    by (simp add: index_entries_def)
  have s: "search_extent_index (extent_root w_cycle_inode) 5 = Inr (Found 0)" "search_extent_index w_cycle 5 = Inr (Found 0)"
    using search_inner [OF r d cs, of 5] search_inner [OF c d cs, of 5] by (simp_all add: child_pos_def)
  have i: "extent_index_at (extent_root w_cycle_inode) 0 = Inr (extent_index_new 0 11)" "extent_index_at w_cycle 0 = Inr (extent_index_new 0 11)"
    using valid_entry(2) [OF r, of 0] valid_entry(2) [OF c, of 0] cs by simp_all
  show ?thesis
    by (rule find_extent_cycle_never_returns [OF valid_node_validates [OF r] valid_node_header [OF r] d s(1) i(1) _ w_children(3)
        valid_node_header [OF c] d s(2) i(2)]) simp_all
qed

end
