(* ===== verification/Transaction_Allocation.thy ===== *)
theory Transaction_Allocation
  imports Allocation
begin

text \<open>
  Allocation inside a transaction, \<^verbatim>\<open>src/ext4/alloc.rs\<close>: a contiguous range of blocks, the release of
  a range, and the release of an inode number. The operations read the metadata through the
  transaction and stage the changed bitmap, descriptor and superblock; nothing reaches the
  device or the caches before the commit.
\<close>

section \<open>Bits of a staged bitmap\<close>

text \<open>\<^verbatim>\<open>all\<close> and \<^verbatim>\<open>any\<close> over a range of bits, and the loop that sets or clears them.\<close>

fun bits_all :: "bytes \<Rightarrow> bool \<Rightarrow> nat list \<Rightarrow> bool res" where
  "bits_all bm clear [] = Inr True"
| "bits_all bm clear (i # is) =
     rbind (is_bit_clear bm i) (\<lambda>c. if c = clear then bits_all bm clear is else Inr False)"

fun change_bits :: "(bytes \<Rightarrow> nat \<Rightarrow> bytes res) \<Rightarrow> bytes \<Rightarrow> nat list \<Rightarrow> bytes res" where
  "change_bits f bm [] = Inr bm"
| "change_bits f bm (i # is) = rbind (f bm i) (\<lambda>bm. change_bits f bm is)"

text \<open>A range of bits of a staged bitmap block: all must be clear (or all set), then they are set (or cleared).
  The result is the new image.\<close>

definition transaction_change_bits ::
    "('d, 'y) device_ops_scheme \<Rightarrow> ('d, 'z) ext4_scheme \<Rightarrow> transaction \<Rightarrow> PBlockId \<Rightarrow> nat \<Rightarrow> bool \<Rightarrow> ErrCode \<Rightarrow> nat \<Rightarrow> nat \<Rightarrow>
     transaction \<times> bytes res" where
  "transaction_change_bits ops fs tx home nbits clear err bitno count =
     (case transaction_block_for_update ops fs tx home of
        Inl e \<Rightarrow> (tx, Inl e)
      | Inr (tx, img) \<Rightarrow>
          sbind (tx, rbind (bitmap_new img nbits) (\<lambda>bm.
                     rbind (bits_all bm clear [bitno..<bitno + count]) (\<lambda>ok.
                     if \<not> ok then Inl (Err err)
                     else change_bits (if clear then bitmap_set_bit else bitmap_clear_bit) bm [bitno..<bitno + count]))) (\<lambda>tx bm.
          let img = splice img 0 bm in (tx_update tx home img, Inr img)))"

text \<open>The checks of the checksums under \<^verbatim>\<open>metadata_csum\<close>, and the checksum of the changed bitmap.\<close>

definition check_group_csum ::
    "('d, 'y) device_ops_scheme \<Rightarrow> ('d, 'z) ext4_scheme \<Rightarrow> transaction \<Rightarrow> super_block \<Rightarrow> block_group_ref \<Rightarrow> PBlockId \<Rightarrow>
     (block_group_desc \<Rightarrow> MetadataChecksumSeed \<Rightarrow> bytes \<Rightarrow> nat \<Rightarrow> bool) \<Rightarrow> nat \<Rightarrow> unit res" where
  "check_group_csum ops fs tx sb bg home verify checksum_bytes =
     (if \<not> has_read_only_compatible_feature sb FEATURE_RO_COMPAT_METADATA_CSUM then Inr ()
      else if \<not> bgr_verify_checksum (metadata_checksum_seed sb) bg then Inl (Err EIO)
      else
        rbind (tx_read ops (fs_device fs) tx home) (\<lambda>img.
        guard (verify (bgr_desc bg) (metadata_checksum_seed sb) img checksum_bytes) (Err EIO)))"

definition seal_bitmap ::
    "bool \<Rightarrow> (block_group_desc \<Rightarrow> MetadataChecksumSeed \<Rightarrow> bytes \<Rightarrow> nat \<Rightarrow> block_group_desc \<times> bool) \<Rightarrow> super_block \<Rightarrow>
     block_group_desc \<Rightarrow> bytes \<Rightarrow> nat \<Rightarrow> block_group_desc res" where
  "seal_bitmap wanted update sb desc img checksum_bytes =
     (if \<not> wanted then Inr desc
      else case update desc (metadata_checksum_seed sb) img checksum_bytes of
        (desc, ok) \<Rightarrow> if ok then Inr desc else Inl (Err EIO))"

text \<open>The descriptor and the superblock with their new counters.\<close>

definition stage_counters ::
    "('d, 'y) device_ops_scheme \<Rightarrow> ('d, 'z) ext4_scheme \<Rightarrow> transaction \<Rightarrow> BlockGroupId \<Rightarrow> block_group_desc \<Rightarrow> super_block \<Rightarrow>
     transaction \<times> unit res" where
  "stage_counters ops fs tx bgid desc sb =
     sbind (transaction_stage_block_group_with_csum ops fs tx (bgr_new bgid desc)) (\<lambda>tx _.
     transaction_stage_super_block ops fs tx sb)"

section \<open>A contiguous range\<close>

record direct_range_allocation =
  ra_first :: PBlockId
  ra_allocation_homes :: "PBlockId list"

definition DIRECT_RANGE_MAX_GROUP_PROBES :: u32 where "DIRECT_RANGE_MAX_GROUP_PROBES = 4"

definition block_group_of :: "super_block \<Rightarrow> PBlockId \<Rightarrow> BlockGroupId res" where
  "block_group_of sb b =
     (if sb_blocks_per_group sb = 0 then Inl Panic
      else Inr (ucast ((b - ucast (sb_first_data_block sb)) div ucast (sb_blocks_per_group sb))))"

definition preferred_group :: "super_block \<Rightarrow> u32 \<Rightarrow> InodeId \<Rightarrow> PBlockId option \<Rightarrow> BlockGroupId res" where
  "preferred_group sb bg_count inode_id preferred_first =
     rbind (inode_group_index sb inode_id) (\<lambda>(inode_group, _).
     case preferred_first of
       Some b \<Rightarrow>
         if b < ucast (sb_first_data_block sb) then Inr inode_group
         else rbind (block_group_of sb b) (\<lambda>g. Inr (if g < bg_count then g else inode_group))
     | None \<Rightarrow> Inr inode_group)"

text \<open>The preferred place in the first group of the probe, when the whole range is clear there.\<close>

definition exact_hint :: "bytes \<Rightarrow> nat \<Rightarrow> nat \<Rightarrow> PBlockId \<Rightarrow> PBlockId option \<Rightarrow> nat \<Rightarrow> nat option res" where
  "exact_hint img blocks_in_group offset group_first preferred_first count =
     (if offset \<noteq> 0 then Inr None
      else case preferred_first of
        None \<Rightarrow> Inr None
      | Some b \<Rightarrow>
          case checked_sub b group_first of
            None \<Rightarrow> Inr None
          | Some d \<Rightarrow>
              let bitno = unat d in
              if bitno + count > blocks_in_group then Inr None
              else rbind (bits_all img True [bitno..<bitno + count]) (\<lambda>ok. Inr (if ok then Some bitno else None)))"

text \<open>The place of the range in one group; \<open>None\<close> when the group does not serve.\<close>

definition range_bit ::
    "bytes \<Rightarrow> nat \<Rightarrow> nat \<Rightarrow> PBlockId \<Rightarrow> PBlockId option \<Rightarrow> bool \<Rightarrow> nat \<Rightarrow> nat option res" where
  "range_bit img blocks_in_group offset group_first preferred_first require_preferred count =
     rbind (exact_hint img blocks_in_group offset group_first preferred_first count) (\<lambda>hint. case hint of
       Some bitno \<Rightarrow> Inr (Some bitno)
     | None \<Rightarrow>
         if require_preferred then Inr None
         else first_clear_run_in img blocks_in_group 0 blocks_in_group count)"

definition stage_range ::
    "('d, 'y) device_ops_scheme \<Rightarrow> ('d, 'z) ext4_scheme \<Rightarrow> transaction \<Rightarrow> super_block \<Rightarrow> block_group_ref \<Rightarrow> nat \<Rightarrow> PBlockId \<Rightarrow>
     nat \<Rightarrow> u32 \<Rightarrow> transaction \<times> direct_range_allocation res" where
  "stage_range ops fs tx sb bg blocks_in_group group_first bitno count =
     (let desc = bgr_desc bg; bitmap_home = bg_block_bitmap_block desc;
          checksum_bytes = unat (sb_frags_per_group sb) div 8 in
      sbind (tx, ok_or (checked_add group_first (word_of_nat bitno)) EFBIG) (\<lambda>tx first.
      sbind (tx, fs_validate_data_blocks fs first (ucast count)) (\<lambda>tx _.
      sbind (tx, ok_or (checked_sub (bg_get_free_blocks_count desc) (ucast count)) EIO) (\<lambda>tx new_bg_free.
      sbind (tx, ok_or (checked_sub (sb_free_blocks_count sb) (ucast count)) EIO) (\<lambda>tx new_sb_free.
      sbind (transaction_change_bits ops fs tx bitmap_home blocks_in_group True EIO bitno (unat count)) (\<lambda>tx img.
      sbind (tx, seal_bitmap True update_block_bitmap_csum sb desc img checksum_bytes) (\<lambda>tx desc.
      sbind (stage_counters ops fs tx (bgr_id bg) (bg_set_free_blocks_count new_bg_free desc)
               (sb_set_free_blocks_count new_sb_free sb)) (\<lambda>tx _.
      sbind (tx, block_group_disk_pos fs (bgr_id bg)) (\<lambda>tx (gdt_home, _).
      (tx, Inr \<lparr>ra_first = first, ra_allocation_homes = [bitmap_home, gdt_home, 0]\<rparr>))))))))))"

definition probe_group ::
    "('d, 'y) device_ops_scheme \<Rightarrow> ('d, 'z) ext4_scheme \<Rightarrow> transaction \<Rightarrow> super_block \<Rightarrow> BlockGroupId \<Rightarrow> nat \<Rightarrow>
     PBlockId option \<Rightarrow> bool \<Rightarrow> u32 \<Rightarrow> transaction \<times> direct_range_allocation option res" where
  "probe_group ops fs tx sb bgid offset preferred_first require_preferred count =
     (let blocks_in_group = block_group_block_count sb bgid in
      if blocks_in_group < unat count then (tx, Inr None)
      else
        sbind (tx, transaction_read_block_group ops fs tx bgid) (\<lambda>tx bg.
        let desc = bgr_desc bg; home = bg_block_bitmap_block desc; checksum_bytes = unat (sb_frags_per_group sb) div 8;
            group_first = block_group_first_block sb bgid in
        if bg_get_free_blocks_count desc < ucast count then (tx, Inr None)
        else
          sbind (tx, tx_read ops (fs_device fs) tx home) (\<lambda>tx img.
          sbind (tx, check_group_csum ops fs tx sb bg home verify_block_bitmap_csum checksum_bytes) (\<lambda>tx _.
          sbind (tx, range_bit img blocks_in_group offset group_first preferred_first require_preferred (unat count)) (\<lambda>tx bitno.
          case bitno of
            None \<Rightarrow> (tx, Inr None)
          | Some bitno \<Rightarrow>
              sbind (stage_range ops fs tx sb bg blocks_in_group group_first bitno count) (\<lambda>tx a. (tx, Inr (Some a))))))))"

fun probe_groups ::
    "('d, 'y) device_ops_scheme \<Rightarrow> ('d, 'z) ext4_scheme \<Rightarrow> transaction \<Rightarrow> super_block \<Rightarrow> BlockGroupId \<Rightarrow> u32 \<Rightarrow>
     PBlockId option \<Rightarrow> bool \<Rightarrow> u32 \<Rightarrow> nat list \<Rightarrow> transaction \<times> direct_range_allocation res" where
  "probe_groups ops fs tx sb preferred bg_count preferred_first require_preferred count [] = (tx, Inl (Err ENOSPC))"
| "probe_groups ops fs tx sb preferred bg_count preferred_first require_preferred count (offset # offsets) =
     sbind (probe_group ops fs tx sb (word_of_nat ((unat preferred + offset) mod unat bg_count)) offset
              preferred_first require_preferred count) (\<lambda>tx r.
     case r of
       Some a \<Rightarrow> (tx, Inr a)
     | None \<Rightarrow> probe_groups ops fs tx sb preferred bg_count preferred_first require_preferred count offsets)"

definition transaction_alloc_direct_range ::
    "('d, 'y) device_ops_scheme \<Rightarrow> ('d, 'z) ext4_scheme \<Rightarrow> transaction \<Rightarrow> InodeId \<Rightarrow> PBlockId option \<Rightarrow> bool \<Rightarrow> u32 \<Rightarrow>
     transaction \<times> direct_range_allocation res" where
  "transaction_alloc_direct_range ops fs tx inode_id preferred_first require_preferred count =
     (if count = 0 then (tx, Inl (Err EINVAL))
      else
        sbind (tx, transaction_read_super_block ops fs tx) (\<lambda>tx sb.
        sbind (tx, sb_block_group_count sb) (\<lambda>tx bg_count.
        sbind (tx, preferred_group sb bg_count inode_id preferred_first) (\<lambda>tx preferred.
        probe_groups ops fs tx sb preferred bg_count preferred_first require_preferred count
          [0..<unat (min bg_count DIRECT_RANGE_MAX_GROUP_PROBES)]))))"

section \<open>Releasing a range\<close>

text \<open>\<^verbatim>\<open>checked_add\<close> with a filter on the sum.\<close>

definition add_up_to :: "'a::len word \<Rightarrow> 'a word \<Rightarrow> 'a word \<Rightarrow> 'a word res" where
  "add_up_to a b limit = (case checked_add a b of
     Some c \<Rightarrow> if c \<le> limit then Inr c else Inl (Err EINVAL) | None \<Rightarrow> Inl (Err EINVAL))"

definition transaction_dealloc_block_range ::
    "('d, 'y) device_ops_scheme \<Rightarrow> ('d, 'z) ext4_scheme \<Rightarrow> transaction \<Rightarrow> PBlockId \<Rightarrow> u32 \<Rightarrow> transaction \<times> unit res" where
  "transaction_dealloc_block_range ops fs tx first count =
     (if count = 0 then (tx, Inl (Err EINVAL))
      else
        sbind (tx, transaction_read_super_block ops fs tx) (\<lambda>tx sb.
        sbind (tx, ok_or (checked_add first (ucast count)) EINVAL) (\<lambda>tx last_exclusive.
        if first < ucast (sb_first_data_block sb) \<or> first \<ge> sb_block_count sb \<or> last_exclusive > sb_block_count sb
        then (tx, Inl (Err EINVAL))
        else
          sbind (tx, block_group_of sb first) (\<lambda>tx bgid.
          sbind (tx, block_group_of sb (last_exclusive - 1)) (\<lambda>tx last_bgid.
          if last_bgid \<noteq> bgid then (tx, Inl (Err EINVAL))
          else
            sbind (tx, sub_chk first (block_group_first_block sb bgid)) (\<lambda>tx d.
            let bitno = unat d; blocks_in_group = block_group_block_count sb bgid;
                checksum_bytes = unat (sb_frags_per_group sb) div 8;
                metadata_csum = has_read_only_compatible_feature sb FEATURE_RO_COMPAT_METADATA_CSUM in
            if bitno + unat count > blocks_in_group then (tx, Inl (Err EINVAL))
            else
              sbind (tx, fs_validate_data_blocks fs first (ucast count)) (\<lambda>tx _.
              sbind (tx, transaction_read_block_group ops fs tx bgid) (\<lambda>tx bg.
              let desc = bgr_desc bg; home = bg_block_bitmap_block desc in
              sbind (tx, check_group_csum ops fs tx sb bg home verify_block_bitmap_csum checksum_bytes) (\<lambda>tx _.
              sbind (tx, add_up_to (bg_get_free_blocks_count desc) (ucast count) (word_of_nat blocks_in_group)) (\<lambda>tx new_bg_free.
              sbind (tx, add_up_to (sb_free_blocks_count sb) (ucast count) (sb_block_count sb)) (\<lambda>tx new_sb_free.
              sbind (transaction_change_bits ops fs tx home blocks_in_group False EINVAL bitno (unat count)) (\<lambda>tx img.
              sbind (tx, seal_bitmap metadata_csum update_block_bitmap_csum sb desc img checksum_bytes) (\<lambda>tx desc.
              stage_counters ops fs tx bgid (bg_set_free_blocks_count new_bg_free desc)
                (sb_set_free_blocks_count new_sb_free sb))))))))))))))"

section \<open>Releasing an inode number\<close>

definition transaction_dealloc_inode ::
    "('d, 'y) device_ops_scheme \<Rightarrow> ('d, 'z) ext4_scheme \<Rightarrow> transaction \<Rightarrow> InodeId \<Rightarrow> bool \<Rightarrow> transaction \<times> unit res" where
  "transaction_dealloc_inode ops fs tx inode_id is_dir =
     sbind (tx, transaction_read_super_block ops fs tx) (\<lambda>tx sb.
     if inode_id = 0 \<or> inode_id > sb_inode_count sb then (tx, Inl (Err EINVAL))
     else
       sbind (tx, inode_group_index sb inode_id) (\<lambda>tx (bgid, idx).
       sbind (tx, sb_inode_count_in_group sb bgid) (\<lambda>tx inode_count.
       let metadata_csum = has_read_only_compatible_feature sb FEATURE_RO_COMPAT_METADATA_CSUM;
           checksum_bytes = unat (sb_inodes_per_group sb) div 8 in
       if idx \<ge> inode_count then (tx, Inl (Err EINVAL))
       else
         sbind (tx, transaction_read_block_group ops fs tx bgid) (\<lambda>tx bg.
         let desc = bgr_desc bg; home = bg_inode_bitmap_block desc in
         sbind (tx, check_group_csum ops fs tx sb bg home verify_inode_bitmap_csum checksum_bytes) (\<lambda>tx _.
         sbind (tx, add_up_to (bg_free_inodes_count desc) 1 inode_count) (\<lambda>tx new_bg_free.
         sbind (tx, add_up_to (sb_free_inode_count sb) 1 (sb_inode_count sb)) (\<lambda>tx new_sb_free.
         sbind (tx, if is_dir then rbind (ok_or (checked_sub (bg_used_dirs_count desc) 1) EINVAL) (\<lambda>n. Inr (Some n))
                    else Inr None) (\<lambda>tx new_used_dirs.
         sbind (transaction_change_bits ops fs tx home (unat inode_count) False EINVAL (unat idx) 1) (\<lambda>tx img.
         sbind (tx, seal_bitmap metadata_csum update_inode_bitmap_csum sb desc img checksum_bytes) (\<lambda>tx desc.
         let desc = bg_set_free_inodes_count new_bg_free desc;
             desc = (case new_used_dirs of Some used \<Rightarrow> bg_set_used_dirs_count used desc | None \<Rightarrow> desc) in
         stage_counters ops fs tx bgid desc (sb_set_free_inodes_count sb new_sb_free)))))))))))"

end
