(* ===== verification/Orphan_List.thy ===== *)
theory Orphan_List
  imports Transaction_Allocation Extent_Tree Xattr_Block
begin

text \<open>
  The list of orphans, \<^verbatim>\<open>src/ext4/orphan.rs\<close>, and the release of an attribute block,
  \<^verbatim>\<open>src/ext4/xattr_reclaim.rs\<close>. The list hangs off the superblock and runs through the deletion time of
  the inodes. It is validated as a whole before anything is reclaimed; the validation reads it
  through the interface \<open>orphan_reader\<close>, as in the code, and \<open>fs_orphan_reader\<close> is the reader of the file system.
\<close>

section \<open>The reader and the validation\<close>

record orphan_node =
  on_next :: InodeId
  on_links :: u16
  on_valid_mode :: bool
  on_valid_checksum :: bool

record orphan_reader =
  or_inode_count :: u32
  or_first_inode :: u32
  or_journal_inode :: u32
  or_inode_allocated :: "InodeId \<Rightarrow> bool res"
  or_read_orphan_inode :: "InodeId \<Rightarrow> orphan_node res"

definition valid_orphan_number :: "orphan_reader \<Rightarrow> InodeId \<Rightarrow> bool" where
  "valid_orphan_number reader i \<longleftrightarrow>
     i \<ge> or_first_inode reader \<and> i \<le> or_inode_count reader \<and> i \<noteq> EXT4_ROOT_INO \<and> i \<noteq> or_journal_inode reader"

text \<open>One inode of the list: its number, its allocation, the node, and the number of its successor.\<close>

definition check_orphan :: "orphan_reader \<Rightarrow> InodeId list \<Rightarrow> InodeId \<Rightarrow> orphan_node res" where
  "check_orphan reader inodes current =
     (if \<not> valid_orphan_number reader current \<or> length inodes \<ge> unat (or_inode_count reader) \<or> current \<in> set inodes
      then Inl (Err EIO)
      else
        rbind (or_inode_allocated reader current) (\<lambda>allocated.
        if \<not> allocated then Inl (Err EIO)
        else
          rbind (or_read_orphan_inode reader current) (\<lambda>node.
          if \<not> on_valid_checksum node \<or> \<not> on_valid_mode node then Inl (Err EIO)
          else if on_next node \<noteq> 0 \<and> \<not> valid_orphan_number reader (on_next node) then Inl (Err EIO)
          else Inr node)))"

lemma check_orphan_bound: "check_orphan reader inodes current = Inr node \<Longrightarrow> length inodes < unat (or_inode_count reader)"
  by (simp add: check_orphan_def split: if_splits)

text \<open>\<^verbatim>\<open>visited\<close> holds the same numbers as the list collected so far.\<close>

function validate_chain_loop :: "orphan_reader \<Rightarrow> InodeId \<Rightarrow> InodeId list \<Rightarrow> InodeId list res" where
  "validate_chain_loop reader current inodes =
     (if current = 0 then Inr inodes
      else
        rbind (check_orphan reader inodes current) (\<lambda>node.
        validate_chain_loop reader (on_next node) (inodes @ [current])))"
  by pat_completeness auto
termination
  by (relation "measure (\<lambda>(reader, current, inodes). unat (or_inode_count reader) - length inodes)")
    (auto dest: check_orphan_bound)

declare validate_chain_loop.simps [simp del]

definition validate_chain :: "orphan_reader \<Rightarrow> InodeId \<Rightarrow> InodeId list res" where
  "validate_chain reader head = validate_chain_loop reader head []"

section \<open>The reader of the file system\<close>

definition inode_checksum_valid :: "super_block \<Rightarrow> inode_ref \<Rightarrow> bool" where
  "inode_checksum_valid sb r \<longleftrightarrow>
     \<not> has_read_only_compatible_feature sb FEATURE_RO_COMPAT_METADATA_CSUM \<or>
     ir_verify_checksum (metadata_checksum_seed sb) r"

definition unsupported_orphan_features :: "u32 \<Rightarrow> u32 \<Rightarrow> bool" where
  "unsupported_orphan_features compatible read_only_compatible \<longleftrightarrow>
     read_only_compatible AND FEATURE_RO_COMPAT_ORPHAN_PRESENT \<noteq> 0"

definition unsupported_orphan_format :: "super_block \<Rightarrow> bool" where
  "unsupported_orphan_format sb = unsupported_orphan_features (sb_features_compatible sb) (sb_features_read_only sb)"

definition orphan_inode_allocated ::
    "('d, 'y) device_ops_scheme \<Rightarrow> ('d, 'z) ext4_scheme \<Rightarrow> InodeId \<Rightarrow> bool res" where
  "orphan_inode_allocated ops fs i =
     (let sb = fs_cached_super_block fs in
      rbind (inode_group_index sb i) (\<lambda>(group, idx).
      rbind (read_block_group fs group) (\<lambda>bg.
      rbind (fs_read_block ops fs (bg_inode_bitmap_block (bgr_desc bg))) (\<lambda>b.
      rbind (sb_inode_count_in_group sb group) (\<lambda>count.
      if idx \<ge> count then Inl (Err EIO)
      else
        rbind (bitmap_new (blk_data b) (unat count)) (\<lambda>bm.
        rbind (is_bit_clear bm (unat idx)) (\<lambda>is_clear. Inr (\<not> is_clear))))))))"

definition read_orphan_inode ::
    "('d, 'y) device_ops_scheme \<Rightarrow> ('d, 'z) ext4_scheme \<Rightarrow> InodeId \<Rightarrow> orphan_node res" where
  "read_orphan_inode ops fs i =
     rbind (read_inode_uncached ops fs i) (\<lambda>r.
     Inr \<lparr>on_next = next_orphan (ir_inode r), on_links = i_link_count (ir_inode r),
          on_valid_mode = (inode_file_type (ir_inode r) \<noteq> Unknown),
          on_valid_checksum = inode_checksum_valid (fs_cached_super_block fs) r\<rparr>)"

definition fs_orphan_reader :: "('d, 'y) device_ops_scheme \<Rightarrow> ('d, 'z) ext4_scheme \<Rightarrow> orphan_reader" where
  "fs_orphan_reader ops fs =
     \<lparr>or_inode_count = sb_inode_count (fs_cached_super_block fs), or_first_inode = sb_first_inode (fs_cached_super_block fs),
      or_journal_inode = sb_journal_inode_number (fs_cached_super_block fs),
      or_inode_allocated = orphan_inode_allocated ops fs, or_read_orphan_inode = read_orphan_inode ops fs\<rparr>"

definition validate_legacy_orphan_chain ::
    "('d, 'y) device_ops_scheme \<Rightarrow> ('d, 'z) ext4_scheme \<Rightarrow> InodeId list res" where
  "validate_legacy_orphan_chain ops fs =
     validate_chain (fs_orphan_reader ops fs) (sb_last_orphan (fs_cached_super_block fs))"

definition legacy_orphan_contains ::
    "('d, 'y) device_ops_scheme \<Rightarrow> ('d, 'z) ext4_scheme \<Rightarrow> InodeId \<Rightarrow> bool res" where
  "legacy_orphan_contains ops fs i = rbind (validate_legacy_orphan_chain ops fs) (\<lambda>inodes. Inr (i \<in> set inodes))"

definition writable_orphan_preflight :: "('d, 'z) ext4_scheme \<Rightarrow> unit res" where
  "writable_orphan_preflight fs =
     (if unsupported_orphan_format (fs_cached_super_block fs) then Inl (Err ENOTSUP) else Inr ())"

section \<open>Changes of the list in a transaction\<close>

definition transaction_orphan_add ::
    "('d, 'y) device_ops_scheme \<Rightarrow> ('d, 'z) ext4_scheme \<Rightarrow> transaction \<Rightarrow> inode_ref \<Rightarrow> super_block \<Rightarrow>
     (transaction \<times> inode_ref \<times> super_block) \<times> unit res" where
  "transaction_orphan_add ops fs tx r sb =
     (let reader = fs_orphan_reader ops fs in
      if i_link_count (ir_inode r) \<noteq> 0 \<or> inode_file_type (ir_inode r) = Unknown \<or> \<not> valid_orphan_number reader (ir_id r)
      then ((tx, r, sb), Inl (Err EINVAL))
      else
        let old_head = sb_last_orphan sb in
        if old_head = ir_id r \<or> (old_head \<noteq> 0 \<and> \<not> valid_orphan_number reader old_head)
        then ((tx, r, sb), Inl (Err EIO))
        else
          let r = r\<lparr>ir_inode := set_next_orphan old_head (ir_inode r)\<rparr> in
          (case transaction_stage_inode_with_csum ops fs tx r of
             ((tx, r), Inl e) \<Rightarrow> ((tx, r, sb), Inl e)
           | ((tx, r), Inr _) \<Rightarrow>
               let sb = sb_set_last_orphan sb (ir_id r) in
               (case transaction_stage_super_block ops fs tx sb of (tx, x) \<Rightarrow> ((tx, r, sb), x))))"

text \<open>The search for the predecessor of the inode, over the list on the device.\<close>

definition check_listed ::
    "('d, 'y) device_ops_scheme \<Rightarrow> ('d, 'z) ext4_scheme \<Rightarrow> super_block \<Rightarrow> InodeId list \<Rightarrow> InodeId \<Rightarrow> inode_ref res" where
  "check_listed ops fs sb visited current =
     (let reader = fs_orphan_reader ops fs in
      if \<not> valid_orphan_number reader current \<or> length visited \<ge> unat (sb_inode_count sb) \<or> current \<in> set visited
      then Inl (Err EIO)
      else
        rbind (inode_is_allocated ops fs current) (\<lambda>allocated.
        if \<not> allocated then Inl (Err EIO)
        else
          rbind (read_inode_uncached ops fs current) (\<lambda>r.
          if \<not> inode_checksum_valid sb r \<or> inode_file_type (ir_inode r) = Unknown then Inl (Err EIO)
          else if next_orphan (ir_inode r) \<noteq> 0 \<and> \<not> valid_orphan_number reader (next_orphan (ir_inode r))
          then Inl (Err EIO)
          else Inr r)))"

lemma check_listed_bound: "check_listed ops fs sb visited current = Inr r \<Longrightarrow> length visited < unat (sb_inode_count sb)"
  by (simp add: check_listed_def Let_def split: if_splits)

function find_predecessor ::
    "('d, 'y) device_ops_scheme \<Rightarrow> ('d, 'z) ext4_scheme \<Rightarrow> super_block \<Rightarrow> inode_ref \<Rightarrow> InodeId \<Rightarrow> inode_ref option \<Rightarrow>
     InodeId list \<Rightarrow> inode_ref option res" where
  "find_predecessor ops fs sb target current predecessor visited =
     (if current = 0 then Inl (Err EIO)
      else
        rbind (check_listed ops fs sb visited current) (\<lambda>r.
        if current = ir_id target then
          if i_generation (ir_inode r) \<noteq> i_generation (ir_inode target) \<or>
             next_orphan (ir_inode r) \<noteq> next_orphan (ir_inode target)
          then Inl (Err EIO) else Inr predecessor
        else find_predecessor ops fs sb target (next_orphan (ir_inode r)) (Some r) (visited @ [current])))"
  by pat_completeness auto
termination
  by (relation "measure (\<lambda>(ops, fs, sb, target, current, predecessor, visited). unat (sb_inode_count sb) - length visited)")
    (auto dest: check_listed_bound)

declare find_predecessor.simps [simp del]

definition transaction_orphan_del ::
    "('d, 'y) device_ops_scheme \<Rightarrow> ('d, 'z) ext4_scheme \<Rightarrow> transaction \<Rightarrow> inode_ref \<Rightarrow> super_block \<Rightarrow>
     (transaction \<times> super_block) \<times> unit res" where
  "transaction_orphan_del ops fs tx r sb =
     (if \<not> valid_orphan_number (fs_orphan_reader ops fs) (ir_id r) then ((tx, sb), Inl (Err EIO))
      else
        sbind ((tx, sb), find_predecessor ops fs sb r (sb_last_orphan sb) None []) (\<lambda>(tx, sb) predecessor.
        let target_next = next_orphan (ir_inode r) in
        case predecessor of
          Some pred \<Rightarrow>
            (case transaction_stage_inode_with_csum ops fs tx
                    (pred\<lparr>ir_inode := set_next_orphan target_next (ir_inode pred)\<rparr>) of
               ((tx, _), x) \<Rightarrow> ((tx, sb), x))
        | None \<Rightarrow>
            let sb = sb_set_last_orphan sb target_next in
            (case transaction_stage_super_block ops fs tx sb of (tx, x) \<Rightarrow> ((tx, sb), x))))"

section \<open>The list of orphans\<close>

text \<open>The numbers reached from a head, each that of an allocated inode with a checksum and a type.\<close>

fun linked :: "orphan_reader \<Rightarrow> InodeId \<Rightarrow> InodeId list \<Rightarrow> bool" where
  "linked reader h [] \<longleftrightarrow> h = 0"
| "linked reader h (i # ns) \<longleftrightarrow>
     h = i \<and> i \<noteq> 0 \<and> valid_orphan_number reader i \<and> or_inode_allocated reader i = Inr True \<and>
     (\<exists>node. or_read_orphan_inode reader i = Inr node \<and> on_valid_checksum node \<and> on_valid_mode node \<and>
        linked reader (on_next node) ns)"

lemma linked_numbers: "linked reader h ns \<Longrightarrow> \<forall>i \<in> set ns. i \<noteq> 0 \<and> valid_orphan_number reader i"
  by (induction "ns" arbitrary: h) auto

lemma linked_head: "linked reader h ns \<Longrightarrow> h \<noteq> 0 \<Longrightarrow> valid_orphan_number reader h"
  by (cases "ns") auto

text \<open>Distinct numbers between 1 and the count of inodes: the bound on the length is never the reason of a rejection.\<close>

lemma numbers_bound:
  assumes "distinct ns" "\<forall>i \<in> set ns. i \<noteq> 0 \<and> valid_orphan_number reader i"
  shows "length ns \<le> unat (or_inode_count reader)"
proof -
  have "set (map unat ns) \<subseteq> {1..unat (or_inode_count reader)}"
    using assms(2) by (auto simp: valid_orphan_number_def word_le_nat_alt Suc_le_eq unat_gt_0)
  moreover have "distinct (map unat ns)" using assms(1) by (simp add: distinct_map inj_on_def flip: word_unat_eq_iff)
  ultimately show ?thesis
    using card_mono [of "{1..unat (or_inode_count reader)}" "set (map unat ns)"]
    by (simp only: distinct_card) simp
qed

lemma check_orphan_Inr:
  "check_orphan reader inodes i = Inr node \<longleftrightarrow>
     valid_orphan_number reader i \<and> length inodes < unat (or_inode_count reader) \<and> i \<notin> set inodes \<and>
     or_inode_allocated reader i = Inr True \<and> or_read_orphan_inode reader i = Inr node \<and>
     on_valid_checksum node \<and> on_valid_mode node \<and> (on_next node = 0 \<or> valid_orphan_number reader (on_next node))"
  by (auto simp: check_orphan_def res_elims not_le split: if_splits)

lemma chain_loop_sound:
  "validate_chain_loop reader current inodes = Inr res \<Longrightarrow> distinct inodes \<Longrightarrow>
   \<exists>ns. res = inodes @ ns \<and> linked reader current ns \<and> distinct (inodes @ ns)"
proof (induction reader current inodes rule: validate_chain_loop.induct)
  case (1 reader current inodes)
  show ?case
  proof (cases "current = 0")
    case True then show ?thesis using "1.prems" by (intro exI [of _ "[]"]) (simp add: validate_chain_loop.simps)
  next
    case False
    then obtain node where n: "check_orphan reader inodes current = Inr node"
        "validate_chain_loop reader (on_next node) (inodes @ [current]) = Inr res"
      using "1.prems"(1) by (subst (asm) validate_chain_loop.simps) (auto simp: res_elims)
    then have "current \<notin> set inodes" by (simp add: check_orphan_Inr)
    then obtain "ns" where "res = (inodes @ [current]) @ ns" "linked reader (on_next node) ns" "distinct ((inodes @ [current]) @ ns)"
      using "1.IH" [OF False n] "1.prems"(2) by auto
    then show ?thesis using n(1) False by (intro exI [of _ "current # ns"]) (auto simp: check_orphan_Inr)
  qed
qed

lemma chain_loop_complete:
  assumes "linked reader current ns" "distinct (inodes @ ns)" "\<forall>i \<in> set inodes. i \<noteq> 0 \<and> valid_orphan_number reader i"
  shows "validate_chain_loop reader current inodes = Inr (inodes @ ns)"
  using assms
proof (induction "ns" arbitrary: current inodes)
  case Nil then show ?case by (simp add: validate_chain_loop.simps)
next
  case (Cons i "ns")
  obtain node where node: "or_read_orphan_inode reader i = Inr node" "on_valid_checksum node" "on_valid_mode node"
      "linked reader (on_next node) ns"
    using Cons.prems(1) by auto
  have "length (inodes @ [i]) \<le> unat (or_inode_count reader)"
    using numbers_bound [of "inodes @ [i]" reader] Cons.prems by auto
  then have "check_orphan reader inodes i = Inr node"
    using Cons.prems node linked_head [OF node(4)] by (auto simp: check_orphan_Inr)
  then show ?case
    using Cons.IH [OF node(4), of "inodes @ [i]"] Cons.prems by (subst validate_chain_loop.simps) auto
qed

text \<open>C14: the validation of the list of orphans accepts exactly the well-linked lists. \<^verbatim>\<open>validate_chain\<close> returns a list
  from a head exactly when the links lead through these numbers, in this order, to zero, no number comes twice, and
  each ns a legal number of an allocated inode with a type and a valid checksum. The bound on the number of steps
  never rejects a list that ns well linked, and the walk ends on cyclic ones.\<close>

theorem validate_chain_exact:
  "validate_chain reader head = Inr ns \<longleftrightarrow> linked reader head ns \<and> distinct ns"
  using chain_loop_sound [of reader head "[]" "ns"] chain_loop_complete [of reader head "ns" "[]"]
  by (auto simp: validate_chain_def)

text \<open>The list from a head is unique.\<close>

lemma linked_unique: "linked reader h ns \<Longrightarrow> linked reader h js \<Longrightarrow> ns = js"
proof (induction "ns" arbitrary: h js)
  case Nil then show ?case by (cases js) auto
next
  case (Cons i "ns") then show ?case by (cases js) auto
qed

section \<open>The attribute block of an inode\<close>

definition xattr_allocation_bit_is_set :: "bytes \<Rightarrow> nat \<Rightarrow> nat \<Rightarrow> bool" where
  "xattr_allocation_bit_is_set bm i valid_bits \<longleftrightarrow>
     i < valid_bits \<and> i div 8 < length bm \<and> bm ! (i div 8) AND bit_mask i \<noteq> 0"

definition validate_xattr_block_allocation ::
    "('d, 'y) device_ops_scheme \<Rightarrow> ('d, 'z) ext4_scheme \<Rightarrow> transaction \<Rightarrow> PBlockId \<Rightarrow> unit res" where
  "validate_xattr_block_allocation ops fs tx block_id =
     (let sb = fs_cached_super_block fs; first_data = ucast (sb_first_data_block sb) :: u64;
          blocks_per_group = ucast (sb_blocks_per_group sb) :: u64 in
      if blocks_per_group = 0 \<or> block_id < first_data \<or> block_id \<ge> sb_block_count sb then Inl (Err EIO)
      else
        rbind (fs_validate_data_blocks fs block_id 1) (\<lambda>_.
        let group = (block_id - first_data) div blocks_per_group in
        rbind (sb_block_group_count sb) (\<lambda>bg_count.
        if group \<ge> ucast bg_count then Inl (Err EIO)
        else
          rbind (ok_or (checked_mul group blocks_per_group) EIO) (\<lambda>start.
          rbind (ok_or (checked_add first_data start) EIO) (\<lambda>group_first.
          rbind (ok_or (checked_sub (sb_block_count sb) group_first) EIO) (\<lambda>left.
          rbind (sub_chk block_id group_first) (\<lambda>d.
          let valid_bits = unat (min blocks_per_group left); i = unat d in
          if i \<ge> valid_bits then Inl (Err EIO)
          else
            rbind (transaction_read_block_group ops fs tx (ucast group)) (\<lambda>bg.
            let home = bg_block_bitmap_block (bgr_desc bg) in
            if home = 0 \<or> home \<ge> sb_block_count sb then Inl (Err EIO)
            else
              rbind (tx_read ops (fs_device fs) tx home) (\<lambda>bm.
              if has_read_only_compatible_feature sb FEATURE_RO_COMPAT_METADATA_CSUM \<and>
                 (\<not> bgr_verify_checksum (metadata_checksum_seed sb) bg \<or>
                  \<not> verify_block_bitmap_csum (bgr_desc bg) (metadata_checksum_seed sb) bm
                      (unat (sb_frags_per_group sb) div 8))
              then Inl (Err EIO)
              else guard (xattr_allocation_bit_is_set bm i valid_bits) (Err EIO))))))))))"

text \<open>The header of a shared block with one reference less, in the staged image.\<close>

definition stage_shared_xattr ::
    "('d, 'y) device_ops_scheme \<Rightarrow> ('d, 'z) ext4_scheme \<Rightarrow> transaction \<Rightarrow> PBlockId \<Rightarrow> xattr_header \<Rightarrow>
     MetadataChecksumSeed option \<Rightarrow> transaction \<times> unit res" where
  "stage_shared_xattr ops fs tx block_id header csum_seed =
     (case transaction_block_for_update ops fs tx block_id of
        Inl e \<Rightarrow> (tx, Inl e)
      | Inr (tx, img) \<Rightarrow>
          sbind (tx, case csum_seed of
                       None \<Rightarrow> Inr (img, header)
                     | Some seed \<Rightarrow>
                         let header = header\<lparr>xh_checksum := 0\<rparr> in
                         rbind (write_range img 0 (xattr_header_to_bytes header)) (\<lambda>img.
                         rbind (ok_or (xattr_block_checksum seed block_id img) EIO) (\<lambda>checksum.
                         Inr (img, header\<lparr>xh_checksum := checksum\<rparr>)))) (\<lambda>tx (img, header).
          sbind (tx, write_range img 0 (xattr_header_to_bytes header)) (\<lambda>tx img.
          (tx_update tx block_id img, Inr ()))))"

text \<open>The block to release, when the inode was its only owner.\<close>

definition transaction_release_xattr ::
    "('d, 'y) device_ops_scheme \<Rightarrow> ('d, 'z) ext4_scheme \<Rightarrow> transaction \<Rightarrow> inode_ref \<Rightarrow>
     (transaction \<times> inode_ref) \<times> PBlockId option res" where
  "transaction_release_xattr ops fs tx r =
     (let block_id = xattr_block (ir_inode r); sb = fs_cached_super_block fs;
          detached = r\<lparr>ir_inode := set_xattr_block 0 (ir_inode r)\<rparr> in
      if block_id = 0 then ((tx, r), Inr None)
      else
        sbind ((tx, r), rbind (validate_xattr_block_allocation ops fs tx block_id) (\<lambda>_.
                        rbind (tx_read ops (fs_device fs) tx block_id) (\<lambda>img.
                        rbind (ok_or (validate_xattr_block_for_release img) EIO) (\<lambda>(header, has_ea_inode).
                        if has_ea_inode then Inl (Err ENOTSUP)
                        else if has_read_only_compatible_feature sb 0x0400 then
                          rbind (ok_or (xattr_block_checksum (metadata_checksum_seed sb) block_id img) EIO) (\<lambda>expected.
                          if xh_checksum header \<noteq> expected then Inl (Err EIO)
                          else Inr (header, Some (metadata_checksum_seed sb)))
                        else Inr (header, None))))) (\<lambda>(tx, r) (header, csum_seed).
        if xh_refcount header > 1 then
          (case stage_shared_xattr ops fs tx block_id (header\<lparr>xh_refcount := xh_refcount header - 1\<rparr>) csum_seed of
             (tx, Inl e) \<Rightarrow> ((tx, r), Inl e)
           | (tx, Inr _) \<Rightarrow>
               sbind (transaction_stage_inode_with_csum ops fs tx detached) (\<lambda>s _. (s, Inr None)))
        else sbind (transaction_stage_inode_with_csum ops fs tx detached) (\<lambda>s _. (s, Inr (Some block_id)))))"

end
