(* ===== verification/Reclaim.thy ===== *)
theory Reclaim
  imports Orphan_List
begin

text \<open>
  The end of an inode's life: appending blocks to it and freeing it directly (\<^verbatim>\<open>src/ext4/alloc.rs\<close>), the reclaim of
  an unlinked inode and the completion of an interrupted truncate in restartable transactions
  (\<^verbatim>\<open>src/ext4/alloc.rs\<close>), and the cleanup of the list of orphans at mount (\<^verbatim>\<open>src/ext4/orphan.rs\<close>).

  A reclaim runs one transaction after another until the tree of the inode is empty. Nothing in it bounds the number
  of rounds but the device, so the loops are partial functions; \<open>None\<close> is a loop that does not end.
\<close>

section \<open>Direct operations\<close>

fun dealloc_blocks ::
    "('d, 'y) device_ops_scheme \<Rightarrow> ('d, 'z) ext4_scheme \<Rightarrow> PBlockId list \<Rightarrow> ('d, 'z) ext4_scheme \<times> unit res" where
  "dealloc_blocks ops fs [] = (fs, Inr ())"
| "dealloc_blocks ops fs (p # ps) = sbind (dealloc_block ops fs p) (\<lambda>fs _. dealloc_blocks ops fs ps)"

definition free_inode ::
    "('d, 'y) device_ops_scheme \<Rightarrow> ('d, 'z) ext4_scheme \<Rightarrow> inode_ref \<Rightarrow> ('d, 'z) ext4_scheme \<times> unit res" where
  "free_inode ops fs r =
     sbind (fs, extent_all_data_blocks ops fs r) (\<lambda>fs pblocks.
     sbind (dealloc_blocks ops fs pblocks) (\<lambda>fs _.
     sbind (fs, extent_all_tree_blocks ops fs r) (\<lambda>fs pblocks.
     sbind (dealloc_blocks ops fs pblocks) (\<lambda>fs _.
     sbind (dealloc_blocks ops fs (if xattr_block (ir_inode r) \<noteq> 0 then [xattr_block (ir_inode r)] else [])) (\<lambda>fs _.
     sbind (dealloc_inode ops fs r) (\<lambda>fs _.
     (fs\<lparr>fs_inode_cache := cache_invalidate (ir_id r) (fs_inode_cache fs)\<rparr>, Inr ())))))))"

definition inode_append_block ::
    "('d, 'y) device_ops_scheme \<Rightarrow> ('d, 'z) inode_state \<Rightarrow> ('d, 'z) inode_state \<times> (LBlockId \<times> PBlockId) res" where
  "inode_append_block ops s = (case s of (fs, r) \<Rightarrow>
     sbind (s, extent_next_data_lblock ops fs r) (\<lambda>s iblock.
     sbind (extent_query_or_create ops s iblock 1) (\<lambda>(fs, r) fblock.
     sbind ((fs, r), rbind (extent_all_data_blocks ops fs r) (\<lambda>data.
                     rbind (extent_all_tree_blocks ops fs r) (\<lambda>tree.
                     rbind (ok_or (usize_checked_add (length data) (length tree)) EFBIG) (\<lambda>total_blocks.
                     inode_set_fs_block_count (word_of_nat total_blocks) (ir_inode r))))) (\<lambda>(fs, r) inode.
     sbind (write_inode_with_csum ops fs (r\<lparr>ir_inode := inode\<rparr>)) (\<lambda>s _.
     (s, Inr (iblock, fblock)))))))"

section \<open>Transactions around a body\<close>

text \<open>A body that fails or finds nothing to do drops the transaction; otherwise it is committed. A failed commit
  poisons the file system.\<close>

definition commit_reclaim_transaction ::
    "('d, 'y) device_ops_scheme \<Rightarrow> ('d, 'z) ext4_scheme \<Rightarrow> transaction \<Rightarrow> ('d, 'z) ext4_scheme \<times> unit res" where
  "commit_reclaim_transaction ops fs tx = (case fs_commit ops fs tx of
     (fs, Inr _) \<Rightarrow> (fs, Inr ())
   | (fs, Inl (CommitError e _)) \<Rightarrow> (fs_poison EIO fs, Inl (Err e))
   | (fs, Inl CommitPanic) \<Rightarrow> (fs, Inl Panic))"

definition drop_transaction :: "('d, 'z) ext4_scheme \<Rightarrow> transaction \<Rightarrow> ('d, 'z) ext4_scheme" where
  "drop_transaction fs tx = fs\<lparr>fs_metadata_mode := Mutating (tx_abort tx)\<rparr>"

definition run_transaction ::
    "('d, 'y) device_ops_scheme \<Rightarrow> ('d, 'z) ext4_scheme \<Rightarrow> nat \<Rightarrow> (('d, 'z) ext4_scheme \<Rightarrow> transaction \<Rightarrow> transaction \<times> bool res) \<Rightarrow>
     ('d, 'z) ext4_scheme \<times> bool res" where
  "run_transaction ops fs credits body =
     sbind (fs_transaction_start fs credits) (\<lambda>fs tx.
     case body fs tx of
       (tx, Inl e) \<Rightarrow> (drop_transaction fs tx, Inl e)
     | (tx, Inr False) \<Rightarrow> (drop_transaction fs tx, Inr False)
     | (tx, Inr True) \<Rightarrow> sbind (commit_reclaim_transaction ops fs tx) (\<lambda>fs _. (fs, Inr True)))"

section \<open>Releasing the tail of a tree\<close>

fun release_metadata ::
    "('d, 'y) device_ops_scheme \<Rightarrow> ('d, 'z) ext4_scheme \<Rightarrow> transaction \<Rightarrow> PBlockId list \<Rightarrow> transaction \<times> unit res" where
  "release_metadata ops fs tx [] = (tx, Inr ())"
| "release_metadata ops fs tx (p # ps) =
     sbind (transaction_dealloc_block_range ops fs tx p 1) (\<lambda>tx _. release_metadata ops fs tx ps)"

text \<open>The checks of the tail, and the most that one transaction takes of it.\<close>

definition tail_limit :: "('d, 'z) ext4_scheme \<Rightarrow> extent_tail \<Rightarrow> u32 res" where
  "tail_limit fs tail =
     (let sb = fs_cached_super_block fs in
      rbind (ok_or (checked_add (tl_start_pblock tail) (ucast (tl_block_count tail))) EIO) (\<lambda>extent_end.
      if tl_start_pblock tail = 0 \<or> extent_end > sb_block_count sb \<or>
         journal_owns_block_range fs (tl_start_pblock tail) extent_end
      then Inl (Err EIO)
      else ok_or (extent_tail_batch_limit (ucast (sb_first_data_block sb)) (ucast (sb_blocks_per_group sb))
             (tl_start_pblock tail) (tl_block_count tail)) EIO))"

text \<open>The blocks removed from the tree and released; the inode with its new root and block count.\<close>

definition release_tail ::
    "('d, 'y) device_ops_scheme \<Rightarrow> ('d, 'z) ext4_scheme \<Rightarrow> transaction \<Rightarrow> inode_ref \<Rightarrow> u32 \<Rightarrow>
     (transaction \<times> inode_ref) \<times> extent_tail_removal res" where
  "release_tail ops fs tx r remove_limit =
     sbind (extent_remove_tail_in_transaction ops fs tx r remove_limit) (\<lambda>(tx, r) removed.
     sbind ((tx, r), ok_or removed EIO) (\<lambda>(tx, r) removed.
     case sbind (transaction_dealloc_block_range ops fs tx (rm_start_pblock removed) (rm_block_count removed)) (\<lambda>tx _.
          release_metadata ops fs tx (rm_metadata_blocks removed)) of
       (tx, Inl e) \<Rightarrow> ((tx, r), Inl e)
     | (tx, Inr _) \<Rightarrow>
         sbind ((tx, r), rbind (inode_fs_block_count (ir_inode r)) (\<lambda>n.
                         rbind (ok_or (checked_sub n (ucast (rm_block_count removed) +
                                  word_of_nat (length (rm_metadata_blocks removed)))) EIO) (\<lambda>remaining.
                         inode_set_fs_block_count remaining (ir_inode r)))) (\<lambda>(tx, r) inode.
         ((tx, r\<lparr>ir_inode := inode\<rparr>), Inr removed))))"

definition stage_inode ::
    "('d, 'y) device_ops_scheme \<Rightarrow> ('d, 'z) ext4_scheme \<Rightarrow> transaction \<Rightarrow> inode_ref \<Rightarrow> transaction \<times> bool res" where
  "stage_inode ops fs tx r =
     (case transaction_stage_inode_with_csum ops fs tx r of ((tx, _), x) \<Rightarrow> (tx, rbind x (\<lambda>_. Inr True)))"

section \<open>Interrupted truncates\<close>

definition truncate_body ::
    "('d, 'y) device_ops_scheme \<Rightarrow> inode_ref \<Rightarrow> ('d, 'z) ext4_scheme \<Rightarrow> transaction \<Rightarrow> transaction \<times> bool res" where
  "truncate_body ops r fs tx =
     (let size = unat (inode_size (ir_inode r)); keep_blocks = word_of_nat (div_ceil size BLOCK_SIZE) in
      sbind (tx, extent_tail_of ops fs tx r) (\<lambda>tx tail. case tail of
        None \<Rightarrow> (tx, Inr False)
      | Some tail \<Rightarrow>
          sbind (tx, tail_limit fs tail) (\<lambda>tx group_limit.
          case linked_orphan_tail_remove_limit keep_blocks (tl_start_lblock tail) (tl_block_count tail) group_limit of
            None \<Rightarrow> (tx, Inr False)
          | Some remove_limit \<Rightarrow>
              (case release_tail ops fs tx r remove_limit of
                 ((tx, r), Inl e) \<Rightarrow> (tx, Inl e)
               | ((tx, r), Inr _) \<Rightarrow> stage_inode ops fs tx r))))"

definition linked_orphan_ok ::
    "('d, 'y) device_ops_scheme \<Rightarrow> ('d, 'z) ext4_scheme \<Rightarrow> InodeId \<Rightarrow> inode_ref res" where
  "linked_orphan_ok ops fs inode_id =
     rbind (read_inode_uncached ops fs inode_id) (\<lambda>r.
     rbind (inode_is_allocated ops fs inode_id) (\<lambda>allocated.
     let n = ir_inode r in
     if \<not> allocated \<or> inode_mode n = 0 \<or> i_link_count n = 0 \<or> \<not> inode_checksum_valid (fs_cached_super_block fs) r \<or>
        \<not> inode_is_file n \<or> \<not> uses_extents n
     then Inl (Err EIO) else Inr r))"

partial_function (option) truncate_loop ::
    "('d, 'y) device_ops_scheme \<Rightarrow> ('d, 'z) ext4_scheme \<Rightarrow> InodeId \<Rightarrow> (('d, 'z) ext4_scheme \<times> unit res) option" where
  "truncate_loop ops fs inode_id =
     (case sbind (fs, linked_orphan_ok ops fs inode_id) (\<lambda>fs r. run_transaction ops fs 32 (truncate_body ops r)) of
        (fs, Inl e) \<Rightarrow> Some (fs, Inl e)
      | (fs, Inr again) \<Rightarrow> if again then truncate_loop ops fs inode_id else Some (fs, Inr ()))"

definition unlink_orphan_body ::
    "('d, 'y) device_ops_scheme \<Rightarrow> inode_ref \<Rightarrow> ('d, 'z) ext4_scheme \<Rightarrow> transaction \<Rightarrow> transaction \<times> bool res" where
  "unlink_orphan_body ops r fs tx =
     sbind (tx, transaction_read_super_block ops fs tx) (\<lambda>tx sb.
     case transaction_orphan_del ops fs tx r sb of
       ((tx, _), Inl e) \<Rightarrow> (tx, Inl e)
     | ((tx, _), Inr _) \<Rightarrow> stage_inode ops fs tx (r\<lparr>ir_inode := set_next_orphan 0 (ir_inode r)\<rparr>))"

definition recover_linked_orphan_inode_by_id ::
    "('d, 'y) device_ops_scheme \<Rightarrow> ('d, 'z) ext4_scheme \<Rightarrow> InodeId \<Rightarrow> (('d, 'z) ext4_scheme \<times> unit res) option" where
  "recover_linked_orphan_inode_by_id ops fs inode_id =
     (case rbind (ensure_mutable fs) (\<lambda>_. legacy_orphan_contains ops fs inode_id) of
        Inl e \<Rightarrow> Some (fs, Inl e)
      | Inr False \<Rightarrow> Some (fs, Inl (Err EINVAL))
      | Inr True \<Rightarrow> Option.bind (truncate_loop ops fs inode_id) (\<lambda>m. Some (
          sbind m (\<lambda>fs _.
          sbind (fs, read_inode_uncached ops fs inode_id) (\<lambda>fs r.
          if i_link_count (ir_inode r) = 0 then (fs, Inl (Err EIO))
          else sbind (run_transaction ops fs 8 (unlink_orphan_body ops r)) (\<lambda>fs _. (fs, Inr ())))))))"

section \<open>Reclaiming an unlinked inode\<close>

definition validate_reclaim_inode ::
    "('d, 'y) device_ops_scheme \<Rightarrow> ('d, 'z) ext4_scheme \<Rightarrow> InodeId \<Rightarrow> u32 \<Rightarrow> inode_ref res" where
  "validate_reclaim_inode ops fs inode_id generation =
     rbind (inode_is_allocated ops fs inode_id) (\<lambda>allocated.
     if \<not> allocated then Inl (Err EINVAL)
     else
       rbind (read_inode_uncached ops fs inode_id) (\<lambda>r.
       let n = ir_inode r in
       if inode_mode n = 0 \<or> i_link_count n \<noteq> 0 \<or> i_generation n \<noteq> generation \<or>
          \<not> inode_checksum_valid (fs_cached_super_block fs) r
       then Inl (Err EINVAL) else Inr r))"

text \<open>The product of the new size fits in 64 bits, as the block number is 32 bits wide.\<close>

definition reclaim_body ::
    "('d, 'y) device_ops_scheme \<Rightarrow> inode_ref \<Rightarrow> ('d, 'z) ext4_scheme \<Rightarrow> transaction \<Rightarrow> transaction \<times> bool res" where
  "reclaim_body ops r fs tx =
     sbind (tx, extent_tail_of ops fs tx r) (\<lambda>tx tail. case tail of
       None \<Rightarrow> (tx, Inr False)
     | Some tail \<Rightarrow>
         sbind (tx, tail_limit fs tail) (\<lambda>tx remove_limit.
         case release_tail ops fs tx r remove_limit of
           ((tx, r), Inl e) \<Rightarrow> (tx, Inl e)
         | ((tx, r), Inr removed) \<Rightarrow>
             let n = ir_inode r; size = min (inode_size n) (ucast (rm_start_lblock removed) * of_nat BLOCK_SIZE) in
             stage_inode ops fs tx (r\<lparr>ir_inode := inode_set_size size n\<rparr>)))"

partial_function (option) reclaim_loop ::
    "('d, 'y) device_ops_scheme \<Rightarrow> ('d, 'z) ext4_scheme \<Rightarrow> InodeId \<Rightarrow> u32 \<Rightarrow> (('d, 'z) ext4_scheme \<times> unit res) option" where
  "reclaim_loop ops fs inode_id generation =
     (case sbind (fs, validate_reclaim_inode ops fs inode_id generation) (\<lambda>fs r.
           if \<not> uses_extents (ir_inode r) then
             sbind (fs, inode_fs_block_count (ir_inode r)) (\<lambda>fs n.
             (fs, if n \<noteq> 0 then Inl (Err EIO) else Inr False))
           else run_transaction ops fs 32 (reclaim_body ops r)) of
        (fs, Inl e) \<Rightarrow> Some (fs, Inl e)
      | (fs, Inr again) \<Rightarrow> if again then reclaim_loop ops fs inode_id generation else Some (fs, Inr ()))"

definition release_xattr_body ::
    "('d, 'y) device_ops_scheme \<Rightarrow> inode_ref \<Rightarrow> ('d, 'z) ext4_scheme \<Rightarrow> transaction \<Rightarrow> transaction \<times> bool res" where
  "release_xattr_body ops r fs tx = (case transaction_release_xattr ops fs tx r of
     ((tx, _), Inl e) \<Rightarrow> (tx, Inl e)
   | ((tx, _), Inr None) \<Rightarrow> (tx, Inr True)
   | ((tx, _), Inr (Some b)) \<Rightarrow> sbind (transaction_dealloc_block_range ops fs tx b 1) (\<lambda>tx _. (tx, Inr True)))"

text \<open>The last transaction: off the list, the number free, the table entry cleared but for the generation.\<close>

definition final_body ::
    "('d, 'y) device_ops_scheme \<Rightarrow> inode_ref \<Rightarrow> bool \<Rightarrow> u32 \<Rightarrow> ('d, 'z) ext4_scheme \<Rightarrow> transaction \<Rightarrow> transaction \<times> bool res" where
  "final_body ops r require_orphan_membership generation fs tx =
     sbind (if require_orphan_membership then
              sbind (tx, transaction_read_super_block ops fs tx) (\<lambda>tx sb.
              case transaction_orphan_del ops fs tx r sb of ((tx, _), x) \<Rightarrow> (tx, x))
            else (tx, Inr ())) (\<lambda>tx _.
     sbind (transaction_dealloc_inode ops fs tx (ir_id r) (inode_is_dir (ir_inode r))) (\<lambda>tx _.
     stage_inode ops fs tx \<lparr>ir_id = ir_id r, ir_inode = inode_default\<lparr>i_generation := generation\<rparr>\<rparr>))"

definition no_extent_left ::
    "('d, 'y) device_ops_scheme \<Rightarrow> inode_ref \<Rightarrow> ('d, 'z) ext4_scheme \<Rightarrow> transaction \<Rightarrow> transaction \<times> bool res" where
  "no_extent_left ops r fs tx =
     (tx, rbind (extent_tail_of ops fs tx r) (\<lambda>tail. if tail \<noteq> None then Inl (Err EIO) else Inr False))"

definition reclaim_end ::
    "('d, 'y) device_ops_scheme \<Rightarrow> InodeId \<Rightarrow> u32 \<Rightarrow> bool \<Rightarrow> ('d, 'z) ext4_scheme \<Rightarrow> ('d, 'z) ext4_scheme \<times> unit res" where
  "reclaim_end ops inode_id generation require_orphan_membership fs =
     sbind (fs, validate_reclaim_inode ops fs inode_id generation) (\<lambda>fs r.
     sbind (if xattr_block (ir_inode r) \<noteq> 0 then run_transaction ops fs 16 (release_xattr_body ops r)
            else (fs, Inr False)) (\<lambda>fs _.
     sbind (fs, validate_reclaim_inode ops fs inode_id generation) (\<lambda>fs r.
     sbind (if uses_extents (ir_inode r) then run_transaction ops fs 1 (no_extent_left ops r)
            else (fs, Inr False)) (\<lambda>fs _.
     sbind (fs, if xattr_block (ir_inode r) \<noteq> 0 then Inl (Err EIO)
                else rbind (inode_fs_block_count (ir_inode r)) (\<lambda>n. if n \<noteq> 0 then Inl (Err EIO) else Inr ())) (\<lambda>fs _.
     sbind (run_transaction ops fs 16 (final_body ops r require_orphan_membership generation)) (\<lambda>fs _.
     (fs, Inr ())))))))"

definition reclaim_inode_lifetime ::
    "('d, 'y) device_ops_scheme \<Rightarrow> ('d, 'z) ext4_scheme \<Rightarrow> InodeId \<Rightarrow> u32 \<Rightarrow> bool \<Rightarrow>
     (('d, 'z) ext4_scheme \<times> unit res) option" where
  "reclaim_inode_lifetime ops fs inode_id generation require_orphan_membership =
     (case rbind (validate_reclaim_inode ops fs inode_id generation) (\<lambda>_.
           if require_orphan_membership
           then rbind (legacy_orphan_contains ops fs inode_id) (\<lambda>listed. guard listed (Err EINVAL))
           else Inr ()) of
        Inl e \<Rightarrow> Some (fs, Inl e)
      | Inr _ \<Rightarrow> Option.bind (reclaim_loop ops fs inode_id generation) (\<lambda>m. Some (
          sbind m (\<lambda>fs _. reclaim_end ops inode_id generation require_orphan_membership fs))))"

record inode_reclaim_handle =
  rh_inode_id :: InodeId
  rh_generation :: u32

text \<open>The guard is dropped on every return; a reclaim that does not return keeps it.\<close>

definition reclaim_inode ::
    "('d, 'y) device_ops_scheme \<Rightarrow> ('d, 'z) ext4_scheme \<Rightarrow> inode_reclaim_handle \<Rightarrow>
     (('d, 'z) ext4_scheme \<times> unit res) option" where
  "reclaim_inode ops fs handle =
     (case ensure_mutable fs of
        Inl e \<Rightarrow> Some (fs, Inl e)
      | Inr _ \<Rightarrow> (case lock_transactional_metadata_mutation fs of
            (fs, Inl e) \<Rightarrow> Some (fs, Inl e)
          | (fs, Inr g) \<Rightarrow>
              map_option (unlock_metadata_mutation g)
                (reclaim_inode_lifetime ops fs (rh_inode_id handle) (rh_generation handle) (uses_journal fs))))"

definition reclaim_orphan_inode_by_id ::
    "('d, 'y) device_ops_scheme \<Rightarrow> ('d, 'z) ext4_scheme \<Rightarrow> InodeId \<Rightarrow> (('d, 'z) ext4_scheme \<times> unit res) option" where
  "reclaim_orphan_inode_by_id ops fs inode_id =
     (case rbind (ensure_mutable fs) (\<lambda>_. read_inode_uncached ops fs inode_id) of
        Inl e \<Rightarrow> Some (fs, Inl e)
      | Inr r \<Rightarrow> reclaim_inode_lifetime ops fs inode_id (i_generation (ir_inode r)) True)"

section \<open>Cleanup at mount\<close>

definition cleanup_check ::
    "('d, 'y) device_ops_scheme \<Rightarrow> ('d, 'z) ext4_scheme \<Rightarrow> InodeId \<Rightarrow> InodeId \<Rightarrow> orphan_node res" where
  "cleanup_check ops fs inode_id expected_next =
     (if sb_last_orphan (fs_cached_super_block fs) \<noteq> inode_id then Inl (Err EIO)
      else
        rbind (read_orphan_inode ops fs inode_id) (\<lambda>node.
        if on_next node \<noteq> expected_next \<or> \<not> on_valid_mode node \<or> \<not> on_valid_checksum node then Inl (Err EIO)
        else
          rbind (orphan_inode_allocated ops fs inode_id) (\<lambda>allocated.
          if \<not> allocated then Inl (Err EIO) else Inr node)))"

fun cleanup_orphans ::
    "('d, 'y) device_ops_scheme \<Rightarrow> ('d, 'z) ext4_scheme \<Rightarrow> InodeId list \<Rightarrow> (('d, 'z) ext4_scheme \<times> unit res) option" where
  "cleanup_orphans ops fs [] = Some (fs, Inr ())"
| "cleanup_orphans ops fs (inode_id # rest) =
     (let expected_next = (case rest of [] \<Rightarrow> 0 | n # _ \<Rightarrow> n) in
      case cleanup_check ops fs inode_id expected_next of
        Inl e \<Rightarrow> Some (fs, Inl e)
      | Inr node \<Rightarrow>
          Option.bind (if on_links node = 0 then reclaim_orphan_inode_by_id ops fs inode_id
                       else recover_linked_orphan_inode_by_id ops fs inode_id) (\<lambda>m. case m of
            (fs, Inl e) \<Rightarrow> Some (fs, Inl e)
          | (fs, Inr _) \<Rightarrow>
              if sb_last_orphan (fs_cached_super_block fs) \<noteq> expected_next then Some (fs, Inl (Err EIO))
              else cleanup_orphans ops fs rest))"

definition cleanup_legacy_orphan_chain ::
    "('d, 'y) device_ops_scheme \<Rightarrow> ('d, 'z) ext4_scheme \<Rightarrow> (('d, 'z) ext4_scheme \<times> unit res) option" where
  "cleanup_legacy_orphan_chain ops fs =
     (case lock_transactional_metadata_mutation fs of
        (fs, Inl e) \<Rightarrow> Some (fs, Inl e)
      | (fs, Inr g) \<Rightarrow>
          map_option (unlock_metadata_mutation g) (case validate_legacy_orphan_chain ops fs of
            Inl e \<Rightarrow> Some (fs, Inl e)
          | Inr inodes \<Rightarrow> cleanup_orphans ops fs inodes))"

end
