(* ===== verification/Journal_Mount.thy ===== *)
theory Journal_Mount
  imports Reclaim Journal_Crash
begin

text \<open>
  The writable mount: the validation of the journal inode, the replay of its log, the backend of the transactions
  and the cleanup of the orphans (\<^verbatim>\<open>src/ext4/journal.rs\<close>, and \<^verbatim>\<open>load_writable_with_options\<close> of \<^verbatim>\<open>src/ext4/mod.rs\<close>).

  A mount that fails drops its object; what it wrote to the device stays. The reservation of memory for the mapping
  succeeds here.
\<close>

section \<open>The journal inode\<close>

definition validate_journal_inode :: "super_block \<Rightarrow> inode_ref \<Rightarrow> unit res" where
  "validate_journal_inode sb r =
     (if \<not> inode_is_file (ir_inode r) \<or> \<not> uses_extents (ir_inode r) \<or>
         (has_read_only_compatible_feature sb FEATURE_RO_COMPAT_METADATA_CSUM \<and>
          \<not> ir_verify_checksum (metadata_checksum_seed sb) r)
      then Inl (Err EIO) else Inr ())"

definition journal_replay_identity_matches ::
    "inode_ref \<Rightarrow> inode_ref \<Rightarrow> PBlockId list \<Rightarrow> PBlockId list \<Rightarrow> bool" where
  "journal_replay_identity_matches before after before_mapping after_mapping \<longleftrightarrow>
     ir_id after = ir_id before \<and> i_generation (ir_inode after) = i_generation (ir_inode before) \<and>
     inode_mode (ir_inode after) = inode_mode (ir_inode before) \<and>
     inode_size (ir_inode after) = inode_size (ir_inode before) \<and> after_mapping = before_mapping"

text \<open>The physical blocks of the first \<open>n\<close> logical blocks: none missing, none outside the file system, none twice.\<close>

fun map_journal_blocks ::
    "('d, 'y) device_ops_scheme \<Rightarrow> ('d, 'z) ext4_scheme \<Rightarrow> inode_ref \<Rightarrow> u64 \<Rightarrow> nat list \<Rightarrow> PBlockId set \<Rightarrow>
     (PBlockId list \<times> PBlockId set) res" where
  "map_journal_blocks ops fs r filesystem_blocks [] blocks = Inr ([], blocks)"
| "map_journal_blocks ops fs r filesystem_blocks (logical # ls) blocks =
     rbind (extent_query ops fs r (word_of_nat logical)) (\<lambda>physical.
     if physical = 0 \<or> physical \<ge> filesystem_blocks \<or> physical \<in> blocks then Inl (Err EIO)
     else
       rbind (map_journal_blocks ops fs r filesystem_blocks ls (insert physical blocks)) (\<lambda>(mapping, blocks).
       Inr (physical # mapping, blocks)))"

definition map_validated_journal_inode ::
    "('d, 'y) device_ops_scheme \<Rightarrow> ('d, 'z) ext4_scheme \<Rightarrow> inode_ref \<Rightarrow> nat \<Rightarrow> u64 \<Rightarrow>
     (PBlockId list \<times> PBlockId set) res" where
  "map_validated_journal_inode ops fs r journal_len filesystem_blocks =
     rbind (validate_complete_extent_tree ops fs r) (\<lambda>_.
     rbind (extent_next_data_lblock ops fs r) (\<lambda>n.
     if unat n \<noteq> journal_len then Inl (Err EIO)
     else map_journal_blocks ops fs r filesystem_blocks [0..<journal_len] {}))"

section \<open>Replay\<close>

definition journal_supported :: "super_block \<Rightarrow> bool" where
  "journal_supported sb \<longleftrightarrow>
     has_compatible_feature sb FEATURE_COMPAT_HAS_JOURNAL \<and>
     \<not> has_compatible_feature sb FEATURE_COMPAT_FAST_COMMIT \<and>
     \<not> has_incompatible_feature sb FEATURE_INCOMPAT_JOURNAL_DEV \<and>
     sb_journal_dev sb = 0 \<and> sb_journal_inode_number sb \<noteq> 0"

text \<open>The length in blocks of the journal inode.\<close>

definition journal_inode_length :: "super_block \<Rightarrow> inode_ref \<Rightarrow> u64 res" where
  "journal_inode_length sb r =
     (let size = inode_size (ir_inode r); len = size div of_nat BLOCK_SIZE in
      if size mod of_nat BLOCK_SIZE \<noteq> 0 \<or> len = 0 \<or> len > 0xFFFFFFFF \<or> len > sb_block_count sb
      then Inl (Err EIO) else Inr len)"

text \<open>The superblock of the journal, read through the first block of its inode, and the mapping of the whole inode.\<close>

definition open_journal ::
    "('d, 'y) device_ops_scheme \<Rightarrow> ('d, 'z) ext4_scheme \<Rightarrow>
     (inode_ref \<times> jsuperblock \<times> PBlockId list \<times> PBlockId set) res" where
  "open_journal ops fs =
     (let sb = fs_cached_super_block fs in
      if \<not> journal_supported sb then Inl (Err ENOTSUP)
      else
        rbind (read_inode_uncached ops fs (sb_journal_inode_number sb)) (\<lambda>r.
        rbind (validate_journal_inode sb r) (\<lambda>_.
        rbind (journal_inode_length sb r) (\<lambda>len.
        rbind (extent_query ops fs r 0) (\<lambda>zero.
        if zero = 0 \<or> zero \<ge> sb_block_count sb then Inl (Err EIO)
        else
          rbind (fs_read_block ops fs zero) (\<lambda>b.
          rbind (jsuperblock_parse (blk_data b) (of_nat BLOCK_SIZE)) (\<lambda>jsb.
          if ucast (js_max_len jsb) \<noteq> len \<or>
             (sb_journal_uuid sb \<noteq> replicate 16 0 \<and> js_uuid jsb \<noteq> sb_journal_uuid sb)
          then Inl (Err EIO)
          else
            rbind (map_validated_journal_inode ops fs r (unat (js_max_len jsb)) (sb_block_count sb))
              (\<lambda>(mapping, blocks). Inr (r, jsb, mapping, blocks)))))))))"

text \<open>The superblock, the descriptors and the table of metadata are those of the log from here on.\<close>

definition reload_after_replay ::
    "('d, 'y) device_ops_scheme \<Rightarrow> ('d, 'z) ext4_scheme \<Rightarrow> PBlockId list \<Rightarrow> ('d, 'z) ext4_scheme \<times> unit res" where
  "reload_after_replay ops fs mapping =
     sbind (fs, rbind (fs_read_block ops fs 0) (\<lambda>b. rbind (block_read_offset b BASE_OFFSET 1024) sb_from_bytes)) (\<lambda>fs sb.
     sbind (fs, read_validated_block_groups ops (fs_device fs) sb) (\<lambda>fs groups.
     sbind (fs, build_system_metadata_ranges sb groups) (\<lambda>fs ranges.
     if list_ex (\<lambda>physical. physical \<ge> sb_block_count sb) mapping then (fs, Inl (Err EIO))
     else (fs\<lparr>fs_cached_super_block := sb, fs_cached_block_groups := groups, fs_system_metadata_ranges := ranges\<rparr>,
           Inr ()))))"

text \<open>The journal inode must be the one whose mapping was replayed.\<close>

definition check_replayed_journal ::
    "('d, 'y) device_ops_scheme \<Rightarrow> ('d, 'z) ext4_scheme \<Rightarrow> inode_ref \<Rightarrow> nat \<Rightarrow> PBlockId list \<Rightarrow> PBlockId set \<Rightarrow>
     unit res" where
  "check_replayed_journal ops fs r journal_len mapping blocks =
     (let sb = fs_cached_super_block fs in
      rbind (read_inode_uncached ops fs (sb_journal_inode_number sb)) (\<lambda>r'.
      rbind (validate_journal_inode sb r') (\<lambda>_.
      rbind (map_validated_journal_inode ops fs r' journal_len (sb_block_count sb)) (\<lambda>(mapping', blocks').
      if \<not> journal_replay_identity_matches r r' mapping mapping' \<or> blocks' \<noteq> blocks then Inl (Err EIO)
      else Inr ()))))"

text \<open>\<^verbatim>\<open>mapping[0]\<close>: the journal has at least one block, so the index never panics.\<close>

definition read_journal_zero ::
    "('d, 'y) device_ops_scheme \<Rightarrow> ('d, 'z) ext4_scheme \<Rightarrow> PBlockId list \<Rightarrow> bytes res" where
  "read_journal_zero ops fs mapping =
     (case mapping of [] \<Rightarrow> Inl Panic | p # _ \<Rightarrow> rbind (fs_read_block ops fs p) (\<lambda>b. Inr (blk_data b)))"

definition replay_journal ::
    "('d, 'y) device_ops_scheme \<Rightarrow> ('d, 'z) ext4_scheme \<Rightarrow> inode_ref \<Rightarrow> nat \<Rightarrow> PBlockId list \<Rightarrow> PBlockId set \<Rightarrow>
     ('d, 'z) ext4_scheme \<times> jsuperblock res" where
  "replay_journal ops fs r journal_len mapping blocks =
     (let io = recovery_device ops mapping blocks (sb_block_count (fs_cached_super_block fs)) in
      case recover io (fs_device fs) of
        (d, Inl e) \<Rightarrow> (fs\<lparr>fs_device := d\<rparr>, Inl e)
      | (d, Inr _) \<Rightarrow>
          sbind (reload_after_replay ops (fs\<lparr>fs_device := d\<rparr>) mapping) (\<lambda>fs _.
          sbind (fs, check_replayed_journal ops fs r journal_len mapping blocks) (\<lambda>fs _.
          sbind (fs, rbind (read_journal_zero ops fs mapping) (\<lambda>bs. jsuperblock_parse bs (of_nat BLOCK_SIZE))) (\<lambda>fs jsb.
          (fs\<lparr>fs_inode_cache := (fs_inode_cache fs)\<lparr>ic_entries := []\<rparr>\<rparr>, Inr jsb)))))"

section \<open>Activation\<close>

text \<open>The transactions start at the first block of an empty log.\<close>

definition activate_journal ::
    "('d, 'y) device_ops_scheme \<Rightarrow> ('d, 'z) ext4_scheme \<Rightarrow> jsuperblock \<Rightarrow> PBlockId list \<Rightarrow> PBlockId set \<Rightarrow>
     ('d, 'z) ext4_scheme \<times> unit res" where
  "activate_journal ops fs jsb mapping blocks =
     sbind (fs, read_journal_zero ops fs mapping) (\<lambda>fs bs.
     if js_start jsb \<noteq> 0 then (fs, Inl (Err EIO))
     else
       sbind (fs, journal_core_new \<lparr>jc_superblock = jsb, jc_logical_blocks = mapping, jc_journal_blocks = blocks,
                jc_target_blocks = sb_block_count (fs_cached_super_block fs), jc_head = js_first jsb,
                jc_superblock_image = take 1024 bs\<rparr>) (\<lambda>fs core.
       (fs\<lparr>fs_metadata_mode := Mutating (Journal core)\<rparr>, Inr ())))"

text \<open>The mount up to the cleanup of the orphans, and the whole of it.\<close>

definition mount_journal ::
    "('d, 'y) device_ops_scheme \<Rightarrow> ('d, 'z) ext4_scheme \<Rightarrow> ('d, 'z) ext4_scheme \<times> unit res" where
  "mount_journal ops fs =
     (if \<not> supports_reliable_flush ops (fs_device fs) then (fs, Inl (Err ENOTSUP))
      else
        sbind (fs, writable_orphan_preflight fs) (\<lambda>fs _.
        sbind (fs, open_journal ops fs) (\<lambda>fs (r, jsb, mapping, blocks).
        let needs_recovery = has_incompatible_feature (fs_cached_super_block fs) FEATURE_INCOMPAT_RECOVER in
        if js_start jsb \<noteq> 0 \<and> \<not> needs_recovery then (fs, Inl (Err EIO))
        else
          sbind (if needs_recovery then replay_journal ops fs r (unat (js_max_len jsb)) mapping blocks
                 else (fs, Inr jsb)) (\<lambda>fs jsb.
          sbind (activate_journal ops fs jsb mapping blocks) (\<lambda>fs _.
          sbind (fs, writable_orphan_preflight fs) (\<lambda>fs _.
          if needs_recovery then (fs, Inr ())
          else
            sbind (write_super_block ops fs
              (set_incompatible_feature (fs_cached_super_block fs) FEATURE_INCOMPAT_RECOVER True)) (\<lambda>fs _.
            flush_device ops fs)))))))"

definition initialize_journal ::
    "('d, 'y) device_ops_scheme \<Rightarrow> ('d, 'z) ext4_scheme \<Rightarrow> (('d, 'z) ext4_scheme \<times> unit res) option" where
  "initialize_journal ops fs =
     (case mount_journal ops fs of
        (fs, Inl e) \<Rightarrow> Some (fs, Inl e)
      | (fs, Inr _) \<Rightarrow> cleanup_legacy_orphan_chain ops fs)"

text \<open>The object when the mount succeeds, and the device it was mounted from.\<close>

definition load_writable_with_options ::
    "('d, 'y) device_ops_scheme \<Rightarrow> 'd \<Rightarrow> bool \<Rightarrow> ('d \<times> 'd ext4 res) option" where
  "load_writable_with_options ops d write_barrier =
     (case rbind (fs_load ops d) (\<lambda>fs.
           let fs = fs\<lparr>fs_write_barrier := write_barrier\<rparr> in
           rbind (writable_orphan_preflight fs) (\<lambda>_. Inr fs)) of
        Inl e \<Rightarrow> Some (d, Inl e)
      | Inr fs \<Rightarrow>
          map_option (\<lambda>(fs, x). (fs_device fs, rbind x (\<lambda>_. Inr fs)))
           (if has_compatible_feature (fs_cached_super_block fs) FEATURE_COMPAT_HAS_JOURNAL then
              (if \<not> write_barrier then Some (fs, Inl (Err ENOTSUP)) else initialize_journal ops fs)
            else
              (case sbind (initialize_direct fs) (\<lambda>fs _. mark_direct_mount_dirty ops fs) of
                 (fs, Inl e) \<Rightarrow> Some (fs, Inl e)
               | (fs, Inr _) \<Rightarrow> cleanup_legacy_orphan_chain ops fs)))"

end
