(* ===== verification/Mounted_Journal.thy ===== *)
theory Mounted_Journal
  imports Journal_Mount Crash_Atomicity Extent_Lookup
begin

text \<open>
  What the mount with a journal establishes: the context of the transactions it builds is the one the theorems about
  loss of power start from (\<open>journal_ready\<close>), up to the freshness of the blocks of the ring.
\<close>

section \<open>What a mount establishes\<close>

lemma map_journal_blocks_facts:
  assumes "map_journal_blocks ops fs r n ls blocks = Inr (mapping, blocks')"
  shows "length mapping = length ls \<and> distinct mapping \<and> set mapping \<inter> blocks = {} \<and> blocks' = blocks \<union> set mapping \<and>
    list_all (\<lambda>p. p \<noteq> 0 \<and> p < n) mapping"
  using assms
proof (induction ls arbitrary: blocks mapping)
  case (Cons l ls)
  obtain p rest where p: "p \<noteq> 0" "p < n" "p \<notin> blocks" "mapping = p # rest"
      and r: "map_journal_blocks ops fs r n ls (insert p blocks) = Inr (rest, blocks')"
    using Cons.prems by (auto simp: res_elims not_le split: if_splits)
  show ?case using Cons.IH [OF r] p by auto
qed simp

lemma map_validated_facts:
  assumes "map_validated_journal_inode ops fs r len n = Inr (mapping, blocks)"
  shows "length mapping = len" "distinct mapping" "blocks = set mapping" "list_all (\<lambda>p. p \<noteq> 0 \<and> p < n) mapping"
  using assms map_journal_blocks_facts [of ops fs r n "[0..<len]" "{}" mapping blocks]
  by (auto simp: map_validated_journal_inode_def res_elims split: if_splits)

lemma open_journal_facts:
  assumes "open_journal ops fs = Inr (r, jsb, mapping, blocks)"
  shows "length mapping = unat (js_max_len jsb)" "distinct mapping" "blocks = set mapping"
    "list_all (\<lambda>p. p \<noteq> 0 \<and> p < sb_block_count (fs_cached_super_block fs)) mapping"
    "\<exists>zero b. extent_query ops fs r 0 = Inr zero \<and> fs_read_block ops fs zero = Inr b \<and>
       jsuperblock_parse (blk_data b) (of_nat BLOCK_SIZE) = Inr jsb"
    "map_validated_journal_inode ops fs r (unat (js_max_len jsb)) (sb_block_count (fs_cached_super_block fs)) = Inr (mapping, blocks)"
proof -
  show m: "map_validated_journal_inode ops fs r (unat (js_max_len jsb)) (sb_block_count (fs_cached_super_block fs)) = Inr (mapping, blocks)"
    and "\<exists>zero b. extent_query ops fs r 0 = Inr zero \<and> fs_read_block ops fs zero = Inr b \<and>
       jsuperblock_parse (blk_data b) (of_nat BLOCK_SIZE) = Inr jsb"
    using assms by (auto simp: open_journal_def Let_def res_elims split: if_splits)
  from map_validated_facts [OF m]
  show "length mapping = unat (js_max_len jsb)" "distinct mapping" "blocks = set mapping"
    "list_all (\<lambda>p. p \<noteq> 0 \<and> p < sb_block_count (fs_cached_super_block fs)) mapping" by blast+
qed

text \<open>The first entry of the mapping is the block the superblock of the journal was read from.\<close>

lemma map_journal_blocks_hd:
  assumes "map_journal_blocks ops fs r n [0..<len] blocks = Inr (mapping, blocks')" "0 < len"
  shows "mapping \<noteq> [] \<and> extent_query ops fs r 0 = Inr (hd mapping)"
proof -
  have "[0..<len] = 0 # [1..<len]" using assms(2) by (simp add: upt_rec)
  then show ?thesis using assms(1) by (auto simp: res_elims split: if_splits)
qed

lemma open_journal_zero:
  assumes "open_journal ops fs = Inr (r, jsb, mapping, blocks)" "0 < js_max_len jsb"
  shows "\<exists>b. mapping \<noteq> [] \<and> fs_read_block ops fs (hd mapping) = Inr b \<and> jsuperblock_parse (blk_data b) (of_nat BLOCK_SIZE) = Inr jsb"
proof -
  have "0 < unat (js_max_len jsb)" using assms(2) by (simp add: word_less_nat_alt)
  moreover have "map_journal_blocks ops fs r (sb_block_count (fs_cached_super_block fs)) [0..<unat (js_max_len jsb)] {} = Inr (mapping, blocks)"
    using open_journal_facts(6) [OF assms(1)] by (auto simp: map_validated_journal_inode_def res_elims split: if_splits)
  ultimately have "mapping \<noteq> [] \<and> extent_query ops fs r 0 = Inr (hd mapping)" by (intro map_journal_blocks_hd)
  then show ?thesis using open_journal_facts(5) [OF assms(1)] by auto
qed

text \<open>The replay keeps the mapping within the new bounds, and reads the superblock of the journal again.\<close>

lemma reload_after_replay_facts:
  assumes "reload_after_replay ops fs mapping = (fs', Inr ())"
  shows "fs_device fs' = fs_device fs" "list_all (\<lambda>p. p < sb_block_count (fs_cached_super_block fs')) mapping"
  using assms by (auto simp: reload_after_replay_def sbind_eq_Inr list_all_iff list_ex_iff not_le split: if_splits)

lemma read_journal_zero_Inr:
  "read_journal_zero ops fs mapping = Inr bs \<longleftrightarrow>
     mapping \<noteq> [] \<and> (\<exists>b. fs_read_block ops fs (hd mapping) = Inr b \<and> blk_data b = bs)"
  by (cases mapping) (auto simp: read_journal_zero_def res_elims)

lemma replay_journal_facts:
  assumes "replay_journal ops fs r len mapping blocks = (fs', Inr jsb)"
  shows "list_all (\<lambda>p. p < sb_block_count (fs_cached_super_block fs')) mapping"
    "\<exists>b. fs_read_block ops fs' (hd mapping) = Inr b \<and> jsuperblock_parse (blk_data b) (of_nat BLOCK_SIZE) = Inr jsb"
proof -
  obtain d s bs where s: "reload_after_replay ops (fs\<lparr>fs_device := d\<rparr>) mapping = (s, Inr ())"
      "fs' = s\<lparr>fs_inode_cache := (fs_inode_cache s)\<lparr>ic_entries := []\<rparr>\<rparr>"
      "read_journal_zero ops s mapping = Inr bs" "jsuperblock_parse bs (of_nat BLOCK_SIZE) = Inr jsb"
    using assms by (auto simp: replay_journal_def Let_def sbind_eq_Inr res_elims split: prod.splits sum.splits)
  show "list_all (\<lambda>p. p < sb_block_count (fs_cached_super_block fs')) mapping"
    using reload_after_replay_facts [OF s(1)] s(2) by simp
  show "\<exists>b. fs_read_block ops fs' (hd mapping) = Inr b \<and> jsuperblock_parse (blk_data b) (of_nat BLOCK_SIZE) = Inr jsb"
    using s(2,4) s(3) [unfolded read_journal_zero_Inr] by (auto simp: fs_read_block_def)
qed

lemma activate_journal_facts:
  assumes "activate_journal ops fs jsb mapping blocks = (fs', Inr ())"
  obtains b where "mapping \<noteq> []" "fs_read_block ops fs (hd mapping) = Inr b" "js_start jsb = 0"
    "\<And>c. c = \<lparr>jc_superblock = jsb, jc_logical_blocks = mapping, jc_journal_blocks = blocks,
       jc_target_blocks = sb_block_count (fs_cached_super_block fs), jc_head = js_first jsb,
       jc_superblock_image = take 1024 (blk_data b)\<rparr> \<Longrightarrow>
       context_validate c = Inr () \<and>
       fs' = fs\<lparr>fs_metadata_mode := Mutating (Journal \<lparr>jco_flags = flags_clean, jco_context = c\<rparr>)\<rparr>"
  using assms
  by (auto simp: activate_journal_def sbind_eq_Inr read_journal_zero_Inr journal_core_new_def res_elims split: if_splits)

text \<open>Setting \<^verbatim>\<open>RECOVER\<close> rewrites block 0 and nothing else.\<close>

lemma write_super_block_mem:
  assumes "write_super_block mem_ops fs sb = (fs', Inr ())"
  shows "fs_cached_super_block fs' = sb" "fs_metadata_mode fs' = fs_metadata_mode fs"
    "length (fs_device fs') = length (fs_device fs)" "0 < i \<Longrightarrow> fs_device fs' ! i = fs_device fs ! i"
  using assms
  by (auto simp: write_super_block_def fs_rewrite_block_def sbind_eq_Inr fs_read_block_def fs_write_block_def mem_ops_def
      mem_read_block_def mem_write_block_def block_write_offset_def res_elims block_new_def split: if_splits prod.splits)

lemma mount_journal_flag:
  assumes "(if rec then (fs2, Inr ()) else sbind (write_super_block mem_ops fs2
      (set_incompatible_feature (fs_cached_super_block fs2) FEATURE_INCOMPAT_RECOVER True)) (\<lambda>fs _. flush_device mem_ops fs)) = (fs', Inr ())"
    and "fs2 = fs1\<lparr>fs_metadata_mode := mode\<rparr>" "0 < i"
  shows "length (fs_device fs') = length (fs_device fs1)" "fs_device fs' ! i = fs_device fs1 ! i"
    "fs_metadata_mode fs' = fs_metadata_mode fs2" "sb_block_count (fs_cached_super_block fs') = sb_block_count (fs_cached_super_block fs1)"
proof -
  have "(length (fs_device fs') = length (fs_device fs2) \<and> fs_device fs' ! i = fs_device fs2 ! i) \<and>
    fs_metadata_mode fs' = fs_metadata_mode fs2 \<and> sb_block_count (fs_cached_super_block fs') = sb_block_count (fs_cached_super_block fs2)"
  proof (cases rec)
    case False
    then obtain s where s: "write_super_block mem_ops fs2
      (set_incompatible_feature (fs_cached_super_block fs2) FEATURE_INCOMPAT_RECOVER True) = (s, Inr ())" "flush_device mem_ops s = (fs', Inr ())"
      using assms(1) by (auto simp: sbind_eq_Inr)
    have "fs' = s" using s(2) by (simp add: flush_device_def mem_ops_def mem_flush_def)
    then show ?thesis
      using write_super_block_mem [OF s(1)] assms(3) by (simp add: sb_block_count_def set_incompatible_feature_def)
  qed (use assms(1) in simp)
  then show "length (fs_device fs') = length (fs_device fs1)" "fs_device fs' ! i = fs_device fs1 ! i"
    "fs_metadata_mode fs' = fs_metadata_mode fs2" "sb_block_count (fs_cached_super_block fs') = sb_block_count (fs_cached_super_block fs1)"
    using assms(2) by simp_all
qed

lemma mount_journal_facts:
  assumes "mount_journal mem_ops fs = (fs', Inr ())"
  obtains c b mapping where
    "fs_metadata_mode fs' = Mutating (Journal \<lparr>jco_flags = flags_clean, jco_context = c\<rparr>)"
    "context_validate c = Inr ()" "jc_logical_blocks c = mapping" "jc_journal_blocks c = set mapping" "distinct mapping" "mapping \<noteq> []"
    "jc_target_blocks c = sb_block_count (fs_cached_super_block fs')"
    "list_all (\<lambda>p. p \<noteq> 0 \<and> p < jc_target_blocks c) mapping"
    "js_start (jc_superblock c) = 0" "unat (hd mapping) < length (fs_device fs')"
    "jc_superblock_image c = take 1024 (fs_device fs' ! unat (hd mapping))"
    "jsuperblock_parse (fs_device fs' ! unat (hd mapping)) (of_nat BLOCK_SIZE) = Inr (jc_superblock c)"
proof -
  let ?rec = "has_incompatible_feature (fs_cached_super_block fs) FEATURE_INCOMPAT_RECOVER"
  obtain r jsb0 mapping blocks fs1 jsb fs2 where
      o: "open_journal mem_ops fs = Inr (r, jsb0, mapping, blocks)"
      and one: "(if ?rec then replay_journal mem_ops fs r (unat (js_max_len jsb0)) mapping blocks else (fs, Inr jsb0)) = (fs1, Inr jsb)"
      and two: "activate_journal mem_ops fs1 jsb mapping blocks = (fs2, Inr ())"
      and three: "(if ?rec then (fs2, Inr ()) else sbind (write_super_block mem_ops fs2
              (set_incompatible_feature (fs_cached_super_block fs2) FEATURE_INCOMPAT_RECOVER True)) (\<lambda>fs _. flush_device mem_ops fs)) = (fs', Inr ())"
    using assms by (fastforce simp: mount_journal_def sbind_eq_Inr Let_def split: if_splits prod.splits)
  obtain b where b: "mapping \<noteq> []" "fs_read_block mem_ops fs1 (hd mapping) = Inr b" "js_start jsb = 0"
    and c: "\<And>c. c = \<lparr>jc_superblock = jsb, jc_logical_blocks = mapping, jc_journal_blocks = blocks,
       jc_target_blocks = sb_block_count (fs_cached_super_block fs1), jc_head = js_first jsb,
       jc_superblock_image = take 1024 (blk_data b)\<rparr> \<Longrightarrow>
       context_validate c = Inr () \<and>
       fs2 = fs1\<lparr>fs_metadata_mode := Mutating (Journal \<lparr>jco_flags = flags_clean, jco_context = c\<rparr>)\<rparr>"
    using activate_journal_facts [OF two] by metis
  note opened = open_journal_facts [OF o]
  have m: "0 < js_max_len jsb0"
  proof (rule ccontr)
    assume "\<not> 0 < js_max_len jsb0"
    then have "length mapping = 0" using opened(1) by (simp add: word_gt_0)
    then show False using b(1) by simp
  qed
  have lt: "list_all (\<lambda>p. p < sb_block_count (fs_cached_super_block fs1)) mapping"
  proof (cases ?rec)
    case True then show ?thesis using replay_journal_facts(1) one by simp
  next
    case False then show ?thesis using opened(4) one by (auto simp: list_all_iff)
  qed
  have parse: "jsuperblock_parse (blk_data b) (of_nat BLOCK_SIZE) = Inr jsb"
  proof (cases ?rec)
    case True then show ?thesis using replay_journal_facts(2) [of mem_ops fs r _ mapping blocks fs1 jsb] one b(2) by auto
  next
    case False then show ?thesis using open_journal_zero [OF o m] one b(2) by auto
  qed
  have data: "unat (hd mapping) < length (fs_device fs1)" "blk_data b = fs_device fs1 ! unat (hd mapping)"
    using b(2) by (auto simp: fs_read_block_def mem_ops_def mem_read_block_def block_new_def split: if_splits)
  have zero: "list_all (\<lambda>p. p \<noteq> 0) mapping" using opened(4) by (auto simp: list_all_iff)
  then have hd0: "0 < unat (hd mapping)" using b(1) by (cases mapping) (auto simp: unat_gt_0)
  have dev: "length (fs_device fs') = length (fs_device fs1)" "fs_device fs' ! unat (hd mapping) = fs_device fs1 ! unat (hd mapping)"
    "fs_metadata_mode fs' = fs_metadata_mode fs2" "sb_block_count (fs_cached_super_block fs') = sb_block_count (fs_cached_super_block fs1)"
    by (rule mount_journal_flag [OF three _ hd0], use c [OF refl] in simp)+
  define c' where "c' = \<lparr>jc_superblock = jsb, jc_logical_blocks = mapping, jc_journal_blocks = blocks,
       jc_target_blocks = sb_block_count (fs_cached_super_block fs1), jc_head = js_first jsb,
       jc_superblock_image = take 1024 (blk_data b)\<rparr>"
  show thesis
    by (rule that [of c' mapping]) (use c [OF c'_def] b opened(2,3) lt zero dev data parse in \<open>auto simp: c'_def list_all_iff\<close>)
qed


text \<open>C3: the mount of a journal establishes the invariant the transactions rest on. When \<^verbatim>\<open>initialize_journal\<close> gets
  to the cleanup of the orphans, with or without a replay, the mode of the file system is a journal with a free writer
  token whose context is validated, maps the ring injectively to blocks inside the device and away from block 0,
  and holds the clean superblock that is on the device. The only other condition of \<open>journal_ready\<close>, from which the
  theorems on loss of power start, is that the ring holds no block with a sequence number still to come.\<close>

theorem mount_establishes_journal_ready:
  assumes "mount_journal mem_ops fs = (fs', Inr ())"
    and "mem_wf (fs_device fs')" "unat (sb_block_count (fs_cached_super_block fs')) \<le> length (fs_device fs')"
  shows "\<exists>c. fs_metadata_mode fs' = Mutating (Journal \<lparr>jco_flags = flags_clean, jco_context = c\<rparr>) \<and>
    0 \<notin> jc_journal_blocks c \<and>
    journal_ready (fs_device fs') c k = ring_fresh (fs_device fs') (jc_logical_blocks c) (jc_superblock c) k"
proof -
  obtain c b mapping where f:
    "fs_metadata_mode fs' = Mutating (Journal \<lparr>jco_flags = flags_clean, jco_context = c\<rparr>)"
    "context_validate c = Inr ()" "jc_logical_blocks c = mapping" "jc_journal_blocks c = set mapping" "distinct mapping" "mapping \<noteq> []"
    "jc_target_blocks c = sb_block_count (fs_cached_super_block fs')"
    "list_all (\<lambda>p. p \<noteq> 0 \<and> p < jc_target_blocks c) mapping"
    "js_start (jc_superblock c) = 0" "unat (hd mapping) < length (fs_device fs')"
    "jc_superblock_image c = take 1024 (fs_device fs' ! unat (hd mapping))"
    "jsuperblock_parse (fs_device fs' ! unat (hd mapping)) (of_nat BLOCK_SIZE) = Inr (jc_superblock c)"
    by (rule mount_journal_facts [OF assms(1)])
  have jb: "journal_sb_block (fs_device fs') mapping = fs_device fs' ! unat (hd mapping)" "mapping ! 0 = hd mapping"
    using f(6) by (simp_all add: journal_sb_block_def hd_conv_nth)
  have "sb_on_disk (fs_device fs') mapping (jc_superblock c)"
    using f(6,10,12) assms(2) jb by (simp add: sb_on_disk_def mem_wf_def BLOCK_SIZE_def)
  moreover have "list_all (\<lambda>b. unat b < length (fs_device fs')) mapping"
    using f(7,8) assms(3) by (auto simp: list_all_iff word_less_nat_alt)
  moreover have "list_all (\<lambda>b. length b = BLOCK_SIZE) (fs_device fs')"
    using assms(2) by (simp add: mem_wf_def list_all_iff)
  moreover have "unat (jc_target_blocks c) \<le> length (fs_device fs')" using f(7) assms(3) by simp
  moreover have "0 \<notin> jc_journal_blocks c" using f(4,8) by (auto simp: list_all_iff)
  ultimately show ?thesis
    using f(1-5,9,11) jb(1) by (intro exI [of _ c]) (simp add: journal_ready_def)
qed

section \<open>A mount\<close>

text \<open>The journal of \<open>w_disk\<close> as inode 8 of a file system of 20 blocks, its table in block 1.\<close>

definition w_journal_sb :: super_block where
  "w_journal_sb = w_mount_sb\<lparr>sb_block_count_lo := 20, sb_features_compatible := 4, sb_journal_inode_number := 8\<rparr>"

definition w_journal_inode :: inode where
  "w_journal_inode = inode_default\<lparr>i_mode := 0x8180, i_size := 65536, i_flags := FLAG_EXTENTS,
     i_block := w_node 0 [extent_to_bytes (extent_new 0 4 16)] 60\<rparr>"

definition w_journal_fs :: "block_mem ext4" where
  "w_journal_fs = w_fs\<lparr>
     fs_device := w_disk[1 := replicate 1792 0 @ inode_to_bytes w_journal_inode @ replicate 2048 0],
     fs_cached_super_block := w_journal_sb,
     fs_cached_block_groups := [w_mount_desc\<lparr>bg_inode_table_first_block_lo := 1\<rparr>],
     fs_system_metadata_ranges := [(0, 4)], fs_metadata_mode := ReadOnly\<rparr>"

lemma w_journal_sb_fields:
  "sb_block_count w_journal_sb = 20" "sb_inodes_per_group w_journal_sb = 32" "sb_inode_size w_journal_sb = 256"
  "sb_journal_inode_number w_journal_sb = 8" "sb_journal_dev w_journal_sb = 0" "sb_journal_uuid w_journal_sb = replicate 16 0"
  "sb_first_data_block w_journal_sb = 0" "sb_features_compatible w_journal_sb = 4" "sb_features_incompatible w_journal_sb = 0" "sb_features_read_only w_journal_sb = 0"
  by (simp_all add: sb_block_count_def w_journal_sb_def w_mount_sb_def w_super_def)

lemma w_journal_features [simp]:
  "has_compatible_feature w_journal_sb FEATURE_COMPAT_HAS_JOURNAL" "\<not> has_compatible_feature w_journal_sb FEATURE_COMPAT_FAST_COMMIT"
  "\<not> has_incompatible_feature w_journal_sb f" "\<not> has_read_only_compatible_feature w_journal_sb f"
  by (simp_all add: has_compatible_feature_def has_incompatible_feature_def has_read_only_compatible_feature_def
      w_journal_sb_fields FEATURE_COMPAT_HAS_JOURNAL_def FEATURE_COMPAT_FAST_COMMIT_def)

lemma w_journal_root:
  "valid_node (w_node 0 [extent_to_bytes (extent_new 0 4 16)] 60) (w_node_header 1 0) [extent_to_bytes (extent_new 0 4 16)]"
  using w_node_valid [of "[extent_to_bytes (extent_new 0 4 16)]" 0 60]
  by (simp add: extents_sorted_def ex_end_def w_extent_values INIT_MAX_LEN_def)

lemma w_node_length: "\<forall>s \<in> set ss. length s = 12 \<Longrightarrow> 12 + 12 * length ss \<le> len \<Longrightarrow> length (w_node d ss len) = len"
  by (simp add: w_node_def length_concat comp_def sum_list_triv cong: map_cong)

lemma w_journal_wf: "inode_wf w_journal_inode"
  by (simp add: inode_wf_def w_journal_inode_def inode_default_def w_node_length)

lemma w_journal_read: "read_inode_uncached mem_ops w_journal_fs 8 = Inr \<lparr>ir_id = 8, ir_inode = w_journal_inode\<rparr>"
  using w_journal_wf inode_roundtrip [OF w_journal_wf]
  by (simp add: read_inode_uncached_def inode_disk_pos_def Let_def inode_group_index_def sub_chk_def w_journal_fs_def w_fs_def
      w_journal_sb_fields read_block_group_def bgr_new_def bg_inode_table_first_block_def w_mount_desc_def bgd_default_def
      BLOCK_SIZE_def add_chk_def fs_read_block_def mem_ops_def mem_read_block_def w_disk_blocks(1) block_new_def
      block_read_offset_def index_range_def slice_def)


abbreviation w_journal_ref :: inode_ref where
  "w_journal_ref \<equiv> \<lparr>ir_id = 8, ir_inode = w_journal_inode\<rparr>"

lemma w_journal_tree: "tree_on (child_node mem_ops w_journal_fs w_journal_ref) 0 (extent_root w_journal_ref) (Leaf [extent_new 0 4 16])"
  using w_journal_root
  by (auto simp: extent_root_def w_journal_inode_def node_entries_def intro!: exI [of _ "w_node_header 1 0"])

lemma w_journal_mapped: "unat l < 16 \<Longrightarrow> mapped_at [extent_new 0 4 16] l = Some (4 + ucast l)"
  by (simp add: mapped_at_def ex_covers_def ex_end_def w_extent_values INIT_MAX_LEN_def ex_is_unwritten_def)
    (simp add: extent_new_def ex_start_pblock_def)

lemma w_journal_block:
  assumes "4 \<le> unat p" "unat p < 20"
  shows "fs_validate_data_blocks w_journal_fs p 1 = Inr ()"
proof -
  have "separated [(0, 4)]" by (simp add: separated_def)
  then show ?thesis
    using assms
    by (auto simp: fs_validate_data_blocks_def w_journal_fs_def w_fs_def validate_data_blocks_iff journal_owns_block_range_def
        w_journal_sb_fields covered_def word_less_nat_alt)
qed

lemma w_journal_query:
  assumes "unat l < 16"
  shows "extent_query mem_ops w_journal_fs w_journal_ref l = Inr (4 + ucast l)"
proof -
  have o: "tree_ordered 0 100 (Leaf [extent_new 0 4 16])"
    by (simp add: w_extent_values ex_end_def INIT_MAX_LEN_def)
  have u: "unat (4 + ucast l :: u64) = 4 + unat l"
    using assms by (simp add: unat_word_ariths)
  have "fs_validate_data_blocks w_journal_fs (4 + ucast l) 1 = Inr ()" "(4 + ucast l :: u64) < 20"
    using assms u by (auto intro!: w_journal_block simp: word_less_nat_alt)
  then show ?thesis
    using extent_query_tree [OF w_journal_tree o, of l] assms
    by (simp add: w_journal_mapped) (simp add: w_journal_fs_def w_journal_sb_fields)
qed

lemma w_journal_map:
  "map_validated_journal_inode mem_ops w_journal_fs w_journal_ref 16 20 = Inr (w_ring, set w_ring)"
proof -
  have "validate_complete_extent_tree mem_ops w_journal_fs w_journal_ref = Inr ()"
    unfolding validated_tree_iff using w_journal_tree by (intro exI [of _ "0"] exI [of _ "Leaf [extent_new 0 4 16]"] conjI) simp_all
  moreover have "extent_next_data_lblock mem_ops w_journal_fs w_journal_ref = Inr 16"
    by (simp add: next_data_walk [OF w_journal_tree] ex_end_def w_extent_values INIT_MAX_LEN_def)
  moreover have "map_journal_blocks mem_ops w_journal_fs w_journal_ref 20 [0..<16] {} = Inr (w_ring, set w_ring)"
    by (simp add: upt_rec w_journal_query w_ring_def insert_commute)
  ultimately show ?thesis by (simp add: map_validated_journal_inode_def)
qed


lemma w_journal_open: "open_journal mem_ops w_journal_fs = Inr (w_journal_ref, w_sb, w_ring, set w_ring)"
proof -
  have p: "jsuperblock_parse (w_jsuper @ replicate 3072 0) 4096 = Inr w_sb"
    using jsuperblock_parse_take [of "w_jsuper @ replicate 3072 0" 4096] w_jsuper_parse
    by (simp add: length_w_jsuper w_sb_def)
  have z: "extent_query mem_ops w_journal_fs w_journal_ref 0 = Inr 4" using w_journal_query [of 0] by simp
  have b: "fs_read_block mem_ops w_journal_fs 4 = Inr \<lparr>blk_id = 4, blk_data = w_jsuper @ replicate 3072 0\<rparr>"
    by (simp add: fs_read_block_def mem_ops_def mem_read_block_def w_journal_fs_def w_disk_blocks block_new_def)
  have v: "validate_journal_inode w_journal_sb w_journal_ref = Inr ()"
    by (simp add: validate_journal_inode_def w_journal_inode_def inode_is_file_def inode_file_type_def inode_mode_def
        uses_extents_def FLAG_EXTENTS_def mode_file_type_def TYPE_MASK_def)
  have l: "journal_inode_length w_journal_sb w_journal_ref = Inr 16"
    by (simp add: journal_inode_length_def w_journal_inode_def inode_size_def inode_default_def BLOCK_SIZE_def w_journal_sb_fields)
  have sb: "fs_cached_super_block w_journal_fs = w_journal_sb" by (simp add: w_journal_fs_def)
  have j: "js_max_len w_sb = 16" "js_uuid w_sb = replicate 16 0" by (simp_all add: w_sb_def)
  show ?thesis
    using w_journal_map
    by (simp add: open_journal_def sb Let_def journal_supported_def w_journal_sb_fields w_journal_read v l z b p BLOCK_SIZE_def j)
qed

text \<open>The rest of the mount: the core is built, and \<^verbatim>\<open>RECOVER\<close> is set in block 0.\<close>

lemma w_mounted:
  "\<exists>fs'. mount_journal mem_ops w_journal_fs = (fs', Inr ()) \<and> mem_wf (fs_device fs') \<and> length (fs_device fs') = 20 \<and>
     sb_block_count (fs_cached_super_block fs') = 20 \<and> (\<forall>i > 1. fs_device fs' ! i = w_disk ! i) \<and>
     fs_metadata_mode fs' = Mutating (Journal \<lparr>jco_flags = flags_clean, jco_context = w_context\<lparr>jc_head := 1\<rparr>\<rparr>)"
proof -
  have sb: "fs_cached_super_block w_journal_fs = w_journal_sb" by (simp add: w_journal_fs_def)
  have z: "read_journal_zero mem_ops w_journal_fs w_ring = Inr (w_jsuper @ replicate 3072 0)"
    by (simp add: read_journal_zero_Inr w_ring_def fs_read_block_def mem_ops_def mem_read_block_def w_journal_fs_def w_disk_blocks
        block_new_def)
  have cv: "context_validate (w_context\<lparr>jc_head := 1\<rparr>) = Inr ()"
    by (simp add: context_validate_def w_context_def w_sb_def w_ring_def BLOCK_SIZE_def CRC32C_CHKSUM_def Let_def word_le_nat_alt)
  let ?sb = "set_incompatible_feature w_journal_sb FEATURE_INCOMPAT_RECOVER True"
  have wf: "sb_wf ?sb"
    by (simp add: set_incompatible_feature_def sb_wf_def w_journal_sb_def w_mount_sb_def w_super_def)
  have act: "activate_journal mem_ops w_journal_fs w_sb w_ring (set w_ring) =
      (w_journal_fs\<lparr>fs_metadata_mode := Mutating (Journal \<lparr>jco_flags = flags_clean, jco_context = w_context\<lparr>jc_head := 1\<rparr>\<rparr>)\<rparr>, Inr ())"
    (is "_ = (?fs, _)")
  proof -
    have "\<lparr>jc_superblock = w_sb, jc_logical_blocks = w_ring, jc_journal_blocks = set w_ring, jc_target_blocks = 20, jc_head = 1,
        jc_superblock_image = w_jsuper\<rparr> = w_context\<lparr>jc_head := 1\<rparr>"
      by (simp add: w_context_def)
    moreover have "js_start w_sb = 0" "js_first w_sb = 1" by (simp_all add: w_sb_def)
    ultimately show ?thesis
      using cv by (simp add: activate_journal_def z journal_core_new_def sb w_journal_sb_fields length_w_jsuper)
  qed
  have dev: "fs_device ?fs = w_disk[1 := replicate 1792 0 @ inode_to_bytes w_journal_inode @ replicate 2048 0]"
    by (simp add: w_journal_fs_def)
  moreover have "mem_wf (w_disk[1 := replicate 1792 0 @ inode_to_bytes w_journal_inode @ replicate 2048 0])"
  proof -
    have "length (replicate 1792 0 @ inode_to_bytes w_journal_inode @ replicate 2048 0) = BLOCK_SIZE"
      using w_journal_wf by (simp add: BLOCK_SIZE_def)
    then show ?thesis
      using w_disk_blocks(2) set_update_subset_insert [of w_disk 1] unfolding mem_wf_def list_all_iff by blast
  qed
  ultimately obtain fs' where fs': "write_super_block mem_ops ?fs ?sb = (fs', Inr ())" "mem_wf (fs_device fs')"
    using write_super_block_ok [of ?fs ?sb] wf w_disk_blocks(1) by auto
  note facts = write_super_block_mem [OF fs'(1)]
  have pre: "writable_orphan_preflight fs = Inr ()" if "fs_cached_super_block fs = w_journal_sb" for fs :: "block_mem ext4"
    by (simp add: that writable_orphan_preflight_def unsupported_orphan_format_def unsupported_orphan_features_def w_journal_sb_fields)
  have "flush_device mem_ops fs' = (fs', Inr ())" by (simp add: flush_device_def mem_ops_def mem_flush_def)
  moreover have "supports_reliable_flush mem_ops d" "js_start w_sb = 0" for d by (simp_all add: mem_ops_def w_sb_def)
  ultimately have "mount_journal mem_ops w_journal_fs = (fs', Inr ())"
    using fs'(1) by (simp add: mount_journal_def w_journal_open pre sb act)
  moreover have "sb_block_count (fs_cached_super_block fs') = 20"
    using facts(1) w_journal_sb_fields(1) by (simp add: sb_block_count_def set_incompatible_feature_def)
  moreover have "fs_device fs' ! i = w_disk ! i" if "i > 1" for i using facts(4) [of i] that dev by simp
  ultimately show ?thesis using fs'(2) facts(2,3) dev w_disk_blocks(1) by (intro exI [of _ fs']) simp
qed

lemma ring_fresh_agree:
  assumes "\<forall>p \<in> set jb. m ! unat p = m' ! unat p" "unat (js_max_len sb) \<le> length jb"
  shows "ring_fresh m jb sb k = ring_fresh m' jb sb k"
proof -
  have "ring_block m jb p = ring_block m' jb p" if "pos_ok sb p" for p
  proof -
    have "unat p < length jb" using that assms(2) by (simp add: pos_ok_unat)
    then show ?thesis using assms(1) nth_mem by (simp add: ring_block_def)
  qed
  then show ?thesis by (simp add: ring_fresh_def)
qed

lemma mount_establishes_journal_ready_witness:
  "\<exists>fs' c. mount_journal mem_ops w_journal_fs = (fs', Inr ()) \<and>
     fs_metadata_mode fs' = Mutating (Journal \<lparr>jco_flags = flags_clean, jco_context = c\<rparr>) \<and> journal_ready (fs_device fs') c 3"
proof -
  obtain fs' where f: "mount_journal mem_ops w_journal_fs = (fs', Inr ())" "mem_wf (fs_device fs')" "length (fs_device fs') = 20"
     "sb_block_count (fs_cached_super_block fs') = 20" "\<forall>i > 1. fs_device fs' ! i = w_disk ! i"
     "fs_metadata_mode fs' = Mutating (Journal \<lparr>jco_flags = flags_clean, jco_context = w_context\<lparr>jc_head := 1\<rparr>\<rparr>)"
    using w_mounted by blast
  have "ring_fresh w_disk w_ring w_sb 3"
    using w_context_ready [of 3] unfolding journal_ready_def by (simp add: w_context_def)
  moreover have "\<forall>p \<in> set w_ring. fs_device fs' ! unat p = w_disk ! unat p" using f(5) by (simp add: w_ring_def)
  moreover have "unat (js_max_len w_sb) \<le> length w_ring" by (simp add: w_sb_def w_ring_def)
  ultimately have "ring_fresh (fs_device fs') w_ring w_sb 3" using ring_fresh_agree by blast
  moreover obtain c where "fs_metadata_mode fs' = Mutating (Journal \<lparr>jco_flags = flags_clean, jco_context = c\<rparr>)"
      "journal_ready (fs_device fs') c 3 = ring_fresh (fs_device fs') (jc_logical_blocks c) (jc_superblock c) 3"
    using mount_establishes_journal_ready [OF f(1,2), of 3] f(3,4) by auto
  ultimately show ?thesis using f(1,6) by (auto simp: w_context_def)
qed

end
