(* ===== verification/Dir_Ops.thy ===== *)
theory Dir_Ops
  imports Reclaim Dir_Block
begin

text \<open>
  The operations on the entries of a directory, block by block, direct and in a transaction (\<^verbatim>\<open>src/ext4/dir.rs\<close>). Names
  are the bytes of the strings. A walk over the records of a block that does not end is \<open>Inl Panic\<close>: on a block the
  validator accepts, as all blocks here are, every walk ends (\<open>Dir_Block.dir_validated_reads\<close>).
\<close>

section \<open>Blocks of a directory\<close>

definition validate_dir_name :: "bytes \<Rightarrow> unit res" where
  "validate_dir_name name = (if length name > 255 then Inl (Err ENAMETOOLONG) else Inr ())"

definition metadata_csum_enabled :: "('d, 'z) ext4_scheme \<Rightarrow> bool" where
  "metadata_csum_enabled fs = has_read_only_compatible_feature (fs_cached_super_block fs) FEATURE_RO_COMPAT_METADATA_CSUM"

definition validate_dir_block :: "('d, 'z) ext4_scheme \<Rightarrow> inode_ref \<Rightarrow> LBlockId \<Rightarrow> block \<Rightarrow> dir_block_layout res" where
  "validate_dir_block fs dir iblock b =
     dir_validate b (metadata_checksum_seed (fs_cached_super_block fs)) (ir_id dir) (i_generation (ir_inode dir))
       (metadata_csum_enabled fs) (i_flags (ir_inode dir) AND 0x1000 \<noteq> 0) (iblock = 0)"

definition set_dir_block_checksum :: "('d, 'z) ext4_scheme \<Rightarrow> inode_ref \<Rightarrow> block \<Rightarrow> dir_block_layout \<Rightarrow> block res" where
  "set_dir_block_checksum fs dir b layout =
     (let seed = metadata_checksum_seed (fs_cached_super_block fs); ino_gen = i_generation (ir_inode dir) in
      if \<not> metadata_csum_enabled fs then Inr b
      else case layout of
        Leaf \<Rightarrow> dir_set_checksum b seed (ir_id dir) ino_gen
      | Htree \<Rightarrow> dir_set_htree_checksum b seed (ir_id dir) ino_gen)"

definition dir_data_block_count :: "inode_ref \<Rightarrow> u32 res" where
  "dir_data_block_count dir =
     (let size = inode_size (ir_inode dir); n = size div of_nat BLOCK_SIZE in
      if size mod of_nat BLOCK_SIZE \<noteq> 0 \<or> n > 0xFFFFFFFF then Inl (Err EIO) else Inr (ucast n))"

text \<open>A data block of the directory, from the device or as the transaction shows it, with its layout.\<close>

definition load_dir_block ::
    "('d, 'y) device_ops_scheme \<Rightarrow> ('d, 'z) ext4_scheme \<Rightarrow> inode_ref \<Rightarrow> LBlockId \<Rightarrow> (block \<times> dir_block_layout) res" where
  "load_dir_block ops fs dir iblock =
     rbind (extent_query ops fs dir iblock) (\<lambda>fblock.
     rbind (fs_read_block ops fs fblock) (\<lambda>b.
     rbind (validate_dir_block fs dir iblock b) (\<lambda>layout.
     Inr (b, layout))))"

definition tx_load_dir_block ::
    "('d, 'y) device_ops_scheme \<Rightarrow> ('d, 'z) ext4_scheme \<Rightarrow> transaction \<Rightarrow> inode_ref \<Rightarrow> LBlockId \<Rightarrow>
     (block \<times> dir_block_layout) res" where
  "tx_load_dir_block ops fs tx dir iblock =
     rbind (extent_query ops fs dir iblock) (\<lambda>fblock.
     rbind (tx_read ops (fs_device fs) tx fblock) (\<lambda>img.
     let b = block_new fblock img in
     rbind (validate_dir_block fs dir iblock b) (\<lambda>layout.
     Inr (b, layout))))"

text \<open>The loop over the blocks; \<open>f\<close> is its body, which either ends it with a result or goes on.\<close>

fun scan_blocks :: "(LBlockId \<Rightarrow> (block \<times> dir_block_layout) res) \<Rightarrow> (block \<Rightarrow> dir_block_layout \<Rightarrow> 'a option res) \<Rightarrow> nat list \<Rightarrow> 'a option res" where
  "scan_blocks load f [] = Inr None"
| "scan_blocks load f (i # ns) =
     rbind (load (word_of_nat i)) (\<lambda>(b, layout).
     rbind (f b layout) (\<lambda>r. case r of Some x \<Rightarrow> Inr (Some x) | None \<Rightarrow> scan_blocks load f ns))"

definition scan_dir ::
    "inode_ref \<Rightarrow> (LBlockId \<Rightarrow> (block \<times> dir_block_layout) res) \<Rightarrow> (block \<Rightarrow> dir_block_layout \<Rightarrow> 'a option res) \<Rightarrow> 'a option res" where
  "scan_dir dir load f = rbind (dir_data_block_count dir) (\<lambda>n. scan_blocks load f [0..<unat n])"

text \<open>The bodies: a change of a block, with its checksum, when the block has the name or the room.\<close>

definition checked_change ::
    "('d, 'z) ext4_scheme \<Rightarrow> inode_ref \<Rightarrow> dir_block_layout \<Rightarrow> (block \<times> bool) res option \<Rightarrow> block option res" where
  "checked_change fs dir layout m =
     rbind (or_abort m) (\<lambda>(b, done).
     if done then rbind (set_dir_block_checksum fs dir b layout) (\<lambda>b. Inr (Some b)) else Inr None)"

definition insert_change ::
    "('d, 'z) ext4_scheme \<Rightarrow> inode_ref \<Rightarrow> inode_ref \<Rightarrow> bytes \<Rightarrow> block \<Rightarrow> dir_block_layout \<Rightarrow> block option res" where
  "insert_change fs dir child name b layout =
     (if layout = Htree then Inr None
      else checked_change fs dir layout
        (dir_insert b name (ir_id child) (inode_file_type (ir_inode child)) (metadata_csum_enabled fs)))"

definition remove_change ::
    "('d, 'z) ext4_scheme \<Rightarrow> inode_ref \<Rightarrow> bytes \<Rightarrow> block \<Rightarrow> dir_block_layout \<Rightarrow> block option res" where
  "remove_change fs dir name b layout =
     (if layout = Htree then Inr None
      else checked_change fs dir layout (dir_remove b name (metadata_csum_enabled fs)))"

definition replace_change ::
    "('d, 'z) ext4_scheme \<Rightarrow> inode_ref \<Rightarrow> bytes \<Rightarrow> InodeId \<Rightarrow> FileType \<Rightarrow> block \<Rightarrow> dir_block_layout \<Rightarrow> block option res" where
  "replace_change fs dir name new_inode new_type b layout =
     checked_change fs dir layout (dir_replace b name new_inode new_type (metadata_csum_enabled fs))"

section \<open>Reading\<close>

definition dir_find_entry ::
    "('d, 'y) device_ops_scheme \<Rightarrow> ('d, 'z) ext4_scheme \<Rightarrow> inode_ref \<Rightarrow> bytes \<Rightarrow> InodeId res" where
  "dir_find_entry ops fs dir name =
     rbind (validate_dir_name name) (\<lambda>_.
     rbind (scan_dir dir (load_dir_block ops fs dir) (\<lambda>b layout. or_abort (dir_get b name (metadata_csum_enabled fs)))) (\<lambda>r.
     ok_or r ENOENT))"

text \<open>The trial insertion works on a copy of the block and is dropped.\<close>

definition dir_has_insert_space ::
    "('d, 'y) device_ops_scheme \<Rightarrow> ('d, 'z) ext4_scheme \<Rightarrow> inode_ref \<Rightarrow> inode_ref \<Rightarrow> bytes \<Rightarrow> bool res" where
  "dir_has_insert_space ops fs dir child name =
     rbind (validate_dir_name name) (\<lambda>_.
     rbind (scan_dir dir (load_dir_block ops fs dir) (\<lambda>b layout.
       if layout = Htree then Inr None
       else rbind (or_abort (dir_insert b name (ir_id child) (inode_file_type (ir_inode child)) (metadata_csum_enabled fs)))
              (\<lambda>(_, done). Inr (if done then Some () else None)))) (\<lambda>r.
     Inr (r \<noteq> None)))"

fun list_blocks ::
    "(LBlockId \<Rightarrow> (block \<times> dir_block_layout) res) \<Rightarrow> bool \<Rightarrow> nat list \<Rightarrow> dir_entry list \<Rightarrow> dir_entry list res" where
  "list_blocks load csum [] entries = Inr entries"
| "list_blocks load csum (i # ns) entries =
     rbind (load (word_of_nat i)) (\<lambda>(b, _).
     rbind (or_abort (dir_list b entries csum)) (\<lambda>entries.
     list_blocks load csum ns entries))"

definition dir_list_entries ::
    "('d, 'y) device_ops_scheme \<Rightarrow> ('d, 'z) ext4_scheme \<Rightarrow> inode_ref \<Rightarrow> dir_entry list res" where
  "dir_list_entries ops fs dir =
     rbind (dir_data_block_count dir) (\<lambda>n.
     list_blocks (load_dir_block ops fs dir) (metadata_csum_enabled fs) [0..<unat n] [])"

definition dot :: bytes where "dot = [0x2E]"
definition dot_dot :: bytes where "dot_dot = [0x2E, 0x2E]"

definition dir_is_empty :: "('d, 'y) device_ops_scheme \<Rightarrow> ('d, 'z) ext4_scheme \<Rightarrow> inode_ref \<Rightarrow> bool res" where
  "dir_is_empty ops fs dir =
     rbind (dir_list_entries ops fs dir) (\<lambda>entries.
     Inr (list_all (\<lambda>de. de_get_name de = dot \<or> de_get_name de = dot_dot) entries))"

section \<open>Direct changes\<close>

definition write_found ::
    "('d, 'y) device_ops_scheme \<Rightarrow> ('d, 'z) ext4_scheme \<Rightarrow> block option res \<Rightarrow> ('d, 'z) ext4_scheme \<times> unit res" where
  "write_found ops fs found =
     sbind (fs, rbind found (\<lambda>r. ok_or r ENOENT)) (\<lambda>fs b. fs_write_block ops fs b)"

definition dir_remove_entry ::
    "('d, 'y) device_ops_scheme \<Rightarrow> ('d, 'z) ext4_scheme \<Rightarrow> inode_ref \<Rightarrow> bytes \<Rightarrow> ('d, 'z) ext4_scheme \<times> unit res" where
  "dir_remove_entry ops fs dir name =
     write_found ops fs (rbind (validate_dir_name name) (\<lambda>_.
       scan_dir dir (load_dir_block ops fs dir) (remove_change fs dir name)))"

definition dir_replace_entry ::
    "('d, 'y) device_ops_scheme \<Rightarrow> ('d, 'z) ext4_scheme \<Rightarrow> inode_ref \<Rightarrow> bytes \<Rightarrow> InodeId \<Rightarrow> FileType \<Rightarrow>
     ('d, 'z) ext4_scheme \<times> unit res" where
  "dir_replace_entry ops fs dir name new_inode new_type =
     write_found ops fs (rbind (validate_dir_name name) (\<lambda>_.
       scan_dir dir (load_dir_block ops fs dir) (replace_change fs dir name new_inode new_type)))"

text \<open>\<^verbatim>\<open>DirAddFailure\<close>: whether anything was changed before the failure.\<close>

datatype dir_add_failure = Unmodified fault | Indeterminate fault

definition into_error :: "dir_add_failure \<Rightarrow> fault" where
  "into_error f = (case f of Unmodified e \<Rightarrow> e | Indeterminate e \<Rightarrow> e)"

definition classify :: "(fault \<Rightarrow> dir_add_failure) \<Rightarrow> 's \<times> 'a res \<Rightarrow> 's \<times> (dir_add_failure + 'a)" where
  "classify c m = (case m of (s, Inl e) \<Rightarrow> (s, Inl (c e)) | (s, Inr x) \<Rightarrow> (s, Inr x))"

text \<open>A new block at the end of the directory, with the entry.\<close>

definition dir_append_entry ::
    "('d, 'y) device_ops_scheme \<Rightarrow> ('d, 'z) inode_state \<Rightarrow> inode_ref \<Rightarrow> bytes \<Rightarrow> LBlockId \<Rightarrow>
     ('d, 'z) inode_state \<times> unit res" where
  "dir_append_entry ops s child name iblock =
     sbind (inode_append_block ops s) (\<lambda>(fs, dir) (_, fblock).
     sbind ((fs, dir), add_chk (inode_size (ir_inode dir)) (of_nat BLOCK_SIZE)) (\<lambda>(fs, dir) size.
     let dir = dir\<lparr>ir_inode := inode_set_size size (ir_inode dir)\<rparr>; csum = metadata_csum_enabled fs in
     sbind ((fs, dir), rbind (fs_read_block ops fs fblock) (\<lambda>b.
                       rbind (dir_init b csum) (\<lambda>b.
                       rbind (or_abort (dir_insert b name (ir_id child) (inode_file_type (ir_inode child)) csum)) (\<lambda>(b, _).
                       rbind (set_dir_block_checksum fs dir b Leaf) (\<lambda>b.
                       rbind (validate_dir_block fs dir iblock b) (\<lambda>_. Inr b)))))) (\<lambda>(fs, dir) b.
     sbind (on_fs dir (fs_write_block ops fs b)) (\<lambda>(fs, dir) _.
     write_inode_with_csum ops fs dir))))"

definition dir_add_entry_classified ::
    "('d, 'y) device_ops_scheme \<Rightarrow> ('d, 'z) inode_state \<Rightarrow> inode_ref \<Rightarrow> bytes \<Rightarrow>
     ('d, 'z) inode_state \<times> (dir_add_failure + unit)" where
  "dir_add_entry_classified ops s child name = (case s of (fs, dir) \<Rightarrow>
     (case rbind (validate_dir_name name) (\<lambda>_.
           rbind (dir_data_block_count dir) (\<lambda>total_blocks.
           rbind (scan_blocks (load_dir_block ops fs dir) (insert_change fs dir child name) [0..<unat total_blocks]) (\<lambda>r.
           Inr (total_blocks, r)))) of
        Inl e \<Rightarrow> (s, Inl (Unmodified e))
      | Inr (total_blocks, Some b) \<Rightarrow> classify Indeterminate (on_fs dir (fs_write_block ops fs b))
      | Inr (total_blocks, None) \<Rightarrow>
          if sb_free_blocks_count (fs_cached_super_block fs) = 0 then (s, Inl (Unmodified (Err ENOSPC)))
          else classify Indeterminate (dir_append_entry ops s child name total_blocks)))"

definition dir_add_entry ::
    "('d, 'y) device_ops_scheme \<Rightarrow> ('d, 'z) inode_state \<Rightarrow> inode_ref \<Rightarrow> bytes \<Rightarrow> ('d, 'z) inode_state \<times> unit res" where
  "dir_add_entry ops s child name = (case dir_add_entry_classified ops s child name of
     (s, Inl f) \<Rightarrow> (s, Inl (into_error f)) | (s, Inr x) \<Rightarrow> (s, Inr x))"

text \<open>An error of the caller's step, with the file system poisoned.\<close>

definition poisoned_inode :: "('d, 'z) inode_state \<times> 'a res \<Rightarrow> ('d, 'z) inode_state \<times> 'a res" where
  "poisoned_inode m = (case m of
     ((fs, r), Inl e) \<Rightarrow> ((fs_poison EIO fs, r), Inl e) | ((fs, r), Inr x) \<Rightarrow> ((fs, r), Inr x))"

definition prepare_empty_dir_slot ::
    "('d, 'y) device_ops_scheme \<Rightarrow> ('d, 'z) inode_state \<Rightarrow> ('d, 'z) inode_state \<times> unit res" where
  "prepare_empty_dir_slot ops s = (case s of (fs, dir) \<Rightarrow>
     let n = ir_inode dir; old_size = inode_size n in
     sbind (s, rbind (dir_init (block_new 0 (replicate BLOCK_SIZE 0)) (metadata_csum_enabled fs)) (\<lambda>empty.
               rbind (set_dir_block_checksum fs dir empty Leaf) (\<lambda>empty.
               rbind (extent_next_data_lblock ops fs dir) (\<lambda>iblock.
               rbind (inode_fs_block_count n) (\<lambda>old_blocks.
               rbind (ok_or (checked_add old_size (of_nat BLOCK_SIZE)) EFBIG) (\<lambda>new_size.
               rbind (ok_or (checked_add old_blocks 1) EFBIG) (\<lambda>new_blocks.
               rbind (inode_set_fs_block_count new_blocks (inode_set_size new_size n)) (\<lambda>grown.
               Inr (empty, iblock, old_blocks, grown))))))))) (\<lambda>(fs, dir) (empty, iblock, old_blocks, grown).
     case extent_query_or_create_initialized ops (fs, dir\<lparr>ir_inode := grown\<rparr>) iblock 1 (Some (blk_data empty)) of
       ((fs, dir), Inl e) \<Rightarrow>
         (case inode_set_fs_block_count old_blocks (inode_set_size old_size (ir_inode dir)) of
            Inr n \<Rightarrow> ((fs_poison EIO fs, dir\<lparr>ir_inode := n\<rparr>), Inl e)
          | Inl e \<Rightarrow> ((fs, dir), Inl e))
     | ((fs, dir), Inr _) \<Rightarrow>
         sbind (poisoned_inode ((fs, dir), rbind (extent_all_data_blocks ops fs dir) (\<lambda>data.
                                           rbind (extent_all_tree_blocks ops fs dir) (\<lambda>tree.
                                           ok_or (usize_checked_add (length data) (length tree)) EFBIG)))) (\<lambda>(fs, dir) total.
         sbind ((fs, dir), inode_set_fs_block_count (word_of_nat total) (ir_inode dir)) (\<lambda>(fs, dir) n.
         poisoned_inode (write_inode_with_csum ops fs (dir\<lparr>ir_inode := n\<rparr>))))))"

section \<open>Changes in a transaction\<close>

definition stage_found :: "transaction \<Rightarrow> block option res \<Rightarrow> ErrCode \<Rightarrow> transaction \<times> unit res" where
  "stage_found tx found missing =
     sbind (tx, rbind found (\<lambda>r. ok_or r missing)) (\<lambda>tx b.
     case tx_stage tx (blk_id b) (blk_data b) of Inl e \<Rightarrow> (tx, Inl e) | Inr tx \<Rightarrow> (tx, Inr ()))"

definition transaction_dir_add_existing ::
    "('d, 'y) device_ops_scheme \<Rightarrow> ('d, 'z) ext4_scheme \<Rightarrow> transaction \<Rightarrow> inode_ref \<Rightarrow> inode_ref \<Rightarrow> bytes \<Rightarrow>
     transaction \<times> unit res" where
  "transaction_dir_add_existing ops fs tx dir child name =
     stage_found tx (rbind (validate_dir_name name) (\<lambda>_.
       scan_dir dir (tx_load_dir_block ops fs tx dir) (insert_change fs dir child name))) ENOSPC"

definition transaction_dir_remove_entry ::
    "('d, 'y) device_ops_scheme \<Rightarrow> ('d, 'z) ext4_scheme \<Rightarrow> transaction \<Rightarrow> inode_ref \<Rightarrow> bytes \<Rightarrow> transaction \<times> unit res" where
  "transaction_dir_remove_entry ops fs tx dir name =
     stage_found tx (rbind (validate_dir_name name) (\<lambda>_.
       scan_dir dir (tx_load_dir_block ops fs tx dir) (remove_change fs dir name))) ENOENT"

definition transaction_dir_replace_entry ::
    "('d, 'y) device_ops_scheme \<Rightarrow> ('d, 'z) ext4_scheme \<Rightarrow> transaction \<Rightarrow> inode_ref \<Rightarrow> bytes \<Rightarrow> InodeId \<Rightarrow> FileType \<Rightarrow>
     transaction \<times> unit res" where
  "transaction_dir_replace_entry ops fs tx dir name new_inode new_type =
     stage_found tx (rbind (validate_dir_name name) (\<lambda>_.
       scan_dir dir (tx_load_dir_block ops fs tx dir) (replace_change fs dir name new_inode new_type))) ENOENT"

section \<open>The root directory\<close>

text \<open>\<^verbatim>\<open>create_root_inode\<close> and \<^verbatim>\<open>Ext4::init\<close>: the root with its two entries, both to itself.\<close>

definition create_root_inode ::
    "('d, 'y) device_ops_scheme \<Rightarrow> ('d, 'z) ext4_scheme \<Rightarrow> ('d, 'z) inode_state \<times> unit res" where
  "create_root_inode ops fs =
     (let root = \<lambda>n. \<lparr>ir_id = EXT4_ROOT_INO, ir_inode = n\<rparr>; fresh = inode_set_mode (from_type_and_perm Directory 0x1ED) inode_default in
      sbind ((fs, root fresh), extent_init fresh) (\<lambda>(fs, _) n.
      sbind (dir_add_entry ops (fs, root n) (root n) dot) (\<lambda>s _.
      sbind (dir_add_entry ops s (root n) dot_dot) (\<lambda>(fs, r) _.
      write_inode_with_csum ops fs (r\<lparr>ir_inode := (ir_inode r)\<lparr>i_link_count := 2\<rparr>\<rparr>)))))"

definition ext4_init :: "('d, 'y) device_ops_scheme \<Rightarrow> ('d, 'z) ext4_scheme \<Rightarrow> ('d, 'z) ext4_scheme \<times> unit res" where
  "ext4_init ops fs = (case create_root_inode ops fs of ((fs, _), x) \<Rightarrow> (fs, x))"

end
