(* ===== verification/Link.thy ===== *)
theory Link
  imports Dir_Ops
begin

text \<open>
  Publishing and removing a name of an inode (\<^verbatim>\<open>src/ext4/link.rs\<close>). The inodes of the caller are part of the state, as
  they are changed in place; the callers do not look at them after a transaction, so the bodies of transactions do not
  return them.
\<close>

definition namespace_removal_is_final :: "bool \<Rightarrow> u16 \<Rightarrow> bool" where
  "namespace_removal_is_final is_dir link_count \<longleftrightarrow> is_dir \<or> link_count \<le> 1"

definition set_link_count :: "u16 \<Rightarrow> inode_ref \<Rightarrow> inode_ref" where
  "set_link_count n r = r\<lparr>ir_inode := (ir_inode r)\<lparr>i_link_count := n\<rparr>\<rparr>"

definition stage_ref ::
    "('d, 'y) device_ops_scheme \<Rightarrow> ('d, 'z) ext4_scheme \<Rightarrow> transaction \<Rightarrow> inode_ref \<Rightarrow> transaction \<times> unit res" where
  "stage_ref ops fs tx r = (case transaction_stage_inode_with_csum ops fs tx r of ((tx, _), x) \<Rightarrow> (tx, x))"

text \<open>The zero-link inode of a name that is gone: on the list of orphans with a journal, not without one.\<close>

definition stage_unlinked ::
    "('d, 'y) device_ops_scheme \<Rightarrow> ('d, 'z) ext4_scheme \<Rightarrow> transaction \<Rightarrow> inode_ref \<Rightarrow> transaction \<times> unit res" where
  "stage_unlinked ops fs tx r =
     (let r = set_link_count 0 r in
      if uses_journal fs then
        (case transaction_orphan_add ops fs tx r (fs_cached_super_block fs) of ((tx, _), x) \<Rightarrow> (tx, x))
      else stage_ref ops fs tx (r\<lparr>ir_inode := set_next_orphan 0 (ir_inode r)\<rparr>))"

section \<open>Link\<close>

type_synonym ('d, 'z) link_state = "('d, 'z) ext4_scheme \<times> inode_ref \<times> inode_ref"

definition relink_body ::
    "('d, 'y) device_ops_scheme \<Rightarrow> inode_ref \<Rightarrow> inode_ref \<Rightarrow> bytes \<Rightarrow> ('d, 'z) ext4_scheme \<Rightarrow> transaction \<Rightarrow>
     transaction \<times> bool res" where
  "relink_body ops parent child name fs tx =
     (case transaction_orphan_del ops fs tx child (fs_cached_super_block fs) of
        ((tx, _), Inl e) \<Rightarrow> (tx, Inl e)
      | ((tx, _), Inr _) \<Rightarrow>
          sbind (transaction_dir_add_existing ops fs tx parent child name) (\<lambda>tx _.
          let child = set_link_count 1 child in
          stage_inode ops fs tx (child\<lparr>ir_inode := set_next_orphan 0 (ir_inode child)\<rparr>)))"

definition relink_orphan ::
    "('d, 'y) device_ops_scheme \<Rightarrow> ('d, 'z) link_state \<Rightarrow> bytes \<Rightarrow> ('d, 'z) link_state \<times> unit res" where
  "relink_orphan ops s name = (case s of (fs, parent, child) \<Rightarrow>
     sbind (s, rbind (legacy_orphan_contains ops fs (ir_id child)) (\<lambda>listed. guard listed (Err EINVAL))) (\<lambda>s _.
     if inode_is_dir (ir_inode child) then (s, Inl (Err EPERM))
     else
       sbind (s, dir_has_insert_space ops fs parent child name) (\<lambda>s has_space.
       case (if has_space then ((fs, parent), Inr ()) else prepare_empty_dir_slot ops (fs, parent)) of
         ((fs, parent), Inl e) \<Rightarrow> ((fs, parent, child), Inl e)
       | ((fs, parent), Inr _) \<Rightarrow>
           (case run_transaction ops fs 3 (relink_body ops parent child name) of
              (fs, x) \<Rightarrow> ((fs, parent, child), rbind x (\<lambda>_. Inr ()))))))"

text \<open>The inodes first: the entry of the parent in a directory with the link it means, then the link of the child.\<close>

definition link_inodes ::
    "('d, 'y) device_ops_scheme \<Rightarrow> ('d, 'z) link_state \<Rightarrow> ('d, 'z) link_state \<times> unit res" where
  "link_inodes ops s = (case s of (fs, parent, child) \<Rightarrow>
     sbind (if inode_is_dir (ir_inode child) then
              (case dir_add_entry ops (fs, child) parent dot_dot of
                 ((fs, child), Inl e) \<Rightarrow> ((fs, parent, child), Inl e)
               | ((fs, child), Inr _) \<Rightarrow>
                   sbind ((fs, parent, child), add_chk (i_link_count (ir_inode parent)) 1) (\<lambda>(fs, parent, child) n.
                   case write_inode_with_csum ops fs (set_link_count n parent) of
                     ((fs, parent), x) \<Rightarrow> ((fs, parent, child), x)))
            else (s, Inr ())) (\<lambda>(fs, parent, child) _.
     sbind ((fs, parent, child), add_chk (i_link_count (ir_inode child)) 1) (\<lambda>(fs, parent, child) n.
     case write_inode_with_csum ops fs (set_link_count n child) of
       ((fs, child), x) \<Rightarrow> ((fs, parent, child), x))))"

text \<open>The old counts, written back when the name could not be published.\<close>

definition unlink_inodes ::
    "('d, 'y) device_ops_scheme \<Rightarrow> ('d, 'z) link_state \<Rightarrow> u16 \<Rightarrow> u16 \<Rightarrow> ('d, 'z) link_state" where
  "unlink_inodes ops s parent_link_count child_link_count = (case s of (fs, parent, child) \<Rightarrow>
     case write_inode_with_csum ops fs (set_link_count child_link_count child) of ((fs, child), x) \<Rightarrow>
     case (if inode_is_dir (ir_inode child) then write_inode_with_csum ops fs (set_link_count parent_link_count parent)
           else ((fs, parent), Inr ())) of ((fs, parent), y) \<Rightarrow>
     (if is_ok x \<and> is_ok y then fs else fs_poison EIO fs, parent, child))"

definition link_inode ::
    "('d, 'y) device_ops_scheme \<Rightarrow> ('d, 'z) link_state \<Rightarrow> bytes \<Rightarrow> bool \<Rightarrow> ('d, 'z) link_state \<times> unit res" where
  "link_inode ops s name allow_orphan_relink = (case s of (fs, parent, child) \<Rightarrow>
     sbind (s, ensure_mutable fs) (\<lambda>s _.
     if i_link_count (ir_inode child) = 0 \<and> allow_orphan_relink then relink_orphan ops s name
     else
       let parent_links = i_link_count (ir_inode parent); child_links = i_link_count (ir_inode child) in
       sbind (link_inodes ops s) (\<lambda>(fs, parent, child) _.
       case dir_add_entry ops (fs, parent) child name of
         ((fs, parent), Inl e) \<Rightarrow> (unlink_inodes ops (fs, parent, child) parent_links child_links, Inl e)
       | ((fs, parent), Inr _) \<Rightarrow> ((fs, parent, child), Inr ()))))"

section \<open>Unlink\<close>

text \<open>The last name: the entry, the parent's count, the child's count and the list of orphans in one transaction.\<close>

definition unlink_body ::
    "('d, 'y) device_ops_scheme \<Rightarrow> inode_ref \<Rightarrow> inode_ref \<Rightarrow> bytes \<Rightarrow> ('d, 'z) ext4_scheme \<Rightarrow> transaction \<Rightarrow>
     transaction \<times> bool res" where
  "unlink_body ops parent child name fs tx =
     sbind (transaction_dir_remove_entry ops fs tx parent name) (\<lambda>tx _.
     sbind (if inode_is_dir (ir_inode child) then
              sbind (tx, sub_chk (i_link_count (ir_inode parent)) 1) (\<lambda>tx n. stage_ref ops fs tx (set_link_count n parent))
            else (tx, Inr ())) (\<lambda>tx _.
     sbind (stage_unlinked ops fs tx child) (\<lambda>tx _. (tx, Inr True))))"

definition handle_of :: "inode_ref \<Rightarrow> inode_reclaim_handle" where
  "handle_of r = \<lparr>rh_inode_id = ir_id r, rh_generation = i_generation (ir_inode r)\<rparr>"

definition poisoned_write ::
    "('d, 'y) device_ops_scheme \<Rightarrow> ('d, 'z) ext4_scheme \<Rightarrow> inode_ref \<Rightarrow> ('d, 'z) ext4_scheme \<times> unit res" where
  "poisoned_write ops fs r = (case poisoned_inode (write_inode_with_csum ops fs r) of ((fs, _), x) \<Rightarrow> (fs, x))"

definition unlink_inode ::
    "('d, 'y) device_ops_scheme \<Rightarrow> ('d, 'z) ext4_scheme \<Rightarrow> inode_ref \<Rightarrow> inode_ref \<Rightarrow> bytes \<Rightarrow>
     ('d, 'z) ext4_scheme \<times> inode_reclaim_handle option res" where
  "unlink_inode ops fs parent child name =
     (let is_dir = inode_is_dir (ir_inode child); links = i_link_count (ir_inode child) in
      if namespace_removal_is_final is_dir links then
        sbind (run_transaction ops fs (if is_dir then 4 else 3) (unlink_body ops parent child name)) (\<lambda>fs _.
        (fs, Inr (Some (handle_of child))))
      else
        sbind (dir_remove_entry ops fs parent name) (\<lambda>fs _.
        sbind (if is_dir then
                 sbind (fs, sub_chk (i_link_count (ir_inode parent)) 1) (\<lambda>fs n.
                 poisoned_write ops fs (set_link_count n parent))
               else (fs, Inr ())) (\<lambda>fs _.
        sbind (fs, sub_chk links 1) (\<lambda>fs n.
        sbind (poisoned_write ops fs (set_link_count n child)) (\<lambda>fs _.
        (fs, Inr None))))))"

end
