(* ===== verification/File_Data.thy ===== *)
theory File_Data
  imports Reclaim
begin

text \<open>
  Files as the callers of the library see them: attributes, reading, writing, and the allocation of blocks ahead of a
  write (\<^verbatim>\<open>src/ext4/low_level.rs\<close>). Offsets and lengths are \<^verbatim>\<open>usize\<close>, natural numbers below \<open>2^64\<close> here; a logical
  block number is the low 32 bits of its quotient, as the cast of the code has it. A buffer that is filled is the list
  of bytes returned. Statistics and locks of inodes have no counterpart; the gate of metadata mutations does.
\<close>

section \<open>Attributes\<close>

record file_attr =
  fa_ino :: InodeId
  fa_size :: u64
  fa_atime :: u32
  fa_mtime :: u32
  fa_ctime :: u32
  fa_crtime :: u32
  fa_blocks :: u64
  fa_ftype :: FileType
  fa_perm :: InodeMode
  fa_links :: u16
  fa_uid :: u32
  fa_gid :: u32
  fa_rdev :: "u32 \<times> u32"

definition file_attr_of :: "inode_ref \<Rightarrow> file_attr" where
  "file_attr_of r =
     (let n = ir_inode r in
      \<lparr>fa_ino = ir_id r, fa_size = inode_size n, fa_atime = i_atime n, fa_mtime = i_mtime n, fa_ctime = i_ctime n,
       fa_crtime = i_crtime n, fa_blocks = inode_block_count n, fa_ftype = inode_file_type n,
       fa_perm = mode_perm (inode_mode n), fa_links = i_link_count n, fa_uid = inode_uid n, fa_gid = inode_gid n,
       fa_rdev = (if inode_is_device n then inode_device n else (0, 0))\<rparr>)"

text \<open>Reading an inode that must be in use.\<close>

definition read_used_inode ::
    "('d, 'y) device_ops_scheme \<Rightarrow> ('d, 'z) ext4_scheme \<Rightarrow> InodeId \<Rightarrow> ('d, 'z) ext4_scheme \<times> inode_ref res" where
  "read_used_inode ops fs i =
     sbind (read_inode ops fs i) (\<lambda>fs r.
     (fs, if inode_mode (ir_inode r) = 0 then Inl (Err EINVAL) else Inr r))"

definition getattr ::
    "('d, 'y) device_ops_scheme \<Rightarrow> ('d, 'z) ext4_scheme \<Rightarrow> InodeId \<Rightarrow> ('d, 'z) ext4_scheme \<times> file_attr res" where
  "getattr ops fs i = sbind (read_used_inode ops fs i) (\<lambda>fs r. (fs, Inr (file_attr_of r)))"

record set_attr =
  sa_mode :: "InodeMode option"
  sa_uid :: "u32 option"
  sa_gid :: "u32 option"
  sa_size :: "u64 option"
  sa_atime :: "u32 option"
  sa_mtime :: "u32 option"
  sa_ctime :: "u32 option"
  sa_crtime :: "u32 option"

definition set_attr_new :: set_attr where
  "set_attr_new = \<lparr>sa_mode = None, sa_uid = None, sa_gid = None, sa_size = None, sa_atime = None, sa_mtime = None,
     sa_ctime = None, sa_crtime = None\<rparr>"

definition set_opt :: "('a \<Rightarrow> inode \<Rightarrow> inode) \<Rightarrow> 'a option \<Rightarrow> inode \<Rightarrow> inode" where
  "set_opt f x n = (case x of None \<Rightarrow> n | Some v \<Rightarrow> f v n)"

definition apply_attr :: "set_attr \<Rightarrow> inode \<Rightarrow> inode" where
  "apply_attr a n =
     set_opt (\<lambda>v n. n\<lparr>i_crtime := v\<rparr>) (sa_crtime a) (
     set_opt (\<lambda>v n. n\<lparr>i_ctime := v\<rparr>) (sa_ctime a) (
     set_opt (\<lambda>v n. n\<lparr>i_mtime := v\<rparr>) (sa_mtime a) (
     set_opt (\<lambda>v n. n\<lparr>i_atime := v\<rparr>) (sa_atime a) (
     set_opt inode_set_size (sa_size a) (
     set_opt inode_set_gid (sa_gid a) (
     set_opt inode_set_uid (sa_uid a) (
     set_opt inode_set_mode (sa_mode a) n)))))))"

text \<open>The scopes of the two guards, and the write that ends most operations.\<close>

definition with_direct_guard ::
    "('d, 'z) ext4_scheme \<Rightarrow> (('d, 'z) ext4_scheme \<Rightarrow> ('d, 'z) ext4_scheme \<times> 'a res) \<Rightarrow> ('d, 'z) ext4_scheme \<times> 'a res" where
  "with_direct_guard fs body = sbind (lock_direct_metadata_mutation fs) (\<lambda>fs g. unlock_metadata_mutation g (body fs))"

definition with_transactional_guard ::
    "('d, 'z) ext4_scheme \<Rightarrow> (('d, 'z) ext4_scheme \<Rightarrow> ('d, 'z) ext4_scheme \<times> 'a res) \<Rightarrow> ('d, 'z) ext4_scheme \<times> 'a res" where
  "with_transactional_guard fs body =
     sbind (lock_transactional_metadata_mutation fs) (\<lambda>fs g. unlock_metadata_mutation g (body fs))"

definition mutate_direct ::
    "('d, 'z) ext4_scheme \<Rightarrow> (('d, 'z) ext4_scheme \<Rightarrow> ('d, 'z) ext4_scheme \<times> 'a res) \<Rightarrow> ('d, 'z) ext4_scheme \<times> 'a res" where
  "mutate_direct fs body = sbind (fs, ensure_mutable fs) (\<lambda>fs _. with_direct_guard fs body)"

definition mutate_transactional ::
    "('d, 'z) ext4_scheme \<Rightarrow> (('d, 'z) ext4_scheme \<Rightarrow> ('d, 'z) ext4_scheme \<times> 'a res) \<Rightarrow> ('d, 'z) ext4_scheme \<times> 'a res" where
  "mutate_transactional fs body = sbind (fs, ensure_mutable fs) (\<lambda>fs _. with_transactional_guard fs body)"

definition save_inode ::
    "('d, 'y) device_ops_scheme \<Rightarrow> ('d, 'z) ext4_scheme \<Rightarrow> inode_ref \<Rightarrow> ('d, 'z) ext4_scheme \<times> unit res" where
  "save_inode ops fs r = (case write_inode_with_csum ops fs r of ((fs, _), x) \<Rightarrow> (fs, x))"

definition setattr ::
    "('d, 'y) device_ops_scheme \<Rightarrow> ('d, 'z) ext4_scheme \<Rightarrow> InodeId \<Rightarrow> set_attr \<Rightarrow> ('d, 'z) ext4_scheme \<times> unit res" where
  "setattr ops fs i a =
     mutate_direct fs (\<lambda>fs.
     sbind (read_used_inode ops fs i) (\<lambda>fs r.
     save_inode ops fs (r\<lparr>ir_inode := apply_attr a (ir_inode r)\<rparr>)))"

definition commit_inode_metadata ::
    "('d, 'y) device_ops_scheme \<Rightarrow> ('d, 'z) ext4_scheme \<Rightarrow> InodeId \<Rightarrow> u64 option \<Rightarrow> u32 option \<Rightarrow> u32 option \<Rightarrow>
     ('d, 'z) ext4_scheme \<times> unit res" where
  "commit_inode_metadata ops fs i new_size atime mtime =
     mutate_direct fs (\<lambda>fs.
     sbind (read_used_inode ops fs i) (\<lambda>fs r.
     save_inode ops fs (r\<lparr>ir_inode :=
       set_opt (\<lambda>v n. n\<lparr>i_mtime := v\<rparr>) mtime (
       set_opt (\<lambda>v n. n\<lparr>i_atime := v\<rparr>) atime (
       set_opt inode_set_size new_size (ir_inode r)))\<rparr>)))"

definition commit_inode_size ::
    "('d, 'y) device_ops_scheme \<Rightarrow> ('d, 'z) ext4_scheme \<Rightarrow> InodeId \<Rightarrow> u64 \<Rightarrow> u32 option \<Rightarrow> ('d, 'z) ext4_scheme \<times> unit res" where
  "commit_inode_size ops fs i new_size mtime = commit_inode_metadata ops fs i (Some new_size) None mtime"

text \<open>What a scope of the direct guard does: the body runs with one more holder of the gate.\<close>

lemma lock_direct_free:
  assumes "fs_metadata_gate fs = gate_new"
  shows "lock_direct_metadata_mutation fs = (fs\<lparr>fs_metadata_gate := 1\<rparr>, Inr \<lparr>mg_exclusive = False\<rparr>)"
proof -
  have m: "0 \<noteq> METADATA_GATE_DIRECT_MAX" using direct_max_unat by (intro notI) simp
  obtain k where k: "COMPATIBLE_CAS_RETRIES = Suc k" by (cases COMPATIBLE_CAS_RETRIES) (simp_all add: COMPATIBLE_CAS_RETRIES_def)
  show ?thesis
    unfolding lock_direct_metadata_mutation_def try_direct_begin_def k assms using m by (simp add: gate_new_def)
qed

lemma mutate_direct_free:
  assumes "ensure_mutable fs = Inr ()" "fs_metadata_gate fs = gate_new"
    and "body (fs\<lparr>fs_metadata_gate := 1\<rparr>) = (fs', x)" "fs_metadata_gate fs' = 1"
  shows "mutate_direct fs body = (fs'\<lparr>fs_metadata_gate := gate_new\<rparr>, x)"
  using assms
  by (simp add: mutate_direct_def with_direct_guard_def lock_direct_free unlock_metadata_mutation_def guard_drop_def
      word_less_nat_alt exclusive_unat gate_new_def)

section \<open>Reading\<close>

definition lblock_of :: "nat \<Rightarrow> LBlockId" where
  "lblock_of offset = word_of_nat (offset div BLOCK_SIZE)"

definition read_extent_or_hole ::
    "('d, 'y) device_ops_scheme \<Rightarrow> ('d, 'z) ext4_scheme \<Rightarrow> inode_ref \<Rightarrow> LBlockId \<Rightarrow> nat \<Rightarrow> nat \<Rightarrow> bytes res" where
  "read_extent_or_hole ops fs r iblock block_offset len =
     (case extent_query ops fs r iblock of
        Inr fblock \<Rightarrow> rbind (fs_read_block ops fs fblock) (\<lambda>b. block_read_offset b block_offset len)
      | Inl e \<Rightarrow> if e = Err ENOENT then Inr (replicate len 0) else Inl e)"

text \<open>Whole blocks from a block on, the last one cut short.\<close>

function read_loop ::
    "('d, 'y) device_ops_scheme \<Rightarrow> ('d, 'z) ext4_scheme \<Rightarrow> inode_ref \<Rightarrow> LBlockId \<Rightarrow> nat \<Rightarrow> bytes res" where
  "read_loop ops fs r iblock left =
     (if left = 0 then Inr []
      else
        let read_len = min BLOCK_SIZE left in
        rbind (read_extent_or_hole ops fs r iblock 0 read_len) (\<lambda>bs.
        rbind (add_chk iblock 1) (\<lambda>iblock.
        rbind (read_loop ops fs r iblock (left - read_len)) (\<lambda>rest. Inr (bs @ rest)))))"
  by pat_completeness auto
termination
  by (relation "measure (\<lambda>(ops, fs, r, iblock, left). left)") (auto simp: BLOCK_SIZE_def)

declare read_loop.simps [simp del]

definition read_data ::
    "('d, 'y) device_ops_scheme \<Rightarrow> ('d, 'z) ext4_scheme \<Rightarrow> inode_ref \<Rightarrow> nat \<Rightarrow> nat \<Rightarrow> bytes res" where
  "read_data ops fs r offset read_size =
     (let start = lblock_of offset; misaligned = offset mod BLOCK_SIZE in
      if misaligned > 0 then
        let read_len = min (BLOCK_SIZE - misaligned) read_size in
        rbind (read_extent_or_hole ops fs r start misaligned read_len) (\<lambda>bs.
        rbind (add_chk start 1) (\<lambda>iblock.
        rbind (read_loop ops fs r iblock (read_size - read_len)) (\<lambda>rest. Inr (bs @ rest))))
      else read_loop ops fs r start read_size)"

text \<open>\<^verbatim>\<open>read\<close> with a buffer of the given length.\<close>

definition file_read ::
    "('d, 'y) device_ops_scheme \<Rightarrow> ('d, 'z) ext4_scheme \<Rightarrow> InodeId \<Rightarrow> nat \<Rightarrow> nat \<Rightarrow> ('d, 'z) ext4_scheme \<times> bytes res" where
  "file_read ops fs i offset buf_len =
     sbind (read_inode ops fs i) (\<lambda>fs r.
     let size = unat (inode_size (ir_inode r)) in
     (fs, if \<not> inode_is_file (ir_inode r) then Inl (Err EISDIR)
          else if buf_len = 0 \<or> offset \<ge> size then Inr []
          else read_data ops fs r offset (min buf_len (size - offset))))"

definition readlink ::
    "('d, 'y) device_ops_scheme \<Rightarrow> ('d, 'z) ext4_scheme \<Rightarrow> InodeId \<Rightarrow> nat \<Rightarrow> nat \<Rightarrow> ('d, 'z) ext4_scheme \<times> bytes res" where
  "readlink ops fs i offset buf_len =
     sbind (read_inode ops fs i) (\<lambda>fs r.
     let n = ir_inode r; size = unat (inode_size n) in
     (fs, if \<not> inode_is_softlink n then Inl (Err EINVAL)
          else if buf_len = 0 \<or> offset \<ge> size then Inr []
          else
            rbind (if size \<le> length (i_block n) then rbind (inode_fs_block_count n) (\<lambda>k. Inr (k = 0)) else Inr False) (\<lambda>inline.
            if inline then Inr (slice (i_block n) offset (min buf_len (size - offset)))
            else read_data ops fs r offset (min buf_len (size - offset)))))"

section \<open>Blocks for a write\<close>

definition recompute_inode_block_count ::
    "('d, 'y) device_ops_scheme \<Rightarrow> ('d, 'z) ext4_scheme \<Rightarrow> inode_ref \<Rightarrow> inode_ref res" where
  "recompute_inode_block_count ops fs r =
     rbind (extent_all_data_blocks ops fs r) (\<lambda>data.
     rbind (extent_all_tree_blocks ops fs r) (\<lambda>tree.
     Inr (r\<lparr>ir_inode := inode_set_block_count
       (word_of_nat ((length data + length tree) * (BLOCK_SIZE div INODE_BLOCK_SIZE))) (ir_inode r)\<rparr>)))"

text \<open>One logical block: whether it had to be created.\<close>

definition ensure_block ::
    "('d, 'y) device_ops_scheme \<Rightarrow> ('d, 'z) inode_state \<Rightarrow> LBlockId \<Rightarrow> ('d, 'z) inode_state \<times> bool res" where
  "ensure_block ops s iblock = (case s of (fs, r) \<Rightarrow>
     case extent_query ops fs r iblock of
       Inr _ \<Rightarrow> (s, Inr False)
     | Inl e \<Rightarrow>
         if e \<noteq> Err ENOENT then (s, Inl e)
         else
           sbind (extent_query_or_create ops s iblock 1) (\<lambda>(fs, r) _.
           case extent_query ops fs r iblock of
             Inr _ \<Rightarrow> ((fs, r), Inr True)
           | Inl Panic \<Rightarrow> ((fs, r), Inl Panic)
           | Inl (Err _) \<Rightarrow> ((fs, r), Inl (Err EIO))))"

fun ensure_blocks ::
    "('d, 'y) device_ops_scheme \<Rightarrow> ('d, 'z) inode_state \<Rightarrow> nat list \<Rightarrow> bool \<Rightarrow> ('d, 'z) inode_state \<times> bool res" where
  "ensure_blocks ops s [] changed = (s, Inr changed)"
| "ensure_blocks ops s (i # ns) changed =
     sbind (ensure_block ops s (word_of_nat i)) (\<lambda>s created. ensure_blocks ops s ns (changed \<or> created))"

definition ensure_blocks_for_write_range_locked ::
    "('d, 'y) device_ops_scheme \<Rightarrow> ('d, 'z) inode_state \<Rightarrow> nat \<Rightarrow> nat \<Rightarrow> ('d, 'z) inode_state \<times> unit res" where
  "ensure_blocks_for_write_range_locked ops s offset len =
     (if len = 0 then (s, Inr ())
      else
        sbind (s, ok_or (usize_checked_add offset len) EFBIG) (\<lambda>s ending.
        let first = lblock_of offset; last = lblock_of (ending - 1) in
        if last < first \<or> last - first = -1 then (s, Inl (Err EFBIG))
        else
          sbind (ensure_blocks ops s [unat first..<unat last + 1] False) (\<lambda>(fs, r) changed.
          if \<not> changed then ((fs, r), Inr ())
          else
            sbind ((fs, r), recompute_inode_block_count ops fs r) (\<lambda>(fs, _) r.
            write_inode_with_csum ops fs r))))"

definition allocate_blocks_for_write_range ::
    "('d, 'y) device_ops_scheme \<Rightarrow> ('d, 'z) ext4_scheme \<Rightarrow> InodeId \<Rightarrow> nat \<Rightarrow> nat \<Rightarrow> ('d, 'z) ext4_scheme \<times> unit res" where
  "allocate_blocks_for_write_range ops fs i offset len =
     mutate_direct fs (\<lambda>fs.
     sbind (read_used_inode ops fs i) (\<lambda>fs r.
     case ensure_blocks_for_write_range_locked ops (fs, r) offset len of ((fs, _), x) \<Rightarrow> (fs, x)))"

section \<open>Writing\<close>

text \<open>One piece of the data, inside one block.\<close>

definition patch_block ::
    "('d, 'y) device_ops_scheme \<Rightarrow> ('d, 'z) ext4_scheme \<Rightarrow> PBlockId \<Rightarrow> nat \<Rightarrow> bytes \<Rightarrow> ('d, 'z) ext4_scheme \<times> unit res" where
  "patch_block ops fs fblock block_offset bs = fs_rewrite_block ops fs fblock block_offset bs"

function write_loop ::
    "('d, 'y) device_ops_scheme \<Rightarrow> ('d, 'z) ext4_scheme \<Rightarrow> inode_ref \<Rightarrow> LBlockId \<Rightarrow> nat \<Rightarrow> bytes \<Rightarrow>
     ('d, 'z) ext4_scheme \<times> unit res" where
  "write_loop ops fs r iblock offset data =
     (if data = [] then (fs, Inr ())
      else
        let block_offset = offset mod BLOCK_SIZE; write_len = min (BLOCK_SIZE - block_offset) (length data) in
        sbind (fs, extent_query ops fs r iblock) (\<lambda>fs fblock.
        sbind (patch_block ops fs fblock block_offset (take write_len data)) (\<lambda>fs _.
        sbind (fs, add_chk iblock 1) (\<lambda>fs iblock.
        write_loop ops fs r iblock (offset + write_len) (drop write_len data)))))"
  by pat_completeness auto
termination
  by (relation "measure (\<lambda>(ops, fs, r, iblock, offset, data). length data)") (auto simp: BLOCK_SIZE_def)

declare write_loop.simps [simp del]

definition file_write ::
    "('d, 'y) device_ops_scheme \<Rightarrow> ('d, 'z) ext4_scheme \<Rightarrow> InodeId \<Rightarrow> nat \<Rightarrow> bytes \<Rightarrow> ('d, 'z) ext4_scheme \<times> nat res" where
  "file_write ops fs i offset data =
     mutate_direct fs (\<lambda>fs.
     if data = [] then (fs, Inr 0)
     else
       sbind (read_inode ops fs i) (\<lambda>fs r.
       if \<not> inode_is_file (ir_inode r) then (fs, Inl (Err EISDIR))
       else
         (case ensure_blocks_for_write_range_locked ops (fs, r) offset (length data) of
            ((fs, r), Inl e) \<Rightarrow> (fs, Inl e)
          | ((fs, r), Inr _) \<Rightarrow>
              sbind (write_loop ops fs r (lblock_of offset) offset data) (\<lambda>fs _.
              sbind (fs, ok_or (usize_checked_add offset (length data)) EFBIG) (\<lambda>fs new_end.
              let n = ir_inode r;
                  n = (if new_end > unat (inode_size n) then inode_set_size (word_of_nat new_end) n else n) in
              sbind (save_inode ops fs (r\<lparr>ir_inode := n\<rparr>)) (\<lambda>fs _. (fs, Inr (length data))))))))"

text \<open>\<^verbatim>\<open>write_data_only\<close>: first the places of all pieces, then the writes.\<close>

function data_chunks ::
    "('d, 'y) device_ops_scheme \<Rightarrow> ('d, 'z) ext4_scheme \<Rightarrow> inode_ref \<Rightarrow> LBlockId \<Rightarrow> nat \<Rightarrow> bytes \<Rightarrow>
     (PBlockId \<times> nat \<times> bytes) list res" where
  "data_chunks ops fs r iblock offset data =
     (if data = [] then Inr []
      else
        let block_offset = offset mod BLOCK_SIZE; write_len = min (BLOCK_SIZE - block_offset) (length data) in
        rbind (extent_query ops fs r iblock) (\<lambda>fblock.
        rbind (add_chk iblock 1) (\<lambda>iblock.
        rbind (data_chunks ops fs r iblock (offset + write_len) (drop write_len data)) (\<lambda>chunks.
        Inr ((fblock, block_offset, take write_len data) # chunks)))))"
  by pat_completeness auto
termination
  by (relation "measure (\<lambda>(ops, fs, r, iblock, offset, data). length data)") (auto simp: BLOCK_SIZE_def)

declare data_chunks.simps [simp del]

fun write_chunks ::
    "('d, 'y) device_ops_scheme \<Rightarrow> ('d, 'z) ext4_scheme \<Rightarrow> (PBlockId \<times> nat \<times> bytes) list \<Rightarrow> ('d, 'z) ext4_scheme \<times> unit res" where
  "write_chunks ops fs [] = (fs, Inr ())"
| "write_chunks ops fs ((fblock, block_offset, bs) # cs) =
     sbind (patch_block ops fs fblock block_offset bs) (\<lambda>fs _. write_chunks ops fs cs)"

definition write_data_only ::
    "('d, 'y) device_ops_scheme \<Rightarrow> ('d, 'z) ext4_scheme \<Rightarrow> InodeId \<Rightarrow> nat \<Rightarrow> bytes \<Rightarrow> ('d, 'z) ext4_scheme \<times> nat res" where
  "write_data_only ops fs i offset data =
     mutate_direct fs (\<lambda>fs.
     sbind (read_inode ops fs i) (\<lambda>fs r.
     if \<not> inode_is_file (ir_inode r) then (fs, Inl (Err EISDIR))
     else
       sbind (fs, data_chunks ops fs r (lblock_of offset) offset data) (\<lambda>fs chunks.
       sbind (write_chunks ops fs chunks) (\<lambda>fs _. (fs, Inr (length data))))))"

section \<open>Direct ranges\<close>

definition DIRECT_RANGE_MIN_BLOCKS :: nat where "DIRECT_RANGE_MIN_BLOCKS = 16"
definition DIRECT_RANGE_MAX_BLOCKS :: nat where "DIRECT_RANGE_MAX_BLOCKS = 256"
definition DIRECT_RANGE_ZERO_CHUNK_BLOCKS :: nat where "DIRECT_RANGE_ZERO_CHUNK_BLOCKS = 8"

datatype direct_range_prepare = Handled | Unsupported

record direct_range_plan =
  dp_start_lblock :: LBlockId
  dp_count :: u32
  dp_preferred_first :: "PBlockId option"
  dp_requires_merge :: bool

text \<open>Zeros over the whole range, eight blocks at a time, then a flush.\<close>

function zero_range ::
    "('d, 'y) device_ops_scheme \<Rightarrow> 'd \<Rightarrow> PBlockId \<Rightarrow> nat \<Rightarrow> nat \<Rightarrow> 'd \<times> unit res" where
  "zero_range ops d first done count =
     (if done < count then
        let blocks = min DIRECT_RANGE_ZERO_CHUNK_BLOCKS (count - done) in
        sbind (d, ok_or (checked_add first (word_of_nat done)) EFBIG) (\<lambda>d pblock.
        sbind (write_blocks ops d pblock (replicate (blocks * BLOCK_SIZE) 0)) (\<lambda>d _.
        zero_range ops d first (done + blocks) count))
      else (d, Inr ()))"
  by pat_completeness auto
termination
  by (relation "measure (\<lambda>(ops, d, first, done, count). count - done)") (auto simp: DIRECT_RANGE_ZERO_CHUNK_BLOCKS_def)

declare zero_range.simps [simp del]

definition initialize_direct_range ::
    "('d, 'y) device_ops_scheme \<Rightarrow> ('d, 'z) ext4_scheme \<Rightarrow> PBlockId \<Rightarrow> nat \<Rightarrow> ('d, 'z) ext4_scheme \<times> unit res" where
  "initialize_direct_range ops fs first count =
     (case zero_range ops (fs_device fs) first 0 count of (d, x) \<Rightarrow>
      sbind (fs\<lparr>fs_device := d\<rparr>, x) (\<lambda>fs _. flush_device ops fs))"

definition direct_range_plan_of ::
    "('d, 'z) ext4_scheme \<Rightarrow> inode_ref \<Rightarrow> nat \<Rightarrow> nat \<Rightarrow> direct_range_plan option res" where
  "direct_range_plan_of fs r offset len =
     (if len = 0 then Inr None
      else
        rbind (ok_or (usize_checked_add offset len) EFBIG) (\<lambda>ending.
        let first = offset div BLOCK_SIZE; last = (ending - 1) div BLOCK_SIZE; count = last - first + 1 in
        if first \<ge> 2 ^ 32 \<or> last \<ge> 2 ^ 32 \<or> count \<ge> 2 ^ 32 then Inl (Err EFBIG)
        else if first + count \<ge> 2 ^ 32 \<or> count < DIRECT_RANGE_MIN_BLOCKS \<or> count > DIRECT_RANGE_MAX_BLOCKS then Inr None
        else
          rbind (ok_or (checked_add (inode_size (ir_inode r)) (of_nat BLOCK_SIZE - 1)) EFBIG) (\<lambda>size.
          if first < unat size div BLOCK_SIZE then Inr None
          else
            rbind (direct_append_shape_of fs r (word_of_nat first) (word_of_nat count)) (\<lambda>shape.
            Inr (map_option (\<lambda>shape. \<lparr>dp_start_lblock = word_of_nat first, dp_count = word_of_nat count,
              dp_preferred_first = preferred_first shape, dp_requires_merge = requires_merge shape\<rparr>) shape)))))"

definition fs_commit_direct_range ::
    "('d, 'y) device_ops_scheme \<Rightarrow> ('d, 'z) ext4_scheme \<Rightarrow> transaction \<Rightarrow> PBlockId list \<Rightarrow> PBlockId \<Rightarrow>
     ('d, 'z) ext4_scheme \<times> unit res" where
  "fs_commit_direct_range ops fs tx homes inode_home =
     (case commit_direct_range ops fs_publish (fs_device fs) fs tx homes inode_home of
        (d, c, fs, r) \<Rightarrow>
          let fs = fs\<lparr>fs_device := d, fs_metadata_mode := Mutating c\<rparr> in
          (case r of
             Inr _ \<Rightarrow> (fs, Inr ())
           | Inl (CommitError e failure) \<Rightarrow> (if failure \<noteq> BeforeCommit then fs_poison EIO fs else fs, Inl (Err e))
           | Inl CommitPanic \<Rightarrow> (fs, Inl Panic)))"

text \<open>The staged inode and the commit; an error before it drops the transaction.\<close>

definition publish_direct_range ::
    "('d, 'y) device_ops_scheme \<Rightarrow> ('d, 'z) ext4_scheme \<Rightarrow> transaction \<Rightarrow> inode_ref \<Rightarrow> direct_range_plan \<Rightarrow>
     direct_range_allocation \<Rightarrow> ('d, 'z) ext4_scheme \<times> unit res" where
  "publish_direct_range ops fs tx r plan a =
     (case stage_direct_append_extent r (dp_start_lblock plan) (ra_first a) (dp_count plan) of
        (_, Inl e) \<Rightarrow> (drop_transaction fs tx, Inl e)
      | (r, Inr _) \<Rightarrow>
          (case inode_disk_pos fs (ir_id r) of
             Inl e \<Rightarrow> (drop_transaction fs tx, Inl e)
           | Inr (inode_home, _) \<Rightarrow>
               (case transaction_stage_inode_with_csum ops fs tx r of
                  ((tx, _), Inl e) \<Rightarrow> (drop_transaction fs tx, Inl e)
                | ((tx, _), Inr _) \<Rightarrow> fs_commit_direct_range ops fs tx (ra_allocation_homes a) inode_home)))"

definition try_prepare_direct_range ::
    "('d, 'y) device_ops_scheme \<Rightarrow> ('d, 'z) ext4_scheme \<Rightarrow> inode_ref \<Rightarrow> nat \<Rightarrow> nat \<Rightarrow>
     ('d, 'z) ext4_scheme \<times> direct_range_prepare res" where
  "try_prepare_direct_range ops fs r offset len =
     (if len = 0 then (fs, Inr Handled)
      else
        sbind (fs, direct_range_plan_of fs r offset len) (\<lambda>fs plan. case plan of
          None \<Rightarrow> (fs, Inr Unsupported)
        | Some plan \<Rightarrow>
            sbind (transaction_start_direct_range fs 4) (\<lambda>fs tx.
            case transaction_alloc_direct_range ops fs tx (ir_id r) (dp_preferred_first plan) (dp_requires_merge plan)
                   (dp_count plan) of
              (tx, Inl e) \<Rightarrow> (drop_transaction fs tx, if e = Err ENOSPC then Inr Unsupported else Inl e)
            | (tx, Inr a) \<Rightarrow>
                (case initialize_direct_range ops fs (ra_first a) (unat (dp_count plan)) of
                   (fs, Inl e) \<Rightarrow> (drop_transaction fs tx, if e = Err ENOMEM then Inr Unsupported else Inl e)
                 | (fs, Inr _) \<Rightarrow> sbind (publish_direct_range ops fs tx r plan a) (\<lambda>fs _. (fs, Inr Handled))))))"

text \<open>The request is classified under the shared guard; only a direct range takes the exclusive one.\<close>

definition prepare_buffered_write ::
    "('d, 'y) device_ops_scheme \<Rightarrow> ('d, 'z) ext4_scheme \<Rightarrow> InodeId \<Rightarrow> nat \<Rightarrow> nat \<Rightarrow> ('d, 'z) ext4_scheme \<times> unit res" where
  "prepare_buffered_write ops fs i offset len =
     (let ensure = \<lambda>fs r. case ensure_blocks_for_write_range_locked ops (fs, r) offset len of ((fs, _), x) \<Rightarrow> (fs, x) in
      sbind (fs, ensure_mutable fs) (\<lambda>fs _.
      sbind (if supports_direct_range_stage ops fs then
               sbind (with_direct_guard fs (\<lambda>fs.
                      sbind (read_used_inode ops fs i) (\<lambda>fs r.
                      sbind (fs, direct_range_plan_of fs r offset len) (\<lambda>fs plan.
                      if plan = None then sbind (ensure fs r) (\<lambda>fs _. (fs, Inr True)) else (fs, Inr False))))) (\<lambda>fs done.
               if done then (fs, Inr True)
               else
                 with_transactional_guard fs (\<lambda>fs.
                 sbind (read_used_inode ops fs i) (\<lambda>fs r.
                 sbind (try_prepare_direct_range ops fs r offset len) (\<lambda>fs outcome. (fs, Inr (outcome = Handled))))))
             else (fs, Inr False)) (\<lambda>fs done.
      if done then (fs, Inr ())
      else with_direct_guard fs (\<lambda>fs. sbind (read_used_inode ops fs i) (\<lambda>fs r. ensure fs r)))))"

end
