(* ===== verification/Namespace.thy ===== *)
theory Namespace
  imports Link File_Data
begin

text \<open>
  The name space: creating, linking, unlinking, renaming and exchanging names, making and removing directories, looking
  names up (\<^verbatim>\<open>src/ext4/low_level.rs\<close>). The locks of the name space and of single inodes have no counterpart, since the
  model has one caller at a time; the second reads under these locks are kept. The walk to the root that guards the
  moves of directories follows the entries \<^verbatim>\<open>..\<close> on the disk and ends only if they do: it is a partial function, and
  so are the two operations that use it.
\<close>

record inode_owner =
  ow_uid :: u32
  ow_gid :: u32

definition root_owner :: inode_owner where
  "root_owner = \<lparr>ow_uid = 0, ow_gid = 0\<rparr>"

text \<open>An inode that must be a directory.\<close>

definition read_dir_inode ::
    "('d, 'y) device_ops_scheme \<Rightarrow> ('d, 'z) ext4_scheme \<Rightarrow> InodeId \<Rightarrow> ('d, 'z) ext4_scheme \<times> inode_ref res" where
  "read_dir_inode ops fs i =
     sbind (read_inode ops fs i) (\<lambda>fs r.
     (fs, if inode_is_dir (ir_inode r) then Inr r else Inl (Err ENOTDIR)))"

section \<open>New names\<close>

definition link_new_inode_or_free ::
    "('d, 'y) device_ops_scheme \<Rightarrow> ('d, 'z) link_state \<Rightarrow> bytes \<Rightarrow> ('d, 'z) ext4_scheme \<times> inode_ref res" where
  "link_new_inode_or_free ops s name =
     (case link_inode ops s name False of
        ((fs, _, child), Inr _) \<Rightarrow> (fs, Inr child)
      | ((fs, _, child), Inl Panic) \<Rightarrow> (fs, Inl Panic)
      | ((fs, _, child), Inl (Err e)) \<Rightarrow> sbind (free_inode ops fs child) (\<lambda>fs _. (fs, Inl (Err e))))"

definition create_with_owner_and_attr ::
    "('d, 'y) device_ops_scheme \<Rightarrow> ('d, 'z) ext4_scheme \<Rightarrow> InodeId \<Rightarrow> bytes \<Rightarrow> InodeMode \<Rightarrow> inode_owner \<Rightarrow>
     ('d, 'z) ext4_scheme \<times> file_attr res" where
  "create_with_owner_and_attr ops fs parent name mode ow =
     mutate_direct fs (\<lambda>fs.
     sbind (read_dir_inode ops fs parent) (\<lambda>fs parent.
     sbind (create_inode_with_owner ops fs mode (ow_uid ow) (ow_gid ow)) (\<lambda>fs child.
     sbind (link_new_inode_or_free ops (fs, parent, child) name) (\<lambda>fs child.
     (fs, Inr (file_attr_of child))))))"

definition create_with_owner ::
    "('d, 'y) device_ops_scheme \<Rightarrow> ('d, 'z) ext4_scheme \<Rightarrow> InodeId \<Rightarrow> bytes \<Rightarrow> InodeMode \<Rightarrow> inode_owner \<Rightarrow>
     ('d, 'z) ext4_scheme \<times> InodeId res" where
  "create_with_owner ops fs parent name mode ow =
     sbind (create_with_owner_and_attr ops fs parent name mode ow) (\<lambda>fs a. (fs, Inr (fa_ino a)))"

definition create ::
    "('d, 'y) device_ops_scheme \<Rightarrow> ('d, 'z) ext4_scheme \<Rightarrow> InodeId \<Rightarrow> bytes \<Rightarrow> InodeMode \<Rightarrow> ('d, 'z) ext4_scheme \<times> InodeId res" where
  "create ops fs parent name mode = create_with_owner ops fs parent name mode root_owner"

definition mknod_with_owner_and_attr ::
    "('d, 'y) device_ops_scheme \<Rightarrow> ('d, 'z) ext4_scheme \<Rightarrow> InodeId \<Rightarrow> bytes \<Rightarrow> InodeMode \<Rightarrow> u32 \<Rightarrow> u32 \<Rightarrow> inode_owner \<Rightarrow>
     ('d, 'z) ext4_scheme \<times> file_attr res" where
  "mknod_with_owner_and_attr ops fs parent name mode major minor ow =
     mutate_direct fs (\<lambda>fs.
     sbind (read_dir_inode ops fs parent) (\<lambda>fs parent.
     sbind (create_device_inode ops fs mode major minor (ow_uid ow) (ow_gid ow)) (\<lambda>fs child.
     sbind (link_new_inode_or_free ops (fs, parent, child) name) (\<lambda>fs child.
     (fs, Inr (file_attr_of child))))))"

definition mknod_with_owner ::
    "('d, 'y) device_ops_scheme \<Rightarrow> ('d, 'z) ext4_scheme \<Rightarrow> InodeId \<Rightarrow> bytes \<Rightarrow> InodeMode \<Rightarrow> u32 \<Rightarrow> u32 \<Rightarrow> inode_owner \<Rightarrow>
     ('d, 'z) ext4_scheme \<times> InodeId res" where
  "mknod_with_owner ops fs parent name mode major minor ow =
     sbind (mknod_with_owner_and_attr ops fs parent name mode major minor ow) (\<lambda>fs a. (fs, Inr (fa_ino a)))"

definition mknod ::
    "('d, 'y) device_ops_scheme \<Rightarrow> ('d, 'z) ext4_scheme \<Rightarrow> InodeId \<Rightarrow> bytes \<Rightarrow> InodeMode \<Rightarrow> u32 \<Rightarrow> u32 \<Rightarrow>
     ('d, 'z) ext4_scheme \<times> InodeId res" where
  "mknod ops fs parent name mode major minor = mknod_with_owner ops fs parent name mode major minor root_owner"

definition mkdir_with_owner_and_attr ::
    "('d, 'y) device_ops_scheme \<Rightarrow> ('d, 'z) ext4_scheme \<Rightarrow> InodeId \<Rightarrow> bytes \<Rightarrow> InodeMode \<Rightarrow> inode_owner \<Rightarrow>
     ('d, 'z) ext4_scheme \<times> file_attr res" where
  "mkdir_with_owner_and_attr ops fs parent name mode ow =
     mutate_direct fs (\<lambda>fs.
     sbind (read_dir_inode ops fs parent) (\<lambda>fs parent.
     sbind (create_inode_with_owner ops fs (mode AND PERM_MASK OR mode_of_type Directory) (ow_uid ow) (ow_gid ow)) (\<lambda>fs child.
     case dir_add_entry ops (fs, child) child dot of
       ((fs, child), Inl e) \<Rightarrow>
         (case free_inode ops fs child of (fs, x) \<Rightarrow> (if is_ok x then fs else fs_poison EIO fs, Inl e))
     | ((fs, child), Inr _) \<Rightarrow>
         sbind (link_new_inode_or_free ops (fs, parent, set_link_count 1 child) name) (\<lambda>fs child.
         (fs, Inr (file_attr_of child))))))"

definition mkdir_with_owner ::
    "('d, 'y) device_ops_scheme \<Rightarrow> ('d, 'z) ext4_scheme \<Rightarrow> InodeId \<Rightarrow> bytes \<Rightarrow> InodeMode \<Rightarrow> inode_owner \<Rightarrow>
     ('d, 'z) ext4_scheme \<times> InodeId res" where
  "mkdir_with_owner ops fs parent name mode ow =
     sbind (mkdir_with_owner_and_attr ops fs parent name mode ow) (\<lambda>fs a. (fs, Inr (fa_ino a)))"

definition mkdir ::
    "('d, 'y) device_ops_scheme \<Rightarrow> ('d, 'z) ext4_scheme \<Rightarrow> InodeId \<Rightarrow> bytes \<Rightarrow> InodeMode \<Rightarrow> ('d, 'z) ext4_scheme \<times> InodeId res" where
  "mkdir ops fs parent name mode = mkdir_with_owner ops fs parent name mode root_owner"

definition hard_link ::
    "('d, 'y) device_ops_scheme \<Rightarrow> ('d, 'z) ext4_scheme \<Rightarrow> InodeId \<Rightarrow> InodeId \<Rightarrow> bytes \<Rightarrow> ('d, 'z) ext4_scheme \<times> unit res" where
  "hard_link ops fs child parent name =
     mutate_transactional fs (\<lambda>fs.
     sbind (read_dir_inode ops fs parent) (\<lambda>fs parent.
     sbind (read_inode ops fs child) (\<lambda>fs child.
     if inode_is_dir (ir_inode child) then (fs, Inl (Err EISDIR))
     else (case link_inode ops (fs, parent, child) name True of ((fs, _, _), x) \<Rightarrow> (fs, x)))))"

section \<open>Lookup and removal\<close>

definition lookup_name ::
    "('d, 'y) device_ops_scheme \<Rightarrow> ('d, 'z) ext4_scheme \<Rightarrow> InodeId \<Rightarrow> bytes \<Rightarrow> ('d, 'z) ext4_scheme \<times> InodeId res" where
  "lookup_name ops fs parent name =
     sbind (read_dir_inode ops fs parent) (\<lambda>fs parent. (fs, dir_find_entry ops fs parent name))"

definition listdir ::
    "('d, 'y) device_ops_scheme \<Rightarrow> ('d, 'z) ext4_scheme \<Rightarrow> InodeId \<Rightarrow> ('d, 'z) ext4_scheme \<times> dir_entry list res" where
  "listdir ops fs i =
     sbind (read_inode ops fs i) (\<lambda>fs r.
     (fs, if inode_file_type (ir_inode r) \<noteq> Directory then Inl (Err ENOTDIR) else dir_list_entries ops fs r))"

text \<open>The child of a name, looked up before and after the locks are taken.\<close>

definition read_named_child ::
    "('d, 'y) device_ops_scheme \<Rightarrow> ('d, 'z) ext4_scheme \<Rightarrow> InodeId \<Rightarrow> bytes \<Rightarrow>
     ('d, 'z) ext4_scheme \<times> (inode_ref \<times> inode_ref) res" where
  "read_named_child ops fs parent name =
     sbind (read_dir_inode ops fs parent) (\<lambda>fs parent_ref.
     sbind (fs, dir_find_entry ops fs parent_ref name) (\<lambda>fs child_id.
     sbind (read_inode ops fs parent) (\<lambda>fs parent_ref.
     sbind (fs, dir_find_entry ops fs parent_ref name) (\<lambda>fs again.
     if again \<noteq> child_id then (fs, Inl (Err ENOENT))
     else sbind (read_inode ops fs child_id) (\<lambda>fs child. (fs, Inr (parent_ref, child)))))))"

definition unlink_name ::
    "('d, 'y) device_ops_scheme \<Rightarrow> ('d, 'z) ext4_scheme \<Rightarrow> InodeId \<Rightarrow> bytes \<Rightarrow>
     ('d, 'z) ext4_scheme \<times> inode_reclaim_handle option res" where
  "unlink_name ops fs parent name =
     mutate_transactional fs (\<lambda>fs.
     sbind (read_named_child ops fs parent name) (\<lambda>fs (parent, child).
     if inode_is_dir (ir_inode child) then (fs, Inl (Err EISDIR))
     else unlink_inode ops fs parent child name))"

definition rmdir ::
    "('d, 'y) device_ops_scheme \<Rightarrow> ('d, 'z) ext4_scheme \<Rightarrow> InodeId \<Rightarrow> bytes \<Rightarrow>
     ('d, 'z) ext4_scheme \<times> inode_reclaim_handle option res" where
  "rmdir ops fs parent name =
     mutate_transactional fs (\<lambda>fs.
     sbind (read_named_child ops fs parent name) (\<lambda>fs (parent, child).
     if \<not> inode_is_dir (ir_inode child) then (fs, Inl (Err ENOTDIR))
     else
       sbind (fs, dir_list_entries ops fs child) (\<lambda>fs entries.
       if length entries > 2 then (fs, Inl (Err ENOTEMPTY))
       else unlink_inode ops fs parent child name)))"

section \<open>Moves\<close>

text \<open>The two directories; the second only when it is another one.\<close>

type_synonym rename_dirs = "inode_ref \<times> inode_ref option"

definition target_of :: "rename_dirs \<Rightarrow> inode_ref" where
  "target_of dirs = (case snd dirs of None \<Rightarrow> fst dirs | Some d \<Rightarrow> d)"

definition set_target :: "inode_ref \<Rightarrow> rename_dirs \<Rightarrow> rename_dirs" where
  "set_target r dirs = (case snd dirs of None \<Rightarrow> (r, None) | Some _ \<Rightarrow> (fst dirs, Some r))"

definition read_rename_dirs ::
    "('d, 'y) device_ops_scheme \<Rightarrow> ('d, 'z) ext4_scheme \<Rightarrow> InodeId \<Rightarrow> InodeId \<Rightarrow> ('d, 'z) ext4_scheme \<times> rename_dirs res" where
  "read_rename_dirs ops fs parent new_parent =
     sbind (read_dir_inode ops fs parent) (\<lambda>fs p.
     if parent = new_parent then (fs, Inr (p, None))
     else sbind (read_dir_inode ops fs new_parent) (\<lambda>fs np. (fs, Inr (p, Some np))))"

definition reread_rename_dirs ::
    "('d, 'y) device_ops_scheme \<Rightarrow> ('d, 'z) ext4_scheme \<Rightarrow> InodeId \<Rightarrow> InodeId \<Rightarrow> ('d, 'z) ext4_scheme \<times> rename_dirs res" where
  "reread_rename_dirs ops fs parent new_parent =
     sbind (read_inode ops fs parent) (\<lambda>fs p.
     if parent = new_parent then (fs, Inr (p, None))
     else sbind (read_inode ops fs new_parent) (\<lambda>fs np. (fs, Inr (p, Some np))))"

text \<open>From the target up to the root, or to a directory whose parent cannot be found.\<close>

partial_function (option) check_ancestor_cycle ::
    "('d, 'y) device_ops_scheme \<Rightarrow> ('d, 'z) ext4_scheme \<Rightarrow> InodeId \<Rightarrow> InodeId \<Rightarrow> (('d, 'z) ext4_scheme \<times> unit res) option" where
  "check_ancestor_cycle ops fs dir_inode cur =
     (if cur = dir_inode then Some (fs, Inl (Err EINVAL))
      else if cur = EXT4_ROOT_INO then Some (fs, Inr ())
      else (case read_inode ops fs cur of
          (fs, Inl e) \<Rightarrow> Some (fs, Inl e)
        | (fs, Inr r) \<Rightarrow> (case dir_find_entry ops fs r dot_dot of
              Inr parent_id \<Rightarrow>
                if parent_id \<noteq> cur then check_ancestor_cycle ops fs dir_inode parent_id else Some (fs, Inr ())
            | Inl (Err _) \<Rightarrow> Some (fs, Inr ())
            | Inl Panic \<Rightarrow> Some (fs, Inl Panic))))"

definition rename_credits :: "bool \<Rightarrow> bool \<Rightarrow> bool \<Rightarrow> bool \<Rightarrow> nat" where
  "rename_credits dir_moves existing_is_dir final_target journaled =
     3 + (if dir_moves then 3 else 0) + (if existing_is_dir \<and> \<not> dir_moves then 1 else 0) +
     (if final_target \<and> journaled then 1 else 0)"

text \<open>An inode with a new count of links, staged; the result is the inode with its checksum.\<close>

definition stage_links ::
    "('d, 'y) device_ops_scheme \<Rightarrow> ('d, 'z) ext4_scheme \<Rightarrow> transaction \<Rightarrow> inode_ref \<Rightarrow> u16 \<Rightarrow> transaction \<times> inode_ref res" where
  "stage_links ops fs tx r n =
     (case transaction_stage_inode_with_csum ops fs tx (set_link_count n r) of
        ((tx, r), x) \<Rightarrow> (tx, rbind x (\<lambda>_. Inr r)))"

definition stage_moved_dir ::
    "('d, 'y) device_ops_scheme \<Rightarrow> ('d, 'z) ext4_scheme \<Rightarrow> transaction \<Rightarrow> inode_ref \<Rightarrow> InodeId \<Rightarrow> rename_dirs \<Rightarrow>
     transaction \<times> unit res" where
  "stage_moved_dir ops fs tx child new_parent dirs =
     sbind (transaction_dir_replace_entry ops fs tx child dot_dot new_parent Directory) (\<lambda>tx _.
     sbind (tx, sub_chk (i_link_count (ir_inode (fst dirs))) 1) (\<lambda>tx n.
     sbind (stage_links ops fs tx (fst dirs) n) (\<lambda>tx _.
     case snd dirs of
       None \<Rightarrow> (tx, Inl (Err EINVAL))
     | Some np \<Rightarrow>
         sbind (tx, add_chk (i_link_count (ir_inode np)) 1) (\<lambda>tx n.
         sbind (stage_links ops fs tx np n) (\<lambda>tx _. (tx, Inr ()))))))"

text \<open>The replacing rename: the new entry, the old one, the moved directory and the replaced inode in one transaction.\<close>

definition replace_body ::
    "('d, 'y) device_ops_scheme \<Rightarrow> bool \<Rightarrow> InodeId \<Rightarrow> bytes \<Rightarrow> bytes \<Rightarrow> rename_dirs \<Rightarrow> inode_ref \<Rightarrow> inode_ref \<Rightarrow>
     ('d, 'z) ext4_scheme \<Rightarrow> transaction \<Rightarrow> transaction \<times> bool res" where
  "replace_body ops dir_moves new_parent name new_name dirs child existing fs tx =
     (let target = target_of dirs; existing_is_dir = inode_is_dir (ir_inode existing);
          links = i_link_count (ir_inode existing) in
      sbind (transaction_dir_replace_entry ops fs tx target new_name (ir_id child) (inode_file_type (ir_inode child))) (\<lambda>tx _.
      sbind (if existing_is_dir then
               sbind (tx, sub_chk (i_link_count (ir_inode target)) 1) (\<lambda>tx n.
               sbind (stage_links ops fs tx target n) (\<lambda>tx target. (tx, Inr (set_target target dirs))))
             else (tx, Inr dirs)) (\<lambda>tx dirs.
      sbind (transaction_dir_remove_entry ops fs tx (fst dirs) name) (\<lambda>tx _.
      sbind (if dir_moves then stage_moved_dir ops fs tx child new_parent dirs else (tx, Inr ())) (\<lambda>tx _.
      sbind (if namespace_removal_is_final existing_is_dir links then stage_unlinked ops fs tx existing
             else sbind (tx, sub_chk links 1) (\<lambda>tx n. stage_ref ops fs tx (set_link_count n existing))) (\<lambda>tx _.
      (tx, Inr True)))))))"

definition replace_compatible ::
    "('d, 'y) device_ops_scheme \<Rightarrow> ('d, 'z) ext4_scheme \<Rightarrow> bool \<Rightarrow> inode_ref \<Rightarrow> unit res" where
  "replace_compatible ops fs child_is_dir existing =
     (let existing_is_dir = inode_is_dir (ir_inode existing) in
      if child_is_dir \<and> \<not> existing_is_dir then Inl (Err ENOTDIR)
      else if \<not> child_is_dir \<and> existing_is_dir then Inl (Err EISDIR)
      else if existing_is_dir then rbind (dir_is_empty ops fs existing) (\<lambda>empty. guard empty (Err ENOTEMPTY))
      else Inr ())"

definition rename_replace ::
    "('d, 'y) device_ops_scheme \<Rightarrow> ('d, 'z) ext4_scheme \<Rightarrow> bool \<Rightarrow> InodeId \<Rightarrow> InodeId \<Rightarrow> bytes \<Rightarrow> bytes \<Rightarrow> rename_dirs \<Rightarrow>
     inode_ref \<Rightarrow> InodeId \<Rightarrow> ('d, 'z) ext4_scheme \<times> inode_reclaim_handle option res" where
  "rename_replace ops fs child_is_dir parent new_parent name new_name dirs child existing_id =
     sbind (read_inode ops fs existing_id) (\<lambda>fs existing.
     sbind (fs, replace_compatible ops fs child_is_dir existing) (\<lambda>fs _.
     let existing_is_dir = inode_is_dir (ir_inode existing); dir_moves = (child_is_dir \<and> parent \<noteq> new_parent);
         final_target = namespace_removal_is_final existing_is_dir (i_link_count (ir_inode existing)) in
     sbind (run_transaction ops fs (rename_credits dir_moves existing_is_dir final_target (uses_journal fs))
              (replace_body ops dir_moves new_parent name new_name dirs child existing)) (\<lambda>fs _.
     (fs, Inr (if final_target then Some (handle_of existing) else None)))))"

text \<open>The steps of a move without a transaction; an error of one poisons the file system.\<close>

definition poisoned :: "('d, 'z) ext4_scheme \<times> 'a res \<Rightarrow> ('d, 'z) ext4_scheme \<times> 'a res" where
  "poisoned m = poison_on_error (fst m) (snd m)"

definition write_links ::
    "('d, 'y) device_ops_scheme \<Rightarrow> ('d, 'z) ext4_scheme \<Rightarrow> inode_ref \<Rightarrow> u16 \<Rightarrow> ('d, 'z) ext4_scheme \<times> inode_ref res" where
  "write_links ops fs r n =
     (case poisoned_inode (write_inode_with_csum ops fs (set_link_count n r)) of
        ((fs, r), x) \<Rightarrow> (fs, rbind x (\<lambda>_. Inr r)))"

text \<open>A directory that has moved: its entry \<^verbatim>\<open>..\<close>, the count of the parent it left and of the one it came to.\<close>

definition write_moved_dir ::
    "('d, 'y) device_ops_scheme \<Rightarrow> ('d, 'z) ext4_scheme \<Rightarrow> inode_ref \<Rightarrow> InodeId \<Rightarrow> inode_ref \<Rightarrow> inode_ref \<Rightarrow>
     ('d, 'z) ext4_scheme \<times> (inode_ref \<times> inode_ref) res" where
  "write_moved_dir ops fs child new_parent left_dir new_dir =
     sbind (poisoned (dir_replace_entry ops fs child dot_dot new_parent Directory)) (\<lambda>fs _.
     sbind (fs, sub_chk (i_link_count (ir_inode left_dir)) 1) (\<lambda>fs n.
     sbind (write_links ops fs left_dir n) (\<lambda>fs left_dir.
     sbind (fs, add_chk (i_link_count (ir_inode new_dir)) 1) (\<lambda>fs n.
     sbind (write_links ops fs new_dir n) (\<lambda>fs new_dir.
     (fs, Inr (left_dir, new_dir)))))))"

definition rename_simple ::
    "('d, 'y) device_ops_scheme \<Rightarrow> ('d, 'z) ext4_scheme \<Rightarrow> bool \<Rightarrow> InodeId \<Rightarrow> InodeId \<Rightarrow> bytes \<Rightarrow> bytes \<Rightarrow> rename_dirs \<Rightarrow>
     inode_ref \<Rightarrow> ('d, 'z) ext4_scheme \<times> inode_reclaim_handle option res" where
  "rename_simple ops fs child_is_dir parent new_parent name new_name dirs child =
     (case dir_add_entry_classified ops (fs, target_of dirs) child new_name of
        ((fs, _), Inl (Unmodified e)) \<Rightarrow> (fs, Inl e)
      | ((fs, _), Inl (Indeterminate e)) \<Rightarrow> (fs_poison EIO fs, Inl e)
      | ((fs, target), Inr _) \<Rightarrow>
          let dirs = set_target target dirs in
          sbind (poisoned (dir_remove_entry ops fs (fst dirs) name)) (\<lambda>fs _.
          sbind (if child_is_dir \<and> parent \<noteq> new_parent then
                   (case snd dirs of
                      Some np \<Rightarrow> sbind (write_moved_dir ops fs child new_parent (fst dirs) np) (\<lambda>fs _. (fs, Inr ()))
                    | None \<Rightarrow> (fs, Inl (Err EINVAL)))
                 else (fs, Inr ())) (\<lambda>fs _.
          (fs, Inr None))))"

text \<open>\<^verbatim>\<open>Result::ok\<close>: an error is an absent value, a panic is not caught.\<close>

definition ok_of :: "'a res \<Rightarrow> 'a option res" where
  "ok_of r = (case r of Inr x \<Rightarrow> Inr (Some x) | Inl (Err _) \<Rightarrow> Inr None | Inl Panic \<Rightarrow> Inl Panic)"

definition rename_entry ::
    "('d, 'y) device_ops_scheme \<Rightarrow> ('d, 'z) ext4_scheme \<Rightarrow> InodeId \<Rightarrow> bytes \<Rightarrow> InodeId \<Rightarrow> bytes \<Rightarrow> rename_dirs \<Rightarrow>
     InodeId \<Rightarrow> bool \<Rightarrow> ('d, 'z) ext4_scheme \<times> inode_reclaim_handle option res" where
  "rename_entry ops fs parent name new_parent new_name dirs child_id child_is_dir =
     sbind (fs, ok_of (dir_find_entry ops fs (target_of dirs) new_name)) (\<lambda>fs existing.
     sbind (reread_rename_dirs ops fs parent new_parent) (\<lambda>fs dirs.
     sbind (read_inode ops fs child_id) (\<lambda>fs child.
     case existing of
       Some existing_id \<Rightarrow>
         if existing_id = child_id then (fs, Inr None)
         else rename_replace ops fs child_is_dir parent new_parent name new_name dirs child existing_id
     | None \<Rightarrow> rename_simple ops fs child_is_dir parent new_parent name new_name dirs child)))"

text \<open>A guard around a body that may not return.\<close>

definition guarded ::
    "(('d, 'z) ext4_scheme \<Rightarrow> ('d, 'z) ext4_scheme \<times> metadata_guard res) \<Rightarrow> ('d, 'z) ext4_scheme \<Rightarrow>
     (('d, 'z) ext4_scheme \<Rightarrow> (('d, 'z) ext4_scheme \<times> 'a res) option) \<Rightarrow> (('d, 'z) ext4_scheme \<times> 'a res) option" where
  "guarded acquire fs body =
     (case sbind (fs, ensure_mutable fs) (\<lambda>fs _. acquire fs) of
        (fs, Inl e) \<Rightarrow> Some (fs, Inl e)
      | (fs, Inr g) \<Rightarrow> map_option (unlock_metadata_mutation g) (body fs))"

definition rename ::
    "('d, 'y) device_ops_scheme \<Rightarrow> ('d, 'z) ext4_scheme \<Rightarrow> InodeId \<Rightarrow> bytes \<Rightarrow> InodeId \<Rightarrow> bytes \<Rightarrow>
     (('d, 'z) ext4_scheme \<times> inode_reclaim_handle option res) option" where
  "rename ops fs parent name new_parent new_name =
     guarded lock_transactional_metadata_mutation fs (\<lambda>fs.
     case sbind (read_rename_dirs ops fs parent new_parent) (\<lambda>fs dirs.
          sbind (fs, dir_find_entry ops fs (fst dirs) name) (\<lambda>fs child_id.
          sbind (read_inode ops fs child_id) (\<lambda>fs child.
          (fs, Inr (dirs, child_id, inode_is_dir (ir_inode child)))))) of
       (fs, Inl e) \<Rightarrow> Some (fs, Inl e)
     | (fs, Inr (dirs, child_id, child_is_dir)) \<Rightarrow>
         map_option (\<lambda>m. sbind m (\<lambda>fs _. rename_entry ops fs parent name new_parent new_name dirs child_id child_is_dir))
           (if child_is_dir \<and> parent \<noteq> new_parent then check_ancestor_cycle ops fs child_id new_parent
            else Some (fs, Inr ())))"

section \<open>Exchange\<close>

definition exchange_parents ::
    "('d, 'y) device_ops_scheme \<Rightarrow> ('d, 'z) ext4_scheme \<Rightarrow> InodeId \<Rightarrow> InodeId \<Rightarrow> rename_dirs \<Rightarrow> inode_ref \<Rightarrow> inode_ref \<Rightarrow>
     ('d, 'z) ext4_scheme \<times> unit res" where
  "exchange_parents ops fs parent new_parent dirs old new =
     (case dirs of
        (_, None) \<Rightarrow> (fs, Inl (Err EINVAL))
      | (p, Some np) \<Rightarrow>
          sbind (if inode_is_dir (ir_inode old) then write_moved_dir ops fs old new_parent p np
                 else (fs, Inr (p, np))) (\<lambda>fs (p, np).
          sbind (if inode_is_dir (ir_inode new) then write_moved_dir ops fs new parent np p
                 else (fs, Inr (np, p))) (\<lambda>fs _.
          (fs, Inr ()))))"

definition exchange_entries ::
    "('d, 'y) device_ops_scheme \<Rightarrow> ('d, 'z) ext4_scheme \<Rightarrow> InodeId \<Rightarrow> bytes \<Rightarrow> InodeId \<Rightarrow> bytes \<Rightarrow> rename_dirs \<Rightarrow>
     inode_ref \<Rightarrow> InodeId \<Rightarrow> inode_ref \<Rightarrow> InodeId \<Rightarrow> ('d, 'z) ext4_scheme \<times> unit res" where
  "exchange_entries ops fs parent name new_parent new_name dirs old old_id new new_id =
     sbind (poisoned (dir_replace_entry ops fs (fst dirs) name new_id (inode_file_type (ir_inode new)))) (\<lambda>fs _.
     sbind (poisoned (dir_replace_entry ops fs (target_of dirs) new_name old_id (inode_file_type (ir_inode old)))) (\<lambda>fs _.
     if parent = new_parent then (fs, Inr ()) else exchange_parents ops fs parent new_parent dirs old new))"

definition rename_exchange ::
    "('d, 'y) device_ops_scheme \<Rightarrow> ('d, 'z) ext4_scheme \<Rightarrow> InodeId \<Rightarrow> bytes \<Rightarrow> InodeId \<Rightarrow> bytes \<Rightarrow>
     (('d, 'z) ext4_scheme \<times> unit res) option" where
  "rename_exchange ops fs parent name new_parent new_name =
     guarded lock_direct_metadata_mutation fs (\<lambda>fs.
     case sbind (read_rename_dirs ops fs parent new_parent) (\<lambda>fs dirs.
          sbind (fs, dir_find_entry ops fs (fst dirs) name) (\<lambda>fs old_id.
          sbind (fs, dir_find_entry ops fs (target_of dirs) new_name) (\<lambda>fs new_id.
          sbind (reread_rename_dirs ops fs parent new_parent) (\<lambda>fs dirs.
          sbind (read_inode ops fs old_id) (\<lambda>fs old.
          sbind (read_inode ops fs new_id) (\<lambda>fs new.
          (fs, Inr (dirs, old, old_id, new, new_id)))))))) of
       (fs, Inl e) \<Rightarrow> Some (fs, Inl e)
     | (fs, Inr (dirs, old, old_id, new, new_id)) \<Rightarrow>
         if old_id = new_id then Some (fs, Inr ())
         else
           Option.bind (if parent \<noteq> new_parent \<and> inode_is_dir (ir_inode old) then check_ancestor_cycle ops fs old_id new_parent
                        else Some (fs, Inr ())) (\<lambda>m. case m of
             (fs, Inl e) \<Rightarrow> Some (fs, Inl e)
           | (fs, Inr _) \<Rightarrow>
               map_option (\<lambda>m. sbind m (\<lambda>fs _.
                   exchange_entries ops fs parent name new_parent new_name dirs old old_id new new_id))
                 (if parent \<noteq> new_parent \<and> inode_is_dir (ir_inode new) then check_ancestor_cycle ops fs new_id parent
                  else Some (fs, Inr ()))))"

end
