(* ===== verification/Xattr_Ops.thy ===== *)
theory Xattr_Ops
  imports File_Data Xattr_Block
begin

text \<open>
  The extended attributes of an inode, all in one external block (\<^verbatim>\<open>src/ext4/low_level.rs\<close>).
\<close>

definition xattr_checksum_seed :: "('d, 'z) ext4_scheme \<Rightarrow> MetadataChecksumSeed option" where
  "xattr_checksum_seed fs =
     (let sb = fs_cached_super_block fs in
      if has_read_only_compatible_feature sb FEATURE_RO_COMPAT_METADATA_CSUM then Some (metadata_checksum_seed sb) else None)"

definition verify_xattr_block_checksum :: "('d, 'z) ext4_scheme \<Rightarrow> PBlockId \<Rightarrow> block \<Rightarrow> unit res" where
  "verify_xattr_block_checksum fs block_id b =
     (case xattr_checksum_seed fs of
        None \<Rightarrow> Inr ()
      | Some seed \<Rightarrow> rbind (xattr_verify_checksum b seed block_id) (\<lambda>good. guard good (Err EIO)))"

definition update_xattr_block_checksum :: "('d, 'z) ext4_scheme \<Rightarrow> PBlockId \<Rightarrow> block \<Rightarrow> block res" where
  "update_xattr_block_checksum fs block_id b =
     (case xattr_checksum_seed fs of
        None \<Rightarrow> Inr b
      | Some seed \<Rightarrow> rbind (xattr_update_checksum b seed block_id) (\<lambda>(b, good). if good then Inr b else Inl (Err EIO)))"

text \<open>The block of an inode that has one.\<close>

definition read_xattr_block :: "('d, 'y) device_ops_scheme \<Rightarrow> ('d, 'z) ext4_scheme \<Rightarrow> PBlockId \<Rightarrow> block res" where
  "read_xattr_block ops fs block_id =
     rbind (fs_read_block ops fs block_id) (\<lambda>b.
     rbind (verify_xattr_block_checksum fs block_id b) (\<lambda>_. Inr b))"

definition getxattr ::
    "('d, 'y) device_ops_scheme \<Rightarrow> ('d, 'z) ext4_scheme \<Rightarrow> InodeId \<Rightarrow> bytes \<Rightarrow> ('d, 'z) ext4_scheme \<times> bytes res" where
  "getxattr ops fs i name =
     sbind (read_inode ops fs i) (\<lambda>fs r.
     let block_id = xattr_block (ir_inode r) in
     (fs, if block_id = 0 then Inl (Err ENODATA)
          else rbind (read_xattr_block ops fs block_id) (\<lambda>b. rbind (xattr_get b name) (\<lambda>v. ok_or v ENODATA))))"

definition listxattr ::
    "('d, 'y) device_ops_scheme \<Rightarrow> ('d, 'z) ext4_scheme \<Rightarrow> InodeId \<Rightarrow> ('d, 'z) ext4_scheme \<times> bytes list res" where
  "listxattr ops fs i =
     sbind (read_inode ops fs i) (\<lambda>fs r.
     let block_id = xattr_block (ir_inode r) in
     (fs, if block_id = 0 then Inr [] else rbind (read_xattr_block ops fs block_id) xattr_list))"

text \<open>The first attribute of an inode: a new block, given back when anything fails.\<close>

definition fill_new_xattr_block ::
    "('d, 'y) device_ops_scheme \<Rightarrow> ('d, 'z) inode_state \<Rightarrow> PBlockId \<Rightarrow> bytes \<Rightarrow> bytes \<Rightarrow> ('d, 'z) inode_state \<times> unit res" where
  "fill_new_xattr_block ops s pblock name v = (case s of (fs, r) \<Rightarrow>
     sbind (s, rbind (fs_read_block ops fs pblock) (\<lambda>b.
               rbind (xattr_init b) (\<lambda>b.
               rbind (xattr_insert b name v) (\<lambda>(b, done).
               if \<not> done then Inl (Err ENOSPC) else update_xattr_block_checksum fs pblock b)))) (\<lambda>(fs, r) b.
     sbind (on_fs r (fs_write_block ops fs b)) (\<lambda>(fs, r) _.
     write_inode_with_csum ops fs (r\<lparr>ir_inode := set_xattr_block pblock (ir_inode r)\<rparr>))))"

definition set_first_xattr ::
    "('d, 'y) device_ops_scheme \<Rightarrow> ('d, 'z) inode_state \<Rightarrow> bytes \<Rightarrow> bytes \<Rightarrow> ('d, 'z) ext4_scheme \<times> unit res" where
  "set_first_xattr ops s name v = (case s of (fs, r) \<Rightarrow>
     sbind (alloc_block ops fs (ir_id r)) (\<lambda>fs pblock.
     case fill_new_xattr_block ops (fs, r) pblock name v of
       ((fs, r), Inr _) \<Rightarrow> (fs, Inr ())
     | ((fs, r), Inl Panic) \<Rightarrow> (fs, Inl Panic)
     | ((fs, r), Inl (Err e)) \<Rightarrow> sbind (dealloc_block ops fs pblock) (\<lambda>fs _. (fs, Inl (Err e)))))"

text \<open>The next ones: a changed copy of the block, written when the whole change has succeeded.\<close>

definition changed_xattr_block ::
    "('d, 'z) ext4_scheme \<Rightarrow> PBlockId \<Rightarrow> block \<Rightarrow> bytes \<Rightarrow> bytes \<Rightarrow> bool \<Rightarrow> bool \<Rightarrow> block res" where
  "changed_xattr_block fs block_id b name v create replace =
     rbind (xattr_get b name) (\<lambda>old.
     let exists = (old \<noteq> None) in
     if exists \<and> create then Inl (Err EEXIST)
     else if \<not> exists \<and> replace then Inl (Err ENODATA)
     else
       rbind (if exists then rbind (xattr_remove b name) (\<lambda>(b, _). Inr b) else Inr b) (\<lambda>b.
       rbind (xattr_insert b name v) (\<lambda>(b, done).
       if done then update_xattr_block_checksum fs block_id b else Inl (Err ENOSPC))))"

definition setxattr_with_flags ::
    "('d, 'y) device_ops_scheme \<Rightarrow> ('d, 'z) ext4_scheme \<Rightarrow> InodeId \<Rightarrow> bytes \<Rightarrow> bytes \<Rightarrow> bool \<Rightarrow> bool \<Rightarrow>
     ('d, 'z) ext4_scheme \<times> unit res" where
  "setxattr_with_flags ops fs i name v create replace =
     mutate_direct fs (\<lambda>fs.
     sbind (read_inode ops fs i) (\<lambda>fs r.
     let block_id = xattr_block (ir_inode r) in
     if block_id = 0 then
       if replace then (fs, Inl (Err ENODATA)) else set_first_xattr ops (fs, r) name v
     else
       sbind (fs, rbind (read_xattr_block ops fs block_id) (\<lambda>b. changed_xattr_block fs block_id b name v create replace)) (\<lambda>fs b.
       fs_write_block ops fs b)))"

definition setxattr ::
    "('d, 'y) device_ops_scheme \<Rightarrow> ('d, 'z) ext4_scheme \<Rightarrow> InodeId \<Rightarrow> bytes \<Rightarrow> bytes \<Rightarrow> ('d, 'z) ext4_scheme \<times> unit res" where
  "setxattr ops fs i name v =
     sbind (fs, ensure_mutable fs) (\<lambda>fs _. setxattr_with_flags ops fs i name v False False)"

definition removexattr ::
    "('d, 'y) device_ops_scheme \<Rightarrow> ('d, 'z) ext4_scheme \<Rightarrow> InodeId \<Rightarrow> bytes \<Rightarrow> ('d, 'z) ext4_scheme \<times> unit res" where
  "removexattr ops fs i name =
     mutate_direct fs (\<lambda>fs.
     sbind (read_inode ops fs i) (\<lambda>fs r.
     let block_id = xattr_block (ir_inode r) in
     if block_id = 0 then (fs, Inl (Err ENODATA))
     else
       sbind (fs, rbind (read_xattr_block ops fs block_id) (\<lambda>b.
                  rbind (xattr_remove b name) (\<lambda>(b, done).
                  if done then update_xattr_block_checksum fs block_id b else Inl (Err ENODATA)))) (\<lambda>fs b.
       fs_write_block ops fs b)))"

end
