(* ===== verification/Path_Ops.thy ===== *)
theory Path_Ops
  imports Namespace
begin

text \<open>
  Operations on paths (\<^verbatim>\<open>src/ext4/high_level.rs\<close>). A path is the bytes of the string, and its separator the byte of
  \<^verbatim>\<open>/\<close>, which stands for nothing else in UTF-8.
\<close>

definition slash :: u8 where "slash = 0x2F"

text \<open>\<^verbatim>\<open>str::split\<close>: the pieces between separators, empty ones included.\<close>

fun split_at_slash :: "bytes \<Rightarrow> bytes list" where
  "split_at_slash [] = [[]]"
| "split_at_slash (c # cs) =
     (if c = slash then [] # split_at_slash cs
      else case split_at_slash cs of [] \<Rightarrow> [[c]] | p # ps \<Rightarrow> (c # p) # ps)"

definition split_path :: "bytes \<Rightarrow> bytes list" where
  "split_path path = (let p = dropWhile (\<lambda>c. c = slash) path in if p = [] then [] else split_at_slash p)"

text \<open>\<^verbatim>\<open>join\<close> with the separator.\<close>

fun join_path :: "bytes list \<Rightarrow> bytes" where
  "join_path [] = []"
| "join_path [p] = p"
| "join_path (p # q # ps) = p @ slash # join_path (q # ps)"

fun lookup_path ::
    "('d, 'y) device_ops_scheme \<Rightarrow> ('d, 'z) ext4_scheme \<Rightarrow> InodeId \<Rightarrow> bytes list \<Rightarrow> ('d, 'z) ext4_scheme \<times> InodeId res" where
  "lookup_path ops fs cur [] = (fs, Inr cur)"
| "lookup_path ops fs cur (p # ps) = sbind (lookup_name ops fs cur p) (\<lambda>fs cur. lookup_path ops fs cur ps)"

definition generic_lookup ::
    "('d, 'y) device_ops_scheme \<Rightarrow> ('d, 'z) ext4_scheme \<Rightarrow> InodeId \<Rightarrow> bytes \<Rightarrow> ('d, 'z) ext4_scheme \<times> InodeId res" where
  "generic_lookup ops fs root path = lookup_path ops fs root (split_path path)"

fun create_path ::
    "('d, 'y) device_ops_scheme \<Rightarrow> ('d, 'z) ext4_scheme \<Rightarrow> InodeId \<Rightarrow> bytes list \<Rightarrow> InodeMode \<Rightarrow>
     ('d, 'z) ext4_scheme \<times> InodeId res" where
  "create_path ops fs cur [] mode = (fs, Inr cur)"
| "create_path ops fs cur (p # ps) mode =
     sbind (getattr ops fs cur) (\<lambda>fs a.
     if fa_ftype a \<noteq> Directory then (fs, Inl (Err ENOTDIR))
     else
       sbind (case lookup_name ops fs cur p of
                (fs, Inr i) \<Rightarrow> (fs, if ps = [] then Inl (Err EEXIST) else Inr i)
              | (fs, Inl e) \<Rightarrow>
                  if e \<noteq> Err ENOENT then (fs, Inl e)
                  else if ps = [] then
                    if mode_file_type mode = Directory then mkdir ops fs cur p mode else create ops fs cur p mode
                  else mkdir ops fs cur p (mode_of_type Directory OR 0x1FF)) (\<lambda>fs cur.
       create_path ops fs cur ps mode))"

definition generic_create ::
    "('d, 'y) device_ops_scheme \<Rightarrow> ('d, 'z) ext4_scheme \<Rightarrow> InodeId \<Rightarrow> bytes \<Rightarrow> InodeMode \<Rightarrow> ('d, 'z) ext4_scheme \<times> InodeId res" where
  "generic_create ops fs root path mode = create_path ops fs root (split_path path) mode"

text \<open>The parent's path and the last name; there is no last name in the path of the root.\<close>

definition split_last :: "bytes \<Rightarrow> (bytes \<times> bytes) res" where
  "split_last path =
     (let ps = split_path path in
      if ps = [] then Inl Panic else Inr (join_path (butlast ps), last ps))"

definition reclaim_removed ::
    "('d, 'y) device_ops_scheme \<Rightarrow> ('d, 'z) ext4_scheme \<times> inode_reclaim_handle option res \<Rightarrow>
     (('d, 'z) ext4_scheme \<times> unit res) option" where
  "reclaim_removed ops m = (case m of
     (fs, Inl e) \<Rightarrow> Some (fs, Inl e)
   | (fs, Inr None) \<Rightarrow> Some (fs, Inr ())
   | (fs, Inr (Some handle)) \<Rightarrow> reclaim_inode ops fs handle)"

definition generic_remove ::
    "('d, 'y) device_ops_scheme \<Rightarrow> ('d, 'z) ext4_scheme \<Rightarrow> InodeId \<Rightarrow> bytes \<Rightarrow> (('d, 'z) ext4_scheme \<times> unit res) option" where
  "generic_remove ops fs root path =
     reclaim_removed ops (
       sbind (fs, split_last path) (\<lambda>fs (parent_path, file_name).
       sbind (generic_lookup ops fs root parent_path) (\<lambda>fs parent_id.
       sbind (lookup_name ops fs parent_id file_name) (\<lambda>fs child_id.
       sbind (read_inode ops fs child_id) (\<lambda>fs child.
       let is_dir = inode_is_dir (ir_inode child) in
       sbind (fs, if is_dir then rbind (dir_list_entries ops fs child) (\<lambda>es. guard (length es \<le> 2) (Err ENOTEMPTY))
                  else Inr ()) (\<lambda>fs _.
       if is_dir then rmdir ops fs parent_id file_name else unlink_name ops fs parent_id file_name))))))"

definition generic_rename ::
    "('d, 'y) device_ops_scheme \<Rightarrow> ('d, 'z) ext4_scheme \<Rightarrow> InodeId \<Rightarrow> bytes \<Rightarrow> bytes \<Rightarrow> (('d, 'z) ext4_scheme \<times> unit res) option" where
  "generic_rename ops fs root src dst =
     (case sbind (fs, rbind (split_last src) (\<lambda>s. rbind (split_last dst) (\<lambda>d. Inr (s, d)))) (\<lambda>fs ((src_path, src_name), (dst_path, dst_name)).
           sbind (generic_lookup ops fs root src_path) (\<lambda>fs src_id.
           sbind (generic_lookup ops fs root dst_path) (\<lambda>fs dst_id.
           (fs, Inr (src_id, src_name, dst_id, dst_name))))) of
        (fs, Inl e) \<Rightarrow> Some (fs, Inl e)
      | (fs, Inr (src_id, src_name, dst_id, dst_name)) \<Rightarrow>
          Option.bind (rename ops fs src_id src_name dst_id dst_name) (reclaim_removed ops))"

end
