(* ===== verification/File_Content.thy ===== *)
theory File_Content
  imports File_Data Extent_Lookup
begin

text \<open>
  The contents of a file as one list of bytes: the blocks its extent tree maps, with zeros for the holes. Reading is
  a slice of that list and writing data replaces one, on a device that keeps what it was given; offsets from \<open>2^44\<close> on
  are taken for low ones, as the number of the block is cut to 32 bits.
\<close>

section \<open>Reliable devices\<close>

text \<open>A device that serves every block it has, in whole blocks.\<close>

locale reliable_device = block_device +
  assumes read_total: "contents d p = Some x \<Longrightarrow> read_block ops d p = Inr (block_new p x)"
    and write_total: "contents d (blk_id b) \<noteq> None \<Longrightarrow> \<exists>d'. write_block ops d b = (d', Inr ())"
begin

lemma write_contents:
  assumes "contents d p \<noteq> None"
  obtains d' where "write_block ops d (block_new p x) = (d', Inr ())" "contents d' = (contents d)(p \<mapsto> x)"
proof -
  obtain d' where d': "write_block ops d (block_new p x) = (d', Inr ())"
    using write_total [of d "block_new p x"] assms by (auto simp: block_new_def)
  then show thesis using that [OF d'] write_sound [OF d'] by (simp add: block_new_def)
qed

lemma rewrite_contents:
  assumes "contents (fs_device fs) p = Some x" "off + length bs \<le> length x"
  obtains d' where "fs_rewrite_block ops fs p off bs = (fs\<lparr>fs_device := d'\<rparr>, Inr ())"
    "contents d' = (contents (fs_device fs))(p \<mapsto> splice x off bs)"
proof -
  obtain d' where d': "write_block ops (fs_device fs) (block_new p (splice x off bs)) = (d', Inr ())"
    "contents d' = (contents (fs_device fs))(p \<mapsto> splice x off bs)"
    by (rule write_contents [of "fs_device fs" p]) (use assms(1) in auto)
  have "fs_rewrite_block ops fs p off bs = (fs\<lparr>fs_device := d'\<rparr>, Inr ())"
    using read_total [OF assms(1)] assms(2) d'(1)
    by (simp add: fs_rewrite_block_def fs_read_block_def fs_write_block_def block_write_offset_def write_range_def block_new_def)
  then show thesis using that d'(2) by blast
qed

end

interpretation mem: reliable_device mem_ops mem_contents
  by unfold_locales (auto simp: mem_ops_def mem_read_block_def mem_write_block_def mem_contents_def split: if_splits)

section \<open>The contents of a file\<close>

definition block_content :: "(PBlockId \<Rightarrow> bytes option) \<Rightarrow> extent list \<Rightarrow> LBlockId \<Rightarrow> bytes" where
  "block_content disk xs b = (case mapped_at xs b of None \<Rightarrow> replicate BLOCK_SIZE 0 | Some p \<Rightarrow> the (disk p))"

definition file_content :: "(PBlockId \<Rightarrow> bytes option) \<Rightarrow> extent list \<Rightarrow> nat \<Rightarrow> bytes" where
  "file_content disk xs n = concat (map (\<lambda>i. block_content disk xs (word_of_nat i)) [0..<n])"

text \<open>A file whose first blocks are served: a well-formed tree from block 0 on, and every mapped block a data block
  on the device.\<close>

definition served :: "('d, 'z) ext4_scheme \<Rightarrow> (PBlockId \<Rightarrow> bytes option) \<Rightarrow> PBlockId \<Rightarrow> bool" where
  "served fs disk p \<longleftrightarrow> p < sb_block_count (fs_cached_super_block fs) \<and> fs_validate_data_blocks fs p 1 = Inr () \<and>
     (\<exists>x. disk p = Some x \<and> length x = BLOCK_SIZE)"

definition file_mapped ::
    "('d, 'y) device_ops_scheme \<Rightarrow> ('d, 'z) ext4_scheme \<Rightarrow> (PBlockId \<Rightarrow> bytes option) \<Rightarrow> inode_ref \<Rightarrow> etree \<Rightarrow> nat \<Rightarrow> bool" where
  "file_mapped ops fs disk r t n \<longleftrightarrow>
     (\<exists>k. tree_on (child_node ops fs r) k (extent_root r) t) \<and> tree_ordered 0 (2 ^ 32) t \<and> 0 \<notin> set (tree_blocks t) \<and> n < 2 ^ 32 \<and>
     (\<forall>b p. unat b < n \<longrightarrow> mapped_at (tree_extents t) b = Some p \<longrightarrow> served fs disk p)"

lemma file_mapped_served:
  "file_mapped ops fs disk r t n \<Longrightarrow> unat b < n \<Longrightarrow> mapped_at (tree_extents t) b = Some p \<Longrightarrow> served fs disk p"
  by (simp add: file_mapped_def)

lemma file_mapped_query:
  assumes "file_mapped ops fs disk r t n" "unat b < n"
  shows "extent_query ops fs r b = (case mapped_at (tree_extents t) b of None \<Rightarrow> Inl (Err ENOENT) | Some p \<Rightarrow> Inr p)"
proof -
  obtain k where k: "tree_on (child_node ops fs r) k (extent_root r) t" "tree_ordered 0 (2 ^ 32) t" "0 \<notin> set (tree_blocks t)"
    and s: "\<And>p. mapped_at (tree_extents t) b = Some p \<Longrightarrow> served fs disk p"
    using assms by (auto simp: file_mapped_def)
  have "unat b < 2 ^ 32" using unat_lt [of b] by simp
  from extent_query_tree [OF k(1,2) _ this k(3)] s show ?thesis
    by (auto simp: served_def split: option.splits)
qed

lemma length_block_content:
  assumes "file_mapped ops fs disk r t n" "unat b < n"
  shows "length (block_content disk (tree_extents t) b) = BLOCK_SIZE"
  using assms by (fastforce simp: file_mapped_def block_content_def served_def split: option.splits)

lemma length_concat_blocks:
  "(\<And>i. i < n \<Longrightarrow> length (f i) = k) \<Longrightarrow> length (concat (map f [0..<n])) = n * k"
  by (induction n) auto

lemma slice_concat_blocks:
  assumes "\<And>i. i < n \<Longrightarrow> length (f i) = k" "i < n" "off + len \<le> k"
  shows "slice (concat (map f [0..<n])) (i * k + off) len = slice (f i) off len"
proof -
  have "[0..<n] = [0..<i] @ i # [Suc i..<n]"
    using assms(2) by (metis le_add_same_cancel1 less_imp_le_nat upt_add_eq_append upt_conv_Cons zero_le le_add_diff_inverse)
  then have "concat (map f [0..<n]) = concat (map f [0..<i]) @ f i @ concat (map f [Suc i..<n])" by simp
  moreover have "length (concat (map f [0..<i])) = i * k" using assms by (intro length_concat_blocks) auto
  moreover have "length (f i) = k" using assms by simp
  ultimately show ?thesis using assms(3) by (simp add: slice_def)
qed

lemma length_file_content:
  assumes "file_mapped ops fs disk r t n"
  shows "length (file_content disk (tree_extents t) n) = n * BLOCK_SIZE"
proof -
  have "n < 2 ^ 32" using assms by (simp add: file_mapped_def)
  then show ?thesis
    unfolding file_content_def using assms
    by (intro length_concat_blocks length_block_content) (auto simp: unat_word_of_nat)
qed

lemma slice_file_content:
  assumes "file_mapped ops fs disk r t n" "i < n" "off + len \<le> BLOCK_SIZE"
  shows "slice (file_content disk (tree_extents t) n) (i * BLOCK_SIZE + off) len =
    slice (block_content disk (tree_extents t) (word_of_nat i)) off len"
proof -
  have "n < 2 ^ 32" using assms(1) by (simp add: file_mapped_def)
  then show ?thesis
    unfolding file_content_def using assms
    by (intro slice_concat_blocks length_block_content) (auto simp: unat_word_of_nat)
qed

text \<open>A window cut at most after \<open>k\<close> elements.\<close>

lemma slice_cut: "slice xs off len = slice xs off (min k len) @ slice xs (off + k) (len - min k len)"
proof (cases "len \<le> k")
  case False
  then have "take len ys = take k ys @ take (len - k) (drop k ys)" for ys :: "'a list"
    using take_add [of k "len - k" ys] by simp
  then show ?thesis using False by (simp add: slice_def min_def add.commute)
qed (simp add: slice_def min_def)

section \<open>Reading\<close>

lemma add_chk_next: "i + 1 < 2 ^ 32 \<Longrightarrow> add_chk (word_of_nat i :: LBlockId) 1 = Inr (word_of_nat (i + 1))"
proof -
  assume a: "i + 1 < 2 ^ 32"
  have "unat (word_of_nat i :: LBlockId) = i" using a by (intro unat_word_of_nat) simp
  moreover have "(word_of_nat i :: LBlockId) + 1 = word_of_nat (i + 1)" by simp
  ultimately show ?thesis using a by (simp only: add_chk_def) simp
qed

lemma read_loop_step:
  "left \<noteq> 0 \<Longrightarrow> read_loop ops fs r b left =
     rbind (read_extent_or_hole ops fs r b 0 (min BLOCK_SIZE left)) (\<lambda>bs.
     rbind (add_chk b 1) (\<lambda>b.
     rbind (read_loop ops fs r b (left - min BLOCK_SIZE left)) (\<lambda>rest. Inr (bs @ rest))))"
  by (subst read_loop.simps) (simp add: Let_def)

context reliable_device
begin

lemma read_one:
  assumes "file_mapped ops fs (contents (fs_device fs)) r t n" "i < n" "off + len \<le> BLOCK_SIZE"
  shows "read_extent_or_hole ops fs r (word_of_nat i) off len =
    Inr (slice (file_content (contents (fs_device fs)) (tree_extents t) n) (i * BLOCK_SIZE + off) len)"
proof -
  let ?b = "word_of_nat i :: LBlockId"
  have b: "unat ?b < n" using assms(1,2) by (simp add: file_mapped_def unat_word_of_nat)
  note q = file_mapped_query [OF assms(1) b] and s = slice_file_content [OF assms]
  show ?thesis
  proof (cases "mapped_at (tree_extents t) ?b")
    case None
    then show ?thesis using q s assms(3) by (simp add: read_extent_or_hole_def block_content_def slice_def min_def)
  next
    case (Some p)
    then have "served fs (contents (fs_device fs)) p" using assms(1) b by (auto simp: file_mapped_def)
    then obtain x where x: "contents (fs_device fs) p = Some x" "length x = BLOCK_SIZE" by (auto simp: served_def)
    then show ?thesis
      using q s Some read_total [OF x(1)] assms(3)
      by (simp add: read_extent_or_hole_def block_content_def fs_read_block_def block_read_offset_def block_new_def)
  qed
qed

lemma read_loop_content:
  assumes "file_mapped ops fs (contents (fs_device fs)) r t n" "i * BLOCK_SIZE + left \<le> n * BLOCK_SIZE"
  shows "read_loop ops fs r (word_of_nat i) left =
    Inr (slice (file_content (contents (fs_device fs)) (tree_extents t) n) (i * BLOCK_SIZE) left)"
  using assms(2)
proof (induction left arbitrary: i rule: less_induct)
  case (less left)
  show ?case
  proof (cases "left = 0")
    case True
    then show ?thesis by (subst read_loop.simps) (simp add: slice_def)
  next
    case False
    let ?l = "min BLOCK_SIZE left" and ?C = "file_content (contents (fs_device fs)) (tree_extents t) n"
    have n: "n < 2 ^ 32" using assms(1) by (simp add: file_mapped_def)
    have B: "0 < BLOCK_SIZE" by (simp add: BLOCK_SIZE_def)
    have i: "i < n"
    proof (rule ccontr)
      assume "\<not> i < n"
      then have "n * BLOCK_SIZE \<le> i * BLOCK_SIZE" by simp
      then show False using less.prems False by linarith
    qed
    have rest: "(i + 1) * BLOCK_SIZE + (left - ?l) \<le> n * BLOCK_SIZE"
    proof (cases "left \<le> BLOCK_SIZE")
      case True
      have "(i + 1) * BLOCK_SIZE \<le> n * BLOCK_SIZE" using i by (intro mult_le_mono1) simp
      then show ?thesis using True by simp
    next
      case False
      then show ?thesis using less.prems by (simp add: add_mult_distrib)
    qed
    have one: "read_extent_or_hole ops fs r (word_of_nat i) 0 ?l =
        Inr (slice ?C (i * BLOCK_SIZE) ?l)"
      using read_one [OF assms(1) i, of 0 ?l] by simp
    have inc: "add_chk (word_of_nat i :: LBlockId) 1 = Inr (word_of_nat (i + 1))"
      using i n by (intro add_chk_next) simp
    have rec: "read_loop ops fs r (word_of_nat (i + 1)) (left - ?l) =
        Inr (slice ?C ((i + 1) * BLOCK_SIZE) (left - ?l))"
      using less.IH [OF _ rest] False B by simp
    have "read_loop ops fs r (word_of_nat i) left = Inr (slice ?C (i * BLOCK_SIZE) ?l @ slice ?C ((i + 1) * BLOCK_SIZE) (left - ?l))"
      by (simp only: read_loop_step [OF False] one inc rec rbind.simps)
    also have "(i + 1) * BLOCK_SIZE = i * BLOCK_SIZE + BLOCK_SIZE" by simp
    finally show ?thesis by (simp only: slice_cut [symmetric])
  qed
qed

lemma read_data_content:
  assumes "file_mapped ops fs (contents (fs_device fs)) r t n" "offset + len \<le> n * BLOCK_SIZE"
  shows "read_data ops fs r offset len = Inr (slice (file_content (contents (fs_device fs)) (tree_extents t) n) offset len)"
proof -
  let ?i = "offset div BLOCK_SIZE" and ?m = "offset mod BLOCK_SIZE"
  let ?C = "file_content (contents (fs_device fs)) (tree_extents t) n"
  have o: "?i * BLOCK_SIZE + ?m = offset" by simp
  have B: "0 < BLOCK_SIZE" by (simp add: BLOCK_SIZE_def)
  have n: "n < 2 ^ 32" using assms(1) by (simp add: file_mapped_def)
  show ?thesis
  proof (cases "?m = 0")
    case True
    have "?i * BLOCK_SIZE = offset" using o True by simp
    then show ?thesis using read_loop_content [OF assms(1), of ?i len] assms(2) True by (simp add: read_data_def lblock_of_def)
  next
    case False
    let ?l = "min (BLOCK_SIZE - ?m) len"
    have "offset < n * BLOCK_SIZE \<or> len = 0 \<and> offset = n * BLOCK_SIZE" using assms(2) by linarith
    then have i: "?i < n" using False by (auto simp: less_mult_imp_div_less)
    have one: "read_extent_or_hole ops fs r (word_of_nat ?i) ?m ?l = Inr (slice ?C offset ?l)"
      using read_one [OF assms(1) i, of ?m ?l] mod_less_divisor [OF B, of offset] o by simp
    have inc: "add_chk (word_of_nat ?i :: LBlockId) 1 = Inr (word_of_nat (?i + 1))"
      using i n by (intro add_chk_next) simp
    have m: "?m < BLOCK_SIZE" using B by simp
    have e: "(?i + 1) * BLOCK_SIZE = offset + (BLOCK_SIZE - ?m)"
      unfolding add_mult_distrib mult_1 using o m by linarith
    have rest: "(?i + 1) * BLOCK_SIZE + (len - ?l) \<le> n * BLOCK_SIZE"
    proof (cases "len \<le> BLOCK_SIZE - ?m")
      case True
      have "(?i + 1) * BLOCK_SIZE \<le> n * BLOCK_SIZE" using i by (intro mult_le_mono1) simp
      then show ?thesis using True by simp
    next
      case False
      then show ?thesis using e assms(2) by simp
    qed
    have rec: "read_loop ops fs r (word_of_nat (?i + 1)) (len - ?l) = Inr (slice ?C ((?i + 1) * BLOCK_SIZE) (len - ?l))"
      by (rule read_loop_content [OF assms(1) rest])
    have "read_data ops fs r offset len = Inr (slice ?C offset ?l @ slice ?C ((?i + 1) * BLOCK_SIZE) (len - ?l))"
      using False by (simp only: read_data_def Let_def lblock_of_def one inc rec rbind.simps if_True neq0_conv)
    then show ?thesis unfolding e slice_cut [of ?C offset len "BLOCK_SIZE - ?m", symmetric] .
  qed
qed

end

section \<open>Writing\<close>

text \<open>No block of the file holds two of its parts, or a part of its tree.\<close>

definition data_exclusive :: "etree \<Rightarrow> nat \<Rightarrow> bool" where
  "data_exclusive t n \<longleftrightarrow>
     (\<forall>b p. unat b < n \<longrightarrow> mapped_at (tree_extents t) b = Some p \<longrightarrow> p \<notin> set (tree_blocks t) \<and>
       (\<forall>c. unat c < n \<longrightarrow> mapped_at (tree_extents t) c = Some p \<longrightarrow> c = b))"

text \<open>The blocks that hold no byte of a range of the file.\<close>

definition outside_range :: "etree \<Rightarrow> nat \<Rightarrow> nat \<Rightarrow> PBlockId \<Rightarrow> bool" where
  "outside_range t off len p \<longleftrightarrow>
     (\<forall>k. off \<le> k \<and> k < off + len \<longrightarrow> mapped_at (tree_extents t) (lblock_of k) \<noteq> Some p)"

lemma splice_concat_blocks:
  assumes "\<And>j. j < n \<Longrightarrow> length (f j) = k" "i < n" "off + length bs \<le> k"
    and "f' i = splice (f i) off bs" "\<And>j. j < n \<Longrightarrow> j \<noteq> i \<Longrightarrow> f' j = f j"
  shows "concat (map f' [0..<n]) = splice (concat (map f [0..<n])) (i * k + off) bs"
proof -
  have u: "[0..<n] = [0..<i] @ i # [Suc i..<n]"
    using assms(2) by (metis le_add_same_cancel1 less_imp_le_nat upt_add_eq_append upt_conv_Cons zero_le le_add_diff_inverse)
  have e: "map f' [0..<i] = map f [0..<i]" "map f' [Suc i..<n] = map f [Suc i..<n]" using assms(2,5) by auto
  then have "concat (map f' [0..<n]) = concat (map f [0..<i]) @ splice (f i) off bs @ concat (map f [Suc i..<n])"
    by (simp only: u map_append list.map concat_append concat.simps e assms(4))
  moreover have "length (concat (map f [0..<i])) = i * k" using assms by (intro length_concat_blocks) auto
  moreover have "length (f i) = k" using assms by simp
  ultimately show ?thesis using assms(3) by (simp add: u splice_def)
qed

lemma splice_extend:
  "off + length ys + length zs \<le> length xs \<Longrightarrow> splice (splice xs off ys) (off + length ys) zs = splice xs off (ys @ zs)"
  by (intro nth_equalityI) (auto simp: nth_splice nth_append)

lemma file_content_write:
  assumes m: "file_mapped ops fs disk r t n" and x: "data_exclusive t n" and i: "i < n"
    and p: "mapped_at (tree_extents t) (word_of_nat i) = Some p" "disk p = Some old" "off + length bs \<le> BLOCK_SIZE"
  shows "file_content (disk(p \<mapsto> splice old off bs)) (tree_extents t) n =
      splice (file_content disk (tree_extents t) n) (i * BLOCK_SIZE + off) bs"
    and "file_mapped ops fs (disk(p \<mapsto> splice old off bs)) r t n"
proof -
  have n: "n < 2 ^ 32" using m by (simp add: file_mapped_def)
  have u: "unat (word_of_nat j :: LBlockId) = j" if "j < n" for j using that n by (simp add: unat_word_of_nat)
  have "served fs disk p" using file_mapped_served [OF m _ p(1)] i u [OF i] by simp
  then have l: "length old = BLOCK_SIZE" using p(2) by (auto simp: served_def)
  show "file_content (disk(p \<mapsto> splice old off bs)) (tree_extents t) n =
      splice (file_content disk (tree_extents t) n) (i * BLOCK_SIZE + off) bs"
    unfolding file_content_def
  proof (rule splice_concat_blocks [OF _ i p(3)])
    show "length (block_content disk (tree_extents t) (word_of_nat j)) = BLOCK_SIZE" if "j < n" for j
      using length_block_content [OF m] u [OF that] that by simp
    show "block_content (disk(p \<mapsto> splice old off bs)) (tree_extents t) (word_of_nat i) =
        splice (block_content disk (tree_extents t) (word_of_nat i)) off bs"
      using p by (simp add: block_content_def)
    fix j assume j: "j < n" "j \<noteq> i"
    have "mapped_at (tree_extents t) (word_of_nat j) \<noteq> Some p"
    proof
      assume "mapped_at (tree_extents t) (word_of_nat j) = Some p"
      then have "(word_of_nat j :: LBlockId) = word_of_nat i" using x p(1) u [OF j(1)] u [OF i] i j(1) unfolding data_exclusive_def by metis
      then have "unat (word_of_nat j :: LBlockId) = unat (word_of_nat i :: LBlockId)" by simp
      then show False using u [OF j(1)] u [OF i] j(2) by simp
    qed
    then show "block_content (disk(p \<mapsto> splice old off bs)) (tree_extents t) (word_of_nat j) =
        block_content disk (tree_extents t) (word_of_nat j)"
      by (auto simp: block_content_def split: option.splits)
  qed
  show "file_mapped ops fs (disk(p \<mapsto> splice old off bs)) r t n"
    using m p(3) l by (auto simp: file_mapped_def served_def)
qed

lemma lblock_of_next:
  assumes "off mod BLOCK_SIZE + len = BLOCK_SIZE"
  shows "(off + len) div BLOCK_SIZE = off div BLOCK_SIZE + 1"
proof -
  have "off + len = off div BLOCK_SIZE * BLOCK_SIZE + BLOCK_SIZE"
    using assms div_mult_mod_eq [of off BLOCK_SIZE] by linarith
  then have "(off + len) div BLOCK_SIZE = (off div BLOCK_SIZE + 1) * BLOCK_SIZE div BLOCK_SIZE" by (simp add: add_mult_distrib)
  then show ?thesis by (simp add: BLOCK_SIZE_def)
qed

lemma data_chunks_step:
  "data \<noteq> [] \<Longrightarrow> data_chunks ops fs r b off data =
     (let len = min (BLOCK_SIZE - off mod BLOCK_SIZE) (length data) in
      rbind (extent_query ops fs r b) (\<lambda>p.
      rbind (add_chk b 1) (\<lambda>b.
      rbind (data_chunks ops fs r b (off + len) (drop len data)) (\<lambda>cs.
      Inr ((p, off mod BLOCK_SIZE, take len data) # cs)))))"
  by (subst data_chunks.simps) (simp add: Let_def)

context reliable_device
begin

lemma write_chunks_content:
  assumes x: "data_exclusive t n"
  shows "file_mapped ops fs (contents (fs_device fs')) r t n \<Longrightarrow> data_chunks ops fs r (lblock_of off) off data = Inr cs \<Longrightarrow>
    off + length data \<le> n * BLOCK_SIZE \<Longrightarrow>
    \<exists>d'. write_chunks ops fs' cs = (fs'\<lparr>fs_device := d'\<rparr>, Inr ()) \<and> file_mapped ops fs (contents d') r t n \<and>
      file_content (contents d') (tree_extents t) n =
        splice (file_content (contents (fs_device fs')) (tree_extents t) n) off data \<and>
      (\<forall>p. outside_range t off (length data) p \<longrightarrow> contents d' p = contents (fs_device fs') p)"
proof (induction "length data" arbitrary: data off cs fs' rule: less_induct)
  case less
  note m = less.prems(1)
  have n: "n < 2 ^ 32" using m by (simp add: file_mapped_def)
  show ?case
  proof (cases "data = []")
    case True
    then have "cs = []" using less.prems(2) by (subst (asm) data_chunks.simps) simp
    then show ?thesis using True m by (intro exI [of _ "fs_device fs'"]) (simp add: splice_def)
  next
    case False
    let ?i = "off div BLOCK_SIZE" and ?m = "off mod BLOCK_SIZE"
    let ?l = "min (BLOCK_SIZE - ?m) (length data)" and ?b = "word_of_nat (off div BLOCK_SIZE) :: LBlockId"
    have B: "?m < BLOCK_SIZE" by (simp add: BLOCK_SIZE_def)
    have "off < n * BLOCK_SIZE" using less.prems(3) False by (cases data) auto
    then have i: "?i < n" by (simp add: less_mult_imp_div_less)
    have u: "unat ?b = ?i" using i n by (intro unat_word_of_nat) simp
    obtain p cs' where p: "extent_query ops fs r ?b = Inr p" and cs: "cs = (p, ?m, take ?l data) # cs'"
      and rest: "data_chunks ops fs r (word_of_nat (?i + 1)) (off + ?l) (drop ?l data) = Inr cs'"
      using less.prems(2) unfolding data_chunks_step [OF False] Let_def lblock_of_def
      by (auto simp only: rbind_eq_Inr add_chk_next [of ?i] sum.inject) (use add_chk_next [of ?i] i n in auto)
    have pm: "mapped_at (tree_extents t) ?b = Some p"
      using file_mapped_query [OF m, of ?b] u i p by (auto split: option.splits)
    obtain old where old: "contents (fs_device fs') p = Some old" "length old = BLOCK_SIZE"
      using file_mapped_served [OF m _ pm] u i by (auto simp: served_def)
    have fit: "?m + length (take ?l data) \<le> BLOCK_SIZE" using B by auto
    obtain d1 where d1: "fs_rewrite_block ops fs' p ?m (take ?l data) = (fs'\<lparr>fs_device := d1\<rparr>, Inr ())"
      "contents d1 = (contents (fs_device fs'))(p \<mapsto> splice old ?m (take ?l data))"
      using rewrite_contents [OF old(1)] fit old(2) by metis
    note c = file_content_write [OF m x i pm old(1) fit, folded d1(2)]
    have rest': "data_chunks ops fs r (lblock_of (off + ?l)) (off + ?l) (drop ?l data) = Inr cs'"
    proof (cases "drop ?l data = []")
      case True
      then show ?thesis using rest by (subst data_chunks.simps, subst (asm) data_chunks.simps) simp
    next
      case False
      then have "?m + ?l = BLOCK_SIZE" using B by auto
      then show ?thesis using rest by (simp only: lblock_of_def lblock_of_next)
    qed
    have "length (drop ?l data) < length data" using False B by simp
    moreover have "off + ?l + length (drop ?l data) \<le> n * BLOCK_SIZE" using less.prems(3) by simp
    ultimately obtain d2 where d2: "write_chunks ops (fs'\<lparr>fs_device := d1\<rparr>) cs' = (fs'\<lparr>fs_device := d2\<rparr>, Inr ())"
      "file_mapped ops fs (contents d2) r t n"
      "file_content (contents d2) (tree_extents t) n = splice (file_content (contents d1) (tree_extents t) n) (off + ?l) (drop ?l data)"
      "\<And>q. outside_range t (off + ?l) (length (drop ?l data)) q \<Longrightarrow> contents d2 q = contents d1 q"
      using less.hyps [of "drop ?l data" "fs'\<lparr>fs_device := d1\<rparr>" "off + ?l" cs'] c(2) rest' by auto
    let ?C = "file_content (contents (fs_device fs')) (tree_extents t) n"
    have "splice (splice ?C off (take ?l data)) (off + length (take ?l data)) (drop ?l data) = splice ?C off (take ?l data @ drop ?l data)"
      using less.prems(3) length_file_content [OF m] by (intro splice_extend) simp
    then have "file_content (contents d2) (tree_extents t) n = splice ?C off data"
      using d2(3) c(1) by simp
    moreover have "contents d2 q = contents (fs_device fs') q" if q: "outside_range t off (length data) q" for q
    proof -
      have "mapped_at (tree_extents t) (lblock_of off) \<noteq> Some q" using q False by (simp add: outside_range_def)
      then have "q \<noteq> p" using pm by (auto simp: lblock_of_def)
      moreover have "outside_range t (off + ?l) (length (drop ?l data)) q" using q by (simp add: outside_range_def)
      ultimately show ?thesis using d2(4) d1(2) by simp
    qed
    ultimately show ?thesis using d1(1) d2(1,2) cs by (intro exI [of _ d2]) (simp add: patch_block_def)
  qed
qed

end

section \<open>The operations\<close>

lemma fs_views [simp]:
  "journal_owns_block_range (fs\<lparr>fs_metadata_gate := g\<rparr>) = journal_owns_block_range fs"
  "journal_owns_block_range (fs\<lparr>fs_device := d\<rparr>) = journal_owns_block_range fs"
  "fs_validate_data_blocks (fs\<lparr>fs_metadata_gate := g\<rparr>) = fs_validate_data_blocks fs"
  "fs_validate_data_blocks (fs\<lparr>fs_device := d\<rparr>) = fs_validate_data_blocks fs"
  "ensure_valid_pblock (fs\<lparr>fs_metadata_gate := g\<rparr>) = ensure_valid_pblock fs"
  "ensure_valid_pblock (fs\<lparr>fs_device := d\<rparr>) = ensure_valid_pblock fs"
  "inode_extent_checksum (fs\<lparr>fs_metadata_gate := g\<rparr>) = inode_extent_checksum fs"
  "inode_extent_checksum (fs\<lparr>fs_device := d\<rparr>) = inode_extent_checksum fs"
  "verify_extent_block_checksum (fs\<lparr>fs_metadata_gate := g\<rparr>) = verify_extent_block_checksum fs"
  "verify_extent_block_checksum (fs\<lparr>fs_device := d\<rparr>) = verify_extent_block_checksum fs"
  "fs_read_block ops (fs\<lparr>fs_metadata_gate := g\<rparr>) = fs_read_block ops fs"
proof -
  show j: "journal_owns_block_range (fs\<lparr>fs_metadata_gate := g\<rparr>) = journal_owns_block_range fs"
    "journal_owns_block_range (fs\<lparr>fs_device := d\<rparr>) = journal_owns_block_range fs"
    by (intro ext, simp add: journal_owns_block_range_def)+
  show "fs_validate_data_blocks (fs\<lparr>fs_metadata_gate := g\<rparr>) = fs_validate_data_blocks fs"
    "fs_validate_data_blocks (fs\<lparr>fs_device := d\<rparr>) = fs_validate_data_blocks fs"
    by (intro ext, simp add: fs_validate_data_blocks_def j)+
  show "ensure_valid_pblock (fs\<lparr>fs_metadata_gate := g\<rparr>) = ensure_valid_pblock fs"
    "ensure_valid_pblock (fs\<lparr>fs_device := d\<rparr>) = ensure_valid_pblock fs"
    by (intro ext, simp add: ensure_valid_pblock_def)+
  show c: "inode_extent_checksum (fs\<lparr>fs_metadata_gate := g\<rparr>) = inode_extent_checksum fs"
    "inode_extent_checksum (fs\<lparr>fs_device := d\<rparr>) = inode_extent_checksum fs"
    by (intro ext, simp add: inode_extent_checksum_def)+
  show "verify_extent_block_checksum (fs\<lparr>fs_metadata_gate := g\<rparr>) = verify_extent_block_checksum fs"
    "verify_extent_block_checksum (fs\<lparr>fs_device := d\<rparr>) = verify_extent_block_checksum fs"
    by (intro ext, simp add: verify_extent_block_checksum_def c cong: if_cong)+
  show "fs_read_block ops (fs\<lparr>fs_metadata_gate := g\<rparr>) = fs_read_block ops fs"
    by (intro ext, simp add: fs_read_block_def)
qed

lemma child_node_gate [simp]: "child_node ops (fs\<lparr>fs_metadata_gate := g\<rparr>) r = child_node ops fs r"
  by (rule ext) (simp add: child_node_def read_extent_block_def)

lemma served_gate [simp]: "served (fs\<lparr>fs_metadata_gate := g\<rparr>) disk = served fs disk"
  by (rule ext) (simp add: served_def)

lemma served_device [simp]: "served (fs\<lparr>fs_device := d\<rparr>) disk = served fs disk"
  by (rule ext) (simp add: served_def)

lemma file_mapped_gate [simp]: "file_mapped ops (fs\<lparr>fs_metadata_gate := g\<rparr>) disk r t n = file_mapped ops fs disk r t n"
  by (simp add: file_mapped_def)

lemma tree_on_fetch:
  "tree_on fetch n node t \<Longrightarrow> (\<And>p x. p \<in> set (tree_blocks t) \<Longrightarrow> fetch p = Inr x \<Longrightarrow> fetch' p = Inr x) \<Longrightarrow> tree_on fetch' n node t"
proof (induction t arbitrary: n node)
  case (Leaf xs)
  then show ?case by simp
next
  case (Inner cs)
  have "\<exists>child. fetch' (ei_leaf (fst c)) = Inr child \<and> tree_on fetch' (n - 1) child (snd c)" if c: "c \<in> set cs" for c
  proof -
    obtain child where ch: "fetch (ei_leaf (fst c)) = Inr child" "tree_on fetch (n - 1) child (snd c)"
      using Inner.prems(1) c by auto
    have "snd c \<in> Basic_BNFs.snds c" by (cases c) simp
    moreover have "fetch' p = Inr x" if "p \<in> set (tree_blocks (snd c))" "fetch p = Inr x" for p x
      using Inner.prems(2) [OF _ that(2)] that(1) c by auto
    ultimately have "tree_on fetch' (n - 1) child (snd c)" using Inner.IH [OF c _ ch(2)] by blast
    then show ?thesis using Inner.prems(2) [OF _ ch(1)] c by auto
  qed
  then show ?case using Inner.prems(1) by auto
qed

lemma data_chunks_ok:
  assumes "file_mapped ops fs disk r t n"
  shows "off + length data \<le> n * BLOCK_SIZE \<Longrightarrow>
    (\<And>k. off \<le> k \<Longrightarrow> k < off + length data \<Longrightarrow> mapped_at (tree_extents t) (lblock_of k) \<noteq> None) \<Longrightarrow>
    \<exists>cs. data_chunks ops fs r (lblock_of off) off data = Inr cs"
proof (induction "length data" arbitrary: data off rule: less_induct)
  case less
  have n: "n < 2 ^ 32" using assms by (simp add: file_mapped_def)
  show ?case
  proof (cases "data = []")
    case True
    then show ?thesis by (subst data_chunks.simps) simp
  next
    case False
    let ?i = "off div BLOCK_SIZE" and ?m = "off mod BLOCK_SIZE"
    let ?l = "min (BLOCK_SIZE - ?m) (length data)"
    have B: "?m < BLOCK_SIZE" by (simp add: BLOCK_SIZE_def)
    have "off < n * BLOCK_SIZE" using less.prems(1) False by (cases data) auto
    then have i: "?i < n" by (simp add: less_mult_imp_div_less)
    have u: "unat (lblock_of off) = ?i" using i n by (simp add: lblock_of_def unat_word_of_nat)
    obtain p where p: "extent_query ops fs r (lblock_of off) = Inr p"
      using file_mapped_query [OF assms, of "lblock_of off"] less.prems(2) [of off] u i False by auto
    have "length (drop ?l data) < length data" using False B by simp
    moreover have "off + ?l + length (drop ?l data) \<le> n * BLOCK_SIZE" using less.prems(1) by simp
    ultimately obtain cs where cs: "data_chunks ops fs r (lblock_of (off + ?l)) (off + ?l) (drop ?l data) = Inr cs"
      using less.hyps [of "drop ?l data" "off + ?l"] less.prems(2) by auto
    have inc: "add_chk (lblock_of off) 1 = Inr (word_of_nat (?i + 1))"
      unfolding lblock_of_def using i n by (intro add_chk_next) simp
    have "data_chunks ops fs r (word_of_nat (?i + 1)) (off + ?l) (drop ?l data) = Inr cs"
    proof (cases "drop ?l data = []")
      case True
      then show ?thesis using cs by (subst data_chunks.simps, subst (asm) data_chunks.simps) simp
    next
      case False
      then have "?m + ?l = BLOCK_SIZE" using B by auto
      then show ?thesis using cs by (simp only: lblock_of_def lblock_of_next)
    qed
    then show ?thesis using p inc by (simp only: data_chunks_step [OF False] Let_def rbind.simps) simp
  qed
qed

context reliable_device
begin

lemma child_node_same:
  assumes "child_node ops fs r q = Inr node" "contents d' q = contents (fs_device fs) q"
  shows "child_node ops (fs\<lparr>fs_device := d'\<rparr>) r q = Inr node"
proof -
  obtain b where b: "fs_read_block ops fs q = Inr b" using assms(1) by (auto simp: child_node_def read_extent_block_def res_elims)
  then have c: "contents (fs_device fs) q = Some (blk_data b)" "b = block_new q (blk_data b)"
    using read_sound [of "fs_device fs" q b] by (auto simp: fs_read_block_def block_new_def)
  have "fs_read_block ops (fs\<lparr>fs_device := d'\<rparr>) q = Inr b"
    using read_total [of d' q "blk_data b"] assms(2) c by (simp add: fs_read_block_def)
  then show ?thesis
    using assms(1) b by (simp add: child_node_def read_extent_block_def)
qed

lemma file_mapped_written:
  assumes m: "file_mapped ops fs (contents (fs_device fs)) r t n" and w: "file_mapped ops fs (contents d') r t n"
    and x: "data_exclusive t n"
    and o: "\<And>p. (\<forall>b. unat b < n \<longrightarrow> mapped_at (tree_extents t) b \<noteq> Some p) \<Longrightarrow> contents d' p = contents (fs_device fs) p"
  shows "file_mapped ops (fs\<lparr>fs_device := d'\<rparr>) (contents d') r t n"
proof -
  obtain k where k: "tree_on (child_node ops fs r) k (extent_root r) t" using m by (auto simp: file_mapped_def)
  have "tree_on (child_node ops (fs\<lparr>fs_device := d'\<rparr>) r) k (extent_root r) t"
  proof (rule tree_on_fetch [OF k])
    fix p node assume p: "p \<in> set (tree_blocks t)" "child_node ops fs r p = Inr node"
    have "contents d' p = contents (fs_device fs) p" using x p(1) by (intro o) (auto simp: data_exclusive_def)
    then show "child_node ops (fs\<lparr>fs_device := d'\<rparr>) r p = Inr node" by (rule child_node_same [OF p(2)])
  qed
  then show ?thesis using w by (auto simp: file_mapped_def)
qed

lemma unmapped_outside:
  assumes "file_mapped ops fs disk r t n" "off + len \<le> n * BLOCK_SIZE"
    and "\<forall>b. unat b < n \<longrightarrow> mapped_at (tree_extents t) b \<noteq> Some p"
  shows "outside_range t off len p"
  unfolding outside_range_def
proof (intro allI impI)
  fix k assume "off \<le> k \<and> k < off + len"
  then have "k < n * BLOCK_SIZE" using assms(2) by simp
  then have k: "k div BLOCK_SIZE < n" by (simp add: less_mult_imp_div_less)
  have "n < 2 ^ 32" using assms(1) by (simp add: file_mapped_def)
  then have "unat (lblock_of k) = k div BLOCK_SIZE" using k by (simp add: lblock_of_def unat_word_of_nat)
  then show "mapped_at (tree_extents t) (lblock_of k) \<noteq> Some p" using assms(3) k by simp
qed

lemma write_data_effect:
  assumes m: "file_mapped ops fs (contents (fs_device fs)) r t n" and x: "data_exclusive t n"
    and free: "ensure_mutable fs = Inr ()" "fs_metadata_gate fs = gate_new"
    and r: "cache_get (fs_inode_cache fs) i = Some r" "inode_is_file (ir_inode r)"
    and l: "off + length data \<le> n * BLOCK_SIZE"
    and mapped: "\<And>k. off \<le> k \<Longrightarrow> k < off + length data \<Longrightarrow> mapped_at (tree_extents t) (lblock_of k) \<noteq> None"
  shows "\<exists>d'. write_data_only ops fs i off data = (fs\<lparr>fs_device := d'\<rparr>, Inr (length data)) \<and>
    file_mapped ops (fs\<lparr>fs_device := d'\<rparr>) (contents d') r t n \<and>
    file_content (contents d') (tree_extents t) n = splice (file_content (contents (fs_device fs)) (tree_extents t) n) off data \<and>
    read_data ops (fs\<lparr>fs_device := d'\<rparr>) r off (length data) = Inr data \<and>
    (\<forall>p. outside_range t off (length data) p \<longrightarrow> contents d' p = contents (fs_device fs) p)"
proof -
  let ?fs = "fs\<lparr>fs_metadata_gate := 1\<rparr>"
  have m1: "file_mapped ops ?fs (contents (fs_device ?fs)) r t n" using m by simp
  obtain cs where cs: "data_chunks ops ?fs r (lblock_of off) off data = Inr cs"
    using data_chunks_ok [OF m1 l mapped] by blast
  obtain d' where d': "write_chunks ops ?fs cs = (?fs\<lparr>fs_device := d'\<rparr>, Inr ())" "file_mapped ops ?fs (contents d') r t n"
    "file_content (contents d') (tree_extents t) n = splice (file_content (contents (fs_device fs)) (tree_extents t) n) off data"
    "\<And>p. outside_range t off (length data) p \<Longrightarrow> contents d' p = contents (fs_device fs) p"
    using write_chunks_content [OF x m1 cs l] by auto
  have rest: "contents d' p = contents (fs_device fs) p" if "\<forall>b. unat b < n \<longrightarrow> mapped_at (tree_extents t) b \<noteq> Some p" for p
    by (rule d'(4)) (rule unmapped_outside [OF m l that])
  have read: "read_inode ops ?fs i = (?fs, Inr r)" using r(1) by (simp add: read_inode_def)
  have w: "write_data_only ops fs i off data = (fs\<lparr>fs_device := d'\<rparr>, Inr (length data))"
  proof -
    have "write_data_only ops fs i off data = (?fs\<lparr>fs_device := d'\<rparr>\<lparr>fs_metadata_gate := gate_new\<rparr>, Inr (length data))"
      unfolding write_data_only_def
      by (rule mutate_direct_free [OF free]) (simp_all add: read r(2) cs d'(1))
    then show ?thesis using free(2) by simp
  qed
  have f: "file_mapped ops (fs\<lparr>fs_device := d'\<rparr>) (contents d') r t n"
    using file_mapped_written [OF m _ x rest] d'(2) by simp
  have "read_data ops (fs\<lparr>fs_device := d'\<rparr>) r off (length data) = Inr (slice (file_content (contents d') (tree_extents t) n) off (length data))"
    using read_data_content [of "fs\<lparr>fs_device := d'\<rparr>" r t n off "length data"] f l by simp
  also have "slice (file_content (contents d') (tree_extents t) n) off (length data) = data"
    using length_file_content [OF m] l by (simp add: d'(3))
  finally show ?thesis using w f d'(3,4) by blast
qed

end

text \<open>C4: reading a file. On a device that serves its blocks, \<^verbatim>\<open>read\<close> on a regular file returns the bytes of the file's
  contents from the offset on, as many as the buffer holds and the size allows: the bytes of the mapped blocks in
  order, and zeros for the holes.\<close>

theorem file_read_correct:
  assumes "reliable_device ops contents" "read_inode ops fs i = (fs', Inr r)" "inode_is_file (ir_inode r)"
    and "file_mapped ops fs' (contents (fs_device fs')) r t n" "unat (inode_size (ir_inode r)) \<le> n * BLOCK_SIZE"
  shows "file_read ops fs i offset len =
    (fs', Inr (slice (take (unat (inode_size (ir_inode r))) (file_content (contents (fs_device fs')) (tree_extents t) n)) offset len))"
proof -
  let ?size = "unat (inode_size (ir_inode r))" and ?C = "file_content (contents (fs_device fs')) (tree_extents t) n"
  have l: "length ?C = n * BLOCK_SIZE" by (rule length_file_content [OF assms(4)])
  show ?thesis
  proof (cases "len = 0 \<or> offset \<ge> ?size")
    case True
    then show ?thesis using assms(2,3,5) l by (auto simp: file_read_def Let_def slice_def)
  next
    case False
    have "offset + min len (?size - offset) \<le> ?size" using False by linarith
    then have "offset + min len (?size - offset) \<le> n * BLOCK_SIZE" using assms(5) by (rule le_trans)
    then have "read_data ops fs' r offset (min len (?size - offset)) = Inr (slice ?C offset (min len (?size - offset)))"
      by (rule reliable_device.read_data_content [OF assms(1,4)])
    then show ?thesis using False assms(2,3) by (simp add: file_read_def Let_def slice_def drop_take min.commute)
  qed
qed

text \<open>C5: writing into allocated blocks. When every block of the range is mapped, no block of the file serves two
  purposes and no other mutation is under way, \<^verbatim>\<open>write_data_only\<close> succeeds: of the file system it changes nothing but the
  device, and of the device only the blocks that hold the range; every other block, of this file, of another or of the
  metadata, keeps its bytes. The contents of the file are those before with the data put at the offset, the tree of the
  file is intact, and reading the range returns the data.\<close>

theorem write_data_only_refines:
  assumes "reliable_device ops contents"
    and "file_mapped ops fs (contents (fs_device fs)) r t n" "data_exclusive t n"
    and "ensure_mutable fs = Inr ()" "fs_metadata_gate fs = gate_new"
    and "cache_get (fs_inode_cache fs) i = Some r" "inode_is_file (ir_inode r)"
    and "off + length data \<le> n * BLOCK_SIZE"
    and "\<And>k. off \<le> k \<Longrightarrow> k < off + length data \<Longrightarrow> mapped_at (tree_extents t) (lblock_of k) \<noteq> None"
  shows "\<exists>d'. write_data_only ops fs i off data = (fs\<lparr>fs_device := d'\<rparr>, Inr (length data)) \<and>
    file_mapped ops (fs\<lparr>fs_device := d'\<rparr>) (contents d') r t n \<and>
    file_content (contents d') (tree_extents t) n = splice (file_content (contents (fs_device fs)) (tree_extents t) n) off data \<and>
    read_data ops (fs\<lparr>fs_device := d'\<rparr>) r off (length data) = Inr data \<and>
    (\<forall>p. outside_range t off (length data) p \<longrightarrow> contents d' p = contents (fs_device fs) p)"
  by (rule reliable_device.write_data_effect [OF assms])

section \<open>Offsets\<close>

lemma high_offset_mod: "(off + 2 ^ 44 * k) mod BLOCK_SIZE = off mod BLOCK_SIZE"
proof -
  have "off + 2 ^ 44 * k = off + BLOCK_SIZE * (2 ^ 32 * k)" by (simp add: BLOCK_SIZE_def)
  then show ?thesis by (simp only: mod_mult_self2)
qed

lemma high_offset_lblock: "lblock_of (off + 2 ^ 44 * k) = lblock_of off"
proof -
  have "off + 2 ^ 44 * k = off + BLOCK_SIZE * (2 ^ 32 * k)" by (simp add: BLOCK_SIZE_def)
  then have d: "(off + 2 ^ 44 * k) div BLOCK_SIZE = 2 ^ 32 * k + off div BLOCK_SIZE" by (simp add: BLOCK_SIZE_def)
  have "(2 ^ 32 * k + off div BLOCK_SIZE) mod 2 ^ 32 = off div BLOCK_SIZE mod 2 ^ 32" by simp
  then show ?thesis
    unfolding lblock_of_def d by (simp only: word_unat_eq_iff unat_of_nat) simp
qed

lemma data_chunks_alias: "data_chunks ops fs r b (off + 2 ^ 44 * k) data = data_chunks ops fs r b off data"
proof (induction "length data" arbitrary: data off b rule: less_induct)
  case less
  show ?case
  proof (cases "data = []")
    case True
    then show ?thesis by (simp add: data_chunks.simps)
  next
    case False
    let ?l = "min (BLOCK_SIZE - off mod BLOCK_SIZE) (length data)"
    have "length (drop ?l data) < length data" using False by (simp add: BLOCK_SIZE_def)
    from less.hyps [OF this, of _ "off + ?l"]
    have "data_chunks ops fs r b (off + 2 ^ 44 * k + ?l) (drop ?l data) = data_chunks ops fs r b (off + ?l) (drop ?l data)" for b
      by (simp only: ac_simps)
    then show ?thesis by (simp only: data_chunks_step [OF False] high_offset_mod Let_def)
  qed
qed

text \<open>C35: offsets beyond the reach of block numbers. The data path cuts the number of a block to 32 bits: reading or
  writing data at an offset from \<open>2^44\<close> on reads or overwrites the bytes at the offset modulo \<open>2^44\<close>, without an error. The
  preparation of a direct range refuses the same offset with \<^verbatim>\<open>EFBIG\<close>.\<close>

theorem high_offsets_alias:
  assumes "0 < k" "0 < len" "off + 2 ^ 44 * k + len < USIZE_LIMIT"
  shows "write_data_only ops fs i (off + 2 ^ 44 * k) data = write_data_only ops fs i off data \<and>
    read_data ops fs r (off + 2 ^ 44 * k) len = read_data ops fs r off len \<and>
    direct_range_plan_of fs r (off + 2 ^ 44 * k) len = Inl (Err EFBIG)"
proof (intro conjI)
  show "write_data_only ops fs i (off + 2 ^ 44 * k) data = write_data_only ops fs i off data"
    by (simp only: write_data_only_def high_offset_lblock data_chunks_alias)
  show "read_data ops fs r (off + 2 ^ 44 * k) len = read_data ops fs r off len"
    by (simp only: read_data_def high_offset_lblock high_offset_mod)
  have "2 ^ 44 \<le> off + 2 ^ 44 * k" using assms(1) by simp
  then have "2 ^ 44 div BLOCK_SIZE \<le> (off + 2 ^ 44 * k) div BLOCK_SIZE" by (rule div_le_mono)
  then have "2 ^ 32 \<le> (off + 2 ^ 44 * k) div BLOCK_SIZE" by (simp add: BLOCK_SIZE_def)
  then show "direct_range_plan_of fs r (off + 2 ^ 44 * k) len = Inl (Err EFBIG)"
    using assms(2,3) by (simp add: direct_range_plan_of_def usize_checked_add_def Let_def)
qed

text \<open>C33: the plan of a direct range. A plan covers exactly the blocks the range touches, between 16 and 256 of them, with
  numbers that fit into 32 bits, and starts at or after the end of the file: no block it allocates holds data.\<close>

theorem direct_range_plan_bounds:
  assumes "direct_range_plan_of fs r off len = Inr (Some plan)"
  shows "unat (dp_start_lblock plan) = off div BLOCK_SIZE \<and>
    unat (dp_start_lblock plan) + unat (dp_count plan) = (off + len - 1) div BLOCK_SIZE + 1 \<and>
    16 \<le> unat (dp_count plan) \<and> unat (dp_count plan) \<le> 256 \<and>
    unat (dp_start_lblock plan) + unat (dp_count plan) < 2 ^ 32 \<and>
    unat (inode_size (ir_inode r)) \<le> unat (dp_start_lblock plan) * BLOCK_SIZE"
proof -
  let ?f = "off div BLOCK_SIZE" and ?e = "(off + len - 1) div BLOCK_SIZE"
  let ?c = "?e - ?f + 1"
  obtain sz where c: "len \<noteq> 0" "?f < 2 ^ 32" "?f + ?c < 2 ^ 32" "16 \<le> ?c" "?c \<le> 256"
    and sz: "checked_add (inode_size (ir_inode r)) (of_nat BLOCK_SIZE - 1) = Some sz" "\<not> ?f < unat sz div BLOCK_SIZE"
    and p: "dp_start_lblock plan = word_of_nat ?f" "dp_count plan = word_of_nat ?c"
    using assms
    by (auto simp: direct_range_plan_of_def usize_checked_add_def Let_def rbind_eq_Inr DIRECT_RANGE_MIN_BLOCKS_def
        DIRECT_RANGE_MAX_BLOCKS_def not_le not_less split: if_splits option.splits)
  have "?f \<le> ?e" using c(1) by (intro div_le_mono) simp
  then have e: "?f + ?c = ?e + 1" by simp
  have u: "unat (dp_start_lblock plan) = ?f" "unat (dp_count plan) = ?c"
    unfolding p using c(2,3) by (rule_tac unat_word_of_nat, simp)+
  have "unat sz = unat (inode_size (ir_inode r)) + (BLOCK_SIZE - 1)"
    using unat_checked_add [OF sz(1)] by (simp add: BLOCK_SIZE_def)
  moreover have "unat sz < ?f * BLOCK_SIZE + BLOCK_SIZE"
  proof -
    have "unat sz div BLOCK_SIZE * BLOCK_SIZE \<le> ?f * BLOCK_SIZE" using sz(2) by (intro mult_le_mono1) simp
    moreover have "unat sz mod BLOCK_SIZE < BLOCK_SIZE" by (simp add: BLOCK_SIZE_def)
    ultimately show ?thesis using div_mult_mod_eq [of "unat sz" BLOCK_SIZE] by linarith
  qed
  ultimately have "unat (inode_size (ir_inode r)) \<le> ?f * BLOCK_SIZE" by (simp add: BLOCK_SIZE_def)
  then show ?thesis unfolding u using c e by simp
qed

section \<open>Witnesses\<close>

text \<open>A file of three blocks with a hole in the middle, in the cache of the file system \<open>w_fs\<close>.\<close>

definition w_file :: inode_ref where
  "w_file = \<lparr>ir_id = 12, ir_inode = inode_default\<lparr>i_mode := 0x8000, i_size := 12283,
     i_block := w_node 0 [extent_to_bytes (extent_new 0 9 1), extent_to_bytes (extent_new 2 10 1)] 60\<rparr>\<rparr>"

definition w_file_fs :: "block_mem ext4" where
  "w_file_fs = w_fs\<lparr>fs_inode_cache := cache_insert w_file (cache_new INODE_CACHE_SIZE)\<rparr>"

definition w_file_tree :: etree where
  "w_file_tree = Leaf [extent_new 0 9 1, extent_new 2 10 1]"

lemma w_file_mapped_at:
  "mapped_at (tree_extents w_file_tree) b = (if b = 0 then Some 9 else if b = 2 then Some 10 else None)"
proof -
  have "ex_covers (extent_new 0 9 1) b \<longleftrightarrow> b = 0" "ex_covers (extent_new 2 10 1) b \<longleftrightarrow> b = 2"
    by (auto simp: ex_covers_def ex_end_def w_extent_values INIT_MAX_LEN_def word_le_nat_alt word_unat_eq_iff)
  moreover have "\<not> ex_is_unwritten (extent_new 0 9 1)" "\<not> ex_is_unwritten (extent_new 2 10 1)"
    by (simp_all add: ex_is_unwritten_def INIT_MAX_LEN_def extent_new_def)
  ultimately show ?thesis
    by (simp add: w_file_tree_def mapped_at_def w_extent_values) (simp add: extent_new_def ex_start_pblock_def)
qed

lemma w_file_cached: "cache_get (fs_inode_cache w_file_fs) 12 = Some w_file"
  by (simp add: w_file_fs_def cache_get_def cache_insert_def cache_new_def w_file_def INODE_CACHE_SIZE_def)

lemma w_file_file: "inode_is_file (ir_inode w_file)" "unat (inode_size (ir_inode w_file)) = 12283"
  by (simp_all add: w_file_def inode_default_def inode_is_file_def inode_file_type_def inode_mode_def mode_file_type_def
      TYPE_MASK_def inode_size_def)

lemma w_file_served:
  assumes "p = 9 \<or> p = 10"
  shows "served w_file_fs (mem_contents (fs_device w_file_fs)) p"
proof -
  have "fs_validate_data_blocks w_file_fs p 1 = Inr ()" "p < sb_block_count (fs_cached_super_block w_file_fs)"
    using assms by (auto simp: fs_validate_data_blocks_def validate_data_blocks_def checked_add_def w_file_fs_def w_fs_def
      w_mount_fields partition_point_def journal_owns_block_range_def)
  moreover have "mem_contents (fs_device w_file_fs) p = Some (replicate BLOCK_SIZE 0)"
    using assms by (auto simp: mem_contents_def w_file_fs_def w_fs_def w_mount_device_def nth_append nth_Cons')
  ultimately show ?thesis by (simp add: served_def)
qed

lemma w_file_mapped: "file_mapped ops w_file_fs (mem_contents (fs_device w_file_fs)) w_file w_file_tree 3"
proof -
  let ?ss = "[extent_to_bytes (extent_new 0 9 1), extent_to_bytes (extent_new 2 10 1)]"
  have v: "valid_node (w_node 0 ?ss 60) (w_node_header (length ?ss) 0) ?ss"
    by (rule w_node_valid) (simp_all add: extents_sorted_def ex_end_def w_extent_values INIT_MAX_LEN_def MAX_EXTENT_DEPTH_def)
  have "tree_on f 0 (extent_root w_file) w_file_tree" for f
    using v by (auto simp: w_file_tree_def extent_root_def w_file_def node_entries_def intro!: exI [of _ "w_node_header (length ?ss) 0"] exI [of _ ?ss])
  moreover have "tree_ordered 0 (2 ^ 32) w_file_tree"
    by (simp add: w_file_tree_def w_extent_values ex_end_def INIT_MAX_LEN_def)
  moreover have "0 \<notin> set (tree_blocks w_file_tree)" by (simp add: w_file_tree_def)
  ultimately show ?thesis
    unfolding file_mapped_def w_file_mapped_at using w_file_served by (auto split: if_splits)
qed

lemma w_file_exclusive: "data_exclusive w_file_tree 3"
  by (auto simp: data_exclusive_def w_file_mapped_at) (auto simp: w_file_tree_def split: if_splits)

theorem file_read_correct_witness: "file_read mem_ops w_file_fs 12 4090 10 = (w_file_fs, Inr (replicate 10 0))"
proof -
  have r: "read_inode mem_ops w_file_fs 12 = (w_file_fs, Inr w_file)" using w_file_cached by (simp add: read_inode_def)
  have "unat (inode_size (ir_inode w_file)) \<le> 3 * BLOCK_SIZE" by (simp add: w_file_file BLOCK_SIZE_def)
  note c = file_read_correct [OF mem.reliable_device_axioms r w_file_file(1) w_file_mapped this, of 4090 10]
  have b: "block_content (mem_contents (fs_device w_file_fs)) (tree_extents w_file_tree) b = replicate BLOCK_SIZE 0" for b
    using w_file_served [of 9] by (auto simp: block_content_def w_file_mapped_at mem_contents_def w_file_fs_def w_fs_def
        w_mount_device_def nth_append nth_Cons')
  have "file_content (mem_contents (fs_device w_file_fs)) (tree_extents w_file_tree) 3 = replicate (3 * BLOCK_SIZE) 0"
    by (simp add: file_content_def b upt_rec replicate_add [symmetric])
  then show ?thesis using c w_file_file(2) by (simp add: slice_def BLOCK_SIZE_def)
qed

lemma w_file_free: "ensure_mutable w_file_fs = Inr ()" "fs_metadata_gate w_file_fs = gate_new"
  by (simp_all add: ensure_mutable_def w_file_fs_def w_fs_def)

lemma w_file_first_block: "10 \<le> k \<Longrightarrow> k < 10 + length [1, 2, 3 :: u8] \<Longrightarrow> mapped_at (tree_extents w_file_tree) (lblock_of k) \<noteq> None"
  by (simp add: w_file_mapped_at lblock_of_def BLOCK_SIZE_def)

lemma w_file_outside: "outside_range w_file_tree 10 (length [1, 2, 3 :: u8]) 10"
  by (auto simp: outside_range_def w_file_mapped_at lblock_of_def BLOCK_SIZE_def)

theorem write_data_only_refines_witness:
  "\<exists>d'. write_data_only mem_ops w_file_fs 12 10 [1, 2, 3] = (w_file_fs\<lparr>fs_device := d'\<rparr>, Inr 3) \<and>
     read_data mem_ops (w_file_fs\<lparr>fs_device := d'\<rparr>) w_file 10 3 = Inr [1, 2, 3] \<and>
     mem_contents d' 10 = mem_contents (fs_device w_file_fs) 10"
proof -
  have "10 + length [1, 2, 3 :: u8] \<le> 3 * BLOCK_SIZE" by (simp add: BLOCK_SIZE_def)
  from write_data_only_refines [OF mem.reliable_device_axioms w_file_mapped w_file_exclusive w_file_free w_file_cached
      w_file_file(1) this w_file_first_block]
  have "\<exists>d'. write_data_only mem_ops w_file_fs 12 10 [1, 2, 3] = (w_file_fs\<lparr>fs_device := d'\<rparr>, Inr (length [1, 2, 3 :: u8])) \<and>
      read_data mem_ops (w_file_fs\<lparr>fs_device := d'\<rparr>) w_file 10 (length [1, 2, 3 :: u8]) = Inr [1, 2, 3] \<and>
      mem_contents d' 10 = mem_contents (fs_device w_file_fs) 10"
    using w_file_outside by blast
  moreover have "length [1, 2, 3 :: u8] = 3" by simp
  ultimately show ?thesis by (simp only:)
qed

theorem high_offsets_alias_witness:
  "read_data mem_ops w_file_fs w_file (2 ^ 44) 1 = read_data mem_ops w_file_fs w_file 0 1 \<and>
   direct_range_plan_of w_file_fs w_file (2 ^ 44) 1 = Inl (Err EFBIG)"
  using high_offsets_alias [of 1 1 0 mem_ops w_file_fs 12 "[]" w_file] by (simp add: USIZE_LIMIT_def)

definition w_new_file :: inode_ref where
  "w_new_file = \<lparr>ir_id = 12, ir_inode = inode_default\<lparr>i_flags := FLAG_EXTENTS,
     i_block := header_to_bytes (header_new 0 4 0 0) @ replicate 48 0\<rparr>\<rparr>"

lemma w_new_shape:
  "direct_append_shape_of w_fs w_new_file 0 16 = Inr (Some \<lparr>preferred_first = None, requires_merge = False\<rparr>)"
proof -
  let ?root = "header_to_bytes (header_new 0 4 0 0) @ replicate 48 0"
  have r: "extent_root w_new_file = ?root" "uses_extents (ir_inode w_new_file)"
    by (simp_all add: extent_root_def w_new_file_def uses_extents_def FLAG_EXTENTS_def)
  have h: "node_header ?root = Inr (header_new 0 4 0 0)" by (simp add: node_header_def slice_def)
  have v: "validate_extent_node ?root = Inr ()" "entry_capacity ?root = Inr 4"
    using h by (simp_all add: validate_extent_node_def header_check_magic_def header_new_def MAX_EXTENT_DEPTH_def entry_capacity_def
        usize_sub_def)
  show ?thesis using r h v by (simp add: direct_append_shape_of_def header_new_def)
qed

theorem direct_range_plan_bounds_witness:
  "\<exists>plan. direct_range_plan_of w_fs w_new_file 0 65536 = Inr (Some plan) \<and> unat (dp_start_lblock plan) = 0 \<and>
     unat (dp_count plan) = 16"
proof -
  have "inode_size (ir_inode w_new_file) = 0" by (simp add: w_new_file_def inode_size_def inode_default_def)
  then obtain plan where p: "direct_range_plan_of w_fs w_new_file 0 65536 = Inr (Some plan)"
    using w_new_shape by (simp add: direct_range_plan_of_def usize_checked_add_def USIZE_LIMIT_def BLOCK_SIZE_def Let_def
        DIRECT_RANGE_MIN_BLOCKS_def DIRECT_RANGE_MAX_BLOCKS_def checked_add_def)
  then show ?thesis using direct_range_plan_bounds [OF p] by (simp add: BLOCK_SIZE_def)
qed

end
