(* ===== verification/Xattr_Laws.thy ===== *)
theory Xattr_Laws
  imports Xattr_Ops File_Content
begin

text \<open>
  The attribute block of an inode as a finite map: the operations of \<open>Xattr_Ops\<close> look up, update and delete one name of
  it, under the flags of the call, and a failed change leaves the block alone.
\<close>

section \<open>Changed blocks keep their number\<close>

lemma write_offset_id: "block_write_offset b off bs = Inr b' \<Longrightarrow> blk_id b' = blk_id b"
  by (auto simp: block_write_offset_def rbind_eq_Inr)

lemma update_offsets_id: "update_offsets f b p e = Inr b' \<Longrightarrow> blk_id b' = blk_id b"
proof (induction f b p e rule: update_offsets.induct)
  case (1 f b p e)
  show ?case
  proof (cases "p < e")
    case True
    then obtain entry off b1 where "read_xattr_entry b p = Inr entry" "f (xe_value_offset entry) = Inr off"
      "block_write_offset b p (xe_to_bytes (entry\<lparr>xe_value_offset := off\<rparr>)) = Inr b1"
      "update_offsets f b1 (p + xe_used_size entry) e = Inr b'"
      using "1.prems" by (subst (asm) update_offsets.simps) (auto simp: rbind_eq_Inr)
    then show ?thesis using "1.IH" [OF True] write_offset_id by metis
  qed (use "1.prems" in \<open>simp add: update_offsets.simps\<close>)
qed

lemma xattr_insert_id: "xattr_insert b name v = Inr (b', ok) \<Longrightarrow> blk_id b' = blk_id b"
  unfolding xattr_insert_def Let_def
  by (auto simp: rbind_eq_Inr split: option.splits if_splits dest!: update_offsets_id write_offset_id)

lemma xattr_remove_id: "xattr_remove b name = Inr (b', ok) \<Longrightarrow> blk_id b' = blk_id b"
  unfolding xattr_remove_def by (auto simp: rbind_eq_Inr split: option.splits dest!: update_offsets_id)

section \<open>Blocks that verify\<close>

text \<open>Setting the checksum keeps the attributes and makes the block one that reads.\<close>

lemma xattr_block_sealed:
  assumes "xattr_layout b its"
  obtains b' where "update_xattr_block_checksum fs block_id b = Inr b'" "xattr_layout b' its" "blk_id b' = blk_id b"
    "verify_xattr_block_checksum fs block_id b' = Inr ()"
proof (cases "xattr_checksum_seed fs")
  case None
  then show ?thesis using that [of b] assms by (simp add: update_xattr_block_checksum_def verify_xattr_block_checksum_def)
next
  case (Some seed)
  obtain b' where b': "xattr_update_checksum b seed block_id = Inr (b', True)" "xattr_layout b' its"
    "xattr_verify_checksum b' seed block_id = Inr True"
    using xattr_checksum_detects [OF assms, of seed block_id] by blast
  have "block_wf b" using assms by (simp add: xattr_layout_def)
  from update_checksum_rep [OF this, of seed block_id] b'(1) have "blk_id b' = blk_id b" by auto
  then show ?thesis using that [of b'] b' Some by (simp add: update_xattr_block_checksum_def verify_xattr_block_checksum_def)
qed

section \<open>The attributes of an inode\<close>

abbreviation attrs :: "xitem list \<Rightarrow> u8 \<times> bytes \<Rightarrow> bytes option" where
  "attrs its \<equiv> map_of (xattr_contents its)"

definition has_xattrs :: "('d, 'z) ext4_scheme \<Rightarrow> (PBlockId \<Rightarrow> bytes option) \<Rightarrow> inode_ref \<Rightarrow> xitem list \<Rightarrow> bool" where
  "has_xattrs fs disk r its \<longleftrightarrow>
     (let block_id = xattr_block (ir_inode r) in
      block_id \<noteq> 0 \<and> distinct (map fst (xattr_contents its)) \<and>
      (\<exists>x. disk block_id = Some x \<and> xattr_layout (block_new block_id x) its \<and>
         verify_xattr_block_checksum fs block_id (block_new block_id x) = Inr ()))"

text \<open>Without the attribute of the given name, if there is one, the block has less than \<open>n\<close> bytes and the byte that ends the
  table free.\<close>

definition no_room :: "xitem list \<Rightarrow> u8 \<times> bytes \<Rightarrow> nat \<Rightarrow> bool" where
  "no_room its k n \<longleftrightarrow> (\<exists>rest. xattr_contents rest = delete_first k (xattr_contents its) \<and> xfree rest \<le> n)"

lemma delete_first_none: "map_of xs k = None \<Longrightarrow> delete_first k xs = xs"
  by (induction xs) (auto split: if_splits)

lemma insert_attr:
  assumes "xattr_layout b its" "snd (match_name name) \<noteq> []" "length (snd (match_name name)) \<le> 255"
    and "attrs its (match_name name) = None" "distinct (map fst (xattr_contents its))"
  shows "(xfree its \<le> xe_required_size name + length v \<and> xattr_insert b name v = Inr (b, False)) \<or>
    (\<exists>b' its'. xattr_insert b name v = Inr (b', True) \<and> xattr_layout b' its' \<and> distinct (map fst (xattr_contents its')) \<and>
       attrs its' = (attrs its)(match_name name \<mapsto> v))"
proof -
  obtain i sfx where m: "match_name name = (i, sfx)" by (cases "match_name name")
  let ?xs = "takeWhile (before_new name) its" and ?ys = "dropWhile (before_new name) its"
  note rep = xattr_insert_rep [OF assms(1) m, of v]
  show ?thesis
  proof (cases "xe_required_size name + length v < xfree its")
    case True
    with rep obtain b' ns bs' where r: "xattr_insert b name v = Inr (b', True)"
      "xattr_layout b' (?xs @ (ns, v) # bs')" "slot_key ns = (i, sfx)" "xattr_contents bs' = xattr_contents ?ys"
      using assms(2,3) m by auto
    have c: "xattr_contents its = xattr_contents ?xs @ xattr_contents ?ys"
      by (metis takeWhile_dropWhile_id xattr_contents_simps(3))
    have k: "(i, sfx) \<notin> fst ` set (xattr_contents its)" using assms(4) m by (simp add: map_of_eq_None_iff)
    then have "distinct (map fst (xattr_contents (?xs @ (ns, v) # bs')))"
      using assms(5) r(3,4) by (auto simp: c)
    moreover have "attrs (?xs @ (ns, v) # bs') = (attrs its)(match_name name \<mapsto> v)"
    proof -
      have "(i, sfx) \<notin> fst ` set (xattr_contents ?xs)" using k by (auto simp: c)
      then have "map_of (xattr_contents ?xs) (i, sfx) = None" by (simp add: map_of_eq_None_iff)
      then show ?thesis by (auto simp: fun_eq_iff c r(3,4) m map_add_def split: option.splits)
    qed
    ultimately show ?thesis using r(1,2) by blast
  next
    case False
    then show ?thesis using rep assms(2,3) m by auto
  qed
qed

lemma distinct_delete_first: "distinct (map fst xs) \<Longrightarrow> distinct (map fst (delete_first k xs))"
proof (induction xs)
  case (Cons x xs)
  have "set (delete_first k xs) \<subseteq> set xs" by (induction xs) auto
  then show ?case using Cons by auto
qed simp

lemma remove_attr:
  assumes "xattr_layout b its" "attrs its (match_name name) \<noteq> None" "distinct (map fst (xattr_contents its))"
  obtains b' its' where "xattr_remove b name = Inr (b', True)" "xattr_layout b' its'" "distinct (map fst (xattr_contents its'))"
    "attrs its' = (attrs its)(match_name name := None)" "xattr_contents its' = delete_first (match_name name) (xattr_contents its)"
proof -
  have "match_name name \<in> fst ` set (xattr_contents its)" using assms(2) by (metis map_of_eq_None_iff)
  with xattr_remove_rep [OF assms(1), of name] obtain b' its' where r: "xattr_remove b name = Inr (b', True)" "xattr_layout b' its'"
    "xattr_contents its' = delete_first (match_name name) (xattr_contents its)" by auto
  have "attrs its' = (attrs its)(match_name name := None)"
    by (rule ext) (simp add: r(3) map_of_delete_first [OF assms(3)])
  then show thesis using that r distinct_delete_first [OF assms(3)] by simp
qed

section \<open>The operations\<close>

lemma xattr_checksum_views [simp]:
  "verify_xattr_block_checksum (fs\<lparr>fs_metadata_gate := g\<rparr>) = verify_xattr_block_checksum fs"
  "verify_xattr_block_checksum (fs\<lparr>fs_device := d\<rparr>) = verify_xattr_block_checksum fs"
  "update_xattr_block_checksum (fs\<lparr>fs_metadata_gate := g\<rparr>) = update_xattr_block_checksum fs"
  by (intro ext, simp add: verify_xattr_block_checksum_def update_xattr_block_checksum_def xattr_checksum_seed_def cong: option.case_cong)+

lemma mutate_direct_cached:
  assumes "ensure_mutable fs = Inr ()" "fs_metadata_gate fs = gate_new" "cache_get (fs_inode_cache fs) i = Some r"
    and "f (fs\<lparr>fs_metadata_gate := 1\<rparr>) r = (fs\<lparr>fs_device := d', fs_metadata_gate := 1\<rparr>, x)"
  shows "mutate_direct fs (\<lambda>fs. sbind (read_inode ops fs i) f) = (fs\<lparr>fs_device := d'\<rparr>, x)"
proof -
  have "mutate_direct fs (\<lambda>fs. sbind (read_inode ops fs i) f) = (fs\<lparr>fs_device := d', fs_metadata_gate := 1\<rparr>\<lparr>fs_metadata_gate := gate_new\<rparr>, x)"
    by (rule mutate_direct_free [OF assms(1,2)]) (simp_all add: read_inode_def assms(3,4))
  then show ?thesis using assms(2) by simp
qed

context reliable_device
begin

lemma read_attrs:
  assumes "has_xattrs fs (contents (fs_device fs)) r its"
  obtains x where "read_xattr_block ops fs (xattr_block (ir_inode r)) = Inr (block_new (xattr_block (ir_inode r)) x)"
    "xattr_layout (block_new (xattr_block (ir_inode r)) x) its" "contents (fs_device fs) (xattr_block (ir_inode r)) = Some x"
    "xattr_block (ir_inode r) \<noteq> 0" "distinct (map fst (xattr_contents its))"
  using assms read_total by (fastforce simp: has_xattrs_def Let_def read_xattr_block_def fs_read_block_def)

lemma getxattr_attrs:
  assumes "has_xattrs fs (contents (fs_device fs)) r its" "cache_get (fs_inode_cache fs) i = Some r"
  shows "getxattr ops fs i name = (fs, ok_or (attrs its (match_name name)) ENODATA)"
proof -
  obtain x where x: "read_xattr_block ops fs (xattr_block (ir_inode r)) = Inr (block_new (xattr_block (ir_inode r)) x)"
    "xattr_layout (block_new (xattr_block (ir_inode r)) x) its" "xattr_block (ir_inode r) \<noteq> 0"
    using assms(1) by (rule read_attrs)
  show ?thesis using x assms(2) xattr_get_rep [OF x(2)] by (simp add: getxattr_def read_inode_def Let_def)
qed

text \<open>The block written back in place of the old one.\<close>

lemma write_attrs:
  assumes "has_xattrs fs (contents (fs_device fs)) r its" "xattr_layout b its'" "distinct (map fst (xattr_contents its'))"
    and "blk_id b = xattr_block (ir_inode r)"
  obtains b' d' where "update_xattr_block_checksum fs (xattr_block (ir_inode r)) b = Inr b'"
    "fs_write_block ops (fs\<lparr>fs_metadata_gate := 1\<rparr>) b' = (fs\<lparr>fs_device := d', fs_metadata_gate := 1\<rparr>, Inr ())"
    "has_xattrs (fs\<lparr>fs_device := d'\<rparr>) (contents d') r its'"
proof -
  let ?id = "xattr_block (ir_inode r)"
  obtain x where x: "contents (fs_device fs) ?id = Some x" "?id \<noteq> 0" using assms(1) by (rule read_attrs)
  obtain b' where b': "update_xattr_block_checksum fs ?id b = Inr b'" "xattr_layout b' its'" "blk_id b' = ?id"
    "verify_xattr_block_checksum fs ?id b' = Inr ()" using xattr_block_sealed [OF assms(2), of fs ?id] assms(4) by metis
  have e: "block_new ?id (blk_data b') = b'" using b'(3) by (simp add: block_new_def)
  obtain d' where d': "write_block ops (fs_device fs) b' = (d', Inr ())" "contents d' = (contents (fs_device fs))(?id \<mapsto> blk_data b')"
    using write_contents [of "fs_device fs" ?id "blk_data b'"] x(1) e by auto
  show thesis
  proof (rule that [OF b'(1)])
    show "fs_write_block ops (fs\<lparr>fs_metadata_gate := 1\<rparr>) b' = (fs\<lparr>fs_device := d', fs_metadata_gate := 1\<rparr>, Inr ())"
      using d'(1) by (simp add: fs_write_block_def)
    show "has_xattrs (fs\<lparr>fs_device := d'\<rparr>) (contents d') r its'"
      using b' e x(2) assms(3) d'(2) by (simp add: has_xattrs_def Let_def)
  qed
qed

lemma setxattr_effect:
  fixes v :: bytes and create replace :: bool
  assumes h: "has_xattrs fs (contents (fs_device fs)) r its"
    and free: "ensure_mutable fs = Inr ()" "fs_metadata_gate fs = gate_new" "cache_get (fs_inode_cache fs) i = Some r"
    and n: "snd (match_name name) \<noteq> []" "length (snd (match_name name)) \<le> 255"
  defines "res \<equiv> setxattr_with_flags ops fs i name v create replace"
  shows "if attrs its (match_name name) \<noteq> None \<and> create then res = (fs, Inl (Err EEXIST))
    else if attrs its (match_name name) = None \<and> replace then res = (fs, Inl (Err ENODATA))
    else (res = (fs, Inl (Err ENOSPC)) \<and> no_room its (match_name name) (xe_required_size name + length v) \<and>
        (attrs its (match_name name) = None \<longrightarrow> xfree its \<le> xe_required_size name + length v)) \<or>
      (\<exists>d' its'. res = (fs\<lparr>fs_device := d'\<rparr>, Inr ()) \<and> has_xattrs (fs\<lparr>fs_device := d'\<rparr>) (contents d') r its' \<and>
         attrs its' = (attrs its)(match_name name \<mapsto> v))"
proof -
  let ?id = "xattr_block (ir_inode r)" and ?fs = "fs\<lparr>fs_metadata_gate := 1\<rparr>" and ?k = "match_name name"
  obtain x where x: "read_xattr_block ops fs ?id = Inr (block_new ?id x)" "xattr_layout (block_new ?id x) its" "?id \<noteq> 0"
    "distinct (map fst (xattr_contents its))" using h by (rule read_attrs)
  have rd: "read_xattr_block ops ?fs ?id = Inr (block_new ?id x)" using x(1) by (simp add: read_xattr_block_def)
  note get = xattr_get_rep [OF x(2), of name]
  have run: "res = (fs\<lparr>fs_device := d'\<rparr>, y)"
    if "sbind (?fs, changed_xattr_block ?fs ?id (block_new ?id x) name v create replace) (\<lambda>fs b. fs_write_block ops fs b)
      = (fs\<lparr>fs_device := d', fs_metadata_gate := 1\<rparr>, y)" for d' y
    unfolding res_def setxattr_with_flags_def
    by (rule mutate_direct_cached [OF free]) (use that rd x(3) in \<open>simp add: Let_def\<close>)
  have fail: "res = (fs, Inl e)" if "changed_xattr_block ?fs ?id (block_new ?id x) name v create replace = Inl e" for e
    using run [of "fs_device fs" "Inl e"] that by simp
  have same: "fs\<lparr>fs_device := fs_device fs\<rparr> = fs" by simp
  show ?thesis
  proof (cases "attrs its ?k \<noteq> None \<and> create \<or> attrs its ?k = None \<and> replace")
    case True
    then show ?thesis using fail get by (auto simp: changed_xattr_block_def Let_def)
  next
    case ok: False
    obtain b its1 where b: "(if attrs its ?k \<noteq> None then rbind (xattr_remove (block_new ?id x) name) (\<lambda>(b, _). Inr b)
        else Inr (block_new ?id x)) = Inr b" "xattr_layout b its1" "distinct (map fst (xattr_contents its1))" "blk_id b = ?id"
      "attrs its1 = (attrs its)(?k := None)" "xattr_contents its1 = delete_first ?k (xattr_contents its)"
      "attrs its ?k = None \<Longrightarrow> its1 = its"
    proof (cases "attrs its ?k = None")
      case True
      then have "attrs its = (attrs its)(?k := None)" by (simp add: fun_eq_iff)
      then show ?thesis using that [of "block_new ?id x" its] True x delete_first_none [OF True] by (simp add: block_new_def)
    next
      case False
      obtain b its1 where "xattr_remove (block_new ?id x) name = Inr (b, True)" "xattr_layout b its1"
        "distinct (map fst (xattr_contents its1))" "attrs its1 = (attrs its)(?k := None)"
        "xattr_contents its1 = delete_first ?k (xattr_contents its)"
        using remove_attr [OF x(2) False x(4)] by blast
      then show ?thesis using that [of b its1] False xattr_remove_id by (auto simp: block_new_def)
    qed
    have step: "changed_xattr_block ?fs ?id (block_new ?id x) name v create replace =
        rbind (xattr_insert b name v) (\<lambda>(b, done). if done then update_xattr_block_checksum fs ?id b else Inl (Err ENOSPC))"
      unfolding changed_xattr_block_def get rbind.simps Let_def b(1) xattr_checksum_views using ok by auto
    have none: "attrs its1 ?k = None" by (simp add: b(5))
    from insert_attr [OF b(2) n none b(3), of v]
    show ?thesis
    proof (elim disjE conjE exE)
      assume f: "xfree its1 \<le> xe_required_size name + length v" "xattr_insert b name v = Inr (b, False)"
      then have "no_room its ?k (xe_required_size name + length v)" using b(6) by (auto simp: no_room_def)
      then show ?thesis using fail [of "Err ENOSPC"] step ok f b(7) by auto
    next
      fix b' its' assume i: "xattr_insert b name v = Inr (b', True)" "xattr_layout b' its'" "distinct (map fst (xattr_contents its'))"
        "attrs its' = (attrs its1)(?k \<mapsto> v)"
      obtain b2 d' where w: "update_xattr_block_checksum fs ?id b' = Inr b2"
        "fs_write_block ops ?fs b2 = (fs\<lparr>fs_device := d', fs_metadata_gate := 1\<rparr>, Inr ())"
        "has_xattrs (fs\<lparr>fs_device := d'\<rparr>) (contents d') r its'"
        using write_attrs [OF h i(2,3)] xattr_insert_id [OF i(1)] b(4) by metis
      have "res = (fs\<lparr>fs_device := d'\<rparr>, Inr ())" using run [of d' "Inr ()"] step i(1) w by simp
      moreover have "attrs its' = (attrs its)(?k \<mapsto> v)" by (simp add: i(4) b(5))
      ultimately show ?thesis using w(3) ok by auto
    qed
  qed
qed

lemma removexattr_effect:
  assumes h: "has_xattrs fs (contents (fs_device fs)) r its"
    and free: "ensure_mutable fs = Inr ()" "fs_metadata_gate fs = gate_new" "cache_get (fs_inode_cache fs) i = Some r"
  shows "if attrs its (match_name name) = None then removexattr ops fs i name = (fs, Inl (Err ENODATA))
    else \<exists>d' its'. removexattr ops fs i name = (fs\<lparr>fs_device := d'\<rparr>, Inr ()) \<and>
      has_xattrs (fs\<lparr>fs_device := d'\<rparr>) (contents d') r its' \<and> attrs its' = (attrs its)(match_name name := None)"
proof -
  let ?id = "xattr_block (ir_inode r)" and ?fs = "fs\<lparr>fs_metadata_gate := 1\<rparr>" and ?k = "match_name name"
  obtain x where x: "read_xattr_block ops fs ?id = Inr (block_new ?id x)" "xattr_layout (block_new ?id x) its" "?id \<noteq> 0"
    "distinct (map fst (xattr_contents its))" using h by (rule read_attrs)
  have rd: "read_xattr_block ops ?fs ?id = Inr (block_new ?id x)" using x(1) by (simp add: read_xattr_block_def)
  have run: "removexattr ops fs i name = (fs\<lparr>fs_device := d'\<rparr>, y)"
    if "sbind (?fs, rbind (xattr_remove (block_new ?id x) name) (\<lambda>(b, done).
        if done then update_xattr_block_checksum ?fs ?id b else Inl (Err ENODATA))) (\<lambda>fs b. fs_write_block ops fs b)
      = (fs\<lparr>fs_device := d', fs_metadata_gate := 1\<rparr>, y)" for d' y
    unfolding removexattr_def
    by (rule mutate_direct_cached [OF free]) (use that rd x(3) in \<open>simp add: Let_def\<close>)
  show ?thesis
  proof (cases "attrs its ?k = None")
    case True
    then have "?k \<notin> fst ` set (xattr_contents its)" by (simp add: map_of_eq_None_iff)
    then have "xattr_remove (block_new ?id x) name = Inr (block_new ?id x, False)" using xattr_remove_rep [OF x(2), of name] by simp
    then show ?thesis using run [of "fs_device fs" "Inl (Err ENODATA)"] True by simp
  next
    case False
    obtain b its' where b: "xattr_remove (block_new ?id x) name = Inr (b, True)" "xattr_layout b its'"
      "distinct (map fst (xattr_contents its'))" "attrs its' = (attrs its)(?k := None)"
      using remove_attr [OF x(2) False x(4)] by blast
    have "blk_id b = ?id" using xattr_remove_id [OF b(1)] by (simp add: block_new_def)
    then obtain b2 d' where w: "update_xattr_block_checksum fs ?id b = Inr b2"
      "fs_write_block ops ?fs b2 = (fs\<lparr>fs_device := d', fs_metadata_gate := 1\<rparr>, Inr ())"
      "has_xattrs (fs\<lparr>fs_device := d'\<rparr>) (contents d') r its'"
      using write_attrs [OF h b(2,3)] by metis
    have "removexattr ops fs i name = (fs\<lparr>fs_device := d'\<rparr>, Inr ())" using run [of d' "Inr ()"] b(1) w by simp
    then show ?thesis using w(3) b(4) False by auto
  qed
qed

end


text \<open>C32: removing an attribute: \<^verbatim>\<open>ENODATA\<close> and no change when the name has none; otherwise exactly that name is gone.\<close>

theorem removexattr_refines:
  assumes "reliable_device ops contents" "has_xattrs fs (contents (fs_device fs)) r its"
    and "ensure_mutable fs = Inr ()" "fs_metadata_gate fs = gate_new" "cache_get (fs_inode_cache fs) i = Some r"
  shows "if attrs its (match_name name) = None then removexattr ops fs i name = (fs, Inl (Err ENODATA))
    else \<exists>d' its'. removexattr ops fs i name = (fs\<lparr>fs_device := d'\<rparr>, Inr ()) \<and>
      has_xattrs (fs\<lparr>fs_device := d'\<rparr>) (contents d') r its' \<and> attrs its' = (attrs its)(match_name name := None)"
  by (rule reliable_device.removexattr_effect [OF assms])

section \<open>Witnesses\<close>

definition w_attr_inode :: inode_ref where
  "w_attr_inode = \<lparr>ir_id = 12, ir_inode = inode_default\<lparr>i_file_acl := 9\<rparr>\<rparr>"

definition w_attr_fs :: "block_mem ext4" where
  "w_attr_fs = w_fs\<lparr>fs_device := w_mount_device[9 := blk_data w_xattr],
     fs_inode_cache := cache_insert w_attr_inode (cache_new INODE_CACHE_SIZE)\<rparr>"

lemma w_attrs: "has_xattrs w_attr_fs (mem_contents (fs_device w_attr_fs)) w_attr_inode []"
proof -
  have b: "xattr_block (ir_inode w_attr_inode) = 9" by (simp add: w_attr_inode_def inode_default_def xattr_block_def)
  have "mem_contents (fs_device w_attr_fs) 9 = Some (blk_data w_xattr)"
    by (simp add: w_attr_fs_def mem_contents_def w_mount_device_def)
  moreover have "xattr_layout (block_new 9 (blk_data w_xattr)) []"
    using w_xattr_layout(1) by (simp add: xattr_layout_def block_new_def block_wf_def)
  moreover have "verify_xattr_block_checksum w_attr_fs 9 c = Inr ()" for c
    by (simp add: verify_xattr_block_checksum_def xattr_checksum_seed_def w_attr_fs_def w_fs_def)
  ultimately show ?thesis by (simp add: has_xattrs_def b Let_def)
qed

lemma w_attr_free: "ensure_mutable w_attr_fs = Inr ()" "fs_metadata_gate w_attr_fs = gate_new"
  "cache_get (fs_inode_cache w_attr_fs) 12 = Some w_attr_inode"
  by (simp_all add: ensure_mutable_def w_attr_fs_def w_fs_def cache_get_def cache_insert_def cache_new_def w_attr_inode_def INODE_CACHE_SIZE_def)


theorem removexattr_refines_witness: "removexattr mem_ops w_attr_fs 12 (ascii ''user.a'') = (w_attr_fs, Inl (Err ENODATA))"
  using removexattr_refines [OF mem.reliable_device_axioms w_attrs w_attr_free, of "ascii ''user.a''"] by simp

end
