(* ===== verification/Path_Laws.thy ===== *)
theory Path_Laws
  imports Path_Ops Block_Accounting
begin

text \<open>
  What paths mean: the parent of a path is the path without its last name, and the path of the root has no last name.
\<close>

section \<open>Splitting and joining\<close>

lemma split_at_slash_ne: "split_at_slash p \<noteq> []"
  by (cases p) (auto split: list.splits)

lemma split_at_slash_parts: "q \<in> set (split_at_slash p) \<Longrightarrow> slash \<notin> set q"
proof (induction p arbitrary: q)
  case (Cons c cs)
  then show ?case using split_at_slash_ne [of cs] by (auto split: if_splits list.splits)
qed simp

lemma split_at_slash_plain: "slash \<notin> set p \<Longrightarrow> split_at_slash p = [p]"
  by (induction p) auto

lemma split_at_slash_append: "slash \<notin> set p \<Longrightarrow> split_at_slash (p @ slash # q) = p # split_at_slash q"
  by (induction p) auto

lemma split_join: "ps \<noteq> [] \<Longrightarrow> \<forall>p \<in> set ps. slash \<notin> set p \<Longrightarrow> split_at_slash (join_path ps) = ps"
  by (induction ps rule: join_path.induct) (simp_all add: split_at_slash_plain split_at_slash_append)

lemma hd_split_at_slash: "p \<noteq> [] \<Longrightarrow> hd p \<noteq> slash \<Longrightarrow> hd (split_at_slash p) \<noteq> []"
  by (cases p) (auto split: list.splits)

lemma split_path_first: "split_path path \<noteq> [] \<Longrightarrow> hd (split_path path) \<noteq> []"
proof -
  let ?p = "dropWhile (\<lambda>c. c = slash) path"
  assume "split_path path \<noteq> []"
  then have "?p \<noteq> []" "split_path path = split_at_slash ?p" by (auto simp: split_path_def Let_def split: if_splits)
  then show ?thesis using hd_split_at_slash [of ?p] hd_dropWhile [of "\<lambda>c. c = slash" path] by simp
qed

lemma split_path_parts: "q \<in> set (split_path path) \<Longrightarrow> slash \<notin> set q"
  by (auto simp: split_path_def Let_def split_at_slash_parts split: if_splits)

text \<open>Joining the names of a path but the last, as the callers do, and splitting again gives these names.\<close>

lemma split_parent_path:
  assumes "split_path path \<noteq> []"
  shows "split_path (join_path (butlast (split_path path))) = butlast (split_path path)"
proof (cases "butlast (split_path path)")
  case Nil
  then show ?thesis by (simp add: split_path_def)
next
  case (Cons p ps)
  let ?qs = "butlast (split_path path)"
  have "hd (split_path path) = p" using Cons assms by (cases "split_path path") (auto split: if_splits)
  then have p: "p \<noteq> []" using split_path_first [OF assms] by simp
  have q: "\<forall>q \<in> set ?qs. slash \<notin> set q" using split_path_parts by (auto dest: in_set_butlastD)
  have "hd p \<noteq> slash" using p q Cons by (cases p) auto
  then obtain c cs where c: "join_path ?qs = c # cs" "c \<noteq> slash" using p Cons by (cases p; cases ps) auto
  then show ?thesis using split_join [of ?qs] q Cons by (simp add: split_path_def)
qed

lemma lookup_path_append:
  "lookup_path ops fs cur (ps @ [p]) = sbind (lookup_path ops fs cur ps) (\<lambda>fs cur. lookup_name ops fs cur p)"
proof (induction ps arbitrary: fs cur)
  case Nil
  show ?case by (cases "lookup_name ops fs cur p"; cases "snd (lookup_name ops fs cur p)") (auto simp: sbind_def)
next
  case (Cons q ps)
  show ?case by (cases "lookup_name ops fs cur q"; cases "snd (lookup_name ops fs cur q)") (auto simp: Cons sbind_def)
qed

text \<open>C36: the parent of a path. The parent that \<^verbatim>\<open>generic_remove\<close> and \<^verbatim>\<open>generic_rename\<close> find through the joined path, followed by the
  lookup of the last name in it, is the lookup of the whole path: with the same result and the same reads, for every
  path, also with repeated, leading and trailing separators.\<close>

theorem path_lookup_parent:
  assumes "split_last path = Inr (parent_path, name)"
  shows "generic_lookup ops fs root path =
    sbind (generic_lookup ops fs root parent_path) (\<lambda>fs parent. lookup_name ops fs parent name)"
proof -
  have s: "split_path path \<noteq> []" and p: "parent_path = join_path (butlast (split_path path))" "name = last (split_path path)"
    using assms by (auto simp: split_last_def Let_def split: if_splits)
  have "lookup_path ops fs root (butlast (split_path path) @ [last (split_path path)]) =
      sbind (lookup_path ops fs root (butlast (split_path path))) (\<lambda>fs parent. lookup_name ops fs parent (last (split_path path)))"
    by (rule lookup_path_append)
  then show ?thesis using s by (simp add: generic_lookup_def p split_parent_path)
qed

lemma split_path_root: "split_path path = [] \<longleftrightarrow> (\<forall>c \<in> set path. c = slash)"
  by (simp add: split_path_def Let_def split_at_slash_ne dropWhile_eq_Nil_conv)

text \<open>C37: the path of the root. On a path of separators only, the empty one included, \<^verbatim>\<open>generic_lookup\<close> returns the starting
  directory, but \<^verbatim>\<open>generic_remove\<close> and \<^verbatim>\<open>generic_rename\<close> panic before they look at the file system: they take the last
  of no names.\<close>

theorem root_path_panics:
  assumes "\<forall>c \<in> set path. c = slash"
  shows "generic_lookup ops fs root path = (fs, Inr root) \<and> generic_remove ops fs root path = Some (fs, Inl Panic) \<and>
    generic_rename ops fs root path dst = Some (fs, Inl Panic)"
  using assms split_path_root [of path]
  by (simp add: generic_lookup_def generic_remove_def generic_rename_def split_last_def reclaim_removed_def)

section \<open>Witnesses\<close>

theorem path_lookup_parent_witness:
  "generic_lookup mem_ops w_fs 2 [0x2F, 97, 0x2F, 98] =
     sbind (generic_lookup mem_ops w_fs 2 [97]) (\<lambda>fs parent. lookup_name mem_ops fs parent [98])"
proof -
  have "split_last [0x2F, 97, 0x2F, 98] = Inr ([97], [98])" by (simp add: split_last_def split_path_def slash_def)
  then show ?thesis by (rule path_lookup_parent)
qed

theorem root_path_panics_witness: "generic_remove mem_ops w_fs 2 [0x2F] = Some (w_fs, Inl Panic)"
  using root_path_panics [of "[0x2F]" mem_ops w_fs 2] by (simp add: slash_def)

end
