(* ===== verification/Fail_Stop.thy ===== *)
theory Fail_Stop
  imports Namespace File_Content
begin

text \<open>
  The discipline of errors of the operations that move names: an operation that returns an error has either left the
  device as it was or has poisoned the file system, which refuses every later mutation.
\<close>

definition fail_stop :: "('d, 'z) ext4_scheme \<Rightarrow> ('d, 'z) ext4_scheme \<times> 'a res \<Rightarrow> bool" where
  "fail_stop fs m \<longleftrightarrow> (\<forall>e. snd m = Inl (Err e) \<longrightarrow> fs_device (fst m) = fs_device fs \<or> fs_poisoned (fst m) \<noteq> None)"

text \<open>A step that only reads, and one that poisons when it fails.\<close>

definition reads_only :: "('d, 'z) ext4_scheme \<Rightarrow> ('d, 'z) ext4_scheme \<times> 'a res \<Rightarrow> bool" where
  "reads_only fs m \<longleftrightarrow> fs_device (fst m) = fs_device fs"

definition poisons :: "('d, 'z) ext4_scheme \<times> 'a res \<Rightarrow> bool" where
  "poisons m \<longleftrightarrow> (\<forall>e. snd m = Inl (Err e) \<longrightarrow> fs_poisoned (fst m) \<noteq> None)"

named_theorems fail_stop_intros

lemma reads_only_pure [fail_stop_intros]: "reads_only fs (fs, x)"
  by (simp add: reads_only_def)

lemma reads_only_sbind [fail_stop_intros]:
  "reads_only fs m \<Longrightarrow> (\<And>fs' x. m = (fs', Inr x) \<Longrightarrow> reads_only fs' (f fs' x)) \<Longrightarrow> reads_only fs (sbind m f)"
  by (cases m; cases "snd m") (auto simp: reads_only_def sbind_def)

lemma fail_stop_reads: "reads_only fs m \<Longrightarrow> fail_stop fs m"
  by (simp add: reads_only_def fail_stop_def)

lemma fail_stop_poisons: "poisons m \<Longrightarrow> fail_stop fs m"
  by (simp add: poisons_def fail_stop_def)

lemma fail_stop_sbind:
  "reads_only fs m \<Longrightarrow> (\<And>fs' x. m = (fs', Inr x) \<Longrightarrow> fail_stop fs' (f fs' x)) \<Longrightarrow> fail_stop fs (sbind m f)"
  by (cases m; cases "snd m") (auto simp: reads_only_def fail_stop_def sbind_def)

lemma fail_stop_sbind_poisons:
  "fail_stop fs m \<Longrightarrow> (\<And>fs' x. m = (fs', Inr x) \<Longrightarrow> poisons (f fs' x)) \<Longrightarrow> fail_stop fs (sbind m f)"
  by (cases m; cases "snd m") (auto simp: poisons_def fail_stop_def sbind_def)

lemma poisons_sbind:
  "poisons m \<Longrightarrow> (\<And>fs' x. m = (fs', Inr x) \<Longrightarrow> poisons (f fs' x)) \<Longrightarrow> poisons (sbind m f)"
  by (cases m; cases "snd m") (auto simp: poisons_def sbind_def)

lemma poisons_Inr [simp]: "poisons (fs, Inr x)"
  by (simp add: poisons_def)

lemma poisons_poisoned [simp]: "poisons (poisoned m)"
  by (auto simp: poisons_def poisoned_def poison_on_error_def fs_poison_def)

lemma poisons_chk: "poisons (fs, sub_chk a b)" "poisons (fs, add_chk a b)"
  by (auto simp: poisons_def sub_chk_def add_chk_def)

lemma poisons_write_links [simp]: "poisons (write_links ops fs r n)"
  by (auto simp: poisons_def write_links_def poisoned_inode_def fs_poison_def split: prod.splits sum.splits)

section \<open>Readers\<close>

lemma read_inode_reads [simp]: "reads_only fs (read_inode ops fs i)"
  by (auto simp: reads_only_def read_inode_def sbind_def split: option.splits sum.splits)

lemma read_dir_inode_reads [simp]: "reads_only fs (read_dir_inode ops fs i)"
  unfolding read_dir_inode_def by (intro fail_stop_intros) simp_all

lemma read_rename_dirs_reads [simp]: "reads_only fs (read_rename_dirs ops fs p q)" "reads_only fs (reread_rename_dirs ops fs p q)"
  unfolding read_rename_dirs_def reread_rename_dirs_def by (auto intro!: fail_stop_intros)

lemma check_ancestor_reads: "check_ancestor_cycle ops fs d cur = Some m \<Longrightarrow> fs_device (fst m) = fs_device fs"
proof (induction rule: check_ancestor_cycle.raw_induct [rotated, consumes 1, case_names step])
  case (step walk ops fs d cur m)
  obtain fs1 x where x: "read_inode ops fs cur = (fs1, x)" by (cases "read_inode ops fs cur")
  have d: "fs_device fs1 = fs_device fs" using read_inode_reads [of fs ops cur] x by (simp add: reads_only_def)
  consider "fs_device (fst m) = fs_device fs" | r parent where "x = Inr r" "walk ops fs1 d parent = Some m"
    using step(2) x d by (auto split: if_splits sum.splits fault.splits)
  then show ?case
  proof cases
    case (2 r parent)
    then show ?thesis using step(1) d by simp
  qed
qed

section \<open>Transactions\<close>

lemma start_reads [simp]: "reads_only fs (fs_transaction_start fs n)"
  by (auto simp: reads_only_def fs_transaction_start_def with_core_def split: metadata_mode.splits prod.splits)

text \<open>A transaction touches the device in its commit only, and a failed commit poisons.\<close>

lemma run_transaction_fail_stop: "fail_stop fs (run_transaction ops fs n body)"
  unfolding run_transaction_def
proof (rule fail_stop_sbind [OF start_reads])
  fix fs' tx
  show "fail_stop fs' (case body fs' tx of (tx, Inl e) \<Rightarrow> (drop_transaction fs' tx, Inl e)
      | (tx, Inr False) \<Rightarrow> (drop_transaction fs' tx, Inr False)
      | (tx, Inr True) \<Rightarrow> sbind (commit_reclaim_transaction ops fs' tx) (\<lambda>fs _. (fs, Inr True)))"
    by (auto simp: fail_stop_def drop_transaction_def commit_reclaim_transaction_def sbind_def fs_poison_def
        split: prod.splits sum.splits bool.splits commit_fault.splits)
qed

section \<open>Rename and exchange\<close>

lemma fail_stop_error [simp]: "fail_stop fs (fs, x)"
  by (simp add: fail_stop_def)

lemma rename_replace_fail_stop:
  "fail_stop fs (rename_replace ops fs is_dir p np name new_name dirs child existing)"
  unfolding rename_replace_def Let_def
  by (intro fail_stop_sbind fail_stop_sbind_poisons reads_only_pure read_inode_reads run_transaction_fail_stop poisons_Inr)

lemma write_moved_dir_poisons [simp]: "poisons (write_moved_dir ops fs child np a b)"
  unfolding write_moved_dir_def by (intro poisons_sbind poisons_poisoned poisons_chk poisons_write_links poisons_Inr)

lemma add_classified_unmodified:
  "dir_add_entry_classified ops s child name = (s', Inl (Unmodified e)) \<Longrightarrow> s' = s"
  by (auto simp: dir_add_entry_classified_def classify_def split: prod.splits sum.splits option.splits if_splits)

lemma rename_simple_fail_stop:
  assumes "\<exists>d. snd dirs = Some d \<or> is_dir = False \<or> p = np"
  shows "fail_stop fs (rename_simple ops fs is_dir p np name new_name dirs child)"
proof (cases "dir_add_entry_classified ops (fs, target_of dirs) child new_name")
  case (Pair s y)
  obtain fs1 target where s: "s = (fs1, target)" by (cases s)
  show ?thesis
  proof (cases y)
    case (Inl f)
    then show ?thesis
      using Pair s add_classified_unmodified [of ops "(fs, target_of dirs)" child new_name]
      by (cases f) (auto simp: rename_simple_def fail_stop_def fs_poison_def)
  next
    case (Inr u)
    let ?dirs = "set_target target dirs"
    have c: "poisons (if is_dir \<and> p \<noteq> np then
        (case snd ?dirs of Some d \<Rightarrow> sbind (write_moved_dir ops fs' child np (fst ?dirs) d) (\<lambda>fs _. (fs, Inr ()))
         | None \<Rightarrow> (fs', Inl (Err EINVAL))) else (fs', Inr ()))" for fs'
      using assms by (auto simp: set_target_def split: option.splits intro!: poisons_sbind)
    have "poisons (sbind (poisoned (dir_remove_entry ops fs1 (fst ?dirs) name)) (\<lambda>fs _.
        sbind (if is_dir \<and> p \<noteq> np then
            (case snd ?dirs of Some d \<Rightarrow> sbind (write_moved_dir ops fs child np (fst ?dirs) d) (\<lambda>fs _. (fs, Inr ()))
             | None \<Rightarrow> (fs, Inl (Err EINVAL))) else (fs, Inr ())) (\<lambda>fs _. (fs, Inr None))))"
      by (intro poisons_sbind poisons_poisoned c poisons_Inr)
    from fail_stop_poisons [OF this, of fs] show ?thesis using Pair s Inr by (simp add: rename_simple_def Let_def)
  qed
qed

lemma reread_dirs: "reread_rename_dirs ops fs p np = (fs', Inr dirs) \<Longrightarrow> p \<noteq> np \<Longrightarrow> \<exists>d. snd dirs = Some d"
  by (auto simp: reread_rename_dirs_def sbind_eq_Inr)

lemma rename_entry_fail_stop: "fail_stop fs (rename_entry ops fs p name np new_name dirs child_id is_dir)"
  unfolding rename_entry_def
proof (intro fail_stop_sbind reads_only_pure read_rename_dirs_reads read_inode_reads)
  fix fs1 existing fs2 dirs2 fs3 child
  assume "reread_rename_dirs ops fs1 p np = (fs2, Inr dirs2)"
  then have "\<exists>d. snd dirs2 = Some d \<or> is_dir = False \<or> p = np" using reread_dirs by metis
  then show "fail_stop fs3 (case existing of
       Some existing_id \<Rightarrow>
         if existing_id = child_id then (fs3, Inr None)
         else rename_replace ops fs3 is_dir p np name new_name dirs2 child existing_id
     | None \<Rightarrow> rename_simple ops fs3 is_dir p np name new_name dirs2 child)"
    by (auto split: option.splits intro: rename_replace_fail_stop rename_simple_fail_stop)
qed

lemma exchange_entries_poisons:
  assumes "p \<noteq> np \<longrightarrow> (\<exists>d. snd dirs = Some d)"
  shows "poisons (exchange_entries ops fs p name np new_name dirs old old_id new new_id)"
proof -
  have "poisons (exchange_parents ops fs p np dirs old new)" if pn: "p \<noteq> np" for fs
  proof -
    obtain d0 where "snd dirs = Some d0" using assms pn by blast
    then obtain a where d: "dirs = (a, Some d0)" by (cases dirs) simp
    show ?thesis unfolding exchange_parents_def d by (auto intro!: poisons_sbind)
  qed
  then show ?thesis unfolding exchange_entries_def by (auto intro!: poisons_sbind)
qed

text \<open>The guard around an operation changes neither the device nor the poison.\<close>

lemma guarded_fail_stop:
  assumes "\<And>fs. reads_only fs (acquire fs)" "\<And>fs m. body fs = Some m \<Longrightarrow> fail_stop fs m" "guarded acquire fs body = Some m"
  shows "fail_stop fs m"
proof (cases "sbind (fs, ensure_mutable fs) (\<lambda>fs _. acquire fs)")
  case (Pair fs1 g)
  have d: "fs_device fs1 = fs_device fs"
    using assms(1) [of fs] Pair by (cases "ensure_mutable fs") (auto simp: reads_only_def)
  show ?thesis
  proof (cases g)
    case (Inl e)
    then show ?thesis using assms(3) Pair d by (auto simp: guarded_def fail_stop_def)
  next
    case (Inr gd)
    then obtain m1 where m1: "body fs1 = Some m1" "m = unlock_metadata_mutation gd m1" using assms(3) Pair by (auto simp: guarded_def)
    have f: "fail_stop fs1 m1" by (rule assms(2) [OF m1(1)])
    show ?thesis
      using f d m1(2)
      by (auto simp: fail_stop_def unlock_metadata_mutation_def guard_drop_def split: prod.splits sum.splits if_splits)
  qed
qed

lemma lock_reads: "reads_only fs (lock_direct_metadata_mutation fs)" "reads_only fs (lock_transactional_metadata_mutation fs)"
  by (auto simp: reads_only_def lock_direct_metadata_mutation_def lock_transactional_metadata_mutation_def
      split: attempt.splits sum.splits prod.splits)

lemma fail_stop_device: "fs_device fs1 = fs_device fs \<Longrightarrow> fail_stop fs1 m \<Longrightarrow> fail_stop fs m"
  by (simp add: fail_stop_def)

lemma rename_fail_stop:
  assumes "rename ops fs p name np new_name = Some m"
  shows "fail_stop fs m"
  using lock_reads(2) _ assms unfolding rename_def
proof (rule guarded_fail_stop)
  fix fs m
  let ?pre = "sbind (read_rename_dirs ops fs p np) (\<lambda>fs dirs.
          sbind (fs, dir_find_entry ops fs (fst dirs) name) (\<lambda>fs child_id.
          sbind (read_inode ops fs child_id) (\<lambda>fs child. (fs, Inr (dirs, child_id, inode_is_dir (ir_inode child))))))"
  assume m: "(case ?pre of
       (fs, Inl e) \<Rightarrow> Some (fs, Inl e)
     | (fs, Inr (dirs, child_id, child_is_dir)) \<Rightarrow>
         map_option (\<lambda>m. sbind m (\<lambda>fs _. rename_entry ops fs p name np new_name dirs child_id child_is_dir))
           (if child_is_dir \<and> p \<noteq> np then check_ancestor_cycle ops fs child_id np else Some (fs, Inr ()))) = Some m"
  have "reads_only fs ?pre" by (intro fail_stop_intros) simp_all
  then have d: "fs_device (fst ?pre) = fs_device fs" by (simp add: reads_only_def)
  show "fail_stop fs m"
  proof (cases "?pre")
    case (Pair fs1 x)
    show ?thesis
    proof (cases x)
      case (Inl e)
      then show ?thesis using m Pair d by (auto simp: fail_stop_def)
    next
      case (Inr y)
      obtain dirs child_id is_dir where y: "y = (dirs, child_id, is_dir)" by (cases y)
      let ?walk = "if is_dir \<and> p \<noteq> np then check_ancestor_cycle ops fs1 child_id np else Some (fs1, Inr ())"
      have "\<exists>w. ?walk = Some w \<and> sbind w (\<lambda>fs _. rename_entry ops fs p name np new_name dirs child_id is_dir) = m"
        using m unfolding Pair Inr y prod.case sum.case map_option_eq_Some .
      then obtain w where w: "?walk = Some w" "sbind w (\<lambda>fs _. rename_entry ops fs p name np new_name dirs child_id is_dir) = m"
        by (elim exE conjE)
      have "reads_only fs1 w"
        using w(1) check_ancestor_reads [of ops fs1 child_id np w] by (cases "is_dir \<and> p \<noteq> np") (auto simp: reads_only_def)
      then have f: "fail_stop fs1 m" unfolding w(2) [symmetric] by (rule fail_stop_sbind) (rule rename_entry_fail_stop)
      have "fs_device fs1 = fs_device fs" using d unfolding Pair by simp
      then show ?thesis by (rule fail_stop_device [OF _ f])
    qed
  qed
qed

lemma exchange_fail_stop:
  assumes "rename_exchange ops fs p name np new_name = Some m"
  shows "fail_stop fs m"
  using lock_reads(1) _ assms unfolding rename_exchange_def
proof (rule guarded_fail_stop)
  fix fs m
  let ?pre = "sbind (read_rename_dirs ops fs p np) (\<lambda>fs dirs.
          sbind (fs, dir_find_entry ops fs (fst dirs) name) (\<lambda>fs old_id.
          sbind (fs, dir_find_entry ops fs (target_of dirs) new_name) (\<lambda>fs new_id.
          sbind (reread_rename_dirs ops fs p np) (\<lambda>fs dirs.
          sbind (read_inode ops fs old_id) (\<lambda>fs old.
          sbind (read_inode ops fs new_id) (\<lambda>fs new.
          (fs, Inr (dirs, old, old_id, new, new_id))))))))"
  let ?walk = "\<lambda>fs c d b. if p \<noteq> np \<and> b then check_ancestor_cycle ops fs c d else Some (fs, Inr ())"
  let ?go = "\<lambda>dirs old old_id new new_id m. sbind m (\<lambda>fs _. exchange_entries ops fs p name np new_name dirs old old_id new new_id)"
  assume m: "(case ?pre of
       (fs, Inl e) \<Rightarrow> Some (fs, Inl e)
     | (fs, Inr (dirs, old, old_id, new, new_id)) \<Rightarrow>
         if old_id = new_id then Some (fs, Inr ())
         else
           Option.bind (?walk fs old_id np (inode_is_dir (ir_inode old))) (\<lambda>m. case m of
             (fs, Inl e) \<Rightarrow> Some (fs, Inl e)
           | (fs, Inr _) \<Rightarrow>
               map_option (?go dirs old old_id new new_id) (?walk fs new_id p (inode_is_dir (ir_inode new))))) = Some m"
  have "reads_only fs ?pre" by (intro fail_stop_intros) simp_all
  then have d: "fs_device (fst ?pre) = fs_device fs" by (simp add: reads_only_def)
  have walk: "fs_device (fst w) = fs_device fs" if "?walk fs c d b = Some w" for fs c d b w
    using that check_ancestor_reads [of ops fs c d w] by (cases "p \<noteq> np \<and> b") auto
  show "fail_stop fs m"
  proof (cases "?pre")
    case (Pair fs1 x)
    have d1: "fs_device fs1 = fs_device fs" using d unfolding Pair by simp
    show ?thesis
    proof (cases x)
      case (Inl e)
      then show ?thesis using m Pair d1 by (auto simp: fail_stop_def)
    next
      case (Inr y)
      obtain dirs old old_id new new_id where y: "y = (dirs, old, old_id, new, new_id)" by (cases y)
      have dirs: "p \<noteq> np \<longrightarrow> (\<exists>d. snd dirs = Some d)" using Pair Inr y reread_dirs by (auto simp: sbind_eq_Inr)
      show ?thesis
      proof (cases "old_id = new_id")
        case True
        then show ?thesis using m Pair Inr y by (auto simp: fail_stop_def)
      next
        case False
        have m1: "Option.bind (?walk fs1 old_id np (inode_is_dir (ir_inode old))) (\<lambda>m. case m of
             (fs, Inl e) \<Rightarrow> Some (fs, Inl e)
           | (fs, Inr _) \<Rightarrow> map_option (?go dirs old old_id new new_id) (?walk fs new_id p (inode_is_dir (ir_inode new)))) = Some m"
          using m unfolding Pair Inr y prod.case sum.case if_not_P [OF False] .
        from m1 [unfolded bind_eq_Some_conv] obtain w0 where w0: "?walk fs1 old_id np (inode_is_dir (ir_inode old)) = Some w0"
          and k0: "(case w0 of (fs, Inl e) \<Rightarrow> Some (fs, Inl e)
           | (fs, Inr _) \<Rightarrow> map_option (?go dirs old old_id new new_id) (?walk fs new_id p (inode_is_dir (ir_inode new)))) = Some m"
          by (elim exE conjE)
        obtain fs2 z where z0: "w0 = (fs2, z)" by (cases w0)
        note w = w0 [unfolded z0]
        have k: "(case z of Inl e \<Rightarrow> Some (fs2, Inl e)
           | Inr _ \<Rightarrow> map_option (?go dirs old old_id new new_id) (?walk fs2 new_id p (inode_is_dir (ir_inode new)))) = Some m"
          using k0 unfolding z0 prod.case .
        have d2: "fs_device fs2 = fs_device fs1" using walk [OF w] by simp
        show ?thesis
        proof (cases z)
          case (Inl e)
          then show ?thesis using k d1 d2 by (auto simp: fail_stop_def)
        next
          case (Inr u)
          have "\<exists>w. ?walk fs2 new_id p (inode_is_dir (ir_inode new)) = Some w \<and> ?go dirs old old_id new new_id w = m"
            using k unfolding Inr sum.case map_option_eq_Some .
          then obtain w where w2: "?walk fs2 new_id p (inode_is_dir (ir_inode new)) = Some w" "?go dirs old old_id new new_id w = m"
            by (elim exE conjE)
          have "reads_only fs2 w" using walk [OF w2(1)] by (simp add: reads_only_def)
          then have f: "fail_stop fs2 m" unfolding w2(2) [symmetric]
            by (rule fail_stop_sbind) (rule fail_stop_poisons [OF exchange_entries_poisons [OF dirs]])
          have "fs_device fs2 = fs_device fs" using d1 d2 by simp
          then show ?thesis by (rule fail_stop_device [OF _ f])
        qed
      qed
    qed
  qed
qed

text \<open>C7: moves are fail-stop. When \<^verbatim>\<open>rename\<close> or \<^verbatim>\<open>rename_exchange\<close> returns an error, nothing was written to the device,
  or the file system is poisoned and every later mutation is refused: no partial move is ever followed by another
  change.\<close>

theorem moves_fail_stop:
  assumes "rename ops fs p name np new_name = Some (fs', Inl (Err e)) \<or>
    rename_exchange ops fs p name np new_name = Some (fs', Inl (Err e))"
  shows "fs_device fs' = fs_device fs \<or> \<not> is_ok (ensure_mutable fs')"
  using assms
proof
  assume "rename ops fs p name np new_name = Some (fs', Inl (Err e))"
  from rename_fail_stop [OF this] show ?thesis by (auto simp: fail_stop_def ensure_mutable_def)
next
  assume "rename_exchange ops fs p name np new_name = Some (fs', Inl (Err e))"
  from exchange_fail_stop [OF this] show ?thesis by (auto simp: fail_stop_def ensure_mutable_def)
qed

section \<open>Witness\<close>

theorem moves_fail_stop_witness:
  "\<exists>fs'. rename mem_ops w_file_fs 12 [97] 12 [98] = Some (fs', Inl (Err ENOTDIR)) \<and>
     (fs_device fs' = fs_device w_file_fs \<or> \<not> is_ok (ensure_mutable fs'))"
proof -
  have r: "read_inode mem_ops (fs_metadata_gate_update g w_file_fs) 12 = (fs_metadata_gate_update g w_file_fs, Inr w_file)" for g
    using w_file_cached by (simp add: read_inode_def)
  have "\<not> inode_is_dir (ir_inode w_file)"
    using w_file_file(1) by (simp add: inode_is_dir_def inode_is_file_def)
  then have "\<exists>fs'. rename mem_ops w_file_fs 12 [97] 12 [98] = Some (fs', Inl (Err ENOTDIR))"
    using w_file_free by (simp add: rename_def guarded_def lock_transactional_metadata_mutation_def try_transactional_def
      read_rename_dirs_def read_dir_inode_def r unlock_metadata_mutation_def guard_drop_def gate_new_def)
  then obtain fs' where *: "rename mem_ops w_file_fs 12 [97] 12 [98] = Some (fs', Inl (Err ENOTDIR))" by blast
  then show ?thesis using moves_fail_stop [OF disjI1 [OF *]] by blast
qed

end
