(* ===== verification/Directory_Laws.thy ===== *)
theory Directory_Laws
  imports Namespace File_Content
begin

text \<open>
  Directories as a whole: a lookup answers by the first entry a listing shows, the cache of inodes has no influence on
  reads when it agrees with the device, and with that the check of ancestors that guards the moves of directories decides
  ancestry on a tree and does not end on a cycle.
\<close>

section \<open>Lookup and listing\<close>

definition first_named :: "bytes \<Rightarrow> dir_entry list \<Rightarrow> InodeId option" where
  "first_named name es = map_option de_inode (List.find (\<lambda>de. de_get_name de = name) es)"

lemma first_named_simps [simp]:
  "first_named name [] = None"
  "first_named name (de # es) = (if de_get_name de = name then Some (de_inode de) else first_named name es)"
  by (simp_all add: first_named_def)

lemma first_named_append: "first_named name (xs @ ys) = (case first_named name xs of None \<Rightarrow> first_named name ys | r \<Rightarrow> r)"
  by (induction xs) auto

lemma read_dir_entry_wf: "read_dir_entry b off = Inr de \<Longrightarrow> de_wf de"
  using u8_le_255 by (auto simp: read_dir_entry_def de_from_bytes_def rbind_eq_Inr Let_def de_wf_def index_range_def
      split: if_splits option.splits)

lemma list_loop_get_res:
  "dir_list_loop b es tail_offset off = Some x \<Longrightarrow> \<forall>es'. x = Inr es' \<longrightarrow>
     (\<exists>ds. es' = es @ ds \<and> dir_get_loop b name tail_offset off = Some (Inr (first_named name ds)))"
proof (induction rule: dir_list_loop.raw_induct [rotated, consumes 1, case_names step])
  case (step walk b es t off r)
  show ?case
  proof (intro allI impI)
    fix es'
    assume es': "r = Inr es'"
    show "\<exists>ds. es' = es @ ds \<and> dir_get_loop b name t off = Some (Inr (first_named name ds))"
    proof (cases "off < t")
      case False
      then have "es' = es @ []" "dir_get_loop b name t off = Some (Inr (first_named name []))"
        using step(2) es' by (simp_all add: dir_get_loop.simps [of b name t off])
      then show ?thesis by blast
    next
      case True
      then obtain de where de: "read_dir_entry b off = Inr de"
        and w: "walk b (if \<not> de_unused de then es @ [de] else es) t (off + unat (de_rec_len de)) = Some r"
        using step(2) es' by (auto split: sum.splits)
      obtain ds where ds: "es' = (if \<not> de_unused de then es @ [de] else es) @ ds"
        "dir_get_loop b name t (off + unat (de_rec_len de)) = Some (Inr (first_named name ds))"
        using step(1) [OF w] es' by blast
      have "dir_get_loop b name t off = Some (Inr (first_named name (if de_unused de then ds else de # ds)))"
        using True de ds(2) compare_name_iff [OF read_dir_entry_wf [OF de], of name]
        by (subst dir_get_loop.simps) (auto split: if_splits)
      then show ?thesis using ds(1) by (intro exI [of _ "if de_unused de then ds else de # ds"]) simp
    qed
  qed
qed

lemmas list_loop_get = list_loop_get_res [rule_format, OF _ refl]

lemma list_get:
  assumes "dir_list b es csum = Some (Inr es')"
  shows "\<exists>ds. es' = es @ ds \<and> dir_get b name csum = Some (Inr (first_named name ds))"
  using list_loop_get assms unfolding dir_list_def dir_get_def by blast

lemma list_blocks_scan:
  assumes "list_blocks load csum ns es = Inr es'"
  shows "\<exists>ds. es' = es @ ds \<and>
    scan_blocks load (\<lambda>b layout. or_abort (dir_get b name csum)) ns = Inr (first_named name ds)"
  using assms
proof (induction ns arbitrary: es)
  case (Cons i ns)
  from Cons.prems obtain b layout es1 where l: "load (word_of_nat i) = Inr (b, layout)"
    and d: "or_abort (dir_list b es csum) = Inr es1" and r: "list_blocks load csum ns es1 = Inr es'"
    by (auto simp: rbind_eq_Inr)
  have "dir_list b es csum = Some (Inr es1)" using d by (auto simp: or_abort_def split: option.splits)
  from list_get [OF this, of name] obtain ds1 where 1: "es1 = es @ ds1" "dir_get b name csum = Some (Inr (first_named name ds1))"
    by blast
  obtain ds2 where 2: "es' = es1 @ ds2" "scan_blocks load (\<lambda>b layout. or_abort (dir_get b name csum)) ns = Inr (first_named name ds2)"
    using Cons.IH [OF r] by blast
  show ?case
    by (rule exI [of _ "ds1 @ ds2"]) (use l 1 2 in \<open>auto simp: or_abort_def first_named_append split: option.splits\<close>)
qed simp

lemma lookup_listed:
  assumes "dir_list_entries ops fs dir = Inr es" "length name \<le> 255"
  shows "dir_find_entry ops fs dir name = (case first_named name es of Some i \<Rightarrow> Inr i | None \<Rightarrow> Inl (Err ENOENT))"
proof -
  obtain n where n: "dir_data_block_count dir = Inr n"
    "list_blocks (load_dir_block ops fs dir) (metadata_csum_enabled fs) [0..<unat n] [] = Inr es"
    using assms(1) by (auto simp: dir_list_entries_def rbind_eq_Inr)
  show ?thesis
    using list_blocks_scan [OF n(2), of name] n(1) assms(2)
    by (auto simp: dir_find_entry_def validate_dir_name_def scan_dir_def split: option.splits)
qed

text \<open>C16: a lookup agrees with the listing. When the listing of a directory succeeds, the lookup of a name answers by
  the first listed entry of that name and with ENOENT when there is none, over all blocks of the directory.\<close>

theorem lookup_agrees_with_listing:
  assumes "dir_list_entries ops fs dir = Inr es" "length name \<le> 255"
  shows "dir_find_entry ops fs dir name = (case first_named name es of Some i \<Rightarrow> Inr i | None \<Rightarrow> Inl (Err ENOENT))"
  by (rule lookup_listed [OF assms])

section \<open>The cache\<close>

definition with_cache :: "inode_cache \<Rightarrow> ('d, 'z) ext4_scheme \<Rightarrow> ('d, 'z) ext4_scheme" where
  "with_cache c fs = fs\<lparr>fs_inode_cache := c\<rparr>"

lemma with_cache_fields [simp]:
  "fs_device (with_cache c fs) = fs_device fs" "fs_cached_super_block (with_cache c fs) = fs_cached_super_block fs"
  "fs_cached_block_groups (with_cache c fs) = fs_cached_block_groups fs" "fs_inode_cache (with_cache c fs) = c"
  "fs_system_metadata_ranges (with_cache c fs) = fs_system_metadata_ranges fs"
  "fs_metadata_mode (with_cache c fs) = fs_metadata_mode fs"
  "with_cache c (with_cache c' fs) = with_cache c fs" "with_cache (fs_inode_cache fs) fs = fs"
  by (simp_all add: with_cache_def)

lemma with_cache_reads [simp]:
  "fs_read_block ops (with_cache c fs) p = fs_read_block ops fs p"
  "journal_owns_block_range (with_cache c fs) = journal_owns_block_range fs"
  "fs_validate_data_blocks (with_cache c fs) p n = fs_validate_data_blocks fs p n"
  "ensure_valid_pblock (with_cache c fs) p = ensure_valid_pblock fs p"
  "metadata_csum_enabled (with_cache c fs) = metadata_csum_enabled fs"
proof -
  show o: "journal_owns_block_range (with_cache c fs) = journal_owns_block_range fs"
    by (intro ext) (simp add: journal_owns_block_range_def)
  show "fs_validate_data_blocks (with_cache c fs) p n = fs_validate_data_blocks fs p n"
    by (simp add: fs_validate_data_blocks_def o)
qed (simp_all add: fs_read_block_def ensure_valid_pblock_def metadata_csum_enabled_def)

lemma with_cache_uncached [simp]: "read_inode_uncached ops (with_cache c fs) i = read_inode_uncached ops fs i"
  unfolding read_inode_uncached_def inode_disk_pos_def read_block_group_def with_cache_fields with_cache_reads ..

lemma with_cache_child [simp]:
  "read_extent_block ops (with_cache c fs) r p = read_extent_block ops fs r p"
  "child_node ops (with_cache c fs) r p = child_node ops fs r p"
  unfolding child_node_def read_extent_block_def verify_extent_block_checksum_def inode_extent_checksum_def
    with_cache_fields with_cache_reads by (rule refl)+

lemma find_extent_loop_cache:
  "find_extent_loop ops fs r b node p path = Some x \<Longrightarrow> find_extent_loop ops (with_cache c fs) r b node p path = Some x"
proof (induction rule: find_extent_loop.raw_induct [rotated, consumes 1, case_names step])
  case (step walk ops fs r b node p path x)
  from step(2) step(1) show ?case
    by (subst find_extent_loop.simps) (auto simp: obind_def split: sum.splits search.splits if_splits option.splits)
qed

lemma find_extent_loop_with_cache [simp]:
  "find_extent_loop ops (with_cache c fs) r b node p path = find_extent_loop ops fs r b node p path"
  using find_extent_loop_cache [of ops fs r b node p path _ c]
    find_extent_loop_cache [of ops "with_cache c fs" r b node p path _ "fs_inode_cache fs"]
  by (cases "find_extent_loop ops fs r b node p path"; cases "find_extent_loop ops (with_cache c fs) r b node p path") auto

lemma with_cache_blocks:
  "extent_query ops (with_cache c fs) dir b = extent_query ops fs dir b"
  "load_dir_block ops (with_cache c fs) dir = load_dir_block ops fs dir"
proof -
  show q: "extent_query ops (with_cache c fs) dir b = extent_query ops fs dir b" for b
    unfolding extent_query_def find_extent_def find_extent_run_def find_extent_loop_with_cache with_cache_reads
      with_cache_child ..
  show "load_dir_block ops (with_cache c fs) dir = load_dir_block ops fs dir"
    unfolding load_dir_block_def validate_dir_block_def q with_cache_fields with_cache_reads ..
qed

lemma with_cache_lookup [simp]: "dir_find_entry ops (with_cache c fs) dir name = dir_find_entry ops fs dir name"
  unfolding dir_find_entry_def with_cache_blocks with_cache_reads ..

text \<open>A cache that agrees with the device; the reads keep it so.\<close>

definition cache_coherent :: "('d, 'y) device_ops_scheme \<Rightarrow> ('d, 'z) ext4_scheme \<Rightarrow> bool" where
  "cache_coherent ops fs \<longleftrightarrow> (\<forall>i r. cache_get (fs_inode_cache fs) i = Some r \<longrightarrow> read_inode_uncached ops fs i = Inr r)"

lemma read_inode_coherent:
  assumes "cache_coherent ops fs" "read_inode_uncached ops fs i = Inr r"
  shows "\<exists>c. read_inode ops fs i = (with_cache c fs, Inr r) \<and> cache_coherent ops (with_cache c fs)"
proof (cases "cache_get (fs_inode_cache fs) i")
  case None
  have id: "ir_id r = i" using assms(2) by (auto simp: read_inode_uncached_def rbind_eq_Inr)
  let ?c = "cache_insert r (fs_inode_cache fs)"
  have "read_inode ops fs i = (with_cache ?c fs, Inr r)" using None assms(2) by (simp add: read_inode_def with_cache_def)
  moreover have "cache_coherent ops (with_cache ?c fs)"
    using assms id by (auto simp: cache_coherent_def cache_get_def cache_insert_def bt_get_insert Let_def split: if_splits)
  ultimately show ?thesis by blast
next
  case (Some r')
  then have "r' = r" using assms by (auto simp: cache_coherent_def)
  then show ?thesis using Some assms(1) by (intro exI [of _ "fs_inode_cache fs"]) (simp add: read_inode_def)
qed

section \<open>Ancestors\<close>

definition parent_dir :: "('d, 'y) device_ops_scheme \<Rightarrow> ('d, 'z) ext4_scheme \<Rightarrow> InodeId \<Rightarrow> InodeId option" where
  "parent_dir ops fs i =
     (case read_inode_uncached ops fs i of
        Inr r \<Rightarrow> (case dir_find_entry ops fs r dot_dot of Inr p \<Rightarrow> Some p | _ \<Rightarrow> None)
      | _ \<Rightarrow> None)"

text \<open>One step up, from any directory but the root.\<close>

definition steps_up :: "('d, 'y) device_ops_scheme \<Rightarrow> ('d, 'z) ext4_scheme \<Rightarrow> InodeId \<Rightarrow> InodeId \<Rightarrow> bool" where
  "steps_up ops fs i p \<longleftrightarrow> i \<noteq> EXT4_ROOT_INO \<and> parent_dir ops fs i = Some p"

lemma with_cache_steps [simp]: "steps_up ops (with_cache c fs) = steps_up ops fs" "parent_dir ops (with_cache c fs) = parent_dir ops fs"
  unfolding steps_up_def parent_dir_def with_cache_uncached with_cache_lookup by (rule refl)+

lemma check_ancestor_step:
  assumes "cache_coherent ops fs" "parent_dir ops fs cur = Some p" "cur \<noteq> dir" "cur \<noteq> EXT4_ROOT_INO" "p \<noteq> cur"
  shows "\<exists>c. check_ancestor_cycle ops fs dir cur = check_ancestor_cycle ops (with_cache c fs) dir p \<and>
    cache_coherent ops (with_cache c fs)"
proof -
  obtain r where r: "read_inode_uncached ops fs cur = Inr r" "dir_find_entry ops fs r dot_dot = Inr p"
    using assms(2) by (auto simp: parent_dir_def split: sum.splits)
  from read_inode_coherent [OF assms(1) r(1)] obtain c where
    c: "read_inode ops fs cur = (with_cache c fs, Inr r)" "cache_coherent ops (with_cache c fs)" by blast
  have "check_ancestor_cycle ops fs dir cur = check_ancestor_cycle ops (with_cache c fs) dir p"
    using assms(3-) c(1) r(2) by (subst check_ancestor_cycle.simps) simp
  then show ?thesis using c(2) by blast
qed

text \<open>C15: on a tree the check of ancestors decides ancestry. When the parents of the target lead up to the root, the
  check ends, and it refuses the move exactly when the moved directory is the target or one of its ancestors.\<close>

theorem ancestor_check_decides:
  assumes "cache_coherent ops fs" "(steps_up ops fs)\<^sup>*\<^sup>* target EXT4_ROOT_INO"
  shows "\<exists>c. check_ancestor_cycle ops fs dir target =
    Some (with_cache c fs, if (steps_up ops fs)\<^sup>*\<^sup>* target dir then Inl (Err EINVAL) else Inr ())"
proof -
  have "\<exists>c. check_ancestor_cycle ops (with_cache c0 fs) dir target =
      Some (with_cache c fs, if (steps_up ops fs)\<^sup>*\<^sup>* target dir then Inl (Err EINVAL) else Inr ())"
    if "cache_coherent ops (with_cache c0 fs)" for c0
    using assms(2) that
  proof (induction arbitrary: c0 rule: converse_rtranclp_induct)
    case base
    have "(steps_up ops fs)\<^sup>*\<^sup>* EXT4_ROOT_INO dir \<longleftrightarrow> dir = EXT4_ROOT_INO"
      by (auto simp: steps_up_def elim: converse_rtranclpE)
    then show ?case by (subst check_ancestor_cycle.simps) auto
  next
    case (step cur p)
    have up: "parent_dir ops fs cur = Some p" "cur \<noteq> EXT4_ROOT_INO" using step(1) by (simp_all add: steps_up_def)
    have only: "q = p" if "steps_up ops fs cur q" for q using that up(1) by (simp add: steps_up_def)
    show ?case
    proof (cases "cur = dir \<or> p = cur")
      case True
      then show ?thesis
      proof
        assume "cur = dir"
        then show ?thesis by (subst check_ancestor_cycle.simps) auto
      next
        assume "p = cur"
        then show ?thesis using step.IH [OF step.prems] by simp
      qed
    next
      case False
      then have "(steps_up ops fs)\<^sup>*\<^sup>* cur dir \<longleftrightarrow> (steps_up ops fs)\<^sup>*\<^sup>* p dir"
        using only step(1) by (metis converse_rtranclpE converse_rtranclp_into_rtranclp)
      moreover obtain c where "check_ancestor_cycle ops (with_cache c0 fs) dir cur = check_ancestor_cycle ops (with_cache c fs) dir p"
        "cache_coherent ops (with_cache c fs)"
        using check_ancestor_step [OF step.prems, of cur p dir] up False by auto
      ultimately show ?thesis using step.IH by simp
    qed
  qed
  from this [of "fs_inode_cache fs"] assms(1) show ?thesis by simp
qed

lemma check_ancestor_escapes:
  "check_ancestor_cycle ops fs dir cur = Some m \<Longrightarrow> cache_coherent ops fs \<Longrightarrow> dir \<notin> S \<Longrightarrow> EXT4_ROOT_INO \<notin> S \<Longrightarrow>
     \<forall>i \<in> S. \<exists>p \<in> S. p \<noteq> i \<and> parent_dir ops fs i = Some p \<Longrightarrow> cur \<notin> S"
proof (induction rule: check_ancestor_cycle.raw_induct [rotated, consumes 1, case_names step])
  case (step walk ops fs dir cur m)
  show ?case
  proof
    assume cur: "cur \<in> S"
    then obtain p where p: "p \<in> S" "p \<noteq> cur" "parent_dir ops fs cur = Some p" using step.prems by blast
    then obtain r where r: "read_inode_uncached ops fs cur = Inr r" "dir_find_entry ops fs r dot_dot = Inr p"
      by (auto simp: parent_dir_def split: sum.splits)
    from read_inode_coherent [OF step.prems(1) r(1)] obtain c where
      c: "read_inode ops fs cur = (with_cache c fs, Inr r)" "cache_coherent ops (with_cache c fs)" by blast
    have "cur \<noteq> dir" "cur \<noteq> EXT4_ROOT_INO" using cur step.prems by auto
    then have "walk ops (with_cache c fs) dir p = Some m" using step(2) c(1) r(2) p(2) by simp
    then have "p \<notin> S" by (rule step(1)) (use c(2) step.prems in simp_all)
    then show False using p(1) by simp
  qed
qed

text \<open>C38: on a cycle the check of ancestors never ends. When the parents of some directories are again among them, and
  neither the root nor the moved directory is, the walk that starts there has no result.\<close>

theorem ancestor_check_cycle_never_returns:
  assumes "cache_coherent ops fs" "target \<in> S" "dir \<notin> S" "EXT4_ROOT_INO \<notin> S"
    and "\<forall>i \<in> S. \<exists>p \<in> S. p \<noteq> i \<and> parent_dir ops fs i = Some p"
  shows "check_ancestor_cycle ops fs dir target = None"
  using check_ancestor_escapes [OF _ assms(1,3-5)] assms(2) by (metis option.exhaust)

section \<open>Witnesses\<close>

text \<open>Three directories of one block whose only entry is \<^verbatim>\<open>..\<close>: 12 below the root, 13 and 14 below each other.\<close>

definition w_up_rec :: "InodeId \<Rightarrow> bytes" where
  "w_up_rec p = le32 p @ le16 4096 @ [2, 2, 0x2E, 0x2E] @ replicate 4086 0"

definition w_up_inode :: "PBlockId \<Rightarrow> inode" where
  "w_up_inode b = inode_default\<lparr>i_mode := 0x4000, i_size := 4096, i_block := w_node 0 [extent_to_bytes (extent_new 0 b 1)] 60\<rparr>"

definition w_up_table :: bytes where
  "w_up_table = replicate 2816 0 @ inode_to_bytes (w_up_inode 9) @ inode_to_bytes (w_up_inode 10) @
     inode_to_bytes (w_up_inode 11) @ replicate 512 0"

definition w_up_fs :: "block_mem ext4" where
  "w_up_fs = w_fs\<lparr>fs_device := w_mount_device[4 := w_up_table, 9 := w_up_rec 2, 10 := w_up_rec 14, 11 := w_up_rec 13]\<rparr>"

definition w_up :: "(InodeId \<times> PBlockId \<times> InodeId) list" where
  "w_up = [(12, 9, 2), (13, 10, 14), (14, 11, 13)]"

lemma w_up_node: "valid_node (i_block (w_up_inode b)) (w_node_header 1 0) [extent_to_bytes (extent_new 0 b 1)]"
  using w_node_valid [of "[extent_to_bytes (extent_new 0 b 1)]" 0 60] by (simp add: w_up_inode_def extents_sorted_def MAX_EXTENT_DEPTH_def ex_end_def w_extent_values INIT_MAX_LEN_def)

lemma w_up_inode_wf: "inode_wf (w_up_inode b)"
  by (simp add: inode_wf_def w_up_inode_def inode_default_def w_node_def w_node_header_def)

lemma w_up_read:
  assumes "(i, b, p) \<in> set w_up"
  shows "read_inode_uncached mem_ops w_up_fs i = Inr \<lparr>ir_id = i, ir_inode = w_up_inode b\<rparr>"
proof -
  have pos: "inode_disk_pos w_up_fs i = Inr (4, (unat i - 1) * 256)"
    using assms by (auto simp: w_up_def inode_disk_pos_def inode_group_index_def w_up_fs_def w_fs_def w_mount_fields
      read_block_group_def bgr_new_def w_mount_addresses sub_chk_def add_chk_def BLOCK_SIZE_def)
  have t: "fs_read_block mem_ops w_up_fs 4 = Inr (block_new 4 w_up_table)"
    by (simp add: fs_read_block_def mem_ops_def mem_read_block_def w_up_fs_def w_mount_device_def)
  have "block_read_offset (block_new 4 w_up_table) ((unat i - 1) * 256) 256 = Inr (inode_to_bytes (w_up_inode b))"
    using assms length_inode_to_bytes [OF w_up_inode_wf]
    by (auto simp: w_up_def block_read_offset_def index_range_def block_new_def w_up_table_def slice_def)
  then show ?thesis by (simp add: read_inode_uncached_def pos t inode_roundtrip [OF w_up_inode_wf])
qed

lemma w_up_coherent: "cache_coherent mem_ops w_up_fs"
  by (simp add: cache_coherent_def w_up_fs_def w_fs_def cache_get_def cache_new_def)

lemma w_up_rec_fields:
  "rec_ok (w_up_rec p)" "length (w_up_rec p) = 4096" "de_inode (rec_entry (w_up_rec p)) = p"
  "de_get_name (rec_entry (w_up_rec p)) = dot_dot"
proof -
  have s: "slice (w_up_rec p) 4 2 = le16 4096" "slice (w_up_rec p) 0 4 = le32 p" "w_up_rec p ! 6 = 2" "w_up_rec p ! 7 = 2"
    "slice (w_up_rec p) 8 2 = dot_dot"
    by (simp_all add: w_up_rec_def slice_def nth_append dot_dot_def)
  show l: "length (w_up_rec p) = 4096" by (simp add: w_up_rec_def)
  show "rec_ok (w_up_rec p)" using l s by (simp add: rec_ok_def)
  show "de_inode (rec_entry (w_up_rec p)) = p" by (simp add: rec_entry_def s)
  show "de_get_name (rec_entry (w_up_rec p)) = dot_dot"
    using s(5) by (simp add: rec_entry_def de_get_name_def s(3)) (simp add: dot_dot_def)
qed

lemma w_up_list:
  assumes "(i, b, p) \<in> set w_up"
  shows "dir_list_entries mem_ops w_up_fs \<lparr>ir_id = i, ir_inode = w_up_inode b\<rparr> = Inr [rec_entry (w_up_rec p)]"
proof -
  let ?dir = "\<lparr>ir_id = i, ir_inode = w_up_inode b\<rparr>"
  let ?t = "Leaf [extent_new 0 b 1] :: etree"
  have csum: "metadata_csum_enabled w_up_fs = False" by (simp add: metadata_csum_enabled_def w_up_fs_def w_fs_def)
  have n: "dir_data_block_count ?dir = Inr 1"
    by (simp add: dir_data_block_count_def w_up_inode_def inode_default_def inode_size_def BLOCK_SIZE_def)
  have t: "tree_on (child_node mem_ops w_up_fs ?dir) 0 (extent_root ?dir) ?t"
    using w_up_node [of b] by (auto simp: extent_root_def node_entries_def intro!: exI [of _ "w_node_header 1 0"]
      exI [of _ "[extent_to_bytes (extent_new 0 b 1)]"])
  have o: "tree_ordered 0 (2 ^ 32) ?t" by (simp add: w_extent_values ex_end_def INIT_MAX_LEN_def)
  have m: "mapped_at (tree_extents ?t) 0 = Some b"
    using assms by (auto simp: w_up_def mapped_at_def ex_covers_def ex_end_def w_extent_values INIT_MAX_LEN_def ex_is_unwritten_def)
      (simp_all add: extent_new_def ex_start_pblock_def)
  have v: "b < sb_block_count (fs_cached_super_block w_up_fs)" "fs_validate_data_blocks w_up_fs b 1 = Inr ()"
    using assms by (auto simp: w_up_def fs_validate_data_blocks_def validate_data_blocks_def checked_add_def w_up_fs_def w_fs_def
      w_mount_fields partition_point_def journal_owns_block_range_def)
  have q: "extent_query mem_ops w_up_fs ?dir 0 = Inr b"
    using extent_query_tree [OF t o, of 0] m v by simp
  let ?b = "block_new b (w_up_rec p)"
  have r: "fs_read_block mem_ops w_up_fs b = Inr ?b"
    using assms by (auto simp: w_up_def fs_read_block_def mem_ops_def mem_read_block_def w_up_fs_def w_fs_def w_mount_device_def)
  have l: "dir_layout ?b False [w_up_rec p]"
    using w_up_rec_fields [of p] by (simp add: dir_layout_def block_new_def block_wf_def BLOCK_SIZE_def dir_data_end_def)
  then have "block_wf ?b" by (simp add: dir_layout_def)
  then have "validate_leaf ?b s i g False = Inr ()" for s g using validate_leaf_iff [of ?b s i g False] l by blast
  then have "load_dir_block mem_ops w_up_fs ?dir 0 = Inr (?b, dir_block_layout.Leaf)"
    using q r csum by (simp add: load_dir_block_def validate_dir_block_def dir_validate_def w_up_inode_def inode_default_def)
  moreover have "rec_used (w_up_rec p)"
    using assms w_up_rec_fields(3) [of p] by (auto simp: w_up_def rec_used_def)
  ultimately show ?thesis
    using n dir_list_rep [OF l, of "[]"] by (simp add: dir_list_entries_def csum or_abort_def)
qed

theorem lookup_agrees_with_listing_witness:
  "dir_find_entry mem_ops w_up_fs \<lparr>ir_id = 12, ir_inode = w_up_inode 9\<rparr> dot_dot = Inr 2 \<and>
   dir_find_entry mem_ops w_up_fs \<lparr>ir_id = 12, ir_inode = w_up_inode 9\<rparr> [97] = Inl (Err ENOENT)"
proof -
  have l: "dir_list_entries mem_ops w_up_fs \<lparr>ir_id = 12, ir_inode = w_up_inode 9\<rparr> = Inr [rec_entry (w_up_rec 2)]"
    by (rule w_up_list [of _ _ 2]) (simp add: w_up_def)
  show ?thesis
    using lookup_agrees_with_listing [OF l, of dot_dot] lookup_agrees_with_listing [OF l, of "[97]"] w_up_rec_fields [of 2]
    by (simp add: dot_dot_def)
qed

lemma w_up_parent:
  assumes "(i, b, p) \<in> set w_up"
  shows "parent_dir mem_ops w_up_fs i = Some p"
proof -
  let ?dir = "\<lparr>ir_id = i, ir_inode = w_up_inode b\<rparr>"
  have "dir_find_entry mem_ops w_up_fs ?dir dot_dot = Inr p"
    using lookup_listed [OF w_up_list [OF assms], of dot_dot] w_up_rec_fields [of p] by (simp add: dot_dot_def)
  then show ?thesis by (simp add: parent_dir_def w_up_read [OF assms])
qed

theorem ancestor_check_decides_witness:
  "\<exists>c c'. check_ancestor_cycle mem_ops w_up_fs 12 12 = Some (with_cache c w_up_fs, Inl (Err EINVAL)) \<and>
     check_ancestor_cycle mem_ops w_up_fs 15 12 = Some (with_cache c' w_up_fs, Inr ())"
proof -
  have s: "steps_up mem_ops w_up_fs 12 p \<longleftrightarrow> p = EXT4_ROOT_INO" for p
    using w_up_parent [of 12 9 2] by (auto simp: steps_up_def w_up_def EXT4_ROOT_INO_def)
  then have r: "(steps_up mem_ops w_up_fs)\<^sup>*\<^sup>* 12 EXT4_ROOT_INO" by blast
  have "\<not> (steps_up mem_ops w_up_fs)\<^sup>*\<^sup>* 12 15"
  proof
    assume "(steps_up mem_ops w_up_fs)\<^sup>*\<^sup>* 12 15"
    then have "(steps_up mem_ops w_up_fs)\<^sup>*\<^sup>* EXT4_ROOT_INO 15" using s by (auto elim: converse_rtranclpE)
    then show False by (cases rule: converse_rtranclpE) (simp_all add: steps_up_def EXT4_ROOT_INO_def)
  qed
  then show ?thesis
    using ancestor_check_decides [OF w_up_coherent r, of 12] ancestor_check_decides [OF w_up_coherent r, of 15] by simp
qed

theorem ancestor_check_cycle_never_returns_witness: "check_ancestor_cycle mem_ops w_up_fs 12 13 = None"
  by (rule ancestor_check_cycle_never_returns [OF w_up_coherent, of _ "{13, 14}"])
    (use w_up_parent [of 13 10 14] w_up_parent [of 14 11 13] in \<open>simp_all add: w_up_def EXT4_ROOT_INO_def\<close>)

end
