(* ===== verification/Spec2Isabelle.thy ===== *)
theory Spec2Isabelle
  imports Prelude Bytes Crc Bitmap Block_Device Record_Laws Super_Block Block_Group Extent_Node Inode Dir_Block
    Xattr_Block Jbd2 BTree_Map Journal_Recovery Journal_Transaction Journal_Log Journal_Walk Journal_Crash
    Crash_Atomicity Journal_History Transaction_States Direct_Range Log_Roundtrip Metadata_Gate
    Mount_Geometry File_System Allocation Block_Accounting Extent_Tree Extent_Search Extent_Lookup
    Transaction_Allocation Orphan_List Reclaim Journal_Mount Mounted_Journal Dir_Ops Link File_Data
    Namespace Xattr_Ops Path_Ops File_Content Xattr_Laws Path_Laws Fail_Stop Directory_Laws
begin

text \<open>
  A verification library for the ext4 file system in \<^verbatim>\<open>src/src\<close> (crate \<^verbatim>\<open>another_ext4\<close>): the on-disk formats, the
  allocators, the extent trees, the JBD2 journal with its recovery, and the operations on files, names, extended
  attributes and paths that the crate offers to its callers. Paths below are relative to \<^verbatim>\<open>src/\<close>.

  \<^bold>\<open>The program.\<close> \<^verbatim>\<open>src/ext4_defs\<close> holds the structures of the disk, each with its byte image, its checksum and the changes
  of one structure in memory. \<^verbatim>\<open>src/ext4\<close> holds the object \<^verbatim>\<open>Ext4\<close>: a block device, the cached superblock and descriptors, a
  cache of inodes, the gate that keeps direct and transactional mutations apart, a poison flag, and a metadata mode that
  is read-only or owns a transaction backend. The layers call downwards: \<^verbatim>\<open>high_level.rs\<close> (paths) calls \<^verbatim>\<open>low_level.rs\<close>
  (operations by inode number), which calls \<^verbatim>\<open>dir.rs\<close>, \<^verbatim>\<open>link.rs\<close>, \<^verbatim>\<open>alloc.rs\<close>, \<^verbatim>\<open>orphan.rs\<close> and \<^verbatim>\<open>xattr_reclaim.rs\<close>, which call
  \<^verbatim>\<open>extent.rs\<close> and \<^verbatim>\<open>rw.rs\<close>. Deletions, replacing renames and reclaims run in transactions of \<^verbatim>\<open>journal_transaction.rs\<close>,
  on the journal of \<^verbatim>\<open>journal.rs\<close> or without one; \<^verbatim>\<open>journal_recovery.rs\<close> replays the log at a mount.

  \<^bold>\<open>Conventions.\<close> (\<open>Prelude\<close>, \<open>Bytes\<close>)
  \<^item> Machine integers are words of their width; \<^verbatim>\<open>usize\<close> is a natural number with the bound \<open>2^64\<close> written where it matters.
    The model is the checked build: an addition or subtraction that overflows is a panic (\<open>add_chk\<close>, \<open>sub_chk\<close>), explicit
    wrapping, checked and saturating operations are modelled as such, casts with \<^verbatim>\<open>as\<close> truncate.
  \<^item> A fallible operation returns \<open>'a res = fault + 'a\<close>: \<open>Inl (Err e)\<close> is an error code, \<open>Inl Panic\<close> a panic, so each early
    return, \<^verbatim>\<open>?\<close> and index out of range is a branch. The state next to \<open>Inl Panic\<close> has no meaning.
  \<^item> Stateful operations take the state and return it with the result; \<open>sbind\<close> is the sequence that stops at an error
    and keeps the changes made so far. Objects of the caller that an operation changes (an \<^verbatim>\<open>&mut InodeRef\<close>) are part of the state.
  \<^item> A loop with a bound of its own is a \<open>function\<close> with a termination measure. A loop whose end depends on the data of
    the disk is a \<open>partial_function (option)\<close>, where \<open>None\<close> means that it does not return: the walks over records of a
    directory block, the walks over an extent tree, the loops of truncate and reclaim, the check of ancestors. For these
    the properties show that they return on well-formed data (\<open>dir_validated_reads\<close>, \<open>extent_query_correct\<close>, \<open>tree_walks_complete\<close>,
    \<open>ancestor_check_decides\<close>), or that they do not on a cycle (\<open>find_extent_cycle_never_returns\<close>,
    \<open>ancestor_check_cycle_never_returns\<close>). Callers far above that cannot return \<open>None\<close> turn it into \<open>Inl Panic\<close> (\<open>or_abort\<close>);
    \<open>rename\<close>, \<open>rename_exchange\<close>, \<open>reclaim_inode\<close>, \<open>truncate\<close> and \<open>generic_remove\<close> keep the option.
  \<^item> The block device is a record of operations, \<open>device_ops\<close>, over an arbitrary state: the trait \<^verbatim>\<open>BlockDevice\<close>. It is a
    parameter of every definition that does I/O.

  \<^bold>\<open>Theories and what they show.\<close>

  Structures of the disk.
  \<^item> \<open>Crc\<close> (\<^verbatim>\<open>ext4_defs/crc.rs\<close>): the table-driven CRC32C, equal to division bit by bit; a change inside one byte is detected.
  \<^item> \<open>Bitmap\<close> (\<^verbatim>\<open>bitmap.rs\<close>): tests, changes and searches; the search for runs that skips equals the linear scan.
  \<^item> \<open>Block_Device\<close> (\<^verbatim>\<open>block.rs\<close>): blocks, the trait, the device in memory; \<open>Record_Laws\<close>: the contracts of fields and checksums.
  \<^item> \<open>Super_Block\<close>, \<open>Block_Group\<close>, \<open>Inode\<close> (the files of these names): images, round trips, fields of several words, checksums.
  \<^item> \<open>Extent_Node\<close> (\<^verbatim>\<open>extent.rs\<close> of \<^verbatim>\<open>ext4_defs\<close>): search and insertion in one node.
  \<^item> \<open>Dir_Block\<close> (\<^verbatim>\<open>ext4_defs/dir.rs\<close>): a block as a sequence of records; validation, lookup, listing, insertion, removal.
  \<^item> \<open>Xattr_Block\<close> (\<^verbatim>\<open>xattr.rs\<close>): an attribute block as a list of bindings; insertion and removal with the offsets of the values.
  \<^item> \<open>Jbd2\<close> (\<^verbatim>\<open>src/jbd2.rs\<close>): headers, features, tags, revoke records, checksums, the parser of the journal superblock.

  The journal.
  \<^item> \<open>BTree_Map\<close>: \<^verbatim>\<open>BTreeMap\<close> of the standard library as a sorted list of bindings.
  \<^item> \<open>Journal_Transaction\<close> (\<^verbatim>\<open>journal_transaction.rs\<close>): both backends, staging, the layout of the log, the commits, the
    rollback of a direct range. \<open>Journal_Recovery\<close> (\<^verbatim>\<open>journal_recovery.rs\<close>): the three passes; no input makes them panic, and
    their effects come in the documented order.
  \<^item> \<open>Log_Roundtrip\<close>, \<open>Journal_Log\<close>, \<open>Journal_Walk\<close>, \<open>Journal_Crash\<close>, \<open>Crash_Atomicity\<close>, \<open>Journal_History\<close>: what is written is what
    recovery reads; on a device with a volatile cache that loses power after any number of operations and keeps any
    part of its cache, each commit is atomic, and so is every sequence of updates. The number of operations until the
    loss of power (\<open>cd_fuel\<close>) is arbitrary, so every point of every commit is covered.
  \<^item> \<open>Transaction_States\<close>: the life of transactions as a step relation with its invariant, and the ends of a commit: what
    poisons, and that the caches see durable blocks only; \<open>Direct_Range\<close>: the range commit
    without a journal under write errors.
  \<^item> \<open>Journal_Mount\<close>, \<open>Mounted_Journal\<close> (\<^verbatim>\<open>journal.rs\<close>, \<^verbatim>\<open>mod.rs\<close>): the mount, and that it establishes what the theorems about
    loss of power assume, except that no block of the ring looks like one of a future transaction.

  The object and its metadata.
  \<^item> \<open>Mount_Geometry\<close> (\<^verbatim>\<open>mod.rs\<close>): the checks of a mount and the table of system ranges; accepted data ranges avoid metadata.
  \<^item> \<open>Metadata_Gate\<close> (\<^verbatim>\<open>mod.rs\<close>): the gate word under every interleaving of the atomic instructions of any number of threads.
  \<^item> \<open>File_System\<close> (\<^verbatim>\<open>mod.rs\<close>, \<^verbatim>\<open>rw.rs\<close>): the object, the cache, poisoning, loading, reads and writes of metadata and their staging.
  \<^item> \<open>Allocation\<close>, \<open>Transaction_Allocation\<close> (\<^verbatim>\<open>alloc.rs\<close>): allocation and release, direct and staged. \<open>Block_Accounting\<close>: the bitmaps
    as the set of free blocks, with the counters; soundness and completeness of allocation.
  \<^item> \<open>Extent_Tree\<close> (\<^verbatim>\<open>ext4/extent.rs\<close>); \<open>Extent_Search\<close>, \<open>Extent_Lookup\<close>: the tree a disk holds as the datatype \<open>etree\<close>, and lookup,
    walks and validation over it.
  \<^item> \<open>Orphan_List\<close> (\<^verbatim>\<open>orphan.rs\<close>, \<^verbatim>\<open>xattr_reclaim.rs\<close>), \<open>Reclaim\<close> (\<^verbatim>\<open>alloc.rs\<close>): the list of orphans, cleanup, the end of an inode.

  Operations.
  \<^item> \<open>Dir_Ops\<close> (\<^verbatim>\<open>ext4/dir.rs\<close>), \<open>Link\<close> (\<^verbatim>\<open>link.rs\<close>): entries over all blocks of a directory; publishing and removing names.
  \<^item> \<open>File_Data\<close>, \<open>Namespace\<close>, \<open>Xattr_Ops\<close> (\<^verbatim>\<open>low_level.rs\<close>): attributes, reads, writes, direct ranges; create, link, unlink, mkdir,
    rmdir, rename, exchange; extended attributes. \<open>Path_Ops\<close> (\<^verbatim>\<open>high_level.rs\<close>): the same by path.
  \<^item> \<open>File_Content\<close>: a file as one list of bytes; reading is a slice of it, writing replaces one. \<open>Xattr_Laws\<close>: attributes as a
    finite map. \<open>Directory_Laws\<close>: lookup agrees with listing, a coherent cache has no influence, the check of ancestors.
    \<open>Fail_Stop\<close>: a failed move has changed nothing or stops all later mutations. \<open>Path_Laws\<close>: parents of paths.

  \<^bold>\<open>Interfaces.\<close> \<open>bit_store\<close> (a bitmap for the allocators), \<open>field_store\<close>, \<open>field\<close> and \<open>sealed\<close> (structures with checksums),
  \<open>block_device\<close> (a successful write is read back and touches nothing else), its extensions \<open>faulty_device\<close> (failures leave
  other blocks alone), \<open>reliable_device\<close> (no failures) and \<open>volatile_device\<close> (what was flushed survives a loss of power), and
  \<open>walk_invariant\<close> (a pass of recovery). Each is interpreted on the
  model's own definitions: the bitmaps, the accessors of superblock, descriptor and inode, the checksums, the device in
  memory of \<^verbatim>\<open>block_dev.rs\<close> and the device that loses power, the passes of \<^verbatim>\<open>walk\<close>.

  \<^bold>\<open>Bounds.\<close> The ring of the journal bounds the recursion of recovery: each step of a pass consumes a block of it. The validation
  of orphans is bounded by the number of inodes, that of an extent tree by the depth of its root (at most 5). Reads and
  writes consume their buffer, searches of the allocators their bitmap.

  \<^bold>\<open>Not modelled.\<close>
  \<^item> Blocking and scheduling: one call runs at a time, except in \<open>Metadata_Gate\<close>. The mutexes of inodes and of the name space
    are never contended in a sequential run; the order in which they are taken is \<open>lock_inode_mutations\<close>.
  \<^item> Failures of memory allocation, log messages, and the counters of statistics, which no operation reads.
  \<^item> \<^verbatim>\<open>ext4_defs/mount_point.rs\<close> (formatting of a path) and the module declarations of \<^verbatim>\<open>lib.rs\<close>.
  \<^item> \<^verbatim>\<open>ext4_fuse\<close> except the device in memory: calls between the crate \<^verbatim>\<open>fuser\<close>, whose code is not in the repository, and this
    library; and \<^verbatim>\<open>ext4_test\<close>, the tests.
\<close>

end
